(* ===== verification/Prelude.thy ===== *)
theory Prelude
  imports Main "HOL-Library.Word"
begin

text \<open>
  Shared vocabulary of the development: names for the machine integer types
  of the C and C++ sources, result values for the operations that can fail,
  the generic facts on machine words, lists and per-port tables that several
  components use, and the named collections their proofs draw on.
\<close>

unbundle bit_operations_syntax

section \<open>Types\<close>

type_synonym u8 = "8 word"
type_synonym u16 = "16 word"
type_synonym u32 = "32 word"
type_synonym u64 = "64 word"
type_synonym u128 = "128 word"

text \<open>A C array indexed by a port or queue number: reading is application,
  writing is function update.  The bound of the array is checked by the code
  that indexes it and appears in the definitions as that check.\<close>
type_synonym 'a tab = "nat \<Rightarrow> 'a"

text \<open>What a call that may throw or abort gives back.\<close>
datatype ('e, 'a) outcome = is_Fail: Fail (err: 'e) | Done (val: 'a)

fun bind_outcome :: "('e, 'a) outcome \<Rightarrow> ('a \<Rightarrow> ('e, 'b) outcome) \<Rightarrow> ('e, 'b) outcome" where
  "bind_outcome (Fail e) k = Fail e"
| "bind_outcome (Done x) k = k x"

lemma bind_outcome_Done: "bind_outcome r k = Done y \<longleftrightarrow> (\<exists>x. r = Done x \<and> k x = Done y)"
  by (cases r) simp_all

lemma not_is_Fail: "\<not> is_Fail r \<longleftrightarrow> (\<exists>x. r = Done x)"
  by (cases r) simp_all

named_theorems model_defs \<open>definitions of operations to unfold in component proofs\<close>
named_theorems word_nat \<open>readings of word expressions as natural numbers\<close>

section \<open>Words as natural numbers\<close>

lemma unat_add_lt [word_nat]:
  fixes a b :: "'a::len word"
  assumes "unat a + unat b < 2 ^ LENGTH('a)"
  shows "unat (a + b) = unat a + unat b"
  using assms by (simp add: unat_word_ariths)

lemma unat_sub_le [word_nat]:
  fixes a b :: "'a::len word"
  assumes "b \<le> a"
  shows "unat (a - b) = unat a - unat b"
  using assms by (rule unat_sub)

lemma unat_mult_lt [word_nat]:
  fixes a b :: "'a::len word"
  assumes "unat a * unat b < 2 ^ LENGTH('a)"
  shows "unat (a * b) = unat a * unat b"
  using assms by (simp add: unat_word_ariths)

lemma unat_min [word_nat]: "unat (min a b) = min (unat a) (unat b)"
  by (auto simp: min_def word_le_nat_alt)

lemma unat_max [word_nat]: "unat (max a b) = max (unat a) (unat b)"
  by (auto simp: max_def word_le_nat_alt)

lemma unat_ucast_up [word_nat]:
  fixes a :: "'a::len word"
  assumes "LENGTH('a) \<le> LENGTH('b::len)"
  shows "unat (ucast a :: 'b word) = unat a"
proof -
  have "unat a < 2 ^ LENGTH('a)" by (rule unsigned_less)
  also have "(2 :: nat) ^ LENGTH('a) \<le> 2 ^ LENGTH('b)" using assms by simp
  finally show ?thesis by (simp add: unsigned_ucast_eq take_bit_nat_eq_self)
qed

lemma unat_lt_2p: "unat (x :: 'a::len word) < 2 ^ LENGTH('a)"
  by (rule unsigned_less)

lemma unat_lt_u32 [intro]: "unat (x :: u32) < 4294967296"
  using unat_lt_2p[of x] by simp

lemma unat_lt_u64 [intro]: "unat (x :: u64) < 18446744073709551616"
  using unat_lt_2p[of x] by simp

lemma unat_sat_sub:
  fixes a b :: "'a::len word"
  shows "unat (if b \<le> a then a - b else 0) = unat a - unat b"
  by (auto simp: unat_sub_le word_le_nat_alt)

lemma unat_sat_sub':
  fixes a b :: "'a::len word"
  shows "unat (if b < a then a - b else 0) = unat a - unat b"
  by (auto simp: unat_sub_le word_less_nat_alt word_le_nat_alt)

lemmas unat_order = word_le_nat_alt word_less_nat_alt

section \<open>Sums over per-port tables\<close>

lemma sum_tab_upd:
  fixes f :: "nat \<Rightarrow> nat"
  assumes "finite A" "p \<in> A"
  shows "(\<Sum>i\<in>A. (f(p := v)) i) + f p = (\<Sum>i\<in>A. f i) + v"
proof -
  have "(\<Sum>i\<in>A. (f(p := v)) i) = v + (\<Sum>i\<in>A - {p}. f i)"
    using assms by (simp add: sum.remove)
  moreover have "(\<Sum>i\<in>A. f i) = f p + (\<Sum>i\<in>A - {p}. f i)"
    using assms by (simp add: sum.remove)
  ultimately show ?thesis by simp
qed

lemma sum_tab_ge:
  fixes f :: "nat \<Rightarrow> nat"
  assumes "finite A" "p \<in> A"
  shows "f p \<le> (\<Sum>i\<in>A. f i)"
  using assms by (simp add: member_le_sum)

text \<open>Two-dimensional tables.\<close>
definition upd2 :: "'a tab tab \<Rightarrow> nat \<Rightarrow> nat \<Rightarrow> 'a \<Rightarrow> 'a tab tab" where
  "upd2 f p q v = f(p := (f p)(q := v))"

lemma upd2_same [simp]: "upd2 f p q v p q = v"
  by (simp add: upd2_def)

lemma upd2_apply: "upd2 f p q v i j = (if i = p \<and> j = q then v else f i j)"
  by (simp add: upd2_def)

lemma upd2_upd2 [simp]: "upd2 (upd2 t p q v) p q w = upd2 t p q w"
  by (auto simp: upd2_def)

lemma upd2_self [simp]: "upd2 t p q (t p q) = t"
  by (auto simp: upd2_def)

lemma upd2_triv: "t p q = v \<Longrightarrow> upd2 t p q v = t"
  by (auto simp: upd2_def)

lemma sum_change:
  fixes f g :: "'b \<Rightarrow> nat"
  assumes "finite A" "\<And>y. y \<in> A \<Longrightarrow> y \<noteq> x \<Longrightarrow> g y = f y"
  shows "x \<in> A \<Longrightarrow> sum g A + f x = sum f A + g x"
    and "x \<notin> A \<Longrightarrow> sum g A = sum f A"
proof -
  assume x: "x \<in> A"
  have "sum g (A - {x}) = sum f (A - {x})" using assms(2) by (intro sum.cong) auto
  then show "sum g A + f x = sum f A + g x" using sum.remove[OF assms(1) x, of g]
    sum.remove[OF assms(1) x, of f] by simp
next
  assume "x \<notin> A"
  then show "sum g A = sum f A" using assms(2) by (intro sum.cong) auto
qed

end
