(* ===== verification/Doubles.thy ===== *)
theory Doubles
  imports Prelude "HOL-Library.Log_Nat"
begin

text \<open>
  Floating-point values of the sources.  A finite binary floating-point
  number is modelled by the rational it denotes, and every arithmetic
  operation rounds its exact result to the nearest number with a p-bit
  significand, ties to even: p is 53 for double and 64 for the x87
  long double.  The exponent range is not modelled: no overflow to infinity,
  no subnormal, no NaN.  Conversions to integers truncate.
\<close>

type_synonym double = rat

section \<open>Rounding\<close>

definition pow2 :: "int \<Rightarrow> rat" where
  "pow2 k = (if 0 \<le> k then 2 ^ nat k else 1 / 2 ^ nat (- k))"

text \<open>The binary exponent of a positive rational.\<close>
definition ilog2 :: "rat \<Rightarrow> int" where
  "ilog2 x = (let (a, b) = quotient_of x; k = bitlen a - bitlen b
              in if pow2 k \<le> x then k else k - 1)"

text \<open>Nearest integer, ties to the even one.\<close>
definition rhe :: "rat \<Rightarrow> int" where
  "rhe x = (let n = \<lfloor>x\<rfloor>; d = x - of_int n
            in if d < 1/2 then n else if 1/2 < d then n + 1
               else if even n then n else n + 1)"

definition rnd_pos :: "nat \<Rightarrow> rat \<Rightarrow> rat" where
  "rnd_pos p x = (let e = ilog2 x - int p + 1 in of_int (rhe (x / pow2 e)) * pow2 e)"

definition rnd :: "nat \<Rightarrow> rat \<Rightarrow> rat" where
  "rnd p x = (if x = 0 then 0 else if 0 < x then rnd_pos p x else - rnd_pos p (- x))"

section \<open>Operations\<close>

definition dbl :: "rat \<Rightarrow> double" where "dbl x = rnd 53 x"
definition ldbl :: "rat \<Rightarrow> rat" where "ldbl x = rnd 64 x"

definition dbl_of_word :: "'a::len word \<Rightarrow> double" where
  "dbl_of_word w = dbl (of_int (uint w))"

definition dbl_of_int :: "int \<Rightarrow> double" where
  "dbl_of_int i = dbl (of_int i)"

definition fadd :: "double \<Rightarrow> double \<Rightarrow> double" where "fadd x y = dbl (x + y)"
definition fsub :: "double \<Rightarrow> double \<Rightarrow> double" where "fsub x y = dbl (x - y)"
definition fmul :: "double \<Rightarrow> double \<Rightarrow> double" where "fmul x y = dbl (x * y)"
definition fdiv :: "double \<Rightarrow> double \<Rightarrow> double" where "fdiv x y = dbl (x / y)"

text \<open>Conversion to an integer type drops the fraction.  The C conversion is
  undefined when the truncated value does not fit; the model keeps the low
  bits then, and the theorems state the range where they need it.\<close>
definition trunc :: "rat \<Rightarrow> int" where
  "trunc x = (if 0 \<le> x then \<lfloor>x\<rfloor> else \<lceil>x\<rceil>)"

definition word_of_dbl :: "rat \<Rightarrow> 'a::len word" where
  "word_of_dbl x = word_of_int (trunc x)"

section \<open>Powers of two and exponents\<close>

lemma pow2_pos [simp]: "0 < pow2 k"
  by (simp add: pow2_def)

lemma pow2_nonneg [simp]: "0 \<le> pow2 k"
  by (simp add: pow2_def)

lemma pow2_neq_0 [simp]: "pow2 k \<noteq> 0"
  using pow2_pos[of k] by linarith

lemma pow2_of_nat: "pow2 (int n) = 2 ^ n"
  by (simp add: pow2_def)

lemma pow2_power_int: "pow2 k = power_int 2 k"
  by (simp add: pow2_def power_int_def field_simps)

lemma pow2_add: "pow2 (a + b) = pow2 a * pow2 b"
  by (simp add: pow2_power_int power_int_add)

lemma pow2_mono: "a \<le> b \<Longrightarrow> pow2 a \<le> pow2 b"
  by (simp add: pow2_power_int power_int_increasing)

lemma pow2_less_cancel: "pow2 a < pow2 b \<Longrightarrow> a < b"
  using pow2_mono[of b a] by (meson leD not_le)

lemma pow2_0 [simp]: "pow2 0 = 1"
  by (simp add: pow2_def)

lemma bitlen_bounds_rat:
  assumes "0 < a"
  shows "pow2 (bitlen a - 1) \<le> of_int a" "(of_int a :: rat) < pow2 (bitlen a)"
proof -
  have b: "2 ^ nat (bitlen a - 1) \<le> a \<and> a < 2 ^ nat (bitlen a)"
    using assms by (rule bitlen_bounds)
  have p: "0 < bitlen a" using assms by (simp add: bitlen_eq_zero_iff bitlen_nonneg order_less_le)
  have "of_int (2 ^ nat (bitlen a - 1)) \<le> (of_int a :: rat)"
    using b by (simp only: of_int_le_iff)
  then show "pow2 (bitlen a - 1) \<le> of_int a" using p by (simp add: pow2_def)
  have "(of_int a :: rat) < of_int (2 ^ nat (bitlen a))"
    using b by (simp only: of_int_less_iff)
  then show "(of_int a :: rat) < pow2 (bitlen a)" using p by (simp add: pow2_def)
qed

lemma ilog2_bounds:
  assumes "0 < x"
  shows "pow2 (ilog2 x) \<le> x" "x < pow2 (ilog2 x + 1)"
proof -
  obtain a b where q: "quotient_of x = (a, b)" by force
  have b: "0 < b" using q by (rule quotient_of_denom_pos)
  have x: "x = of_int a / of_int b" using q by (rule quotient_of_div)
  have a: "0 < a" using assms b unfolding x by (simp add: zero_less_divide_iff)
  have xb: "x * of_int b = of_int a" using x b by simp
  have up: "x < pow2 (bitlen a - bitlen b + 1)"
  proof -
    have "x * pow2 (bitlen b - 1) \<le> x * of_int b"
      using assms bitlen_bounds_rat(1)[OF b] by simp
    also have "\<dots> < pow2 (bitlen a)" using xb bitlen_bounds_rat(2)[OF a] by simp
    also have "\<dots> = pow2 (bitlen a - bitlen b + 1) * pow2 (bitlen b - 1)"
      by (simp flip: pow2_add)
    finally show ?thesis by (simp add: mult_less_cancel_right_pos)
  qed
  have lo: "pow2 (bitlen a - bitlen b - 1) \<le> x"
  proof -
    have "pow2 (bitlen a - bitlen b - 1) * pow2 (bitlen b) = pow2 (bitlen a - 1)"
      by (simp flip: pow2_add)
    also have "\<dots> \<le> x * of_int b" using xb bitlen_bounds_rat(1)[OF a] by simp
    also have "\<dots> \<le> x * pow2 (bitlen b)"
      using assms bitlen_bounds_rat(2)[OF b] by simp
    finally show ?thesis by (simp add: mult_le_cancel_right_pos)
  qed
  show "pow2 (ilog2 x) \<le> x" "x < pow2 (ilog2 x + 1)"
    using up lo by (auto simp: ilog2_def q Let_def)
qed

lemma ilog2_unique:
  assumes "pow2 k \<le> x" "x < pow2 (k + 1)"
  shows "ilog2 x = k"
proof -
  have "0 < x" using assms(1) pow2_pos[of k] by linarith
  note l = ilog2_bounds[OF this]
  have "ilog2 x < k + 1" using l(1) assms(2) by (intro pow2_less_cancel) linarith
  moreover have "k < ilog2 x + 1" using l(2) assms(1) by (intro pow2_less_cancel) linarith
  ultimately show ?thesis by simp
qed

lemma ilog2_mono:
  assumes "0 < x" "x \<le> y"
  shows "ilog2 x \<le> ilog2 y"
proof -
  have "pow2 (ilog2 x) < pow2 (ilog2 y + 1)"
    using ilog2_bounds[of x] ilog2_bounds[of y] assms by linarith
  then show ?thesis using pow2_less_cancel by fastforce
qed

section \<open>Nearest integer\<close>

lemma rhe_of_int [simp]: "rhe (of_int n) = n"
  by (simp add: rhe_def)

lemma rhe_bounds: "\<lfloor>x\<rfloor> \<le> rhe x" "rhe x \<le> \<lfloor>x\<rfloor> + 1"
  by (simp_all add: rhe_def Let_def)

lemma rhe_mono:
  assumes "x \<le> y"
  shows "rhe x \<le> rhe y"
proof (cases "\<lfloor>x\<rfloor> = \<lfloor>y\<rfloor>")
  case True
  then show ?thesis using assms by (auto simp: rhe_def Let_def)
next
  case False
  then have "\<lfloor>x\<rfloor> + 1 \<le> \<lfloor>y\<rfloor>" using floor_mono[OF assms] by simp
  then show ?thesis using rhe_bounds[of x] rhe_bounds[of y] by linarith
qed

section \<open>Rounding is monotone and exact on small integers\<close>

lemma rnd_pos_lower:
  assumes "0 < x" "0 < p"
  shows "pow2 (ilog2 x) \<le> rnd_pos p x"
proof -
  let ?e = "ilog2 x - int p + 1"
  have split: "pow2 (ilog2 x) = pow2 (int p - 1) * pow2 ?e" by (simp flip: pow2_add)
  have int: "pow2 (int p - 1) = of_int (2 ^ (p - 1))"
    using assms(2) by (simp add: pow2_def nat_diff_distrib)
  have "pow2 (int p - 1) \<le> x / pow2 ?e"
    using ilog2_bounds(1)[OF assms(1)] unfolding split by (simp add: pos_le_divide_eq)
  then have "rhe (of_int (2 ^ (p - 1))) \<le> rhe (x / pow2 ?e)"
    unfolding int by (rule rhe_mono)
  then have "(of_int (2 ^ (p - 1)) :: rat) \<le> of_int (rhe (x / pow2 ?e))"
    by (simp only: rhe_of_int of_int_le_iff)
  then show ?thesis
    unfolding rnd_pos_def Let_def split int[symmetric] by (simp add: mult_right_mono)
qed

lemma rnd_pos_upper:
  assumes "0 < x" "0 < p"
  shows "rnd_pos p x \<le> pow2 (ilog2 x + 1)"
proof -
  let ?e = "ilog2 x - int p + 1"
  have split: "pow2 (ilog2 x + 1) = pow2 (int p) * pow2 ?e" by (simp flip: pow2_add add: algebra_simps)
  have int: "pow2 (int p) = of_int (2 ^ p)" by (simp add: pow2_of_nat)
  have "x / pow2 ?e \<le> pow2 (int p)"
    using ilog2_bounds(2)[OF assms(1)] unfolding split by (simp add: pos_divide_le_eq)
  then have "rhe (x / pow2 ?e) \<le> rhe (of_int (2 ^ p))"
    unfolding int by (rule rhe_mono)
  then have "(of_int (rhe (x / pow2 ?e)) :: rat) \<le> of_int (2 ^ p)"
    by (simp only: rhe_of_int of_int_le_iff)
  then show ?thesis
    unfolding rnd_pos_def Let_def split int[symmetric] by (simp add: mult_right_mono)
qed

lemma rnd_pos_mono:
  assumes "0 < x" "x \<le> y" "0 < p"
  shows "rnd_pos p x \<le> rnd_pos p y"
proof (cases "ilog2 x = ilog2 y")
  case True
  then show ?thesis unfolding rnd_pos_def Let_def
    using rhe_mono[of "x / pow2 (ilog2 y - int p + 1)" "y / pow2 (ilog2 y - int p + 1)"] assms
    by (simp add: divide_right_mono mult_right_mono)
next
  case False
  then have "ilog2 x + 1 \<le> ilog2 y" using ilog2_mono[OF assms(1,2)] by simp
  then have "pow2 (ilog2 x + 1) \<le> pow2 (ilog2 y)" by (rule pow2_mono)
  then show ?thesis using rnd_pos_upper[of x p] rnd_pos_lower[of y p] assms by linarith
qed

lemma rnd_pos_gt0: "0 < x \<Longrightarrow> 0 < p \<Longrightarrow> 0 < rnd_pos p x"
  using rnd_pos_lower[of x p] pow2_pos[of "ilog2 x"] by linarith

lemma rnd_0 [simp]: "rnd p 0 = 0"
  by (simp add: rnd_def)

lemma rnd_mono:
  assumes "x \<le> y" "0 < p"
  shows "rnd p x \<le> rnd p y"
  using assms rnd_pos_mono[of x y p] rnd_pos_mono[of "- y" "- x" p]
    rnd_pos_gt0[of "- x" p] rnd_pos_gt0[of y p]
  by (auto simp: rnd_def)

lemma rnd_nonneg: "0 \<le> x \<Longrightarrow> 0 < p \<Longrightarrow> 0 \<le> rnd p x"
  using rnd_mono[of 0 x p] by simp

lemma rnd_pos_of_nat:
  assumes "0 < n" "n \<le> 2 ^ p" "0 < p"
  shows "rnd_pos p (of_nat n) = of_nat n"
proof (cases "n = 2 ^ p")
  case True
  have n: "(of_nat n :: rat) = pow2 (int p)" by (simp add: True pow2_of_nat)
  have "ilog2 (of_nat n) = int p"
    unfolding n by (rule ilog2_unique) (simp_all add: pow2_add, simp add: pow2_def)
  moreover have "(of_nat n :: rat) / pow2 1 = of_int (2 ^ (p - 1))"
    using assms(3) by (simp add: True pow2_def power_eq_if[of _ p])
  ultimately have "rnd_pos p (of_nat n) = of_int (2 ^ (p - 1)) * pow2 1"
    using rhe_of_int[of "2 ^ (p - 1)"] by (simp add: rnd_pos_def)
  also have "\<dots> = of_nat n" using assms(3) by (simp add: True pow2_def power_eq_if[of _ p])
  finally show ?thesis .
next
  case False
  let ?e = "ilog2 (of_nat n) - int p + 1"
  have "pow2 (ilog2 (of_nat n)) \<le> of_nat n" using ilog2_bounds(1)[of "of_nat n"] assms(1) by simp
  also have "(of_nat n :: rat) < of_nat (2 ^ p)"
    using assms(2) False by (intro of_nat_less_iff[THEN iffD2]) simp
  also have "\<dots> = pow2 (int p)" by (simp add: pow2_of_nat)
  finally have "ilog2 (of_nat n) < int p" by (rule pow2_less_cancel)
  then have "?e \<le> 0" by simp
  then have eq: "of_nat n / pow2 ?e = (of_int (int n * 2 ^ nat (- ?e)) :: rat)"
    by (auto simp: pow2_def)
  have "rnd_pos p (of_nat n) = (of_nat n / pow2 ?e) * pow2 ?e"
    unfolding rnd_pos_def Let_def eq rhe_of_int ..
  then show ?thesis by simp
qed

lemma rnd_of_nat: "n \<le> 2 ^ p \<Longrightarrow> 0 < p \<Longrightarrow> rnd p (of_nat n) = of_nat n"
  by (cases "n = 0") (simp_all add: rnd_def rnd_pos_of_nat)

lemma dbl_mono: "x \<le> y \<Longrightarrow> dbl x \<le> dbl y"
  by (simp add: dbl_def rnd_mono)

lemma dbl_nonneg: "0 \<le> x \<Longrightarrow> 0 \<le> dbl x"
  by (simp add: dbl_def rnd_nonneg)

lemma dbl_0 [simp]: "dbl 0 = 0"
  by (simp add: dbl_def)

lemma dbl_of_nat: "n \<le> 9007199254740992 \<Longrightarrow> dbl (of_nat n) = of_nat n"
  unfolding dbl_def by (rule rnd_of_nat) simp_all

lemma dbl_1: "dbl 1 = 1"
  using dbl_of_nat[of 1] by simp

lemma dbl_minus: "dbl (- x) = - dbl x"
  by (simp add: dbl_def rnd_def)

lemma dbl_of_int_exact: "\<bar>i\<bar> \<le> 9007199254740992 \<Longrightarrow> dbl (of_int i) = of_int i"
  using dbl_of_nat[of "nat i"] dbl_of_nat[of "nat (- i)"] dbl_minus[of "of_int (- i)"]
  by (cases "0 \<le> i") auto

lemma dbl_of_word_exact:
  assumes "unat w \<le> 9007199254740992"
  shows "dbl_of_word w = of_nat (unat w)"
  using dbl_of_nat[OF assms] by (simp add: dbl_of_word_def)

lemma dbl_of_word_nonneg [simp]: "0 \<le> dbl_of_word w"
  unfolding dbl_of_word_def by (rule dbl_nonneg) (simp only: of_int_0_le_iff uint_ge_0)

lemma fmul_nonneg: "0 \<le> x \<Longrightarrow> 0 \<le> y \<Longrightarrow> 0 \<le> fmul x y"
  by (simp add: fmul_def dbl_nonneg)

lemma fdiv_nonneg: "0 \<le> x \<Longrightarrow> 0 \<le> y \<Longrightarrow> 0 \<le> fdiv x y"
  by (simp add: fdiv_def dbl_nonneg)

lemma trunc_nonneg: "0 \<le> x \<Longrightarrow> 0 \<le> trunc x"
  by (simp add: trunc_def)

lemma trunc_mono: "x \<le> y \<Longrightarrow> trunc x \<le> trunc y"
  by (auto simp: trunc_def floor_mono ceiling_mono intro: order_trans[of _ 0])

lemma trunc_of_nat [simp]: "trunc (of_nat n) = int n"
  by (simp add: trunc_def)

lemma unat_word_of_dbl:
  assumes "0 \<le> x" "x < 2 ^ LENGTH('a)"
  shows "unat (word_of_dbl x :: 'a::len word) = nat (trunc x)"
proof -
  have "\<lfloor>x\<rfloor> < 2 ^ LENGTH('a)" using assms(2) by (simp add: floor_less_iff)
  then show ?thesis using assms(1)
    by (simp add: word_of_dbl_def trunc_def unsigned_of_int take_bit_int_eq_self)
qed

end
