(* ===== verification/Admission.thy ===== *)
theory Admission
  imports Prelude
begin

text \<open>
  The contract between a switch and the buffer manager that accounts for its
  queues: an arriving packet is checked, charged to its port if the check
  admits it, and released when it leaves.  The switch's side is proved once
  here, for any buffer manager that keeps the contract: the bytes a port is
  charged for are exactly the bytes of the packets in its queue.
\<close>

text \<open>What the switch does with a port's packets: a packet of n bytes arrives, or
  the packet at position i leaves.  A queue sends its packets in order of arrival,
  but packets that arrived on one port leave through several, in any order.\<close>
datatype port_op = Arrive nat u32 | Depart nat nat

text \<open>One operation of the switch on a buffer manager state and the sizes of
  the packets each port is charged for, in order of arrival.\<close>
fun port_step ::
  "(nat \<Rightarrow> u32 \<Rightarrow> 's \<Rightarrow> bool \<times> 's) \<Rightarrow> (nat \<Rightarrow> u32 \<Rightarrow> 's \<Rightarrow> 's) \<Rightarrow> (nat \<Rightarrow> u32 \<Rightarrow> 's \<Rightarrow> 's)
   \<Rightarrow> port_op \<Rightarrow> 's \<times> u32 list tab \<Rightarrow> 's \<times> u32 list tab" where
  "port_step check charge release (Arrive p n) (s, q) =
    (let (admitted, s) = check p n s
     in if admitted then (charge p n s, q(p := q p @ [n])) else (s, q))"
| "port_step check charge release (Depart p i) (s, q) =
    (case drop i (q p) of [] \<Rightarrow> (s, q) | n # ns \<Rightarrow> (release p n s, q(p := take i (q p) @ ns)))"

text \<open>The operations the contract covers: on a queue that exists, with packets of
  at most maxp bytes.\<close>
fun op_ok :: "(nat \<Rightarrow> bool) \<Rightarrow> nat \<Rightarrow> port_op \<Rightarrow> bool" where
  "op_ok valid maxp (Arrive p n) \<longleftrightarrow> valid p \<and> unat n \<le> maxp"
| "op_ok valid maxp (Depart p i) \<longleftrightarrow> valid p"

lemma op_ok_any: "list_all (op_ok (\<lambda>_. True) 4294967295) ops"
proof -
  have "op_ok (\<lambda>_. True) 4294967295 op" for op
    using unat_lt_u32 by (cases op) (auto simp: less_Suc_eq_le[symmetric])
  then show ?thesis by (simp add: list_all_iff)
qed

definition queue_bytes :: "u32 list \<Rightarrow> nat" where
  "queue_bytes ns = sum_list (map unat ns)"

lemma queue_bytes_simps [simp]:
  "queue_bytes [] = 0"
  "queue_bytes (n # ns) = unat n + queue_bytes ns"
  "queue_bytes (ns @ ms) = queue_bytes ns + queue_bytes ms"
  by (simp_all add: queue_bytes_def)

lemma queue_bytes_take_out:
  assumes "drop i ns = n # ms"
  shows "queue_bytes ns = unat n + queue_bytes (take i ns @ ms)"
  using arg_cong[OF append_take_drop_id[of i ns], of queue_bytes] assms by simp

locale admission =
  fixes inv :: "'s \<Rightarrow> bool"
    and occ :: "'s \<Rightarrow> nat \<Rightarrow> nat"
    and valid :: "nat \<Rightarrow> bool"
    and maxp :: nat
    and check :: "nat \<Rightarrow> u32 \<Rightarrow> 's \<Rightarrow> bool \<times> 's"
    and charge :: "nat \<Rightarrow> u32 \<Rightarrow> 's \<Rightarrow> 's"
    and release :: "nat \<Rightarrow> u32 \<Rightarrow> 's \<Rightarrow> 's"
  assumes check_inv: "inv s \<Longrightarrow> inv (snd (check p n s))"
    and check_occ: "occ (snd (check p n s)) = occ s"
    and charge_inv: "inv s \<Longrightarrow> valid p \<Longrightarrow> unat n \<le> maxp \<Longrightarrow> fst (check p n s) \<Longrightarrow>
                       inv (charge p n (snd (check p n s)))"
    and charge_occ: "inv s \<Longrightarrow> valid p \<Longrightarrow> unat n \<le> maxp \<Longrightarrow> fst (check p n s) \<Longrightarrow>
                       occ (charge p n (snd (check p n s))) = (occ s)(p := occ s p + unat n)"
    and release_inv: "inv s \<Longrightarrow> valid p \<Longrightarrow> unat n \<le> occ s p \<Longrightarrow> inv (release p n s)"
    and release_occ: "inv s \<Longrightarrow> valid p \<Longrightarrow> unat n \<le> occ s p \<Longrightarrow>
                       occ (release p n s) = (occ s)(p := occ s p - unat n)"
begin

abbreviation run :: "port_op list \<Rightarrow> 's \<times> u32 list tab \<Rightarrow> 's \<times> u32 list tab" where
  "run ops sq \<equiv> fold (port_step check charge release) ops sq"

definition accounted :: "'s \<times> u32 list tab \<Rightarrow> bool" where
  "accounted sq \<longleftrightarrow> inv (fst sq) \<and> (\<forall>p. occ (fst sq) p = queue_bytes (snd sq p))"

lemma step_accounted:
  assumes "accounted sq" "op_ok valid maxp op"
  shows "accounted (port_step check charge release op sq)"
proof (cases op)
  case (Arrive p n)
  obtain s q where sq: "sq = (s, q)" by force
  obtain b s' where c: "check p n s = (b, s')" by force
  show ?thesis
    using assms check_inv[of s p n] check_occ[of p n s] charge_inv[of s p n] charge_occ[of s p n]
    by (cases b) (simp_all add: accounted_def sq c Arrive)
next
  case (Depart p i)
  obtain s q where sq: "sq = (s, q)" by force
  show ?thesis
  proof (cases "drop i (q p)")
    case Nil
    then show ?thesis using assms(1) by (simp add: sq Depart)
  next
    case (Cons n ns)
    then have "occ s p = unat n + queue_bytes (take i (q p) @ ns)"
      using assms(1) queue_bytes_take_out[OF Cons] by (simp add: accounted_def sq)
    then show ?thesis
      using assms Cons release_inv[of s p n] release_occ[of s p n]
      by (simp add: accounted_def sq Depart)
  qed
qed

theorem run_accounted:
  assumes "accounted sq" "list_all (op_ok valid maxp) ops"
  shows "accounted (run ops sq)"
  using assms by (induction ops arbitrary: sq) (simp_all add: step_accounted)

lemma run_occ:
  assumes "inv s" "\<forall>p. occ s p = 0" "list_all (op_ok valid maxp) ops"
    and "run ops (s, \<lambda>_. []) = (t, q)"
  shows "inv t" "occ t p = queue_bytes (q p)"
  using run_accounted[of "(s, \<lambda>_. [])" ops] assms by (auto simp: accounted_def)

end

end
