(* ===== verification/CbMmu.thy ===== *)
theory CbMmu
  imports Doubles Admission
begin

text \<open>
  The dedicated DPDQ buffer manager, \<^verbatim>\<open>class SwitchCbMmu\<close> of
  \<^verbatim>\<open>src/point-to-point/model/switch-cb-mmu.{h,cc}\<close> in dpdq-ns3: a fixed credit
  queue per egress port and one pool of data bytes shared by all ports, with
  the arrival rule  qd + pkt <= alpha * (Bs - sum qd).  Ports are natural
  numbers (no arithmetic is done on them), byte counts 32-bit words with their
  wrap-around, alpha and the ECN probability doubles.  What LogEvent writes to
  the error stream is kept as a list of records in the state.
\<close>

section \<open>State\<close>

record cb_log =
  ev_event :: string
  ev_node :: u32
  ev_qkind :: string
  ev_port :: nat
  ev_psize :: u32
  ev_before :: u32
  ev_after :: u32
  ev_admitted :: bool
  ev_reason :: string
  ev_credit_q_limit :: u32
  ev_data_guarantee_used :: u32
  ev_data_guarantee_limit :: u32
  ev_data_adm_alpha :: double
  ev_data_shared_used :: u32
  ev_data_shared_limit :: u32
  ev_headroom :: "(u32 \<times> u32) option"

record SwitchCbMmu =
  m_nodeId :: u32
  m_activePortCnt :: u32
  m_maxBufferBytesPerPort :: u32
  m_staticMaxBufferBytes :: u32
  m_maxBufferBytes :: u32
  m_creditQueueLimitBytes :: u32
  m_defaultDataHeadroomBytes :: u32
  m_defaultDataGuaranteeBytes :: u32
  m_dataEcnKminBytes :: u32
  m_dataEcnKmaxBytes :: u32
  m_dataAdmissionAlpha :: double
  m_dataEcnPmax :: double
  m_creditQueueBytes :: "u32 tab"
  m_dataQueueBytes :: "u32 tab"
  m_dataGuaranteedBytesByPort :: "u32 tab"
  m_dataSharedBytesByPort :: "u32 tab"
  m_dataHeadroomBytesByPort :: "u32 tab"
  m_dataGuaranteeLimitBytes :: "u32 tab"
  m_dataHeadroomLimitBytes :: "u32 tab"
  m_dataSharedLimitBytes :: u32
  m_dataSharedUsedBytes :: u32
  m_debugLog :: bool
  m_debugMaxLogs :: u32
  m_debugLogCount :: u32
  m_cerr :: "cb_log list"

definition pCnt :: nat where "pCnt = 128"

definition MTU :: u32 where "MTU = 1048"

definition bad_port :: "nat \<Rightarrow> bool" where
  "bad_port port \<longleftrightarrow> port = 0 \<or> port \<ge> pCnt"

section \<open>Debug log\<close>

definition LogEvent ::
  "string \<Rightarrow> string \<Rightarrow> nat \<Rightarrow> u32 \<Rightarrow> u32 \<Rightarrow> u32 \<Rightarrow> bool \<Rightarrow> string \<Rightarrow> SwitchCbMmu \<Rightarrow> SwitchCbMmu" where
  "LogEvent event queueKind port psize beforeBytes afterBytes admitted reason m =
    (if \<not> m_debugLog m \<or> m_debugLogCount m \<ge> m_debugMaxLogs m then m
     else m\<lparr>m_cerr := m_cerr m @
       [\<lparr>ev_event = event, ev_node = m_nodeId m, ev_qkind = queueKind, ev_port = port,
         ev_psize = psize, ev_before = beforeBytes, ev_after = afterBytes,
         ev_admitted = admitted, ev_reason = reason,
         ev_credit_q_limit = m_creditQueueLimitBytes m,
         ev_data_guarantee_used = (if port < pCnt then m_dataGuaranteedBytesByPort m port else 0),
         ev_data_guarantee_limit = (if port < pCnt then m_dataGuaranteeLimitBytes m port else 0),
         ev_data_adm_alpha = m_dataAdmissionAlpha m,
         ev_data_shared_used = m_dataSharedUsedBytes m,
         ev_data_shared_limit = m_dataSharedLimitBytes m,
         ev_headroom = (if port < pCnt
           then Some (m_dataHeadroomBytesByPort m port, m_dataHeadroomLimitBytes m port)
           else None)\<rparr>],
       m_debugLogCount := m_debugLogCount m + 1\<rparr>)"

section \<open>Initialisation and the shared limit\<close>

definition u32_max :: u64 where "u32_max = 4294967295"

definition dataBudget :: "SwitchCbMmu \<Rightarrow> u32" where
  "dataBudget m =
    (let totalCreditReserve = (ucast (m_creditQueueLimitBytes m) :: u64) * ucast (m_activePortCnt m);
         budget = (if ucast (m_maxBufferBytes m) > totalCreditReserve
                   then ucast (m_maxBufferBytes m) - totalCreditReserve else 0)
     in ucast (min budget u32_max))"

definition RecomputeDataSharedLimit :: "SwitchCbMmu \<Rightarrow> SwitchCbMmu" where
  "RecomputeDataSharedLimit m = m\<lparr>m_dataSharedLimitBytes := dataBudget m\<rparr>"

definition InitSwitch :: "SwitchCbMmu \<Rightarrow> SwitchCbMmu" where
  "InitSwitch m =
    (let m = m\<lparr>m_maxBufferBytes :=
                 (if m_staticMaxBufferBytes m \<noteq> 0 then m_staticMaxBufferBytes m
                  else m_maxBufferBytesPerPort m * m_activePortCnt m),
               m_dataSharedUsedBytes := 0\<rparr>;
         limit = (\<lambda>(tab :: u32 tab) dflt i.
                    if i < pCnt then
                      if i = 0 \<or> i > unat (m_activePortCnt m) then 0
                      else if tab i = 0 then dflt else tab i
                    else tab i);
         zero = (\<lambda>(tab :: u32 tab) i. if i < pCnt then 0 else tab i);
         m = m\<lparr>m_creditQueueBytes := zero (m_creditQueueBytes m),
               m_dataQueueBytes := zero (m_dataQueueBytes m),
               m_dataGuaranteedBytesByPort := zero (m_dataGuaranteedBytesByPort m),
               m_dataSharedBytesByPort := zero (m_dataSharedBytesByPort m),
               m_dataHeadroomBytesByPort := zero (m_dataHeadroomBytesByPort m),
               m_dataGuaranteeLimitBytes :=
                 limit (m_dataGuaranteeLimitBytes m) (m_defaultDataGuaranteeBytes m),
               m_dataHeadroomLimitBytes :=
                 limit (m_dataHeadroomLimitBytes m) (m_defaultDataHeadroomBytes m)\<rparr>
     in LogEvent ''init'' ''mmu'' 0 0 0 0 True ''reinitialized'' (RecomputeDataSharedLimit m))"

text \<open>The constructor leaves the per-port arrays uninitialised before it calls
  InitSwitch, which reads the two limit arrays: their indeterminate contents
  are the parameters g and h.\<close>
definition SwitchCbMmu_ctor :: "u32 tab \<Rightarrow> u32 tab \<Rightarrow> SwitchCbMmu" where
  "SwitchCbMmu_ctor g h = InitSwitch
    \<lparr>m_nodeId = 0, m_activePortCnt = 12, m_maxBufferBytesPerPort = 375 * 1000,
     m_staticMaxBufferBytes = 0, m_maxBufferBytes = 0,
     m_creditQueueLimitBytes = 64 * 1024,
     m_defaultDataHeadroomBytes = 12500 + 2 * MTU, m_defaultDataGuaranteeBytes = 1048,
     m_dataEcnKminBytes = 64 * 1024, m_dataEcnKmaxBytes = 96 * 1024,
     m_dataAdmissionAlpha = 1, m_dataEcnPmax = 1,
     m_creditQueueBytes = (\<lambda>_. 0), m_dataQueueBytes = (\<lambda>_. 0),
     m_dataGuaranteedBytesByPort = (\<lambda>_. 0), m_dataSharedBytesByPort = (\<lambda>_. 0),
     m_dataHeadroomBytesByPort = (\<lambda>_. 0),
     m_dataGuaranteeLimitBytes = g, m_dataHeadroomLimitBytes = h,
     m_dataSharedLimitBytes = 0, m_dataSharedUsedBytes = 0,
     m_debugLog = False, m_debugMaxLogs = 2000, m_debugLogCount = 0, m_cerr = []\<rparr>"

section \<open>Credit queue accounting\<close>

definition CheckCreditAdmission :: "nat \<Rightarrow> u32 \<Rightarrow> SwitchCbMmu \<Rightarrow> bool \<times> SwitchCbMmu" where
  "CheckCreditAdmission port psize m =
    (if bad_port port
     then (False, LogEvent ''check'' ''credit'' port psize 0 0 False ''invalid_port'' m)
     else let before = m_creditQueueBytes m port;
              admitted = before + psize \<le> m_creditQueueLimitBytes m
          in (admitted, LogEvent ''check'' ''credit'' port psize before before admitted
                (if admitted then ''ok'' else ''credit_queue_full'') m))"

definition UpdateCreditAdmission :: "nat \<Rightarrow> u32 \<Rightarrow> SwitchCbMmu \<Rightarrow> SwitchCbMmu" where
  "UpdateCreditAdmission port psize m =
    (if bad_port port
     then LogEvent ''enqueue'' ''credit'' port psize 0 0 False ''invalid_port'' m
     else let before = m_creditQueueBytes m port;
              m = m\<lparr>m_creditQueueBytes := (m_creditQueueBytes m)(port := before + psize)\<rparr>
          in LogEvent ''enqueue'' ''credit'' port psize before (m_creditQueueBytes m port) True ''ok'' m)"

definition RemoveCreditAdmission :: "nat \<Rightarrow> u32 \<Rightarrow> SwitchCbMmu \<Rightarrow> SwitchCbMmu" where
  "RemoveCreditAdmission port psize m =
    (if bad_port port
     then LogEvent ''dequeue'' ''credit'' port psize 0 0 False ''invalid_port'' m
     else let before = m_creditQueueBytes m port;
              m = m\<lparr>m_creditQueueBytes := (m_creditQueueBytes m)
                      (port := (if before \<ge> psize then before - psize else 0))\<rparr>
          in LogEvent ''dequeue'' ''credit'' port psize before (m_creditQueueBytes m port) True ''ok'' m)"

section \<open>Data pool accounting\<close>

text \<open>The threshold of the arrival rule.\<close>
definition data_threshold :: "SwitchCbMmu \<Rightarrow> u64" where
  "data_threshold m =
    (let sumQdBefore = ucast (m_dataSharedUsedBytes m) :: u64;
         bs = ucast (m_dataSharedLimitBytes m) :: u64;
         available = (if bs > sumQdBefore then bs - sumQdBefore else 0)
     in word_of_dbl (fmul (m_dataAdmissionAlpha m) (dbl_of_word available)))"

definition CheckDataAdmission :: "nat \<Rightarrow> u32 \<Rightarrow> SwitchCbMmu \<Rightarrow> bool \<times> SwitchCbMmu" where
  "CheckDataAdmission port psize m =
    (if bad_port port
     then (False, LogEvent ''check'' ''data'' port psize 0 0 False ''invalid_port'' m)
     else let qdBefore = ucast (m_dataQueueBytes m port) :: u64;
              qdAfter = qdBefore + ucast psize;
              admitted = qdAfter \<le> data_threshold m
          in (admitted, LogEvent ''check'' ''data'' port psize (m_dataQueueBytes m port)
                (m_dataQueueBytes m port) admitted
                (if admitted then ''arrival_rule_ok'' else ''arrival_rule_exceeded'') m))"

definition UpdateDataAdmission :: "nat \<Rightarrow> u32 \<Rightarrow> SwitchCbMmu \<Rightarrow> SwitchCbMmu" where
  "UpdateDataAdmission port psize m =
    (if bad_port port \<or> psize = 0
     then LogEvent ''enqueue'' ''data'' port psize 0 0 False ''invalid_input'' m
     else let before = m_dataQueueBytes m port;
              m = m\<lparr>m_dataQueueBytes := (m_dataQueueBytes m)(port := before + psize),
                    m_dataSharedBytesByPort := (m_dataSharedBytesByPort m)
                      (port := m_dataSharedBytesByPort m port + psize),
                    m_dataSharedUsedBytes := m_dataSharedUsedBytes m + psize\<rparr>
          in LogEvent ''enqueue'' ''data'' port psize before (m_dataQueueBytes m port) True
               ''used_shared'' m)"

definition RemoveDataAdmission :: "nat \<Rightarrow> u32 \<Rightarrow> SwitchCbMmu \<Rightarrow> SwitchCbMmu" where
  "RemoveDataAdmission port psize m =
    (if bad_port port \<or> psize = 0
     then LogEvent ''dequeue'' ''data'' port psize 0 0 False ''invalid_input'' m
     else let before = m_dataQueueBytes m port;
              oldDataBytes = before;
              m = m\<lparr>m_dataQueueBytes := (m_dataQueueBytes m)
                      (port := (if before \<ge> psize then before - psize else 0))\<rparr>;
              removeBytes = min psize oldDataBytes;
              removeShared = min removeBytes (m_dataSharedBytesByPort m port);
              m = m\<lparr>m_dataSharedBytesByPort := (m_dataSharedBytesByPort m)
                      (port := m_dataSharedBytesByPort m port - removeShared),
                    m_dataSharedUsedBytes :=
                      (if m_dataSharedUsedBytes m \<ge> removeShared
                       then m_dataSharedUsedBytes m - removeShared else 0)\<rparr>
          in LogEvent ''dequeue'' ''data'' port psize before (m_dataQueueBytes m port) True
               (if removeShared > 0 then ''released_shared'' else ''released_empty'') m)"

section \<open>ECN\<close>

text \<open>The argument u is what the random stream returns, in [0,1), if it is drawn.\<close>
definition ShouldSendCn :: "nat \<Rightarrow> double \<Rightarrow> SwitchCbMmu \<Rightarrow> bool" where
  "ShouldSendCn port u m =
    (if bad_port port then False
     else let qlen = m_dataQueueBytes m port in
       if qlen > m_dataEcnKmaxBytes m then True
       else if qlen \<le> m_dataEcnKminBytes m \<or> m_dataEcnKminBytes m \<ge> m_dataEcnKmaxBytes m then False
       else let p = fmul (fdiv (fmul 1 (dbl_of_word (qlen - m_dataEcnKminBytes m)))
                               (dbl_of_word (m_dataEcnKmaxBytes m - m_dataEcnKminBytes m)))
                         (m_dataEcnPmax m)
            in u < p)"

section \<open>Observers\<close>

definition GetCreditQueueBytes :: "nat \<Rightarrow> SwitchCbMmu \<Rightarrow> u32" where
  "GetCreditQueueBytes port m = (if port < pCnt then m_creditQueueBytes m port else 0)"

definition GetDataQueueBytes :: "nat \<Rightarrow> SwitchCbMmu \<Rightarrow> u32" where
  "GetDataQueueBytes port m = (if port < pCnt then m_dataQueueBytes m port else 0)"

definition active_ports :: "SwitchCbMmu \<Rightarrow> nat list" where
  "active_ports m = [1..<min (Suc (unat (m_activePortCnt m))) pCnt]"

definition GetTotalDataQueueBytes :: "SwitchCbMmu \<Rightarrow> u32" where
  "GetTotalDataQueueBytes m =
    (let totalDataBytes = foldl (\<lambda>acc port. acc + ucast (m_dataQueueBytes m port)) (0 :: u64)
                            (active_ports m)
     in ucast (min totalDataBytes u32_max))"

definition GetDedicatedFcBsBytes :: "SwitchCbMmu \<Rightarrow> u32" where
  "GetDedicatedFcBsBytes m =
    (let totalCreditReserve = (ucast (m_creditQueueLimitBytes m) :: u64) * ucast (m_activePortCnt m);
         dedicatedFcBs = (if ucast (m_maxBufferBytes m) > totalCreditReserve
                          then ucast (m_maxBufferBytes m) - totalCreditReserve else 0)
     in ucast (min dedicatedFcBs u32_max))"

definition GetDataHeadroomUsedBytes :: "nat \<Rightarrow> SwitchCbMmu \<Rightarrow> u32" where
  "GetDataHeadroomUsedBytes port m = (if port < pCnt then m_dataHeadroomBytesByPort m port else 0)"

definition GetDataGuaranteeLimitBytes :: "nat \<Rightarrow> SwitchCbMmu \<Rightarrow> u32" where
  "GetDataGuaranteeLimitBytes port m = (if port < pCnt then m_dataGuaranteeLimitBytes m port else 0)"

section \<open>Configuration\<close>

definition SetActivePortCnt :: "u32 \<Rightarrow> SwitchCbMmu \<Rightarrow> SwitchCbMmu" where
  "SetActivePortCnt v m =
    (if v = m_activePortCnt m then m
     else InitSwitch (m\<lparr>m_activePortCnt := min v (word_of_nat pCnt - 1)\<rparr>))"

definition SetMaxBufferBytesPerPort :: "u32 \<Rightarrow> SwitchCbMmu \<Rightarrow> SwitchCbMmu" where
  "SetMaxBufferBytesPerPort v m =
    (if v = m_maxBufferBytesPerPort m then m
     else InitSwitch (m\<lparr>m_maxBufferBytesPerPort := v\<rparr>))"

definition ConfigBufferSize :: "u32 \<Rightarrow> SwitchCbMmu \<Rightarrow> SwitchCbMmu" where
  "ConfigBufferSize bytes m =
    (if bytes = m_staticMaxBufferBytes m then m
     else InitSwitch (m\<lparr>m_staticMaxBufferBytes := bytes\<rparr>))"

definition SetCreditQueueLimitBytes :: "u32 \<Rightarrow> SwitchCbMmu \<Rightarrow> SwitchCbMmu" where
  "SetCreditQueueLimitBytes v m =
    (if v = m_creditQueueLimitBytes m then m
     else RecomputeDataSharedLimit (m\<lparr>m_creditQueueLimitBytes := v\<rparr>))"

definition SetDefaultDataHeadroomBytes :: "u32 \<Rightarrow> SwitchCbMmu \<Rightarrow> SwitchCbMmu" where
  "SetDefaultDataHeadroomBytes v m =
    m\<lparr>m_defaultDataHeadroomBytes := v,
      m_dataHeadroomLimitBytes := (\<lambda>i. if 1 \<le> i \<and> i \<le> unat (m_activePortCnt m) \<and> i < pCnt
                                        then v else m_dataHeadroomLimitBytes m i)\<rparr>"

definition SetDefaultDataGuaranteeBytes :: "u32 \<Rightarrow> SwitchCbMmu \<Rightarrow> SwitchCbMmu" where
  "SetDefaultDataGuaranteeBytes v m =
    m\<lparr>m_defaultDataGuaranteeBytes := v,
      m_dataGuaranteeLimitBytes := (\<lambda>i. if 1 \<le> i \<and> i \<le> unat (m_activePortCnt m) \<and> i < pCnt
                                         then v else m_dataGuaranteeLimitBytes m i)\<rparr>"

definition ConfigDataHeadroom :: "nat \<Rightarrow> u32 \<Rightarrow> SwitchCbMmu \<Rightarrow> SwitchCbMmu" where
  "ConfigDataHeadroom port bytes m =
    (if bad_port port then m
     else m\<lparr>m_dataHeadroomLimitBytes := (m_dataHeadroomLimitBytes m)(port := bytes)\<rparr>)"

definition ConfigDataHeadroomByBdp :: "nat \<Rightarrow> u64 \<Rightarrow> u64 \<Rightarrow> SwitchCbMmu \<Rightarrow> SwitchCbMmu" where
  "ConfigDataHeadroomByBdp port rateBps linkDelayNs m =
    (if bad_port port \<or> rateBps = 0 \<or> linkDelayNs = 0 then m
     else let ld = (\<lambda>w :: u64. ldbl (of_int (uint w)));
              bdpBytes = ldbl (ldbl (ld rateBps * ld linkDelayNs) / 8000000000);
              headroom = ldbl (ldbl (2 * bdpBytes) + ldbl (2 * of_int (uint MTU)));
              headroomBytes64 = (if headroom \<le> 0 then 0 else word_of_dbl headroom :: u64);
              headroomBytes = (if headroomBytes64 > u32_max then ucast u32_max
                               else ucast headroomBytes64)
          in m\<lparr>m_dataHeadroomLimitBytes := (m_dataHeadroomLimitBytes m)(port := headroomBytes)\<rparr>)"

definition ConfigDataGuarantee :: "nat \<Rightarrow> u32 \<Rightarrow> SwitchCbMmu \<Rightarrow> SwitchCbMmu" where
  "ConfigDataGuarantee port bytes m =
    (if bad_port port then m
     else m\<lparr>m_dataGuaranteeLimitBytes := (m_dataGuaranteeLimitBytes m)(port := bytes)\<rparr>)"

definition SetDataEcnKminBytes :: "u32 \<Rightarrow> SwitchCbMmu \<Rightarrow> SwitchCbMmu" where
  "SetDataEcnKminBytes v m = m\<lparr>m_dataEcnKminBytes := v\<rparr>"

definition SetDataEcnKmaxBytes :: "u32 \<Rightarrow> SwitchCbMmu \<Rightarrow> SwitchCbMmu" where
  "SetDataEcnKmaxBytes v m = m\<lparr>m_dataEcnKmaxBytes := v\<rparr>"

definition SetDataAdmissionAlpha :: "double \<Rightarrow> SwitchCbMmu \<Rightarrow> SwitchCbMmu" where
  "SetDataAdmissionAlpha v m = m\<lparr>m_dataAdmissionAlpha := v\<rparr>"

definition SetDataEcnPmax :: "double \<Rightarrow> SwitchCbMmu \<Rightarrow> SwitchCbMmu" where
  "SetDataEcnPmax v m = m\<lparr>m_dataEcnPmax := v\<rparr>"

definition SetNodeId :: "u32 \<Rightarrow> SwitchCbMmu \<Rightarrow> SwitchCbMmu" where
  "SetNodeId v m = m\<lparr>m_nodeId := v\<rparr>"

definition SetDebugLog :: "bool \<Rightarrow> SwitchCbMmu \<Rightarrow> SwitchCbMmu" where
  "SetDebugLog v m = m\<lparr>m_debugLog := v\<rparr>"

definition SetDebugMaxLogs :: "u32 \<Rightarrow> SwitchCbMmu \<Rightarrow> SwitchCbMmu" where
  "SetDebugMaxLogs v m = m\<lparr>m_debugMaxLogs := v\<rparr>"

text \<open>What an object made through its TypeId is: constructed, then every
  attribute set to the initial value GetTypeId registers for it.\<close>
definition GetTypeId_initial :: "u32 tab \<Rightarrow> u32 tab \<Rightarrow> SwitchCbMmu" where
  "GetTypeId_initial g h =
    (SetDebugMaxLogs 2000 \<circ> SetDebugLog False \<circ> SetDataEcnPmax 1 \<circ> SetDataAdmissionAlpha 1
     \<circ> SetDataEcnKmaxBytes (96 * 1024) \<circ> SetDataEcnKminBytes (64 * 1024)
     \<circ> SetDefaultDataGuaranteeBytes 1048 \<circ> SetDefaultDataHeadroomBytes (12500 + 2 * MTU)
     \<circ> SetCreditQueueLimitBytes (64 * 1024) \<circ> SetMaxBufferBytesPerPort (375 * 1000)
     \<circ> SetActivePortCnt 12 \<circ> SetNodeId 0) (SwitchCbMmu_ctor g h)"

section \<open>Logging changes nothing but the log\<close>

lemma LogEvent_sel [simp]:
  "m_nodeId (LogEvent a b c d e f g h m) = m_nodeId m"
  "m_activePortCnt (LogEvent a b c d e f g h m) = m_activePortCnt m"
  "m_maxBufferBytesPerPort (LogEvent a b c d e f g h m) = m_maxBufferBytesPerPort m"
  "m_staticMaxBufferBytes (LogEvent a b c d e f g h m) = m_staticMaxBufferBytes m"
  "m_maxBufferBytes (LogEvent a b c d e f g h m) = m_maxBufferBytes m"
  "m_creditQueueLimitBytes (LogEvent a b c d e f g h m) = m_creditQueueLimitBytes m"
  "m_defaultDataHeadroomBytes (LogEvent a b c d e f g h m) = m_defaultDataHeadroomBytes m"
  "m_defaultDataGuaranteeBytes (LogEvent a b c d e f g h m) = m_defaultDataGuaranteeBytes m"
  "m_dataEcnKminBytes (LogEvent a b c d e f g h m) = m_dataEcnKminBytes m"
  "m_dataEcnKmaxBytes (LogEvent a b c d e f g h m) = m_dataEcnKmaxBytes m"
  "m_dataAdmissionAlpha (LogEvent a b c d e f g h m) = m_dataAdmissionAlpha m"
  "m_dataEcnPmax (LogEvent a b c d e f g h m) = m_dataEcnPmax m"
  "m_creditQueueBytes (LogEvent a b c d e f g h m) = m_creditQueueBytes m"
  "m_dataQueueBytes (LogEvent a b c d e f g h m) = m_dataQueueBytes m"
  "m_dataGuaranteedBytesByPort (LogEvent a b c d e f g h m) = m_dataGuaranteedBytesByPort m"
  "m_dataSharedBytesByPort (LogEvent a b c d e f g h m) = m_dataSharedBytesByPort m"
  "m_dataHeadroomBytesByPort (LogEvent a b c d e f g h m) = m_dataHeadroomBytesByPort m"
  "m_dataGuaranteeLimitBytes (LogEvent a b c d e f g h m) = m_dataGuaranteeLimitBytes m"
  "m_dataHeadroomLimitBytes (LogEvent a b c d e f g h m) = m_dataHeadroomLimitBytes m"
  "m_dataSharedLimitBytes (LogEvent a b c d e f g h m) = m_dataSharedLimitBytes m"
  "m_dataSharedUsedBytes (LogEvent a b c d e f g h m) = m_dataSharedUsedBytes m"
  "m_debugLog (LogEvent a b c d e f g h m) = m_debugLog m"
  "m_debugMaxLogs (LogEvent a b c d e f g h m) = m_debugMaxLogs m"
  by (simp_all add: LogEvent_def)


lemma LogEvent_bounded:
  assumes "m_debugLogCount m \<le> m_debugMaxLogs m"
  shows "m_debugLogCount (LogEvent a b c d e f g h m) \<le> m_debugMaxLogs m"
  using assms by (auto simp: LogEvent_def inc_le)

section \<open>The shared limit\<close>

lemma dataBudget_nat:
  "unat (dataBudget m) =
     unat (m_maxBufferBytes m) - unat (m_creditQueueLimitBytes m) * unat (m_activePortCnt m)"
proof -
  have "unat (m_creditQueueLimitBytes m) * unat (m_activePortCnt m) < 2 ^ 32 * 2 ^ 32"
    by (intro mult_strict_mono) (simp_all add: unat_lt_2p[where 'a = 32, simplified])
  then have res: "unat ((ucast (m_creditQueueLimitBytes m) :: u64) * ucast (m_activePortCnt m)) =
      unat (m_creditQueueLimitBytes m) * unat (m_activePortCnt m)"
    by (simp add: unat_mult_lt unat_ucast_up)
  let ?b = "if ucast (m_maxBufferBytes m) > (ucast (m_creditQueueLimitBytes m) :: u64) * ucast (m_activePortCnt m)
            then ucast (m_maxBufferBytes m) - (ucast (m_creditQueueLimitBytes m) :: u64) * ucast (m_activePortCnt m) else 0"
  have b: "unat ?b = unat (m_maxBufferBytes m) - unat (m_creditQueueLimitBytes m) * unat (m_activePortCnt m)"
    unfolding unat_sat_sub' res by (simp add: unat_ucast_up)
  have lt: "unat ?b < 4294967296" unfolding b using unat_lt_u32[of "m_maxBufferBytes m"] by linarith
  then have "min ?b u32_max = ?b" by (simp add: min_def u32_max_def word_le_nat_alt)
  then show ?thesis unfolding dataBudget_def Let_def using lt b
    by (simp add: unsigned_ucast_eq take_bit_nat_eq_self)
qed

lemma dedicated_eq_dataBudget: "GetDedicatedFcBsBytes m = dataBudget m"
  by (simp add: GetDedicatedFcBsBytes_def dataBudget_def)

lemma InitSwitch_sel [simp]:
  "m_activePortCnt (InitSwitch m) = m_activePortCnt m"
  "m_creditQueueLimitBytes (InitSwitch m) = m_creditQueueLimitBytes m"
  "m_dataAdmissionAlpha (InitSwitch m) = m_dataAdmissionAlpha m"
  "m_dataSharedUsedBytes (InitSwitch m) = 0"
  "p < pCnt \<Longrightarrow> m_creditQueueBytes (InitSwitch m) p = 0"
  "p < pCnt \<Longrightarrow> m_dataQueueBytes (InitSwitch m) p = 0"
  "p < pCnt \<Longrightarrow> m_dataSharedBytesByPort (InitSwitch m) p = 0"
  by (simp_all add: InitSwitch_def RecomputeDataSharedLimit_def Let_def)

section \<open>Accounting invariant\<close>

text \<open>The pool's counter is the sum of the per-port queues, every byte of a
  queue is charged to the pool, and port 0 (never a switch port) is empty.\<close>
definition acct :: "SwitchCbMmu \<Rightarrow> bool" where
  "acct m \<longleftrightarrow> (\<forall>p<pCnt. m_dataSharedBytesByPort m p = m_dataQueueBytes m p)
     \<and> m_dataQueueBytes m 0 = 0
     \<and> (\<Sum>p<pCnt. unat (m_dataQueueBytes m p)) = unat (m_dataSharedUsedBytes m)"

text \<open>The cached pool limit is the memory left over by the credit reserve.\<close>
definition limit_coherent :: "SwitchCbMmu \<Rightarrow> bool" where
  "limit_coherent m \<longleftrightarrow> m_dataSharedLimitBytes m = GetDedicatedFcBsBytes m"

lemma acct_LogEvent [simp]: "acct (LogEvent a b c d e f g h m) = acct m"
  by (simp add: acct_def)

lemma bad_port_less [simp]: "\<not> bad_port p \<Longrightarrow> p < pCnt" "\<not> bad_port p \<Longrightarrow> 0 < p"
  by (simp_all add: bad_port_def)

lemma bad_port_0 [simp]: "bad_port 0"
  by (simp add: bad_port_def)

lemma pCnt_pos [simp]: "0 < pCnt" "Suc 0 \<le> pCnt"
  by (simp_all add: pCnt_def)

lemma acct_port_le: "acct m \<Longrightarrow> p < pCnt \<Longrightarrow> unat (m_dataQueueBytes m p) \<le> unat (m_dataSharedUsedBytes m)"
  using sum_tab_ge[of "{..<pCnt}" p "\<lambda>p. unat (m_dataQueueBytes m p)"] by (simp add: acct_def)

lemma acct_InitSwitch: "acct (InitSwitch m)"
  by (simp add: acct_def)

lemma unat_tab_upd: "(\<lambda>i. unat ((f(p := v)) i)) = (\<lambda>i. unat (f i))(p := unat v)"
  by auto

lemma UpdateDataAdmission_used:
  assumes "\<not> bad_port p"
  shows "m_dataSharedUsedBytes (UpdateDataAdmission p n m) = m_dataSharedUsedBytes m + n"
    and "m_dataQueueBytes (UpdateDataAdmission p n m) = (m_dataQueueBytes m)(p := m_dataQueueBytes m p + n)"
    and "m_dataSharedBytesByPort (UpdateDataAdmission p n m) =
           (m_dataSharedBytesByPort m)(p := m_dataSharedBytesByPort m p + n)"
  using assms by (auto simp: UpdateDataAdmission_def Let_def)

lemma Update_Remove_Data_sel [simp]:
  "m_dataSharedLimitBytes (UpdateDataAdmission p n m) = m_dataSharedLimitBytes m"
  "m_dataAdmissionAlpha (UpdateDataAdmission p n m) = m_dataAdmissionAlpha m"
  "m_creditQueueBytes (UpdateDataAdmission p n m) = m_creditQueueBytes m"
  "m_creditQueueLimitBytes (UpdateDataAdmission p n m) = m_creditQueueLimitBytes m"
  "m_activePortCnt (UpdateDataAdmission p n m) = m_activePortCnt m"
  "m_maxBufferBytes (UpdateDataAdmission p n m) = m_maxBufferBytes m"
  "m_dataSharedLimitBytes (RemoveDataAdmission p n m) = m_dataSharedLimitBytes m"
  "m_dataAdmissionAlpha (RemoveDataAdmission p n m) = m_dataAdmissionAlpha m"
  "m_creditQueueBytes (RemoveDataAdmission p n m) = m_creditQueueBytes m"
  "m_creditQueueLimitBytes (RemoveDataAdmission p n m) = m_creditQueueLimitBytes m"
  "m_activePortCnt (RemoveDataAdmission p n m) = m_activePortCnt m"
  "m_maxBufferBytes (RemoveDataAdmission p n m) = m_maxBufferBytes m"
  by (simp_all add: UpdateDataAdmission_def RemoveDataAdmission_def Let_def)

lemma acct_Update:
  assumes "acct m" "\<not> bad_port p"
    and room: "unat (m_dataSharedUsedBytes m) + unat n < 2 ^ 32"
  shows "acct (UpdateDataAdmission p n m)"
proof -
  have "unat (m_dataQueueBytes m p) + unat n < 2 ^ 32"
    using acct_port_le[OF assms(1), of p] assms(2) room by simp
  then have q: "unat (m_dataQueueBytes m p + n) = unat (m_dataQueueBytes m p) + unat n"
    by (simp add: unat_add_lt)
  show ?thesis
    using assms sum_tab_upd[of "{..<pCnt}" p "\<lambda>p. unat (m_dataQueueBytes m p)" "unat (m_dataQueueBytes m p) + unat n"]
    unfolding acct_def UpdateDataAdmission_used[OF assms(2)] unat_tab_upd q
    by (auto simp: unat_add_lt)
qed

lemma RemoveDataAdmission_used:
  assumes "acct m" "\<not> bad_port p"
  shows "m_dataSharedUsedBytes (RemoveDataAdmission p n m) =
           m_dataSharedUsedBytes m - min n (m_dataQueueBytes m p)"
    and "m_dataQueueBytes (RemoveDataAdmission p n m) =
           (m_dataQueueBytes m)(p := m_dataQueueBytes m p - min n (m_dataQueueBytes m p))"
    and "m_dataSharedBytesByPort (RemoveDataAdmission p n m) =
           (m_dataSharedBytesByPort m)(p := m_dataQueueBytes m p - min n (m_dataQueueBytes m p))"
proof -
  have eq: "m_dataSharedBytesByPort m p = m_dataQueueBytes m p" using assms by (simp add: acct_def)
  have le: "min n (m_dataQueueBytes m p) \<le> m_dataSharedUsedBytes m"
    using acct_port_le[OF assms(1), of p] assms(2) by (simp add: word_le_nat_alt unat_min)
  show "m_dataSharedUsedBytes (RemoveDataAdmission p n m) =
           m_dataSharedUsedBytes m - min n (m_dataQueueBytes m p)"
    using assms(2) eq le by (simp add: RemoveDataAdmission_def Let_def)
  show "m_dataQueueBytes (RemoveDataAdmission p n m) =
           (m_dataQueueBytes m)(p := m_dataQueueBytes m p - min n (m_dataQueueBytes m p))"
    using assms(2) by (auto simp: RemoveDataAdmission_def Let_def min_def)
  show "m_dataSharedBytesByPort (RemoveDataAdmission p n m) =
           (m_dataSharedBytesByPort m)(p := m_dataQueueBytes m p - min n (m_dataQueueBytes m p))"
    using assms(2) eq by (auto simp: RemoveDataAdmission_def Let_def)
qed

lemma acct_Remove:
  assumes "acct m"
  shows "acct (RemoveDataAdmission p n m)"
proof (cases "bad_port p")
  case True
  then show ?thesis using assms by (simp add: RemoveDataAdmission_def)
next
  case False
  let ?k = "min n (m_dataQueueBytes m p)"
  have q: "unat (m_dataQueueBytes m p - ?k) = unat (m_dataQueueBytes m p) - unat ?k"
    by (simp add: unat_sub_le)
  have "unat ?k \<le> unat (m_dataQueueBytes m p)" by (simp add: unat_min)
  also have le: "\<dots> \<le> unat (m_dataSharedUsedBytes m)"
    using acct_port_le[OF assms, of p] False by simp
  finally have u: "unat (m_dataSharedUsedBytes m - ?k) = unat (m_dataSharedUsedBytes m) - unat ?k"
    by (simp add: unat_sub_le word_le_nat_alt)
  have k: "unat ?k \<le> unat (m_dataQueueBytes m p)" by (simp add: unat_min)
  show ?thesis
    using assms False k le sum_tab_upd[of "{..<pCnt}" p "\<lambda>p. unat (m_dataQueueBytes m p)" "unat (m_dataQueueBytes m p) - unat ?k"]
    unfolding acct_def RemoveDataAdmission_used[OF assms False] unat_tab_upd q u
    by auto
qed

section \<open>The arrival rule\<close>

lemma data_threshold_le:
  assumes "0 \<le> m_dataAdmissionAlpha m" "m_dataAdmissionAlpha m \<le> 1"
  shows "unat (data_threshold m) \<le> unat (m_dataSharedLimitBytes m) - unat (m_dataSharedUsedBytes m)"
proof -
  let ?av = "if (ucast (m_dataSharedLimitBytes m) :: u64) > ucast (m_dataSharedUsedBytes m)
             then ucast (m_dataSharedLimitBytes m) - ucast (m_dataSharedUsedBytes m) else (0 :: u64)"
  let ?n = "unat (m_dataSharedLimitBytes m) - unat (m_dataSharedUsedBytes m)"
  have av: "unat ?av = ?n" unfolding unat_sat_sub' by (simp add: unat_ucast_up)
  have n: "?n < 4294967296" using unat_lt_u32[of "m_dataSharedLimitBytes m"] by linarith
  have d: "dbl_of_word ?av = of_nat ?n" using dbl_of_word_exact[of ?av] av n by simp
  have "m_dataAdmissionAlpha m * of_nat ?n \<le> 1 * of_nat ?n"
    using assms by (intro mult_right_mono) simp_all
  then have "fmul (m_dataAdmissionAlpha m) (of_nat ?n) \<le> dbl (of_nat ?n)"
    unfolding fmul_def by (intro dbl_mono) simp
  also have "\<dots> = of_nat ?n" using n by (intro dbl_of_nat) simp
  finally have up: "fmul (m_dataAdmissionAlpha m) (of_nat ?n) \<le> of_nat ?n" .
  have lo: "0 \<le> fmul (m_dataAdmissionAlpha m) (of_nat ?n)"
    using assms(1) by (simp add: fmul_nonneg)
  have "(of_nat ?n :: rat) < 2 ^ LENGTH(64)"
    using n of_nat_less_iff[of ?n 4294967296, where 'a = rat] by simp
  with up have "fmul (m_dataAdmissionAlpha m) (of_nat ?n) < 2 ^ LENGTH(64)" by linarith
  then have "unat (data_threshold m) = nat (trunc (fmul (m_dataAdmissionAlpha m) (of_nat ?n)))"
    unfolding data_threshold_def Let_def d using lo by (simp add: unat_word_of_dbl)
  also have "\<dots> \<le> nat (trunc (of_nat ?n))" using trunc_mono[OF up] by (rule nat_mono)
  finally show ?thesis by simp
qed

lemma CheckDataAdmission_iff:
  "fst (CheckDataAdmission p n m) \<longleftrightarrow> \<not> bad_port p \<and>
     unat (m_dataQueueBytes m p) + unat n \<le> unat (data_threshold m)"
proof -
  have "unat (m_dataQueueBytes m p) + unat n < 2 ^ 64"
    using unat_lt_u32[of n] unat_lt_u32[of "m_dataQueueBytes m p"] by simp
  then have "unat ((ucast (m_dataQueueBytes m p) :: u64) + ucast n) = unat (m_dataQueueBytes m p) + unat n"
    by (simp add: unat_add_lt unat_ucast_up)
  then show ?thesis by (simp add: CheckDataAdmission_def word_le_nat_alt Let_def)
qed

lemma Check_sel [simp]:
  "snd (CheckDataAdmission p n m) = LogEvent ''check'' ''data'' p n
     (if bad_port p then 0 else m_dataQueueBytes m p) (if bad_port p then 0 else m_dataQueueBytes m p)
     (fst (CheckDataAdmission p n m))
     (if bad_port p then ''invalid_port'' else if fst (CheckDataAdmission p n m)
      then ''arrival_rule_ok'' else ''arrival_rule_exceeded'') m"
  "snd (CheckCreditAdmission p n m) = LogEvent ''check'' ''credit'' p n
     (if bad_port p then 0 else m_creditQueueBytes m p) (if bad_port p then 0 else m_creditQueueBytes m p)
     (fst (CheckCreditAdmission p n m))
     (if bad_port p then ''invalid_port'' else if fst (CheckCreditAdmission p n m)
      then ''ok'' else ''credit_queue_full'') m"
  by (simp_all add: CheckDataAdmission_def CheckCreditAdmission_def Let_def)

text \<open>The state in which the pool is within its limit.\<close>
definition pool_ok :: "SwitchCbMmu \<Rightarrow> bool" where
  "pool_ok m \<longleftrightarrow> acct m \<and> m_dataSharedUsedBytes m \<le> m_dataSharedLimitBytes m
     \<and> 0 \<le> m_dataAdmissionAlpha m \<and> m_dataAdmissionAlpha m \<le> 1"

lemma pool_ok_LogEvent [simp]: "pool_ok (LogEvent a b c d e f g h m) = pool_ok m"
  by (simp add: pool_ok_def)

lemma admitted_room:
  assumes "pool_ok m" "fst (CheckDataAdmission p n m)"
  shows "\<not> bad_port p" "unat (m_dataSharedUsedBytes m) + unat n \<le> unat (m_dataSharedLimitBytes m)"
  using assms data_threshold_le[of m]
  by (auto simp: CheckDataAdmission_iff pool_ok_def word_le_nat_alt)

lemma pool_ok_admit:
  assumes "pool_ok m" "fst (CheckDataAdmission p n m)"
  shows "pool_ok (UpdateDataAdmission p n (LogEvent a b c d e f g h m))"
proof -
  let ?m = "LogEvent a b c d e f g h m"
  note r = admitted_room[OF assms]
  have lt: "unat (m_dataSharedUsedBytes m) + unat n < 2 ^ 32"
    using r(2) unat_lt_u32[of "m_dataSharedLimitBytes m"] by simp
  have "acct (UpdateDataAdmission p n ?m)"
    using assms(1) r(1) lt by (intro acct_Update) (simp_all add: pool_ok_def)
  moreover have "unat (m_dataSharedUsedBytes m + n) = unat (m_dataSharedUsedBytes m) + unat n"
    using lt by (simp add: unat_add_lt)
  ultimately show ?thesis
    using assms(1) r by (simp add: pool_ok_def UpdateDataAdmission_used word_le_nat_alt)
qed

lemma pool_ok_release:
  assumes "pool_ok m"
  shows "pool_ok (RemoveDataAdmission p n m)"
proof (cases "bad_port p")
  case True
  then show ?thesis using assms by (simp add: RemoveDataAdmission_def)
next
  case False
  have a: "acct m" using assms by (simp add: pool_ok_def)
  have "min n (m_dataQueueBytes m p) \<le> m_dataSharedUsedBytes m"
    using acct_port_le[OF a, of p] False by (simp add: word_le_nat_alt unat_min)
  then have "m_dataSharedUsedBytes m - min n (m_dataQueueBytes m p) \<le> m_dataSharedUsedBytes m"
    by (simp add: word_le_nat_alt unat_sub_le)
  then show ?thesis using assms acct_Remove[OF a] False
    by (auto simp: pool_ok_def RemoveDataAdmission_used(1)[OF a])
qed

section \<open>Credit queues\<close>

lemma CheckCreditAdmission_iff:
  "fst (CheckCreditAdmission p n m) \<longleftrightarrow> \<not> bad_port p \<and>
     m_creditQueueBytes m p + n \<le> m_creditQueueLimitBytes m"
  by (simp add: CheckCreditAdmission_def Let_def)

lemma UpdateCreditAdmission_sel [simp]:
  "m_creditQueueBytes (UpdateCreditAdmission p n m) =
     (if bad_port p then m_creditQueueBytes m
      else (m_creditQueueBytes m)(p := m_creditQueueBytes m p + n))"
  "m_creditQueueBytes (RemoveCreditAdmission p n m) =
     (if bad_port p then m_creditQueueBytes m
      else (m_creditQueueBytes m)(p := m_creditQueueBytes m p - min n (m_creditQueueBytes m p)))"
  "m_creditQueueLimitBytes (UpdateCreditAdmission p n m) = m_creditQueueLimitBytes m"
  "m_creditQueueLimitBytes (RemoveCreditAdmission p n m) = m_creditQueueLimitBytes m"
  "pool_ok (UpdateCreditAdmission p n m) = pool_ok m"
  "pool_ok (RemoveCreditAdmission p n m) = pool_ok m"
  by (auto simp: UpdateCreditAdmission_def RemoveCreditAdmission_def Let_def min_def pool_ok_def acct_def)

lemma unat_sub_min: "unat (q - min n q) = unat q - unat (n :: u32)"
  by (auto simp: unat_sub_le min_def word_le_nat_alt)

text \<open>Every credit queue is within its limit, and the limit leaves room for a
  packet of maxp bytes below the wrap-around of the 32-bit sum.\<close>
definition credit_ok :: "nat \<Rightarrow> SwitchCbMmu \<Rightarrow> bool" where
  "credit_ok maxp m \<longleftrightarrow> (\<forall>p<pCnt. m_creditQueueBytes m p \<le> m_creditQueueLimitBytes m)
     \<and> unat (m_creditQueueLimitBytes m) + maxp < 2 ^ 32"

lemma credit_ok_LogEvent [simp]: "credit_ok k (LogEvent a b c d e f g h m) = credit_ok k m"
  by (simp add: credit_ok_def)

lemma credit_sum:
  assumes "credit_ok maxp m" "\<not> bad_port p" "unat n \<le> maxp"
  shows "unat (m_creditQueueBytes m p + n) = unat (m_creditQueueBytes m p) + unat n"
proof -
  have "unat (m_creditQueueBytes m p) \<le> unat (m_creditQueueLimitBytes m)"
    using assms(1,2) by (simp add: credit_ok_def word_le_nat_alt)
  then show ?thesis using assms(1,3) by (intro unat_add_lt) (simp add: credit_ok_def)
qed

lemma credit_ok_Remove:
  assumes "credit_ok maxp m"
  shows "credit_ok maxp (RemoveCreditAdmission p n m)"
proof -
  have "m_creditQueueBytes m p - min n (m_creditQueueBytes m p) \<le> m_creditQueueBytes m p"
    by (simp add: word_le_nat_alt unat_sub_min)
  then show ?thesis using assms by (auto simp: credit_ok_def intro: order_trans)
qed

definition credit_occ :: "SwitchCbMmu \<Rightarrow> nat \<Rightarrow> nat" where
  "credit_occ m p = (if bad_port p then 0 else unat (m_creditQueueBytes m p))"

definition data_occ :: "SwitchCbMmu \<Rightarrow> nat \<Rightarrow> nat" where
  "data_occ m p = (if bad_port p then 0 else unat (m_dataQueueBytes m p))"

lemma occ_LogEvent [simp]:
  "credit_occ (LogEvent a b c d e f g h m) = credit_occ m"
  "data_occ (LogEvent a b c d e f g h m) = data_occ m"
  by (simp_all add: credit_occ_def data_occ_def fun_eq_iff)

lemma RemoveDataAdmission_queue:
  "m_dataQueueBytes (RemoveDataAdmission p n m) =
     (if bad_port p then m_dataQueueBytes m
      else (m_dataQueueBytes m)(p := m_dataQueueBytes m p - min n (m_dataQueueBytes m p)))"
  by (auto simp: RemoveDataAdmission_def Let_def min_def)

lemma bad_release [simp]:
  "bad_port p \<Longrightarrow> data_occ (RemoveDataAdmission p n m) = data_occ m"
  "bad_port p \<Longrightarrow> credit_occ (RemoveCreditAdmission p n m) = credit_occ m"
  by (simp_all add: RemoveDataAdmission_def RemoveCreditAdmission_def)

interpretation credit_side:
  admission "credit_ok 65535" credit_occ "\<lambda>_. True" 65535
    CheckCreditAdmission UpdateCreditAdmission RemoveCreditAdmission
proof (unfold_locales, goal_cases)
  case (3 s p n)
  then show ?case by (auto simp: CheckCreditAdmission_iff credit_ok_def)
next
  case (4 s p n)
  then show ?case
    using credit_sum[of 65535 s p n] by (auto simp: CheckCreditAdmission_iff credit_occ_def)
next
  case (5 s p n)
  then show ?case by (intro credit_ok_Remove)
next
  case (6 s p n)
  then show ?case
    by (cases "bad_port p") (auto simp: credit_occ_def unat_sub_min fun_eq_iff)
qed simp_all

interpretation data_side:
  admission pool_ok data_occ "\<lambda>_. True" 4294967295
    CheckDataAdmission UpdateDataAdmission RemoveDataAdmission
proof (unfold_locales, goal_cases)
  case (3 s p n)
  then show ?case using pool_ok_admit[of s p n] by (simp del: Check_sel(2))
next
  case (4 s p n)
  note r = admitted_room[OF 4(1,4)]
  have "unat (m_dataQueueBytes s p) \<le> unat (m_dataSharedUsedBytes s)"
    using acct_port_le[of s p] 4(1) r(1) by (simp add: pool_ok_def)
  then have "unat (m_dataQueueBytes s p) + unat n < 2 ^ 32"
    using r(2) unat_lt_u32[of "m_dataSharedLimitBytes s"] by simp
  then show ?case using r(1)
    by (auto simp: data_occ_def UpdateDataAdmission_used unat_add_lt)
next
  case (5 s p n)
  then show ?case by (intro pool_ok_release)
next
  case (6 s p n)
  then show ?case
    by (cases "bad_port p") (auto simp: data_occ_def RemoveDataAdmission_queue unat_sub_min fun_eq_iff)
qed simp_all

section \<open>Traffic and reconfiguration\<close>

text \<open>The calls a switch makes on its buffer manager: an arriving packet is
  checked, then charged when admitted; a departing one is released.\<close>
inductive cb_traffic :: "SwitchCbMmu \<Rightarrow> SwitchCbMmu \<Rightarrow> bool" where
  data_in: "CheckDataAdmission p n m = (True, m') \<Longrightarrow> cb_traffic m (UpdateDataAdmission p n m')"
| data_refused: "CheckDataAdmission p n m = (False, m') \<Longrightarrow> cb_traffic m m'"
| data_out: "cb_traffic m (RemoveDataAdmission p n m)"
| credit_in: "CheckCreditAdmission p n m = (True, m') \<Longrightarrow> cb_traffic m (UpdateCreditAdmission p n m')"
| credit_refused: "CheckCreditAdmission p n m = (False, m') \<Longrightarrow> cb_traffic m m'"
| credit_out: "cb_traffic m (RemoveCreditAdmission p n m)"

text \<open>Every call of the class's interface that changes the state.\<close>
inductive cb_call :: "SwitchCbMmu \<Rightarrow> SwitchCbMmu \<Rightarrow> bool" where
  traffic: "cb_traffic m m' \<Longrightarrow> cb_call m m'"
| charge_data: "cb_call m (UpdateDataAdmission p n m)"
| charge_credit: "cb_call m (UpdateCreditAdmission p n m)"
| init: "cb_call m (InitSwitch m)"
| active: "cb_call m (SetActivePortCnt v m)"
| per_port: "cb_call m (SetMaxBufferBytesPerPort v m)"
| buffer: "cb_call m (ConfigBufferSize v m)"
| credit_limit: "cb_call m (SetCreditQueueLimitBytes v m)"
| headroom: "cb_call m (SetDefaultDataHeadroomBytes v m)"
| guarantee: "cb_call m (SetDefaultDataGuaranteeBytes v m)"
| port_headroom: "cb_call m (ConfigDataHeadroom p v m)"
| port_bdp: "cb_call m (ConfigDataHeadroomByBdp p r d m)"
| port_guarantee: "cb_call m (ConfigDataGuarantee p v m)"
| kmin: "cb_call m (SetDataEcnKminBytes v m)"
| kmax: "cb_call m (SetDataEcnKmaxBytes v m)"
| alpha: "cb_call m (SetDataAdmissionAlpha x m)"
| pmax: "cb_call m (SetDataEcnPmax x m)"
| node: "cb_call m (SetNodeId v m)"
| debug: "cb_call m (SetDebugLog b m)"
| max_logs: "cb_call m (SetDebugMaxLogs v m)"

inductive_cases cb_trafficE: "cb_traffic m m'"
inductive_cases cb_callE: "cb_call m m'"

lemma snd_of_pair: "f = (b, m') \<Longrightarrow> m' = snd f"
  by simp

lemma cb_traffic_pool_ok: "cb_traffic m m' \<Longrightarrow> pool_ok m \<Longrightarrow> pool_ok m'"
proof (induction rule: cb_traffic.induct)
  case (data_in p n m m')
  then have "fst (CheckDataAdmission p n m)" by simp
  then show ?case using data_in pool_ok_admit[of m p n] by (auto dest!: snd_of_pair)
qed (auto dest!: snd_of_pair simp: pool_ok_release)

lemma cb_traffic_star_pool_ok: "cb_traffic\<^sup>*\<^sup>* m m' \<Longrightarrow> pool_ok m \<Longrightarrow> pool_ok m'"
  by (induction rule: rtranclp_induct) (auto intro: cb_traffic_pool_ok)

text \<open>What the pool's limit is computed from.\<close>
definition same_limit_inputs :: "SwitchCbMmu \<Rightarrow> SwitchCbMmu \<Rightarrow> bool" where
  "same_limit_inputs m m' \<longleftrightarrow> m_dataSharedLimitBytes m' = m_dataSharedLimitBytes m
     \<and> m_creditQueueLimitBytes m' = m_creditQueueLimitBytes m
     \<and> m_activePortCnt m' = m_activePortCnt m \<and> m_maxBufferBytes m' = m_maxBufferBytes m"

lemma coherent_same: "same_limit_inputs m m' \<Longrightarrow> limit_coherent m \<Longrightarrow> limit_coherent m'"
  by (simp add: limit_coherent_def same_limit_inputs_def GetDedicatedFcBsBytes_def cong: if_cong)

lemma coherent_InitSwitch: "limit_coherent (InitSwitch m)"
  by (simp add: limit_coherent_def InitSwitch_def RecomputeDataSharedLimit_def Let_def
      GetDedicatedFcBsBytes_def dataBudget_def)

lemma same_limit_traffic: "cb_traffic m m' \<Longrightarrow> same_limit_inputs m m'"
  by (induction rule: cb_traffic.induct)
    (auto dest!: snd_of_pair simp: same_limit_inputs_def UpdateCreditAdmission_def
      RemoveCreditAdmission_def Let_def)

lemma same_limit_config:
  "same_limit_inputs m (UpdateDataAdmission p n m)"
  "same_limit_inputs m (UpdateCreditAdmission p n m)"
  "same_limit_inputs m (SetDefaultDataHeadroomBytes v m)"
  "same_limit_inputs m (SetDefaultDataGuaranteeBytes v m)"
  "same_limit_inputs m (ConfigDataHeadroom p v m)"
  "same_limit_inputs m (ConfigDataHeadroomByBdp p r d m)"
  "same_limit_inputs m (ConfigDataGuarantee p v m)"
  "same_limit_inputs m (SetDataEcnKminBytes v m)"
  "same_limit_inputs m (SetDataEcnKmaxBytes v m)"
  "same_limit_inputs m (SetDataAdmissionAlpha x m)"
  "same_limit_inputs m (SetDataEcnPmax x m)"
  "same_limit_inputs m (SetNodeId v m)"
  "same_limit_inputs m (SetDebugLog b m)"
  "same_limit_inputs m (SetDebugMaxLogs v m)"
  by (simp_all add: same_limit_inputs_def SetDefaultDataHeadroomBytes_def
      SetDefaultDataGuaranteeBytes_def ConfigDataHeadroom_def ConfigDataHeadroomByBdp_def
      ConfigDataGuarantee_def SetDataEcnKminBytes_def SetDataEcnKmaxBytes_def
      SetDataAdmissionAlpha_def SetDataEcnPmax_def SetNodeId_def SetDebugLog_def
      SetDebugMaxLogs_def UpdateCreditAdmission_def Let_def)

lemma coherent_recompute:
  "limit_coherent (RecomputeDataSharedLimit m)"
  "limit_coherent m \<Longrightarrow> limit_coherent (SetActivePortCnt v m)"
  "limit_coherent m \<Longrightarrow> limit_coherent (SetMaxBufferBytesPerPort v m)"
  "limit_coherent m \<Longrightarrow> limit_coherent (ConfigBufferSize v m)"
  by (simp_all add: coherent_InitSwitch SetActivePortCnt_def SetMaxBufferBytesPerPort_def
      ConfigBufferSize_def)
    (simp add: limit_coherent_def RecomputeDataSharedLimit_def GetDedicatedFcBsBytes_def
      dataBudget_def cong: if_cong)

lemma cb_call_coherent: "cb_call m m' \<Longrightarrow> limit_coherent m \<Longrightarrow> limit_coherent m'"
  by (induction rule: cb_call.induct)
    (auto simp: coherent_InitSwitch coherent_recompute SetCreditQueueLimitBytes_def
      dest: same_limit_traffic intro: coherent_same same_limit_config)

lemma cb_call_star_coherent: "cb_call\<^sup>*\<^sup>* m m' \<Longrightarrow> limit_coherent m \<Longrightarrow> limit_coherent m'"
  by (induction rule: rtranclp_induct) (auto intro: cb_call_coherent)

section \<open>The freshly created object\<close>

lemma initial_sel:
  "m_activePortCnt (GetTypeId_initial g h) = 12"
  "m_dataAdmissionAlpha (GetTypeId_initial g h) = 1"
  "m_creditQueueLimitBytes (GetTypeId_initial g h) = 65536"
  "m_dataSharedUsedBytes (GetTypeId_initial g h) = 0"
  "p < pCnt \<Longrightarrow> m_creditQueueBytes (GetTypeId_initial g h) p = 0"
  "p < pCnt \<Longrightarrow> m_dataQueueBytes (GetTypeId_initial g h) p = 0"
  "p < pCnt \<Longrightarrow> m_dataSharedBytesByPort (GetTypeId_initial g h) p = 0"
  by (simp_all add: GetTypeId_initial_def SetDebugMaxLogs_def SetDebugLog_def SetDataEcnPmax_def
      SetDataAdmissionAlpha_def SetDataEcnKmaxBytes_def SetDataEcnKminBytes_def
      SetDefaultDataGuaranteeBytes_def SetDefaultDataHeadroomBytes_def SetCreditQueueLimitBytes_def
      SetMaxBufferBytesPerPort_def SetActivePortCnt_def SetNodeId_def SwitchCbMmu_ctor_def
      InitSwitch_def LogEvent_def RecomputeDataSharedLimit_def Let_def)

lemma initial_limits:
  "m_dataSharedLimitBytes (GetTypeId_initial g h) = 3713568"
  "p < pCnt \<Longrightarrow> m_dataGuaranteeLimitBytes (GetTypeId_initial g h) p = (if 1 \<le> p \<and> p \<le> 12 then 1048 else 0)"
  "p < pCnt \<Longrightarrow> m_dataHeadroomLimitBytes (GetTypeId_initial g h) p = (if 1 \<le> p \<and> p \<le> 12 then 14596 else 0)"
  by (auto simp: GetTypeId_initial_def SetDebugMaxLogs_def SetDebugLog_def SetDataEcnPmax_def
      SetDataAdmissionAlpha_def SetDataEcnKmaxBytes_def SetDataEcnKminBytes_def MTU_def
      SetDefaultDataGuaranteeBytes_def SetDefaultDataHeadroomBytes_def SetCreditQueueLimitBytes_def
      SetMaxBufferBytesPerPort_def SetActivePortCnt_def SetNodeId_def SwitchCbMmu_ctor_def
      InitSwitch_def LogEvent_def RecomputeDataSharedLimit_def dataBudget_def u32_max_def Let_def)

lemma initial_ok: "pool_ok (GetTypeId_initial g h)" "credit_ok 65535 (GetTypeId_initial g h)"
  by (simp_all add: pool_ok_def acct_def credit_ok_def initial_sel)

lemma initial_occ: "data_occ (GetTypeId_initial g h) p = 0" "credit_occ (GetTypeId_initial g h) p = 0"
  by (simp_all add: data_occ_def credit_occ_def initial_sel)

section \<open>Properties\<close>

text \<open>C7: Whatever packets arrive and leave, a buffer manager whose alpha is at
  most 1 never charges the shared pool beyond its limit, its pool counter is the
  exact sum of the per-port data counters, and traffic never moves the limit.\<close>
theorem cb_pool_never_overcommitted:
  assumes "pool_ok m" "cb_traffic\<^sup>*\<^sup>* m m'"
  shows "m_dataSharedUsedBytes m' \<le> m_dataSharedLimitBytes m
    \<and> (\<Sum>p<pCnt. unat (m_dataQueueBytes m' p)) = unat (m_dataSharedUsedBytes m')"
proof -
  have ok: "pool_ok m'" using assms cb_traffic_star_pool_ok by blast
  have "m_dataSharedLimitBytes m' = m_dataSharedLimitBytes m"
    using assms(2)
    by (induction rule: rtranclp_induct) (auto dest: same_limit_traffic simp: same_limit_inputs_def)
  then show ?thesis using ok by (simp add: pool_ok_def acct_def)
qed

lemma cb_pool_never_overcommitted_witness:
  "m_dataSharedUsedBytes (UpdateDataAdmission 3 1500
     (snd (CheckDataAdmission 3 1500 (GetTypeId_initial (\<lambda>_. 7) (\<lambda>_. 0)))))
   \<le> m_dataSharedLimitBytes (GetTypeId_initial (\<lambda>_. 7) (\<lambda>_. 0))"
proof -
  let ?m = "GetTypeId_initial (\<lambda>_. 7) (\<lambda>_. 0)"
  have "data_threshold ?m = 3713568"
    by (simp add: data_threshold_def initial_sel initial_limits(1)) code_simp
  then have "fst (CheckDataAdmission 3 1500 ?m)"
    by (simp add: CheckDataAdmission_iff initial_sel bad_port_def pCnt_def)
  then have "CheckDataAdmission 3 1500 ?m = (True, snd (CheckDataAdmission 3 1500 ?m))"
    by (simp add: prod_eq_iff)
  then have "cb_traffic\<^sup>*\<^sup>* ?m (UpdateDataAdmission 3 1500 (snd (CheckDataAdmission 3 1500 ?m)))"
    by (intro r_into_rtranclp cb_traffic.data_in)
  then show ?thesis using cb_pool_never_overcommitted[OF initial_ok(1)] by blast
qed

text \<open>C30: Starting from a fresh switch, the data counter of every port is at all
  times exactly the number of bytes of the packets in that port's data queue, so
  it returns to zero when the queue has drained; the pool stays within its limit.\<close>
theorem cb_data_bytes_are_queue_bytes:
  assumes "fold (port_step CheckDataAdmission UpdateDataAdmission RemoveDataAdmission) ops
             (GetTypeId_initial g h, \<lambda>_. []) = (m, q)"
    and "0 < p" "p < pCnt"
  shows "unat (m_dataQueueBytes m p) = queue_bytes (q p)"
proof -
  have "data_occ m p = queue_bytes (q p)"
    using data_side.run_occ(2)[of "GetTypeId_initial g h" ops m q p] assms(1) initial_ok(1) op_ok_any
    by (simp add: initial_occ)
  then show ?thesis using assms(2,3) by (simp add: data_occ_def bad_port_def)
qed

lemma cb_data_bytes_are_queue_bytes_witness:
  "\<exists>m q. fold (port_step CheckDataAdmission UpdateDataAdmission RemoveDataAdmission)
        [Arrive 3 1500, Depart 3 0] (GetTypeId_initial (\<lambda>_. 7) (\<lambda>_. 0), \<lambda>_. []) = (m, q)
     \<and> unat (m_dataQueueBytes m 3) = queue_bytes (q 3) \<and> q 3 = []"
proof -
  let ?r = "fold (port_step CheckDataAdmission UpdateDataAdmission RemoveDataAdmission)
              [Arrive 3 1500, Depart 3 0] (GetTypeId_initial (\<lambda>_. 7) (\<lambda>_. 0), \<lambda>_. [])"
  have "snd ?r 3 = []" by (simp add: case_prod_beta Let_def)
  moreover have "unat (m_dataQueueBytes (fst ?r) 3) = queue_bytes (snd ?r 3)"
    by (rule cb_data_bytes_are_queue_bytes[where q = "snd ?r" and p = 3 and ops = "[Arrive 3 1500, Depart 3 0]"
          and g = "\<lambda>_. 7" and h = "\<lambda>_. 0"]) (simp_all only: prod.collapse, simp_all add: pCnt_def)
  ultimately show ?thesis by (intro exI[of _ "fst ?r"] exI[of _ "snd ?r"]) simp
qed

text \<open>The same for the credit queues, as long as credit packets are at most
  65535 bytes: the counter of a port is the number of bytes in its credit queue
  and never exceeds the configured limit.\<close>
theorem cb_credit_bytes_bounded:
  assumes "fold (port_step CheckCreditAdmission UpdateCreditAdmission RemoveCreditAdmission) ops
             (GetTypeId_initial g h, \<lambda>_. []) = (m, q)"
    and "list_all (op_ok (\<lambda>_. True) 65535) ops" and "0 < p" "p < pCnt"
  shows "unat (m_creditQueueBytes m p) = queue_bytes (q p)
       \<and> m_creditQueueBytes m p \<le> m_creditQueueLimitBytes m"
proof -
  have "credit_ok 65535 m" "credit_occ m p = queue_bytes (q p)"
    using credit_side.run_occ[of "GetTypeId_initial g h" ops m q] assms(1,2) initial_ok(2)
    by (simp_all add: initial_occ)
  then show ?thesis using assms(3,4) by (simp add: credit_ok_def credit_occ_def bad_port_def)
qed

lemma cb_credit_bytes_bounded_witness:
  "\<exists>m q. fold (port_step CheckCreditAdmission UpdateCreditAdmission RemoveCreditAdmission)
        [Arrive 3 84] (GetTypeId_initial (\<lambda>_. 7) (\<lambda>_. 0), \<lambda>_. []) = (m, q)
     \<and> unat (m_creditQueueBytes m 3) = queue_bytes (q 3)
     \<and> m_creditQueueBytes m 3 \<le> m_creditQueueLimitBytes m \<and> q 3 = [84]"
proof -
  let ?m = "GetTypeId_initial (\<lambda>_. 7) (\<lambda>_. 0)"
  let ?r = "fold (port_step CheckCreditAdmission UpdateCreditAdmission RemoveCreditAdmission)
              [Arrive 3 84] (?m, \<lambda>_. [])"
  have "fst (CheckCreditAdmission 3 84 ?m)"
    by (simp add: CheckCreditAdmission_iff initial_sel bad_port_def pCnt_def)
  then have "snd ?r 3 = [84]" by (simp add: case_prod_beta Let_def)
  moreover have "unat (m_creditQueueBytes (fst ?r) 3) = queue_bytes (snd ?r 3)
      \<and> m_creditQueueBytes (fst ?r) 3 \<le> m_creditQueueLimitBytes (fst ?r)"
    by (rule cb_credit_bytes_bounded[where q = "snd ?r" and p = 3 and ops = "[Arrive 3 84]"
          and g = "\<lambda>_. 7" and h = "\<lambda>_. 0"]) (simp_all only: prod.collapse, simp_all add: pCnt_def)
  ultimately show ?thesis by (intro exI[of _ "fst ?r"] exI[of _ "snd ?r"]) simp
qed

text \<open>After any sequence of calls, configuration included, the cached pool
  limit is the memory left by the credit reserve of the active ports:
  max 0 (buffer - credit limit * ports), computed without overflow.\<close>
theorem cb_limit_always_coherent:
  assumes "cb_call\<^sup>*\<^sup>* (GetTypeId_initial g h) m"
  shows "m_dataSharedLimitBytes m = GetDedicatedFcBsBytes m
       \<and> unat (m_dataSharedLimitBytes m) =
           unat (m_maxBufferBytes m) - unat (m_creditQueueLimitBytes m) * unat (m_activePortCnt m)"
proof -
  have "limit_coherent (GetTypeId_initial g h)"
    unfolding GetTypeId_initial_def SwitchCbMmu_ctor_def o_def
    by (intro coherent_InitSwitch cb_call_coherent[OF cb_call.max_logs] cb_call_coherent[OF cb_call.debug]
        cb_call_coherent[OF cb_call.pmax] cb_call_coherent[OF cb_call.alpha] cb_call_coherent[OF cb_call.kmax]
        cb_call_coherent[OF cb_call.kmin] cb_call_coherent[OF cb_call.guarantee] cb_call_coherent[OF cb_call.headroom] cb_call_coherent[OF cb_call.credit_limit]
        cb_call_coherent[OF cb_call.per_port] cb_call_coherent[OF cb_call.active] cb_call_coherent[OF cb_call.node])
  then have "limit_coherent m" using assms cb_call_star_coherent by blast
  then show ?thesis by (simp add: limit_coherent_def dedicated_eq_dataBudget dataBudget_nat)
qed

lemma cb_limit_always_coherent_witness:
  "m_dataSharedLimitBytes (ConfigBufferSize 1000000 (GetTypeId_initial (\<lambda>_. 7) (\<lambda>_. 0)))
   = GetDedicatedFcBsBytes (ConfigBufferSize 1000000 (GetTypeId_initial (\<lambda>_. 7) (\<lambda>_. 0)))"
  using cb_limit_always_coherent[OF r_into_rtranclp[of cb_call, OF cb_call.buffer]] by blast

text \<open>An object created through its TypeId does not depend on the memory the
  constructor leaves uninitialised: every entry of the two limit tables is the
  registered default on the 12 active ports and 0 elsewhere, all counters are 0
  and the pool limit is 3713568 bytes.\<close>
theorem cb_created_state_determined:
  "m_dataSharedLimitBytes (GetTypeId_initial g h) = 3713568
   \<and> m_dataSharedUsedBytes (GetTypeId_initial g h) = 0
   \<and> (\<forall>p. p < pCnt \<longrightarrow>
        m_dataGuaranteeLimitBytes (GetTypeId_initial g h) p = (if 1 \<le> p \<and> p \<le> 12 then 1048 else 0)
      \<and> m_dataHeadroomLimitBytes (GetTypeId_initial g h) p = (if 1 \<le> p \<and> p \<le> 12 then 14596 else 0)
      \<and> m_creditQueueBytes (GetTypeId_initial g h) p = 0
      \<and> m_dataQueueBytes (GetTypeId_initial g h) p = 0)"
  using initial_limits initial_sel by simp

lemma cb_created_state_determined_witness:
  "m_dataHeadroomLimitBytes (GetTypeId_initial (\<lambda>_. 7) (\<lambda>_. 9)) 3 = 14596"
  using cb_created_state_determined[of "\<lambda>_. 7" "\<lambda>_. 9"] by (simp add: pCnt_def)

lemma data_threshold_alpha1:
  assumes "m_dataAdmissionAlpha m = 1"
  shows "unat (data_threshold m) = unat (m_dataSharedLimitBytes m) - unat (m_dataSharedUsedBytes m)"
proof -
  let ?av = "if (ucast (m_dataSharedLimitBytes m) :: u64) > ucast (m_dataSharedUsedBytes m)
             then ucast (m_dataSharedLimitBytes m) - ucast (m_dataSharedUsedBytes m) else (0 :: u64)"
  let ?n = "unat (m_dataSharedLimitBytes m) - unat (m_dataSharedUsedBytes m)"
  have av: "unat ?av = ?n" unfolding unat_sat_sub' by (simp add: unat_ucast_up)
  have n: "?n < 4294967296" using unat_lt_u32[of "m_dataSharedLimitBytes m"] by linarith
  have d: "dbl_of_word ?av = of_nat ?n" using dbl_of_word_exact[of ?av] av n by simp
  have m: "fmul 1 (of_nat ?n) = of_nat ?n" using n dbl_of_nat[of ?n] by (simp add: fmul_def)
  have "(of_nat ?n :: rat) < 2 ^ LENGTH(64)"
    using n of_nat_less_iff[of ?n 4294967296, where 'a = rat] by simp
  then show ?thesis
    unfolding data_threshold_def Let_def d assms m by (simp add: unat_word_of_dbl)
qed

text \<open>With alpha = 1 a port that is alone in the pool is admitted up to half
  of it and no further: a packet of n bytes enters exactly when twice the queue
  plus n is within the pool limit.\<close>
theorem cb_lone_port_gets_half:
  assumes "acct m" "m_dataAdmissionAlpha m = 1" "0 < p" "p < pCnt"
    and "\<forall>r<pCnt. r \<noteq> p \<longrightarrow> m_dataQueueBytes m r = 0"
  shows "fst (CheckDataAdmission p n m) \<longleftrightarrow>
           2 * unat (m_dataQueueBytes m p) + unat n \<le> unat (m_dataSharedLimitBytes m)"
proof -
  have "(\<Sum>r<pCnt. unat (m_dataQueueBytes m r)) = (\<Sum>r<pCnt. if r = p then unat (m_dataQueueBytes m p) else 0)"
    using assms(5) by (intro sum.cong) auto
  then have "unat (m_dataSharedUsedBytes m) = unat (m_dataQueueBytes m p)"
    using assms(1,4) by (simp add: acct_def)
  then show ?thesis using assms(3,4)
    by (auto simp: CheckDataAdmission_iff data_threshold_alpha1[OF assms(2)] bad_port_def)
qed

lemma cb_lone_port_gets_half_witness:
  "fst (CheckDataAdmission 3 1500 (GetTypeId_initial (\<lambda>_. 7) (\<lambda>_. 0)))"
proof -
  let ?m = "GetTypeId_initial (\<lambda>_. 7) (\<lambda>_. 0)"
  have "fst (CheckDataAdmission 3 1500 ?m) \<longleftrightarrow>
      2 * unat (m_dataQueueBytes ?m 3) + unat (1500 :: u32) \<le> unat (m_dataSharedLimitBytes ?m)"
    using initial_ok(1)
    by (intro cb_lone_port_gets_half) (simp_all add: pool_ok_def initial_sel pCnt_def)
  then show ?thesis by (simp add: initial_limits initial_sel pCnt_def)
qed

lemma mark_prob_mono:
  assumes "kmin < kmax" "kmin \<le> q" "q \<le> q'" "0 \<le> pmax"
  shows "fmul (fdiv (fmul 1 (dbl_of_word (q - kmin :: u32))) (dbl_of_word (kmax - kmin))) pmax
       \<le> fmul (fdiv (fmul 1 (dbl_of_word (q' - kmin))) (dbl_of_word (kmax - kmin))) pmax"
proof -
  have "q - kmin \<le> q' - kmin"
    using assms(2,3) by (simp add: word_le_nat_alt unat_sub_le diff_le_mono)
  then have "dbl_of_word (q - kmin) \<le> dbl_of_word (q' - kmin)"
    unfolding dbl_of_word_def
    by (intro dbl_mono of_int_le_iff[THEN iffD2] word_le_def[THEN iffD1])
  then have "fmul 1 (dbl_of_word (q - kmin)) \<le> fmul 1 (dbl_of_word (q' - kmin))"
    unfolding fmul_def by (intro dbl_mono) simp
  then have "fdiv (fmul 1 (dbl_of_word (q - kmin))) (dbl_of_word (kmax - kmin))
      \<le> fdiv (fmul 1 (dbl_of_word (q' - kmin))) (dbl_of_word (kmax - kmin))"
    unfolding fdiv_def by (intro dbl_mono divide_right_mono) simp_all
  then show ?thesis using assms(4) unfolding fmul_def[of _ pmax]
    by (intro dbl_mono mult_right_mono)
qed

text \<open>ECN marking is a threshold rule: always above Kmax, never at or below
  Kmin (when Kmin is not above Kmax), and for the same random draw a longer
  queue is marked whenever a shorter one is.\<close>
theorem cb_ecn_threshold_monotone:
  assumes "0 < p" "p < pCnt" "0 \<le> m_dataEcnPmax m"
    and "q \<le> q'"
  shows "(m_dataEcnKmaxBytes m < q \<longrightarrow> ShouldSendCn p u (m\<lparr>m_dataQueueBytes := (m_dataQueueBytes m)(p := q)\<rparr>))
    \<and> (q \<le> m_dataEcnKminBytes m \<and> q \<le> m_dataEcnKmaxBytes m \<longrightarrow>
         \<not> ShouldSendCn p u (m\<lparr>m_dataQueueBytes := (m_dataQueueBytes m)(p := q)\<rparr>))
    \<and> (ShouldSendCn p u (m\<lparr>m_dataQueueBytes := (m_dataQueueBytes m)(p := q)\<rparr>) \<longrightarrow>
         ShouldSendCn p u (m\<lparr>m_dataQueueBytes := (m_dataQueueBytes m)(p := q')\<rparr>))"
proof (intro conjI impI)
  assume s: "ShouldSendCn p u (m\<lparr>m_dataQueueBytes := (m_dataQueueBytes m)(p := q)\<rparr>)"
  show "ShouldSendCn p u (m\<lparr>m_dataQueueBytes := (m_dataQueueBytes m)(p := q')\<rparr>)"
  proof (cases "m_dataEcnKmaxBytes m < q'")
    case True
    then show ?thesis using assms(1,2) by (simp add: ShouldSendCn_def bad_port_def)
  next
    case False
    then have nq: "\<not> m_dataEcnKmaxBytes m < q" using assms(4) by auto
    let ?P = "\<lambda>q. fmul (fdiv (fmul 1 (dbl_of_word (q - m_dataEcnKminBytes m)))
                     (dbl_of_word (m_dataEcnKmaxBytes m - m_dataEcnKminBytes m))) (m_dataEcnPmax m)"
    have q: "\<not> q \<le> m_dataEcnKminBytes m" "\<not> m_dataEcnKminBytes m \<ge> m_dataEcnKmaxBytes m" "u < ?P q"
      using s nq assms(1,2) by (auto simp: ShouldSendCn_def bad_port_def Let_def split: if_splits)
    have "?P q \<le> ?P q'" using q assms(3,4) by (intro mark_prob_mono) auto
    then have "u < ?P q'" using q(3) by linarith
    moreover have "\<not> q' \<le> m_dataEcnKminBytes m" using q(1) assms(4) by auto
    ultimately show ?thesis using False q(2) assms(1,2) by (simp add: ShouldSendCn_def bad_port_def Let_def)
  qed
qed (use assms(1,2) in \<open>auto simp: ShouldSendCn_def bad_port_def\<close>)

lemma cb_ecn_threshold_monotone_witness:
  "\<not> ShouldSendCn 3 (1/2) ((GetTypeId_initial (\<lambda>_. 7) (\<lambda>_. 0))\<lparr>m_dataQueueBytes :=
      (m_dataQueueBytes (GetTypeId_initial (\<lambda>_. 7) (\<lambda>_. 0)))(3 := 1000)\<rparr>)"
proof -
  let ?m = "GetTypeId_initial (\<lambda>_. 7) (\<lambda>_. 0)"
  have k: "m_dataEcnKminBytes ?m = 65536" "m_dataEcnKmaxBytes ?m = 98304" "m_dataEcnPmax ?m = 1"
    by (simp_all add: GetTypeId_initial_def SetDebugMaxLogs_def SetDebugLog_def SetDataEcnPmax_def
        SetDataAdmissionAlpha_def SetDataEcnKmaxBytes_def SetDataEcnKminBytes_def)
  show ?thesis
    using cb_ecn_threshold_monotone[of 3 ?m 1000 1000 "1/2"] by (simp add: k pCnt_def)
qed

lemma foldl_add_unat:
  assumes "sum_list (map (\<lambda>p. unat (f p :: u32)) ps) + unat acc < 2 ^ 64"
  shows "unat (foldl (\<lambda>acc p. acc + ucast (f p)) (acc :: u64) ps) =
           unat acc + sum_list (map (\<lambda>p. unat (f p)) ps)"
  using assms
proof (induction ps arbitrary: acc)
  case (Cons p ps)
  then have "unat (acc + ucast (f p)) = unat acc + unat (f p)"
    by (simp add: unat_add_lt unat_ucast_up)
  with Cons show ?case by simp
qed simp

text \<open>When only active ports carry data, the per-port total the monitoring
  getter computes is the pool counter.\<close>
theorem cb_total_is_pool_used:
  assumes "acct m" and "\<forall>p<pCnt. unat (m_activePortCnt m) < p \<longrightarrow> m_dataQueueBytes m p = 0"
  shows "GetTotalDataQueueBytes m = m_dataSharedUsedBytes m"
proof -
  let ?f = "\<lambda>p. unat (m_dataQueueBytes m p)"
  have sub: "set (active_ports m) \<subseteq> {..<pCnt}" by (auto simp: active_ports_def)
  have "sum_list (map ?f (active_ports m)) = (\<Sum>p\<in>set (active_ports m). ?f p)"
    by (rule sum_list_distinct_conv_sum_set) (simp add: active_ports_def)
  also have "\<dots> = (\<Sum>p<pCnt. ?f p)"
    using assms sub by (intro sum.mono_neutral_left) (auto simp: active_ports_def acct_def not_less_eq_eq)
  also have "\<dots> = unat (m_dataSharedUsedBytes m)" using assms(1) by (simp add: acct_def)
  finally have sum: "sum_list (map ?f (active_ports m)) = unat (m_dataSharedUsedBytes m)" .
  let ?t = "foldl (\<lambda>acc p. acc + ucast (m_dataQueueBytes m p)) (0 :: u64) (active_ports m)"
  have t: "unat ?t = unat (m_dataSharedUsedBytes m)"
    using foldl_add_unat[of "m_dataQueueBytes m" "active_ports m" 0] sum
      unat_lt_u32[of "m_dataSharedUsedBytes m"] by simp
  then have "min ?t u32_max = ?t"
    using unat_lt_u32[of "m_dataSharedUsedBytes m"] by (simp add: min_def u32_max_def word_le_nat_alt)
  then have "unat (GetTotalDataQueueBytes m) = unat (m_dataSharedUsedBytes m)"
    unfolding GetTotalDataQueueBytes_def Let_def
    using t unat_lt_u32[of "m_dataSharedUsedBytes m"]
    by (simp add: unsigned_ucast_eq take_bit_nat_eq_self)
  then show ?thesis by (simp add: word_unat_eq_iff)
qed

lemma cb_total_is_pool_used_witness:
  "GetTotalDataQueueBytes (GetTypeId_initial (\<lambda>_. 7) (\<lambda>_. 0))
   = m_dataSharedUsedBytes (GetTypeId_initial (\<lambda>_. 7) (\<lambda>_. 0))"
  using initial_ok(1) by (intro cb_total_is_pool_used) (simp_all add: pool_ok_def initial_sel)

end
