(* ===== verification/SwitchMmu.thy ===== *)
theory SwitchMmu
  imports Doubles Admission
begin

text \<open>
  The lossless-network buffer manager of dpdq-ns3, \<^verbatim>\<open>class SwitchMmu\<close> of
  \<^verbatim>\<open>src/point-to-point/model/switch-mmu.{h,cc}\<close>: ingress accounting with
  guarantee, shared pool and headroom, egress accounting with a per-queue
  guarantee and a shared pool under a dynamic threshold, PFC pause and resume
  decisions, ECN, and the TLT counters.  Byte counters are 32-bit words, alphas
  rounded doubles.  Warnings on the error stream have no effect and are left
  out; the flag dbg says whether NS_ASSERT is compiled in (a failed assertion is
  None).  The simulator's resume event of a queue is the time it is due at.
\<close>

section \<open>State\<close>

definition mmu_qCnt :: nat where "mmu_qCnt = 8"
definition mmu_pCnt :: nat where "mmu_pCnt = 128"
definition mmu_MTU :: u32 where "mmu_MTU = 1048"

record SwitchMmu =
  mmu_node_id :: u32
  kmin :: "u32 tab"
  kmax :: "u32 tab"
  pmax :: "double tab"
  paused :: "bool tab tab"
  resumeEvt :: "nat option tab tab"
  m_pause_remote :: "bool tab tab"
  m_tlt :: bool
  m_PFCenabled :: bool
  mmu_maxBufferBytes :: u32
  m_usedTotalBytes :: u32
  mmu_activePortCnt :: u32
  mmu_maxBufferBytesPerPort :: u32
  mmu_staticMaxBufferBytes :: u32
  m_usedIngressPGBytes :: "u32 tab tab"
  m_usedIngressPortBytes :: "u32 tab"
  m_usedIngressSPBytes :: "u32 tab"
  m_usedIngressPGHeadroomBytes :: "u32 tab tab"
  m_maxBytes_TltUip :: double
  m_bytesIngressTltUip :: "u32 tab"
  m_bytesEgressTltUip :: "u32 tab"
  m_totaluipbytes :: u32
  m_tlt_uimp_drop_rate :: double
  m_usedEgressQMinBytes :: "u32 tab tab"
  m_usedEgressQSharedBytes :: "u32 tab tab"
  m_usedEgressPortBytes :: "u32 tab"
  m_usedEgressSPBytes :: "u32 tab"
  m_buffer_cell_limit_sp :: u32
  m_buffer_cell_limit_sp_shared :: u32
  m_pg_min_cell :: u32
  m_port_min_cell :: u32
  m_pg_shared_limit_cell :: u32
  m_port_max_shared_cell :: u32
  m_pg_hdrm_limit :: "u32 tab"
  m_port_max_pkt_size :: u32
  m_port_min_cell_off :: u32
  m_pg_shared_limit_cell_off :: u32
  m_q_min_cell :: u32
  m_op_uc_port_config1_cell :: u32
  m_op_uc_port_config_cell :: u32
  m_op_buffer_shared_limit_cell :: u32
  m_pg_shared_alpha_cell :: double
  m_pg_shared_alpha_cell_egress :: double
  m_pg_shared_alpha_cell_off_diff :: double
  m_port_shared_alpha_cell :: double
  m_port_shared_alpha_cell_off_diff :: double
  m_dynamicth :: bool
  m_log_start :: double
  m_log_end :: double
  m_log_step :: double

section \<open>Initialisation\<close>

text \<open>The guarantee set aside for every active port.\<close>
definition port_guarantee :: "SwitchMmu \<Rightarrow> u32" where
  "port_guarantee m = max (word_of_nat mmu_qCnt * m_pg_min_cell m) (m_port_min_cell m)"

definition total_pg_hdrm_limit :: "SwitchMmu \<Rightarrow> u32" where
  "total_pg_hdrm_limit m =
     foldl (\<lambda>total i. total + m_pg_hdrm_limit m i) 0 [0..<unat (mmu_activePortCnt m)]"

definition SwitchMmu_InitSwitch :: "SwitchMmu \<Rightarrow> SwitchMmu" where
  "SwitchMmu_InitSwitch m =
    (let m = m\<lparr>mmu_maxBufferBytes :=
                 (if mmu_staticMaxBufferBytes m \<noteq> 0 then mmu_staticMaxBufferBytes m
                  else mmu_maxBufferBytesPerPort m * mmu_activePortCnt m),
               m_usedTotalBytes := 0, m_totaluipbytes := 0\<rparr>;
         m = (if m_dynamicth m
              then m\<lparr>m_pg_shared_limit_cell := mmu_maxBufferBytes m,
                     m_port_max_shared_cell := mmu_maxBufferBytes m\<rparr>
              else m\<lparr>m_pg_shared_limit_cell := 20 * mmu_MTU,
                     m_port_max_shared_cell := 4800 * mmu_MTU\<rparr>);
         zero = (\<lambda>(t :: u32 tab) i. if i < mmu_pCnt then 0 else t i);
         zero2 = (\<lambda>(t :: u32 tab tab) i j. if i < mmu_pCnt \<and> j < mmu_qCnt then 0 else t i j);
         zero4 = (\<lambda>(t :: u32 tab) i. if i < 4 then 0 else t i);
         m = m\<lparr>m_usedIngressPortBytes := zero (m_usedIngressPortBytes m),
               m_usedEgressPortBytes := zero (m_usedEgressPortBytes m),
               m_bytesIngressTltUip := zero (m_bytesIngressTltUip m),
               m_bytesEgressTltUip := zero (m_bytesEgressTltUip m),
               m_usedIngressPGBytes := zero2 (m_usedIngressPGBytes m),
               m_usedIngressPGHeadroomBytes := zero2 (m_usedIngressPGHeadroomBytes m),
               m_usedEgressQMinBytes := zero2 (m_usedEgressQMinBytes m),
               m_usedEgressQSharedBytes := zero2 (m_usedEgressQSharedBytes m),
               m_usedIngressSPBytes := zero4 (m_usedIngressSPBytes m),
               m_usedEgressSPBytes := zero4 (m_usedEgressSPBytes m)\<rparr>;
         m = m\<lparr>m_buffer_cell_limit_sp := 4000 * mmu_MTU, m_pg_min_cell := mmu_MTU,
               m_port_min_cell := mmu_MTU, m_port_max_pkt_size := 100 * mmu_MTU\<rparr>;
         m = m\<lparr>m_buffer_cell_limit_sp := mmu_maxBufferBytes m - total_pg_hdrm_limit m
                 - mmu_activePortCnt m * port_guarantee m,
               m_port_min_cell_off := 4700 * mmu_MTU,
               m_pg_shared_limit_cell_off := m_pg_shared_limit_cell m - 2 * mmu_MTU\<rparr>
     in m\<lparr>m_op_buffer_shared_limit_cell := mmu_maxBufferBytes m - mmu_activePortCnt m * port_guarantee m,
          m_op_uc_port_config_cell := mmu_maxBufferBytes m,
          m_q_min_cell := 1 + mmu_MTU,
          m_op_uc_port_config1_cell := mmu_maxBufferBytes m,
          m_port_shared_alpha_cell := 128,
          m_pg_shared_alpha_cell_off_diff := 16,
          m_port_shared_alpha_cell_off_diff := 16,
          m_log_start := dbl (21/10), m_log_end := dbl (22/10), m_log_step := dbl (1/100000)\<rparr>)"

text \<open>The constructor; the argument is the object as allocated, with the in-class
  initialisers applied and everything else indeterminate.\<close>
definition SwitchMmu_ctor :: "SwitchMmu \<Rightarrow> SwitchMmu" where
  "SwitchMmu_ctor raw = SwitchMmu_InitSwitch (raw\<lparr>mmu_maxBufferBytes := 0, m_usedTotalBytes := 0,
     mmu_activePortCnt := 0, mmu_maxBufferBytesPerPort := 0, mmu_staticMaxBufferBytes := 0,
     m_tlt_uimp_drop_rate := 0, m_pg_shared_alpha_cell := 0, m_pg_shared_alpha_cell_egress := 0,
     m_dynamicth := False\<rparr>)"

definition SwitchMmu_SetActivePortCnt :: "u32 \<Rightarrow> SwitchMmu \<Rightarrow> SwitchMmu" where
  "SwitchMmu_SetActivePortCnt v m = SwitchMmu_InitSwitch (m\<lparr>mmu_activePortCnt := v\<rparr>)"

definition SwitchMmu_SetMaxBufferBytesPerPort :: "u32 \<Rightarrow> SwitchMmu \<Rightarrow> SwitchMmu" where
  "SwitchMmu_SetMaxBufferBytesPerPort v m = SwitchMmu_InitSwitch (m\<lparr>mmu_maxBufferBytesPerPort := v\<rparr>)"

definition SetPgHdrmLimit :: "u32 \<Rightarrow> SwitchMmu \<Rightarrow> SwitchMmu" where
  "SetPgHdrmLimit v m = SwitchMmu_InitSwitch
     (m\<lparr>m_pg_hdrm_limit := (\<lambda>i. if i < mmu_pCnt then v else m_pg_hdrm_limit m i)\<rparr>)"

definition SetDynamicThreshold :: "bool \<Rightarrow> SwitchMmu \<Rightarrow> SwitchMmu" where
  "SetDynamicThreshold v m = SwitchMmu_InitSwitch (m\<lparr>m_dynamicth := v\<rparr>)"

definition ConfigHdrm :: "nat \<Rightarrow> u32 \<Rightarrow> SwitchMmu \<Rightarrow> SwitchMmu" where
  "ConfigHdrm port bytes m =
     SwitchMmu_InitSwitch (m\<lparr>m_pg_hdrm_limit := (m_pg_hdrm_limit m)(port := bytes)\<rparr>)"

definition ConfigNPort :: "u32 \<Rightarrow> SwitchMmu \<Rightarrow> SwitchMmu" where
  "ConfigNPort n_port m = SwitchMmu_InitSwitch (m\<lparr>mmu_activePortCnt := n_port\<rparr>)"

definition SwitchMmu_ConfigBufferSize :: "u32 \<Rightarrow> SwitchMmu \<Rightarrow> SwitchMmu" where
  "SwitchMmu_ConfigBufferSize bytes m = SwitchMmu_InitSwitch (m\<lparr>mmu_staticMaxBufferBytes := bytes\<rparr>)"

definition ConfigEcn :: "nat \<Rightarrow> u32 \<Rightarrow> u32 \<Rightarrow> double \<Rightarrow> SwitchMmu \<Rightarrow> SwitchMmu" where
  "ConfigEcn port kmin' kmax' pmax' m =
     m\<lparr>kmin := (kmin m)(port := kmin' * 1000), kmax := (kmax m)(port := kmax' * 1000),
       pmax := (pmax m)(port := pmax')\<rparr>"

text \<open>The attributes registered by GetTypeId with their initial values, in order.\<close>
definition SwitchMmu_initial :: "SwitchMmu \<Rightarrow> SwitchMmu" where
  "SwitchMmu_initial raw =
    (let m = SwitchMmu_ctor raw;
         m = m\<lparr>m_pg_shared_alpha_cell := dbl (625/10000)\<rparr>;
         m = m\<lparr>m_pg_shared_alpha_cell_egress := 1\<rparr>;
         m = SetDynamicThreshold True m;
         m = SwitchMmu_SetMaxBufferBytesPerPort (200 * 1000) m;
         m = SwitchMmu_SetActivePortCnt 12 m;
         m = SetPgHdrmLimit (12500 + 2 * mmu_MTU) m
     in m\<lparr>m_tlt := False, m_tlt_uimp_drop_rate := 0, m_maxBytes_TltUip := 0\<rparr>)"

definition SetBroadcomParams ::
  "u32 \<Rightarrow> u32 \<Rightarrow> u32 \<Rightarrow> u32 \<Rightarrow> u32 \<Rightarrow> u32 \<Rightarrow> u32 \<Rightarrow> u32 \<Rightarrow> u32 \<Rightarrow> u32 \<Rightarrow> u32 \<Rightarrow> u32 \<Rightarrow> u32 \<Rightarrow> u32 \<Rightarrow> u32
   \<Rightarrow> SwitchMmu \<Rightarrow> SwitchMmu" where
  "SetBroadcomParams buffer_cell_limit_sp buffer_cell_limit_sp_shared pg_min_cell port_min_cell
     pg_shared_limit_cell port_max_shared_cell pg_hdrm_limit port_max_pkt_size q_min_cell
     op_uc_port_config1_cell op_uc_port_config_cell op_buffer_shared_limit_cell
     q_shared_alpha_cell port_share_alpha_cell pg_qcn_threshold m =
     m\<lparr>m_buffer_cell_limit_sp := buffer_cell_limit_sp,
       m_buffer_cell_limit_sp_shared := buffer_cell_limit_sp_shared,
       m_pg_min_cell := pg_min_cell, m_port_min_cell := port_min_cell,
       m_pg_shared_limit_cell := pg_shared_limit_cell,
       m_port_max_shared_cell := port_max_shared_cell,
       m_pg_hdrm_limit := (\<lambda>i. if i < mmu_pCnt then pg_hdrm_limit else m_pg_hdrm_limit m i),
       m_port_max_pkt_size := port_max_pkt_size, m_q_min_cell := q_min_cell,
       m_op_uc_port_config1_cell := op_uc_port_config1_cell,
       m_op_uc_port_config_cell := op_uc_port_config_cell,
       m_op_buffer_shared_limit_cell := op_buffer_shared_limit_cell,
       m_pg_shared_alpha_cell := dbl_of_word q_shared_alpha_cell,
       m_port_shared_alpha_cell := dbl_of_word port_share_alpha_cell\<rparr>"

text \<open>Everything a program can set: the attributes, the Config functions and the Broadcom
  parameters.  The attributes of the alphas and of TLT write the field.\<close>
datatype mmu_setting =
    AttrIngressAlpha double | AttrEgressAlpha double | AttrDynamicThreshold bool | AttrMaxTotalBufferPerPort u32
  | AttrActivePortCnt u32 | AttrPGHeadroomLimit u32 | AttrTltEnable bool | AttrTltUipDropRate double
  | AttrMaxBytesTltUip double | CfgEcn nat u32 u32 double | CfgHdrm nat u32 | CfgNPort u32 | CfgBufferSize u32
  | BroadcomParams u32 u32 u32 u32 u32 u32 u32 u32 u32 u32 u32 u32 u32 u32 u32

fun mmu_set :: "mmu_setting \<Rightarrow> SwitchMmu \<Rightarrow> SwitchMmu" where
  "mmu_set (AttrIngressAlpha a) m = m\<lparr>m_pg_shared_alpha_cell := a\<rparr>"
| "mmu_set (AttrEgressAlpha a) m = m\<lparr>m_pg_shared_alpha_cell_egress := a\<rparr>"
| "mmu_set (AttrDynamicThreshold v) m = SetDynamicThreshold v m"
| "mmu_set (AttrMaxTotalBufferPerPort v) m = SwitchMmu_SetMaxBufferBytesPerPort v m"
| "mmu_set (AttrActivePortCnt v) m = SwitchMmu_SetActivePortCnt v m"
| "mmu_set (AttrPGHeadroomLimit v) m = SetPgHdrmLimit v m"
| "mmu_set (AttrTltEnable v) m = m\<lparr>m_tlt := v\<rparr>"
| "mmu_set (AttrTltUipDropRate v) m = m\<lparr>m_tlt_uimp_drop_rate := v\<rparr>"
| "mmu_set (AttrMaxBytesTltUip v) m = m\<lparr>m_maxBytes_TltUip := v\<rparr>"
| "mmu_set (CfgEcn port mn mx pm) m = ConfigEcn port mn mx pm m"
| "mmu_set (CfgHdrm port bytes) m = ConfigHdrm port bytes m"
| "mmu_set (CfgNPort n) m = ConfigNPort n m"
| "mmu_set (CfgBufferSize bytes) m = SwitchMmu_ConfigBufferSize bytes m"
| "mmu_set (BroadcomParams a1 a2 a3 a4 a5 a6 a7 a8 a9 a10 a11 a12 a13 a14 a15) m =
     SetBroadcomParams a1 a2 a3 a4 a5 a6 a7 a8 a9 a10 a11 a12 a13 a14 a15 m"

text \<open>The tables a setting writes have an entry for the port.\<close>
fun mmu_setting_ok :: "mmu_setting \<Rightarrow> bool" where
  "mmu_setting_ok (CfgEcn port mn mx pm) = (port < mmu_pCnt)"
| "mmu_setting_ok (CfgHdrm port bytes) = (port < mmu_pCnt)"
| "mmu_setting_ok _ = True"

section \<open>Service pools\<close>

definition GetIngressSP :: "nat \<Rightarrow> nat \<Rightarrow> nat" where
  "GetIngressSP port pgIndex = (if pgIndex = 1 then 1 else 0)"

definition GetEgressSP :: "nat \<Rightarrow> nat \<Rightarrow> nat" where
  "GetEgressSP port qIndex = (if qIndex = 1 then 1 else 0)"

section \<open>Ingress\<close>

definition CheckIngressAdmission :: "bool \<Rightarrow> nat \<Rightarrow> nat \<Rightarrow> u32 \<Rightarrow> SwitchMmu \<Rightarrow> bool option" where
  "CheckIngressAdmission dbg port qIndex psize m =
    (if dbg \<and> \<not> m_pg_shared_alpha_cell m > 0 then None
     else Some (
       if m_usedTotalBytes m + psize > mmu_maxBufferBytes m then False
       else if m_usedIngressPGBytes m port qIndex + psize > m_pg_min_cell m
               \<and> m_usedIngressPortBytes m port + psize > m_port_min_cell m
               \<and> m_usedIngressSPBytes m (GetIngressSP port qIndex) > m_buffer_cell_limit_sp m
               \<and> m_usedIngressPGHeadroomBytes m port qIndex + psize > m_pg_hdrm_limit m port
       then False
       else True))"

definition UpdateIngressAdmission :: "nat \<Rightarrow> nat \<Rightarrow> u32 \<Rightarrow> SwitchMmu \<Rightarrow> SwitchMmu" where
  "UpdateIngressAdmission port qIndex psize m =
    (let sp = GetIngressSP port qIndex;
         m = m\<lparr>m_usedTotalBytes := m_usedTotalBytes m + psize\<rparr>;
         m = m\<lparr>m_usedIngressSPBytes := (m_usedIngressSPBytes m)(sp := m_usedIngressSPBytes m sp + psize)\<rparr>;
         m = m\<lparr>m_usedIngressPortBytes := (m_usedIngressPortBytes m)(port := m_usedIngressPortBytes m port + psize)\<rparr>;
         m = m\<lparr>m_usedIngressPGBytes := upd2 (m_usedIngressPGBytes m) port qIndex (m_usedIngressPGBytes m port qIndex + psize)\<rparr>
     in if m_usedIngressSPBytes m sp > m_buffer_cell_limit_sp m
        then m\<lparr>m_usedIngressPGHeadroomBytes := upd2 (m_usedIngressPGHeadroomBytes m) port qIndex
                 (m_usedIngressPGHeadroomBytes m port qIndex + psize)\<rparr>
        else m)"

text \<open>A counter that is too small is first raised to the packet size, with a
  warning.\<close>
definition raised :: "u32 \<Rightarrow> u32 \<Rightarrow> u32" where
  "raised psize v = (if v < psize then psize else v)"

definition RemoveFromIngressAdmission :: "nat \<Rightarrow> nat \<Rightarrow> u32 \<Rightarrow> SwitchMmu \<Rightarrow> SwitchMmu" where
  "RemoveFromIngressAdmission port qIndex psize m =
    (let sp = GetIngressSP port qIndex;
         m = m\<lparr>m_usedTotalBytes := raised psize (m_usedTotalBytes m)\<rparr>;
         m = m\<lparr>m_usedIngressSPBytes := (m_usedIngressSPBytes m)(sp := raised psize (m_usedIngressSPBytes m sp))\<rparr>;
         m = m\<lparr>m_usedIngressPortBytes := (m_usedIngressPortBytes m)(port := raised psize (m_usedIngressPortBytes m port))\<rparr>;
         m = m\<lparr>m_usedIngressPGBytes := upd2 (m_usedIngressPGBytes m) port qIndex (raised psize (m_usedIngressPGBytes m port qIndex))\<rparr>;
         m = m\<lparr>m_usedTotalBytes := m_usedTotalBytes m - psize\<rparr>;
         m = m\<lparr>m_usedIngressSPBytes := (m_usedIngressSPBytes m)(sp := m_usedIngressSPBytes m sp - psize)\<rparr>;
         m = m\<lparr>m_usedIngressPortBytes := (m_usedIngressPortBytes m)(port := m_usedIngressPortBytes m port - psize)\<rparr>;
         m = m\<lparr>m_usedIngressPGBytes := upd2 (m_usedIngressPGBytes m) port qIndex (m_usedIngressPGBytes m port qIndex - psize)\<rparr>
     in m\<lparr>m_usedIngressPGHeadroomBytes := upd2 (m_usedIngressPGHeadroomBytes m) port qIndex
            (if fsub (dbl_of_word (m_usedIngressPGHeadroomBytes m port qIndex)) (dbl_of_word psize) > 0
             then m_usedIngressPGHeadroomBytes m port qIndex - psize else 0)\<rparr>)"

section \<open>Egress\<close>

definition CheckEgressAdmission :: "bool \<Rightarrow> nat \<Rightarrow> nat \<Rightarrow> u32 \<Rightarrow> SwitchMmu \<Rightarrow> bool option" where
  "CheckEgressAdmission dbg port qIndex psize m =
    (if dbg \<and> \<not> m_pg_shared_alpha_cell_egress m > 0 then None
     else Some (
       let sp = GetEgressSP port qIndex in
       if m_usedEgressSPBytes m sp + psize > m_op_buffer_shared_limit_cell m then False
       else if m_usedEgressPortBytes m port + psize > m_op_uc_port_config_cell m then False
       else if m_usedEgressQSharedBytes m port qIndex + psize > m_op_uc_port_config1_cell m then False
       else if fadd (dbl_of_word (m_usedEgressQSharedBytes m port qIndex)) (dbl_of_word psize)
               > fmul (m_pg_shared_alpha_cell_egress m)
                   (fsub (dbl_of_word (m_op_buffer_shared_limit_cell m)) (dbl_of_word (m_usedEgressSPBytes m sp)))
       then False
       else True))"

definition UpdateEgressAdmission :: "nat \<Rightarrow> nat \<Rightarrow> u32 \<Rightarrow> SwitchMmu \<Rightarrow> SwitchMmu" where
  "UpdateEgressAdmission port qIndex psize m =
    (let sp = GetEgressSP port qIndex;
         qmin = m_usedEgressQMinBytes m port qIndex;
         qshared = m_usedEgressQSharedBytes m port qIndex in
     if qmin + psize < m_q_min_cell m
     then m\<lparr>m_usedEgressQMinBytes := upd2 (m_usedEgressQMinBytes m) port qIndex (qmin + psize),
            m_usedEgressPortBytes := (m_usedEgressPortBytes m)(port := m_usedEgressPortBytes m port + psize)\<rparr>
     else if qmin \<noteq> m_q_min_cell m
     then m\<lparr>m_usedEgressQSharedBytes := upd2 (m_usedEgressQSharedBytes m) port qIndex
              (qshared + psize + qmin - m_q_min_cell m),
            m_usedEgressPortBytes := (m_usedEgressPortBytes m)(port := m_usedEgressPortBytes m port + psize),
            m_usedEgressSPBytes := (m_usedEgressSPBytes m)
              (sp := m_usedEgressSPBytes m sp + psize + qmin - m_q_min_cell m),
            m_usedEgressQMinBytes := upd2 (m_usedEgressQMinBytes m) port qIndex (m_q_min_cell m)\<rparr>
     else m\<lparr>m_usedEgressQSharedBytes := upd2 (m_usedEgressQSharedBytes m) port qIndex (qshared + psize),
            m_usedEgressPortBytes := (m_usedEgressPortBytes m)(port := m_usedEgressPortBytes m port + psize),
            m_usedEgressSPBytes := (m_usedEgressSPBytes m)(sp := m_usedEgressSPBytes m sp + psize)\<rparr>)"

definition RemoveFromEgressAdmission :: "nat \<Rightarrow> nat \<Rightarrow> u32 \<Rightarrow> SwitchMmu \<Rightarrow> SwitchMmu" where
  "RemoveFromEgressAdmission port qIndex psize m =
    (let sp = GetEgressSP port qIndex;
         qmin = m_usedEgressQMinBytes m port qIndex;
         qshared = m_usedEgressQSharedBytes m port qIndex in
     if qmin < m_q_min_cell m
     then m\<lparr>m_usedEgressQMinBytes := upd2 (m_usedEgressQMinBytes m) port qIndex (qmin - psize),
            m_usedEgressPortBytes := (m_usedEgressPortBytes m)(port := m_usedEgressPortBytes m port - psize)\<rparr>
     else if qmin = m_q_min_cell m \<and> qshared < psize
     then m\<lparr>m_usedEgressQMinBytes := upd2 (m_usedEgressQMinBytes m) port qIndex (qmin + qshared - psize),
            m_usedEgressSPBytes := (m_usedEgressSPBytes m)(sp := m_usedEgressSPBytes m sp - qshared),
            m_usedEgressQSharedBytes := upd2 (m_usedEgressQSharedBytes m) port qIndex 0,
            m_usedEgressPortBytes := (m_usedEgressPortBytes m)(port := m_usedEgressPortBytes m port - psize)\<rparr>
     else m\<lparr>m_usedEgressQSharedBytes := upd2 (m_usedEgressQSharedBytes m) port qIndex (qshared - psize),
            m_usedEgressPortBytes := (m_usedEgressPortBytes m)(port := m_usedEgressPortBytes m port - psize),
            m_usedEgressSPBytes := (m_usedEgressSPBytes m)(sp := m_usedEgressSPBytes m sp - psize)\<rparr>)"

definition GetEgressDataQueueBytes :: "nat \<Rightarrow> SwitchMmu \<Rightarrow> u32" where
  "GetEgressDataQueueBytes port m =
     foldl (\<lambda>bytes q. bytes + (m_usedEgressQMinBytes m port q + m_usedEgressQSharedBytes m port q)) 0
       [1..<mmu_qCnt]"

section \<open>PFC\<close>

text \<open>The double threshold of dynamic mode that pause and resume compare with.\<close>
definition ingress_room :: "nat \<Rightarrow> nat \<Rightarrow> SwitchMmu \<Rightarrow> double" where
  "ingress_room port qIndex m =
     fsub (dbl_of_word (m_buffer_cell_limit_sp m)) (dbl_of_word (m_usedIngressSPBytes m (GetIngressSP port qIndex)))"

definition ingress_excess :: "nat \<Rightarrow> nat \<Rightarrow> SwitchMmu \<Rightarrow> double" where
  "ingress_excess port q m =
     fsub (fsub (dbl_of_word (m_usedIngressPGBytes m port q)) (dbl_of_word (m_pg_min_cell m)))
          (dbl_of_word (m_port_min_cell m))"

text \<open>The argument pClasses is the caller's array, returned updated.\<close>
definition GetPauseClasses :: "nat \<Rightarrow> nat \<Rightarrow> bool tab \<Rightarrow> SwitchMmu \<Rightarrow> bool tab" where
  "GetPauseClasses port qIndex pClasses m =
    (if m_dynamicth m
     then (\<lambda>i. if i < mmu_qCnt
               then if m_usedIngressPGBytes m port i \<le> m_pg_min_cell m + m_port_min_cell m then False
                    else ingress_excess port i m > fmul (m_pg_shared_alpha_cell m) (ingress_room port qIndex m)
                         \<or> m_usedIngressPGHeadroomBytes m port qIndex \<noteq> 0
               else pClasses i)
     else if m_usedIngressPortBytes m port > m_port_max_shared_cell m
     then (\<lambda>i. if i < mmu_qCnt then True else pClasses i)
     else let pClasses = (\<lambda>i. if i < mmu_qCnt then False else pClasses i)
          in if m_usedIngressPGBytes m port qIndex > m_pg_shared_limit_cell m
             then pClasses(qIndex := True) else pClasses)"

definition GetResumeClasses :: "nat \<Rightarrow> nat \<Rightarrow> SwitchMmu \<Rightarrow> bool" where
  "GetResumeClasses port qIndex m =
    (if \<not> paused m port qIndex then False
     else if m_dynamicth m
     then ingress_excess port qIndex m
            < fmul (m_pg_shared_alpha_cell m)
                (fsub (ingress_room port qIndex m) (m_pg_shared_alpha_cell_off_diff m))
          \<and> m_usedIngressPGHeadroomBytes m port qIndex = 0
     else m_usedIngressPGBytes m port qIndex < m_pg_shared_limit_cell_off m
          \<and> m_usedIngressPortBytes m port < m_port_min_cell_off m)"

text \<open>now is the simulator's clock in nanoseconds; the pending event of the queue is
  cancelled and a new one scheduled.\<close>
definition SetPause :: "nat \<Rightarrow> nat \<Rightarrow> nat \<Rightarrow> u32 \<Rightarrow> SwitchMmu \<Rightarrow> SwitchMmu" where
  "SetPause now port qIndex pause_time m =
     m\<lparr>paused := upd2 (paused m) port qIndex True,
       resumeEvt := upd2 (resumeEvt m) port qIndex (Some (now + 1000 * unat pause_time))\<rparr>"

definition SetResume :: "nat \<Rightarrow> nat \<Rightarrow> SwitchMmu \<Rightarrow> SwitchMmu" where
  "SetResume port qIndex m =
     m\<lparr>paused := upd2 (paused m) port qIndex False,
       resumeEvt := upd2 (resumeEvt m) port qIndex None\<rparr>"

section \<open>ECN and TLT\<close>

text \<open>The argument u is what the random stream returns if it is drawn.\<close>
definition ShouldSendCN :: "nat \<Rightarrow> nat \<Rightarrow> double \<Rightarrow> SwitchMmu \<Rightarrow> bool" where
  "ShouldSendCN ifindex qIndex u m =
    (if qIndex = 0 then False
     else let q = m_usedEgressQSharedBytes m ifindex qIndex in
       if q > kmax m ifindex then True
       else if q > kmin m ifindex \<and> kmin m ifindex \<noteq> kmax m ifindex
       then let p = fmul (fdiv (fmul 1 (dbl_of_word (q - kmin m ifindex)))
                               (dbl_of_word (kmax m ifindex - kmin m ifindex))) (pmax m ifindex)
            in u < p
       else False)"

definition CheckIngressTLT :: "nat \<Rightarrow> nat \<Rightarrow> u32 \<Rightarrow> SwitchMmu \<Rightarrow> bool" where
  "CheckIngressTLT port qIndex psize m = True"

definition CheckEgressTLT :: "nat \<Rightarrow> nat \<Rightarrow> u32 \<Rightarrow> double \<Rightarrow> SwitchMmu \<Rightarrow> bool" where
  "CheckEgressTLT port qIndex psize u m =
    (if m_tlt m \<and> m_maxBytes_TltUip m \<noteq> 0
        \<and> dbl_of_word (m_bytesEgressTltUip m port + psize) \<ge> m_maxBytes_TltUip m then False
     else if m_tlt m \<and> m_tlt_uimp_drop_rate m > 0 \<and> u < m_tlt_uimp_drop_rate m then False
     else True)"

definition UpdateIngressTLT :: "nat \<Rightarrow> nat \<Rightarrow> u32 \<Rightarrow> SwitchMmu \<Rightarrow> SwitchMmu" where
  "UpdateIngressTLT port qIndex psize m =
     m\<lparr>m_bytesIngressTltUip := (m_bytesIngressTltUip m)(port := m_bytesIngressTltUip m port + psize),
       m_totaluipbytes := m_totaluipbytes m + psize\<rparr>"

definition UpdateEgressTLT :: "nat \<Rightarrow> nat \<Rightarrow> u32 \<Rightarrow> SwitchMmu \<Rightarrow> SwitchMmu" where
  "UpdateEgressTLT port qIndex psize m =
     m\<lparr>m_bytesEgressTltUip := (m_bytesEgressTltUip m)(port := m_bytesEgressTltUip m port + psize)\<rparr>"

definition RemoveFromIngressTLT :: "nat \<Rightarrow> nat \<Rightarrow> u32 \<Rightarrow> SwitchMmu \<Rightarrow> SwitchMmu" where
  "RemoveFromIngressTLT port qIndex psize m =
     m\<lparr>m_bytesIngressTltUip := (m_bytesIngressTltUip m)(port := m_bytesIngressTltUip m port - psize),
       m_totaluipbytes := m_totaluipbytes m - psize\<rparr>"

definition RemoveFromEgressTLT :: "nat \<Rightarrow> nat \<Rightarrow> u32 \<Rightarrow> SwitchMmu \<Rightarrow> SwitchMmu" where
  "RemoveFromEgressTLT port qIndex psize m =
     m\<lparr>m_bytesEgressTltUip := (m_bytesEgressTltUip m)(port := m_bytesEgressTltUip m port - psize)\<rparr>"

section \<open>Egress accounting\<close>

text \<open>The queues of a service pool.\<close>
definition pool :: "(nat \<Rightarrow> nat \<Rightarrow> nat) \<Rightarrow> nat \<Rightarrow> (nat \<times> nat) set" where
  "pool sp_of sp = {x \<in> {..<mmu_pCnt} \<times> {..<mmu_qCnt}. sp_of (fst x) (snd x) = sp}"

definition tab_sum :: "(nat \<times> nat) set \<Rightarrow> u32 tab tab \<Rightarrow> nat" where
  "tab_sum A t = (\<Sum>x\<in>A. unat (t (fst x) (snd x)))"

definition row_sum :: "u32 tab \<Rightarrow> nat" where
  "row_sum r = (\<Sum>q<mmu_qCnt. unat (r q))"

lemma finite_pool [simp]: "finite (pool f sp)"
  by (simp add: pool_def)

lemma in_pool: "(p, q) \<in> pool f sp \<longleftrightarrow> p < mmu_pCnt \<and> q < mmu_qCnt \<and> f p q = sp"
  by (simp add: pool_def)

lemma tab_sum_upd2:
  assumes "finite A"
  shows "(p, q) \<in> A \<Longrightarrow> tab_sum A (upd2 t p q v) + unat (t p q) = tab_sum A t + unat v"
    and "(p, q) \<notin> A \<Longrightarrow> tab_sum A (upd2 t p q v) = tab_sum A t"
proof -
  let ?f = "\<lambda>x. unat (t (fst x) (snd x))" and ?g = "\<lambda>x. unat (upd2 t p q v (fst x) (snd x))"
  have "y \<noteq> (p, q) \<Longrightarrow> ?g y = ?f y" for y by (cases y) (auto simp: upd2_apply)
  note c = sum_change[OF assms, of "(p, q)" ?g ?f, OF this]
  show "(p, q) \<in> A \<Longrightarrow> tab_sum A (upd2 t p q v) + unat (t p q) = tab_sum A t + unat v"
    using c(1) by (simp add: tab_sum_def)
  show "(p, q) \<notin> A \<Longrightarrow> tab_sum A (upd2 t p q v) = tab_sum A t"
    using c(2) by (simp add: tab_sum_def)
qed

lemma row_sum_upd: "q < mmu_qCnt \<Longrightarrow> row_sum (r(q := v)) + unat (r q) = row_sum r + unat v"
  unfolding row_sum_def
  using sum_change(1)[of "{..<mmu_qCnt}" q "\<lambda>i. unat ((r(q := v)) i)" "\<lambda>i. unat (r i)"] by auto

lemma row_sum_ge: "q < mmu_qCnt \<Longrightarrow> unat (r q) \<le> row_sum r"
  unfolding row_sum_def by (rule sum_tab_ge) simp_all

lemma tab_sum_ge: "finite A \<Longrightarrow> (p, q) \<in> A \<Longrightarrow> unat (t p q) \<le> tab_sum A t"
  unfolding tab_sum_def by (rule order_trans[OF _ member_le_sum[of "(p, q)" A]]) simp_all

lemma upd2_row: "upd2 t p q v i = (if i = p then (t p)(q := v) else t i)"
  by (simp add: upd2_def)

text \<open>Bytes charged to an egress queue: guarantee first, the rest shared.\<close>
definition egress_total :: "SwitchMmu \<Rightarrow> nat \<Rightarrow> nat \<Rightarrow> nat" where
  "egress_total m p q = unat (m_usedEgressQMinBytes m p q) + unat (m_usedEgressQSharedBytes m p q)"

definition egress_queue_ok :: "SwitchMmu \<Rightarrow> nat \<Rightarrow> nat \<Rightarrow> bool" where
  "egress_queue_ok m p q \<longleftrightarrow> m_usedEgressQMinBytes m p q \<le> m_q_min_cell m
     \<and> (m_usedEgressQSharedBytes m p q \<noteq> 0 \<longrightarrow> m_usedEgressQMinBytes m p q = m_q_min_cell m)
     \<and> m_usedEgressQSharedBytes m p q \<le> m_op_uc_port_config1_cell m"

definition egress_ok :: "nat \<Rightarrow> SwitchMmu \<Rightarrow> bool" where
  "egress_ok maxp m \<longleftrightarrow>
     (\<forall>p<mmu_pCnt. \<forall>q<mmu_qCnt. egress_queue_ok m p q)
   \<and> (\<forall>p<mmu_pCnt. unat (m_usedEgressPortBytes m p)
        = row_sum (m_usedEgressQMinBytes m p) + row_sum (m_usedEgressQSharedBytes m p))
   \<and> (\<forall>sp<2. unat (m_usedEgressSPBytes m sp) = tab_sum (pool GetEgressSP sp) (m_usedEgressQSharedBytes m))
   \<and> (\<forall>p<mmu_pCnt. m_usedEgressPortBytes m p \<le> m_op_uc_port_config_cell m)
   \<and> (\<forall>sp<2. m_usedEgressSPBytes m sp \<le> m_op_buffer_shared_limit_cell m)
   \<and> unat (m_op_uc_port_config1_cell m) + unat (m_q_min_cell m) + maxp < 2 ^ 32
   \<and> unat (m_op_uc_port_config_cell m) + maxp < 2 ^ 32
   \<and> unat (m_op_buffer_shared_limit_cell m) + maxp < 2 ^ 32"

lemma GetEgressSP_less [simp]: "GetEgressSP p q < 2"
  by (simp add: GetEgressSP_def)

lemma GetIngressSP_less [simp]: "GetIngressSP p q < 2"
  by (simp add: GetIngressSP_def)

text \<open>A state in which only the counters of one egress queue moved.\<close>
definition egress_move :: "nat \<Rightarrow> nat \<Rightarrow> u32 \<Rightarrow> u32 \<Rightarrow> u32 \<Rightarrow> u32 \<Rightarrow> SwitchMmu \<Rightarrow> SwitchMmu" where
  "egress_move p q qm qs pv sv m =
     m\<lparr>m_usedEgressQMinBytes := upd2 (m_usedEgressQMinBytes m) p q qm,
       m_usedEgressQSharedBytes := upd2 (m_usedEgressQSharedBytes m) p q qs,
       m_usedEgressPortBytes := (m_usedEgressPortBytes m)(p := pv),
       m_usedEgressSPBytes := (m_usedEgressSPBytes m)(GetEgressSP p q := sv)\<rparr>"

lemma egress_move_ok:
  assumes ok: "egress_ok maxp m" and pq: "p < mmu_pCnt" "q < mmu_qCnt"
    and queue: "qm \<le> m_q_min_cell m" "qs \<noteq> 0 \<longrightarrow> qm = m_q_min_cell m" "qs \<le> m_op_uc_port_config1_cell m"
    and port: "unat pv + egress_total m p q = unat (m_usedEgressPortBytes m p) + unat qm + unat qs"
      "pv \<le> m_op_uc_port_config_cell m"
    and sp: "unat sv + unat (m_usedEgressQSharedBytes m p q) = unat (m_usedEgressSPBytes m (GetEgressSP p q)) + unat qs"
      "sv \<le> m_op_buffer_shared_limit_cell m"
  shows "egress_ok maxp (egress_move p q qm qs pv sv m)"
proof -
  let ?m = "egress_move p q qm qs pv sv m"
  have "\<forall>p'<mmu_pCnt. \<forall>q'<mmu_qCnt. egress_queue_ok ?m p' q'"
    using ok queue by (auto simp: egress_ok_def egress_queue_ok_def egress_move_def upd2_apply)
  moreover have "unat (m_usedEgressPortBytes ?m p') = row_sum (m_usedEgressQMinBytes ?m p') + row_sum (m_usedEgressQSharedBytes ?m p')"
    if "p' < mmu_pCnt" for p'
    using ok that port(1) row_sum_upd[OF pq(2), of "m_usedEgressQMinBytes m p" qm]
      row_sum_upd[OF pq(2), of "m_usedEgressQSharedBytes m p" qs]
    by (cases "p' = p") (auto simp: egress_ok_def egress_move_def upd2_row egress_total_def)
  moreover have "unat (m_usedEgressSPBytes ?m i) = tab_sum (pool GetEgressSP i) (m_usedEgressQSharedBytes ?m)"
    if "i < 2" for i
  proof (cases "i = GetEgressSP p q")
    case True
    then show ?thesis
      using ok sp(1) pq that tab_sum_upd2(1)[of "pool GetEgressSP i" p q "m_usedEgressQSharedBytes m" qs]
      by (auto simp: egress_ok_def egress_move_def in_pool)
  next
    case False
    then show ?thesis
      using ok that tab_sum_upd2(2)[of "pool GetEgressSP i" p q "m_usedEgressQSharedBytes m" qs]
      by (auto simp: egress_ok_def egress_move_def in_pool)
  qed
  ultimately show ?thesis
    using ok port(2) sp(2) by (auto simp: egress_ok_def egress_move_def)
qed

lemma egress_move_total:
  "egress_total (egress_move p q qm qs pv sv m) i j =
     (if i = p \<and> j = q then unat qm + unat qs else egress_total m i j)"
  by (simp add: egress_total_def egress_move_def upd2_apply)

lemma Update_move:
  assumes ok: "egress_ok maxp m" and pq: "p < mmu_pCnt" "q < mmu_qCnt" and n: "unat n \<le> maxp"
  obtains qm qs where
    "UpdateEgressAdmission p q n m = egress_move p q qm qs (m_usedEgressPortBytes m p + n)
       (m_usedEgressSPBytes m (GetEgressSP p q) + (qs - m_usedEgressQSharedBytes m p q)) m"
    "unat qm + unat qs = egress_total m p q + unat n" "qm \<le> m_q_min_cell m"
    "qs \<noteq> 0 \<longrightarrow> qm = m_q_min_cell m"
    "m_usedEgressQSharedBytes m p q \<le> qs" "unat qs \<le> unat (m_usedEgressQSharedBytes m p q) + unat n"
proof -
  let ?c = "m_q_min_cell m" and ?g = "m_usedEgressQMinBytes m p q" and ?s = "m_usedEgressQSharedBytes m p q"
  have q_ok: "?g \<le> ?c" "?s \<noteq> 0 \<longrightarrow> ?g = ?c" "?s \<le> m_op_uc_port_config1_cell m"
    and room: "unat (m_op_uc_port_config1_cell m) + unat ?c + maxp < 2 ^ 32"
    using ok pq by (auto simp: egress_ok_def egress_queue_ok_def)
  have gn: "unat (?g + n) = unat ?g + unat n"
    using q_ok(1) room n by (intro unat_add_lt) (simp add: word_le_nat_alt)
  have sn: "unat (?s + n) = unat ?s + unat n"
    using q_ok(3) room n by (intro unat_add_lt) (simp add: word_le_nat_alt)
  consider "?g + n < ?c" | "\<not> ?g + n < ?c" "?g \<noteq> ?c" | "\<not> ?g + n < ?c" "?g = ?c" by blast
  then show thesis
  proof cases
    case 1
    then have "unat ?g < unat ?c" using gn by (simp add: word_less_nat_alt)
    then have "?s = 0" using q_ok(2) by auto
    with 1 gn show ?thesis
      by (intro that[of "?g + n" ?s])
        (auto simp: UpdateEgressAdmission_def egress_move_def Let_def egress_total_def upd2_triv
          intro!: SwitchMmu.equality)
  next
    case 2
    then have s0: "?s = 0" using q_ok(2) by auto
    have ge: "?c \<le> ?g + n" using 2(1) by simp
    then have d: "unat (?g + n - ?c) = unat ?g + unat n - unat ?c" using gn by (simp add: unat_sub_le)
    have "unat ?c \<le> unat ?g + unat n" using ge gn by (simp add: word_le_nat_alt)
    moreover have "unat ?g \<le> unat ?c" using q_ok(1) by (simp add: word_le_nat_alt)
    moreover have e1: "?s + n + ?g - ?c = ?g + n - ?c"
      and e2: "m_usedEgressSPBytes m (GetEgressSP p q) + n + ?g - ?c
        = m_usedEgressSPBytes m (GetEgressSP p q) + (?g + n - ?c - ?s)"
      using s0 by (simp_all add: algebra_simps)
    have "UpdateEgressAdmission p q n m = egress_move p q ?c (?g + n - ?c) (m_usedEgressPortBytes m p + n)
       (m_usedEgressSPBytes m (GetEgressSP p q) + (?g + n - ?c - ?s)) m"
      unfolding UpdateEgressAdmission_def egress_move_def Let_def e1 e2 using 2 by simp
    from that[OF this] show ?thesis using calculation d s0 by (simp add: egress_total_def)
  next
    case 3
    then show ?thesis using sn
      by (intro that[of ?c "?s + n"])
        (auto simp: UpdateEgressAdmission_def egress_move_def Let_def egress_total_def upd2_triv
          word_le_nat_alt intro!: SwitchMmu.equality)
  qed
qed

lemma Remove_move:
  assumes ok: "egress_ok maxp m" and pq: "p < mmu_pCnt" "q < mmu_qCnt" and n: "unat n \<le> egress_total m p q"
  obtains qm qs where
    "RemoveFromEgressAdmission p q n m = egress_move p q qm qs (m_usedEgressPortBytes m p - n)
       (m_usedEgressSPBytes m (GetEgressSP p q) - (m_usedEgressQSharedBytes m p q - qs)) m"
    "unat qm + unat qs = egress_total m p q - unat n" "qm \<le> m_q_min_cell m"
    "qs \<noteq> 0 \<longrightarrow> qm = m_q_min_cell m" "qs \<le> m_usedEgressQSharedBytes m p q"
proof -
  let ?c = "m_q_min_cell m" and ?g = "m_usedEgressQMinBytes m p q" and ?s = "m_usedEgressQSharedBytes m p q"
  have q_ok: "?g \<le> ?c" "?s \<noteq> 0 \<longrightarrow> ?g = ?c" "?s \<le> m_op_uc_port_config1_cell m"
    and room: "unat (m_op_uc_port_config1_cell m) + unat ?c + maxp < 2 ^ 32"
    using ok pq by (auto simp: egress_ok_def egress_queue_ok_def)
  have gs: "unat (?g + ?s) = unat ?g + unat ?s"
    using q_ok room by (intro unat_add_lt) (simp add: word_le_nat_alt)
  consider "?g < ?c" | "?g = ?c" "?s < n" | "?g = ?c" "\<not> ?s < n" using q_ok(1) by fastforce
  then show thesis
  proof cases
    case 1
    then have s0: "?s = 0" using q_ok(2) by auto
    then have "n \<le> ?g" using n by (simp add: egress_total_def word_le_nat_alt)
    moreover have "?g - n \<le> ?c"
      using calculation 1 by (simp add: word_le_nat_alt word_less_nat_alt unat_sub_le)
    ultimately show ?thesis using 1 s0
      by (intro that[of "?g - n" ?s])
        (auto simp: RemoveFromEgressAdmission_def egress_move_def Let_def egress_total_def upd2_triv
          unat_sub_le intro!: SwitchMmu.equality)
  next
    case 2
    then have le: "n \<le> ?g + ?s" using n gs by (simp add: egress_total_def word_le_nat_alt)
    then have d: "unat (?g + ?s - n) = unat ?g + unat ?s - unat n" using gs by (simp add: unat_sub_le)
    then have "?g + ?s - n \<le> ?c" using 2 by (simp add: word_le_nat_alt word_less_nat_alt)
    then show ?thesis using 2 d
      by (intro that[of "?g + ?s - n" 0])
        (simp_all add: RemoveFromEgressAdmission_def egress_move_def Let_def egress_total_def)
  next
    case 3
    then have "n \<le> ?s" by simp
    then show ?thesis using 3
      by (intro that[of ?c "?s - n"])
        (auto simp: RemoveFromEgressAdmission_def egress_move_def Let_def egress_total_def upd2_triv
          unat_sub_le word_le_nat_alt intro!: SwitchMmu.equality)
  qed
qed

text \<open>Queue (port, q) as a single index.\<close>
definition qkey :: "nat \<Rightarrow> nat \<Rightarrow> nat" where "qkey p q = p * mmu_qCnt + q"
definition key_port :: "nat \<Rightarrow> nat" where "key_port k = k div mmu_qCnt"
definition key_queue :: "nat \<Rightarrow> nat" where "key_queue k = k mod mmu_qCnt"
definition key_valid :: "nat \<Rightarrow> bool" where "key_valid k \<longleftrightarrow> k < mmu_pCnt * mmu_qCnt"

lemma key_valid_ranges:
  "key_valid k \<Longrightarrow> key_port k < mmu_pCnt" "key_valid k \<Longrightarrow> key_queue k < mmu_qCnt"
  by (simp_all add: key_valid_def key_port_def key_queue_def mmu_pCnt_def mmu_qCnt_def less_mult_imp_div_less)

lemma key_eq: "key_port k = key_port j \<and> key_queue k = key_queue j \<longleftrightarrow> k = j"
  by (metis div_mult_mod_eq key_port_def key_queue_def)

lemma qkey_inverse: "q < mmu_qCnt \<Longrightarrow> key_port (qkey p q) = p \<and> key_queue (qkey p q) = q"
  by (simp add: key_port_def key_queue_def qkey_def)

lemma qkey_valid: "p < mmu_pCnt \<Longrightarrow> q < mmu_qCnt \<Longrightarrow> key_valid (qkey p q)"
  by (simp add: key_valid_def qkey_def mmu_pCnt_def mmu_qCnt_def)

definition egress_occ :: "SwitchMmu \<Rightarrow> nat \<Rightarrow> nat" where
  "egress_occ m k = (if key_valid k then egress_total m (key_port k) (key_queue k) else 0)"

lemma egress_occ_move:
  assumes "key_valid k" "m' = egress_move (key_port k) (key_queue k) qm qs pv sv m"
  shows "egress_occ m' = (egress_occ m)(k := unat qm + unat qs)"
  using assms by (auto simp: egress_occ_def egress_move_total fun_eq_iff key_eq)

definition egress_check :: "bool \<Rightarrow> nat \<Rightarrow> u32 \<Rightarrow> SwitchMmu \<Rightarrow> bool \<times> SwitchMmu" where
  "egress_check dbg k n m = (CheckEgressAdmission dbg (key_port k) (key_queue k) n m = Some True, m)"

definition egress_charge :: "nat \<Rightarrow> u32 \<Rightarrow> SwitchMmu \<Rightarrow> SwitchMmu" where
  "egress_charge k = UpdateEgressAdmission (key_port k) (key_queue k)"

definition egress_release :: "nat \<Rightarrow> u32 \<Rightarrow> SwitchMmu \<Rightarrow> SwitchMmu" where
  "egress_release k = RemoveFromEgressAdmission (key_port k) (key_queue k)"

lemma CheckEgress_room:
  assumes "CheckEgressAdmission dbg p q n m = Some True"
  shows "m_usedEgressSPBytes m (GetEgressSP p q) + n \<le> m_op_buffer_shared_limit_cell m"
    "m_usedEgressPortBytes m p + n \<le> m_op_uc_port_config_cell m"
    "m_usedEgressQSharedBytes m p q + n \<le> m_op_uc_port_config1_cell m"
  using assms by (auto simp: CheckEgressAdmission_def Let_def not_less split: if_splits)

lemma egress_total_le_port:
  "egress_ok maxp m \<Longrightarrow> p < mmu_pCnt \<Longrightarrow> q < mmu_qCnt \<Longrightarrow> egress_total m p q \<le> unat (m_usedEgressPortBytes m p)"
  using row_sum_ge[of q "m_usedEgressQMinBytes m p"] row_sum_ge[of q "m_usedEgressQSharedBytes m p"]
  by (auto simp: egress_ok_def egress_total_def)

lemma egress_shared_le_sp:
  "egress_ok maxp m \<Longrightarrow> p < mmu_pCnt \<Longrightarrow> q < mmu_qCnt \<Longrightarrow>
     unat (m_usedEgressQSharedBytes m p q) \<le> unat (m_usedEgressSPBytes m (GetEgressSP p q))"
  using tab_sum_ge[of "pool GetEgressSP (GetEgressSP p q)" p q "m_usedEgressQSharedBytes m"]
  by (auto simp: egress_ok_def in_pool)

lemma egress_charge_ok:
  assumes ok: "egress_ok maxp m" and k: "key_valid k" and n: "unat n \<le> maxp"
    and adm: "CheckEgressAdmission dbg (key_port k) (key_queue k) n m = Some True"
  shows "egress_ok maxp (egress_charge k n m)
       \<and> egress_occ (egress_charge k n m) = (egress_occ m)(k := egress_occ m k + unat n)"
proof -
  let ?p = "key_port k" and ?q = "key_queue k"
  let ?s = "m_usedEgressQSharedBytes m ?p ?q" and ?sp = "m_usedEgressSPBytes m (GetEgressSP ?p ?q)"
  note pq = key_valid_ranges[OF k] and room = CheckEgress_room[OF adm]
  have b: "unat (m_op_uc_port_config1_cell m) + maxp < 2 ^ 32" "unat (m_op_uc_port_config_cell m) + maxp < 2 ^ 32"
      "unat (m_op_buffer_shared_limit_cell m) + maxp < 2 ^ 32"
    and le: "unat ?s \<le> unat (m_op_uc_port_config1_cell m)" "unat ?sp \<le> unat (m_op_buffer_shared_limit_cell m)"
      "unat (m_usedEgressPortBytes m ?p) \<le> unat (m_op_uc_port_config_cell m)"
    using ok pq by (auto simp: egress_ok_def egress_queue_ok_def word_le_nat_alt)
  have nw: "unat (?sp + n) = unat ?sp + unat n" "unat (?s + n) = unat ?s + unat n"
    "unat (m_usedEgressPortBytes m ?p + n) = unat (m_usedEgressPortBytes m ?p) + unat n"
    using b le n by (intro unat_add_lt, simp)+
  obtain qm qs where u: "UpdateEgressAdmission ?p ?q n m = egress_move ?p ?q qm qs (m_usedEgressPortBytes m ?p + n)
       (?sp + (qs - ?s)) m"
    and t: "unat qm + unat qs = egress_total m ?p ?q + unat n" "qm \<le> m_q_min_cell m"
      "qs \<noteq> 0 \<longrightarrow> qm = m_q_min_cell m" "?s \<le> qs" "unat qs \<le> unat ?s + unat n"
    using Update_move[OF ok pq n] by metis
  have d: "unat (qs - ?s) = unat qs - unat ?s" using t(4) by (rule unat_sub_le)
  have sv: "unat (?sp + (qs - ?s)) = unat ?sp + (unat qs - unat ?s)"
    using d t(5) b(3) le(2) n by (subst unat_add_lt) simp_all
  have "egress_ok maxp (egress_move ?p ?q qm qs (m_usedEgressPortBytes m ?p + n) (?sp + (qs - ?s)) m)"
    using t room nw sv by (intro egress_move_ok ok pq) (simp_all add: word_le_nat_alt)
  moreover have "egress_occ (egress_charge k n m) = (egress_occ m)(k := unat qm + unat qs)"
    by (rule egress_occ_move[OF k]) (simp add: egress_charge_def u)
  ultimately show ?thesis using t(1) k by (simp add: egress_charge_def u egress_occ_def)
qed

lemma egress_release_ok:
  assumes ok: "egress_ok maxp m" and k: "key_valid k" and n: "unat n \<le> egress_occ m k"
  shows "egress_ok maxp (egress_release k n m)
       \<and> egress_occ (egress_release k n m) = (egress_occ m)(k := egress_occ m k - unat n)"
proof -
  let ?p = "key_port k" and ?q = "key_queue k"
  let ?s = "m_usedEgressQSharedBytes m ?p ?q" and ?sp = "m_usedEgressSPBytes m (GetEgressSP ?p ?q)"
  note pq = key_valid_ranges[OF k]
  have n': "unat n \<le> egress_total m ?p ?q" using n k by (simp add: egress_occ_def)
  obtain qm qs where u: "RemoveFromEgressAdmission ?p ?q n m = egress_move ?p ?q qm qs
       (m_usedEgressPortBytes m ?p - n) (?sp - (?s - qs)) m"
    and t: "unat qm + unat qs = egress_total m ?p ?q - unat n" "qm \<le> m_q_min_cell m"
      "qs \<noteq> 0 \<longrightarrow> qm = m_q_min_cell m" "qs \<le> ?s"
    using Remove_move[OF ok pq n'] by metis
  have "unat n \<le> unat (m_usedEgressPortBytes m ?p)"
    using n' egress_total_le_port[OF ok pq] by simp
  then have pv: "unat (m_usedEgressPortBytes m ?p - n) = unat (m_usedEgressPortBytes m ?p) - unat n"
    by (intro unat_sub_le) (simp add: word_le_nat_alt)
  have d: "unat (?s - qs) = unat ?s - unat qs" using t(4) by (rule unat_sub_le)
  have ssp: "unat ?s \<le> unat ?sp" by (rule egress_shared_le_sp[OF ok pq])
  have sv: "unat (?sp - (?s - qs)) = unat ?sp - (unat ?s - unat qs)"
    using ssp d by (subst unat_sub_le) (simp_all add: word_le_nat_alt)
  have le: "?s \<le> m_op_uc_port_config1_cell m" "?sp \<le> m_op_buffer_shared_limit_cell m"
      "m_usedEgressPortBytes m ?p \<le> m_op_uc_port_config_cell m"
    using ok pq by (auto simp: egress_ok_def egress_queue_ok_def)
  have "egress_ok maxp (egress_move ?p ?q qm qs (m_usedEgressPortBytes m ?p - n) (?sp - (?s - qs)) m)"
    using t pv sv le ssp n' egress_total_le_port[OF ok pq]
    by (intro egress_move_ok ok pq) (auto simp: word_le_nat_alt)
  moreover have "egress_occ (egress_release k n m) = (egress_occ m)(k := unat qm + unat qs)"
    by (rule egress_occ_move[OF k]) (simp add: egress_release_def u)
  ultimately show ?thesis using t(1) k by (simp add: egress_release_def u egress_occ_def)
qed

interpretation egress_side:
  admission "egress_ok maxp" egress_occ key_valid maxp "egress_check dbg" egress_charge egress_release
  for maxp :: nat and dbg :: bool
  by unfold_locales (use egress_charge_ok egress_release_ok in \<open>auto simp: egress_check_def\<close>)

section \<open>Ingress accounting\<close>

definition ingress_ok :: "nat \<Rightarrow> SwitchMmu \<Rightarrow> bool" where
  "ingress_ok maxp m \<longleftrightarrow>
     (\<forall>p<mmu_pCnt. unat (m_usedIngressPortBytes m p) = row_sum (m_usedIngressPGBytes m p))
   \<and> (\<forall>sp<2. unat (m_usedIngressSPBytes m sp) = tab_sum (pool GetIngressSP sp) (m_usedIngressPGBytes m))
   \<and> unat (m_usedTotalBytes m) = (\<Sum>p<mmu_pCnt. unat (m_usedIngressPortBytes m p))
   \<and> m_usedTotalBytes m \<le> mmu_maxBufferBytes m
   \<and> unat (mmu_maxBufferBytes m) + maxp < 2 ^ 32"

definition ingress_move ::
  "nat \<Rightarrow> nat \<Rightarrow> u32 \<Rightarrow> u32 \<Rightarrow> u32 \<Rightarrow> u32 \<Rightarrow> u32 tab tab \<Rightarrow> SwitchMmu \<Rightarrow> SwitchMmu" where
  "ingress_move p q pg pv sv tv h m =
     m\<lparr>m_usedTotalBytes := tv,
       m_usedIngressSPBytes := (m_usedIngressSPBytes m)(GetIngressSP p q := sv),
       m_usedIngressPortBytes := (m_usedIngressPortBytes m)(p := pv),
       m_usedIngressPGBytes := upd2 (m_usedIngressPGBytes m) p q pg,
       m_usedIngressPGHeadroomBytes := h\<rparr>"

lemma ingress_bounds:
  assumes "ingress_ok maxp m" "p < mmu_pCnt" "q < mmu_qCnt"
  shows "unat (m_usedIngressPGBytes m p q) \<le> unat (m_usedIngressPortBytes m p)"
    and "unat (m_usedIngressPGBytes m p q) \<le> unat (m_usedIngressSPBytes m (GetIngressSP p q))"
    and "unat (m_usedIngressPortBytes m p) \<le> unat (m_usedTotalBytes m)"
    and "unat (m_usedIngressSPBytes m (GetIngressSP p q)) \<le> unat (m_usedTotalBytes m)"
proof -
  let ?t = "m_usedIngressPGBytes m"
  show "unat (?t p q) \<le> unat (m_usedIngressPortBytes m p)"
    using assms row_sum_ge[of q "?t p"] by (auto simp: ingress_ok_def)
  show "unat (?t p q) \<le> unat (m_usedIngressSPBytes m (GetIngressSP p q))"
    using assms tab_sum_ge[of "pool GetIngressSP (GetIngressSP p q)" p q ?t]
    by (auto simp: ingress_ok_def in_pool)
  show "unat (m_usedIngressPortBytes m p) \<le> unat (m_usedTotalBytes m)"
    using assms sum_tab_ge[of "{..<mmu_pCnt}" p "\<lambda>p. unat (m_usedIngressPortBytes m p)"]
    by (auto simp: ingress_ok_def)
  have "tab_sum (pool GetIngressSP (GetIngressSP p q)) ?t
      \<le> (\<Sum>x\<in>{..<mmu_pCnt} \<times> {..<mmu_qCnt}. unat (?t (fst x) (snd x)))"
    unfolding tab_sum_def by (intro sum_mono2) (auto simp: pool_def)
  also have "\<dots> = (\<Sum>p<mmu_pCnt. row_sum (?t p))"
    unfolding row_sum_def by (simp add: sum.cartesian_product case_prod_beta)
  also have "\<dots> = unat (m_usedTotalBytes m)" using assms(1) by (simp add: ingress_ok_def)
  finally show "unat (m_usedIngressSPBytes m (GetIngressSP p q)) \<le> unat (m_usedTotalBytes m)"
    using assms(1) by (simp add: ingress_ok_def)
qed

lemma ingress_move_ok:
  assumes ok: "ingress_ok maxp m" and pq: "p < mmu_pCnt" "q < mmu_qCnt"
    and pv: "unat pv + unat (m_usedIngressPGBytes m p q) = unat (m_usedIngressPortBytes m p) + unat pg"
    and sv: "unat sv + unat (m_usedIngressPGBytes m p q) = unat (m_usedIngressSPBytes m (GetIngressSP p q)) + unat pg"
    and tv: "unat tv + unat (m_usedIngressPGBytes m p q) = unat (m_usedTotalBytes m) + unat pg"
      "tv \<le> mmu_maxBufferBytes m"
  shows "ingress_ok maxp (ingress_move p q pg pv sv tv h m)"
proof -
  let ?m = "ingress_move p q pg pv sv tv h m" and ?t = "m_usedIngressPGBytes m"
  have "unat (m_usedIngressPortBytes ?m i) = row_sum (m_usedIngressPGBytes ?m i)" if "i < mmu_pCnt" for i
    using ok that pv row_sum_upd[OF pq(2), of "?t p" pg]
    by (cases "i = p") (auto simp: ingress_ok_def ingress_move_def upd2_row)
  moreover have "unat (m_usedIngressSPBytes ?m i) = tab_sum (pool GetIngressSP i) (m_usedIngressPGBytes ?m)"
    if "i < 2" for i
    using ok sv pq that tab_sum_upd2[of "pool GetIngressSP i" p q ?t pg]
    by (cases "i = GetIngressSP p q") (auto simp: ingress_ok_def ingress_move_def in_pool)
  moreover have "unat tv = (\<Sum>i<mmu_pCnt. unat (m_usedIngressPortBytes ?m i))"
    using ok tv(1) pv pq sum_change(1)[of "{..<mmu_pCnt}" p "\<lambda>i. unat (m_usedIngressPortBytes ?m i)"
        "\<lambda>i. unat (m_usedIngressPortBytes m i)"]
    by (auto simp: ingress_ok_def ingress_move_def)
  ultimately show ?thesis using ok tv(2) by (auto simp: ingress_ok_def ingress_move_def)
qed

definition ingress_occ :: "SwitchMmu \<Rightarrow> nat \<Rightarrow> nat" where
  "ingress_occ m k = (if key_valid k then unat (m_usedIngressPGBytes m (key_port k) (key_queue k)) else 0)"

lemma ingress_occ_move:
  assumes "key_valid k" "m' = ingress_move (key_port k) (key_queue k) pg pv sv tv h m"
  shows "ingress_occ m' = (ingress_occ m)(k := unat pg)"
  using assms by (auto simp: ingress_occ_def ingress_move_def upd2_apply fun_eq_iff key_eq)

definition ingress_check :: "bool \<Rightarrow> nat \<Rightarrow> u32 \<Rightarrow> SwitchMmu \<Rightarrow> bool \<times> SwitchMmu" where
  "ingress_check dbg k n m = (CheckIngressAdmission dbg (key_port k) (key_queue k) n m = Some True, m)"

definition ingress_charge :: "nat \<Rightarrow> u32 \<Rightarrow> SwitchMmu \<Rightarrow> SwitchMmu" where
  "ingress_charge k = UpdateIngressAdmission (key_port k) (key_queue k)"

definition ingress_release :: "nat \<Rightarrow> u32 \<Rightarrow> SwitchMmu \<Rightarrow> SwitchMmu" where
  "ingress_release k = RemoveFromIngressAdmission (key_port k) (key_queue k)"

lemma Update_ingress_move:
  "UpdateIngressAdmission p q n m = ingress_move p q (m_usedIngressPGBytes m p q + n)
     (m_usedIngressPortBytes m p + n) (m_usedIngressSPBytes m (GetIngressSP p q) + n) (m_usedTotalBytes m + n)
     (if m_usedIngressSPBytes m (GetIngressSP p q) + n > m_buffer_cell_limit_sp m
      then upd2 (m_usedIngressPGHeadroomBytes m) p q (m_usedIngressPGHeadroomBytes m p q + n)
      else m_usedIngressPGHeadroomBytes m) m"
  by (auto simp: UpdateIngressAdmission_def ingress_move_def Let_def intro!: SwitchMmu.equality)

lemma fsub_words_pos: "0 < fsub (dbl_of_word (v :: u32)) (dbl_of_word n) \<longleftrightarrow> n < v"
proof -
  have lt: "0 \<le> uint v" "uint v < 4294967296" "0 \<le> uint n" "uint n < 4294967296"
    using uint_lt2p[of v] uint_lt2p[of n] by simp_all
  have "dbl_of_word v = of_int (uint v)" "dbl_of_word n = of_int (uint n)"
    unfolding dbl_of_word_def using lt by (intro dbl_of_int_exact; simp)+
  then have "fsub (dbl_of_word v) (dbl_of_word n) = dbl (of_int (uint v - uint n))" by (simp add: fsub_def)
  also have "\<dots> = of_int (uint v - uint n)" using lt by (intro dbl_of_int_exact) linarith
  finally show ?thesis by (simp only: of_int_0_less_iff diff_gt_0_iff_gt word_less_def)
qed

lemma Remove_ingress_move:
  assumes "n \<le> m_usedIngressPGBytes m p q" "n \<le> m_usedIngressPortBytes m p"
    "n \<le> m_usedIngressSPBytes m (GetIngressSP p q)" "n \<le> m_usedTotalBytes m"
  shows "RemoveFromIngressAdmission p q n m = ingress_move p q (m_usedIngressPGBytes m p q - n)
     (m_usedIngressPortBytes m p - n) (m_usedIngressSPBytes m (GetIngressSP p q) - n) (m_usedTotalBytes m - n)
     (upd2 (m_usedIngressPGHeadroomBytes m) p q
       (if n < m_usedIngressPGHeadroomBytes m p q then m_usedIngressPGHeadroomBytes m p q - n else 0)) m"
proof -
  have "raised n (m_usedIngressPGBytes m p q) = m_usedIngressPGBytes m p q"
    "raised n (m_usedIngressPortBytes m p) = m_usedIngressPortBytes m p"
    "raised n (m_usedIngressSPBytes m (GetIngressSP p q)) = m_usedIngressSPBytes m (GetIngressSP p q)"
    "raised n (m_usedTotalBytes m) = m_usedTotalBytes m"
    using assms by (auto simp: raised_def)
  then show ?thesis by (simp add: RemoveFromIngressAdmission_def ingress_move_def Let_def fsub_words_pos)
qed

lemma CheckIngress_room:
  "CheckIngressAdmission dbg p q n m = Some True \<Longrightarrow> m_usedTotalBytes m + n \<le> mmu_maxBufferBytes m"
  by (auto simp: CheckIngressAdmission_def not_less split: if_splits)

lemma ingress_charge_ok:
  assumes ok: "ingress_ok maxp m" and k: "key_valid k" and n: "unat n \<le> maxp"
    and adm: "CheckIngressAdmission dbg (key_port k) (key_queue k) n m = Some True"
  shows "ingress_ok maxp (ingress_charge k n m)
       \<and> ingress_occ (ingress_charge k n m) = (ingress_occ m)(k := ingress_occ m k + unat n)"
proof -
  let ?p = "key_port k" and ?q = "key_queue k"
  note pq = key_valid_ranges[OF k]
  note b = ingress_bounds[OF ok pq]
  have lt: "unat (m_usedTotalBytes m) + unat n < 2 ^ 32"
    using ok n by (auto simp: ingress_ok_def word_le_nat_alt)
  have nw: "unat (m_usedTotalBytes m + n) = unat (m_usedTotalBytes m) + unat n"
    "unat (m_usedIngressPortBytes m ?p + n) = unat (m_usedIngressPortBytes m ?p) + unat n"
    "unat (m_usedIngressSPBytes m (GetIngressSP ?p ?q) + n) = unat (m_usedIngressSPBytes m (GetIngressSP ?p ?q)) + unat n"
    "unat (m_usedIngressPGBytes m ?p ?q + n) = unat (m_usedIngressPGBytes m ?p ?q) + unat n"
    using b lt by (intro unat_add_lt, simp)+
  note u = Update_ingress_move[of ?p ?q n m]
  show ?thesis
    using ingress_move_ok[OF ok pq] nw CheckIngress_room[OF adm] ingress_occ_move[OF k u] k
    by (simp add: ingress_charge_def u ingress_occ_def)
qed

lemma ingress_release_ok:
  assumes ok: "ingress_ok maxp m" and k: "key_valid k" and n: "unat n \<le> ingress_occ m k"
  shows "ingress_ok maxp (ingress_release k n m)
       \<and> ingress_occ (ingress_release k n m) = (ingress_occ m)(k := ingress_occ m k - unat n)"
proof -
  let ?p = "key_port k" and ?q = "key_queue k"
  note pq = key_valid_ranges[OF k]
  note b = ingress_bounds[OF ok pq]
  have le: "n \<le> m_usedIngressPGBytes m ?p ?q" "n \<le> m_usedIngressPortBytes m ?p"
    "n \<le> m_usedIngressSPBytes m (GetIngressSP ?p ?q)" "n \<le> m_usedTotalBytes m"
    using n b k by (auto simp: ingress_occ_def word_le_nat_alt)
  note u = Remove_ingress_move[OF le]
  have nw: "unat (m_usedTotalBytes m - n) = unat (m_usedTotalBytes m) - unat n"
    "unat (m_usedIngressPortBytes m ?p - n) = unat (m_usedIngressPortBytes m ?p) - unat n"
    "unat (m_usedIngressSPBytes m (GetIngressSP ?p ?q) - n) = unat (m_usedIngressSPBytes m (GetIngressSP ?p ?q)) - unat n"
    "unat (m_usedIngressPGBytes m ?p ?q - n) = unat (m_usedIngressPGBytes m ?p ?q) - unat n"
    using le by (simp_all add: unat_sub_le)
  have "m_usedTotalBytes m - n \<le> mmu_maxBufferBytes m"
    using ok nw(1) unfolding ingress_ok_def word_le_nat_alt by linarith
  then show ?thesis
    using ingress_move_ok[OF ok pq] nw le ingress_occ_move[OF k u] k
    by (simp add: ingress_release_def u ingress_occ_def word_le_nat_alt)
qed

interpretation ingress_side:
  admission "ingress_ok maxp" ingress_occ key_valid maxp "ingress_check dbg" ingress_charge ingress_release
  for maxp :: nat and dbg :: bool
  by unfold_locales (use ingress_charge_ok ingress_release_ok in \<open>auto simp: ingress_check_def\<close>)

section \<open>The freshly created object\<close>

lemma InitSwitch_counters:
  "p < mmu_pCnt \<Longrightarrow> q < mmu_qCnt \<Longrightarrow> m_usedEgressQMinBytes (SwitchMmu_InitSwitch m) p q = 0"
  "p < mmu_pCnt \<Longrightarrow> q < mmu_qCnt \<Longrightarrow> m_usedEgressQSharedBytes (SwitchMmu_InitSwitch m) p q = 0"
  "p < mmu_pCnt \<Longrightarrow> q < mmu_qCnt \<Longrightarrow> m_usedIngressPGBytes (SwitchMmu_InitSwitch m) p q = 0"
  "p < mmu_pCnt \<Longrightarrow> m_usedEgressPortBytes (SwitchMmu_InitSwitch m) p = 0"
  "p < mmu_pCnt \<Longrightarrow> m_usedIngressPortBytes (SwitchMmu_InitSwitch m) p = 0"
  "i < 2 \<Longrightarrow> m_usedEgressSPBytes (SwitchMmu_InitSwitch m) i = 0"
  "i < 2 \<Longrightarrow> m_usedIngressSPBytes (SwitchMmu_InitSwitch m) i = 0"
  "m_usedTotalBytes (SwitchMmu_InitSwitch m) = 0"
  "m_q_min_cell (SwitchMmu_InitSwitch m) = 1049"
  "m_op_uc_port_config1_cell (SwitchMmu_InitSwitch m) = mmu_maxBufferBytes (SwitchMmu_InitSwitch m)"
  "m_op_uc_port_config_cell (SwitchMmu_InitSwitch m) = mmu_maxBufferBytes (SwitchMmu_InitSwitch m)"
  "mmu_maxBufferBytes (SwitchMmu_InitSwitch m) = (if mmu_staticMaxBufferBytes m \<noteq> 0
     then mmu_staticMaxBufferBytes m else mmu_maxBufferBytesPerPort m * mmu_activePortCnt m)"
  "m_op_buffer_shared_limit_cell (SwitchMmu_InitSwitch m)
     = mmu_maxBufferBytes (SwitchMmu_InitSwitch m) - mmu_activePortCnt m * 8384"
  by (simp_all add: SwitchMmu_InitSwitch_def Let_def mmu_MTU_def port_guarantee_def mmu_qCnt_def max_def)

lemma InitSwitch_config:
  "mmu_staticMaxBufferBytes (SwitchMmu_InitSwitch m) = mmu_staticMaxBufferBytes m"
  "mmu_maxBufferBytesPerPort (SwitchMmu_InitSwitch m) = mmu_maxBufferBytesPerPort m"
  "mmu_activePortCnt (SwitchMmu_InitSwitch m) = mmu_activePortCnt m"
  "m_pg_shared_alpha_cell (SwitchMmu_InitSwitch m) = m_pg_shared_alpha_cell m"
  "m_pg_hdrm_limit (SwitchMmu_InitSwitch m) = m_pg_hdrm_limit m"
  "m_dynamicth (SwitchMmu_InitSwitch m) = m_dynamicth m"
  "m_pg_shared_alpha_cell_off_diff (SwitchMmu_InitSwitch m) = 16"
  "m_port_min_cell_off (SwitchMmu_InitSwitch m) = 4925600"
  "m_pg_shared_limit_cell_off (SwitchMmu_InitSwitch m) = m_pg_shared_limit_cell (SwitchMmu_InitSwitch m) - 2096"
  "m_pg_shared_limit_cell (SwitchMmu_InitSwitch m) =
     (if m_dynamicth m then mmu_maxBufferBytes (SwitchMmu_InitSwitch m) else 20960)"
  "m_port_max_shared_cell (SwitchMmu_InitSwitch m) =
     (if m_dynamicth m then mmu_maxBufferBytes (SwitchMmu_InitSwitch m) else 5030400)"
  by (simp_all add: SwitchMmu_InitSwitch_def Let_def mmu_MTU_def)

lemma row_sum_0: "(\<And>q. q < mmu_qCnt \<Longrightarrow> r q = 0) \<Longrightarrow> row_sum r = 0"
  by (simp add: row_sum_def)

lemma tab_sum_0: "(\<And>p q. p < mmu_pCnt \<Longrightarrow> q < mmu_qCnt \<Longrightarrow> t p q = 0) \<Longrightarrow> tab_sum (pool f sp) t = 0"
  by (auto simp: tab_sum_def pool_def)

lemma InitSwitch_ok:
  assumes "unat (mmu_maxBufferBytes (SwitchMmu_InitSwitch m)) + 1049 + maxp < 2 ^ 32"
    and "unat (m_op_buffer_shared_limit_cell (SwitchMmu_InitSwitch m)) + maxp < 2 ^ 32"
  shows "egress_ok maxp (SwitchMmu_InitSwitch m)" "ingress_ok maxp (SwitchMmu_InitSwitch m)"
  using assms InitSwitch_counters
  by (auto simp: egress_ok_def ingress_ok_def egress_queue_ok_def row_sum_0 tab_sum_0)

definition SwitchMmu_core :: "SwitchMmu \<Rightarrow> SwitchMmu" where
  "SwitchMmu_core raw =
    (let m = SwitchMmu_ctor raw;
         m = SetDynamicThreshold True (m\<lparr>m_pg_shared_alpha_cell := dbl (625/10000), m_pg_shared_alpha_cell_egress := 1\<rparr>);
         m = SwitchMmu_SetActivePortCnt 12 (SwitchMmu_SetMaxBufferBytesPerPort (200 * 1000) m)
     in m\<lparr>m_pg_hdrm_limit := (\<lambda>i. if i < mmu_pCnt then 12500 + 2 * mmu_MTU else m_pg_hdrm_limit m i)\<rparr>)"

lemma initial_core: "SwitchMmu_initial raw = (SwitchMmu_InitSwitch (SwitchMmu_core raw))
    \<lparr>m_tlt := False, m_tlt_uimp_drop_rate := 0, m_maxBytes_TltUip := 0\<rparr>"
  by (simp add: SwitchMmu_initial_def SwitchMmu_core_def SetPgHdrmLimit_def Let_def)

lemma core_sel: "mmu_staticMaxBufferBytes (SwitchMmu_core raw) = 0"
  "mmu_maxBufferBytesPerPort (SwitchMmu_core raw) = 200000" "mmu_activePortCnt (SwitchMmu_core raw) = 12"
  "m_pg_shared_alpha_cell (SwitchMmu_core raw) = dbl (625/10000)" "m_dynamicth (SwitchMmu_core raw)"
  by (simp_all add: SwitchMmu_core_def Let_def SwitchMmu_SetActivePortCnt_def SetDynamicThreshold_def
      SwitchMmu_SetMaxBufferBytesPerPort_def InitSwitch_config SwitchMmu_ctor_def)

lemma ok_tlt: "egress_ok k (m\<lparr>m_tlt := a, m_tlt_uimp_drop_rate := b, m_maxBytes_TltUip := c\<rparr>) = egress_ok k m"
  "ingress_ok k (m\<lparr>m_tlt := a, m_tlt_uimp_drop_rate := b, m_maxBytes_TltUip := c\<rparr>) = ingress_ok k m"
  by (simp_all add: egress_ok_def ingress_ok_def egress_queue_ok_def)

lemma SwitchMmu_initial_ok: "egress_ok 65535 (SwitchMmu_initial raw)" "ingress_ok 65535 (SwitchMmu_initial raw)"
  unfolding initial_core ok_tlt
  by (rule InitSwitch_ok; simp add: InitSwitch_counters core_sel)+

lemma SwitchMmu_initial_occ: "egress_occ (SwitchMmu_initial raw) k = 0" "ingress_occ (SwitchMmu_initial raw) k = 0"
  using key_valid_ranges[of k]
  by (auto simp: egress_occ_def ingress_occ_def egress_total_def initial_core InitSwitch_counters)

section \<open>Configurations\<close>

text \<open>No counter of a queue is above 0.\<close>
definition mmu_idle :: "SwitchMmu \<Rightarrow> bool" where
  "mmu_idle m \<longleftrightarrow> (\<forall>p<mmu_pCnt. \<forall>q<mmu_qCnt. m_usedEgressQMinBytes m p q = 0 \<and> m_usedEgressQSharedBytes m p q = 0 \<and>
       m_usedIngressPGBytes m p q = 0 \<and> m_usedIngressPGHeadroomBytes m p q = 0) \<and>
     (\<forall>p<mmu_pCnt. m_usedEgressPortBytes m p = 0 \<and> m_usedIngressPortBytes m p = 0) \<and>
     (\<forall>sp<2. m_usedEgressSPBytes m sp = 0 \<and> m_usedIngressSPBytes m sp = 0) \<and> m_usedTotalBytes m = 0"

lemma mmu_idle_InitSwitch: "mmu_idle (SwitchMmu_InitSwitch m)"
proof -
  have "m_usedIngressPGHeadroomBytes (SwitchMmu_InitSwitch m) p q = 0" if "p < mmu_pCnt" "q < mmu_qCnt" for p q
    using that by (simp add: SwitchMmu_InitSwitch_def Let_def)
  then show ?thesis by (simp add: mmu_idle_def InitSwitch_counters)
qed

lemma mmu_idle_set: "mmu_idle m \<Longrightarrow> mmu_idle (mmu_set x m)"
  by (cases x) (simp_all add: SetDynamicThreshold_def SwitchMmu_SetMaxBufferBytesPerPort_def SwitchMmu_SetActivePortCnt_def
      SetPgHdrmLimit_def ConfigHdrm_def ConfigNPort_def SwitchMmu_ConfigBufferSize_def mmu_idle_InitSwitch,
    simp_all add: mmu_idle_def ConfigEcn_def SetBroadcomParams_def)

text \<open>A switch as a program configures it before traffic.\<close>
definition mmu_configured :: "SwitchMmu \<Rightarrow> mmu_setting list \<Rightarrow> SwitchMmu" where
  "mmu_configured raw sets = fold mmu_set sets (SwitchMmu_initial raw)"

lemma mmu_configured_idle: "mmu_idle (mmu_configured raw sets)"
proof -
  have "mmu_idle (SwitchMmu_initial raw)"
    using mmu_idle_InitSwitch[of "SwitchMmu_core raw"] by (simp add: initial_core mmu_idle_def)
  then show ?thesis unfolding mmu_configured_def by (induction sets rule: rev_induct) (simp_all add: mmu_idle_set)
qed

text \<open>The limits leave room for a packet of maxp bytes below 2^32.\<close>
definition egress_limits :: "nat \<Rightarrow> SwitchMmu \<Rightarrow> bool" where
  "egress_limits maxp m \<longleftrightarrow>
     unat (m_op_uc_port_config1_cell m) + unat (m_q_min_cell m) + maxp < 2 ^ 32 \<and>
     unat (m_op_uc_port_config_cell m) + maxp < 2 ^ 32 \<and> unat (m_op_buffer_shared_limit_cell m) + maxp < 2 ^ 32"

lemma mmu_idle_ok:
  assumes "mmu_idle m"
  shows "egress_limits k m \<Longrightarrow> egress_ok k m" "unat (mmu_maxBufferBytes m) + k < 2 ^ 32 \<Longrightarrow> ingress_ok k m"
    "egress_occ m i = 0" "ingress_occ m i = 0"
  using assms key_valid_ranges[of i]
  by (auto simp: mmu_idle_def egress_limits_def egress_ok_def ingress_ok_def egress_queue_ok_def row_sum_0 tab_sum_0
      egress_occ_def ingress_occ_def egress_total_def)

section \<open>Ingress accounting as sums over packets\<close>

text \<open>What the counters stand for, in terms of the packets in the switch.\<close>
definition port_bytes :: "u32 list tab \<Rightarrow> nat \<Rightarrow> nat" where
  "port_bytes qs p = (\<Sum>j<mmu_qCnt. queue_bytes (qs (qkey p j)))"

definition sp_bytes :: "u32 list tab \<Rightarrow> nat \<Rightarrow> nat" where
  "sp_bytes qs sp = (\<Sum>x\<in>pool GetIngressSP sp. queue_bytes (qs (qkey (fst x) (snd x))))"

definition switch_bytes :: "u32 list tab \<Rightarrow> nat" where
  "switch_bytes qs = (\<Sum>i<mmu_pCnt. port_bytes qs i)"

text \<open>The rule a packet of n bytes is admitted by: the buffer has room, and the priority group is within
  its guarantee, or the port is, or the shared pool is not exceeded, or the headroom has room.\<close>
definition ingress_admits :: "bool \<Rightarrow> SwitchMmu \<Rightarrow> nat \<Rightarrow> nat \<Rightarrow> (nat \<Rightarrow> nat) \<Rightarrow> u32 list tab \<Rightarrow> bool" where
  "ingress_admits dbg c k n hr qs \<longleftrightarrow> (dbg \<longrightarrow> 0 < m_pg_shared_alpha_cell c) \<and>
     switch_bytes qs + n \<le> unat (mmu_maxBufferBytes c) \<and>
     (queue_bytes (qs k) + n \<le> unat (m_pg_min_cell c) \<or> port_bytes qs (key_port k) + n \<le> unat (m_port_min_cell c) \<or>
      sp_bytes qs (GetIngressSP (key_port k) (key_queue k)) \<le> unat (m_buffer_cell_limit_sp c) \<or>
      hr k + n \<le> unat (m_pg_hdrm_limit c (key_port k)))"

text \<open>The specification: the headroom used by each priority group, and its packets.\<close>
fun ingress_spec_step :: "bool \<Rightarrow> SwitchMmu \<Rightarrow> port_op \<Rightarrow> (nat \<Rightarrow> nat) \<times> u32 list tab \<Rightarrow> (nat \<Rightarrow> nat) \<times> u32 list tab" where
  "ingress_spec_step dbg c (Arrive k n) (hr, qs) =
    (if ingress_admits dbg c k (unat n) hr qs
     then let qs = qs(k := qs k @ [n])
          in (if sp_bytes qs (GetIngressSP (key_port k) (key_queue k)) > unat (m_buffer_cell_limit_sp c)
              then hr(k := hr k + unat n) else hr, qs)
     else (hr, qs))"
| "ingress_spec_step dbg c (Depart k i) (hr, qs) =
    (case drop i (qs k) of [] \<Rightarrow> (hr, qs) | n # ns \<Rightarrow> (hr(k := hr k - unat n), qs(k := take i (qs k) @ ns)))"

text \<open>The fields the rule reads and no packet changes.\<close>
definition same_limits :: "SwitchMmu \<Rightarrow> SwitchMmu \<Rightarrow> bool" where
  "same_limits c m \<longleftrightarrow> mmu_maxBufferBytes m = mmu_maxBufferBytes c \<and> m_pg_min_cell m = m_pg_min_cell c \<and>
     m_port_min_cell m = m_port_min_cell c \<and> m_buffer_cell_limit_sp m = m_buffer_cell_limit_sp c \<and>
     m_pg_hdrm_limit m = m_pg_hdrm_limit c \<and> m_pg_shared_alpha_cell m = m_pg_shared_alpha_cell c"

definition ingress_refines :: "SwitchMmu \<Rightarrow> SwitchMmu \<Rightarrow> (nat \<Rightarrow> nat) \<Rightarrow> u32 list tab \<Rightarrow> bool" where
  "ingress_refines c m hr qs \<longleftrightarrow> ingress_ok 65535 m \<and> (\<forall>k. ingress_occ m k = queue_bytes (qs k)) \<and> same_limits c m \<and>
     (\<forall>k. key_valid k \<longrightarrow> unat (m_usedIngressPGHeadroomBytes m (key_port k) (key_queue k)) = hr k) \<and>
     (\<forall>k. hr k \<le> queue_bytes (qs k))"

lemma ingress_sums:
  assumes ok: "ingress_ok maxp m" and occ: "\<And>k. ingress_occ m k = queue_bytes (qs k)"
  shows "p < mmu_pCnt \<Longrightarrow> q < mmu_qCnt \<Longrightarrow> unat (m_usedIngressPGBytes m p q) = queue_bytes (qs (qkey p q))"
    "p < mmu_pCnt \<Longrightarrow> unat (m_usedIngressPortBytes m p) = port_bytes qs p"
    "sp < 2 \<Longrightarrow> unat (m_usedIngressSPBytes m sp) = sp_bytes qs sp"
    "unat (m_usedTotalBytes m) = switch_bytes qs"
proof -
  have t: "unat (m_usedIngressPGBytes m i j) = queue_bytes (qs (qkey i j))" if "i < mmu_pCnt" "j < mmu_qCnt" for i j
    using occ[of "qkey i j"] qkey_valid[OF that] qkey_inverse[OF that(2), of i] by (simp add: ingress_occ_def)
  show "p < mmu_pCnt \<Longrightarrow> q < mmu_qCnt \<Longrightarrow> unat (m_usedIngressPGBytes m p q) = queue_bytes (qs (qkey p q))" by (rule t)
  have r: "unat (m_usedIngressPortBytes m i) = port_bytes qs i" if "i < mmu_pCnt" for i
    using ok that t[OF that] by (simp add: ingress_ok_def row_sum_def port_bytes_def)
  then show "p < mmu_pCnt \<Longrightarrow> unat (m_usedIngressPortBytes m p) = port_bytes qs p" .
  show "unat (m_usedTotalBytes m) = switch_bytes qs" using ok r by (simp add: ingress_ok_def switch_bytes_def)
  assume "sp < 2"
  then have "unat (m_usedIngressSPBytes m sp) = tab_sum (pool GetIngressSP sp) (m_usedIngressPGBytes m)"
    using ok by (simp add: ingress_ok_def)
  also have "\<dots> = sp_bytes qs sp" unfolding tab_sum_def sp_bytes_def by (rule sum.cong) (auto simp: pool_def t)
  finally show "unat (m_usedIngressSPBytes m sp) = sp_bytes qs sp" .
qed

lemma ingress_room:
  assumes R: "ingress_refines c m hr qs" and k: "key_valid k" and n: "unat n \<le> 65535"
  defines "p \<equiv> key_port k" and "q \<equiv> key_queue k"
  shows "unat (m_usedTotalBytes m + n) = switch_bytes qs + unat n"
    "unat (m_usedIngressPGBytes m p q + n) = queue_bytes (qs k) + unat n"
    "unat (m_usedIngressPortBytes m p + n) = port_bytes qs p + unat n"
    "unat (m_usedIngressSPBytes m (GetIngressSP p q)) = sp_bytes qs (GetIngressSP p q)"
    "unat (m_usedIngressPGHeadroomBytes m p q) = hr k"
    "unat (m_usedIngressPGHeadroomBytes m p q + n) = hr k + unat n"
proof -
  note R = R[unfolded ingress_refines_def]
  have ok: "ingress_ok 65535 m" and occ: "\<And>k. ingress_occ m k = queue_bytes (qs k)" using R by blast+
  note pq = key_valid_ranges[OF k, folded p_def q_def]
  note b = ingress_bounds[OF ok pq] and S = ingress_sums[OF ok occ]
  have lt: "unat (m_usedTotalBytes m) + unat n < 2 ^ 32" using ok n by (auto simp: ingress_ok_def word_le_nat_alt)
  have g: "unat (m_usedIngressPGBytes m p q) = queue_bytes (qs k)" using occ[of k] k by (simp add: ingress_occ_def p_def q_def)
  show h: "unat (m_usedIngressPGHeadroomBytes m p q) = hr k" using R k by (simp add: p_def q_def)
  have hq: "hr k \<le> unat (m_usedIngressPGBytes m p q)" using R g by simp
  show "unat (m_usedTotalBytes m + n) = switch_bytes qs + unat n" using lt S(4) by (simp add: unat_add_lt)
  show "unat (m_usedIngressPGBytes m p q + n) = queue_bytes (qs k) + unat n" using lt b g by (subst unat_add_lt) simp_all
  show "unat (m_usedIngressPortBytes m p + n) = port_bytes qs p + unat n" using lt b S(2)[OF pq(1)] by (subst unat_add_lt) simp_all
  show "unat (m_usedIngressSPBytes m (GetIngressSP p q)) = sp_bytes qs (GetIngressSP p q)" by (rule S(3)) simp
  show "unat (m_usedIngressPGHeadroomBytes m p q + n) = hr k + unat n" using lt b h hq by (subst unat_add_lt) simp_all
qed

text \<open>The code admits by the rule.\<close>
lemma ingress_check_iff:
  assumes R: "ingress_refines c m hr qs" and k: "key_valid k" and n: "unat n \<le> 65535"
  shows "fst (ingress_check dbg k n m) \<longleftrightarrow> ingress_admits dbg c k (unat n) hr qs"
proof -
  note S = ingress_room[OF R k n]
  have c: "same_limits c m" using R by (simp add: ingress_refines_def)
  show ?thesis
    using c unfolding ingress_check_def CheckIngressAdmission_def ingress_admits_def same_limits_def word_less_nat_alt S(1-4,6)
    by (auto simp: not_less)
qed

lemma ingress_arrive_refines:
  assumes R: "ingress_refines c m hr qs" and k: "key_valid k" and n: "unat n \<le> 65535"
    and adm: "ingress_admits dbg c k (unat n) hr qs"
  defines "qs' \<equiv> qs(k := qs k @ [n])"
  shows "ingress_refines c (ingress_charge k n m)
    (if sp_bytes qs' (GetIngressSP (key_port k) (key_queue k)) > unat (m_buffer_cell_limit_sp c)
     then hr(k := hr k + unat n) else hr) qs'"
proof -
  let ?p = "key_port k" and ?q = "key_queue k" and ?m = "ingress_charge k n m"
  have ok: "ingress_ok 65535 m" and occ: "\<And>k. ingress_occ m k = queue_bytes (qs k)" and c: "same_limits c m"
    and hr: "\<And>k. hr k \<le> queue_bytes (qs k)"
    using R by (simp_all add: ingress_refines_def)
  note S = ingress_room[OF R k n]
  have "CheckIngressAdmission dbg ?p ?q n m = Some True"
    using ingress_check_iff[OF R k n, of dbg] adm by (simp add: ingress_check_def)
  note C = ingress_charge_ok[OF ok k n this]
  have ok': "ingress_ok 65535 ?m" and occ': "ingress_occ ?m i = queue_bytes (qs' i)" for i
    using C occ by (simp_all add: qs'_def)
  have u: "?m = ingress_move ?p ?q (m_usedIngressPGBytes m ?p ?q + n)
     (m_usedIngressPortBytes m ?p + n) (m_usedIngressSPBytes m (GetIngressSP ?p ?q) + n) (m_usedTotalBytes m + n)
     (if m_usedIngressSPBytes m (GetIngressSP ?p ?q) + n > m_buffer_cell_limit_sp m
      then upd2 (m_usedIngressPGHeadroomBytes m) ?p ?q (m_usedIngressPGHeadroomBytes m ?p ?q + n)
      else m_usedIngressPGHeadroomBytes m) m"
    by (simp add: ingress_charge_def Update_ingress_move)
  have "m_usedIngressSPBytes ?m (GetIngressSP ?p ?q) = m_usedIngressSPBytes m (GetIngressSP ?p ?q) + n"
    unfolding u by (simp add: ingress_move_def)
  then have sp: "unat (m_usedIngressSPBytes m (GetIngressSP ?p ?q) + n) = sp_bytes qs' (GetIngressSP ?p ?q)"
    using ingress_sums(3)[OF ok' occ', of "GetIngressSP ?p ?q"] by simp
  let ?over = "unat (m_buffer_cell_limit_sp c) < sp_bytes qs' (GetIngressSP ?p ?q)"
  have lim: "m_buffer_cell_limit_sp m = m_buffer_cell_limit_sp c" using c by (simp add: same_limits_def)
  have h: "m_usedIngressPGHeadroomBytes ?m = (if ?over
      then upd2 (m_usedIngressPGHeadroomBytes m) ?p ?q (m_usedIngressPGHeadroomBytes m ?p ?q + n)
      else m_usedIngressPGHeadroomBytes m)"
    unfolding u word_less_nat_alt sp lim by (simp add: ingress_move_def)
  have old: "unat (m_usedIngressPGHeadroomBytes m (key_port i) (key_queue i)) = hr i" if "key_valid i" for i
    using R that by (simp add: ingress_refines_def)
  have "unat (m_usedIngressPGHeadroomBytes ?m (key_port i) (key_queue i)) = (if ?over then hr(k := hr k + unat n) else hr) i"
    if "key_valid i" for i
    using old[OF that] S(6) key_eq[of i k] unfolding h by (auto simp: upd2_apply)
  moreover have "same_limits c ?m" using c unfolding u by (simp add: same_limits_def ingress_move_def)
  moreover have "(if ?over then hr(k := hr k + unat n) else hr) i \<le> queue_bytes (qs' i)" for i
    using hr[of i] by (cases "i = k") (simp_all add: qs'_def)
  ultimately show ?thesis using ok' occ' by (simp add: ingress_refines_def)
qed

lemma ingress_depart_refines:
  assumes R: "ingress_refines c m hr qs" and k: "key_valid k" and n: "drop i (qs k) = n # ns"
  shows "ingress_refines c (ingress_release k n m) (hr(k := hr k - unat n)) (qs(k := take i (qs k) @ ns))"
proof -
  let ?p = "key_port k" and ?q = "key_queue k" and ?m = "ingress_release k n m" and ?qs = "qs(k := take i (qs k) @ ns)"
  have ok: "ingress_ok 65535 m" and occ: "\<And>k. ingress_occ m k = queue_bytes (qs k)" and c: "same_limits c m"
    and hr: "\<And>k. hr k \<le> queue_bytes (qs k)"
    using R by (simp_all add: ingress_refines_def)
  have q: "queue_bytes (qs k) = unat n + queue_bytes (take i (qs k) @ ns)" by (rule queue_bytes_take_out[OF n])
  then have le: "unat n \<le> ingress_occ m k" by (simp add: occ)
  note C = ingress_release_ok[OF ok k le]
  have occ': "ingress_occ ?m j = queue_bytes (?qs j)" for j using C occ q by simp
  note pq = key_valid_ranges[OF k] and b = ingress_bounds[OF ok key_valid_ranges[OF k]]
  have "n \<le> m_usedIngressPGBytes m ?p ?q" "n \<le> m_usedIngressPortBytes m ?p"
    "n \<le> m_usedIngressSPBytes m (GetIngressSP ?p ?q)" "n \<le> m_usedTotalBytes m"
    using le b k by (auto simp: ingress_occ_def word_le_nat_alt)
  note u = Remove_ingress_move[OF this, folded ingress_release_def[of k, THEN fun_cong, THEN fun_cong]]
  have old: "unat (m_usedIngressPGHeadroomBytes m (key_port j) (key_queue j)) = hr j" if "key_valid j" for j
    using R that by (simp add: ingress_refines_def)
  have v: "unat (if n < v then v - n else 0) = unat v - unat n" for v :: u32
    by (auto simp: unat_sub_le word_less_nat_alt word_le_nat_alt)
  have "unat (m_usedIngressPGHeadroomBytes ?m (key_port j) (key_queue j)) = (hr(k := hr k - unat n)) j" if "key_valid j" for j
    using old[OF that] key_eq[of j k] unfolding u by (auto simp: ingress_move_def upd2_apply v)
  moreover have "same_limits c ?m" using c unfolding u by (simp add: same_limits_def ingress_move_def)
  moreover have "(hr(k := hr k - unat n)) j \<le> queue_bytes (?qs j)" for j using hr[of j] hr[of k] q by auto
  ultimately show ?thesis using C occ' by (simp add: ingress_refines_def)
qed

lemma ingress_step_refines:
  assumes R: "ingress_refines c m hr qs" and op: "op_ok key_valid 65535 op"
  shows "\<exists>m' hr' qs'. port_step (ingress_check dbg) ingress_charge ingress_release op (m, qs) = (m', qs') \<and>
    ingress_spec_step dbg c op (hr, qs) = (hr', qs') \<and> ingress_refines c m' hr' qs'"
proof (cases op)
  case (Arrive k n)
  then have k: "key_valid k" "unat n \<le> 65535" using op by simp_all
  have s: "ingress_check dbg k n m = (ingress_admits dbg c k (unat n) hr qs, m)"
    using ingress_check_iff[OF R k, of dbg] by (simp add: ingress_check_def)
  show ?thesis
  proof (cases "ingress_admits dbg c k (unat n) hr qs")
    case True
    from ingress_arrive_refines[OF R k True] show ?thesis using True by (simp add: Arrive s Let_def split: if_splits)
  next
    case False
    then show ?thesis using R by (simp add: Arrive s)
  qed
next
  case (Depart k i)
  then have k: "key_valid k" using op by simp
  show ?thesis
  proof (cases "drop i (qs k)")
    case (Cons n ns)
    from ingress_depart_refines[OF R k Cons] show ?thesis using Cons by (simp add: Depart)
  qed (use R in \<open>simp add: Depart\<close>)
qed

lemma ingress_run_refines:
  assumes "mmu_idle c" "unat (mmu_maxBufferBytes c) + 65535 < 2 ^ 32" "list_all (op_ok key_valid 65535) ops"
  shows "\<exists>m hr qs. fold (port_step (ingress_check dbg) ingress_charge ingress_release) ops (c, \<lambda>_. []) = (m, qs) \<and>
    fold (ingress_spec_step dbg c) ops (\<lambda>_. 0, \<lambda>_. []) = (hr, qs) \<and> ingress_refines c m hr qs"
  using assms(3)
proof (induction ops rule: rev_induct)
  case Nil
  have "unat (m_usedIngressPGHeadroomBytes c (key_port k) (key_queue k)) = 0" if "key_valid k" for k
    using assms(1) key_valid_ranges[OF that] by (simp add: mmu_idle_def)
  then show ?case using mmu_idle_ok(2,4)[OF assms(1)] assms(2) by (simp add: ingress_refines_def same_limits_def)
next
  case (snoc op ops)
  then obtain m hr qs where IH: "fold (port_step (ingress_check dbg) ingress_charge ingress_release) ops (c, \<lambda>_. []) = (m, qs)"
    "fold (ingress_spec_step dbg c) ops (\<lambda>_. 0, \<lambda>_. []) = (hr, qs)" "ingress_refines c m hr qs" by auto
  have "op_ok key_valid 65535 op" using snoc.prems by simp
  from ingress_step_refines[OF IH(3) this, of dbg] show ?case using IH(1,2) by fastforce
qed

section \<open>Properties\<close>

text \<open>C35: Egress accounting splits every queue canonically.  However the switch was
  configured before traffic, as long as its limits leave room for a packet below 2^32, with
  packets of at most 65535 bytes that leave in any order, each queue's guaranteed counter is
  the smaller of its bytes and the guarantee, its shared counter is the excess, the port
  counter is the sum over the port's queues and the counter of each shared pool is the sum of
  the excesses of the pool's queues; so draining the queues returns every counter to zero and
  no counter ever wraps.\<close>
theorem mmu_egress_split_canonical:
  assumes "list_all mmu_setting_ok sets" "egress_limits 65535 (mmu_configured raw sets)"
    and "fold (port_step (egress_check dbg) egress_charge egress_release) ops
             (mmu_configured raw sets, \<lambda>_. []) = (m, qs)"
    and "list_all (op_ok key_valid 65535) ops"
  shows "(\<forall>p<mmu_pCnt. \<forall>q<mmu_qCnt.
           unat (m_usedEgressQMinBytes m p q) = min (queue_bytes (qs (qkey p q))) (unat (m_q_min_cell m))
         \<and> unat (m_usedEgressQSharedBytes m p q) = queue_bytes (qs (qkey p q)) - unat (m_q_min_cell m))
       \<and> (\<forall>p<mmu_pCnt. unat (m_usedEgressPortBytes m p) = (\<Sum>j<mmu_qCnt. queue_bytes (qs (qkey p j))))
       \<and> (\<forall>sp<2. unat (m_usedEgressSPBytes m sp) =
           (\<Sum>x\<in>pool GetEgressSP sp. queue_bytes (qs (qkey (fst x) (snd x))) - unat (m_q_min_cell m)))"
proof -
  note idle = mmu_configured_idle[of raw sets]
  have ok: "egress_ok 65535 m" and occ: "\<And>k. egress_occ m k = queue_bytes (qs k)"
    using egress_side.run_occ[of 65535 "mmu_configured raw sets" ops dbg m qs] mmu_idle_ok(1,3)[OF idle] assms(2-4)
    by simp_all
  have t: "egress_total m p j = queue_bytes (qs (qkey p j))" if "p < mmu_pCnt" "j < mmu_qCnt" for p j
    using occ[of "qkey p j"] qkey_valid[OF that] qkey_inverse[OF that(2), of p] by (simp add: egress_occ_def)
  have q: "unat (m_usedEgressQMinBytes m p q) = min (queue_bytes (qs (qkey p q))) (unat (m_q_min_cell m))"
    "unat (m_usedEgressQSharedBytes m p q) = queue_bytes (qs (qkey p q)) - unat (m_q_min_cell m)"
    if "p < mmu_pCnt" "q < mmu_qCnt" for p q
  proof -
    have "egress_queue_ok m p q" using ok that by (simp add: egress_ok_def)
    then show "unat (m_usedEgressQMinBytes m p q) = min (queue_bytes (qs (qkey p q))) (unat (m_q_min_cell m))"
      "unat (m_usedEgressQSharedBytes m p q) = queue_bytes (qs (qkey p q)) - unat (m_q_min_cell m)"
      using t[OF that] by (auto simp: egress_queue_ok_def egress_total_def word_le_nat_alt unat_eq_zero)
  qed
  have "unat (m_usedEgressPortBytes m p) = (\<Sum>j<mmu_qCnt. egress_total m p j)" if "p < mmu_pCnt" for p
    using ok that by (simp add: egress_ok_def row_sum_def egress_total_def sum.distrib)
  moreover have "unat (m_usedEgressSPBytes m sp) = tab_sum (pool GetEgressSP sp) (m_usedEgressQSharedBytes m)" if "sp < 2" for sp
    using ok that by (simp add: egress_ok_def)
  moreover have "tab_sum (pool GetEgressSP sp) (m_usedEgressQSharedBytes m) =
      (\<Sum>x\<in>pool GetEgressSP sp. queue_bytes (qs (qkey (fst x) (snd x))) - unat (m_q_min_cell m))" for sp
    unfolding tab_sum_def by (rule sum.cong) (auto simp: pool_def q(2))
  ultimately show ?thesis using q t by simp
qed

text \<open>A switch with a buffer of 4 MB and another port count.\<close>
abbreviation demo_settings :: "mmu_setting list" where
  "demo_settings \<equiv> [CfgNPort 4, CfgHdrm 3 20000, CfgBufferSize 4194304]"

lemma demo_configured_limits:
  "egress_limits 65535 (mmu_configured raw demo_settings)" "unat (mmu_maxBufferBytes (mmu_configured raw demo_settings)) + 65535 < 2 ^ 32"
proof -
  let ?i = "SwitchMmu_InitSwitch ((SwitchMmu_InitSwitch ((SwitchMmu_InitSwitch ((SwitchMmu_initial raw)\<lparr>mmu_activePortCnt := 4\<rparr>))
     \<lparr>m_pg_hdrm_limit := (m_pg_hdrm_limit (SwitchMmu_initial raw))(3 := 20000)\<rparr>))\<lparr>mmu_staticMaxBufferBytes := 4194304\<rparr>)"
  have "mmu_configured raw demo_settings = ?i"
    by (simp add: mmu_configured_def ConfigNPort_def ConfigHdrm_def SwitchMmu_ConfigBufferSize_def InitSwitch_config)
  moreover have "mmu_maxBufferBytes ?i = 4194304" "m_op_buffer_shared_limit_cell ?i = 4160768"
    by (simp_all add: InitSwitch_counters InitSwitch_config)
  ultimately show "egress_limits 65535 (mmu_configured raw demo_settings)"
    "unat (mmu_maxBufferBytes (mmu_configured raw demo_settings)) + 65535 < 2 ^ 32"
    by (simp_all add: egress_limits_def InitSwitch_counters)
qed

abbreviation demo_ops :: "port_op list" where
  "demo_ops \<equiv> [Arrive (qkey 3 2) 1500, Arrive (qkey 3 2) 700, Depart (qkey 3 2) 1, Depart (qkey 3 2) 0]"

lemma demo_ops_ok: "list_all (op_ok key_valid 65535) demo_ops" "list_all mmu_setting_ok demo_settings"
  by (simp_all add: qkey_valid mmu_pCnt_def mmu_qCnt_def)

text \<open>Whatever is admitted, two departures empty the queues.\<close>
lemma demo_drained: "snd (fold (port_step check charge release) demo_ops (s, \<lambda>_. [])) k = []"
  by (simp add: case_prod_beta Let_def)

lemma mmu_egress_split_canonical_witness:
  "\<forall>raw. \<exists>m qs. fold (port_step (egress_check True) egress_charge egress_release) demo_ops
       (mmu_configured raw demo_settings, \<lambda>_. []) = (m, qs) \<and> m_usedEgressQMinBytes m 3 2 = 0 \<and> m_usedEgressSPBytes m 0 = 0"
proof
  fix raw
  let ?r = "fold (port_step (egress_check True) egress_charge egress_release) demo_ops (mmu_configured raw demo_settings, \<lambda>_. [])"
  obtain m qs where r: "?r = (m, qs)" by force
  have "qs k = []" for k using demo_drained[of "egress_check True" egress_charge egress_release "mmu_configured raw demo_settings" k]
    unfolding r by simp
  moreover note C = mmu_egress_split_canonical[OF demo_ops_ok(2) demo_configured_limits(1) r demo_ops_ok(1)]
  ultimately have "unat (m_usedEgressQMinBytes m 3 2) = 0" "unat (m_usedEgressSPBytes m 0) = 0"
    using C by (simp_all add: mmu_pCnt_def mmu_qCnt_def)
  then show "\<exists>m qs. ?r = (m, qs) \<and> m_usedEgressQMinBytes m 3 2 = 0 \<and> m_usedEgressSPBytes m 0 = 0"
    using r by (simp add: unat_eq_zero)
qed

text \<open>C36: Ingress accounting is exact.  However the switch was configured before traffic, as
  long as its buffer leaves room for a packet below 2^32, with packets of at most 65535 bytes
  that leave in any order, the switch admits and accounts as the specification does, which
  knows the packets only: the counter of a priority group is the number of its packets' bytes
  in the switch, those of the port, of the shared pool and of the switch are the sums, the
  headroom counter grows by the packets that arrive while the pool is above its limit and
  shrinks by every packet that leaves, down to zero, and the total never exceeds the buffer.\<close>
theorem mmu_ingress_accounting_exact:
  assumes "list_all mmu_setting_ok sets" "unat (mmu_maxBufferBytes (mmu_configured raw sets)) + 65535 < 2 ^ 32"
    and "list_all (op_ok key_valid 65535) ops"
  shows "\<exists>m hr qs. fold (port_step (ingress_check dbg) ingress_charge ingress_release) ops
               (mmu_configured raw sets, \<lambda>_. []) = (m, qs)
       \<and> fold (ingress_spec_step dbg (mmu_configured raw sets)) ops (\<lambda>_. 0, \<lambda>_. []) = (hr, qs)
       \<and> (\<forall>p<mmu_pCnt. \<forall>q<mmu_qCnt. unat (m_usedIngressPGBytes m p q) = queue_bytes (qs (qkey p q))
            \<and> unat (m_usedIngressPGHeadroomBytes m p q) = hr (qkey p q))
       \<and> (\<forall>p<mmu_pCnt. unat (m_usedIngressPortBytes m p) = port_bytes qs p)
       \<and> (\<forall>sp<2. unat (m_usedIngressSPBytes m sp) = sp_bytes qs sp)
       \<and> unat (m_usedTotalBytes m) = switch_bytes qs
       \<and> m_usedTotalBytes m \<le> mmu_maxBufferBytes m"
proof -
  obtain m hr qs where r: "fold (port_step (ingress_check dbg) ingress_charge ingress_release) ops
      (mmu_configured raw sets, \<lambda>_. []) = (m, qs)"
    "fold (ingress_spec_step dbg (mmu_configured raw sets)) ops (\<lambda>_. 0, \<lambda>_. []) = (hr, qs)"
    and R: "ingress_refines (mmu_configured raw sets) m hr qs"
    using ingress_run_refines[OF mmu_configured_idle assms(2,3)] by blast
  have ok: "ingress_ok 65535 m" and occ: "\<And>k. ingress_occ m k = queue_bytes (qs k)"
    using R by (simp_all add: ingress_refines_def)
  have "unat (m_usedIngressPGHeadroomBytes m p q) = hr (qkey p q)" if "p < mmu_pCnt" "q < mmu_qCnt" for p q
    using R qkey_valid[OF that] qkey_inverse[OF that(2), of p] by (auto simp: ingress_refines_def)
  moreover have "m_usedTotalBytes m \<le> mmu_maxBufferBytes m" using ok by (simp add: ingress_ok_def)
  ultimately show ?thesis using r ingress_sums[OF ok occ] by (intro exI[of _ m] exI[of _ hr] exI[of _ qs]) simp
qed

lemma mmu_ingress_accounting_exact_witness:
  "\<forall>raw. \<exists>m qs. fold (port_step (ingress_check True) ingress_charge ingress_release) demo_ops
       (mmu_configured raw demo_settings, \<lambda>_. []) = (m, qs) \<and> m_usedIngressPGBytes m 3 2 = 0 \<and> m_usedIngressSPBytes m 0 = 0"
proof
  fix raw
  let ?r = "fold (port_step (ingress_check True) ingress_charge ingress_release) demo_ops (mmu_configured raw demo_settings, \<lambda>_. [])"
  obtain m hr qs where r: "?r = (m, qs)"
    and C: "\<forall>p<mmu_pCnt. \<forall>q<mmu_qCnt. unat (m_usedIngressPGBytes m p q) = queue_bytes (qs (qkey p q))
            \<and> unat (m_usedIngressPGHeadroomBytes m p q) = hr (qkey p q)"
      "\<forall>sp<2. unat (m_usedIngressSPBytes m sp) = sp_bytes qs sp"
    using mmu_ingress_accounting_exact[OF demo_ops_ok(2) demo_configured_limits(2) demo_ops_ok(1), where raw = raw and dbg = True] by blast
  have e: "qs k = []" for k using demo_drained[of "ingress_check True" ingress_charge ingress_release "mmu_configured raw demo_settings" k]
    unfolding r by simp
  have "unat (m_usedIngressPGBytes m 3 2) = 0" "unat (m_usedIngressSPBytes m 0) = 0"
    using C by (simp_all add: mmu_pCnt_def mmu_qCnt_def e sp_bytes_def)
  then show "\<exists>m qs. ?r = (m, qs) \<and> m_usedIngressPGBytes m 3 2 = 0 \<and> m_usedIngressSPBytes m 0 = 0"
    using r by (simp add: unat_eq_zero)
qed

lemma room_exact: "dbl (ingress_room p q m) = ingress_room p q m"
proof -
  let ?a = "uint (m_buffer_cell_limit_sp m)" and ?b = "uint (m_usedIngressSPBytes m (GetIngressSP p q))"
  have lt: "0 \<le> ?a" "?a < 4294967296" "0 \<le> ?b" "?b < 4294967296"
    using uint_lt2p[of "m_buffer_cell_limit_sp m"] uint_lt2p[of "m_usedIngressSPBytes m (GetIngressSP p q)"]
    by simp_all
  then have "dbl_of_word (m_buffer_cell_limit_sp m) = of_int ?a"
    "dbl_of_word (m_usedIngressSPBytes m (GetIngressSP p q)) = of_int ?b"
    unfolding dbl_of_word_def by (intro dbl_of_int_exact; simp)+
  then have "ingress_room p q m = dbl (of_int (?a - ?b))" by (simp add: ingress_room_def fsub_def)
  also have "\<dots> = of_int (?a - ?b)" using lt by (intro dbl_of_int_exact) linarith
  finally show ?thesis using lt by (simp only: dbl_of_int_exact)
qed

text \<open>PFC does not oscillate: in no state does a priority group qualify for
  resume and for pause at once, in dynamic mode (with non-negative alpha and
  hysteresis) and in static mode (with the off thresholds below the on
  thresholds).\<close>
theorem mmu_resume_excludes_pause:
  assumes "q < mmu_qCnt"
    and "if m_dynamicth m
         then 0 \<le> m_pg_shared_alpha_cell m \<and> 0 \<le> m_pg_shared_alpha_cell_off_diff m
         else m_pg_shared_limit_cell_off m \<le> m_pg_shared_limit_cell m
            \<and> m_port_min_cell_off m \<le> m_port_max_shared_cell m"
  shows "\<not> (GetResumeClasses p q m \<and> GetPauseClasses p q cls m q)"
proof (cases "m_dynamicth m")
  case True
  have "fsub (ingress_room p q m) (m_pg_shared_alpha_cell_off_diff m) \<le> dbl (ingress_room p q m)"
    unfolding fsub_def using assms(2) True by (intro dbl_mono) simp
  then have "fmul (m_pg_shared_alpha_cell m) (fsub (ingress_room p q m) (m_pg_shared_alpha_cell_off_diff m))
      \<le> fmul (m_pg_shared_alpha_cell m) (ingress_room p q m)"
    unfolding room_exact fmul_def using assms(2) True by (intro dbl_mono mult_left_mono) simp_all
  then show ?thesis using True assms(1) by (auto simp: GetResumeClasses_def GetPauseClasses_def split: if_splits)
next
  case False
  then show ?thesis using assms
    by (auto simp: GetResumeClasses_def GetPauseClasses_def Let_def split: if_splits)
qed

lemma mmu_resume_excludes_pause_witness:
  "\<forall>raw cls. \<not> (GetResumeClasses 3 2 (SwitchMmu_initial raw) \<and> GetPauseClasses 3 2 cls (SwitchMmu_initial raw) 2)"
proof (intro allI)
  fix raw cls
  have "0 \<le> m_pg_shared_alpha_cell (SwitchMmu_initial raw)"
    by (simp add: initial_core InitSwitch_config core_sel dbl_nonneg)
  then show "\<not> (GetResumeClasses 3 2 (SwitchMmu_initial raw) \<and> GetPauseClasses 3 2 cls (SwitchMmu_initial raw) 2)"
    by (intro mmu_resume_excludes_pause)
      (simp_all add: mmu_qCnt_def initial_core InitSwitch_config core_sel)
qed

text \<open>The buffer is divided completely: when the sum does not exceed it, the
  ingress shared pool, the headroom of the table entries 0 to n-1 and the guarantee
  of the n active ports add up to the whole buffer, and so do the egress shared
  pool and the guarantees.  (The ports in use are 1 to n, so the entry of the last
  port is not among the headroom entries summed, entry 0 is.)\<close>
theorem mmu_buffer_divided:
  assumes "unat (total_pg_hdrm_limit (SwitchMmu_InitSwitch m)) + unat (mmu_activePortCnt m) * 8384
             \<le> unat (mmu_maxBufferBytes (SwitchMmu_InitSwitch m))"
  shows "unat (m_buffer_cell_limit_sp (SwitchMmu_InitSwitch m))
           + unat (total_pg_hdrm_limit (SwitchMmu_InitSwitch m)) + unat (mmu_activePortCnt m) * 8384
         = unat (mmu_maxBufferBytes (SwitchMmu_InitSwitch m))
       \<and> unat (m_op_buffer_shared_limit_cell (SwitchMmu_InitSwitch m)) + unat (mmu_activePortCnt m) * 8384
         = unat (mmu_maxBufferBytes (SwitchMmu_InitSwitch m))"
proof -
  let ?m = "SwitchMmu_InitSwitch m" and ?g = "mmu_activePortCnt m * 8384"
  have tot: "total_pg_hdrm_limit ?m = total_pg_hdrm_limit m"
    by (simp add: total_pg_hdrm_limit_def InitSwitch_config)
  have lim: "m_buffer_cell_limit_sp ?m = mmu_maxBufferBytes ?m - total_pg_hdrm_limit m - ?g"
    by (simp add: SwitchMmu_InitSwitch_def Let_def mmu_MTU_def port_guarantee_def mmu_qCnt_def max_def
        total_pg_hdrm_limit_def)
  have "unat (mmu_activePortCnt m) * unat (8384 :: u32) < 2 ^ 32"
    using assms unat_lt_u32[of "mmu_maxBufferBytes ?m"] by simp
  then have g: "unat ?g = unat (mmu_activePortCnt m) * 8384" by (simp add: unat_mult_lt)
  have 1: "unat (mmu_maxBufferBytes ?m - total_pg_hdrm_limit m) = unat (mmu_maxBufferBytes ?m) - unat (total_pg_hdrm_limit m)"
    using assms unfolding tot by (intro unat_sub_le) (simp add: word_le_nat_alt)
  have 2: "unat (m_buffer_cell_limit_sp ?m) = unat (mmu_maxBufferBytes ?m) - unat (total_pg_hdrm_limit m) - unat ?g"
    unfolding lim 1[symmetric] using assms g 1 tot by (intro unat_sub_le) (simp add: word_le_nat_alt)
  have 3: "unat (m_op_buffer_shared_limit_cell ?m) = unat (mmu_maxBufferBytes ?m) - unat ?g"
    unfolding InitSwitch_counters(13) using assms g by (intro unat_sub_le) (simp add: word_le_nat_alt)
  show ?thesis using assms 2 3 g tot by simp
qed

lemma mmu_buffer_divided_witness:
  "\<forall>raw. unat (m_op_buffer_shared_limit_cell (SwitchMmu_InitSwitch (SwitchMmu_core raw))) = 2299392"
proof
  fix raw
  have "total_pg_hdrm_limit (SwitchMmu_InitSwitch (SwitchMmu_core raw)) = 175152"
    by (simp add: total_pg_hdrm_limit_def InitSwitch_config core_sel upt_conv_Cons)
      (simp add: SwitchMmu_core_def Let_def mmu_pCnt_def mmu_MTU_def)
  then show "unat (m_op_buffer_shared_limit_cell (SwitchMmu_InitSwitch (SwitchMmu_core raw))) = 2299392"
    using mmu_buffer_divided[of "SwitchMmu_core raw"] by (simp add: InitSwitch_counters core_sel)
qed

end
