(* ===== verification/CbTag.thy ===== *)
theory CbTag
  imports Prelude "HOL-Library.Monad_Syntax"
begin

text \<open>
  The packet tag of the credit protocol, \<^verbatim>\<open>creditbouncer-tag.{h,cc}\<close>, with the
  byte buffer it is written to, \<^verbatim>\<open>network/model/tag-buffer.{h,cc}\<close>, both of
  dpdq-ns3.  A buffer is the bytes up to its end and the current position; a
  read or write past the end fails the assertion of the code and gives None.
\<close>

section \<open>Tag buffer\<close>

record TagBuffer =
  tb_bytes :: "u8 list"
  tb_current :: nat

definition WriteU8 :: "u8 \<Rightarrow> TagBuffer \<Rightarrow> TagBuffer option" where
  "WriteU8 v b =
    (if tb_current b + 1 \<le> length (tb_bytes b)
     then Some (b\<lparr>tb_bytes := (tb_bytes b)[tb_current b := v], tb_current := tb_current b + 1\<rparr>)
     else None)"

definition WriteU16 :: "u16 \<Rightarrow> TagBuffer \<Rightarrow> TagBuffer option" where
  "WriteU16 d b = do {
     b \<leftarrow> WriteU8 (ucast (drop_bit 0 d AND 0xff)) b;
     WriteU8 (ucast (drop_bit 8 d AND 0xff)) b }"

definition WriteU32 :: "u32 \<Rightarrow> TagBuffer \<Rightarrow> TagBuffer option" where
  "WriteU32 d b = do {
     b \<leftarrow> WriteU8 (ucast (drop_bit 0 d AND 0xff)) b;
     b \<leftarrow> WriteU8 (ucast (drop_bit 8 d AND 0xff)) b;
     b \<leftarrow> WriteU8 (ucast (drop_bit 16 d AND 0xff)) b;
     WriteU8 (ucast (drop_bit 24 d AND 0xff)) b }"

definition ReadU8 :: "TagBuffer \<Rightarrow> (u8 \<times> TagBuffer) option" where
  "ReadU8 b =
    (if tb_current b + 1 \<le> length (tb_bytes b)
     then Some (tb_bytes b ! tb_current b, b\<lparr>tb_current := tb_current b + 1\<rparr>) else None)"

definition ReadU16 :: "TagBuffer \<Rightarrow> (u16 \<times> TagBuffer) option" where
  "ReadU16 b = do {
     (byte0, b) \<leftarrow> ReadU8 b;
     (byte1, b) \<leftarrow> ReadU8 b;
     let d = (ucast byte1 :: u16);
     let d = push_bit 8 d;
     let d = d OR ucast byte0;
     Some (d, b) }"

definition ReadU32 :: "TagBuffer \<Rightarrow> (u32 \<times> TagBuffer) option" where
  "ReadU32 b = do {
     (byte0, b) \<leftarrow> ReadU8 b;
     (byte1, b) \<leftarrow> ReadU8 b;
     (byte2, b) \<leftarrow> ReadU8 b;
     (byte3, b) \<leftarrow> ReadU8 b;
     let d = (ucast byte3 :: u32);
     let d = push_bit 8 d OR ucast byte2;
     let d = push_bit 8 d OR ucast byte1;
     let d = push_bit 8 d OR ucast byte0;
     Some (d, b) }"

section \<open>The tag\<close>

datatype MessageType = CB_MSG_NONE | CB_MSG_GRANT_REQ | CB_MSG_REQUEST | CB_MSG_GRANT
  | CB_MSG_BOUNCED_CREDIT | CB_MSG_RESEND

datatype DataClass = CB_DATA_CLASS_NONE | CB_DATA_CLASS_UNSOLICITED | CB_DATA_CLASS_UNSCHEDULED
  | CB_DATA_CLASS_SCHEDULED

fun type_code :: "MessageType \<Rightarrow> u8" where
  "type_code CB_MSG_NONE = 0" | "type_code CB_MSG_GRANT_REQ = 1" | "type_code CB_MSG_REQUEST = 2"
| "type_code CB_MSG_GRANT = 3" | "type_code CB_MSG_BOUNCED_CREDIT = 4" | "type_code CB_MSG_RESEND = 5"

fun class_code :: "DataClass \<Rightarrow> u8" where
  "class_code CB_DATA_CLASS_NONE = 0" | "class_code CB_DATA_CLASS_UNSOLICITED = 1"
| "class_code CB_DATA_CLASS_UNSCHEDULED = 2" | "class_code CB_DATA_CLASS_SCHEDULED = 3"

record CreditBouncerTag =
  m_type :: u8
  m_creditReqBytes :: u32
  m_creditBytes :: u32
  m_csnMarked :: u8
  m_priorityFlow :: u8
  m_dataClass :: u8
  m_unsolCreditBytes :: u32
  m_unsolCreditDataBytes :: u32
  m_usedUnsolCredit :: u8
  m_creditPad :: u16
  m_resendStartIdx :: u32
  m_resendNumChunks :: u32

definition flag :: "bool \<Rightarrow> u8" where "flag b = (if b then 1 else 0)"

definition CreditBouncerTag_default :: CreditBouncerTag where
  "CreditBouncerTag_default =
    \<lparr>m_type = type_code CB_MSG_NONE, m_creditReqBytes = 0, m_creditBytes = 0, m_csnMarked = 0,
     m_priorityFlow = 0, m_dataClass = class_code CB_DATA_CLASS_NONE, m_unsolCreditBytes = 0,
     m_unsolCreditDataBytes = 0, m_usedUnsolCredit = 0, m_creditPad = 0, m_resendStartIdx = 0,
     m_resendNumChunks = 0\<rparr>"

definition CreditBouncerTag_ctor ::
  "MessageType \<Rightarrow> u32 \<Rightarrow> u32 \<Rightarrow> bool \<Rightarrow> bool \<Rightarrow> DataClass \<Rightarrow> u32 \<Rightarrow> u32 \<Rightarrow> bool \<Rightarrow> u16 \<Rightarrow> u32 \<Rightarrow> u32
   \<Rightarrow> CreditBouncerTag" where
  "CreditBouncerTag_ctor type creditReqBytes creditBytes csnMarked priorityFlow dataClass
     unsolCreditBytes unsolCreditDataBytes usedUnsolCredit creditPad resendStartIdx resendNumChunks =
    \<lparr>m_type = type_code type, m_creditReqBytes = creditReqBytes, m_creditBytes = creditBytes,
     m_csnMarked = flag csnMarked, m_priorityFlow = flag priorityFlow,
     m_dataClass = class_code dataClass, m_unsolCreditBytes = unsolCreditBytes,
     m_unsolCreditDataBytes = unsolCreditDataBytes, m_usedUnsolCredit = flag usedUnsolCredit,
     m_creditPad = creditPad, m_resendStartIdx = resendStartIdx, m_resendNumChunks = resendNumChunks\<rparr>"

definition GetSerializedSize :: nat where "GetSerializedSize = 31"

definition Serialize :: "CreditBouncerTag \<Rightarrow> TagBuffer \<Rightarrow> TagBuffer option" where
  "Serialize t i = do {
     i \<leftarrow> WriteU8 (m_type t) i;
     i \<leftarrow> WriteU32 (m_creditReqBytes t) i;
     i \<leftarrow> WriteU32 (m_creditBytes t) i;
     i \<leftarrow> WriteU8 (m_csnMarked t) i;
     i \<leftarrow> WriteU8 (m_priorityFlow t) i;
     i \<leftarrow> WriteU8 (m_dataClass t) i;
     i \<leftarrow> WriteU32 (m_unsolCreditBytes t) i;
     i \<leftarrow> WriteU32 (m_unsolCreditDataBytes t) i;
     i \<leftarrow> WriteU8 (m_usedUnsolCredit t) i;
     i \<leftarrow> WriteU16 (m_creditPad t) i;
     i \<leftarrow> WriteU32 (m_resendStartIdx t) i;
     WriteU32 (m_resendNumChunks t) i }"

definition Deserialize :: "CreditBouncerTag \<Rightarrow> TagBuffer \<Rightarrow> (CreditBouncerTag \<times> TagBuffer) option" where
  "Deserialize t i = do {
     (a, i) \<leftarrow> ReadU8 i;
     (b, i) \<leftarrow> ReadU32 i;
     (c, i) \<leftarrow> ReadU32 i;
     (d, i) \<leftarrow> ReadU8 i;
     (e, i) \<leftarrow> ReadU8 i;
     (f, i) \<leftarrow> ReadU8 i;
     (g, i) \<leftarrow> ReadU32 i;
     (h, i) \<leftarrow> ReadU32 i;
     (j, i) \<leftarrow> ReadU8 i;
     (k, i) \<leftarrow> ReadU16 i;
     (l, i) \<leftarrow> ReadU32 i;
     (n, i) \<leftarrow> ReadU32 i;
     Some (t\<lparr>m_type := a, m_creditReqBytes := b, m_creditBytes := c, m_csnMarked := d,
             m_priorityFlow := e, m_dataClass := f, m_unsolCreditBytes := g,
             m_unsolCreditDataBytes := h, m_usedUnsolCredit := j, m_creditPad := k,
             m_resendStartIdx := l, m_resendNumChunks := n\<rparr>, i) }"

definition SetType :: "MessageType \<Rightarrow> CreditBouncerTag \<Rightarrow> CreditBouncerTag" where
  "SetType type t = t\<lparr>m_type := type_code type\<rparr>"

definition SetCsnMarked :: "bool \<Rightarrow> CreditBouncerTag \<Rightarrow> CreditBouncerTag" where
  "SetCsnMarked b t = t\<lparr>m_csnMarked := flag b\<rparr>"

definition SetPriorityFlow :: "bool \<Rightarrow> CreditBouncerTag \<Rightarrow> CreditBouncerTag" where
  "SetPriorityFlow b t = t\<lparr>m_priorityFlow := flag b\<rparr>"

definition SetDataClass :: "DataClass \<Rightarrow> CreditBouncerTag \<Rightarrow> CreditBouncerTag" where
  "SetDataClass c t = t\<lparr>m_dataClass := class_code c\<rparr>"

definition SetUsedUnsolCredit :: "bool \<Rightarrow> CreditBouncerTag \<Rightarrow> CreditBouncerTag" where
  "SetUsedUnsolCredit b t = t\<lparr>m_usedUnsolCredit := flag b\<rparr>"

definition IsCsnMarked :: "CreditBouncerTag \<Rightarrow> bool" where
  "IsCsnMarked t \<longleftrightarrow> m_csnMarked t \<noteq> 0"

definition IsPriorityFlow :: "CreditBouncerTag \<Rightarrow> bool" where
  "IsPriorityFlow t \<longleftrightarrow> m_priorityFlow t \<noteq> 0"

definition IsUnsolicitedData :: "CreditBouncerTag \<Rightarrow> bool" where
  "IsUnsolicitedData t \<longleftrightarrow> m_dataClass t = class_code CB_DATA_CLASS_UNSOLICITED"

definition IsUnscheduledData :: "CreditBouncerTag \<Rightarrow> bool" where
  "IsUnscheduledData t \<longleftrightarrow> m_dataClass t = class_code CB_DATA_CLASS_UNSCHEDULED"

definition IsScheduledData :: "CreditBouncerTag \<Rightarrow> bool" where
  "IsScheduledData t \<longleftrightarrow> m_dataClass t = class_code CB_DATA_CLASS_SCHEDULED"

definition IsUsedUnsolCredit :: "CreditBouncerTag \<Rightarrow> bool" where
  "IsUsedUnsolCredit t \<longleftrightarrow> m_usedUnsolCredit t \<noteq> 0"

definition IsGrantReq :: "CreditBouncerTag \<Rightarrow> bool" where
  "IsGrantReq t \<longleftrightarrow> m_type t = type_code CB_MSG_GRANT_REQ"

definition IsRequest :: "CreditBouncerTag \<Rightarrow> bool" where
  "IsRequest t \<longleftrightarrow> m_type t = type_code CB_MSG_REQUEST"

definition IsGrant :: "CreditBouncerTag \<Rightarrow> bool" where
  "IsGrant t \<longleftrightarrow> m_type t = type_code CB_MSG_GRANT"

definition IsBouncedCredit :: "CreditBouncerTag \<Rightarrow> bool" where
  "IsBouncedCredit t \<longleftrightarrow> m_type t = type_code CB_MSG_BOUNCED_CREDIT"

definition IsResend :: "CreditBouncerTag \<Rightarrow> bool" where
  "IsResend t \<longleftrightarrow> m_type t = type_code CB_MSG_RESEND"

section \<open>Reading and writing byte strings\<close>

text \<open>Writing a byte string at the current position.\<close>
definition put :: "u8 list \<Rightarrow> TagBuffer \<Rightarrow> TagBuffer option" where
  "put xs b =
    (if tb_current b + length xs \<le> length (tb_bytes b)
     then Some (b\<lparr>tb_bytes := take (tb_current b) (tb_bytes b) @ xs @ drop (tb_current b + length xs) (tb_bytes b),
                  tb_current := tb_current b + length xs\<rparr>)
     else None)"

lemma put_append: "Option.bind (put xs b) (put ys) = put (xs @ ys) b"
proof (cases "tb_current b + length xs + length ys \<le> length (tb_bytes b)")
  case True
  then have "min (length (tb_bytes b)) (tb_current b) = tb_current b" by simp
  then show ?thesis using True by (simp add: put_def ac_simps)
next
  case False
  then show ?thesis by (auto simp: put_def)
qed

lemma WriteU8_put: "WriteU8 v b = put [v] b"
  by (auto simp: WriteU8_def put_def upd_conv_take_nth_drop Suc_le_eq)

definition bytes16 :: "u16 \<Rightarrow> u8 list" where
  "bytes16 d = [ucast (drop_bit 0 d AND 0xff), ucast (drop_bit 8 d AND 0xff)]"

definition bytes32 :: "u32 \<Rightarrow> u8 list" where
  "bytes32 d = [ucast (drop_bit 0 d AND 0xff), ucast (drop_bit 8 d AND 0xff),
     ucast (drop_bit 16 d AND 0xff), ucast (drop_bit 24 d AND 0xff)]"

lemma bind_put: "Option.bind (put xs b) (\<lambda>b. put ys b) = put (xs @ ys) b"
  using put_append by simp

lemma bind_put_assoc: "Option.bind (put xs b) (\<lambda>b. Option.bind (put ys b) k) = Option.bind (put (xs @ ys) b) k"
  unfolding put_append[symmetric] by (cases "put xs b") simp_all

lemma Write_put: "WriteU16 d b = put (bytes16 d) b" "WriteU32 e b = put (bytes32 e) b"
  by (simp_all add: WriteU16_def WriteU32_def WriteU8_put bind_put bind_put_assoc bytes16_def bytes32_def)

definition tag_bytes :: "CreditBouncerTag \<Rightarrow> u8 list" where
  "tag_bytes t = [m_type t] @ bytes32 (m_creditReqBytes t) @ bytes32 (m_creditBytes t)
     @ [m_csnMarked t] @ [m_priorityFlow t] @ [m_dataClass t] @ bytes32 (m_unsolCreditBytes t)
     @ bytes32 (m_unsolCreditDataBytes t) @ [m_usedUnsolCredit t] @ bytes16 (m_creditPad t)
     @ bytes32 (m_resendStartIdx t) @ bytes32 (m_resendNumChunks t)"

lemma tag_bytes_length: "length (tag_bytes t) = GetSerializedSize"
  by (simp add: tag_bytes_def bytes16_def bytes32_def GetSerializedSize_def)

lemma Serialize_put: "Serialize t b = put (tag_bytes t) b"
  by (simp add: Serialize_def WriteU8_put Write_put bind_put bind_put_assoc tag_bytes_def)

text \<open>What is still to be read, and the buffer one byte on.\<close>
definition unread :: "TagBuffer \<Rightarrow> u8 list" where
  "unread b = drop (tb_current b) (tb_bytes b)"

definition advance :: "nat \<Rightarrow> TagBuffer \<Rightarrow> TagBuffer" where
  "advance n b = b\<lparr>tb_current := tb_current b + n\<rparr>"

lemma ReadU8_unread:
  "ReadU8 b = (case unread b of [] \<Rightarrow> None | x # xs \<Rightarrow> Some (x, advance 1 b))"
proof (cases "tb_current b < length (tb_bytes b)")
  case True
  then have "unread b = tb_bytes b ! tb_current b # drop (Suc (tb_current b)) (tb_bytes b)"
    by (simp add: unread_def Cons_nth_drop_Suc)
  then show ?thesis using True by (simp add: ReadU8_def advance_def)
qed (simp add: ReadU8_def unread_def)

lemma unread_advance [simp]: "unread (advance n b) = drop n (unread b)"
  by (simp add: unread_def advance_def add.commute)

lemma advance_advance [simp]: "advance n (advance m b) = advance (m + n) b"
  by (simp add: advance_def add.assoc)

lemma low_byte: "(255 :: 'a::len word) = mask 8"
  by (simp add: mask_eq_exp_minus_1)

lemma join16: "push_bit 8 (ucast (ucast (drop_bit 8 d AND 0xff) :: u8) :: u16)
    OR ucast (ucast (drop_bit 0 d AND 0xff) :: u8) = d"
proof (rule bit_word_eqI)
  fix n assume "n < LENGTH(16)"
  then consider "n < 8" | "8 \<le> n" "n - 8 < 8" "n < 16" by fastforce
  then show "bit (push_bit 8 (ucast (ucast (drop_bit 8 d AND 0xff) :: u8) :: u16)
      OR ucast (ucast (drop_bit 0 d AND 0xff) :: u8)) n = bit d n"
    by cases (simp_all add: low_byte bit_simps)
qed

definition join32 :: "u8 \<Rightarrow> u8 \<Rightarrow> u8 \<Rightarrow> u8 \<Rightarrow> u32" where
  "join32 b0 b1 b2 b3 = push_bit 8 (push_bit 8 (push_bit 8 (ucast b3) OR ucast b2) OR ucast b1) OR ucast b0"

lemma join32_bytes: "join32 (ucast (drop_bit 0 d AND 0xff)) (ucast (drop_bit 8 d AND 0xff))
    (ucast (drop_bit 16 d AND 0xff)) (ucast (drop_bit 24 d AND 0xff)) = d"
proof (rule bit_word_eqI)
  fix n assume "n < LENGTH(32)"
  then consider "n < 8" | "8 \<le> n" "n < 16" | "16 \<le> n" "n < 24" | "24 \<le> n" "n < 32" by fastforce
  then show "bit (join32 (ucast (drop_bit 0 d AND 0xff)) (ucast (drop_bit 8 d AND 0xff))
    (ucast (drop_bit 16 d AND 0xff)) (ucast (drop_bit 24 d AND 0xff))) n = bit d n"
    by cases (auto simp: join32_def low_byte bit_simps)
qed

lemma ReadU16_unread:
  "ReadU16 b = (case unread b of x # y # _ \<Rightarrow> Some (push_bit 8 (ucast y) OR ucast x, advance 2 b) | _ \<Rightarrow> None)"
  by (auto simp: ReadU16_def ReadU8_unread Let_def numeral_2_eq_2 split: list.splits)

lemma ReadU32_unread:
  "ReadU32 b = (case unread b of x # y # z # w # _ \<Rightarrow> Some (join32 x y z w, advance 4 b) | _ \<Rightarrow> None)"
  unfolding ReadU32_def Let_def join32_def[symmetric]
  by (auto simp: ReadU8_unread eval_nat_numeral split: list.splits)

lemma Deserialize_bytes:
  assumes "unread b = tag_bytes t @ r"
  shows "Deserialize t0 b = Some (t, advance 31 b)"
  using assms join16[of "m_creditPad t"]
    join32_bytes[of "m_creditReqBytes t"] join32_bytes[of "m_creditBytes t"]
    join32_bytes[of "m_unsolCreditBytes t"] join32_bytes[of "m_unsolCreditDataBytes t"]
    join32_bytes[of "m_resendStartIdx t"] join32_bytes[of "m_resendNumChunks t"]
  by (simp add: Deserialize_def tag_bytes_def bytes16_def bytes32_def ReadU8_unread ReadU16_unread ReadU32_unread)

section \<open>Properties\<close>

text \<open>C40: A tag survives serialization: writing it into a buffer with at least
  GetSerializedSize bytes left succeeds, moves the position by exactly that size,
  changes no byte outside that range, and reading at the same position gives
  back every field.\<close>
theorem tag_roundtrip:
  assumes "tb_current b + GetSerializedSize \<le> length (tb_bytes b)"
  shows "\<exists>b'. Serialize t b = Some b'
     \<and> tb_current b' = tb_current b + GetSerializedSize
     \<and> take (tb_current b) (tb_bytes b') = take (tb_current b) (tb_bytes b)
     \<and> drop (tb_current b') (tb_bytes b') = drop (tb_current b') (tb_bytes b)
     \<and> Deserialize t0 (b'\<lparr>tb_current := tb_current b\<rparr>) = Some (t, b')"
proof -
  let ?b = "b\<lparr>tb_bytes := take (tb_current b) (tb_bytes b) @ tag_bytes t
      @ drop (tb_current b + GetSerializedSize) (tb_bytes b), tb_current := tb_current b + GetSerializedSize\<rparr>"
  have s: "Serialize t b = Some ?b" using assms by (simp add: Serialize_put put_def tag_bytes_length)
  have m: "min (length (tb_bytes b)) (tb_current b) = tb_current b" using assms by simp
  have "unread (?b\<lparr>tb_current := tb_current b\<rparr>)
      = tag_bytes t @ drop (tb_current b + GetSerializedSize) (tb_bytes b)"
    using m by (simp add: unread_def)
  from Deserialize_bytes[OF this, of t0]
  have "Deserialize t0 (?b\<lparr>tb_current := tb_current b\<rparr>) = Some (t, ?b)"
    by (simp add: advance_def GetSerializedSize_def)
  then show ?thesis using s m tag_bytes_length[of t] by (intro exI[of _ ?b]) simp
qed

definition example_tag :: CreditBouncerTag where
  "example_tag = CreditBouncerTag_ctor CB_MSG_GRANT 0 1538 False True CB_DATA_CLASS_NONE 0 0 False 20 0 0"

lemma tag_roundtrip_witness:
  "\<exists>b'. Serialize example_tag \<lparr>tb_bytes = replicate 40 7, tb_current = 4\<rparr> = Some b'
     \<and> Deserialize CreditBouncerTag_default (b'\<lparr>tb_current := 4\<rparr>) = Some (example_tag, b')"
proof -
  have "tb_current \<lparr>tb_bytes = replicate 40 (7 :: u8), tb_current = 4\<rparr> + GetSerializedSize
      \<le> length (tb_bytes \<lparr>tb_bytes = replicate 40 (7 :: u8), tb_current = 4\<rparr>)"
    by (simp add: GetSerializedSize_def)
  from tag_roundtrip[OF this, of example_tag CreditBouncerTag_default] show ?thesis by auto
qed

text \<open>The classifiers partition tags by message type: a constructed tag answers
  true to exactly the predicate of its type, and bouncing a grant with SetType
  turns it into a bounced credit and nothing else, keeping the credit it carries.\<close>
theorem tag_classifiers_exact:
  "(IsGrantReq (CreditBouncerTag_ctor ty a b c d e f g h i j k) \<longleftrightarrow> ty = CB_MSG_GRANT_REQ)
   \<and> (IsRequest (CreditBouncerTag_ctor ty a b c d e f g h i j k) \<longleftrightarrow> ty = CB_MSG_REQUEST)
   \<and> (IsGrant (CreditBouncerTag_ctor ty a b c d e f g h i j k) \<longleftrightarrow> ty = CB_MSG_GRANT)
   \<and> (IsBouncedCredit (CreditBouncerTag_ctor ty a b c d e f g h i j k) \<longleftrightarrow> ty = CB_MSG_BOUNCED_CREDIT)
   \<and> (IsResend (CreditBouncerTag_ctor ty a b c d e f g h i j k) \<longleftrightarrow> ty = CB_MSG_RESEND)
   \<and> IsBouncedCredit (SetType CB_MSG_BOUNCED_CREDIT t) \<and> \<not> IsGrant (SetType CB_MSG_BOUNCED_CREDIT t)
   \<and> m_creditBytes (SetType CB_MSG_BOUNCED_CREDIT t) = m_creditBytes t"
  by (cases ty) (simp_all add: IsGrantReq_def IsRequest_def IsGrant_def IsBouncedCredit_def IsResend_def
      CreditBouncerTag_ctor_def SetType_def)

end
