(* ===== verification/IntHeader.thy ===== *)
theory IntHeader
  imports Prelude
begin

text \<open>
  The in-band telemetry of dpdq-ns3, \<^verbatim>\<open>network/utils/int-header.{h,cc}\<close>: a hop
  record packed into bit fields of 3, 24, 20 and 17 bits, and the header's ring
  of five hops.  The bit fields are words of their width, so that storing
  truncates.  The two static variables (the unit multiplier multi and the mode)
  are arguments.  A division by zero is None.  The message on an unknown rate is
  left out.  The union of hops and time stamp is kept as separate fields: the
  mode, fixed for a run, decides which of them is used.
\<close>

section \<open>Hops\<close>

record IntHop =
  lineRate :: "3 word"
  hop_time :: "24 word"
  hop_bytes :: "20 word"
  hop_qlen :: "17 word"

definition byteUnit :: u32 where "byteUnit = 128"
definition qlenUnit :: u32 where "qlenUnit = 80"

definition lineRateValues :: "u64 list" where
  "lineRateValues = [25000000000, 50000000000, 100000000000, 200000000000, 400000000000, 40000000000, 0, 0]"

definition GetLineRate :: "IntHop \<Rightarrow> u64" where
  "GetLineRate h = lineRateValues ! unat (lineRate h)"

definition GetBytes :: "u32 \<Rightarrow> IntHop \<Rightarrow> u64" where
  "GetBytes multi h = ucast (hop_bytes h) * ucast byteUnit * ucast multi"

definition GetQlen :: "u32 \<Rightarrow> IntHop \<Rightarrow> u32" where
  "GetQlen multi h = ucast (hop_qlen h) * qlenUnit * multi"

definition GetTime :: "IntHop \<Rightarrow> u64" where
  "GetTime h = ucast (hop_time h)"

definition IntHop_Set :: "u32 \<Rightarrow> u64 \<Rightarrow> u64 \<Rightarrow> u32 \<Rightarrow> u64 \<Rightarrow> IntHop \<Rightarrow> IntHop option" where
  "IntHop_Set multi time bytes qlen rate h =
    (if byteUnit * multi = 0 \<or> qlenUnit * multi = 0 then None
     else Some (h\<lparr>hop_time := ucast time,
       hop_bytes := ucast (bytes div ucast (byteUnit * multi)),
       hop_qlen := ucast (qlen div (qlenUnit * multi)),
       lineRate := (if rate = 25000000000 then 0
                    else if rate = 50000000000 then 1
                    else if rate = 100000000000 then 2
                    else if rate = 200000000000 then 3
                    else if rate = 400000000000 then 4
                    else if rate = 40000000000 then 5
                    else lineRate h)\<rparr>))"

text \<open>The fields are narrower than int, so the differences are computed on int and
  the products on unsigned int.\<close>
definition GetBytesDelta :: "u32 \<Rightarrow> IntHop \<Rightarrow> IntHop \<Rightarrow> u64" where
  "GetBytesDelta multi h b =
    (if hop_bytes h \<ge> hop_bytes b
     then ucast ((word_of_int (uint (hop_bytes h) - uint (hop_bytes b)) :: u32) * byteUnit * multi)
     else ucast ((word_of_int (uint (hop_bytes h) + 2 ^ 20 - uint (hop_bytes b)) :: u32) * byteUnit * multi))"

definition GetTimeDelta :: "IntHop \<Rightarrow> IntHop \<Rightarrow> u64" where
  "GetTimeDelta h b =
    (if hop_time h \<ge> hop_time b then word_of_int (uint (hop_time h) - uint (hop_time b))
     else word_of_int (uint (hop_time h) + 2 ^ 24 - uint (hop_time b)))"

section \<open>The header\<close>

definition maxHop :: nat where "maxHop = 5"

record IntHeader =
  hop :: "IntHop tab"
  nhop :: u16
  ih_ts :: u64

definition PushHop :: "u32 \<Rightarrow> u32 \<Rightarrow> u64 \<Rightarrow> u64 \<Rightarrow> u32 \<Rightarrow> u64 \<Rightarrow> IntHeader \<Rightarrow> IntHeader option" where
  "PushHop mode multi time bytes qlen rate ih =
    (if mode = 0
     then let idx = unat (nhop ih) mod maxHop in
          (case IntHop_Set multi time bytes qlen rate (hop ih idx) of None \<Rightarrow> None
           | Some h \<Rightarrow> Some (ih\<lparr>hop := (hop ih)(idx := h), nhop := nhop ih + 1\<rparr>))
     else Some ih)"

definition GetTs :: "u32 \<Rightarrow> IntHeader \<Rightarrow> u64" where
  "GetTs mode ih = (if mode = 1 then ih_ts ih else 0)"

definition IntHeader_GetStaticSize :: "u32 \<Rightarrow> nat" where
  "IntHeader_GetStaticSize mode = (if mode = 0 then 8 * maxHop + 2 else if mode = 1 then 8 else 0)"

section \<open>Differences of truncated counters\<close>

text \<open>A counter kept modulo m still tells the distance travelled, when that is
  less than m.\<close>
lemma wrapped_difference:
  fixes a b m :: nat
  assumes "a \<le> b" "b - a < m"
  shows "(if a mod m \<le> b mod m then b mod m - a mod m else b mod m + m - a mod m) = b - a"
proof -
  define d where "d = b - a"
  have b: "b = a + d" and d: "d < m" using assms by (simp_all add: d_def)
  have m: "a mod m < m" using d by (intro mod_less_divisor) simp
  have e: "b mod m = (a mod m + d) mod m" by (simp only: b mod_add_left_eq)
  have "b - a = d" by (simp add: d_def)
  moreover have "a mod m + d < m \<Longrightarrow> b mod m = a mod m + d" unfolding e by (rule mod_less)
  moreover have "\<not> a mod m + d < m \<Longrightarrow> b mod m = a mod m + d - m"
    unfolding e using m d le_mod_geq[of m "a mod m + d"] mod_less[of "a mod m + d - m" m] by linarith
  moreover from this have "\<not> a mod m + d < m \<Longrightarrow> \<not> a mod m \<le> b mod m" using m d by linarith
  ultimately show ?thesis using d by (cases "a mod m + d < m") simp_all
qed

lemma unat_ucast_mod: "unat (ucast (x :: 'a::len word) :: 'b::len word) = unat x mod 2 ^ LENGTH('b)"
  by (simp add: unsigned_ucast_eq take_bit_eq_mod)

lemma wrapped_int:
  fixes x y :: "'a::len word"
  shows "(if x \<ge> y then uint x - uint y else uint x + 2 ^ LENGTH('a) - uint y)
    = int (if unat y \<le> unat x then unat x - unat y else unat x + 2 ^ LENGTH('a) - unat y)"
proof (cases "unat y \<le> unat x")
  case True
  then show ?thesis by (simp add: word_le_nat_alt of_nat_diff)
next
  case False
  have "unat y \<le> unat x + 2 ^ LENGTH('a)" by (rule trans_le_add2, rule less_imp_le, rule unat_lt_2p)
  then have "int (unat x + 2 ^ LENGTH('a) - unat y) = int (unat x) + 2 ^ LENGTH('a) - int (unat y)"
    by (subst of_nat_diff) simp_all
  then show ?thesis using False by (simp add: word_le_nat_alt)
qed

lemma wrapped_word:
  fixes x y :: "'a::len word"
  assumes "unat x = b mod 2 ^ LENGTH('a)" "unat y = a mod 2 ^ LENGTH('a)"
    and "a \<le> b" "b - a < 2 ^ LENGTH('a)"
  shows "(if x \<ge> y then uint x - uint y else uint x + 2 ^ LENGTH('a) - uint y) = int (b - a)"
  unfolding wrapped_int assms(1,2) wrapped_difference[OF assms(3,4)] ..

lemma time_delta:
  assumes "h1 = h\<lparr>hop_time := ucast t1, hop_bytes := x, hop_qlen := q, lineRate := r\<rparr>"
    and "h2 = h'\<lparr>hop_time := ucast t2, hop_bytes := x', hop_qlen := q', lineRate := r'\<rparr>"
    and "t1 \<le> t2" "unat (t2 - t1) < 2 ^ 24"
  shows "GetTimeDelta h2 h1 = t2 - t1"
proof -
  have le: "unat t1 \<le> unat t2" "unat t2 - unat t1 < 2 ^ 24"
    using assms(3,4) by (simp_all add: word_le_nat_alt unat_sub_le)
  have "GetTimeDelta h2 h1 = word_of_int (if hop_time h2 \<ge> hop_time h1
      then uint (hop_time h2) - uint (hop_time h1) else uint (hop_time h2) + 2 ^ LENGTH(24) - uint (hop_time h1))"
    by (simp add: GetTimeDelta_def)
  also have "\<dots> = word_of_nat (unat t2 - unat t1)"
    using wrapped_word[of "hop_time h2" "unat t2" "hop_time h1" "unat t1"] le
    by (simp add: assms(1,2) unat_ucast_mod)
  also have "\<dots> = t2 - t1" using assms(3) by (simp add: unat_sub_le[symmetric])
  finally show ?thesis .
qed

lemma bytes_delta:
  assumes "hop_bytes h1 = ucast (b1 :: u64)" "hop_bytes h2 = ucast (b2 :: u64)"
    and "b1 \<le> b2" "unat (b2 - b1) < 2 ^ 20" "0 < unat multi" "unat multi \<le> 32"
  shows "unat (GetBytesDelta multi h2 h1) = unat (b2 - b1) * (128 * unat multi)"
proof -
  let ?d = "unat b2 - unat b1"
  have le: "unat b1 \<le> unat b2" "?d < 2 ^ 20" and d: "unat (b2 - b1) = ?d"
    using assms(3,4) by (simp_all add: word_le_nat_alt unat_sub_le)
  have e: "word_of_int (if hop_bytes h2 \<ge> hop_bytes h1
      then uint (hop_bytes h2) - uint (hop_bytes h1) else uint (hop_bytes h2) + 2 ^ LENGTH(20) - uint (hop_bytes h1))
      = (word_of_nat ?d :: u32)"
    using wrapped_word[of "hop_bytes h2" "unat b2" "hop_bytes h1" "unat b1"] le
    by (simp add: assms(1,2) unat_ucast_mod)
  have "GetBytesDelta multi h2 h1 = ucast (word_of_nat ?d * byteUnit * multi)"
    unfolding GetBytesDelta_def e[symmetric] by simp
  moreover have "unat (word_of_nat ?d :: u32) = ?d"
    using le(2) by (simp add: unat_of_nat)
  moreover have "?d * 128 \<le> (2 ^ 20 - 1) * 128" "?d * 128 * unat multi \<le> (2 ^ 20 - 1) * 128 * 32"
    using le(2) assms(6) by (simp, intro mult_mono) simp_all
  ultimately show ?thesis
    by (simp add: unat_ucast_up unat_mult_lt byteUnit_def d)
qed

section \<open>Properties\<close>

text \<open>The rates the code knows.\<close>
definition known_rate :: "u64 \<Rightarrow> bool" where
  "known_rate r \<longleftrightarrow> r \<in> {25000000000, 50000000000, 100000000000, 200000000000, 400000000000, 40000000000}"

text \<open>What a sender computes from two telemetry records of one hop is exact up to
  the unit of the byte counter: with a multiplier of 1 to 32, a time difference
  below 2^24 ns and a byte difference below 2^20 units, the time delta is exact
  and the byte delta is off by less than one unit, across the wrap-around of the
  24-bit time and 20-bit byte fields; and every known line rate is read back.\<close>
theorem int_deltas_exact:
  assumes "0 < multi" "multi \<le> 32" "t1 \<le> t2" "c1 \<le> c2" "unat (t2 - t1) < 2 ^ 24"
    and "unat c2 - unat c1 < (2 ^ 20 - 1) * (128 * unat multi)" "known_rate r2"
  shows "\<exists>h1 h2. IntHop_Set multi t1 c1 q1 r1 h = Some h1 \<and> IntHop_Set multi t2 c2 q2 r2 h' = Some h2
     \<and> GetTimeDelta h2 h1 = t2 - t1
     \<and> unat (GetBytesDelta multi h2 h1) < unat (c2 - c1) + 128 * unat multi
     \<and> unat (c2 - c1) < unat (GetBytesDelta multi h2 h1) + 128 * unat multi
     \<and> GetLineRate h2 = r2"
proof -
  let ?U = "128 * unat multi"
  have m: "0 < unat multi" "unat multi \<le> 32" using assms(1,2) by (simp_all add: word_less_nat_alt word_le_nat_alt)
  have u: "unat (byteUnit * multi) = ?U" "unat (qlenUnit * multi) = 80 * unat multi"
    using m by (simp_all add: unat_mult_lt byteUnit_def qlenUnit_def)
  have nz: "byteUnit * multi \<noteq> 0" "qlenUnit * multi \<noteq> 0" using u m by auto
  obtain h1 where 1: "IntHop_Set multi t1 c1 q1 r1 h = Some h1" using nz by (simp add: IntHop_Set_def)
  obtain h2 where 2: "IntHop_Set multi t2 c2 q2 r2 h' = Some h2" using nz by (simp add: IntHop_Set_def)
  let ?b1 = "c1 div ucast (byteUnit * multi)" and ?b2 = "c2 div ucast (byteUnit * multi)"
  have ub: "unat ?b1 = unat c1 div ?U" "unat ?b2 = unat c2 div ?U"
    by (simp_all add: unat_div unat_ucast_up u(1))
  have le: "unat c1 \<le> unat c2" using assms(4) by (simp add: word_le_nat_alt)
  then have bl: "?b1 \<le> ?b2" by (simp add: word_le_nat_alt ub div_le_mono)
  have "unat c1 = unat c1 div ?U * ?U + unat c1 mod ?U" "unat c2 = unat c2 div ?U * ?U + unat c2 mod ?U"
    by (simp_all only: div_mult_mod_eq)
  moreover have "unat c1 mod ?U < ?U" "unat c2 mod ?U < ?U" using m by simp_all
  ultimately have q: "unat c1 = unat c1 div ?U * ?U + unat c1 mod ?U" "unat c2 = unat c2 div ?U * ?U + unat c2 mod ?U"
    "unat c1 mod ?U < ?U" "unat c2 mod ?U < ?U" by blast+
  have d: "unat (?b2 - ?b1) * ?U = unat c2 div ?U * ?U - unat c1 div ?U * ?U"
    using bl by (simp add: unat_sub_le ub diff_mult_distrib)
  then have "unat (?b2 - ?b1) * ?U < unat c2 - unat c1 + ?U" using q by linarith
  also have "\<dots> < (2 ^ 20 - 1) * ?U + ?U" using assms(6) by simp
  also have "\<dots> = 2 ^ 20 * ?U" by simp
  finally have "unat (?b2 - ?b1) < 2 ^ 20" by simp
  then have "unat (GetBytesDelta multi h2 h1) = unat (?b2 - ?b1) * ?U"
    using 1 2 nz bl m by (intro bytes_delta) (auto simp: IntHop_Set_def)
  moreover have "unat c2 - unat c1 < unat (?b2 - ?b1) * ?U + ?U"
    "unat (?b2 - ?b1) * ?U < unat c2 - unat c1 + ?U"
    using d q le by linarith+
  moreover have "GetTimeDelta h2 h1 = t2 - t1"
    using 1 2 nz by (intro time_delta[OF _ _ assms(3,5)]) (auto simp: IntHop_Set_def)
  moreover have "GetLineRate h2 = r2"
    using 2 nz assms(7) by (auto simp: IntHop_Set_def GetLineRate_def lineRateValues_def known_rate_def)
  ultimately show ?thesis using 1 2 assms(4) by (simp add: unat_sub_le)
qed

lemma int_deltas_exact_witness:
  "\<forall>h. \<exists>h1 h2. IntHop_Set 16 16777000 2147483000 0 25000000000 h = Some h1
     \<and> IntHop_Set 16 16778000 2147500000 9 100000000000 h = Some h2
     \<and> GetTimeDelta h2 h1 = 1000 \<and> GetLineRate h2 = 100000000000"
proof
  fix h
  have "known_rate 100000000000" by (simp add: known_rate_def)
  from int_deltas_exact[OF _ _ _ _ _ _ this, of 16 16777000 16778000 2147483000 2147500000 0 25000000000 h 9 h]
  show "\<exists>h1 h2. IntHop_Set 16 16777000 2147483000 0 25000000000 h = Some h1
     \<and> IntHop_Set 16 16778000 2147500000 9 100000000000 h = Some h2
     \<and> GetTimeDelta h2 h1 = 1000 \<and> GetLineRate h2 = 100000000000" by force
qed

end
