(* ===== verification/SwitchNode.thy ===== *)
theory SwitchNode
  imports CbMmu SwitchMmu CbTag IntHeader
begin

text \<open>
  The switch of dpdq-ns3, \<^verbatim>\<open>class SwitchNode\<close> of
  \<^verbatim>\<open>src/point-to-point/model/switch-node.{h,cc}\<close>: ECMP routing with a
  direction-independent hash for credit traffic, the credit-bouncing flow
  control with its phantom queue, queue selection, admission through the
  dedicated or the shared buffer manager, PFC, and the accounting on departure.
  What the node hands to its devices, its trace sources and the error stream is
  the list of outputs in its state; a device's answer to them is a later step.
  The clock, the random draw and indeterminate memory are arguments (Env).  None
  is a failed NS_ASSERT, a division by zero or a null dereference.
\<close>

section \<open>Packets\<close>

text \<open>The parsed headers: ports, class and sequence number are the members of the
  union that the protocol number selects (tcp, udp or ack), which share their
  storage.\<close>
record CustomHeader =
  l3Prot :: u8
  sip :: u32
  dip :: u32
  sport :: u16
  dport :: u16
  pg :: u16
  seq :: u32

text \<open>A packet: its size, the headers it carries (what PeekHeader parses), the ECN
  bits and telemetry in them, and its packet tags, at most one of a type.  p_flowId is
  FlowIdTag, the device of the switch the packet came in on; p_flowNum is FlowIDNUMTag,
  the number of its flow.\<close>
record NsPacket =
  p_size :: u32
  p_hdr :: CustomHeader
  p_ecn :: nat
  p_int :: IntHeader
  p_cbTag :: "CreditBouncerTag option"
  p_justBounced :: "bool option"
  p_flowId :: "u32 option"
  p_flowNum :: "u32 option"
  p_tlt :: "u8 option"

record Env =
  e_now :: u64
  e_random :: double
  e_raw :: u32
  e_debug :: bool

section \<open>State\<close>

datatype CreditBouncerFcState = CB_FCSTATE_NORMAL | CB_FCSTATE_PAUSE

record CreditBouncerPortState =
  m_fcState :: CreditBouncerFcState
  m_qpLenBytes :: u64
  m_qdLenBytes :: u64
  m_lastUpdateTimeNs :: u64
  m_xonBytes :: u64
  m_xoffBytes :: u64
  m_xecnBytes :: u64

text \<open>What the node reads of a device: whether it is a QbbNetDevice on a QbbChannel,
  whether the link is up, the PFC settings, rate, delay and queue length.\<close>
record QbbDevice =
  d_isQbb :: bool
  m_linkUp :: bool
  m_qbbEnabled :: bool
  m_pausetime :: u32
  d_bitRate :: u64
  d_delayNs :: u64
  d_queueBytes :: u32

text \<open>The global statistics counters the switch updates.\<close>
record stat_tx =
  txUimpBytes :: u64
  txImpBytes :: u64
  txImpEBytes :: u64
  txTltDropBytes :: u64
  importantDropBytes :: u64
  importantDropCnt :: u64
  PauseSendCnt :: u64

record cb_port_event =
  cp_event :: string
  cp_outDev :: nat
  cp_peer :: "nat option"
  cp_state :: CreditBouncerPortState
  cp_qp :: "u64 \<times> u64"
  cp_qd :: "u64 \<times> u64"
  cp_now :: "u64 \<times> u64 \<times> u64 \<times> u64 \<times> u64"
  cp_delta :: u64
  cp_packet :: NsPacket

datatype sn_output =
    OutBounce nat nat u64
  | OutFcState nat CreditBouncerFcState CreditBouncerFcState
  | OutPacketEvent nat u32 u32 u16 u16 nat bool
  | OutPfc nat nat u32
  | OutSend nat nat NsPacket CustomHeader
  | OutPortLog cb_port_event
  | OutRouteLog bool u32 nat
  | OutMapLog nat nat
  | OutDropLog string nat nat

record SwitchNode =
  m_id :: u32
  m_nDevices :: nat
  m_devices :: "QbbDevice tab"
  m_ecmpSeed :: u32
  m_rtTable :: "u32 \<rightharpoonup> nat list"
  m_bytes :: "nat \<Rightarrow> nat \<Rightarrow> nat \<Rightarrow> u32"
  m_txBytes :: "u64 tab"
  m_creditbouncerPortState :: "CreditBouncerPortState tab"
  m_ecnEnabled :: bool
  m_ccMode :: u32
  m_ackHighPrio :: u32
  m_creditbouncerSymmetricRouting :: bool
  m_creditbouncerRouteLog :: bool
  m_creditbouncerRouteMaxLogs :: u32
  m_creditbouncerRouteLogCount :: u32
  m_creditbouncerCBEnable :: bool
  m_creditbouncerCcEnable :: bool
  m_creditbouncerFcEnable :: bool
  m_creditbouncerXonBytes :: u64
  m_creditbouncerXoffBytes :: u64
  m_creditbouncerXecnBytes :: u64
  m_creditbouncerDynamicThreshold :: bool
  m_creditbouncerDynamicAlpha :: double
  m_creditbouncerDynamicOffDiffBytes :: u64
  m_creditbouncerDedicatedFcMarginBytes :: u64
  m_creditbouncerDedicatedXoffMarginBytes :: u64
  m_creditbouncerStateLog :: bool
  m_creditbouncerStateMaxLogs :: u32
  m_creditbouncerStateLogCount :: u32
  m_creditbouncerDedicatedMmuEnable :: bool
  m_creditbouncerDedicatedCreditQueueBytes :: u32
  m_creditbouncerDedicatedDataHeadroomBytes :: u32
  m_creditbouncerDedicatedDataGuaranteeBytes :: u32
  m_creditbouncerDedicatedDataEcnKminBytes :: u32
  m_creditbouncerDedicatedDataEcnKmaxBytes :: u32
  m_creditbouncerDedicatedDataEcnPmax :: double
  m_mmu :: SwitchMmu
  m_cbMmu :: SwitchCbMmu
  int_mode :: u32
  int_multi :: u32
  m_stat :: stat_tx
  m_out :: "sn_output list"

definition sn_qCnt :: nat where "sn_qCnt = 8"
definition sn_pCnt :: nat where "sn_pCnt = 128"

definition emit :: "sn_output \<Rightarrow> SwitchNode \<Rightarrow> SwitchNode" where
  "emit x n = n\<lparr>m_out := m_out n @ [x]\<rparr>"

definition upd_port :: "nat \<Rightarrow> (CreditBouncerPortState \<Rightarrow> CreditBouncerPortState) \<Rightarrow> SwitchNode \<Rightarrow> SwitchNode" where
  "upd_port d f n = n\<lparr>m_creditbouncerPortState :=
     (m_creditbouncerPortState n)(d := f (m_creditbouncerPortState n d))\<rparr>"

abbreviation port_state :: "SwitchNode \<Rightarrow> nat \<Rightarrow> CreditBouncerPortState" where
  "port_state \<equiv> m_creditbouncerPortState"

text \<open>The constructor and the attributes GetTypeId registers: the node as created,
  with its identifier, devices and the two buffer managers as arguments.\<close>
definition SwitchNode_initial ::
  "u32 \<Rightarrow> nat \<Rightarrow> QbbDevice tab \<Rightarrow> SwitchMmu \<Rightarrow> SwitchCbMmu \<Rightarrow> SwitchNode" where
  "SwitchNode_initial ident ndev devs mmu cbmmu =
    \<lparr>m_id = ident, m_nDevices = ndev, m_devices = devs, m_ecmpSeed = ident,
     m_rtTable = Map.empty, m_bytes = (\<lambda>_ _ _. 0), m_txBytes = (\<lambda>_. 0),
     m_creditbouncerPortState = (\<lambda>_.
       \<lparr>m_fcState = CB_FCSTATE_NORMAL, m_qpLenBytes = 0, m_qdLenBytes = 0, m_lastUpdateTimeNs = 0,
        m_xonBytes = 65536, m_xoffBytes = 131072, m_xecnBytes = 100 * 1024\<rparr>),
     m_ecnEnabled = False, m_ccMode = 0, m_ackHighPrio = 0,
     m_creditbouncerSymmetricRouting = True, m_creditbouncerRouteLog = False,
     m_creditbouncerRouteMaxLogs = 200, m_creditbouncerRouteLogCount = 0,
     m_creditbouncerCBEnable = True, m_creditbouncerCcEnable = True, m_creditbouncerFcEnable = True,
     m_creditbouncerXonBytes = 65536, m_creditbouncerXoffBytes = 131072,
     m_creditbouncerXecnBytes = 100 * 1024, m_creditbouncerDynamicThreshold = True,
     m_creditbouncerDynamicAlpha = dbl (625/10000), m_creditbouncerDynamicOffDiffBytes = 16,
     m_creditbouncerDedicatedFcMarginBytes = 3 * 1024,
     m_creditbouncerDedicatedXoffMarginBytes = 3 * 1024,
     m_creditbouncerStateLog = False, m_creditbouncerStateMaxLogs = 200,
     m_creditbouncerStateLogCount = 0, m_creditbouncerDedicatedMmuEnable = False,
     m_creditbouncerDedicatedCreditQueueBytes = 64 * 1024,
     m_creditbouncerDedicatedDataHeadroomBytes = 12500 + 2 * mmu_MTU,
     m_creditbouncerDedicatedDataGuaranteeBytes = 1048,
     m_creditbouncerDedicatedDataEcnKminBytes = 64 * 1024,
     m_creditbouncerDedicatedDataEcnKmaxBytes = 96 * 1024,
     m_creditbouncerDedicatedDataEcnPmax = 1, m_mmu = mmu, m_cbMmu = cbmmu,
     int_mode = 0, int_multi = 1,
     m_stat = \<lparr>txUimpBytes = 0, txImpBytes = 0, txImpEBytes = 0, txTltDropBytes = 0,
       importantDropBytes = 0, importantDropCnt = 0, PauseSendCnt = 0\<rparr>,
     m_out = []\<rparr>"

section \<open>Routing\<close>

definition AddTableEntry :: "u32 \<Rightarrow> nat \<Rightarrow> SwitchNode \<Rightarrow> SwitchNode" where
  "AddTableEntry dstAddr intf_idx n =
    (let ports = (case m_rtTable n dstAddr of None \<Rightarrow> [] | Some ps \<Rightarrow> ps);
         ports = (if intf_idx \<notin> set ports then ports @ [intf_idx] else ports)
     in n\<lparr>m_rtTable := (m_rtTable n)(dstAddr \<mapsto> sort ports)\<rparr>)"

definition ClearTable :: "SwitchNode \<Rightarrow> SwitchNode" where
  "ClearTable n = n\<lparr>m_rtTable := Map.empty\<rparr>"

definition SetEcmpSeed :: "u32 \<Rightarrow> SwitchNode \<Rightarrow> SwitchNode" where
  "SetEcmpSeed s n = n\<lparr>m_ecmpSeed := s\<rparr>"

text \<open>Murmur3 on a byte string; a 32-bit read of the key is little-endian.\<close>
definition ecmp_mix :: "u32 \<Rightarrow> u32" where
  "ecmp_mix k = (let k = k * 0xcc9e2d51; k = push_bit 15 k OR drop_bit 17 k in k * 0x1b873593)"

fun ecmp_blocks :: "u8 list \<Rightarrow> u32 \<Rightarrow> u8 list \<times> u32" where
  "ecmp_blocks (b0 # b1 # b2 # b3 # bs) h =
    (let h = h XOR ecmp_mix (join32 b0 b1 b2 b3);
         h = push_bit 13 h OR drop_bit 19 h
     in ecmp_blocks bs (h + (push_bit 2 h + 0xe6546b64)))"
| "ecmp_blocks bs h = (bs, h)"

definition EcmpHash :: "u8 list \<Rightarrow> u32 \<Rightarrow> u32" where
  "EcmpHash key seed =
    (let (rest, h) = ecmp_blocks key seed;
         h = (if rest \<noteq> [] then h XOR ecmp_mix (foldl (\<lambda>k b. push_bit 8 k OR ucast b) 0 (rev rest)) else h);
         h = h XOR word_of_nat (length key);
         h = h XOR drop_bit 16 h;
         h = h * 0x85ebca6b;
         h = h XOR drop_bit 13 h;
         h = h * 0xc2b2ae35
     in h XOR drop_bit 16 h)"

text \<open>The packed key: two addresses, two ports, class and sequence number.\<close>
definition hash_key :: "u32 \<Rightarrow> u32 \<Rightarrow> u16 \<Rightarrow> u16 \<Rightarrow> u16 \<Rightarrow> u32 \<Rightarrow> u8 list" where
  "hash_key firstIp secondIp firstPort secondPort cls number =
     bytes32 firstIp @ bytes32 secondIp @ bytes16 firstPort @ bytes16 secondPort @ bytes16 cls @ bytes32 number"

definition kCbSymmetricGlobalSeed :: u32 where "kCbSymmetricGlobalSeed = 0"

definition BuildCreditBouncerSymmetricHash :: "u32 \<Rightarrow> u32 \<Rightarrow> u16 \<Rightarrow> u16 \<Rightarrow> u16 \<Rightarrow> u32 \<Rightarrow> u32" where
  "BuildCreditBouncerSymmetricHash src dst srcPort dstPort cls number =
    (let swapEndpoints = src > dst \<or> (src = dst \<and> srcPort > dstPort)
     in EcmpHash (if swapEndpoints then hash_key dst src dstPort srcPort cls number
                  else hash_key src dst srcPort dstPort cls number) kCbSymmetricGlobalSeed)"

text \<open>A credit-bouncer tag that is there and not of type NONE.\<close>
definition cb_tag :: "NsPacket \<Rightarrow> CreditBouncerTag option" where
  "cb_tag p = (case p_cbTag p of None \<Rightarrow> None
     | Some t \<Rightarrow> if m_type t \<noteq> type_code CB_MSG_NONE then Some t else None)"

text \<open>Whether the code has taken a tuple from the header.\<close>
definition cbHasTuple :: "NsPacket \<Rightarrow> CustomHeader \<Rightarrow> bool" where
  "cbHasTuple p ch \<longleftrightarrow> cb_tag p \<noteq> None \<and> l3Prot ch \<in> {0x11, 0xFB, 0xFC, 0xFD}"

text \<open>Requests and the control messages whose two directions share a path.\<close>
definition symmetric_class :: "NsPacket \<Rightarrow> CustomHeader \<Rightarrow> bool" where
  "symmetric_class p ch \<longleftrightarrow>
    (case cb_tag p of None \<Rightarrow> False
     | Some t \<Rightarrow> (l3Prot ch = 0x11 \<and> IsRequest t)
        \<or> (l3Prot ch = 0xFB \<and> (IsGrant t \<or> IsRequest t \<or> IsBouncedCredit t)))"

definition count_route_log :: "bool \<Rightarrow> u32 \<Rightarrow> nat \<Rightarrow> SwitchNode \<Rightarrow> SwitchNode" where
  "count_route_log symmetric hash outDev n =
    (if m_creditbouncerRouteLog n \<and> m_creditbouncerRouteLogCount n < m_creditbouncerRouteMaxLogs n
     then emit (OutRouteLog symmetric hash outDev)
            (n\<lparr>m_creditbouncerRouteLogCount := m_creditbouncerRouteLogCount n + 1\<rparr>)
     else n)"

definition default_hash :: "Env \<Rightarrow> CustomHeader \<Rightarrow> SwitchNode \<Rightarrow> u32" where
  "default_hash env ch n =
     EcmpHash (bytes32 (sip ch) @ bytes32 (dip ch)
        @ bytes32 (if l3Prot ch \<in> {0x06, 0x11, 0xFC, 0xFD, 0xFB}
                   then ucast (sport ch) OR push_bit 16 (ucast (dport ch)) else e_raw env))
       (m_ecmpSeed n)"

text \<open>The result -1 is the inner None.\<close>
definition GetOutDev :: "Env \<Rightarrow> NsPacket \<Rightarrow> CustomHeader \<Rightarrow> SwitchNode \<Rightarrow> (nat option \<times> SwitchNode) option" where
  "GetOutDev env p ch n =
    (case m_rtTable n (dip ch) of
       None \<Rightarrow> Some (None, n)
     | Some nexthops \<Rightarrow>
         if nexthops = [] then None
         else if m_creditbouncerSymmetricRouting n \<and> cbHasTuple p ch \<and> symmetric_class p ch
         then let hash = BuildCreditBouncerSymmetricHash (sip ch) (dip ch) (sport ch) (dport ch) (pg ch) (seq ch);
                  outDev = nexthops ! (unat hash mod length nexthops)
              in Some (Some outDev, count_route_log True hash outDev n)
         else let hash = default_hash env ch n;
                  outDev = nexthops ! (unat hash mod length nexthops)
              in Some (Some outDev, if cbHasTuple p ch then count_route_log False hash outDev n else n))"

section \<open>Classification\<close>

definition IsCreditBouncerControlPacket :: "NsPacket \<Rightarrow> CustomHeader \<Rightarrow> bool" where
  "IsCreditBouncerControlPacket p ch \<longleftrightarrow> l3Prot ch = 0xFB \<and>
    (case p_cbTag p of None \<Rightarrow> False
     | Some t \<Rightarrow> IsGrant t \<or> IsGrantReq t \<or> IsBouncedCredit t \<or> IsResend t)"

definition IsCreditGrantPacket :: "NsPacket \<Rightarrow> CustomHeader \<Rightarrow> bool" where
  "IsCreditGrantPacket p ch \<longleftrightarrow> IsCreditBouncerControlPacket p ch
     \<and> (case p_cbTag p of None \<Rightarrow> False | Some t \<Rightarrow> IsGrant t)"

definition IsBouncedCreditPacket :: "NsPacket \<Rightarrow> CustomHeader \<Rightarrow> bool" where
  "IsBouncedCreditPacket p ch \<longleftrightarrow> IsCreditBouncerControlPacket p ch
     \<and> (case p_cbTag p of None \<Rightarrow> False | Some t \<Rightarrow> IsBouncedCredit t)"

definition IsSignalPacket :: "NsPacket \<Rightarrow> CustomHeader \<Rightarrow> bool" where
  "IsSignalPacket p ch \<longleftrightarrow> IsCreditBouncerControlPacket p ch
     \<and> (case p_cbTag p of None \<Rightarrow> False | Some t \<Rightarrow> IsGrantReq t \<or> IsResend t)"

definition IsUnscheduledDataPacket :: "NsPacket \<Rightarrow> CustomHeader \<Rightarrow> bool" where
  "IsUnscheduledDataPacket p ch \<longleftrightarrow> l3Prot ch = 0x11
     \<and> (case p_cbTag p of None \<Rightarrow> False | Some t \<Rightarrow> IsRequest t \<and> IsUnscheduledData t)"

definition IsDataPacket :: "CustomHeader \<Rightarrow> bool" where
  "IsDataPacket ch \<longleftrightarrow> l3Prot ch = 0x11 \<or> l3Prot ch = 0x06"

definition GetDedicatedCbQueueIndex :: "NsPacket \<Rightarrow> CustomHeader \<Rightarrow> SwitchNode \<Rightarrow> nat" where
  "GetDedicatedCbQueueIndex p ch n =
    (if l3Prot ch = 0xFF \<or> l3Prot ch = 0xFE then 0
     else if IsCreditBouncerControlPacket p ch then 0
     else if m_ackHighPrio n \<noteq> 0 \<and> (l3Prot ch = 0xFD \<or> l3Prot ch = 0xFC) then 0
     else 1)"

section \<open>The dedicated buffer manager\<close>

definition IsCreditBouncerDedicatedMmuEnabled :: "SwitchNode \<Rightarrow> bool" where
  "IsCreditBouncerDedicatedMmuEnabled n = m_creditbouncerDedicatedMmuEnable n"

definition upd_cbMmu :: "(SwitchCbMmu \<Rightarrow> SwitchCbMmu) \<Rightarrow> SwitchNode \<Rightarrow> SwitchNode" where
  "upd_cbMmu f n = n\<lparr>m_cbMmu := f (m_cbMmu n)\<rparr>"

definition upd_mmu :: "(SwitchMmu \<Rightarrow> SwitchMmu) \<Rightarrow> SwitchNode \<Rightarrow> SwitchNode" where
  "upd_mmu f n = n\<lparr>m_mmu := f (m_mmu n)\<rparr>"

definition activePortCnt :: "SwitchNode \<Rightarrow> u32" where
  "activePortCnt n = word_of_nat (if m_nDevices n > 0 then m_nDevices n - 1 else 0)"

definition sync_cbMmu :: "SwitchNode \<Rightarrow> SwitchCbMmu \<Rightarrow> SwitchCbMmu" where
  "sync_cbMmu n m =
    (let m = (if m_activePortCnt m \<noteq> activePortCnt n then SetActivePortCnt (activePortCnt n) m else m);
         m = SetNodeId (m_id n) m;
         m = SetCreditQueueLimitBytes (m_creditbouncerDedicatedCreditQueueBytes n) m;
         m = SetDefaultDataHeadroomBytes (m_creditbouncerDedicatedDataHeadroomBytes n) m;
         m = SetDefaultDataGuaranteeBytes (m_creditbouncerDedicatedDataGuaranteeBytes n) m;
         m = SetDataEcnKminBytes (m_creditbouncerDedicatedDataEcnKminBytes n) m;
         m = SetDataEcnKmaxBytes (m_creditbouncerDedicatedDataEcnKmaxBytes n) m;
         m = SetDataEcnPmax (m_creditbouncerDedicatedDataEcnPmax n) m
     in foldl (\<lambda>m port. if d_isQbb (m_devices n port)
                then ConfigDataHeadroomByBdp port (d_bitRate (m_devices n port)) (d_delayNs (m_devices n port)) m
                else m) m [1..<min (unat (activePortCnt n) + 1) sn_pCnt])"

definition SyncDedicatedCbMmuConfig :: "SwitchNode \<Rightarrow> SwitchNode" where
  "SyncDedicatedCbMmuConfig n =
    (if \<not> m_creditbouncerDedicatedMmuEnable n then n else upd_cbMmu (sync_cbMmu n) n)"

section \<open>Flow control\<close>

definition ShouldBounceCreditPacket :: "nat \<Rightarrow> nat \<Rightarrow> NsPacket \<Rightarrow> CustomHeader \<Rightarrow> SwitchNode \<Rightarrow> bool" where
  "ShouldBounceCreditPacket inDev outDev p ch n =
    (if \<not> (m_creditbouncerCBEnable n \<and> m_creditbouncerFcEnable n) then False
     else if inDev \<ge> sn_pCnt then False
     else if outDev \<ge> sn_pCnt then False
     else if \<not> IsCreditGrantPacket p ch then False
     else m_fcState (port_state n inDev) = CB_FCSTATE_PAUSE)"

text \<open>The share of the free pool that the dynamic threshold grants on top of the
  queue.\<close>
definition threshold_budget :: "SwitchNode \<Rightarrow> u64" where
  "threshold_budget n =
    (let dedicatedFcBs = ucast (GetDedicatedFcBsBytes (m_cbMmu n)) :: u64;
         totalQd = ucast (GetTotalDataQueueBytes (m_cbMmu n));
         avail = (if dedicatedFcBs > totalQd then dedicatedFcBs - totalQd else 0)
     in word_of_dbl (fmul (m_creditbouncerDynamicAlpha n) (dbl_of_word avail)))"

definition LogCBPortEvent ::
  "string \<Rightarrow> nat \<Rightarrow> NsPacket \<Rightarrow> u64 \<times> u64 \<Rightarrow> u64 \<times> u64 \<Rightarrow> u64 \<Rightarrow> nat option \<Rightarrow> SwitchNode \<Rightarrow> SwitchNode" where
  "LogCBPortEvent event outDev p before after deltaBytes peerDev n =
    (if \<not> m_creditbouncerStateLog n \<or> m_creditbouncerStateLogCount n \<ge> m_creditbouncerStateMaxLogs n then n
     else if outDev \<ge> sn_pCnt then n
     else let st = port_state n outDev;
              dedicated = IsCreditBouncerDedicatedMmuEnabled n;
              qdNow = (if dedicated then ucast (GetDataQueueBytes outDev (m_cbMmu n)) else m_qdLenBytes st);
              qcNow = (if dedicated then ucast (GetCreditQueueBytes outDev (m_cbMmu n)) else 0);
              compareNow = max (qdNow + qcNow) (m_qpLenBytes st);
              budget = (if dedicated \<and> m_creditbouncerDynamicThreshold n then threshold_budget n else 0)
          in emit (OutPortLog \<lparr>cp_event = event, cp_outDev = outDev, cp_peer = peerDev, cp_state = st,
                     cp_qp = (fst before, fst after), cp_qd = (snd before, snd after),
                     cp_now = (qcNow, qdNow, qdNow + qcNow, compareNow, budget),
                     cp_delta = deltaBytes, cp_packet = p\<rparr>)
               (n\<lparr>m_creditbouncerStateLogCount := m_creditbouncerStateLogCount n + 1\<rparr>))"

text \<open>The two queue lengths of a port, before and after, as the log wants them.\<close>
definition q_lens :: "nat \<Rightarrow> SwitchNode \<Rightarrow> u64 \<times> u64" where
  "q_lens d n = (m_qpLenBytes (port_state n d), m_qdLenBytes (port_state n d))"

definition MarkPacketAsBouncedCredit :: "NsPacket \<Rightarrow> NsPacket" where
  "MarkPacketAsBouncedCredit p =
    (case p_cbTag p of None \<Rightarrow> p
     | Some oldTag \<Rightarrow> if m_type oldTag = type_code CB_MSG_NONE then p
                     else p\<lparr>p_cbTag := Some (SetType CB_MSG_BOUNCED_CREDIT oldTag)\<rparr>)"

text \<open>The thresholds in force at a departure.\<close>
definition thresholds :: "nat \<Rightarrow> SwitchNode \<Rightarrow> u64 \<times> u64" where
  "thresholds outDev n =
    (if m_creditbouncerCBEnable n \<and> m_creditbouncerFcEnable n \<and> m_creditbouncerDynamicThreshold n
        \<and> IsCreditBouncerDedicatedMmuEnabled n
     then let qdQcLen = ucast (GetDataQueueBytes outDev (m_cbMmu n)) + ucast (GetCreditQueueBytes outDev (m_cbMmu n));
              xoffBase = qdQcLen + threshold_budget n;
              margin = m_creditbouncerDedicatedXoffMarginBytes n;
              headroom = m_creditbouncerDedicatedFcMarginBytes n;
              xoff = (if xoffBase > margin then xoffBase - margin else 0);
              xon = (if xoff > headroom then xoff - headroom else 0)
          in (xon, xoff)
     else (m_creditbouncerXonBytes n, m_creditbouncerXoffBytes n))"

text \<open>The length the thresholds are compared with.\<close>
definition compare_len :: "nat \<Rightarrow> SwitchNode \<Rightarrow> u64" where
  "compare_len outDev n =
    (let st = port_state n outDev in
     if IsCreditBouncerDedicatedMmuEnabled n
     then max (ucast (GetDataQueueBytes outDev (m_cbMmu n)) + ucast (GetCreditQueueBytes outDev (m_cbMmu n)))
              (m_qpLenBytes st)
     else max (m_qdLenBytes st) (m_qpLenBytes st))"

text \<open>The state machine; both modes run the same two tests one after the other.\<close>
definition fc_next :: "u64 \<Rightarrow> u64 \<Rightarrow> u64 \<Rightarrow> CreditBouncerFcState \<Rightarrow> CreditBouncerFcState" where
  "fc_next compareLen xon xoff st =
    (let st = (if compareLen > xoff \<and> st = CB_FCSTATE_NORMAL then CB_FCSTATE_PAUSE else st)
     in if compareLen < xon \<and> st = CB_FCSTATE_PAUSE then CB_FCSTATE_NORMAL else st)"

definition drop_to_zero :: "u64 \<Rightarrow> u64 \<Rightarrow> u64" where
  "drop_to_zero a b = (if a \<ge> b then a - b else 0)"

text \<open>The steps of UpdateCBPortStateOnTransmit, in order: thresholds and state
  machine, bounced credit leaving, phantom arrival, drain.\<close>
definition transmit_fc :: "nat \<Rightarrow> NsPacket \<Rightarrow> SwitchNode \<Rightarrow> SwitchNode" where
  "transmit_fc outDev p n =
    (let cbFcEnabled = m_creditbouncerCBEnable n \<and> m_creditbouncerFcEnable n;
         oldState = m_fcState (port_state n outDev);
         compareLen = compare_len outDev n;
         (xon, xoff) = thresholds outDev n;
         newState = (if cbFcEnabled then fc_next compareLen xon xoff oldState else oldState);
         n = upd_port outDev (\<lambda>s. s\<lparr>m_xonBytes := xon, m_xoffBytes := xoff,
               m_xecnBytes := m_creditbouncerXecnBytes n, m_fcState := newState\<rparr>) n
     in if cbFcEnabled \<and> newState \<noteq> oldState
        then LogCBPortEvent (if oldState = CB_FCSTATE_NORMAL then ''state_change_normal_to_pause''
                             else ''state_change_pause_to_normal'')
               outDev p (q_lens outDev n) (q_lens outDev n) compareLen None
               (emit (OutFcState outDev oldState newState) n)
        else n)"

definition transmit_bounced :: "nat \<Rightarrow> bool \<Rightarrow> NsPacket \<Rightarrow> CustomHeader \<Rightarrow> SwitchNode \<Rightarrow> SwitchNode" where
  "transmit_bounced outDev justBounced p ch n =
    (if m_creditbouncerCBEnable n \<and> m_creditbouncerFcEnable n \<and> IsBouncedCreditPacket p ch \<and> \<not> justBounced
     then case p_cbTag p of None \<Rightarrow> n
          | Some t \<Rightarrow>
              let bouncedCredit = ucast (m_creditBytes t);
                  before = q_lens outDev n;
                  n = upd_port outDev (\<lambda>s. s\<lparr>m_qpLenBytes :=
                        drop_to_zero (m_qpLenBytes s + ucast (p_size p)) bouncedCredit\<rparr>) n
              in LogCBPortEvent ''dequeue_bounced_credit'' outDev p before (q_lens outDev n) bouncedCredit None n
     else n)"

definition transmit_phantom :: "nat \<Rightarrow> NsPacket \<Rightarrow> CustomHeader \<Rightarrow> SwitchNode \<Rightarrow> SwitchNode" where
  "transmit_phantom outDev p ch n =
    (if IsUnscheduledDataPacket p ch \<or> IsCreditGrantPacket p ch \<or> IsSignalPacket p ch
     then let before = q_lens outDev n;
              n = upd_port outDev (\<lambda>s. s\<lparr>m_qpLenBytes := m_qpLenBytes s + ucast (p_size p)\<rparr>) n
          in LogCBPortEvent (if IsCreditGrantPacket p ch then ''phantom_enqueue_grant''
                             else if IsSignalPacket p ch then ''phantom_enqueue_signal''
                             else ''phantom_enqueue_unscheduled'')
               outDev p before (q_lens outDev n) (ucast (p_size p)) None n
     else n)"

definition drained_bytes :: "u64 \<Rightarrow> u64 \<Rightarrow> u64" where
  "drained_bytes intervalNs lineRateBps = (intervalNs * lineRateBps) div 8000000000"

definition transmit_drain :: "Env \<Rightarrow> nat \<Rightarrow> NsPacket \<Rightarrow> SwitchNode \<Rightarrow> SwitchNode" where
  "transmit_drain env outDev p n =
    (let st = port_state n outDev;
         n' = (if m_lastUpdateTimeNs st \<noteq> 0 \<and> e_now env > m_lastUpdateTimeNs st \<and> d_isQbb (m_devices n outDev)
               then let drained = drained_bytes (e_now env - m_lastUpdateTimeNs st) (d_bitRate (m_devices n outDev));
                        before = q_lens outDev n;
                        n1 = upd_port outDev (\<lambda>s. s\<lparr>m_qpLenBytes := drop_to_zero (m_qpLenBytes s) drained\<rparr>) n
                    in if m_qpLenBytes st \<noteq> m_qpLenBytes (port_state n1 outDev)
                       then LogCBPortEvent ''phantom_drain_estimate'' outDev p before (q_lens outDev n1) drained None n1
                       else n1
               else n)
     in upd_port outDev (\<lambda>s. s\<lparr>m_lastUpdateTimeNs := e_now env\<rparr>) n')"

definition UpdateCBPortStateOnTransmit ::
  "Env \<Rightarrow> nat \<Rightarrow> NsPacket \<Rightarrow> CustomHeader \<Rightarrow> SwitchNode \<Rightarrow> NsPacket \<times> SwitchNode" where
  "UpdateCBPortStateOnTransmit env outDev p ch n =
    (let cbCcEnabled = m_creditbouncerCBEnable n \<and> m_creditbouncerCcEnable n;
         cbFcEnabled = m_creditbouncerCBEnable n \<and> m_creditbouncerFcEnable n
     in if (\<not> cbCcEnabled \<and> \<not> cbFcEnabled) \<or> outDev \<ge> sn_pCnt then (p, n)
        else let justBounced = (p_justBounced p = Some True);
                 p = (if justBounced then p\<lparr>p_justBounced := None\<rparr> else p);
                 compareLen = compare_len outDev n;
                 n = transmit_fc outDev p n;
                 p = (if cbCcEnabled \<and> IsDataPacket ch \<and> compareLen > m_xecnBytes (port_state n outDev)
                      then p\<lparr>p_ecn := 3\<rparr> else p);
                 n = transmit_bounced outDev justBounced p ch n;
                 n = transmit_phantom outDev p ch n
             in (p, transmit_drain env outDev p n))"

section \<open>PFC\<close>

text \<open>QbbNetDevice::SendPfc: type 0 pauses, type 1 resumes; the result is the pause
  time.  A device that is not a QbbNetDevice is a null pointer here.\<close>
definition SendPfc :: "nat \<Rightarrow> nat \<Rightarrow> nat \<Rightarrow> SwitchNode \<Rightarrow> (u32 \<times> SwitchNode) option" where
  "SendPfc dev qIndex type n =
    (let d = m_devices n dev; time = (if type = 0 then m_pausetime d else 0) in
     if \<not> d_isQbb d then None
     else if \<not> m_qbbEnabled d then Some (0, n)
     else Some (time, emit (OutPfc dev qIndex time) n))"

definition set_pause_remote :: "nat \<Rightarrow> nat \<Rightarrow> bool \<Rightarrow> SwitchMmu \<Rightarrow> SwitchMmu" where
  "set_pause_remote inDev j b m = m\<lparr>m_pause_remote := upd2 (m_pause_remote m) inDev j b\<rparr>"

primrec pfc_pause :: "Env \<Rightarrow> nat \<Rightarrow> bool tab \<Rightarrow> nat list \<Rightarrow> SwitchNode \<Rightarrow> SwitchNode option" where
  "pfc_pause env inDev pClasses [] n = Some n"
| "pfc_pause env inDev pClasses (j # js) n =
    (if pClasses j
     then case SendPfc inDev j 0 n of None \<Rightarrow> None
          | Some (paused_time, n) \<Rightarrow>
              pfc_pause env inDev pClasses js
                (let n = upd_mmu (set_pause_remote inDev j True \<circ> SetPause (unat (e_now env)) inDev j paused_time) n
                 in if m_qbbEnabled (m_devices n inDev)
                    then n\<lparr>m_stat := (m_stat n)\<lparr>PauseSendCnt := PauseSendCnt (m_stat n) + 1\<rparr>\<rparr> else n)
     else pfc_pause env inDev pClasses js n)"

primrec pfc_resume :: "nat \<Rightarrow> nat list \<Rightarrow> SwitchNode \<Rightarrow> SwitchNode option" where
  "pfc_resume inDev [] n = Some n"
| "pfc_resume inDev (j # js) n =
    (if \<not> m_pause_remote (m_mmu n) inDev j then pfc_resume inDev js n
     else if GetResumeClasses inDev j (m_mmu n)
     then case SendPfc inDev j 1 n of None \<Rightarrow> None
          | Some (_, n) \<Rightarrow> pfc_resume inDev js (upd_mmu (set_pause_remote inDev j False \<circ> SetResume inDev j) n)
     else pfc_resume inDev js n)"

definition CheckAndSendPfc :: "Env \<Rightarrow> nat \<Rightarrow> nat \<Rightarrow> SwitchNode \<Rightarrow> SwitchNode option" where
  "CheckAndSendPfc env inDev qIndex n =
    (case pfc_pause env inDev (GetPauseClasses inDev qIndex (\<lambda>_. False) (m_mmu n)) [0..<sn_qCnt] n of
       None \<Rightarrow> None | Some n \<Rightarrow> pfc_resume inDev [0..<sn_qCnt] n)"

definition CheckAndSendResume :: "nat \<Rightarrow> nat \<Rightarrow> SwitchNode \<Rightarrow> SwitchNode option" where
  "CheckAndSendResume inDev qIndex n =
    (if GetResumeClasses inDev qIndex (m_mmu n)
     then case SendPfc inDev qIndex 1 n of None \<Rightarrow> None
          | Some (_, n) \<Rightarrow> Some (upd_mmu (SetResume inDev qIndex) n)
     else Some n)"

section \<open>Forwarding\<close>

definition emitCbPacketEvent :: "nat \<Rightarrow> bool \<Rightarrow> NsPacket \<Rightarrow> CustomHeader \<Rightarrow> SwitchNode \<Rightarrow> SwitchNode" where
  "emitCbPacketEvent outDev isDrop p ch n =
    (let isCredit = IsCreditBouncerControlPacket p ch;
         ports = (if l3Prot ch \<in> {0x11, 0x06, 0xFB, 0xFC, 0xFD} then (sport ch, dport ch) else (0, 0))
     in if \<not> isCredit \<and> \<not> IsDataPacket ch then n
        else emit (OutPacketEvent outDev (sip ch) (dip ch) (fst ports) (snd ports)
                     (if isCredit then 1 else 2) isDrop) n)"

text \<open>The tuple of the packet's own headers is swapped, in the packet and in ch.\<close>
definition swap_tuple :: "NsPacket \<Rightarrow> CustomHeader \<Rightarrow> NsPacket \<times> CustomHeader" where
  "swap_tuple p ch =
    (let h = p_hdr p in
     (p\<lparr>p_hdr := h\<lparr>sip := dip h, dip := sip h, sport := dport h, dport := sport h\<rparr>\<rparr>,
      ch\<lparr>sip := dip h, dip := sip h, sport := dport h, dport := sport h\<rparr>))"

text \<open>Either the grant is bounced, or the credit it grants is reserved, or neither:
  the packet, its header, the port it is forwarded to and the node.\<close>
definition bounce_or_reserve ::
  "nat \<Rightarrow> nat \<Rightarrow> NsPacket \<Rightarrow> CustomHeader \<Rightarrow> SwitchNode \<Rightarrow> NsPacket \<times> CustomHeader \<times> nat \<times> SwitchNode" where
  "bounce_or_reserve inDevHint idx p ch n =
    (if ShouldBounceCreditPacket inDevHint idx p ch n \<and> inDevHint < sn_pCnt \<and> inDevHint < m_nDevices n
     then let q = q_lens idx n;
              bouncedCreditBytes = (case p_cbTag p of None \<Rightarrow> 0 | Some t \<Rightarrow> ucast (m_creditBytes t));
              p = (MarkPacketAsBouncedCredit p)\<lparr>p_justBounced := Some True\<rparr>;
              n = emit (OutBounce inDevHint idx bouncedCreditBytes) n;
              (p, ch) = (if l3Prot ch = 0xFB then swap_tuple p ch else (p, ch))
          in (p, ch, inDevHint, LogCBPortEvent ''bounce_redirect'' idx p q q 0 (Some inDevHint) n)
     else if m_creditbouncerCBEnable n \<and> IsCreditGrantPacket p ch \<and> inDevHint < sn_pCnt
     then case p_cbTag p of None \<Rightarrow> (p, ch, idx, n)
          | Some t \<Rightarrow>
              let before = q_lens inDevHint n;
                  n = upd_port inDevHint (\<lambda>s. s\<lparr>m_qpLenBytes := m_qpLenBytes s + ucast (m_creditBytes t)\<rparr>) n
              in (p, ch, idx, LogCBPortEvent ''reserve_grant_credit'' inDevHint p before (q_lens inDevHint n)
                    (ucast (m_creditBytes t)) None n)
     else (p, ch, idx, n))"

definition select_queue :: "NsPacket \<Rightarrow> CustomHeader \<Rightarrow> SwitchNode \<Rightarrow> nat" where
  "select_queue p ch n =
    (if m_creditbouncerDedicatedMmuEnable n then GetDedicatedCbQueueIndex p ch n
     else if l3Prot ch = 0xFF \<or> l3Prot ch = 0xFE \<or> (m_ackHighPrio n \<noteq> 0 \<and> (l3Prot ch = 0xFD \<or> l3Prot ch = 0xFC))
     then 0
     else if l3Prot ch = 0x06 then 1
     else unat (pg ch))"

definition count_state_log :: "sn_output \<Rightarrow> SwitchNode \<Rightarrow> SwitchNode" where
  "count_state_log x n =
    (if m_creditbouncerStateLog n \<and> m_creditbouncerStateLogCount n < m_creditbouncerStateMaxLogs n
     then emit x (n\<lparr>m_creditbouncerStateLogCount := m_creditbouncerStateLogCount n + 1\<rparr>) else n)"

definition in_dev :: "NsPacket \<Rightarrow> nat \<Rightarrow> nat" where
  "in_dev p hint =
    (let inDev = (case p_flowId p of None \<Rightarrow> hint | Some f \<Rightarrow> unat f)
     in if inDev \<ge> sn_pCnt then hint else inDev)"

definition NOT_IMPORTANT :: u8 where "NOT_IMPORTANT = 0"

text \<open>The type a TLT tag has when none was found.\<close>
definition tlt_type :: "NsPacket \<Rightarrow> SwitchNode \<Rightarrow> u8" where
  "tlt_type p n = (if \<not> m_creditbouncerDedicatedMmuEnable n \<and> m_tlt (m_mmu n)
     then (case p_tlt p of None \<Rightarrow> NOT_IMPORTANT | Some t \<Rightarrow> t) else NOT_IMPORTANT)"

definition tlt_dropped :: "Env \<Rightarrow> nat \<Rightarrow> nat \<Rightarrow> NsPacket \<Rightarrow> SwitchNode \<Rightarrow> bool" where
  "tlt_dropped env idx qIndex p n \<longleftrightarrow>
     \<not> m_creditbouncerDedicatedMmuEnable n \<and> m_tlt (m_mmu n) \<and> p_tlt p = Some NOT_IMPORTANT
     \<and> \<not> CheckEgressTLT idx qIndex (p_size p) (e_random env) (m_mmu n)"

definition admit_dedicated :: "nat \<Rightarrow> nat \<Rightarrow> NsPacket \<Rightarrow> CustomHeader \<Rightarrow> SwitchNode \<Rightarrow> bool \<times> SwitchNode" where
  "admit_dedicated forwardIdx qIndex p ch n =
    (let n = SyncDedicatedCbMmuConfig n;
         (admitted, m) =
           (if qIndex = 0
            then case CheckCreditAdmission forwardIdx (p_size p) (m_cbMmu n) of
                   (a, m) \<Rightarrow> (a, if a then UpdateCreditAdmission forwardIdx (p_size p) m else m)
            else case CheckDataAdmission forwardIdx (p_size p) (m_cbMmu n) of
                   (a, m) \<Rightarrow> (a, if a then UpdateDataAdmission forwardIdx (p_size p) m else m));
         n = n\<lparr>m_cbMmu := m\<rparr>
     in if admitted then (True, n)
        else let n = emitCbPacketEvent forwardIdx True p ch n;
                 n = (if qIndex = 0 then emit (OutDropLog ''CBMMU_CREDIT_DROP'' forwardIdx qIndex) n else n)
             in (False, count_state_log (OutDropLog ''CBMMU_DROP'' forwardIdx qIndex) n))"

definition count_important :: "u8 \<Rightarrow> u32 \<Rightarrow> stat_tx \<Rightarrow> stat_tx" where
  "count_important t sz st =
    (if t = 1 \<or> t = 3 then st\<lparr>txImpBytes := txImpBytes st + ucast sz\<rparr>
     else if t = 2 \<or> t = 4 then st\<lparr>txImpEBytes := txImpEBytes st + ucast sz\<rparr>
     else st\<lparr>txUimpBytes := txUimpBytes st + ucast sz\<rparr>)"

definition charge_shared :: "nat \<Rightarrow> nat \<Rightarrow> nat \<Rightarrow> NsPacket \<Rightarrow> SwitchNode \<Rightarrow> SwitchNode" where
  "charge_shared inDev forwardIdx qIndex p n =
    (let sz = p_size p;
         n = upd_mmu (UpdateEgressAdmission forwardIdx qIndex sz \<circ> UpdateIngressAdmission inDev qIndex sz) n
     in if m_tlt (m_mmu n)
        then let n = (if tlt_type p n = NOT_IMPORTANT
                      then upd_mmu (UpdateEgressTLT forwardIdx qIndex sz \<circ> UpdateIngressTLT inDev qIndex sz) n
                      else n)
             in n\<lparr>m_stat := count_important (tlt_type p n) sz (m_stat n)\<rparr>
        else n)"

text \<open>The two checks; the second is not made when the first says no.\<close>
definition check_shared :: "Env \<Rightarrow> nat \<Rightarrow> nat \<Rightarrow> nat \<Rightarrow> NsPacket \<Rightarrow> SwitchNode \<Rightarrow> bool option" where
  "check_shared env inDev forwardIdx qIndex p n =
    (case CheckIngressAdmission (e_debug env) inDev qIndex (p_size p) (m_mmu n) of
       None \<Rightarrow> None | Some False \<Rightarrow> Some False
     | Some True \<Rightarrow> CheckEgressAdmission (e_debug env) forwardIdx qIndex (p_size p) (m_mmu n))"

definition admit_shared ::
  "Env \<Rightarrow> nat \<Rightarrow> nat \<Rightarrow> nat \<Rightarrow> bool \<Rightarrow> NsPacket \<Rightarrow> CustomHeader \<Rightarrow> SwitchNode \<Rightarrow> (bool \<times> SwitchNode) option" where
  "admit_shared env inDev forwardIdx qIndex tlt_drop p ch n =
    (if qIndex = 0 then Some (True, n)
     else if tlt_drop then Some (False, emitCbPacketEvent forwardIdx True p ch n)
     else case check_shared env inDev forwardIdx qIndex p n of
            None \<Rightarrow> None
          | Some True \<Rightarrow>
              (case CheckAndSendPfc env inDev qIndex (charge_shared inDev forwardIdx qIndex p n) of
                 None \<Rightarrow> None | Some n \<Rightarrow> Some (True, n))
          | Some False \<Rightarrow>
              (let n = emitCbPacketEvent forwardIdx True p ch n;
                   n = (if m_tlt (m_mmu n) \<and> tlt_type p n \<noteq> NOT_IMPORTANT
                        then n\<lparr>m_stat := (m_stat n)\<lparr>importantDropBytes := importantDropBytes (m_stat n) + ucast (p_size p),
                               importantDropCnt := importantDropCnt (m_stat n) + 1\<rparr>\<rparr> else n)
               in Some (False, n)))"

text \<open>An admitted packet is counted and handed to the device.\<close>
definition hand_over :: "nat \<Rightarrow> nat \<Rightarrow> nat \<Rightarrow> NsPacket \<Rightarrow> CustomHeader \<Rightarrow> SwitchNode \<Rightarrow> SwitchNode" where
  "hand_over inDev forwardIdx qIndex p ch n =
    (let n = emitCbPacketEvent forwardIdx False p ch n;
         n = (if m_creditbouncerCBEnable n \<and> forwardIdx < sn_pCnt \<and> IsDataPacket ch
              then let before = q_lens forwardIdx n;
                       n = upd_port forwardIdx (\<lambda>s. s\<lparr>m_qdLenBytes := m_qdLenBytes s + ucast (p_size p)\<rparr>) n
                   in LogCBPortEvent ''enqueue_data_physical'' forwardIdx p before (q_lens forwardIdx n)
                        (ucast (p_size p)) (Some inDev) n
              else n);
         n = n\<lparr>m_bytes := (m_bytes n)(inDev := upd2 (m_bytes n inDev) forwardIdx qIndex
                (m_bytes n inDev forwardIdx qIndex + p_size p))\<rparr>
     in emit (OutSend forwardIdx qIndex p ch) n)"

definition SendToDev :: "Env \<Rightarrow> NsPacket \<Rightarrow> CustomHeader \<Rightarrow> nat \<Rightarrow> SwitchNode \<Rightarrow> SwitchNode option" where
  "SendToDev env p ch inDevHint n =
    (case GetOutDev env p ch n of
       None \<Rightarrow> None
     | Some (None, n) \<Rightarrow> Some n
     | Some (Some idx, n) \<Rightarrow>
        (let (p, ch, forwardIdx, n) = bounce_or_reserve inDevHint idx p ch n in
         if e_debug env \<and> \<not> m_linkUp (m_devices n forwardIdx) then None
         else let qIndex = select_queue p ch n;
                  n = (if m_creditbouncerDedicatedMmuEnable n
                       then count_state_log (OutMapLog forwardIdx qIndex) n else n);
                  tlt_drop = tlt_dropped env idx qIndex p n;
                  n = (if tlt_drop
                       then n\<lparr>m_stat := (m_stat n)\<lparr>txTltDropBytes := txTltDropBytes (m_stat n) + ucast (p_size p)\<rparr>\<rparr>
                       else n);
                  inDev = in_dev p inDevHint
              in case (if m_creditbouncerDedicatedMmuEnable n then Some (admit_dedicated forwardIdx qIndex p ch n)
                       else admit_shared env inDev forwardIdx qIndex tlt_drop p ch n) of
                   None \<Rightarrow> None
                 | Some (False, n) \<Rightarrow> Some n
                 | Some (True, n) \<Rightarrow> Some (hand_over inDev forwardIdx qIndex p ch n)))"

definition SwitchReceiveFromDevice :: "Env \<Rightarrow> nat option \<Rightarrow> NsPacket \<Rightarrow> CustomHeader \<Rightarrow> SwitchNode \<Rightarrow> SwitchNode option" where
  "SwitchReceiveFromDevice env device p ch n =
     SendToDev env p ch (case device of None \<Rightarrow> 0 | Some ifIndex \<Rightarrow> ifIndex) n"

section \<open>Departure\<close>

definition release_qd :: "nat \<Rightarrow> nat \<Rightarrow> NsPacket \<Rightarrow> CustomHeader \<Rightarrow> SwitchNode \<Rightarrow> SwitchNode" where
  "release_qd ifIndex inDev p ch n =
    (if m_creditbouncerCBEnable n \<and> ifIndex < sn_pCnt \<and> IsDataPacket ch
     then let before = q_lens ifIndex n;
              n = upd_port ifIndex (\<lambda>s. s\<lparr>m_qdLenBytes := drop_to_zero (m_qdLenBytes s) (ucast (p_size p))\<rparr>) n
          in LogCBPortEvent ''dequeue_data_physical'' ifIndex p before (q_lens ifIndex n)
               (ucast (p_size p)) (Some inDev) n
     else n)"

definition set_bytes :: "nat \<Rightarrow> nat \<Rightarrow> nat \<Rightarrow> u32 \<Rightarrow> SwitchNode \<Rightarrow> SwitchNode" where
  "set_bytes i j q v n = n\<lparr>m_bytes := (m_bytes n)(i := upd2 (m_bytes n i) j q v)\<rparr>"

definition notify_dedicated :: "nat \<Rightarrow> nat \<Rightarrow> NsPacket \<Rightarrow> CustomHeader \<Rightarrow> SwitchNode \<Rightarrow> SwitchNode" where
  "notify_dedicated ifIndex qIndex p ch n =
    (let inDev = in_dev p ifIndex;
         b = m_bytes n inDev ifIndex qIndex;
         n = set_bytes inDev ifIndex qIndex (if b \<ge> p_size p then b - p_size p else 0) n
     in if qIndex = 0 then upd_cbMmu (RemoveCreditAdmission ifIndex (p_size p)) n
        else release_qd ifIndex inDev p ch (upd_cbMmu (RemoveDataAdmission ifIndex (p_size p)) n))"

definition notify_shared ::
  "Env \<Rightarrow> nat \<Rightarrow> nat \<Rightarrow> NsPacket \<Rightarrow> CustomHeader \<Rightarrow> SwitchNode \<Rightarrow> (NsPacket \<times> SwitchNode) option" where
  "notify_shared env ifIndex qIndex p ch n =
    (let inDev = in_dev p ifIndex; sz = p_size p;
         n = upd_mmu (RemoveFromEgressAdmission ifIndex qIndex sz \<circ> RemoveFromIngressAdmission inDev qIndex sz) n;
         n = (if m_tlt (m_mmu n) \<and> p_tlt p = Some NOT_IMPORTANT
              then upd_mmu (RemoveFromEgressTLT ifIndex qIndex sz \<circ> RemoveFromIngressTLT inDev qIndex sz) n else n);
         n = set_bytes inDev ifIndex qIndex (m_bytes n inDev ifIndex qIndex - sz) n;
         n = release_qd ifIndex inDev p ch n;
         p = (if m_ecnEnabled n \<and> ShouldSendCN ifIndex qIndex (e_random env) (m_mmu n) then p\<lparr>p_ecn := 3\<rparr> else p)
     in case CheckAndSendResume inDev qIndex n of None \<Rightarrow> None | Some n \<Rightarrow> Some (p, n))"

definition push_telemetry :: "Env \<Rightarrow> nat \<Rightarrow> NsPacket \<Rightarrow> SwitchNode \<Rightarrow> NsPacket option" where
  "push_telemetry env ifIndex p n =
    (if l3Prot (p_hdr p) = 0x11 \<and> m_ccMode n = 3
     then if \<not> d_isQbb (m_devices n ifIndex) then None
          else case PushHop (int_mode n) (int_multi n) (e_now env) (m_txBytes n ifIndex)
                      (d_queueBytes (m_devices n ifIndex)) (d_bitRate (m_devices n ifIndex)) (p_int p) of
                 None \<Rightarrow> None | Some ih \<Rightarrow> Some (p\<lparr>p_int := ih\<rparr>)
     else Some p)"

definition SwitchNotifyDequeue :: "Env \<Rightarrow> nat \<Rightarrow> nat \<Rightarrow> NsPacket \<Rightarrow> SwitchNode \<Rightarrow> (NsPacket \<times> SwitchNode) option" where
  "SwitchNotifyDequeue env ifIndex qIndex p n =
    (let ch = p_hdr p in
     case (if m_creditbouncerDedicatedMmuEnable n then Some (p, notify_dedicated ifIndex qIndex p ch n)
           else if qIndex \<noteq> 0 then notify_shared env ifIndex qIndex p ch n
           else Some (p, n)) of
       None \<Rightarrow> None
     | Some (p, n) \<Rightarrow>
        (let (p, n) = UpdateCBPortStateOnTransmit env ifIndex p ch n in
         case push_telemetry env ifIndex p n of None \<Rightarrow> None
         | Some p \<Rightarrow> Some (p, n\<lparr>m_txBytes := (m_txBytes n)(ifIndex := m_txBytes n ifIndex + ucast (p_size p))\<rparr>)))"

end
