(* ===== verification/SwitchFlow.thy ===== *)
theory SwitchFlow
  imports SwitchNode
begin

text \<open>
  Properties of the switch: routing is the same in both directions of a credit
  flow, the flow control is a hysteresis on the compared length, a grant is
  bounced exactly on a paused ingress, the phantom queue follows its formula,
  and with the dedicated buffer manager every counter is the number of bytes in
  the queue it counts.
\<close>

section \<open>What an operation leaves alone\<close>

definition sends :: "sn_output list \<Rightarrow> (nat \<times> nat \<times> NsPacket \<times> CustomHeader) list" where
  "sends xs = List.map_filter (\<lambda>x. case x of OutSend d q p ch \<Rightarrow> Some (d, q, p, ch) | _ \<Rightarrow> None) xs"

lemma sends_simps [simp]:
  "sends [] = []" "sends (xs @ ys) = sends xs @ sends ys" "sends [OutSend d q p ch] = [(d, q, p, ch)]"
  "sends [OutBounce a b cr] = []" "sends [OutFcState a s t] = []" "sends [OutPortLog e] = []"
  "sends [OutPacketEvent a ad bd x y k g] = []" "sends [OutRouteLog sy ha k] = []" "sends [OutMapLog a b] = []"
  "sends [OutDropLog na a b] = []" "sends [OutPfc a b ti] = []"
  by (simp_all add: sends_def List.map_filter_def)

text \<open>The node without the parts that traffic changes.\<close>
definition settings :: "SwitchNode \<Rightarrow> SwitchNode" where
  "settings n = n\<lparr>m_bytes := (\<lambda>_ _ _. 0), m_txBytes := (\<lambda>_. 0),
     m_creditbouncerPortState := (\<lambda>_. undefined), m_creditbouncerRouteLogCount := 0,
     m_creditbouncerStateLogCount := 0, m_mmu := undefined, m_cbMmu := undefined,
     m_stat := undefined, m_out := []\<rparr>"

lemma settings_sel:
  assumes "settings n = settings n'"
  shows "m_nDevices n = m_nDevices n'" "m_devices n = m_devices n'" "m_rtTable n = m_rtTable n'"
    "m_id n = m_id n'" "m_creditbouncerCBEnable n = m_creditbouncerCBEnable n'"
    "m_creditbouncerFcEnable n = m_creditbouncerFcEnable n'"
    "m_creditbouncerCcEnable n = m_creditbouncerCcEnable n'"
    "m_creditbouncerDedicatedMmuEnable n = m_creditbouncerDedicatedMmuEnable n'"
    "m_creditbouncerDedicatedCreditQueueBytes n = m_creditbouncerDedicatedCreditQueueBytes n'"
    "m_ackHighPrio n = m_ackHighPrio n'"
proof -
  show "m_nDevices n = m_nDevices n'" using arg_cong[OF assms, of m_nDevices] by (simp add: settings_def)
  show "m_devices n = m_devices n'" using arg_cong[OF assms, of m_devices] by (simp add: settings_def)
  show "m_rtTable n = m_rtTable n'" using arg_cong[OF assms, of m_rtTable] by (simp add: settings_def)
  show "m_id n = m_id n'" using arg_cong[OF assms, of m_id] by (simp add: settings_def)
  show "m_creditbouncerCBEnable n = m_creditbouncerCBEnable n'"
    using arg_cong[OF assms, of m_creditbouncerCBEnable] by (simp add: settings_def)
  show "m_creditbouncerFcEnable n = m_creditbouncerFcEnable n'"
    using arg_cong[OF assms, of m_creditbouncerFcEnable] by (simp add: settings_def)
  show "m_creditbouncerCcEnable n = m_creditbouncerCcEnable n'"
    using arg_cong[OF assms, of m_creditbouncerCcEnable] by (simp add: settings_def)
  show "m_creditbouncerDedicatedMmuEnable n = m_creditbouncerDedicatedMmuEnable n'"
    using arg_cong[OF assms, of m_creditbouncerDedicatedMmuEnable] by (simp add: settings_def)
  show "m_creditbouncerDedicatedCreditQueueBytes n = m_creditbouncerDedicatedCreditQueueBytes n'"
    using arg_cong[OF assms, of m_creditbouncerDedicatedCreditQueueBytes] by (simp add: settings_def)
  show "m_ackHighPrio n = m_ackHighPrio n'" using arg_cong[OF assms, of m_ackHighPrio] by (simp add: settings_def)
qed

lemma emit_sel [simp]:
  "settings (emit x n) = settings n" "port_state (emit x n) = port_state n" "m_cbMmu (emit x n) = m_cbMmu n"
  "m_out (emit x n) = m_out n @ [x]" "m_mmu (emit x n) = m_mmu n"
  by (simp_all add: emit_def settings_def)

lemma upd_port_sel [simp]:
  "settings (upd_port d f n) = settings n" "m_cbMmu (upd_port d f n) = m_cbMmu n"
  "m_out (upd_port d f n) = m_out n" "m_mmu (upd_port d f n) = m_mmu n"
  "port_state (upd_port d f n) = (port_state n)(d := f (port_state n d))"
  by (simp_all add: upd_port_def settings_def)

lemma LogCBPortEvent_sel [simp]:
  "settings (LogCBPortEvent a b c d e f g n) = settings n"
  "port_state (LogCBPortEvent a b c d e f g n) = port_state n"
  "m_cbMmu (LogCBPortEvent a b c d e f g n) = m_cbMmu n"
  "sends (m_out (LogCBPortEvent a b c d e f g n)) = sends (m_out n)"
  by (simp_all add: LogCBPortEvent_def Let_def emit_def settings_def)

lemma count_logs_sel [simp]:
  "settings (count_route_log a b c n) = settings n" "port_state (count_route_log a b c n) = port_state n"
  "m_cbMmu (count_route_log a b c n) = m_cbMmu n" "sends (m_out (count_route_log a b c n)) = sends (m_out n)"
  "settings (count_state_log x n) = settings n" "port_state (count_state_log x n) = port_state n"
  "m_cbMmu (count_state_log x n) = m_cbMmu n"
  "sends [x] = [] \<Longrightarrow> sends (m_out (count_state_log x n)) = sends (m_out n)"
  by (simp_all add: count_route_log_def count_state_log_def emit_def settings_def)

lemma emitCbPacketEvent_sel [simp]:
  "settings (emitCbPacketEvent d b p ch n) = settings n"
  "port_state (emitCbPacketEvent d b p ch n) = port_state n"
  "m_cbMmu (emitCbPacketEvent d b p ch n) = m_cbMmu n"
  "sends (m_out (emitCbPacketEvent d b p ch n)) = sends (m_out n)"
  by (simp_all add: emitCbPacketEvent_def Let_def)

section \<open>Routing\<close>

lemma hash_symmetric:
  "BuildCreditBouncerSymmetricHash a b x y c s = BuildCreditBouncerSymmetricHash b a y x c s"
  by (cases "a = b"; cases "x = y")
    (auto simp: BuildCreditBouncerSymmetricHash_def Let_def dest: less_asym not_less_iff_gr_or_eq[THEN iffD1])

lemma symmetric_class_tuple: "symmetric_class p ch \<Longrightarrow> cbHasTuple p ch"
  by (auto simp: symmetric_class_def cbHasTuple_def split: option.splits)

text \<open>What reconfigures the routing table, and the sets of ports it stands for.\<close>
datatype rt_op = RtAdd u32 nat | RtClear

fun rt_step :: "rt_op \<Rightarrow> SwitchNode \<Rightarrow> SwitchNode" where
  "rt_step (RtAdd a i) n = AddTableEntry a i n"
| "rt_step RtClear n = ClearTable n"

fun rt_spec :: "rt_op \<Rightarrow> (u32 \<Rightarrow> nat set) \<Rightarrow> u32 \<Rightarrow> nat set" where
  "rt_spec (RtAdd a i) S = S(a := insert i (S a))"
| "rt_spec RtClear S = (\<lambda>_. {})"

text \<open>A table entry is the sorted list of a set of ports.\<close>
definition table_of :: "(u32 \<Rightarrow> nat set) \<Rightarrow> u32 \<rightharpoonup> nat list" where
  "table_of S a = (if S a = {} then None else Some (sorted_list_of_set (S a)))"

lemma sort_insert:
  assumes "distinct xs"
  shows "sort (if i \<notin> set xs then xs @ [i] else xs) = sorted_list_of_set (insert i (set xs))"
proof (cases "i \<in> set xs")
  case True
  then show ?thesis using assms
    by (simp add: insert_absorb sorted_list_of_set_sort_remdups distinct_remdups_id)
next
  case False
  then have "sorted_list_of_set (set (xs @ [i])) = sort (xs @ [i])"
    using assms by (subst sorted_list_of_set_sort_remdups) (simp add: distinct_remdups_id)
  then show ?thesis using False by simp
qed

lemma AddTableEntry_table:
  assumes "\<And>a. finite (S a)" "m_rtTable n = table_of S"
  shows "m_rtTable (AddTableEntry a i n) = table_of (S(a := insert i (S a)))"
proof -
  define ps where "ps = (case m_rtTable n a of None \<Rightarrow> [] | Some ps \<Rightarrow> ps)"
  have "ps = sorted_list_of_set (S a)" by (simp add: ps_def assms(2) table_of_def)
  then have "distinct ps" "set ps = S a" using assms(1) by simp_all
  then have "sort (if i \<notin> set ps then ps @ [i] else ps) = sorted_list_of_set (insert i (S a))"
    using sort_insert[of ps i] by simp
  moreover have "AddTableEntry a i n = n\<lparr>m_rtTable := (m_rtTable n)(a \<mapsto> sort (if i \<notin> set ps then ps @ [i] else ps))\<rparr>"
    by (simp only: AddTableEntry_def Let_def ps_def[symmetric])
  ultimately have "m_rtTable (AddTableEntry a i n) = (table_of S)(a \<mapsto> sorted_list_of_set (insert i (S a)))"
    using assms(2) by simp
  then show ?thesis by (auto simp: table_of_def fun_eq_iff)
qed

lemma rt_run_table:
  assumes "\<And>a. finite (S a)" "m_rtTable n = table_of S"
  shows "m_rtTable (fold rt_step ops n) = table_of (fold rt_spec ops S)
     \<and> (\<forall>a. finite (fold rt_spec ops S a))"
  using assms
proof (induction ops arbitrary: n S)
  case (Cons op ops)
  have "m_rtTable (rt_step op n) = table_of (rt_spec op S) \<and> (\<forall>a. finite (rt_spec op S a))"
    using Cons.prems AddTableEntry_table[OF Cons.prems]
    by (cases op) (auto simp: ClearTable_def table_of_def fun_eq_iff)
  then show ?case using Cons.IH[of "rt_spec op S" "rt_step op n"] by simp
qed simp

lemma GetOutDev_table:
  assumes "m_rtTable n (dip ch) = Some hops" "hops \<noteq> []"
  shows "\<exists>k<length hops. \<exists>m. GetOutDev env p ch n = Some (Some (hops ! k), m)"
proof -
  have "hops ! (x mod length hops) \<in> set hops" for x using assms(2) by (intro nth_mem mod_less_divisor) simp
  then have "\<exists>k<length hops. hops ! (x mod length hops) = hops ! k" for x
    by (metis in_set_conv_nth)
  then show ?thesis using assms by (simp add: GetOutDev_def Let_def)
qed

text \<open>The routing table is the sorted list of exactly the ports added for an
  address since the table was last cleared, without duplicates and never an empty
  entry, so that looking up a port never divides by zero, drops exactly the
  addresses nothing was added for, and otherwise answers one of the added ports.\<close>
theorem routing_table_exact:
  "m_rtTable (fold rt_step ops (SwitchNode_initial ident nd devs mmu cb)) = table_of (fold rt_spec ops (\<lambda>_. {}))
   \<and> (\<forall>env p ch. case GetOutDev env p ch (fold rt_step ops (SwitchNode_initial ident nd devs mmu cb)) of
        None \<Rightarrow> False
      | Some (None, n) \<Rightarrow> fold rt_spec ops (\<lambda>_. {}) (dip ch) = {}
      | Some (Some i, n) \<Rightarrow> i \<in> fold rt_spec ops (\<lambda>_. {}) (dip ch))"
proof -
  let ?n = "fold rt_step ops (SwitchNode_initial ident nd devs mmu cb)" and ?S = "fold rt_spec ops (\<lambda>_. {})"
  have t: "m_rtTable ?n = table_of ?S" and f: "finite (?S a)" for a
    using rt_run_table[of "\<lambda>_. {}" "SwitchNode_initial ident nd devs mmu cb" ops]
    by (simp_all add: SwitchNode_initial_def table_of_def fun_eq_iff)
  have "case GetOutDev env p ch ?n of None \<Rightarrow> False | Some (None, n) \<Rightarrow> ?S (dip ch) = {}
      | Some (Some i, n) \<Rightarrow> i \<in> ?S (dip ch)" for env p ch
  proof (cases "?S (dip ch) = {}")
    case True
    then show ?thesis by (simp add: GetOutDev_def t table_of_def)
  next
    case False
    let ?hops = "sorted_list_of_set (?S (dip ch))"
    have h: "set ?hops = ?S (dip ch)" using f by simp
    then have "?hops \<noteq> []" using False by (metis empty_set)
    then obtain k m where "k < length ?hops" "GetOutDev env p ch ?n = Some (Some (?hops ! k), m)"
      using GetOutDev_table[of ?n ch ?hops env p] False by (auto simp: t table_of_def)
    then show ?thesis using nth_mem[of k ?hops] h by simp
  qed
  then show ?thesis using t by blast
qed

text \<open>C37: A credit flow takes the same path both ways: for two packets of the
  symmetric class with swapped endpoints and the same class and sequence number,
  any two switches that route symmetrically choose the same position among
  equally many next hops, whatever their ECMP seeds and whatever else they hold.\<close>
theorem cb_route_symmetric:
  assumes "m_creditbouncerSymmetricRouting n" "m_creditbouncerSymmetricRouting n'"
    and "symmetric_class p ch" "symmetric_class p' ch'"
    and "sip ch' = dip ch" "dip ch' = sip ch" "sport ch' = dport ch" "dport ch' = sport ch"
    and "pg ch' = pg ch" "seq ch' = seq ch"
    and "m_rtTable n (dip ch) = Some hops" "m_rtTable n' (dip ch') = Some hops'"
    and "hops \<noteq> []" "length hops' = length hops"
  shows "\<exists>k<length hops. (\<exists>m. GetOutDev env p ch n = Some (Some (hops ! k), m))
     \<and> (\<exists>m'. GetOutDev env' p' ch' n' = Some (Some (hops' ! k), m'))"
proof -
  let ?h = "BuildCreditBouncerSymmetricHash (sip ch) (dip ch) (sport ch) (dport ch) (pg ch) (seq ch)"
  have h: "BuildCreditBouncerSymmetricHash (sip ch') (dip ch') (sport ch') (dport ch') (pg ch') (seq ch') = ?h"
    unfolding assms(5-10) by (rule hash_symmetric)
  have ne: "hops' \<noteq> []" using assms(13,14) by auto
  have 1: "\<exists>m. GetOutDev env p ch n = Some (Some (hops ! (unat ?h mod length hops)), m)"
    using assms(1,3,11,13) symmetric_class_tuple[OF assms(3)] by (simp add: GetOutDev_def Let_def)
  have 2: "\<exists>m. GetOutDev env' p' ch' n' = Some (Some (hops' ! (unat ?h mod length hops')), m)"
    using assms(2,4,12) ne symmetric_class_tuple[OF assms(4)] by (simp add: GetOutDev_def Let_def h)
  have "unat ?h mod length hops < length hops" using assms(13) by simp
  then show ?thesis using 1 2 unfolding assms(14) by blast
qed

text \<open>A grant and the data it lets through.\<close>
definition grant_packet :: NsPacket where
  "grant_packet = \<lparr>p_size = 84, p_hdr = \<lparr>l3Prot = 0xFB, sip = 0x0b000101, dip = 0x0b000201,
     sport = 100, dport = 10000, pg = 3, seq = 0\<rparr>, p_ecn = 0,
     p_int = \<lparr>hop = (\<lambda>_. \<lparr>lineRate = 0, hop_time = 0, hop_bytes = 0, hop_qlen = 0\<rparr>), nhop = 0, ih_ts = 0\<rparr>,
     p_cbTag = Some (CreditBouncerTag_ctor CB_MSG_GRANT 0 1538 False True CB_DATA_CLASS_NONE 0 0 False 0 0 0),
     p_justBounced = None, p_flowId = Some 2, p_flowNum = None, p_tlt = None\<rparr>"

definition data_packet :: NsPacket where
  "data_packet = grant_packet\<lparr>p_size := 1048, p_hdr := \<lparr>l3Prot = 0x11, sip = 0x0b000201, dip = 0x0b000101,
     sport = 10000, dport = 100, pg = 3, seq = 0\<rparr>,
     p_cbTag := Some (CreditBouncerTag_ctor CB_MSG_REQUEST 0 0 False True CB_DATA_CLASS_SCHEDULED 0 0 False 0 0 0)\<rparr>"

lemma example_tags [simp]:
  "symmetric_class grant_packet (p_hdr grant_packet)" "symmetric_class data_packet (p_hdr data_packet)"
  by (simp_all add: symmetric_class_def cb_tag_def grant_packet_def data_packet_def CreditBouncerTag_ctor_def
      IsGrant_def IsRequest_def)

lemma example_headers [simp]:
  "p_hdr grant_packet = \<lparr>l3Prot = 0xFB, sip = 0x0b000101, dip = 0x0b000201,
     sport = 100, dport = 10000, pg = 3, seq = 0\<rparr>"
  "p_hdr data_packet = \<lparr>l3Prot = 0x11, sip = 0x0b000201, dip = 0x0b000101,
     sport = 10000, dport = 100, pg = 3, seq = 0\<rparr>"
  by (simp_all add: grant_packet_def data_packet_def)

lemma cb_route_symmetric_witness:
  "\<forall>env devs mmu cb. \<exists>k<2.
     (\<exists>m. GetOutDev env grant_packet (p_hdr grant_packet)
        ((SwitchNode_initial 7 5 devs mmu cb)\<lparr>m_rtTable := [0x0b000201 \<mapsto> [3, 4]]\<rparr>) = Some (Some ([3, 4] ! k), m))
   \<and> (\<exists>m. GetOutDev env data_packet (p_hdr data_packet)
        ((SwitchNode_initial 9 3 devs mmu cb)\<lparr>m_rtTable := [0x0b000101 \<mapsto> [1, 2]]\<rparr>) = Some (Some ([1, 2] ! k), m))"
proof (intro allI)
  fix env devs mmu cb
  let ?n = "(SwitchNode_initial 7 5 devs mmu cb)\<lparr>m_rtTable := [0x0b000201 \<mapsto> [3, 4]]\<rparr>"
  let ?n' = "(SwitchNode_initial 9 3 devs mmu cb)\<lparr>m_rtTable := [0x0b000101 \<mapsto> [1, 2]]\<rparr>"
  have s: "m_creditbouncerSymmetricRouting ?n" "m_creditbouncerSymmetricRouting ?n'"
    by (simp_all add: SwitchNode_initial_def)
  show "\<exists>k<2. (\<exists>m. GetOutDev env grant_packet (p_hdr grant_packet) ?n = Some (Some ([3, 4] ! k), m))
      \<and> (\<exists>m. GetOutDev env data_packet (p_hdr data_packet) ?n' = Some (Some ([1, 2] ! k), m))"
    using cb_route_symmetric[OF s example_tags, of "[3, 4]" "[1, 2]" env env] by (simp add: numeral_2_eq_2)
qed

section \<open>Flow control and the phantom queue\<close>

definition fc_events :: "sn_output list \<Rightarrow> (nat \<times> CreditBouncerFcState \<times> CreditBouncerFcState) list" where
  "fc_events xs = List.map_filter (\<lambda>x. case x of OutFcState d s t \<Rightarrow> Some (d, s, t) | _ \<Rightarrow> None) xs"

lemma fc_events_simps [simp]:
  "fc_events [] = []" "fc_events (xs @ ys) = fc_events xs @ fc_events ys"
  "fc_events [OutFcState d s t] = [(d, s, t)]" "fc_events [OutPortLog e] = []"
  by (simp_all add: fc_events_def List.map_filter_def)

lemma LogCBPortEvent_fc [simp]: "fc_events (m_out (LogCBPortEvent a b c d e f g n)) = fc_events (m_out n)"
  by (simp add: LogCBPortEvent_def Let_def emit_def)

definition cc_on :: "SwitchNode \<Rightarrow> bool" where
  "cc_on n \<longleftrightarrow> m_creditbouncerCBEnable n \<and> m_creditbouncerCcEnable n"

definition fc_on :: "SwitchNode \<Rightarrow> bool" where
  "fc_on n \<longleftrightarrow> m_creditbouncerCBEnable n \<and> m_creditbouncerFcEnable n"

lemma on_settings:
  assumes "settings n = settings n'"
  shows "fc_on n = fc_on n'" "cc_on n = cc_on n'"
  using settings_sel[OF assms] by (simp_all add: fc_on_def cc_on_def)

text \<open>What each step does to its port.\<close>
definition fc_state :: "nat \<Rightarrow> SwitchNode \<Rightarrow> CreditBouncerFcState" where
  "fc_state d n = (if fc_on n
     then fc_next (compare_len d n) (fst (thresholds d n)) (snd (thresholds d n)) (m_fcState (port_state n d))
     else m_fcState (port_state n d))"

lemma transmit_fc_sel [simp]:
  "settings (transmit_fc d p n) = settings n" "m_cbMmu (transmit_fc d p n) = m_cbMmu n"
  "sends (m_out (transmit_fc d p n)) = sends (m_out n)"
  "port_state (transmit_fc d p n) = (port_state n)(d := (port_state n d)
     \<lparr>m_xonBytes := fst (thresholds d n), m_xoffBytes := snd (thresholds d n),
      m_xecnBytes := m_creditbouncerXecnBytes n, m_fcState := fc_state d n\<rparr>)"
  "fc_events (m_out (transmit_fc d p n)) = fc_events (m_out n) @
     (if fc_state d n \<noteq> m_fcState (port_state n d) then [(d, m_fcState (port_state n d), fc_state d n)] else [])"
  by (simp_all add: transmit_fc_def fc_state_def fc_on_def Let_def split_beta)

definition bounced_qp :: "bool \<Rightarrow> NsPacket \<Rightarrow> CustomHeader \<Rightarrow> SwitchNode \<Rightarrow> u64 \<Rightarrow> u64" where
  "bounced_qp jb p ch n qp = (if fc_on n \<and> IsBouncedCreditPacket p ch \<and> \<not> jb
     then (case p_cbTag p of None \<Rightarrow> qp
           | Some t \<Rightarrow> drop_to_zero (qp + ucast (p_size p)) (ucast (m_creditBytes t))) else qp)"

lemma transmit_bounced_sel [simp]:
  "settings (transmit_bounced d jb p ch n) = settings n" "m_cbMmu (transmit_bounced d jb p ch n) = m_cbMmu n"
  "sends (m_out (transmit_bounced d jb p ch n)) = sends (m_out n)"
  "fc_events (m_out (transmit_bounced d jb p ch n)) = fc_events (m_out n)"
  "port_state (transmit_bounced d jb p ch n) = (port_state n)(d := (port_state n d)
     \<lparr>m_qpLenBytes := bounced_qp jb p ch n (m_qpLenBytes (port_state n d))\<rparr>)"
  by (simp_all add: transmit_bounced_def bounced_qp_def fc_on_def Let_def split: option.split)

definition phantom_class :: "NsPacket \<Rightarrow> CustomHeader \<Rightarrow> bool" where
  "phantom_class p ch \<longleftrightarrow> IsUnscheduledDataPacket p ch \<or> IsCreditGrantPacket p ch \<or> IsSignalPacket p ch"

lemma transmit_phantom_sel [simp]:
  "settings (transmit_phantom d p ch n) = settings n" "m_cbMmu (transmit_phantom d p ch n) = m_cbMmu n"
  "sends (m_out (transmit_phantom d p ch n)) = sends (m_out n)"
  "fc_events (m_out (transmit_phantom d p ch n)) = fc_events (m_out n)"
  "port_state (transmit_phantom d p ch n) = (port_state n)(d := (port_state n d)
     \<lparr>m_qpLenBytes := (if phantom_class p ch then m_qpLenBytes (port_state n d) + ucast (p_size p)
                        else m_qpLenBytes (port_state n d))\<rparr>)"
  by (simp_all add: transmit_phantom_def phantom_class_def Let_def)

definition drained_qp :: "Env \<Rightarrow> nat \<Rightarrow> SwitchNode \<Rightarrow> u64 \<Rightarrow> u64 \<Rightarrow> u64" where
  "drained_qp env d n since qp = (if since \<noteq> 0 \<and> e_now env > since \<and> d_isQbb (m_devices n d)
     then drop_to_zero qp (drained_bytes (e_now env - since) (d_bitRate (m_devices n d))) else qp)"

lemma transmit_drain_sel [simp]:
  "settings (transmit_drain env d p n) = settings n" "m_cbMmu (transmit_drain env d p n) = m_cbMmu n"
  "sends (m_out (transmit_drain env d p n)) = sends (m_out n)"
  "fc_events (m_out (transmit_drain env d p n)) = fc_events (m_out n)"
  "port_state (transmit_drain env d p n) = (port_state n)(d := (port_state n d)
     \<lparr>m_qpLenBytes := drained_qp env d n (m_lastUpdateTimeNs (port_state n d)) (m_qpLenBytes (port_state n d)),
      m_lastUpdateTimeNs := e_now env\<rparr>)"
  by (simp_all add: transmit_drain_def drained_qp_def Let_def)

text \<open>The phantom queue after a departure.\<close>
definition new_qp :: "Env \<Rightarrow> nat \<Rightarrow> NsPacket \<Rightarrow> CustomHeader \<Rightarrow> SwitchNode \<Rightarrow> u64" where
  "new_qp env d p ch n =
    (let st = port_state n d;
         q = bounced_qp (p_justBounced p = Some True) p ch n (m_qpLenBytes st);
         q = (if phantom_class p ch then q + ucast (p_size p) else q)
     in drained_qp env d n (m_lastUpdateTimeNs st) q)"

lemma drop_just_bounced [simp]:
  "bounced_qp jb (p\<lparr>p_justBounced := x\<rparr>) ch n qp = bounced_qp jb p ch n qp"
  "bounced_qp jb (p\<lparr>p_ecn := e\<rparr>) ch n qp = bounced_qp jb p ch n qp"
  "phantom_class (p\<lparr>p_justBounced := x\<rparr>) ch = phantom_class p ch"
  "phantom_class (p\<lparr>p_ecn := e\<rparr>) ch = phantom_class p ch"
  by (cases "p_cbTag p"; simp add: bounced_qp_def phantom_class_def IsUnscheduledDataPacket_def
      IsCreditGrantPacket_def IsSignalPacket_def IsBouncedCreditPacket_def IsCreditBouncerControlPacket_def)+

lemma step_settings:
  assumes "settings n = settings n'"
  shows "bounced_qp jb p ch n = bounced_qp jb p ch n'" "drained_qp env d n = drained_qp env d n'"
proof -
  show "bounced_qp jb p ch n = bounced_qp jb p ch n'"
    by (rule ext) (simp only: bounced_qp_def on_settings[OF assms])
  show "drained_qp env d n = drained_qp env d n'"
    by (intro ext) (simp only: drained_qp_def settings_sel(2)[OF assms])
qed

text \<open>A departure in one equation per part of the state.\<close>
lemma UpdateCBPortStateOnTransmit_spec:
  assumes "fc_on n \<or> cc_on n" "d < sn_pCnt" "UpdateCBPortStateOnTransmit env d p ch n = (p', n')"
  shows "settings n' = settings n" "m_cbMmu n' = m_cbMmu n" "sends (m_out n') = sends (m_out n)"
    and "port_state n' = (port_state n)(d := (port_state n d)
          \<lparr>m_xonBytes := fst (thresholds d n), m_xoffBytes := snd (thresholds d n),
           m_xecnBytes := m_creditbouncerXecnBytes n, m_fcState := fc_state d n,
           m_qpLenBytes := new_qp env d p ch n, m_lastUpdateTimeNs := e_now env\<rparr>)"
    and "fc_events (m_out n') = fc_events (m_out n) @
          (if fc_state d n \<noteq> m_fcState (port_state n d) then [(d, m_fcState (port_state n d), fc_state d n)] else [])"
    and "p_ecn p' = (if cc_on n \<and> IsDataPacket ch \<and> compare_len d n > m_creditbouncerXecnBytes n then 3 else p_ecn p)"
    and "p_size p' = p_size p" "p_hdr p' = p_hdr p" "p_cbTag p' = p_cbTag p" "p_flowId p' = p_flowId p"
proof -
  define q where "q = (if p_justBounced p = Some True then p\<lparr>p_justBounced := None\<rparr> else p)"
  define n1 where "n1 = transmit_fc d q n"
  define q2 where "q2 = (if cc_on n \<and> IsDataPacket ch \<and> compare_len d n > m_xecnBytes (port_state n1 d)
      then q\<lparr>p_ecn := 3\<rparr> else q)"
  define n2 where "n2 = transmit_bounced d (p_justBounced p = Some True) q2 ch n1"
  define n3 where "n3 = transmit_phantom d q2 ch n2"
  have u: "p' = q2" "n' = transmit_drain env d q2 n3"
    using assms by (auto simp: UpdateCBPortStateOnTransmit_def Let_def fc_on_def cc_on_def
        q_def n1_def q2_def n2_def n3_def split: if_splits)
  have q: "p_size q2 = p_size p" "p_hdr q2 = p_hdr p" "p_cbTag q2 = p_cbTag p" "p_flowId q2 = p_flowId p"
    "bounced_qp jb q2 ch m x = bounced_qp jb p ch m x" "phantom_class q2 ch = phantom_class p ch" for jb m x
    by (simp_all add: q2_def q_def)
  have s1: "settings n1 = settings n" by (simp add: n1_def)
  have s2: "settings n2 = settings n" by (simp add: n2_def s1)
  have s3: "settings n3 = settings n" by (simp add: n3_def s2)
  show "settings n' = settings n" "m_cbMmu n' = m_cbMmu n" "sends (m_out n') = sends (m_out n)"
    by (simp_all add: u s3) (simp_all add: n3_def n2_def n1_def)
  show "fc_events (m_out n') = fc_events (m_out n) @
      (if fc_state d n \<noteq> m_fcState (port_state n d) then [(d, m_fcState (port_state n d), fc_state d n)] else [])"
    by (simp add: u n3_def n2_def n1_def)
  show "p_size p' = p_size p" "p_hdr p' = p_hdr p" "p_cbTag p' = p_cbTag p" "p_flowId p' = p_flowId p"
    by (simp_all add: u q)
  show "p_ecn p' = (if cc_on n \<and> IsDataPacket ch \<and> compare_len d n > m_creditbouncerXecnBytes n then 3 else p_ecn p)"
    by (simp add: u q2_def n1_def q_def)
  show "port_state n' = (port_state n)(d := (port_state n d)
          \<lparr>m_xonBytes := fst (thresholds d n), m_xoffBytes := snd (thresholds d n),
           m_xecnBytes := m_creditbouncerXecnBytes n, m_fcState := fc_state d n,
           m_qpLenBytes := new_qp env d p ch n, m_lastUpdateTimeNs := e_now env\<rparr>)"
    by (simp add: u n3_def n2_def n1_def new_qp_def q Let_def step_settings[OF s1[unfolded n1_def]]
        step_settings[OF s3[unfolded n3_def n2_def n1_def]])
qed

lemma thresholds_le:
  assumes "m_creditbouncerXonBytes n \<le> m_creditbouncerXoffBytes n"
  shows "fst (thresholds d n) \<le> snd (thresholds d n)"
  using assms by (auto simp: thresholds_def Let_def intro!: word_sub_le)

lemma fc_next_hysteresis:
  assumes "xon \<le> xoff"
  shows "fc_next len xon xoff st =
    (if len > xoff then CB_FCSTATE_PAUSE else if len < xon then CB_FCSTATE_NORMAL else st)"
  using assms by (cases st) (auto simp: fc_next_def)

text \<open>Flow control is a hysteresis: on every departure from a port, with Xon at
  most Xoff as configured, the port is PAUSE if the compared length is above the
  Xoff in force, NORMAL if it is below the Xon in force, and unchanged in between,
  in configured as in dynamic mode; the transition is traced exactly when the state
  changes, no other port is touched, the buffer manager is not, and a data packet
  is marked exactly when congestion control is on and the length is above Xecn.\<close>
theorem fc_hysteresis:
  assumes "fc_on n" "d < sn_pCnt" "UpdateCBPortStateOnTransmit env d p ch n = (p', n')"
    and "m_creditbouncerXonBytes n \<le> m_creditbouncerXoffBytes n"
  shows "m_fcState (port_state n' d) =
           (if compare_len d n > snd (thresholds d n) then CB_FCSTATE_PAUSE
            else if compare_len d n < fst (thresholds d n) then CB_FCSTATE_NORMAL
            else m_fcState (port_state n d))
     \<and> fc_events (m_out n') = fc_events (m_out n) @
          (if m_fcState (port_state n' d) \<noteq> m_fcState (port_state n d)
           then [(d, m_fcState (port_state n d), m_fcState (port_state n' d))] else [])
     \<and> (\<forall>e. e \<noteq> d \<longrightarrow> port_state n' e = port_state n e) \<and> m_cbMmu n' = m_cbMmu n
     \<and> p_ecn p' = (if cc_on n \<and> IsDataPacket ch \<and> compare_len d n > m_creditbouncerXecnBytes n
                   then 3 else p_ecn p)"
proof -
  have "fc_on n \<or> cc_on n" using assms(1) ..
  note u = UpdateCBPortStateOnTransmit_spec[OF this assms(2,3)]
  show ?thesis using assms(1) fc_next_hysteresis[OF thresholds_le[OF assms(4)]]
    by (simp add: u fc_state_def)
qed

lemma fc_hysteresis_witness:
  "\<forall>env devs mmu cb. \<exists>p' n'. UpdateCBPortStateOnTransmit env 1 data_packet (p_hdr data_packet)
      (upd_port 1 (\<lambda>s. s\<lparr>m_qpLenBytes := 200000\<rparr>) (SwitchNode_initial 7 5 devs mmu cb)) = (p', n')
    \<and> m_fcState (port_state n' 1) = CB_FCSTATE_PAUSE \<and> p_ecn p' = 3
    \<and> fc_events (m_out n') = [(1, CB_FCSTATE_NORMAL, CB_FCSTATE_PAUSE)]"
proof (intro allI)
  fix env devs mmu cb
  let ?n = "upd_port 1 (\<lambda>s. s\<lparr>m_qpLenBytes := 200000\<rparr>) (SwitchNode_initial 7 5 devs mmu cb)"
  have o: "fc_on ?n" "cc_on ?n" by (simp_all add: fc_on_def cc_on_def upd_port_def SwitchNode_initial_def)
  have x: "m_creditbouncerXonBytes ?n \<le> m_creditbouncerXoffBytes ?n"
    by (simp add: upd_port_def SwitchNode_initial_def)
  have l: "compare_len 1 ?n = 200000"
    by (simp add: compare_len_def IsCreditBouncerDedicatedMmuEnabled_def upd_port_def SwitchNode_initial_def)
  have t: "thresholds 1 ?n = (65536, 131072)" "m_creditbouncerXecnBytes ?n = 102400"
    by (simp_all add: thresholds_def IsCreditBouncerDedicatedMmuEnabled_def upd_port_def SwitchNode_initial_def)
  have m: "m_fcState (port_state ?n 1) = CB_FCSTATE_NORMAL" "m_out ?n = []"
    by (simp_all add: upd_port_def SwitchNode_initial_def)
  obtain p' n' where u: "UpdateCBPortStateOnTransmit env 1 data_packet (p_hdr data_packet) ?n = (p', n')" by force
  show "\<exists>p' n'. UpdateCBPortStateOnTransmit env 1 data_packet (p_hdr data_packet) ?n = (p', n')
    \<and> m_fcState (port_state n' 1) = CB_FCSTATE_PAUSE \<and> p_ecn p' = 3
    \<and> fc_events (m_out n') = [(1, CB_FCSTATE_NORMAL, CB_FCSTATE_PAUSE)]"
    using fc_hysteresis[OF o(1) _ u x] u unfolding l t m
    by (simp add: o(2)[unfolded One_nat_def] IsDataPacket_def sn_pCnt_def)
qed

lemma drop_to_zero_nat: "unat (drop_to_zero a b) = unat a - unat b"
  by (auto simp: drop_to_zero_def unat_sub_le word_le_nat_alt)

lemma phantom_bounced_excl:
  assumes "phantom_class p ch"
  shows "\<not> IsBouncedCreditPacket p ch"
  using assms
  by (auto simp: phantom_class_def IsBouncedCreditPacket_def IsCreditBouncerControlPacket_def IsSignalPacket_def
      IsCreditGrantPacket_def IsUnscheduledDataPacket_def IsGrant_def IsBouncedCredit_def IsGrantReq_def
      IsResend_def split: option.splits)

lemma drained_bytes_nat:
  "unat (drained_bytes i r) = (unat i * unat r mod 2 ^ 64) div 8000000000"
  by (simp add: drained_bytes_def unat_div unat_word_ariths)

text \<open>The drain estimate of the phantom queue is the number of bytes the line
  sends in the interval exactly when the interval times the rate is below 2^64,
  and too small otherwise: at 100 Gb/s a port idle for 200 ms is credited with less
  than a twelfth of the bytes it could have sent.\<close>
theorem drain_exact_iff:
  "(unat (drained_bytes intervalNs lineRateBps) = unat intervalNs * unat lineRateBps div 8000000000
      \<longleftrightarrow> unat intervalNs * unat lineRateBps < 2 ^ 64)
   \<and> unat (drained_bytes intervalNs lineRateBps) \<le> unat intervalNs * unat lineRateBps div 8000000000
   \<and> 12 * unat (drained_bytes 200000000 100000000000) < 200000000 * 100000000000 div 8000000000"
proof -
  let ?x = "unat intervalNs * unat lineRateBps"
  have le: "?x mod 2 ^ 64 div 8000000000 \<le> ?x div 8000000000" by (intro div_le_mono mod_less_eq_dividend)
  have "?x mod 2 ^ 64 div 8000000000 < ?x div 8000000000" if "\<not> ?x < 2 ^ 64"
  proof -
    have "?x mod 2 ^ 64 \<le> ?x - 2 ^ 64" using that by (subst le_mod_geq) simp_all
    then have "?x mod 2 ^ 64 div 8000000000 \<le> (?x - 2 ^ 64) div 8000000000" by (rule div_le_mono)
    also have "\<dots> \<le> (?x - 8000000000) div 8000000000" by (intro div_le_mono diff_le_mono2) simp
    also have "\<dots> < ?x div 8000000000" using that le_div_geq[of 8000000000 ?x] by simp
    finally show ?thesis .
  qed
  moreover have "?x mod 2 ^ 64 div 8000000000 = ?x div 8000000000" if "?x < 2 ^ 64" using that by simp
  ultimately have "?x mod 2 ^ 64 div 8000000000 = ?x div 8000000000 \<longleftrightarrow> ?x < 2 ^ 64"
    by (metis less_irrefl)
  moreover have "12 * unat (drained_bytes 200000000 100000000000) < 200000000 * 100000000000 div 8000000000"
    by (simp add: drained_bytes_nat)
  ultimately show ?thesis unfolding drained_bytes_nat using le by blast
qed

text \<open>The phantom queue of a port follows its formula on every departure, as long
  as the 64-bit arithmetic does not wrap: a bounced credit that passes through adds
  its own size and gives back the credit it carries, a grant, signal or unscheduled
  data packet adds its size, and what the line could have sent since the last
  departure is taken off, never going below zero.\<close>
theorem phantom_queue_formula:
  assumes "fc_on n" "d < sn_pCnt" "UpdateCBPortStateOnTransmit env d p ch n = (p', n')"
    and "d_isQbb (m_devices n d)" "m_lastUpdateTimeNs (port_state n d) \<le> e_now env"
    and "unat (m_qpLenBytes (port_state n d)) + unat (p_size p) < 2 ^ 64"
    and "unat (e_now env - m_lastUpdateTimeNs (port_state n d)) * unat (d_bitRate (m_devices n d)) < 2 ^ 64"
  shows "unat (m_qpLenBytes (port_state n' d)) =
     (if IsBouncedCreditPacket p ch \<and> p_justBounced p \<noteq> Some True
      then unat (m_qpLenBytes (port_state n d)) + unat (p_size p) - unat (m_creditBytes (the (p_cbTag p)))
      else if phantom_class p ch then unat (m_qpLenBytes (port_state n d)) + unat (p_size p)
      else unat (m_qpLenBytes (port_state n d)))
     - (if m_lastUpdateTimeNs (port_state n d) = 0 then 0
        else (unat (e_now env) - unat (m_lastUpdateTimeNs (port_state n d)))
               * unat (d_bitRate (m_devices n d)) div 8000000000)
     \<and> m_qdLenBytes (port_state n' d) = m_qdLenBytes (port_state n d)"
proof -
  let ?st = "port_state n d" and ?b = "IsBouncedCreditPacket p ch \<and> p_justBounced p \<noteq> Some True"
  let ?q = "unat (m_qpLenBytes ?st)" and ?last = "m_lastUpdateTimeNs ?st"
  have "fc_on n \<or> cc_on n" using assms(1) ..
  note u = UpdateCBPortStateOnTransmit_spec(4)[OF this assms(2,3)]
  define q1 where "q1 = bounced_qp (p_justBounced p = Some True) p ch n (m_qpLenBytes ?st)"
  define q2 where "q2 = (if phantom_class p ch then q1 + ucast (p_size p) else q1)"
  have sum: "unat (m_qpLenBytes ?st + ucast (p_size p)) = ?q + unat (p_size p)"
    using assms(6) by (subst unat_add_lt) (simp_all add: unat_ucast_up)
  have q1: "unat q1 = (if ?b then ?q + unat (p_size p) - unat (m_creditBytes (the (p_cbTag p))) else ?q)"
    using assms(1) sum unfolding q1_def bounced_qp_def
    by (cases "p_cbTag p") (auto simp: drop_to_zero_nat unat_ucast_up IsBouncedCreditPacket_def)
  have q2: "unat q2 = (if ?b then ?q + unat (p_size p) - unat (m_creditBytes (the (p_cbTag p)))
      else if phantom_class p ch then ?q + unat (p_size p) else ?q)"
  proof (cases "phantom_class p ch")
    case True
    then have "q1 = m_qpLenBytes ?st" using phantom_bounced_excl by (simp add: q1_def bounced_qp_def)
    then show ?thesis using True sum phantom_bounced_excl[OF True] by (simp add: q2_def)
  qed (simp add: q2_def q1)
  have i: "unat (e_now env - ?last) = unat (e_now env) - unat ?last" using assms(5) by (simp add: unat_sub_le)
  have "new_qp env d p ch n = drained_qp env d n ?last q2" by (simp add: new_qp_def q1_def q2_def Let_def)
  moreover have "unat (drained_qp env d n ?last q2) = unat q2 -
      (if ?last = 0 then 0 else (unat (e_now env) - unat ?last) * unat (d_bitRate (m_devices n d)) div 8000000000)"
    using assms(4,5,7) by (auto simp: drained_qp_def drop_to_zero_nat drained_bytes_nat i)
  ultimately show ?thesis using u q2 by simp
qed

lemma phantom_queue_formula_witness:
  "\<forall>mmu cb e. \<exists>p' n'. UpdateCBPortStateOnTransmit (e\<lparr>e_now := 2000\<rparr>) 1 grant_packet (p_hdr grant_packet)
      (upd_port 1 (\<lambda>s. s\<lparr>m_qpLenBytes := 20000, m_lastUpdateTimeNs := 1000\<rparr>)
         (SwitchNode_initial 7 5 (\<lambda>_. \<lparr>d_isQbb = True, m_linkUp = True, m_qbbEnabled = True, m_pausetime = 5,
            d_bitRate = 100000000000, d_delayNs = 1000, d_queueBytes = 0\<rparr>) mmu cb)) = (p', n')
    \<and> unat (m_qpLenBytes (port_state n' 1)) = 20000 + 84 - 12500"
proof (intro allI)
  fix mmu cb and e :: Env
  let ?n = "upd_port 1 (\<lambda>s. s\<lparr>m_qpLenBytes := 20000, m_lastUpdateTimeNs := 1000\<rparr>)
      (SwitchNode_initial 7 5 (\<lambda>_. \<lparr>d_isQbb = True, m_linkUp = True, m_qbbEnabled = True, m_pausetime = 5,
            d_bitRate = 100000000000, d_delayNs = 1000, d_queueBytes = 0\<rparr>) mmu cb)"
  have o: "fc_on ?n" by (simp add: fc_on_def upd_port_def SwitchNode_initial_def)
  have st: "m_qpLenBytes (port_state ?n 1) = 20000" "m_lastUpdateTimeNs (port_state ?n 1) = 1000"
    "d_isQbb (m_devices ?n 1)" "d_bitRate (m_devices ?n 1) = 100000000000"
    by (simp_all add: upd_port_def SwitchNode_initial_def)
  have g: "phantom_class grant_packet (p_hdr grant_packet)"
    by (simp add: phantom_class_def IsCreditGrantPacket_def IsCreditBouncerControlPacket_def)
      (simp add: grant_packet_def IsGrant_def CreditBouncerTag_ctor_def)
  have z: "p_size grant_packet = 84" by (simp add: grant_packet_def)
  obtain p' n' where u: "UpdateCBPortStateOnTransmit (e\<lparr>e_now := 2000\<rparr>) 1 grant_packet (p_hdr grant_packet) ?n = (p', n')"
    by force
  show "\<exists>p' n'. UpdateCBPortStateOnTransmit (e\<lparr>e_now := 2000\<rparr>) 1 grant_packet (p_hdr grant_packet) ?n = (p', n')
    \<and> unat (m_qpLenBytes (port_state n' 1)) = 20000 + 84 - 12500"
    using phantom_queue_formula[OF o _ u st(3), unfolded st z] u g phantom_bounced_excl[OF g]
    by (simp add: sn_pCnt_def)
qed

section \<open>Synchronising the dedicated buffer manager\<close>

text \<open>The part of the buffer manager that admission works on.\<close>
definition cb_core :: "SwitchCbMmu \<Rightarrow> SwitchCbMmu" where
  "cb_core m = m\<lparr>m_nodeId := 0, m_defaultDataHeadroomBytes := 0, m_defaultDataGuaranteeBytes := 0,
     m_dataEcnKminBytes := 0, m_dataEcnKmaxBytes := 0, m_dataEcnPmax := 0,
     m_dataGuaranteeLimitBytes := (\<lambda>_. 0), m_dataHeadroomLimitBytes := (\<lambda>_. 0)\<rparr>"

lemma cb_core_config [simp]:
  "cb_core (SetNodeId v m) = cb_core m" "cb_core (SetDefaultDataHeadroomBytes v m) = cb_core m"
  "cb_core (SetDefaultDataGuaranteeBytes v m) = cb_core m" "cb_core (SetDataEcnKminBytes v m) = cb_core m"
  "cb_core (SetDataEcnKmaxBytes v m) = cb_core m" "cb_core (SetDataEcnPmax x m) = cb_core m"
  "cb_core (ConfigDataHeadroomByBdp p r d m) = cb_core m"
  by (simp_all add: cb_core_def SetNodeId_def SetDefaultDataHeadroomBytes_def SetDefaultDataGuaranteeBytes_def
      SetDataEcnKminBytes_def SetDataEcnKmaxBytes_def SetDataEcnPmax_def ConfigDataHeadroomByBdp_def Let_def)

lemma cb_core_sel:
  assumes "cb_core m = cb_core m'"
  shows "m_dataQueueBytes m = m_dataQueueBytes m'" "m_creditQueueBytes m = m_creditQueueBytes m'"
    "m_dataSharedBytesByPort m = m_dataSharedBytesByPort m'" "m_dataSharedUsedBytes m = m_dataSharedUsedBytes m'"
    "m_dataSharedLimitBytes m = m_dataSharedLimitBytes m'" "m_dataAdmissionAlpha m = m_dataAdmissionAlpha m'"
    "m_activePortCnt m = m_activePortCnt m'" "m_creditQueueLimitBytes m = m_creditQueueLimitBytes m'"
  using arg_cong[OF assms, of m_dataQueueBytes] arg_cong[OF assms, of m_creditQueueBytes]
    arg_cong[OF assms, of m_dataSharedBytesByPort] arg_cong[OF assms, of m_dataSharedUsedBytes]
    arg_cong[OF assms, of m_dataSharedLimitBytes] arg_cong[OF assms, of m_dataAdmissionAlpha]
    arg_cong[OF assms, of m_activePortCnt] arg_cong[OF assms, of m_creditQueueLimitBytes]
  by (simp_all add: cb_core_def)

lemma cb_core_facts:
  assumes "cb_core m = cb_core m'"
  shows "pool_ok m = pool_ok m'" "credit_ok k m = credit_ok k m'" "data_occ m = data_occ m'"
    "credit_occ m = credit_occ m'" "fst (CheckDataAdmission p v m) = fst (CheckDataAdmission p v m')"
    "fst (CheckCreditAdmission p v m) = fst (CheckCreditAdmission p v m')"
  by (simp_all only: pool_ok_def acct_def credit_ok_def data_occ_def[abs_def] credit_occ_def[abs_def]
      CheckDataAdmission_iff CheckCreditAdmission_iff data_threshold_def cb_core_sel[OF assms])

lemma cb_core_sync:
  assumes "m_creditQueueLimitBytes m = m_creditbouncerDedicatedCreditQueueBytes n"
  shows "cb_core (sync_cbMmu n m) = cb_core (SetActivePortCnt (activePortCnt n) m)"
proof -
  have fold: "cb_core (foldl (\<lambda>m port. if d_isQbb (m_devices n port)
        then ConfigDataHeadroomByBdp port (d_bitRate (m_devices n port)) (d_delayNs (m_devices n port)) m
        else m) m ps) = cb_core m" for m ps
    by (induction ps arbitrary: m) simp_all
  have a: "(if m_activePortCnt m \<noteq> activePortCnt n then SetActivePortCnt (activePortCnt n) m else m)
      = SetActivePortCnt (activePortCnt n) m"
    by (simp add: SetActivePortCnt_def)
  have "m_creditQueueLimitBytes (SetNodeId v (SetActivePortCnt w m)) = m_creditQueueLimitBytes m" for v w
    by (simp add: SetNodeId_def SetActivePortCnt_def)
  then have c: "SetCreditQueueLimitBytes (m_creditbouncerDedicatedCreditQueueBytes n)
      (SetNodeId v (SetActivePortCnt w m)) = SetNodeId v (SetActivePortCnt w m)" for v w
    using assms by (simp add: SetCreditQueueLimitBytes_def)
  show ?thesis by (simp add: sync_cbMmu_def Let_def fold a c)
qed

lemma sync_settings:
  assumes "settings n = settings n'"
  shows "sync_cbMmu n = sync_cbMmu n'"
proof -
  let ?f = "\<lambda>n. (m_creditbouncerDedicatedDataHeadroomBytes n, m_creditbouncerDedicatedDataGuaranteeBytes n,
      m_creditbouncerDedicatedDataEcnKminBytes n, m_creditbouncerDedicatedDataEcnKmaxBytes n,
      m_creditbouncerDedicatedDataEcnPmax n)"
  have "?f (settings n) = ?f (settings n')" using assms by simp
  then have f: "m_creditbouncerDedicatedDataHeadroomBytes n = m_creditbouncerDedicatedDataHeadroomBytes n'"
    "m_creditbouncerDedicatedDataGuaranteeBytes n = m_creditbouncerDedicatedDataGuaranteeBytes n'"
    "m_creditbouncerDedicatedDataEcnKminBytes n = m_creditbouncerDedicatedDataEcnKminBytes n'"
    "m_creditbouncerDedicatedDataEcnKmaxBytes n = m_creditbouncerDedicatedDataEcnKmaxBytes n'"
    "m_creditbouncerDedicatedDataEcnPmax n = m_creditbouncerDedicatedDataEcnPmax n'"
    by (simp_all add: settings_def)
  show ?thesis
    by (rule ext) (simp only: sync_cbMmu_def activePortCnt_def settings_sel[OF assms] f)
qed

definition synced :: "SwitchNode \<Rightarrow> bool" where
  "synced n \<longleftrightarrow> m_activePortCnt (m_cbMmu n) = activePortCnt n
     \<and> m_creditQueueLimitBytes (m_cbMmu n) = m_creditbouncerDedicatedCreditQueueBytes n"

lemma synced_core:
  assumes "synced n"
  shows "cb_core (sync_cbMmu n (m_cbMmu n)) = cb_core (m_cbMmu n)"
  using assms by (simp add: synced_def cb_core_sync SetActivePortCnt_def)

section \<open>The dedicated path of the switch\<close>

text \<open>The admission of a packet to queue 0 or 1 of a port.\<close>
definition admit_packet :: "nat \<Rightarrow> nat \<Rightarrow> u32 \<Rightarrow> SwitchCbMmu \<Rightarrow> bool \<times> SwitchCbMmu" where
  "admit_packet d q sz m =
    (if q = 0 then (case CheckCreditAdmission d sz m of (a, m) \<Rightarrow> (a, if a then UpdateCreditAdmission d sz m else m))
     else (case CheckDataAdmission d sz m of (a, m) \<Rightarrow> (a, if a then UpdateDataAdmission d sz m else m)))"

lemma admit_dedicated_spec:
  assumes "m_creditbouncerDedicatedMmuEnable n"
  shows "fst (admit_dedicated d q p ch n) = fst (admit_packet d q (p_size p) (sync_cbMmu n (m_cbMmu n)))"
    and "m_cbMmu (snd (admit_dedicated d q p ch n)) = snd (admit_packet d q (p_size p) (sync_cbMmu n (m_cbMmu n)))"
    and "settings (snd (admit_dedicated d q p ch n)) = settings n"
    and "port_state (snd (admit_dedicated d q p ch n)) = port_state n"
    and "sends (m_out (snd (admit_dedicated d q p ch n))) = sends (m_out n)"
proof -
  let ?m = "sync_cbMmu n (m_cbMmu n)" and ?k = "SyncDedicatedCbMmuConfig n"
  obtain a m where am: "admit_packet d q (p_size p) ?m = (a, m)" by force
  have k: "m_cbMmu ?k = ?m" "settings ?k = settings n" "port_state ?k = port_state n" "m_out ?k = m_out n"
    using assms by (simp_all add: SyncDedicatedCbMmuConfig_def upd_cbMmu_def settings_def)
  have u: "settings (n\<lparr>m_cbMmu := m\<rparr>) = settings n" for n m by (simp add: settings_def)
  have "admit_dedicated d q p ch n =
      (if a then (True, ?k\<lparr>m_cbMmu := m\<rparr>)
       else (False, count_state_log (OutDropLog ''CBMMU_DROP'' d q)
          (if q = 0 then emit (OutDropLog ''CBMMU_CREDIT_DROP'' d q) (emitCbPacketEvent d True p ch (?k\<lparr>m_cbMmu := m\<rparr>))
           else emitCbPacketEvent d True p ch (?k\<lparr>m_cbMmu := m\<rparr>))))"
    unfolding admit_dedicated_def Let_def admit_packet_def[symmetric] k(1) am by simp
  then show "fst (admit_dedicated d q p ch n) = fst (admit_packet d q (p_size p) ?m)"
    "m_cbMmu (snd (admit_dedicated d q p ch n)) = snd (admit_packet d q (p_size p) ?m)"
    "settings (snd (admit_dedicated d q p ch n)) = settings n"
    "port_state (snd (admit_dedicated d q p ch n)) = port_state n"
    "sends (m_out (snd (admit_dedicated d q p ch n))) = sends (m_out n)"
    by (simp_all add: am k u)
qed

lemma hand_over_spec:
  shows "settings (hand_over i d q p ch n) = settings n" "m_cbMmu (hand_over i d q p ch n) = m_cbMmu n"
    and "sends (m_out (hand_over i d q p ch n)) = sends (m_out n) @ [(d, q, p, ch)]"
    and "port_state (hand_over i d q p ch n) =
      (if m_creditbouncerCBEnable n \<and> d < sn_pCnt \<and> IsDataPacket ch
       then (port_state n)(d := (port_state n d)\<lparr>m_qdLenBytes := m_qdLenBytes (port_state n d) + ucast (p_size p)\<rparr>)
       else port_state n)"
proof -
  have e: "m_creditbouncerCBEnable (emitCbPacketEvent d False p ch n) = m_creditbouncerCBEnable n"
    using settings_sel(5)[of "emitCbPacketEvent d False p ch n" n] by simp
  have u: "settings (n\<lparr>m_bytes := b\<rparr>) = settings n" for n b by (simp add: settings_def)
  show "settings (hand_over i d q p ch n) = settings n" "m_cbMmu (hand_over i d q p ch n) = m_cbMmu n"
    "sends (m_out (hand_over i d q p ch n)) = sends (m_out n) @ [(d, q, p, ch)]"
    by (simp_all add: hand_over_def Let_def u e)
  show "port_state (hand_over i d q p ch n) =
      (if m_creditbouncerCBEnable n \<and> d < sn_pCnt \<and> IsDataPacket ch
       then (port_state n)(d := (port_state n d)\<lparr>m_qdLenBytes := m_qdLenBytes (port_state n d) + ucast (p_size p)\<rparr>)
       else port_state n)"
    by (simp add: hand_over_def Let_def e)
qed

text \<open>What a bounced grant becomes.\<close>
definition swapped :: "CustomHeader \<Rightarrow> CustomHeader" where
  "swapped h = h\<lparr>sip := dip h, dip := sip h, sport := dport h, dport := sport h\<rparr>"

definition bounced_version :: "NsPacket \<Rightarrow> NsPacket" where
  "bounced_version p = (MarkPacketAsBouncedCredit p)\<lparr>p_justBounced := Some True, p_hdr := swapped (p_hdr p)\<rparr>"

lemma Mark_sel [simp]:
  "p_hdr (MarkPacketAsBouncedCredit p) = p_hdr p" "p_size (MarkPacketAsBouncedCredit p) = p_size p"
  by (simp_all add: MarkPacketAsBouncedCredit_def split: option.split)

lemma bounced_version_sel [simp]:
  "p_hdr (bounced_version p) = swapped (p_hdr p)" "p_size (bounced_version p) = p_size p"
  "l3Prot (swapped h) = l3Prot h"
  by (simp_all add: bounced_version_def swapped_def)

lemma bounced_version_tag:
  assumes "IsCreditGrantPacket p ch"
  shows "\<exists>t. p_cbTag p = Some t \<and> p_cbTag (bounced_version p) = Some (SetType CB_MSG_BOUNCED_CREDIT t)"
  using assms by (auto simp: IsCreditGrantPacket_def bounced_version_def MarkPacketAsBouncedCredit_def
      IsGrant_def split: option.splits)

text \<open>Whether the node bounces the packet.\<close>
definition bounces :: "nat \<Rightarrow> nat \<Rightarrow> NsPacket \<Rightarrow> SwitchNode \<Rightarrow> bool" where
  "bounces inDev idx p n \<longleftrightarrow> ShouldBounceCreditPacket inDev idx p (p_hdr p) n \<and> inDev < m_nDevices n"

lemma bounces_grant: "bounces inDev idx p n \<Longrightarrow> IsCreditGrantPacket p (p_hdr p)"
  "bounces inDev idx p n \<Longrightarrow> inDev < sn_pCnt"
  by (auto simp: bounces_def ShouldBounceCreditPacket_def split: if_splits)

lemma grant_prot: "IsCreditGrantPacket p ch \<Longrightarrow> l3Prot ch = 0xFB"
  by (simp add: IsCreditGrantPacket_def IsCreditBouncerControlPacket_def)

lemma bounce_or_reserve_spec:
  assumes "bounce_or_reserve inDev idx p (p_hdr p) n = (p', ch', fwd, n')"
  shows "p' = (if bounces inDev idx p n then bounced_version p else p)" "ch' = p_hdr p'"
    and "fwd = (if bounces inDev idx p n then inDev else idx)"
    and "settings n' = settings n" "m_cbMmu n' = m_cbMmu n" "sends (m_out n') = sends (m_out n)"
    and "port_state n' =
      (if \<not> bounces inDev idx p n \<and> m_creditbouncerCBEnable n \<and> IsCreditGrantPacket p (p_hdr p) \<and> inDev < sn_pCnt
       then (port_state n)(inDev := (port_state n inDev)\<lparr>m_qpLenBytes := m_qpLenBytes (port_state n inDev)
              + ucast (m_creditBytes (the (p_cbTag p)))\<rparr>)
       else port_state n)"
proof -
  let ?b = "bounces inDev idx p n"
  have b: "ShouldBounceCreditPacket inDev idx p (p_hdr p) n \<and> inDev < sn_pCnt \<and> inDev < m_nDevices n \<longleftrightarrow> ?b"
    using bounces_grant(2) by (auto simp: bounces_def)
  have "p' = (if ?b then bounced_version p else p) \<and> ch' = p_hdr p' \<and> fwd = (if ?b then inDev else idx)
      \<and> settings n' = settings n \<and> m_cbMmu n' = m_cbMmu n \<and> sends (m_out n') = sends (m_out n)
      \<and> port_state n' =
        (if \<not> ?b \<and> m_creditbouncerCBEnable n \<and> IsCreditGrantPacket p (p_hdr p) \<and> inDev < sn_pCnt
         then (port_state n)(inDev := (port_state n inDev)\<lparr>m_qpLenBytes := m_qpLenBytes (port_state n inDev)
                + ucast (m_creditBytes (the (p_cbTag p)))\<rparr>)
         else port_state n)"
  proof (cases ?b)
    case True
    then show ?thesis using assms grant_prot[OF bounces_grant(1)[OF True]]
      by (auto simp: bounce_or_reserve_def b Let_def swap_tuple_def bounced_version_def swapped_def)
  next
    case False
    then show ?thesis using assms
      by (cases "p_cbTag p") (auto simp: bounce_or_reserve_def b Let_def IsCreditGrantPacket_def split: if_splits)
  qed
  then show "p' = (if ?b then bounced_version p else p)" "ch' = p_hdr p'" "fwd = (if ?b then inDev else idx)"
    "settings n' = settings n" "m_cbMmu n' = m_cbMmu n" "sends (m_out n') = sends (m_out n)"
    "port_state n' =
      (if \<not> ?b \<and> m_creditbouncerCBEnable n \<and> IsCreditGrantPacket p (p_hdr p) \<and> inDev < sn_pCnt
       then (port_state n)(inDev := (port_state n inDev)\<lparr>m_qpLenBytes := m_qpLenBytes (port_state n inDev)
              + ucast (m_creditBytes (the (p_cbTag p)))\<rparr>)
       else port_state n)" by blast+
qed

lemma GetOutDev_spec:
  assumes "GetOutDev env p ch n = Some (r, n')"
  shows "settings n' = settings n" "m_cbMmu n' = m_cbMmu n" "port_state n' = port_state n"
    "sends (m_out n') = sends (m_out n)"
  using assms by (auto simp: GetOutDev_def Let_def split: option.splits if_splits)

lemma GetDedicatedCbQueueIndex_settings:
  assumes "settings n = settings n'"
  shows "GetDedicatedCbQueueIndex p ch n = GetDedicatedCbQueueIndex p ch n'"
  unfolding GetDedicatedCbQueueIndex_def settings_sel(10)[OF assms] ..

lemma bounces_settings:
  assumes "settings n' = settings n" "port_state n' = port_state n"
  shows "bounces i j p n' = bounces i j p n"
  unfolding bounces_def ShouldBounceCreditPacket_def settings_sel(1,5,6)[OF assms(1)] assms(2) ..

text \<open>The reservation a forwarded grant makes on the port it came in by.\<close>
definition reserve :: "nat \<Rightarrow> NsPacket \<Rightarrow> SwitchNode \<Rightarrow> CreditBouncerPortState tab" where
  "reserve inDev p n =
    (if m_creditbouncerCBEnable n \<and> IsCreditGrantPacket p (p_hdr p) \<and> inDev < sn_pCnt
     then (port_state n)(inDev := (port_state n inDev)\<lparr>m_qpLenBytes := m_qpLenBytes (port_state n inDev)
            + ucast (m_creditBytes (the (p_cbTag p)))\<rparr>)
     else port_state n)"

text \<open>The whole handler on the dedicated path.\<close>
lemma SendToDev_dedicated:
  assumes ded: "m_creditbouncerDedicatedMmuEnable n" and s: "SendToDev env p (p_hdr p) inDev n = Some n'"
    and o: "GetOutDev env p (p_hdr p) n = Some (Some idx, n0)"
  defines "b \<equiv> bounces inDev idx p n"
  defines "d \<equiv> if b then inDev else idx" and "p' \<equiv> if b then bounced_version p else p"
  defines "q \<equiv> GetDedicatedCbQueueIndex p' (p_hdr p') n"
  defines "r \<equiv> admit_packet d q (p_size p) (sync_cbMmu n (m_cbMmu n))"
  defines "st \<equiv> if b then port_state n else reserve inDev p n"
  shows "settings n' = settings n" "m_cbMmu n' = snd r"
    and "sends (m_out n') = sends (m_out n) @ (if fst r then [(d, q, p', p_hdr p')] else [])"
    and "port_state n' =
      (if fst r \<and> m_creditbouncerCBEnable n \<and> d < sn_pCnt \<and> IsDataPacket (p_hdr p')
       then st(d := (st d)\<lparr>m_qdLenBytes := m_qdLenBytes (st d) + ucast (p_size p)\<rparr>) else st)"
proof -
  obtain p1 ch1 fwd n1 where br: "bounce_or_reserve inDev idx p (p_hdr p) n0 = (p1, ch1, fwd, n1)"
    by (metis prod_cases4)
  note g = GetOutDev_spec[OF o]
  have bb: "bounces inDev idx p n0 = b" by (simp add: b_def bounces_settings[OF g(1,3)])
  note br' = bounce_or_reserve_spec[OF br, unfolded bb]
  have p1: "p1 = p'" and ch1: "ch1 = p_hdr p'" and fwd: "fwd = d"
    using br'(1-3) by (simp_all add: p'_def d_def)
  have e1: "settings n1 = settings n" "m_cbMmu n1 = m_cbMmu n" "sends (m_out n1) = sends (m_out n)"
    using br' g by simp_all
  have st1: "port_state n1 = st" using br'(7) g(3) settings_sel(5)[OF g(1)] by (simp add: st_def reserve_def)
  note x1 = settings_sel[OF e1(1)]
  have ded1: "m_creditbouncerDedicatedMmuEnable n1" using ded x1(8) by simp
  have sz: "p_size p' = p_size p" by (simp add: p'_def)
  have qi: "select_queue p' (p_hdr p') n1 = q"
    using ded1 GetDedicatedCbQueueIndex_settings[OF e1(1)] by (simp add: select_queue_def q_def)
  define n2 where "n2 = count_state_log (OutMapLog d q) n1"
  have e2: "settings n2 = settings n" "m_cbMmu n2 = m_cbMmu n" "sends (m_out n2) = sends (m_out n)" "port_state n2 = st"
    by (simp_all add: n2_def e1 st1)
  note x2 = settings_sel[OF e2(1)]
  have ded2: "m_creditbouncerDedicatedMmuEnable n2" using ded x2(8) by simp
  define i where "i = in_dev p' inDev"
  obtain a n3 where ad: "admit_dedicated d q p' (p_hdr p') n2 = (a, n3)" by force
  have sy: "sync_cbMmu n2 m = sync_cbMmu n m" for m
    by (simp only: sync_settings[OF e2(1)])
  note ad' = admit_dedicated_spec[OF ded2, of d q p' "p_hdr p'", unfolded ad fst_conv snd_conv e2 sz sy, folded r_def]
  have n': "n' = (if a then hand_over i d q p' (p_hdr p') n3 else n3)"
    using s unfolding SendToDev_def o br option.case prod.case Let_def p1 ch1 fwd qi
    by (cases a) (simp_all add: ded1 tlt_dropped_def n2_def[symmetric] ded2 ad i_def split: if_splits)
  have cb: "m_creditbouncerCBEnable n3 = m_creditbouncerCBEnable n" using settings_sel(5)[OF ad'(3)] .
  show "settings n' = settings n" "m_cbMmu n' = snd r"
    "sends (m_out n') = sends (m_out n) @ (if fst r then [(d, q, p', p_hdr p')] else [])"
    by (simp_all add: n' hand_over_spec ad'(1,2)[symmetric] ad'(3,5))
  show "port_state n' =
      (if fst r \<and> m_creditbouncerCBEnable n \<and> d < sn_pCnt \<and> IsDataPacket (p_hdr p')
       then st(d := (st d)\<lparr>m_qdLenBytes := m_qdLenBytes (st d) + ucast (p_size p)\<rparr>) else st)"
    by (simp add: n' hand_over_spec ad'(1)[symmetric] ad'(4) cb sz)
qed

lemma grant_queue:
  assumes "IsCreditGrantPacket p (p_hdr p)"
  shows "GetDedicatedCbQueueIndex p (p_hdr p) n = 0"
    and "GetDedicatedCbQueueIndex (bounced_version p) (p_hdr (bounced_version p)) n = 0"
    and "\<not> IsDataPacket (p_hdr p)"
proof -
  have l: "l3Prot (p_hdr p) = 0xFB" using grant_prot[OF assms] .
  show "GetDedicatedCbQueueIndex p (p_hdr p) n = 0"
    using assms by (simp add: GetDedicatedCbQueueIndex_def IsCreditGrantPacket_def)
  obtain t where "p_cbTag (bounced_version p) = Some (SetType CB_MSG_BOUNCED_CREDIT t)"
    using bounced_version_tag[OF assms] by blast
  then have "IsCreditBouncerControlPacket (bounced_version p) (p_hdr (bounced_version p))"
    by (simp add: IsCreditBouncerControlPacket_def l SetType_def IsBouncedCredit_def)
  then show "GetDedicatedCbQueueIndex (bounced_version p) (p_hdr (bounced_version p)) n = 0"
    by (simp add: GetDedicatedCbQueueIndex_def)
  show "\<not> IsDataPacket (p_hdr p)" using l by (simp add: IsDataPacket_def)
qed

text \<open>C6: A grant is bounced exactly when flow control is on and the port it came in
  by is paused: then it is offered to the credit queue of that port, as a bounced
  credit with swapped endpoints carrying the same credit, and no port state changes;
  otherwise it is offered unchanged to the credit queue of the routed port and the
  credit it grants is reserved on the phantom queue of the port it came in by.  The
  one thing sent is that packet, and it is sent exactly when the credit queue
  admits it.\<close>
theorem grant_bounce_or_forward:
  assumes "m_creditbouncerDedicatedMmuEnable n" "m_creditbouncerCBEnable n"
    and "IsCreditGrantPacket p (p_hdr p)" "inDev < sn_pCnt" "inDev < m_nDevices n" "idx < sn_pCnt"
    and "GetOutDev env p (p_hdr p) n = Some (Some idx, n0)" "SendToDev env p (p_hdr p) inDev n = Some n'"
  defines "bounced \<equiv> fc_on n \<and> m_fcState (port_state n inDev) = CB_FCSTATE_PAUSE"
  defines "d \<equiv> if bounced then inDev else idx" and "p' \<equiv> if bounced then bounced_version p else p"
  shows "sends (m_out n') = sends (m_out n) @
      (if fst (CheckCreditAdmission d (p_size p) (sync_cbMmu n (m_cbMmu n))) then [(d, 0, p', p_hdr p')] else [])
    \<and> port_state n' = (if bounced then port_state n
        else (port_state n)(inDev := (port_state n inDev)
               \<lparr>m_qpLenBytes := m_qpLenBytes (port_state n inDev) + ucast (m_creditBytes (the (p_cbTag p)))\<rparr>))
    \<and> (\<exists>t. p_cbTag p = Some t \<and> p_cbTag p' = (if bounced then Some (SetType CB_MSG_BOUNCED_CREDIT t) else Some t))"
proof -
  have b: "bounces inDev idx p n \<longleftrightarrow> bounced"
    using assms(2-6) by (auto simp: bounces_def ShouldBounceCreditPacket_def bounced_def fc_on_def)
  note s = SendToDev_dedicated[OF assms(1,8,7), unfolded b, folded d_def p'_def]
  have q: "GetDedicatedCbQueueIndex p' (p_hdr p') n = 0" using grant_queue[OF assms(3)] by (simp add: p'_def)
  have nd: "\<not> IsDataPacket (p_hdr p')" using grant_queue(3)[OF assms(3)]
    by (simp add: p'_def IsDataPacket_def)
  have a: "fst (admit_packet d 0 (p_size p) m) = fst (CheckCreditAdmission d (p_size p) m)" for m
    by (simp add: admit_packet_def split: prod.split)
  have t: "\<exists>t. p_cbTag p = Some t \<and> p_cbTag p' = (if bounced then Some (SetType CB_MSG_BOUNCED_CREDIT t) else Some t)"
    using bounced_version_tag[OF assms(3)] by (auto simp: p'_def)
  show ?thesis using s(3,4) assms(2-4) t by (simp add: q a nd reserve_def)
qed

lemma SendToDev_dedicated_total:
  assumes "m_creditbouncerDedicatedMmuEnable n" "GetOutDev env p ch n = Some (Some idx, n0)"
    and "\<not> e_debug env"
  shows "\<exists>n'. SendToDev env p ch inDev n = Some n'"
proof -
  obtain p1 ch1 fwd n1 where br: "bounce_or_reserve inDev idx p ch n0 = (p1, ch1, fwd, n1)"
    by (metis prod_cases4)
  have "settings (snd (snd (snd (bounce_or_reserve inDev idx p ch n0)))) = settings n0"
    by (simp add: bounce_or_reserve_def Let_def split_beta split: option.split)
  then have "settings n1 = settings n" using GetOutDev_spec(1)[OF assms(2)] by (simp add: br)
  then have "m_creditbouncerDedicatedMmuEnable n1" using assms(1) settings_sel(8) by blast
  moreover from this have "m_creditbouncerDedicatedMmuEnable (count_state_log x n1)" for x
    using settings_sel(8)[of "count_state_log x n1" n1] by simp
  ultimately show ?thesis
    using assms(3) by (auto simp: SendToDev_def assms(2) br Let_def tlt_dropped_def split: prod.split bool.split)
qed

text \<open>A switch of four ports with a dedicated buffer manager, as created.\<close>
definition fresh_switch :: "u32 \<Rightarrow> nat \<Rightarrow> QbbDevice tab \<Rightarrow> SwitchMmu \<Rightarrow> u32 tab \<Rightarrow> u32 tab \<Rightarrow> SwitchNode" where
  "fresh_switch ident nd devs mmu g h =
     (SwitchNode_initial ident nd devs mmu (GetTypeId_initial g h))\<lparr>m_creditbouncerDedicatedMmuEnable := True\<rparr>"

definition route :: "(u32 \<rightharpoonup> nat list) \<Rightarrow> SwitchNode \<Rightarrow> SwitchNode" where
  "route t n = n\<lparr>m_rtTable := t\<rparr>"

lemma fresh_sel [simp]:
  "m_creditbouncerDedicatedMmuEnable (fresh_switch i nd devs mmu g h)"
  "m_creditbouncerCBEnable (fresh_switch i nd devs mmu g h)" "fc_on (fresh_switch i nd devs mmu g h)"
  "m_nDevices (fresh_switch i nd devs mmu g h) = nd" "m_out (fresh_switch i nd devs mmu g h) = []"
  "m_cbMmu (fresh_switch i nd devs mmu g h) = GetTypeId_initial g h"
  "m_creditbouncerDedicatedCreditQueueBytes (fresh_switch i nd devs mmu g h) = 65536"
  "m_fcState (port_state (fresh_switch i nd devs mmu g h) d) = CB_FCSTATE_NORMAL"
  "m_qdLenBytes (port_state (fresh_switch i nd devs mmu g h) d) = 0"
  by (simp_all add: fresh_switch_def SwitchNode_initial_def fc_on_def)

lemma route_sel [simp]:
  "m_creditbouncerDedicatedMmuEnable (route t n) = m_creditbouncerDedicatedMmuEnable n"
  "m_creditbouncerCBEnable (route t n) = m_creditbouncerCBEnable n" "fc_on (route t n) = fc_on n"
  "m_nDevices (route t n) = m_nDevices n" "m_out (route t n) = m_out n" "m_cbMmu (route t n) = m_cbMmu n"
  "m_creditbouncerDedicatedCreditQueueBytes (route t n) = m_creditbouncerDedicatedCreditQueueBytes n"
  "port_state (route t n) = port_state n" "m_rtTable (route t n) = t"
  by (simp_all add: route_def fc_on_def)

lemma fresh_admits_credit:
  assumes "0 < d" "d < pCnt" "unat sz \<le> 65535"
  shows "fst (CheckCreditAdmission d sz (sync_cbMmu (route t (fresh_switch i nd devs mmu g h)) (GetTypeId_initial g h)))"
proof -
  have c: "cb_core (sync_cbMmu (route t (fresh_switch i nd devs mmu g h)) (GetTypeId_initial g h))
      = cb_core (SetActivePortCnt (activePortCnt (route t (fresh_switch i nd devs mmu g h))) (GetTypeId_initial g h))"
    by (intro cb_core_sync) (simp add: initial_sel)
  have "sz \<le> 65536" using assms(3) by (simp add: word_le_nat_alt)
  then show ?thesis using assms(1,2) unfolding cb_core_facts(6)[OF c]
    by (simp add: CheckCreditAdmission_iff bad_port_def SetActivePortCnt_def initial_sel)
qed

lemma example_grant: "IsCreditGrantPacket grant_packet (p_hdr grant_packet)"
  by (simp add: IsCreditGrantPacket_def IsCreditBouncerControlPacket_def)
    (simp add: grant_packet_def IsGrant_def CreditBouncerTag_ctor_def)

lemma grant_bounce_or_forward_witness:
  "\<forall>env devs mmu g h. \<exists>n'. SendToDev (env\<lparr>e_debug := False\<rparr>) grant_packet (p_hdr grant_packet) 2
       (route [0x0b000201 \<mapsto> [3, 4]] (upd_port 2 (\<lambda>s. s\<lparr>m_fcState := CB_FCSTATE_PAUSE\<rparr>) (fresh_switch 7 5 devs mmu g h))) = Some n'
     \<and> (\<exists>ch. sends (m_out n') = [(2, 0, bounced_version grant_packet, ch)])"
proof (intro allI)
  fix env :: Env and devs mmu g h
  let ?env = "env\<lparr>e_debug := False\<rparr>" and ?f = "\<lambda>s :: CreditBouncerPortState. s\<lparr>m_fcState := CB_FCSTATE_PAUSE\<rparr>"
  let ?n = "route [0x0b000201 \<mapsto> [3, 4]] (upd_port 2 ?f (fresh_switch 7 5 devs mmu g h))"
  have u: "m_creditbouncerDedicatedMmuEnable ?n" "m_creditbouncerCBEnable ?n" "fc_on ?n" "m_nDevices ?n = 5"
    using settings_sel(1,5,8)[of "upd_port 2 ?f (fresh_switch 7 5 devs mmu g h)" "fresh_switch 7 5 devs mmu g h"]
      on_settings(1)[of "upd_port 2 ?f (fresh_switch 7 5 devs mmu g h)" "fresh_switch 7 5 devs mmu g h"] by simp_all
  have "\<exists>k<length [3, 4 :: nat]. \<exists>m. GetOutDev ?env grant_packet (p_hdr grant_packet) ?n = Some (Some ([3, 4] ! k), m)"
    by (intro GetOutDev_table) simp_all
  then obtain k m where o: "k < 2" "GetOutDev ?env grant_packet (p_hdr grant_packet) ?n = Some (Some ([3, 4] ! k), m)"
    by (auto simp: numeral_2_eq_2)
  have i: "[3, 4 :: nat] ! k < sn_pCnt" using o(1) by (cases k) (auto simp: sn_pCnt_def less_Suc_eq numeral_2_eq_2)
  obtain n' where s: "SendToDev ?env grant_packet (p_hdr grant_packet) 2 ?n = Some n'"
    using SendToDev_dedicated_total[OF u(1) o(2)] by auto
  have sy: "sync_cbMmu ?n = sync_cbMmu (route [0x0b000201 \<mapsto> [3, 4]] (fresh_switch 7 5 devs mmu g h))"
    by (rule sync_settings) (simp add: settings_def upd_port_def route_def)
  have z: "p_size grant_packet = 84" by (simp add: grant_packet_def)
  have "fst (CheckCreditAdmission 2 (p_size grant_packet) (sync_cbMmu ?n (m_cbMmu ?n)))"
    unfolding sy using fresh_admits_credit[of 2 84 _ 7 5] by (simp add: pCnt_def z)
  then show "\<exists>n'. SendToDev ?env grant_packet (p_hdr grant_packet) 2 ?n = Some n'
      \<and> (\<exists>ch. sends (m_out n') = [(2, 0, bounced_version grant_packet, ch)])"
    using grant_bounce_or_forward[OF u(1,2) example_grant _ _ i o(2) s] s u(3,4) by (simp add: sn_pCnt_def)
qed

section \<open>The switch and its queues\<close>

text \<open>A packet arrives at a port, or the packet at the head of a queue leaves.  The
  queues are those of the devices: what the node sends is appended, what leaves
  is taken from the head.\<close>
datatype sw_op = Rx Env nat NsPacket | Tx Env nat nat

type_synonym port_queues = "nat \<Rightarrow> nat \<Rightarrow> NsPacket list"

definition append_to :: "nat \<times> nat \<times> NsPacket \<times> CustomHeader \<Rightarrow> port_queues \<Rightarrow> port_queues" where
  "append_to x F = (case x of (d, q, p, ch) \<Rightarrow> F(d := (F d)(q := F d q @ [p])))"

fun sw_step :: "sw_op \<Rightarrow> SwitchNode \<times> port_queues \<Rightarrow> (SwitchNode \<times> port_queues) option" where
  "sw_step (Rx env inDev p) (n, F) =
    (case SwitchReceiveFromDevice env (Some inDev) p (p_hdr p) n of None \<Rightarrow> None
     | Some n' \<Rightarrow> Some (n', fold append_to (drop (length (sends (m_out n))) (sends (m_out n'))) F))"
| "sw_step (Tx env d q) (n, F) =
    (case F d q of [] \<Rightarrow> Some (n, F)
     | p # ps \<Rightarrow> (case SwitchNotifyDequeue env d q p n of None \<Rightarrow> None
        | Some (p', n') \<Rightarrow> Some (n', F(d := (F d)(q := ps)))))"

fun sw_run :: "sw_op list \<Rightarrow> SwitchNode \<times> port_queues \<Rightarrow> (SwitchNode \<times> port_queues) option" where
  "sw_run [] s = Some s"
| "sw_run (op # ops) s = (case sw_step op s of None \<Rightarrow> None | Some s \<Rightarrow> sw_run ops s)"

fun sw_op_ok :: "sw_op \<Rightarrow> bool" where
  "sw_op_ok (Rx env inDev p) \<longleftrightarrow> unat (p_size p) \<le> 65535"
| "sw_op_ok (Tx env d q) \<longleftrightarrow> True"

definition bytes_of :: "NsPacket list \<Rightarrow> nat" where
  "bytes_of ps = (\<Sum>p\<leftarrow>ps. unat (p_size p))"

definition data_bytes_of :: "NsPacket list \<Rightarrow> nat" where
  "data_bytes_of ps = bytes_of (filter (\<lambda>p. IsDataPacket (p_hdr p)) ps)"

lemma bytes_of_simps [simp]:
  "bytes_of [] = 0" "bytes_of (p # ps) = unat (p_size p) + bytes_of ps"
  "bytes_of (ps @ qs) = bytes_of ps + bytes_of qs"
  by (simp_all add: bytes_of_def)

lemma data_bytes_of_simps [simp]:
  "data_bytes_of [] = 0" "data_bytes_of (ps @ qs) = data_bytes_of ps + data_bytes_of qs"
  "data_bytes_of (p # ps) = (if IsDataPacket (p_hdr p) then unat (p_size p) else 0) + data_bytes_of ps"
  by (simp_all add: data_bytes_of_def)

lemma data_bytes_le: "data_bytes_of ps \<le> bytes_of ps"
  by (induction ps) auto

text \<open>Every counter is the number of bytes it counts.\<close>
definition sw_ok :: "SwitchNode \<times> port_queues \<Rightarrow> bool" where
  "sw_ok s \<longleftrightarrow> (case s of (n, F) \<Rightarrow>
     m_creditbouncerDedicatedMmuEnable n \<and> m_creditbouncerCBEnable n \<and> synced n
     \<and> pool_ok (m_cbMmu n) \<and> credit_ok 65535 (m_cbMmu n)
     \<and> (\<forall>d. credit_occ (m_cbMmu n) d = bytes_of (F d 0))
     \<and> (\<forall>d. data_occ (m_cbMmu n) d = bytes_of (F d 1))
     \<and> (\<forall>d q. bad_port d \<longrightarrow> F d q = []) \<and> (\<forall>d. \<forall>q>1. F d q = [])
     \<and> (\<forall>d. d < sn_pCnt \<longrightarrow> unat (m_qdLenBytes (port_state n d)) = data_bytes_of (F d 1))
     \<and> (\<forall>d. \<forall>p\<in>set (F d 0). \<not> IsDataPacket (p_hdr p)))"

lemma sn_pCnt_pCnt: "sn_pCnt = pCnt"
  by (simp add: sn_pCnt_def pCnt_def)

text \<open>The buffer manager across one admission.\<close>
definition cb_ok :: "SwitchCbMmu \<Rightarrow> bool" where
  "cb_ok m \<longleftrightarrow> pool_ok m \<and> credit_ok 65535 m"

lemma cross_sel [simp]:
  "data_occ (UpdateCreditAdmission d sz m) = data_occ m" "data_occ (RemoveCreditAdmission d sz m) = data_occ m"
  "credit_occ (UpdateDataAdmission d sz m) = credit_occ m" "credit_occ (RemoveDataAdmission d sz m) = credit_occ m"
  "credit_ok k (UpdateDataAdmission d sz m) = credit_ok k m" "credit_ok k (RemoveDataAdmission d sz m) = credit_ok k m"
proof -
  have "m_dataQueueBytes (UpdateCreditAdmission d sz m) = m_dataQueueBytes m"
    "m_dataQueueBytes (RemoveCreditAdmission d sz m) = m_dataQueueBytes m"
    by (simp_all add: UpdateCreditAdmission_def RemoveCreditAdmission_def Let_def)
  then show "data_occ (UpdateCreditAdmission d sz m) = data_occ m" "data_occ (RemoveCreditAdmission d sz m) = data_occ m"
    by (simp_all add: data_occ_def fun_eq_iff)
  show "credit_occ (UpdateDataAdmission d sz m) = credit_occ m" "credit_occ (RemoveDataAdmission d sz m) = credit_occ m"
    "credit_ok k (UpdateDataAdmission d sz m) = credit_ok k m" "credit_ok k (RemoveDataAdmission d sz m) = credit_ok k m"
    by (simp_all add: credit_occ_def credit_ok_def fun_eq_iff)
qed

lemma admit_packet_ok:
  assumes "cb_ok m" "unat sz \<le> 65535" "admit_packet d q sz m = (a, m')"
  shows "cb_ok m'" "a \<Longrightarrow> \<not> bad_port d"
    and "credit_occ m' = (if a \<and> q = 0 then (credit_occ m)(d := credit_occ m d + unat sz) else credit_occ m)"
    and "data_occ m' = (if a \<and> q \<noteq> 0 then (data_occ m)(d := data_occ m d + unat sz) else data_occ m)"
    and "m_activePortCnt m' = m_activePortCnt m" "m_creditQueueLimitBytes m' = m_creditQueueLimitBytes m"
proof -
  have "cb_ok m' \<and> (a \<longrightarrow> \<not> bad_port d)
    \<and> credit_occ m' = (if a \<and> q = 0 then (credit_occ m)(d := credit_occ m d + unat sz) else credit_occ m)
    \<and> data_occ m' = (if a \<and> q \<noteq> 0 then (data_occ m)(d := data_occ m d + unat sz) else data_occ m)
    \<and> m_activePortCnt m' = m_activePortCnt m \<and> m_creditQueueLimitBytes m' = m_creditQueueLimitBytes m"
  proof (cases "q = 0")
    case True
    obtain b k where c: "CheckCreditAdmission d sz m = (b, k)" by force
    then have k: "k = snd (CheckCreditAdmission d sz m)" "b = fst (CheckCreditAdmission d sz m)" by simp_all
    have r: "a = b" "m' = (if b then UpdateCreditAdmission d sz k else k)"
      using assms(3) True c by (auto simp: admit_packet_def)
    have ok: "pool_ok m" "credit_ok 65535 m" using assms(1) by (simp_all add: cb_ok_def)
    have kk: "pool_ok k" "credit_ok 65535 k" "data_occ k = data_occ m" "credit_occ k = credit_occ m"
      "m_activePortCnt k = m_activePortCnt m" "m_creditQueueLimitBytes k = m_creditQueueLimitBytes m"
      using ok by (simp_all add: k(1))
    show ?thesis
    proof (cases b)
      case True
      have "credit_ok 65535 (UpdateCreditAdmission d sz k)"
        "credit_occ (UpdateCreditAdmission d sz k) = (credit_occ m)(d := credit_occ m d + unat sz)"
        using credit_side.charge_inv[OF ok(2) TrueI assms(2)] credit_side.charge_occ[OF ok(2) TrueI assms(2)] True k
        by simp_all
      moreover have "\<not> bad_port d" using True k(2) by (simp add: CheckCreditAdmission_iff)
      moreover have "m_activePortCnt (UpdateCreditAdmission d sz k) = m_activePortCnt k"
        by (simp add: UpdateCreditAdmission_def Let_def)
      ultimately show ?thesis using \<open>q = 0\<close> True r kk by (simp add: cb_ok_def)
    qed (use r kk in \<open>simp add: cb_ok_def\<close>)
  next
    case False
    obtain b k where c: "CheckDataAdmission d sz m = (b, k)" by force
    then have k: "k = snd (CheckDataAdmission d sz m)" "b = fst (CheckDataAdmission d sz m)" by simp_all
    have r: "a = b" "m' = (if b then UpdateDataAdmission d sz k else k)"
      using assms(3) False c by (auto simp: admit_packet_def)
    have ok: "pool_ok m" "credit_ok 65535 m" using assms(1) by (simp_all add: cb_ok_def)
    have kk: "pool_ok k" "credit_ok 65535 k" "data_occ k = data_occ m" "credit_occ k = credit_occ m"
      "m_activePortCnt k = m_activePortCnt m" "m_creditQueueLimitBytes k = m_creditQueueLimitBytes m"
      using ok by (simp_all add: k(1))
    show ?thesis
    proof (cases b)
      case True
      have z: "unat sz \<le> 4294967295" using assms(2) by simp
      have "pool_ok (UpdateDataAdmission d sz k)"
        "data_occ (UpdateDataAdmission d sz k) = (data_occ m)(d := data_occ m d + unat sz)"
        using data_side.charge_inv[OF ok(1) TrueI z] data_side.charge_occ[OF ok(1) TrueI z] True k
        by simp_all
      moreover have "\<not> bad_port d" using True k(2) by (simp add: CheckDataAdmission_iff)
      ultimately show ?thesis using False True r kk by (simp add: cb_ok_def)
    qed (use r kk in \<open>simp add: cb_ok_def\<close>)
  qed
  then show "cb_ok m'" "a \<Longrightarrow> \<not> bad_port d"
    "credit_occ m' = (if a \<and> q = 0 then (credit_occ m)(d := credit_occ m d + unat sz) else credit_occ m)"
    "data_occ m' = (if a \<and> q \<noteq> 0 then (data_occ m)(d := data_occ m d + unat sz) else data_occ m)"
    "m_activePortCnt m' = m_activePortCnt m" "m_creditQueueLimitBytes m' = m_creditQueueLimitBytes m" by blast+
qed

lemma notify_dedicated_spec:
  shows "settings (notify_dedicated d q p ch n) = settings n"
    and "sends (m_out (notify_dedicated d q p ch n)) = sends (m_out n)"
    and "m_cbMmu (notify_dedicated d q p ch n) =
      (if q = 0 then RemoveCreditAdmission d (p_size p) (m_cbMmu n) else RemoveDataAdmission d (p_size p) (m_cbMmu n))"
    and "port_state (notify_dedicated d q p ch n) =
      (if q \<noteq> 0 \<and> m_creditbouncerCBEnable n \<and> d < sn_pCnt \<and> IsDataPacket ch
       then (port_state n)(d := (port_state n d)\<lparr>m_qdLenBytes := drop_to_zero (m_qdLenBytes (port_state n d)) (ucast (p_size p))\<rparr>)
       else port_state n)"
proof -
  define k where "k = set_bytes (in_dev p d) d q (if m_bytes n (in_dev p d) d q \<ge> p_size p
      then m_bytes n (in_dev p d) d q - p_size p else 0) n"
  have k: "settings k = settings n" "m_out k = m_out n" "m_cbMmu k = m_cbMmu n" "port_state k = port_state n"
    by (simp_all add: k_def set_bytes_def settings_def)
  have u: "settings (upd_cbMmu f k) = settings n" "m_out (upd_cbMmu f k) = m_out n"
    "m_cbMmu (upd_cbMmu f k) = f (m_cbMmu n)" "port_state (upd_cbMmu f k) = port_state n" for f
    using k by (simp_all add: upd_cbMmu_def settings_def)
  have e: "m_creditbouncerCBEnable (upd_cbMmu f k) = m_creditbouncerCBEnable n" for f
    using settings_sel(5)[OF u(1)] .
  have d: "notify_dedicated d q p ch n = (if q = 0 then upd_cbMmu (RemoveCreditAdmission d (p_size p)) k
      else release_qd d (in_dev p d) p ch (upd_cbMmu (RemoveDataAdmission d (p_size p)) k))"
    by (simp add: notify_dedicated_def Let_def k_def)
  show "settings (notify_dedicated d q p ch n) = settings n"
    "sends (m_out (notify_dedicated d q p ch n)) = sends (m_out n)"
    "m_cbMmu (notify_dedicated d q p ch n) =
      (if q = 0 then RemoveCreditAdmission d (p_size p) (m_cbMmu n) else RemoveDataAdmission d (p_size p) (m_cbMmu n))"
    "port_state (notify_dedicated d q p ch n) =
      (if q \<noteq> 0 \<and> m_creditbouncerCBEnable n \<and> d < sn_pCnt \<and> IsDataPacket ch
       then (port_state n)(d := (port_state n d)\<lparr>m_qdLenBytes := drop_to_zero (m_qdLenBytes (port_state n d)) (ucast (p_size p))\<rparr>)
       else port_state n)"
    by (simp_all add: d release_qd_def Let_def u e)
qed

lemma transmit_keeps:
  assumes "UpdateCBPortStateOnTransmit env d p ch n = (p', n')"
  shows "settings n' = settings n" "m_cbMmu n' = m_cbMmu n" "sends (m_out n') = sends (m_out n)"
    "m_qdLenBytes (port_state n' e) = m_qdLenBytes (port_state n e)" "p_size p' = p_size p"
proof -
  have "settings n' = settings n \<and> m_cbMmu n' = m_cbMmu n \<and> sends (m_out n') = sends (m_out n)
    \<and> m_qdLenBytes (port_state n' e) = m_qdLenBytes (port_state n e) \<and> p_size p' = p_size p"
  proof (cases "(fc_on n \<or> cc_on n) \<and> d < sn_pCnt")
    case True
    then show ?thesis using UpdateCBPortStateOnTransmit_spec[OF _ _ assms] by auto
  next
    case False
    then have "p' = p" "n' = n"
      using assms by (auto simp: UpdateCBPortStateOnTransmit_def Let_def fc_on_def cc_on_def)
    then show ?thesis by simp
  qed
  then show "settings n' = settings n" "m_cbMmu n' = m_cbMmu n" "sends (m_out n') = sends (m_out n)"
    "m_qdLenBytes (port_state n' e) = m_qdLenBytes (port_state n e)" "p_size p' = p_size p" by blast+
qed

lemma SwitchNotifyDequeue_dedicated:
  assumes "m_creditbouncerDedicatedMmuEnable n" "SwitchNotifyDequeue env d q p n = Some (p', n')"
  defines "k \<equiv> notify_dedicated d q p (p_hdr p) n"
  shows "settings n' = settings k" "m_cbMmu n' = m_cbMmu k"
    "m_qdLenBytes (port_state n' e) = m_qdLenBytes (port_state k e)"
proof -
  obtain p1 n1 where u: "UpdateCBPortStateOnTransmit env d p (p_hdr p) k = (p1, n1)" by force
  have "\<exists>v. n' = n1\<lparr>m_txBytes := v\<rparr>"
    using assms(1,2) u by (auto simp: SwitchNotifyDequeue_def Let_def k_def split: option.splits)
  then show "settings n' = settings k" "m_cbMmu n' = m_cbMmu k"
    "m_qdLenBytes (port_state n' e) = m_qdLenBytes (port_state k e)"
    using transmit_keeps[OF u] by (auto simp: settings_def)
qed

lemma append_to_fold [simp]:
  "fold append_to [] F = F"
  "fold append_to [(d, q, p, ch)] F = F(d := (F d)(q := F d q @ [p]))"
  by (simp_all add: append_to_def)

lemma synced_transfer:
  assumes "synced n" "settings n' = settings n"
    "m_activePortCnt (m_cbMmu n') = m_activePortCnt (m_cbMmu n)"
    "m_creditQueueLimitBytes (m_cbMmu n') = m_creditQueueLimitBytes (m_cbMmu n)"
  shows "synced n'"
  using assms(1,3,4) settings_sel(1,9)[OF assms(2)] by (simp add: synced_def activePortCnt_def)

lemma sw_ok_same:
  assumes "sw_ok (n, F)" "settings n' = settings n" "m_cbMmu n' = m_cbMmu n"
    and "\<And>e. m_qdLenBytes (port_state n' e) = m_qdLenBytes (port_state n e)"
  shows "sw_ok (n', F)"
  using assms synced_transfer[of n n'] settings_sel(5,8)[OF assms(2)] by (simp add: sw_ok_def)

lemma qd_room:
  assumes "sw_ok (n, F)" "d < sn_pCnt"
  shows "unat (m_qdLenBytes (port_state n d)) < 2 ^ 32"
proof -
  have "unat (m_qdLenBytes (port_state n d)) = data_bytes_of (F d 1)" using assms by (simp add: sw_ok_def)
  also have "\<dots> \<le> bytes_of (F d 1)" by (rule data_bytes_le)
  also have "\<dots> = data_occ (m_cbMmu n) d" using assms(1) by (simp add: sw_ok_def)
  also have "\<dots> < 2 ^ 32" using unat_lt_u32 by (simp add: data_occ_def)
  finally show ?thesis .
qed

text \<open>An arrival that is sent: the packet joins its queue and every counter follows.\<close>
lemma sw_ok_Rx_sent:
  assumes ok: "sw_ok (n, F)" and z: "unat (p_size p) \<le> 65535" and h: "p_size p' = p_size p"
    and q: "q = 0 \<or> q = 1" and q0: "q = 0 \<Longrightarrow> \<not> IsDataPacket (p_hdr p')"
    and r: "admit_packet d q (p_size p) (sync_cbMmu n (m_cbMmu n)) = (a, m')"
    and s: "settings n' = settings n" "m_cbMmu n' = m'"
    and st: "\<And>e. m_qdLenBytes (port_state n' e) =
      (if a \<and> e = d \<and> d < sn_pCnt \<and> IsDataPacket (p_hdr p')
       then m_qdLenBytes (port_state n e) + ucast (p_size p) else m_qdLenBytes (port_state n e))"
  shows "sw_ok (n', if a then F(d := (F d)(q := F d q @ [p'])) else F)"
proof -
  have sy: "synced n" using ok by (simp add: sw_ok_def)
  let ?m = "sync_cbMmu n (m_cbMmu n)"
  note c = synced_core[OF sy]
  have m: "cb_ok ?m" using ok by (simp add: cb_ok_def cb_core_facts[OF c] sw_ok_def)
  note ad = admit_packet_ok[OF m z r]
  have syn: "synced n'"
    using sy s ad(5,6) cb_core_sel(7,8)[OF c] by (intro synced_transfer[of n n']) simp_all
  have occ: "credit_occ m' = (if a \<and> q = 0 then (credit_occ (m_cbMmu n))(d := credit_occ (m_cbMmu n) d + unat (p_size p)) else credit_occ (m_cbMmu n))"
    "data_occ m' = (if a \<and> q \<noteq> 0 then (data_occ (m_cbMmu n))(d := data_occ (m_cbMmu n) d + unat (p_size p)) else data_occ (m_cbMmu n))"
    using ad(3,4) by (simp_all only: cb_core_facts(3,4)[OF c])
  have qd: "unat (m_qdLenBytes (port_state n d) + ucast (p_size p)) = unat (m_qdLenBytes (port_state n d)) + unat (p_size p)"
    if "d < sn_pCnt"
    using qd_room[OF ok that] unat_lt_u32[of "p_size p"]
    by (subst unat_add_lt) (simp_all add: unat_ucast_up)
  show ?thesis
  proof (cases a)
    case False
    then show ?thesis using ok syn occ ad(1) s st settings_sel(5,8)[OF s(1)]
      by (simp add: sw_ok_def cb_ok_def)
  next
    case True
    have nb: "\<not> bad_port d" using ad(2) True .
    show ?thesis using ok syn occ ad(1) s st settings_sel(5,8)[OF s(1)] True nb q q0 qd h
      by (auto simp: sw_ok_def cb_ok_def)
  qed
qed

lemma dedicated_index:
  "GetDedicatedCbQueueIndex p ch n = 0 \<or> GetDedicatedCbQueueIndex p ch n = 1"
  "GetDedicatedCbQueueIndex p ch n = 0 \<Longrightarrow> \<not> IsDataPacket ch"
  by (auto simp: GetDedicatedCbQueueIndex_def IsDataPacket_def IsCreditBouncerControlPacket_def split: if_splits)

lemma sw_ok_Rx:
  assumes ok: "sw_ok (n, F)" and z: "unat (p_size p) \<le> 65535"
    and s: "sw_step (Rx env inDev p) (n, F) = Some s'"
  shows "sw_ok s'"
proof -
  obtain n' where send: "SendToDev env p (p_hdr p) inDev n = Some n'"
    and s': "s' = (n', fold append_to (drop (length (sends (m_out n))) (sends (m_out n'))) F)"
    using s by (auto simp: SwitchReceiveFromDevice_def split: option.splits)
  have ded: "m_creditbouncerDedicatedMmuEnable n" and cbe: "m_creditbouncerCBEnable n"
    using ok by (simp_all add: sw_ok_def)
  obtain o' n0 where o: "GetOutDev env p (p_hdr p) n = Some (o', n0)"
    using send by (auto simp: SendToDev_def split: option.splits)
  show ?thesis
  proof (cases o')
    case None
    then have "n' = n0" using send o by (simp add: SendToDev_def)
    then show ?thesis using sw_ok_same[OF ok, of n0] GetOutDev_spec[OF o] by (simp add: s')
  next
    case (Some idx)
    define b where "b = bounces inDev idx p n"
    define d where "d = (if b then inDev else idx)"
    define p' where "p' = (if b then bounced_version p else p)"
    define q where "q = GetDedicatedCbQueueIndex p' (p_hdr p') n"
    obtain a m' where r: "admit_packet d q (p_size p) (sync_cbMmu n (m_cbMmu n)) = (a, m')" by force
    note t = SendToDev_dedicated[OF ded send o[unfolded Some], folded b_def, folded d_def p'_def, folded q_def,
        unfolded r fst_conv snd_conv]
    have h: "p_size p' = p_size p" by (simp add: p'_def)
    have st: "m_qdLenBytes (port_state n' e) =
      (if a \<and> e = d \<and> d < sn_pCnt \<and> IsDataPacket (p_hdr p')
       then m_qdLenBytes (port_state n e) + ucast (p_size p) else m_qdLenBytes (port_state n e))" for e
      using cbe by (simp add: t(4) reserve_def)
    have "sw_ok (n', if a then F(d := (F d)(q := F d q @ [p'])) else F)"
      using sw_ok_Rx_sent[OF ok z h _ _ r t(1,2) st] dedicated_index[of p' "p_hdr p'" n] by (simp add: q_def)
    then show ?thesis by (cases a) (simp_all add: s' t(3) append_to_def)
  qed
qed

lemma sw_ok_Tx:
  assumes ok: "sw_ok (n, F)" and s: "sw_step (Tx env d q) (n, F) = Some s'"
  shows "sw_ok s'"
proof (cases "F d q")
  case Nil
  then show ?thesis using ok s by simp
next
  case (Cons p ps)
  obtain p' n' where sn: "SwitchNotifyDequeue env d q p n = Some (p', n')"
    and s': "s' = (n', F(d := (F d)(q := ps)))"
    using s Cons by (auto split: option.splits)
  have ded: "m_creditbouncerDedicatedMmuEnable n" and cbe: "m_creditbouncerCBEnable n" and sy: "synced n"
    and pk: "pool_ok (m_cbMmu n)" "credit_ok 65535 (m_cbMmu n)"
    using ok by (simp_all add: sw_ok_def)
  have nb: "\<not> bad_port d" using ok Cons by (auto simp: sw_ok_def)
  then have d: "d < sn_pCnt" by (simp add: sn_pCnt_pCnt)
  have q: "q = 0 \<or> q = 1" using ok Cons by (auto simp: sw_ok_def not_less_eq_eq[symmetric] intro: ccontr)
  note t = SwitchNotifyDequeue_dedicated[OF ded sn] and k = notify_dedicated_spec[of d q p "p_hdr p" n]
  have st: "settings n' = settings n" using t(1) k(1) by simp
  let ?m = "m_cbMmu n"
  have m': "m_cbMmu n' = (if q = 0 then RemoveCreditAdmission d (p_size p) ?m else RemoveDataAdmission d (p_size p) ?m)"
    using t(2) k(3) by simp
  have co: "q = 0 \<Longrightarrow> unat (p_size p) \<le> credit_occ ?m d" and do: "q = 1 \<Longrightarrow> unat (p_size p) \<le> data_occ ?m d"
    using ok Cons by (auto simp: sw_ok_def)
  have syn: "synced n'"
    using sy st by (rule synced_transfer) (simp_all add: m' RemoveCreditAdmission_def Let_def)
  have qd: "m_qdLenBytes (port_state n' e) = (if q \<noteq> 0 \<and> e = d \<and> IsDataPacket (p_hdr p)
      then drop_to_zero (m_qdLenBytes (port_state n e)) (ucast (p_size p)) else m_qdLenBytes (port_state n e))" for e
    using t(3)[of e] cbe d by (simp add: k(4))
  have qe: "unat (drop_to_zero x (ucast (p_size p))) = unat x - unat (p_size p)" for x
    by (simp add: drop_to_zero_nat unat_ucast_up)
  note rest = settings_sel(5,8)[OF st]
  have old: "credit_occ ?m e = bytes_of (F e 0)" "data_occ ?m e = bytes_of (F e 1)"
    "e < sn_pCnt \<Longrightarrow> unat (m_qdLenBytes (port_state n e)) = data_bytes_of (F e 1)"
    "bad_port e \<Longrightarrow> F e r = []" "1 < r \<Longrightarrow> F e r = []"
    "x \<in> set (F e 0) \<Longrightarrow> \<not> IsDataPacket (p_hdr x)" for e r x
    using ok by (simp_all add: sw_ok_def)
  show ?thesis
  proof (cases "q = 0")
    case True
    note c = credit_side.release_inv[OF pk(2) TrueI co[OF True]] credit_side.release_occ[OF pk(2) TrueI co[OF True]]
    have "x \<in> set ps \<Longrightarrow> \<not> IsDataPacket (p_hdr x)" for x using old(6)[of x d] Cons True by simp
    then show ?thesis using syn rest c pk True Cons ded cbe nb old
      by (simp add: s' sw_ok_def m' qd)
  next
    case False
    then have q1: "q = 1" using q by simp
    note c = data_side.release_inv[OF pk(1) TrueI do[OF q1]] data_side.release_occ[OF pk(1) TrueI do[OF q1]]
    have dd: "data_bytes_of (F d 1) = (if IsDataPacket (p_hdr p) then unat (p_size p) else 0) + data_bytes_of ps"
      using Cons q1 by simp
    then have "unat (m_qdLenBytes (port_state n' e)) = data_bytes_of ((F(d := (F d)(1 := ps))) e 1)"
      if "e < sn_pCnt" for e
      using old(3)[OF that] old(3)[OF d] by (simp add: qd qe q1)
    then show ?thesis using syn rest c pk q1 Cons ded cbe nb old(1,2,4-6)
      by (simp add: s' sw_ok_def m')
  qed
qed

lemma sw_ok_run:
  assumes "sw_ok s" "list_all sw_op_ok ops" "sw_run ops s = Some s'"
  shows "sw_ok s'"
  using assms
proof (induction ops arbitrary: s)
  case (Cons op ops)
  obtain n F where s: "s = (n, F)" by force
  obtain s1 where 1: "sw_step op s = Some s1" "sw_run ops s1 = Some s'"
    using Cons.prems(3) by (cases "sw_step op s") simp_all
  have "sw_ok s1"
  proof (cases op)
    case (Rx env inDev p)
    have "unat (p_size p) \<le> 65535" using Cons.prems(2) by (simp add: Rx)
    with Cons.prems(1) show ?thesis using 1(1) unfolding s Rx by (rule sw_ok_Rx)
  next
    case (Tx env d q)
    show ?thesis using Cons.prems(1) 1(1) unfolding s Tx by (rule sw_ok_Tx)
  qed
  then show ?case using Cons.IH 1(2) Cons.prems(2) by simp
qed simp

text \<open>The switch as it is after its first synchronisation.\<close>
definition started :: "u32 \<Rightarrow> nat \<Rightarrow> QbbDevice tab \<Rightarrow> SwitchMmu \<Rightarrow> u32 tab \<Rightarrow> u32 tab \<Rightarrow> (u32 \<rightharpoonup> nat list) \<Rightarrow> SwitchNode" where
  "started ident nd devs mmu g h t = SyncDedicatedCbMmuConfig (route t (fresh_switch ident nd devs mmu g h))"

lemma started_core:
  "cb_core (m_cbMmu (started ident nd devs mmu g h t))
   = cb_core (SetActivePortCnt (word_of_nat (nd - 1)) (GetTypeId_initial g h))"
proof -
  let ?n = "route t (fresh_switch ident nd devs mmu g h)"
  have "m_cbMmu (started ident nd devs mmu g h t) = sync_cbMmu ?n (GetTypeId_initial g h)"
    by (simp add: started_def SyncDedicatedCbMmuConfig_def upd_cbMmu_def)
  moreover have "activePortCnt ?n = word_of_nat (nd - 1)" by (simp add: activePortCnt_def)
  ultimately show ?thesis by (simp add: cb_core_sync initial_sel)
qed

lemma started_sel [simp]:
  "settings (started i nd devs mmu g h t) = settings (route t (fresh_switch i nd devs mmu g h))"
  "port_state (started i nd devs mmu g h t) = port_state (fresh_switch i nd devs mmu g h)"
  "m_out (started i nd devs mmu g h t) = []"
  by (simp_all add: started_def SyncDedicatedCbMmuConfig_def upd_cbMmu_def settings_def)

lemma sw_ok_started:
  assumes "nd \<le> 128"
  shows "sw_ok (started ident nd devs mmu g h t, \<lambda>_ _. [])"
proof -
  let ?n = "started ident nd devs mmu g h t" and ?v = "word_of_nat (nd - 1) :: u32"
  let ?i = "GetTypeId_initial g h"
  let ?m = "SetActivePortCnt ?v ?i"
  note c = started_core[of ident nd devs mmu g h t]
  note se = settings_sel[OF started_sel(1), of ident nd devs mmu g h t]
  have v: "unat ?v \<le> 127" using assms by (simp add: unat_of_nat)
  have "min ?v (word_of_nat pCnt - 1) = ?v" using v by (simp add: min_def pCnt_def word_le_nat_alt)
  then have a: "m_activePortCnt ?m = ?v" by (simp add: SetActivePortCnt_def)
  have l: "m_creditQueueLimitBytes ?m = 65536" by (simp add: SetActivePortCnt_def initial_sel)
  have al: "m_dataAdmissionAlpha ?m = 1" by (simp add: SetActivePortCnt_def initial_sel)
  have p: "pool_ok ?m" using initial_ok(1)[of g h] by (simp add: SetActivePortCnt_def pool_ok_def acct_InitSwitch initial_sel)
  have cr: "credit_ok 65535 ?m" using initial_ok(2)[of g h] by (simp add: SetActivePortCnt_def credit_ok_def initial_sel)
  have oc: "credit_occ ?m e = 0" "data_occ ?m e = 0" for e
    by (simp_all add: SetActivePortCnt_def credit_occ_def data_occ_def initial_sel)
  have "synced ?n" using a l cb_core_sel(7,8)[OF c] se(1,9) by (simp add: synced_def activePortCnt_def)
  then show ?thesis using p cr oc se(5,8)
    by (simp add: sw_ok_def cb_core_facts(1-4)[OF c])
qed

text \<open>C1: In a switch with the dedicated buffer manager every counter is the number of
  bytes it stands for: whatever packets (of at most 65535 bytes) arrive at whatever
  ports and whatever leaves, bounces, reservations, drops and reconfiguration calls
  included, the credit counter of a port is the bytes in its credit queue, the data
  counter is the bytes in its data queue, the physical queue length the flow control
  uses is the bytes of its data packets, the credit queue is within its limit and
  all data queues together are within the pool.\<close>
theorem switch_counters_are_queue_bytes:
  assumes "nd \<le> 128" "list_all sw_op_ok ops"
    and "sw_run ops (started ident nd devs mmu g h t, \<lambda>_ _. []) = Some (n, F)" and "0 < d" "d < pCnt"
  shows "unat (m_creditQueueBytes (m_cbMmu n) d) = bytes_of (F d 0)
     \<and> unat (m_dataQueueBytes (m_cbMmu n) d) = bytes_of (F d 1)
     \<and> unat (m_qdLenBytes (port_state n d)) = data_bytes_of (F d 1)
     \<and> m_creditQueueBytes (m_cbMmu n) d \<le> m_creditQueueLimitBytes (m_cbMmu n)
     \<and> (\<Sum>e<pCnt. bytes_of (F e 1)) \<le> unat (m_dataSharedLimitBytes (m_cbMmu n))"
proof -
  have ok: "sw_ok (n, F)" using sw_ok_run[OF sw_ok_started[OF assms(1)] assms(2,3)] .
  have nb: "\<not> bad_port d" using assms(4,5) by (simp add: bad_port_def)
  let ?m = "m_cbMmu n"
  have a: "acct ?m" "m_dataSharedUsedBytes ?m \<le> m_dataSharedLimitBytes ?m"
    using ok by (simp_all add: sw_ok_def pool_ok_def)
  have "bytes_of (F e 1) = unat (m_dataQueueBytes ?m e)" if "e < pCnt" for e
  proof -
    have "data_occ ?m e = bytes_of (F e 1)" using ok by (simp add: sw_ok_def)
    then show ?thesis using a(1) that by (cases "e = 0") (simp_all add: data_occ_def bad_port_def acct_def)
  qed
  then have "(\<Sum>e<pCnt. bytes_of (F e 1)) = unat (m_dataSharedUsedBytes ?m)"
    using a(1) by (simp add: acct_def)
  moreover have "credit_occ ?m d = bytes_of (F d 0)" "data_occ ?m d = bytes_of (F d 1)"
    "unat (m_qdLenBytes (port_state n d)) = data_bytes_of (F d 1)" "credit_ok 65535 ?m"
    using ok assms(5) by (simp_all add: sw_ok_def sn_pCnt_pCnt)
  moreover from this have "m_creditQueueBytes ?m d \<le> m_creditQueueLimitBytes ?m"
    using assms(5) by (simp add: credit_ok_def)
  ultimately show ?thesis using nb a(2)
    by (simp add: credit_occ_def data_occ_def word_le_nat_alt)
qed

lemma switch_counters_are_queue_bytes_witness:
  "\<forall>env devs mmu g h. \<exists>n F. sw_run [Rx (env\<lparr>e_debug := False\<rparr>) 2 grant_packet]
        (started 7 5 devs mmu g h [0x0b000201 \<mapsto> [3]], \<lambda>_ _. []) = Some (n, F)
     \<and> F 3 0 = [grant_packet] \<and> unat (m_creditQueueBytes (m_cbMmu n) 3) = 84"
proof (intro allI)
  fix env :: Env and devs mmu g h
  let ?env = "env\<lparr>e_debug := False\<rparr>" and ?n = "started 7 5 devs mmu g h [0x0b000201 \<mapsto> [3]]"
  note se = settings_sel[OF started_sel(1), of 7 5 devs mmu g h "[0x0b000201 \<mapsto> [3]]"]
  have u: "m_creditbouncerDedicatedMmuEnable ?n" using se by simp
  have "\<exists>k<length [3 :: nat]. \<exists>m. GetOutDev ?env grant_packet (p_hdr grant_packet) ?n = Some (Some ([3] ! k), m)"
    by (intro GetOutDev_table) (simp_all add: se)
  then obtain m where o: "GetOutDev ?env grant_packet (p_hdr grant_packet) ?n = Some (Some 3, m)" by auto
  obtain n' where s: "SendToDev ?env grant_packet (p_hdr grant_packet) 2 ?n = Some n'"
    using SendToDev_dedicated_total[OF u o] by auto
  have b: "\<not> bounces 2 3 grant_packet ?n" by (simp add: bounces_def ShouldBounceCreditPacket_def)
  have z: "p_size grant_packet = 84" by (simp add: grant_packet_def)
  have ok: "sw_ok (?n, \<lambda>_ _. [])" by (rule sw_ok_started) simp
  have c0: "credit_occ (m_cbMmu ?n) 3 = 0" "m_creditQueueLimitBytes (m_cbMmu ?n) = 65536"
    using ok se(9) by (simp_all add: sw_ok_def synced_def)
  have sy: "synced ?n" using ok by (simp add: sw_ok_def)
  have "fst (CheckCreditAdmission 3 84 (sync_cbMmu ?n (m_cbMmu ?n)))"
    using c0 unfolding cb_core_facts(6)[OF synced_core[OF sy]]
    by (simp add: CheckCreditAdmission_iff bad_port_def pCnt_def credit_occ_def unat_eq_0)
  then have a: "fst (admit_packet 3 0 84 (sync_cbMmu ?n (m_cbMmu ?n)))"
    by (auto simp: admit_packet_def split: prod.split)
  have "sends (m_out n') = [(3, 0, grant_packet, p_hdr grant_packet)]"
    using SendToDev_dedicated(3)[OF u s o] b a grant_queue(1)[OF example_grant]
    by (simp add: z del: example_headers)
  then have r: "sw_run [Rx ?env 2 grant_packet] (?n, \<lambda>_ _. []) = Some (n', append_to (3, 0, grant_packet, p_hdr grant_packet) (\<lambda>_ _. []))"
    using s by (simp add: SwitchReceiveFromDevice_def del: example_headers)
  have l: "list_all sw_op_ok [Rx ?env 2 grant_packet]" by (simp add: z)
  have "unat (m_creditQueueBytes (m_cbMmu n') 3) = bytes_of (append_to (3, 0, grant_packet, p_hdr grant_packet) (\<lambda>_ _. []) 3 0)"
    using switch_counters_are_queue_bytes[OF _ l r, of 3] by (simp add: pCnt_def del: example_headers)
  then show "\<exists>n F. sw_run [Rx ?env 2 grant_packet] (?n, \<lambda>_ _. []) = Some (n, F)
     \<and> F 3 0 = [grant_packet] \<and> unat (m_creditQueueBytes (m_cbMmu n) 3) = 84"
    using r by (intro exI[of _ n'] exI[of _ "append_to (3, 0, grant_packet, p_hdr grant_packet) (\<lambda>_ _. [])"])
      (simp add: append_to_def z del: example_headers)
qed

end
