(* ===== verification/EgressQueue.thy ===== *)
theory EgressQueue
  imports Doubles
begin

text \<open>
  The queues of a switch port in dpdq-ns3: the drop-tail FIFO of
  \<^verbatim>\<open>network/utils/drop-tail-queue.cc\<close> over the base class of
  \<^verbatim>\<open>network/utils/queue.cc\<close>, and the eight-class egress queue of
  \<^verbatim>\<open>network/utils/broadcom-egress-queue.cc\<close> that serves class 0 first and
  the others round robin, skipping the classes paused by PFC.  An NS_ASSERT
  that fails is None.  Traces have no effect and are left out; the clock is an
  argument.
\<close>

section \<open>State\<close>

record BeqPacket =
  bp_size :: u32
  bp_flowNum :: "u32 option"
  bp_uid :: nat

record QueueBase =
  m_nBytes :: u32
  m_nTotalReceivedBytes :: u32
  m_nPackets :: u32
  m_nTotalReceivedPackets :: u32
  m_nTotalDroppedBytes :: u32
  m_nTotalDroppedPackets :: u32

datatype QueueMode = QUEUE_MODE_PACKETS | QUEUE_MODE_BYTES

record DropTailQueue = QueueBase +
  m_packets :: "BeqPacket list"
  m_maxPackets :: u32
  dt_maxBytes :: u32
  dt_bytesInQueue :: u32
  m_mode :: QueueMode

record BEgressQueue = QueueBase +
  m_maxBytes :: double
  m_bytesInQueue :: "u32 tab"
  m_bytesInQueueTotal :: u32
  m_rrlast :: nat
  m_qlast :: nat
  m_queues :: "DropTailQueue tab"
  current_pause_time :: "u32 \<rightharpoonup> nat"
  acc_pause_time :: "u32 \<rightharpoonup> nat"

definition fCnt :: nat where "fCnt = 128"
definition beq_qCnt :: nat where "beq_qCnt = 8"

section \<open>Base class\<close>

definition Queue_Drop :: "BeqPacket \<Rightarrow> 'a QueueBase_scheme \<Rightarrow> 'a QueueBase_scheme" where
  "Queue_Drop p q = q\<lparr>m_nTotalDroppedPackets := m_nTotalDroppedPackets q + 1,
     m_nTotalDroppedBytes := m_nTotalDroppedBytes q + bp_size p\<rparr>"

text \<open>The bookkeeping of Enqueue and of Dequeue.\<close>
definition book_in :: "BeqPacket \<Rightarrow> 'a QueueBase_scheme \<Rightarrow> 'a QueueBase_scheme" where
  "book_in p q = q\<lparr>m_nBytes := m_nBytes q + bp_size p,
     m_nTotalReceivedBytes := m_nTotalReceivedBytes q + bp_size p,
     m_nPackets := m_nPackets q + 1,
     m_nTotalReceivedPackets := m_nTotalReceivedPackets q + 1\<rparr>"

definition book_out :: "BeqPacket \<Rightarrow> 'a QueueBase_scheme \<Rightarrow> 'a QueueBase_scheme option" where
  "book_out p q =
    (if m_nBytes q \<ge> bp_size p \<and> m_nPackets q > 0
     then Some (q\<lparr>m_nBytes := m_nBytes q - bp_size p, m_nPackets := m_nPackets q - 1\<rparr>)
     else None)"

section \<open>Drop-tail queue\<close>

definition DropTail_ctor :: DropTailQueue where
  "DropTail_ctor = \<lparr>m_nBytes = 0, m_nTotalReceivedBytes = 0, m_nPackets = 0,
     m_nTotalReceivedPackets = 0, m_nTotalDroppedBytes = 0, m_nTotalDroppedPackets = 0,
     m_packets = [], m_maxPackets = 100, dt_maxBytes = 30000 * 65535, dt_bytesInQueue = 0,
     m_mode = QUEUE_MODE_BYTES\<rparr>"

definition DropTail_DoEnqueue :: "BeqPacket \<Rightarrow> DropTailQueue \<Rightarrow> bool \<times> DropTailQueue" where
  "DropTail_DoEnqueue p d =
    (if m_mode d = QUEUE_MODE_PACKETS \<and> length (m_packets d) \<ge> unat (m_maxPackets d)
     then (False, Queue_Drop p d)
     else if m_mode d = QUEUE_MODE_BYTES \<and> dt_bytesInQueue d + bp_size p \<ge> dt_maxBytes d
     then (False, Queue_Drop p d)
     else (True, d\<lparr>dt_bytesInQueue := dt_bytesInQueue d + bp_size p, m_packets := m_packets d @ [p]\<rparr>))"

definition DropTail_Enqueue :: "BeqPacket \<Rightarrow> DropTailQueue \<Rightarrow> bool \<times> DropTailQueue" where
  "DropTail_Enqueue p d =
    (let (retval, d) = DropTail_DoEnqueue p d in (retval, if retval then book_in p d else d))"

fun DropTail_DoDequeue :: "DropTailQueue \<Rightarrow> BeqPacket option \<times> DropTailQueue" where
  "DropTail_DoDequeue d =
    (case m_packets d of [] \<Rightarrow> (None, d)
     | p # ps \<Rightarrow> (Some p, d\<lparr>m_packets := ps, dt_bytesInQueue := dt_bytesInQueue d - bp_size p\<rparr>))"

definition DropTail_Dequeue :: "DropTailQueue \<Rightarrow> (BeqPacket option \<times> DropTailQueue) option" where
  "DropTail_Dequeue d =
    (case DropTail_DoDequeue d of (None, d) \<Rightarrow> Some (None, d)
     | (Some p, d) \<Rightarrow> (case book_out p d of None \<Rightarrow> None | Some d \<Rightarrow> Some (Some p, d)))"

definition DropTail_DoPeek :: "DropTailQueue \<Rightarrow> BeqPacket option" where
  "DropTail_DoPeek d = (case m_packets d of [] \<Rightarrow> None | p # ps \<Rightarrow> Some p)"

section \<open>Egress queue\<close>

text \<open>The constructor leaves m_qlast unset: the argument.\<close>
definition BEgressQueue_ctor :: "nat \<Rightarrow> BEgressQueue" where
  "BEgressQueue_ctor qlast = \<lparr>m_nBytes = 0, m_nTotalReceivedBytes = 0, m_nPackets = 0,
     m_nTotalReceivedPackets = 0, m_nTotalDroppedBytes = 0, m_nTotalDroppedPackets = 0,
     m_maxBytes = 1000 * 1024 * 1024, m_bytesInQueue = (\<lambda>_. 0), m_bytesInQueueTotal = 0,
     m_rrlast = 0, m_qlast = qlast, m_queues = (\<lambda>_. DropTail_ctor),
     current_pause_time = Map.empty, acc_pause_time = Map.empty\<rparr>"

text \<open>The result of the class's own Enqueue is not looked at.\<close>
definition Beq_DoEnqueue :: "BeqPacket \<Rightarrow> nat \<Rightarrow> BEgressQueue \<Rightarrow> bool \<times> BEgressQueue" where
  "Beq_DoEnqueue p qIndex b =
    (if dbl_of_word (m_bytesInQueueTotal b + bp_size p) < m_maxBytes b
     then (True, b\<lparr>m_queues := (m_queues b)(qIndex := snd (DropTail_Enqueue p (m_queues b qIndex))),
             m_bytesInQueueTotal := m_bytesInQueueTotal b + bp_size p,
             m_bytesInQueue := (m_bytesInQueue b)(qIndex := m_bytesInQueue b qIndex + bp_size p)\<rparr>)
     else (False, b))"

definition Beq_Enqueue :: "BeqPacket \<Rightarrow> nat \<Rightarrow> BEgressQueue \<Rightarrow> bool \<times> BEgressQueue" where
  "Beq_Enqueue p qIndex b =
    (let (retval, b) = Beq_DoEnqueue p qIndex b in (retval, if retval then book_in p b else b))"

text \<open>A packet held back by a pause starts its flow's pause clock.\<close>
definition note_blocked :: "nat \<Rightarrow> nat \<Rightarrow> BEgressQueue \<Rightarrow> BEgressQueue" where
  "note_blocked now j b =
    (case DropTail_DoPeek (m_queues b j) of None \<Rightarrow> b
     | Some p \<Rightarrow> (case bp_flowNum p of None \<Rightarrow> b
        | Some flowid \<Rightarrow> (case current_pause_time b flowid of
             None \<Rightarrow> b\<lparr>current_pause_time := (current_pause_time b)(flowid \<mapsto> now)\<rparr>
           | Some _ \<Rightarrow> b)))"

text \<open>A packet that is sent stops it.\<close>
definition note_served :: "nat \<Rightarrow> BeqPacket \<Rightarrow> BEgressQueue \<Rightarrow> BEgressQueue" where
  "note_served now p b =
    (case bp_flowNum p of None \<Rightarrow> b
     | Some flowid \<Rightarrow> (case current_pause_time b flowid of None \<Rightarrow> b
        | Some since \<Rightarrow>
            let tdiff = now - since;
                acc = (case acc_pause_time b flowid of None \<Rightarrow> 0 | Some a \<Rightarrow> a)
            in b\<lparr>acc_pause_time := (acc_pause_time b)(flowid \<mapsto> acc + tdiff),
                 current_pause_time := (current_pause_time b)(flowid := None)\<rparr>))"

text \<open>The round-robin loop: offsets are those still to be tried.\<close>
fun rr_scan :: "nat \<Rightarrow> (nat \<Rightarrow> bool) \<Rightarrow> nat list \<Rightarrow> BEgressQueue \<Rightarrow> nat option \<times> BEgressQueue" where
  "rr_scan now paused [] b = (None, b)"
| "rr_scan now paused (k # ks) b =
    (let j = (k + m_rrlast b) mod beq_qCnt;
         cond1 = (\<not> paused j);
         cond2 = (m_nPackets (m_queues b j) > 0)
     in if \<not> cond1 \<and> cond2 then rr_scan now paused ks (note_blocked now j b)
        else if cond1 \<and> cond2 then (Some j, b)
        else rr_scan now paused ks b)"

definition choose_queue :: "nat \<Rightarrow> (nat \<Rightarrow> bool) \<Rightarrow> BEgressQueue \<Rightarrow> nat option \<times> BEgressQueue" where
  "choose_queue now paused b =
    (if m_nPackets (m_queues b 0) > 0 then (Some 0, b) else rr_scan now paused [1..<beq_qCnt + 1] b)"

text \<open>Taking the packet at the head of the chosen class.  An empty class here would
  be a null dereference in the code.\<close>
definition take_from :: "nat \<Rightarrow> nat \<Rightarrow> BEgressQueue \<Rightarrow> (BeqPacket option \<times> BEgressQueue) option" where
  "take_from now qIndex b =
    (case DropTail_Dequeue (m_queues b qIndex) of
       Some (Some p, d) \<Rightarrow>
         let b = note_served now p (b\<lparr>m_queues := (m_queues b)(qIndex := d)\<rparr>) in
         Some (Some p, b\<lparr>m_bytesInQueueTotal := m_bytesInQueueTotal b - bp_size p,
           m_bytesInQueue := (m_bytesInQueue b)(qIndex := m_bytesInQueue b qIndex - bp_size p),
           m_rrlast := (if qIndex \<noteq> 0 then qIndex else m_rrlast b),
           m_qlast := qIndex\<rparr>)
     | _ \<Rightarrow> None)"

definition DoDequeueRR :: "nat \<Rightarrow> (nat \<Rightarrow> bool) \<Rightarrow> BEgressQueue \<Rightarrow> (BeqPacket option \<times> BEgressQueue) option" where
  "DoDequeueRR now paused b =
    (if m_bytesInQueueTotal b = 0 then Some (None, b)
     else case choose_queue now paused b of (None, b) \<Rightarrow> Some (None, b)
          | (Some qIndex, b) \<Rightarrow> take_from now qIndex b)"

definition DequeueRR :: "nat \<Rightarrow> (nat \<Rightarrow> bool) \<Rightarrow> BEgressQueue \<Rightarrow> (BeqPacket option \<times> BEgressQueue) option" where
  "DequeueRR now paused b =
    (case DoDequeueRR now paused b of
       Some (Some p, b) \<Rightarrow> (case book_out p b of None \<Rightarrow> None | Some b \<Rightarrow> Some (Some p, b))
     | r \<Rightarrow> r)"

section \<open>The classes as packet lists\<close>

definition classes :: "BEgressQueue \<Rightarrow> BeqPacket list tab" where
  "classes b j = m_packets (m_queues b j)"

definition pkt_bytes :: "BeqPacket list \<Rightarrow> nat" where
  "pkt_bytes ps = (\<Sum>p\<leftarrow>ps. unat (bp_size p))"

lemma pkt_bytes_simps [simp]:
  "pkt_bytes [] = 0" "pkt_bytes (p # ps) = unat (bp_size p) + pkt_bytes ps"
  "pkt_bytes (ps @ qs) = pkt_bytes ps + pkt_bytes qs"
  by (simp_all add: pkt_bytes_def)

text \<open>A drop-tail queue whose counters are those of its packets, and one with the default limit.\<close>
definition dt_books :: "DropTailQueue \<Rightarrow> bool" where
  "dt_books d \<longleftrightarrow> m_mode d = QUEUE_MODE_BYTES
     \<and> unat (dt_bytesInQueue d) = pkt_bytes (m_packets d)
     \<and> unat (m_nBytes d) = pkt_bytes (m_packets d)
     \<and> unat (m_nPackets d) = length (m_packets d)
     \<and> (\<forall>p\<in>set (m_packets d). 0 < bp_size p)"

definition dt_ok :: "DropTailQueue \<Rightarrow> bool" where
  "dt_ok d \<longleftrightarrow> dt_books d \<and> dt_maxBytes d = 30000 * 65535"

definition total_bytes :: "BEgressQueue \<Rightarrow> nat" where
  "total_bytes b = (\<Sum>j<fCnt. pkt_bytes (classes b j))"

definition total_packets :: "BEgressQueue \<Rightarrow> nat" where
  "total_packets b = (\<Sum>j<fCnt. length (classes b j))"

definition beq_ok :: "BEgressQueue \<Rightarrow> bool" where
  "beq_ok b \<longleftrightarrow> (\<forall>j. dt_ok (m_queues b j)) \<and> (\<forall>j\<ge>fCnt. classes b j = [])
     \<and> (\<forall>j. unat (m_bytesInQueue b j) = pkt_bytes (classes b j))
     \<and> unat (m_bytesInQueueTotal b) = total_bytes b
     \<and> unat (m_nBytes b) = total_bytes b \<and> unat (m_nPackets b) = total_packets b
     \<and> total_bytes b < 1048576000 \<and> m_maxBytes b = 1048576000"


section \<open>Bookkeeping lemmas\<close>

lemma note_blocked_sel [simp]:
  "m_queues (note_blocked now j b) = m_queues b" "m_rrlast (note_blocked now j b) = m_rrlast b"
  "m_bytesInQueueTotal (note_blocked now j b) = m_bytesInQueueTotal b"
  "m_bytesInQueue (note_blocked now j b) = m_bytesInQueue b" "m_nBytes (note_blocked now j b) = m_nBytes b"
  "m_nPackets (note_blocked now j b) = m_nPackets b" "m_maxBytes (note_blocked now j b) = m_maxBytes b"
  by (simp_all add: note_blocked_def split: option.splits)

lemma note_served_sel [simp]:
  "m_queues (note_served now p b) = m_queues b" "m_rrlast (note_served now p b) = m_rrlast b"
  "m_bytesInQueueTotal (note_served now p b) = m_bytesInQueueTotal b"
  "m_bytesInQueue (note_served now p b) = m_bytesInQueue b" "m_nBytes (note_served now p b) = m_nBytes b"
  "m_nPackets (note_served now p b) = m_nPackets b" "m_maxBytes (note_served now p b) = m_maxBytes b"
  by (simp_all add: note_served_def Let_def split: option.splits)

lemma book_in_sel [simp]:
  "m_nBytes (book_in p q) = m_nBytes q + bp_size p" "m_nPackets (book_in p q) = m_nPackets q + 1"
  "QueueBase.more (book_in p q) = QueueBase.more q"
  by (simp_all add: book_in_def)

lemma length_le_bytes: "\<forall>p\<in>set ps. 0 < bp_size p \<Longrightarrow> length ps \<le> pkt_bytes ps"
proof (induction ps)
  case (Cons p ps)
  have "0 < unat (bp_size p)" using Cons.prems by (simp add: word_less_nat_alt)
  then show ?case using Cons by simp
qed simp

lemma total_upd:
  assumes "j < fCnt" "\<forall>i. classes b' i = ((classes b)(j := ps)) i"
  shows "total_bytes b' + pkt_bytes (classes b j) = total_bytes b + pkt_bytes ps"
    and "total_packets b' + length (classes b j) = total_packets b + length ps"
proof -
  have "j \<in> {..<fCnt}" using assms by simp
  note c = sum_change(1)[OF finite_lessThan _ this]
  show "total_bytes b' + pkt_bytes (classes b j) = total_bytes b + pkt_bytes ps"
    using c[of "\<lambda>j. pkt_bytes (classes b' j)" "\<lambda>j. pkt_bytes (classes b j)"] assms(2)
    by (simp add: total_bytes_def)
  show "total_packets b' + length (classes b j) = total_packets b + length ps"
    using c[of "\<lambda>j. length (classes b' j)" "\<lambda>j. length (classes b j)"] assms(2)
    by (simp add: total_packets_def)
qed

lemma class_le_total:
  assumes "beq_ok b"
  shows "pkt_bytes (classes b j) \<le> total_bytes b" "length (classes b j) \<le> total_packets b"
    "length (classes b j) \<le> pkt_bytes (classes b j)"
proof -
  have "\<forall>p\<in>set (classes b j). 0 < bp_size p" using assms by (simp add: beq_ok_def dt_ok_def dt_books_def classes_def)
  then show "length (classes b j) \<le> pkt_bytes (classes b j)" by (rule length_le_bytes)
  show "pkt_bytes (classes b j) \<le> total_bytes b"
    using sum_tab_ge[of "{..<fCnt}" j "\<lambda>j. pkt_bytes (classes b j)"] assms
    by (cases "j < fCnt") (simp_all add: total_bytes_def beq_ok_def)
  show "length (classes b j) \<le> total_packets b"
    using sum_tab_ge[of "{..<fCnt}" j "\<lambda>j. length (classes b j)"] assms
    by (cases "j < fCnt") (simp_all add: total_packets_def beq_ok_def)
qed

lemma packets_le_bytes:
  assumes "beq_ok b"
  shows "total_packets b \<le> total_bytes b"
  unfolding total_packets_def total_bytes_def using class_le_total(3)[OF assms] by (rule sum_mono)

text \<open>A class holds packets exactly when its packet counter says so.\<close>
lemma backlog_iff:
  assumes "dt_ok d"
  shows "m_nPackets d > 0 \<longleftrightarrow> m_packets d \<noteq> []"
  using assms by (simp add: dt_ok_def dt_books_def word_less_nat_alt)

section \<open>Arrivals\<close>

lemma DropTail_Enqueue_books:
  assumes "dt_books d" "0 < bp_size p" "pkt_bytes (m_packets d) + unat (bp_size p) < unat (dt_maxBytes d)"
  shows "\<exists>d'. DropTail_Enqueue p d = (True, d') \<and> m_packets d' = m_packets d @ [p] \<and> dt_books d' \<and>
    dt_maxBytes d' = dt_maxBytes d"
proof -
  have lt: "unat (dt_maxBytes d) < 2 ^ 32" using unat_lt_u32[of "dt_maxBytes d"] by simp
  have b: "unat (dt_bytesInQueue d + bp_size p) = pkt_bytes (m_packets d) + unat (bp_size p)"
    using assms lt by (subst unat_add_lt) (simp_all add: dt_books_def)
  have n: "unat (m_nBytes d + bp_size p) = pkt_bytes (m_packets d) + unat (bp_size p)"
    using assms lt by (subst unat_add_lt) (simp_all add: dt_books_def)
  have "length (m_packets d) \<le> pkt_bytes (m_packets d)"
    using assms(1) by (intro length_le_bytes) (simp add: dt_books_def)
  then have k: "unat (m_nPackets d + 1) = length (m_packets d) + 1"
    using assms lt by (subst unat_add_lt) (simp_all add: dt_books_def)
  have "\<not> dt_bytesInQueue d + bp_size p \<ge> dt_maxBytes d"
    using b assms(3) by (simp add: word_le_nat_alt)
  then have "DropTail_DoEnqueue p d = (True, d\<lparr>dt_bytesInQueue := dt_bytesInQueue d + bp_size p,
      m_packets := m_packets d @ [p]\<rparr>)"
    using assms(1) by (simp add: DropTail_DoEnqueue_def dt_books_def)
  then show ?thesis using assms b n k by (auto simp: DropTail_Enqueue_def dt_books_def book_in_def)
qed

lemma DropTail_Enqueue_spec:
  assumes "dt_ok d" "0 < bp_size p" "pkt_bytes (m_packets d) + unat (bp_size p) < 1048576000"
  shows "m_packets (snd (DropTail_Enqueue p d)) = m_packets d @ [p] \<and> dt_ok (snd (DropTail_Enqueue p d))"
  using DropTail_Enqueue_books[of d p] assms by (auto simp: dt_ok_def)

lemma Beq_Enqueue_spec:
  assumes "beq_ok b" "q < fCnt" "0 < bp_size p" "unat (bp_size p) \<le> 65535"
  shows "fst (Beq_Enqueue p q b) \<longleftrightarrow> total_bytes b + unat (bp_size p) < 1048576000"
    and "beq_ok (snd (Beq_Enqueue p q b))"
    and "classes (snd (Beq_Enqueue p q b)) =
          (if fst (Beq_Enqueue p q b) then (classes b)(q := classes b q @ [p]) else classes b)"
    and "m_rrlast (snd (Beq_Enqueue p q b)) = m_rrlast b"
proof -
  let ?n = "unat (bp_size p)" and ?ok = "total_bytes b + unat (bp_size p) < 1048576000"
  have lt: "total_bytes b < 1048576000" using assms(1) by (simp add: beq_ok_def)
  have t: "unat (m_bytesInQueueTotal b + bp_size p) = total_bytes b + ?n"
    using assms lt by (subst unat_add_lt) (simp_all add: beq_ok_def)
  have "dbl_of_word (m_bytesInQueueTotal b + bp_size p) = of_nat (total_bytes b + ?n)"
    using t lt assms(4) by (subst dbl_of_word_exact) simp_all
  moreover have "m_maxBytes b = of_nat 1048576000" using assms(1) by (simp add: beq_ok_def)
  ultimately have c: "dbl_of_word (m_bytesInQueueTotal b + bp_size p) < m_maxBytes b \<longleftrightarrow> ?ok"
    by (simp only: of_nat_less_iff)
  show f: "fst (Beq_Enqueue p q b) \<longleftrightarrow> ?ok"
    by (simp add: Beq_Enqueue_def Beq_DoEnqueue_def c split: prod.split)
  show "m_rrlast (snd (Beq_Enqueue p q b)) = m_rrlast b"
    by (simp add: Beq_Enqueue_def Beq_DoEnqueue_def book_in_def)
  show cl: "classes (snd (Beq_Enqueue p q b)) =
      (if fst (Beq_Enqueue p q b) then (classes b)(q := classes b q @ [p]) else classes b)"
  proof (cases ?ok)
    case True
    have "pkt_bytes (m_packets (m_queues b q)) + ?n < 1048576000"
      using class_le_total(1)[OF assms(1), of q] True by (simp add: classes_def)
    then have "m_packets (snd (DropTail_Enqueue p (m_queues b q))) = m_packets (m_queues b q) @ [p]"
      using assms by (intro DropTail_Enqueue_spec[THEN conjunct1]) (simp_all add: beq_ok_def)
    then show ?thesis using True c
      by (auto simp: f Beq_Enqueue_def Beq_DoEnqueue_def classes_def book_in_def)
  next
    case False
    then show ?thesis using c by (simp add: f Beq_Enqueue_def Beq_DoEnqueue_def)
  qed
  show "beq_ok (snd (Beq_Enqueue p q b))"
  proof (cases ?ok)
    case False
    then show ?thesis using c assms(1) by (simp add: Beq_Enqueue_def Beq_DoEnqueue_def)
  next
    case True
    let ?b = "snd (Beq_Enqueue p q b)"
    have c': "classes ?b = (classes b)(q := classes b q @ [p])" using cl f True by simp
    note u = total_upd[OF assms(2), of ?b b "classes b q @ [p]", unfolded c', simplified]
    have "pkt_bytes (m_packets (m_queues b q)) + ?n < 1048576000"
      using class_le_total(1)[OF assms(1), of q] True by (simp add: classes_def)
    then have d: "dt_ok (snd (DropTail_Enqueue p (m_queues b q)))"
      using assms by (intro DropTail_Enqueue_spec[THEN conjunct2]) (simp_all add: beq_ok_def)
    have pk: "unat (m_nPackets b + 1) = total_packets b + 1"
      using assms(1) packets_le_bytes[OF assms(1)] lt by (subst unat_add_lt) (simp_all add: beq_ok_def)
    have nb: "unat (m_nBytes b + bp_size p) = total_bytes b + ?n"
      using assms(1) True by (subst unat_add_lt) (simp_all add: beq_ok_def)
    have bq: "unat (m_bytesInQueue b q + bp_size p) = pkt_bytes (classes b q) + ?n"
      using assms(1) True class_le_total(1)[OF assms(1), of q]
      by (subst unat_add_lt) (simp_all add: beq_ok_def)
    have sel: "m_queues ?b = (m_queues b)(q := snd (DropTail_Enqueue p (m_queues b q)))"
      "m_bytesInQueue ?b = (m_bytesInQueue b)(q := m_bytesInQueue b q + bp_size p)"
      "m_bytesInQueueTotal ?b = m_bytesInQueueTotal b + bp_size p"
      "m_nBytes ?b = m_nBytes b + bp_size p" "m_nPackets ?b = m_nPackets b + 1"
      "m_maxBytes ?b = m_maxBytes b"
      using True c by (simp_all add: Beq_Enqueue_def Beq_DoEnqueue_def book_in_def)
    show ?thesis using assms(1,2) d u t pk nb bq True
      unfolding beq_ok_def sel c' by auto
  qed
qed


section \<open>Departures\<close>

text \<open>Which class is served next, on the packet lists alone.\<close>
definition next_class :: "(nat \<Rightarrow> bool) \<Rightarrow> nat \<Rightarrow> BeqPacket list tab \<Rightarrow> nat option" where
  "next_class paused rr cs =
    (if cs 0 \<noteq> [] then Some 0
     else find (\<lambda>j. \<not> paused j \<and> cs j \<noteq> []) (map (\<lambda>k. (k + rr) mod beq_qCnt) [1..<beq_qCnt + 1]))"

text \<open>Two states that differ in nothing but the pause clocks.\<close>
definition same_queues :: "BEgressQueue \<Rightarrow> BEgressQueue \<Rightarrow> bool" where
  "same_queues b b' \<longleftrightarrow> m_queues b' = m_queues b \<and> m_rrlast b' = m_rrlast b
     \<and> m_bytesInQueueTotal b' = m_bytesInQueueTotal b \<and> m_bytesInQueue b' = m_bytesInQueue b
     \<and> m_nBytes b' = m_nBytes b \<and> m_nPackets b' = m_nPackets b \<and> m_maxBytes b' = m_maxBytes b"

lemma same_queues_refl [simp]: "same_queues b b"
  by (simp add: same_queues_def)

lemma same_queues_facts:
  assumes "same_queues b b'"
  shows "classes b' = classes b" "beq_ok b' = beq_ok b" "m_rrlast b' = m_rrlast b"
  using assms by (simp_all add: same_queues_def beq_ok_def classes_def total_bytes_def total_packets_def fun_eq_iff)

lemma rr_scan_spec:
  assumes "\<forall>j. dt_ok (m_queues b j)"
  shows "fst (rr_scan now paused ks b) =
           find (\<lambda>j. \<not> paused j \<and> classes b j \<noteq> []) (map (\<lambda>k. (k + m_rrlast b) mod beq_qCnt) ks)
         \<and> same_queues b (snd (rr_scan now paused ks b))"
  using assms
proof (induction ks arbitrary: b)
  case (Cons k ks)
  let ?j = "(k + m_rrlast b) mod beq_qCnt"
  have "m_nPackets (m_queues b ?j) > 0 \<longleftrightarrow> classes b ?j \<noteq> []"
    using Cons.prems backlog_iff by (simp add: classes_def)
  moreover have "same_queues b (note_blocked now ?j b)" by (simp add: same_queues_def)
  moreover have "classes (note_blocked now ?j b) = classes b" by (simp add: classes_def fun_eq_iff)
  moreover note Cons.IH[of b] Cons.IH[of "note_blocked now ?j b"]
  ultimately show ?case using Cons.prems by (simp add: Let_def same_queues_def)
qed simp

lemma choose_queue_spec:
  assumes "beq_ok b"
  shows "fst (choose_queue now paused b) = next_class paused (m_rrlast b) (classes b)
         \<and> same_queues b (snd (choose_queue now paused b))"
proof -
  have "\<forall>j. dt_ok (m_queues b j)" using assms by (simp add: beq_ok_def)
  moreover from this have "m_nPackets (m_queues b 0) > 0 \<longleftrightarrow> classes b 0 \<noteq> []"
    using backlog_iff by (simp add: classes_def)
  ultimately show ?thesis
    using rr_scan_spec[of b now paused "[1..<beq_qCnt + 1]"]
    by (auto simp: choose_queue_def next_class_def simp del: upt_Suc)
qed

lemma next_class_backlog:
  assumes "next_class paused rr cs = Some j"
  shows "cs j \<noteq> []" "j < beq_qCnt" "j = 0 \<or> \<not> paused j"
  using assms by (auto simp: next_class_def find_Some_iff beq_qCnt_def split: if_splits)

lemma DropTail_Dequeue_books:
  assumes "dt_books d" "m_packets d = p # ps"
  shows "\<exists>d'. DropTail_Dequeue d = Some (Some p, d') \<and> m_packets d' = ps \<and> dt_books d' \<and> dt_maxBytes d' = dt_maxBytes d"
proof -
  let ?d = "d\<lparr>m_packets := ps, dt_bytesInQueue := dt_bytesInQueue d - bp_size p\<rparr>"
  let ?d' = "?d\<lparr>m_nBytes := m_nBytes d - bp_size p, m_nPackets := m_nPackets d - 1\<rparr>"
  have a: "bp_size p \<le> m_nBytes d" "bp_size p \<le> dt_bytesInQueue d" "1 \<le> m_nPackets d" "0 < m_nPackets d"
    using assms by (simp_all add: dt_books_def word_le_nat_alt word_less_nat_alt)
  have "DropTail_Dequeue d = Some (Some p, ?d')"
    using assms a by (simp add: DropTail_Dequeue_def book_out_def)
  moreover have "dt_books ?d'" using assms a by (auto simp: dt_books_def unat_sub_le)
  ultimately show ?thesis by (intro exI[of _ ?d']) simp
qed

lemma DropTail_Dequeue_spec:
  assumes "dt_ok d" "m_packets d = p # ps"
  shows "\<exists>d'. DropTail_Dequeue d = Some (Some p, d') \<and> m_packets d' = ps \<and> dt_ok d'"
  using DropTail_Dequeue_books[of d p ps] assms by (auto simp: dt_ok_def)

text \<open>Departure of the head of a backlogged class.\<close>
lemma take_from_spec:
  assumes ok: "beq_ok b" and q: "q < fCnt" and c: "classes b q = p # ps"
  shows "\<exists>b'. take_from now q b = Some (Some p, b')
     \<and> (\<exists>b''. book_out p b' = Some b'' \<and> beq_ok b'' \<and> classes b'' = (classes b)(q := ps)
          \<and> m_rrlast b'' = (if q \<noteq> 0 then q else m_rrlast b))"
proof -
  have dk: "dt_ok (m_queues b q)" using ok by (simp add: beq_ok_def)
  obtain d where d: "DropTail_Dequeue (m_queues b q) = Some (Some p, d)" "m_packets d = ps" "dt_ok d"
    using DropTail_Dequeue_spec[OF dk, of p ps] c by (auto simp: classes_def)
  let ?b0 = "note_served now p (b\<lparr>m_queues := (m_queues b)(q := d)\<rparr>)"
  define b' where "b' = ?b0\<lparr>m_bytesInQueueTotal := m_bytesInQueueTotal ?b0 - bp_size p,
      m_bytesInQueue := (m_bytesInQueue ?b0)(q := m_bytesInQueue ?b0 q - bp_size p),
      m_rrlast := (if q \<noteq> 0 then q else m_rrlast ?b0), m_qlast := q\<rparr>"
  have t: "take_from now q b = Some (Some p, b')" by (simp add: take_from_def d b'_def Let_def)
  let ?n = "unat (bp_size p)"
  have le: "?n + pkt_bytes ps \<le> total_bytes b" "Suc (length ps) \<le> total_packets b"
    using class_le_total[OF ok, of q] c by simp_all
  have w: "bp_size p \<le> m_nBytes b" "bp_size p \<le> m_bytesInQueueTotal b" "bp_size p \<le> m_bytesInQueue b q"
    "1 \<le> m_nPackets b" "0 < m_nPackets b"
    using ok le c by (simp_all add: beq_ok_def word_le_nat_alt word_less_nat_alt)
  define b'' where "b'' = b'\<lparr>m_nBytes := m_nBytes b' - bp_size p, m_nPackets := m_nPackets b' - 1\<rparr>"
  have o: "book_out p b' = Some b''" using w by (simp add: book_out_def b'_def b''_def)
  have sel: "m_queues b'' = (m_queues b)(q := d)" "m_maxBytes b'' = m_maxBytes b"
    "m_bytesInQueue b'' = (m_bytesInQueue b)(q := m_bytesInQueue b q - bp_size p)"
    "m_bytesInQueueTotal b'' = m_bytesInQueueTotal b - bp_size p"
    "m_nBytes b'' = m_nBytes b - bp_size p" "m_nPackets b'' = m_nPackets b - 1"
    "m_rrlast b'' = (if q \<noteq> 0 then q else m_rrlast b)"
    by (simp_all add: b''_def b'_def)
  have c': "classes b'' = (classes b)(q := ps)" using d(2) by (auto simp: classes_def sel)
  note u = total_upd[OF q, of b'' b ps, unfolded c', simplified, unfolded c, simplified]
  have "beq_ok b''" using ok q d(3) w u c le
    unfolding beq_ok_def sel c' by (auto simp: unat_sub_le)
  then show ?thesis using t o c' sel(7) by blast
qed

lemma total_zero:
  assumes "beq_ok b" "m_bytesInQueueTotal b = 0"
  shows "classes b j = []"
proof -
  have "total_bytes b = 0" using assms by (simp add: beq_ok_def)
  then show ?thesis using class_le_total(1,3)[OF assms(1), of j] by simp
qed

text \<open>One service, on states that keep their accounts.\<close>
lemma DequeueRR_None:
  assumes ok: "beq_ok b" and n: "next_class paused (m_rrlast b) (classes b) = None"
  shows "\<exists>b'. DequeueRR now paused b = Some (None, b') \<and> beq_ok b' \<and> classes b' = classes b
          \<and> m_rrlast b' = m_rrlast b"
proof -
  obtain r b' where c: "choose_queue now paused b = (r, b')" by force
  have r: "r = None" "same_queues b b'" using choose_queue_spec[OF ok, of now paused] n c by simp_all
  show ?thesis using ok same_queues_facts[OF r(2)]
    by (simp add: DequeueRR_def DoDequeueRR_def c r(1))
qed

lemma DequeueRR_Some:
  assumes ok: "beq_ok b" and n: "next_class paused (m_rrlast b) (classes b) = Some j"
  shows "\<exists>b'. DequeueRR now paused b = Some (Some (hd (classes b j)), b') \<and> beq_ok b'
          \<and> classes b' = (classes b)(j := tl (classes b j))
          \<and> m_rrlast b' = (if j \<noteq> 0 then j else m_rrlast b)"
proof -
  obtain r b1 where c: "choose_queue now paused b = (r, b1)" by force
  have r: "r = Some j" "same_queues b b1" using choose_queue_spec[OF ok, of now paused] n c by simp_all
  note s = same_queues_facts[OF r(2)]
  have j: "j < fCnt" using next_class_backlog(2)[OF n] by (simp add: beq_qCnt_def fCnt_def)
  obtain p ps where p: "classes b j = p # ps" using next_class_backlog(1)[OF n] by (cases "classes b j") auto
  have nz: "m_bytesInQueueTotal b \<noteq> 0" using total_zero[OF ok, of j] p by auto
  obtain b' b'' where b: "take_from now j b1 = Some (Some p, b')" "book_out p b' = Some b''"
    "beq_ok b''" "classes b'' = (classes b1)(j := ps)" "m_rrlast b'' = (if j \<noteq> 0 then j else m_rrlast b1)"
    using take_from_spec[of b1 j p ps now] ok j p s by auto
  have "DequeueRR now paused b = Some (Some p, b'')"
    using nz by (simp add: DequeueRR_def DoDequeueRR_def c r(1) b(1,2))
  then show ?thesis using b(3-5) s p by simp
qed


section \<open>Runs and their specification\<close>

text \<open>The calls a device makes on its queue, and their results.\<close>
datatype beq_op = Enq BeqPacket nat | Deq nat "nat \<Rightarrow> bool"
datatype beq_result = Accepted bool | Sent "BeqPacket option"

fun beq_step :: "beq_op \<Rightarrow> BEgressQueue \<Rightarrow> (beq_result \<times> BEgressQueue) option" where
  "beq_step (Enq p q) b = (let (ok, b) = Beq_Enqueue p q b in Some (Accepted ok, b))"
| "beq_step (Deq now paused) b =
    (case DequeueRR now paused b of None \<Rightarrow> None | Some (r, b) \<Rightarrow> Some (Sent r, b))"

fun beq_run :: "beq_op list \<Rightarrow> BEgressQueue \<Rightarrow> (beq_result list \<times> BEgressQueue) option" where
  "beq_run [] b = Some ([], b)"
| "beq_run (op # ops) b =
    (case beq_step op b of None \<Rightarrow> None
     | Some (r, b) \<Rightarrow> (case beq_run ops b of None \<Rightarrow> None | Some (rs, b) \<Rightarrow> Some (r # rs, b)))"

text \<open>The specification: lists of packets per class, a byte limit, priority for
  class 0 and a pointer that goes round the others.\<close>
type_synonym spec_queue = "BeqPacket list tab \<times> nat"

fun spec_step :: "beq_op \<Rightarrow> spec_queue \<Rightarrow> beq_result \<times> spec_queue" where
  "spec_step (Enq p q) (cs, rr) =
    (if (\<Sum>j<fCnt. pkt_bytes (cs j)) + unat (bp_size p) < 1048576000
     then (Accepted True, cs(q := cs q @ [p]), rr) else (Accepted False, cs, rr))"
| "spec_step (Deq now paused) (cs, rr) =
    (case next_class paused rr cs of None \<Rightarrow> (Sent None, cs, rr)
     | Some j \<Rightarrow> (Sent (Some (hd (cs j))), cs(j := tl (cs j)), if j \<noteq> 0 then j else rr))"

fun spec_run :: "beq_op list \<Rightarrow> spec_queue \<Rightarrow> beq_result list \<times> spec_queue" where
  "spec_run [] s = ([], s)"
| "spec_run (op # ops) s = (let (r, s) = spec_step op s; (rs, s) = spec_run ops s in (r # rs, s))"

fun beq_op_ok :: "beq_op \<Rightarrow> bool" where
  "beq_op_ok (Enq p q) \<longleftrightarrow> q < beq_qCnt \<and> 0 < bp_size p \<and> unat (bp_size p) \<le> 65535"
| "beq_op_ok (Deq now paused) \<longleftrightarrow> True"

lemma beq_step_refines:
  assumes "beq_ok b" "beq_op_ok op"
  shows "\<exists>r b'. beq_step op b = Some (r, b') \<and> beq_ok b'
          \<and> spec_step op (classes b, m_rrlast b) = (r, classes b', m_rrlast b')"
proof (cases op)
  case (Enq p q)
  obtain ok b' where e: "Beq_Enqueue p q b = (ok, b')" by force
  have "q < fCnt" "0 < bp_size p" "unat (bp_size p) \<le> 65535"
    using assms(2) by (simp_all add: Enq fCnt_def beq_qCnt_def)
  note s = Beq_Enqueue_spec[OF assms(1) this, unfolded e fst_conv snd_conv]
  show ?thesis using s by (simp add: Enq e total_bytes_def)
next
  case (Deq now paused)
  show ?thesis
  proof (cases "next_class paused (m_rrlast b) (classes b)")
    case None
    then show ?thesis using DequeueRR_None[OF assms(1) None, of now] by (auto simp: Deq)
  next
    case (Some j)
    then show ?thesis using DequeueRR_Some[OF assms(1) Some, of now] by (auto simp: Deq)
  qed
qed

lemma beq_run_refines:
  assumes "beq_ok b" "list_all beq_op_ok ops"
  shows "\<exists>rs b'. beq_run ops b = Some (rs, b') \<and> beq_ok b'
          \<and> spec_run ops (classes b, m_rrlast b) = (rs, classes b', m_rrlast b')"
  using assms
proof (induction ops arbitrary: b)
  case (Cons op ops)
  obtain r b1 where 1: "beq_step op b = Some (r, b1)" "beq_ok b1"
    "spec_step op (classes b, m_rrlast b) = (r, classes b1, m_rrlast b1)"
    using beq_step_refines[of b op] Cons.prems by auto
  obtain rs b2 where "beq_run ops b1 = Some (rs, b2)" "beq_ok b2"
    "spec_run ops (classes b1, m_rrlast b1) = (rs, classes b2, m_rrlast b2)"
    using Cons.IH[OF 1(2)] Cons.prems by auto
  then show ?case using 1 by simp
qed simp

lemma ctor_ok: "beq_ok (BEgressQueue_ctor ql)" "classes (BEgressQueue_ctor ql) = (\<lambda>_. [])"
  "m_rrlast (BEgressQueue_ctor ql) = 0"
  by (simp_all add: beq_ok_def dt_ok_def dt_books_def BEgressQueue_ctor_def DropTail_ctor_def classes_def
      total_bytes_def total_packets_def fun_eq_iff)

section \<open>Fairness\<close>

text \<open>How far the round-robin pointer is from a class.\<close>
definition rr_dist :: "nat \<Rightarrow> nat \<Rightarrow> nat" where
  "rr_dist rr j = (if rr < j then j - rr else j + beq_qCnt - rr)"

lemma rr_dist_bounds:
  assumes "rr < beq_qCnt" "j < beq_qCnt"
  shows "0 < rr_dist rr j" "rr_dist rr j \<le> beq_qCnt" "(rr_dist rr j + rr) mod beq_qCnt = j"
  using assms by (auto simp: rr_dist_def)

lemma rr_dist_step:
  assumes "rr < beq_qCnt" "j < beq_qCnt" "0 < k" "k < rr_dist rr j"
  shows "rr_dist ((k + rr) mod beq_qCnt) j < rr_dist rr j"
proof (cases "k + rr < beq_qCnt")
  case True
  then show ?thesis using assms by (auto simp: rr_dist_def split: if_splits)
next
  case False
  then have "(k + rr) mod beq_qCnt = k + rr - beq_qCnt"
    using assms rr_dist_bounds[of rr j] by (simp add: mod_if)
  then show ?thesis using assms False by (auto simp: rr_dist_def split: if_splits)
qed

text \<open>Every service of another class brings the pointer closer to a class that can
  be served.\<close>
lemma next_class_closer:
  assumes "cs 0 = []" "rr < beq_qCnt" "0 < j" "j < beq_qCnt" "cs j \<noteq> []" "\<not> paused j"
  shows "\<exists>k. next_class paused rr cs = Some k \<and> k < beq_qCnt \<and> k \<noteq> 0
          \<and> (k = j \<or> rr_dist k j < rr_dist rr j)"
proof -
  let ?P = "\<lambda>j. \<not> paused j \<and> cs j \<noteq> []" and ?ks = "map (\<lambda>k. (k + rr) mod beq_qCnt) [1..<beq_qCnt + 1]"
  note d = rr_dist_bounds[OF assms(2,4)]
  have "rr_dist rr j - 1 < length [1..<beq_qCnt + 1]" using d by (simp del: upt_Suc)
  then have "?ks ! (rr_dist rr j - 1) = (1 + (rr_dist rr j - 1) + rr) mod beq_qCnt"
    by (simp only: nth_map nth_upt length_upt)
  then have jn: "?ks ! (rr_dist rr j - 1) = j" using d by simp
  have n: "next_class paused rr cs = find ?P ?ks" using assms(1) by (simp add: next_class_def del: upt_Suc)
  have "j \<in> set ?ks" using nth_mem[of "rr_dist rr j - 1" ?ks] d unfolding jn by (simp del: upt_Suc)
  then obtain k where k: "find ?P ?ks = Some k" using assms(5,6) by (metis (mono_tags, lifting) find_None_iff option.exhaust)
  then obtain i where i: "i < length ?ks" "?P (?ks ! i)" "k = ?ks ! i" "\<And>i'. i' < i \<Longrightarrow> \<not> ?P (?ks ! i')"
    using find_Some_iff[of ?P ?ks k] by blast
  have "i \<le> rr_dist rr j - 1"
  proof (rule ccontr)
    assume "\<not> i \<le> rr_dist rr j - 1"
    then have "\<not> ?P (?ks ! (rr_dist rr j - 1))" by (intro i(4)) simp
    then show False unfolding jn using assms(5,6) by simp
  qed
  moreover have ke: "k = (Suc i + rr) mod beq_qCnt" using i(1,3) by (simp del: upt_Suc)
  moreover have "i = rr_dist rr j - 1 \<Longrightarrow> k = j" using i(3) jn by simp
  moreover have "Suc i < rr_dist rr j \<Longrightarrow> rr_dist k j < rr_dist rr j"
    unfolding ke by (rule rr_dist_step[OF assms(2,4)]) simp_all
  moreover have "cs k \<noteq> []" using i(2) unfolding i(3)[symmetric] by simp
  then have "k \<noteq> 0" using assms(1) by metis
  moreover have "k < beq_qCnt" unfolding ke by (simp add: beq_qCnt_def)
  moreover have "i = rr_dist rr j - 1 \<or> Suc i < rr_dist rr j"
    using \<open>i \<le> rr_dist rr j - 1\<close> d(1) by linarith
  ultimately show ?thesis using n k by metis
qed

text \<open>Operations that leave class j able to be served; what arrives for the classes is free.\<close>
fun lets_serve :: "nat \<Rightarrow> beq_op \<Rightarrow> bool" where
  "lets_serve j (Enq p q) \<longleftrightarrow> True"
| "lets_serve j (Deq now paused) \<longleftrightarrow> \<not> paused j"

fun is_Deq :: "beq_op \<Rightarrow> bool" where
  "is_Deq (Deq now paused) = True" | "is_Deq (Enq p q) = False"

text \<open>The packets that arrive for the priority class.\<close>
fun is_urgent :: "beq_op \<Rightarrow> bool" where
  "is_urgent (Enq p q) = (q = 0)" | "is_urgent (Deq now paused) = False"

text \<open>A packet waits for the other classes of the round, and for the packets of class 0: those there
  and those that come.\<close>
lemma spec_no_starvation:
  assumes "rr < beq_qCnt" "0 < j" "j < beq_qCnt" "cs j \<noteq> []" "list_all (lets_serve j) ops"
    and "rr_dist rr j + length (cs 0) + length (filter is_urgent ops) \<le> length (filter is_Deq ops)"
  shows "Sent (Some (hd (cs j))) \<in> set (fst (spec_run ops (cs, rr)))"
  using assms
proof (induction ops arbitrary: cs rr)
  case Nil
  then show ?case using rr_dist_bounds[of rr j] by simp
next
  case (Cons op ops)
  show ?case
  proof (cases op)
    case (Enq p q)
    let ?cs = "cs(q := cs q @ [p])"
    have "hd (?cs j) = hd (cs j)" using Cons.prems(4) by auto
    moreover have "?cs j \<noteq> []" using Cons.prems(4) by auto
    moreover have "rr_dist rr j + length (?cs 0) + length (filter is_urgent ops) \<le> length (filter is_Deq ops)"
      using Cons.prems(6) by (auto simp: Enq split: if_splits)
    ultimately have "Sent (Some (hd (cs j))) \<in> set (fst (spec_run ops (?cs, rr)))"
      using Cons.IH[of rr ?cs] Cons.prems by (simp add: Enq del: fun_upd_apply)
    moreover have "Sent (Some (hd (cs j))) \<in> set (fst (spec_run ops (cs, rr)))"
      using Cons.IH[of rr cs] Cons.prems by (simp add: Enq split: if_splits)
    ultimately show ?thesis by (auto simp: Enq split: prod.splits)
  next
    case (Deq now paused)
    show ?thesis
    proof (cases "cs 0 = []")
      case True
      then obtain k where k: "next_class paused rr cs = Some k" "k < beq_qCnt" "k \<noteq> 0"
        "k = j \<or> rr_dist k j < rr_dist rr j"
        using next_class_closer[of cs rr j paused] Cons.prems by (auto simp: Deq)
      show ?thesis
      proof (cases "k = j")
        case True
        then show ?thesis using k(1) by (simp add: Deq split: prod.splits)
      next
        case False
        let ?cs = "cs(k := tl (cs k))"
        have c: "?cs j = cs j" "?cs 0 = cs 0" using False k(3) by simp_all
        have "Sent (Some (hd (cs j))) \<in> set (fst (spec_run ops (?cs, k)))"
          using Cons.IH[of k ?cs, unfolded c] Cons.prems k(2,4) False by (simp add: Deq del: fun_upd_apply)
        then show ?thesis using k(1,3) by (auto simp: Deq split: prod.splits)
      qed
    next
      case False
      let ?cs = "cs(0 := tl (cs 0))"
      have n: "next_class paused rr cs = Some 0" using False by (simp add: next_class_def)
      have c: "?cs j = cs j" "length (?cs 0) = length (cs 0) - 1" "0 < length (cs 0)" using Cons.prems(2) False by simp_all
      have "Sent (Some (hd (cs j))) \<in> set (fst (spec_run ops (?cs, rr)))"
        using Cons.IH[of rr ?cs, unfolded c] Cons.prems c(3) by (simp add: Deq del: fun_upd_apply)
      then show ?thesis using n by (auto simp: Deq split: prod.splits)
    qed
  qed
qed

lemma spec_rr_bound:
  assumes "rr < beq_qCnt"
  shows "snd (snd (spec_run ops (cs, rr))) < beq_qCnt"
  using assms
proof (induction ops arbitrary: cs rr)
  case (Cons op ops)
  obtain r cs' rr' where s: "spec_step op (cs, rr) = (r, cs', rr')" by (metis prod_cases3)
  then have "rr' < beq_qCnt"
    using Cons.prems next_class_backlog(2) by (cases op) (auto split: if_splits option.splits)
  then show ?case using Cons.IH[of rr' cs'] s by (auto split: prod.splits)
qed simp

section \<open>Properties\<close>

text \<open>C34: The egress queue implements strict priority over round robin: for any
  sequence of arrivals and services from a new queue, no assertion fails, every
  call answers as the specification on plain packet lists does, and at the end
  the byte and packet counters are those of the packets held.\<close>
theorem egress_queue_refines_spec:
  assumes "list_all beq_op_ok ops"
  shows "\<exists>rs b. beq_run ops (BEgressQueue_ctor ql) = Some (rs, b)
     \<and> spec_run ops (\<lambda>_. [], 0) = (rs, classes b, m_rrlast b)
     \<and> (\<forall>j. unat (m_bytesInQueue b j) = pkt_bytes (classes b j))
     \<and> unat (m_bytesInQueueTotal b) = (\<Sum>j<fCnt. pkt_bytes (classes b j))
     \<and> unat (m_nPackets b) = (\<Sum>j<fCnt. length (classes b j))"
  using beq_run_refines[OF ctor_ok(1)[of ql] assms]
  by (auto simp: ctor_ok beq_ok_def total_bytes_def total_packets_def)

definition example_packet :: "nat \<Rightarrow> BeqPacket" where
  "example_packet k = \<lparr>bp_size = 1000, bp_flowNum = Some (word_of_nat k), bp_uid = k\<rparr>"

definition example_ops :: "beq_op list" where
  "example_ops = [Enq (example_packet 1) 3, Enq (example_packet 2) 5, Enq (example_packet 3) 3,
     Deq 10 (\<lambda>q. q = 3), Enq (example_packet 4) 0, Deq 20 (\<lambda>_. False), Deq 30 (\<lambda>_. False), Deq 40 (\<lambda>_. False)]"

lemma example_ops_ok: "list_all beq_op_ok example_ops"
  by (simp add: example_ops_def example_packet_def beq_qCnt_def)

lemma egress_queue_refines_spec_witness:
  "\<forall>ql. \<exists>rs b. beq_run example_ops (BEgressQueue_ctor ql) = Some (rs, b)
     \<and> spec_run example_ops (\<lambda>_. [], 0) = (rs, classes b, m_rrlast b)"
  using egress_queue_refines_spec[OF example_ops_ok] by blast

text \<open>C33: no backlogged class waits for the round robin for ever.  In any state reached from a
  new queue in which a class from 1 to 7 holds packets, its head is sent, over any further
  operations that do not pause that class, after at most eight services plus one for each
  packet of class 0 that is queued or that arrives meanwhile: class 0 has strict priority, and
  nothing else can hold the packet back, whatever arrives and whichever other classes are paused.\<close>
theorem egress_no_starvation:
  assumes "list_all beq_op_ok ops" "beq_run ops (BEgressQueue_ctor ql) = Some (rs, b)"
    and "0 < j" "j < beq_qCnt" "classes b j \<noteq> []"
    and "list_all beq_op_ok ops'" "list_all (lets_serve j) ops'"
    and "8 + length (classes b 0) + length (filter is_urgent ops') \<le> length (filter is_Deq ops')"
  shows "\<exists>rs' b'. beq_run ops' b = Some (rs', b') \<and> Sent (Some (hd (classes b j))) \<in> set rs'"
proof -
  have ok: "beq_ok b" using beq_run_refines[OF ctor_ok(1)[of ql] assms(1)] assms(2) by auto
  have "m_rrlast b < beq_qCnt"
    using spec_rr_bound[of 0 ops "\<lambda>_. []"] beq_run_refines[OF ctor_ok(1)[of ql] assms(1)] assms(2)
    by (auto simp: ctor_ok beq_qCnt_def)
  moreover from this have "rr_dist (m_rrlast b) j \<le> 8"
    using rr_dist_bounds(2)[OF _ assms(4)] by (simp add: beq_qCnt_def)
  ultimately have "Sent (Some (hd (classes b j))) \<in> set (fst (spec_run ops' (classes b, m_rrlast b)))"
    using assms by (intro spec_no_starvation) simp_all
  then show ?thesis using beq_run_refines[OF ok assms(6)] by auto
qed

definition example_arrivals :: "beq_op list" where
  "example_arrivals = [Enq (example_packet 1) 3, Enq (example_packet 2) 5, Enq (example_packet 3) 3]"

definition example_services :: "beq_op list" where
  "example_services = replicate 4 (Deq 10 (\<lambda>q. q = 6)) @ [Enq (example_packet 9) 0] @ replicate 5 (Deq 20 (\<lambda>q. q = 3))"

lemma small_total:
  assumes "\<And>j. pkt_bytes (cs j) \<le> 4000"
  shows "(\<Sum>j<fCnt. pkt_bytes (cs j)) + 1000 < 1048576000"
proof -
  have "(\<Sum>j<fCnt. pkt_bytes (cs j)) \<le> (\<Sum>j<fCnt. 4000)" using assms by (intro sum_mono)
  then show ?thesis by (simp add: fCnt_def)
qed

lemma example_bytes [simp]: "bp_size (example_packet k) = 1000"
  by (simp add: example_packet_def)

lemma example_arrival_step:
  assumes "\<And>j. pkt_bytes (cs j) \<le> 4000"
  shows "spec_step (Enq (example_packet k) q) (cs, rr) =
    (Accepted True, cs(q := cs q @ [example_packet k]), rr)"
  using small_total[OF assms] by (simp add: example_packet_def)

lemma egress_no_starvation_witness:
  "\<forall>ql. \<exists>rs b rs' b'. beq_run example_arrivals (BEgressQueue_ctor ql) = Some (rs, b)
     \<and> beq_run example_services b = Some (rs', b') \<and> Sent (Some (example_packet 2)) \<in> set rs'"
proof
  fix ql
  have a: "list_all beq_op_ok example_arrivals"
    by (simp add: example_arrivals_def example_packet_def beq_qCnt_def)
  obtain rs b where b: "beq_run example_arrivals (BEgressQueue_ctor ql) = Some (rs, b)"
    "spec_run example_arrivals (\<lambda>_. [], 0) = (rs, classes b, m_rrlast b)"
    using beq_run_refines[OF ctor_ok(1)[of ql] a] by (auto simp: ctor_ok)
  have "classes b = (\<lambda>_. [])(3 := [example_packet 1, example_packet 3], 5 := [example_packet 2])"
    using b(2) by (simp add: example_arrivals_def example_arrival_step fun_upd_twist[of 3 5] del: spec_step.simps)
  then have c: "classes b 0 = []" "classes b 5 = [example_packet 2]" by simp_all
  have "list_all beq_op_ok example_services" "list_all (lets_serve 5) example_services"
    "8 + length (classes b 0) + length (filter is_urgent example_services) \<le> length (filter is_Deq example_services)"
    using c(1) by (simp_all add: example_services_def beq_qCnt_def list_all_iff)
  from egress_no_starvation[OF a b(1) _ _ _ this] c(2)
  show "\<exists>rs b rs' b'. beq_run example_arrivals (BEgressQueue_ctor ql) = Some (rs, b)
     \<and> beq_run example_services b = Some (rs', b') \<and> Sent (Some (example_packet 2)) \<in> set rs'"
    using b(1) by (auto simp: beq_qCnt_def)
qed

end
