(* ===== verification/PacketQueue.thy ===== *)
theory PacketQueue
  imports Prelude
begin

text \<open>
  \<^verbatim>\<open>class PacketQueue\<close> of \<^verbatim>\<open>queue/queue.{h,cc}\<close> in dpdq-ns2: the intrusive linked
  list under every queue discipline of the simulator.  Packets live in a heap
  from addresses to packets, a packet carries its own next pointer, and the
  queue object holds head, tail and the two counters.  The list of packets the
  queue stands for is the abstract specification; the lemmas below show that
  the pointer operations implement the list operations and leave packets
  outside the queue alone.
\<close>

section \<open>Packets\<close>

text \<open>The fields of a packet's headers that the queues read or write, with the
  intrusive link.\<close>
record packet =
  pkt_size :: int
  pkt_ptype :: nat
  pkt_msg_type :: int
  pkt_cl_addr :: int
  pkt_app_level_id :: int
  pkt_credit :: int
  pkt_unsol_credit :: int
  pkt_src :: int
  pkt_dst :: int
  pkt_ce :: nat

record node_packet = packet +
  next_ptr :: "nat option"

type_synonym heap = "nat \<Rightarrow> node_packet"

record pqueue =
  pq_head :: "nat option"
  pq_tail :: "nat option"
  pq_len :: int
  pq_bytes :: int

definition PacketQueue_init :: pqueue where
  "PacketQueue_init = \<lparr>pq_head = None, pq_tail = None, pq_len = 0, pq_bytes = 0\<rparr>"

section \<open>Operations\<close>

text \<open>Returns the previous tail.\<close>
definition PacketQueue_enque :: "nat \<Rightarrow> heap \<times> pqueue \<Rightarrow> nat option \<times> heap \<times> pqueue" where
  "PacketQueue_enque p = (\<lambda>(h, q).
    let pt = pq_tail q;
        (h, q) = (case pq_tail q of
            None \<Rightarrow> (h, q\<lparr>pq_head := Some p, pq_tail := Some p\<rparr>)
          | Some t \<Rightarrow> (h(t := (h t)\<lparr>next_ptr := Some p\<rparr>), q\<lparr>pq_tail := Some p\<rparr>));
        h = h(the (pq_tail q) := (h (the (pq_tail q)))\<lparr>next_ptr := None\<rparr>)
    in (pt, h, q\<lparr>pq_len := pq_len q + 1, pq_bytes := pq_bytes q + pkt_size (h p)\<rparr>))"

definition PacketQueue_deque :: "heap \<times> pqueue \<Rightarrow> nat option \<times> heap \<times> pqueue" where
  "PacketQueue_deque = (\<lambda>(h, q).
    case pq_head q of
      None \<Rightarrow> (None, h, q)
    | Some p \<Rightarrow>
        let q = q\<lparr>pq_head := next_ptr (h p)\<rparr>;
            q = (if Some p = pq_tail q then q\<lparr>pq_head := None, pq_tail := None\<rparr> else q)
        in (Some p, h, q\<lparr>pq_len := pq_len q - 1, pq_bytes := pq_bytes q - pkt_size (h p)\<rparr>))"

text \<open>The n-th packet; the walk follows the links, so it returns only if the
  list ends or is long enough.\<close>
partial_function (option) lookup_from :: "heap \<Rightarrow> nat option \<Rightarrow> int \<Rightarrow> nat option option" where
  "lookup_from h p n =
    (if p = None then Some None
     else if n - 1 < 0 then Some p
     else lookup_from h (next_ptr (h (the p))) (n - 1))"

definition PacketQueue_lookup :: "int \<Rightarrow> heap \<times> pqueue \<Rightarrow> nat option option" where
  "PacketQueue_lookup n = (\<lambda>(h, q). lookup_from h (pq_head q) n)"

text \<open>The loop of remove(target): the pair of the previous packet and whether
  the target was found.\<close>
partial_function (option) find_from ::
  "heap \<Rightarrow> nat \<Rightarrow> nat option \<Rightarrow> nat option \<Rightarrow> (nat option \<times> bool) option" where
  "find_from h target pp p =
    (if p = None then Some (pp, False)
     else if p = Some target then Some (pp, True)
     else find_from h target p (next_ptr (h (the p))))"

datatype pq_error = Aborted

definition PacketQueue_remove ::
  "nat \<Rightarrow> heap \<times> pqueue \<Rightarrow> (pq_error, heap \<times> pqueue) outcome option" where
  "PacketQueue_remove target = (\<lambda>(h, q).
    case find_from h target None (pq_head q) of
      None \<Rightarrow> None
    | Some (pp, found) \<Rightarrow> Some (
        if \<not> found then Fail Aborted
        else case pp of
            None \<Rightarrow> Done (snd (PacketQueue_deque (h, q)))
          | Some b \<Rightarrow>
              let q = (if Some target = pq_tail q then q\<lparr>pq_tail := Some b\<rparr> else q);
                  h = h(b := (h b)\<lparr>next_ptr := next_ptr (h target)\<rparr>)
              in Done (h, q\<lparr>pq_len := pq_len q - 1, pq_bytes := pq_bytes q - pkt_size (h target)\<rparr>)))"

text \<open>remove(pkt, prev): either pointer may be null; a null prev with a packet
  that is not the head would be dereferenced.\<close>
datatype pq_null = NullDeref

definition PacketQueue_remove_after ::
  "nat option \<Rightarrow> nat option \<Rightarrow> heap \<times> pqueue \<Rightarrow> (pq_null, heap \<times> pqueue) outcome" where
  "PacketQueue_remove_after pkt prev = (\<lambda>(h, q).
    case pkt of
      None \<Rightarrow> Done (h, q)
    | Some p \<Rightarrow>
        if pq_head q = Some p then Done (snd (PacketQueue_deque (h, q)))
        else case prev of
            None \<Rightarrow> Fail NullDeref
          | Some b \<Rightarrow>
              let h = h(b := (h b)\<lparr>next_ptr := next_ptr (h p)\<rparr>);
                  q = (if pq_tail q = Some p then q\<lparr>pq_tail := Some b\<rparr> else q)
              in Done (h, q\<lparr>pq_len := pq_len q - 1, pq_bytes := pq_bytes q - pkt_size (h p)\<rparr>))"

definition PacketQueue_enqueHead :: "nat \<Rightarrow> heap \<times> pqueue \<Rightarrow> heap \<times> pqueue" where
  "PacketQueue_enqueHead p = (\<lambda>(h, q).
    let q = (if pq_head q = None then q\<lparr>pq_tail := Some p\<rparr> else q);
        h = h(p := (h p)\<lparr>next_ptr := pq_head q\<rparr>)
    in (h, q\<lparr>pq_head := Some p, pq_len := pq_len q + 1, pq_bytes := pq_bytes q + pkt_size (h p)\<rparr>))"

section \<open>The list a queue stands for\<close>

primrec chain :: "heap \<Rightarrow> nat option \<Rightarrow> nat list \<Rightarrow> nat option \<Rightarrow> bool" where
  "chain h p [] e \<longleftrightarrow> p = e"
| "chain h p (a # as) e \<longleftrightarrow> p = Some a \<and> chain h (next_ptr (h a)) as e"

definition total_size :: "heap \<Rightarrow> nat list \<Rightarrow> int" where
  "total_size h as = (\<Sum>a\<leftarrow>as. pkt_size (h a))"

definition represents :: "heap \<times> pqueue \<Rightarrow> nat list \<Rightarrow> bool" where
  "represents = (\<lambda>(h, q) as. chain h (pq_head q) as None \<and> distinct as
     \<and> pq_tail q = (if as = [] then None else Some (last as))
     \<and> pq_len q = int (length as) \<and> pq_bytes q = total_size h as)"

lemma total_size_simps [simp]:
  "total_size h [] = 0"
  "total_size h (a # as) = pkt_size (h a) + total_size h as"
  "total_size h (as @ bs) = total_size h as + total_size h bs"
  by (simp_all add: total_size_def)

lemma chain_append: "chain h p (as @ bs) e \<longleftrightarrow> (\<exists>m. chain h p as m \<and> chain h m bs e)"
  by (induction as arbitrary: p) auto

lemma chain_cong: "(\<And>a. a \<in> set as \<Longrightarrow> next_ptr (h' a) = next_ptr (h a)) \<Longrightarrow> chain h' p as e = chain h p as e"
  by (induction as arbitrary: p) auto

lemma chain_upd_other [simp]: "x \<notin> set as \<Longrightarrow> chain (h(x := v)) p as e = chain h p as e"
  by (rule chain_cong) auto

lemma total_size_cong: "(\<And>a. a \<in> set as \<Longrightarrow> pkt_size (h' a) = pkt_size (h a)) \<Longrightarrow> total_size h' as = total_size h as"
  by (induction as) auto

lemma total_size_link [simp]: "total_size (h(x := (h x)\<lparr>next_ptr := v\<rparr>)) as = total_size h as"
  by (rule total_size_cong) auto

lemma chain_snoc: "chain h p (as @ [a]) e \<longleftrightarrow> chain h p as (Some a) \<and> next_ptr (h a) = e"
  by (auto simp: chain_append)

lemma represents_init: "represents (h, PacketQueue_init) []"
  by (simp add: represents_def PacketQueue_init_def)

lemma represents_frame:
  assumes "represents (h, q) as" "\<And>a. a \<in> set as \<Longrightarrow> h' a = h a"
  shows "represents (h', q) as"
  using assms chain_cong[of as h' h] total_size_cong[of as h' h] by (simp add: represents_def)

section \<open>The pointer operations implement the list operations\<close>

lemma enque_represents:
  assumes "represents (h, q) as" "p \<notin> set as"
  shows "represents (snd (PacketQueue_enque p (h, q))) (as @ [p])"
proof (cases as rule: rev_cases)
  case Nil
  then show ?thesis using assms by (simp add: represents_def PacketQueue_enque_def)
next
  case (snoc bs t)
  then have t: "pq_tail q = Some t" and c: "chain h (pq_head q) bs (Some t)"
    and d: "distinct bs" "t \<notin> set bs" "p \<noteq> t" "p \<notin> set bs"
    using assms by (auto simp: represents_def chain_snoc)
  let ?h = "(h(t := (h t)\<lparr>next_ptr := Some p\<rparr>))(p := (h p)\<lparr>next_ptr := None\<rparr>)"
  have "chain ?h (pq_head q) ((bs @ [t]) @ [p]) None" using c d by (simp add: chain_append)
  moreover have "total_size ?h (bs @ [t]) = total_size h (bs @ [t])" "pkt_size (?h p) = pkt_size (h p)"
    by (auto intro!: total_size_cong)
  ultimately show ?thesis
    using assms snoc t d by (simp add: represents_def PacketQueue_enque_def Let_def)
qed

lemma enque_frame:
  assumes "represents (h, q) as" "x \<notin> set as" "x \<noteq> p"
  shows "fst (snd (PacketQueue_enque p (h, q))) x = h x"
  using assms by (cases as rule: rev_cases) (auto simp: represents_def PacketQueue_enque_def Let_def)

lemma deque_represents:
  assumes "represents (h, q) as"
  shows "case as of [] \<Rightarrow> PacketQueue_deque (h, q) = (None, h, q)
       | p # ps \<Rightarrow> \<exists>q'. PacketQueue_deque (h, q) = (Some p, h, q') \<and> represents (h, q') ps"
proof (cases as)
  case Nil
  then show ?thesis using assms by (simp add: represents_def PacketQueue_deque_def)
next
  case (Cons p ps)
  have "Some p = pq_tail q \<longleftrightarrow> ps = []"
    using assms last_in_set[of ps] by (auto simp: represents_def Cons)
  then show ?thesis using assms by (auto simp: represents_def PacketQueue_deque_def Cons Let_def)
qed

lemma lookup_represents:
  assumes "chain h p as None" "0 \<le> n"
  shows "lookup_from h p n = Some (if nat n < length as then Some (as ! nat n) else None)"
  using assms
proof (induction as arbitrary: p n)
  case Nil
  then show ?case by (simp add: lookup_from.simps)
next
  case (Cons a as)
  show ?case
  proof (cases "n = 0")
    case True
    then show ?thesis using Cons.prems by (simp add: lookup_from.simps)
  next
    case False
    then have "nat n = Suc (nat (n - 1))" using Cons.prems by simp
    then show ?thesis using Cons False by (subst lookup_from.simps) (auto simp: Let_def)
  qed
qed

lemma find_not_in:
  assumes "chain h p as None" "target \<notin> set as"
  shows "\<exists>pp'. find_from h target pp p = Some (pp', False)"
  using assms by (induction as arbitrary: p pp) (auto simp: find_from.simps)

lemma find_in:
  assumes "chain h p (as @ target # bs) None" "target \<notin> set as"
  shows "find_from h target pp p = Some (if as = [] then pp else Some (last as), True)"
  using assms by (induction as arbitrary: p pp) (auto simp: find_from.simps)

lemma unlink_chain:
  assumes "chain h p (as @ b # t # bs) None" "distinct (as @ b # t # bs)"
  shows "chain (h(b := (h b)\<lparr>next_ptr := next_ptr (h t)\<rparr>)) p (as @ b # bs) None"
  using assms by (auto simp: chain_append)

lemma remove_represents:
  assumes "represents (h, q) (as @ t # bs)"
  shows "\<exists>h' q'. PacketQueue_remove t (h, q) = Some (Done (h', q')) \<and> represents (h', q') (as @ bs)
           \<and> (\<forall>x. x \<notin> set (as @ t # bs) \<longrightarrow> h' x = h x)"
proof -
  have c: "chain h (pq_head q) (as @ t # bs) None" and d: "distinct (as @ t # bs)"
    using assms by (simp_all add: represents_def)
  have f: "find_from h t None (pq_head q) = Some (if as = [] then None else Some (last as), True)"
    using find_in[OF c, of None] d by auto
  show ?thesis
  proof (cases as rule: rev_cases)
    case Nil
    obtain q' where "PacketQueue_deque (h, q) = (Some t, h, q')" "represents (h, q') bs"
      using deque_represents[OF assms] Nil by auto
    then show ?thesis using Nil f by (simp add: PacketQueue_remove_def)
  next
    case (snoc cs b)
    let ?h = "h(b := (h b)\<lparr>next_ptr := next_ptr (h t)\<rparr>)"
    have ch: "chain ?h (pq_head q) (cs @ b # bs) None"
      using unlink_chain[of h "pq_head q" cs b t bs] c d snoc by simp
    have tl: "Some t = pq_tail q \<longleftrightarrow> bs = []"
      using assms d last_in_set[of bs] by (auto simp: represents_def)
    have sz: "pkt_size (?h t) = pkt_size (h t)" by simp
    show ?thesis
      using assms ch tl d snoc f sz
      by (auto simp: represents_def PacketQueue_remove_def Let_def)
  qed
qed

lemma remove_absent:
  assumes "represents (h, q) as" "t \<notin> set as"
  shows "PacketQueue_remove t (h, q) = Some (Fail Aborted)"
  using assms find_not_in[of h "pq_head q" as t None] by (auto simp: represents_def PacketQueue_remove_def)

lemma remove_after_represents:
  assumes "represents (h, q) (as @ b # t # bs)"
  shows "\<exists>h' q'. PacketQueue_remove_after (Some t) (Some b) (h, q) = Done (h', q')
           \<and> represents (h', q') (as @ b # bs)"
proof -
  have c: "chain h (pq_head q) (as @ b # t # bs) None" and d: "distinct (as @ b # t # bs)"
    using assms by (simp_all add: represents_def)
  have hd: "pq_head q \<noteq> Some t" using c d by (cases as) auto
  have tl: "pq_tail q = Some t \<longleftrightarrow> bs = []"
    using assms d last_in_set[of bs] by (auto simp: represents_def)
  show ?thesis
    using assms unlink_chain[OF c d] hd tl d
    by (auto simp: represents_def PacketQueue_remove_after_def Let_def)
qed

lemma enqueHead_represents:
  assumes "represents (h, q) as" "p \<notin> set as"
  shows "represents (PacketQueue_enqueHead p (h, q)) (p # as)"
proof -
  have "pq_head q = None \<longleftrightarrow> as = []" using assms by (cases as) (auto simp: represents_def)
  then show ?thesis
    using assms by (auto simp: represents_def PacketQueue_enqueHead_def Let_def)
qed

end
