(* ===== verification/Ns2Queue.thy ===== *)
theory Ns2Queue
  imports PacketQueue Doubles
begin

text \<open>
  \<^verbatim>\<open>class Queue\<close> of \<^verbatim>\<open>queue/queue.{h,cc}\<close> in dpdq-ns2: the base of every queue
  discipline.  recv enqueues a packet and, when the link below is idle, sends
  one; resume is what the link calls when it is idle again.  The discipline
  (the virtual enque and deque) is an argument of recv, resume and reset; the
  interface a discipline offers is the locale qdisc, in which work conservation
  and packet conservation are proved once.  Packets handed to drop() are
  collected in the state, packets sent to the target are returned.
\<close>

section \<open>Queues of packets as lists\<close>

text \<open>The abstract value of a PacketQueue: its packets in order and the byte
  counter.\<close>
record fifo =
  items :: "packet list"
  fbytes :: int

definition fifo_empty :: fifo where "fifo_empty = \<lparr>items = [], fbytes = 0\<rparr>"

definition fifo_enque :: "packet \<Rightarrow> fifo \<Rightarrow> fifo" where
  "fifo_enque p q = q\<lparr>items := items q @ [p], fbytes := fbytes q + pkt_size p\<rparr>"

definition fifo_deque :: "fifo \<Rightarrow> packet option \<times> fifo" where
  "fifo_deque q = (case items q of [] \<Rightarrow> (None, q)
     | p # ps \<Rightarrow> (Some p, q\<lparr>items := ps, fbytes := fbytes q - pkt_size p\<rparr>))"

definition fifo_len :: "fifo \<Rightarrow> int" where "fifo_len q = int (length (items q))"

text \<open>The fifo a pointer queue stands for.\<close>
definition fifo_of :: "heap \<times> pqueue \<Rightarrow> nat list \<Rightarrow> fifo" where
  "fifo_of = (\<lambda>(h, q) as. \<lparr>items = map (\<lambda>a. packet.truncate (h a)) as, fbytes = pq_bytes q\<rparr>)"

lemma truncate_link [simp]: "packet.truncate (r\<lparr>next_ptr := v\<rparr>) = packet.truncate r"
  by (simp add: packet.truncate_def)

lemma truncate_size [simp]: "pkt_size (packet.truncate r) = pkt_size r"
  by (simp add: packet.truncate_def)

lemma enque_refines:
  assumes "represents (h, q) as" "p \<notin> set as"
  shows "fifo_of (snd (PacketQueue_enque p (h, q))) (as @ [p])
           = fifo_enque (packet.truncate (h p)) (fifo_of (h, q) as)"
  using assms
  by (cases as rule: rev_cases)
    (auto simp: represents_def PacketQueue_enque_def fifo_of_def fifo_enque_def Let_def)

lemma deque_refines:
  assumes "represents (h, q) (p # as)" "PacketQueue_deque (h, q) = (Some p, h', q')"
  shows "fifo_deque (fifo_of (h, q) (p # as)) = (Some (packet.truncate (h p)), fifo_of (h', q') as)"
  using assms
  by (auto simp: represents_def PacketQueue_deque_def fifo_of_def fifo_deque_def Let_def split: if_splits)

section \<open>First in, first out\<close>

text \<open>The calls a discipline makes on a packet queue and what they return.\<close>
datatype pq_op = Enque nat | Deque

locale packet_fifo =
  fixes rep :: "'q \<Rightarrow> nat list \<Rightarrow> bool"
    and enq :: "nat \<Rightarrow> 'q \<Rightarrow> 'q"
    and deq :: "'q \<Rightarrow> nat option \<times> 'q"
    and plen :: "'q \<Rightarrow> int"
  assumes enq_rep: "rep q as \<Longrightarrow> p \<notin> set as \<Longrightarrow> rep (enq p q) (as @ [p])"
    and deq_nil: "rep q [] \<Longrightarrow> deq q = (None, q)"
    and deq_cons: "rep q (a # as) \<Longrightarrow> \<exists>q'. deq q = (Some a, q') \<and> rep q' as"
    and plen_rep: "rep q as \<Longrightarrow> plen q = int (length as)"
begin

text \<open>Run a sequence of calls, collecting what the deques return.\<close>
fun run_ops :: "pq_op list \<Rightarrow> 'q \<Rightarrow> nat list \<times> 'q" where
  "run_ops [] q = ([], q)"
| "run_ops (Enque p # ops) q = run_ops ops (enq p q)"
| "run_ops (Deque # ops) q =
    (let (r, q') = deq q; (out, q'') = run_ops ops q'
     in (case r of None \<Rightarrow> out | Some a \<Rightarrow> a # out, q''))"

fun enqueued :: "pq_op list \<Rightarrow> nat list" where
  "enqueued [] = []"
| "enqueued (Enque p # ops) = p # enqueued ops"
| "enqueued (Deque # ops) = enqueued ops"

theorem fifo_order:
  assumes "rep q as" "distinct (as @ enqueued ops)" "run_ops ops q = (out, q')"
  shows "\<exists>bs. rep q' bs \<and> out @ bs = as @ enqueued ops"
  using assms
proof (induction ops q arbitrary: as out q' rule: run_ops.induct)
  case (1 q)
  then show ?case by auto
next
  case (2 p ops q)
  then have "rep (enq p q) (as @ [p])" by (intro enq_rep) auto
  with 2 show ?case by fastforce
next
  case (3 ops q)
  show ?case
  proof (cases as)
    case Nil
    then have d: "deq q = (None, q)" using 3(2) deq_nil by simp
    obtain o1 q2 where "run_ops ops q = (o1, q2)" by force
    then show ?thesis using 3(1)[of "(None, q)" None q as o1 q2] 3(2-4) d by auto
  next
    case (Cons a as')
    obtain q1 where d: "deq q = (Some a, q1)" "rep q1 as'" using deq_cons 3(2) Cons by metis
    obtain o1 q2 where r: "run_ops ops q1 = (o1, q2)" by force
    have "\<exists>bs. rep q2 bs \<and> o1 @ bs = as' @ enqueued ops"
      using 3(1)[of _ "Some a" q1] d r 3(3) Cons by (metis append_Cons distinct.simps(2) enqueued.simps(3))
    then show ?thesis using 3(4) d r Cons by auto
  qed
qed

end

interpretation pq: packet_fifo represents "\<lambda>p. snd \<circ> PacketQueue_enque p" PacketQueue_deque "pq_len \<circ> snd"
proof (unfold_locales, goal_cases)
  case (1 q as p)
  then show ?case by (cases q) (simp add: enque_represents)
next
  case (2 q)
  then show ?case using deque_represents[of "fst q" "snd q" "[]"] by simp
next
  case (3 q a as)
  then show ?case using deque_represents[of "fst q" "snd q" "a # as"] by auto
next
  case (4 q as)
  then show ?case by (auto simp: represents_def case_prod_beta)
qed

section \<open>The base class\<close>

record Queue =
  qlim :: int
  blocked :: int
  unblock_on_resume :: bool
  true_ave :: double
  total_time :: double
  last_change :: double
  old_util :: double
  util_weight :: double
  util_check_intv :: double
  period_begin :: double
  cur_util :: double
  buf_slot :: int
  util_buf :: "double list"
  util_records :: int
  switch_shared_buffer :: int
  qnode :: "nat option"
  dropped :: "packet list"

text \<open>drop() hands the packet to the drop target.\<close>
definition drop_pkt :: "packet \<Rightarrow> 'a Queue_scheme \<Rightarrow> 'a Queue_scheme" where
  "drop_pkt p s = s\<lparr>dropped := dropped s @ [p]\<rparr>"

text \<open>The loop of utilUpdate; its guard lets it run util_records times at most,
  which is the first argument.\<close>
fun util_loop :: "nat \<Rightarrow> double \<Rightarrow> double \<Rightarrow> double \<Rightarrow> int \<Rightarrow> 'a Queue_scheme \<Rightarrow> 'a Queue_scheme" where
  "util_loop 0 tot_intv intv int_end link_state s = s"
| "util_loop (Suc n) tot_intv intv int_end link_state s =
    (if fadd tot_intv intv > util_check_intv s
     then util_loop n tot_intv (fsub intv (util_check_intv s)) int_end link_state
            (s\<lparr>period_begin := int_end,
               util_buf := (util_buf s)[nat (buf_slot s) := cur_util s],
               buf_slot := (buf_slot s + 1) mod util_records s,
               cur_util := dbl_of_int link_state\<rparr>)
     else s)"

text \<open>ex is the C library's exp.\<close>
definition utilUpdate ::
  "(double \<Rightarrow> double) \<Rightarrow> double \<Rightarrow> double \<Rightarrow> int \<Rightarrow> 'a Queue_scheme \<Rightarrow> 'a Queue_scheme" where
  "utilUpdate ex int_begin int_end link_state s =
    (let link = dbl_of_int link_state;
         decay = ex (fmul (- util_weight s) (fsub int_end int_begin));
         s = s\<lparr>old_util := fadd link (fmul (fsub (old_util s) link) decay)\<rparr>
     in if util_records s = 0 then s
        else let intv = fsub int_end int_begin;
                 tot_intv = fsub int_begin (period_begin s)
             in if intv \<noteq> 0 \<or> tot_intv \<noteq> 0
                then let s = s\<lparr>cur_util := fdiv (fadd (fmul link intv) (fmul (cur_util s) tot_intv))
                                              (fadd intv tot_intv)\<rparr>
                     in util_loop (nat (util_records s)) tot_intv intv int_end link_state s
                else s)"

definition utilization :: "(double \<Rightarrow> double) \<Rightarrow> double \<Rightarrow> 'a Queue_scheme \<Rightarrow> double \<times> 'a Queue_scheme" where
  "utilization ex now s =
    (let s = utilUpdate ex (last_change s) now (blocked s) s;
         s = s\<lparr>last_change := now\<rparr>
     in (old_util s, s))"

definition peak_utilization :: "(double \<Rightarrow> double) \<Rightarrow> double \<Rightarrow> 'a Queue_scheme \<Rightarrow> double \<times> 'a Queue_scheme" where
  "peak_utilization ex now s =
    (if util_records s = 0 then utilization ex now s
     else let s = utilUpdate ex (last_change s) now (blocked s) s;
              s = s\<lparr>last_change := now\<rparr>;
              peak = foldl (\<lambda>peak i. if util_buf s ! i > peak then util_buf s ! i else peak) 0
                       [0..<nat (util_records s)]
          in (peak, s))"

definition updateStats :: "double \<Rightarrow> int \<Rightarrow> 'a Queue_scheme \<Rightarrow> 'a Queue_scheme" where
  "updateStats now queuesize s =
    (let newtime = fsub now (total_time s)
     in if newtime > 0
        then s\<lparr>true_ave := fdiv (fadd (fmul (total_time s) (true_ave s))
                                     (fmul newtime (dbl_of_int queuesize))) now,
               total_time := now\<rparr>
        else s)"

text \<open>The calls of the discipline that can throw do so before they change
  anything the caller observes; the exception leaves recv and resume.\<close>
datatype q_error = RuntimeError string | InvalidArgument string | AssertionFailed string

definition Queue_recv ::
  "(double \<Rightarrow> double) \<Rightarrow> (double \<Rightarrow> packet \<Rightarrow> 'a Queue_scheme \<Rightarrow> (q_error, 'a Queue_scheme) outcome)
   \<Rightarrow> (double \<Rightarrow> 'a Queue_scheme \<Rightarrow> (q_error, packet option \<times> 'a Queue_scheme) outcome)
   \<Rightarrow> double \<Rightarrow> packet \<Rightarrow> 'a Queue_scheme \<Rightarrow> (q_error, packet option \<times> 'a Queue_scheme) outcome" where
  "Queue_recv ex enque deque now p s =
    bind_outcome (enque now p s) (\<lambda>s.
      if blocked s = 0
      then bind_outcome (deque now s) (\<lambda>(r, s).
        case r of
          None \<Rightarrow> Done (None, s)
        | Some p \<Rightarrow>
            let s = utilUpdate ex (last_change s) now (blocked s) s;
                s = s\<lparr>last_change := now, blocked := 1\<rparr>
            in Done (Some p, s))
      else Done (None, s))"

definition Queue_resume ::
  "(double \<Rightarrow> double) \<Rightarrow> (double \<Rightarrow> 'a Queue_scheme \<Rightarrow> (q_error, packet option \<times> 'a Queue_scheme) outcome)
   \<Rightarrow> double \<Rightarrow> 'a Queue_scheme \<Rightarrow> (q_error, packet option \<times> 'a Queue_scheme) outcome" where
  "Queue_resume ex deque now s =
    bind_outcome (deque now s) (\<lambda>(r, s).
      case r of
        Some p \<Rightarrow> Done (Some p, s)
      | None \<Rightarrow>
          let s = utilUpdate ex (last_change s) now (blocked s) s;
              s = s\<lparr>last_change := now, blocked := (if unblock_on_resume s then 0 else 1)\<rparr>
          in Done (None, s))"

text \<open>The loop of reset returns once the discipline has no packet left.\<close>
partial_function (option) drain ::
  "('a Queue_scheme \<Rightarrow> (q_error, packet option \<times> 'a Queue_scheme) outcome)
   \<Rightarrow> 'a Queue_scheme \<Rightarrow> (q_error, 'a Queue_scheme) outcome option" where
  "drain deque s =
    (if is_Fail (deque s) then Some (Fail (err (deque s)))
     else if fst (val (deque s)) = None then Some (Done (snd (val (deque s))))
     else drain deque (drop_pkt (the (fst (val (deque s)))) (snd (val (deque s)))))"

definition Queue_reset ::
  "(double \<Rightarrow> 'a Queue_scheme \<Rightarrow> (q_error, packet option \<times> 'a Queue_scheme) outcome)
   \<Rightarrow> double \<Rightarrow> 'a Queue_scheme \<Rightarrow> (q_error, 'a Queue_scheme) outcome option" where
  "Queue_reset deque now s = drain (deque now) (s\<lparr>total_time := 0, true_ave := 0\<rparr>)"

lemma util_loop_sel [simp]:
  "dropped (util_loop n t i e k r) = dropped r"
  "unblock_on_resume (util_loop n t i e k r) = unblock_on_resume r"
  "old_util (util_loop n t i e k r) = old_util r"
  by (induction n t i e k r rule: util_loop.induct) simp_all

lemma utilUpdate_sel [simp]:
  "dropped (utilUpdate ex a b l s) = dropped s"
  "unblock_on_resume (utilUpdate ex a b l s) = unblock_on_resume s"
  by (simp_all add: utilUpdate_def Let_def)

text \<open>\<^verbatim>\<open>Node::should_drop\<close> of \<^verbatim>\<open>common/node.cc\<close>: the shared-buffer test over all
  queues of a node, each given by its length and byteLength at that time.\<close>
record Node =
  shared_queue_len_pkts :: int
  connected_link_queues :: "(int \<times> int) list"

definition Node_should_drop :: "int \<Rightarrow> int \<Rightarrow> bool \<Rightarrow> Node \<Rightarrow> bool" where
  "Node_should_drop pkt_sz mean_pkt_sz q_in_bytes n =
    (let qlim_bytes = mean_pkt_sz * shared_queue_len_pkts n;
         current_qlen_pkts = foldl (\<lambda>acc q. acc + fst q) 0 (connected_link_queues n) + 1;
         current_qlen_bytes = foldl (\<lambda>acc q. acc + snd q) 0 (connected_link_queues n) + pkt_sz
     in \<not> q_in_bytes \<and> current_qlen_pkts \<ge> shared_queue_len_pkts n
        \<or> q_in_bytes \<and> current_qlen_bytes \<ge> qlim_bytes)"

text \<open>attach_node of the disciplines that support it.\<close>
definition attach_node :: "nat option \<Rightarrow> 'a Queue_scheme \<Rightarrow> (q_error, 'a Queue_scheme) outcome" where
  "attach_node node s =
    (if node = None then Fail (RuntimeError ''attach_node() node is nullptr'')
     else Done (s\<lparr>qnode := node\<rparr>))"

section \<open>Runs of a queue\<close>

text \<open>What happens to a queue: a packet arrives from above, or the link below
  reports that it is idle again.\<close>
datatype q_event = Recv double packet | Resume double

fun arrivals :: "q_event \<Rightarrow> packet list" where
  "arrivals (Recv now p) = [p]"
| "arrivals (Resume now) = []"

fun event_time :: "q_event \<Rightarrow> double" where
  "event_time (Recv now p) = now"
| "event_time (Resume now) = now"

fun Queue_step ::
  "(double \<Rightarrow> double) \<Rightarrow> (double \<Rightarrow> packet \<Rightarrow> 'a Queue_scheme \<Rightarrow> (q_error, 'a Queue_scheme) outcome)
   \<Rightarrow> (double \<Rightarrow> 'a Queue_scheme \<Rightarrow> (q_error, packet option \<times> 'a Queue_scheme) outcome)
   \<Rightarrow> q_event \<Rightarrow> 'a Queue_scheme \<Rightarrow> (q_error, packet option \<times> 'a Queue_scheme) outcome" where
  "Queue_step ex enq deq (Recv now p) s = Queue_recv ex enq deq now p s"
| "Queue_step ex enq deq (Resume now) s = Queue_resume ex deq now s"

text \<open>A whole run: the events in order, with the packets sent to the target.\<close>
fun Queue_run ::
  "(double \<Rightarrow> double) \<Rightarrow> (double \<Rightarrow> packet \<Rightarrow> 'a Queue_scheme \<Rightarrow> (q_error, 'a Queue_scheme) outcome)
   \<Rightarrow> (double \<Rightarrow> 'a Queue_scheme \<Rightarrow> (q_error, packet option \<times> 'a Queue_scheme) outcome)
   \<Rightarrow> q_event list \<Rightarrow> 'a Queue_scheme \<Rightarrow> (q_error, packet list \<times> 'a Queue_scheme) outcome" where
  "Queue_run ex enq deq [] s = Done ([], s)"
| "Queue_run ex enq deq (e # es) s = bind_outcome (Queue_step ex enq deq e s) (\<lambda>(r, s1).
     bind_outcome (Queue_run ex enq deq es s1) (\<lambda>(out, s2).
       Done ((case r of None \<Rightarrow> out | Some p \<Rightarrow> p # out), s2)))"

lemma Queue_run_Cons:
  assumes "Queue_run ex enq deq (e # es) s = Done (out, s')"
  obtains r s1 out1 where "Queue_step ex enq deq e s = Done (r, s1)"
    "Queue_run ex enq deq es s1 = Done (out1, s')" "out = (case r of None \<Rightarrow> [] | Some p \<Rightarrow> [p]) @ out1"
  using assms by (auto simp: bind_outcome_Done split: prod.splits option.splits)

text \<open>The link's bookkeeping around the discipline's two calls.\<close>
definition book :: "(double \<Rightarrow> double) \<Rightarrow> double \<Rightarrow> double \<Rightarrow> int \<Rightarrow> double \<Rightarrow> int \<Rightarrow> 'a Queue_scheme \<Rightarrow> 'a Queue_scheme" where
  "book ex a b l t c s = utilUpdate ex a b l s\<lparr>last_change := t, blocked := c\<rparr>"

text \<open>A step is the discipline's calls and the bookkeeping: a property of states
  and emitted packets that these keep is kept by every run.\<close>
lemma Queue_step_rule:
  assumes "Queue_step ex enq deq e s = Done (r, s')"
  obtains (queued) now p where "e = Recv now p" "enq now p s = Done s'" "r = None" "blocked s' \<noteq> 0"
    | (empty) now p s1 where "e = Recv now p" "enq now p s = Done s1" "blocked s1 = 0"
        "deq now s1 = Done (None, s')" "r = None"
    | (sent) now p s1 q s2 l where "e = Recv now p" "enq now p s = Done s1" "blocked s1 = 0"
        "deq now s1 = Done (Some q, s2)" "r = Some q" "s' = book ex (last_change s2) now l now 1 s2"
    | (next_pkt) now q where "e = Resume now" "deq now s = Done (Some q, s')" "r = Some q"
    | (idle) now s1 l where "e = Resume now" "deq now s = Done (None, s1)" "r = None"
        "s' = book ex (last_change s1) now l now (if unblock_on_resume s1 then 0 else 1) s1"
proof (cases e)
  case (Recv now p)
  then obtain s1 where e1: "enq now p s = Done s1"
    using assms by (auto simp: Queue_recv_def bind_outcome_Done)
  show ?thesis
  proof (cases "blocked s1 = 0")
    case True
    then obtain r1 s2 where d: "deq now s1 = Done (r1, s2)"
      using assms e1 Recv by (auto simp: Queue_recv_def bind_outcome_Done)
    show ?thesis
    proof (cases r1)
      case None
      then have "r = None" "s' = s2" using assms e1 Recv True d by (simp_all add: Queue_recv_def)
      then show ?thesis using empty[OF Recv e1 True] d None by simp
    next
      case (Some q)
      then have "r = Some q" "s' = book ex (last_change s2) now (blocked s2) now 1 s2"
        using assms e1 Recv True d by (simp_all add: Queue_recv_def book_def Let_def)
      then show ?thesis using sent[OF Recv e1 True] d Some by simp
    qed
  next
    case False
    then have "r = None" "s' = s1" using assms e1 Recv by (simp_all add: Queue_recv_def)
    then show ?thesis using queued[OF Recv] e1 False by simp
  qed
next
  case (Resume now)
  then obtain r1 s1 where d: "deq now s = Done (r1, s1)"
    using assms by (auto simp: Queue_resume_def bind_outcome_Done)
  show ?thesis
  proof (cases r1)
    case None
    then have "r = None" "s' = book ex (last_change s1) now (blocked s1) now
        (if unblock_on_resume s1 then 0 else 1) s1"
      using assms Resume d by (simp_all add: Queue_resume_def book_def Let_def)
    then show ?thesis using idle[OF Resume] d None by simp
  next
    case (Some q)
    then have "r = Some q" "s' = s1" using assms Resume d by (simp_all add: Queue_resume_def)
    then show ?thesis using next_pkt[OF Resume] d Some by simp
  qed
qed

lemma Queue_run_inv:
  assumes run: "Queue_run ex enq deq es s = Done (out, s')" and start: "P s"
    and enq: "\<And>now p s s'. enq now p s = Done s' \<Longrightarrow> P s \<Longrightarrow> P s'"
    and deq: "\<And>now r s s'. deq now s = Done (r, s') \<Longrightarrow> P s \<Longrightarrow> P s'"
    and book: "\<And>a b l t c s. P s \<Longrightarrow> P (book ex a b l t c s)"
  shows "P s'"
  using run start
proof (induction es arbitrary: s out)
  case (Cons e es)
  obtain r s1 out1 where 1: "Queue_step ex enq deq e s = Done (r, s1)"
    "Queue_run ex enq deq es s1 = Done (out1, s')"
    using Queue_run_Cons[OF Cons.prems(1)] by metis
  from 1(1) have "P s1"
    by (cases rule: Queue_step_rule) (use Cons.prems(2) enq deq book in blast)+
  then show ?case using Cons.IH[OF 1(2)] by simp
qed simp

section \<open>What every discipline owes the base class\<close>

locale qdisc =
  fixes inv :: "'a Queue_scheme \<Rightarrow> bool"
    and held :: "'a Queue_scheme \<Rightarrow> nat"
    and enq :: "double \<Rightarrow> packet \<Rightarrow> 'a Queue_scheme \<Rightarrow> (q_error, 'a Queue_scheme) outcome"
    and deq :: "double \<Rightarrow> 'a Queue_scheme \<Rightarrow> (q_error, packet option \<times> 'a Queue_scheme) outcome"
    and ex :: "double \<Rightarrow> double"
  assumes inv_base: "inv s \<Longrightarrow> inv (book ex a b l t c s)"
    and held_base: "held (book ex a b l t c s) = held s"
    and drop_base: "inv s \<Longrightarrow> inv (drop_pkt p s)" "held (drop_pkt p s) = held s"
    and enq_law: "inv s \<Longrightarrow> enq now p s = Done s' \<Longrightarrow> inv s' \<and> blocked s' = blocked s
        \<and> unblock_on_resume s' = unblock_on_resume s
        \<and> held s' + length (dropped s') = Suc (held s + length (dropped s))"
    and deq_law: "inv s \<Longrightarrow> deq now s = Done (r, s') \<Longrightarrow> inv s' \<and> blocked s' = blocked s
        \<and> unblock_on_resume s' = unblock_on_resume s \<and> dropped s' = dropped s
        \<and> (r = None \<longleftrightarrow> held s = 0) \<and> held s' = held s - (if r = None then 0 else 1)"
begin

text \<open>The link is idle only when nothing is waiting.\<close>
definition work_conserving :: "'a Queue_scheme \<Rightarrow> bool" where
  "work_conserving s \<longleftrightarrow> inv s \<and> (blocked s = 0 \<longrightarrow> held s = 0)"

lemma book_counts [simp]:
  "dropped (book ex a b l t c s) = dropped s" "blocked (book ex a b l t c s) = c"
  by (simp_all add: book_def)

lemma q_step_law:
  assumes "work_conserving s" "Queue_step ex enq deq e s = Done (r, s')"
  shows "work_conserving s'
    \<and> held s' + length (dropped s') + (case r of None \<Rightarrow> 0 | Some p \<Rightarrow> 1)
      = held s + length (dropped s) + length (arrivals e)"
  using assms(2)
proof (cases rule: Queue_step_rule)
  case (queued now p)
  then show ?thesis using assms(1) enq_law[of s now p s'] by (auto simp: work_conserving_def)
next
  case (empty now p s1)
  then show ?thesis
    using assms(1) enq_law[of s now p s1] deq_law[of s1 now None s'] by (auto simp: work_conserving_def)
next
  case (sent now p s1 q s2 l)
  then show ?thesis
    using assms(1) enq_law[of s now p s1] deq_law[of s1 now "Some q" s2]
    by (auto simp: work_conserving_def inv_base held_base)
next
  case (next_pkt now q)
  then show ?thesis using assms(1) deq_law[of s now "Some q" s'] by (auto simp: work_conserving_def)
next
  case (idle now s1 l)
  then show ?thesis
    using assms(1) deq_law[of s now None s1] by (auto simp: work_conserving_def inv_base held_base)
qed

theorem q_run_law:
  assumes "work_conserving s" "Queue_run ex enq deq es s = Done (out, s')"
  shows "work_conserving s'
    \<and> held s' + length (dropped s') + length out
        = held s + length (dropped s) + length (concat (map arrivals es))"
  using assms
proof (induction es arbitrary: s out)
  case (Cons e es)
  obtain r s1 out1 where 1: "Queue_step ex enq deq e s = Done (r, s1)"
    "Queue_run ex enq deq es s1 = Done (out1, s')" "out = (case r of None \<Rightarrow> [] | Some p \<Rightarrow> [p]) @ out1"
    using Queue_run_Cons[OF Cons.prems(2)] by metis
  show ?case
    using q_step_law[OF Cons.prems(1) 1(1)] Cons.IH[OF _ 1(2)] 1(3)
    by (auto split: option.splits)
qed simp

theorem drain_empties:
  assumes "inv s" "\<And>t. inv t \<Longrightarrow> \<not> is_Fail (deq now t)"
  shows "\<exists>t. drain (deq now) s = Some (Done t) \<and> inv t \<and> held t = 0
           \<and> length (dropped t) = length (dropped s) + held s"
  using assms(1)
proof (induction "held s" arbitrary: s)
  case 0
  obtain r t where d: "deq now s = Done (r, t)"
    using assms(2)[OF 0(2)] by (auto simp: not_is_Fail)
  show ?case using deq_law[OF 0(2) d] 0(1) d by (subst drain.simps) auto
next
  case (Suc n)
  obtain r t where d: "deq now s = Done (r, t)"
    using assms(2)[OF Suc(3)] by (auto simp: not_is_Fail)
  note l = deq_law[OF Suc(3) d]
  then obtain p where p: "r = Some p" using Suc(2) by auto
  have "\<exists>u. drain (deq now) (drop_pkt p t) = Some (Done u) \<and> inv u \<and> held u = 0
          \<and> length (dropped u) = length (dropped (drop_pkt p t)) + held (drop_pkt p t)"
    using l p Suc(2) by (intro Suc(1)) (simp_all add: drop_base)
  moreover have "length (dropped (drop_pkt p t)) = Suc (length (dropped t))"
    by (simp add: drop_pkt_def)
  ultimately show ?case using l p d Suc(2) by (subst drain.simps) (auto simp: drop_base)
qed

end

section \<open>The utilisation estimate\<close>

lemma dbl_unit: "dbl 1 = 1" "dbl (-1) = -1"
proof -
  show 1: "dbl 1 = 1" using dbl_of_nat[of 1] by simp
  have "dbl (- 1) = - dbl 1" by (simp add: dbl_def rnd_def)
  then show "dbl (- 1) = - 1" using 1 by simp
qed

lemma dbl_between: "0 \<le> x \<Longrightarrow> x \<le> 1 \<Longrightarrow> 0 \<le> dbl x \<and> dbl x \<le> 1"
  using dbl_mono[of 0 x] dbl_mono[of x 1] by (simp add: dbl_unit)

lemma dbl_between': "-1 \<le> x \<Longrightarrow> x \<le> 0 \<Longrightarrow> -1 \<le> dbl x \<and> dbl x \<le> 0"
  using dbl_mono[of "-1" x] dbl_mono[of x 0] by (simp add: dbl_unit)

lemma utilUpdate_unit:
  assumes "0 \<le> old_util s" "old_util s \<le> 1" "l = 0 \<or> l = 1" "\<And>x. 0 \<le> ex x \<and> ex x \<le> 1"
  shows "0 \<le> old_util (utilUpdate ex a b l s) \<and> old_util (utilUpdate ex a b l s) \<le> 1"
proof -
  let ?d = "ex (fmul (- util_weight s) (fsub b a))"
  have d: "0 \<le> ?d" "?d \<le> 1" using assms(4) by simp_all
  have "old_util (utilUpdate ex a b l s)
      = fadd (dbl_of_int l) (fmul (fsub (old_util s) (dbl_of_int l)) ?d)"
    by (simp add: utilUpdate_def Let_def)
  moreover have "0 \<le> fadd (dbl_of_int l) (fmul (fsub (old_util s) (dbl_of_int l)) ?d)
      \<and> fadd (dbl_of_int l) (fmul (fsub (old_util s) (dbl_of_int l)) ?d) \<le> 1"
  proof (cases "l = 0")
    case True
    have u: "0 \<le> fsub (old_util s) 0" "fsub (old_util s) 0 \<le> 1"
      using assms(1,2) dbl_between[of "old_util s"] by (simp_all add: fsub_def)
    then have "0 \<le> fsub (old_util s) 0 * ?d" "fsub (old_util s) 0 * ?d \<le> 1"
      using d by (simp_all add: mult_le_one)
    then have "0 \<le> fmul (fsub (old_util s) 0) ?d" "fmul (fsub (old_util s) 0) ?d \<le> 1"
      using dbl_between by (auto simp: fmul_def)
    then show ?thesis using True dbl_between by (auto simp: fadd_def dbl_of_int_def)
  next
    case False
    then have l: "dbl_of_int l = 1" using assms(3) by (simp add: dbl_of_int_def dbl_unit)
    have u: "-1 \<le> fsub (old_util s) 1" "fsub (old_util s) 1 \<le> 0"
      using assms(1,2) dbl_between'[of "old_util s - 1"] by (simp_all add: fsub_def)
    then have "fsub (old_util s) 1 * ?d \<le> 0" using d by (simp add: mult_nonpos_nonneg)
    moreover have "- 1 \<le> fsub (old_util s) 1 * ?d"
      using mult_le_one[of "- fsub (old_util s) 1" ?d] u d by simp
    ultimately have "-1 \<le> fmul (fsub (old_util s) 1) ?d" "fmul (fsub (old_util s) 1) ?d \<le> 0"
      using dbl_between' by (auto simp: fmul_def)
    then show ?thesis using l dbl_between[of "1 + fmul (fsub (old_util s) 1) ?d"]
      by (simp add: fadd_def)
  qed
  ultimately show ?thesis by simp
qed

end
