(* ===== verification/CStrings.thy ===== *)
theory CStrings
  imports Prelude
begin

text \<open>
  The number parsing and printing of the C library that the command handlers
  of the simulator use: atoi, strtoull in base 10 and the %llu conversion.
\<close>

definition digit_val :: "char \<Rightarrow> nat option" where
  "digit_val c = (let k = of_char c :: nat in if 48 \<le> k \<and> k \<le> 57 then Some (k - 48) else None)"

fun skip_space :: "string \<Rightarrow> string" where
  "skip_space [] = []"
| "skip_space (c # cs) =
    (let k = of_char c :: nat in if k = 32 \<or> 9 \<le> k \<and> k \<le> 13 then skip_space cs else c # cs)"

text \<open>The longest prefix of digits as a number, how many there are, and the rest.\<close>
fun scan_digits :: "string \<Rightarrow> nat \<Rightarrow> nat \<Rightarrow> nat \<times> nat \<times> string" where
  "scan_digits [] acc n = (acc, n, [])"
| "scan_digits (c # cs) acc n =
    (case digit_val c of None \<Rightarrow> (acc, n, c # cs) | Some d \<Rightarrow> scan_digits cs (10 * acc + d) (Suc n))"

text \<open>An optional sign: whether it is minus, and what follows.\<close>
definition scan_sign :: "string \<Rightarrow> bool \<times> string" where
  "scan_sign t = (case t of [] \<Rightarrow> (False, [])
     | c # cs \<Rightarrow> if c = CHR ''-'' then (True, cs) else if c = CHR ''+'' then (False, cs) else (False, t))"

text \<open>atoi, for numbers that fit an int.\<close>
definition atoi :: "string \<Rightarrow> int" where
  "atoi t = (let (neg, t) = scan_sign (skip_space t); (v, n, r) = scan_digits t 0 0
             in if neg then - int v else int v)"

text \<open>strtoull(text, &end, 10): the value, whether errno is set, whether any digit
  was read, and the text from end on.  A minus sign negates the unsigned value.\<close>
definition strtoull :: "string \<Rightarrow> u64 \<times> bool \<times> bool \<times> string" where
  "strtoull t = (let (neg, u) = scan_sign (skip_space t); (v, n, r) = scan_digits u 0 0
     in if n = 0 then (0, False, False, t)
        else if v \<ge> 2 ^ 64 then (-1, True, True, r)
        else ((if neg then - word_of_nat v else word_of_nat v), False, True, r))"

fun print_nat :: "nat \<Rightarrow> string" where
  "print_nat n = (if n < 10 then [char_of (48 + n)] else print_nat (n div 10) @ [char_of (48 + n mod 10)])"

declare print_nat.simps [simp del]

lemma digit_val_print: "d < 10 \<Longrightarrow> digit_val (char_of (48 + d)) = Some d"
  by (simp add: digit_val_def)

lemma scan_digits_append:
  "scan_digits s a n = (v, k, []) \<Longrightarrow> scan_digits (s @ t) a n = scan_digits t v k"
  by (induction s a n rule: scan_digits.induct) (auto split: option.splits)

lemma scan_print: "\<exists>k>0. scan_digits (print_nat n) 0 0 = (n, k, [])"
proof (induction n rule: print_nat.induct)
  case (1 n)
  show ?case
  proof (cases "n < 10")
    case True
    then show ?thesis by (subst print_nat.simps) (simp add: digit_val_print)
  next
    case False
    then obtain k where "scan_digits (print_nat (n div 10)) 0 0 = (n div 10, k, [])" using 1 by blast
    then have "scan_digits (print_nat n) 0 0 = (n, Suc k, [])"
      using False by (subst print_nat.simps) (simp add: scan_digits_append digit_val_print)
    then show ?thesis by blast
  qed
qed

lemma print_nat_first: "\<exists>d<(10 :: nat). \<exists>cs. print_nat n = char_of (48 + d) # cs"
proof (induction n rule: print_nat.induct)
  case (1 n)
  then show ?case by (subst print_nat.simps) (cases "n < 10", auto)
qed

lemma print_no_space: "skip_space (print_nat n) = print_nat n"
  and print_no_sign: "scan_sign (print_nat n) = (False, print_nat n)"
proof -
  obtain d :: nat and cs where d: "d < 10" "print_nat n = char_of (48 + d) # cs" using print_nat_first by blast
  have "of_char (char_of (48 + d) :: char) = 48 + d" using d(1) by simp
  then have "char_of (48 + d) \<noteq> CHR ''-''" "char_of (48 + d) \<noteq> CHR ''+''"
    by (auto simp del: of_char_of dest!: arg_cong[where f = "of_char :: char \<Rightarrow> nat"])
  then show "skip_space (print_nat n) = print_nat n" "scan_sign (print_nat n) = (False, print_nat n)"
    using d by (simp_all add: scan_sign_def)
qed

lemma strtoull_print:
  assumes "n < 2 ^ 64"
  shows "strtoull (print_nat n) = (word_of_nat n, False, True, [])"
proof -
  obtain k where "0 < k" "scan_digits (print_nat n) 0 0 = (n, k, [])" using scan_print by blast
  then show ?thesis using assms by (simp add: strtoull_def print_no_space print_no_sign)
qed

end
