(* ===== verification/R2p2Sizes.thy ===== *)
theory R2p2Sizes
  imports Main
begin

text \<open>
  Sizes of frames and packet types of the ns-2 code (core/r2p2.h, core/r2p2-hdr.h), shared by the
  queue disciplines and the host.
\<close>

definition INTER_PKT_GAP_SIZE :: int where "INTER_PKT_GAP_SIZE = 12"
definition ETHERNET_PREAMBLE_SIZE :: int where "ETHERNET_PREAMBLE_SIZE = 8"
definition MAX_R2P2_PAYLOAD :: int where "MAX_R2P2_PAYLOAD = 1458"
definition MIN_R2P2_PAYLOAD :: int where "MIN_R2P2_PAYLOAD = 4"
definition R2P2_ALL_HEADERS_SIZE :: int where "R2P2_ALL_HEADERS_SIZE = 60"
definition MIN_ETHERNET_FRAME :: int where "MIN_ETHERNET_FRAME = 64"
definition MIN_ETHERNET_FRAME_ON_WIRE :: int where "MIN_ETHERNET_FRAME_ON_WIRE = 84"
definition MAX_ETHERNET_FRAME :: int where "MAX_ETHERNET_FRAME = 1518"
definition MAX_ETHERNET_FRAME_ON_WIRE :: int where "MAX_ETHERNET_FRAME_ON_WIRE = 1538"

lemmas frame_defs = INTER_PKT_GAP_SIZE_def ETHERNET_PREAMBLE_SIZE_def MIN_ETHERNET_FRAME_def
  MIN_ETHERNET_FRAME_ON_WIRE_def MAX_ETHERNET_FRAME_def MAX_ETHERNET_FRAME_ON_WIRE_def

definition PT_UDP :: nat where "PT_UDP = 1"

datatype MsgTypes = REQUEST | REPLY | REQRDY | R2P2_FEEDBACK | DROP | SACK | FREEZE | UNFREEZE
  | GRANT | GRANT_REQ | RESEND | NUMBER_OF_TYPES

fun msg_code :: "MsgTypes \<Rightarrow> int" where
  "msg_code REQUEST = 0" | "msg_code REPLY = 1" | "msg_code REQRDY = 2"
| "msg_code R2P2_FEEDBACK = 3" | "msg_code DROP = 4" | "msg_code SACK = 5"
| "msg_code FREEZE = 6" | "msg_code UNFREEZE = 7" | "msg_code GRANT = 8"
| "msg_code GRANT_REQ = 9" | "msg_code RESEND = 10" | "msg_code NUMBER_OF_TYPES = 11"

end
