(* ===== verification/DpdqQueue.thy ===== *)
theory DpdqQueue
  imports Ns2Queue CStrings R2p2Sizes "HOL-Library.Multiset"
begin

text \<open>
  The DPDQ queue discipline of dpdq-ns2, \<^verbatim>\<open>queue/dpdq-queue.{h,cc}\<close>: two packet
  queues under one interface, one for the control packets that carry credit
  and one for data, with strict priority of the first.  The packet size is
  reduced by preamble and inter-packet gap while it is queued.  The flag dbg
  says whether assertions are compiled in.  Nodes are seen through the function
  nodes, which gives the state of a node at a time; timestamps for the message
  tracer have no effect on the queue and are left out.
\<close>

section \<open>State\<close>

text \<open>A line of the drop log.\<close>
record drop_line =
  dl_time :: double
  dl_owner :: int
  dl_iface :: int
  dl_peer :: int
  dl_kind :: string
  dl_msg_type :: int
  dl_size :: int
  dl_credit_bytes :: int
  dl_data_bytes :: int
  dl_total_bytes :: int
  dl_credit_len :: int
  dl_data_len :: int
  dl_total_len :: int
  dl_credit_limit :: int
  dl_data_limit :: int
  dl_cl_addr :: int
  dl_src :: int
  dl_dst :: int
  dl_app_level_id :: int

record DPDQQueue = Queue +
  credit_q :: fifo
  data_q :: fifo
  qib :: bool
  mean_pktsize :: int
  summarystats :: bool
  credit_limit :: int
  data_limit :: int
  owner_id :: int
  peer_id :: int
  iface_label :: int
  drop_log_file :: string
  drop_log :: "(string \<times> drop_line) list"

definition aggregate_length :: "DPDQQueue \<Rightarrow> int" where
  "aggregate_length s = fifo_len (credit_q s) + fifo_len (data_q s)"

definition aggregate_byteLength :: "DPDQQueue \<Rightarrow> int" where
  "aggregate_byteLength s = fbytes (credit_q s) + fbytes (data_q s)"

text \<open>The constructor, before the Tcl variables it binds are set: base is what the
  base class's constructor leaves.\<close>
definition DPDQQueue_ctor :: "Queue \<Rightarrow> DPDQQueue" where
  "DPDQQueue_ctor base = Queue.extend base (DPDQQueue.fields fifo_empty fifo_empty
     False 0 True 0 0 (-1) (-1) (-1) '''' [])"

section \<open>Commands\<close>

text \<open>None: the command is passed on to the base class.\<close>
definition DPDQQueue_command :: "string list \<Rightarrow> DPDQQueue \<Rightarrow> DPDQQueue option" where
  "DPDQQueue_command argv s =
    (if length argv = 3 then
       if argv ! 1 = ''drop-log-file'' then Some (s\<lparr>drop_log_file := argv ! 2\<rparr>)
       else if argv ! 1 = ''set-owner-id'' then Some (s\<lparr>owner_id := atoi (argv ! 2)\<rparr>)
       else if argv ! 1 = ''set-peer-id'' then Some (s\<lparr>peer_id := atoi (argv ! 2)\<rparr>)
       else if argv ! 1 = ''set-iface-label'' then Some (s\<lparr>iface_label := atoi (argv ! 2)\<rparr>)
       else None
     else None)"

section \<open>Enqueue and dequeue\<close>

definition is_control_packet :: "packet \<Rightarrow> bool" where
  "is_control_packet pkt =
    (if pkt_ptype pkt \<noteq> PT_UDP then False
     else pkt_msg_type pkt = msg_code GRANT \<or> pkt_msg_type pkt = msg_code GRANT_REQ
        \<or> pkt_msg_type pkt = msg_code RESEND)"

definition assert_that :: "bool \<Rightarrow> bool \<Rightarrow> string \<Rightarrow> 'b \<Rightarrow> (q_error, 'b) outcome" where
  "assert_that dbg c msg x = (if dbg \<and> \<not> c then Fail (AssertionFailed msg) else Done x)"

definition normalize_enque_size :: "bool \<Rightarrow> double \<Rightarrow> packet \<Rightarrow> (q_error, packet) outcome" where
  "normalize_enque_size dbg now pkt =
    (if now \<ge> 10
     then bind_outcome (assert_that dbg (now \<le> 10 \<or> pkt_size pkt \<ge> MIN_ETHERNET_FRAME_ON_WIRE) ''min wire'' pkt) (\<lambda>pkt.
          bind_outcome (assert_that dbg (now \<le> 10 \<or> pkt_size pkt \<le> MAX_ETHERNET_FRAME_ON_WIRE) ''max wire'' pkt) (\<lambda>pkt.
          let pkt = pkt\<lparr>pkt_size := pkt_size pkt - (INTER_PKT_GAP_SIZE + ETHERNET_PREAMBLE_SIZE)\<rparr> in
          bind_outcome (assert_that dbg (now \<le> 10 \<or> pkt_size pkt \<ge> MIN_ETHERNET_FRAME) ''min frame'' pkt) (\<lambda>pkt.
          assert_that dbg (now \<le> 10 \<or> pkt_size pkt \<le> MAX_ETHERNET_FRAME) ''max frame'' pkt)))
     else Done pkt)"

definition restore_deque_size :: "bool \<Rightarrow> double \<Rightarrow> packet option \<Rightarrow> (q_error, packet option) outcome" where
  "restore_deque_size dbg now p = (case p of
      None \<Rightarrow> Done None
    | Some pkt \<Rightarrow>
        if now \<ge> 10
        then bind_outcome (assert_that dbg (now \<le> 10 \<or> pkt_size pkt \<le> MAX_ETHERNET_FRAME) ''max frame'' pkt) (\<lambda>pkt.
             let pkt = pkt\<lparr>pkt_size := pkt_size pkt + (INTER_PKT_GAP_SIZE + ETHERNET_PREAMBLE_SIZE)\<rparr> in
             assert_that dbg (now \<le> 10 \<or> pkt_size pkt \<le> MAX_ETHERNET_FRAME_ON_WIRE) ''max wire'' (Some pkt))
        else Done (Some pkt))"

definition log_drop_event :: "double \<Rightarrow> packet \<Rightarrow> bool \<Rightarrow> DPDQQueue \<Rightarrow> DPDQQueue" where
  "log_drop_event now pkt is_control s =
    (if drop_log_file s = [] then s
     else let is_r2p2 = (pkt_ptype pkt = PT_UDP) in
       s\<lparr>drop_log := drop_log s @ [(drop_log_file s,
         \<lparr>dl_time = now, dl_owner = owner_id s, dl_iface = iface_label s, dl_peer = peer_id s,
          dl_kind = (if is_control then ''control'' else ''data''),
          dl_msg_type = (if is_r2p2 then pkt_msg_type pkt else -1), dl_size = pkt_size pkt,
          dl_credit_bytes = fbytes (credit_q s), dl_data_bytes = fbytes (data_q s),
          dl_total_bytes = aggregate_byteLength s,
          dl_credit_len = fifo_len (credit_q s), dl_data_len = fifo_len (data_q s),
          dl_total_len = aggregate_length s,
          dl_credit_limit = credit_limit s, dl_data_limit = data_limit s,
          dl_cl_addr = (if is_r2p2 then pkt_cl_addr pkt else -1),
          dl_src = pkt_src pkt, dl_dst = pkt_dst pkt,
          dl_app_level_id = (if is_r2p2 then pkt_app_level_id pkt else -1)\<rparr>)]\<rparr>)"

definition DPDQQueue_should_drop ::
  "(nat \<Rightarrow> Node) \<Rightarrow> packet option \<Rightarrow> fifo \<Rightarrow> int \<Rightarrow> DPDQQueue \<Rightarrow> (q_error, bool) outcome" where
  "DPDQQueue_should_drop nodes p target_q target_limit s = (case p of
      None \<Rightarrow> Fail (RuntimeError ''DPDQQueue::should_drop() pkt is nullptr'')
    | Some pkt \<Rightarrow>
        if target_limit > 0 \<and>
           (\<not> qib s \<and> fifo_len target_q + 1 \<ge> target_limit
            \<or> qib s \<and> fbytes target_q + pkt_size pkt \<ge> target_limit)
        then Done True
        else if switch_shared_buffer s = 1
        then case qnode s of
            None \<Rightarrow> Fail (RuntimeError ''DPDQQueue::should_drop() node_ is nullptr'')
          | Some n \<Rightarrow> Done (Node_should_drop (pkt_size pkt) (mean_pktsize s) (qib s) (nodes n))
        else if switch_shared_buffer s \<noteq> 0
        then Fail (InvalidArgument ''Invalid argument for switch_shared_buffer_'')
        else Done False)"

definition stats :: "double \<Rightarrow> DPDQQueue \<Rightarrow> DPDQQueue" where
  "stats now s =
    (if summarystats s
     then updateStats now (if qib s then aggregate_byteLength s else aggregate_length s) s else s)"

definition DPDQQueue_enque ::
  "bool \<Rightarrow> (double \<Rightarrow> nat \<Rightarrow> Node) \<Rightarrow> double \<Rightarrow> packet option \<Rightarrow> DPDQQueue \<Rightarrow> (q_error, DPDQQueue) outcome" where
  "DPDQQueue_enque dbg nodes now p s = (case p of
      None \<Rightarrow> Done s
    | Some pkt \<Rightarrow>
        bind_outcome (normalize_enque_size dbg now pkt) (\<lambda>pkt.
        let s = stats now s;
            is_control = is_control_packet pkt;
            target_q = (if is_control then credit_q s else data_q s);
            target_limit = (if is_control then credit_limit s else data_limit s)
        in bind_outcome (DPDQQueue_should_drop (nodes now) (Some pkt) target_q target_limit s) (\<lambda>doit.
           if doit then Done (drop_pkt pkt (log_drop_event now pkt is_control s))
           else if is_control then Done (s\<lparr>credit_q := fifo_enque pkt (credit_q s)\<rparr>)
           else Done (s\<lparr>data_q := fifo_enque pkt (data_q s)\<rparr>))))"

definition DPDQQueue_deque ::
  "bool \<Rightarrow> double \<Rightarrow> DPDQQueue \<Rightarrow> (q_error, packet option \<times> DPDQQueue) outcome" where
  "DPDQQueue_deque dbg now s =
    (let s = stats now s;
         (p, s) = (if fifo_len (credit_q s) > 0
                   then let (p, q) = fifo_deque (credit_q s) in (p, s\<lparr>credit_q := q\<rparr>)
                   else let (p, q) = fifo_deque (data_q s) in (p, s\<lparr>data_q := q\<rparr>))
     in bind_outcome (restore_deque_size dbg now p) (\<lambda>p. Done (p, s)))"

definition DPDQQueue_reset :: "bool \<Rightarrow> double \<Rightarrow> DPDQQueue \<Rightarrow> (q_error, DPDQQueue) outcome option" where
  "DPDQQueue_reset dbg now s = Queue_reset (DPDQQueue_deque dbg) now s"

section \<open>What the operations leave alone\<close>

lemma stats_sel [simp]:
  "credit_q (stats now s) = credit_q s" "data_q (stats now s) = data_q s"
  "qib (stats now s) = qib s" "credit_limit (stats now s) = credit_limit s"
  "data_limit (stats now s) = data_limit s" "blocked (stats now s) = blocked s"
  "dropped (stats now s) = dropped s" "unblock_on_resume (stats now s) = unblock_on_resume s"
  "switch_shared_buffer (stats now s) = switch_shared_buffer s" "qnode (stats now s) = qnode s"
  "mean_pktsize (stats now s) = mean_pktsize s" "drop_log_file (stats now s) = drop_log_file s"
  "drop_log (stats now s) = drop_log s"
  by (simp_all add: stats_def updateStats_def Let_def)

lemma log_drop_event_sel [simp]:
  "credit_q (log_drop_event now p c s) = credit_q s" "data_q (log_drop_event now p c s) = data_q s"
  "blocked (log_drop_event now p c s) = blocked s" "dropped (log_drop_event now p c s) = dropped s"
  "unblock_on_resume (log_drop_event now p c s) = unblock_on_resume s"
  "qib (log_drop_event now p c s) = qib s" "credit_limit (log_drop_event now p c s) = credit_limit s"
  "data_limit (log_drop_event now p c s) = data_limit s"
  by (simp_all add: log_drop_event_def Let_def)

lemma drop_pkt_sel [simp]:
  "credit_q (drop_pkt p s) = credit_q s" "data_q (drop_pkt p s) = data_q s"
  "blocked (drop_pkt p s) = blocked s" "dropped (drop_pkt p s) = dropped s @ [p]"
  "unblock_on_resume (drop_pkt p s) = unblock_on_resume s"
  "qib (drop_pkt p s) = qib s" "credit_limit (drop_pkt p s) = credit_limit s"
  "data_limit (drop_pkt p s) = data_limit s"
  by (simp_all add: drop_pkt_def)

lemma util_loop_queues [simp]:
  "credit_q (util_loop n t i e k r) = credit_q r" "data_q (util_loop n t i e k r) = data_q r"
  "qib (util_loop n t i e k r) = qib r" "credit_limit (util_loop n t i e k r) = credit_limit r"
  "data_limit (util_loop n t i e k r) = data_limit r"
  by (induction n t i e k r rule: util_loop.induct) simp_all

lemma utilUpdate_queues [simp]:
  "credit_q (utilUpdate ex a b l s) = credit_q s" "data_q (utilUpdate ex a b l s) = data_q s"
  "qib (utilUpdate ex a b l s) = qib s" "credit_limit (utilUpdate ex a b l s) = credit_limit s"
  "data_limit (utilUpdate ex a b l s) = data_limit s"
  by (simp_all add: utilUpdate_def Let_def)

lemma fifo_simps [simp]:
  "items (fifo_enque p q) = items q @ [p]" "fbytes (fifo_enque p q) = fbytes q + pkt_size p"
  "fifo_len (fifo_enque p q) = fifo_len q + 1" "items fifo_empty = []" "fbytes fifo_empty = 0"
  "fifo_len fifo_empty = 0"
  by (simp_all add: fifo_enque_def fifo_len_def fifo_empty_def)

lemma fifo_len_pos: "0 < fifo_len q \<longleftrightarrow> items q \<noteq> []"
  by (simp add: fifo_len_def)

lemma normalize_Done:
  "normalize_enque_size dbg now p = Done p' \<Longrightarrow>
     p' = p\<lparr>pkt_size := pkt_size p - (if now \<ge> 10 then 20 else 0)\<rparr>"
  by (auto simp: normalize_enque_size_def assert_that_def frame_defs bind_outcome_Done Let_def
      split: if_splits)

lemma restore_Done:
  "restore_deque_size dbg now p = Done r \<Longrightarrow>
     r = map_option (\<lambda>p. p\<lparr>pkt_size := pkt_size p + (if now \<ge> 10 then 20 else 0)\<rparr>) p"
  by (auto simp: restore_deque_size_def assert_that_def frame_defs bind_outcome_Done Let_def
      split: if_splits option.splits)

lemma is_control_size [simp]: "is_control_packet (p\<lparr>pkt_size := n\<rparr>) = is_control_packet p"
  by (simp add: is_control_packet_def)

text \<open>The three ways an enque that does not throw can go.\<close>
lemma enque_cases:
  assumes "DPDQQueue_enque dbg nodes now (Some p) s = Done s'"
  obtains (dropped) q where "s' = drop_pkt q (log_drop_event now q (is_control_packet q) (stats now s))"
        "q = p\<lparr>pkt_size := pkt_size p - (if now \<ge> 10 then 20 else 0)\<rparr>"
    | (credit) q where "s' = stats now s\<lparr>credit_q := fifo_enque q (credit_q s)\<rparr>" "is_control_packet p"
        "q = p\<lparr>pkt_size := pkt_size p - (if now \<ge> 10 then 20 else 0)\<rparr>"
        "DPDQQueue_should_drop (nodes now) (Some q) (credit_q s) (credit_limit s) (stats now s) = Done False"
    | (data) q where "s' = stats now s\<lparr>data_q := fifo_enque q (data_q s)\<rparr>" "\<not> is_control_packet p"
        "q = p\<lparr>pkt_size := pkt_size p - (if now \<ge> 10 then 20 else 0)\<rparr>"
        "DPDQQueue_should_drop (nodes now) (Some q) (data_q s) (data_limit s) (stats now s) = Done False"
proof -
  obtain q where q: "normalize_enque_size dbg now p = Done q"
    using assms by (auto simp: DPDQQueue_enque_def bind_outcome_Done)
  note n = normalize_Done[OF q]
  have c: "is_control_packet q = is_control_packet p" by (simp add: n)
  let ?S = "\<lambda>q0 l. DPDQQueue_should_drop (nodes now) (Some q) q0 l (stats now s)"
  show thesis
  proof (cases "is_control_packet p")
    case True
    then obtain d where d: "?S (credit_q s) (credit_limit s) = Done d"
      and "s' = (if d then drop_pkt q (log_drop_event now q True (stats now s))
                 else stats now s\<lparr>credit_q := fifo_enque q (credit_q s)\<rparr>)"
      using assms q c by (auto simp: DPDQQueue_enque_def bind_outcome_Done Let_def split: if_splits)
    then show ?thesis using that(1)[of q] that(2)[of q] True c n by (cases d) auto
  next
    case False
    then obtain d where d: "?S (data_q s) (data_limit s) = Done d"
      and "s' = (if d then drop_pkt q (log_drop_event now q False (stats now s))
                 else stats now s\<lparr>data_q := fifo_enque q (data_q s)\<rparr>)"
      using assms q c by (auto simp: DPDQQueue_enque_def bind_outcome_Done Let_def split: if_splits)
    then show ?thesis using that(1)[of q] that(3)[of q] False c n by (cases d) auto
  qed
qed

lemma deque_Done:
  assumes "DPDQQueue_deque dbg now s = Done (r, s')"
  shows "case items (credit_q s) @ items (data_q s) of
      [] \<Rightarrow> r = None \<and> s' = stats now s
    | p # _ \<Rightarrow> r = Some (p\<lparr>pkt_size := pkt_size p + (if now \<ge> 10 then 20 else 0)\<rparr>)
        \<and> s' = (if items (credit_q s) \<noteq> []
                then stats now s\<lparr>credit_q := snd (fifo_deque (credit_q s))\<rparr>
                else stats now s\<lparr>data_q := snd (fifo_deque (data_q s))\<rparr>)"
  using assms
  by (cases "items (credit_q s)"; cases "items (data_q s)")
    (auto simp: DPDQQueue_deque_def fifo_len_def fifo_deque_def bind_outcome_Done Let_def dest!: restore_Done)

lemma snd_fifo_deque [simp]:
  "items (snd (fifo_deque q)) = tl (items q)"
  "fbytes (snd (fifo_deque q)) = fbytes q - (case items q of [] \<Rightarrow> 0 | p # ps \<Rightarrow> pkt_size p)"
  by (simp_all add: fifo_deque_def split: list.splits)

section \<open>Invariant\<close>

text \<open>Control packets are in the credit queue, all others in the data queue, and
  the byte counters are the sums of the queued sizes.\<close>
definition fifo_ok :: "(packet \<Rightarrow> bool) \<Rightarrow> fifo \<Rightarrow> bool" where
  "fifo_ok P q \<longleftrightarrow> list_all P (items q) \<and> fbytes q = sum_list (map pkt_size (items q))"

definition dpdq_ok :: "DPDQQueue \<Rightarrow> bool" where
  "dpdq_ok s \<longleftrightarrow> fifo_ok is_control_packet (credit_q s) \<and> fifo_ok (Not \<circ> is_control_packet) (data_q s)"

definition dpdq_held :: "DPDQQueue \<Rightarrow> nat" where
  "dpdq_held s = length (items (credit_q s)) + length (items (data_q s))"

lemma fifo_ok_enque: "fifo_ok P q \<Longrightarrow> P p \<Longrightarrow> fifo_ok P (fifo_enque p q)"
  by (simp add: fifo_ok_def)

lemma fifo_ok_deque: "fifo_ok P q \<Longrightarrow> fifo_ok P (snd (fifo_deque q))"
  by (cases "items q") (auto simp: fifo_ok_def)

lemma dpdq_enque_law:
  assumes "dpdq_ok s" "DPDQQueue_enque dbg nodes now (Some p) s = Done s'"
  shows "dpdq_ok s' \<and> blocked s' = blocked s \<and> unblock_on_resume s' = unblock_on_resume s
    \<and> dpdq_held s' + length (dropped s') = Suc (dpdq_held s + length (dropped s))"
  using assms(2)
  by (cases rule: enque_cases) (use assms(1) in \<open>auto simp: dpdq_ok_def dpdq_held_def intro!: fifo_ok_enque\<close>)

lemma dpdq_deque_law:
  assumes "dpdq_ok s" "DPDQQueue_deque dbg now s = Done (r, s')"
  shows "dpdq_ok s' \<and> blocked s' = blocked s \<and> unblock_on_resume s' = unblock_on_resume s
    \<and> dropped s' = dropped s \<and> (r = None \<longleftrightarrow> dpdq_held s = 0)
    \<and> dpdq_held s' = dpdq_held s - (if r = None then 0 else 1)"
  using deque_Done[OF assms(2)] assms(1)
  by (cases "items (credit_q s)"; cases "items (data_q s)")
    (auto simp: dpdq_ok_def dpdq_held_def fifo_ok_deque)

interpretation dpdq: qdisc dpdq_ok dpdq_held "\<lambda>now p. DPDQQueue_enque dbg nodes now (Some p)"
    "DPDQQueue_deque dbg" ex
  for dbg :: bool and nodes :: "double \<Rightarrow> nat \<Rightarrow> Node" and ex :: "double \<Rightarrow> double"
proof (unfold_locales, goal_cases)
  case (5 s now p s')
  then show ?case by (rule dpdq_enque_law)
next
  case (6 s now r s')
  then show ?case by (rule dpdq_deque_law)
qed (auto simp: dpdq_ok_def dpdq_held_def book_def)

section \<open>Order within a class\<close>

abbreviation dpdq_run ::
  "bool \<Rightarrow> (double \<Rightarrow> nat \<Rightarrow> Node) \<Rightarrow> (double \<Rightarrow> double) \<Rightarrow> q_event list \<Rightarrow> DPDQQueue
   \<Rightarrow> (q_error, packet list \<times> DPDQQueue) outcome" where
  "dpdq_run dbg nodes ex \<equiv>
     Queue_run ex (\<lambda>now p. DPDQQueue_enque dbg nodes now (Some p)) (DPDQQueue_deque dbg)"

definition class_items :: "bool \<Rightarrow> DPDQQueue \<Rightarrow> packet list" where
  "class_items c s = (if c then items (credit_q s) else items (data_q s))"

text \<open>A queued packet as it will leave: with preamble and gap added back.\<close>
definition on_wire :: "packet \<Rightarrow> packet" where
  "on_wire p = p\<lparr>pkt_size := pkt_size p + (INTER_PKT_GAP_SIZE + ETHERNET_PREAMBLE_SIZE)\<rparr>"

lemma on_wire_20: "on_wire p = p\<lparr>pkt_size := pkt_size p + 20\<rparr>"
  by (simp add: on_wire_def frame_defs)

lemma on_wire_class [simp]: "is_control_packet (on_wire p) = is_control_packet p"
  by (simp add: on_wire_def)

definition opt_list :: "'b option \<Rightarrow> 'b list" where
  "opt_list r = (case r of None \<Rightarrow> [] | Some p \<Rightarrow> [p])"

lemma enque_order:
  assumes "DPDQQueue_enque dbg nodes now (Some p) s = Done s'" "now \<ge> 10"
  shows "\<exists>xs. dropped s' = dropped s @ xs \<and> (xs = [] \<longrightarrow> map on_wire (class_items c s')
           = map on_wire (class_items c s) @ filter (\<lambda>q. is_control_packet q = c) [p])"
  using assms(1)
  by (cases rule: enque_cases) (use assms(2) in \<open>auto simp: class_items_def on_wire_20\<close>)

lemma deque_order:
  assumes "DPDQQueue_deque dbg now s = Done (r, s')" "now \<ge> 10" "dpdq_ok s"
  shows "dropped s' = dropped s \<and> map on_wire (class_items c s) =
     filter (\<lambda>q. is_control_packet q = c) (opt_list r) @ map on_wire (class_items c s')"
  using deque_Done[OF assms(1)] assms(2,3)
  by (cases "items (credit_q s)"; cases "items (data_q s)")
    (auto simp: class_items_def on_wire_20 opt_list_def dpdq_ok_def fifo_ok_def)

lemma book_order [simp]:
  "class_items c (book ex a b l t k s) = class_items c s" "dropped (book ex a b l t k s) = dropped s"
  by (simp_all add: book_def class_items_def)

lemma step_order:
  assumes "Queue_step ex (\<lambda>now p. DPDQQueue_enque dbg nodes now (Some p)) (DPDQQueue_deque dbg) e s = Done (r, s')"
    and "event_time e \<ge> 10" "dpdq_ok s"
  shows "\<exists>xs. dropped s' = dropped s @ xs \<and> (xs = [] \<longrightarrow>
      filter (\<lambda>q. is_control_packet q = c) (opt_list r) @ map on_wire (class_items c s')
      = map on_wire (class_items c s) @ filter (\<lambda>q. is_control_packet q = c) (arrivals e))"
  using assms(1)
proof (cases rule: Queue_step_rule)
  case (queued now p)
  then show ?thesis using enque_order[of dbg nodes now p s s' c] assms(2) by (auto simp: opt_list_def)
next
  case (empty now p s1)
  then show ?thesis
    using enque_order[of dbg nodes now p s s1 c] dpdq_enque_law[of s dbg nodes now p s1]
      deque_order[of dbg now s1 None s' c] assms(2,3) by (auto simp: opt_list_def)
next
  case (sent now p s1 q s2 l)
  then show ?thesis
    using enque_order[of dbg nodes now p s s1 c] dpdq_enque_law[of s dbg nodes now p s1]
      deque_order[of dbg now s1 "Some q" s2 c] assms(2,3) by auto
next
  case (next_pkt now q)
  then show ?thesis using deque_order[of dbg now s "Some q" s' c] assms(2,3) by auto
next
  case (idle now s1 l)
  then show ?thesis using deque_order[of dbg now s None s1 c] assms(2,3) by (auto simp: opt_list_def)
qed

lemma run_order:
  assumes "dpdq_run dbg nodes ex es s = Done (out, s')"
    and "\<forall>e\<in>set es. event_time e \<ge> 10" "dpdq.work_conserving s"
  shows "\<exists>xs. dropped s' = dropped s @ xs \<and> (xs = [] \<longrightarrow>
      filter (\<lambda>q. is_control_packet q = c) out @ map on_wire (class_items c s')
      = map on_wire (class_items c s) @ filter (\<lambda>q. is_control_packet q = c) (concat (map arrivals es)))"
  using assms
proof (induction es arbitrary: s out)
  case (Cons e es)
  obtain r s1 out1 where 1: "Queue_step ex (\<lambda>now p. DPDQQueue_enque dbg nodes now (Some p)) (DPDQQueue_deque dbg) e s = Done (r, s1)"
    "dpdq_run dbg nodes ex es s1 = Done (out1, s')" "out = opt_list r @ out1"
    using Queue_run_Cons[OF Cons.prems(1)] unfolding opt_list_def by metis
  have w: "dpdq.work_conserving s1" using dpdq.q_step_law[OF Cons.prems(3) 1(1)] by blast
  have ok: "dpdq_ok s" using Cons.prems(3) by (simp add: dpdq.work_conserving_def)
  obtain xs where xs: "dropped s1 = dropped s @ xs" "xs = [] \<longrightarrow>
      filter (\<lambda>q. is_control_packet q = c) (opt_list r) @ map on_wire (class_items c s1)
      = map on_wire (class_items c s) @ filter (\<lambda>q. is_control_packet q = c) (arrivals e)"
    using step_order[OF 1(1) _ ok, of c] Cons.prems(2) by auto
  obtain ys where ys: "dropped s' = dropped s1 @ ys" "ys = [] \<longrightarrow>
      filter (\<lambda>q. is_control_packet q = c) out1 @ map on_wire (class_items c s')
      = map on_wire (class_items c s1) @ filter (\<lambda>q. is_control_packet q = c) (concat (map arrivals es))"
    using Cons.IH[OF 1(2) _ w] Cons.prems(2) by auto
  show ?case
    using xs ys 1(3) by (intro exI[of _ "xs @ ys"]) (auto simp flip: append_assoc, simp)
qed auto

section \<open>What a queue holds\<close>

text \<open>A packet but for its size, and all packets that a queue has in it or has dropped.\<close>
definition unsized :: "packet \<Rightarrow> packet" where
  "unsized p = p\<lparr>pkt_size := 0\<rparr>"

definition contents :: "DPDQQueue \<Rightarrow> packet multiset" where
  "contents s = mset (map unsized (dropped s @ items (credit_q s) @ items (data_q s)))"

lemma unsized_sized [simp]: "unsized (p\<lparr>pkt_size := n\<rparr>) = unsized p"
  by (simp add: unsized_def)

lemma enque_contents:
  "DPDQQueue_enque dbg nodes now (Some p) s = Done s' \<Longrightarrow> contents s' = contents s + {#unsized p#}"
  by (erule enque_cases) (simp_all add: contents_def)

lemma deque_contents:
  "DPDQQueue_deque dbg now s = Done (r, s') \<Longrightarrow> contents s = contents s' + mset (map unsized (opt_list r))"
  by (drule deque_Done, cases "items (credit_q s)"; cases "items (data_q s)")
    (auto simp: contents_def opt_list_def)

lemma book_contents [simp]: "contents (book ex a b l t k s) = contents s"
  by (simp add: contents_def book_def)

lemma step_contents:
  assumes "Queue_step ex (\<lambda>now p. DPDQQueue_enque dbg nodes now (Some p)) (DPDQQueue_deque dbg) e s = Done (r, s')"
  shows "contents s + mset (map unsized (arrivals e)) = contents s' + mset (map unsized (opt_list r))"
  using assms
  by (cases rule: Queue_step_rule) (auto simp: opt_list_def dest!: enque_contents deque_contents)

lemma run_contents:
  "dpdq_run dbg nodes ex es s = Done (out, s') \<Longrightarrow>
   contents s + mset (map unsized (concat (map arrivals es))) = contents s' + mset (map unsized out)"
proof (induction es arbitrary: s out)
  case (Cons e es)
  obtain r s1 out1 where 1: "Queue_step ex (\<lambda>now p. DPDQQueue_enque dbg nodes now (Some p)) (DPDQQueue_deque dbg) e s = Done (r, s1)"
    "dpdq_run dbg nodes ex es s1 = Done (out1, s')" "out = opt_list r @ out1"
    using Queue_run_Cons[OF Cons.prems] unfolding opt_list_def by metis
  have "contents s + mset (map unsized (concat (map arrivals (e # es)))) =
    (contents s + mset (map unsized (arrivals e))) + mset (map unsized (concat (map arrivals es)))" by simp
  also have "\<dots> = mset (map unsized (opt_list r)) + (contents s1 + mset (map unsized (concat (map arrivals es))))"
    unfolding step_contents[OF 1(1)] by simp
  finally show ?case unfolding Cons.IH[OF 1(2)] 1(3) by simp
qed simp

section \<open>Limits\<close>

text \<open>In packet mode a class with limit l > 0 holds at most l - 1 packets.\<close>
definition class_bounded :: "DPDQQueue \<Rightarrow> bool" where
  "class_bounded s \<longleftrightarrow> \<not> qib s
     \<and> (0 < credit_limit s \<longrightarrow> fifo_len (credit_q s) < credit_limit s)
     \<and> (0 < data_limit s \<longrightarrow> fifo_len (data_q s) < data_limit s)"

lemma should_drop_False:
  assumes "DPDQQueue_should_drop nodes (Some p) q l s = Done False" "\<not> qib s" "0 < l"
  shows "fifo_len q + 1 < l"
  using assms by (auto simp: DPDQQueue_should_drop_def split: if_splits)

lemma enque_bounded:
  assumes "DPDQQueue_enque dbg nodes now (Some p) s = Done s'" "class_bounded s"
  shows "class_bounded s'"
  using assms(1)
  by (cases rule: enque_cases)
    (use assms(2) in \<open>auto simp: class_bounded_def dest: should_drop_False\<close>)

lemma deque_bounded:
  assumes "DPDQQueue_deque dbg now s = Done (r, s')" "class_bounded s"
  shows "class_bounded s'"
  using deque_Done[OF assms(1)] assms(2)
  by (cases "items (credit_q s)"; cases "items (data_q s)")
    (auto simp: class_bounded_def fifo_len_def)

lemma book_bounded: "class_bounded s \<Longrightarrow> class_bounded (book ex a b l t c s)"
  by (simp add: class_bounded_def book_def)

section \<open>Properties\<close>

text \<open>A queue as it is before any packet arrived: both packet queues empty, the
  link idle, nothing dropped.\<close>
definition dpdq_fresh :: "DPDQQueue \<Rightarrow> bool" where
  "dpdq_fresh s \<longleftrightarrow> credit_q s = fifo_empty \<and> data_q s = fifo_empty \<and> blocked s = 0 \<and> dropped s = []"

lemma fresh_conserving: "dpdq_fresh s \<Longrightarrow> dpdq.work_conserving s"
  by (simp add: dpdq_fresh_def dpdq.work_conserving_def dpdq_ok_def fifo_ok_def dpdq_held_def)

text \<open>Concrete values for the witnesses.\<close>
definition example_queue :: DPDQQueue where
  "example_queue = (DPDQQueue_ctor \<lparr>qlim = 50, blocked = 0, unblock_on_resume = True, true_ave = 0,
     total_time = 0, last_change = 0, old_util = 0, util_weight = 0, util_check_intv = 0,
     period_begin = 0, cur_util = 0, buf_slot = 0, util_buf = [], util_records = 0,
     switch_shared_buffer = 0, qnode = None, dropped = []\<rparr>)\<lparr>credit_limit := 10, data_limit := 10, summarystats := False\<rparr>"

definition example_packet :: "MsgTypes \<Rightarrow> int \<Rightarrow> packet" where
  "example_packet t n = \<lparr>pkt_size = n, pkt_ptype = PT_UDP, pkt_msg_type = msg_code t, pkt_cl_addr = 1,
     pkt_app_level_id = 2, pkt_credit = 3, pkt_unsol_credit = 0, pkt_src = 4, pkt_dst = 5, pkt_ce = 0\<rparr>"

definition example_run :: "(q_error, packet list \<times> DPDQQueue) outcome" where
  "example_run = dpdq_run True (\<lambda>_ _. \<lparr>shared_queue_len_pkts = 0, connected_link_queues = []\<rparr>) (\<lambda>_. 1)
     [Recv 11 (example_packet REQUEST 1538), Recv 12 (example_packet REPLY 1538),
      Recv 13 (example_packet GRANT 84), Resume 14] example_queue"

lemma example_run_Done: "example_run = Done (fst (val example_run), snd (val example_run))"
  and example_run_dropped: "dropped (snd (val example_run)) = []"
proof -
  have "\<not> is_Fail example_run" by code_simp
  then show "example_run = Done (fst (val example_run), snd (val example_run))"
    by (cases example_run) auto
  show "dropped (snd (val example_run)) = []" by code_simp
qed

lemma example_fresh: "dpdq_fresh example_queue"
  by (simp add: dpdq_fresh_def example_queue_def DPDQQueue_ctor_def DPDQQueue.defs Queue.defs)

text \<open>C28: As long as nothing is dropped, packets of a class (credit control or
  data) leave in the order in which they arrived and unchanged: what was sent
  followed by what is queued, with preamble and gap added back, is exactly what
  arrived, for each class.\<close>
theorem dpdq_class_fifo:
  assumes "dpdq_fresh s" "dpdq_run dbg nodes ex es s = Done (out, s')"
    and "\<forall>e\<in>set es. event_time e \<ge> 10" "dropped s' = []"
  shows "filter is_control_packet out @ map on_wire (items (credit_q s'))
           = filter is_control_packet (concat (map arrivals es))
       \<and> filter (Not \<circ> is_control_packet) out @ map on_wire (items (data_q s'))
           = filter (Not \<circ> is_control_packet) (concat (map arrivals es))"
  using run_order[OF assms(2,3) fresh_conserving[OF assms(1)], of True]
    run_order[OF assms(2,3) fresh_conserving[OF assms(1)], of False] assms(1,4)
  by (simp add: class_items_def dpdq_fresh_def o_def)

lemma dpdq_class_fifo_witness:
  "filter is_control_packet (fst (val example_run))
     @ map on_wire (items (credit_q (snd (val example_run)))) = [example_packet GRANT 84]"
proof -
  have "filter is_control_packet (fst (val example_run)) @ map on_wire (items (credit_q (snd (val example_run))))
      = filter is_control_packet (concat (map arrivals [Recv 11 (example_packet REQUEST 1538),
          Recv 12 (example_packet REPLY 1538), Recv 13 (example_packet GRANT 84), Resume 14]))"
    using dpdq_class_fifo[OF example_fresh example_run_Done[unfolded example_run_def]]
      example_run_dropped by (simp add: example_run_def)
  then show ?thesis by (simp add: is_control_packet_def example_packet_def)
qed

text \<open>C29: no packet is lost or duplicated and the link never idles while a packet waits.  After any
  run from a fresh queue the packets that arrived are, each as often as it came, those sent,
  dropped and queued: the same packets but for the size, which the queue takes without preamble
  and gap.  An idle link means both queues are empty, and each queue holds packets of its class
  only.\<close>
theorem dpdq_conserves_packets_and_work:
  assumes "dpdq_fresh s" "dpdq_run dbg nodes ex es s = Done (out, s')"
  shows "mset (map unsized (concat (map arrivals es))) =
           mset (map unsized out) + mset (map unsized (dropped s')) +
           mset (map unsized (items (credit_q s'))) + mset (map unsized (items (data_q s')))
       \<and> (blocked s' = 0 \<longrightarrow> items (credit_q s') = [] \<and> items (data_q s') = [])
       \<and> list_all is_control_packet (items (credit_q s'))
       \<and> list_all (Not \<circ> is_control_packet) (items (data_q s'))"
  using run_contents[OF assms(2)] dpdq.q_run_law[OF fresh_conserving[OF assms(1)] assms(2)] assms(1)
  by (auto simp: dpdq.work_conserving_def dpdq_held_def dpdq_ok_def fifo_ok_def dpdq_fresh_def contents_def)

lemma dpdq_conserves_packets_and_work_witness:
  "mset (map unsized (fst (val example_run))) + mset (map unsized (items (credit_q (snd (val example_run)))))
     + mset (map unsized (items (data_q (snd (val example_run))))) =
   {#unsized (example_packet REQUEST 0), unsized (example_packet REPLY 0), unsized (example_packet GRANT 0)#}"
  using dpdq_conserves_packets_and_work[OF example_fresh example_run_Done[unfolded example_run_def]]
    example_run_dropped by (simp add: example_run_def example_packet_def unsized_def)

text \<open>Strict priority: a dequeue takes the head of the credit queue whenever
  one is queued and only otherwise the head of the data queue, leaves the other
  queue alone, and gives the packet its on-wire size back.\<close>
theorem dpdq_credit_first:
  assumes "DPDQQueue_deque dbg now s = Done (r, s')" "now \<ge> 10"
  shows "if items (credit_q s) \<noteq> []
         then r = Some (on_wire (hd (items (credit_q s))))
            \<and> items (credit_q s') = tl (items (credit_q s)) \<and> data_q s' = data_q s
         else if items (data_q s) \<noteq> []
         then r = Some (on_wire (hd (items (data_q s))))
            \<and> items (data_q s') = tl (items (data_q s)) \<and> credit_q s' = credit_q s
         else r = None \<and> credit_q s' = credit_q s \<and> data_q s' = data_q s"
  using deque_Done[OF assms(1)] assms(2)
  by (cases "items (credit_q s)"; cases "items (data_q s)") (auto simp: on_wire_20)

lemma dpdq_credit_first_witness:
  "fst (val (DPDQQueue_deque True 11 (example_queue\<lparr>credit_q := fifo_enque (example_packet GRANT 64) fifo_empty,
      data_q := fifo_enque (example_packet REPLY 1518) fifo_empty\<rparr>))) = Some (example_packet GRANT 84)"
proof -
  let ?s = "example_queue\<lparr>credit_q := fifo_enque (example_packet GRANT 64) fifo_empty,
      data_q := fifo_enque (example_packet REPLY 1518) fifo_empty\<rparr>"
  let ?d = "DPDQQueue_deque True 11 ?s"
  have "\<not> is_Fail ?d" by code_simp
  then have "?d = Done (fst (val ?d), snd (val ?d))" by (cases ?d) auto
  from dpdq_credit_first[OF this] show ?thesis
    by (simp add: on_wire_20 example_packet_def)
qed

text \<open>In packet mode a class with a positive limit l never holds more than
  l - 1 packets, whatever arrives (the test counts the arriving packet and
  compares with >=, so the limit itself is never reached).\<close>
theorem dpdq_limit_bounds_queue:
  assumes "dpdq_fresh s" "\<not> qib s" "dpdq_run dbg nodes ex es s = Done (out, s')"
  shows "(0 < credit_limit s' \<longrightarrow> fifo_len (credit_q s') \<le> credit_limit s' - 1)
       \<and> (0 < data_limit s' \<longrightarrow> fifo_len (data_q s') \<le> data_limit s' - 1)"
proof -
  have "class_bounded s'"
  proof (rule Queue_run_inv[OF assms(3), of class_bounded])
    show "class_bounded s" using assms(1,2) by (simp add: class_bounded_def dpdq_fresh_def)
  qed (erule (1) enque_bounded deque_bounded | erule book_bounded)+
  then show ?thesis by (auto simp: class_bounded_def)
qed

lemma dpdq_limit_bounds_queue_witness:
  "fifo_len (data_q (snd (val example_run))) \<le> 9"
proof -
  have "\<not> qib example_queue" by code_simp
  from dpdq_limit_bounds_queue[OF example_fresh this example_run_Done[unfolded example_run_def]]
  have "0 < data_limit (snd (val example_run)) \<longrightarrow>
      fifo_len (data_q (snd (val example_run))) \<le> data_limit (snd (val example_run)) - 1"
    by (simp add: example_run_def)
  moreover have "data_limit (snd (val example_run)) = 10" by code_simp
  ultimately show ?thesis by simp
qed

text \<open>With assertions compiled out, enque throws exactly when the class limit
  lets the packet pass and the shared-buffer mode is on without a node attached
  (runtime error) or is neither 0 nor 1 (invalid argument).\<close>
theorem dpdq_enque_throws_iff:
  "is_Fail (DPDQQueue_enque False nodes now (Some p) s) \<longleftrightarrow>
     (let q = (if is_control_packet p then credit_q s else data_q s);
          l = (if is_control_packet p then credit_limit s else data_limit s);
          n = pkt_size p - (if now \<ge> 10 then 20 else 0)
      in \<not> (l > 0 \<and> (if qib s then fbytes q + n \<ge> l else fifo_len q + 1 \<ge> l))
         \<and> switch_shared_buffer s \<noteq> 0 \<and> (switch_shared_buffer s = 1 \<longrightarrow> qnode s = None))"
proof -
  have n: "normalize_enque_size False now p = Done (p\<lparr>pkt_size := pkt_size p - (if now \<ge> 10 then 20 else 0)\<rparr>)"
    by (simp add: normalize_enque_size_def assert_that_def frame_defs)
  show ?thesis
    by (auto simp: DPDQQueue_enque_def n DPDQQueue_should_drop_def Let_def split: option.splits)
qed

lemma dpdq_enque_throws_iff_witness:
  "is_Fail (DPDQQueue_enque False (\<lambda>_ _. \<lparr>shared_queue_len_pkts = 0, connected_link_queues = []\<rparr>) 11
     (Some (example_packet GRANT 84)) (example_queue\<lparr>switch_shared_buffer := 2\<rparr>))"
  unfolding dpdq_enque_throws_iff by code_simp

end
