(* ===== verification/PPass.thy ===== *)
theory PPass
  imports DpdqQueue
begin

text \<open>
  PPass, the rival discipline of dpdq-ns2: \<^verbatim>\<open>queue/ppass-state.{h,cc}\<close>, a shared
  phantom queue length that grows with the credit granted and drains with time,
  and \<^verbatim>\<open>queue/ppass-queue.{h,cc}\<close>, the queue that charges it and marks packets.
  The phantom queue object a PPassQueue points to is kept as a value in the
  queue's state (None for the null pointer).  Messages on standard output have
  no effect and are left out.
\<close>

section \<open>Phantom queue\<close>

record PPassState =
  qlen :: u64
  last_time :: double

definition PPassState_ctor :: PPassState where
  "PPassState_ctor = \<lparr>qlen = 0, last_time = 0\<rparr>"

definition reset_qlen :: "u64 \<Rightarrow> PPassState \<Rightarrow> PPassState" where
  "reset_qlen v s = s\<lparr>qlen := v\<rparr>"

definition u64_max :: u64 where "u64_max = 18446744073709551615"

definition increase_qlen :: "u64 \<Rightarrow> PPassState \<Rightarrow> PPassState" where
  "increase_qlen delta s =
    (if delta > 0
     then if qlen s > u64_max - delta then s\<lparr>qlen := u64_max\<rparr> else s\<lparr>qlen := qlen s + delta\<rparr>
     else s)"

definition decrease_qlen :: "u64 \<Rightarrow> PPassState \<Rightarrow> PPassState" where
  "decrease_qlen delta s =
    (if delta \<ge> qlen s then s\<lparr>qlen := 0\<rparr> else s\<lparr>qlen := qlen s - delta\<rparr>)"

definition set_lasttime :: "double \<Rightarrow> PPassState \<Rightarrow> PPassState" where
  "set_lasttime t s = s\<lparr>last_time := t\<rparr>"

definition parse_uint64 :: "string option \<Rightarrow> u64 option" where
  "parse_uint64 text = (case text of None \<Rightarrow> None
     | Some t \<Rightarrow> let (parsed, errno, converted, end_text) = strtoull t
                 in if errno \<or> \<not> converted \<or> end_text \<noteq> [] then None else Some parsed)"

text \<open>What a Tcl command gives: success with the result string, if one was set,
  an error, or the command is passed to the base class.\<close>
datatype tcl_reply = TCL_OK "string option" | TCL_ERROR | PASSED_ON

definition PPassState_command :: "string list \<Rightarrow> PPassState \<Rightarrow> tcl_reply \<times> PPassState" where
  "PPassState_command argv s =
    (let show_qlen = (\<lambda>s. TCL_OK (Some (print_nat (unat (qlen s))))) in
     if length argv = 2 then
       if argv ! 1 = ''get'' then (show_qlen s, s) else (PASSED_ON, s)
     else if length argv = 3 then
       case parse_uint64 (Some (argv ! 2)) of
         None \<Rightarrow> (TCL_ERROR, s)
       | Some v \<Rightarrow>
           if argv ! 1 = ''reset'' \<or> argv ! 1 = ''set'' then (TCL_OK None, reset_qlen v s)
           else if argv ! 1 = ''incr'' then (show_qlen (increase_qlen v s), increase_qlen v s)
           else if argv ! 1 = ''decr'' then (show_qlen (decrease_qlen v s), decrease_qlen v s)
           else (PASSED_ON, s)
     else (PASSED_ON, s))"

section \<open>The queue\<close>

record PPassQueue = Queue +
  q_0 :: fifo
  q_1 :: fifo
  shared_state :: "PPassState option"
  pp_qib :: bool
  pp_mean_pktsize :: int
  bw_gbps :: double
  rho :: double
  PThr :: int
  pp_summarystats :: bool

definition PPassQueue_ctor ::
  "Queue \<Rightarrow> bool \<Rightarrow> int \<Rightarrow> double \<Rightarrow> double \<Rightarrow> int \<Rightarrow> PPassQueue" where
  "PPassQueue_ctor base qib_bound mean_bound bw_bound rho_bound PThr_bound =
     Queue.extend base (PPassQueue.fields fifo_empty fifo_empty None qib_bound mean_bound
       bw_bound rho_bound PThr_bound True)"

definition pp_stats :: "double \<Rightarrow> PPassQueue \<Rightarrow> PPassQueue" where
  "pp_stats now s =
    (if pp_summarystats s
     then updateStats now (if pp_qib s then fbytes (q_0 s) + fbytes (q_1 s)
                           else fifo_len (q_0 s) + fifo_len (q_1 s)) s
     else s)"

text \<open>How much the phantom queue drained since the last data packet.\<close>
definition drained :: "double \<Rightarrow> PPassQueue \<Rightarrow> PPassState \<Rightarrow> u64" where
  "drained now s st =
    (let interval = fsub now (last_time st)
     in word_of_dbl (fdiv (fmul (fmul (fmul (rho s) interval)
                                      (fmul (fmul (fmul (bw_gbps s) 1000) 1000) 1000)) 1460) 1500))"

text \<open>What the enqueue of a data packet does to the phantom queue and to the
  packet's congestion mark.\<close>
definition phantom_update ::
  "double \<Rightarrow> PPassQueue \<Rightarrow> PPassState \<Rightarrow> packet \<Rightarrow> PPassState \<times> packet" where
  "phantom_update now s st pkt =
    (let st = (if pkt_unsol_credit pkt > 0
               then increase_qlen (word_of_int (pkt_size pkt)) st else st);
         delta = drained now s st;
         st = (if delta > qlen st then reset_qlen 0 st else decrease_qlen delta st);
         st = set_lasttime now st;
         pkt = (if qlen st > word_of_int (PThr s * pp_mean_pktsize s)
                then pkt\<lparr>pkt_ce := 1\<rparr> else pkt)
     in (st, pkt))"

definition data_queue_full :: "packet \<Rightarrow> PPassQueue \<Rightarrow> bool" where
  "data_queue_full pkt s =
    (let qlimBytes = qlim s * pp_mean_pktsize s
     in \<not> pp_qib s \<and> fifo_len (q_1 s) + 1 \<ge> qlim s
        \<or> pp_qib s \<and> fbytes (q_1 s) + pkt_size pkt \<ge> qlimBytes)"

definition PPassQueue_enque ::
  "bool \<Rightarrow> double \<Rightarrow> packet option \<Rightarrow> PPassQueue \<Rightarrow> (q_error, PPassQueue) outcome" where
  "PPassQueue_enque dbg now p s =
    (case shared_state s of
       None \<Rightarrow> Fail (RuntimeError ''PPassQueue::enque() shared_state_ is nullptr'')
     | Some st \<Rightarrow>
    (case p of
       None \<Rightarrow> Done s
     | Some pkt \<Rightarrow>
        bind_outcome (normalize_enque_size dbg now pkt) (\<lambda>pkt.
        let s = pp_stats now s
        in if pkt_msg_type pkt = msg_code GRANT
           then let credit = word_of_int (pkt_credit pkt)
                in Done (s\<lparr>shared_state := Some (increase_qlen credit st), q_0 := fifo_enque pkt (q_0 s)\<rparr>)
           else let do_drop = data_queue_full pkt s
                in if do_drop then Done (drop_pkt pkt s)
                   else let (st, pkt) = phantom_update now s st pkt
                        in Done (s\<lparr>shared_state := Some st, q_1 := fifo_enque pkt (q_1 s)\<rparr>))))"

definition PPassQueue_deque ::
  "bool \<Rightarrow> double \<Rightarrow> PPassQueue \<Rightarrow> (q_error, packet option \<times> PPassQueue) outcome" where
  "PPassQueue_deque dbg now s =
    (if shared_state s = None
     then Fail (RuntimeError ''PPassQueue::deque() shared_state_ is nullptr'')
     else let s = pp_stats now s;
              (p, s) = (if fifo_len (q_0 s) > 0
                        then let (p, q) = fifo_deque (q_0 s) in (p, s\<lparr>q_0 := q\<rparr>)
                        else let (p, q) = fifo_deque (q_1 s) in (p, s\<lparr>q_1 := q\<rparr>))
          in bind_outcome (restore_deque_size dbg now p) (\<lambda>p. Done (p, s)))"

definition PPassQueue_reset :: "bool \<Rightarrow> double \<Rightarrow> PPassQueue \<Rightarrow> (q_error, PPassQueue) outcome option" where
  "PPassQueue_reset dbg now s = Queue_reset (PPassQueue_deque dbg) now s"

text \<open>Commands: lookup is the interpreter's table of objects.  The outer None
  means the command is passed to the base class; an outcome None is a reset
  that does not return.\<close>
definition PPassQueue_command ::
  "bool \<Rightarrow> double \<Rightarrow> (string \<Rightarrow> PPassState option) \<Rightarrow> string list \<Rightarrow> PPassQueue
   \<Rightarrow> (q_error, bool \<times> PPassQueue) outcome option option" where
  "PPassQueue_command dbg now objects argv s =
    (if length argv = 2 \<and> argv ! 1 = ''reset''
     then Some (map_option (\<lambda>r. bind_outcome r (\<lambda>s. Done (True, s))) (PPassQueue_reset dbg now s))
     else if length argv = 3 \<and> argv ! 1 = ''set-ppass-state''
     then case objects (argv ! 2) of
         None \<Rightarrow> Some (Some (Done (False, s)))
       | Some st \<Rightarrow> Some (Some (Done (True, s\<lparr>shared_state := Some st\<rparr>)))
     else None)"

section \<open>Phantom queue arithmetic saturates\<close>

lemma increase_nat: "unat (qlen (increase_qlen d s)) = min (2 ^ 64 - 1) (unat (qlen s) + unat d)"
proof -
  have m: "unat u64_max = 2 ^ 64 - 1" by (simp add: u64_max_def)
  have "d \<le> u64_max" using unat_lt_u64[of d] m by (simp add: word_le_nat_alt)
  then have md: "unat (u64_max - d) = 2 ^ 64 - 1 - unat d" using m by (simp add: unat_sub_le)
  show ?thesis
  proof (cases "qlen s > u64_max - d")
    case True
    then have "2 ^ 64 - 1 - unat d < unat (qlen s)" using md by (simp add: word_less_nat_alt)
    moreover have "0 < d" using calculation m unat_lt_u64[of "qlen s"] by (simp add: word_less_nat_alt)
    ultimately show ?thesis using True m by (simp add: increase_qlen_def)
  next
    case False
    then have le: "unat (qlen s) + unat d \<le> 2 ^ 64 - 1"
      using md unat_lt_u64[of d] by (simp add: word_less_nat_alt)
    then have "unat (qlen s + d) = unat (qlen s) + unat d" by (simp add: unat_add_lt)
    then show ?thesis using False le by (simp add: increase_qlen_def word_greater_zero_iff)
  qed
qed

lemma decrease_nat: "unat (qlen (decrease_qlen d s)) = unat (qlen s) - unat d"
  by (auto simp: decrease_qlen_def word_le_nat_alt unat_sub_le not_le)

lemma drain_nat:
  "unat (qlen (if d > qlen s then reset_qlen 0 s else decrease_qlen d s)) = unat (qlen s) - unat d"
  by (auto simp: decrease_nat reset_qlen_def word_less_nat_alt)

section \<open>The discipline's contract\<close>

lemma pp_stats_sel [simp]:
  "q_0 (pp_stats now s) = q_0 s" "q_1 (pp_stats now s) = q_1 s"
  "shared_state (pp_stats now s) = shared_state s" "pp_qib (pp_stats now s) = pp_qib s"
  "pp_mean_pktsize (pp_stats now s) = pp_mean_pktsize s" "bw_gbps (pp_stats now s) = bw_gbps s"
  "rho (pp_stats now s) = rho s" "PThr (pp_stats now s) = PThr s" "qlim (pp_stats now s) = qlim s"
  "blocked (pp_stats now s) = blocked s" "dropped (pp_stats now s) = dropped s"
  "unblock_on_resume (pp_stats now s) = unblock_on_resume s"
  by (simp_all add: pp_stats_def updateStats_def Let_def)

lemma pp_drop_sel [simp]:
  "q_0 (drop_pkt p s) = q_0 s" "q_1 (drop_pkt p s) = q_1 s" "shared_state (drop_pkt p s) = shared_state s"
  "blocked (drop_pkt p s) = blocked s" "dropped (drop_pkt p s) = dropped s @ [p]"
  "unblock_on_resume (drop_pkt p s) = unblock_on_resume s"
  by (simp_all add: drop_pkt_def)

lemma pp_util_loop [simp]:
  "q_0 (util_loop n t i e k r) = q_0 r" "q_1 (util_loop n t i e k r) = q_1 r"
  "shared_state (util_loop n t i e k r) = shared_state r"
  by (induction n t i e k r rule: util_loop.induct) simp_all

lemma pp_book [simp]:
  "q_0 (book ex a b l t k s) = q_0 s" "q_1 (book ex a b l t k s) = q_1 s"
  "shared_state (book ex a b l t k s) = shared_state s"
  by (simp_all add: book_def utilUpdate_def Let_def)

definition pp_ok :: "PPassQueue \<Rightarrow> bool" where
  "pp_ok s \<longleftrightarrow> fifo_ok (\<lambda>p. pkt_msg_type p = msg_code GRANT) (q_0 s)
     \<and> fifo_ok (\<lambda>p. pkt_msg_type p \<noteq> msg_code GRANT) (q_1 s)"

definition pp_held :: "PPassQueue \<Rightarrow> nat" where
  "pp_held s = length (items (q_0 s)) + length (items (q_1 s))"

lemma ppass_enque_law:
  assumes "pp_ok s" "PPassQueue_enque dbg now (Some p) s = Done s'"
  shows "pp_ok s' \<and> blocked s' = blocked s \<and> unblock_on_resume s' = unblock_on_resume s
    \<and> pp_held s' + length (dropped s') = Suc (pp_held s + length (dropped s))"
proof -
  obtain st where st: "shared_state s = Some st"
    using assms(2) by (cases "shared_state s") (simp_all add: PPassQueue_enque_def)
  obtain q where q: "normalize_enque_size dbg now p = Done q"
    using assms(2) st by (auto simp: PPassQueue_enque_def bind_outcome_Done)
  show ?thesis
  proof (cases "pkt_msg_type q = msg_code GRANT")
    case True
    then show ?thesis using assms st q
      by (auto simp: PPassQueue_enque_def Let_def pp_ok_def pp_held_def intro!: fifo_ok_enque)
  next
    case False
    show ?thesis
    proof (cases "data_queue_full q (pp_stats now s)")
      case True
      then have "s' = drop_pkt q (pp_stats now s)"
        using assms(2) st q False by (simp add: PPassQueue_enque_def Let_def)
      then show ?thesis using assms(1) by (simp add: pp_ok_def pp_held_def)
    next
      case nf: False
      obtain st' q' where u: "phantom_update now (pp_stats now s) st q = (st', q')" by force
      then have q': "pkt_msg_type q' = pkt_msg_type q" by (auto simp: phantom_update_def Let_def)
      have s': "s' = pp_stats now s\<lparr>shared_state := Some st', q_1 := fifo_enque q' (q_1 s)\<rparr>"
        using assms(2) st q False nf u by (simp add: PPassQueue_enque_def Let_def)
      show ?thesis using assms(1) False q' unfolding s'
        by (auto simp: pp_ok_def pp_held_def intro!: fifo_ok_enque)
    qed
  qed
qed

lemma ppass_deque_Done:
  assumes "PPassQueue_deque dbg now s = Done (r, s')"
  shows "case items (q_0 s) @ items (q_1 s) of
      [] \<Rightarrow> r = None \<and> s' = pp_stats now s
    | p # _ \<Rightarrow> r = Some (p\<lparr>pkt_size := pkt_size p + (if now \<ge> 10 then 20 else 0)\<rparr>)
        \<and> s' = (if items (q_0 s) \<noteq> []
                then pp_stats now s\<lparr>q_0 := snd (fifo_deque (q_0 s))\<rparr>
                else pp_stats now s\<lparr>q_1 := snd (fifo_deque (q_1 s))\<rparr>)"
  using assms
  by (cases "items (q_0 s)"; cases "items (q_1 s)")
    (auto simp: PPassQueue_deque_def fifo_len_def fifo_deque_def bind_outcome_Done Let_def
      split: if_splits dest!: restore_Done)

lemma ppass_deque_law:
  assumes "pp_ok s" "PPassQueue_deque dbg now s = Done (r, s')"
  shows "pp_ok s' \<and> blocked s' = blocked s \<and> unblock_on_resume s' = unblock_on_resume s
    \<and> dropped s' = dropped s \<and> (r = None \<longleftrightarrow> pp_held s = 0)
    \<and> pp_held s' = pp_held s - (if r = None then 0 else 1)"
  using ppass_deque_Done[OF assms(2)] assms(1)
  by (cases "items (q_0 s)"; cases "items (q_1 s)")
    (auto simp: pp_ok_def pp_held_def fifo_ok_deque)

interpretation ppass: qdisc pp_ok pp_held "\<lambda>now p. PPassQueue_enque dbg now (Some p)"
    "PPassQueue_deque dbg" ex
  for dbg :: bool and ex :: "double \<Rightarrow> double"
proof (unfold_locales, goal_cases)
  case (5 s now p s')
  then show ?case by (rule ppass_enque_law)
next
  case (6 s now r s')
  then show ?case by (rule ppass_deque_law)
qed (auto simp: pp_ok_def pp_held_def)

section \<open>Properties\<close>

text \<open>Concrete values for the witnesses.\<close>
definition example_ppass :: PPassQueue where
  "example_ppass = (PPassQueue_ctor \<lparr>qlim = 50, blocked = 0, unblock_on_resume = True, true_ave = 0,
     total_time = 0, last_change = 0, old_util = 0, util_weight = 0, util_check_intv = 0,
     period_begin = 0, cur_util = 0, buf_slot = 0, util_buf = [], util_records = 0,
     switch_shared_buffer = 0, qnode = None, dropped = []\<rparr> False 1500 10 1 2)
     \<lparr>shared_state := Some \<lparr>qlen = 5000, last_time = 10\<rparr>, pp_summarystats := False\<rparr>"

text \<open>Setting the phantom queue through its Tcl command and reading it back
  returns the same decimal number, for every 64-bit value.\<close>
theorem ppass_set_get_roundtrip:
  assumes "n < 2 ^ 64"
  shows "let (r, s') = PPassState_command [c, ''set'', print_nat n] s
         in r = TCL_OK None \<and> unat (qlen s') = n
          \<and> PPassState_command [c, ''get''] s' = (TCL_OK (Some (print_nat n)), s')"
proof -
  have "unat (word_of_nat n :: u64) = n" using assms by (simp add: unsigned_of_nat take_bit_nat_eq_self)
  then show ?thesis using strtoull_print[OF assms]
    by (simp add: PPassState_command_def parse_uint64_def reset_qlen_def)
qed

lemma ppass_set_get_roundtrip_witness:
  "unat (qlen (snd (PPassState_command [''cmd'', ''set'', print_nat 1460] PPassState_ctor))) = 1460"
  using ppass_set_get_roundtrip[of 1460 "''cmd''" PPassState_ctor] by (simp add: case_prod_beta)

text \<open>An admitted data packet adjusts the phantom queue without wrap-around:
  unsolicited bytes are added (saturating at the 64-bit maximum), the amount
  drained since the last data packet is subtracted (stopping at 0), the clock is
  recorded, and the packet is marked exactly when the result exceeds the
  threshold.\<close>
theorem ppass_data_phantom_update:
  assumes "shared_state s = Some st" "pkt_msg_type p \<noteq> msg_code GRANT"
    and "PPassQueue_enque dbg now (Some p) s = Done s'" "dropped s' = dropped s"
  shows "\<exists>st' q. shared_state s' = Some st' \<and> items (q_1 s') = items (q_1 s) @ [q]
     \<and> last_time st' = now
     \<and> unat (qlen st') = (if pkt_unsol_credit p > 0
          then min (2 ^ 64 - 1) (unat (qlen st) + unat (word_of_int (pkt_size p - (if now \<ge> 10 then 20 else 0)) :: u64))
          else unat (qlen st)) - unat (drained now s st)
     \<and> pkt_ce q = (if qlen st' > word_of_int (PThr s * pp_mean_pktsize s) then 1 else pkt_ce p)"
proof -
  obtain q where q: "normalize_enque_size dbg now p = Done q"
    using assms(1,3) by (auto simp: PPassQueue_enque_def bind_outcome_Done)
  have n: "q = p\<lparr>pkt_size := pkt_size p - (if now \<ge> 10 then 20 else 0)\<rparr>" by (rule normalize_Done[OF q])
  have lt: "last_time (increase_qlen d st) = last_time st" for d by (simp add: increase_qlen_def)
  have dr: "drained now (pp_stats now s) (if c then increase_qlen d st else st) = drained now s st" for c d
    by (simp add: drained_def lt)
  have t: "pkt_msg_type q \<noteq> msg_code GRANT" using assms(2) by (simp add: n)
  have nf: "\<not> data_queue_full q (pp_stats now s)"
    using assms(1,3,4) q t by (auto simp: PPassQueue_enque_def Let_def)
  obtain st' q' where u: "phantom_update now (pp_stats now s) st q = (st', q')" by force
  have s': "s' = pp_stats now s\<lparr>shared_state := Some st', q_1 := fifo_enque q' (q_1 s)\<rparr>"
    using assms(1,3) q t nf u by (simp add: PPassQueue_enque_def Let_def)
  let ?st = "if pkt_unsol_credit q > 0 then increase_qlen (word_of_int (pkt_size q)) st else st"
  let ?d = "drained now s st"
  have st': "st' = set_lasttime now (if ?d > qlen ?st then reset_qlen 0 ?st else decrease_qlen ?d ?st)"
    and q': "q' = (if qlen st' > word_of_int (PThr s * pp_mean_pktsize s) then q\<lparr>pkt_ce := 1\<rparr> else q)"
    using u by (simp_all only: phantom_update_def Let_def dr prod.inject pp_stats_sel) auto
  have "unat (qlen st') = unat (qlen ?st) - unat ?d"
    unfolding st' set_lasttime_def using drain_nat[of ?st ?d] by simp
  moreover have "last_time st' = now" by (simp add: st' set_lasttime_def)
  ultimately show ?thesis
    by (intro exI[of _ st'] exI[of _ q']) (simp add: s' increase_nat n q')
qed

lemma ppass_data_phantom_update_witness:
  "\<exists>st'. shared_state (val (PPassQueue_enque True 10 (Some (example_packet REPLY 1538)) example_ppass)) = Some st'
     \<and> unat (qlen st') = 5000"
proof -
  let ?r = "PPassQueue_enque True 10 (Some (example_packet REPLY 1538)) example_ppass"
  have "\<not> is_Fail ?r" by code_simp
  then have r: "?r = Done (val ?r)" by (cases ?r) auto
  have d: "dropped (val ?r) = dropped example_ppass" by code_simp
  have z: "unat (drained 10 example_ppass \<lparr>qlen = 5000, last_time = 10\<rparr>) = 0" by code_simp
  have t: "pkt_msg_type (example_packet REPLY 1538) \<noteq> msg_code GRANT" by code_simp
  have u: "\<not> pkt_unsol_credit (example_packet REPLY 1538) > 0" by code_simp
  have st: "shared_state example_ppass = Some \<lparr>qlen = 5000, last_time = 10\<rparr>"
    by (simp add: example_ppass_def)
  show ?thesis using ppass_data_phantom_update[OF st t r d] z u by auto
qed

text \<open>PPass conserves packets and work like DPDQ: arrivals are sent, dropped
  or queued, an idle link means both queues are empty, and grants and data
  never mix.\<close>
theorem ppass_conserves_packets_and_work:
  assumes "q_0 s = fifo_empty" "q_1 s = fifo_empty" "blocked s = 0" "dropped s = []"
    and "Queue_run ex (\<lambda>now p. PPassQueue_enque dbg now (Some p)) (PPassQueue_deque dbg) es s = Done (out, s')"
  shows "length (concat (map arrivals es)) =
           length out + length (dropped s') + length (items (q_0 s')) + length (items (q_1 s'))
       \<and> (blocked s' = 0 \<longrightarrow> items (q_0 s') = [] \<and> items (q_1 s') = [])
       \<and> (\<forall>p\<in>set (items (q_0 s')). pkt_msg_type p = msg_code GRANT)
       \<and> (\<forall>p\<in>set (items (q_1 s')). pkt_msg_type p \<noteq> msg_code GRANT)"
proof -
  have "ppass.work_conserving s"
    using assms(1-4) by (simp add: ppass.work_conserving_def pp_ok_def pp_held_def fifo_ok_def)
  from ppass.q_run_law[OF this assms(5)] show ?thesis using assms(1-4)
    by (auto simp: ppass.work_conserving_def pp_held_def pp_ok_def fifo_ok_def list_all_iff)
qed

lemma ppass_conserves_packets_and_work_witness:
  "\<exists>out s'. Queue_run (\<lambda>_. 1) (\<lambda>now p. PPassQueue_enque True now (Some p)) (PPassQueue_deque True)
      [Recv 10 (example_packet REPLY 1538)] example_ppass = Done (out, s')
     \<and> 1 = length out + length (dropped s') + length (items (q_0 s')) + length (items (q_1 s'))"
proof -
  let ?r = "Queue_run (\<lambda>_. 1) (\<lambda>now p. PPassQueue_enque True now (Some p)) (PPassQueue_deque True)
      [Recv 10 (example_packet REPLY 1538)] example_ppass"
  have "\<not> is_Fail ?r" by code_simp
  then have r: "?r = Done (fst (val ?r), snd (val ?r))" by (cases ?r) auto
  have e: "q_0 example_ppass = fifo_empty" "q_1 example_ppass = fifo_empty"
    "blocked example_ppass = 0" "dropped example_ppass = []"
    by (simp_all add: example_ppass_def PPassQueue_ctor_def PPassQueue.defs Queue.defs)
  note c = ppass_conserves_packets_and_work[OF e r]
  have "1 = length (fst (val ?r)) + length (dropped (snd (val ?r)))
      + length (items (q_0 (snd (val ?r)))) + length (items (q_1 (snd (val ?r))))"
    using c[THEN conjunct1] by (simp only: arrivals.simps list.map concat.simps append.simps list.size)
  then show ?thesis using r by (intro exI conjI)
qed

end
