(* ===== verification/RdmaCredit.thy ===== *)
theory RdmaCredit
  imports CbTag
begin

text \<open>
  The arithmetic of credit in the DPDQ transport of dpdq-ns3, the file-local
  helpers at the head of \<^verbatim>\<open>src/point-to-point/model/rdma-hw.cc\<close>: the cost of a
  payload on the wire (headers, link overhead and padding of short frames), the
  payload a wire budget buys, chunking of a message at the MTU, and the wire
  size and padding that a grant carries and the sender decodes.

  payload\_wire and wire\_payload read the two conversions on natural numbers;
  they form a Galois connection, and the cost is additive over whole chunks.
\<close>

section \<open>Operations\<close>

definition CB_DATA_HEADERS_ON_WIRE :: u32 where "CB_DATA_HEADERS_ON_WIRE = 48"
definition CB_LINK_OVERHEAD_ON_WIRE :: u32 where "CB_LINK_OVERHEAD_ON_WIRE = 20"
definition CB_MIN_ETHERNET_ON_WIRE :: u32 where "CB_MIN_ETHERNET_ON_WIRE = 84"
definition CB_MAX_ETHERNET_FRAME_ON_WIRE :: u32 where "CB_MAX_ETHERNET_FRAME_ON_WIRE = 1534"

lemmas cb_consts = CB_DATA_HEADERS_ON_WIRE_def CB_LINK_OVERHEAD_ON_WIRE_def
  CB_MIN_ETHERNET_ON_WIRE_def CB_MAX_ETHERNET_FRAME_ON_WIRE_def

definition CbAddHeaderOverhead :: "u64 \<Rightarrow> u32 \<Rightarrow> bool \<Rightarrow> u64" where
  "CbAddHeaderOverhead payloadBytes maxPayloadBytes skipLastPktCheck =
    (if payloadBytes = 0 \<or> maxPayloadBytes = 0 then 0
     else let fullPkts = payloadBytes div ucast maxPayloadBytes;
              remBytes = payloadBytes mod ucast maxPayloadBytes;
              maxPktOnWire = ucast maxPayloadBytes + ucast CB_DATA_HEADERS_ON_WIRE + ucast CB_LINK_OVERHEAD_ON_WIRE;
              total = fullPkts * maxPktOnWire
          in if remBytes > 0
             then let remOnWire = remBytes + ucast CB_DATA_HEADERS_ON_WIRE + ucast CB_LINK_OVERHEAD_ON_WIRE
                  in total + max remOnWire (ucast CB_MIN_ETHERNET_ON_WIRE)
             else if skipLastPktCheck \<and> fullPkts > 0 then max total (ucast CB_MIN_ETHERNET_ON_WIRE)
             else total)"

definition CbRemoveHeaderOverhead :: "u64 \<Rightarrow> u32 \<Rightarrow> u64" where
  "CbRemoveHeaderOverhead onWireBytes maxPayloadBytes =
    (if onWireBytes = 0 \<or> maxPayloadBytes = 0 then 0
     else let maxPktOnWire = ucast maxPayloadBytes + ucast CB_DATA_HEADERS_ON_WIRE + ucast CB_LINK_OVERHEAD_ON_WIRE;
              fullPkts = onWireBytes div maxPktOnWire;
              remOnWire = onWireBytes mod maxPktOnWire;
              payload = fullPkts * ucast maxPayloadBytes
          in if remOnWire \<ge> ucast CB_MIN_ETHERNET_ON_WIRE
             then let remPayload = remOnWire - ucast CB_DATA_HEADERS_ON_WIRE - ucast CB_LINK_OVERHEAD_ON_WIRE
                  in payload + min remPayload (ucast maxPayloadBytes)
             else payload)"

definition CbAlignChunkPrefixBytes :: "u64 \<Rightarrow> u64 \<Rightarrow> u32 \<Rightarrow> u64" where
  "CbAlignChunkPrefixBytes candidateBytes messageBytes chunkBytes =
    (if candidateBytes = 0 \<or> messageBytes = 0 \<or> chunkBytes = 0 then 0
     else if candidateBytes \<ge> messageBytes then messageBytes
     else (candidateBytes div ucast chunkBytes) * ucast chunkBytes)"

definition CbNextChunkPayloadBytes :: "u64 \<Rightarrow> u64 \<Rightarrow> u32 \<Rightarrow> u32" where
  "CbNextChunkPayloadBytes nextOffset messageBytes chunkBytes =
    (if chunkBytes = 0 \<or> nextOffset \<ge> messageBytes then 0
     else ucast (min (ucast chunkBytes) (messageBytes - nextOffset)))"

definition CbNextChunkOnWireBytes :: "u64 \<Rightarrow> u64 \<Rightarrow> u32 \<Rightarrow> u64" where
  "CbNextChunkOnWireBytes nextOffset messageBytes chunkBytes =
    CbAddHeaderOverhead (ucast (CbNextChunkPayloadBytes nextOffset messageBytes chunkBytes)) chunkBytes True"

text \<open>The padding a grant announces, and the payload the sender of the data reads off a
  grant (or the receiver off a bounced one): 16 bits of padding, 32 bits of credit.\<close>
definition grant_pad :: "u64 \<Rightarrow> u64 \<Rightarrow> u16" where
  "grant_pad askData askWire =
    (let minWireNoPad = askData + ucast CB_DATA_HEADERS_ON_WIRE + ucast CB_LINK_OVERHEAD_ON_WIRE
     in if askWire > minWireNoPad then ucast (askWire - minWireNoPad) else 0)"

definition credit_payload :: "u64 \<Rightarrow> u16 \<Rightarrow> u64" where
  "credit_payload credit pad =
    (let minWireNoPad = ucast (CB_DATA_HEADERS_ON_WIRE + CB_LINK_OVERHEAD_ON_WIRE + ucast pad)
     in if credit > minWireNoPad then credit - minWireNoPad else 0)"

section \<open>Readings on natural numbers\<close>

definition chunk_wire :: "nat \<Rightarrow> nat" where
  "chunk_wire r = (if r = 0 then 0 else max (r + 68) 84)"

definition payload_wire :: "nat \<Rightarrow> nat \<Rightarrow> nat" where
  "payload_wire m d = (d div m) * (m + 68) + chunk_wire (d mod m)"

definition wire_payload :: "nat \<Rightarrow> nat \<Rightarrow> nat" where
  "wire_payload m w = (w div (m + 68)) * m + (if w mod (m + 68) \<ge> 84 then w mod (m + 68) - 68 else 0)"

lemma payload_wire_0 [simp]: "payload_wire m 0 = 0"
  by (simp add: payload_wire_def chunk_wire_def)

lemma len64: "LENGTH(64) = 64"
  by simp

lemma chunk_wire_le: "r < m \<Longrightarrow> 16 \<le> m \<Longrightarrow> chunk_wire r \<le> m + 68"
  by (simp add: chunk_wire_def)

text \<open>A wire budget buys the largest payload whose cost fits it.\<close>
lemma payload_wire_galois:
  assumes "16 \<le> m"
  shows "payload_wire m d \<le> w \<longleftrightarrow> d \<le> wire_payload m w"
proof -
  define q r Q R where "q = d div m" "r = d mod m" "Q = w div (m + 68)" "R = w mod (m + 68)"
  have d: "d = q * m + r" "r < m" and w: "w = Q * (m + 68) + R" "R < m + 68"
    using assms unfolding q_r_Q_R_def by (simp_all only: div_mult_mod_eq) simp_all
  define s where "s = (if 84 \<le> R then R - 68 else 0)"
  have s: "s < m" using w(2) assms by (auto simp: s_def)
  have c: "chunk_wire r \<le> m + 68" using d(2) assms by (rule chunk_wire_le)
  have eq: "payload_wire m d = q * (m + 68) + chunk_wire r" "wire_payload m w = Q * m + s"
    by (simp_all add: payload_wire_def wire_payload_def q_r_Q_R_def s_def)
  consider "q < Q" | "q = Q" | "Q < q" by linarith
  then show ?thesis
  proof cases
    case 1
    then have "(q + 1) * (m + 68) \<le> Q * (m + 68)" "(q + 1) * m \<le> Q * m"
      by (intro mult_le_mono1; simp)+
    then have "payload_wire m d \<le> w" "d \<le> wire_payload m w"
      using c w(1) d unfolding eq by (simp_all add: algebra_simps)
    then show ?thesis by simp
  next
    case 2
    then have "payload_wire m d \<le> w \<longleftrightarrow> chunk_wire r \<le> R" "d \<le> wire_payload m w \<longleftrightarrow> r \<le> s"
      using w(1) d(1) unfolding eq by simp_all
    then show ?thesis by (auto simp: chunk_wire_def s_def)
  next
    case 3
    then have "(Q + 1) * (m + 68) \<le> q * (m + 68)" "(Q + 1) * m \<le> q * m"
      by (intro mult_le_mono1; simp)+
    then have "\<not> payload_wire m d \<le> w" "\<not> d \<le> wire_payload m w"
      using w d(1) s unfolding eq by (simp_all add: algebra_simps)
    then show ?thesis by simp
  qed
qed

lemma payload_wire_add:
  assumes "m dvd a" "0 < m"
  shows "payload_wire m (a + b) = payload_wire m a + payload_wire m b"
  using assms by (auto simp: payload_wire_def chunk_wire_def algebra_simps)

lemma payload_wire_ge: "0 < m \<Longrightarrow> d \<le> payload_wire m d"
proof -
  assume m: "0 < m"
  have "d = (d div m) * m + d mod m" by simp
  also have "\<dots> \<le> (d div m) * (m + 68) + chunk_wire (d mod m)"
    by (intro add_mono mult_le_mono) (auto simp: chunk_wire_def)
  finally show ?thesis by (simp add: payload_wire_def)
qed

lemma payload_wire_le: "payload_wire m d \<le> d + 84 * (d div m + 1)"
proof -
  have "x * (m + 68) + c \<le> d + 84 * (x + 1)" if "x * m + y = d" "c \<le> y + 84" for x y c :: nat
    using that by (simp add: algebra_simps)
  moreover have "chunk_wire (d mod m) \<le> d mod m + 84" by (simp add: chunk_wire_def)
  ultimately show ?thesis unfolding payload_wire_def by (metis div_mult_mod_eq)
qed

lemma payload_wire_small: "16 \<le> m \<Longrightarrow> d < 2 ^ 57 \<Longrightarrow> payload_wire m d < 2 ^ 63"
proof -
  assume a: "16 \<le> m" "d < 2 ^ 57"
  have "d div m \<le> d div 16" using a(1) by (simp add: div_le_mono2)
  also have "\<dots> \<le> 2 ^ 57 div 16" using a(2) by (intro div_le_mono) simp
  finally show ?thesis using payload_wire_le[of m d] a(2) by simp
qed

text \<open>No payload below 2^57 bytes overflows the computation at an MTU of at least 16.\<close>
lemma unat_CbAddHeaderOverhead [word_nat]:
  assumes m: "16 \<le> unat maxPayload" and d: "unat payload < 2 ^ 57"
  shows "unat (CbAddHeaderOverhead payload maxPayload skip) = payload_wire (unat maxPayload) (unat payload)"
proof -
  let ?m = "unat maxPayload" and ?d = "unat payload"
  have um: "unat (ucast maxPayload :: u64) = ?m" by (simp add: unat_ucast_up)
  have mp: "unat (ucast maxPayload + 48 + 20 :: u64) = ?m + 68"
    using unat_lt_u32[of maxPayload] um by (simp add: unat_word_ariths)
  have mp': "unat (68 + ucast maxPayload :: u64) = ?m + 68" using mp by (simp add: add.commute)
  have q: "unat (payload div ucast maxPayload) = ?d div ?m" and r: "unat (payload mod ucast maxPayload) = ?d mod ?m"
    by (simp_all add: unat_div unat_mod um)
  have small: "payload_wire ?m ?d < 2 ^ 64" using payload_wire_small[OF m d] by simp
  have tot: "unat (payload div ucast maxPayload * (ucast maxPayload + 48 + 20)) = (?d div ?m) * (?m + 68)"
    using small by (subst unat_mult_lt) (simp_all add: q mp' payload_wire_def)
  have lt: "?d mod ?m < 2 ^ 57" by (rule order.strict_trans1[OF mod_less_eq_dividend d])
  have rem: "unat (payload mod ucast maxPayload + 48 + 20) = ?d mod ?m + 68"
    using lt unfolding unat_word_ariths r[unfolded unat_word_ariths] by simp
  have rem': "unat (max (payload mod ucast maxPayload + 48 + 20) 84) = max (?d mod ?m + 68) 84"
    unfolding unat_max rem by simp
  have z: "0 < payload mod ucast maxPayload \<longleftrightarrow> ?d mod ?m > 0" by (simp add: word_less_nat_alt r)
  have nz: "maxPayload \<noteq> 0" using m by auto
  have qz: "0 < payload div ucast maxPayload \<longleftrightarrow> ?d div ?m > 0" by (simp add: word_less_nat_alt q)
  show ?thesis
  proof (cases "payload = 0")
    case True
    then show ?thesis by (simp add: CbAddHeaderOverhead_def)
  next
    case False
    show ?thesis
    proof (cases "?d mod ?m > 0")
      case True
      have sum: "unat (payload div ucast maxPayload * (ucast maxPayload + 48 + 20)) +
          unat (max (payload mod ucast maxPayload + 48 + 20) 84) = payload_wire ?m ?d"
        using True unfolding tot rem' by (simp add: payload_wire_def chunk_wire_def)
      then have "unat (payload div ucast maxPayload * (ucast maxPayload + 48 + 20) +
          max (payload mod ucast maxPayload + 48 + 20) 84) = payload_wire ?m ?d"
        by (subst unat_add_lt) (simp_all only: sum small len64)
      then show ?thesis using False nz True
        by (simp add: CbAddHeaderOverhead_def Let_def cb_consts z)
    next
      case F: False
      then have f: "?d div ?m > 0" using False m
        by (metis add.right_neutral div_mult_mod_eq mult_is_0 neq0_conv unat_eq_zero)
      then have "m' \<ge> 84" if "m' = (?d div ?m) * (?m + 68)" for m'
      proof -
        have "1 * (?m + 68) \<le> m'" unfolding that using f by (intro mult_le_mono1) simp
        then show ?thesis using m by simp
      qed
      then have "unat (max (payload div ucast maxPayload * (ucast maxPayload + 48 + 20)) 84)
          = (?d div ?m) * (?m + 68)"
        unfolding unat_max tot by simp
      then show ?thesis using False nz F f
        by (simp add: CbAddHeaderOverhead_def Let_def cb_consts z qz tot tot[simplified] payload_wire_def chunk_wire_def)
    qed
  qed
qed


lemma unat_CbRemoveHeaderOverhead [word_nat]:
  assumes m: "16 \<le> unat maxPayload"
  shows "unat (CbRemoveHeaderOverhead wire maxPayload) = wire_payload (unat maxPayload) (unat wire)"
proof -
  let ?m = "unat maxPayload" and ?w = "unat wire"
  have um: "unat (ucast maxPayload :: u64) = ?m" by (simp add: unat_ucast_up)
  have mp: "unat (ucast maxPayload + 48 + 20 :: u64) = ?m + 68"
    using unat_lt_u32[of maxPayload] um by (simp add: unat_word_ariths)
  let ?M = "ucast maxPayload + 48 + 20 :: u64"
  have q: "unat (wire div ?M) = ?w div (?m + 68)" and r: "unat (wire mod ?M) = ?w mod (?m + 68)"
    by (simp_all only: unat_div unat_mod mp)
  have le: "wire_payload ?m ?w \<le> ?w"
  proof -
    have "Q * ?m + (if R \<ge> 84 then R - 68 else 0) \<le> ?w" if "Q * (?m + 68) + R = ?w" for Q R
      using that by (auto simp: algebra_simps)
    then show ?thesis unfolding wire_payload_def by (metis div_mult_mod_eq)
  qed
  have w64: "?w < 2 ^ LENGTH(64)" by (rule unat_lt_2p)
  have p1: "unat (wire div ?M * ucast maxPayload) = ?w div (?m + 68) * ?m"
  proof (subst unat_mult_lt)
    show "unat (wire div ?M) * unat (ucast maxPayload :: u64) < 2 ^ LENGTH(64)"
      unfolding q um using le w64 by (simp add: wire_payload_def)
  qed (simp only: q um)
  have ge: "84 \<le> wire mod ?M \<longleftrightarrow> 84 \<le> ?w mod (?m + 68)"
    unfolding word_le_nat_alt r by simp
  have nz: "maxPayload \<noteq> 0" using m by auto
  have z: "wire_payload ?m 0 = 0" by (simp add: wire_payload_def)
  show ?thesis
  proof (cases "84 \<le> ?w mod (?m + 68)")
    case True
    then have s1: "unat (wire mod ?M - 48) = ?w mod (?m + 68) - 48"
      by (subst unat_sub_le) (simp_all only: word_le_nat_alt r, simp_all)
    have s2: "unat (wire mod ?M - 48 - 20) = ?w mod (?m + 68) - 68"
      using True by (subst unat_sub_le) (simp_all only: word_le_nat_alt s1, simp_all)
    have "?w mod (?m + 68) < ?m + 68" by simp
    then have lt: "?w mod (?m + 68) - 68 \<le> ?m" by linarith
    have mn: "unat (min (wire mod ?M - 48 - 20) (ucast maxPayload)) = ?w mod (?m + 68) - 68"
      unfolding unat_min s2 um by (rule min_absorb1[OF lt])
    have "unat (wire div ?M * ucast maxPayload) + unat (min (wire mod ?M - 48 - 20) (ucast maxPayload))
        = wire_payload ?m ?w"
      unfolding p1 mn wire_payload_def using True by simp
    then have "unat (wire div ?M * ucast maxPayload + min (wire mod ?M - 48 - 20) (ucast maxPayload))
        = wire_payload ?m ?w"
      using le w64 by (subst unat_add_lt) simp_all
    then show ?thesis using True nz ge
      by (auto simp: CbRemoveHeaderOverhead_def cb_consts Let_def z)
  next
    case False
    then show ?thesis using nz ge p1
      by (auto simp: CbRemoveHeaderOverhead_def cb_consts Let_def wire_payload_def)
  qed
qed

lemma unat_CbAlignChunkPrefixBytes [word_nat]:
  assumes "chunk \<noteq> 0"
  shows "unat (CbAlignChunkPrefixBytes c msg chunk) =
    (if unat msg \<le> unat c then unat msg else unat c div unat chunk * unat chunk)"
proof -
  have uc: "unat (ucast chunk :: u64) = unat chunk" by (simp add: unat_ucast_up)
  have "unat c div unat chunk * unat chunk \<le> unat c" by simp
  also have "unat c < 2 ^ LENGTH(64)" by (rule unat_lt_2p)
  finally have "unat (c div ucast chunk * ucast chunk) = unat c div unat chunk * unat chunk"
    by (subst unat_mult_lt) (simp_all add: unat_div uc)
  then show ?thesis using assms
    by (auto simp: CbAlignChunkPrefixBytes_def word_le_nat_alt)
qed

lemma unat_CbNextChunkPayloadBytes [word_nat]:
  "unat (CbNextChunkPayloadBytes off msg chunk) = min (unat chunk) (unat msg - unat off)"
proof (cases "chunk = 0 \<or> off \<ge> msg")
  case True
  then show ?thesis by (auto simp: CbNextChunkPayloadBytes_def word_le_nat_alt)
next
  case False
  then have d: "unat (msg - off) = unat msg - unat off"
    by (intro unat_sub_le) auto
  have "unat (min (ucast chunk) (msg - off)) = min (unat chunk) (unat msg - unat off)"
    by (simp add: unat_min d unat_ucast_up)
  then show ?thesis using False unat_lt_u32[of chunk]
    by (simp add: CbNextChunkPayloadBytes_def unsigned_ucast_eq take_bit_nat_eq_self)
qed

text \<open>What the sender of the data reads off a grant: exactly the payload it was issued
  for, while the padding field holds the overhead of the further packets.\<close>
lemma credit_payload_grant:
  assumes m: "16 \<le> unat mtu" and d: "0 < unat ask" "unat ask < 2 ^ 31"
    and n: "unat ask \<le> 963 * unat mtu"
  shows "unat (credit_payload (ucast (ucast (CbAddHeaderOverhead ask mtu True) :: u32))
    (grant_pad ask (CbAddHeaderOverhead ask mtu True))) = unat ask"
proof -
  let ?d = "unat ask" and ?m = "unat mtu" and ?W = "CbAddHeaderOverhead ask mtu True"
  define w where "w = payload_wire ?m ?d"
  have W: "unat ?W = w" unfolding w_def using m d by (intro unat_CbAddHeaderOverhead) simp_all
  have q: "?d div ?m \<le> 963" using div_le_mono[OF n, of ?m] m by simp
  have eq: "w = ?d + 68 * (?d div ?m) + (chunk_wire (?d mod ?m) - ?d mod ?m)"
  proof -
    have "Q * (?m + 68) + chunk_wire R = ?d + 68 * Q + (chunk_wire R - R)" if "Q * ?m + R = ?d" for Q R
      using that by (auto simp: algebra_simps chunk_wire_def)
    then show ?thesis unfolding w_def payload_wire_def by (metis div_mult_mod_eq)
  qed
  have c: "chunk_wire (?d mod ?m) - ?d mod ?m \<le> 83" by (auto simp: chunk_wire_def)
  have lo: "?d + 68 \<le> w"
  proof (cases "?d mod ?m = 0")
    case True
    then have "0 < ?d div ?m" using d(1) by (metis add.right_neutral div_mult_mod_eq mult_is_0 neq0_conv)
    then show ?thesis using eq by simp
  next
    case False
    then have "68 \<le> chunk_wire (?d mod ?m) - ?d mod ?m" by (simp add: chunk_wire_def)
    then show ?thesis using eq by simp
  qed
  have hi: "w - (?d + 68) < 65536" "w < 2 ^ 32"
    using eq q c d(2) by simp_all
  have mw: "unat (ask + 48 + 20) = ?d + 68" using d by (simp add: unat_word_ariths)
  have pad: "unat (grant_pad ask ?W) = w - (?d + 68)"
  proof (cases "ask + 48 + 20 < ?W")
    case True
    then have "unat (?W - (ask + 48 + 20)) = w - (?d + 68)"
      by (subst unat_sub_le) (simp_all only: W mw less_imp_le)
    then show ?thesis using True hi
      by (simp add: grant_pad_def cb_consts unsigned_ucast_eq take_bit_nat_eq_self)
  next
    case False
    then show ?thesis using lo unfolding word_less_nat_alt W mw
      by (simp add: grant_pad_def cb_consts word_less_nat_alt W mw[simplified])
  qed
  have cr: "unat (ucast (ucast ?W :: u32) :: u64) = w"
  proof -
    have "unat (ucast ?W :: u32) = w"
      using hi(2) W by (simp add: unsigned_ucast_eq take_bit_nat_eq_self)
    then show ?thesis by (subst unat_ucast_up) simp_all
  qed
  have mn: "unat (ucast (48 + 20 + ucast p :: u32) :: u64) = 68 + unat p" for p :: u16
    using unat_lt_2p[of p] by (simp add: unat_ucast_up unat_word_ariths)
  show ?thesis
    unfolding credit_payload_def cb_consts Let_def unat_sat_sub' cr mn pad using lo by simp
qed

end
