(* ===== verification/IrnSack.thy ===== *)
theory IrnSack
  imports Prelude
begin

text \<open>
  The selective-acknowledgement table of the RDMA transport,
  \<^verbatim>\<open>class IrnSackManager\<close> of
  \<^verbatim>\<open>src/point-to-point/model/rdma-queue-pair.{h,cc}\<close>: a list of blocks
  (first byte, length) of 32-bit sequence numbers.  The list is the std::list
  m\_data, in its order; inserting before the iterator is consing in front of
  the rest of the traversal.  None is a failed NS_ASSERT.

  The abstraction of a table is the set of bytes it holds.  A table is canonical
  when its blocks are non-empty, do not wrap, and are separated by gaps in
  ascending order; sack and discardUpTo keep it canonical and add or remove
  exactly the bytes they are asked to.
\<close>

type_synonym block = "u32 \<times> u32"

section \<open>Operations\<close>

text \<open>The first loop of \<^verbatim>\<open>sack\<close> with the insertion that follows it: whether it
  returned early, and the list it leaves.\<close>
fun sack_loop :: "u32 \<Rightarrow> u32 \<Rightarrow> u32 \<Rightarrow> block list \<Rightarrow> (bool \<times> block list) option" where
  "sack_loop sn sz snEnd [] = Some (False, if sz \<noteq> 0 then [(sn, sz)] else [])"
| "sack_loop sn sz snEnd ((blockBegin, blockLen) # bs) =
    (let blockEnd = blockBegin + blockLen in
     if blockBegin \<le> sn \<and> snEnd \<le> blockEnd then Some (True, (blockBegin, blockLen) # bs)
     else if sn < blockBegin \<and> blockEnd < snEnd
     then map_option (\<lambda>(ret, l). (ret, (sn, blockBegin - sn) # (blockBegin, blockLen) # l))
            (sack_loop blockEnd (snEnd - blockEnd) (blockEnd + (snEnd - blockEnd)) bs)
     else if sn < blockBegin \<and> snEnd \<le> blockBegin
     then Some (False, (sn, sz) # (blockBegin, blockLen) # bs)
     else if blockBegin \<le> sn \<and> sn \<le> blockEnd \<and> blockEnd < snEnd
     then map_option (\<lambda>(ret, l). (ret, (blockBegin, blockLen) # l))
            (sack_loop blockEnd (snEnd - blockEnd) snEnd bs)
     else if sn < blockBegin \<and> blockBegin \<le> snEnd \<and> snEnd \<le> blockEnd
     then Some (False, (sn, blockBegin - sn) # (blockBegin, blockLen) # bs)
     else if blockEnd \<le> sn
     then map_option (\<lambda>(ret, l). (ret, (blockBegin, blockLen) # l)) (sack_loop sn sz snEnd bs)
     else None)"

text \<open>The second loop: merge neighbouring blocks, with the previous block in hand.\<close>
fun sack_merge :: "block \<Rightarrow> block list \<Rightarrow> block list option" where
  "sack_merge p [] = Some [p]"
| "sack_merge (pb, pl) ((b, l) # bs) =
    (if \<not> (pb + pl \<le> b \<and> l > 0) then None
     else if pb + pl = b then sack_merge (pb, pl + l) bs
     else map_option ((#) (pb, pl)) (sack_merge (b, l) bs))"

definition sack :: "u32 \<Rightarrow> u32 \<Rightarrow> block list \<Rightarrow> block list option" where
  "sack sn sz m_data =
    (if sz = 0 then Some m_data
     else case sack_loop sn sz (sn + sz) m_data of
         None \<Rightarrow> None
       | Some (True, l) \<Rightarrow> Some l
       | Some (False, []) \<Rightarrow> None
       | Some (False, p # l) \<Rightarrow> sack_merge p l)"

text \<open>The number of bytes removed and the table left.\<close>
fun discardUpTo :: "u32 \<Rightarrow> block list \<Rightarrow> (u64 \<times> block list) option" where
  "discardUpTo cumAck [] = Some (0, [])"
| "discardUpTo cumAck ((b, l) # bs) =
    (if b + l \<le> cumAck then map_option (\<lambda>(n, r). (ucast l + n, r)) (discardUpTo cumAck bs)
     else if b < cumAck
     then (if b + l - cumAck = 0 then None
           else Some (ucast (cumAck - b), (cumAck, b + l - cumAck) # bs))
     else Some (0, (b, l) # bs))"

definition IsEmpty :: "block list \<Rightarrow> bool" where
  "IsEmpty m_data = (m_data = [])"

definition blockExists :: "u32 \<Rightarrow> u32 \<Rightarrow> block list \<Rightarrow> bool" where
  "blockExists sn sz m_data = (\<exists>(b, l) \<in> set m_data. b \<le> sn \<and> sn + sz \<le> b + l)"

text \<open>The front block, or no block (the code also clears its outputs then).\<close>
fun peekFrontBlock :: "block list \<Rightarrow> block option" where
  "peekFrontBlock [] = None"
| "peekFrontBlock (b # bs) = Some b"

section \<open>Canonical tables and the bytes they hold\<close>

definition bfirst :: "block \<Rightarrow> nat" where "bfirst b = unat (fst b)"
definition bstop :: "block \<Rightarrow> nat" where "bstop b = unat (fst b) + unat (snd b)"

definition block_ok :: "block \<Rightarrow> bool" where
  "block_ok b = (snd b \<noteq> 0 \<and> bstop b < 2 ^ 32)"

definition sack_bytes :: "block list \<Rightarrow> nat set" where
  "sack_bytes bs = (\<Union>b\<in>set bs. {bfirst b..<bstop b})"

definition ordered :: "block list \<Rightarrow> bool" where
  "ordered bs = (sorted_wrt (\<lambda>a b. bstop a \<le> bfirst b) bs \<and> (\<forall>b\<in>set bs. block_ok b))"

definition canonical :: "block list \<Rightarrow> bool" where
  "canonical bs = (sorted_wrt (\<lambda>a b. bstop a < bfirst b) bs \<and> (\<forall>b\<in>set bs. block_ok b))"

lemma sack_bytes_simps [simp]:
  "sack_bytes [] = {}" "sack_bytes (b # bs) = {bfirst b..<bstop b} \<union> sack_bytes bs"
  by (auto simp: sack_bytes_def)

lemma canonical_simps [simp]:
  "canonical []"
  "canonical (b # bs) \<longleftrightarrow> block_ok b \<and> (\<forall>c\<in>set bs. bstop b < bfirst c) \<and> canonical bs"
  by (auto simp: canonical_def)

lemma ordered_simps [simp]:
  "ordered []"
  "ordered (b # bs) \<longleftrightarrow> block_ok b \<and> (\<forall>c\<in>set bs. bstop b \<le> bfirst c) \<and> ordered bs"
  by (auto simp: ordered_def)

lemma canonical_ordered: "canonical bs \<Longrightarrow> ordered bs"
  by (induction bs) (auto intro: less_imp_le)

lemma block_okD:
  assumes "block_ok (b, l)"
  shows "unat (b + l) = bstop (b, l)" "bfirst (b, l) < bstop (b, l)" "l \<noteq> 0"
proof -
  have "unat b + unat l < 2 ^ LENGTH(32)" using assms by (simp add: block_ok_def bstop_def)
  then show "unat (b + l) = bstop (b, l)" by (simp add: unat_add_lt bstop_def)
  show "l \<noteq> 0" using assms by (simp add: block_ok_def)
  then show "bfirst (b, l) < bstop (b, l)"
    by (simp add: bfirst_def bstop_def unat_gt_0)
qed

lemma bytes_bounds:
  assumes "x \<in> sack_bytes bs"
  obtains b where "b \<in> set bs" "bfirst b \<le> x" "x < bstop b"
  using assms by (auto simp: sack_bytes_def)

section \<open>sack adds exactly the bytes it is given\<close>

lemma sack_merge_canonical:
  "ordered (p # bs) \<Longrightarrow> \<exists>l. sack_merge p bs = Some l \<and> canonical l \<and> sack_bytes l = sack_bytes (p # bs)
     \<and> (\<forall>c\<in>set l. bfirst p \<le> bfirst c)"
proof (induction p bs rule: sack_merge.induct)
  case (1 p)
  then show ?case by simp
next
  case (2 pb pl b l bs)
  from 2(3) have p: "block_ok (pb, pl)" and c: "block_ok (b, l)"
    and le: "bstop (pb, pl) \<le> bfirst (b, l)" and o: "ordered ((b, l) # bs)" by auto
  note P = block_okD[OF p] and C = block_okD[OF c]
  have guard: "pb + pl \<le> b \<and> l > 0"
    using le P(1) C(3) by (auto simp: unat_order bfirst_def unat_gt_0)
  show ?case
  proof (cases "pb + pl = b")
    case True
    then have b: "unat b = bstop (pb, pl)" using P(1) by simp
    have "unat pl + unat l < 2 ^ LENGTH(32)"
      using c b by (auto simp: block_ok_def bstop_def)
    then have pl: "unat (pl + l) = unat pl + unat l" by (rule unat_add_lt)
    have st: "bstop (pb, pl + l) = bstop (b, l)" "bfirst (pb, pl + l) = bfirst (pb, pl)"
      using pl b by (auto simp: bstop_def bfirst_def)
    have "pl + l \<noteq> 0" using pl C(3) by (metis add_is_0 unat_eq_zero unat_0)
    then have "ordered ((pb, pl + l) # bs)" using c o st by (auto simp: block_ok_def)
    from 2(1)[OF _ True this] guard obtain r where r: "sack_merge (pb, pl + l) bs = Some r" "canonical r"
      "sack_bytes r = sack_bytes ((pb, pl + l) # bs)" "\<forall>c\<in>set r. bfirst (pb, pl) \<le> bfirst c"
      using st by auto
    have "sack_bytes ((pb, pl + l) # bs) = sack_bytes ((pb, pl) # (b, l) # bs)"
      using st b P(2) C(2) by (auto simp: bfirst_def)
    then show ?thesis using r True guard by simp
  next
    case False
    then have lt: "bstop (pb, pl) < bfirst (b, l)"
      using le P(1) by (metis bfirst_def fst_conv le_neq_implies_less word_unat_eq_iff)
    from 2(2)[OF _ False o] guard obtain r where r: "sack_merge (b, l) bs = Some r" "canonical r"
      "sack_bytes r = sack_bytes ((b, l) # bs)" "\<forall>c\<in>set r. bfirst (b, l) \<le> bfirst c" by auto
    have "\<forall>c\<in>set r. bstop (pb, pl) < bfirst c" using r(4) lt by auto
    moreover have "\<forall>c\<in>set r. bfirst (pb, pl) \<le> bfirst c"
      using r(4) lt P(2) by (meson le_trans less_imp_le_nat less_le_trans)
    ultimately show ?thesis using r p guard False by auto
  qed
qed

lemma sack_loop_spec:
  "canonical bs \<Longrightarrow> sz \<noteq> 0 \<Longrightarrow> unat sn + unat sz < 2 ^ 32 \<Longrightarrow>
   \<exists>r l. sack_loop sn sz (sn + sz) bs = Some (r, l) \<and> ordered l \<and> l \<noteq> []
     \<and> sack_bytes l = sack_bytes bs \<union> {unat sn..<unat sn + unat sz}
     \<and> (r \<longrightarrow> l = bs) \<and> ((\<forall>b\<in>set bs. unat sn < bfirst b) \<longrightarrow> \<not> r)
     \<and> (\<forall>c\<in>set l. c \<in> set bs \<or> unat sn \<le> bfirst c)"
proof (induction bs arbitrary: sn sz)
  case Nil
  then have "block_ok (sn, sz)" by (simp add: block_ok_def bstop_def)
  then show ?case using Nil by (auto simp: bfirst_def bstop_def)
next
  case (Cons b bs)
  obtain bb bl where b: "b = (bb, bl)" by (cases b)
  let ?e = "unat sn + unat sz" and ?B = "bfirst b" and ?E = "bstop b"
  have ok: "block_ok (bb, bl)" and sep: "\<forall>c\<in>set bs. ?E < bfirst c" and can: "canonical bs"
    using Cons.prems(1) b by auto
  note K = block_okD[OF ok, folded b]
  have e: "unat (sn + sz) = ?e" using Cons.prems(3) by (simp add: unat_add_lt)
  have E32: "?E < 2 ^ 32" using ok b by (simp add: block_ok_def)
  have sz: "unat sz > 0" using Cons.prems(2) by (simp add: unat_gt_0)
  have B: "unat bb = ?B" by (simp add: b bfirst_def)
  have tests: "bb \<le> sn \<longleftrightarrow> ?B \<le> unat sn" "sn + sz \<le> bb + bl \<longleftrightarrow> ?e \<le> ?E"
    "sn < bb \<longleftrightarrow> unat sn < ?B" "bb + bl < sn + sz \<longleftrightarrow> ?E < ?e" "sn + sz \<le> bb \<longleftrightarrow> ?e \<le> ?B"
    "sn \<le> bb + bl \<longleftrightarrow> unat sn \<le> ?E" "bb \<le> sn + sz \<longleftrightarrow> ?B \<le> ?e" "bb + bl \<le> sn \<longleftrightarrow> ?E \<le> unat sn"
    by (simp_all add: unat_order e K(1) B)
  have ordb: "ordered bs" using can by (rule canonical_ordered)
  have ordBs: "ordered (b # bs)" using ok b sep ordb by (auto intro: less_imp_le)
  consider (inside) "?B \<le> unat sn" "?e \<le> ?E" | (over) "unat sn < ?B" "?E < ?e"
    | (below) "unat sn < ?B" "?e \<le> ?B" | (tail) "?B \<le> unat sn" "unat sn \<le> ?E" "?E < ?e"
    | (head) "unat sn < ?B" "?B < ?e" "?e \<le> ?E" | (above) "?E < unat sn"
    by linarith
  then show ?case
  proof cases
    case inside
    then show ?thesis using ordBs by (auto simp: b tests bfirst_def bstop_def)
  next
    case below
    have nb: "block_ok (sn, sz)" using Cons.prems by (simp add: block_ok_def bstop_def)
    have S: "bstop (sn, sz) = ?e" "bfirst (sn, sz) = unat sn" by (simp_all add: bstop_def bfirst_def)
    have o: "ordered ((sn, sz) # b # bs)"
      using nb ordBs below sep K(2) S by (auto simp: S intro: less_imp_le)
    have "sack_loop sn sz (sn + sz) (b # bs) = Some (False, (sn, sz) # b # bs)"
      using below K(2) by (simp add: b tests)
    then show ?thesis using o S by auto
  next
    case head
    let ?n = "(sn, bb - sn)"
    have d: "unat (bb - sn) = ?B - unat sn" using head(1) B by (simp add: unat_sub_le unat_order)
    have S: "bstop ?n = ?B" "bfirst ?n = unat sn"
      using d head(1) by (simp_all add: bstop_def bfirst_def)
    have nb: "block_ok ?n" using head(1) S d K(2) E32 by (auto simp: block_ok_def simp flip: unat_gt_0)
    have o: "ordered (?n # b # bs)" using nb ordBs S sep K(2) by (auto intro: less_imp_le)
    have "sack_loop sn sz (sn + sz) (b # bs) = Some (False, ?n # b # bs)"
      using head by (simp add: b tests)
    moreover have "{bfirst ?n..<bstop ?n} \<union> {?B..<?E} = {?B..<?E} \<union> {unat sn..<?e}"
      using head S by auto
    ultimately show ?thesis using o S by auto
  next
    case above
    have "\<not> (?B \<le> unat sn \<and> unat sn \<le> ?E \<and> ?E < ?e)" "\<not> unat sn < ?B" "\<not> ?e \<le> ?E"
      using above K(2) by auto
    then have step: "sack_loop sn sz (sn + sz) (b # bs) =
        map_option (\<lambda>(ret, l). (ret, b # l)) (sack_loop sn sz (sn + sz) bs)"
      using above by (simp add: b tests)
    from Cons.IH[OF can Cons.prems(2,3)] obtain r l where
      l: "sack_loop sn sz (sn + sz) bs = Some (r, l)" "ordered l"
      "sack_bytes l = sack_bytes bs \<union> {unat sn..<?e}" "r \<longrightarrow> l = bs"
      "\<forall>c\<in>set l. c \<in> set bs \<or> unat sn \<le> bfirst c" by blast
    have "\<forall>c\<in>set l. ?E \<le> bfirst c" using l(5) sep above by (meson less_imp_le less_le_trans)
    then have "ordered (b # l)" using l(2) ok b by simp
    then show ?thesis using step l above K(2) by auto
  next
    case over
    let ?n = "(sn, bb - sn)" and ?r = "sn + sz - (bb + bl)"
    have d: "unat (bb - sn) = ?B - unat sn" using over(1) B by (simp add: unat_sub_le unat_order)
    have S: "bstop ?n = ?B" "bfirst ?n = unat sn"
      using d over(1) by (simp_all add: bstop_def bfirst_def)
    have r: "unat ?r = ?e - ?E" using over(2) tests(4) e K(1) by (simp add: unat_sub_le unat_order)
    have rest: "?r \<noteq> 0" "unat (bb + bl) + unat ?r < 2 ^ 32"
      using r over Cons.prems(3) K(1) by (auto simp flip: unat_gt_0)
    have step: "sack_loop sn sz (sn + sz) (b # bs) =
        map_option (\<lambda>(ret, l). (ret, ?n # b # l)) (sack_loop (bb + bl) ?r (bb + bl + ?r) bs)"
      using over by (simp add: b tests Let_def)
    from Cons.IH[OF can rest] obtain ret l where
      l: "sack_loop (bb + bl) ?r (bb + bl + ?r) bs = Some (ret, l)" "ordered l"
      "sack_bytes l = sack_bytes bs \<union> {?E..<?e}" "\<not> ret" "\<forall>c\<in>set l. c \<in> set bs \<or> ?E \<le> bfirst c"
      using sep over(2) unfolding K(1) r by auto
    have lb: "\<forall>c\<in>set l. ?E \<le> bfirst c" using l(5) sep by (auto intro: less_imp_le)
    have nb: "block_ok ?n" using over(1) S d K(2) E32 by (auto simp: block_ok_def simp flip: unat_gt_0)
    have o: "ordered (?n # b # l)" using l(2) ok b lb nb S K(2) by auto
    have "{bfirst ?n..<bstop ?n} \<union> ({?B..<?E} \<union> {?E..<?e}) = {?B..<?E} \<union> {unat sn..<?e}"
      using over S K(2) by auto
    then have by': "sack_bytes (?n # b # l) = sack_bytes (b # bs) \<union> {unat sn..<?e}"
      unfolding sack_bytes_simps l(3) by blast
    have lbs: "\<forall>c\<in>set (?n # b # l). c \<in> set (b # bs) \<or> unat sn \<le> bfirst c"
      using lb over S K(2) by (auto intro: order_trans[OF less_imp_le])
    have "sack_loop sn sz (sn + sz) (b # bs) = Some (ret, ?n # b # l)" using step l(1) by simp
    then show ?thesis using o by' lbs l(4) by blast
  next
    case tail
    let ?r = "sn + sz - (bb + bl)"
    have r: "unat ?r = ?e - ?E" using tail(3) tests(4) e K(1) by (simp add: unat_sub_le unat_order)
    have rest: "?r \<noteq> 0" "unat (bb + bl) + unat ?r < 2 ^ 32"
      using r tail Cons.prems(3) K(1) by (auto simp flip: unat_gt_0)
    have step: "sack_loop sn sz (sn + sz) (b # bs) =
        map_option (\<lambda>(ret, l). (ret, b # l)) (sack_loop (bb + bl) ?r (bb + bl + ?r) bs)"
      using tail by (simp add: b tests Let_def)
    from Cons.IH[OF can rest] obtain ret l where
      l: "sack_loop (bb + bl) ?r (bb + bl + ?r) bs = Some (ret, l)" "ordered l"
      "sack_bytes l = sack_bytes bs \<union> {?E..<?e}" "\<not> ret" "\<forall>c\<in>set l. c \<in> set bs \<or> ?E \<le> bfirst c"
      using sep tail(3) unfolding K(1) r by auto
    have lb: "\<forall>c\<in>set l. ?E \<le> bfirst c" using l(5) sep by (auto intro: less_imp_le)
    have o: "ordered (b # l)" using l(2) ok b lb by auto
    have "{?B..<?E} \<union> {?E..<?e} = {?B..<?E} \<union> {unat sn..<?e}" using tail K(2) by auto
    then have by': "sack_bytes (b # l) = sack_bytes (b # bs) \<union> {unat sn..<?e}"
      unfolding sack_bytes_simps l(3) by blast
    have lbs: "\<forall>c\<in>set (b # l). c \<in> set (b # bs) \<or> unat sn \<le> bfirst c" using l(5) tail(2) by auto
    have "sack_loop sn sz (sn + sz) (b # bs) = Some (ret, b # l)" using step l(1) by simp
    then show ?thesis using o by' lbs l(4) by blast
  qed
qed

lemma sack_exact:
  assumes "canonical bs" "unat sn + unat sz < 2 ^ 32"
  obtains l where "sack sn sz bs = Some l" "canonical l"
    "sack_bytes l = sack_bytes bs \<union> {unat sn..<unat sn + unat sz}"
proof (cases "sz = 0")
  case True
  then show thesis using assms that by (auto simp: sack_def)
next
  case False
  from sack_loop_spec[OF assms(1) False assms(2)] obtain r l where
    l: "sack_loop sn sz (sn + sz) bs = Some (r, l)" "ordered l" "l \<noteq> []"
      "sack_bytes l = sack_bytes bs \<union> {unat sn..<unat sn + unat sz}" "r \<longrightarrow> l = bs" by blast
  show thesis
  proof (cases r)
    case True
    then show thesis using l False assms(1) that[of bs] by (auto simp: sack_def)
  next
    case False
    obtain q t where q: "l = q # t" using l(3) by (cases l) auto
    obtain m where "sack_merge q t = Some m" "canonical m" "sack_bytes m = sack_bytes (q # t)"
      using sack_merge_canonical l(2) q by blast
    then show thesis using l(1,4) q False \<open>sz \<noteq> 0\<close> that[of m] by (simp add: sack_def)
  qed
qed

section \<open>discardUpTo removes exactly the acknowledged bytes\<close>

lemma finite_bytes [simp]: "finite (sack_bytes bs)"
  by (simp add: sack_bytes_def)

lemma bytes_above: "(\<And>c. c \<in> set bs \<Longrightarrow> n \<le> bfirst c) \<Longrightarrow> sack_bytes bs \<inter> {0..<n} = {}"
  by (fastforce simp: sack_bytes_def)

lemma bytes_lt: "canonical bs \<Longrightarrow> sack_bytes bs \<subseteq> {0..<2 ^ 32}"
  by (auto simp: sack_bytes_def canonical_def block_ok_def)

lemma card_bytes_le: "canonical bs \<Longrightarrow> card (sack_bytes bs \<inter> A) \<le> 2 ^ 32"
  using card_mono[of "{0..<2 ^ 32}" "sack_bytes bs \<inter> A"] bytes_lt[of bs] by auto

lemma discardUpTo_exact:
  "canonical bs \<Longrightarrow> \<exists>n l. discardUpTo ack bs = Some (n, l) \<and> canonical l
     \<and> sack_bytes l = sack_bytes bs - {0..<unat ack}
     \<and> unat n = card (sack_bytes bs \<inter> {0..<unat ack})
     \<and> (\<forall>c\<in>set l. unat ack \<le> bfirst c) \<and> (\<forall>c\<in>set l. \<exists>d\<in>set bs. bfirst d \<le> bfirst c)"
proof (induction bs)
  case Nil
  then show ?case by simp
next
  case (Cons x bs)
  obtain b l where x: "x = (b, l)" by (cases x)
  let ?a = "unat ack" and ?B = "bfirst x" and ?E = "bstop x"
  have ok: "block_ok (b, l)" and sep: "\<forall>c\<in>set bs. ?E < bfirst c" and can: "canonical bs"
    using Cons.prems x by auto
  note K = block_okD[OF ok, folded x]
  have E32: "?E < 2 ^ 32" using ok x by (simp add: block_ok_def)
  have B: "unat b = ?B" by (simp add: x bfirst_def)
  have len: "unat l = ?E - ?B" by (simp add: x bfirst_def bstop_def)
  have tests: "b + l \<le> ack \<longleftrightarrow> ?E \<le> ?a" "b < ack \<longleftrightarrow> ?B < ?a"
    by (simp_all add: unat_order K(1) B)
  consider (whole) "?E \<le> ?a" | (part) "?B < ?a" "?a < ?E" | (none) "?a \<le> ?B" by linarith
  then show ?case
  proof cases
    case whole
    from Cons.IH[OF can] obtain n r where r: "discardUpTo ack bs = Some (n, r)" "canonical r"
      "sack_bytes r = sack_bytes bs - {0..<?a}" "unat n = card (sack_bytes bs \<inter> {0..<?a})"
      "\<forall>c\<in>set r. ?a \<le> bfirst c" "\<forall>c\<in>set r. \<exists>d\<in>set bs. bfirst d \<le> bfirst c" by blast
    have c: "card (sack_bytes (x # bs) \<inter> {0..<?a}) = unat l + unat n"
    proof -
      have "sack_bytes (x # bs) \<inter> {0..<?a} = {?B..<?E} \<union> (sack_bytes bs \<inter> {0..<?a})" using whole by auto
      moreover have "{?B..<?E} \<inter> (sack_bytes bs \<inter> {0..<?a}) = {}"
        using sep by (fastforce simp: sack_bytes_def)
      ultimately show ?thesis using r(4) len by (simp add: card_Un_disjoint)
    qed
    have "unat l + unat n < 2 ^ LENGTH(64)"
      using r(4) card_bytes_le[OF can, of "{0..<?a}"] unat_lt_u32[of l] by simp
    then have "unat (ucast l + n :: u64) = unat l + unat n"
      by (simp add: unat_add_lt unat_ucast_up)
    moreover have "sack_bytes r = sack_bytes (x # bs) - {0..<?a}" using r(3) whole by auto
    ultimately show ?thesis using r c whole by (auto simp: x tests)
  next
    case part
    have d: "unat (ack - b) = ?a - ?B" "unat (b + l - ack) = ?E - ?a"
      using part B K(1) by (simp_all add: unat_sub_le unat_order)
    let ?n = "(ack, b + l - ack)"
    have S: "bfirst ?n = ?a" "bstop ?n = ?E" using d part by (simp_all add: bfirst_def bstop_def)
    have nz: "b + l - ack \<noteq> 0" using d(2) part(2) by (metis less_not_refl2 unat_0 zero_less_diff)
    have n: "block_ok ?n" using nz S E32 by (simp add: block_ok_def)
    have by': "sack_bytes (?n # bs) = sack_bytes (x # bs) - {0..<?a}"
      using part sep S by (fastforce simp: sack_bytes_def)
    have "sack_bytes (x # bs) \<inter> {0..<?a} = {?B..<?a}"
      using part sep by (fastforce simp: sack_bytes_def)
    then have "unat (ucast (ack - b) :: u64) = card (sack_bytes (x # bs) \<inter> {0..<?a})"
      using d(1) by (simp add: unat_ucast_up)
    moreover have "discardUpTo ack (x # bs) = Some (ucast (ack - b), ?n # bs)"
      using part nz by (simp add: x tests)
    moreover have "canonical (?n # bs)" using n can sep S by simp
    moreover have "\<forall>c\<in>set (?n # bs). ?a \<le> bfirst c \<and> (\<exists>d\<in>set (x # bs). bfirst d \<le> bfirst c)"
      using part sep S by (auto intro: order_trans[OF less_imp_le])
    ultimately show ?thesis using by' by blast
  next
    case none
    have low: "\<forall>c\<in>set (x # bs). ?a \<le> bfirst c" using none sep K(2) by auto
    then have "sack_bytes (x # bs) \<inter> {0..<?a} = {}" by (intro bytes_above) auto
    moreover have "discardUpTo ack (x # bs) = Some (0, x # bs)" using none K(2) by (simp add: x tests)
    ultimately show ?thesis using Cons.prems low by auto
  qed
qed

section \<open>Queries\<close>

lemma blockExists_iff:
  assumes "canonical bs" "sz \<noteq> 0" "unat sn + unat sz < 2 ^ 32"
  shows "blockExists sn sz bs \<longleftrightarrow> {unat sn..<unat sn + unat sz} \<subseteq> sack_bytes bs"
  using assms(1)
proof (induction bs)
  case Nil
  then show ?case using assms(2) by (simp add: blockExists_def unat_eq_zero)
next
  case (Cons x bs)
  obtain b l where x: "x = (b, l)" by (cases x)
  have ok: "block_ok (b, l)" and sep: "\<forall>c\<in>set bs. bstop x < bfirst c" using Cons.prems x by auto
  note K = block_okD[OF ok, folded x]
  have e: "unat (sn + sz) = unat sn + unat sz" using assms(3) by (simp add: unat_add_lt)
  have sz: "unat sz > 0" using assms(2) by (simp add: unat_gt_0)
  have here: "b \<le> sn \<and> sn + sz \<le> b + l \<longleftrightarrow> {unat sn..<unat sn + unat sz} \<subseteq> {bfirst x..<bstop x}"
    using sz by (auto simp: unat_order e K(1) bfirst_def x)
  have away: "\<forall>y\<in>sack_bytes bs. bstop x < y" using sep by (fastforce simp: sack_bytes_def)
  have "{unat sn..<unat sn + unat sz} \<subseteq> sack_bytes (x # bs) \<longleftrightarrow>
      {unat sn..<unat sn + unat sz} \<subseteq> {bfirst x..<bstop x} \<or> {unat sn..<unat sn + unat sz} \<subseteq> sack_bytes bs"
    (is "?S \<subseteq> _ \<longleftrightarrow> _")
  proof
    assume sub: "?S \<subseteq> sack_bytes (x # bs)"
    show "?S \<subseteq> {bfirst x..<bstop x} \<or> ?S \<subseteq> sack_bytes bs"
    proof (cases "bstop x \<in> ?S")
      case True
      then show ?thesis using sub away by auto
    next
      case False
      then have "unat sn + unat sz \<le> bstop x \<or> bstop x < unat sn" using sz by auto
      then show ?thesis using sub away by (fastforce simp: subset_iff)
    qed
  qed auto
  moreover have "blockExists sn sz (x # bs) \<longleftrightarrow> (b \<le> sn \<and> sn + sz \<le> b + l) \<or> blockExists sn sz bs"
    by (auto simp: blockExists_def x)
  ultimately show ?case using Cons here by auto
qed

lemma IsEmpty_iff: "canonical bs \<Longrightarrow> IsEmpty bs \<longleftrightarrow> sack_bytes bs = {}"
  using block_okD(2) by (cases bs) (auto simp: IsEmpty_def)

lemma peekFront_least:
  "canonical bs \<Longrightarrow> peekFrontBlock bs = Some b \<Longrightarrow>
   block_ok b \<and> {bfirst b..<bstop b} \<subseteq> sack_bytes bs \<and> bstop b \<notin> sack_bytes bs \<and> (\<forall>y\<in>sack_bytes bs. bfirst b \<le> y)"
  by (cases bs) (fastforce simp: sack_bytes_def dest: block_okD(2))+

section \<open>A canonical table is determined by its bytes\<close>

lemma canonical_tail: "canonical (x # xs) \<Longrightarrow> sack_bytes xs = sack_bytes (x # xs) - {0..<bstop x}"
proof -
  assume c: "canonical (x # xs)"
  have "sack_bytes xs \<inter> {0..<bstop x} = {}" using c by (intro bytes_above) (auto intro: less_imp_le)
  then show ?thesis by auto
qed

lemma front_unique:
  fixes a b c d :: nat
  assumes "{a..<b} \<subseteq> S" "b \<notin> S" "\<forall>y\<in>S. a \<le> y" "a < b" "{c..<d} \<subseteq> S" "d \<notin> S" "\<forall>y\<in>S. c \<le> y" "c < d"
  shows "a = c" "b = d"
proof -
  have "a \<in> S" "c \<in> S" using assms(4,8) by (simp_all add: subsetD[OF assms(1)] subsetD[OF assms(5)])
  then show "a = c" using assms(3,7) by (intro antisym) blast+
  have "\<not> b < d" "\<not> d < b" using assms(2,4,6,8) subsetD[OF assms(1), of d] subsetD[OF assms(5), of b] \<open>a = c\<close> by auto
  then show "b = d" by simp
qed

lemma canonical_unique: "canonical a \<Longrightarrow> canonical b \<Longrightarrow> sack_bytes a = sack_bytes b \<Longrightarrow> a = b"
proof (induction a arbitrary: b)
  case Nil
  then show ?case using IsEmpty_iff[of b] by (simp add: IsEmpty_def)
next
  case (Cons x xs)
  have "sack_bytes b \<noteq> {}" using IsEmpty_iff[OF Cons.prems(1)] unfolding IsEmpty_def Cons.prems(3) by blast
  then have "b \<noteq> []" using sack_bytes_simps(1) by blast
  then obtain y ys where b: "b = y # ys" by (cases b) auto
  note X = peekFront_least[OF Cons.prems(1) peekFrontBlock.simps(2)] and Y = peekFront_least[OF Cons.prems(2)[unfolded b] peekFrontBlock.simps(2)]
  have e: "sack_bytes (y # ys) = sack_bytes (x # xs)" using Cons.prems(3) b by simp
  have lt: "bfirst x < bstop x" "bfirst y < bstop y" using X Y block_okD(2) by (cases x; cases y; blast)+
  have "bfirst x = bfirst y" "bstop x = bstop y"
    using front_unique[of "bfirst x" "bstop x" "sack_bytes (x # xs)" "bfirst y" "bstop y"] X Y lt unfolding e by blast+
  then have "x = y" by (simp add: prod_eq_iff bfirst_def bstop_def word_unat_eq_iff)
  moreover from this have "sack_bytes xs = sack_bytes ys"
    using canonical_tail[OF Cons.prems(1)] canonical_tail[OF Cons.prems(2)[unfolded b]] e \<open>x = y\<close> by simp
  ultimately show ?case using Cons.IH[of ys] Cons.prems(1,2) b by simp
qed

end
