(* ===== verification/RdmaState.thy ===== *)
theory RdmaState
  imports SwitchNode RdmaCredit IrnSack
begin

text \<open>
  The host side of the DPDQ transport of dpdq-ns3, \<^verbatim>\<open>class RdmaHw\<close> of
  \<^verbatim>\<open>src/point-to-point/model/rdma-hw.{h,cc}\<close> with the queue pairs of
  \<^verbatim>\<open>rdma-queue-pair.{h,cc}\<close>: its state, the tables of queue pairs and of
  per-peer credit state, the choice of a NIC, and the packets it builds.

  Queue pairs are reference-counted objects that several tables share: they live
  in a store indexed by references (natural numbers, allocated in order), and the
  tables hold references.  The unordered maps are partial functions; code that
  iterates over one visits the keys in an order that is an argument (h\_order).
  What the host hands to its NIC, to the event scheduler, to the application and
  to the queue pair of another host is the list of outputs in its state.  None is
  a failed NS_ASSERT or an access the language leaves undefined.  Debug lines on
  the error stream, and the counter that limits them, are left out.
\<close>

section \<open>Queue pairs\<close>

text \<open>The sender side: addresses, progress and the credit fields (member cb).\<close>
record RdmaQueuePair =
  q_sip :: u32
  q_dip :: u32
  q_sport :: u16
  q_dport :: u16
  m_size :: u64
  snd_nxt :: u64
  snd_una :: u64
  m_pg :: u16
  q_ipid :: u16
  q_win :: u32
  q_baseRtt :: u64
  q_var_win :: bool
  q_flow_id :: int
  q_timeout :: int
  q_nextAvail :: int
  q_rate :: u64
  q_max_rate :: u64
  q_irn_enabled :: bool
  q_irn_sack :: "block list"
  q_irn_bdp :: u32
  q_irn_highest_ack :: u32
  q_irn_max_seq :: u32
  q_irn_rtoLow :: int
  q_irn_rtoHigh :: int
  q_irn_recovery :: bool
  q_irn_recovery_seq :: u32
  q_lastPktSize :: u32
  q_retransmit :: bool
  q_enabled :: bool
  q_classificationReady :: bool
  q_hasScheduledPart :: bool
  q_schedRequestAnnounced :: bool
  q_pendingScheduledBytes :: u64
  q_unsolicitedBytesBudget :: u64
  q_unsolicitedBytesSent :: u64
  q_standaloneGrantReqSent :: bool
  q_usnsolCheckDone :: bool
  q_isScheduled :: bool
  q_sentAnnouncement :: bool
  q_selfAllocCreditBytes :: u64
  q_selfAllocCreditDataBytes :: u64
  q_remainingSelfAllocCreditDataBytes :: u64
  q_statCreditReqPkts :: u64
  q_statCreditGrantPkts :: u64
  q_statScheduledDataPkts :: u64
  q_statUnsolicitedDataPkts :: u64
  q_statUnscheduledDataPkts :: u64
  q_statCsnMarkedPkts :: u64
  q_priorityFlowPending :: bool
  q_txTotalPkts :: u64
  q_txTotalBytes :: u64

text \<open>The receiver side: addresses, ECN account, sequence state, and the credit fields.\<close>
record RdmaRxQueuePair =
  rx_sip :: u32
  rx_dip :: u32
  rx_sport :: u16
  rx_dport :: u16
  rx_qIndex :: u16
  rx_ecnbits :: u8
  rx_qfb :: u16
  rx_total :: u16
  rx_ipid :: u16
  ReceiverNextExpectedSeq :: u32
  m_nackTimer :: int
  m_milestone_rx :: u32
  m_lastNACK :: u32
  m_irn_sack :: "block list"
  rx_flow_id :: int
  rx_enabled :: bool
  m_pendingDemandBytes :: u64
  m_announcementAccounted :: bool
  m_announcementExpectedBytes :: u64
  m_receivedDataBytes :: u64
  m_completionNotified :: bool
  m_expectedChunks :: u32
  m_receivedChunks :: u32
  m_grantedChunkLimit :: u32
  m_receivedChunkBitmap :: "bool list"
  m_resendEvent :: bool

definition RdmaQueuePair_ctor :: "u16 \<Rightarrow> u32 \<Rightarrow> u32 \<Rightarrow> u16 \<Rightarrow> u16 \<Rightarrow> RdmaQueuePair" where
  "RdmaQueuePair_ctor cls src dst srcPort dstPort =
    \<lparr>q_sip = src, q_dip = dst, q_sport = srcPort, q_dport = dstPort, m_size = 0, snd_nxt = 0,
     snd_una = 0, m_pg = cls, q_ipid = 0, q_win = 0, q_baseRtt = 0, q_var_win = False, q_flow_id = 0,
     q_timeout = 4000000, q_nextAvail = 0, q_rate = 0, q_max_rate = 0, q_irn_enabled = False,
     q_irn_sack = [], q_irn_bdp = 0, q_irn_highest_ack = 0, q_irn_max_seq = 0, q_irn_rtoLow = 0,
     q_irn_rtoHigh = 0, q_irn_recovery = False, q_irn_recovery_seq = 0, q_lastPktSize = 0,
     q_retransmit = False, q_enabled = False, q_classificationReady = False,
     q_hasScheduledPart = False, q_schedRequestAnnounced = False, q_pendingScheduledBytes = 0,
     q_unsolicitedBytesBudget = 0, q_unsolicitedBytesSent = 0, q_standaloneGrantReqSent = False,
     q_usnsolCheckDone = False, q_isScheduled = True, q_sentAnnouncement = False,
     q_selfAllocCreditBytes = 0, q_selfAllocCreditDataBytes = 0,
     q_remainingSelfAllocCreditDataBytes = 0, q_statCreditReqPkts = 0, q_statCreditGrantPkts = 0,
     q_statScheduledDataPkts = 0, q_statUnsolicitedDataPkts = 0, q_statUnscheduledDataPkts = 0,
     q_statCsnMarkedPkts = 0, q_priorityFlowPending = False, q_txTotalPkts = 0, q_txTotalBytes = 0\<rparr>"

definition RdmaRxQueuePair_ctor :: RdmaRxQueuePair where
  "RdmaRxQueuePair_ctor =
    \<lparr>rx_sip = 0, rx_dip = 0, rx_sport = 0, rx_dport = 0, rx_qIndex = 0, rx_ecnbits = 0, rx_qfb = 0,
     rx_total = 0, rx_ipid = 0, ReceiverNextExpectedSeq = 0, m_nackTimer = 0, m_milestone_rx = 0,
     m_lastNACK = 0, m_irn_sack = [], rx_flow_id = 0, rx_enabled = False, m_pendingDemandBytes = 0,
     m_announcementAccounted = False, m_announcementExpectedBytes = 0, m_receivedDataBytes = 0,
     m_completionNotified = False, m_expectedChunks = 0, m_receivedChunks = 0,
     m_grantedChunkLimit = 0, m_receivedChunkBitmap = [], m_resendEvent = False\<rparr>"

text \<open>Bytes left to send; with IRN a block acknowledged at the front is skipped first.
  GetBytesLeft and IsFinished both begin with skip\_sacked.\<close>
definition skip_sacked :: "RdmaQueuePair \<Rightarrow> RdmaQueuePair option" where
  "skip_sacked q =
    (if q_irn_enabled q
     then case peekFrontBlock (q_irn_sack q) of None \<Rightarrow> Some q
        | Some (sack_seq, sack_sz) \<Rightarrow>
            if snd_nxt q = ucast sack_seq
            then let nxt = snd_nxt q + ucast sack_sz in
                 map_option (\<lambda>(_, l). q\<lparr>snd_nxt := nxt, q_irn_sack := l\<rparr>)
                   (discardUpTo (ucast nxt) (q_irn_sack q))
            else Some q
     else Some q)"

definition GetBytesLeft :: "RdmaQueuePair \<Rightarrow> (u64 \<times> RdmaQueuePair) option" where
  "GetBytesLeft q = map_option (\<lambda>q.
     (if m_size q \<ge> snd_nxt q then m_size q - snd_nxt q else 0, q)) (skip_sacked q)"

definition IsFinished :: "RdmaQueuePair \<Rightarrow> (bool \<times> RdmaQueuePair) option" where
  "IsFinished q = map_option (\<lambda>q. (snd_una q \<ge> m_size q, q)) (skip_sacked q)"

definition IsFinishedConst :: "RdmaQueuePair \<Rightarrow> bool" where
  "IsFinishedConst q \<longleftrightarrow> snd_una q \<ge> m_size q"

definition Acknowledge :: "u64 \<Rightarrow> RdmaQueuePair \<Rightarrow> RdmaQueuePair" where
  "Acknowledge ack q = (if ack > snd_una q then q\<lparr>snd_una := ack\<rparr> else q)"

definition GetOnTheFly :: "RdmaQueuePair \<Rightarrow> u64 option" where
  "GetOnTheFly q = (if snd_nxt q \<ge> snd_una q then Some (snd_nxt q - snd_una q) else None)"

text \<open>The window: m\_win * rate is a 64-bit product; no window is 0.\<close>
definition GetWin :: "RdmaQueuePair \<Rightarrow> u64 option" where
  "GetWin q =
    (if q_win q = 0 then Some 0
     else if q_var_win q
     then (if q_max_rate q = 0 then None
           else let w = ucast (q_win q) * q_rate q div q_max_rate q in Some (if w = 0 then 1 else w))
     else Some (ucast (q_win q)))"

definition IsWinBound :: "RdmaQueuePair \<Rightarrow> bool option" where
  "IsWinBound q =
    (case GetWin q of None \<Rightarrow> None
     | Some w \<Rightarrow> if w = 0 then Some False
                 else map_option (\<lambda>f. f \<ge> w) (GetOnTheFly q))"

section \<open>Credit state per peer\<close>

record ReceiverState =
  rs_enabled :: bool
  m_availCreditBytes :: u64
  m_availCreditDataBytes :: u64
  m_senderBacklogThresholdBytes :: u64
  m_unsolicitedThreshBytes :: u64
  rs_aiStepBytes :: double
  rs_mdFactor :: double
  rs_msgStates :: "nat list"
  m_schedDeficit :: double
  m_schedQuantum :: double

record SenderState =
  ss_enabled :: bool
  m_senderAddr :: u32
  m_pendingDemandDataBytes :: u64
  m_outstandingDataBytes :: u64
  m_OutstandingBytes :: u64
  m_srpbBytes :: u64
  m_maxSrpbBytes :: u64
  m_srpbCeilingBytes :: u64
  m_nwMaxSrpbBytes :: u64
  m_hostMaxSrpbBytes :: u64
  m_globalBucketLimitBytes :: u64
  m_grantGranularityDataBytes :: u64
  m_netBucketLimitSrpbBytes :: u64
  m_senderBucketLimitSrpbBytes :: u64
  m_netBucketMinBytes :: u64
  m_senderBucketMinBytes :: u64
  ss_aiStepBytes :: double
  ss_mdFactor :: double
  m_lastEcnMarked :: bool
  m_nwMarkedRatio :: double
  m_hostMarkedRatio :: double
  m_pktsSinceLastRatioUpdate :: u32
  m_pktsAtNextRatioUpdate :: u32
  m_pktsNwMarkedSinceLastRatioUpdate :: u32
  m_pktsHtMarkedSinceLastRatioUpdate :: u32
  m_pktsNwSinceLastWndUpdate :: u32
  m_pktsNwAtNextWndUpdate :: u32
  m_pktsHtSinceLastWndUpdate :: u32
  m_pktsHtAtNextWndUpdate :: u32
  m_nwEcnBurst :: bool
  m_hostEcnBurst :: bool
  ss_msgStates :: "nat list"

definition ReceiverState_default :: ReceiverState where
  "ReceiverState_default =
    \<lparr>rs_enabled = False, m_availCreditBytes = 0, m_availCreditDataBytes = 0,
     m_senderBacklogThresholdBytes = 0, m_unsolicitedThreshBytes = 0, rs_aiStepBytes = 0,
     rs_mdFactor = 0, rs_msgStates = [], m_schedDeficit = 0, m_schedQuantum = 0\<rparr>"

definition SenderState_default :: SenderState where
  "SenderState_default =
    \<lparr>ss_enabled = False, m_senderAddr = 0, m_pendingDemandDataBytes = 0, m_outstandingDataBytes = 0,
     m_OutstandingBytes = 0, m_srpbBytes = 0, m_maxSrpbBytes = 0, m_srpbCeilingBytes = 0,
     m_nwMaxSrpbBytes = 0, m_hostMaxSrpbBytes = 0, m_globalBucketLimitBytes = 0,
     m_grantGranularityDataBytes = 0, m_netBucketLimitSrpbBytes = 0,
     m_senderBucketLimitSrpbBytes = 0, m_netBucketMinBytes = 0, m_senderBucketMinBytes = 0,
     ss_aiStepBytes = 0, ss_mdFactor = 0, m_lastEcnMarked = False, m_nwMarkedRatio = 0,
     m_hostMarkedRatio = 0, m_pktsSinceLastRatioUpdate = 0, m_pktsAtNextRatioUpdate = 1,
     m_pktsNwMarkedSinceLastRatioUpdate = 0, m_pktsHtMarkedSinceLastRatioUpdate = 0,
     m_pktsNwSinceLastWndUpdate = 0, m_pktsNwAtNextWndUpdate = 1, m_pktsHtSinceLastWndUpdate = 0,
     m_pktsHtAtNextWndUpdate = 1, m_nwEcnBurst = False, m_hostEcnBurst = False, ss_msgStates = []\<rparr>"

section \<open>The host\<close>

datatype CreditBouncerSchedPolicy = CB_SCHED_RR | CB_SCHED_SRPT

text \<open>The attributes a host is configured with.\<close>
record RdmaConfig =
  h_mtu :: u32
  h_ack_interval :: u32
  h_chunk :: u32
  h_backto0 :: bool
  h_irn :: bool
  h_nackIntervalNs :: int
  h_var_win :: bool
  h_waitAckTimeout :: int
  h_symmetricRouting :: bool
  h_creditbouncer :: bool
  h_ccEnable :: bool
  h_csnEnable :: bool
  h_unsolicitedThresh :: u32
  h_maxSrpb :: u32
  h_globalBucket :: u32
  h_senderThreshold :: u32
  h_grantGranularity :: u32
  h_aiStep :: double
  h_mdFactor :: double
  h_ceNewWeight :: double
  h_ecnMinMul_nw :: double
  h_ecnMinMul_host :: double
  h_grantIntervalNs :: u32
  h_resendIntervalNs :: u32
  h_senderSchedPolicy :: CreditBouncerSchedPolicy
  h_grantSchedPolicy :: CreditBouncerSchedPolicy
  h_senderPolicyRatio :: double
  h_intMode :: u32
  h_irn_bdp :: u32
  h_irn_rtoLow :: int
  h_irn_rtoHigh :: int
  h_rateBound :: bool

text \<open>What a call finds outside the host: the clock, the iteration order of the map it
  walks, which classes of the NIC are paused, what a read of freed memory gives, and
  which positions of the NIC's group it has marked finished.\<close>
record HostEnv =
  h_now :: int
  h_order :: "u32 list"
  h_paused :: "nat \<Rightarrow> bool"
  h_stale :: bool
  h_finished :: "nat \<Rightarrow> bool"

text \<open>The pause flags are a table of 8 entries; the class of a queue pair is a 16-bit number that
  nothing checks before it indexes the table, so a class above 7 reads outside it.\<close>
definition paused_at :: "(nat \<Rightarrow> bool) \<Rightarrow> u16 \<Rightarrow> bool option" where
  "paused_at tab c = (if unat c < 8 then Some (tab (unat c)) else None)"

datatype hw_output =
    HwHighPrio nat NsPacket
  | HwTrigger nat
  | HwSchedGrantTick u64
  | HwSchedResend nat u64
  | HwCancelResend nat
  | HwResendTimeout nat u64
  | HwCompleteSender u32 u16 u16 int
  | HwQpComplete nat
  | HwNewQp nat nat

record RdmaHw =
  cfg :: RdmaConfig
  hw_nicRate :: "nat \<Rightarrow> u64"
  hw_rtTable :: "u32 \<Rightarrow> nat list"
  hw_qps :: "nat \<Rightarrow> RdmaQueuePair"
  hw_nextQp :: nat
  m_qpMap :: "u64 \<rightharpoonup> nat"
  hw_qpGrp :: "nat \<Rightarrow> nat list"
  hw_rxqs :: "nat \<Rightarrow> RdmaRxQueuePair"
  hw_nextRxq :: nat
  m_rxQpMap :: "u64 \<rightharpoonup> nat"
  m_receiverStates :: "u32 \<rightharpoonup> ReceiverState"
  m_senderStates :: "u32 \<rightharpoonup> SenderState"
  m_globalOutstanding :: u64
  m_grantTickEvent :: bool
  m_grantRrCursor :: u32
  m_tickCount :: u64
  m_tickGrantCount :: u64
  hw_out :: "hw_output list"

definition hw_emit :: "hw_output \<Rightarrow> RdmaHw \<Rightarrow> RdmaHw" where
  "hw_emit x hw = hw\<lparr>hw_out := hw_out hw @ [x]\<rparr>"

definition set_qp :: "nat \<Rightarrow> RdmaQueuePair \<Rightarrow> RdmaHw \<Rightarrow> RdmaHw" where
  "set_qp r q hw = hw\<lparr>hw_qps := (hw_qps hw)(r := q)\<rparr>"

definition set_rxq :: "nat \<Rightarrow> RdmaRxQueuePair \<Rightarrow> RdmaHw \<Rightarrow> RdmaHw" where
  "set_rxq r q hw = hw\<lparr>hw_rxqs := (hw_rxqs hw)(r := q)\<rparr>"

definition set_sender :: "u32 \<Rightarrow> SenderState \<Rightarrow> RdmaHw \<Rightarrow> RdmaHw" where
  "set_sender a s hw = hw\<lparr>m_senderStates := (m_senderStates hw)(a \<mapsto> s)\<rparr>"

definition set_receiver :: "u32 \<Rightarrow> ReceiverState \<Rightarrow> RdmaHw \<Rightarrow> RdmaHw" where
  "set_receiver a s hw = hw\<lparr>m_receiverStates := (m_receiverStates hw)(a \<mapsto> s)\<rparr>"

text \<open>What the updates leave alone.\<close>
lemma hw_emit_sel [simp]:
  "cfg (hw_emit x hw) = cfg hw"
  "hw_rtTable (hw_emit x hw) = hw_rtTable hw"
  "hw_qps (hw_emit x hw) = hw_qps hw"
  "hw_nextQp (hw_emit x hw) = hw_nextQp hw"
  "m_qpMap (hw_emit x hw) = m_qpMap hw"
  "hw_qpGrp (hw_emit x hw) = hw_qpGrp hw"
  "hw_rxqs (hw_emit x hw) = hw_rxqs hw"
  "hw_nextRxq (hw_emit x hw) = hw_nextRxq hw"
  "m_rxQpMap (hw_emit x hw) = m_rxQpMap hw"
  "m_receiverStates (hw_emit x hw) = m_receiverStates hw"
  "m_senderStates (hw_emit x hw) = m_senderStates hw"
  "m_globalOutstanding (hw_emit x hw) = m_globalOutstanding hw"
  "m_grantTickEvent (hw_emit x hw) = m_grantTickEvent hw"
  "m_grantRrCursor (hw_emit x hw) = m_grantRrCursor hw"
  "m_tickCount (hw_emit x hw) = m_tickCount hw"
  "m_tickGrantCount (hw_emit x hw) = m_tickGrantCount hw"
  "hw_nicRate (hw_emit x hw) = hw_nicRate hw"
  "hw_out (hw_emit x hw) = hw_out hw @ [x]"
  by (simp_all add: hw_emit_def)

lemma set_qp_sel [simp]:
  "cfg (set_qp r q hw) = cfg hw"
  "hw_rtTable (set_qp r q hw) = hw_rtTable hw"
  "hw_qps (set_qp r q hw) = (hw_qps hw)(r := q)"
  "hw_nextQp (set_qp r q hw) = hw_nextQp hw"
  "m_qpMap (set_qp r q hw) = m_qpMap hw"
  "hw_qpGrp (set_qp r q hw) = hw_qpGrp hw"
  "hw_rxqs (set_qp r q hw) = hw_rxqs hw"
  "hw_nextRxq (set_qp r q hw) = hw_nextRxq hw"
  "m_rxQpMap (set_qp r q hw) = m_rxQpMap hw"
  "m_receiverStates (set_qp r q hw) = m_receiverStates hw"
  "m_senderStates (set_qp r q hw) = m_senderStates hw"
  "m_globalOutstanding (set_qp r q hw) = m_globalOutstanding hw"
  "m_grantTickEvent (set_qp r q hw) = m_grantTickEvent hw"
  "m_grantRrCursor (set_qp r q hw) = m_grantRrCursor hw"
  "m_tickCount (set_qp r q hw) = m_tickCount hw"
  "m_tickGrantCount (set_qp r q hw) = m_tickGrantCount hw"
  "hw_nicRate (set_qp r q hw) = hw_nicRate hw"
  "hw_out (set_qp r q hw) = hw_out hw"
  by (simp_all add: set_qp_def)

lemma set_rxq_sel [simp]:
  "cfg (set_rxq r q hw) = cfg hw"
  "hw_rtTable (set_rxq r q hw) = hw_rtTable hw"
  "hw_qps (set_rxq r q hw) = hw_qps hw"
  "hw_nextQp (set_rxq r q hw) = hw_nextQp hw"
  "m_qpMap (set_rxq r q hw) = m_qpMap hw"
  "hw_qpGrp (set_rxq r q hw) = hw_qpGrp hw"
  "hw_rxqs (set_rxq r q hw) = (hw_rxqs hw)(r := q)"
  "hw_nextRxq (set_rxq r q hw) = hw_nextRxq hw"
  "m_rxQpMap (set_rxq r q hw) = m_rxQpMap hw"
  "m_receiverStates (set_rxq r q hw) = m_receiverStates hw"
  "m_senderStates (set_rxq r q hw) = m_senderStates hw"
  "m_globalOutstanding (set_rxq r q hw) = m_globalOutstanding hw"
  "m_grantTickEvent (set_rxq r q hw) = m_grantTickEvent hw"
  "m_grantRrCursor (set_rxq r q hw) = m_grantRrCursor hw"
  "m_tickCount (set_rxq r q hw) = m_tickCount hw"
  "m_tickGrantCount (set_rxq r q hw) = m_tickGrantCount hw"
  "hw_nicRate (set_rxq r q hw) = hw_nicRate hw"
  "hw_out (set_rxq r q hw) = hw_out hw"
  by (simp_all add: set_rxq_def)

lemma set_sender_sel [simp]:
  "cfg (set_sender a s hw) = cfg hw"
  "hw_rtTable (set_sender a s hw) = hw_rtTable hw"
  "hw_qps (set_sender a s hw) = hw_qps hw"
  "hw_nextQp (set_sender a s hw) = hw_nextQp hw"
  "m_qpMap (set_sender a s hw) = m_qpMap hw"
  "hw_qpGrp (set_sender a s hw) = hw_qpGrp hw"
  "hw_rxqs (set_sender a s hw) = hw_rxqs hw"
  "hw_nextRxq (set_sender a s hw) = hw_nextRxq hw"
  "m_rxQpMap (set_sender a s hw) = m_rxQpMap hw"
  "m_receiverStates (set_sender a s hw) = m_receiverStates hw"
  "m_senderStates (set_sender a s hw) = (m_senderStates hw)(a \<mapsto> s)"
  "m_globalOutstanding (set_sender a s hw) = m_globalOutstanding hw"
  "m_grantTickEvent (set_sender a s hw) = m_grantTickEvent hw"
  "m_grantRrCursor (set_sender a s hw) = m_grantRrCursor hw"
  "m_tickCount (set_sender a s hw) = m_tickCount hw"
  "m_tickGrantCount (set_sender a s hw) = m_tickGrantCount hw"
  "hw_nicRate (set_sender a s hw) = hw_nicRate hw"
  "hw_out (set_sender a s hw) = hw_out hw"
  by (simp_all add: set_sender_def)

lemma set_receiver_sel [simp]:
  "cfg (set_receiver a s hw) = cfg hw"
  "hw_rtTable (set_receiver a s hw) = hw_rtTable hw"
  "hw_qps (set_receiver a s hw) = hw_qps hw"
  "hw_nextQp (set_receiver a s hw) = hw_nextQp hw"
  "m_qpMap (set_receiver a s hw) = m_qpMap hw"
  "hw_qpGrp (set_receiver a s hw) = hw_qpGrp hw"
  "hw_rxqs (set_receiver a s hw) = hw_rxqs hw"
  "hw_nextRxq (set_receiver a s hw) = hw_nextRxq hw"
  "m_rxQpMap (set_receiver a s hw) = m_rxQpMap hw"
  "m_receiverStates (set_receiver a s hw) = (m_receiverStates hw)(a \<mapsto> s)"
  "m_senderStates (set_receiver a s hw) = m_senderStates hw"
  "m_globalOutstanding (set_receiver a s hw) = m_globalOutstanding hw"
  "m_grantTickEvent (set_receiver a s hw) = m_grantTickEvent hw"
  "m_grantRrCursor (set_receiver a s hw) = m_grantRrCursor hw"
  "m_tickCount (set_receiver a s hw) = m_tickCount hw"
  "m_tickGrantCount (set_receiver a s hw) = m_tickGrantCount hw"
  "hw_nicRate (set_receiver a s hw) = hw_nicRate hw"
  "hw_out (set_receiver a s hw) = hw_out hw"
  by (simp_all add: set_receiver_def)

definition RdmaHw_initial :: "RdmaConfig \<Rightarrow> (nat \<Rightarrow> u64) \<Rightarrow> RdmaHw" where
  "RdmaHw_initial c rates =
    \<lparr>cfg = c, hw_nicRate = rates, hw_rtTable = (\<lambda>_. []), hw_qps = (\<lambda>_. RdmaQueuePair_ctor 0 0 0 0 0),
     hw_nextQp = 0, m_qpMap = Map.empty, hw_qpGrp = (\<lambda>_. []), hw_rxqs = (\<lambda>_. RdmaRxQueuePair_ctor),
     hw_nextRxq = 0, m_rxQpMap = Map.empty, m_receiverStates = Map.empty, m_senderStates = Map.empty,
     m_globalOutstanding = 0, m_grantTickEvent = False, m_grantRrCursor = 0, m_tickCount = 0,
     m_tickGrantCount = 0, hw_out = []\<rparr>"

section \<open>Routing and hashing\<close>

text \<open>Hash32 is Murmur3 with the library's seed over the bytes of the key.\<close>
definition Hash32 :: "u8 list \<Rightarrow> u32" where
  "Hash32 key = EcmpHash key 0x8BADF00D"

definition qp_hash_key :: "u32 \<Rightarrow> u32 \<Rightarrow> u16 \<Rightarrow> u16 \<Rightarrow> u8 list" where
  "qp_hash_key src dst srcPort dstPort = bytes32 src @ bytes32 dst @ bytes16 srcPort @ bytes16 dstPort"

definition RdmaQueuePair_GetHash :: "RdmaQueuePair \<Rightarrow> u32" where
  "RdmaQueuePair_GetHash q = Hash32 (qp_hash_key (q_sip q) (q_dip q) (q_sport q) (q_dport q))"

definition RdmaRxQueuePair_GetHash :: "RdmaRxQueuePair \<Rightarrow> u32" where
  "RdmaRxQueuePair_GetHash q = Hash32 (qp_hash_key (rx_sip q) (rx_dip q) (rx_sport q) (rx_dport q))"

definition GetCreditBouncerSymmetricHash :: "u32 \<Rightarrow> u32 \<Rightarrow> u16 \<Rightarrow> u16 \<Rightarrow> u16 \<Rightarrow> u32" where
  "GetCreditBouncerSymmetricHash src dst srcPort dstPort cls =
    (let swapEndpoints = src > dst \<or> (src = dst \<and> srcPort > dstPort)
     in Hash32 ((if swapEndpoints then qp_hash_key dst src dstPort srcPort
                 else qp_hash_key src dst srcPort dstPort) @ bytes16 cls))"

definition hw_AddTableEntry :: "u32 \<Rightarrow> nat \<Rightarrow> RdmaHw \<Rightarrow> RdmaHw" where
  "hw_AddTableEntry dst intf_idx hw =
    (let ports = hw_rtTable hw dst;
         ports = (if intf_idx \<notin> set ports then ports @ [intf_idx] else ports)
     in hw\<lparr>hw_rtTable := (hw_rtTable hw)(dst := sort ports)\<rparr>)"

definition hw_ClearTable :: "RdmaHw \<Rightarrow> RdmaHw" where
  "hw_ClearTable hw = hw\<lparr>hw_rtTable := (\<lambda>_. [])\<rparr>"

definition pick_nic :: "nat list \<Rightarrow> u32 \<Rightarrow> nat option" where
  "pick_nic v hash = (if length v > 0 then Some (v ! (unat hash mod length v)) else None)"

definition GetNicIdxOfQp :: "RdmaQueuePair \<Rightarrow> RdmaHw \<Rightarrow> nat option" where
  "GetNicIdxOfQp q hw =
    pick_nic (hw_rtTable hw (q_dip q))
      (if h_symmetricRouting (cfg hw) \<and> q_enabled q
       then GetCreditBouncerSymmetricHash (q_sip q) (q_dip q) (q_sport q) (q_dport q) (m_pg q)
       else RdmaQueuePair_GetHash q)"

definition GetNicIdxOfRxQp :: "RdmaRxQueuePair \<Rightarrow> bool \<Rightarrow> RdmaHw \<Rightarrow> nat option" where
  "GetNicIdxOfRxQp q useSymmetricRouting hw =
    pick_nic (hw_rtTable hw (rx_dip q))
      (if useSymmetricRouting \<and> h_symmetricRouting (cfg hw) \<and> rx_enabled q
       then GetCreditBouncerSymmetricHash (rx_sip q) (rx_dip q) (rx_sport q) (rx_dport q) (rx_qIndex q)
       else RdmaRxQueuePair_GetHash q)"

section \<open>Tables of queue pairs and of credit state\<close>

definition GetQpKey :: "u16 \<Rightarrow> u16 \<Rightarrow> u64" where
  "GetQpKey srcPort cls = push_bit 16 (ucast srcPort) OR ucast cls"

definition GetQp :: "u16 \<Rightarrow> u16 \<Rightarrow> RdmaHw \<Rightarrow> nat option" where
  "GetQp srcPort cls hw = m_qpMap hw (GetQpKey srcPort cls)"

definition rx_key :: "u32 \<Rightarrow> u16 \<Rightarrow> u16 \<Rightarrow> u64" where
  "rx_key dst cls dstPort = push_bit 32 (ucast dst) OR push_bit 16 (ucast cls) OR ucast dstPort"

definition GetOrCreateReceiverState :: "u32 \<Rightarrow> nat \<Rightarrow> RdmaHw \<Rightarrow> ReceiverState \<times> RdmaHw" where
  "GetOrCreateReceiverState receiverAddr msgState hw =
    (let st = (case m_receiverStates hw receiverAddr of None \<Rightarrow> ReceiverState_default | Some s \<Rightarrow> s);
         st = (if msgState \<in> set (rs_msgStates st) then st
               else st\<lparr>rs_msgStates := rs_msgStates st @ [msgState]\<rparr>)
     in (st, set_receiver receiverAddr st hw))"

definition GetOrCreateSenderState :: "u32 \<Rightarrow> nat \<Rightarrow> RdmaHw \<Rightarrow> SenderState \<times> RdmaHw" where
  "GetOrCreateSenderState senderAddr msgState hw =
    (let st = (case m_senderStates hw senderAddr of None \<Rightarrow> SenderState_default | Some s \<Rightarrow> s);
         st = st\<lparr>m_senderAddr := senderAddr\<rparr>;
         st = (if msgState \<in> set (ss_msgStates st) then st
               else st\<lparr>ss_msgStates := ss_msgStates st @ [msgState]\<rparr>)
     in (st, set_sender senderAddr st hw))"

definition CleanupCreditBouncerReceiverState :: "nat \<Rightarrow> RdmaHw \<Rightarrow> RdmaHw" where
  "CleanupCreditBouncerReceiverState qp hw =
    (let q = hw_qps hw qp in
     if \<not> h_creditbouncer (cfg hw) \<or> \<not> q_enabled q then hw
     else case m_receiverStates hw (q_dip q) of None \<Rightarrow> hw
        | Some st \<Rightarrow>
            let ms = removeAll qp (rs_msgStates st) in
            if ms = [] then hw\<lparr>m_receiverStates := (m_receiverStates hw)(q_dip q := None)\<rparr>
            else set_receiver (q_dip q) (st\<lparr>rs_msgStates := ms\<rparr>) hw)"

definition CleanupCreditBouncerSenderState :: "nat \<Rightarrow> RdmaHw \<Rightarrow> RdmaHw" where
  "CleanupCreditBouncerSenderState rxQp hw =
    (let q = hw_rxqs hw rxQp in
     if \<not> h_creditbouncer (cfg hw) \<or> \<not> rx_enabled q then hw
     else case m_senderStates hw (rx_dip q) of None \<Rightarrow> hw
        | Some st \<Rightarrow>
            let ms = removeAll rxQp (ss_msgStates st) in
            if ms = [] then hw\<lparr>m_senderStates := (m_senderStates hw)(rx_dip q := None)\<rparr>
            else set_sender (rx_dip q) (st\<lparr>ss_msgStates := ms\<rparr>) hw)"

text \<open>The credit state of a sender as the first message from it sets it up.\<close>
definition initial_window_pkts :: "u64 \<Rightarrow> u32" where
  "initial_window_pkts maxSrpb =
    max 1 (word_of_dbl (fdiv (dbl_of_word maxSrpb) (dbl_of_word (ucast CB_MAX_ETHERNET_FRAME_ON_WIRE :: u64))))"

definition init_sender :: "RdmaConfig \<Rightarrow> u32 \<Rightarrow> SenderState \<Rightarrow> SenderState" where
  "init_sender c dst st =
    (let srpb = ucast (h_maxSrpb c) in
     st\<lparr>ss_enabled := True, m_senderAddr := dst, m_maxSrpbBytes := srpb, m_srpbCeilingBytes := srpb,
        m_srpbBytes := srpb, m_nwMaxSrpbBytes := srpb, m_hostMaxSrpbBytes := srpb,
        m_globalBucketLimitBytes := ucast (h_globalBucket c),
        m_grantGranularityDataBytes := ucast (h_grantGranularity c),
        m_netBucketLimitSrpbBytes := srpb, m_senderBucketLimitSrpbBytes := srpb,
        m_netBucketMinBytes := max 1 (word_of_dbl (fmul (h_ecnMinMul_nw c) (dbl_of_word srpb))),
        m_senderBucketMinBytes := max 1 (word_of_dbl (fmul (h_ecnMinMul_host c) (dbl_of_word srpb))),
        ss_aiStepBytes := h_aiStep c, ss_mdFactor := h_mdFactor c,
        m_pktsAtNextRatioUpdate := 1,
        m_pktsNwAtNextWndUpdate := initial_window_pkts srpb,
        m_pktsHtAtNextWndUpdate := initial_window_pkts srpb\<rparr>)"

definition new_rxq :: "RdmaConfig \<Rightarrow> u32 \<Rightarrow> u32 \<Rightarrow> u16 \<Rightarrow> u16 \<Rightarrow> u16 \<Rightarrow> RdmaRxQueuePair" where
  "new_rxq c src dst srcPort dstPort cls =
    RdmaRxQueuePair_ctor\<lparr>rx_sip := src, rx_dip := dst, rx_sport := srcPort, rx_dport := dstPort,
      rx_qIndex := cls, rx_flow_id := -1, rx_enabled := h_creditbouncer c\<rparr>"

definition GetRxQp ::
  "u32 \<Rightarrow> u32 \<Rightarrow> u16 \<Rightarrow> u16 \<Rightarrow> u16 \<Rightarrow> bool \<Rightarrow> RdmaHw \<Rightarrow> nat option \<times> RdmaHw" where
  "GetRxQp src dst srcPort dstPort cls create hw =
    (let key = rx_key dst cls dstPort in
     case m_rxQpMap hw key of Some r \<Rightarrow> (Some r, hw)
     | None \<Rightarrow>
        if create
        then let r = hw_nextRxq hw;
                 hw = (set_rxq r (new_rxq (cfg hw) src dst srcPort dstPort cls) hw)\<lparr>hw_nextRxq := Suc r\<rparr>;
                 hw = (if h_creditbouncer (cfg hw)
                       then let (st, hw) = GetOrCreateSenderState dst r hw in
                            if \<not> ss_enabled st then set_sender dst (init_sender (cfg hw) dst st) hw else hw
                       else hw)
             in (Some r, hw\<lparr>m_rxQpMap := (m_rxQpMap hw)(key \<mapsto> r)\<rparr>)
        else (None, hw))"

text \<open>A new message to send.  The congestion control and the TLT fields set here belong to
  the other transports of the class and are not part of the model.\<close>
definition AddQueuePair ::
  "u64 \<Rightarrow> u16 \<Rightarrow> u32 \<Rightarrow> u32 \<Rightarrow> u16 \<Rightarrow> u16 \<Rightarrow> u32 \<Rightarrow> u64 \<Rightarrow> int \<Rightarrow> RdmaHw \<Rightarrow> RdmaHw option" where
  "AddQueuePair sz cls src dst srcPort dstPort win baseRtt flow_id hw =
    (let c = cfg hw; r = hw_nextQp hw;
         q = (RdmaQueuePair_ctor cls src dst srcPort dstPort)
               \<lparr>m_size := sz, q_win := win, q_baseRtt := baseRtt, q_var_win := h_var_win c,
                q_flow_id := flow_id, q_timeout := h_waitAckTimeout c,
                q_enabled := h_creditbouncer c, q_irn_enabled := h_irn c,
                q_irn_bdp := (if h_irn c then h_irn_bdp c else 0),
                q_irn_rtoLow := (if h_irn c then h_irn_rtoLow c else 0),
                q_irn_rtoHigh := (if h_irn c then h_irn_rtoHigh c else 0)\<rparr>;
         hw = (set_qp r q hw)\<lparr>hw_nextQp := Suc r\<rparr>;
         hw = (if h_creditbouncer c
               then let (st, hw) = GetOrCreateReceiverState dst r hw in
                    if \<not> rs_enabled st
                    then set_receiver dst (st\<lparr>rs_enabled := True,
                           m_senderBacklogThresholdBytes := ucast (h_senderThreshold c),
                           m_unsolicitedThreshBytes := ucast (h_unsolicitedThresh c),
                           rs_aiStepBytes := h_aiStep c, rs_mdFactor := h_mdFactor c\<rparr>) hw
                    else hw
               else hw)
     in case GetNicIdxOfQp q hw of None \<Rightarrow> None
        | Some nic \<Rightarrow>
           Some (hw_emit (HwNewQp nic r)
             (set_qp r (q\<lparr>q_rate := hw_nicRate hw nic, q_max_rate := hw_nicRate hw nic\<rparr>)
               (hw\<lparr>hw_qpGrp := (hw_qpGrp hw)(nic := hw_qpGrp hw nic @ [r]),
                   m_qpMap := (m_qpMap hw)(GetQpKey srcPort cls \<mapsto> r)\<rparr>))))"

section \<open>Packets\<close>

definition IntHeader_empty :: IntHeader where
  "IntHeader_empty = \<lparr>hop = (\<lambda>_. \<lparr>lineRate = 0, hop_time = 0, hop_bytes = 0, hop_qlen = 0\<rparr>), nhop = 0, ih_ts = 0\<rparr>"

definition RDMA_L3_PROT_UDP :: u8 where "RDMA_L3_PROT_UDP = 0x11"
definition RDMA_L3_PROT_CREDITBOUNCER :: u8 where "RDMA_L3_PROT_CREDITBOUNCER = 0xFB"

text \<open>Control packets are padded to 60 bytes before the link overhead.\<close>
definition BuildCreditBouncerCtrlPacket ::
  "RdmaConfig \<Rightarrow> u32 \<Rightarrow> u32 \<Rightarrow> u16 \<Rightarrow> u16 \<Rightarrow> u16 \<Rightarrow> u32 \<Rightarrow> MessageType \<Rightarrow> u32 \<Rightarrow> u32 \<Rightarrow> u16
   \<Rightarrow> u32 \<Rightarrow> u32 \<Rightarrow> NsPacket" where
  "BuildCreditBouncerCtrlPacket c src dst srcPort dstPort cls number msgType creditReqBytes creditBytes
     creditPad resendStartIdx resendNumChunks =
    (let hdr = 18 + IntHeader_GetStaticSize (h_intMode c) in
     \<lparr>p_size = word_of_nat ((60 - 14 - 20 - hdr) + hdr + 20 + 14),
      p_hdr = \<lparr>l3Prot = RDMA_L3_PROT_CREDITBOUNCER, sip = src, dip = dst, sport = srcPort,
                dport = dstPort, pg = cls, seq = number\<rparr>,
      p_ecn = 0, p_int = IntHeader_empty,
      p_cbTag = Some (CreditBouncerTag_ctor msgType creditReqBytes creditBytes False False
        CB_DATA_CLASS_NONE 0 0 False creditPad resendStartIdx resendNumChunks),
      p_justBounced = None, p_flowId = None, p_flowNum = None, p_tlt = None\<rparr>)"

definition CbDataClassForOffset :: "RdmaQueuePair \<Rightarrow> u64 \<Rightarrow> DataClass" where
  "CbDataClassForOffset q offset =
    (if \<not> q_isScheduled q \<and> \<not> q_hasScheduledPart q then CB_DATA_CLASS_UNSOLICITED
     else if \<not> q_isScheduled q \<and> offset < q_selfAllocCreditDataBytes q then CB_DATA_CLASS_UNSCHEDULED
     else CB_DATA_CLASS_SCHEDULED)"

definition data_packet :: "RdmaConfig \<Rightarrow> RdmaQueuePair \<Rightarrow> u32 \<Rightarrow> u32 \<Rightarrow> CreditBouncerTag \<Rightarrow> NsPacket" where
  "data_packet c q payloadSize number tag =
    \<lparr>p_size = payloadSize + word_of_nat (6 + IntHeader_GetStaticSize (h_intMode c) + 8 + 20 + 14),
     p_hdr = \<lparr>l3Prot = RDMA_L3_PROT_UDP, sip = q_sip q, dip = q_dip q, sport = q_sport q,
               dport = q_dport q, pg = m_pg q, seq = number\<rparr>,
     p_ecn = 0, p_int = IntHeader_empty, p_cbTag = Some tag, p_justBounced = None,
     p_flowId = None, p_flowNum = Some (word_of_int (q_flow_id q)), p_tlt = None\<rparr>"

definition BuildCreditBouncerDataPacket ::
  "RdmaConfig \<Rightarrow> RdmaQueuePair \<Rightarrow> u32 \<Rightarrow> u32 \<Rightarrow> DataClass \<Rightarrow> bool \<Rightarrow> bool \<Rightarrow> NsPacket \<times> RdmaQueuePair" where
  "BuildCreditBouncerDataPacket c q payloadSize number dataClass csnMarked priorityFlow =
    (data_packet c q payloadSize number
       (CreditBouncerTag_ctor CB_MSG_REQUEST 0 0 csnMarked priorityFlow dataClass 0 0 False 0 0 0),
     q\<lparr>q_ipid := q_ipid q + 1\<rparr>)"

text \<open>The size of the parsed headers: link, network and transport layer of a data packet.\<close>
definition udp_header_size :: "RdmaConfig \<Rightarrow> u32" where
  "udp_header_size c = word_of_nat (14 + 5 * 4 + (8 + 2 + 4 + IntHeader_GetStaticSize (h_intMode c)))"

end
