(* ===== verification/RdmaReceiver.thy ===== *)
theory RdmaReceiver
  imports RdmaState
begin

text \<open>
  The receiver half of the DPDQ transport, the parts of
  \<^verbatim>\<open>src/point-to-point/model/rdma-hw.cc\<close> that run where data arrives: the
  AIMD control of the per-sender credit limits, the accounting of announced,
  granted, returned and consumed credit, the grant pacer with its round-robin and
  shortest-remaining-first policies, completion, and the resend timer.

  The accounting steps are functions on the sender's credit state, the message's
  queue pair and the global outstanding counter; the handlers read these from the
  host, apply them in the code's order and write them back.
\<close>

section \<open>AIMD on the credit limits\<close>

definition ApplyCreditAimd :: "u64 \<Rightarrow> bool \<Rightarrow> u64 \<Rightarrow> u64 \<Rightarrow> double \<Rightarrow> double \<Rightarrow> u64" where
  "ApplyCreditAimd limitBytes marked minBytes maxBytes aiStepBytes mdFactor =
    (let maxBytes = (if maxBytes < minBytes then minBytes else maxBytes);
         limitBytes = (if limitBytes < minBytes then minBytes else limitBytes);
         limitBytes = (if limitBytes > maxBytes then maxBytes else limitBytes)
     in if marked
        then let boundedMd = min 1 (max 0 mdFactor);
                 decr = word_of_dbl (fmul (dbl_of_word limitBytes) boundedMd)
             in max minBytes decr
        else let ai = (if aiStepBytes > 0 then word_of_dbl (max 1 aiStepBytes) else 0)
             in if ai > 0 then min maxBytes (limitBytes + ai) else limitBytes)"

definition mssOnWire :: double where
  "mssOnWire = dbl_of_word (ucast CB_MAX_ETHERNET_FRAME_ON_WIRE :: u64)"

definition clamp01 :: "double \<Rightarrow> double" where
  "clamp01 x = min 1 (max 0 x)"

text \<open>Packets counted, bursts tracked, marked ratios averaged once per window.\<close>
definition aimd_count :: "bool \<Rightarrow> bool \<Rightarrow> SenderState \<Rightarrow> SenderState" where
  "aimd_count csnMarked ecnMarked s =
    s\<lparr>m_pktsSinceLastRatioUpdate := m_pktsSinceLastRatioUpdate s + 1,
      m_pktsNwSinceLastWndUpdate := m_pktsNwSinceLastWndUpdate s + 1,
      m_pktsHtSinceLastWndUpdate := m_pktsHtSinceLastWndUpdate s + 1,
      m_pktsNwMarkedSinceLastRatioUpdate :=
        m_pktsNwMarkedSinceLastRatioUpdate s + (if ecnMarked then 1 else 0),
      m_pktsHtMarkedSinceLastRatioUpdate :=
        m_pktsHtMarkedSinceLastRatioUpdate s + (if csnMarked then 1 else 0),
      m_nwEcnBurst := (if \<not> m_nwEcnBurst s \<and> ecnMarked then True
                       else if m_nwEcnBurst s \<and> \<not> ecnMarked then False else m_nwEcnBurst s),
      m_hostEcnBurst := (if \<not> m_hostEcnBurst s \<and> csnMarked then True
                         else if m_hostEcnBurst s \<and> \<not> csnMarked then False else m_hostEcnBurst s)\<rparr>"

definition aimd_ratio_due :: "SenderState \<Rightarrow> bool" where
  "aimd_ratio_due s \<longleftrightarrow> m_pktsSinceLastRatioUpdate s = max 1 (m_pktsAtNextRatioUpdate s)"

definition ewma :: "double \<Rightarrow> double \<Rightarrow> double \<Rightarrow> double" where
  "ewma w avg sample = fadd (fmul (fsub 1 w) avg) (fmul w sample)"

definition aimd_ratio :: "double \<Rightarrow> SenderState \<Rightarrow> SenderState" where
  "aimd_ratio newWeight s =
    (if aimd_ratio_due s
     then let sampleDen = dbl_of_word (max 1 (m_pktsSinceLastRatioUpdate s));
              w = clamp01 newWeight in
          s\<lparr>m_nwMarkedRatio := ewma w (m_nwMarkedRatio s)
               (fdiv (dbl_of_word (m_pktsNwMarkedSinceLastRatioUpdate s)) sampleDen),
            m_hostMarkedRatio := ewma w (m_hostMarkedRatio s)
               (fdiv (dbl_of_word (m_pktsHtMarkedSinceLastRatioUpdate s)) sampleDen),
            m_pktsNwMarkedSinceLastRatioUpdate := 0,
            m_pktsHtMarkedSinceLastRatioUpdate := 0\<rparr>
     else s)"

definition aimd_increment :: "SenderState \<Rightarrow> u64" where
  "aimd_increment s =
    (let aiMul = (if ss_aiStepBytes s > 0 then ss_aiStepBytes s else 1);
         wRef = dbl_of_word (max 1 (m_maxSrpbBytes s));
         aiDelta = fdiv (fmul aiMul (fmul mssOnWire mssOnWire)) wRef
     in word_of_dbl (max 1 aiDelta))"

text \<open>One decrease of a window by its marked ratio times the decrease coefficient.\<close>
definition aimd_decrease :: "u64 \<Rightarrow> double \<Rightarrow> double \<Rightarrow> u64" where
  "aimd_decrease wnd ratio mdCoeff =
    (let decr = fmul (fmul (dbl_of_word wnd) (max 0 (min 1 ratio))) mdCoeff;
         decBytes = word_of_dbl (max 0 decr) :: u64
     in if decBytes > wnd then 0 else wnd - decBytes)"

definition aimd_next_window :: "SenderState \<Rightarrow> u32" where
  "aimd_next_window s =
    max 1 (word_of_dbl (fdiv (fmul (3 / 2) (dbl_of_word (max 1 (m_maxSrpbBytes s)))) mssOnWire))"

definition aimd_network :: "u64 \<Rightarrow> bool \<Rightarrow> SenderState \<Rightarrow> SenderState" where
  "aimd_network aiBytes ecnMarked s =
    (let mdCoeff = clamp01 (ss_mdFactor s);
         s = (if \<not> ecnMarked \<or> m_nwEcnBurst s
              then s\<lparr>m_nwMaxSrpbBytes := m_nwMaxSrpbBytes s + aiBytes\<rparr> else s)
     in if ecnMarked \<and> m_pktsNwSinceLastWndUpdate s \<ge> max 1 (m_pktsNwAtNextWndUpdate s)
        then s\<lparr>m_nwMaxSrpbBytes := aimd_decrease (m_nwMaxSrpbBytes s) (m_nwMarkedRatio s) mdCoeff,
               m_pktsNwSinceLastWndUpdate := 0,
               m_pktsNwAtNextWndUpdate := aimd_next_window s\<rparr>
        else s)"

definition aimd_host :: "u64 \<Rightarrow> bool \<Rightarrow> SenderState \<Rightarrow> SenderState" where
  "aimd_host aiBytes csnMarked s =
    (let mdCoeff = clamp01 (ss_mdFactor s);
         s = (if \<not> csnMarked \<or> m_hostEcnBurst s
              then s\<lparr>m_hostMaxSrpbBytes := m_hostMaxSrpbBytes s + aiBytes\<rparr> else s)
     in if csnMarked \<and> m_pktsHtSinceLastWndUpdate s \<ge> max 1 (m_pktsHtAtNextWndUpdate s)
        then s\<lparr>m_hostMaxSrpbBytes := aimd_decrease (m_hostMaxSrpbBytes s) (m_hostMarkedRatio s) mdCoeff,
               m_pktsHtSinceLastWndUpdate := 0,
               m_pktsHtAtNextWndUpdate := aimd_next_window s\<rparr>
        else s)"

text \<open>Clamp both windows, combine them into the pair limit, and cap the budget left.\<close>
definition aimd_limit :: "u64 \<Rightarrow> bool \<Rightarrow> SenderState \<Rightarrow> SenderState" where
  "aimd_limit srpbCeiling priorityFlow s =
    (let nw = min (max (m_netBucketMinBytes s) (m_nwMaxSrpbBytes s)) srpbCeiling;
         host = min (max (m_senderBucketMinBytes s) (m_hostMaxSrpbBytes s)) srpbCeiling;
         pairLimit = min nw host;
         pairLimit = (if priorityFlow then srpbCeiling else pairLimit);
         pairLimit = max 1 (min srpbCeiling pairLimit)
     in s\<lparr>m_nwMaxSrpbBytes := nw, m_hostMaxSrpbBytes := host,
          m_senderBucketLimitSrpbBytes := host, m_netBucketLimitSrpbBytes := nw,
          m_maxSrpbBytes := pairLimit,
          m_srpbBytes := (if m_srpbBytes s > pairLimit then pairLimit else m_srpbBytes s)\<rparr>)"

definition UpdateSenderStateAimdOnData ::
  "RdmaConfig \<Rightarrow> bool \<Rightarrow> bool \<Rightarrow> bool \<Rightarrow> SenderState \<Rightarrow> SenderState" where
  "UpdateSenderStateAimdOnData c csnMarked ecnMarked priorityFlow s =
    (if \<not> ss_enabled s then s
     else let srpbCeiling = (if m_srpbCeilingBytes s > 0 then m_srpbCeilingBytes s
                             else max 1 (m_maxSrpbBytes s));
              s = aimd_count csnMarked ecnMarked s;
              updateRatios = aimd_ratio_due s;
              s = aimd_ratio (h_ceNewWeight c) s;
              aiBytes = aimd_increment s;
              s = aimd_network aiBytes ecnMarked s;
              s = aimd_host aiBytes csnMarked s;
              s = aimd_limit srpbCeiling priorityFlow s
          in if updateRatios
             then s\<lparr>m_pktsSinceLastRatioUpdate := 0,
                    m_pktsAtNextRatioUpdate :=
                      max 1 (word_of_dbl (fdiv (dbl_of_word (m_maxSrpbBytes s)) mssOnWire))\<rparr>
             else s)"

section \<open>Credit accounting\<close>

definition saturatingAdd :: "u64 \<Rightarrow> u64 \<Rightarrow> u64" where
  "saturatingAdd base delta = (if 0xFFFFFFFFFFFFFFFF - base < delta then 0xFFFFFFFFFFFFFFFF else base + delta)"

definition sat_sub :: "u64 \<Rightarrow> u64 \<Rightarrow> u64" where
  "sat_sub a b = (if a \<ge> b then a - b else 0)"

text \<open>An accepted announcement starts the message's bookkeeping and adds its demand; the
  part the sender has already allocated to itself counts as granted.\<close>
definition start_message :: "u32 \<Rightarrow> u32 \<Rightarrow> RdmaRxQueuePair \<Rightarrow> RdmaRxQueuePair" where
  "start_message mtu creditReqBytes q =
    (let chunks = (if mtu = 0 then 0
                   else ucast ((ucast creditReqBytes + ucast mtu - 1 :: u64) div ucast mtu))
     in q\<lparr>m_announcementAccounted := True, m_announcementExpectedBytes := ucast creditReqBytes,
          m_receivedDataBytes := 0, m_completionNotified := False, m_expectedChunks := chunks,
          m_receivedChunks := 0, m_grantedChunkLimit := 0,
          m_receivedChunkBitmap := replicate (unat chunks) False\<rparr>)"

definition add_demand :: "u64 \<Rightarrow> SenderState \<Rightarrow> RdmaRxQueuePair \<Rightarrow> SenderState \<times> RdmaRxQueuePair" where
  "add_demand req s q =
    (s\<lparr>m_pendingDemandDataBytes := saturatingAdd (m_pendingDemandDataBytes s) req\<rparr>,
     q\<lparr>m_pendingDemandBytes := saturatingAdd (m_pendingDemandBytes q) req\<rparr>)"

definition account_unsolicited ::
  "u32 \<Rightarrow> u32 \<Rightarrow> SenderState \<Rightarrow> RdmaRxQueuePair \<Rightarrow> u64 \<Rightarrow> SenderState \<times> RdmaRxQueuePair \<times> u64" where
  "account_unsolicited unsolWire unsolData s q g =
    (if unsolWire > 0 \<or> unsolData > 0
     then let grantWire = ucast unsolWire;
              grantData = min (ucast unsolData) (m_pendingDemandDataBytes s)
          in (s\<lparr>m_pendingDemandDataBytes := sat_sub (m_pendingDemandDataBytes s) grantData,
                m_outstandingDataBytes := saturatingAdd (m_outstandingDataBytes s) grantData,
                m_srpbBytes := sat_sub (m_srpbBytes s) grantWire,
                m_OutstandingBytes := saturatingAdd (m_OutstandingBytes s) grantWire\<rparr>,
              q\<lparr>m_pendingDemandBytes := sat_sub (m_pendingDemandBytes q) grantData\<rparr>,
              saturatingAdd g grantWire)
     else (s, q, g))"

text \<open>Marking a chunk received: whether it was the first copy, and its index.  The index
  is UINT32\_MAX when the MTU is 0.\<close>
definition mark_chunk :: "u32 \<Rightarrow> u32 \<Rightarrow> RdmaRxQueuePair \<Rightarrow> bool \<times> u32 \<times> RdmaRxQueuePair" where
  "mark_chunk mtu number q =
    (if mtu > 0
     then let chunkIdx = number div mtu in
          if chunkIdx < m_expectedChunks q \<and> length (m_receivedChunkBitmap q) = unat (m_expectedChunks q)
          then let first = \<not> m_receivedChunkBitmap q ! unat chunkIdx in
               (first, chunkIdx,
                if first
                then q\<lparr>m_receivedChunkBitmap := (m_receivedChunkBitmap q)[unat chunkIdx := True],
                       m_receivedChunks := m_receivedChunks q + 1\<rparr>
                else q)
          else (True, chunkIdx, q)
     else (True, 0xFFFFFFFF, q))"

text \<open>The credit a first copy used returns to the sender's budget and to the bucket.\<close>
definition reclaim_credit :: "u32 \<Rightarrow> u32 \<Rightarrow> SenderState \<Rightarrow> u64 \<Rightarrow> SenderState \<times> u64" where
  "reclaim_credit mtu payload s g =
    (let usedData = min (ucast payload) (m_outstandingDataBytes s);
         usedWire = CbAddHeaderOverhead usedData mtu True
     in (s\<lparr>m_outstandingDataBytes := m_outstandingDataBytes s - usedData,
           m_srpbBytes := (if m_srpbBytes s + usedWire > m_maxSrpbBytes s then m_maxSrpbBytes s
                           else m_srpbBytes s + usedWire),
           m_OutstandingBytes := sat_sub (m_OutstandingBytes s) usedWire\<rparr>,
         sat_sub g usedWire))"

definition account_ecn :: "RdmaConfig \<Rightarrow> u8 \<Rightarrow> u32 option \<Rightarrow> RdmaRxQueuePair \<Rightarrow> RdmaRxQueuePair" where
  "account_ecn c ecnbits flowTag q =
    (let q = (if ecnbits \<noteq> 0 then q\<lparr>rx_ecnbits := rx_ecnbits q OR ecnbits, rx_qfb := rx_qfb q + 1\<rparr> else q);
         q = q\<lparr>rx_total := rx_total q + 1, m_milestone_rx := h_ack_interval c\<rparr>
     in if rx_flow_id q < 0
        then case flowTag of None \<Rightarrow> q | Some f \<Rightarrow> q\<lparr>rx_flow_id := sint f\<rparr>
        else q)"

definition count_payload :: "u32 \<Rightarrow> u32 \<Rightarrow> u32 \<Rightarrow> RdmaRxQueuePair \<Rightarrow> RdmaRxQueuePair" where
  "count_payload mtu chunkIdx payload q =
    (if m_announcementExpectedBytes q > 0
     then let chunkBase = ucast chunkIdx * ucast mtu;
              accepted = (if mtu > 0 \<and> chunkIdx < m_expectedChunks q
                          then if chunkBase < m_announcementExpectedBytes q
                               then min (ucast payload)
                                      (min (ucast mtu) (m_announcementExpectedBytes q - chunkBase))
                               else 0
                          else ucast payload)
          in q\<lparr>m_receivedDataBytes := min (m_announcementExpectedBytes q) (m_receivedDataBytes q + accepted)\<rparr>
     else q)"

definition message_complete :: "RdmaRxQueuePair \<Rightarrow> bool" where
  "message_complete q \<longleftrightarrow> \<not> m_completionNotified q \<and> m_announcementExpectedBytes q > 0 \<and>
    (m_expectedChunks q > 0 \<and> m_receivedChunks q \<ge> m_expectedChunks q
     \<or> m_receivedDataBytes q \<ge> m_announcementExpectedBytes q)"

text \<open>A bounced grant is rolled back, never beyond what is outstanding.\<close>
definition return_credit ::
  "u64 \<Rightarrow> u64 \<Rightarrow> SenderState \<Rightarrow> RdmaRxQueuePair \<Rightarrow> u64 \<Rightarrow> SenderState \<times> RdmaRxQueuePair \<times> u64" where
  "return_credit bouncedWire bouncedData s q g =
    (let effWire = min bouncedWire (m_OutstandingBytes s);
         effData = min bouncedData (m_outstandingDataBytes s)
     in (s\<lparr>m_OutstandingBytes := m_OutstandingBytes s - effWire,
           m_outstandingDataBytes := m_outstandingDataBytes s - effData,
           m_pendingDemandDataBytes := m_pendingDemandDataBytes s + effData,
           m_srpbBytes := (if m_srpbBytes s + effWire > m_maxSrpbBytes s then m_maxSrpbBytes s
                           else m_srpbBytes s + effWire)\<rparr>,
         q\<lparr>m_pendingDemandBytes :=
             (if m_pendingDemandBytes q + effData < m_pendingDemandBytes q then 0xFFFFFFFFFFFFFFFF
              else m_pendingDemandBytes q + effData)\<rparr>,
         sat_sub g effWire))"

section \<open>Timers\<close>

definition ScheduleCreditGrantTick :: "HostEnv \<Rightarrow> RdmaHw \<Rightarrow> RdmaHw" where
  "ScheduleCreditGrantTick env hw =
    (if m_grantTickEvent hw then hw
     else if \<exists>a\<in>set (h_order env). case m_senderStates hw a of None \<Rightarrow> False
            | Some s \<Rightarrow> ss_enabled s \<and> m_pendingDemandDataBytes s > 0
     then hw_emit (HwSchedGrantTick (ucast (max 1 (h_grantIntervalNs (cfg hw)))))
            (hw\<lparr>m_grantTickEvent := True\<rparr>)
     else hw)"

definition ScheduleCreditBouncerResend :: "nat \<Rightarrow> RdmaHw \<Rightarrow> RdmaHw" where
  "ScheduleCreditBouncerResend rxQp hw =
    (let q = hw_rxqs hw rxQp in
     if \<not> h_creditbouncer (cfg hw) \<or> \<not> rx_enabled q then hw
     else if m_completionNotified q \<or> m_expectedChunks q = 0 then hw
     else let hw = (if m_resendEvent q then hw_emit (HwCancelResend rxQp) hw else hw)
          in hw_emit (HwSchedResend rxQp (ucast (max 1 (h_resendIntervalNs (cfg hw)))))
               (set_rxq rxQp (q\<lparr>m_resendEvent := True\<rparr>) hw))"

definition cancel_resend :: "nat \<Rightarrow> RdmaHw \<Rightarrow> RdmaHw" where
  "cancel_resend rxQp hw =
    (let q = hw_rxqs hw rxQp in
     if m_resendEvent q then hw_emit (HwCancelResend rxQp) (set_rxq rxQp (q\<lparr>m_resendEvent := False\<rparr>) hw)
     else hw)"

section \<open>Arrivals\<close>

text \<open>The sender's credit state of the address, as the reference the code holds.\<close>
definition sender_at :: "u32 \<Rightarrow> RdmaHw \<Rightarrow> SenderState" where
  "sender_at a hw = (case m_senderStates hw a of None \<Rightarrow> SenderState_default | Some s \<Rightarrow> s)"

definition applyNewAnnouncement ::
  "CreditBouncerTag \<Rightarrow> nat \<Rightarrow> u32 \<Rightarrow> RdmaHw \<Rightarrow> bool \<times> RdmaHw" where
  "applyNewAnnouncement t rxQp senderAddr hw =
    (if \<not> (m_creditReqBytes t > 0 \<and> \<not> m_announcementAccounted (hw_rxqs hw rxQp)) then (False, hw)
     else let hw = set_rxq rxQp (start_message (h_mtu (cfg hw)) (m_creditReqBytes t) (hw_rxqs hw rxQp)) hw;
              hw = cancel_resend rxQp hw;
              (s, q) = add_demand (ucast (m_creditReqBytes t)) (sender_at senderAddr hw) (hw_rxqs hw rxQp);
              (s, q, g) = account_unsolicited (m_unsolCreditBytes t) (m_unsolCreditDataBytes t)
                            s q (m_globalOutstanding hw);
              hw = set_sender senderAddr s (set_rxq rxQp q (hw\<lparr>m_globalOutstanding := g\<rparr>))
          in (True, if m_expectedChunks q > 0 then ScheduleCreditBouncerResend rxQp hw else hw))"

definition account_first_copy :: "u32 \<Rightarrow> nat \<Rightarrow> u32 \<Rightarrow> RdmaHw \<Rightarrow> RdmaHw" where
  "account_first_copy senderAddr rxQp payload hw =
    (let (s, g) = reclaim_credit (h_mtu (cfg hw)) payload (sender_at senderAddr hw) (m_globalOutstanding hw)
     in set_sender senderAddr s (hw\<lparr>m_globalOutstanding := g\<rparr>))"

text \<open>When the message is complete the sender's queue pair is completed through the table
  of owners, and the message leaves the sender's state.\<close>
definition complete_message :: "CustomHeader \<Rightarrow> nat \<Rightarrow> RdmaHw \<Rightarrow> RdmaHw" where
  "complete_message ch rxQp hw =
    (let hw = set_rxq rxQp ((hw_rxqs hw rxQp)\<lparr>m_completionNotified := True\<rparr>) hw;
         hw = cancel_resend rxQp hw;
         hw = hw_emit (HwCompleteSender (sip ch) (sport ch) (pg ch) (rx_flow_id (hw_rxqs hw rxQp))) hw
     in CleanupCreditBouncerSenderState rxQp hw)"

text \<open>The sender's state on arrival of data or of a request for grants, after AIMD.\<close>
definition refresh_sender ::
  "RdmaConfig \<Rightarrow> bool \<Rightarrow> bool \<Rightarrow> bool \<Rightarrow> bool \<Rightarrow> SenderState \<Rightarrow> SenderState" where
  "refresh_sender c aimd csnMarked ecnMarked priorityFlow s =
    (let s = s\<lparr>ss_enabled := True\<rparr>
     in if aimd \<and> h_ccEnable c then UpdateSenderStateAimdOnData c csnMarked ecnMarked priorityFlow s else s)"

text \<open>The chunk in a data packet: marked, its credit reclaimed, its bytes counted.\<close>
definition absorb_chunk :: "NsPacket \<Rightarrow> CustomHeader \<Rightarrow> nat \<Rightarrow> RdmaHw \<Rightarrow> RdmaHw" where
  "absorb_chunk p ch r hw =
    (let c = cfg hw;
         payload = p_size p - udp_header_size c;
         (first, chunkIdx, q) = mark_chunk (h_mtu c) (seq ch) (hw_rxqs hw r);
         hw = set_rxq r q hw;
         hw = (if first then account_first_copy (sip ch) r payload hw else hw);
         q = account_ecn c (word_of_nat (p_ecn p)) (p_flowNum p) (hw_rxqs hw r);
         q = (if first then count_payload (h_mtu c) chunkIdx payload q else q)
     in set_rxq r q hw)"

text \<open>After the chunk: completion, the resend timer, and the grant pacer.  When completion
  has erased the sender's state the last test reads through a dangling reference: its
  outcome is an argument.\<close>
definition finish_data :: "HostEnv \<Rightarrow> CustomHeader \<Rightarrow> nat \<Rightarrow> RdmaHw \<Rightarrow> RdmaHw" where
  "finish_data env ch r hw =
    (let hw = (if message_complete (hw_rxqs hw r) then complete_message ch r hw else hw);
         q = hw_rxqs hw r;
         hw = (if \<not> m_completionNotified q \<and> m_expectedChunks q > 0
               then ScheduleCreditBouncerResend r hw else hw)
     in if (case m_senderStates hw (sip ch) of Some s \<Rightarrow> m_pendingDemandDataBytes s > 0
            | None \<Rightarrow> h_stale env)
        then ScheduleCreditGrantTick env hw else hw)"

text \<open>REQUEST data.\<close>
definition receive_request_data ::
  "HostEnv \<Rightarrow> NsPacket \<Rightarrow> CustomHeader \<Rightarrow> CreditBouncerTag \<Rightarrow> RdmaHw \<Rightarrow> RdmaHw" where
  "receive_request_data env p ch t hw =
    (let c = cfg hw;
         ecnbits = word_of_nat (p_ecn p) :: u8
     in case GetRxQp (dip ch) (sip ch) (dport ch) (sport ch) (pg ch) True hw of
       (None, hw) \<Rightarrow> hw
     | (Some r, hw) \<Rightarrow>
        if \<not> rx_enabled (hw_rxqs hw r) then hw
        else let (s, hw) = GetOrCreateSenderState (sip ch) r hw;
                 s = refresh_sender c True (h_csnEnable c \<and> IsCsnMarked t) (ecnbits \<noteq> 0) (IsPriorityFlow t)
                       (s\<lparr>m_lastEcnMarked := (ecnbits \<noteq> 0)\<rparr>);
                 hw = snd (applyNewAnnouncement t r (sip ch) (set_sender (sip ch) s hw))
             in finish_data env ch r (absorb_chunk p ch r hw))"

text \<open>A request for grants that carries no data.\<close>
definition receive_grant_req ::
  "HostEnv \<Rightarrow> NsPacket \<Rightarrow> CustomHeader \<Rightarrow> CreditBouncerTag \<Rightarrow> RdmaHw \<Rightarrow> RdmaHw" where
  "receive_grant_req env p ch t hw =
    (let c = cfg hw in
     case GetRxQp (dip ch) (sip ch) (dport ch) (sport ch) (pg ch) True hw of
       (None, hw) \<Rightarrow> hw
     | (Some r, hw) \<Rightarrow>
        if \<not> rx_enabled (hw_rxqs hw r) then hw
        else let (s, hw) = GetOrCreateSenderState (sip ch) r hw;
                 s = refresh_sender c (IsGrantReq t) (h_csnEnable c \<and> IsCsnMarked t)
                       ((word_of_nat (p_ecn p) :: u8) \<noteq> 0) False s;
                 hw = snd (applyNewAnnouncement t r (sip ch) (set_sender (sip ch) s hw))
             in if m_pendingDemandDataBytes (sender_at (sip ch) hw) > 0
                then ScheduleCreditGrantTick env hw else hw)"

text \<open>A grant that a switch sent back.\<close>
definition receive_bounced_credit ::
  "HostEnv \<Rightarrow> CustomHeader \<Rightarrow> CreditBouncerTag \<Rightarrow> RdmaHw \<Rightarrow> RdmaHw" where
  "receive_bounced_credit env ch t hw =
    (case GetRxQp (dip ch) (sip ch) (dport ch) (sport ch) (pg ch) False hw of
       (None, hw) \<Rightarrow> hw
     | (Some r, hw) \<Rightarrow>
        if \<not> rx_enabled (hw_rxqs hw r) then hw
        else let (s, hw) = GetOrCreateSenderState (sip ch) r hw;
                 wire = ucast (m_creditBytes t);
                 (s, q, g) = return_credit wire (credit_payload wire (m_creditPad t))
                               (s\<lparr>ss_enabled := True\<rparr>) (hw_rxqs hw r) (m_globalOutstanding hw);
                 hw = set_sender (sip ch) s (set_rxq r q (hw\<lparr>m_globalOutstanding := g\<rparr>));
                 hw = (if \<not> m_completionNotified q \<and> m_expectedChunks q > 0
                       then ScheduleCreditBouncerResend r hw else hw)
             in if m_pendingDemandDataBytes s > 0 then ScheduleCreditGrantTick env hw else hw)"

section \<open>The grant pacer\<close>

record GrantCandidate =
  gc_senderAddr :: u32
  gc_msgState :: nat
  gc_pending :: u64

definition grant_candidates :: "HostEnv \<Rightarrow> RdmaHw \<Rightarrow> GrantCandidate list" where
  "grant_candidates env hw = concat (map (\<lambda>a. case m_senderStates hw a of None \<Rightarrow> []
     | Some s \<Rightarrow>
        if \<not> ss_enabled s \<or> m_pendingDemandDataBytes s = 0 then []
        else map (\<lambda>r. \<lparr>gc_senderAddr = a, gc_msgState = r, gc_pending = m_pendingDemandBytes (hw_rxqs hw r)\<rparr>)
               (filter (\<lambda>r. rx_enabled (hw_rxqs hw r) \<and> m_pendingDemandBytes (hw_rxqs hw r) \<noteq> 0)
                 (ss_msgStates s))) (h_order env))"

text \<open>The payload and wire bytes a candidate may be granted now, if any.\<close>
definition grant_ask :: "u32 \<Rightarrow> u64 \<Rightarrow> SenderState \<Rightarrow> u64" where
  "grant_ask mtu msgPending s =
    (let unitData = (if m_grantGranularityDataBytes s > 0 then m_grantGranularityDataBytes s else ucast mtu);
         minGrantData = min msgPending (ucast mtu);
         unitData = (if unitData < minGrantData then minGrantData else unitData);
         askData = min msgPending unitData;
         askData = min askData (m_pendingDemandDataBytes s)
     in CbAlignChunkPrefixBytes askData msgPending mtu)"

definition trySelectCandidate :: "u64 \<Rightarrow> RdmaHw \<Rightarrow> GrantCandidate \<Rightarrow> (GrantCandidate \<times> u64 \<times> u64) option" where
  "trySelectCandidate globalLimit hw cand =
    (let s = sender_at (gc_senderAddr cand) hw;
         askData = grant_ask (h_mtu (cfg hw)) (gc_pending cand) s;
         askWire = CbAddHeaderOverhead askData (h_mtu (cfg hw)) True
     in if m_OutstandingBytes s > m_maxSrpbBytes s then None
        else if askData = 0 then None
        else if m_globalOutstanding hw + askWire > globalLimit then None
        else if askWire > m_srpbBytes s then None
        else Some (cand, askData, askWire))"

fun first_selectable :: "u64 \<Rightarrow> RdmaHw \<Rightarrow> GrantCandidate list \<Rightarrow> (GrantCandidate \<times> u64 \<times> u64) option" where
  "first_selectable bucket hw [] = None"
| "first_selectable bucket hw (c # cs) =
    (case trySelectCandidate bucket hw c of Some x \<Rightarrow> Some x | None \<Rightarrow> first_selectable bucket hw cs)"

text \<open>Shortest remaining demand first, then sender address, then flow; candidates equal in
  all three keep their order (the code's sort leaves it open).\<close>
definition srpt_order :: "RdmaHw \<Rightarrow> GrantCandidate list \<Rightarrow> GrantCandidate list" where
  "srpt_order hw cs = sort_key gc_pending (sort_key gc_senderAddr
     (sort_key (\<lambda>c. rx_flow_id (hw_rxqs hw (gc_msgState c))) cs))"

text \<open>The round robin starts at the cursor and leaves it after the chosen candidate.\<close>
fun rr_select :: "u64 \<Rightarrow> RdmaHw \<Rightarrow> GrantCandidate list \<Rightarrow> nat list \<Rightarrow> ((GrantCandidate \<times> u64 \<times> u64) \<times> nat) option" where
  "rr_select bucket hw cs [] = None"
| "rr_select bucket hw cs (idx # is) =
    (case trySelectCandidate bucket hw (cs ! idx) of
       Some x \<Rightarrow> Some (x, (idx + 1) mod length cs)
     | None \<Rightarrow> rr_select bucket hw cs is)"

definition select_candidate ::
  "u64 \<Rightarrow> RdmaHw \<Rightarrow> GrantCandidate list \<Rightarrow> (GrantCandidate \<times> u64 \<times> u64) option \<times> RdmaHw" where
  "select_candidate bucket hw cs =
    (case h_grantSchedPolicy (cfg hw) of
       CB_SCHED_SRPT \<Rightarrow> (first_selectable bucket hw (srpt_order hw cs), hw)
     | CB_SCHED_RR \<Rightarrow>
         let total = length cs;
             cursor = (if unat (m_grantRrCursor hw) \<ge> total then 0 else unat (m_grantRrCursor hw))
         in (case rr_select bucket hw cs (map (\<lambda>offset. (cursor + offset) mod total) [0..<total]) of
               None \<Rightarrow> (None, hw\<lparr>m_grantRrCursor := word_of_nat cursor\<rparr>)
             | Some (x, cursor) \<Rightarrow> (Some x, hw\<lparr>m_grantRrCursor := word_of_nat cursor\<rparr>)))"

definition grant_seq :: "RdmaRxQueuePair \<Rightarrow> u32" where
  "grant_seq q =
    (if m_announcementExpectedBytes q > m_pendingDemandBytes q
     then let d = m_announcementExpectedBytes q - m_pendingDemandBytes q
          in if d > 0xFFFFFFFF then 0xFFFFFFFF else ucast d
     else 0)"

definition charge_grant :: "u64 \<Rightarrow> u64 \<Rightarrow> SenderState \<Rightarrow> SenderState" where
  "charge_grant askData askWire s =
    s\<lparr>m_pendingDemandDataBytes := m_pendingDemandDataBytes s - askData,
      m_outstandingDataBytes := m_outstandingDataBytes s + askData,
      m_srpbBytes := sat_sub (m_srpbBytes s) askWire,
      m_OutstandingBytes := m_OutstandingBytes s + askWire\<rparr>"

definition issue_grant :: "GrantCandidate \<times> u64 \<times> u64 \<Rightarrow> RdmaHw \<Rightarrow> RdmaHw option" where
  "issue_grant sel hw =
    (let (cand, askData, askWire) = sel;
         c = cfg hw; r = gc_msgState cand; q = hw_rxqs hw r;
         grantSeq = grant_seq q;
         hw = set_sender (gc_senderAddr cand) (charge_grant askData askWire (sender_at (gc_senderAddr cand) hw)) hw;
         hw = hw\<lparr>m_globalOutstanding := m_globalOutstanding hw + askWire\<rparr>;
         q = q\<lparr>m_pendingDemandBytes := sat_sub (m_pendingDemandBytes q) askData\<rparr>;
         gp = BuildCreditBouncerCtrlPacket c (rx_sip q) (rx_dip q) (rx_sport q) (rx_dport q) (rx_qIndex q)
                grantSeq CB_MSG_GRANT 0 (ucast askWire) (grant_pad askData askWire) 0 0;
         q = q\<lparr>rx_ipid := rx_ipid q + 1\<rparr>;
         hw = set_rxq r q hw
     in case GetNicIdxOfRxQp q True hw of None \<Rightarrow> None
        | Some nic \<Rightarrow> Some (hw_emit (HwTrigger nic) (hw_emit (HwHighPrio nic gp) hw)))"

definition global_limit :: "RdmaConfig \<Rightarrow> u64" where
  "global_limit c = (if h_globalBucket c = 0 then 0xFFFFFFFFFFFFFFFF else ucast (h_globalBucket c))"

definition TryIssueCreditGrant :: "HostEnv \<Rightarrow> RdmaHw \<Rightarrow> (bool \<times> RdmaHw) option" where
  "TryIssueCreditGrant env hw =
    (let cs = grant_candidates env hw in
     if cs = [] then Some (False, hw)
     else case select_candidate (global_limit (cfg hw)) hw cs of
         (None, hw) \<Rightarrow> Some (False, hw)
       | (Some sel, hw) \<Rightarrow> map_option (\<lambda>hw. (True, hw)) (issue_grant sel hw))"

text \<open>The tick: its own event has expired when it runs.\<close>
definition CreditGrantTick :: "HostEnv \<Rightarrow> RdmaHw \<Rightarrow> RdmaHw option" where
  "CreditGrantTick env hw =
    (let hw = hw\<lparr>m_grantTickEvent := False, m_tickCount := m_tickCount hw + 1\<rparr> in
     case TryIssueCreditGrant env hw of None \<Rightarrow> None
     | Some (issued, hw) \<Rightarrow>
         let hw = (if issued then hw\<lparr>m_tickGrantCount := m_tickGrantCount hw + 1\<rparr> else hw)
         in Some (ScheduleCreditGrantTick env hw))"

section \<open>Resend requests\<close>

text \<open>The ranges of missing chunks below the limit, as the loop collects them: the index,
  the start and length of the open range, and the rest of the bitmap below the limit.\<close>
fun missing_ranges :: "u32 \<Rightarrow> u32 \<Rightarrow> u32 \<Rightarrow> bool list \<Rightarrow> (u32 \<times> u32) list" where
  "missing_ranges i rangeStart rangeLen [] = (if rangeLen \<noteq> 0 then [(rangeStart, rangeLen)] else [])"
| "missing_ranges i rangeStart rangeLen (got # bs) =
    (if \<not> got then missing_ranges (i + 1) (if rangeLen = 0 then i else rangeStart) (rangeLen + 1) bs
     else if rangeLen \<noteq> 0 then (rangeStart, rangeLen) # missing_ranges (i + 1) rangeStart 0 bs
     else missing_ranges (i + 1) rangeStart rangeLen bs)"

definition SendCreditBouncerResend :: "nat \<Rightarrow> u32 \<Rightarrow> u32 \<Rightarrow> RdmaHw \<Rightarrow> RdmaHw option" where
  "SendCreditBouncerResend rxQp startIdx numChunks hw =
    (if numChunks = 0 then Some hw
     else let q = hw_rxqs hw rxQp;
              resend = BuildCreditBouncerCtrlPacket (cfg hw) (rx_sip q) (rx_dip q) (rx_sport q) (rx_dport q)
                         (rx_qIndex q) 0 CB_MSG_RESEND 0 0 0 startIdx numChunks;
              hw = set_rxq rxQp (q\<lparr>rx_ipid := rx_ipid q + 1\<rparr>) hw
          in case GetNicIdxOfRxQp q True hw of None \<Rightarrow> None
             | Some nic \<Rightarrow> Some (hw_emit (HwTrigger nic) (hw_emit (HwHighPrio nic resend) hw)))"

fun send_resends :: "nat \<Rightarrow> (u32 \<times> u32) list \<Rightarrow> RdmaHw \<Rightarrow> RdmaHw option" where
  "send_resends rxQp [] hw = Some hw"
| "send_resends rxQp ((start, len) # rs) hw =
    Option.bind (SendCreditBouncerResend rxQp start len hw) (send_resends rxQp rs)"

definition granted_chunks :: "u32 \<Rightarrow> RdmaRxQueuePair \<Rightarrow> u32" where
  "granted_chunks mtu q =
    (let msgBytes = m_announcementExpectedBytes q;
         pendingBytes = min (m_pendingDemandBytes q) msgBytes;
         grantedBytes = msgBytes - pendingBytes
     in min (ucast ((grantedBytes + ucast mtu - 1) div ucast mtu)) (m_expectedChunks q))"

text \<open>Ask for every missing chunk below the granted limit, and rearm the timer while
  something is outstanding.  A read past the end of the bitmap is None.\<close>
definition request_missing :: "nat \<Rightarrow> SenderState \<Rightarrow> RdmaHw \<Rightarrow> RdmaHw option" where
  "request_missing rxQp s hw =
    (let q = hw_rxqs hw rxQp;
         limit = granted_chunks (h_mtu (cfg hw)) q;
         hw = set_rxq rxQp (q\<lparr>m_grantedChunkLimit := limit\<rparr>) hw;
         bitmap = m_receivedChunkBitmap q
     in case (if limit > 0 \<and> bitmap \<noteq> []
              then if length bitmap < unat limit then None
                   else send_resends rxQp (missing_ranges 0 0 0 (take (unat limit) bitmap)) hw
              else Some hw) of
          None \<Rightarrow> None
        | Some hw \<Rightarrow>
            Some (if \<not> m_completionNotified q \<and> m_receivedChunks q < m_expectedChunks q \<and>
                     (m_pendingDemandDataBytes s > 0 \<or> limit > m_receivedChunks q)
                  then ScheduleCreditBouncerResend rxQp hw else hw))"

definition HandleCreditBouncerResendTimeout :: "nat \<Rightarrow> RdmaHw \<Rightarrow> RdmaHw option" where
  "HandleCreditBouncerResendTimeout rxQp hw =
    (let hw = set_rxq rxQp ((hw_rxqs hw rxQp)\<lparr>m_resendEvent := False\<rparr>) hw;
         q = hw_rxqs hw rxQp in
     if \<not> h_creditbouncer (cfg hw) \<or> \<not> rx_enabled q then Some hw
     else if m_completionNotified q \<or> m_expectedChunks q = 0 then Some hw
     else let hw = hw_emit (HwResendTimeout rxQp (ucast (h_resendIntervalNs (cfg hw)))) hw;
              (s, hw) = GetOrCreateSenderState (rx_dip q) rxQp hw
          in if h_mtu (cfg hw) = 0 then Some hw else request_missing rxQp s hw)"

end
