(* ===== verification/RdmaMessages.thy ===== *)
theory RdmaMessages
  imports RdmaReceiver
begin

text \<open>
  The bookkeeping of a message at the receiver: an invariant on the receiver-side
  queue pair that ties the bitmap of received chunks, the two counters and the
  completion flag, kept by every handler, from which a message is reported complete
  only when every chunk of it has arrived, and at most once.
\<close>

section \<open>Chunks of a message\<close>

text \<open>The bytes of chunk i in a message of E bytes cut at the MTU.\<close>
definition chunk_size :: "nat \<Rightarrow> nat \<Rightarrow> nat \<Rightarrow> nat" where
  "chunk_size m E i = min m (E - i * m)"

definition chunks_of :: "nat \<Rightarrow> nat \<Rightarrow> nat" where
  "chunks_of m E = (E + m - 1) div m"

lemma chunks_of_bound:
  assumes "0 < m"
  shows "i < chunks_of m E \<longleftrightarrow> i * m < E"
proof -
  have "i < chunks_of m E \<longleftrightarrow> i + 1 \<le> (E + m - 1) div m" by (simp add: chunks_of_def Suc_le_eq)
  also have "\<dots> \<longleftrightarrow> (i + 1) * m \<le> E + m - 1" using assms by (rule less_eq_div_iff_mult_less_eq)
  also have "\<dots> \<longleftrightarrow> i * m < E" using assms by (auto simp: algebra_simps)
  finally show ?thesis .
qed

lemma chunk_size_pos: "0 < m \<Longrightarrow> i < chunks_of m E \<Longrightarrow> 0 < chunk_size m E i"
  by (simp add: chunks_of_bound chunk_size_def)

lemma chunk_sizes_prefix: "0 < m \<Longrightarrow> (\<Sum>i<n. chunk_size m E i) = min E (n * m)"
  by (induction n) (auto simp: chunk_size_def algebra_simps)

lemma chunk_sizes_total: "0 < m \<Longrightarrow> (\<Sum>i<chunks_of m E. chunk_size m E i) = E"
proof -
  assume m: "0 < m"
  have "\<not> chunks_of m E * m < E" using chunks_of_bound[OF m, of "chunks_of m E" E] by simp
  then show ?thesis by (simp add: chunk_sizes_prefix[OF m])
qed

section \<open>The received part\<close>

definition got :: "bool list \<Rightarrow> nat set" where
  "got bs = {i. i < length bs \<and> bs ! i}"

lemma finite_got [simp]: "finite (got bs)"
  by (simp add: got_def)

lemma got_subset: "got bs \<subseteq> {..<length bs}"
  by (auto simp: got_def)

lemma got_replicate [simp]: "got (replicate n False) = {}"
  by (auto simp: got_def)

lemma got_Nil [simp]: "got [] = {}"
  by (simp add: got_def)

lemma got_update: "i < length bs \<Longrightarrow> got (bs[i := True]) = insert i (got bs)"
  by (auto simp: got_def nth_list_update)

lemma card_got: "card (got bs) \<le> length bs"
  using card_mono[OF _ got_subset[of bs]] by simp

lemma got_all: "card (got bs) = length bs \<Longrightarrow> got bs = {..<length bs}"
  by (rule card_subset_eq[OF _ got_subset]) simp_all

text \<open>What holds of every receiver-side queue pair.\<close>
definition msg_inv :: "nat \<Rightarrow> RdmaRxQueuePair \<Rightarrow> bool" where
  "msg_inv m q \<longleftrightarrow>
     length (m_receivedChunkBitmap q) = unat (m_expectedChunks q) \<and>
     unat (m_receivedChunks q) = card (got (m_receivedChunkBitmap q)) \<and>
     unat (m_expectedChunks q) = chunks_of m (unat (m_announcementExpectedBytes q)) \<and>
     unat (m_announcementExpectedBytes q) < 2 ^ 32 \<and>
     unat (m_receivedDataBytes q)
       \<le> (\<Sum>i\<in>got (m_receivedChunkBitmap q). chunk_size m (unat (m_announcementExpectedBytes q)) i) \<and>
     (\<not> m_announcementAccounted q \<longrightarrow> m_announcementExpectedBytes q = 0 \<and> \<not> m_completionNotified q) \<and>
     (m_completionNotified q \<longrightarrow> m_announcementExpectedBytes q \<noteq> 0 \<and>
        got (m_receivedChunkBitmap q) = {..<unat (m_expectedChunks q)})"

text \<open>Fields the message invariant does not read.\<close>
lemma msg_inv_frame [simp]:
  "msg_inv m (q\<lparr>m_resendEvent := b\<rparr>) = msg_inv m q"
  "msg_inv m (q\<lparr>rx_ipid := i\<rparr>) = msg_inv m q"
  "msg_inv m (q\<lparr>m_pendingDemandBytes := d\<rparr>) = msg_inv m q"
  "msg_inv m (q\<lparr>m_grantedChunkLimit := g\<rparr>) = msg_inv m q"
  by (simp_all add: msg_inv_def)

lemma msg_inv_finish:
  assumes "msg_inv m q" "m_announcementExpectedBytes q \<noteq> 0"
    "got (m_receivedChunkBitmap q) = {..<unat (m_expectedChunks q)}"
  shows "msg_inv m (q\<lparr>m_completionNotified := True\<rparr>)"
proof -
  have g: "m_receivedChunkBitmap (q\<lparr>m_completionNotified := True\<rparr>) = m_receivedChunkBitmap q"
    "m_expectedChunks (q\<lparr>m_completionNotified := True\<rparr>) = m_expectedChunks q"
    "m_receivedChunks (q\<lparr>m_completionNotified := True\<rparr>) = m_receivedChunks q"
    "m_announcementAccounted (q\<lparr>m_completionNotified := True\<rparr>) = m_announcementAccounted q"
    "m_announcementExpectedBytes (q\<lparr>m_completionNotified := True\<rparr>) = m_announcementExpectedBytes q"
    "m_receivedDataBytes (q\<lparr>m_completionNotified := True\<rparr>) = m_receivedDataBytes q" by simp_all
  show ?thesis using assms unfolding msg_inv_def g by blast
qed

lemma msg_inv_ctor: "0 < m \<Longrightarrow> msg_inv m RdmaRxQueuePair_ctor"
  by (simp add: msg_inv_def RdmaRxQueuePair_ctor_def chunks_of_def got_def)

lemma msg_inv_new: "0 < m \<Longrightarrow> msg_inv m (new_rxq c a b sp dp cls)"
  using msg_inv_ctor[of m] by (simp add: msg_inv_def new_rxq_def RdmaRxQueuePair_ctor_def)

lemma expected_chunks_word:
  fixes mtu req :: u32
  assumes "mtu \<noteq> 0"
  shows "unat (ucast ((ucast req + ucast mtu - 1 :: u64) div ucast mtu) :: u32) = chunks_of (unat mtu) (unat req)"
proof -
  have m: "0 < unat mtu" using assms by (simp add: unat_gt_0)
  have u: "unat (ucast req :: u64) = unat req" "unat (ucast mtu :: u64) = unat mtu"
    by (simp_all add: unat_ucast_up)
  have "unat req + unat mtu < 2 ^ LENGTH(64)" using unat_lt_u32[of req] unat_lt_u32[of mtu] by simp
  then have a: "unat (ucast req + ucast mtu :: u64) = unat req + unat mtu"
    by (subst unat_add_lt) (simp_all only: u)
  have "unat (ucast req + ucast mtu - 1 :: u64) = unat req + unat mtu - 1"
    using m by (subst unat_sub_le) (simp_all add: word_le_nat_alt a)
  then have d: "unat ((ucast req + ucast mtu - 1 :: u64) div ucast mtu) = chunks_of (unat mtu) (unat req)"
    by (simp add: unat_div u chunks_of_def)
  have "chunks_of (unat mtu) (unat req) \<le> unat req"
  proof (rule ccontr)
    assume "\<not> ?thesis"
    then have "unat req * unat mtu < unat req" using chunks_of_bound[OF m, of "unat req" "unat req"] by simp
    then show False using m by simp
  qed
  then have "chunks_of (unat mtu) (unat req) < 2 ^ 32" using unat_lt_u32[of req] by simp
  then show ?thesis using d by (simp add: unsigned_ucast_eq take_bit_nat_eq_self)
qed

lemma msg_inv_start:
  assumes "mtu \<noteq> 0"
  shows "msg_inv (unat mtu) (start_message mtu req q)"
proof -
  let ?n = "ucast ((ucast req + ucast mtu - 1 :: u64) div ucast mtu) :: u32"
  have n: "unat ?n = chunks_of (unat mtu) (unat req)" by (rule expected_chunks_word[OF assms])
  have r: "unat (ucast req :: u64) = unat req" "unat req < 4294967296"
    by (simp_all add: unat_ucast_up unat_lt_u32)
  show ?thesis
    using assms unfolding msg_inv_def start_message_def Let_def by (simp add: n r)
qed

lemma mark_chunk_result:
  assumes "mtu \<noteq> 0" "msg_inv (unat mtu) q" "mark_chunk mtu number q = (first, idx, q')"
  shows "unat idx = unat number div unat mtu \<and>
    first = (\<not> (unat number div unat mtu < unat (m_expectedChunks q)
                \<and> m_receivedChunkBitmap q ! (unat number div unat mtu))) \<and>
    q' = (if first \<and> unat number div unat mtu < unat (m_expectedChunks q)
           then q\<lparr>m_receivedChunkBitmap := (m_receivedChunkBitmap q)[unat number div unat mtu := True],
                  m_receivedChunks := m_receivedChunks q + 1\<rparr> else q)"
proof -
  have len: "length (m_receivedChunkBitmap q) = unat (m_expectedChunks q)"
    using assms(2) by (simp add: msg_inv_def)
  have m: "0 < mtu" using assms(1) by (simp add: word_gt_0)
  have d: "unat (number div mtu) = unat number div unat mtu" by (rule unat_div)
  show ?thesis
  proof (cases "number div mtu < m_expectedChunks q")
    case True
    then have lt: "unat number div unat mtu < unat (m_expectedChunks q)"
      by (simp add: word_less_nat_alt d)
    show ?thesis
      using assms(3) m True len lt by (auto simp: mark_chunk_def Let_def d)
  next
    case False
    then have "\<not> unat number div unat mtu < unat (m_expectedChunks q)"
      by (simp add: word_less_nat_alt d)
    then show ?thesis
      using assms(3) m False by (auto simp: mark_chunk_def d)
  qed
qed

text \<open>One data packet inside the announced message keeps the invariant, and the message
  then counts as complete only when every chunk is in.\<close>
lemma msg_inv_absorb:
  assumes m: "mtu \<noteq> 0" and inv: "msg_inv (unat mtu) q"
    and mark: "mark_chunk mtu number q = (first, idx, q1)"
    and q2: "q2 = account_ecn c e f q1"
    and q3: "q3 = (if first then count_payload mtu idx payload q2 else q2)"
    and within: "m_announcementAccounted q \<Longrightarrow> unat number < unat (m_announcementExpectedBytes q)"
  shows "msg_inv (unat mtu) q3"
    and "m_announcementAccounted q3 = m_announcementAccounted q"
    and "m_completionNotified q3 = m_completionNotified q"
    and "message_complete q3 \<Longrightarrow> got (m_receivedChunkBitmap q3) = {..<unat (m_expectedChunks q3)}"
proof -
  let ?m = "unat mtu" and ?E = "unat (m_announcementExpectedBytes q)" and ?n = "unat (m_expectedChunks q)"
  let ?i = "unat number div unat mtu"
  have m0: "0 < ?m" using m by (simp add: unat_gt_0)
  note I = inv[unfolded msg_inv_def]
  from mark_chunk_result[OF m inv mark] have idx: "unat idx = ?i"
    and first: "first \<longleftrightarrow> \<not> (?i < ?n \<and> m_receivedChunkBitmap q ! ?i)"
    and q1: "q1 = (if first \<and> ?i < ?n
       then q\<lparr>m_receivedChunkBitmap := (m_receivedChunkBitmap q)[?i := True],
              m_receivedChunks := m_receivedChunks q + 1\<rparr> else q)" by blast+
  have fields: "m_receivedChunkBitmap q2 = m_receivedChunkBitmap q1" "m_receivedChunks q2 = m_receivedChunks q1"
    "m_expectedChunks q2 = m_expectedChunks q" "m_announcementExpectedBytes q2 = m_announcementExpectedBytes q"
    "m_receivedDataBytes q2 = m_receivedDataBytes q" "m_announcementAccounted q2 = m_announcementAccounted q"
    "m_completionNotified q2 = m_completionNotified q"
    by (auto simp: q2 q1 account_ecn_def Let_def split: option.split)
  have q3f: "m_receivedChunkBitmap q3 = m_receivedChunkBitmap q1" "m_receivedChunks q3 = m_receivedChunks q1"
    "m_expectedChunks q3 = m_expectedChunks q" "m_announcementExpectedBytes q3 = m_announcementExpectedBytes q"
    "m_announcementAccounted q3 = m_announcementAccounted q" "m_completionNotified q3 = m_completionNotified q"
    by (auto simp: q3 fields count_payload_def Let_def)
  show acc: "m_announcementAccounted q3 = m_announcementAccounted q"
    and cn: "m_completionNotified q3 = m_completionNotified q" by (rule q3f)+
  let ?B = "m_receivedChunkBitmap q" and ?B3 = "m_receivedChunkBitmap q3"
  have len: "length ?B = ?n" using I by simp
  show main: "msg_inv ?m q3"
  proof (cases "first \<and> m_announcementAccounted q")
    case False
    have "q1 = q"
    proof (cases "m_announcementAccounted q")
      case True
      then show ?thesis using False q1 by simp
    next
      case F: False
      then have "?E = 0" "?n = chunks_of ?m 0" using I by auto
      then have "\<not> ?i < ?n" using m0 by (simp add: chunks_of_def)
      then show ?thesis using q1 by simp
    qed
    moreover have "m_receivedDataBytes q3 = m_receivedDataBytes q"
    proof (cases first)
      case True
      then have "m_announcementExpectedBytes q = 0" using False I by simp
      then show ?thesis using True by (simp add: q3 count_payload_def fields)
    qed (simp add: q3 fields)
    ultimately show ?thesis using I q3f by (simp add: msg_inv_def)
  next
    case True
    then have E: "unat number < ?E" using within by simp
    have "?i * ?m \<le> unat number" by simp
    then have base: "?i * ?m < ?E" using E by linarith
    then have lt: "?i < ?n" using I chunks_of_bound[OF m0] by simp
    have new: "?i \<notin> got ?B" using first True lt by (simp add: got_def)
    have q1': "m_receivedChunkBitmap q1 = ?B[?i := True]" "m_receivedChunks q1 = m_receivedChunks q + 1"
      using q1 True lt by simp_all
    have got3: "got ?B3 = insert ?i (got ?B)" using lt len by (simp add: q3f q1' got_update)
    have card: "card (got ?B3) = Suc (card (got ?B))" using new by (simp add: got3)
    have "card (got ?B3) \<le> ?n" using card_got[of ?B3] len by (simp add: q3f q1')
    then have "unat (m_receivedChunks q) + 1 < 2 ^ LENGTH(32)"
      using card I unat_lt_u32[of "m_expectedChunks q"] by simp
    then have cnt: "unat (m_receivedChunks q + 1) = card (got ?B3)"
      using I card by (subst unat_add_lt) simp_all
    have E32: "?E < 2 ^ 32" using I by simp
    have b: "unat (ucast idx * ucast mtu :: u64) = ?i * ?m"
      using base E32 by (subst unat_mult_lt) (simp_all add: unat_ucast_up idx)
    have blt: "ucast idx * ucast mtu < m_announcementExpectedBytes q"
      using base by (simp only: word_less_nat_alt b)
    have ilt: "idx < m_expectedChunks q" using lt by (simp add: word_less_nat_alt idx)
    define a where "a = min (ucast payload) (min (ucast mtu) (m_announcementExpectedBytes q - ucast idx * ucast mtu))"
    have rb: "m_receivedDataBytes q3 = min (m_announcementExpectedBytes q) (m_receivedDataBytes q + a)"
      using True blt ilt m E
      by (simp add: q3 count_payload_def fields Let_def a_def word_gt_0 unat_gt_0[symmetric])
    have um: "unat (ucast mtu :: u64) = ?m" by (simp add: unat_ucast_up)
    have "unat (m_announcementExpectedBytes q - ucast idx * ucast mtu) = ?E - ?i * ?m"
      using base by (subst unat_sub_le) (simp_all add: word_le_nat_alt b)
    then have "unat a \<le> chunk_size ?m ?E ?i"
      unfolding a_def unat_min chunk_size_def um by (simp only: min.cobounded2)
    moreover have "unat (m_receivedDataBytes q + a) \<le> unat (m_receivedDataBytes q) + unat a"
      by (simp add: unat_word_ariths)
    ultimately have "unat (m_receivedDataBytes q3)
        \<le> (\<Sum>i\<in>got ?B. chunk_size ?m ?E i) + chunk_size ?m ?E ?i"
      using I unfolding rb unat_min by linarith
    then have bytes: "unat (m_receivedDataBytes q3) \<le> (\<Sum>i\<in>got ?B3. chunk_size ?m ?E i)"
      using new by (simp add: got3)
    have "m_completionNotified q \<Longrightarrow> got ?B = {..<?n}" using I by simp
    then have "\<not> m_completionNotified q" using new lt by blast
    have "length ?B3 = ?n" using len by (simp add: q3f q1')
    moreover have "unat (m_receivedChunks q3) = card (got ?B3)" using cnt by (simp add: q3f(2) q1')
    ultimately show ?thesis using I bytes True \<open>\<not> m_completionNotified q\<close>
      unfolding msg_inv_def q3f(3-6) by simp
  qed
  assume fin: "message_complete q3"
  note J = main[unfolded msg_inv_def]
  let ?n3 = "unat (m_expectedChunks q3)" and ?E3 = "unat (m_announcementExpectedBytes q3)"
  show "got ?B3 = {..<?n3}"
  proof (cases "m_receivedChunks q3 \<ge> m_expectedChunks q3")
    case True
    then have "?n3 \<le> card (got ?B3)" using J by (simp add: word_le_nat_alt)
    then have "card (got ?B3) = length ?B3" using J card_got[of ?B3] by simp
    then have "got ?B3 = {..<length ?B3}" by (rule got_all)
    then show ?thesis using J by simp
  next
    case False
    then have le: "?E3 \<le> (\<Sum>i\<in>got ?B3. chunk_size ?m ?E3 i)"
      using fin J by (auto simp: message_complete_def word_le_nat_alt intro: order_trans)
    show ?thesis
    proof (rule ccontr)
      assume "got ?B3 \<noteq> {..<?n3}"
      then obtain k where k: "k < ?n3" "k \<notin> got ?B3" using got_subset[of ?B3] J by auto
      have "(\<Sum>i\<in>got ?B3. chunk_size ?m ?E3 i) + chunk_size ?m ?E3 k = (\<Sum>i\<in>insert k (got ?B3). chunk_size ?m ?E3 i)"
        using k(2) by simp
      also have "\<dots> \<le> (\<Sum>i<?n3. chunk_size ?m ?E3 i)"
        using k got_subset[of ?B3] J by (intro sum_mono2) auto
      also have "\<dots> = ?E3" using J chunk_sizes_total[OF m0] by simp
      finally show False using le chunk_size_pos[OF m0, of k ?E3] k(1) J by simp
    qed
  qed
qed

section \<open>The host's messages\<close>

text \<open>The completions a host has reported, and those for one key of the receive table.\<close>
fun completion_key :: "hw_output \<Rightarrow> u64 option" where
  "completion_key (HwCompleteSender a sp cls f) = Some (rx_key a cls sp)"
| "completion_key _ = None"

definition reported :: "u64 \<Rightarrow> RdmaHw \<Rightarrow> nat" where
  "reported k hw = length (filter (\<lambda>x. completion_key x = Some k) (hw_out hw))"

definition notified :: "u64 \<Rightarrow> RdmaHw \<Rightarrow> bool" where
  "notified k hw = (case m_rxQpMap hw k of None \<Rightarrow> False | Some r \<Rightarrow> m_completionNotified (hw_rxqs hw r))"

definition rx_inv :: "RdmaHw \<Rightarrow> bool" where
  "rx_inv hw \<longleftrightarrow> (\<forall>r. msg_inv (unat (h_mtu (cfg hw))) (hw_rxqs hw r)) \<and>
     (\<forall>k. reported k hw = of_bool (notified k hw)) \<and>
     (\<forall>k r. m_rxQpMap hw k = Some r \<longrightarrow> r < hw_nextRxq hw) \<and>
     (\<forall>k k' r. m_rxQpMap hw k = Some r \<longrightarrow> m_rxQpMap hw k' = Some r \<longrightarrow> k' = k)"

text \<open>A step that reports no completion and forgets none keeps the second part.\<close>
definition rx_quiet :: "RdmaHw \<Rightarrow> RdmaHw \<Rightarrow> bool" where
  "rx_quiet hw hw' \<longleftrightarrow> cfg hw' = cfg hw \<and> (\<forall>k. reported k hw' = reported k hw) \<and>
     m_rxQpMap hw' = m_rxQpMap hw \<and> hw_nextRxq hw' = hw_nextRxq hw \<and>
     (\<forall>r. msg_inv (unat (h_mtu (cfg hw))) (hw_rxqs hw r) \<longrightarrow>
        msg_inv (unat (h_mtu (cfg hw))) (hw_rxqs hw' r) \<and>
        m_announcementAccounted (hw_rxqs hw' r) = m_announcementAccounted (hw_rxqs hw r) \<and>
        m_announcementExpectedBytes (hw_rxqs hw' r) = m_announcementExpectedBytes (hw_rxqs hw r) \<and>
        m_receivedChunkBitmap (hw_rxqs hw' r) = m_receivedChunkBitmap (hw_rxqs hw r) \<and>
        m_completionNotified (hw_rxqs hw' r) = m_completionNotified (hw_rxqs hw r) \<and>
        rx_enabled (hw_rxqs hw' r) = rx_enabled (hw_rxqs hw r))"

lemma rx_quiet_refl [simp]: "rx_quiet hw hw"
  by (simp add: rx_quiet_def)

lemma rx_quiet_trans: "rx_quiet a b \<Longrightarrow> rx_quiet b c \<Longrightarrow> rx_quiet a c"
  by (simp add: rx_quiet_def)

lemma rx_quiet_inv:
  assumes "rx_quiet hw hw'" "rx_inv hw"
  shows "rx_inv hw'"
proof -
  have "notified k hw' = notified k hw" for k
    using assms by (cases "m_rxQpMap hw k") (simp_all add: notified_def rx_quiet_def rx_inv_def)
  then show ?thesis using assms by (simp add: rx_inv_def rx_quiet_def)
qed

lemma rx_quiet_cfg: "rx_quiet hw hw' \<Longrightarrow> cfg hw' = cfg hw"
  by (simp add: rx_quiet_def)

lemma reported_emit [simp]:
  "reported k (hw_emit x hw) = reported k hw + of_bool (completion_key x = Some k)"
  by (simp add: reported_def)

lemma reported_frame [simp]:
  "reported k (set_rxq r q hw) = reported k hw"
  "reported k (set_qp r' q' hw) = reported k hw"
  "reported k (set_sender a s hw) = reported k hw"
  "reported k (set_receiver a t hw) = reported k hw"
  "reported k (hw\<lparr>m_globalOutstanding := g\<rparr>) = reported k hw"
  "reported k (hw\<lparr>m_grantTickEvent := b\<rparr>) = reported k hw"
  "reported k (hw\<lparr>m_grantRrCursor := c\<rparr>) = reported k hw"
  "reported k (hw\<lparr>m_tickCount := n\<rparr>) = reported k hw"
  "reported k (hw\<lparr>m_tickGrantCount := n\<rparr>) = reported k hw"
  "reported k (hw\<lparr>m_senderStates := m\<rparr>) = reported k hw"
  "reported k (hw\<lparr>m_rxQpMap := mp\<rparr>) = reported k hw"
  "reported k (hw\<lparr>hw_nextRxq := n'\<rparr>) = reported k hw"
  by (simp_all add: reported_def)

lemma rx_quiet_simps [simp]:
  "rx_quiet hw (set_sender a s hw') = rx_quiet hw hw'"
  "rx_quiet hw (hw'\<lparr>m_globalOutstanding := g\<rparr>) = rx_quiet hw hw'"
  "rx_quiet hw (hw'\<lparr>m_grantTickEvent := b\<rparr>) = rx_quiet hw hw'"
  "rx_quiet hw (hw'\<lparr>m_grantRrCursor := c\<rparr>) = rx_quiet hw hw'"
  "rx_quiet hw (hw'\<lparr>m_tickCount := n\<rparr>) = rx_quiet hw hw'"
  "rx_quiet hw (hw'\<lparr>m_tickGrantCount := n\<rparr>) = rx_quiet hw hw'"
  "rx_quiet hw (hw'\<lparr>m_senderStates := m\<rparr>) = rx_quiet hw hw'"
  by (simp_all add: rx_quiet_def)

lemma rx_quiet_emit [simp]: "completion_key x = None \<Longrightarrow> rx_quiet hw (hw_emit x hw') = rx_quiet hw hw'"
  by (simp add: rx_quiet_def)

lemma rx_quiet_set_rxq:
  assumes "rx_quiet hw hw'" "\<And>m. msg_inv m q = msg_inv m (hw_rxqs hw' r)"
    "m_completionNotified q = m_completionNotified (hw_rxqs hw' r)"
    "m_announcementAccounted q = m_announcementAccounted (hw_rxqs hw' r)"
    "m_announcementExpectedBytes q = m_announcementExpectedBytes (hw_rxqs hw' r)"
    "m_receivedChunkBitmap q = m_receivedChunkBitmap (hw_rxqs hw' r)" "rx_enabled q = rx_enabled (hw_rxqs hw' r)"
  shows "rx_quiet hw (set_rxq r q hw')"
  using assms unfolding rx_quiet_def by simp

section \<open>Every handler keeps the messages in order\<close>

lemma quiet_tick: "rx_quiet hw (ScheduleCreditGrantTick env hw') = rx_quiet hw hw'"
  by (simp add: ScheduleCreditGrantTick_def)

lemma quiet_resend: "rx_quiet hw hw' \<Longrightarrow> rx_quiet hw (ScheduleCreditBouncerResend r hw')"
  by (auto simp: ScheduleCreditBouncerResend_def Let_def intro!: rx_quiet_set_rxq)

lemma quiet_cancel: "rx_quiet hw hw' \<Longrightarrow> rx_quiet hw (cancel_resend r hw')"
  by (auto simp: cancel_resend_def Let_def intro!: rx_quiet_set_rxq)

lemma quiet_sender_state: "rx_quiet hw hw' \<Longrightarrow> rx_quiet hw (snd (GetOrCreateSenderState a r hw'))"
  by (simp add: GetOrCreateSenderState_def Let_def)

lemma quiet_cleanup: "rx_quiet hw hw' \<Longrightarrow> rx_quiet hw (CleanupCreditBouncerSenderState r hw')"
  by (simp add: CleanupCreditBouncerSenderState_def Let_def split: option.split)

lemma quiet_first_copy: "rx_quiet hw hw' \<Longrightarrow> rx_quiet hw (account_first_copy a r pl hw')"
  by (simp add: account_first_copy_def split: prod.split)

lemma quiet_issue: "issue_grant sel hw = Some hw' \<Longrightarrow> rx_quiet hw hw'"
  by (auto simp: issue_grant_def Let_def split: prod.splits option.splits intro!: rx_quiet_set_rxq)

lemma quiet_select: "select_candidate b hw cs = (x, hw') \<Longrightarrow> rx_quiet hw hw'"
  by (auto simp: select_candidate_def Let_def split: CreditBouncerSchedPolicy.splits option.splits)

lemma quiet_try: "TryIssueCreditGrant env hw = Some (b, hw') \<Longrightarrow> rx_quiet hw hw'"
  by (auto simp: TryIssueCreditGrant_def Let_def split: if_splits option.splits prod.splits
      dest: quiet_select quiet_issue intro: rx_quiet_trans)

lemma quiet_grant_tick:
  assumes "CreditGrantTick env hw = Some hw'"
  shows "rx_quiet hw hw'"
proof -
  let ?h = "hw\<lparr>m_grantTickEvent := False, m_tickCount := m_tickCount hw + 1\<rparr>"
  from assms obtain b hw1 where t: "TryIssueCreditGrant env ?h = Some (b, hw1)"
    and e: "hw' = ScheduleCreditGrantTick env (if b then hw1\<lparr>m_tickGrantCount := m_tickGrantCount hw1 + 1\<rparr> else hw1)"
    by (auto simp: CreditGrantTick_def Let_def split: option.splits)
  have "rx_quiet hw ?h" by simp
  then have "rx_quiet hw hw1" using quiet_try[OF t] by (rule rx_quiet_trans)
  then show ?thesis by (simp add: e quiet_tick)
qed

lemma quiet_send_resend: "SendCreditBouncerResend r a n hw = Some hw' \<Longrightarrow> rx_quiet hw hw'"
  by (auto simp: SendCreditBouncerResend_def Let_def split: if_splits option.splits intro!: rx_quiet_set_rxq)

lemma quiet_send_resends: "send_resends r rs hw = Some hw' \<Longrightarrow> rx_quiet hw hw'"
  by (induction r rs hw rule: send_resends.induct)
    (auto simp: bind_eq_Some_conv dest: quiet_send_resend intro: rx_quiet_trans)

lemma quiet_missing: "request_missing r s hw = Some hw' \<Longrightarrow> rx_quiet hw hw'"
proof -
  let ?q = "hw_rxqs hw r"
  let ?h = "set_rxq r (?q\<lparr>m_grantedChunkLimit := granted_chunks (h_mtu (cfg hw)) ?q\<rparr>) hw"
  let ?l = "granted_chunks (h_mtu (cfg hw)) ?q" and ?b = "m_receivedChunkBitmap ?q"
  define inner where "inner = (if ?l > 0 \<and> ?b \<noteq> []
     then if length ?b < unat ?l then None else send_resends r (missing_ranges 0 0 0 (take (unat ?l) ?b)) ?h
     else Some ?h)"
  assume "request_missing r s hw = Some hw'"
  then obtain h where h0: "inner = Some h" and h2: "hw' \<in> {h, ScheduleCreditBouncerResend r h}"
    unfolding request_missing_def Let_def inner_def[symmetric] by (auto split: option.splits if_splits)
  have h: "rx_quiet ?h h"
    using h0 unfolding inner_def by (auto split: if_splits dest: quiet_send_resends)
  have "rx_quiet hw ?h" by (rule rx_quiet_set_rxq) simp_all
  then have "rx_quiet hw h" using h by (rule rx_quiet_trans)
  then show ?thesis using h2 by (auto intro: quiet_resend)
qed

lemma quiet_resend_timeout:
  assumes "HandleCreditBouncerResendTimeout r hw = Some hw'"
  shows "rx_quiet hw hw'"
proof -
  define h1 where "h1 = set_rxq r ((hw_rxqs hw r)\<lparr>m_resendEvent := False\<rparr>) hw"
  have q1: "rx_quiet hw h1" unfolding h1_def by (rule rx_quiet_set_rxq) simp_all
  define h2 where "h2 = hw_emit (HwResendTimeout r (ucast (h_resendIntervalNs (cfg h1)))) h1"
  have q2: "rx_quiet hw h2" unfolding h2_def using q1 by simp
  obtain s h3 where g: "GetOrCreateSenderState (rx_dip (hw_rxqs h1 r)) r h2 = (s, h3)"
    by (cases "GetOrCreateSenderState (rx_dip (hw_rxqs h1 r)) r h2")
  have q3: "rx_quiet hw h3" using quiet_sender_state[OF q2, of "rx_dip (hw_rxqs h1 r)" r] g by simp
  have "hw' = h1 \<or> hw' = h3 \<or> request_missing r s h3 = Some hw'"
    using assms g unfolding HandleCreditBouncerResendTimeout_def Let_def h1_def[symmetric] h2_def[symmetric]
    by (simp split: if_splits)
  then show ?thesis using q1 q3 quiet_missing rx_quiet_trans by blast
qed

lemma rx_inv_msg: "rx_inv hw \<Longrightarrow> msg_inv (unat (h_mtu (cfg hw))) (hw_rxqs hw r)"
  by (simp add: rx_inv_def)

lemma rx_inv_set_rxq:
  assumes "rx_inv hw" "msg_inv (unat (h_mtu (cfg hw))) q"
    and "m_completionNotified q = m_completionNotified (hw_rxqs hw r)"
  shows "rx_inv (set_rxq r q hw)"
proof -
  have "notified k (set_rxq r q hw) = notified k hw" for k
    using assms(3) by (auto simp: notified_def split: option.splits)
  then show ?thesis using assms(1,2) by (simp add: rx_inv_def)
qed

lemma rx_inv_GetRxQp:
  assumes inv: "rx_inv hw" and m: "h_mtu (cfg hw) \<noteq> 0" and g: "GetRxQp a b sp dp cls True hw = (x, hw')"
  obtains r where "x = Some r" "rx_inv hw'" "cfg hw' = cfg hw" "m_rxQpMap hw' (rx_key b cls dp) = Some r"
    "m_rxQpMap hw (rx_key b cls dp) = Some r \<and> hw' = hw
     \<or> m_rxQpMap hw (rx_key b cls dp) = None \<and> \<not> m_announcementAccounted (hw_rxqs hw' r)"
proof (cases "m_rxQpMap hw (rx_key b cls dp)")
  case (Some r)
  then show thesis using g inv that[of r] by (simp add: GetRxQp_def)
next
  case None
  let ?r = "hw_nextRxq hw" and ?k = "rx_key b cls dp" and ?q = "new_rxq (cfg hw) a b sp dp cls"
  have f: "x = Some ?r" "cfg hw' = cfg hw" "hw_rxqs hw' = (hw_rxqs hw)(?r := ?q)"
    "m_rxQpMap hw' = (m_rxQpMap hw)(?k \<mapsto> ?r)" "hw_nextRxq hw' = Suc ?r" "hw_out hw' = hw_out hw"
    using g None by (auto simp: GetRxQp_def Let_def GetOrCreateSenderState_def split: if_splits)
  have fresh: "m_rxQpMap hw k \<noteq> Some ?r" for k using inv by (auto simp: rx_inv_def)
  have rep: "reported k hw' = reported k hw" for k by (simp add: reported_def f)
  have "reported k hw' = of_bool (notified k hw')" for k
  proof (cases "k = ?k")
    case True
    then have "\<not> notified k hw" using None by (simp add: notified_def)
    moreover have "\<not> notified k hw'" using True
      by (simp add: notified_def f new_rxq_def RdmaRxQueuePair_ctor_def)
    ultimately show ?thesis using inv rep[of k] by (simp add: rx_inv_def)
  next
    case False
    then have "notified k hw' = notified k hw" using fresh[of k]
      by (auto simp: notified_def f split: option.splits)
    then show ?thesis using inv rep by (simp add: rx_inv_def)
  qed
  moreover have "msg_inv (unat (h_mtu (cfg hw'))) (hw_rxqs hw' r)" for r
    using inv m f msg_inv_new[of "unat (h_mtu (cfg hw))"] by (auto simp: rx_inv_def unat_gt_0)
  moreover have "\<forall>k r. m_rxQpMap hw' k = Some r \<longrightarrow> r < hw_nextRxq hw'"
    using inv f by (auto simp: rx_inv_def less_SucI)
  moreover have "m_rxQpMap hw' k = Some r \<Longrightarrow> m_rxQpMap hw' k' = Some r \<Longrightarrow> k' = k" for k k' r
    using inv fresh by (auto simp: rx_inv_def f split: if_splits)
  ultimately have "rx_inv hw'" by (simp add: rx_inv_def)
  moreover have "\<not> m_announcementAccounted (hw_rxqs hw' ?r)"
    by (simp add: f new_rxq_def RdmaRxQueuePair_ctor_def)
  ultimately show thesis using that[of ?r] f None by simp
qed

text \<open>An announcement that is accepted starts the message; the rest of its accounting is quiet.\<close>
lemma announce_quiet:
  assumes inv: "rx_inv hw" and m: "h_mtu (cfg hw) \<noteq> 0" and a: "applyNewAnnouncement t r addr hw = (b, hw')"
    and acc: "m_creditReqBytes t > 0" "\<not> m_announcementAccounted (hw_rxqs hw r)"
  defines "h1 \<equiv> set_rxq r (start_message (h_mtu (cfg hw)) (m_creditReqBytes t) (hw_rxqs hw r)) hw"
  shows "rx_inv h1" "rx_quiet h1 hw'"
proof -
  let ?q = "hw_rxqs hw r"
  define q1 where "q1 = start_message (h_mtu (cfg hw)) (m_creditReqBytes t) ?q"
  define h2 where "h2 = cancel_resend r h1"
  define dem where "dem = add_demand (ucast (m_creditReqBytes t)) (sender_at addr h2) (hw_rxqs h2 r)"
  define uns where "uns = account_unsolicited (m_unsolCreditBytes t) (m_unsolCreditDataBytes t)
     (fst dem) (snd dem) (m_globalOutstanding h2)"
  define q3 where "q3 = fst (snd uns)"
  define h3 where "h3 = set_sender addr (fst uns) (set_rxq r q3 (h2\<lparr>m_globalOutstanding := snd (snd uns)\<rparr>))"
  have h': "hw' = h3 \<or> hw' = ScheduleCreditBouncerResend r h3"
    using a acc unfolding applyNewAnnouncement_def Let_def h1_def[symmetric]
      h2_def[symmetric] h3_def q3_def uns_def dem_def by (auto split: prod.splits if_splits)
  have "\<not> m_completionNotified ?q" using rx_inv_msg[OF inv, of r] acc by (simp add: msg_inv_def)
  then show i1: "rx_inv h1" unfolding h1_def
    using msg_inv_start[OF m] by (intro rx_inv_set_rxq[OF inv]) (simp_all add: start_message_def Let_def)
  have q12: "rx_quiet h1 h2" unfolding h2_def by (rule quiet_cancel) simp
  have f3: "msg_inv k q3 = msg_inv k (hw_rxqs h2 r)"
    "m_completionNotified q3 = m_completionNotified (hw_rxqs h2 r)"
    "m_announcementAccounted q3 = m_announcementAccounted (hw_rxqs h2 r)"
    "m_announcementExpectedBytes q3 = m_announcementExpectedBytes (hw_rxqs h2 r)"
    "m_receivedChunkBitmap q3 = m_receivedChunkBitmap (hw_rxqs h2 r)" "rx_enabled q3 = rx_enabled (hw_rxqs h2 r)" for k
    by (auto simp: q3_def uns_def dem_def account_unsolicited_def add_demand_def Let_def)
  have "rx_quiet h1 (h2\<lparr>m_globalOutstanding := snd (snd uns)\<rparr>)" using q12 by simp
  then have "rx_quiet h1 (set_rxq r q3 (h2\<lparr>m_globalOutstanding := snd (snd uns)\<rparr>))"
    by (rule rx_quiet_set_rxq) (simp_all add: f3)
  then have "rx_quiet h1 h3" unfolding h3_def by simp
  then show "rx_quiet h1 hw'" using h' by (auto intro: quiet_resend)
qed

lemma announce_refused:
  "\<not> (m_creditReqBytes t > 0 \<and> \<not> m_announcementAccounted (hw_rxqs hw r)) \<Longrightarrow> applyNewAnnouncement t r addr hw = (False, hw)"
  by (simp add: applyNewAnnouncement_def)

lemma rx_inv_announce:
  assumes inv: "rx_inv hw" and m: "h_mtu (cfg hw) \<noteq> 0" and a: "applyNewAnnouncement t r addr hw = (b, hw')"
  shows "rx_inv hw'" "cfg hw' = cfg hw" "m_rxQpMap hw' = m_rxQpMap hw"
    "m_announcementAccounted (hw_rxqs hw' r) \<Longrightarrow> unat (m_announcementExpectedBytes (hw_rxqs hw' r)) =
       (if m_announcementAccounted (hw_rxqs hw r) then unat (m_announcementExpectedBytes (hw_rxqs hw r))
        else unat (m_creditReqBytes t))"
proof -
  let ?q = "hw_rxqs hw r"
  have "rx_inv hw' \<and> cfg hw' = cfg hw \<and> m_rxQpMap hw' = m_rxQpMap hw \<and>
    (m_announcementAccounted (hw_rxqs hw' r) \<longrightarrow> unat (m_announcementExpectedBytes (hw_rxqs hw' r)) =
       (if m_announcementAccounted ?q then unat (m_announcementExpectedBytes ?q)
        else unat (m_creditReqBytes t)))"
  proof (cases "m_creditReqBytes t > 0 \<and> \<not> m_announcementAccounted ?q")
    case False
    then show ?thesis using a inv announce_refused[OF False, of addr] by auto
  next
    case True
    define q1 where "q1 = start_message (h_mtu (cfg hw)) (m_creditReqBytes t) ?q"
    define h1 where "h1 = set_rxq r q1 hw"
    note Q = announce_quiet[OF inv m a conjunct1[OF True] conjunct2[OF True], folded q1_def, folded h1_def]
    have "hw_rxqs h1 r = q1" "cfg h1 = cfg hw" "m_rxQpMap h1 = m_rxQpMap hw" by (simp_all add: h1_def)
    moreover have "unat (m_announcementExpectedBytes q1) = unat (m_creditReqBytes t)"
      by (simp add: q1_def start_message_def Let_def unat_ucast_up)
    ultimately show ?thesis
      using rx_quiet_inv[OF Q(2,1)] Q True by (simp add: rx_quiet_def rx_inv_def)
  qed
  then show "rx_inv hw'" "cfg hw' = cfg hw" "m_rxQpMap hw' = m_rxQpMap hw"
    "m_announcementAccounted (hw_rxqs hw' r) \<Longrightarrow> unat (m_announcementExpectedBytes (hw_rxqs hw' r)) =
       (if m_announcementAccounted ?q then unat (m_announcementExpectedBytes ?q)
        else unat (m_creditReqBytes t))" by simp_all
qed

lemma first_copy_frame [simp]:
  "hw_rxqs (account_first_copy a r pl hw) = hw_rxqs hw" "cfg (account_first_copy a r pl hw) = cfg hw"
  "m_rxQpMap (account_first_copy a r pl hw) = m_rxQpMap hw"
  by (simp_all add: account_first_copy_def split: prod.split)

lemma rx_inv_absorb:
  assumes inv: "rx_inv hw" and m: "h_mtu (cfg hw) \<noteq> 0"
    and within: "m_announcementAccounted (hw_rxqs hw r) \<Longrightarrow>
      unat (seq ch) < unat (m_announcementExpectedBytes (hw_rxqs hw r))"
  shows "rx_inv (absorb_chunk p ch r hw)" (is "rx_inv ?hw'")
    and "cfg (absorb_chunk p ch r hw) = cfg hw" "m_rxQpMap (absorb_chunk p ch r hw) = m_rxQpMap hw"
    and "message_complete (hw_rxqs (absorb_chunk p ch r hw) r) \<Longrightarrow>
      got (m_receivedChunkBitmap (hw_rxqs (absorb_chunk p ch r hw) r))
        = {..<unat (m_expectedChunks (hw_rxqs (absorb_chunk p ch r hw) r))}"
proof -
  let ?c = "cfg hw" and ?q = "hw_rxqs hw r"
  let ?pl = "p_size p - udp_header_size ?c"
  obtain first idx q1 where mark: "mark_chunk (h_mtu ?c) (seq ch) ?q = (first, idx, q1)"
    by (cases "mark_chunk (h_mtu ?c) (seq ch) ?q")
  define q2 where "q2 = account_ecn ?c (word_of_nat (p_ecn p)) (p_flowNum p) q1"
  define q3 where "q3 = (if first then count_payload (h_mtu ?c) idx ?pl q2 else q2)"
  define h1 where "h1 = (if first then account_first_copy (sip ch) r ?pl (set_rxq r q1 hw) else set_rxq r q1 hw)"
  have h': "?hw' = set_rxq r q3 h1"
    by (simp add: absorb_chunk_def Let_def mark q2_def q3_def h1_def)
  note A = msg_inv_absorb[OF m rx_inv_msg[OF inv, of r] mark q2_def q3_def within]
  have e: "hw_rxqs ?hw' = (hw_rxqs hw)(r := q3)" "cfg ?hw' = cfg hw" "m_rxQpMap ?hw' = m_rxQpMap hw"
    by (auto simp: h' h1_def)
  have q: "rx_quiet (set_rxq r q3 hw) ?hw'"
  proof -
    have "rx_quiet (set_rxq r q1 hw) h1" unfolding h1_def by (simp add: quiet_first_copy)
    then show ?thesis unfolding h' by (auto simp: rx_quiet_def)
  qed
  have "rx_inv (set_rxq r q3 hw)" using A(1,3) by (intro rx_inv_set_rxq[OF inv]) simp_all
  then show "rx_inv ?hw'" using q by (blast intro: rx_quiet_inv)
  show "cfg ?hw' = cfg hw" "m_rxQpMap ?hw' = m_rxQpMap hw" by (rule e)+
  show "message_complete (hw_rxqs ?hw' r) \<Longrightarrow>
      got (m_receivedChunkBitmap (hw_rxqs ?hw' r)) = {..<unat (m_expectedChunks (hw_rxqs ?hw' r))}"
    using A(4) by (simp add: e)
qed

lemma rx_inv_complete:
  assumes inv: "rx_inv hw" and key: "m_rxQpMap hw (rx_key (sip ch) (pg ch) (sport ch)) = Some r"
    and c: "message_complete (hw_rxqs hw r)"
    and all: "got (m_receivedChunkBitmap (hw_rxqs hw r)) = {..<unat (m_expectedChunks (hw_rxqs hw r))}"
  shows "rx_inv (complete_message ch r hw)"
proof -
  let ?q = "hw_rxqs hw r" and ?k = "rx_key (sip ch) (pg ch) (sport ch)"
  define h1 where "h1 = set_rxq r (?q\<lparr>m_completionNotified := True\<rparr>) hw"
  define h2 where "h2 = cancel_resend r h1"
  define h3 where "h3 = hw_emit (HwCompleteSender (sip ch) (sport ch) (pg ch) (rx_flow_id (hw_rxqs h2 r))) h2"
  have e: "complete_message ch r hw = CleanupCreditBouncerSenderState r h3"
    by (simp add: complete_message_def Let_def h1_def h2_def h3_def)
  have new: "\<not> notified ?k hw" using c key by (simp add: notified_def message_complete_def)
  have "m_announcementExpectedBytes ?q \<noteq> 0" using c by (auto simp: message_complete_def)
  then have m1: "msg_inv (unat (h_mtu (cfg hw))) (?q\<lparr>m_completionNotified := True\<rparr>)"
    using msg_inv_finish[OF rx_inv_msg[OF inv] _ all] by blast
  have mi: "msg_inv (unat (h_mtu (cfg h1))) (hw_rxqs h1 r')" for r'
    using m1 rx_inv_msg[OF inv] by (simp add: h1_def)
  have q2: "rx_quiet h1 h2" unfolding h2_def by (rule quiet_cancel) simp
  have n: "notified k h3 = (k = ?k \<or> notified k hw)" for k
  proof -
    have "m_completionNotified (hw_rxqs h2 r') = m_completionNotified (hw_rxqs h1 r')" for r'
      using q2 mi by (simp add: rx_quiet_def)
    moreover have "m_rxQpMap h2 = m_rxQpMap hw" using q2 by (simp add: rx_quiet_def h1_def)
    moreover have "m_rxQpMap hw k = Some r \<Longrightarrow> k = ?k" using inv key by (simp add: rx_inv_def)
    ultimately show ?thesis using key by (auto simp: h3_def notified_def h1_def split: option.split)
  qed
  have "reported k h3 = of_bool (notified k h3)" for k
  proof -
    have "reported k h3 = reported k hw + of_bool (k = ?k)"
      using q2 by (auto simp: rx_quiet_def h3_def h1_def)
    also have "\<dots> = of_bool (k = ?k \<or> notified k hw)" using inv new by (auto simp: rx_inv_def)
    finally show ?thesis by (simp only: n)
  qed
  moreover have "msg_inv (unat (h_mtu (cfg h3))) (hw_rxqs h3 r')" for r'
    using q2 mi by (simp add: rx_quiet_def h3_def h1_def)
  moreover have "m_rxQpMap h3 = m_rxQpMap hw" "hw_nextRxq h3 = hw_nextRxq hw"
    using q2 by (simp_all add: rx_quiet_def h3_def h1_def)
  ultimately have "rx_inv h3" using inv by (simp add: rx_inv_def)
  then show ?thesis unfolding e by (blast intro: rx_quiet_inv quiet_cleanup rx_quiet_refl)
qed

lemma complete_frame:
  "cfg (complete_message ch r hw) = cfg hw" "m_rxQpMap (complete_message ch r hw) = m_rxQpMap hw"
  by (simp_all add: complete_message_def cancel_resend_def CleanupCreditBouncerSenderState_def Let_def
      split: option.split)

lemma rx_inv_finish:
  assumes inv: "rx_inv hw" and key: "m_rxQpMap hw (rx_key (sip ch) (pg ch) (sport ch)) = Some r"
    and all: "message_complete (hw_rxqs hw r) \<Longrightarrow>
      got (m_receivedChunkBitmap (hw_rxqs hw r)) = {..<unat (m_expectedChunks (hw_rxqs hw r))}"
  shows "rx_inv (finish_data env ch r hw) \<and> cfg (finish_data env ch r hw) = cfg hw"
proof -
  define h1 where "h1 = (if message_complete (hw_rxqs hw r) then complete_message ch r hw else hw)"
  have i1: "rx_inv h1" "cfg h1 = cfg hw"
    using inv rx_inv_complete[OF inv key _ all] by (auto simp: h1_def complete_frame)
  define h2 where "h2 = (if \<not> m_completionNotified (hw_rxqs h1 r) \<and> m_expectedChunks (hw_rxqs h1 r) > 0
    then ScheduleCreditBouncerResend r h1 else h1)"
  have q2: "rx_quiet h1 h2" by (simp add: h2_def quiet_resend)
  have "rx_quiet h1 (finish_data env ch r hw)"
    using q2 by (simp add: finish_data_def Let_def h1_def[symmetric] h2_def[symmetric] quiet_tick)
  then show ?thesis using i1 rx_quiet_inv rx_quiet_cfg by metis
qed

section \<open>Completion is prompt\<close>

text \<open>A message with every chunk received has been reported.  Between the marking of the
  last chunk and the report this fails for the message at hand.\<close>
definition prompt :: "RdmaRxQueuePair \<Rightarrow> bool" where
  "prompt q \<longleftrightarrow> (m_announcementExpectedBytes q \<noteq> 0 \<and>
     got (m_receivedChunkBitmap q) = {..<unat (m_expectedChunks q)} \<longrightarrow> m_completionNotified q)"

definition prompt_but :: "nat set \<Rightarrow> RdmaHw \<Rightarrow> bool" where
  "prompt_but X hw \<longleftrightarrow> (\<forall>r. r \<notin> X \<longrightarrow> prompt (hw_rxqs hw r))"

lemma prompt_quiet:
  assumes "rx_quiet hw hw'" "rx_inv hw" "prompt_but X hw"
  shows "prompt_but X hw'"
proof -
  have "prompt (hw_rxqs hw' r) = prompt (hw_rxqs hw r)" for r
  proof -
    have i: "msg_inv (unat (h_mtu (cfg hw))) (hw_rxqs hw r)" by (rule rx_inv_msg[OF assms(2)])
    then have e: "msg_inv (unat (h_mtu (cfg hw))) (hw_rxqs hw' r)"
      "m_announcementExpectedBytes (hw_rxqs hw' r) = m_announcementExpectedBytes (hw_rxqs hw r)"
      "m_receivedChunkBitmap (hw_rxqs hw' r) = m_receivedChunkBitmap (hw_rxqs hw r)"
      "m_completionNotified (hw_rxqs hw' r) = m_completionNotified (hw_rxqs hw r)"
      using assms(1) unfolding rx_quiet_def by blast+
    have "unat (m_expectedChunks (hw_rxqs hw' r)) = unat (m_expectedChunks (hw_rxqs hw r))"
      using i e(1,2) unfolding msg_inv_def by simp
    then show ?thesis by (simp add: prompt_def e)
  qed
  then show ?thesis using assms(3) by (simp add: prompt_but_def)
qed

lemma prompt_GetRxQp:
  assumes "GetRxQp a b sp dp cls create hw = (x, hw')" "prompt_but X hw"
  shows "prompt_but X hw'"
proof -
  have "hw_rxqs hw' = hw_rxqs hw \<or> (\<exists>r. hw_rxqs hw' = (hw_rxqs hw)(r := new_rxq (cfg hw) a b sp dp cls))"
    using assms(1) by (auto simp: GetRxQp_def Let_def GetOrCreateSenderState_def split: option.splits if_splits)
  moreover have "prompt (new_rxq (cfg hw) a b sp dp cls)"
    by (simp add: prompt_def new_rxq_def RdmaRxQueuePair_ctor_def)
  ultimately show ?thesis using assms(2) by (auto simp: prompt_but_def)
qed

lemma resend_timer_rxqs:
  "r' \<noteq> r \<Longrightarrow> hw_rxqs (ScheduleCreditBouncerResend r hw) r' = hw_rxqs hw r'"
  "m_receivedChunkBitmap (hw_rxqs (ScheduleCreditBouncerResend r hw) r') = m_receivedChunkBitmap (hw_rxqs hw r')"
  "r' \<noteq> r \<Longrightarrow> hw_rxqs (cancel_resend r hw) r' = hw_rxqs hw r'"
  "m_receivedChunkBitmap (hw_rxqs (cancel_resend r hw) r') = m_receivedChunkBitmap (hw_rxqs hw r')"
  by (auto simp: ScheduleCreditBouncerResend_def cancel_resend_def Let_def)

lemma announce_effect:
  assumes "applyNewAnnouncement t r a hw = (b, hw')"
  shows "(\<forall>r'. r' \<noteq> r \<longrightarrow> hw_rxqs hw' r' = hw_rxqs hw r') \<and>
    (hw' = hw \<or> got (m_receivedChunkBitmap (hw_rxqs hw' r)) = {})"
  using assms
  by (auto simp: applyNewAnnouncement_def account_unsolicited_def add_demand_def Let_def
      resend_timer_rxqs start_message_def split: if_splits)

lemma prompt_announce:
  assumes inv: "rx_inv hw" and m: "h_mtu (cfg hw) \<noteq> 0" and a: "applyNewAnnouncement t r addr hw = (b, hw')"
    and p: "prompt_but {} hw"
  shows "prompt_but {} hw'"
proof -
  note A = rx_inv_announce[OF inv m a]
  have "prompt (hw_rxqs hw' r)" if g: "got (m_receivedChunkBitmap (hw_rxqs hw' r)) = {}"
  proof -
    have "unat (m_expectedChunks (hw_rxqs hw' r))
        = chunks_of (unat (h_mtu (cfg hw))) (unat (m_announcementExpectedBytes (hw_rxqs hw' r)))"
      using rx_inv_msg[OF A(1), of r] A(2) unfolding msg_inv_def by simp
    moreover have "0 < chunks_of (unat (h_mtu (cfg hw))) E" if "0 < E" for E
      using chunks_of_bound[of "unat (h_mtu (cfg hw))" 0 E] m that by (simp add: unat_gt_0)
    ultimately have "{..<unat (m_expectedChunks (hw_rxqs hw' r))} \<noteq> {}"
      if "m_announcementExpectedBytes (hw_rxqs hw' r) \<noteq> 0"
      using that by (metis lessThan_iff empty_iff unat_gt_0)
    then show ?thesis using g unfolding prompt_def by metis
  qed
  then have "prompt (hw_rxqs hw' r')" for r'
    using announce_effect[OF a] p by (cases "r' = r") (auto simp: prompt_but_def)
  then show ?thesis by (simp add: prompt_but_def)
qed

lemma prompt_absorb: "prompt_but {} hw \<Longrightarrow> prompt_but {r} (absorb_chunk p ch r hw)"
  by (simp add: prompt_but_def absorb_chunk_def Let_def split: prod.split)

lemma complete_others:
  assumes "r' \<noteq> r" shows "hw_rxqs (complete_message ch r hw) r' = hw_rxqs hw r'"
  using assms by (simp add: complete_message_def CleanupCreditBouncerSenderState_def Let_def resend_timer_rxqs
      split: option.split)

lemma complete_notified: "m_completionNotified (hw_rxqs (complete_message ch r hw) r)"
  by (simp add: complete_message_def CleanupCreditBouncerSenderState_def cancel_resend_def Let_def
      split: option.split)

text \<open>The test of the code is exact: it holds when every chunk is there.\<close>
lemma complete_when_all:
  assumes "msg_inv m q" "got (m_receivedChunkBitmap q) = {..<unat (m_expectedChunks q)}"
    "m_announcementExpectedBytes q \<noteq> 0" "0 < m"
  shows "message_complete q \<or> m_completionNotified q"
proof -
  have "unat (m_receivedChunks q) = unat (m_expectedChunks q)"
    using assms(1,2) by (simp add: msg_inv_def)
  moreover have "0 < unat (m_expectedChunks q)"
    using assms chunks_of_bound[of m 0 "unat (m_announcementExpectedBytes q)"]
    by (simp add: msg_inv_def unat_gt_0)
  ultimately show ?thesis using assms(3)
    by (auto simp: message_complete_def word_gt_0 word_le_nat_alt unat_gt_0)
qed

lemma prompt_finish:
  assumes inv: "rx_inv hw" and m: "h_mtu (cfg hw) \<noteq> 0"
    and key: "m_rxQpMap hw (rx_key (sip ch) (pg ch) (sport ch)) = Some r"
    and all: "message_complete (hw_rxqs hw r) \<Longrightarrow>
      got (m_receivedChunkBitmap (hw_rxqs hw r)) = {..<unat (m_expectedChunks (hw_rxqs hw r))}"
    and p: "prompt_but {r} hw"
  shows "prompt_but {} (finish_data env ch r hw)"
proof -
  define h1 where "h1 = (if message_complete (hw_rxqs hw r) then complete_message ch r hw else hw)"
  have i1: "rx_inv h1" using inv rx_inv_complete[OF inv key _ all] by (simp add: h1_def)
  have "prompt (hw_rxqs h1 r)"
  proof (cases "message_complete (hw_rxqs hw r)")
    case True
    then show ?thesis by (simp add: h1_def prompt_def complete_notified)
  next
    case False
    then show ?thesis using complete_when_all[OF rx_inv_msg[OF inv, of r]] m
      by (auto simp: h1_def prompt_def unat_gt_0)
  qed
  moreover have "prompt (hw_rxqs h1 r')" if "r' \<noteq> r" for r'
    using p that by (simp add: h1_def prompt_but_def complete_others)
  ultimately have p1: "prompt_but {} h1" by (metis prompt_but_def)
  define h2 where "h2 = (if \<not> m_completionNotified (hw_rxqs h1 r) \<and> m_expectedChunks (hw_rxqs h1 r) > 0
    then ScheduleCreditBouncerResend r h1 else h1)"
  have "rx_quiet h1 h2" by (simp add: h2_def quiet_resend)
  then have "rx_quiet h1 (finish_data env ch r hw)"
    by (simp add: finish_data_def Let_def h1_def[symmetric] h2_def[symmetric] quiet_tick)
  then show ?thesis using i1 p1 by (rule prompt_quiet)
qed

section \<open>Arrivals keep both invariants\<close>

text \<open>What a data packet may be: inside the message it belongs to, as announced before or
  by the packet itself.\<close>
definition data_within :: "CustomHeader \<Rightarrow> CreditBouncerTag \<Rightarrow> RdmaHw \<Rightarrow> bool" where
  "data_within ch t hw \<longleftrightarrow>
    (let fresh = (m_creditReqBytes t > 0 \<longrightarrow> unat (seq ch) < unat (m_creditReqBytes t)) in
     case m_rxQpMap hw (rx_key (sip ch) (pg ch) (sport ch)) of None \<Rightarrow> fresh
     | Some r \<Rightarrow> if m_announcementAccounted (hw_rxqs hw r)
                 then unat (seq ch) < unat (m_announcementExpectedBytes (hw_rxqs hw r)) else fresh)"

lemma rx_quiet_sender: "rx_quiet hw (set_sender a s (snd (GetOrCreateSenderState b r hw)))"
  by (simp add: quiet_sender_state)

lemma announced_by:
  assumes "applyNewAnnouncement t r addr hw = (b, hw')" "m_announcementAccounted (hw_rxqs hw' r)"
    "\<not> m_announcementAccounted (hw_rxqs hw r)"
  shows "m_creditReqBytes t > 0"
  using assms by (auto simp: applyNewAnnouncement_def split: if_splits)

lemma rx_inv_request_data:
  assumes inv: "rx_inv hw" and m: "h_mtu (cfg hw) \<noteq> 0" and w: "data_within ch t hw"
  shows "rx_inv (receive_request_data env p ch t hw) \<and> cfg (receive_request_data env p ch t hw) = cfg hw \<and>
    (prompt_but {} hw \<longrightarrow> prompt_but {} (receive_request_data env p ch t hw))"
proof -
  obtain x h1 where g: "GetRxQp (dip ch) (sip ch) (dport ch) (sport ch) (pg ch) True hw = (x, h1)"
    by (cases "GetRxQp (dip ch) (sip ch) (dport ch) (sport ch) (pg ch) True hw")
  let ?k = "rx_key (sip ch) (pg ch) (sport ch)"
  from rx_inv_GetRxQp[OF inv m g] obtain r where x: "x = Some r" and i1: "rx_inv h1" and c1: "cfg h1 = cfg hw"
    and k1: "m_rxQpMap h1 ?k = Some r"
    and old: "m_rxQpMap hw ?k = Some r \<and> h1 = hw
      \<or> m_rxQpMap hw ?k = None \<and> \<not> m_announcementAccounted (hw_rxqs h1 r)" by blast
  show ?thesis
  proof (cases "rx_enabled (hw_rxqs h1 r)")
    case False
    then show ?thesis using g x i1 c1 prompt_GetRxQp[OF g] by (simp add: receive_request_data_def Let_def)
  next
    case True
    obtain s h2 where s: "GetOrCreateSenderState (sip ch) r h1 = (s, h2)"
      by (cases "GetOrCreateSenderState (sip ch) r h1")
    define s' where "s' = refresh_sender (cfg hw) True (h_csnEnable (cfg hw) \<and> IsCsnMarked t)
      ((word_of_nat (p_ecn p) :: u8) \<noteq> 0) (IsPriorityFlow t)
      (s\<lparr>m_lastEcnMarked := ((word_of_nat (p_ecn p) :: u8) \<noteq> 0)\<rparr>)"
    define h3 where "h3 = set_sender (sip ch) s' h2"
    have q3: "rx_quiet h1 h3" using rx_quiet_sender[of h1 "sip ch" s' "sip ch" r] by (simp add: h3_def s)
    have i3: "rx_inv h3" using q3 i1 by (rule rx_quiet_inv)
    have c3: "cfg h3 = cfg hw" "m_rxQpMap h3 ?k = Some r" using q3 c1 k1 by (simp_all add: rx_quiet_def)
    have a3: "m_announcementAccounted (hw_rxqs h3 r) = m_announcementAccounted (hw_rxqs h1 r)"
      "m_announcementExpectedBytes (hw_rxqs h3 r) = m_announcementExpectedBytes (hw_rxqs h1 r)"
      using q3 i1 by (simp_all add: rx_quiet_def rx_inv_def)
    obtain b h4 where an: "applyNewAnnouncement t r (sip ch) h3 = (b, h4)"
      by (cases "applyNewAnnouncement t r (sip ch) h3")
    have m3: "h_mtu (cfg h3) \<noteq> 0" using m c3 by simp
    note A = rx_inv_announce[OF i3 m3 an]
    have m4: "h_mtu (cfg h4) \<noteq> 0" using m3 A(2) by simp
    have within: "unat (seq ch) < unat (m_announcementExpectedBytes (hw_rxqs h4 r))"
      if acc: "m_announcementAccounted (hw_rxqs h4 r)"
    proof (cases "m_announcementAccounted (hw_rxqs h3 r)")
      case True
      then have "m_rxQpMap hw ?k = Some r \<and> h1 = hw" using old a3 by simp
      then show ?thesis using w True A(4)[OF acc] a3 by (simp add: data_within_def)
    next
      case False
      then have "m_creditReqBytes t > 0" using announced_by[OF an acc] by simp
      moreover have "m_rxQpMap hw ?k = None \<or> m_rxQpMap hw ?k = Some r \<and> \<not> m_announcementAccounted (hw_rxqs hw r)"
        using old False a3 by auto
      ultimately show ?thesis using w False A(4)[OF acc] by (auto simp: data_within_def)
    qed
    define h5 where "h5 = absorb_chunk p ch r h4"
    note B = rx_inv_absorb[OF A(1) m4 within, of p, folded h5_def]
    have "m_rxQpMap h5 ?k = Some r" using B(3) A(3) c3 by simp
    note F = rx_inv_finish[OF B(1) this B(4)]
    have "receive_request_data env p ch t hw = finish_data env ch r h5"
      using True s an by (simp add: receive_request_data_def Let_def g x s'_def[symmetric] c1 h3_def[symmetric] h5_def)
    moreover have "prompt_but {} (finish_data env ch r h5)" if "prompt_but {} hw"
    proof -
      have "prompt_but {} h3" using prompt_quiet[OF q3 i1 prompt_GetRxQp[OF g that]] .
      then have "prompt_but {r} h5" unfolding h5_def by (intro prompt_absorb prompt_announce[OF i3 m3 an])
      then show ?thesis using prompt_finish[OF B(1) _ \<open>m_rxQpMap h5 ?k = Some r\<close> B(4)] B(2) m4 by simp
    qed
    ultimately show ?thesis using F B(2) A(2) c3 by simp
  qed
qed

lemma rx_inv_grant_req:
  assumes inv: "rx_inv hw" and m: "h_mtu (cfg hw) \<noteq> 0"
  shows "rx_inv (receive_grant_req env p ch t hw) \<and> cfg (receive_grant_req env p ch t hw) = cfg hw \<and>
    (prompt_but {} hw \<longrightarrow> prompt_but {} (receive_grant_req env p ch t hw))"
proof -
  obtain x h1 where g: "GetRxQp (dip ch) (sip ch) (dport ch) (sport ch) (pg ch) True hw = (x, h1)"
    by (cases "GetRxQp (dip ch) (sip ch) (dport ch) (sport ch) (pg ch) True hw")
  from rx_inv_GetRxQp[OF inv m g] obtain r where x: "x = Some r" and i1: "rx_inv h1" and c1: "cfg h1 = cfg hw"
    by blast
  obtain s h2 where s: "GetOrCreateSenderState (sip ch) r h1 = (s, h2)"
    by (cases "GetOrCreateSenderState (sip ch) r h1")
  define s' where "s' = refresh_sender (cfg hw) (IsGrantReq t) (h_csnEnable (cfg hw) \<and> IsCsnMarked t)
    ((word_of_nat (p_ecn p) :: u8) \<noteq> 0) False s"
  define h3 where "h3 = set_sender (sip ch) s' h2"
  have q3: "rx_quiet h1 h3" using rx_quiet_sender[of h1 "sip ch" s' "sip ch" r] by (simp add: h3_def s)
  have i3: "rx_inv h3" using q3 i1 by (rule rx_quiet_inv)
  have c3: "cfg h3 = cfg hw" using q3 c1 by (simp add: rx_quiet_def)
  obtain b h4 where an: "applyNewAnnouncement t r (sip ch) h3 = (b, h4)"
    by (cases "applyNewAnnouncement t r (sip ch) h3")
  have m3: "h_mtu (cfg h3) \<noteq> 0" using m c3 by simp
  note A = rx_inv_announce[OF i3 this an]
  have p4: "prompt_but {} hw \<Longrightarrow> prompt_but {} h1 \<and> prompt_but {} h4"
    using prompt_GetRxQp[OF g] prompt_quiet[OF q3 i1] prompt_announce[OF i3 m3 an] by blast
  have "receive_grant_req env p ch t hw =
      (if \<not> rx_enabled (hw_rxqs h1 r) then h1
       else if m_pendingDemandDataBytes (sender_at (sip ch) h4) > 0 then ScheduleCreditGrantTick env h4 else h4)"
    using s an by (simp add: receive_grant_req_def Let_def g x s'_def[symmetric] c1 h3_def[symmetric])
  moreover have q4: "rx_quiet h4 (ScheduleCreditGrantTick env h4)" by (simp add: quiet_tick)
  ultimately show ?thesis
    using A(1,2) c3 c1 i1 p4 rx_quiet_inv[OF q4] rx_quiet_cfg[OF q4] prompt_quiet[OF q4 A(1)] by auto
qed

lemma quiet_bounced: "rx_quiet hw (receive_bounced_credit env ch t hw)"
proof -
  let ?k = "rx_key (sip ch) (pg ch) (sport ch)"
  show ?thesis
  proof (cases "m_rxQpMap hw ?k")
    case None
    then show ?thesis by (simp add: receive_bounced_credit_def GetRxQp_def)
  next
    case (Some r)
    let ?h = "snd (GetOrCreateSenderState (sip ch) r hw)"
    let ?w = "ucast (m_creditBytes t) :: u64"
    define st where "st = return_credit ?w (credit_payload ?w (m_creditPad t))
      ((fst (GetOrCreateSenderState (sip ch) r hw))\<lparr>ss_enabled := True\<rparr>) (hw_rxqs ?h r) (m_globalOutstanding ?h)"
    define q where "q = fst (snd st)"
    define h1 where "h1 = set_sender (sip ch) (fst st) (set_rxq r q (?h\<lparr>m_globalOutstanding := snd (snd st)\<rparr>))"
    have f: "msg_inv m q = msg_inv m (hw_rxqs ?h r)" "m_completionNotified q = m_completionNotified (hw_rxqs ?h r)"
      "m_announcementAccounted q = m_announcementAccounted (hw_rxqs ?h r)"
      "m_announcementExpectedBytes q = m_announcementExpectedBytes (hw_rxqs ?h r)"
      "m_receivedChunkBitmap q = m_receivedChunkBitmap (hw_rxqs ?h r)" "rx_enabled q = rx_enabled (hw_rxqs ?h r)" for m
      by (simp_all add: q_def st_def return_credit_def Let_def)
    have "rx_quiet hw (?h\<lparr>m_globalOutstanding := snd (snd st)\<rparr>)" by (simp add: quiet_sender_state)
    then have "rx_quiet hw (set_rxq r q (?h\<lparr>m_globalOutstanding := snd (snd st)\<rparr>))"
      by (rule rx_quiet_set_rxq) (simp_all add: f)
    then have h1: "rx_quiet hw h1" by (simp add: h1_def)
    have "\<exists>b1 b2. receive_bounced_credit env ch t hw =
       (if \<not> rx_enabled (hw_rxqs hw r) then hw
        else let h2 = (if b1 then ScheduleCreditBouncerResend r h1 else h1)
             in if b2 then ScheduleCreditGrantTick env h2 else h2)"
      using Some by (auto simp: receive_bounced_credit_def GetRxQp_def Let_def h1_def q_def st_def
          case_prod_unfold)
    then show ?thesis using h1 by (auto simp: Let_def quiet_tick quiet_resend)
  qed
qed

end
