(* ===== verification/RdmaSender.thy ===== *)
theory RdmaSender
  imports RdmaState
begin

text \<open>
  The sender half of the DPDQ transport, the parts of
  \<^verbatim>\<open>src/point-to-point/model/rdma-hw.cc\<close> that run where data leaves: the
  classification of a message and its self-allocated credit, the packets it sends
  and the credit they consume, the round-robin choice of the next queue pair, and
  the answers to grants, resend requests and completion.

  The fields of the class that belong to TLT and to the other congestion controls
  are not modelled: the packets built here are those of a host with TLT off.
\<close>

section \<open>Classification\<close>

text \<open>The payload a message may send before any grant: all of it, or what the pair budget
  and the credit already held leave, in whole chunks; nothing above the threshold.\<close>
definition self_allocation :: "RdmaConfig \<Rightarrow> u64 \<Rightarrow> ReceiverState \<Rightarrow> u64" where
  "self_allocation c msgBytes rs =
    (let mtu = h_mtu c;
         msgOnWireBytes = CbAddHeaderOverhead msgBytes mtu False;
         maxSrpbOnWire = ucast (h_maxSrpb c)
     in if msgOnWireBytes \<le> m_unsolicitedThreshBytes rs
        then let toGrantData = (if msgOnWireBytes > maxSrpbOnWire
                                then CbRemoveHeaderOverhead maxSrpbOnWire mtu else msgBytes);
                 toGrantWire = (if msgOnWireBytes > maxSrpbOnWire
                                then CbAddHeaderOverhead toGrantData mtu True else msgOnWireBytes);
                 availOnWire = m_availCreditBytes rs;
                 backlog = (if maxSrpbOnWire > availOnWire then maxSrpbOnWire - availOnWire else 0);
                 minGrantOnWire = CbAddHeaderOverhead (min msgBytes (ucast mtu)) mtu True;
                 backlog = max backlog minGrantOnWire;
                 toGrantData = (if toGrantWire > backlog then CbRemoveHeaderOverhead backlog mtu else toGrantData);
                 toGrantData = (if toGrantData > msgBytes then msgBytes else toGrantData)
             in CbAlignChunkPrefixBytes toGrantData msgBytes mtu
        else 0)"

definition classify_message ::
  "RdmaConfig \<Rightarrow> RdmaQueuePair \<Rightarrow> ReceiverState \<Rightarrow> RdmaQueuePair \<times> ReceiverState" where
  "classify_message c q rs =
    (let toGrantData = self_allocation c (m_size q) rs;
         toGrantWire = CbAddHeaderOverhead toGrantData (h_mtu c) True;
         alloc = (toGrantWire > 0 \<and> toGrantData > 0);
         selfWire = (if alloc then toGrantWire else 0);
         selfData = (if alloc then toGrantData else 0);
         hasScheduled = (if alloc then m_size q > toGrantData else True)
     in (q\<lparr>q_selfAllocCreditBytes := selfWire, q_selfAllocCreditDataBytes := selfData,
           q_remainingSelfAllocCreditDataBytes := selfData,
           q_isScheduled := \<not> alloc, q_hasScheduledPart := hasScheduled,
           q_unsolicitedBytesBudget := selfData, q_unsolicitedBytesSent := 0,
           q_pendingScheduledBytes :=
             (if hasScheduled \<and> m_size q > selfData then m_size q - selfData else 0),
           q_sentAnnouncement := False, q_schedRequestAnnounced := False,
           q_standaloneGrantReqSent := False, q_usnsolCheckDone := True,
           q_classificationReady := True\<rparr>,
         rs\<lparr>m_availCreditBytes := m_availCreditBytes rs + selfWire,
            m_availCreditDataBytes := m_availCreditDataBytes rs + selfData\<rparr>))"

section \<open>Sending\<close>

definition cap32 :: "u64 \<Rightarrow> u32" where
  "cap32 x = (if x > 0xFFFFFFFF then 0xFFFFFFFF else ucast x)"

definition GetHostSchedCreditAvailableBytes :: "HostEnv \<Rightarrow> RdmaHw \<Rightarrow> u64" where
  "GetHostSchedCreditAvailableBytes env hw = sum_list (map (\<lambda>a. case m_receiverStates hw a of None \<Rightarrow> 0
     | Some s \<Rightarrow> if rs_enabled s then m_availCreditBytes s else 0) (h_order env))"

text \<open>The standalone request for grants that announces a fully scheduled message.\<close>
definition announce_scheduled :: "RdmaConfig \<Rightarrow> RdmaQueuePair \<Rightarrow> NsPacket option \<times> RdmaQueuePair" where
  "announce_scheduled c q =
    (let reqBytes = cap32 (m_size q) in
     if reqBytes = 0 then (None, q)
     else (Some (BuildCreditBouncerCtrlPacket c (q_sip q) (q_dip q) (q_sport q) (q_dport q) (m_pg q) 0
                   CB_MSG_GRANT_REQ reqBytes 0 0 0 0),
           q\<lparr>q_standaloneGrantReqSent := True, q_sentAnnouncement := True,
             q_schedRequestAnnounced := True, q_pendingScheduledBytes := ucast reqBytes,
             q_statCreditReqPkts := q_statCreditReqPkts q + 1, q_ipid := q_ipid q + 1\<rparr>))"

text \<open>The credit fields of a data packet and of its queue pair.\<close>
definition tag_data :: "bool \<Rightarrow> bool \<Rightarrow> u32 \<Rightarrow> RdmaQueuePair \<Rightarrow> CreditBouncerTag \<times> RdmaQueuePair" where
  "tag_data csn prio payload q =
    (if \<not> q_isScheduled q
     then let remaining = q_remainingSelfAllocCreditDataBytes q - ucast payload;
              remainingSelf = (if 0 <s remaining then remaining else 0);
              q' = q\<lparr>q_statUnscheduledDataPkts := q_statUnscheduledDataPkts q + (if q_hasScheduledPart q then 1 else 0),
                     q_statUnsolicitedDataPkts := q_statUnsolicitedDataPkts q + (if q_hasScheduledPart q then 0 else 1),
                     q_remainingSelfAllocCreditDataBytes := remaining,
                     q_statCreditReqPkts := q_statCreditReqPkts q + (if q_sentAnnouncement q then 0 else 1),
                     q_schedRequestAnnounced := (if q_sentAnnouncement q then q_schedRequestAnnounced q else True),
                     q_sentAnnouncement := True,
                     q_unsolicitedBytesSent := (if q_selfAllocCreditDataBytes q \<ge> remainingSelf
                       then q_selfAllocCreditDataBytes q - remainingSelf else 0)\<rparr>
          in (CreditBouncerTag_ctor CB_MSG_REQUEST (cap32 (m_size q)) 0 csn prio
                (if q_hasScheduledPart q then CB_DATA_CLASS_UNSCHEDULED else CB_DATA_CLASS_UNSOLICITED)
                (cap32 (q_selfAllocCreditBytes q)) (cap32 (q_selfAllocCreditDataBytes q))
                (0 \<le>s remaining) 0 0 0, q')
     else (CreditBouncerTag_ctor CB_MSG_REQUEST 0 0 csn prio CB_DATA_CLASS_SCHEDULED 0 0 False 0 0 0,
           q\<lparr>q_statScheduledDataPkts := q_statScheduledDataPkts q + 1,
             q_statCsnMarkedPkts := q_statCsnMarkedPkts q + (if csn then 1 else 0)\<rparr>))"

text \<open>IRN remembers the highest offset it has sent.\<close>
definition note_sent :: "RdmaQueuePair \<Rightarrow> RdmaQueuePair" where
  "note_sent q = (if q_irn_enabled q \<and> q_irn_max_seq q < ucast (snd_nxt q)
     then q\<lparr>q_irn_max_seq := ucast (snd_nxt q)\<rparr> else q)"

lemma note_sent_sel [simp]:
  "q_sip (note_sent q) = q_sip q"
  "q_dip (note_sent q) = q_dip q"
  "q_sport (note_sent q) = q_sport q"
  "q_dport (note_sent q) = q_dport q"
  "m_size (note_sent q) = m_size q"
  "snd_nxt (note_sent q) = snd_nxt q"
  "snd_una (note_sent q) = snd_una q"
  "m_pg (note_sent q) = m_pg q"
  "q_ipid (note_sent q) = q_ipid q"
  "q_win (note_sent q) = q_win q"
  "q_baseRtt (note_sent q) = q_baseRtt q"
  "q_var_win (note_sent q) = q_var_win q"
  "q_flow_id (note_sent q) = q_flow_id q"
  "q_timeout (note_sent q) = q_timeout q"
  "q_nextAvail (note_sent q) = q_nextAvail q"
  "q_rate (note_sent q) = q_rate q"
  "q_max_rate (note_sent q) = q_max_rate q"
  "q_irn_enabled (note_sent q) = q_irn_enabled q"
  "q_irn_sack (note_sent q) = q_irn_sack q"
  "q_irn_bdp (note_sent q) = q_irn_bdp q"
  "q_irn_highest_ack (note_sent q) = q_irn_highest_ack q"
  "q_irn_rtoLow (note_sent q) = q_irn_rtoLow q"
  "q_irn_rtoHigh (note_sent q) = q_irn_rtoHigh q"
  "q_irn_recovery (note_sent q) = q_irn_recovery q"
  "q_irn_recovery_seq (note_sent q) = q_irn_recovery_seq q"
  "q_lastPktSize (note_sent q) = q_lastPktSize q"
  "q_retransmit (note_sent q) = q_retransmit q"
  "q_enabled (note_sent q) = q_enabled q"
  "q_classificationReady (note_sent q) = q_classificationReady q"
  "q_hasScheduledPart (note_sent q) = q_hasScheduledPart q"
  "q_schedRequestAnnounced (note_sent q) = q_schedRequestAnnounced q"
  "q_pendingScheduledBytes (note_sent q) = q_pendingScheduledBytes q"
  "q_unsolicitedBytesBudget (note_sent q) = q_unsolicitedBytesBudget q"
  "q_unsolicitedBytesSent (note_sent q) = q_unsolicitedBytesSent q"
  "q_standaloneGrantReqSent (note_sent q) = q_standaloneGrantReqSent q"
  "q_usnsolCheckDone (note_sent q) = q_usnsolCheckDone q"
  "q_isScheduled (note_sent q) = q_isScheduled q"
  "q_sentAnnouncement (note_sent q) = q_sentAnnouncement q"
  "q_selfAllocCreditBytes (note_sent q) = q_selfAllocCreditBytes q"
  "q_selfAllocCreditDataBytes (note_sent q) = q_selfAllocCreditDataBytes q"
  "q_remainingSelfAllocCreditDataBytes (note_sent q) = q_remainingSelfAllocCreditDataBytes q"
  "q_statCreditReqPkts (note_sent q) = q_statCreditReqPkts q"
  "q_statCreditGrantPkts (note_sent q) = q_statCreditGrantPkts q"
  "q_statScheduledDataPkts (note_sent q) = q_statScheduledDataPkts q"
  "q_statUnsolicitedDataPkts (note_sent q) = q_statUnsolicitedDataPkts q"
  "q_statUnscheduledDataPkts (note_sent q) = q_statUnscheduledDataPkts q"
  "q_statCsnMarkedPkts (note_sent q) = q_statCsnMarkedPkts q"
  "q_priorityFlowPending (note_sent q) = q_priorityFlowPending q"
  "q_txTotalPkts (note_sent q) = q_txTotalPkts q"
  "q_txTotalBytes (note_sent q) = q_txTotalBytes q"
  by (simp_all add: note_sent_def)

text \<open>One data packet of a queue pair with credit: the packet, the queue pair after it, and
  the credit left.\<close>
definition send_data ::
  "RdmaConfig \<Rightarrow> bool \<Rightarrow> bool \<Rightarrow> u32 \<Rightarrow> RdmaQueuePair \<Rightarrow> ReceiverState \<Rightarrow> NsPacket \<times> RdmaQueuePair \<times> ReceiverState" where
  "send_data c csn prio payload q rs =
    (let (t, q') = tag_data csn prio payload q in
     (data_packet c q' payload (ucast (snd_nxt q)) t,
      (note_sent q')\<lparr>q_txTotalPkts := q_txTotalPkts q' + 1, q_txTotalBytes := q_txTotalBytes q' + ucast payload,
         snd_nxt := snd_nxt q + ucast payload, q_ipid := q_ipid q' + 1\<rparr>,
      rs\<lparr>m_availCreditBytes := m_availCreditBytes rs - CbAddHeaderOverhead (ucast payload) (h_mtu c) True,
         m_availCreditDataBytes := (if m_availCreditDataBytes rs \<ge> ucast payload
           then m_availCreditDataBytes rs - ucast payload else 0)\<rparr>))"

text \<open>The next packet of a credit-controlled queue pair: nothing, an announcement or data.\<close>
definition next_credit_packet ::
  "HostEnv \<Rightarrow> nat \<Rightarrow> u32 \<Rightarrow> RdmaHw \<Rightarrow> NsPacket option \<times> RdmaHw" where
  "next_credit_packet env qp payload hw =
    (let c = cfg hw; q = hw_qps hw qp;
         prio = q_priorityFlowPending q;
         q = q\<lparr>q_priorityFlowPending := False\<rparr>;
         (rs, hw) = GetOrCreateReceiverState (q_dip q) qp hw;
         rs = rs\<lparr>rs_enabled := True\<rparr>;
         (q, rs) = (if \<not> q_usnsolCheckDone q then classify_message c q rs else (q, rs));
         hw = set_receiver (q_dip q) rs (set_qp qp q hw)
     in if q_isScheduled q \<and> \<not> q_sentAnnouncement q
        then let (p, q) = announce_scheduled c q in (p, set_qp qp q hw)
        else let wire = CbAddHeaderOverhead (ucast payload) (h_mtu c) True in
             if m_availCreditBytes rs = 0 \<or> payload = 0 \<or> wire = 0 \<or> wire > m_availCreditBytes rs
             then (None, hw)
             else let csn = (h_ccEnable c \<and> h_csnEnable c \<and>
                             GetHostSchedCreditAvailableBytes env hw \<ge> m_senderBacklogThresholdBytes rs);
                      (p, q, rs) = send_data c csn prio payload q rs
                  in (Some p, set_receiver (q_dip q) rs (set_qp qp q hw)))"

text \<open>A queue pair without credit control sends its next chunk untagged.\<close>
definition plain_packet :: "RdmaConfig \<Rightarrow> u32 \<Rightarrow> RdmaQueuePair \<Rightarrow> NsPacket \<times> RdmaQueuePair" where
  "plain_packet c payload q =
    ((data_packet c q payload (ucast (snd_nxt q)) CreditBouncerTag_default)\<lparr>p_cbTag := None\<rparr>,
     (note_sent q)\<lparr>q_txTotalPkts := q_txTotalPkts q + 1, q_txTotalBytes := q_txTotalBytes q + ucast payload,
       snd_nxt := snd_nxt q + ucast payload, q_ipid := q_ipid q + 1\<rparr>)"

definition GetNxtPacket :: "HostEnv \<Rightarrow> nat \<Rightarrow> RdmaHw \<Rightarrow> (NsPacket option \<times> RdmaHw) option" where
  "GetNxtPacket env qp hw =
    (case GetBytesLeft (hw_qps hw qp) of None \<Rightarrow> None
     | Some (bytesLeft, q) \<Rightarrow>
        let c = cfg hw;
            payload = CbNextChunkPayloadBytes (snd_nxt q) (m_size q) (h_mtu c);
            payload = (if ucast payload > bytesLeft then ucast (min bytesLeft 0xFFFFFFFF) else payload);
            hw = set_qp qp q hw
        in Some (if h_creditbouncer c \<and> q_enabled q then next_credit_packet env qp payload hw
                 else let (p, q) = plain_packet c payload q in (Some p, set_qp qp q hw)))"

section \<open>Choosing the queue pair\<close>

text \<open>Whether a queue pair can send now, as the round robin tests it: the queue pair and the
  state of its receiver may be touched by the test.\<close>
definition qp_ready :: "HostEnv \<Rightarrow> nat \<Rightarrow> RdmaHw \<Rightarrow> (bool \<times> RdmaHw) option" where
  "qp_ready env r hw =
    (if \<not> q_enabled (hw_qps hw r) then Some (False, hw)
     else case GetBytesLeft (hw_qps hw r) of None \<Rightarrow> None
     | Some (left, q) \<Rightarrow>
        let hw = set_qp r q hw in
        if left = 0 then Some (False, hw)
        else case paused_at (h_paused env) (m_pg q) of None \<Rightarrow> None
        | Some stopped \<Rightarrow> if stopped then Some (False, hw)
        else if q_nextAvail q > h_now env then Some (False, hw)
        else let (rs, hw) = GetOrCreateReceiverState (q_dip q) r hw;
                 hw = set_receiver (q_dip q) (rs\<lparr>rs_enabled := True\<rparr>) hw;
                 sendWire = CbNextChunkOnWireBytes (snd_nxt q) (m_size q) (h_mtu (cfg hw));
                 canSend = (sendWire > 0 \<and> sendWire \<le> m_availCreditBytes rs
                            \<or> q_isScheduled q \<and> \<not> q_sentAnnouncement q)
             in Some (canSend, hw))"

fun rr_qindex :: "HostEnv \<Rightarrow> nat list \<Rightarrow> nat list \<Rightarrow> RdmaHw \<Rightarrow> (nat option \<times> RdmaHw) option" where
  "rr_qindex env grp [] hw = Some (None, hw)"
| "rr_qindex env grp (idx # is) hw =
    (if h_finished env idx then rr_qindex env grp is hw
     else case qp_ready env (grp ! idx) hw of None \<Rightarrow> None
        | Some (True, hw) \<Rightarrow> Some (Some idx, hw)
        | Some (False, hw) \<Rightarrow> rr_qindex env grp is hw)"

definition clear_priority :: "HostEnv \<Rightarrow> nat list \<Rightarrow> RdmaHw \<Rightarrow> RdmaHw" where
  "clear_priority env grp hw = fold (\<lambda>i hw. if h_finished env i then hw
     else set_qp (grp ! i) ((hw_qps hw (grp ! i))\<lparr>q_priorityFlowPending := False\<rparr>) hw) [0..<length grp] hw"

text \<open>The choice under the round-robin policy; no queue pair is None (the code's -1024).\<close>
definition GetNextCreditBouncerQindex_rr ::
  "HostEnv \<Rightarrow> nat list \<Rightarrow> u32 \<Rightarrow> RdmaHw \<Rightarrow> (nat option \<times> RdmaHw) option" where
  "GetNextCreditBouncerQindex_rr env grp rrLast hw =
    (if \<not> h_creditbouncer (cfg hw) \<or> grp = [] then Some (None, hw)
     else rr_qindex env grp (map (\<lambda>step. (unat rrLast + step) mod length grp) [1..<Suc (length grp)])
            (clear_priority env grp hw))"

section \<open>Answers\<close>

definition QpComplete :: "nat \<Rightarrow> RdmaHw \<Rightarrow> RdmaHw" where
  "QpComplete qp hw =
    (let hw = set_qp qp ((hw_qps hw qp)\<lparr>q_retransmit := False\<rparr>) hw
     in hw_emit (HwQpComplete qp) (CleanupCreditBouncerReceiverState qp hw))"

definition CompleteCreditBouncerSenderQp :: "u16 \<Rightarrow> u16 \<Rightarrow> int \<Rightarrow> RdmaHw \<Rightarrow> RdmaHw" where
  "CompleteCreditBouncerSenderQp srcPort cls expectedFlowId hw =
    (case GetQp srcPort cls hw of None \<Rightarrow> hw
     | Some r \<Rightarrow>
        let q = hw_qps hw r in
        if \<not> q_enabled q then hw
        else if expectedFlowId \<ge> 0 \<and> q_flow_id q \<ge> 0 \<and> q_flow_id q \<noteq> expectedFlowId then hw
        else let alreadyFinished = IsFinishedConst q;
                 q = q\<lparr>snd_una := m_size q, snd_nxt := (if snd_nxt q < m_size q then m_size q else snd_nxt q),
                       q_retransmit := False\<rparr>;
                 hw = CleanupCreditBouncerReceiverState r (set_qp r q hw)
             in if \<not> alreadyFinished then QpComplete r hw else hw)"

definition receive_grant :: "CustomHeader \<Rightarrow> CreditBouncerTag \<Rightarrow> RdmaHw \<Rightarrow> RdmaHw option" where
  "receive_grant ch t hw =
    (case GetQp (dport ch) (pg ch) hw of None \<Rightarrow> Some hw
     | Some r \<Rightarrow>
        let q = hw_qps hw r in
        if \<not> q_enabled q then Some hw
        else let (rs, hw) = GetOrCreateReceiverState (q_dip q) r hw;
                 rs = rs\<lparr>rs_enabled := True,
                        m_availCreditBytes := m_availCreditBytes rs + ucast (m_creditBytes t),
                        m_availCreditDataBytes := m_availCreditDataBytes rs
                          + credit_payload (ucast (m_creditBytes t)) (m_creditPad t)\<rparr>;
                 q = q\<lparr>q_statCreditGrantPkts := q_statCreditGrantPkts q + 1\<rparr>;
                 hw = set_qp r q (set_receiver (q_dip q) rs hw)
             in map_option (\<lambda>nic. hw_emit (HwTrigger nic) hw) (GetNicIdxOfQp q hw))"

text \<open>The chunks asked for, one after the other: stop at a wrap or past the message, skip
  what has not been sent yet.\<close>
fun resend_chunks :: "RdmaConfig \<Rightarrow> nat \<Rightarrow> u32 \<Rightarrow> u32 \<Rightarrow> nat \<Rightarrow> RdmaQueuePair \<Rightarrow> NsPacket list \<times> RdmaQueuePair" where
  "resend_chunks c 0 startIdx i nic q = ([], q)"
| "resend_chunks c (Suc n) startIdx i nic q =
    (let chunkIdx = startIdx + i;
         offset = ucast chunkIdx * ucast (h_mtu c) :: u64
     in if chunkIdx < startIdx then ([], q)
        else if offset \<ge> m_size q then ([], q)
        else let payloadSize = CbNextChunkPayloadBytes offset (m_size q) (h_mtu c) in
             if payloadSize = 0 \<or> offset + ucast payloadSize > snd_nxt q
             then resend_chunks c n startIdx (i + 1) nic q
             else let (p, q) = BuildCreditBouncerDataPacket c q payloadSize (ucast offset)
                                 (CbDataClassForOffset q offset) False False;
                      (ps, q) = resend_chunks c n startIdx (i + 1) nic q
                  in (p # ps, q))"

definition receive_resend :: "CustomHeader \<Rightarrow> CreditBouncerTag \<Rightarrow> RdmaHw \<Rightarrow> RdmaHw option" where
  "receive_resend ch t hw =
    (case GetQp (dport ch) (pg ch) hw of None \<Rightarrow> Some hw
     | Some r \<Rightarrow>
        let q = hw_qps hw r in
        if \<not> q_enabled q \<or> h_mtu (cfg hw) = 0 then Some hw
        else case GetNicIdxOfQp q hw of None \<Rightarrow> None
           | Some nic \<Rightarrow>
               let (ps, q) = resend_chunks (cfg hw) (unat (m_resendNumChunks t)) (m_resendStartIdx t) 0 nic q;
                   hw = fold (\<lambda>p hw. hw_emit (HwHighPrio nic p) hw) ps (set_qp r q hw)
               in Some (if ps \<noteq> [] then hw_emit (HwTrigger nic) hw else hw))"

end
