(* ===== verification/RdmaChoice.thy ===== *)
theory RdmaChoice
  imports RdmaSender
begin

text \<open>
  The choice of the queue pair a DPDQ sender serves next under its mixed policy
  (the part of \<^verbatim>\<open>RdmaHw::GetNextCreditBouncerQindex\<close> in
  \<^verbatim>\<open>src/point-to-point/model/rdma-hw.cc\<close> after the round robin).  Each receiver
  with credit puts forward one message: the shortest it can send, an announcement first.
  The receivers then share the link by deficits whose quanta mix an equal share with the
  whole link for the shortest message; a ratio of 1 is shortest-remaining-first.

  The code walks the map of receivers; the order is h\_order, the keys of the map.
  Messages of equal length keep their order (the code's sort leaves it open).
\<close>

section \<open>The message a receiver puts forward\<close>

record ReceiverCandidate =
  rc_addr :: u32
  rc_qp :: nat
  rc_qindex :: nat
  rc_unsent :: u64
  rc_highPrio :: bool

definition reset_sched :: "ReceiverState \<Rightarrow> ReceiverState" where
  "reset_sched st = st\<lparr>m_schedDeficit := 0, m_schedQuantum := 0\<rparr>"

text \<open>The messages that have something to send, are not paused and are due, with what they
  have left: GetBytesLeft is called once to test and once to record it.\<close>
fun local_msgs :: "HostEnv \<Rightarrow> nat list \<Rightarrow> RdmaHw \<Rightarrow> ((u64 \<times> nat) list \<times> RdmaHw) option" where
  "local_msgs env [] hw = Some ([], hw)"
| "local_msgs env (r # rs) hw =
    (if \<not> q_enabled (hw_qps hw r) then local_msgs env rs hw
     else case GetBytesLeft (hw_qps hw r) of None \<Rightarrow> None
     | Some (left, q) \<Rightarrow>
        if left = 0 then local_msgs env rs (set_qp r q hw)
        else case paused_at (h_paused env) (m_pg q) of None \<Rightarrow> None
        | Some stopped \<Rightarrow>
        if stopped \<or> q_nextAvail q > h_now env then local_msgs env rs (set_qp r q hw)
        else case GetBytesLeft q of None \<Rightarrow> None
        | Some (left, q) \<Rightarrow> map_option (\<lambda>(ms, hw). ((left, r) # ms, hw)) (local_msgs env rs (set_qp r q hw)))"

text \<open>Whether the credit covers the next chunk, or an announcement is due that needs none.\<close>
definition credit_covers :: "RdmaHw \<Rightarrow> u64 \<Rightarrow> nat \<Rightarrow> bool" where
  "credit_covers hw avail r =
    (let q = hw_qps hw r; sendWire = CbNextChunkOnWireBytes (snd_nxt q) (m_size q) (h_mtu (cfg hw))
     in sendWire > 0 \<and> sendWire \<le> avail \<or> q_isScheduled q \<and> \<not> q_sentAnnouncement q)"

text \<open>The first that can be sent is kept, unless a later one is still to be announced.\<close>
fun local_choice :: "RdmaHw \<Rightarrow> u64 \<Rightarrow> (u64 \<times> nat) list \<Rightarrow> (u64 \<times> nat) option \<Rightarrow> (u64 \<times> nat) option" where
  "local_choice hw avail [] selected = selected"
| "local_choice hw avail ((unsent, r) # es) selected =
    (if \<not> credit_covers hw avail r then local_choice hw avail es selected
     else if \<not> q_sentAnnouncement (hw_qps hw r) then Some (unsent, r)
     else local_choice hw avail es (if selected = None then Some (unsent, r) else selected))"

definition find_qindex :: "HostEnv \<Rightarrow> nat list \<Rightarrow> u32 \<Rightarrow> nat \<Rightarrow> nat option" where
  "find_qindex env grp rrLast r =
    find (\<lambda>idx. \<not> h_finished env idx \<and> grp ! idx = r)
      (map (\<lambda>step. (unat rrLast + step) mod length grp) [1..<Suc (length grp)])"

text \<open>The candidate of one receiver; a receiver without one loses its deficit.\<close>
definition receiver_candidate ::
  "HostEnv \<Rightarrow> nat list \<Rightarrow> u32 \<Rightarrow> u32 \<Rightarrow> RdmaHw \<Rightarrow> (ReceiverCandidate option \<times> RdmaHw) option" where
  "receiver_candidate env grp rrLast addr hw =
    (case m_receiverStates hw addr of None \<Rightarrow> Some (None, hw)
     | Some st \<Rightarrow>
        if \<not> rs_enabled st \<or> rs_msgStates st = []
        then Some (None, set_receiver addr (reset_sched st) hw)
        else map_option (\<lambda>(ms, hw).
          case local_choice hw (m_availCreditBytes st) (sort_key fst ms) None of
            None \<Rightarrow> (None, set_receiver addr (reset_sched st) hw)
          | Some (unsent, r) \<Rightarrow>
             (case find_qindex env grp rrLast r of
                None \<Rightarrow> (None, set_receiver addr (reset_sched st) hw)
              | Some i \<Rightarrow> (Some \<lparr>rc_addr = addr, rc_qp = r, rc_qindex = i, rc_unsent = unsent,
                                rc_highPrio = False\<rparr>, hw)))
          (local_msgs env (rs_msgStates st) hw))"

fun receiver_candidates ::
  "HostEnv \<Rightarrow> nat list \<Rightarrow> u32 \<Rightarrow> u32 list \<Rightarrow> RdmaHw \<Rightarrow> (ReceiverCandidate list \<times> RdmaHw) option" where
  "receiver_candidates env grp rrLast [] hw = Some ([], hw)"
| "receiver_candidates env grp rrLast (addr # addrs) hw =
    Option.bind (receiver_candidate env grp rrLast addr hw) (\<lambda>(c, hw).
      map_option (\<lambda>(cs, hw). ((case c of None \<Rightarrow> cs | Some c \<Rightarrow> c # cs), hw))
        (receiver_candidates env grp rrLast addrs hw))"

section \<open>Sharing the link\<close>

text \<open>The shortest message of all, the first position of the group among equals.\<close>
definition priority_flow :: "ReceiverCandidate list \<Rightarrow> nat \<times> u64" where
  "priority_flow cs = fold (\<lambda>c (i, m). if rc_unsent c < m \<or> rc_unsent c = m \<and> rc_qindex c < i
     then (rc_qindex c, rc_unsent c) else (i, m)) cs (2 ^ 32 - 1, - 1)"

definition min_unsent :: "ReceiverCandidate list \<Rightarrow> u64" where
  "min_unsent cs = fold (\<lambda>c m. min m (rc_unsent c)) cs (- 1)"

definition mark_high :: "ReceiverCandidate list \<Rightarrow> ReceiverCandidate list" where
  "mark_high cs = map (\<lambda>c. c\<lparr>rc_highPrio := (rc_unsent c = min_unsent cs)\<rparr>) cs"

definition policy_ratio :: "RdmaConfig \<Rightarrow> double" where
  "policy_ratio c = max 0 (min 1 (h_senderPolicyRatio c))"

definition sched_quantum :: "RdmaConfig \<Rightarrow> nat \<Rightarrow> bool \<Rightarrow> double" where
  "sched_quantum c n high =
    (let fsQuantum = fdiv 1 (dbl (of_nat n));
         lowQuantum = fmul fsQuantum (fsub 1 (policy_ratio c))
     in if high then fadd lowQuantum (fmul 1 (policy_ratio c)) else lowQuantum)"

definition upd_receiver :: "(ReceiverState \<Rightarrow> ReceiverState) \<Rightarrow> u32 \<Rightarrow> RdmaHw \<Rightarrow> RdmaHw" where
  "upd_receiver f addr hw = (case m_receiverStates hw addr of None \<Rightarrow> hw | Some st \<Rightarrow> set_receiver addr (f st) hw)"

definition add_deficit :: "ReceiverState \<Rightarrow> ReceiverState" where
  "add_deficit st = st\<lparr>m_schedDeficit := fadd (m_schedDeficit st) (m_schedQuantum st)\<rparr>"

definition give_quanta :: "ReceiverCandidate list \<Rightarrow> RdmaHw \<Rightarrow> RdmaHw" where
  "give_quanta cs hw = fold (\<lambda>c. upd_receiver (\<lambda>st. add_deficit
     (st\<lparr>m_schedQuantum := sched_quantum (cfg hw) (length cs) (rc_highPrio c)\<rparr>)) (rc_addr c)) cs hw"

definition deficit :: "RdmaHw \<Rightarrow> ReceiverCandidate \<Rightarrow> double" where
  "deficit hw c = (case m_receiverStates hw (rc_addr c) of None \<Rightarrow> 0 | Some st \<Rightarrow> m_schedDeficit st)"

text \<open>Until some deficit reaches 1, at most eight times.\<close>
fun refill :: "nat \<Rightarrow> ReceiverCandidate list \<Rightarrow> RdmaHw \<Rightarrow> RdmaHw" where
  "refill 0 cs hw = hw"
| "refill (Suc n) cs hw =
    (if fold (\<lambda>c m. max m (deficit hw c)) cs (- 1) \<ge> 1 then hw
     else refill n cs (fold (\<lambda>c. upd_receiver add_deficit (rc_addr c)) cs hw))"

text \<open>The largest deficit, the shortest message among equals.\<close>
definition pick_best :: "RdmaHw \<Rightarrow> ReceiverCandidate list \<Rightarrow> nat option" where
  "pick_best hw cs = snd (snd (fold (\<lambda>c (bd, bu, sel).
     if deficit hw c > bd \<or> deficit hw c = bd \<and> rc_unsent c < bu
     then (deficit hw c, rc_unsent c, Some (rc_qindex c)) else (bd, bu, sel)) cs (- 1, - 1, None)))"

text \<open>The first candidate at the chosen position pays for its turn.\<close>
definition settle :: "ReceiverCandidate list \<Rightarrow> nat \<Rightarrow> RdmaHw \<Rightarrow> RdmaHw" where
  "settle cs i hw =
    (case find (\<lambda>c. rc_qindex c = i) cs of None \<Rightarrow> hw
     | Some c \<Rightarrow>
        let hw = upd_receiver (\<lambda>st. st\<lparr>m_schedDeficit := max 0 (fsub (m_schedDeficit st) 1)\<rparr>) (rc_addr c) hw
        in set_qp (rc_qp c) ((hw_qps hw (rc_qp c))\<lparr>q_priorityFlowPending :=
             (rc_qindex c = fst (priority_flow cs))\<rparr>) hw)"

definition clear_pending :: "ReceiverCandidate list \<Rightarrow> RdmaHw \<Rightarrow> RdmaHw" where
  "clear_pending cs hw = fold (\<lambda>c hw.
     set_qp (rc_qp c) ((hw_qps hw (rc_qp c))\<lparr>q_priorityFlowPending := False\<rparr>) hw) cs hw"

definition share_link :: "ReceiverCandidate list \<Rightarrow> RdmaHw \<Rightarrow> nat option \<times> RdmaHw" where
  "share_link cs hw =
    (let hw = refill 8 cs (give_quanta (mark_high cs) (clear_pending cs hw));
         sel = pick_best hw cs
     in (sel, case sel of None \<Rightarrow> hw | Some i \<Rightarrow> settle cs i hw))"

definition GetNextCreditBouncerQindex_mixed ::
  "HostEnv \<Rightarrow> nat list \<Rightarrow> u32 \<Rightarrow> RdmaHw \<Rightarrow> (nat option \<times> RdmaHw) option" where
  "GetNextCreditBouncerQindex_mixed env grp rrLast hw =
    (if \<not> h_creditbouncer (cfg hw) \<or> grp = [] then Some (None, hw)
     else map_option (\<lambda>(cs, hw). if cs = [] then (None, hw) else share_link cs hw)
            (receiver_candidates env grp rrLast (h_order env) hw))"

text \<open>No queue pair is None (the code's -1024).\<close>
definition GetNextCreditBouncerQindex ::
  "HostEnv \<Rightarrow> nat list \<Rightarrow> u32 \<Rightarrow> RdmaHw \<Rightarrow> (nat option \<times> RdmaHw) option" where
  "GetNextCreditBouncerQindex env grp rrLast hw =
    (case h_senderSchedPolicy (cfg hw) of
       CB_SCHED_RR \<Rightarrow> GetNextCreditBouncerQindex_rr env grp rrLast hw
     | CB_SCHED_SRPT \<Rightarrow> GetNextCreditBouncerQindex_mixed env grp rrLast hw)"

section \<open>What is put forward\<close>

definition bytes_left :: "RdmaQueuePair \<Rightarrow> u64" where
  "bytes_left q = (if m_size q \<ge> snd_nxt q then m_size q - snd_nxt q else 0)"

text \<open>No queue pair keeps blocks of selective acknowledgements, and each is of one of the 8 classes
  the table of pause flags has entries for.\<close>
definition qps_ok :: "RdmaHw \<Rightarrow> bool" where
  "qps_ok hw \<longleftrightarrow> (\<forall>r. q_irn_sack (hw_qps hw r) = [] \<and> unat (m_pg (hw_qps hw r)) < 8)"

lemma qps_ok_paused: "qps_ok hw \<Longrightarrow> paused_at f (m_pg (hw_qps hw r)) = Some (f (unat (m_pg (hw_qps hw r))))"
  by (simp add: qps_ok_def paused_at_def)

lemma GetBytesLeft_no_sack: "q_irn_sack q = [] \<Longrightarrow> GetBytesLeft q = Some (bytes_left q, q)"
  by (simp add: GetBytesLeft_def skip_sacked_def bytes_left_def)

lemma set_qp_same [simp]: "set_qp r (hw_qps hw r) hw = hw"
  by (simp add: set_qp_def)

text \<open>A message that can send now: it has bytes left, its class is not paused, it is due.\<close>
definition due :: "HostEnv \<Rightarrow> RdmaHw \<Rightarrow> nat \<Rightarrow> bool" where
  "due env hw r \<longleftrightarrow> (let q = hw_qps hw r in q_enabled q \<and> bytes_left q \<noteq> 0 \<and>
     \<not> h_paused env (unat (m_pg q)) \<and> q_nextAvail q \<le> h_now env)"

lemma local_msgs_eq:
  assumes "qps_ok hw"
  shows "local_msgs env rs hw = Some (map (\<lambda>r. (bytes_left (hw_qps hw r), r)) (filter (due env hw) rs), hw)"
proof (induction rs)
  case (Cons r rs)
  have "GetBytesLeft (hw_qps hw r) = Some (bytes_left (hw_qps hw r), hw_qps hw r)"
    using assms by (simp add: qps_ok_def GetBytesLeft_no_sack)
  then show ?case using Cons by (auto simp: due_def Let_def not_le qps_ok_paused[OF assms])
qed simp

lemma local_choice_eq:
  "local_choice hw avail es selected =
    (let sendable = filter (\<lambda>e. credit_covers hw avail (snd e)) es in
     case find (\<lambda>e. \<not> q_sentAnnouncement (hw_qps hw (snd e))) sendable of Some e \<Rightarrow> Some e
     | None \<Rightarrow> (if selected \<noteq> None \<or> sendable = [] then selected else Some (hd sendable)))"
  by (induction hw avail es selected rule: local_choice.induct) (auto simp: Let_def split: option.split)

lemma find_sorted_key:
  assumes "find P (sort_key f xs) = Some x"
  shows "x \<in> set xs \<and> P x \<and> (\<forall>y\<in>set xs. P y \<longrightarrow> f x \<le> f y)"
proof -
  obtain i where i: "i < length (sort_key f xs)" "P (sort_key f xs ! i)" "x = sort_key f xs ! i"
    "\<forall>j<i. \<not> P (sort_key f xs ! j)" using assms unfolding find_Some_iff by blast
  have "x \<in> set (sort_key f xs)" unfolding i(3) by (rule nth_mem[OF i(1)])
  then have "x \<in> set xs" by simp
  moreover have "f x \<le> f y" if "y \<in> set xs" "P y" for y
  proof -
    have "y \<in> set (sort_key f xs)" using that(1) by simp
    then obtain j where j: "j < length (sort_key f xs)" "y = sort_key f xs ! j"
      unfolding in_set_conv_nth by blast
    then have "i \<le> j" using i(4) that(2) not_le by blast
    then show ?thesis using sorted_nth_mono[OF sorted_sort_key[of f xs], of i j] i(1,3) j by simp
  qed
  ultimately show ?thesis using i(2,3) by blast
qed

lemma hd_filter_find: "filter P xs \<noteq> [] \<Longrightarrow> find P xs = Some (hd (filter P xs))"
  by (induction xs) auto

lemma find_filter: "find P (filter Q xs) = find (\<lambda>x. Q x \<and> P x) xs"
  by (induction xs) auto

text \<open>What a receiver may put forward, and the rank of a message among those: announcements
  before data, the shortest first.\<close>
definition sendable :: "HostEnv \<Rightarrow> RdmaHw \<Rightarrow> u32 \<Rightarrow> nat \<Rightarrow> bool" where
  "sendable env hw addr r \<longleftrightarrow> (\<exists>st. m_receiverStates hw addr = Some st \<and> rs_enabled st \<and>
     r \<in> set (rs_msgStates st) \<and> due env hw r \<and> credit_covers hw (m_availCreditBytes st) r)"

definition best_message :: "HostEnv \<Rightarrow> RdmaHw \<Rightarrow> u32 \<Rightarrow> nat \<Rightarrow> bool" where
  "best_message env hw addr r \<longleftrightarrow> sendable env hw addr r \<and>
     (\<forall>r'. sendable env hw addr r' \<longrightarrow>
        (q_sentAnnouncement (hw_qps hw r') \<longrightarrow> q_sentAnnouncement (hw_qps hw r) \<longrightarrow>
           bytes_left (hw_qps hw r) \<le> bytes_left (hw_qps hw r')) \<and>
        (\<not> q_sentAnnouncement (hw_qps hw r') \<longrightarrow> \<not> q_sentAnnouncement (hw_qps hw r) \<and>
           bytes_left (hw_qps hw r) \<le> bytes_left (hw_qps hw r')))"

lemma local_choice_best:
  fixes env :: HostEnv
  assumes "m_receiverStates hw addr = Some st" "rs_enabled st"
  defines "es \<equiv> map (\<lambda>r. (bytes_left (hw_qps hw r), r)) (filter (due env hw) (rs_msgStates st))"
  shows "case local_choice hw (m_availCreditBytes st) (sort_key fst es) None of
      None \<Rightarrow> \<forall>r. \<not> sendable env hw addr r
    | Some (n, r) \<Rightarrow> best_message env hw addr r \<and> n = bytes_left (hw_qps hw r)"
proof -
  let ?C = "\<lambda>e. credit_covers hw (m_availCreditBytes st) (snd e)"
  let ?A = "\<lambda>e. \<not> q_sentAnnouncement (hw_qps hw (snd e))"
  have S: "sendable env hw addr r \<longleftrightarrow> (bytes_left (hw_qps hw r), r) \<in> set es \<and> ?C (bytes_left (hw_qps hw r), r)" for r
    using assms(1,2) by (auto simp: sendable_def es_def)
  have E: "e \<in> set es \<Longrightarrow> e = (bytes_left (hw_qps hw (snd e)), snd e)" for e by (auto simp: es_def)
  show ?thesis
  proof (cases "find (\<lambda>e. ?C e \<and> ?A e) (sort_key fst es)")
    case (Some e)
    note F = find_sorted_key[OF Some]
    have fst_e: "fst e = bytes_left (hw_qps hw (snd e))" using F E[of e] by (metis fst_conv)
    have "best_message env hw addr (snd e)"
      unfolding best_message_def
    proof (intro conjI allI impI)
      show "sendable env hw addr (snd e)" using F E[of e] unfolding S by (metis snd_conv)
    next
      fix r' assume "sendable env hw addr r'" "\<not> q_sentAnnouncement (hw_qps hw r')"
      then have "fst e \<le> fst (bytes_left (hw_qps hw r'), r')" using F unfolding S by (metis snd_conv)
      then show "bytes_left (hw_qps hw (snd e)) \<le> bytes_left (hw_qps hw r')" using fst_e by simp
    qed (use F in auto)
    then show ?thesis using Some E[of e] F by (cases e) (simp add: local_choice_eq find_filter)
  next
    case None
    then have A: "e \<in> set es \<Longrightarrow> ?C e \<Longrightarrow> \<not> ?A e" for e
      unfolding find_None_iff set_sort by blast
    show ?thesis
    proof (cases "filter ?C (sort_key fst es) = []")
      case True
      then have "\<not> sendable env hw addr r" for r unfolding S by (auto simp: filter_empty_conv)
      then show ?thesis using None True by (simp add: local_choice_eq find_filter Let_def)
    next
      case False
      let ?e = "hd (filter ?C (sort_key fst es))"
      note F = find_sorted_key[OF hd_filter_find[OF False]]
      have fst_e: "fst ?e = bytes_left (hw_qps hw (snd ?e))" using F E[of ?e] by (metis fst_conv)
      have min: "bytes_left (hw_qps hw (snd ?e)) \<le> bytes_left (hw_qps hw r')" if "sendable env hw addr r'" for r'
      proof -
        have "fst ?e \<le> fst (bytes_left (hw_qps hw r'), r')" using F that unfolding S by (metis snd_conv)
        then show ?thesis using fst_e by simp
      qed
      have announced: "q_sentAnnouncement (hw_qps hw r')" if "sendable env hw addr r'" for r'
        using A that unfolding S by (metis snd_conv)
      have "sendable env hw addr (snd ?e)" using F E[of ?e] unfolding S by (metis snd_conv)
      then have "best_message env hw addr (snd ?e)" unfolding best_message_def using min announced by blast
      then show ?thesis using None False E[of ?e] F
        by (cases ?e) (simp add: local_choice_eq find_filter Let_def)
    qed
  qed
qed

section \<open>The candidates\<close>

text \<open>Two hosts that differ in nothing but the deficits and quanta.\<close>
definition strip :: "RdmaHw \<Rightarrow> RdmaHw" where
  "strip hw = hw\<lparr>m_receiverStates := (\<lambda>a. map_option reset_sched (m_receiverStates hw a))\<rparr>"

definition receivers_all :: "(ReceiverState \<Rightarrow> bool) \<Rightarrow> RdmaHw \<Rightarrow> bool" where
  "receivers_all P hw \<longleftrightarrow> (\<forall>a st. m_receiverStates hw a = Some st \<longrightarrow> P st)"

lemma reset_sched_sel [simp]:
  "rs_enabled (reset_sched st) = rs_enabled st" "rs_msgStates (reset_sched st) = rs_msgStates st"
  "m_availCreditBytes (reset_sched st) = m_availCreditBytes st" "reset_sched (reset_sched st) = reset_sched st"
  "reset_sched (st\<lparr>m_schedDeficit := d\<rparr>) = reset_sched st"
  "reset_sched (st\<lparr>m_schedQuantum := d\<rparr>) = reset_sched st"
  by (simp_all add: reset_sched_def)

lemma strip_sel [simp]:
  "cfg (strip hw) = cfg hw" "hw_qps (strip hw) = hw_qps hw"
  "m_receiverStates (strip hw) a = map_option reset_sched (m_receiverStates hw a)"
  by (simp_all add: strip_def)

lemma strip_upd: "m_receiverStates hw a = Some st \<Longrightarrow> reset_sched st' = reset_sched st \<Longrightarrow>
    strip (set_receiver a st' hw) = strip hw"
  by (simp add: strip_def set_receiver_def fun_eq_iff)

lemma sendable_strip: "sendable env (strip hw) a r = sendable env hw a r"
  by (auto simp: sendable_def due_def credit_covers_def Let_def)

lemma best_message_strip: "best_message env (strip hw) a r = best_message env hw a r"
  by (simp add: best_message_def sendable_strip)

definition in_group :: "HostEnv \<Rightarrow> nat list \<Rightarrow> nat \<Rightarrow> bool" where
  "in_group env grp r \<longleftrightarrow> (\<exists>i<length grp. \<not> h_finished env i \<and> grp ! i = r)"

definition cand_ok :: "HostEnv \<Rightarrow> nat list \<Rightarrow> RdmaHw \<Rightarrow> ReceiverCandidate \<Rightarrow> bool" where
  "cand_ok env grp hw c \<longleftrightarrow> best_message env hw (rc_addr c) (rc_qp c) \<and>
     rc_unsent c = bytes_left (hw_qps hw (rc_qp c)) \<and>
     rc_qindex c < length grp \<and> \<not> h_finished env (rc_qindex c) \<and> grp ! rc_qindex c = rc_qp c"

lemma cand_ok_strip: "strip hw = strip hw' \<Longrightarrow> cand_ok env grp hw c = cand_ok env grp hw' c"
  unfolding cand_ok_def by (metis best_message_strip strip_sel(2))

lemma round_trip_positions:
  fixes n :: nat
  assumes "i < n"
  shows "\<exists>step\<in>{1..<Suc n}. (l + step) mod n = i"
proof -
  let ?s = "n - (l + (n - i)) mod n"
  have lt: "(l + (n - i)) mod n < n" using assms by simp
  have "(l + ?s) mod n = i"
  proof -
    have "(l + ?s + (n - i)) mod n = ((l + (n - i)) + ?s) mod n" by (simp add: ac_simps)
    also have "\<dots> = ((l + (n - i)) mod n + ?s) mod n" by (simp add: mod_add_left_eq)
    also have "\<dots> = 0" using lt by simp
    finally have "n dvd l + ?s + (n - i)" by presburger
    then obtain k where "l + ?s + (n - i) = n * k" by blast
    then have "l + ?s + n = n * k + i" using assms by simp
    then have "(l + ?s + n) mod n = i" using assms by simp
    then show ?thesis by simp
  qed
  moreover have "?s \<in> {1..<Suc n}" unfolding atLeastLessThan_iff using lt by linarith
  ultimately show ?thesis by blast
qed

lemma find_qindex_spec:
  assumes "grp \<noteq> []"
  shows "case find_qindex env grp l r of None \<Rightarrow> \<not> in_group env grp r
    | Some i \<Rightarrow> i < length grp \<and> \<not> h_finished env i \<and> grp ! i = r"
proof (cases "find_qindex env grp l r")
  case (Some i)
  then have "\<not> h_finished env i \<and> grp ! i = r \<and> i \<in> set (map (\<lambda>step. (unat l + step) mod length grp) [1..<Suc (length grp)])"
    unfolding find_qindex_def find_Some_iff by (metis nth_mem)
  moreover from this have "i < length grp" using assms by auto
  ultimately show ?thesis using Some by simp
next
  case None
  have "\<not> in_group env grp r"
  proof
    assume "in_group env grp r"
    then obtain i where i: "i < length grp" "\<not> h_finished env i" "grp ! i = r" by (auto simp: in_group_def)
    obtain step where "step \<in> {1..<Suc (length grp)}" "(unat l + step) mod length grp = i"
      using round_trip_positions[OF i(1), of "unat l"] by blast
    then show False using None i unfolding find_qindex_def find_None_iff set_map set_upt by blast
  qed
  then show ?thesis using None by simp
qed

lemma receiver_candidate_spec:
  assumes "qps_ok hw" "grp \<noteq> []" "\<forall>r. sendable env hw a r \<longrightarrow> in_group env grp r"
    "receivers_all P hw" "\<forall>st. P st \<longrightarrow> P (reset_sched st)"
  obtains c hw' where "receiver_candidate env grp l a hw = Some (c, hw')" "strip hw' = strip hw"
    "receivers_all P hw'" "case c of None \<Rightarrow> \<forall>r. \<not> sendable env hw a r
       | Some c \<Rightarrow> rc_addr c = a \<and> cand_ok env grp hw c"
proof -
  let ?R = "\<lambda>res. \<exists>c hw'. res = Some (c, hw') \<and> strip hw' = strip hw \<and> receivers_all P hw' \<and>
     (case c of None \<Rightarrow> \<forall>r. \<not> sendable env hw a r | Some c \<Rightarrow> rc_addr c = a \<and> cand_ok env grp hw c)"
  have "?R (receiver_candidate env grp l a hw)"
  proof (cases "m_receiverStates hw a")
    case None
    then show ?thesis using assms(4) by (auto simp: receiver_candidate_def sendable_def)
  next
    case (Some st)
    let ?h = "set_receiver a (reset_sched st) hw"
    have h: "strip ?h = strip hw" using Some by (simp add: strip_upd)
    have "receivers_all P ?h" using assms(4,5) Some unfolding receivers_all_def by auto
    then have no: "?R (Some (None, ?h))" if "\<forall>r. \<not> sendable env hw a r" using h that by simp
    show ?thesis
    proof (cases "rs_enabled st \<and> rs_msgStates st \<noteq> []")
      case False
      then have "\<forall>r. \<not> sendable env hw a r" using Some by (auto simp: sendable_def)
      moreover have "receiver_candidate env grp l a hw = Some (None, ?h)"
        using False Some by (auto simp: receiver_candidate_def)
      ultimately show ?thesis using no by simp
    next
      case True
      let ?es = "map (\<lambda>r. (bytes_left (hw_qps hw r), r)) (filter (due env hw) (rs_msgStates st))"
      note B = local_choice_best[OF Some conjunct1[OF True], of env]
      note M = local_msgs_eq[OF assms(1), of env "rs_msgStates st"]
      show ?thesis
      proof (cases "local_choice hw (m_availCreditBytes st) (sort_key fst ?es) None")
        case None
        then show ?thesis using no B True Some by (simp add: receiver_candidate_def M)
      next
        case L: (Some e)
        obtain n r where e: "e = (n, r)" by fastforce
        have b: "best_message env hw a r" "n = bytes_left (hw_qps hw r)" using B by (simp_all add: L e)
        have "in_group env grp r" using b(1) assms(3) by (simp add: best_message_def)
        then obtain i where i: "find_qindex env grp l r = Some i" "i < length grp" "\<not> h_finished env i" "grp ! i = r"
          using find_qindex_spec[OF assms(2), of env r l] by (cases "find_qindex env grp l r") auto
        show ?thesis using b i True Some assms(4) L e by (simp add: receiver_candidate_def M cand_ok_def)
      qed
    qed
  qed
  then show ?thesis using that by blast
qed

lemma qps_ok_strip: "strip hw' = strip hw \<Longrightarrow> qps_ok hw' = qps_ok hw"
  unfolding qps_ok_def by (metis strip_sel(2))

text \<open>A receiver that is passed over loses its deficit; nothing else happens to receivers.\<close>
lemma receiver_candidate_receivers:
  assumes "qps_ok hw" "receiver_candidate env grp l a hw = Some (c, h)"
  shows "qps_ok h" "m_receiverStates h b = m_receiverStates hw b \<or>
    m_receiverStates h b = map_option reset_sched (m_receiverStates hw b)"
proof -
  have "h = hw \<or> (\<exists>st. m_receiverStates hw a = Some st \<and> h = set_receiver a (reset_sched st) hw)"
    using assms by (auto simp: receiver_candidate_def local_msgs_eq split: option.splits if_splits)
  then show "qps_ok h" "m_receiverStates h b = m_receiverStates hw b \<or>
    m_receiverStates h b = map_option reset_sched (m_receiverStates hw b)"
    using assms(1) by (auto simp: qps_ok_def)
qed

lemma reset_sched_twice: "reset_sched (reset_sched st) = reset_sched st"
  by (simp add: reset_sched_def)

lemma receiver_candidates_receivers:
  assumes "qps_ok hw" "receiver_candidates env grp l addrs hw = Some (cs, h)"
  shows "m_receiverStates h b = m_receiverStates hw b \<or>
    m_receiverStates h b = map_option reset_sched (m_receiverStates hw b)"
  using assms
proof (induction addrs arbitrary: hw cs)
  case (Cons a addrs)
  then obtain c k cs' where c: "receiver_candidate env grp l a hw = Some (c, k)"
    "receiver_candidates env grp l addrs k = Some (cs', h)" by (auto simp: bind_eq_Some_conv)
  note R = receiver_candidate_receivers[OF Cons.prems(1) c(1)]
  from Cons.IH[OF R(1) c(2)] R(2)[of b] show ?case
    by (elim disjE) (simp_all add: option.map_comp comp_def reset_sched_twice)
qed simp

lemma receiver_candidates_spec:
  assumes "qps_ok hw" "grp \<noteq> []" "\<forall>a\<in>set addrs. \<forall>r. sendable env hw a r \<longrightarrow> in_group env grp r"
    "receivers_all P hw" "\<forall>st. P st \<longrightarrow> P (reset_sched st)"
  shows "\<exists>cs hw'. receiver_candidates env grp l addrs hw = Some (cs, hw') \<and> strip hw' = strip hw \<and>
    receivers_all P hw' \<and> (\<forall>c\<in>set cs. cand_ok env grp hw c) \<and> (distinct addrs \<longrightarrow> distinct (map rc_addr cs)) \<and>
    rc_addr ` set cs = {a \<in> set addrs. \<exists>r. sendable env hw a r}"
  using assms(1,3,4)
proof (induction addrs arbitrary: hw)
  case (Cons a addrs)
  obtain c h where c: "receiver_candidate env grp l a hw = Some (c, h)" "strip h = strip hw" "receivers_all P h"
    "case c of None \<Rightarrow> \<forall>r. \<not> sendable env hw a r | Some c \<Rightarrow> rc_addr c = a \<and> cand_ok env grp hw c"
    using receiver_candidate_spec[OF Cons.prems(1) assms(2) _ Cons.prems(3) assms(5), of env a] Cons.prems(2) by auto
  have S: "sendable env h b r = sendable env hw b r" for b r by (metis sendable_strip c(2))
  have K: "cand_ok env grp h k = cand_ok env grp hw k" for k by (rule cand_ok_strip[OF c(2)])
  have "qps_ok h" using Cons.prems(1) qps_ok_strip[OF c(2)] by simp
  from Cons.IH[OF this _ c(3)] Cons.prems(2) obtain cs h' where cs:
    "receiver_candidates env grp l addrs h = Some (cs, h')" "strip h' = strip h" "receivers_all P h'"
    "\<forall>k\<in>set cs. cand_ok env grp hw k" "distinct addrs \<longrightarrow> distinct (map rc_addr cs)"
    "rc_addr ` set cs = {b \<in> set addrs. \<exists>r. sendable env hw b r}"
    unfolding S K by auto
  show ?case
  proof (cases c)
    case None
    then show ?thesis using c cs by auto
  next
    case (Some k)
    then have k: "rc_addr k = a" "cand_ok env grp hw k" using c(4) by simp_all
    then have "\<exists>r. sendable env hw a r" by (auto simp: cand_ok_def best_message_def)
    then show ?thesis using Some c(1,2) cs k by auto
  qed
qed simp

section \<open>What the choice leaves alone\<close>

lemma fold_keeps: "P x \<Longrightarrow> (\<And>c y. P y \<Longrightarrow> P (f c y)) \<Longrightarrow> P (fold f cs x)"
  by (induction cs arbitrary: x) auto

text \<open>Both policies only write queue pairs and receiver states.\<close>
locale choice_keeps =
  fixes P :: "RdmaHw \<Rightarrow> bool"
  assumes qp: "P hw \<Longrightarrow> P (set_qp r q hw)"
    and receiver: "P hw \<Longrightarrow> P (set_receiver a st hw)"
begin

lemma upd: "P hw \<Longrightarrow> P (upd_receiver f a hw)"
  by (simp add: upd_receiver_def receiver split: option.split)

lemma ready: "P hw \<Longrightarrow> qp_ready env r hw = Some (b, hw') \<Longrightarrow> P hw'"
  by (auto simp: qp_ready_def GetOrCreateReceiverState_def Let_def qp receiver split: if_splits option.splits)

lemma round_robin: "P hw \<Longrightarrow> rr_qindex env grp idxs hw = Some (x, hw') \<Longrightarrow> P hw'"
proof (induction env grp idxs hw rule: rr_qindex.induct)
  case (2 env grp idx idxs hw)
  then show ?case by (auto split: if_splits option.splits bool.splits dest: ready)
qed simp

lemma priority: "P hw \<Longrightarrow> P (clear_priority env grp hw)"
  unfolding clear_priority_def by (rule fold_keeps) (simp_all add: qp)

lemma messages: "P hw \<Longrightarrow> local_msgs env rs hw = Some (ms, hw') \<Longrightarrow> P hw'"
proof (induction rs arbitrary: hw ms)
  case (Cons r rs)
  have "local_msgs env rs (set_qp r q hw) = Some (ms', hw') \<Longrightarrow> P hw'" for q ms'
    by (rule Cons.IH[OF qp[OF Cons.prems(1)]])
  moreover have "local_msgs env rs hw = Some (ms', hw') \<Longrightarrow> P hw'" for ms'
    by (rule Cons.IH[OF Cons.prems(1)])
  ultimately show ?case using Cons.prems(2) by (auto split: if_splits option.splits)
qed simp

lemma candidate: "P hw \<Longrightarrow> receiver_candidate env grp l a hw = Some (c, hw') \<Longrightarrow> P hw'"
proof (cases "m_receiverStates hw a")
  case (Some st)
  assume P: "P hw" and r: "receiver_candidate env grp l a hw = Some (c, hw')"
  show ?thesis
  proof (cases "rs_enabled st \<and> rs_msgStates st \<noteq> []")
    case True
    then obtain ms h where m: "local_msgs env (rs_msgStates st) hw = Some (ms, h)"
      using r Some by (auto simp: receiver_candidate_def)
    have "hw' = h \<or> hw' = set_receiver a (reset_sched st) h"
      using r Some True m by (auto simp: receiver_candidate_def split: option.splits)
    then show ?thesis using messages[OF P m] receiver by blast
  qed (use P r Some receiver in \<open>auto simp: receiver_candidate_def\<close>)
qed (simp add: receiver_candidate_def)

lemma candidates: "P hw \<Longrightarrow> receiver_candidates env grp l addrs hw = Some (cs, hw') \<Longrightarrow> P hw'"
proof (induction addrs arbitrary: hw cs)
  case (Cons a addrs)
  show ?case using Cons.prems by (auto simp: bind_eq_Some_conv intro: Cons.IH dest: candidate)
qed simp

lemma refilled: "P hw \<Longrightarrow> P (refill n cs hw)"
  by (induction n cs hw rule: refill.induct) (auto intro: fold_keeps upd)

lemma shared: "P hw \<Longrightarrow> P (snd (share_link cs hw))"
proof -
  assume "P hw"
  then have "P (clear_pending cs hw)" unfolding clear_pending_def by (rule fold_keeps) (rule qp)
  then have "P (give_quanta (mark_high cs) (clear_pending cs hw))"
    unfolding give_quanta_def by (rule fold_keeps) (rule upd)
  then have "P (refill 8 cs (give_quanta (mark_high cs) (clear_pending cs hw)))" by (rule refilled)
  then show ?thesis by (auto simp: share_link_def settle_def Let_def intro: qp upd split: option.split)
qed

lemma chosen:
  assumes "P hw" "GetNextCreditBouncerQindex env grp l hw = Some (x, hw')"
  shows "P hw'"
proof (cases "h_senderSchedPolicy (cfg hw)")
  case CB_SCHED_RR
  then show ?thesis using assms round_robin[OF priority[OF assms(1)]]
    by (auto simp: GetNextCreditBouncerQindex_def GetNextCreditBouncerQindex_rr_def split: if_splits)
next
  case CB_SCHED_SRPT
  then show ?thesis using assms candidates[OF assms(1)] shared
    by (auto simp: GetNextCreditBouncerQindex_def GetNextCreditBouncerQindex_mixed_def split: if_splits)
      (metis snd_conv)
qed

end

lemma candidate_total:
  assumes "qps_ok hw"
  shows "\<exists>c hw'. receiver_candidate env grp l a hw = Some (c, hw') \<and> qps_ok hw'"
proof -
  have "receiver_candidate env grp l a hw \<noteq> None"
    using assms by (auto simp: receiver_candidate_def local_msgs_eq split: option.split)
  then obtain c h where "receiver_candidate env grp l a hw = Some (c, h)" by fast
  then show ?thesis using receiver_candidate_receivers(1)[OF assms] by blast
qed

lemma candidates_total: "qps_ok hw \<Longrightarrow> \<exists>cs hw'. receiver_candidates env grp l addrs hw = Some (cs, hw')"
proof (induction addrs arbitrary: hw)
  case (Cons a addrs)
  obtain c h where c: "receiver_candidate env grp l a hw = Some (c, h)" "qps_ok h"
    using candidate_total[OF Cons.prems] by blast
  then show ?case using Cons.IH[OF c(2)] by auto
qed simp

lemma qp_ready_total: "qps_ok hw \<Longrightarrow> \<exists>b hw'. qp_ready env r hw = Some (b, hw') \<and> qps_ok hw'"
proof -
  assume H: "qps_ok hw"
  have g: "GetBytesLeft (hw_qps hw r) = Some (bytes_left (hw_qps hw r), hw_qps hw r)"
    using H by (simp add: qps_ok_def GetBytesLeft_no_sack)
  have "qps_ok (set_receiver a st h) = qps_ok h" for a st h by (simp add: qps_ok_def)
  moreover have "qps_ok (snd (GetOrCreateReceiverState d r hw))" for d
    using H by (auto simp: GetOrCreateReceiverState_def qps_ok_def Let_def split: option.split)
  moreover have "\<exists>b. \<not> b" by blast
  ultimately show ?thesis using H
    by (simp add: qp_ready_def g qps_ok_paused[OF H] Let_def case_prod_beta)
qed

lemma rr_total: "qps_ok hw \<Longrightarrow> \<exists>x hw'. rr_qindex env grp idxs hw = Some (x, hw')"
proof (induction env grp idxs hw rule: rr_qindex.induct)
  case (2 env grp idx idxs hw)
  obtain b h where "qp_ready env (grp ! idx) hw = Some (b, h)" "qps_ok h" using qp_ready_total[OF 2(3)] by blast
  then show ?case using 2 by (cases b) auto
qed simp

lemma choice_total: "qps_ok hw \<Longrightarrow> \<exists>x. GetNextCreditBouncerQindex env grp l hw = Some x"
proof (cases "h_senderSchedPolicy (cfg hw)")
  case CB_SCHED_RR
  assume "qps_ok hw"
  then have "qps_ok (clear_priority env grp hw)" unfolding clear_priority_def by (rule fold_keeps) (simp add: qps_ok_def)
  from rr_total[OF this] show ?thesis
    using CB_SCHED_RR by (auto simp: GetNextCreditBouncerQindex_def GetNextCreditBouncerQindex_rr_def)
next
  case CB_SCHED_SRPT
  assume "qps_ok hw"
  then obtain cs h where "receiver_candidates env grp l (h_order env) hw = Some (cs, h)"
    using candidates_total by blast
  then show ?thesis
    using CB_SCHED_SRPT by (simp add: GetNextCreditBouncerQindex_def GetNextCreditBouncerQindex_mixed_def)
qed

section \<open>The shares\<close>

definition sched_nonneg :: "ReceiverState \<Rightarrow> bool" where
  "sched_nonneg st \<longleftrightarrow> 0 \<le> m_schedDeficit st \<and> 0 \<le> m_schedQuantum st"

lemma upd_receiver_sel [simp]: "cfg (upd_receiver f a hw) = cfg hw" "hw_qps (upd_receiver f a hw) = hw_qps hw"
  by (simp_all add: upd_receiver_def split: option.split)

lemma upd_receiver_all:
  "receivers_all P hw \<Longrightarrow> (\<And>st. P st \<Longrightarrow> P (f st)) \<Longrightarrow> receivers_all P (upd_receiver f a hw)"
  by (auto simp: receivers_all_def upd_receiver_def split: option.splits)

lemma sched_quantum_nonneg: "0 \<le> sched_quantum c n high"
proof -
  have "0 \<le> fsub 1 (policy_ratio c)" "0 \<le> policy_ratio c"
    by (simp_all add: fsub_def policy_ratio_def dbl_nonneg)
  then show ?thesis
    by (simp add: sched_quantum_def Let_def fadd_def dbl_nonneg fmul_nonneg fdiv_nonneg)
qed

lemma add_deficit_nonneg: "sched_nonneg st \<Longrightarrow> sched_nonneg (add_deficit st)"
  by (simp add: sched_nonneg_def add_deficit_def fadd_def dbl_nonneg)

lemma give_quanta_nonneg: "receivers_all sched_nonneg hw \<Longrightarrow> receivers_all sched_nonneg (give_quanta cs hw)"
  unfolding give_quanta_def
proof (rule fold_keeps)
  fix c h assume "receivers_all sched_nonneg h"
  then show "receivers_all sched_nonneg (upd_receiver (\<lambda>st. add_deficit
      (st\<lparr>m_schedQuantum := sched_quantum (cfg hw) (length cs) (rc_highPrio c)\<rparr>)) (rc_addr c) h)"
    by (rule upd_receiver_all) (rule add_deficit_nonneg, simp add: sched_nonneg_def sched_quantum_nonneg)
qed

lemma refill_nonneg: "receivers_all sched_nonneg hw \<Longrightarrow> receivers_all sched_nonneg (refill n cs hw)"
proof (induction n cs hw rule: refill.induct)
  case (2 n cs hw)
  have "receivers_all sched_nonneg (fold (\<lambda>c. upd_receiver add_deficit (rc_addr c)) cs hw)"
    using 2(2) by (rule fold_keeps) (erule upd_receiver_all, erule add_deficit_nonneg)
  then show ?case using 2 by simp
qed simp

lemma deficit_nonneg: "receivers_all sched_nonneg hw \<Longrightarrow> 0 \<le> deficit hw c"
  by (auto simp: deficit_def receivers_all_def sched_nonneg_def split: option.split)

text \<open>The candidate picked has the largest deficit and, among those, the fewest bytes.\<close>
definition ranks_before :: "RdmaHw \<Rightarrow> ReceiverCandidate \<Rightarrow> ReceiverCandidate \<Rightarrow> bool" where
  "ranks_before hw c c' \<longleftrightarrow> deficit hw c' < deficit hw c \<or>
     deficit hw c' = deficit hw c \<and> rc_unsent c \<le> rc_unsent c'"

lemma pick_fold:
  fixes hw cs
  defines "step \<equiv> \<lambda>c (bd, bu, sel). if deficit hw c > bd \<or> deficit hw c = bd \<and> rc_unsent c < bu
     then (deficit hw c, rc_unsent c, Some (rc_qindex c)) else (bd, bu, sel)"
  shows "fold step cs (deficit hw k, rc_unsent k, Some (rc_qindex k)) = (bd, bu, sel) \<Longrightarrow>
    \<exists>c\<in>insert k (set cs). sel = Some (rc_qindex c) \<and> bd = deficit hw c \<and> bu = rc_unsent c \<and>
      (\<forall>c'\<in>insert k (set cs). ranks_before hw c c')"
proof (induction cs arbitrary: k)
  case Nil
  then show ?case by (simp add: ranks_before_def)
next
  case (Cons x cs)
  let ?n = "if deficit hw x > deficit hw k \<or> deficit hw x = deficit hw k \<and> rc_unsent x < rc_unsent k then x else k"
  have "step x (deficit hw k, rc_unsent k, Some (rc_qindex k)) = (deficit hw ?n, rc_unsent ?n, Some (rc_qindex ?n))"
    by (simp add: step_def)
  then have "fold step cs (deficit hw ?n, rc_unsent ?n, Some (rc_qindex ?n)) = (bd, bu, sel)" using Cons.prems by simp
  from Cons.IH[OF this] obtain c where c: "c \<in> insert ?n (set cs)" "sel = Some (rc_qindex c)" "bd = deficit hw c"
    "bu = rc_unsent c" "\<forall>c'\<in>insert ?n (set cs). ranks_before hw c c'" by blast
  have "ranks_before hw c ?n" using c(5) by blast
  then have "ranks_before hw c x \<and> ranks_before hw c k" by (auto simp: ranks_before_def split: if_splits)
  then show ?case using c by (intro bexI[of _ c]) (auto split: if_splits)
qed

lemma pick_best_spec:
  assumes "cs \<noteq> []" "\<forall>c\<in>set cs. 0 \<le> deficit hw c"
  shows "\<exists>c\<in>set cs. pick_best hw cs = Some (rc_qindex c) \<and> (\<forall>c'\<in>set cs. ranks_before hw c c')"
proof (cases cs)
  case (Cons k cs')
  then have "deficit hw k > - 1" using assms(2) by force
  then have "pick_best hw cs = snd (snd (fold (\<lambda>c (bd, bu, sel).
     if deficit hw c > bd \<or> deficit hw c = bd \<and> rc_unsent c < bu
     then (deficit hw c, rc_unsent c, Some (rc_qindex c)) else (bd, bu, sel)) cs'
       (deficit hw k, rc_unsent k, Some (rc_qindex k))))"
    by (simp add: pick_best_def Cons)
  moreover obtain bd bu sel where "fold (\<lambda>c (bd, bu, sel).
     if deficit hw c > bd \<or> deficit hw c = bd \<and> rc_unsent c < bu
     then (deficit hw c, rc_unsent c, Some (rc_qindex c)) else (bd, bu, sel)) cs'
       (deficit hw k, rc_unsent k, Some (rc_qindex k)) = (bd, bu, sel)" by (rule prod_cases3)
  ultimately show ?thesis using pick_fold[of hw cs' k bd bu sel] by (auto simp: Cons)
qed (use assms in simp)

lemma clear_pending_sel [simp]:
  "m_receiverStates (clear_pending cs hw) = m_receiverStates hw" "cfg (clear_pending cs hw) = cfg hw"
  unfolding clear_pending_def by (induction cs arbitrary: hw) simp_all

text \<open>What share\_link picks, in terms of the deficits after the quanta are given.\<close>
lemma share_link_spec:
  assumes "cs \<noteq> []" "receivers_all sched_nonneg hw"
  defines "g \<equiv> refill 8 cs (give_quanta (mark_high cs) (clear_pending cs hw))"
  shows "\<exists>c\<in>set cs. \<exists>hw'. share_link cs hw = (Some (rc_qindex c), hw') \<and> (\<forall>c'\<in>set cs. ranks_before g c c')"
proof -
  have "receivers_all sched_nonneg (clear_pending cs hw)" using assms(2) by (simp add: receivers_all_def)
  then have "receivers_all sched_nonneg g" unfolding g_def by (intro refill_nonneg give_quanta_nonneg)
  then have "\<forall>c\<in>set cs. 0 \<le> deficit g c" by (simp add: deficit_nonneg)
  from pick_best_spec[OF assms(1) this] show ?thesis by (auto simp: share_link_def Let_def g_def)
qed

text \<open>Each candidate has its own receiver, so each gets its quantum once.\<close>
lemma fold_upd_receiver:
  assumes "distinct (map rc_addr cs)"
  shows "m_receiverStates (fold (\<lambda>c. upd_receiver (F c) (rc_addr c)) cs hw) a =
    (case find (\<lambda>c. rc_addr c = a) cs of None \<Rightarrow> m_receiverStates hw a
     | Some c \<Rightarrow> map_option (F c) (m_receiverStates hw a))"
  using assms
proof (induction cs arbitrary: hw)
  case (Cons c cs)
  have "find (\<lambda>k. rc_addr k = rc_addr c) cs = None" using Cons.prems by (auto simp: find_None_iff image_iff)
  then show ?case using Cons by (cases "a = rc_addr c") (auto simp: upd_receiver_def split: option.split)
qed simp

lemma find_addr:
  "distinct (map rc_addr cs) \<Longrightarrow> c \<in> set cs \<Longrightarrow> find (\<lambda>k. rc_addr k = rc_addr c) cs = Some c"
  by (induction cs) auto

lemma give_quanta_deficit:
  assumes "distinct (map rc_addr cs)" "c \<in> set cs" "m_receiverStates hw (rc_addr c) = Some st"
  shows "deficit (give_quanta cs hw) c =
    fadd (m_schedDeficit st) (sched_quantum (cfg hw) (length cs) (rc_highPrio c))"
  using assms(3) find_addr[OF assms(1,2)]
  by (simp add: deficit_def give_quanta_def fold_upd_receiver[OF assms(1)] add_deficit_def)

lemma min_unsent_fold:
  "fold (\<lambda>c m. min m (rc_unsent c)) cs m \<le> m \<and> (\<forall>c\<in>set cs. fold (\<lambda>c m. min m (rc_unsent c)) cs m \<le> rc_unsent c)
   \<and> (fold (\<lambda>c m. min m (rc_unsent c)) cs m = m \<or> (\<exists>c\<in>set cs. fold (\<lambda>c m. min m (rc_unsent c)) cs m = rc_unsent c))"
proof (induction cs arbitrary: m)
  case (Cons c cs)
  show ?case using Cons[of "min m (rc_unsent c)"] by (auto simp: min_def split: if_splits)
qed simp

lemma min_unsent_spec:
  assumes "cs \<noteq> []"
  shows "\<forall>c\<in>set cs. min_unsent cs \<le> rc_unsent c" "\<exists>c\<in>set cs. rc_unsent c = min_unsent cs"
proof -
  note F = min_unsent_fold[of cs "- 1"]
  show "\<forall>c\<in>set cs. min_unsent cs \<le> rc_unsent c" using F by (simp add: min_unsent_def)
  show "\<exists>c\<in>set cs. rc_unsent c = min_unsent cs"
  proof (cases "min_unsent cs = - 1")
    case True
    have "hd cs \<in> set cs" using assms by simp
    moreover have "rc_unsent (hd cs) = - 1"
      using F \<open>hd cs \<in> set cs\<close> True word_order.extremum_unique by (fastforce simp: min_unsent_def)
    ultimately show ?thesis using True by metis
  next
    case False
    then show ?thesis using F by (auto simp: min_unsent_def)
  qed
qed

lemma fold_max_ge: "c \<in> set cs \<Longrightarrow> f c \<le> fold (\<lambda>c m. max m (f c)) cs (m :: rat)"
proof -
  have "m \<le> fold (\<lambda>c m. max m (f c)) cs m" for cs and m :: rat
    by (induction cs arbitrary: m) (auto intro: order_trans[OF max.cobounded1])
  then show "c \<in> set cs \<Longrightarrow> f c \<le> fold (\<lambda>c m. max m (f c)) cs m"
    by (induction cs arbitrary: m) (auto intro: order_trans[OF max.cobounded2])
qed

lemma sched_quantum_srpt:
  assumes "1 \<le> h_senderPolicyRatio c"
  shows "sched_quantum c n high = (if high then 1 else 0)"
  using assms by (simp add: sched_quantum_def policy_ratio_def fsub_def fmul_def fadd_def dbl_1 min_def)

text \<open>With a ratio of 1 the pick has fewest bytes, or has kept a deficit above 1 from before.\<close>
lemma srpt_pick:
  assumes "cs \<noteq> []" "distinct (map rc_addr cs)" "1 \<le> h_senderPolicyRatio (cfg hw)"
    "\<forall>c\<in>set cs. \<exists>st. m_receiverStates hw (rc_addr c) = Some st \<and> 0 \<le> m_schedDeficit st"
    "c \<in> set cs" "m_receiverStates hw (rc_addr c) = Some st" "m_schedDeficit st \<le> 1" "\<forall>c'\<in>set cs. ranks_before (refill 8 cs (give_quanta (mark_high cs) hw)) c c'"
  shows "rc_unsent c = min_unsent cs"
proof -
  let ?g = "give_quanta (mark_high cs) hw"
  let ?m = "\<lambda>c. c\<lparr>rc_highPrio := (rc_unsent c = min_unsent cs)\<rparr>"
  have D: "deficit ?g k = fadd d (if rc_unsent k = min_unsent cs then 1 else 0)"
    if "k \<in> set cs" "m_receiverStates hw (rc_addr k) = Some st" "m_schedDeficit st = d" for k st d
  proof -
    have "distinct (map rc_addr (mark_high cs))" using assms(2) by (simp add: mark_high_def comp_def)
    moreover have "?m k \<in> set (mark_high cs)" using that(1) by (simp add: mark_high_def)
    ultimately have "deficit ?g (?m k) = fadd d (sched_quantum (cfg hw) (length (mark_high cs)) (rc_highPrio (?m k)))"
      using give_quanta_deficit[of "mark_high cs" "?m k" hw st] that(2,3) by simp
    then show ?thesis by (simp add: deficit_def sched_quantum_srpt[OF assms(3)])
  qed
  have high: "1 \<le> deficit ?g k" if "k \<in> set cs" "rc_unsent k = min_unsent cs" for k
    using D[OF that(1)] assms(4) that dbl_mono[of 1] by (fastforce simp: fadd_def dbl_1)
  have low: "deficit ?g c \<le> 1" if "rc_unsent c \<noteq> min_unsent cs"
    using D[OF assms(5,6)] assms(7) that dbl_mono[of _ 1] by (fastforce simp: fadd_def dbl_1)
  obtain k where k: "k \<in> set cs" "rc_unsent k = min_unsent cs" using min_unsent_spec(2)[OF assms(1)] by blast
  have "1 \<le> fold (\<lambda>c m. max m (deficit ?g c)) cs (- 1)"
    using fold_max_ge[OF k(1), of "deficit ?g" "- 1"] high[OF k] by linarith
  then have "refill 8 cs ?g = ?g" by (simp add: numeral_eq_Suc)
  then have "ranks_before ?g c k" using assms(8) k(1) by simp
  then show ?thesis using low high[OF k] k(2) min_unsent_spec(1)[OF assms(1)] assms(5)
    by (fastforce simp: ranks_before_def)
qed

section \<open>The choice\<close>

lemma mixed_spec:
  assumes "h_creditbouncer (cfg hw)" "h_senderSchedPolicy (cfg hw) = CB_SCHED_SRPT" "grp \<noteq> []" "qps_ok hw"
    "\<forall>a\<in>set (h_order env). \<forall>r. sendable env hw a r \<longrightarrow> in_group env grp r"
    "receivers_all P hw" "\<forall>st. P st \<longrightarrow> sched_nonneg st \<and> P (reset_sched st)"
  obtains cs h sel hw' where "GetNextCreditBouncerQindex env grp l hw = Some (sel, hw')"
    "strip h = strip hw" "receivers_all P h" "\<forall>c\<in>set cs. cand_ok env grp hw c"
    "distinct (h_order env) \<longrightarrow> distinct (map rc_addr cs)"
    "rc_addr ` set cs = {a \<in> set (h_order env). \<exists>r. sendable env hw a r}"
    "case sel of None \<Rightarrow> cs = []
      | Some i \<Rightarrow> \<exists>c\<in>set cs. rc_qindex c = i \<and>
          (\<forall>c'\<in>set cs. ranks_before (refill 8 cs (give_quanta (mark_high cs) (clear_pending cs h))) c c')"
    "\<And>b. m_receiverStates h b = m_receiverStates hw b \<or> m_receiverStates h b = map_option reset_sched (m_receiverStates hw b)"
proof -
  have "\<forall>st. P st \<longrightarrow> P (reset_sched st)" using assms(7) by blast
  from receiver_candidates_spec[OF assms(4,3,5,6) this, of l] obtain cs h where
    R: "receiver_candidates env grp l (h_order env) hw = Some (cs, h)" "strip h = strip hw"
    "receivers_all P h" "\<forall>c\<in>set cs. cand_ok env grp hw c" "distinct (h_order env) \<longrightarrow> distinct (map rc_addr cs)"
    "rc_addr ` set cs = {a \<in> set (h_order env). \<exists>r. sendable env hw a r}" by blast
  note keep = receiver_candidates_receivers[OF assms(4) R(1)]
  have G: "GetNextCreditBouncerQindex env grp l hw = Some (if cs = [] then (None, h) else share_link cs h)"
    using assms(1-3) R(1) by (simp add: GetNextCreditBouncerQindex_def GetNextCreditBouncerQindex_mixed_def)
  show ?thesis
  proof (cases "cs = []")
    case True
    then show ?thesis using that[OF _ R(2-6) _ keep, of None h] G by simp
  next
    case False
    have "receivers_all sched_nonneg h" using R(3) assms(7) by (auto simp: receivers_all_def)
    from share_link_spec[OF False this] obtain c hw' where "c \<in> set cs" "share_link cs h = (Some (rc_qindex c), hw')"
      "\<forall>c'\<in>set cs. ranks_before (refill 8 cs (give_quanta (mark_high cs) (clear_pending cs h))) c c'" by blast
    then show ?thesis using that[OF _ R(2-6) _ keep, of "Some (rc_qindex c)" hw'] G False by auto
  qed
qed

text \<open>C13: under the mixed policy a sender offers its NIC a queue pair exactly when some receiver
  has a message that can be sent (bytes left, class not paused, due, its next chunk covered by the
  credit or its announcement outstanding), and the queue pair offered is the best message of its
  receiver: announcements first, then the fewest bytes left.  The queue pairs hold no blocks of
  selective acknowledgements and are of classes below 8, which the table of pause flags has.\<close>
theorem sender_serves_when_possible:
  assumes "h_creditbouncer (cfg hw)" "h_senderSchedPolicy (cfg hw) = CB_SCHED_SRPT" "grp \<noteq> []" "qps_ok hw"
    "\<forall>a\<in>set (h_order env). \<forall>r. sendable env hw a r \<longrightarrow> in_group env grp r" "receivers_all sched_nonneg hw"
  shows "\<exists>sel hw'. GetNextCreditBouncerQindex env grp rrLast hw = Some (sel, hw') \<and>
    (case sel of None \<Rightarrow> \<not> (\<exists>a\<in>set (h_order env). \<exists>r. sendable env hw a r)
     | Some i \<Rightarrow> i < length grp \<and> \<not> h_finished env i \<and> (\<exists>a\<in>set (h_order env). best_message env hw a (grp ! i)))"
proof -
  have N: "\<forall>st. sched_nonneg st \<longrightarrow> sched_nonneg st \<and> sched_nonneg (reset_sched st)"
    by (simp add: sched_nonneg_def reset_sched_def)
  obtain cs h sel hw' where G: "GetNextCreditBouncerQindex env grp rrLast hw = Some (sel, hw')"
    "\<forall>c\<in>set cs. cand_ok env grp hw c" "rc_addr ` set cs = {a \<in> set (h_order env). \<exists>r. sendable env hw a r}"
    "case sel of None \<Rightarrow> cs = [] | Some i \<Rightarrow> \<exists>c\<in>set cs. rc_qindex c = i \<and>
          (\<forall>c'\<in>set cs. ranks_before (refill 8 cs (give_quanta (mark_high cs) (clear_pending cs h))) c c')"
    by (rule mixed_spec[OF assms(1-6) N, of rrLast]) blast
  show ?thesis
  proof (cases sel)
    case None
    then show ?thesis using G by auto
  next
    case (Some i)
    then obtain c where c: "c \<in> set cs" "rc_qindex c = i" using G(4) by auto
    then have "cand_ok env grp hw c" "rc_addr c \<in> set (h_order env)" using G(2,3) by auto
    then show ?thesis using G(1) Some c(2) by (auto simp: cand_ok_def)
  qed
qed

text \<open>C14: with a policy ratio of 1 the sender serves the shortest message first, unless the receiver
  it serves has kept a deficit above 1 from earlier turns.  The queue pair offered is the best message
  of a receiver, and it has no more bytes left than the best message of any receiver, or that receiver's
  deficit was above 1 before the turn.  A ratio of 1 does not exclude the second case: of receivers
  whose messages are equally short each gets a quantum of 1 and one is served, so a deficit of 2 can
  be left, and then a longer message goes before a shorter one.\<close>
theorem sender_serves_shortest:
  assumes "h_creditbouncer (cfg hw)" "h_senderSchedPolicy (cfg hw) = CB_SCHED_SRPT" "grp \<noteq> []" "qps_ok hw"
    "\<forall>a\<in>set (h_order env). \<forall>r. sendable env hw a r \<longrightarrow> in_group env grp r"
    "receivers_all sched_nonneg hw" "distinct (h_order env)"
    "1 \<le> h_senderPolicyRatio (cfg hw)" "GetNextCreditBouncerQindex env grp rrLast hw = Some (Some i, hw')"
  shows "\<exists>a\<in>set (h_order env). best_message env hw a (grp ! i) \<and>
    ((\<forall>b\<in>set (h_order env). \<forall>r. best_message env hw b r \<longrightarrow> bytes_left (hw_qps hw (grp ! i)) \<le> bytes_left (hw_qps hw r)) \<or>
     (\<exists>st. m_receiverStates hw a = Some st \<and> 1 < m_schedDeficit st))"
proof -
  have N: "\<forall>st. sched_nonneg st \<longrightarrow> sched_nonneg st \<and> sched_nonneg (reset_sched st)"
    by (simp add: sched_nonneg_def reset_sched_def)
  obtain cs h c where G: "strip h = strip hw" "receivers_all sched_nonneg h" "\<forall>c\<in>set cs. cand_ok env grp hw c"
    "distinct (map rc_addr cs)" "rc_addr ` set cs = {a \<in> set (h_order env). \<exists>r. sendable env hw a r}"
    "c \<in> set cs" "rc_qindex c = i"
    "\<forall>c'\<in>set cs. ranks_before (refill 8 cs (give_quanta (mark_high cs) (clear_pending cs h))) c c'"
    and keep: "\<And>b. m_receiverStates h b = m_receiverStates hw b \<or>
      m_receiverStates h b = map_option reset_sched (m_receiverStates hw b)"
    by (rule mixed_spec[OF assms(1-6) N, of rrLast]) (use assms(7,9) in \<open>auto split: option.splits\<close>)
  have S: "\<exists>st. m_receiverStates (clear_pending cs h) (rc_addr k) = Some st \<and> 0 \<le> m_schedDeficit st" if "k \<in> set cs" for k
  proof -
    have "\<exists>st. m_receiverStates (strip hw) (rc_addr k) = Some st"
      using G(3) that by (auto simp: cand_ok_def best_message_def sendable_def)
    then obtain st where "m_receiverStates h (rc_addr k) = Some st" unfolding G(1)[symmetric] by auto
    then show ?thesis using G(2) by (auto simp: receivers_all_def sched_nonneg_def)
  qed
  have ok: "cand_ok env grp hw c" using G(3,6) by blast
  then have best: "best_message env hw (rc_addr c) (grp ! i)" "rc_unsent c = bytes_left (hw_qps hw (grp ! i))"
    using G(7) by (auto simp: cand_ok_def)
  obtain st where st: "m_receiverStates (clear_pending cs h) (rc_addr c) = Some st" using S[OF G(6)] by blast
  have a: "rc_addr c \<in> set (h_order env)" using G(5,6) by auto
  show ?thesis
  proof (cases "m_schedDeficit st \<le> 1")
    case True
    have "cfg h = cfg hw" using G(1) by (metis strip_sel(1))
    then have m: "rc_unsent c = min_unsent cs"
      using srpt_pick[OF _ G(4) _ _ G(6) st True G(8)] S G(6) assms(8) by fastforce
    have "bytes_left (hw_qps hw (grp ! i)) \<le> bytes_left (hw_qps hw r)"
      if b: "b \<in> set (h_order env)" "best_message env hw b r" for b r
    proof -
      have "b \<in> rc_addr ` set cs" using b G(5) by (auto simp: best_message_def)
      then obtain k where k: "k \<in> set cs" "rc_addr k = b" by blast
      have "cand_ok env grp hw k" using G(3) k by blast
      then have "best_message env hw b (rc_qp k)" "rc_unsent k = bytes_left (hw_qps hw (rc_qp k))"
        using k(2) by (auto simp: cand_ok_def)
      moreover have "bytes_left (hw_qps hw (rc_qp k)) \<le> bytes_left (hw_qps hw r)"
        using b(2) \<open>best_message env hw b (rc_qp k)\<close> unfolding best_message_def by blast
      ultimately show ?thesis
        using m best(2) min_unsent_spec(1)[of cs] k(1) by (metis empty_iff list.set(1) order_trans)
    qed
    then show ?thesis using a best(1) by blast
  next
    case False
    then have "m_receiverStates hw (rc_addr c) = Some st"
      using st keep[of "rc_addr c"] by (elim disjE) (auto simp: reset_sched_def)
    then show ?thesis using a best(1) False by (intro bexI[of _ "rc_addr c"]) auto
  qed
qed

text \<open>A sender with 3000 bytes for receiver 7 and 2000 for receiver 8, and credit for both.\<close>
definition mixed_cfg :: RdmaConfig where
  "mixed_cfg = \<lparr>h_mtu = 1000, h_ack_interval = 0, h_chunk = 4000, h_backto0 = False, h_irn = False,
     h_nackIntervalNs = 0, h_var_win = False, h_waitAckTimeout = 4000000, h_symmetricRouting = False,
     h_creditbouncer = True, h_ccEnable = False, h_csnEnable = False, h_unsolicitedThresh = 0,
     h_maxSrpb = 10000, h_globalBucket = 20000, h_senderThreshold = 0, h_grantGranularity = 0,
     h_aiStep = 1, h_mdFactor = 1, h_ceNewWeight = 1 / 16, h_ecnMinMul_nw = 1 / 8,
     h_ecnMinMul_host = 1 / 8, h_grantIntervalNs = 0, h_resendIntervalNs = 0,
     h_senderSchedPolicy = CB_SCHED_SRPT, h_grantSchedPolicy = CB_SCHED_SRPT, h_senderPolicyRatio = 1,
     h_intMode = 5, h_irn_bdp = 0, h_irn_rtoLow = 0, h_irn_rtoHigh = 0, h_rateBound = True\<rparr>"

definition mixed_env :: HostEnv where
  "mixed_env = \<lparr>h_now = 0, h_order = [7, 8], h_paused = (\<lambda>_. False), h_stale = False, h_finished = (\<lambda>_. False)\<rparr>"

definition mixed_qp :: "u32 \<Rightarrow> u64 \<Rightarrow> RdmaQueuePair" where
  "mixed_qp dst sz = (RdmaQueuePair_ctor 3 1 dst 10 20)\<lparr>m_size := sz, q_enabled := True, q_sentAnnouncement := True\<rparr>"

definition mixed_rs :: "nat \<Rightarrow> ReceiverState" where
  "mixed_rs r = ReceiverState_default\<lparr>rs_enabled := True, rs_msgStates := [r], m_availCreditBytes := 4000\<rparr>"

definition mixed_host :: RdmaHw where
  "mixed_host = (RdmaHw_initial mixed_cfg (\<lambda>_. 0))
     \<lparr>hw_qps := (\<lambda>r. if r = 0 then mixed_qp 7 3000 else mixed_qp 8 2000),
      m_receiverStates := [7 \<mapsto> mixed_rs 0, 8 \<mapsto> mixed_rs 1]\<rparr>"

lemma mixed_sel [simp]:
  "q_irn_sack (mixed_qp d n) = []" "m_pg (mixed_qp d n) = 3" "q_enabled (mixed_qp d n)" "m_size (mixed_qp d n) = n" "snd_nxt (mixed_qp d n) = 0"
  "q_nextAvail (mixed_qp d n) = 0" "q_sentAnnouncement (mixed_qp d n)"
  "rs_enabled (mixed_rs r)" "rs_msgStates (mixed_rs r) = [r]" "m_availCreditBytes (mixed_rs r) = 4000"
  "m_schedDeficit (mixed_rs r) = 0" "m_schedQuantum (mixed_rs r) = 0"
  "h_order mixed_env = [7, 8]" "h_paused mixed_env c = False" "h_now mixed_env = 0" "h_finished mixed_env i = False"
  "h_mtu mixed_cfg = 1000" "h_creditbouncer mixed_cfg" "h_senderSchedPolicy mixed_cfg = CB_SCHED_SRPT"
  "h_senderPolicyRatio mixed_cfg = 1"
  by (simp_all add: mixed_qp_def RdmaQueuePair_ctor_def mixed_rs_def ReceiverState_default_def mixed_env_def mixed_cfg_def)

lemma mixed_host_sel:
  "cfg mixed_host = mixed_cfg" "hw_qps mixed_host = (\<lambda>r. if r = 0 then mixed_qp 7 3000 else mixed_qp 8 2000)"
  "m_receiverStates mixed_host = [7 \<mapsto> mixed_rs 0, 8 \<mapsto> mixed_rs 1]"
  by (simp_all add: mixed_host_def RdmaHw_initial_def)

lemma mixed_host_ok:
  "h_creditbouncer (cfg mixed_host)" "h_senderSchedPolicy (cfg mixed_host) = CB_SCHED_SRPT" "qps_ok mixed_host"
  "receivers_all sched_nonneg mixed_host"
  "\<forall>a\<in>set (h_order mixed_env). \<forall>r. sendable mixed_env mixed_host a r \<longrightarrow> in_group mixed_env [0, 1] r"
  by (simp_all add: mixed_host_sel qps_ok_def receivers_all_def sched_nonneg_def sendable_def in_group_def)
    (auto simp: less_Suc_eq numeral_2_eq_2)

lemma mixed_wire: "CbNextChunkOnWireBytes 0 3000 1000 = 1068" "CbNextChunkOnWireBytes 0 2000 1000 = 1068"
  by (simp_all add: CbNextChunkOnWireBytes_def CbNextChunkPayloadBytes_def CbAddHeaderOverhead_def cb_consts)

lemma mixed_host_best: "best_message mixed_env mixed_host 7 0" "best_message mixed_env mixed_host 8 1"
proof -
  have only: "sendable mixed_env mixed_host 7 r \<Longrightarrow> r = 0" "sendable mixed_env mixed_host 8 r \<Longrightarrow> r = 1" for r
    by (simp_all add: sendable_def mixed_host_sel)
  have "sendable mixed_env mixed_host 7 0" "sendable mixed_env mixed_host 8 1"
    by (simp_all add: sendable_def due_def credit_covers_def mixed_host_sel bytes_left_def mixed_wire)
  then show "best_message mixed_env mixed_host 7 0" "best_message mixed_env mixed_host 8 1"
    by (auto simp: best_message_def dest!: only)
qed

lemma mixed_host_offers: "\<exists>i hw'. GetNextCreditBouncerQindex mixed_env [0, 1] 0 mixed_host = Some (Some i, hw')"
proof (rule mixed_spec[OF mixed_host_ok(1,2) _ mixed_host_ok(3,5,4), of 0])
  fix cs h sel hw'
  assume G: "GetNextCreditBouncerQindex mixed_env [0, 1] 0 mixed_host = Some (sel, hw')"
    "rc_addr ` set cs = {a \<in> set (h_order mixed_env). \<exists>r. sendable mixed_env mixed_host a r}"
    "case sel of None \<Rightarrow> cs = [] | Some i \<Rightarrow> \<exists>c\<in>set cs. rc_qindex c = i \<and>
      (\<forall>c'\<in>set cs. ranks_before (refill 8 cs (give_quanta (mark_high cs) (clear_pending cs h))) c c')"
  have "8 \<in> rc_addr ` set cs" unfolding G(2) using mixed_host_best(2) by (auto simp: best_message_def)
  then show ?thesis using G(1,3) by (cases sel) auto
qed (simp_all add: sched_nonneg_def reset_sched_def)

theorem sender_serves_when_possible_witness:
  "\<exists>i hw'. GetNextCreditBouncerQindex mixed_env [0, 1] 0 mixed_host = Some (Some i, hw') \<and>
     (\<exists>a\<in>{7, 8}. best_message mixed_env mixed_host a ([0, 1] ! i))"
proof -
  from sender_serves_when_possible[OF mixed_host_ok(1,2) _ mixed_host_ok(3,5,4), of 0]
  show ?thesis using mixed_host_offers by auto
qed

theorem sender_serves_shortest_witness:
  "\<exists>i hw'. GetNextCreditBouncerQindex mixed_env [0, 1] 0 mixed_host = Some (Some i, hw') \<and>
     bytes_left (hw_qps mixed_host ([0, 1] ! i)) \<le> 2000"
proof -
  have o: "8 \<in> set (h_order mixed_env)" "distinct (h_order mixed_env)" by simp_all
  have r: "1 \<le> h_senderPolicyRatio (cfg mixed_host)" by (simp add: mixed_host_sel)
  obtain i hw' where i: "GetNextCreditBouncerQindex mixed_env [0, 1] 0 mixed_host = Some (Some i, hw')"
    using mixed_host_offers by blast
  have "bytes_left (hw_qps mixed_host ([0, 1] ! i)) \<le> bytes_left (hw_qps mixed_host 1)"
    using sender_serves_shortest[OF mixed_host_ok(1,2) _ mixed_host_ok(3,5,4) o(2) r i] mixed_host_best(2) o(1)
    by (auto simp: mixed_host_sel split: if_splits)
  then show ?thesis using i by (auto simp: mixed_host_sel bytes_left_def)
qed

end
