(* ===== verification/RdmaHost.thy ===== *)
theory RdmaHost
  imports RdmaMessages RdmaChoice
begin

text \<open>
  A DPDQ host as a whole: the dispatch of credit-bouncer packets
  (\<^verbatim>\<open>RdmaHw::ReceiveCreditBouncer\<close> in
  \<^verbatim>\<open>src/point-to-point/model/rdma-hw.cc\<close>) and runs of a host over any sequence
  of arrivals, timer events, requests of the NIC for a packet, new messages and
  completions.  Over such a run the receiver reports a message complete when its bitmap
  of chunks is full, and once (theory RdmaHistory relates the bitmap to what has arrived).
\<close>

section \<open>Dispatch\<close>

text \<open>The branches after the one of REQUEST data, which returns.  None is a route lookup
  that fails its assertion.\<close>
definition receive_control ::
  "HostEnv \<Rightarrow> NsPacket \<Rightarrow> CustomHeader \<Rightarrow> CreditBouncerTag \<Rightarrow> RdmaHw \<Rightarrow> RdmaHw option" where
  "receive_control env p ch t hw =
    (let control = l3Prot ch = RDMA_L3_PROT_CREDITBOUNCER;
         hw = (if IsGrantReq t \<or> IsRequest t \<and> control then receive_grant_req env p ch t hw else hw)
     in Option.bind (if IsResend t \<and> control then receive_resend ch t hw else Some hw) (\<lambda>hw.
        Option.bind (if IsGrant t then receive_grant ch t hw else Some hw) (\<lambda>hw.
        Some (if IsBouncedCredit t then receive_bounced_credit env ch t hw else hw))))"

definition ReceiveCreditBouncer :: "HostEnv \<Rightarrow> NsPacket \<Rightarrow> CustomHeader \<Rightarrow> RdmaHw \<Rightarrow> RdmaHw option" where
  "ReceiveCreditBouncer env p ch hw =
    (if \<not> h_creditbouncer (cfg hw) then Some hw
     else case p_cbTag p of None \<Rightarrow> Some hw
        | Some t \<Rightarrow>
            if IsRequest t \<and> l3Prot ch = RDMA_L3_PROT_UDP
            then Some (receive_request_data env p ch t hw)
            else receive_control env p ch t hw)"

section \<open>Runs\<close>

datatype host_event =
    Arrival NsPacket
  | GrantTick
  | ResendTimeout nat
  | NicSelects "nat list" u32
  | NicAsks nat
  | NewMessage u64 u16 u32 u32 u16 u16 u32 u64 int
  | Completed u16 u16 int
  | Route u32 nat
  | ClearRoutes

fun host_step :: "HostEnv \<Rightarrow> host_event \<Rightarrow> RdmaHw \<Rightarrow> RdmaHw option" where
  "host_step env (Arrival p) hw = ReceiveCreditBouncer env p (p_hdr p) hw"
| "host_step env GrantTick hw = CreditGrantTick env hw"
| "host_step env (ResendTimeout r) hw = HandleCreditBouncerResendTimeout r hw"
| "host_step env (NicSelects grp rrLast) hw = map_option snd (GetNextCreditBouncerQindex env grp rrLast hw)"
| "host_step env (NicAsks r) hw = map_option snd (GetNxtPacket env r hw)"
| "host_step env (NewMessage sz cls src dst sp dp win rtt f) hw = AddQueuePair sz cls src dst sp dp win rtt f hw"
| "host_step env (Completed sp cls f) hw = Some (CompleteCreditBouncerSenderQp sp cls f hw)"
| "host_step env (Route dst nic) hw = Some (hw_AddTableEntry dst nic hw)"
| "host_step env ClearRoutes hw = Some (hw_ClearTable hw)"

text \<open>What the peers owe the host: REQUEST data lies inside the message it belongs to.\<close>
fun event_ok :: "host_event \<Rightarrow> RdmaHw \<Rightarrow> bool" where
  "event_ok (Arrival p) hw = (case p_cbTag p of None \<Rightarrow> True
     | Some t \<Rightarrow> IsRequest t \<and> l3Prot (p_hdr p) = RDMA_L3_PROT_UDP \<longrightarrow> data_within (p_hdr p) t hw)"
| "event_ok _ hw = True"

inductive host_reaches :: "RdmaHw \<Rightarrow> RdmaHw \<Rightarrow> bool" where
  host_start: "host_reaches hw hw"
| host_next: "host_reaches hw hw' \<Longrightarrow> event_ok e hw' \<Longrightarrow> host_step env e hw' = Some hw'' \<Longrightarrow> host_reaches hw hw''"

text \<open>The contract of an invariant of the host: it holds at the start of a host with a good
  configuration and every event keeps it, so it holds in every state of a run.\<close>
locale host_invariant =
  fixes good :: "RdmaConfig \<Rightarrow> bool" and inv :: "RdmaConfig \<Rightarrow> RdmaHw \<Rightarrow> bool"
  assumes initially: "good c \<Longrightarrow> inv c (RdmaHw_initial c rates)"
    and kept: "good c \<Longrightarrow> inv c hw \<Longrightarrow> event_ok e hw \<Longrightarrow> host_step env e hw = Some hw' \<Longrightarrow> inv c hw'"
begin

lemma reaches:
  assumes "host_reaches (RdmaHw_initial c rates) hw" "good c"
  shows "inv c hw"
  using assms(1)
proof (induction "RdmaHw_initial c rates" hw rule: host_reaches.induct)
  case host_start
  then show ?case using initially[OF assms(2)] by simp
next
  case (host_next hw' e env hw'')
  then show ?case using kept[OF assms(2)] by blast
qed

end

section \<open>The sender's operations leave the receiver's bookkeeping alone\<close>

lemma rx_quiet_sender_ops [simp]:
  "rx_quiet hw (set_qp r q hw') = rx_quiet hw hw'"
  "rx_quiet hw (set_receiver a s hw') = rx_quiet hw hw'"
  "rx_quiet hw (hw'\<lparr>m_receiverStates := f\<rparr>) = rx_quiet hw hw'"
  "rx_quiet hw (hw'\<lparr>hw_nextQp := n\<rparr>) = rx_quiet hw hw'"
  "rx_quiet hw (hw'\<lparr>hw_qpGrp := g\<rparr>) = rx_quiet hw hw'"
  "rx_quiet hw (hw'\<lparr>m_qpMap := m\<rparr>) = rx_quiet hw hw'"
  "rx_quiet hw (hw'\<lparr>hw_rtTable := t\<rparr>) = rx_quiet hw hw'"
  by (simp_all add: rx_quiet_def reported_def)

lemma quiet_receiver_state: "rx_quiet hw hw' \<Longrightarrow> rx_quiet hw (snd (GetOrCreateReceiverState a r hw'))"
  by (simp add: GetOrCreateReceiverState_def Let_def)

lemma quiet_receiver_cleanup: "rx_quiet hw hw' \<Longrightarrow> rx_quiet hw (CleanupCreditBouncerReceiverState r hw')"
  by (simp add: CleanupCreditBouncerReceiverState_def Let_def split: option.split)

lemma quiet_next_credit_packet: "rx_quiet hw (snd (next_credit_packet env qp pl hw))"
  by (simp add: next_credit_packet_def Let_def GetOrCreateReceiverState_def case_prod_unfold)

lemma quiet_GetNxtPacket: "GetNxtPacket env qp hw = Some (x, hw') \<Longrightarrow> rx_quiet hw hw'"
proof -
  assume a: "GetNxtPacket env qp hw = Some (x, hw')"
  then obtain b q where g: "GetBytesLeft (hw_qps hw qp) = Some (b, q)"
    by (auto simp: GetNxtPacket_def split: option.splits)
  let ?h = "set_qp qp q hw"
  have h: "rx_quiet hw ?h" by simp
  show ?thesis
  proof (cases "h_creditbouncer (cfg hw) \<and> q_enabled q")
    case True
    then have "\<exists>pl. next_credit_packet env qp pl ?h = (x, hw')"
      using a by (auto simp: GetNxtPacket_def g Let_def)
    then show ?thesis using h quiet_next_credit_packet rx_quiet_trans by (metis snd_conv)
  next
    case False
    then show ?thesis using a by (auto simp: GetNxtPacket_def g Let_def plain_packet_def)
  qed
qed

lemma quiet_complete_sender: "rx_quiet hw (CompleteCreditBouncerSenderQp sp cls f hw)"
  by (auto simp: CompleteCreditBouncerSenderQp_def QpComplete_def Let_def
      intro!: quiet_receiver_cleanup split: option.split)

lemma quiet_AddQueuePair: "AddQueuePair sz cls a b sp dp w rtt f hw = Some hw' \<Longrightarrow> rx_quiet hw hw'"
  by (auto simp: AddQueuePair_def Let_def GetOrCreateReceiverState_def split: option.splits if_splits)

lemma quiet_grant: "receive_grant ch t hw = Some hw' \<Longrightarrow> rx_quiet hw hw'"
  by (auto simp: receive_grant_def Let_def GetOrCreateReceiverState_def split: option.splits if_splits)

lemma quiet_emit_all: "rx_quiet hw hw' \<Longrightarrow> rx_quiet hw (fold (\<lambda>p hw. hw_emit (HwHighPrio n p) hw) ps hw')"
  by (induction ps arbitrary: hw') auto

lemma quiet_receive_resend: "receive_resend ch t hw = Some hw' \<Longrightarrow> rx_quiet hw hw'"
  by (auto simp: receive_resend_def Let_def intro!: quiet_emit_all split: option.splits if_splits prod.splits)

interpretation quiet_choice: choice_keeps "rx_quiet hw" for hw
  by unfold_locales simp_all

lemma quiet_routes: "rx_quiet hw (hw_AddTableEntry d n hw)" "rx_quiet hw (hw_ClearTable hw)"
  by (simp_all add: hw_AddTableEntry_def hw_ClearTable_def Let_def)

section \<open>The receiver's invariant over runs\<close>

lemma rx_inv_initial: "h_mtu c \<noteq> 0 \<Longrightarrow> rx_inv (RdmaHw_initial c rates)"
  by (simp add: rx_inv_def RdmaHw_initial_def reported_def notified_def msg_inv_ctor unat_gt_0)

definition host_inv :: "RdmaHw \<Rightarrow> bool" where
  "host_inv hw \<longleftrightarrow> rx_inv hw \<and> prompt_but {} hw"

lemma host_inv_initial: "h_mtu c \<noteq> 0 \<Longrightarrow> host_inv (RdmaHw_initial c rates)"
  by (simp add: host_inv_def rx_inv_initial)
    (simp add: prompt_but_def prompt_def RdmaHw_initial_def RdmaRxQueuePair_ctor_def)

lemma host_inv_quiet: "rx_quiet hw hw' \<Longrightarrow> host_inv hw \<Longrightarrow> host_inv hw' \<and> cfg hw' = cfg hw"
  using rx_quiet_inv rx_quiet_cfg prompt_quiet unfolding host_inv_def by blast

text \<open>Of the control packets only a request for grants touches the messages.\<close>
lemma quiet_control:
  assumes "receive_control env p ch t hw = Some hw'"
  shows "rx_quiet (if IsGrantReq t \<or> IsRequest t \<and> l3Prot ch = RDMA_L3_PROT_CREDITBOUNCER
    then receive_grant_req env p ch t hw else hw) hw'" (is "rx_quiet ?h1 hw'")
proof -
  define h1 where "h1 = ?h1"
  obtain h2 h3 where s: "rx_quiet h1 h2" "rx_quiet h2 h3" "rx_quiet h3 hw'"
    using assms quiet_receive_resend quiet_grant quiet_bounced
    unfolding receive_control_def Let_def h1_def[symmetric]
    by (auto split: if_splits simp: bind_eq_Some_conv) (metis rx_quiet_refl)+
  then show ?thesis unfolding h1_def by (blast intro: rx_quiet_trans)
qed

text \<open>Neither do the events that are not arrivals.\<close>
lemma quiet_event:
  assumes "\<forall>p. e \<noteq> Arrival p" "host_step env e hw = Some hw'"
  shows "rx_quiet hw hw'"
  using assms
  by (cases e) (auto dest: quiet_grant_tick quiet_resend_timeout quiet_choice.chosen[OF rx_quiet_refl] quiet_GetNxtPacket
      quiet_AddQueuePair simp: quiet_routes quiet_complete_sender)

lemma host_inv_control:
  assumes "host_inv hw" "h_mtu (cfg hw) \<noteq> 0" "receive_control env p ch t hw = Some hw'"
  shows "host_inv hw' \<and> cfg hw' = cfg hw"
proof -
  let ?b = "IsGrantReq t \<or> IsRequest t \<and> l3Prot ch = RDMA_L3_PROT_CREDITBOUNCER"
  define h1 where "h1 = (if ?b then receive_grant_req env p ch t hw else hw)"
  have h1: "host_inv h1 \<and> cfg h1 = cfg hw"
    using rx_inv_grant_req[of hw env p ch t] assms(1,2) by (simp add: h1_def host_inv_def)
  have "rx_quiet h1 hw'" unfolding h1_def by (rule quiet_control[OF assms(3)])
  then show ?thesis using h1 host_inv_quiet by metis
qed

lemma host_inv_step:
  assumes inv: "host_inv hw" and m: "h_mtu (cfg hw) \<noteq> 0" and ok: "event_ok e hw"
    and st: "host_step env e hw = Some hw'"
  shows "host_inv hw' \<and> cfg hw' = cfg hw"
proof (cases "\<exists>p t. e = Arrival p \<and> p_cbTag p = Some t \<and> h_creditbouncer (cfg hw)")
  case True
  then obtain p t where e: "e = Arrival p" "p_cbTag p = Some t" "h_creditbouncer (cfg hw)" by blast
  then show ?thesis
    using ok st rx_inv_request_data[of hw "p_hdr p" t env p] inv m host_inv_control[OF inv m]
    by (auto simp: ReceiveCreditBouncer_def host_inv_def split: if_splits)
next
  case False
  have "rx_quiet hw hw'"
  proof (cases e)
    case (Arrival p)
    then show ?thesis using False st by (auto simp: ReceiveCreditBouncer_def split: if_splits option.splits)
  qed (use st quiet_event in blast)+
  then show ?thesis using inv by (rule host_inv_quiet)
qed

interpretation books: host_invariant "\<lambda>c. h_mtu c \<noteq> 0" "\<lambda>c hw. host_inv hw \<and> cfg hw = c"
proof
  show "host_inv (RdmaHw_initial c rates) \<and> cfg (RdmaHw_initial c rates) = c" if "h_mtu c \<noteq> 0" for c rates
    using host_inv_initial[OF that] by (simp add: RdmaHw_initial_def)
  show "host_inv hw' \<and> cfg hw' = c"
    if "h_mtu c \<noteq> 0" "host_inv hw \<and> cfg hw = c" "event_ok e hw" "host_step env e hw = Some hw'" for c hw e env hw'
    using host_inv_step[OF _ _ that(3,4)] that(1,2) by blast
qed

section \<open>Completion\<close>

text \<open>A host and a message of one chunk for it.\<close>
definition cfg1 :: RdmaConfig where
  "cfg1 = \<lparr>h_mtu = 1000, h_ack_interval = 0, h_chunk = 4000, h_backto0 = False, h_irn = False,
     h_nackIntervalNs = 0, h_var_win = False, h_waitAckTimeout = 4000000, h_symmetricRouting = True,
     h_creditbouncer = True, h_ccEnable = False, h_csnEnable = False, h_unsolicitedThresh = 100000,
     h_maxSrpb = 20000, h_globalBucket = 60000, h_senderThreshold = 50000, h_grantGranularity = 1000,
     h_aiStep = 1, h_mdFactor = 1, h_ceNewWeight = 1 / 16, h_ecnMinMul_nw = 1 / 8,
     h_ecnMinMul_host = 1 / 8, h_grantIntervalNs = 1000, h_resendIntervalNs = 100000,
     h_senderSchedPolicy = CB_SCHED_RR, h_grantSchedPolicy = CB_SCHED_RR, h_senderPolicyRatio = 1,
     h_intMode = 5, h_irn_bdp = 0, h_irn_rtoLow = 0, h_irn_rtoHigh = 0, h_rateBound = True\<rparr>"

definition env1 :: HostEnv where
  "env1 = \<lparr>h_now = 0, h_order = [1], h_paused = (\<lambda>_. False), h_stale = False, h_finished = (\<lambda>_. False)\<rparr>"

definition data1 :: NsPacket where
  "data1 = data_packet cfg1 (RdmaQueuePair_ctor 3 1 2 10 100) 1000 0
     (CreditBouncerTag_ctor CB_MSG_REQUEST 1000 0 False False CB_DATA_CLASS_UNSOLICITED 1068 1000 True 0 0 0)"

definition rxq1 :: RdmaRxQueuePair where
  "rxq1 = new_rxq cfg1 2 1 100 10 3"

definition sender1 :: SenderState where
  "sender1 = (init_sender cfg1 1 (SenderState_default\<lparr>m_senderAddr := 1, ss_msgStates := [0]\<rparr>))"

lemma open1: "\<exists>h. GetRxQp 2 1 100 10 3 True (RdmaHw_initial cfg1 (\<lambda>_. 0)) = (Some 0, h) \<and> cfg h = cfg1 \<and>
    hw_rxqs h 0 = rxq1 \<and> m_senderStates h 1 = Some sender1 \<and> m_globalOutstanding h = 0 \<and> hw_out h = []"
  by (simp add: GetRxQp_def RdmaHw_initial_def GetOrCreateSenderState_def SenderState_default_def Let_def
      sender1_def rxq1_def) (simp add: cfg1_def)

definition tag1 :: CreditBouncerTag where
  "tag1 = CreditBouncerTag_ctor CB_MSG_REQUEST 1000 0 False False CB_DATA_CLASS_UNSOLICITED 1068 1000 True 0 0 0"

lemma cfg1_sel: "h_mtu cfg1 = 1000" "h_creditbouncer cfg1" "\<not> h_ccEnable cfg1" "h_resendIntervalNs cfg1 = 100000"
  by (simp_all add: cfg1_def)

lemma rxq1_sel: "\<not> m_announcementAccounted rxq1" "rx_enabled rxq1" "\<not> m_resendEvent rxq1" "rx_dip rxq1 = 1"
  "m_pendingDemandBytes rxq1 = 0"
  by (simp_all add: rxq1_def new_rxq_def RdmaRxQueuePair_ctor_def cfg1_def)

lemma announce1:
  assumes "cfg h = cfg1" "hw_rxqs h 0 = rxq1" "hw_out h = []"
  shows "\<exists>h'. applyNewAnnouncement tag1 0 1 h = (True, h') \<and> cfg h' = cfg1 \<and>
    m_expectedChunks (hw_rxqs h' 0) = 1 \<and> m_receivedChunkBitmap (hw_rxqs h' 0) = [False] \<and>
    m_receivedChunks (hw_rxqs h' 0) = 0 \<and> \<not> m_completionNotified (hw_rxqs h' 0) \<and>
    m_announcementExpectedBytes (hw_rxqs h' 0) = 1000 \<and> reported k h' = 0"
  using assms
  by (simp add: applyNewAnnouncement_def tag1_def CreditBouncerTag_ctor_def rxq1_sel start_message_def
      cfg1_sel Let_def cancel_resend_def add_demand_def account_unsolicited_def
      ScheduleCreditBouncerResend_def reported_def)

lemma absorb_fields:
  assumes "mark_chunk (h_mtu (cfg hw)) (seq ch) (hw_rxqs hw r) = (True, i, q)"
  shows "m_expectedChunks (hw_rxqs (absorb_chunk p ch r hw) r) = m_expectedChunks q"
    "m_receivedChunks (hw_rxqs (absorb_chunk p ch r hw) r) = m_receivedChunks q"
    "m_completionNotified (hw_rxqs (absorb_chunk p ch r hw) r) = m_completionNotified q"
    "m_announcementExpectedBytes (hw_rxqs (absorb_chunk p ch r hw) r) = m_announcementExpectedBytes q"
proof -
  have e: "m_expectedChunks (account_ecn c e f q) = m_expectedChunks q"
    "m_receivedChunks (account_ecn c e f q) = m_receivedChunks q"
    "m_completionNotified (account_ecn c e f q) = m_completionNotified q"
    "m_announcementExpectedBytes (account_ecn c e f q) = m_announcementExpectedBytes q" for c e f q
    by (simp_all add: account_ecn_def Let_def split: option.split)
  have n: "m_expectedChunks (count_payload m j l q) = m_expectedChunks q"
    "m_receivedChunks (count_payload m j l q) = m_receivedChunks q"
    "m_completionNotified (count_payload m j l q) = m_completionNotified q"
    "m_announcementExpectedBytes (count_payload m j l q) = m_announcementExpectedBytes q" for m j l q
    by (simp_all add: count_payload_def Let_def)
  show "m_expectedChunks (hw_rxqs (absorb_chunk p ch r hw) r) = m_expectedChunks q"
    "m_receivedChunks (hw_rxqs (absorb_chunk p ch r hw) r) = m_receivedChunks q"
    "m_completionNotified (hw_rxqs (absorb_chunk p ch r hw) r) = m_completionNotified q"
    "m_announcementExpectedBytes (hw_rxqs (absorb_chunk p ch r hw) r) = m_announcementExpectedBytes q"
    using assms by (simp_all add: absorb_chunk_def Let_def e n)
qed

lemma reported_absorb: "reported k (absorb_chunk p ch r hw) = reported k hw"
  by (simp add: absorb_chunk_def account_first_copy_def case_prod_unfold Let_def)

lemma absorb1:
  assumes "cfg h = cfg1" "m_expectedChunks (hw_rxqs h 0) = 1" "m_receivedChunkBitmap (hw_rxqs h 0) = [False]"
    "m_receivedChunks (hw_rxqs h 0) = 0" "\<not> m_completionNotified (hw_rxqs h 0)"
    "m_announcementExpectedBytes (hw_rxqs h 0) = 1000"
  shows "message_complete (hw_rxqs (absorb_chunk data1 (p_hdr data1) 0 h) 0)"
proof -
  have "mark_chunk (h_mtu (cfg h)) (seq (p_hdr data1)) (hw_rxqs h 0)
      = (True, 0, (hw_rxqs h 0)\<lparr>m_receivedChunkBitmap := [True], m_receivedChunks := 1\<rparr>)"
    using assms by (simp add: mark_chunk_def cfg1_sel data1_def data_packet_def)
  from absorb_fields[OF this] show ?thesis using assms by (simp add: message_complete_def)
qed

lemma reported_timers:
  "reported k (cancel_resend r hw) = reported k hw"
  "reported k (ScheduleCreditBouncerResend r hw) = reported k hw"
  "reported k (ScheduleCreditGrantTick env hw) = reported k hw"
  by (simp_all add: cancel_resend_def ScheduleCreditBouncerResend_def ScheduleCreditGrantTick_def Let_def)

lemma reported_cleanup: "reported k (CleanupCreditBouncerSenderState r hw) = reported k hw"
  by (simp add: CleanupCreditBouncerSenderState_def Let_def split: option.split)

lemma finish_reports:
  assumes "message_complete (hw_rxqs hw r)"
  shows "reported (rx_key (sip ch) (pg ch) (sport ch)) (finish_data env ch r hw)
    = Suc (reported (rx_key (sip ch) (pg ch) (sport ch)) hw)"
proof -
  have "reported (rx_key (sip ch) (pg ch) (sport ch)) (complete_message ch r hw)
      = Suc (reported (rx_key (sip ch) (pg ch) (sport ch)) hw)"
    by (simp add: complete_message_def Let_def reported_timers reported_cleanup)
  then show ?thesis using assms by (simp add: finish_data_def Let_def reported_timers)
qed

definition hw1 :: RdmaHw where
  "hw1 = the (host_step env1 (Arrival data1) (RdmaHw_initial cfg1 (\<lambda>_. 0)))"

lemma hw1_reported: "reported (rx_key 1 3 10) hw1 = 1"
proof -
  have nf: "p_ecn data1 = 0" "\<not> h_csnEnable cfg1" "IsPriorityFlow tag1 = False"
    by (simp_all add: data1_def data_packet_def cfg1_def tag1_def IsPriorityFlow_def CreditBouncerTag_ctor_def flag_def)
  have hd: "p_hdr data1 = \<lparr>l3Prot = RDMA_L3_PROT_UDP, sip = 1, dip = 2, sport = 10, dport = 100, pg = 3, seq = 0\<rparr>"
    "p_cbTag data1 = Some tag1" "IsRequest tag1"
    by (simp_all add: data1_def data_packet_def RdmaQueuePair_ctor_def tag1_def IsRequest_def
        CreditBouncerTag_ctor_def)
  obtain h where h: "GetRxQp 2 1 100 10 3 True (RdmaHw_initial cfg1 (\<lambda>_. 0)) = (Some 0, h)"
    "cfg h = cfg1" "hw_rxqs h 0 = rxq1" "hw_out h = []" using open1 by blast
  obtain s h2 where s: "GetOrCreateSenderState 1 0 h = (s, h2)" by (cases "GetOrCreateSenderState 1 0 h")
  then have h2: "cfg h2 = cfg1" "hw_rxqs h2 0 = rxq1" "hw_out h2 = []"
    using h by (auto simp: GetOrCreateSenderState_def Let_def)
  define h3 where "h3 = set_sender 1 (refresh_sender cfg1 True False False False
    (s\<lparr>m_lastEcnMarked := False\<rparr>)) h2"
  have "cfg h3 = cfg1" "hw_rxqs h3 0 = rxq1" "hw_out h3 = []" using h2 by (simp_all add: h3_def)
  from announce1[OF this, of "rx_key 1 3 10"] obtain h4 where h4: "applyNewAnnouncement tag1 0 1 h3 = (True, h4)"
    "cfg h4 = cfg1" "m_expectedChunks (hw_rxqs h4 0) = 1" "m_receivedChunkBitmap (hw_rxqs h4 0) = [False]"
    "m_receivedChunks (hw_rxqs h4 0) = 0" "\<not> m_completionNotified (hw_rxqs h4 0)"
    "m_announcementExpectedBytes (hw_rxqs h4 0) = 1000" "reported (rx_key 1 3 10) h4 = 0" by blast
  note dn = absorb1[OF h4(2-7)]
  have "hw1 = finish_data env1 (p_hdr data1) 0 (absorb_chunk data1 (p_hdr data1) 0 h4)"
    using h s h4(1) rxq1_sel cfg1_sel(2)
    by (simp add: hw1_def ReceiveCreditBouncer_def receive_request_data_def hd(2,3) Let_def h3_def nf)
      (simp add: hd nf RdmaHw_initial_def)
  then show ?thesis using finish_reports[OF dn, of "p_hdr data1" env1] h4(8)
    by (simp add: reported_absorb) (simp add: hd)
qed

text \<open>A message has been reported, once, when its bitmap is full.\<close>
lemma reported_iff_bitmap:
  assumes "host_reaches (RdmaHw_initial c rates) hw" "h_mtu c \<noteq> 0"
  shows "reported k hw = (case m_rxQpMap hw k of None \<Rightarrow> 0
    | Some r \<Rightarrow> let q = hw_rxqs hw r in
        of_bool (m_announcementExpectedBytes q \<noteq> 0 \<and>
          {i. i < length (m_receivedChunkBitmap q) \<and> m_receivedChunkBitmap q ! i}
            = {i. i * unat (h_mtu c) < unat (m_announcementExpectedBytes q)}))"
proof -
  have inv: "rx_inv hw" "prompt_but {} hw" and ch: "cfg hw = c"
    using books.reaches[OF assms(1,2)] by (simp_all add: host_inv_def)
  have m: "0 < unat (h_mtu c)" using assms(2) by (simp add: unat_gt_0)
  have all: "got (m_receivedChunkBitmap (hw_rxqs hw r)) = {..<unat (m_expectedChunks (hw_rxqs hw r))}
      \<longleftrightarrow> got (m_receivedChunkBitmap (hw_rxqs hw r))
            = {i. i * unat (h_mtu c) < unat (m_announcementExpectedBytes (hw_rxqs hw r))}" for r
    using rx_inv_msg[OF inv(1), of r] chunks_of_bound[OF m]
    unfolding msg_inv_def lessThan_def ch by simp
  have "m_completionNotified (hw_rxqs hw r) \<longleftrightarrow> m_announcementExpectedBytes (hw_rxqs hw r) \<noteq> 0
      \<and> got (m_receivedChunkBitmap (hw_rxqs hw r)) = {..<unat (m_expectedChunks (hw_rxqs hw r))}" for r
    using rx_inv_msg[OF inv(1), of r] inv(2) unfolding msg_inv_def prompt_but_def prompt_def by blast
  then show ?thesis
    using inv(1) all by (simp add: rx_inv_def notified_def Let_def got_def split: option.split)
qed

lemma hw1_step: "host_step env1 (Arrival data1) (RdmaHw_initial cfg1 (\<lambda>_. 0)) = Some hw1"
  by (simp add: hw1_def ReceiveCreditBouncer_def RdmaHw_initial_def cfg1_def data1_def data_packet_def
      IsRequest_def CreditBouncerTag_ctor_def RDMA_L3_PROT_UDP_def)

lemma hw1_reached: "host_reaches (RdmaHw_initial cfg1 (\<lambda>_. 0)) hw1"
proof (rule host_next[OF host_start _ hw1_step])
  show "event_ok (Arrival data1) (RdmaHw_initial cfg1 (\<lambda>_. 0))"
    by (simp add: data_within_def RdmaHw_initial_def data1_def data_packet_def CreditBouncerTag_ctor_def)
qed

end
