(* ===== verification/RdmaExamples.thy ===== *)
theory RdmaExamples
  imports RdmaHost
begin

text \<open>
  Concrete hosts, at which the properties of the DPDQ transport are applied: a
  receiver (address 2) that has a route to the sender 1 and has heard the announcement
  of a message of five chunks, and the sender of that message.
\<close>

section \<open>A receiver with an announced message\<close>

definition req2 :: NsPacket where
  "req2 = BuildCreditBouncerCtrlPacket cfg1 1 2 10 100 3 0 CB_MSG_GRANT_REQ 5000 0 0 0 0"

definition tag2 :: CreditBouncerTag where
  "tag2 = CreditBouncerTag_ctor CB_MSG_GRANT_REQ 5000 0 False False CB_DATA_CLASS_NONE 0 0 False 0 0 0"

definition routed :: RdmaHw where
  "routed = hw_AddTableEntry 1 0 (RdmaHw_initial cfg1 (\<lambda>_. 0))"

definition hw2 :: RdmaHw where
  "hw2 = the (host_step env1 (Arrival req2) routed)"

lemma routed_sel: "cfg routed = cfg1" "hw_rtTable routed = (\<lambda>_. [])(1 := [0])" "hw_out routed = []"
  "m_rxQpMap routed = Map.empty" "m_senderStates routed = Map.empty" "m_globalOutstanding routed = 0"
  "hw_nextRxq routed = 0" "hw_rxqs routed = (\<lambda>_. RdmaRxQueuePair_ctor)" "\<not> m_grantTickEvent routed"
  "m_grantRrCursor routed = 0" "m_qpMap routed = Map.empty" "hw_qps routed = (\<lambda>_. RdmaQueuePair_ctor 0 0 0 0 0)"
  by (simp_all add: routed_def hw_AddTableEntry_def RdmaHw_initial_def Let_def)

lemma req2_sel: "p_hdr req2 = \<lparr>l3Prot = RDMA_L3_PROT_CREDITBOUNCER, sip = 1, dip = 2, sport = 10, dport = 100,
    pg = 3, seq = 0\<rparr>" "p_cbTag req2 = Some tag2" "p_ecn req2 = 0"
  by (simp_all add: req2_def tag2_def BuildCreditBouncerCtrlPacket_def Let_def)

lemma tag2_sel: "IsGrantReq tag2" "\<not> IsRequest tag2" "\<not> IsResend tag2" "\<not> IsGrant tag2" "\<not> IsBouncedCredit tag2"
  "m_creditReqBytes tag2 = 5000" "m_unsolCreditBytes tag2 = 0" "m_unsolCreditDataBytes tag2 = 0"
  by (simp_all add: tag2_def IsGrantReq_def IsRequest_def IsResend_def IsGrant_def IsBouncedCredit_def
      CreditBouncerTag_ctor_def)

lemma hw2_step: "host_step env1 (Arrival req2) routed = Some hw2"
  by (simp add: hw2_def ReceiveCreditBouncer_def routed_sel cfg1_sel req2_sel receive_control_def tag2_sel
      RDMA_L3_PROT_UDP_def RDMA_L3_PROT_CREDITBOUNCER_def)

lemma hw2_reached: "host_reaches (RdmaHw_initial cfg1 (\<lambda>_. 0)) hw2"
proof -
  have "host_reaches (RdmaHw_initial cfg1 (\<lambda>_. 0)) routed"
    by (rule host_next[OF host_start, of "Route 1 0" _ env1]) (simp_all add: routed_def)
  then show ?thesis by (rule host_next[OF _ _ hw2_step]) (simp add: req2_sel tag2_sel)
qed

definition q2 :: RdmaRxQueuePair where
  "q2 = (start_message 1000 5000 rxq1)\<lparr>m_pendingDemandBytes := 5000, m_resendEvent := True\<rparr>"

definition s2 :: SenderState where
  "s2 = sender1\<lparr>m_pendingDemandDataBytes := 5000\<rparr>"

lemma sender1_sel: "ss_enabled sender1" "m_senderAddr sender1 = 1" "ss_msgStates sender1 = [0]"
  "m_pendingDemandDataBytes sender1 = 0" "m_outstandingDataBytes sender1 = 0" "m_OutstandingBytes sender1 = 0"
  "m_srpbBytes sender1 = 20000" "m_maxSrpbBytes sender1 = 20000" "m_grantGranularityDataBytes sender1 = 1000"
  by (simp_all add: sender1_def init_sender_def Let_def SenderState_default_def cfg1_def)

lemma sender1_addr: "sender1\<lparr>m_senderAddr := 1\<rparr> = sender1"
  by (simp add: sender1_def init_sender_def Let_def)

lemma rxq1_more: "rx_sip rxq1 = 2" "rx_sport rxq1 = 100" "rx_dport rxq1 = 10" "rx_qIndex rxq1 = 3"
  "rx_ipid rxq1 = 0"
  by (simp_all add: rxq1_def new_rxq_def RdmaRxQueuePair_ctor_def)

lemma hw2_fields:
  "cfg hw2 = cfg1 \<and> hw_rtTable hw2 = (\<lambda>_. [])(1 := [0]) \<and> hw_rxqs hw2 0 = q2 \<and>
   m_rxQpMap hw2 = [rx_key 1 3 10 \<mapsto> 0] \<and> m_senderStates hw2 = [1 \<mapsto> s2] \<and>
   m_globalOutstanding hw2 = 0 \<and> m_grantRrCursor hw2 = 0 \<and> m_qpMap hw2 = Map.empty \<and>
   hw_qps hw2 = (\<lambda>_. RdmaQueuePair_ctor 0 0 0 0 0)"
proof -
  obtain h where h: "GetRxQp 2 1 100 10 3 True routed = (Some 0, h)"
    "cfg h = cfg1" "hw_rxqs h 0 = rxq1" "m_senderStates h = [1 \<mapsto> sender1]" "m_globalOutstanding h = 0"
    "hw_rtTable h = (\<lambda>_. [])(1 := [0])" "m_rxQpMap h = [rx_key 1 3 10 \<mapsto> 0]" "m_grantRrCursor h = 0" "m_qpMap h = Map.empty" "hw_qps h = (\<lambda>_. RdmaQueuePair_ctor 0 0 0 0 0)"
    using cfg1_sel(2)
    by (simp add: GetRxQp_def routed_sel GetOrCreateSenderState_def SenderState_default_def Let_def
      sender1_def rxq1_def)
  define h2 where "h2 = set_sender 1 sender1 h"
  have g: "GetOrCreateSenderState 1 0 h = (sender1, h2)"
    using sender1_sel(2,3)
    by (simp add: GetOrCreateSenderState_def Let_def h h2_def) (simp only: sender1_addr)
  have r: "refresh_sender cfg1 True b c d sender1 = sender1" for b c d
    using cfg1_sel(3) sender1_sel(1) by (simp add: refresh_sender_def)
  define h3 where "h3 = set_sender 1 sender1 h2"
  have h3: "cfg h3 = cfg1" "hw_rxqs h3 0 = rxq1" "m_senderStates h3 = [1 \<mapsto> sender1]" "m_globalOutstanding h3 = 0"
    "hw_rtTable h3 = (\<lambda>_. [])(1 := [0])" "m_rxQpMap h3 = [rx_key 1 3 10 \<mapsto> 0]" "m_grantRrCursor h3 = 0" "m_qpMap h3 = Map.empty" "hw_qps h3 = (\<lambda>_. RdmaQueuePair_ctor 0 0 0 0 0)"
    by (simp_all add: h3_def h2_def h)
  have st: "m_resendEvent (start_message 1000 5000 rxq1) = False"
    "m_pendingDemandBytes (start_message 1000 5000 rxq1) = 0" "rx_enabled (start_message 1000 5000 rxq1)"
    "\<not> m_completionNotified (start_message 1000 5000 rxq1)"
    "m_expectedChunks (start_message 1000 5000 rxq1) = 5"
    using rxq1_sel by (simp_all add: start_message_def Let_def)
  have "\<exists>h4. applyNewAnnouncement tag2 0 1 h3 = (True, h4) \<and> cfg h4 = cfg1 \<and> hw_rxqs h4 0 = q2 \<and>
    m_senderStates h4 = [1 \<mapsto> s2] \<and> m_globalOutstanding h4 = 0 \<and> hw_rtTable h4 = (\<lambda>_. [])(1 := [0]) \<and>
    m_rxQpMap h4 = [rx_key 1 3 10 \<mapsto> 0] \<and> m_grantRrCursor h4 = 0 \<and> m_qpMap h4 = Map.empty \<and>
    hw_qps h4 = (\<lambda>_. RdmaQueuePair_ctor 0 0 0 0 0)"
    using rxq1_sel(1) cfg1_sel
    by (simp add: applyNewAnnouncement_def tag2_sel h3 cancel_resend_def st add_demand_def sender_at_def
        sender1_sel account_unsolicited_def saturatingAdd_def ScheduleCreditBouncerResend_def Let_def q2_def s2_def)
  then obtain h4 where h4: "applyNewAnnouncement tag2 0 1 h3 = (True, h4)" "cfg h4 = cfg1" "hw_rxqs h4 0 = q2"
    "m_senderStates h4 = [1 \<mapsto> s2]" "m_globalOutstanding h4 = 0" "hw_rtTable h4 = (\<lambda>_. [])(1 := [0])"
    "m_rxQpMap h4 = [rx_key 1 3 10 \<mapsto> 0]" "m_grantRrCursor h4 = 0" "m_qpMap h4 = Map.empty" "hw_qps h4 = (\<lambda>_. RdmaQueuePair_ctor 0 0 0 0 0)" by blast
  have "hw2 = (if m_pendingDemandDataBytes (sender_at 1 h4) > 0 then ScheduleCreditGrantTick env1 h4 else h4)"
    using cfg1_sel(2) rxq1_sel(2) h(1-3) g h4(1)
    by (simp add: hw2_def ReceiveCreditBouncer_def routed_sel req2_sel receive_control_def tag2_sel
        RDMA_L3_PROT_UDP_def RDMA_L3_PROT_CREDITBOUNCER_def receive_grant_req_def r h3_def)
  then have "hw2 \<in> {h4, ScheduleCreditGrantTick env1 h4}" by (simp split: if_splits)
  moreover have "cfg h = cfg1 \<and> hw_rtTable h = (\<lambda>_. [])(1 := [0]) \<and> hw_rxqs h 0 = q2 \<and>
     m_rxQpMap h = [rx_key 1 3 10 \<mapsto> 0] \<and> m_senderStates h = [1 \<mapsto> s2] \<and>
     m_globalOutstanding h = 0 \<and> m_grantRrCursor h = 0 \<and> m_qpMap h = Map.empty \<and>
     hw_qps h = (\<lambda>_. RdmaQueuePair_ctor 0 0 0 0 0)"
    if "h \<in> {h4, ScheduleCreditGrantTick env1 h4}" for h
    using that h4(2-10) by (auto simp: ScheduleCreditGrantTick_def)
  ultimately show ?thesis by blast
qed

end
