(* ===== verification/RdmaHistory.thy ===== *)
theory RdmaHistory
  imports RdmaExamples
begin

text \<open>
  What a DPDQ receiver reports, in terms of the packets that have arrived: a message is
  reported complete when its announcement and, from then on, data for every chunk of it have
  arrived.  The bitmap of the queue pair is shown to be the set of the chunks that arrived;
  together with the invariants of RdmaMessages this gives the property.
\<close>

section \<open>What has arrived\<close>

definition packet_key :: "NsPacket \<Rightarrow> u64" where
  "packet_key p = rx_key (sip (p_hdr p)) (pg (p_hdr p)) (sport (p_hdr p))"

text \<open>A packet that states the size of its message: a request for grants, with data or without.\<close>
definition announces :: "NsPacket \<Rightarrow> bool" where
  "announces p \<longleftrightarrow> (case p_cbTag p of None \<Rightarrow> False
     | Some t \<Rightarrow> m_creditReqBytes t > 0 \<and> (IsGrantReq t \<or>
         IsRequest t \<and> (l3Prot (p_hdr p) = RDMA_L3_PROT_UDP \<or> l3Prot (p_hdr p) = RDMA_L3_PROT_CREDITBOUNCER)))"

definition announced_bytes :: "NsPacket \<Rightarrow> nat" where
  "announced_bytes p = (case p_cbTag p of None \<Rightarrow> 0 | Some t \<Rightarrow> unat (m_creditReqBytes t))"

definition carries_data :: "NsPacket \<Rightarrow> bool" where
  "carries_data p \<longleftrightarrow> (case p_cbTag p of None \<Rightarrow> False | Some t \<Rightarrow> IsRequest t \<and> l3Prot (p_hdr p) = RDMA_L3_PROT_UDP)"

text \<open>The arrivals for a message, from its first announcement on.\<close>
definition message_arrivals :: "u64 \<Rightarrow> NsPacket list \<Rightarrow> NsPacket list" where
  "message_arrivals k ps = dropWhile (\<lambda>p. \<not> announces p) (filter (\<lambda>p. packet_key p = k) ps)"

definition chunks_in :: "nat \<Rightarrow> NsPacket list \<Rightarrow> nat set" where
  "chunks_in mtu ps = (\<lambda>p. unat (seq (p_hdr p)) div mtu) ` set (filter carries_data ps)"

text \<open>The message has been announced and every chunk of it has come.\<close>
definition message_arrived :: "nat \<Rightarrow> u64 \<Rightarrow> NsPacket list \<Rightarrow> bool" where
  "message_arrived mtu k ps \<longleftrightarrow>
    (case message_arrivals k ps of [] \<Rightarrow> False
     | p # rest \<Rightarrow> chunks_in mtu (p # rest) = {i. i * mtu < announced_bytes p})"

text \<open>Runs with the packets that arrived, in order.\<close>
inductive host_hears :: "RdmaHw \<Rightarrow> NsPacket list \<Rightarrow> RdmaHw \<Rightarrow> bool" where
  hears_start: "host_hears hw [] hw"
| hears_arrival: "host_hears hw ps hw' \<Longrightarrow> event_ok (Arrival p) hw' \<Longrightarrow> host_step env (Arrival p) hw' = Some hw'' \<Longrightarrow>
    host_hears hw (ps @ [p]) hw''"
| hears_other: "host_hears hw ps hw' \<Longrightarrow> event_ok e hw' \<Longrightarrow> (\<forall>p. e \<noteq> Arrival p) \<Longrightarrow> host_step env e hw' = Some hw'' \<Longrightarrow>
    host_hears hw ps hw''"

lemma hears_reaches: "host_hears hw ps hw' \<Longrightarrow> host_reaches hw hw'"
proof (induction rule: host_hears.induct)
  case (hears_arrival hw ps hw' p env hw'')
  then show ?case by (blast intro: host_next)
next
  case (hears_other hw ps hw' e env hw'')
  then show ?case by (blast intro: host_next)
qed (rule host_start)

lemma message_arrivals_snoc:
  "message_arrivals k (ps @ [p]) = (if packet_key p \<noteq> k then message_arrivals k ps
     else if message_arrivals k ps \<noteq> [] then message_arrivals k ps @ [p] else if announces p then [p] else [])"
proof (cases "packet_key p = k")
  case True
  then show ?thesis
    by (auto simp: message_arrivals_def dropWhile_append dropWhile_eq_Nil_conv)
qed (simp add: message_arrivals_def)

lemma chunks_in_simps [simp]:
  "chunks_in m [] = {}"
  "chunks_in m (ps @ qs) = chunks_in m ps \<union> chunks_in m qs"
  "chunks_in m (p # ps) = (if carries_data p then insert (unat (seq (p_hdr p)) div m) (chunks_in m ps) else chunks_in m ps)"
  by (auto simp: chunks_in_def)

section \<open>What a queue pair knows of its message\<close>

type_synonym msg_part = "bool \<times> u64 \<times> bool list \<times> bool"

definition msg_part :: "RdmaRxQueuePair \<Rightarrow> msg_part" where
  "msg_part q = (m_announcementAccounted q, m_announcementExpectedBytes q, m_receivedChunkBitmap q, rx_enabled q)"

definition msg_view :: "u64 \<Rightarrow> RdmaHw \<Rightarrow> msg_part option" where
  "msg_view k hw = map_option (\<lambda>r. msg_part (hw_rxqs hw r)) (m_rxQpMap hw k)"

fun part_announce :: "u32 \<Rightarrow> u32 \<Rightarrow> msg_part \<Rightarrow> msg_part" where
  "part_announce mtu n (acc, E, bs, en) = (if n > 0 \<and> \<not> acc
     then (True, ucast n, m_receivedChunkBitmap (start_message mtu n RdmaRxQueuePair_ctor), en) else (acc, E, bs, en))"

fun part_absorb :: "nat \<Rightarrow> msg_part \<Rightarrow> msg_part" where
  "part_absorb i (acc, E, bs, en) = (acc, E, if i < length bs then bs[i := True] else bs, en)"

definition fresh_part :: "RdmaConfig \<Rightarrow> msg_part option \<Rightarrow> msg_part" where
  "fresh_part c v = (case v of None \<Rightarrow> (False, 0, [], h_creditbouncer c) | Some v \<Rightarrow> v)"

lemma view_quiet: "rx_inv hw \<Longrightarrow> rx_quiet hw hw' \<Longrightarrow> msg_view k hw' = msg_view k hw"
  by (cases "m_rxQpMap hw k") (simp_all add: msg_view_def rx_quiet_def rx_inv_def msg_part_def)

text \<open>A key and its queue pair determine each other.\<close>
lemma view_update:
  assumes "rx_inv hw" "m_rxQpMap hw k0 = Some r" "m_rxQpMap hw' = m_rxQpMap hw"
    "msg_part (hw_rxqs hw' r) = f (msg_part (hw_rxqs hw r))" "\<And>r'. r' \<noteq> r \<Longrightarrow> msg_part (hw_rxqs hw' r') = msg_part (hw_rxqs hw r')"
  shows "msg_view k hw' = (if k = k0 then map_option f (msg_view k hw) else msg_view k hw)"
proof (cases "m_rxQpMap hw k")
  case (Some r')
  then have "r' = r \<longleftrightarrow> k = k0" using assms(1,2) by (auto simp: rx_inv_def)
  then show ?thesis using assms(2-5) Some by (cases "k = k0") (auto simp: msg_view_def)
next
  case None
  then show ?thesis using assms(2,3) by (auto simp: msg_view_def)
qed

lemma view_GetRxQp:
  assumes "rx_inv hw" "GetRxQp a b sp dp cls True hw = (x, h)"
  shows "msg_view k h = (if k = rx_key b cls dp then Some (fresh_part (cfg hw) (msg_view k hw)) else msg_view k hw)"
proof (cases "m_rxQpMap hw (rx_key b cls dp)")
  case (Some r)
  then have "h = hw" using assms(2) by (simp add: GetRxQp_def)
  then show ?thesis using Some by (simp add: fresh_part_def msg_view_def)
next
  case None
  let ?r = "hw_nextRxq hw" and ?k = "rx_key b cls dp" and ?q = "new_rxq (cfg hw) a b sp dp cls"
  have f: "hw_rxqs h = (hw_rxqs hw)(?r := ?q)" "m_rxQpMap h = (m_rxQpMap hw)(?k \<mapsto> ?r)"
    using assms(2) None by (auto simp: GetRxQp_def Let_def GetOrCreateSenderState_def split: if_splits)
  have "m_rxQpMap hw k \<noteq> Some ?r" using assms(1) by (auto simp: rx_inv_def)
  then show ?thesis using None
    by (cases "m_rxQpMap hw k")
      (auto simp: msg_view_def f fresh_part_def msg_part_def new_rxq_def RdmaRxQueuePair_ctor_def)
qed

lemma view_announce:
  assumes inv: "rx_inv hw" and m: "h_mtu (cfg hw) \<noteq> 0" and a: "applyNewAnnouncement t r addr hw = (b, hw')"
    and k0: "m_rxQpMap hw k0 = Some r"
  shows "msg_view k hw' = (if k = k0 then map_option (part_announce (h_mtu (cfg hw)) (m_creditReqBytes t)) (msg_view k hw)
    else msg_view k hw)"
proof (cases "m_creditReqBytes t > 0 \<and> \<not> m_announcementAccounted (hw_rxqs hw r)")
  case False
  have "hw' = hw" using announce_refused[OF False, of addr] a by simp
  moreover have "map_option (part_announce (h_mtu (cfg hw)) (m_creditReqBytes t)) (msg_view k0 hw) = msg_view k0 hw"
    using False k0 by (auto simp: msg_view_def msg_part_def)
  ultimately show ?thesis by simp
next
  case True
  define h1 where "h1 = set_rxq r (start_message (h_mtu (cfg hw)) (m_creditReqBytes t) (hw_rxqs hw r)) hw"
  note Q = announce_quiet[OF inv m a conjunct1[OF True] conjunct2[OF True], folded h1_def]
  have "msg_view k h1 = (if k = k0 then map_option (part_announce (h_mtu (cfg hw)) (m_creditReqBytes t)) (msg_view k hw)
    else msg_view k hw)"
    by (rule view_update[OF inv k0]) (use True in \<open>simp_all add: h1_def msg_part_def start_message_def Let_def\<close>)
  then show ?thesis using view_quiet[OF Q] by simp
qed

lemma absorb_part:
  assumes "rx_inv hw" "h_mtu (cfg hw) \<noteq> 0"
  shows "msg_part (hw_rxqs (absorb_chunk p ch r hw) r) = part_absorb (unat (seq ch) div unat (h_mtu (cfg hw))) (msg_part (hw_rxqs hw r))"
    "r' \<noteq> r \<Longrightarrow> hw_rxqs (absorb_chunk p ch r hw) r' = hw_rxqs hw r'"
proof -
  let ?q = "hw_rxqs hw r" and ?i = "unat (seq ch) div unat (h_mtu (cfg hw))"
  obtain first idx q1 where mark: "mark_chunk (h_mtu (cfg hw)) (seq ch) ?q = (first, idx, q1)"
    by (cases "mark_chunk (h_mtu (cfg hw)) (seq ch) ?q")
  note M = mark_chunk_result[OF assms(2) rx_inv_msg[OF assms(1), of r] mark]
  have len: "length (m_receivedChunkBitmap ?q) = unat (m_expectedChunks ?q)"
    using rx_inv_msg[OF assms(1), of r] by (simp add: msg_inv_def)
  have "msg_part q1 = part_absorb ?i (msg_part ?q)"
  proof (cases "first \<or> \<not> ?i < unat (m_expectedChunks ?q)")
    case True
    have "q1 = (if ?i < unat (m_expectedChunks ?q) then ?q\<lparr>m_receivedChunkBitmap := (m_receivedChunkBitmap ?q)[?i := True],
        m_receivedChunks := m_receivedChunks ?q + 1\<rparr> else ?q)" using M True by presburger
    then show ?thesis by (simp add: msg_part_def len)
  next
    case False
    then have "q1 = ?q" "m_receivedChunkBitmap ?q ! ?i" using M by presburger+
    moreover have "(m_receivedChunkBitmap ?q)[?i := m_receivedChunkBitmap ?q ! ?i] = m_receivedChunkBitmap ?q"
      by (rule list_update_id)
    ultimately show ?thesis by (simp add: msg_part_def)
  qed
  moreover have "msg_part (account_ecn c e f q) = msg_part q" "msg_part (count_payload mt i pl q) = msg_part q" for c e f q mt i pl
    by (simp_all add: msg_part_def account_ecn_def count_payload_def Let_def split: option.split)
  ultimately show "msg_part (hw_rxqs (absorb_chunk p ch r hw) r) = part_absorb ?i (msg_part ?q)"
    by (simp add: absorb_chunk_def Let_def mark)
  show "r' \<noteq> r \<Longrightarrow> hw_rxqs (absorb_chunk p ch r hw) r' = hw_rxqs hw r'"
    by (simp add: absorb_chunk_def Let_def mark)
qed

lemma view_timers:
  "msg_part (hw_rxqs (ScheduleCreditBouncerResend r hw) r') = msg_part (hw_rxqs hw r')"
  "msg_part (hw_rxqs (cancel_resend r hw) r') = msg_part (hw_rxqs hw r')"
  "m_rxQpMap (ScheduleCreditBouncerResend r hw) = m_rxQpMap hw" "m_rxQpMap (cancel_resend r hw) = m_rxQpMap hw"
  "hw_rxqs (ScheduleCreditGrantTick env hw) = hw_rxqs hw" "m_rxQpMap (ScheduleCreditGrantTick env hw) = m_rxQpMap hw"
  by (auto simp: ScheduleCreditBouncerResend_def cancel_resend_def ScheduleCreditGrantTick_def Let_def msg_part_def)

lemma view_complete: "msg_view k (complete_message ch r hw) = msg_view k hw"
proof -
  have "hw_rxqs (CleanupCreditBouncerSenderState r h) = hw_rxqs h" for h
    by (simp add: CleanupCreditBouncerSenderState_def Let_def split: option.split)
  moreover have "msg_part (q\<lparr>m_completionNotified := b\<rparr>) = msg_part q" for q b by (simp add: msg_part_def)
  ultimately have "msg_part (hw_rxqs (complete_message ch r hw) r') = msg_part (hw_rxqs hw r')" for r'
    by (simp add: complete_message_def Let_def view_timers)
  then show ?thesis by (simp add: msg_view_def complete_frame)
qed

lemma view_finish: "msg_view k (finish_data env ch r hw) = msg_view k hw"
proof -
  have "msg_view k (ScheduleCreditBouncerResend r h) = msg_view k h" "msg_view k (ScheduleCreditGrantTick env h) = msg_view k h" for h
    by (simp_all add: msg_view_def view_timers)
  then show ?thesis by (simp add: finish_data_def Let_def view_complete)
qed


section \<open>What each arrival does to it\<close>

text \<open>The opening of the handlers of requests: the queue pair is found or made, and told
  of the announcement.\<close>
lemma view_opened:
  assumes inv: "rx_inv hw" and m: "h_mtu (cfg hw) \<noteq> 0" and g: "GetRxQp a b sp dp cls True hw = (Some r, h1)"
    and q: "rx_quiet h1 h3" and an: "applyNewAnnouncement t r addr h3 = (x, h4)"
  shows "rx_inv h4" "cfg h4 = cfg hw" "m_rxQpMap h4 (rx_key b cls dp) = Some r"
    "msg_view k h4 = (if k = rx_key b cls dp
       then Some (part_announce (h_mtu (cfg hw)) (m_creditReqBytes t) (fresh_part (cfg hw) (msg_view k hw))) else msg_view k hw)"
proof -
  obtain r' where "Some r = Some r'" "rx_inv h1" "cfg h1 = cfg hw" "m_rxQpMap h1 (rx_key b cls dp) = Some r'"
    by (rule rx_inv_GetRxQp[OF inv m g]) blast
  then have i1: "rx_inv h1" "cfg h1 = cfg hw" "m_rxQpMap h1 (rx_key b cls dp) = Some r" by simp_all
  have i3: "rx_inv h3" "cfg h3 = cfg hw" "m_rxQpMap h3 (rx_key b cls dp) = Some r"
    using rx_quiet_inv[OF q i1(1)] q i1 by (simp_all add: rx_quiet_def)
  have m3: "h_mtu (cfg h3) \<noteq> 0" using m i3(2) by simp
  note A = rx_inv_announce[OF i3(1) m3 an]
  show "rx_inv h4" "cfg h4 = cfg hw" "m_rxQpMap h4 (rx_key b cls dp) = Some r" using A i3 by simp_all
  show "msg_view k h4 = (if k = rx_key b cls dp
       then Some (part_announce (h_mtu (cfg hw)) (m_creditReqBytes t) (fresh_part (cfg hw) (msg_view k hw))) else msg_view k hw)"
    using view_announce[OF i3(1) m3 an i3(3), of k] view_quiet[OF i1(1) q, of k] view_GetRxQp[OF inv g, of k]
    by (cases "k = rx_key b cls dp") (simp_all only: i3(2) option.map if_True if_False simp_thms)
qed

text \<open>Queue pairs of the message table are enabled.\<close>
definition views_on :: "RdmaHw \<Rightarrow> bool" where
  "views_on hw \<longleftrightarrow> (\<forall>k a E bs en. msg_view k hw = Some (a, E, bs, en) \<longrightarrow> en)"

lemma opened_enabled:
  assumes "rx_inv hw" "h_mtu (cfg hw) \<noteq> 0" "h_creditbouncer (cfg hw)" "views_on hw"
    "GetRxQp a b sp dp cls True hw = (x, h)"
  obtains r where "x = Some r" "rx_enabled (hw_rxqs h r)"
proof -
  obtain r where r: "x = Some r" "m_rxQpMap h (rx_key b cls dp) = Some r"
    by (rule rx_inv_GetRxQp[OF assms(1,2,5)]) blast
  have "msg_view (rx_key b cls dp) h = Some (fresh_part (cfg hw) (msg_view (rx_key b cls dp) hw))"
    using view_GetRxQp[OF assms(1,5)] by simp
  then have e: "msg_part (hw_rxqs h r) = fresh_part (cfg hw) (msg_view (rx_key b cls dp) hw)"
    using r(2) by (simp add: msg_view_def)
  have "rx_enabled (hw_rxqs h r)"
  proof (cases "msg_view (rx_key b cls dp) hw")
    case None
    then show ?thesis using e assms(3) by (simp add: msg_part_def fresh_part_def)
  next
    case (Some v)
    obtain ac E bs en where v: "v = (ac, E, bs, en)" by (cases v)
    have en using assms(4) Some v unfolding views_on_def by blast
    then show ?thesis using e Some v by (simp add: msg_part_def fresh_part_def)
  qed
  then show thesis using that r(1) by blast
qed

lemma view_request_data:
  assumes inv: "rx_inv hw" and m: "h_mtu (cfg hw) \<noteq> 0" and on: "h_creditbouncer (cfg hw)" "views_on hw"
  shows "msg_view k (receive_request_data env p ch t hw) =
    (if k = rx_key (sip ch) (pg ch) (sport ch)
     then Some (part_absorb (unat (seq ch) div unat (h_mtu (cfg hw)))
       (part_announce (h_mtu (cfg hw)) (m_creditReqBytes t) (fresh_part (cfg hw) (msg_view k hw)))) else msg_view k hw)"
proof -
  obtain x h1 where g: "GetRxQp (dip ch) (sip ch) (dport ch) (sport ch) (pg ch) True hw = (x, h1)"
    by (cases "GetRxQp (dip ch) (sip ch) (dport ch) (sport ch) (pg ch) True hw")
  obtain r where r: "x = Some r" "rx_enabled (hw_rxqs h1 r)" by (rule opened_enabled[OF inv m on g])
  note g' = g[unfolded r(1)]
  obtain s h2 where s: "GetOrCreateSenderState (sip ch) r h1 = (s, h2)"
    by (cases "GetOrCreateSenderState (sip ch) r h1")
  define s' where "s' = refresh_sender (cfg hw) True (h_csnEnable (cfg hw) \<and> IsCsnMarked t)
    ((word_of_nat (p_ecn p) :: u8) \<noteq> 0) (IsPriorityFlow t)
    (s\<lparr>m_lastEcnMarked := ((word_of_nat (p_ecn p) :: u8) \<noteq> 0)\<rparr>)"
  define h3 where "h3 = set_sender (sip ch) s' h2"
  have q: "rx_quiet h1 h3" using rx_quiet_sender[of h1 "sip ch" s' "sip ch" r] by (simp add: h3_def s)
  obtain b h4 where an: "applyNewAnnouncement t r (sip ch) h3 = (b, h4)"
    by (cases "applyNewAnnouncement t r (sip ch) h3")
  note V = view_opened[OF inv m g' q an]
  have m4: "h_mtu (cfg h4) \<noteq> 0" using m V(2) by simp
  have e: "receive_request_data env p ch t hw = finish_data env ch r (absorb_chunk p ch r h4)"
    using r(2) s an by (simp add: receive_request_data_def Let_def g' s'_def[symmetric] h3_def[symmetric])
  have mp: "m_rxQpMap (absorb_chunk p ch r h4) = m_rxQpMap h4"
    by (simp add: absorb_chunk_def Let_def split: prod.split)
  have ot: "msg_part (hw_rxqs (absorb_chunk p ch r h4) r') = msg_part (hw_rxqs h4 r')" if "r' \<noteq> r" for r'
    using absorb_part(2)[OF V(1) m4 that] by simp
  note U = view_update[where f = "part_absorb (unat (seq ch) div unat (h_mtu (cfg h4)))", OF V(1,3) mp absorb_part(1)[OF V(1) m4] ot, of k]
  show ?thesis unfolding e view_finish
    using U V(4)[of k] by (cases "k = rx_key (sip ch) (pg ch) (sport ch)")
      (simp_all only: V(2) option.map if_True if_False simp_thms)
qed

lemma view_grant_req:
  assumes inv: "rx_inv hw" and m: "h_mtu (cfg hw) \<noteq> 0" and on: "h_creditbouncer (cfg hw)" "views_on hw"
  shows "msg_view k (receive_grant_req env p ch t hw) =
    (if k = rx_key (sip ch) (pg ch) (sport ch)
     then Some (part_announce (h_mtu (cfg hw)) (m_creditReqBytes t) (fresh_part (cfg hw) (msg_view k hw))) else msg_view k hw)"
proof -
  obtain x h1 where g: "GetRxQp (dip ch) (sip ch) (dport ch) (sport ch) (pg ch) True hw = (x, h1)"
    by (cases "GetRxQp (dip ch) (sip ch) (dport ch) (sport ch) (pg ch) True hw")
  obtain r where r: "x = Some r" "rx_enabled (hw_rxqs h1 r)" by (rule opened_enabled[OF inv m on g])
  note g' = g[unfolded r(1)]
  obtain s h2 where s: "GetOrCreateSenderState (sip ch) r h1 = (s, h2)"
    by (cases "GetOrCreateSenderState (sip ch) r h1")
  define s' where "s' = refresh_sender (cfg hw) (IsGrantReq t) (h_csnEnable (cfg hw) \<and> IsCsnMarked t)
    ((word_of_nat (p_ecn p) :: u8) \<noteq> 0) False s"
  define h3 where "h3 = set_sender (sip ch) s' h2"
  have q: "rx_quiet h1 h3" using rx_quiet_sender[of h1 "sip ch" s' "sip ch" r] by (simp add: h3_def s)
  obtain b h4 where an: "applyNewAnnouncement t r (sip ch) h3 = (b, h4)"
    by (cases "applyNewAnnouncement t r (sip ch) h3")
  have e: "receive_grant_req env p ch t hw =
      (if m_pendingDemandDataBytes (sender_at (sip ch) h4) > 0 then ScheduleCreditGrantTick env h4 else h4)"
    using r(2) s an by (simp add: receive_grant_req_def Let_def g' s'_def[symmetric] h3_def[symmetric])
  have "msg_view k (ScheduleCreditGrantTick env h4) = msg_view k h4" by (simp add: msg_view_def view_timers)
  then have "msg_view k (receive_grant_req env p ch t hw) = msg_view k h4" by (simp add: e)
  then show ?thesis using view_opened(4)[OF inv m g' q an, of k] by (rule trans)
qed


section \<open>The bitmap is the set of chunks that arrived\<close>

text \<open>What the table says of a message, and what has arrived for it.\<close>
definition tells :: "u32 \<Rightarrow> NsPacket list \<Rightarrow> msg_part option \<Rightarrow> bool" where
  "tells mtu ms v \<longleftrightarrow> (case v of None \<Rightarrow> ms = []
     | Some (acc, E, bs, en) \<Rightarrow> en \<and> length bs = chunks_of (unat mtu) (unat E) \<and>
        (if acc then E \<noteq> 0 \<and> (\<exists>p rest. ms = p # rest \<and> unat E = announced_bytes p \<and> got bs = chunks_in (unat mtu) ms)
         else ms = [] \<and> bs = [] \<and> E = 0))"

lemma tells_None [simp]: "tells mtu ms None \<longleftrightarrow> ms = []"
  by (simp add: tells_def)

lemma start_bitmap:
  "m_receivedChunkBitmap (start_message mtu n q)
    = replicate (unat (ucast ((ucast n + ucast mtu - 1 :: u64) div ucast mtu) :: u32)) False"
  by (simp add: start_message_def Let_def)

text \<open>An arrival for a message, not heard of before or known: it may announce the message,
  carry data of it, or both.\<close>
lemma tells_arrival:
  assumes m: "mtu \<noteq> 0" and old: "tells mtu ms v" "h_creditbouncer c" and tag: "p_cbTag p = Some t"
    and a: "announces p \<longleftrightarrow> m_creditReqBytes t > 0" and i: "i = unat (seq (p_hdr p)) div unat mtu"
    and v': "v' = part_announce mtu (m_creditReqBytes t) (fresh_part c v)"
    and within: "\<And>acc E bs en. v' = (acc, E, bs, en) \<Longrightarrow> acc \<Longrightarrow> carries_data p \<Longrightarrow> unat (seq (p_hdr p)) < unat E"
  shows "tells mtu (if ms \<noteq> [] then ms @ [p] else if announces p then [p] else [])
    (Some (if carries_data p then part_absorb i v' else v'))"
proof -
  obtain acc E bs en where v: "fresh_part c v = (acc, E, bs, en)" by (cases "fresh_part c v")
  have ab: "announced_bytes p = unat (m_creditReqBytes t)" using tag by (simp add: announced_bytes_def)
  have m0: "0 < unat mtu" using m by (simp add: unat_gt_0)
  have T: "tells mtu ms (Some (acc, E, bs, en))"
    using old v m0 by (cases v) (auto simp: fresh_part_def tells_def chunks_of_def)
  have inside: "i < chunks_of (unat mtu) e" if "unat (seq (p_hdr p)) < e" for e
  proof -
    have "i * unat mtu \<le> unat (seq (p_hdr p))" by (simp add: i)
    then show ?thesis using that by (simp add: chunks_of_bound[OF m0])
  qed
  show ?thesis
  proof (cases acc)
    case True
    then have "v' = (acc, E, bs, en)" by (simp add: v' v)
    moreover have "carries_data p \<Longrightarrow> i < length bs"
      using within[OF calculation True] T inside by (simp add: tells_def)
    ultimately show ?thesis using T True by (auto simp: tells_def got_update i)
  next
    case False
    then have e: "ms = []" "bs = []" "E = 0" "en" using T by (simp_all add: tells_def)
    show ?thesis
    proof (cases "m_creditReqBytes t > 0")
      case True
      let ?bs = "replicate (chunks_of (unat mtu) (unat (m_creditReqBytes t))) False"
      have v'': "v' = (True, ucast (m_creditReqBytes t), ?bs, True)"
        using True False e by (simp add: v' v start_bitmap expected_chunks_word[OF m])
      have u: "unat (ucast (m_creditReqBytes t) :: u64) = unat (m_creditReqBytes t)" by (simp add: unat_ucast_up)
      then have "(ucast (m_creditReqBytes t) :: u64) \<noteq> 0"
        using True by (metis unat_gt_0 unat_0 word_gt_0)
      moreover have "carries_data p \<Longrightarrow> i < length ?bs" using within[OF v''] inside u by simp
      ultimately show ?thesis using True e a u by (auto simp: v'' tells_def got_update ab i)
    next
      case False
      then have "v' = (acc, E, bs, en)" by (simp add: v' v)
      then show ?thesis using T e False \<open>\<not> acc\<close> a by (simp add: tells_def)
    qed
  qed
qed


section \<open>Runs\<close>

lemma tells_ignored:
  assumes "\<not> announces p" "\<not> carries_data p" "tells mtu (message_arrivals k ps) v"
  shows "tells mtu (message_arrivals k (ps @ [p])) v"
proof -
  have "tells mtu ((p' # rest) @ [p]) (Some w) \<longleftrightarrow> tells mtu (p' # rest) (Some w)" for p' rest w
    using assms(2) by (cases w) (simp add: tells_def)
  then show ?thesis using assms
    by (cases "message_arrivals k ps"; cases v) (auto simp: message_arrivals_snoc split: if_splits)
qed

definition hist :: "RdmaConfig \<Rightarrow> NsPacket list \<Rightarrow> RdmaHw \<Rightarrow> bool" where
  "hist c ps hw \<longleftrightarrow> host_inv hw \<and> cfg hw = c \<and>
     (\<forall>k. if h_creditbouncer c then tells (h_mtu c) (message_arrivals k ps) (msg_view k hw) else msg_view k hw = None)"

lemma within_view:
  assumes "data_within (p_hdr p) t hw" "packet_key p = k"
    "part_announce mtu (m_creditReqBytes t) (fresh_part c (msg_view k hw)) = (acc, E, bs, en)" "acc"
  shows "unat (seq (p_hdr p)) < unat E"
proof (cases "m_rxQpMap hw k")
  case None
  then show ?thesis using assms
    by (auto simp: data_within_def packet_key_def msg_view_def fresh_part_def unat_ucast_up split: if_splits)
next
  case (Some r)
  then show ?thesis using assms
    by (auto simp: data_within_def packet_key_def msg_view_def msg_part_def fresh_part_def unat_ucast_up split: if_splits)
qed

lemma hist_arrival:
  assumes h: "hist c ps hw" and m: "h_mtu c \<noteq> 0" and ok: "event_ok (Arrival p) hw"
    and st: "host_step env (Arrival p) hw = Some hw'"
  shows "hist c (ps @ [p]) hw'"
proof -
  have inv: "host_inv hw" "rx_inv hw" "cfg hw = c" using h by (simp_all add: hist_def host_inv_def)
  have m': "h_mtu (cfg hw) \<noteq> 0" using m inv by simp
  have inv': "host_inv hw'" "cfg hw' = c" using host_inv_step[OF inv(1) m' ok st] inv(3) by simp_all
  have "tells (h_mtu c) (message_arrivals k (ps @ [p])) (msg_view k hw')" if cb: "h_creditbouncer c" for k
  proof -
    have T: "tells (h_mtu c) (message_arrivals k ps) (msg_view k hw)" for k using h cb by (simp add: hist_def)
    have on: "views_on hw" unfolding views_on_def
    proof (intro allI impI)
      fix k a E bs en assume "msg_view k hw = Some (a, E, bs, en)"
      then show en using T[of k] by (simp add: tells_def)
    qed
    show ?thesis
    proof (cases "p_cbTag p")
      case None
      then have "hw' = hw" using st by (simp add: ReceiveCreditBouncer_def split: if_splits)
      then show ?thesis using T None by (simp add: tells_ignored announces_def carries_data_def)
    next
      case (Some t)
      let ?v = "part_announce (h_mtu c) (m_creditReqBytes t) (fresh_part c (msg_view k hw))"
      let ?i = "unat (seq (p_hdr p)) div unat (h_mtu c)"
      have other: "message_arrivals k (ps @ [p]) = message_arrivals k ps" if "k \<noteq> packet_key p"
        using that by (auto simp: message_arrivals_snoc)
      have new: "tells (h_mtu c) (message_arrivals k (ps @ [p])) (Some (if carries_data p then part_absorb ?i ?v else ?v))"
        if k: "k = packet_key p" and a: "announces p \<longleftrightarrow> m_creditReqBytes t > 0" and w: "carries_data p \<Longrightarrow> data_within (p_hdr p) t hw"
      proof -
        have "message_arrivals k (ps @ [p]) = (if message_arrivals k ps \<noteq> [] then message_arrivals k ps @ [p]
          else if announces p then [p] else [])" using k by (simp add: message_arrivals_snoc)
        moreover have "unat (seq (p_hdr p)) < unat E" if "?v = (acc, E, bs, en)" "acc" "carries_data p" for acc E bs en
          using within_view[OF w[OF that(3)] k[symmetric] that(1,2)] .
        ultimately show ?thesis using tells_arrival[OF m T[of k] cb Some a refl refl] by (simp only:)
      qed
      consider (data) "IsRequest t" "l3Prot (p_hdr p) = RDMA_L3_PROT_UDP"
        | (req) "\<not> (IsRequest t \<and> l3Prot (p_hdr p) = RDMA_L3_PROT_UDP)"
            "IsGrantReq t \<or> IsRequest t \<and> l3Prot (p_hdr p) = RDMA_L3_PROT_CREDITBOUNCER"
        | (none) "\<not> (IsRequest t \<and> l3Prot (p_hdr p) = RDMA_L3_PROT_UDP)"
            "\<not> (IsGrantReq t \<or> IsRequest t \<and> l3Prot (p_hdr p) = RDMA_L3_PROT_CREDITBOUNCER)" by blast
      then show ?thesis
      proof cases
        case data
        have c1: "carries_data p" "announces p \<longleftrightarrow> m_creditReqBytes t > 0"
          using data by (auto simp: carries_data_def announces_def Some)
        have "hw' = receive_request_data env p (p_hdr p) t hw"
          using st data cb inv(3) by (simp add: ReceiveCreditBouncer_def Some)
        then have V: "msg_view k hw' = (if k = packet_key p then Some (part_absorb ?i ?v) else msg_view k hw)"
          using view_request_data[OF inv(2) m' _ on] cb by (simp add: inv(3) packet_key_def)
        have "data_within (p_hdr p) t hw" using ok data by (simp add: Some)
        then show ?thesis using new[OF _ c1(2)] V other c1(1) T[of k] by (cases "k = packet_key p") simp_all
      next
        case req
        have c1: "\<not> carries_data p" "announces p \<longleftrightarrow> m_creditReqBytes t > 0"
          using req by (auto simp: carries_data_def announces_def Some)
        have "receive_control env p (p_hdr p) t hw = Some hw'"
          using st req(1) cb inv(3) by (simp add: ReceiveCreditBouncer_def Some split: if_splits)
        then have Q: "rx_quiet (receive_grant_req env p (p_hdr p) t hw) hw'" using quiet_control req(2) by presburger
        have "rx_inv (receive_grant_req env p (p_hdr p) t hw)" using rx_inv_grant_req[OF inv(2) m'] by blast
        then have "msg_view k hw' = msg_view k (receive_grant_req env p (p_hdr p) t hw)" using Q by (rule view_quiet)
        then have V: "msg_view k hw' = (if k = packet_key p then Some ?v else msg_view k hw)"
          using view_grant_req[OF inv(2) m' _ on] cb by (simp add: inv(3) packet_key_def)
        then show ?thesis using new[OF _ c1(2)] other c1(1) T[of k] by (cases "k = packet_key p") simp_all
      next
        case none
        have c1: "\<not> carries_data p" "\<not> announces p"
          using none by (auto simp: carries_data_def announces_def Some)
        have "receive_control env p (p_hdr p) t hw = Some hw'"
          using st none(1) cb inv(3) by (simp add: ReceiveCreditBouncer_def Some split: if_splits)
        then have "rx_quiet hw hw'" using quiet_control none(2) by presburger
        with inv(2) have "msg_view k hw' = msg_view k hw" by (rule view_quiet)
        then show ?thesis using tells_ignored[OF c1(2,1) T] by simp
      qed
    qed
  qed
  moreover have "hw' = hw" if "\<not> h_creditbouncer c" using st that inv(3) by (simp add: ReceiveCreditBouncer_def)
  ultimately show ?thesis using inv' h by (auto simp: hist_def)
qed

lemma hist_other:
  assumes "hist c ps hw" "\<forall>p. e \<noteq> Arrival p" "host_step env e hw = Some hw'"
  shows "hist c ps hw'"
proof -
  note Q = quiet_event[OF assms(2,3)]
  have "msg_view k hw' = msg_view k hw" for k
    using view_quiet[OF _ Q] assms(1) by (simp add: hist_def host_inv_def)
  then show ?thesis using host_inv_quiet[OF Q] assms(1) by (simp add: hist_def)
qed

lemma hist_run:
  assumes "host_hears (RdmaHw_initial c rates) ps hw" "h_mtu c \<noteq> 0"
  shows "hist c ps hw"
  using assms(1)
proof (induction "RdmaHw_initial c rates" ps hw rule: host_hears.induct)
  case hears_start
  have "msg_view k (RdmaHw_initial c rates) = None" for k by (simp add: msg_view_def RdmaHw_initial_def)
  then show ?case using host_inv_initial[OF assms(2)]
    by (simp add: hist_def message_arrivals_def) (simp add: RdmaHw_initial_def)
next
  case (hears_arrival ps hw' p env hw'')
  then show ?case using hist_arrival assms(2) by blast
next
  case (hears_other ps hw' e env hw'')
  then show ?case using hist_other by blast
qed

text \<open>C2: over any run of a host, from its start and through any arrivals, timer events,
  requests of its NIC, new and completed messages, the number of times the message of a key
  (sender address, class, source port) has been reported complete is 1 if, of the packets
  that arrived for that key, one announced the message and, from that one on, data came for
  every chunk of the announced size; otherwise it is 0.  The condition speaks of the packets
  that arrived and of nothing the host keeps, so a message is reported as soon as it is whole,
  never early and never twice, whatever the order, the duplicates and the resends.  Data lies
  inside the message it belongs to (a premise of the runs), and the MTU is not 0.\<close>
theorem message_reported_iff_arrived:
  assumes "host_hears (RdmaHw_initial c rates) ps hw" "h_mtu c \<noteq> 0"
  shows "reported k hw = of_bool (h_creditbouncer c \<and> message_arrived (unat (h_mtu c)) k ps)"
proof -
  have H: "if h_creditbouncer c then tells (h_mtu c) (message_arrivals k ps) (msg_view k hw) else msg_view k hw = None"
    using hist_run[OF assms] by (simp add: hist_def)
  note R = reported_iff_bitmap[OF hears_reaches[OF assms(1)] assms(2), of k, folded got_def]
  show ?thesis
  proof (cases "m_rxQpMap hw k")
    case None
    then show ?thesis using H R by (simp add: msg_view_def message_arrived_def split: if_splits)
  next
    case (Some r)
    let ?q = "hw_rxqs hw r"
    have v: "msg_view k hw = Some (m_announcementAccounted ?q, m_announcementExpectedBytes ?q, m_receivedChunkBitmap ?q, rx_enabled ?q)"
      using Some by (simp add: msg_view_def msg_part_def)
    then have cb: "h_creditbouncer c" using H by (simp split: if_splits)
    have "reported k hw = of_bool (m_announcementExpectedBytes ?q \<noteq> 0 \<and>
        got (m_receivedChunkBitmap ?q) = {i. i * unat (h_mtu c) < unat (m_announcementExpectedBytes ?q)})"
      using R Some by (simp add: Let_def)
    moreover have "m_announcementExpectedBytes ?q \<noteq> 0 \<and>
        got (m_receivedChunkBitmap ?q) = {i. i * unat (h_mtu c) < unat (m_announcementExpectedBytes ?q)}
      \<longleftrightarrow> message_arrived (unat (h_mtu c)) k ps"
    proof -
      have T: "tells (h_mtu c) (message_arrivals k ps) (Some (m_announcementAccounted ?q, m_announcementExpectedBytes ?q,
        m_receivedChunkBitmap ?q, rx_enabled ?q))" using H cb by (simp add: v)
      show ?thesis
      proof (cases "m_announcementAccounted ?q")
        case True
        then obtain p rest where "m_announcementExpectedBytes ?q \<noteq> 0" "message_arrivals k ps = p # rest"
          "unat (m_announcementExpectedBytes ?q) = announced_bytes p"
          "got (m_receivedChunkBitmap ?q) = chunks_in (unat (h_mtu c)) (p # rest)"
          using T by (fastforce simp only: tells_def option.case prod.case if_True)
        then show ?thesis by (simp only: message_arrived_def list.case simp_thms not_False_eq_True)
      next
        case False
        then have "m_announcementExpectedBytes ?q = 0" "message_arrivals k ps = []"
          using T by (simp_all only: tells_def option.case prod.case if_False)
        then show ?thesis by (simp add: message_arrived_def)
      qed
    qed
    ultimately show ?thesis using cb by (simp only: simp_thms)
  qed
qed

lemma hw1_hears: "host_hears (RdmaHw_initial cfg1 (\<lambda>_. 0)) [data1] hw1"
proof -
  have "event_ok (Arrival data1) (RdmaHw_initial cfg1 (\<lambda>_. 0))"
    by (simp add: data_within_def RdmaHw_initial_def data1_def data_packet_def CreditBouncerTag_ctor_def)
  from hears_arrival[OF hears_start this hw1_step] show ?thesis by simp
qed

text \<open>A message of one chunk: its only packet has come, and it has been reported once.\<close>
lemma message_reported_iff_arrived_witness:
  "reported (rx_key 1 3 10) hw1 = 1 \<and> message_arrived 1000 (rx_key 1 3 10) [data1]"
proof -
  have m: "h_mtu cfg1 \<noteq> 0" "unat (h_mtu cfg1) = 1000" by (simp_all add: cfg1_sel)
  have "of_bool (h_creditbouncer cfg1 \<and> message_arrived (unat (h_mtu cfg1)) (rx_key 1 3 10) [data1]) = (1 :: nat)"
    by (rule trans[OF message_reported_iff_arrived[OF hw1_hears m(1), symmetric] hw1_reported])
  then have "message_arrived 1000 (rx_key 1 3 10) [data1]" by (simp only: of_bool_eq_1_iff m(2))
  with hw1_reported show ?thesis by (rule conjI)
qed

end
