(* ===== verification/RdmaLedger.thy ===== *)
theory RdmaLedger
  imports RdmaExamples
begin

text \<open>
  The credit accounts of a DPDQ host (\<^verbatim>\<open>SenderState\<close> in
  \<^verbatim>\<open>src/point-to-point/model/rdma-hw.h\<close>): the limits the AIMD control keeps,
  what one issued grant changes, and what a bounced grant restores.
\<close>

section \<open>The limits of a sender\<close>

text \<open>The budget left is within the limit, and the limit within the configured ceiling.\<close>
definition credit_ok :: "u64 \<Rightarrow> SenderState \<Rightarrow> bool" where
  "credit_ok B s \<longleftrightarrow> m_srpbBytes s \<le> m_maxSrpbBytes s \<and> m_maxSrpbBytes s \<le> max 1 B \<and>
     m_srpbCeilingBytes s \<le> B"

lemma credit_ok_frame [simp]:
  "credit_ok B (s\<lparr>ss_enabled := e\<rparr>) = credit_ok B s"
  "credit_ok B (s\<lparr>m_senderAddr := a\<rparr>) = credit_ok B s"
  "credit_ok B (s\<lparr>ss_msgStates := ms\<rparr>) = credit_ok B s"
  "credit_ok B (s\<lparr>m_lastEcnMarked := l\<rparr>) = credit_ok B s"
  "credit_ok B (s\<lparr>m_pendingDemandDataBytes := p\<rparr>) = credit_ok B s"
  by (simp_all add: credit_ok_def)

lemma credit_ok_default [simp]: "credit_ok B SenderState_default"
  by (simp add: credit_ok_def SenderState_default_def)

lemma credit_ok_init [simp]: "credit_ok (ucast (h_maxSrpb c)) (init_sender c dst st)"
  by (simp add: credit_ok_def init_sender_def Let_def)

lemma sat_sub_le: "sat_sub a b \<le> a"
  by (simp add: sat_sub_def word_sub_le)

lemma credit_ok_unsolicited:
  "credit_ok B s \<Longrightarrow> credit_ok B (fst (account_unsolicited w d s q g))"
  using order_trans[OF sat_sub_le] by (auto simp: credit_ok_def account_unsolicited_def Let_def)

lemma credit_ok_reclaim: "credit_ok B s \<Longrightarrow> credit_ok B (fst (reclaim_credit mtu pl s g))"
  by (auto simp: credit_ok_def reclaim_credit_def Let_def not_less)

lemma credit_ok_return: "credit_ok B s \<Longrightarrow> credit_ok B (fst (return_credit w d s q g))"
  by (auto simp: credit_ok_def return_credit_def Let_def not_less)

lemma credit_ok_charge: "credit_ok B s \<Longrightarrow> credit_ok B (charge_grant d w s)"
  using order_trans[OF sat_sub_le] by (auto simp: credit_ok_def charge_grant_def)

lemma credit_ok_demand: "credit_ok B s \<Longrightarrow> credit_ok B (fst (add_demand r s q))"
  by (simp add: add_demand_def)

lemma aimd_sel:
  "m_srpbCeilingBytes (aimd_count c e s) = m_srpbCeilingBytes s"
  "m_srpbCeilingBytes (aimd_ratio w s) = m_srpbCeilingBytes s"
  "m_srpbCeilingBytes (aimd_network ai e s) = m_srpbCeilingBytes s"
  "m_srpbCeilingBytes (aimd_host ai c s) = m_srpbCeilingBytes s"
  by (simp_all add: aimd_count_def aimd_ratio_def aimd_network_def aimd_host_def Let_def)

lemma credit_ok_limit:
  assumes "m_srpbCeilingBytes s \<le> B" "C \<le> max 1 B"
  shows "credit_ok B (aimd_limit C prio s)"
proof -
  define L where "L = max 1 (min C (if prio then C else min
     (min (max (m_netBucketMinBytes s) (m_nwMaxSrpbBytes s)) C)
     (min (max (m_senderBucketMinBytes s) (m_hostMaxSrpbBytes s)) C)))"
  have "L \<le> max 1 B"
    unfolding L_def using order_trans[OF min.cobounded1 assms(2)] by (intro max.boundedI) simp_all
  then show ?thesis
    using assms(1) unfolding credit_ok_def aimd_limit_def Let_def L_def[symmetric]
    by (simp add: not_less)
qed

lemma credit_ok_aimd:
  assumes "credit_ok B s" shows "credit_ok B (UpdateSenderStateAimdOnData c csn ecn prio s)"
proof -
  let ?C = "if m_srpbCeilingBytes s > 0 then m_srpbCeilingBytes s else max 1 (m_maxSrpbBytes s)"
  have C: "?C \<le> max 1 B" using assms by (auto simp: credit_ok_def le_max_iff_disj)
  define s3 where "s3 = aimd_host (aimd_increment (aimd_ratio (h_ceNewWeight c) (aimd_count csn ecn s))) csn
    (aimd_network (aimd_increment (aimd_ratio (h_ceNewWeight c) (aimd_count csn ecn s))) ecn
      (aimd_ratio (h_ceNewWeight c) (aimd_count csn ecn s)))"
  have "m_srpbCeilingBytes s3 \<le> B" using assms by (simp add: s3_def aimd_sel credit_ok_def)
  from credit_ok_limit[OF this C, of prio] show ?thesis
    using assms unfolding UpdateSenderStateAimdOnData_def Let_def s3_def[symmetric]
    by (simp add: credit_ok_def)
qed

lemma credit_ok_refresh: "credit_ok B s \<Longrightarrow> credit_ok B (refresh_sender c a csn ecn prio s)"
  by (simp add: refresh_sender_def Let_def credit_ok_aimd)

section \<open>The limits over runs\<close>

definition limits :: "u64 \<Rightarrow> RdmaHw \<Rightarrow> bool" where
  "limits B hw \<longleftrightarrow> ucast (h_maxSrpb (cfg hw)) = B \<and> (\<forall>a s. m_senderStates hw a = Some s \<longrightarrow> credit_ok B s)"

lemma limits_simps [simp]:
  "limits B (hw_emit x hw) = limits B hw"
  "limits B (set_rxq r q hw) = limits B hw"
  "limits B (set_qp r' p hw) = limits B hw"
  "limits B (set_receiver a t hw) = limits B hw"
  "limits B (hw\<lparr>m_globalOutstanding := g\<rparr>) = limits B hw"
  "limits B (hw\<lparr>m_grantTickEvent := b\<rparr>) = limits B hw"
  "limits B (hw\<lparr>m_grantRrCursor := c\<rparr>) = limits B hw"
  "limits B (hw\<lparr>m_tickCount := n\<rparr>) = limits B hw"
  "limits B (hw\<lparr>m_tickGrantCount := n\<rparr>) = limits B hw"
  "limits B (hw\<lparr>m_rxQpMap := mp\<rparr>) = limits B hw"
  "limits B (hw\<lparr>hw_nextRxq := n'\<rparr>) = limits B hw"
  "limits B (hw\<lparr>m_receiverStates := f\<rparr>) = limits B hw"
  "limits B (hw\<lparr>hw_nextQp := n'\<rparr>) = limits B hw"
  "limits B (hw\<lparr>hw_qpGrp := gg\<rparr>) = limits B hw"
  "limits B (hw\<lparr>m_qpMap := mm\<rparr>) = limits B hw"
  "limits B (hw\<lparr>hw_rtTable := tt\<rparr>) = limits B hw"
  by (simp_all add: limits_def)

lemma limits_set_sender [simp]: "limits B hw \<Longrightarrow> limits B (set_sender a s hw) = credit_ok B s"
  by (auto simp: limits_def)

lemma limits_sender_at [simp]: "limits B hw \<Longrightarrow> credit_ok B (sender_at a hw)"
  by (auto simp: limits_def sender_at_def split: option.split)

lemma limits_GetOrCreate:
  assumes "GetOrCreateSenderState a r hw = (s, hw')" "limits B hw"
  shows "limits B hw' \<and> credit_ok B s"
proof -
  have "credit_ok B s" using assms
    by (auto simp: GetOrCreateSenderState_def Let_def limits_def split: option.splits)
  then show ?thesis using assms by (auto simp: GetOrCreateSenderState_def Let_def limits_def split: if_splits)
qed

lemma limits_timers [simp]:
  "limits B (ScheduleCreditGrantTick env hw) = limits B hw"
  "limits B (ScheduleCreditBouncerResend r hw) = limits B hw"
  "limits B (cancel_resend r hw) = limits B hw"
  by (simp_all add: ScheduleCreditGrantTick_def ScheduleCreditBouncerResend_def cancel_resend_def Let_def)

lemma limits_cleanup [simp]: "limits B hw \<Longrightarrow> limits B (CleanupCreditBouncerSenderState r hw)"
  by (auto simp: CleanupCreditBouncerSenderState_def limits_def Let_def split: option.split)

lemma limits_GetRxQp:
  assumes "GetRxQp a b sp dp cls cr hw = (x, hw')" "limits B hw" shows "limits B hw'"
proof -
  obtain s h where g: "GetOrCreateSenderState b (hw_nextRxq hw)
      ((set_rxq (hw_nextRxq hw) (new_rxq (cfg hw) a b sp dp cls) hw)\<lparr>hw_nextRxq := Suc (hw_nextRxq hw)\<rparr>) = (s, h)"
    by fastforce
  have "limits B h \<and> credit_ok B s" using limits_GetOrCreate[OF g] assms(2) by simp
  moreover have "cfg h = cfg hw" using g by (auto simp: GetOrCreateSenderState_def Let_def)
  moreover have "ucast (h_maxSrpb (cfg hw)) = B" using assms(2) by (simp add: limits_def)
  ultimately show ?thesis using assms g credit_ok_init[of "cfg hw"]
    by (auto simp: GetRxQp_def Let_def split: option.splits if_splits)
qed

lemma limits_announce: "limits B hw \<Longrightarrow> limits B (snd (applyNewAnnouncement t r a hw))"
  by (simp add: applyNewAnnouncement_def Let_def case_prod_unfold credit_ok_unsolicited credit_ok_demand)

lemma limits_absorb: "limits B hw \<Longrightarrow> limits B (absorb_chunk p ch r hw)"
  by (simp add: absorb_chunk_def account_first_copy_def Let_def case_prod_unfold credit_ok_reclaim)

lemma limits_finish: "limits B hw \<Longrightarrow> limits B (finish_data env ch r hw)"
  by (simp add: finish_data_def complete_message_def Let_def split: option.split)

lemma limits_arrivals:
  assumes "limits B hw"
  shows "limits B (receive_request_data env p ch t hw)" "limits B (receive_grant_req env p ch t hw)"
    "limits B (receive_bounced_credit env ch t hw)"
proof -
  obtain x h1 where g: "GetRxQp (dip ch) (sip ch) (dport ch) (sport ch) (pg ch) True hw = (x, h1)"
    by fastforce
  have l1: "limits B h1" by (rule limits_GetRxQp[OF g assms])
  have st: "limits B (snd (GetOrCreateSenderState (sip ch) r h)) \<and> credit_ok B (fst (GetOrCreateSenderState (sip ch) r h))"
    if "limits B h" for r h using limits_GetOrCreate[of "sip ch" r h] that by (metis prod.collapse)
  show "limits B (receive_request_data env p ch t hw)"
    using g l1 st by (auto simp: receive_request_data_def Let_def case_prod_unfold credit_ok_refresh
        intro!: limits_finish limits_absorb limits_announce split: option.split)
  show "limits B (receive_grant_req env p ch t hw)"
    using g l1 st by (auto simp: receive_grant_req_def Let_def case_prod_unfold credit_ok_refresh
        intro!: limits_announce split: option.split)
  obtain y h2 where g2: "GetRxQp (dip ch) (sip ch) (dport ch) (sport ch) (pg ch) False hw = (y, h2)"
    by fastforce
  have l2: "limits B h2" by (rule limits_GetRxQp[OF g2 assms])
  show "limits B (receive_bounced_credit env ch t hw)"
    using g2 l2 st by (auto simp: receive_bounced_credit_def Let_def case_prod_unfold credit_ok_return
        split: option.split)
qed

lemma limits_issue: "issue_grant sel hw = Some hw' \<Longrightarrow> limits B hw \<Longrightarrow> limits B hw'"
  by (auto simp: issue_grant_def Let_def credit_ok_charge split: prod.splits option.splits)

lemma limits_select: "select_candidate b hw cs = (x, hw') \<Longrightarrow> limits B hw' = limits B hw"
  by (auto simp: select_candidate_def Let_def split: CreditBouncerSchedPolicy.splits option.splits)

lemma limits_try: "TryIssueCreditGrant env hw = Some (b, hw') \<Longrightarrow> limits B hw \<Longrightarrow> limits B hw'"
  by (auto simp: TryIssueCreditGrant_def Let_def split: if_splits option.splits prod.splits
      dest: limits_select[of _ _ _ _ _ B] limits_issue)

lemma limits_tick: "CreditGrantTick env hw = Some hw' \<Longrightarrow> limits B hw \<Longrightarrow> limits B hw'"
  by (auto simp: CreditGrantTick_def Let_def split: option.splits dest!: limits_try[of _ _ _ _ B])

lemma limits_send_resends: "send_resends r rs hw = Some hw' \<Longrightarrow> limits B hw' = limits B hw"
  by (induction r rs hw rule: send_resends.induct)
    (auto simp: bind_eq_Some_conv SendCreditBouncerResend_def Let_def split: if_splits option.splits)

lemma limits_missing: "request_missing r s hw = Some hw' \<Longrightarrow> limits B hw' = limits B hw"
  by (auto simp: request_missing_def Let_def split: option.splits if_splits dest: limits_send_resends[of _ _ _ _ B])

lemma limits_timeout:
  assumes "HandleCreditBouncerResendTimeout r hw = Some hw'" "limits B hw" shows "limits B hw'"
proof -
  define h1 where "h1 = set_rxq r ((hw_rxqs hw r)\<lparr>m_resendEvent := False\<rparr>) hw"
  define h2 where "h2 = hw_emit (HwResendTimeout r (ucast (h_resendIntervalNs (cfg h1)))) h1"
  obtain s h3 where g: "GetOrCreateSenderState (rx_dip (hw_rxqs h1 r)) r h2 = (s, h3)" by fastforce
  have "hw' = h1 \<or> hw' = h3 \<or> request_missing r s h3 = Some hw'"
    using assms(1) g unfolding HandleCreditBouncerResendTimeout_def Let_def h1_def[symmetric] h2_def[symmetric]
    by (simp split: if_splits)
  moreover have "limits B h1" "limits B h2" using assms(2) by (simp_all add: h2_def h1_def)
  ultimately show ?thesis using limits_GetOrCreate[OF g] limits_missing by blast
qed

text \<open>The operations of the sender leave the accounts of the receiver alone.\<close>
definition same_accounts :: "RdmaHw \<Rightarrow> RdmaHw \<Rightarrow> bool" where
  "same_accounts hw hw' \<longleftrightarrow> cfg hw' = cfg hw \<and> m_senderStates hw' = m_senderStates hw
     \<and> m_globalOutstanding hw' = m_globalOutstanding hw \<and> hw_rxqs hw' = hw_rxqs hw
     \<and> m_rxQpMap hw' = m_rxQpMap hw \<and> hw_nextRxq hw' = hw_nextRxq hw"

lemma same_accounts_simps [simp]:
  "same_accounts hw hw"
  "same_accounts hw (hw_emit x hw') = same_accounts hw hw'"
  "same_accounts hw (set_qp r q hw') = same_accounts hw hw'"
  "same_accounts hw (set_receiver a t hw') = same_accounts hw hw'"
  "same_accounts hw (hw'\<lparr>m_receiverStates := f\<rparr>) = same_accounts hw hw'"
  "same_accounts hw (hw'\<lparr>hw_nextQp := n\<rparr>) = same_accounts hw hw'"
  "same_accounts hw (hw'\<lparr>hw_qpGrp := gg\<rparr>) = same_accounts hw hw'"
  "same_accounts hw (hw'\<lparr>m_qpMap := mm\<rparr>) = same_accounts hw hw'"
  "same_accounts hw (hw'\<lparr>hw_rtTable := tt\<rparr>) = same_accounts hw hw'"
  by (auto simp: same_accounts_def)

lemma same_accounts_trans: "same_accounts a b \<Longrightarrow> same_accounts b c \<Longrightarrow> same_accounts a c"
  by (simp add: same_accounts_def)

lemma same_next: "GetNxtPacket env qp hw = Some (x, hw') \<Longrightarrow> same_accounts hw hw'"
proof -
  assume a: "GetNxtPacket env qp hw = Some (x, hw')"
  then obtain b q where g: "GetBytesLeft (hw_qps hw qp) = Some (b, q)"
    by (auto simp: GetNxtPacket_def split: option.splits)
  have c: "same_accounts h (snd (next_credit_packet env qp pl h))" for pl h
    by (simp add: next_credit_packet_def Let_def GetOrCreateReceiverState_def case_prod_unfold)
  show ?thesis
  proof (cases "h_creditbouncer (cfg hw) \<and> q_enabled q")
    case True
    then have "\<exists>pl. next_credit_packet env qp pl (set_qp qp q hw) = (x, hw')"
      using a by (auto simp: GetNxtPacket_def g Let_def)
    moreover have "same_accounts hw (set_qp qp q hw)" by simp
    ultimately show ?thesis using c same_accounts_trans by (metis snd_conv)
  next
    case False
    then show ?thesis using a by (auto simp: GetNxtPacket_def g Let_def plain_packet_def)
  qed
qed

lemma same_receiver_cleanup [simp]:
  "same_accounts hw (CleanupCreditBouncerReceiverState r hw') = same_accounts hw hw'"
  by (simp add: CleanupCreditBouncerReceiverState_def Let_def split: option.split)

lemma same_ops:
  "same_accounts hw (CompleteCreditBouncerSenderQp sp cls f hw)"
  "AddQueuePair sz cls a b sp dp w rtt f hw = Some hw' \<Longrightarrow> same_accounts hw hw'"
  "receive_grant ch t hw = Some hw' \<Longrightarrow> same_accounts hw hw'"
  "same_accounts hw (hw_AddTableEntry d n hw)" "same_accounts hw (hw_ClearTable hw)"
  by (auto simp: CompleteCreditBouncerSenderQp_def QpComplete_def AddQueuePair_def receive_grant_def
      GetOrCreateReceiverState_def hw_AddTableEntry_def hw_ClearTable_def Let_def
      split: option.splits if_splits)

lemma same_emit_all [simp]: "same_accounts hw (fold (\<lambda>p hw. hw_emit (HwHighPrio n p) hw) ps hw') = same_accounts hw hw'"
  by (induction ps arbitrary: hw') auto

lemma same_resend: "receive_resend ch t hw = Some hw' \<Longrightarrow> same_accounts hw hw'"
  by (auto simp: receive_resend_def Let_def split: option.splits if_splits prod.splits)

interpretation same_choice: choice_keeps "same_accounts hw" for hw
  by unfold_locales simp_all

lemma same_select: "GetNextCreditBouncerQindex env grp l hw = Some (x, hw') \<Longrightarrow> same_accounts hw hw'"
  by (rule same_choice.chosen) simp_all

lemma limits_same: "same_accounts hw hw' \<Longrightarrow> limits B hw' = limits B hw"
  by (simp add: same_accounts_def limits_def)

lemma limits_control:
  assumes "receive_control env p ch t hw = Some hw'" "limits B hw" shows "limits B hw'"
proof -
  define h1 where "h1 = (if IsGrantReq t \<or> IsRequest t \<and> l3Prot ch = RDMA_L3_PROT_CREDITBOUNCER
    then receive_grant_req env p ch t hw else hw)"
  have h1: "limits B h1" using assms(2) by (simp add: h1_def limits_arrivals)
  have "(if IsResend t \<and> l3Prot ch = RDMA_L3_PROT_CREDITBOUNCER then receive_resend ch t h1 else Some h1) = Some h2
      \<Longrightarrow> limits B h2" for h2 using h1 limits_same[OF same_resend] by (auto split: if_splits)
  moreover have "(if IsGrant t then receive_grant ch t h2 else Some h2) = Some h3 \<Longrightarrow> limits B h2 \<Longrightarrow> limits B h3"
    for h2 h3 using limits_same[OF same_ops(3)] by (auto split: if_splits)
  ultimately show ?thesis using assms(1)
    unfolding receive_control_def Let_def h1_def[symmetric] bind_eq_Some_conv
    by (auto simp: limits_arrivals)
qed

lemma limits_step:
  assumes "host_step env e hw = Some hw'" "limits B hw" shows "limits B hw'"
proof (cases e)
  case (Arrival p)
  then show ?thesis using assms limits_control limits_arrivals
    by (auto simp: ReceiveCreditBouncer_def split: if_splits option.splits)
qed (use assms in \<open>auto dest: limits_tick limits_timeout limits_same[OF same_select]
    limits_same[OF same_next] limits_same[OF same_ops(2)] simp: limits_same[OF same_ops(1)]
    limits_same[OF same_ops(4)] limits_same[OF same_ops(5)]\<close>)

interpretation ledger: host_invariant "\<lambda>_. True" "\<lambda>c. limits (ucast (h_maxSrpb c))"
proof
  show "limits (ucast (h_maxSrpb c)) (RdmaHw_initial c rates)" for c rates
    by (simp add: limits_def RdmaHw_initial_def)
qed (blast intro: limits_step)

text \<open>C8: over any run of a host the credit of every sender stays within its limits:
  the budget left to it never exceeds its window, and the window, whatever the ECN and CSN
  marks, the additive increases, the rounding of the marked ratios and the credit returned
  or reclaimed twice, never exceeds the configured per-sender maximum (or one byte, when
  that is 0).\<close>
theorem sender_credit_within_limits:
  assumes "host_reaches (RdmaHw_initial c rates) hw" "m_senderStates hw a = Some s"
  shows "unat (m_srpbBytes s) \<le> unat (m_maxSrpbBytes s) \<and>
    unat (m_maxSrpbBytes s) \<le> max 1 (unat (h_maxSrpb c))"
proof -
  have "credit_ok (ucast (h_maxSrpb c)) s"
    using ledger.reaches[OF assms(1)] assms(2) by (simp add: limits_def)
  then have "m_srpbBytes s \<le> m_maxSrpbBytes s" "m_maxSrpbBytes s \<le> 1 \<or> m_maxSrpbBytes s \<le> ucast (h_maxSrpb c)"
    by (auto simp: credit_ok_def le_max_iff_disj)
  then show ?thesis by (auto simp: word_le_nat_alt unat_ucast_up)
qed

lemma sender_credit_within_limits_witness:
  "m_senderStates hw2 1 = Some s2 \<and> unat (m_srpbBytes s2) \<le> unat (m_maxSrpbBytes s2) \<and>
    unat (m_maxSrpbBytes s2) \<le> max 1 (unat (h_maxSrpb cfg1))"
proof -
  have s: "m_senderStates hw2 1 = Some s2" by (simp add: hw2_fields)
  show ?thesis using s sender_credit_within_limits[OF hw2_reached s] by simp
qed

end
