(* ===== verification/RdmaTables.thy ===== *)
theory RdmaTables
  imports RdmaLedger
begin

text \<open>
  The tables of a DPDQ receiver agree with each other over every run: the table of
  receive queue pairs (\<^verbatim>\<open>m_rxQpMap\<close>), the addresses a queue pair carries, and
  the messages listed under each sender (\<^verbatim>\<open>SenderState::m_msgStates\<close>).
\<close>

section \<open>The invariant\<close>

text \<open>What identifies a queue pair; no operation changes it after creation.\<close>
definition ident :: "RdmaRxQueuePair \<Rightarrow> u32 \<times> u32 \<times> u16 \<times> u16 \<times> u16 \<times> bool" where
  "ident q = (rx_sip q, rx_dip q, rx_sport q, rx_dport q, rx_qIndex q, rx_enabled q)"

definition key_of :: "RdmaRxQueuePair \<Rightarrow> u64" where
  "key_of q = rx_key (rx_dip q) (rx_qIndex q) (rx_dport q)"

lemma ident_cong: "ident q = ident q' \<Longrightarrow> key_of q = key_of q' \<and> rx_dip q = rx_dip q' \<and> rx_enabled q = rx_enabled q'"
  by (simp add: ident_def key_of_def)

definition sender_listed :: "RdmaHw \<Rightarrow> u32 \<Rightarrow> SenderState \<Rightarrow> bool" where
  "sender_listed hw a s \<longleftrightarrow>
     (\<forall>r\<in>set (ss_msgStates s). rx_dip (hw_rxqs hw r) = a \<and> m_rxQpMap hw (key_of (hw_rxqs hw r)) = Some r) \<and>
     (m_grantGranularityDataBytes s = 0 \<or> m_grantGranularityDataBytes s = ucast (h_grantGranularity (cfg hw)))"

definition tables_ok :: "RdmaHw \<Rightarrow> bool" where
  "tables_ok hw \<longleftrightarrow>
     (\<forall>k r. m_rxQpMap hw k = Some r \<longrightarrow> k = key_of (hw_rxqs hw r) \<and> r < hw_nextRxq hw) \<and>
     (\<forall>r. rx_enabled (hw_rxqs hw r) \<longrightarrow> m_rxQpMap hw (key_of (hw_rxqs hw r)) = Some r) \<and>
     (\<forall>a s. m_senderStates hw a = Some s \<longrightarrow> sender_listed hw a s)"

text \<open>The key of the table determines the sender, the class and the port.\<close>
lemma rx_key_inj:
  assumes "rx_key a c p = rx_key a' c' p'" shows "a = a' \<and> c = c' \<and> p = p'"
proof -
  have e: "bit (rx_key a c p) n = (if n < 16 then bit p n else if n < 32 then bit c (n - 16)
     else n < 64 \<and> bit a (n - 32))" for n :: nat and a c p
    using bit_imp_le_length[of p n] bit_imp_le_length[of c "n - 16"] bit_imp_le_length[of a "n - 32"]
    by (auto simp: rx_key_def bit_simps)
  have "bit a n = bit a' n" if "n < 32" for n using e[of a c p "n + 32"] e[of a' c' p' "n + 32"] assms that by simp
  moreover have "bit c n = bit c' n" if "n < 16" for n
    using e[of a c p "n + 16"] e[of a' c' p' "n + 16"] assms that by simp
  moreover have "bit p n = bit p' n" if "n < 16" for n
    using e[of a c p n] e[of a' c' p' n] assms that by simp
  ultimately show ?thesis by (auto intro!: bit_word_eqI)
qed

lemma sender_listed_simps [simp]:
  "sender_listed (hw_emit x hw) = sender_listed hw"
  "sender_listed (set_qp r' p hw) = sender_listed hw"
  "sender_listed (set_receiver b t hw) = sender_listed hw"
  "sender_listed (set_sender b s' hw) = sender_listed hw"
  "sender_listed (hw\<lparr>m_globalOutstanding := g\<rparr>) = sender_listed hw"
  "sender_listed (hw\<lparr>m_grantTickEvent := e\<rparr>) = sender_listed hw"
  "sender_listed (hw\<lparr>m_grantRrCursor := k\<rparr>) = sender_listed hw"
  "sender_listed (hw\<lparr>m_tickCount := n\<rparr>) = sender_listed hw"
  "sender_listed (hw\<lparr>m_tickGrantCount := n\<rparr>) = sender_listed hw"
  "sender_listed (hw\<lparr>m_senderStates := f\<rparr>) = sender_listed hw"
  by (simp_all add: sender_listed_def fun_eq_iff)

lemma tables_simps [simp]:
  "tables_ok (hw_emit x hw) = tables_ok hw"
  "tables_ok (hw\<lparr>m_globalOutstanding := g\<rparr>) = tables_ok hw"
  "tables_ok (hw\<lparr>m_grantTickEvent := e\<rparr>) = tables_ok hw"
  "tables_ok (hw\<lparr>m_grantRrCursor := k\<rparr>) = tables_ok hw"
  "tables_ok (hw\<lparr>m_tickCount := n\<rparr>) = tables_ok hw"
  "tables_ok (hw\<lparr>m_tickGrantCount := n\<rparr>) = tables_ok hw"
  by (simp_all add: tables_ok_def)

lemma listed_set_rxq [simp]:
  assumes "ident q = ident (hw_rxqs hw r)"
  shows "sender_listed (set_rxq r q hw) = sender_listed hw"
  using ident_cong[OF assms] by (auto simp: sender_listed_def fun_eq_iff)

lemma tables_set_rxq [simp]:
  assumes "ident q = ident (hw_rxqs hw r)" shows "tables_ok (set_rxq r q hw) = tables_ok hw"
  using ident_cong[OF assms] unfolding tables_ok_def listed_set_rxq[OF assms] by auto

lemma tables_set_sender [simp]: "tables_ok hw \<Longrightarrow> tables_ok (set_sender a s hw) = sender_listed hw a s"
  by (auto simp: tables_ok_def)

lemma listed_frame:
  "ss_msgStates s' = ss_msgStates s \<Longrightarrow> m_grantGranularityDataBytes s' = m_grantGranularityDataBytes s \<Longrightarrow>
   sender_listed hw a s' = sender_listed hw a s"
  by (simp add: sender_listed_def)

lemma listed_default: "sender_listed hw a SenderState_default"
  by (simp add: sender_listed_def SenderState_default_def)

lemma tables_sender_at: "tables_ok hw \<Longrightarrow> sender_listed hw a (sender_at a hw)"
  by (auto simp: tables_ok_def sender_at_def listed_default split: option.split)

section \<open>The operations keep it\<close>

text \<open>The accounting steps touch neither the list nor the granularity.\<close>
lemma aimd_frame:
  "ss_msgStates (UpdateSenderStateAimdOnData c a b e s) = ss_msgStates s"
  "m_grantGranularityDataBytes (UpdateSenderStateAimdOnData c a b e s) = m_grantGranularityDataBytes s"
proof -
  have "ss_msgStates (aimd_count x y s) = ss_msgStates s" "ss_msgStates (aimd_ratio w s) = ss_msgStates s"
    "ss_msgStates (aimd_network ai y s) = ss_msgStates s" "ss_msgStates (aimd_host ai x s) = ss_msgStates s"
    "ss_msgStates (aimd_limit l y s) = ss_msgStates s"
    "m_grantGranularityDataBytes (aimd_count x y s) = m_grantGranularityDataBytes s"
    "m_grantGranularityDataBytes (aimd_ratio w s) = m_grantGranularityDataBytes s"
    "m_grantGranularityDataBytes (aimd_network ai y s) = m_grantGranularityDataBytes s"
    "m_grantGranularityDataBytes (aimd_host ai x s) = m_grantGranularityDataBytes s"
    "m_grantGranularityDataBytes (aimd_limit l y s) = m_grantGranularityDataBytes s" for x y w ai l s
    by (simp_all add: aimd_count_def aimd_ratio_def aimd_network_def aimd_host_def aimd_limit_def Let_def)
  then show "ss_msgStates (UpdateSenderStateAimdOnData c a b e s) = ss_msgStates s"
    "m_grantGranularityDataBytes (UpdateSenderStateAimdOnData c a b e s) = m_grantGranularityDataBytes s"
    by (simp_all add: UpdateSenderStateAimdOnData_def Let_def)
qed

lemma listed_ops [simp]:
  "sender_listed hw a (s\<lparr>ss_enabled := e\<rparr>) = sender_listed hw a s"
  "sender_listed hw a (s\<lparr>m_lastEcnMarked := l\<rparr>) = sender_listed hw a s"
  "sender_listed hw a (refresh_sender c ai x y z s) = sender_listed hw a s"
  "sender_listed hw a (fst (add_demand rq s q)) = sender_listed hw a s"
  "sender_listed hw a (fst (account_unsolicited w d s q g)) = sender_listed hw a s"
  "sender_listed hw a (fst (reclaim_credit m pl s g)) = sender_listed hw a s"
  "sender_listed hw a (fst (return_credit bw bd s q g)) = sender_listed hw a s"
  "sender_listed hw a (charge_grant gd gw s) = sender_listed hw a s"
  by (rule listed_frame; simp add: refresh_sender_def add_demand_def account_unsolicited_def
      reclaim_credit_def return_credit_def charge_grant_def Let_def aimd_frame)+

lemma ident_ops [simp]:
  "ident (q\<lparr>m_resendEvent := b\<rparr>) = ident q" "ident (q\<lparr>rx_ipid := i\<rparr>) = ident q"
  "ident (q\<lparr>m_completionNotified := b\<rparr>) = ident q" "ident (q\<lparr>m_grantedChunkLimit := l\<rparr>) = ident q"
  "ident (q\<lparr>m_pendingDemandBytes := pd\<rparr>) = ident q"
  "ident (start_message m rq q) = ident q" "ident (snd (add_demand d s q)) = ident q"
  "ident (fst (snd (account_unsolicited w ud s q g))) = ident q"
  "ident (fst (snd (return_credit bw bd s q g))) = ident q"
  "ident (snd (snd (mark_chunk mt n q))) = ident q" "ident (account_ecn c ec f q) = ident q"
  "ident (count_payload mt ix pl q) = ident q"
  by (simp_all add: ident_def start_message_def add_demand_def account_unsolicited_def return_credit_def
      mark_chunk_def account_ecn_def count_payload_def Let_def split: option.split)

lemma tables_GetOrCreate:
  assumes "GetOrCreateSenderState a r hw = (s, hw')" "tables_ok hw"
    "rx_dip (hw_rxqs hw r) = a" "m_rxQpMap hw (key_of (hw_rxqs hw r)) = Some r"
  shows "tables_ok hw' \<and> sender_listed hw' a s \<and> hw_rxqs hw' = hw_rxqs hw \<and> m_rxQpMap hw' = m_rxQpMap hw
    \<and> cfg hw' = cfg hw"
proof -
  let ?s = "(sender_at a hw)\<lparr>m_senderAddr := a\<rparr>"
  define x where "x = (if r \<in> set (ss_msgStates ?s) then ?s else ?s\<lparr>ss_msgStates := ss_msgStates ?s @ [r]\<rparr>)"
  have "GetOrCreateSenderState a r hw = (x, set_sender a x hw)"
    by (simp add: GetOrCreateSenderState_def sender_at_def Let_def x_def)
  then have e: "s = x" "hw' = set_sender a s hw" using assms(1) by simp_all
  have "set (ss_msgStates s) \<subseteq> insert r (set (ss_msgStates (sender_at a hw)))"
    "m_grantGranularityDataBytes s = m_grantGranularityDataBytes (sender_at a hw)" unfolding e(1) x_def by auto
  then have "sender_listed hw a s" using tables_sender_at[OF assms(2), of a] assms(3,4)
    unfolding sender_listed_def by auto
  then show ?thesis using assms(2) by (simp add: e(2))
qed

lemma tables_timers [simp]:
  "tables_ok (ScheduleCreditGrantTick env hw) = tables_ok hw"
  "tables_ok (ScheduleCreditBouncerResend r hw) = tables_ok hw"
  "tables_ok (cancel_resend r hw) = tables_ok hw"
  by (simp_all add: ScheduleCreditGrantTick_def ScheduleCreditBouncerResend_def cancel_resend_def Let_def)

lemma listed_timers [simp]:
  "sender_listed (ScheduleCreditBouncerResend r hw) = sender_listed hw"
  "sender_listed (cancel_resend r hw) = sender_listed hw"
  by (simp_all add: ScheduleCreditBouncerResend_def cancel_resend_def Let_def)

lemma tables_cleanup [simp]:
  assumes "tables_ok hw" shows "tables_ok (CleanupCreditBouncerSenderState r hw)"
proof -
  let ?a = "rx_dip (hw_rxqs hw r)"
  have "tables_ok (hw\<lparr>m_senderStates := (m_senderStates hw)(?a := None)\<rparr>)"
    using assms by (auto simp: tables_ok_def)
  moreover have "sender_listed hw ?a (s\<lparr>ss_msgStates := removeAll r (ss_msgStates s)\<rparr>)"
    if "m_senderStates hw ?a = Some s" for s
    using assms that unfolding tables_ok_def sender_listed_def by fastforce
  ultimately show ?thesis using assms
    by (auto simp: CleanupCreditBouncerSenderState_def Let_def split: option.split)
qed

lemma tables_same: "same_accounts hw hw' \<Longrightarrow> tables_ok hw' = tables_ok hw"
  by (simp add: same_accounts_def tables_ok_def sender_listed_def)

lemma tables_GetRxQp:
  assumes g: "GetRxQp a b sp dp cls True hw = (x, hw')" and ok: "tables_ok hw"
  obtains r where "x = Some r" "tables_ok hw'" "rx_dip (hw_rxqs hw' r) = b"
    "m_rxQpMap hw' (key_of (hw_rxqs hw' r)) = Some r" "cfg hw' = cfg hw"
proof (cases "m_rxQpMap hw (rx_key b cls dp)")
  case (Some r)
  then have "rx_key b cls dp = key_of (hw_rxqs hw r)" using ok by (auto simp: tables_ok_def)
  then have k: "key_of (hw_rxqs hw r) = rx_key b cls dp" "rx_dip (hw_rxqs hw r) = b"
    using rx_key_inj unfolding key_of_def by metis+
  have "x = Some r" "hw' = hw" using g Some by (simp_all add: GetRxQp_def)
  then show thesis using ok Some k that[of r] by simp
next
  case None
  let ?r = "hw_nextRxq hw" and ?k = "rx_key b cls dp" and ?q = "new_rxq (cfg hw) a b sp dp cls"
  have q: "key_of ?q = ?k" "rx_dip ?q = b" by (simp_all add: key_of_def new_rxq_def)
  have fresh: "m_rxQpMap hw k \<noteq> Some ?r" for k using ok by (auto simp: tables_ok_def)
  define h where "h = (set_rxq ?r ?q hw)\<lparr>hw_nextRxq := Suc ?r, m_rxQpMap := (m_rxQpMap hw)(?k \<mapsto> ?r)\<rparr>"
  have nk: "m_rxQpMap hw ?k = None" by (rule None)
  have e1: "k = key_of (hw_rxqs hw r)" "r < ?r" if "m_rxQpMap hw k = Some r" for k r
    using ok that by (auto simp: tables_ok_def)
  have e2: "m_rxQpMap hw (key_of (hw_rxqs hw r)) = Some r" if "rx_enabled (hw_rxqs hw r)" for r
    using ok that by (auto simp: tables_ok_def)
  have lh: "sender_listed h c s" if "sender_listed hw c s" for c s
    using that fresh nk q unfolding sender_listed_def h_def
    by auto
  have "tables_ok h"
    unfolding tables_ok_def
  proof (intro conjI allI impI)
    fix k r assume "m_rxQpMap h k = Some r"
    then show "k = key_of (hw_rxqs h r)" "r < hw_nextRxq h"
      using e1[of k r] fresh q(1) by (auto simp: h_def split: if_splits)
  next
    fix r assume "rx_enabled (hw_rxqs h r)"
    then show "m_rxQpMap h (key_of (hw_rxqs h r)) = Some r"
      using e2[of r] q(1) nk by (cases "r = ?r") (auto simp: h_def)
  next
    fix c s assume "m_senderStates h c = Some s"
    then have "m_senderStates hw c = Some s" by (simp add: h_def)
    then have "sender_listed hw c s" using ok by (simp add: tables_ok_def)
    then show "sender_listed h c s" by (rule lh)
  qed
  moreover have "hw_rxqs h ?r = ?q" "m_rxQpMap h ?k = Some ?r" "cfg h = cfg hw" by (simp_all add: h_def)
  ultimately have H: "tables_ok h" "rx_dip (hw_rxqs h ?r) = b" "m_rxQpMap h (key_of (hw_rxqs h ?r)) = Some ?r"
    "cfg h = cfg hw" using q by simp_all
  have swap: "(set_sender c s hx)\<lparr>m_rxQpMap := m\<rparr> = set_sender c s (hx\<lparr>m_rxQpMap := m\<rparr>)" for c s hx m
    by (simp add: set_sender_def)
  obtain s h2 where g2: "GetOrCreateSenderState b ?r h = (s, h2)" by fastforce
  note T = tables_GetOrCreate[OF g2 H(1-3)]
  have li: "sender_listed h2 b (init_sender (cfg hw) b s)"
    using T H(4) by (auto simp: sender_listed_def init_sender_def Let_def)
  have "x = Some ?r \<and> hw' \<in> {h, h2, set_sender b (init_sender (cfg hw) b s) h2}"
  proof -
    let ?h0 = "(set_rxq ?r ?q hw)\<lparr>hw_nextRxq := Suc ?r\<rparr>"
    have h0: "h = ?h0\<lparr>m_rxQpMap := (m_rxQpMap hw)(?k \<mapsto> ?r)\<rparr>" by (simp add: h_def)
    have gs: "GetOrCreateSenderState b ?r ?h0 = (s, set_sender b s ?h0) \<and> h2 = set_sender b s h"
      using g2 by (auto simp: GetOrCreateSenderState_def Let_def h0)
    show ?thesis using g None by (auto simp: GetRxQp_def Let_def gs h0 swap split: if_splits)
  qed
  moreover have "tables_ok hx \<and> hw_rxqs hx = hw_rxqs h \<and> m_rxQpMap hx = m_rxQpMap h \<and> cfg hx = cfg hw"
    if "hx \<in> {h, h2, set_sender b (init_sender (cfg hw) b s) h2}" for hx
    using that T H(1,4) li by auto
  ultimately show thesis using that[of ?r] H(2,3) by (metis (no_types, lifting))
qed

lemma tables_announce:
  assumes "tables_ok hw" shows "tables_ok (snd (applyNewAnnouncement t r a hw))"
    "sender_listed (snd (applyNewAnnouncement t r a hw)) = sender_listed hw"
proof -
  define h1 where "h1 = set_rxq r (start_message (h_mtu (cfg hw)) (m_creditReqBytes t) (hw_rxqs hw r)) hw"
  define h2 where "h2 = cancel_resend r h1"
  have t2: "tables_ok h2" "sender_listed h2 = sender_listed hw" using assms by (simp_all add: h2_def h1_def)
  define dem where "dem = add_demand (ucast (m_creditReqBytes t)) (sender_at a h2) (hw_rxqs h2 r)"
  define uns where "uns = account_unsolicited (m_unsolCreditBytes t) (m_unsolCreditDataBytes t)
     (fst dem) (snd dem) (m_globalOutstanding h2)"
  define h3 where "h3 = set_sender a (fst uns)
    (set_rxq r (fst (snd uns)) (h2\<lparr>m_globalOutstanding := snd (snd uns)\<rparr>))"
  have i: "ident (fst (snd uns)) = ident (hw_rxqs (h2\<lparr>m_globalOutstanding := snd (snd uns)\<rparr>) r)"
    by (simp add: uns_def dem_def)
  have l: "sender_listed hw a (fst uns)"
    using tables_sender_at[OF t2(1), of a] by (simp add: uns_def dem_def t2(2))
  have t3: "tables_ok h3" "sender_listed h3 = sender_listed hw"
    using t2 l by (simp_all add: h3_def listed_set_rxq[OF i] tables_set_rxq[OF i])
  have "snd (applyNewAnnouncement t r a hw) \<in> {hw, h3, ScheduleCreditBouncerResend r h3}"
    by (auto simp: applyNewAnnouncement_def Let_def case_prod_unfold h3_def uns_def dem_def h2_def h1_def)
  then show "tables_ok (snd (applyNewAnnouncement t r a hw))"
    "sender_listed (snd (applyNewAnnouncement t r a hw)) = sender_listed hw"
    using assms t3 by auto
qed

lemma tables_absorb: "tables_ok hw \<Longrightarrow> tables_ok (absorb_chunk p ch r hw)"
proof -
  assume ok: "tables_ok hw"
  obtain f i q where m: "mark_chunk (h_mtu (cfg hw)) (seq ch) (hw_rxqs hw r) = (f, i, q)" by (metis prod.exhaust)
  have q: "ident q = ident (hw_rxqs hw r)" using ident_ops(10)[of "h_mtu (cfg hw)" "seq ch" "hw_rxqs hw r"] by (simp add: m)
  define h1 where "h1 = set_rxq r q hw"
  have t1: "tables_ok h1" using ok by (simp add: h1_def q)
  have t2: "tables_ok (account_first_copy (sip ch) r pl h1)" for pl
    using t1 tables_sender_at[OF t1, of "sip ch"] by (simp add: account_first_copy_def case_prod_unfold Let_def)
  have i: "ident (if f then count_payload (h_mtu (cfg hw)) i pl (account_ecn c e fl q) else account_ecn c e fl q) = ident q"
    for pl c e fl by simp
  show ?thesis using t1 t2
    by (auto simp: absorb_chunk_def Let_def m h1_def[symmetric] first_copy_frame)
qed

lemma tables_finish: "tables_ok hw \<Longrightarrow> tables_ok (finish_data env ch r hw)"
  by (simp add: finish_data_def complete_message_def Let_def split: option.split)

lemma tables_arrivals:
  assumes ok: "tables_ok hw"
  shows "tables_ok (receive_request_data env p ch t hw)" "tables_ok (receive_grant_req env p ch t hw)"
proof -
  obtain x h1 where g: "GetRxQp (dip ch) (sip ch) (dport ch) (sport ch) (pg ch) True hw = (x, h1)"
    by fastforce
  from tables_GetRxQp[OF g ok] obtain r where r: "x = Some r" "tables_ok h1" "rx_dip (hw_rxqs h1 r) = sip ch"
    "m_rxQpMap h1 (key_of (hw_rxqs h1 r)) = Some r" "cfg h1 = cfg hw" by blast
  obtain s h2 where g2: "GetOrCreateSenderState (sip ch) r h1 = (s, h2)" by fastforce
  note T = tables_GetOrCreate[OF g2 r(2-4)]
  have s: "tables_ok (set_sender (sip ch) (refresh_sender c b1 b2 b3 b4 s) h2)"
    "tables_ok (set_sender (sip ch) (refresh_sender c b1 b2 b3 b4 (s\<lparr>m_lastEcnMarked := l\<rparr>)) h2)" for c b1 b2 b3 b4 l
    using T by simp_all
  show "tables_ok (receive_request_data env p ch t hw)" "tables_ok (receive_grant_req env p ch t hw)"
    using s r(1,2)
    by (auto simp: receive_request_data_def receive_grant_req_def g g2 Let_def
        intro!: tables_finish tables_absorb tables_announce)
qed

lemma tables_bounced: 
  assumes ok: "tables_ok hw" shows "tables_ok (receive_bounced_credit env ch t hw)"
proof (cases "m_rxQpMap hw (rx_key (sip ch) (pg ch) (sport ch))")
  case None
  then show ?thesis using ok by (simp add: receive_bounced_credit_def GetRxQp_def)
next
  case (Some r)
  have k: "rx_key (sip ch) (pg ch) (sport ch) = key_of (hw_rxqs hw r)" using ok Some by (auto simp: tables_ok_def)
  then have "rx_dip (hw_rxqs hw r) = sip ch" using rx_key_inj unfolding key_of_def by metis
  obtain s h2 where g2: "GetOrCreateSenderState (sip ch) r hw = (s, h2)" by fastforce
  note T = tables_GetOrCreate[OF g2 ok \<open>rx_dip (hw_rxqs hw r) = sip ch\<close>]
  have T': "tables_ok h2" "sender_listed h2 (sip ch) s" using T Some k by auto
  have "tables_ok (set_sender (sip ch) (fst (return_credit w d (s\<lparr>ss_enabled := True\<rparr>) (hw_rxqs h2 r) g))
     (set_rxq r (fst (snd (return_credit w d (s\<lparr>ss_enabled := True\<rparr>) (hw_rxqs h2 r) g))) (h2\<lparr>m_globalOutstanding := y\<rparr>)))"
    for w d g y
  proof -
    let ?q = "fst (snd (return_credit w d (s\<lparr>ss_enabled := True\<rparr>) (hw_rxqs h2 r) g))"
    have i: "ident ?q = ident (hw_rxqs (h2\<lparr>m_globalOutstanding := y\<rparr>) r)" by simp
    show ?thesis using T' by (simp add: tables_set_rxq[OF i] listed_set_rxq[OF i])
  qed
  then show ?thesis using ok T' Some
    by (auto simp: receive_bounced_credit_def GetRxQp_def g2 Let_def case_prod_unfold)
qed

lemma tables_issue: "issue_grant sel hw = Some hw' \<Longrightarrow> tables_ok hw \<Longrightarrow> tables_ok hw'"
proof -
  assume i: "issue_grant sel hw = Some hw'" and ok: "tables_ok hw"
  obtain c d w where sel: "sel = (c, d, w)" by (metis prod.exhaust)
  let ?q = "hw_rxqs hw (gc_msgState c)" and ?a = "gc_senderAddr c"
  define h where "h = (set_sender ?a (charge_grant d w (sender_at ?a hw)) hw)\<lparr>m_globalOutstanding := m_globalOutstanding hw + w\<rparr>"
  have "tables_ok h" using ok tables_sender_at[OF ok, of ?a] by (simp add: h_def)
  moreover have "ident (?q\<lparr>m_pendingDemandBytes := sat_sub (m_pendingDemandBytes ?q) d, rx_ipid := rx_ipid ?q + 1\<rparr>)
     = ident (hw_rxqs h (gc_msgState c))" by (simp add: h_def)
  note tables_set_rxq[OF this]
  ultimately show ?thesis using i by (auto simp: issue_grant_def sel Let_def h_def split: option.splits)
qed

lemma tables_try: "TryIssueCreditGrant env hw = Some (b, hw') \<Longrightarrow> tables_ok hw \<Longrightarrow> tables_ok hw'"
proof -
  assume t: "TryIssueCreditGrant env hw = Some (b, hw')" and ok: "tables_ok hw"
  obtain x h where s: "select_candidate (global_limit (cfg hw)) hw (grant_candidates env hw) = (x, h)" by fastforce
  then have "tables_ok h" using ok
    by (auto simp: select_candidate_def Let_def split: CreditBouncerSchedPolicy.splits option.splits)
  then show ?thesis using t ok s tables_issue
    by (auto simp: TryIssueCreditGrant_def Let_def split: if_splits option.splits)
qed

lemma tables_tick: "CreditGrantTick env hw = Some hw' \<Longrightarrow> tables_ok hw \<Longrightarrow> tables_ok hw'"
  by (auto simp: CreditGrantTick_def Let_def split: option.splits dest!: tables_try)

lemma tables_send_resends: "send_resends r rs hw = Some hw' \<Longrightarrow> tables_ok hw' = tables_ok hw"
  by (induction r rs hw rule: send_resends.induct)
    (auto simp: bind_eq_Some_conv SendCreditBouncerResend_def Let_def split: if_splits option.splits)

lemma tables_missing: "request_missing r s hw = Some hw' \<Longrightarrow> tables_ok hw' = tables_ok hw"
  by (auto simp: request_missing_def Let_def split: option.splits if_splits dest: tables_send_resends)

lemma tables_timeout:
  assumes t: "HandleCreditBouncerResendTimeout r hw = Some hw'" and ok: "tables_ok hw" shows "tables_ok hw'"
proof -
  define h1 where "h1 = set_rxq r ((hw_rxqs hw r)\<lparr>m_resendEvent := False\<rparr>) hw"
  define h2 where "h2 = hw_emit (HwResendTimeout r (ucast (h_resendIntervalNs (cfg h1)))) h1"
  obtain s h3 where g: "GetOrCreateSenderState (rx_dip (hw_rxqs h1 r)) r h2 = (s, h3)" by fastforce
  have o: "tables_ok h1" "tables_ok h2" using ok by (simp_all add: h2_def h1_def)
  have "hw' = h1 \<or> rx_enabled (hw_rxqs h1 r) \<and> (hw' = h3 \<or> request_missing r s h3 = Some hw')"
    using t g unfolding HandleCreditBouncerResendTimeout_def Let_def h1_def[symmetric] h2_def[symmetric]
    by (simp split: if_splits)
  moreover have "tables_ok h3" if "rx_enabled (hw_rxqs h1 r)"
  proof -
    have "m_rxQpMap h2 (key_of (hw_rxqs h2 r)) = Some r" "rx_dip (hw_rxqs h2 r) = rx_dip (hw_rxqs h1 r)"
      using o(1) that by (simp_all add: tables_ok_def h2_def)
    then show ?thesis using tables_GetOrCreate[OF g o(2)] by simp
  qed
  ultimately show ?thesis using o(1) tables_missing by blast
qed

section \<open>Over runs\<close>

lemma tables_control:
  assumes "receive_control env p ch t hw = Some hw'" "tables_ok hw" shows "tables_ok hw'"
proof -
  define h1 where "h1 = (if IsGrantReq t \<or> IsRequest t \<and> l3Prot ch = RDMA_L3_PROT_CREDITBOUNCER
    then receive_grant_req env p ch t hw else hw)"
  have h1: "tables_ok h1" using assms(2) by (simp add: h1_def tables_arrivals)
  have "(if IsResend t \<and> l3Prot ch = RDMA_L3_PROT_CREDITBOUNCER then receive_resend ch t h1 else Some h1) = Some h2
      \<Longrightarrow> tables_ok h2" for h2 using h1 tables_same[OF same_resend] by (auto split: if_splits)
  moreover have "(if IsGrant t then receive_grant ch t h2 else Some h2) = Some h3 \<Longrightarrow> tables_ok h2 \<Longrightarrow> tables_ok h3"
    for h2 h3 using tables_same[OF same_ops(3)] by (auto split: if_splits)
  ultimately show ?thesis using assms(1)
    unfolding receive_control_def Let_def h1_def[symmetric] bind_eq_Some_conv
    by (auto simp: tables_bounced)
qed

lemma tables_step:
  assumes "host_step env e hw = Some hw'" "tables_ok hw" shows "tables_ok hw'"
proof (cases e)
  case (Arrival p)
  then show ?thesis using assms tables_control tables_arrivals
    by (auto simp: ReceiveCreditBouncer_def split: if_splits option.splits)
qed (use assms in \<open>auto dest: tables_tick tables_timeout tables_same[OF same_select]
    tables_same[OF same_next] tables_same[OF same_ops(2)] simp: tables_same[OF same_ops(1)]
    tables_same[OF same_ops(4)] tables_same[OF same_ops(5)]\<close>)

lemma tables_initial: "tables_ok (RdmaHw_initial c rates)"
  by (simp add: tables_ok_def RdmaHw_initial_def RdmaRxQueuePair_ctor_def)

interpretation tables: host_invariant "\<lambda>_. True" "\<lambda>_. tables_ok"
  by unfold_locales (blast intro: tables_initial tables_step)+

end
