(* ===== verification/RdmaGrants.thy ===== *)
theory RdmaGrants
  imports RdmaTables
begin

text \<open>
  The grant pacer: what one tick grants and to whom, and that a tick grants whenever some
  message may be granted (\<^verbatim>\<open>TryIssueCreditGrant\<close> in \<^verbatim>\<open>rdma-hw.cc\<close>).
  What becomes of a grant that a switch bounces back is in RdmaBounce.
\<close>

section \<open>Candidates and their selection\<close>

lemma candidate_iff:
  "cand \<in> set (grant_candidates env hw) \<longleftrightarrow>
     gc_senderAddr cand \<in> set (h_order env) \<and>
     (\<exists>s. m_senderStates hw (gc_senderAddr cand) = Some s \<and> ss_enabled s \<and> m_pendingDemandDataBytes s \<noteq> 0 \<and>
        gc_msgState cand \<in> set (ss_msgStates s)) \<and>
     rx_enabled (hw_rxqs hw (gc_msgState cand)) \<and> gc_pending cand \<noteq> 0 \<and>
     gc_pending cand = m_pendingDemandBytes (hw_rxqs hw (gc_msgState cand))"
proof
  assume "cand \<in> set (grant_candidates env hw)"
  then obtain a where a: "a \<in> set (h_order env)" "cand \<in> set (case m_senderStates hw a of None \<Rightarrow> []
     | Some s \<Rightarrow> if \<not> ss_enabled s \<or> m_pendingDemandDataBytes s = 0 then []
        else map (\<lambda>r. \<lparr>gc_senderAddr = a, gc_msgState = r, gc_pending = m_pendingDemandBytes (hw_rxqs hw r)\<rparr>)
               (filter (\<lambda>r. rx_enabled (hw_rxqs hw r) \<and> m_pendingDemandBytes (hw_rxqs hw r) \<noteq> 0)
                 (ss_msgStates s)))"
    by (auto simp: grant_candidates_def)
  then show "gc_senderAddr cand \<in> set (h_order env) \<and>
     (\<exists>s. m_senderStates hw (gc_senderAddr cand) = Some s \<and> ss_enabled s \<and> m_pendingDemandDataBytes s \<noteq> 0 \<and>
        gc_msgState cand \<in> set (ss_msgStates s)) \<and>
     rx_enabled (hw_rxqs hw (gc_msgState cand)) \<and> gc_pending cand \<noteq> 0 \<and>
     gc_pending cand = m_pendingDemandBytes (hw_rxqs hw (gc_msgState cand))"
    by (cases "m_senderStates hw a") (auto split: if_splits)
next
  assume a: "gc_senderAddr cand \<in> set (h_order env) \<and>
     (\<exists>s. m_senderStates hw (gc_senderAddr cand) = Some s \<and> ss_enabled s \<and> m_pendingDemandDataBytes s \<noteq> 0 \<and>
        gc_msgState cand \<in> set (ss_msgStates s)) \<and>
     rx_enabled (hw_rxqs hw (gc_msgState cand)) \<and> gc_pending cand \<noteq> 0 \<and>
     gc_pending cand = m_pendingDemandBytes (hw_rxqs hw (gc_msgState cand))"
  then have "cand = \<lparr>gc_senderAddr = gc_senderAddr cand, gc_msgState = gc_msgState cand,
     gc_pending = m_pendingDemandBytes (hw_rxqs hw (gc_msgState cand))\<rparr>" by simp
  with a show "cand \<in> set (grant_candidates env hw)"
    unfolding grant_candidates_def
    by (auto intro!: bexI[of _ "gc_senderAddr cand"] image_eqI[of _ _ "gc_msgState cand"])
qed

lemma first_selectable_spec:
  "first_selectable b hw cs = Some x \<Longrightarrow> \<exists>c\<in>set cs. trySelectCandidate b hw c = Some x"
  "first_selectable b hw cs = None \<Longrightarrow> \<forall>c\<in>set cs. trySelectCandidate b hw c = None"
  by (induction cs) (auto split: option.splits)

lemma rr_select_spec:
  "rr_select b hw cs is = Some (x, n) \<Longrightarrow> \<exists>i\<in>set is. trySelectCandidate b hw (cs ! i) = Some x"
  "rr_select b hw cs is = None \<Longrightarrow> \<forall>i\<in>set is. trySelectCandidate b hw (cs ! i) = None"
  by (induction "is") (auto split: option.splits)

text \<open>From any cursor the round robin visits every position.\<close>
lemma rr_covers:
  fixes c n :: nat assumes "c < n" shows "(\<lambda>off. (c + off) mod n) ` {0..<n} = {0..<n}"
proof (intro equalityI subsetI)
  fix i assume i: "i \<in> {0..<n}"
  let ?o = "(i + (n - c)) mod n"
  have "(c + ?o) mod n = (c + (i + (n - c))) mod n" by (simp add: mod_add_right_eq)
  also have "c + (i + (n - c)) = i + n" using assms by simp
  finally have "(c + ?o) mod n = i" using i by simp
  moreover have "?o \<in> {0..<n}" using assms by simp
  ultimately show "i \<in> (\<lambda>off. (c + off) mod n) ` {0..<n}" by force
qed (use assms in auto)

lemma select_spec:
  assumes "select_candidate b hw cs = (x, hw')" "cs \<noteq> []"
  shows "(\<exists>k. hw' = hw\<lparr>m_grantRrCursor := k\<rparr>) \<and>
    (case x of Some y \<Rightarrow> \<exists>c\<in>set cs. trySelectCandidate b hw c = Some y
     | None \<Rightarrow> \<forall>c\<in>set cs. trySelectCandidate b hw c = None)"
proof (cases "h_grantSchedPolicy (cfg hw)")
  case CB_SCHED_SRPT
  then have "(first_selectable b hw (srpt_order hw cs), hw) = (x, hw')"
    using assms(1) unfolding select_candidate_def by (simp only: CreditBouncerSchedPolicy.case)
  then have x: "x = first_selectable b hw (srpt_order hw cs)" and h: "hw' = hw" by (metis prod.inject)+
  have "hw = hw\<lparr>m_grantRrCursor := m_grantRrCursor hw\<rparr>" by simp
  then have "\<exists>k. hw' = hw\<lparr>m_grantRrCursor := k\<rparr>" unfolding h by (rule exI)
  moreover have "set (srpt_order hw cs) = set cs" by (simp add: srpt_order_def)
  ultimately show ?thesis
    using first_selectable_spec[of b hw "srpt_order hw cs"] unfolding x by (simp split: option.split)
next
  case CB_SCHED_RR
  define n where "n = length cs"
  define cur where "cur = (if unat (m_grantRrCursor hw) \<ge> n then 0 else unat (m_grantRrCursor hw))"
  define idxs where "idxs = map (\<lambda>off. (cur + off) mod n) [0..<n]"
  have "0 < n" using assms(2) by (simp add: n_def)
  then have "cur < n" by (simp add: cur_def)
  then have "set idxs = {0..<n}" using rr_covers[of cur n] by (simp add: idxs_def)
  then have cov: "c \<in> set cs \<longleftrightarrow> (\<exists>i\<in>set idxs. cs ! i = c)" for c by (auto simp: n_def in_set_conv_nth)
  have "(case rr_select b hw cs idxs of None \<Rightarrow> (None, hw\<lparr>m_grantRrCursor := word_of_nat cur\<rparr>)
      | Some (x, cursor) \<Rightarrow> (Some x, hw\<lparr>m_grantRrCursor := word_of_nat cursor\<rparr>)) = (x, hw')"
    using assms(1) CB_SCHED_RR unfolding select_candidate_def Let_def n_def[symmetric] cur_def[symmetric]
      idxs_def[symmetric] by simp
  then consider "rr_select b hw cs idxs = None" "x = None" "hw' = hw\<lparr>m_grantRrCursor := word_of_nat cur\<rparr>"
    | y k where "rr_select b hw cs idxs = Some (y, k)" "x = Some y" "hw' = hw\<lparr>m_grantRrCursor := word_of_nat k\<rparr>"
    by (cases "rr_select b hw cs idxs") (auto split: prod.splits)
  then show ?thesis
  proof cases
    case 1
    from rr_select_spec(2)[OF 1(1)] show ?thesis unfolding 1(2,3) using cov by auto
  next
    case 2
    from rr_select_spec(1)[OF 2(1)] show ?thesis unfolding 2(2,3) using cov by auto
  qed
qed

text \<open>What a selected candidate may be granted.\<close>
lemma grant_ask_bounds:
  assumes "mtu \<noteq> 0" "grant_ask mtu msgPending s = d" "d \<noteq> 0"
  shows "d \<le> msgPending" "d \<le> m_pendingDemandDataBytes s" "d = msgPending \<or> unat mtu dvd unat d"
    "unat d \<le> max (unat (m_grantGranularityDataBytes s)) (unat mtu)"
proof -
  define u where "u = (let unitData = (if m_grantGranularityDataBytes s > 0 then m_grantGranularityDataBytes s else ucast mtu);
         minGrantData = min msgPending (ucast mtu)
     in if unitData < minGrantData then minGrantData else unitData)"
  define k where "k = min (min msgPending u) (m_pendingDemandDataBytes s)"
  have d: "d = CbAlignChunkPrefixBytes k msgPending mtu"
    using assms(2) by (simp add: grant_ask_def Let_def k_def u_def)
  have k: "k \<le> msgPending" "k \<le> m_pendingDemandDataBytes s" by (simp_all add: k_def min.coboundedI1)
  have n: "unat d = (if unat msgPending \<le> unat k then unat msgPending else unat k div unat mtu * unat mtu)"
    unfolding d by (rule unat_CbAlignChunkPrefixBytes[OF assms(1)])
  have "unat k div unat mtu * unat mtu \<le> unat k" by simp
  then have "unat d \<le> unat k" "unat d \<le> unat msgPending"
    using n k order_trans[of "unat k div unat mtu * unat mtu" "unat k" "unat msgPending"]
    by (auto simp: word_le_nat_alt split: if_splits)
  then show "d \<le> msgPending" "d \<le> m_pendingDemandDataBytes s"
    using k by (simp_all add: word_le_nat_alt)
  have "u \<le> max (m_grantGranularityDataBytes s) (ucast mtu)"
    by (auto simp: u_def Let_def le_max_iff_disj min_le_iff_disj)
  then have "unat u \<le> max (unat (m_grantGranularityDataBytes s)) (unat mtu)"
    by (auto simp: max_def word_le_nat_alt unat_ucast_up split: if_splits)
  moreover have "unat k \<le> unat u" by (simp add: k_def word_le_nat_alt[symmetric] min.coboundedI1)
  ultimately show "unat d \<le> max (unat (m_grantGranularityDataBytes s)) (unat mtu)"
    using \<open>unat d \<le> unat k\<close> by linarith
  show "d = msgPending \<or> unat mtu dvd unat d" using n by (auto simp: word_unat_eq_iff split: if_splits)
qed

text \<open>Whether the pacer may grant to a message of a sender now.\<close>
definition may_grant :: "RdmaHw \<Rightarrow> SenderState \<Rightarrow> RdmaRxQueuePair \<Rightarrow> bool" where
  "may_grant hw s q \<longleftrightarrow>
    (let d = grant_ask (h_mtu (cfg hw)) (m_pendingDemandBytes q) s;
         w = CbAddHeaderOverhead d (h_mtu (cfg hw)) True
     in ss_enabled s \<and> rx_enabled q \<and> m_pendingDemandDataBytes s \<noteq> 0 \<and> m_pendingDemandBytes q \<noteq> 0 \<and>
        d \<noteq> 0 \<and> m_OutstandingBytes s \<le> m_maxSrpbBytes s \<and> w \<le> m_srpbBytes s \<and>
        m_globalOutstanding hw + w \<le> global_limit (cfg hw))"

lemma try_select_iff:
  "trySelectCandidate (global_limit (cfg hw)) hw cand = Some y \<longleftrightarrow>
     (let s = sender_at (gc_senderAddr cand) hw;
          d = grant_ask (h_mtu (cfg hw)) (gc_pending cand) s;
          w = CbAddHeaderOverhead d (h_mtu (cfg hw)) True
      in m_OutstandingBytes s \<le> m_maxSrpbBytes s \<and> d \<noteq> 0 \<and>
         m_globalOutstanding hw + w \<le> global_limit (cfg hw) \<and> w \<le> m_srpbBytes s \<and> y = (cand, d, w))"
  by (auto simp: trySelectCandidate_def Let_def not_less)

lemma may_grant_try:
  assumes "cand \<in> set (grant_candidates env hw)"
  shows "trySelectCandidate (global_limit (cfg hw)) hw cand \<noteq> None \<longleftrightarrow>
    may_grant hw (sender_at (gc_senderAddr cand) hw) (hw_rxqs hw (gc_msgState cand))"
  using assms by (auto simp: candidate_iff try_select_iff may_grant_def Let_def sender_at_def
      simp del: not_None_eq simp: not_None_eq)

text \<open>C10: a tick of the pacer is work-conserving and sound: it issues a grant exactly when
  the message of some known sender may be granted, with both pending demands positive, the
  sender within its window, and the wire bytes of the grant within the sender's budget and
  the host's bucket; the scan of neither policy overlooks a message.\<close>
theorem pacer_grants_iff_possible:
  assumes "TryIssueCreditGrant env hw = Some (issued, hw')"
  shows "issued \<longleftrightarrow> (\<exists>a\<in>set (h_order env). \<exists>s r. m_senderStates hw a = Some s \<and>
    r \<in> set (ss_msgStates s) \<and> may_grant hw s (hw_rxqs hw r))"
proof -
  let ?cs = "grant_candidates env hw" and ?L = "global_limit (cfg hw)"
  have "issued \<longleftrightarrow> (\<exists>c\<in>set ?cs. trySelectCandidate ?L hw c \<noteq> None)"
  proof (cases "?cs = []")
    case True
    then show ?thesis using assms by (simp add: TryIssueCreditGrant_def)
  next
    case False
    obtain x h where s: "select_candidate ?L hw ?cs = (x, h)" by fastforce
    note S = select_spec[OF s False]
    show ?thesis using assms False s S by (cases x) (auto simp: TryIssueCreditGrant_def Let_def)
  qed
  also have "\<dots> \<longleftrightarrow> (\<exists>c\<in>set ?cs. may_grant hw (sender_at (gc_senderAddr c) hw) (hw_rxqs hw (gc_msgState c)))"
    using may_grant_try by blast
  also have "\<dots> \<longleftrightarrow> (\<exists>a\<in>set (h_order env). \<exists>s r. m_senderStates hw a = Some s \<and>
    r \<in> set (ss_msgStates s) \<and> may_grant hw s (hw_rxqs hw r))"
  proof
    assume "\<exists>c\<in>set ?cs. may_grant hw (sender_at (gc_senderAddr c) hw) (hw_rxqs hw (gc_msgState c))"
    then obtain c where c: "c \<in> set ?cs" "may_grant hw (sender_at (gc_senderAddr c) hw) (hw_rxqs hw (gc_msgState c))" ..
    from c(1) obtain s where "m_senderStates hw (gc_senderAddr c) = Some s" "gc_msgState c \<in> set (ss_msgStates s)"
      "gc_senderAddr c \<in> set (h_order env)" unfolding candidate_iff by blast
    moreover from this c(2) have "may_grant hw s (hw_rxqs hw (gc_msgState c))" by (simp add: sender_at_def)
    ultimately show "\<exists>a\<in>set (h_order env). \<exists>s r. m_senderStates hw a = Some s \<and>
      r \<in> set (ss_msgStates s) \<and> may_grant hw s (hw_rxqs hw r)"
      by blast
  next
    assume "\<exists>a\<in>set (h_order env). \<exists>s r. m_senderStates hw a = Some s \<and>
      r \<in> set (ss_msgStates s) \<and> may_grant hw s (hw_rxqs hw r)"
    then obtain a s r where a: "a \<in> set (h_order env)" "m_senderStates hw a = Some s"
      "r \<in> set (ss_msgStates s)" "may_grant hw s (hw_rxqs hw r)" by blast
    let ?c = "\<lparr>gc_senderAddr = a, gc_msgState = r, gc_pending = m_pendingDemandBytes (hw_rxqs hw r)\<rparr>"
    have "?c \<in> set ?cs" using a by (simp add: candidate_iff may_grant_def Let_def)
    moreover have "may_grant hw (sender_at (gc_senderAddr ?c) hw) (hw_rxqs hw (gc_msgState ?c))"
      using a by (simp add: sender_at_def)
    ultimately show "\<exists>c\<in>set ?cs. may_grant hw (sender_at (gc_senderAddr c) hw) (hw_rxqs hw (gc_msgState c))"
      by blast
  qed
  finally show ?thesis .
qed

section \<open>The effect of a grant\<close>

text \<open>The grant packet to the sender of a message.\<close>
definition cb_grant_packet :: "RdmaConfig \<Rightarrow> RdmaRxQueuePair \<Rightarrow> u64 \<Rightarrow> NsPacket" where
  "cb_grant_packet c q d =
    (let w = CbAddHeaderOverhead d (h_mtu c) True
     in BuildCreditBouncerCtrlPacket c (rx_sip q) (rx_dip q) (rx_sport q) (rx_dport q) (rx_qIndex q)
          (grant_seq q) CB_MSG_GRANT 0 (ucast w) (grant_pad d w) 0 0)"

text \<open>The accounts of a host after granting d bytes to message r of sender a.\<close>
definition granted :: "u32 \<Rightarrow> SenderState \<Rightarrow> nat \<Rightarrow> u64 \<Rightarrow> RdmaHw \<Rightarrow> RdmaHw \<Rightarrow> bool" where
  "granted a s r d hw hw' \<longleftrightarrow>
    (let q = hw_rxqs hw r; w = CbAddHeaderOverhead d (h_mtu (cfg hw)) True in
     cfg hw' = cfg hw \<and> m_rxQpMap hw' = m_rxQpMap hw \<and>
     m_senderStates hw' = (m_senderStates hw)(a \<mapsto> s\<lparr>
       m_pendingDemandDataBytes := m_pendingDemandDataBytes s - d,
       m_outstandingDataBytes := m_outstandingDataBytes s + d,
       m_srpbBytes := m_srpbBytes s - w, m_OutstandingBytes := m_OutstandingBytes s + w\<rparr>) \<and>
     m_globalOutstanding hw' = m_globalOutstanding hw + w \<and>
     hw_rxqs hw' = (hw_rxqs hw)(r := q\<lparr>m_pendingDemandBytes := m_pendingDemandBytes q - d,
                                       rx_ipid := rx_ipid q + 1\<rparr>))"

lemma grant_selected:
  assumes t: "TryIssueCreditGrant env hw = Some (True, hw')" and m: "h_mtu (cfg hw) \<noteq> 0"
  obtains a s r d nic where "m_senderStates hw a = Some s" "r \<in> set (ss_msgStates s)"
    "may_grant hw s (hw_rxqs hw r)" "d = grant_ask (h_mtu (cfg hw)) (m_pendingDemandBytes (hw_rxqs hw r)) s"
    "granted a s r d hw hw'"
    "hw_out hw' = hw_out hw @ [HwHighPrio nic (cb_grant_packet (cfg hw) (hw_rxqs hw r) d), HwTrigger nic]"
proof -
  let ?cs = "grant_candidates env hw" and ?L = "global_limit (cfg hw)"
  have ne: "?cs \<noteq> []" using t by (auto simp: TryIssueCreditGrant_def)
  obtain x h where s: "select_candidate ?L hw ?cs = (x, h)" by fastforce
  then obtain y where x: "x = Some y" and i: "issue_grant y h = Some hw'"
    using t ne by (auto simp: TryIssueCreditGrant_def Let_def split: option.splits)
  note S = select_spec[OF s ne, unfolded x option.case]
  then obtain k where h: "h = hw\<lparr>m_grantRrCursor := k\<rparr>" by blast
  from S obtain c where c: "c \<in> set ?cs" "trySelectCandidate ?L hw c = Some y" by blast
  from c(1) obtain s where a: "m_senderStates hw (gc_senderAddr c) = Some s" "gc_msgState c \<in> set (ss_msgStates s)"
    "gc_pending c = m_pendingDemandBytes (hw_rxqs hw (gc_msgState c))" unfolding candidate_iff by blast
  have at: "sender_at (gc_senderAddr c) hw = s" by (simp add: sender_at_def a)
  define d where "d = grant_ask (h_mtu (cfg hw)) (m_pendingDemandBytes (hw_rxqs hw (gc_msgState c))) s"
  let ?w = "CbAddHeaderOverhead d (h_mtu (cfg hw)) True" and ?q = "hw_rxqs hw (gc_msgState c)"
  have y: "y = (c, d, ?w)" "?w \<le> m_srpbBytes s" "d \<noteq> 0"
    using c(2) unfolding try_select_iff Let_def at a(3) d_def[symmetric] by blast+
  have mg: "may_grant hw s ?q" using may_grant_try[OF c(1)] c(2) by (simp add: at)
  have d: "d \<le> m_pendingDemandBytes ?q" by (rule grant_ask_bounds(1)[OF m d_def[symmetric] y(3)])
  have sa: "sender_at (gc_senderAddr c) h = s" by (simp add: h sender_at_def a)
  from i obtain nic where "hw' = hw_emit (HwTrigger nic) (hw_emit (HwHighPrio nic (cb_grant_packet (cfg hw) ?q d))
     (set_rxq (gc_msgState c) (?q\<lparr>m_pendingDemandBytes := sat_sub (m_pendingDemandBytes ?q) d, rx_ipid := rx_ipid ?q + 1\<rparr>)
       ((set_sender (gc_senderAddr c) (charge_grant d ?w s) h)\<lparr>m_globalOutstanding := m_globalOutstanding hw + ?w\<rparr>)))"
    by (auto simp: issue_grant_def y Let_def cb_grant_packet_def sa split: option.splits) (simp_all add: h)
  then have "granted (gc_senderAddr c) s (gc_msgState c) d hw hw'"
    "hw_out hw' = hw_out hw @ [HwHighPrio nic (cb_grant_packet (cfg hw) ?q d), HwTrigger nic]"
    using y(2) d by (simp_all add: granted_def Let_def h charge_grant_def sat_sub_def)
  then show thesis using that[OF a(1,2) mg d_def] by blast
qed

lemma cb_grant_packet_tag:
  "p_cbTag (cb_grant_packet c q d) = Some (CreditBouncerTag_ctor CB_MSG_GRANT 0
     (ucast (CbAddHeaderOverhead d (h_mtu c) True)) False False CB_DATA_CLASS_NONE 0 0 False
     (grant_pad d (CbAddHeaderOverhead d (h_mtu c) True)) 0 0)"
  by (simp add: cb_grant_packet_def BuildCreditBouncerCtrlPacket_def Let_def)

text \<open>The configurations in which a grant fits the 16-bit padding field of the tag.\<close>
definition grant_fits :: "RdmaConfig \<Rightarrow> bool" where
  "grant_fits c \<longleftrightarrow> 16 \<le> unat (h_mtu c) \<and> 963 * unat (h_mtu c) < 2 ^ 31 \<and>
     unat (h_grantGranularity c) \<le> 963 * unat (h_mtu c)"

lemma grant_decodes:
  assumes "tables_ok hw" "grant_fits (cfg hw)" "m_senderStates hw a = Some s"
    "d = grant_ask (h_mtu (cfg hw)) x s" "d \<noteq> 0"
  shows "credit_payload (ucast (ucast (CbAddHeaderOverhead d (h_mtu (cfg hw)) True) :: u32))
      (grant_pad d (CbAddHeaderOverhead d (h_mtu (cfg hw)) True)) = d" (is ?A)
    and "unat (ucast (CbAddHeaderOverhead d (h_mtu (cfg hw)) True) :: u32) = payload_wire (unat (h_mtu (cfg hw))) (unat d)"
      (is ?B)
    and "ucast (ucast (CbAddHeaderOverhead d (h_mtu (cfg hw)) True) :: u32) = CbAddHeaderOverhead d (h_mtu (cfg hw)) True"
      (is ?C)
proof -
  let ?m = "h_mtu (cfg hw)"
  have m: "16 \<le> unat ?m" "963 * unat ?m < 2 ^ 31" using assms(2) by (simp_all add: grant_fits_def)
  then have m0: "?m \<noteq> 0" by auto
  have "m_grantGranularityDataBytes s = 0 \<or> m_grantGranularityDataBytes s = ucast (h_grantGranularity (cfg hw))"
    using assms(1,3) unfolding tables_ok_def sender_listed_def by blast
  then have "max (unat (m_grantGranularityDataBytes s)) (unat ?m) \<le> 963 * unat ?m"
    using assms(2) by (auto simp: grant_fits_def unat_ucast_up)
  then have d: "unat d \<le> 963 * unat ?m"
    using grant_ask_bounds(4)[OF m0 assms(4)[symmetric] assms(5)] by linarith
  then have d31: "unat d < 2 ^ 31" using m(2) by linarith
  have "0 < unat d" using assms(5) by (simp add: unat_gt_0)
  from credit_payload_grant[OF m(1) this d31 d] show ?A by (simp add: word_unat_eq_iff)
  have "unat d div unat ?m \<le> 963 * unat ?m div unat ?m" using d by (rule div_le_mono)
  then have "unat d div unat ?m \<le> 963" using m(1) by simp
  then have w: "payload_wire (unat ?m) (unat d) < 2 ^ 32"
    using payload_wire_le[of "unat ?m" "unat d"] d31 by simp
  have u: "unat (CbAddHeaderOverhead d ?m True) = payload_wire (unat ?m) (unat d)"
    using d31 by (intro unat_CbAddHeaderOverhead m(1)) simp
  show ?B using w u by (simp add: unsigned_ucast_eq take_bit_nat_eq_self)
  then show ?C using u by (simp add: word_unat_eq_iff unat_ucast_up)
qed

text \<open>C4: a tick that issues a grant charges exactly what the packet carries: it sends
  one grant to the sender of one of its listed messages; the payload d that the peer decodes
  from the credit and padding fields is positive and covered by the demand of the message
  and of the sender, moves from pending to outstanding in the accounts of both, and its wire
  cost, the credit field, leaves the sender's budget and enters the sender's and the host's
  outstanding bytes; nothing else changes in the accounts.\<close>
theorem grant_charges_exactly:
  assumes run: "host_reaches (RdmaHw_initial c rates) hw" and fits: "grant_fits c"
    and t: "TryIssueCreditGrant env hw = Some (True, hw')"
  shows "\<exists>a s r nic gp tag d. m_senderStates hw a = Some s \<and> r \<in> set (ss_msgStates s) \<and>
     hw_out hw' = hw_out hw @ [HwHighPrio nic gp, HwTrigger nic] \<and> dip (p_hdr gp) = a \<and>
     p_cbTag gp = Some tag \<and> IsGrant tag \<and> d = credit_payload (ucast (m_creditBytes tag)) (m_creditPad tag) \<and>
     0 < unat d \<and> d \<le> m_pendingDemandDataBytes s \<and> d \<le> m_pendingDemandBytes (hw_rxqs hw r) \<and>
     unat (m_creditBytes tag) = payload_wire (unat (h_mtu c)) (unat d) \<and> granted a s r d hw hw'"
proof -
  have ok: "tables_ok hw" by (rule tables.reaches[OF run TrueI])
  have m0: "h_mtu c \<noteq> 0" using fits by (auto simp: grant_fits_def)
  have ch: "cfg hw = c" using books.reaches[OF run m0] by blast
  from grant_selected[OF t] m0 obtain a s r d nic where g: "m_senderStates hw a = Some s"
    "r \<in> set (ss_msgStates s)" "may_grant hw s (hw_rxqs hw r)"
    "d = grant_ask (h_mtu c) (m_pendingDemandBytes (hw_rxqs hw r)) s" "granted a s r d hw hw'"
    "hw_out hw' = hw_out hw @ [HwHighPrio nic (cb_grant_packet c (hw_rxqs hw r) d), HwTrigger nic]"
    unfolding ch by metis
  have d0: "d \<noteq> 0" using g(3,4) by (simp add: may_grant_def Let_def ch)
  note D = grant_decodes[OF ok _ g(1), unfolded ch, OF fits g(4) d0]
  note B = grant_ask_bounds(1,2)[OF m0 g(4)[symmetric] d0]
  have "rx_dip (hw_rxqs hw r) = a" using ok g(1,2) unfolding tables_ok_def sender_listed_def by blast
  then have "dip (p_hdr (cb_grant_packet c (hw_rxqs hw r) d)) = a"
    by (simp add: cb_grant_packet_def BuildCreditBouncerCtrlPacket_def Let_def)
  moreover have "0 < unat d" using d0 by (simp add: unat_gt_0)
  moreover obtain tag where tag: "p_cbTag (cb_grant_packet c (hw_rxqs hw r) d) = Some tag" "IsGrant tag"
    "m_creditBytes tag = ucast (CbAddHeaderOverhead d (h_mtu c) True)"
    "m_creditPad tag = grant_pad d (CbAddHeaderOverhead d (h_mtu c) True)"
    by (simp add: cb_grant_packet_tag IsGrant_def CreditBouncerTag_ctor_def)
  moreover have "credit_payload (ucast (m_creditBytes tag)) (m_creditPad tag) = d"
    "unat (m_creditBytes tag) = payload_wire (unat (h_mtu c)) (unat d)" using D(1,2) by (simp_all add: tag(3,4))
  ultimately show ?thesis using g(1,2,5,6) B by metis
qed

section \<open>At a concrete host\<close>

lemma q2_sel: "rx_enabled q2" "m_pendingDemandBytes q2 = 5000" "rx_dip q2 = 1" "rx_sip q2 = 2" "rx_qIndex q2 = 3"
  "rx_dport q2 = 10" "rx_sport q2 = 100"
  using rxq1_sel rxq1_more by (simp_all add: q2_def start_message_def Let_def)

lemma s2_sel: "ss_enabled s2" "ss_msgStates s2 = [0]" "m_pendingDemandDataBytes s2 = 5000"
  "m_OutstandingBytes s2 = 0" "m_srpbBytes s2 = 20000" "m_maxSrpbBytes s2 = 20000" "m_outstandingDataBytes s2 = 0"
  "m_grantGranularityDataBytes s2 = 1000"
  using sender1_sel by (simp_all add: s2_def)

lemma wire_1000: "CbAddHeaderOverhead 1000 1000 True = 1068"
  by (simp add: CbAddHeaderOverhead_def cb_consts Let_def)

lemma ask_s2: "grant_ask 1000 5000 s2 = 1000"
  by (simp add: grant_ask_def s2_sel Let_def CbAlignChunkPrefixBytes_def)

lemma limit_cfg1: "global_limit cfg1 = 60000" "h_grantSchedPolicy cfg1 = CB_SCHED_RR"
  by (simp_all add: global_limit_def cfg1_def)

lemma grant_like_hw2:
  assumes h: "cfg h = cfg1" "hw_rtTable h = (\<lambda>_. [])(1 := [0])" "hw_rxqs h 0 = q2" "m_senderStates h = [1 \<mapsto> s2]"
    "m_globalOutstanding h = 0" "m_grantRrCursor h = 0"
  shows "\<exists>hw'. TryIssueCreditGrant env1 h = Some (True, hw')"
proof -
  let ?c = "\<lparr>gc_senderAddr = 1, gc_msgState = 0, gc_pending = 5000\<rparr>"
  have cand: "grant_candidates env1 h = [?c]"
    using h by (simp add: grant_candidates_def env1_def s2_sel q2_sel)
  have tr: "trySelectCandidate 60000 h ?c = Some (?c, 1000, 1068)"
    using h by (simp add: trySelectCandidate_def sender_at_def cfg1_sel ask_s2 wire_1000 s2_sel Let_def)
  have "\<exists>k. select_candidate 60000 h [?c] = (Some (?c, 1000, 1068), h\<lparr>m_grantRrCursor := k\<rparr>)"
    using h by (simp add: select_candidate_def limit_cfg1 tr) blast
  then obtain k where s: "select_candidate 60000 h [?c] = (Some (?c, 1000, 1068), h\<lparr>m_grantRrCursor := k\<rparr>)" ..
  have nic: "\<exists>n. GetNicIdxOfRxQp q True h = Some n" if "rx_dip q = 1" "hw_rtTable h = (\<lambda>_. [])(1 := [0])" for q h
    using that by (simp add: GetNicIdxOfRxQp_def pick_nic_def)
  have "\<exists>hw'. issue_grant (?c, 1000, 1068) (h\<lparr>m_grantRrCursor := k\<rparr>) = Some hw'"
    using nic h q2_sel by (auto simp: issue_grant_def Let_def split: option.split)
  then show ?thesis using s h by (auto simp: TryIssueCreditGrant_def cand limit_cfg1)
qed

lemma grant_hw2: "\<exists>hw'. TryIssueCreditGrant env1 hw2 = Some (True, hw')"
  by (rule grant_like_hw2) (simp_all add: hw2_fields)

lemma grant_charges_exactly_witness:
  "\<exists>hw' gp nic tag. TryIssueCreditGrant env1 hw2 = Some (True, hw') \<and>
     hw_out hw' = hw_out hw2 @ [HwHighPrio nic gp, HwTrigger nic] \<and> p_cbTag gp = Some tag \<and> IsGrant tag"
proof -
  obtain hw' where t: "TryIssueCreditGrant env1 hw2 = Some (True, hw')" using grant_hw2 by blast
  have "grant_fits cfg1" by (simp add: grant_fits_def cfg1_def)
  from grant_charges_exactly[OF hw2_reached this t] t show ?thesis by blast
qed

lemma pacer_grants_iff_possible_witness:
  "\<exists>hw'. TryIssueCreditGrant env1 hw2 = Some (True, hw') \<and> (\<exists>s r. m_senderStates hw2 1 = Some s \<and>
    r \<in> set (ss_msgStates s) \<and> may_grant hw2 s (hw_rxqs hw2 r))"
proof -
  obtain hw' where t: "TryIssueCreditGrant env1 hw2 = Some (True, hw')" using grant_hw2 by blast
  have "h_order env1 = [1]" by (simp add: env1_def)
  then show ?thesis using pacer_grants_iff_possible[OF t] t by auto
qed

text \<open>The host after one tick of its pacer: the first chunk granted.\<close>
definition hw3 :: RdmaHw where
  "hw3 = the (CreditGrantTick env1 hw2)"

definition q3 :: RdmaRxQueuePair where
  "q3 = q2\<lparr>m_pendingDemandBytes := 4000, rx_ipid := 1\<rparr>"

lemma q3_sel: "rx_enabled q3" "\<not> m_completionNotified q3" "m_announcementExpectedBytes q3 = 5000"
  "m_pendingDemandBytes q3 = 4000" "m_receivedChunkBitmap q3 = [False, False, False, False, False]"
  "m_expectedChunks q3 = 5" "rx_dip q3 = 1"
proof -
  have "replicate 5 False = [False, False, False, False, False]" by (simp add: numeral_eq_Suc)
  then show "rx_enabled q3" "\<not> m_completionNotified q3" "m_announcementExpectedBytes q3 = 5000"
    "m_pendingDemandBytes q3 = 4000" "m_receivedChunkBitmap q3 = [False, False, False, False, False]"
    "m_expectedChunks q3 = 5" "rx_dip q3 = 1"
    using q2_sel by (simp_all add: q3_def) (simp_all add: q2_def start_message_def Let_def)
qed

lemma hw3_fields: "CreditGrantTick env1 hw2 = Some hw3 \<and> cfg hw3 = cfg1 \<and> hw_rxqs hw3 0 = q3 \<and>
    hw_rtTable hw3 = (\<lambda>_. [])(1 := [0])"
proof -
  let ?h = "hw2\<lparr>m_grantTickEvent := False, m_tickCount := m_tickCount hw2 + 1\<rparr>"
  have "\<exists>hw'. TryIssueCreditGrant env1 ?h = Some (True, hw')"
    by (rule grant_like_hw2) (simp_all add: hw2_fields)
  then obtain h1 where t: "TryIssueCreditGrant env1 ?h = Some (True, h1)" by blast
  have "h_mtu (cfg ?h) \<noteq> 0" by (simp add: hw2_fields cfg1_sel)
  then obtain a s r d nic where g: "m_senderStates ?h a = Some s" "r \<in> set (ss_msgStates s)"
    "may_grant ?h s (hw_rxqs ?h r)" "d = grant_ask (h_mtu (cfg ?h)) (m_pendingDemandBytes (hw_rxqs ?h r)) s"
    "granted a s r d ?h h1"
    "hw_out h1 = hw_out ?h @ [HwHighPrio nic (cb_grant_packet (cfg ?h) (hw_rxqs ?h r) d), HwTrigger nic]"
    using grant_selected[OF t] by metis
  have as: "a = 1" "s = s2" "r = 0" using g(1,2) hw2_fields s2_sel by (auto split: if_splits)
  have d: "d = 1000" using g(4) by (simp add: as hw2_fields cfg1_sel q2_sel ask_s2)
  have "rx_ipid q2 = 0" using rxq1_more by (simp add: q2_def start_message_def Let_def)
  then have "cfg h1 = cfg1" "hw_rxqs h1 0 = q3"
    using g(5) by (simp_all add: granted_def Let_def as d hw2_fields q2_sel q3_def)
  moreover have "hw_rtTable h1 = hw_rtTable ?h"
    using t by (auto simp: TryIssueCreditGrant_def issue_grant_def select_candidate_def Let_def
        split: if_splits option.splits prod.splits CreditBouncerSchedPolicy.splits)
  ultimately show ?thesis using t
    by (simp add: hw3_def CreditGrantTick_def Let_def ScheduleCreditGrantTick_def hw2_fields)
qed

lemma hw3_reached: "host_reaches (RdmaHw_initial cfg1 (\<lambda>_. 0)) hw3"
  by (rule host_next[OF hw2_reached, where e = GrantTick and env = env1]) (simp_all add: hw3_fields)

end
