(* ===== verification/RdmaBounce.thy ===== *)
theory RdmaBounce
  imports RdmaGrants SwitchFlow
begin

text \<open>
  The round trip of a grant over a congested link: the receiver issues it
  (\<^verbatim>\<open>TryIssueCreditGrant\<close>), the switch in front of the paused port turns it
  around (\<^verbatim>\<open>MarkPacketAsBouncedCredit\<close> and the exchange of the addresses,
  \<^verbatim>\<open>switch-node.cc\<close>), and the receiver takes it back
  (\<^verbatim>\<open>ReceiveCreditBouncer\<close>).
\<close>

text \<open>The accounts of a sender: demand, granted payload, granted wire bytes, budget, window.\<close>
definition accounts :: "SenderState \<Rightarrow> u64 \<times> u64 \<times> u64 \<times> u64 \<times> u64" where
  "accounts s = (m_pendingDemandDataBytes s, m_outstandingDataBytes s, m_OutstandingBytes s,
     m_srpbBytes s, m_maxSrpbBytes s)"

text \<open>Taking back what has just been charged is the identity.\<close>
lemma return_undoes_charge:
  fixes d w g :: u64
  assumes "d \<le> m_pendingDemandDataBytes s" "d \<le> pend" "w \<le> m_srpbBytes s"
    "m_srpbBytes s \<le> m_maxSrpbBytes s" "m_pendingDemandBytes q = pend - d"
    and nw: "unat (m_outstandingDataBytes s) + unat d < 2 ^ 64" "unat (m_OutstandingBytes s) + unat w < 2 ^ 64"
      "unat g + unat w < 2 ^ 64"
  shows "\<exists>s' q'. return_credit w d (s\<lparr>m_pendingDemandDataBytes := m_pendingDemandDataBytes s - d,
       m_outstandingDataBytes := m_outstandingDataBytes s + d,
       m_srpbBytes := m_srpbBytes s - w, m_OutstandingBytes := m_OutstandingBytes s + w\<rparr>) q (g + w)
     = (s', q', g) \<and> accounts s' = accounts s \<and> q' = q\<lparr>m_pendingDemandBytes := pend\<rparr>"
proof -
  have le: "x \<le> y + x" if "unat y + unat x < 2 ^ 64" for x y :: u64
  proof -
    have "unat y + unat x < 2 ^ LENGTH(64)" using that by simp
    then have "unat (y + x) = unat y + unat x" by (rule unat_add_lt)
    then show ?thesis by (simp add: word_le_nat_alt)
  qed
  note n = le[OF nw(1)] le[OF nw(2)] le[OF nw(3)]
  have m: "min w (m_OutstandingBytes s + w) = w" "min d (m_outstandingDataBytes s + d) = d"
    using n by (simp_all add: min_absorb1)
  have p: "\<not> pend < pend - d" using word_sub_le[OF assms(2)] by (simp add: not_less)
  have sg: "sat_sub (g + w) w = g" using n(3) by (simp add: sat_sub_def)
  have sr: "\<not> m_maxSrpbBytes s < m_srpbBytes s" using assms(4) by (simp add: not_less)
  show ?thesis by (simp add: return_credit_def m p sg sr accounts_def assms(5))
qed

lemma bounce_decoded:
  assumes "tables_ok hw" "grant_fits (cfg hw)" "m_senderStates hw a = Some s" "d = grant_ask (h_mtu (cfg hw)) x s"
    "d \<noteq> 0"
  shows "\<exists>t. p_cbTag (bounced_version (cb_grant_packet (cfg hw) q d)) = Some t \<and> IsBouncedCredit t \<and>
    \<not> IsRequest t \<and> \<not> IsGrantReq t \<and> \<not> IsResend t \<and> \<not> IsGrant t \<and>
    ucast (m_creditBytes t) = CbAddHeaderOverhead d (h_mtu (cfg hw)) True \<and>
    credit_payload (ucast (m_creditBytes t)) (m_creditPad t) = d"
proof -
  note D = grant_decodes[OF assms]
  show ?thesis using D(1,3)
    by (simp add: bounced_version_def MarkPacketAsBouncedCredit_def cb_grant_packet_tag SetType_def
        IsBouncedCredit_def IsRequest_def IsGrantReq_def IsResend_def IsGrant_def CreditBouncerTag_ctor_def)
qed

text \<open>Nothing wraps when a grant is charged: payload and wire bytes fit 32 bits.\<close>
lemma grant_is_small:
  assumes ok: "tables_ok hw" and lim: "limits (ucast (h_maxSrpb c)) hw" and c: "cfg hw = c" and fits: "grant_fits c"
    and s: "m_senderStates hw a = Some s" and d: "d = grant_ask (h_mtu c) x s" "d \<noteq> 0"
    and w: "w = CbAddHeaderOverhead d (h_mtu c) True" "w \<le> m_srpbBytes s" and o: "m_OutstandingBytes s \<le> m_maxSrpbBytes s"
  shows "unat d < 2 ^ 32" "unat w < 2 ^ 32" "unat (m_OutstandingBytes s) < 2 ^ 32" "m_srpbBytes s \<le> m_maxSrpbBytes s"
proof -
  have m0: "h_mtu c \<noteq> 0" using fits by (auto simp: grant_fits_def)
  have cs: "credit_ok (ucast (h_maxSrpb c)) s" using lim s by (simp add: limits_def)
  then have "m_maxSrpbBytes s \<le> 1 \<or> m_maxSrpbBytes s \<le> ucast (h_maxSrpb c)"
    by (auto simp: credit_ok_def le_max_iff_disj)
  then have mx: "unat (m_maxSrpbBytes s) < 2 ^ 32"
    using unat_lt_u32[of "h_maxSrpb c"] by (auto simp: word_le_nat_alt unat_ucast_up)
  show sm: "m_srpbBytes s \<le> m_maxSrpbBytes s" using cs by (simp add: credit_ok_def)
  show "unat w < 2 ^ 32" using mx w(2) sm by (simp add: word_le_nat_alt)
  show "unat (m_OutstandingBytes s) < 2 ^ 32" using o mx by (simp add: word_le_nat_alt)
  have "unat (ucast w :: u32) = payload_wire (unat (h_mtu c)) (unat d)"
    using grant_decodes(2)[OF ok _ s, unfolded c, OF fits d] by (simp add: w(1))
  moreover have "unat d \<le> payload_wire (unat (h_mtu c)) (unat d)"
    using m0 by (intro payload_wire_ge) (simp add: unat_gt_0)
  ultimately show "unat d < 2 ^ 32" using unat_lt_u32[of "ucast w"] by simp
qed

text \<open>What the arrival of a bounced grant changes in the accounts.\<close>
lemma bounced_effect:
  fixes env :: HostEnv and hw :: RdmaHw
  assumes k: "m_rxQpMap hw (rx_key (sip ch) (pg ch) (sport ch)) = Some r" and e: "rx_enabled (hw_rxqs hw r)"
    and s: "m_senderStates hw (sip ch) = Some s" "r \<in> set (ss_msgStates s)"
    and rc: "return_credit (ucast (m_creditBytes t)) (credit_payload (ucast (m_creditBytes t)) (m_creditPad t))
      (s\<lparr>m_senderAddr := sip ch, ss_enabled := True\<rparr>) (hw_rxqs hw r) (m_globalOutstanding hw) = (se, qe, g)"
  defines "hw' \<equiv> receive_bounced_credit env ch t hw"
  shows "m_globalOutstanding hw' = g" "m_senderStates hw' = (m_senderStates hw)(sip ch \<mapsto> se)"
    "m_pendingDemandBytes (hw_rxqs hw' r') = m_pendingDemandBytes (((hw_rxqs hw)(r := qe)) r')"
proof -
  define s2 where "s2 = s\<lparr>m_senderAddr := sip ch\<rparr>"
  have s2: "GetOrCreateSenderState (sip ch) r hw = (s2, set_sender (sip ch) s2 hw)"
    using s by (simp add: GetOrCreateSenderState_def Let_def s2_def)
  define h3 where "h3 = set_sender (sip ch) se (set_rxq r qe ((set_sender (sip ch) s2 hw)\<lparr>m_globalOutstanding := g\<rparr>))"
  have "hw' \<in> {h3, ScheduleCreditBouncerResend r h3, ScheduleCreditGrantTick env h3,
      ScheduleCreditGrantTick env (ScheduleCreditBouncerResend r h3)}"
    using e rc by (auto simp: hw'_def receive_bounced_credit_def GetRxQp_def k s2 Let_def h3_def s2_def)
  moreover have "m_globalOutstanding (ScheduleCreditBouncerResend r h) = m_globalOutstanding h"
    "m_senderStates (ScheduleCreditBouncerResend r h) = m_senderStates h"
    "m_pendingDemandBytes (hw_rxqs (ScheduleCreditBouncerResend r h) r') = m_pendingDemandBytes (hw_rxqs h r')"
    "m_globalOutstanding (ScheduleCreditGrantTick env h) = m_globalOutstanding h"
    "m_senderStates (ScheduleCreditGrantTick env h) = m_senderStates h"
    "hw_rxqs (ScheduleCreditGrantTick env h) = hw_rxqs h" for h
    by (simp_all add: ScheduleCreditBouncerResend_def ScheduleCreditGrantTick_def Let_def)
  ultimately have "m_globalOutstanding hw' = m_globalOutstanding h3" "m_senderStates hw' = m_senderStates h3"
    "m_pendingDemandBytes (hw_rxqs hw' r') = m_pendingDemandBytes (hw_rxqs h3 r')" by auto
  then show "m_globalOutstanding hw' = g" "m_senderStates hw' = (m_senderStates hw)(sip ch \<mapsto> se)"
    "m_pendingDemandBytes (hw_rxqs hw' r') = m_pendingDemandBytes (((hw_rxqs hw)(r := qe)) r')"
    by (simp_all add: h3_def)
qed

text \<open>C5: a bounced grant leaves no trace in the accounts.  When the pacer issues a grant
  and a switch bounces it, the arrival of the bounced packet puts the credit accounts of every
  sender, the pending demand of every message and the host's outstanding bytes back to what
  they were before the grant, so the credit can be granted again and none is lost or created.
  The outstanding counters are assumed below 2^63, so that they do not wrap.\<close>
theorem bounced_grant_restores_accounts:
  assumes run: "host_reaches (RdmaHw_initial c rates) hw" and fits: "grant_fits c" and cb: "h_creditbouncer c"
    and small: "m_globalOutstanding hw < 2 ^ 63"
      "\<And>a s. m_senderStates hw a = Some s \<Longrightarrow> m_outstandingDataBytes s < 2 ^ 63"
    and t: "TryIssueCreditGrant env hw = Some (True, hw')" and out: "hw_out hw' = hw_out hw @ HwHighPrio nic gp # rest"
    and b: "ReceiveCreditBouncer env' (bounced_version gp) (p_hdr (bounced_version gp)) hw' = Some hw''"
  shows "m_globalOutstanding hw'' = m_globalOutstanding hw \<and>
    (\<forall>a. map_option accounts (m_senderStates hw'' a) = map_option accounts (m_senderStates hw a)) \<and>
    (\<forall>r. m_pendingDemandBytes (hw_rxqs hw'' r) = m_pendingDemandBytes (hw_rxqs hw r))"
proof -
  have ok: "tables_ok hw" by (rule tables.reaches[OF run TrueI])
  have m0: "h_mtu c \<noteq> 0" using fits by (auto simp: grant_fits_def)
  have ch: "cfg hw = c" using books.reaches[OF run m0] by blast
  have lim: "limits (ucast (h_maxSrpb c)) hw" by (rule ledger.reaches[OF run TrueI])
  from grant_selected[OF t] m0 obtain a s r d nic' where g: "m_senderStates hw a = Some s"
    "r \<in> set (ss_msgStates s)" "may_grant hw s (hw_rxqs hw r)"
    "d = grant_ask (h_mtu c) (m_pendingDemandBytes (hw_rxqs hw r)) s" "granted a s r d hw hw'"
    "hw_out hw' = hw_out hw @ [HwHighPrio nic' (cb_grant_packet c (hw_rxqs hw r) d), HwTrigger nic']"
    unfolding ch by metis
  define q where "q = hw_rxqs hw r"
  define w where "w = CbAddHeaderOverhead d (h_mtu c) True"
  have gp: "gp = cb_grant_packet c q d" using out g(6) by (simp add: q_def)
  have mg: "d \<noteq> 0" "m_OutstandingBytes s \<le> m_maxSrpbBytes s" "w \<le> m_srpbBytes s" "rx_enabled q" "ss_enabled s"
    using g(3,4) by (simp_all add: may_grant_def Let_def ch w_def q_def)
  note B = grant_ask_bounds(1,2)[OF m0 g(4)[symmetric] mg(1), folded q_def]
  note sm = grant_is_small[OF ok lim ch fits g(1,4) mg(1) w_def mg(3,2)]
  have q: "rx_dip q = a" "m_rxQpMap hw (key_of q) = Some r"
    using ok g(1,2) unfolding tables_ok_def sender_listed_def q_def by blast+
  define s0 where "s0 = s\<lparr>m_senderAddr := a, ss_enabled := True\<rparr>"
  define s1 where "s1 = s\<lparr>m_pendingDemandDataBytes := m_pendingDemandDataBytes s - d,
       m_outstandingDataBytes := m_outstandingDataBytes s + d,
       m_srpbBytes := m_srpbBytes s - w, m_OutstandingBytes := m_OutstandingBytes s + w\<rparr>"
  define q1 where "q1 = q\<lparr>m_pendingDemandBytes := m_pendingDemandBytes q - d, rx_ipid := rx_ipid q + 1\<rparr>"
  have h': "cfg hw' = c" "m_rxQpMap hw' = m_rxQpMap hw" "m_senderStates hw' = (m_senderStates hw)(a \<mapsto> s1)"
    "m_globalOutstanding hw' = m_globalOutstanding hw + w" "hw_rxqs hw' = (hw_rxqs hw)(r := q1)"
    using g(5) by (simp_all add: granted_def Let_def ch s1_def q1_def w_def q_def)
  from bounce_decoded[OF ok _ g(1), unfolded ch, OF fits g(4) mg(1), of q, folded gp w_def]
  obtain t where tag: "p_cbTag (bounced_version gp) = Some t" "IsBouncedCredit t" "\<not> IsRequest t" "\<not> IsGrantReq t"
    "\<not> IsResend t" "\<not> IsGrant t" "ucast (m_creditBytes t) = w" "credit_payload (ucast (m_creditBytes t)) (m_creditPad t) = d"
    by blast
  define bch where "bch = p_hdr (bounced_version gp)"
  have hd: "sip bch = a" "pg bch = rx_qIndex q" "sport bch = rx_dport q"
    by (simp_all add: bch_def gp cb_grant_packet_def BuildCreditBouncerCtrlPacket_def Let_def swapped_def q(1))
  have key: "m_rxQpMap hw' (rx_key (sip bch) (pg bch) (sport bch)) = Some r" using q by (simp add: h' hd key_of_def)
  have hw'': "hw'' = receive_bounced_credit env' bch t hw'"
    using b tag cb unfolding bch_def[symmetric] by (simp add: ReceiveCreditBouncer_def receive_control_def h')
  have e2: "s1\<lparr>m_senderAddr := a, ss_enabled := True\<rparr> = s0\<lparr>m_pendingDemandDataBytes := m_pendingDemandDataBytes s0 - d,
       m_outstandingDataBytes := m_outstandingDataBytes s0 + d,
       m_srpbBytes := m_srpbBytes s0 - w, m_OutstandingBytes := m_OutstandingBytes s0 + w\<rparr>"
    by (simp add: s1_def s0_def)
  have "\<exists>s3 qe. return_credit w d (s1\<lparr>m_senderAddr := a, ss_enabled := True\<rparr>) q1 (m_globalOutstanding hw + w)
      = (s3, qe, m_globalOutstanding hw) \<and> accounts s3 = accounts s0 \<and> qe = q1\<lparr>m_pendingDemandBytes := m_pendingDemandBytes q\<rparr>"
    unfolding e2 by (rule return_undoes_charge)
      (use B mg(3) sm small(1) small(2)[OF g(1)] in \<open>simp_all add: s0_def q1_def word_less_nat_alt\<close>)
  then obtain s3 qe where r3: "return_credit w d (s1\<lparr>m_senderAddr := a, ss_enabled := True\<rparr>) q1 (m_globalOutstanding hw + w)
      = (s3, qe, m_globalOutstanding hw)" "accounts s3 = accounts s" "m_pendingDemandBytes qe = m_pendingDemandBytes q"
    by (auto simp: s0_def accounts_def)
  have "rx_enabled (hw_rxqs hw' r)" "m_senderStates hw' (sip bch) = Some s1" "r \<in> set (ss_msgStates s1)"
    using mg(4) g(2) by (simp_all add: h' hd q1_def s1_def)
  note E = bounced_effect[OF key this, of t, unfolded tag(7) tag(8)[unfolded tag(7)] h'(4,5) hd fun_upd_same, OF r3(1), of env',
    folded hw'']
  show ?thesis using E g(1) r3(2,3) by (simp add: h' q_def)
qed

lemma bounced_always_received:
  assumes "p_cbTag gp = Some t" "IsGrant t"
  shows "\<exists>hw''. ReceiveCreditBouncer env (bounced_version gp) ch hw = Some hw''"
proof -
  let ?t = "SetType CB_MSG_BOUNCED_CREDIT t"
  have "p_cbTag (bounced_version gp) = Some ?t"
    using assms by (simp add: bounced_version_def MarkPacketAsBouncedCredit_def IsGrant_def)
  moreover have "\<not> IsRequest ?t" "\<not> IsGrantReq ?t" "\<not> IsResend ?t" "\<not> IsGrant ?t"
    by (simp_all add: SetType_def IsRequest_def IsGrantReq_def IsResend_def IsGrant_def)
  ultimately show ?thesis by (simp add: ReceiveCreditBouncer_def receive_control_def)
qed

lemma bounced_grant_restores_accounts_witness:
  "\<exists>hw' hw'' gp nic. TryIssueCreditGrant env1 hw2 = Some (True, hw') \<and> hw_out hw' = hw_out hw2 @ [HwHighPrio nic gp, HwTrigger nic] \<and>
     ReceiveCreditBouncer env1 (bounced_version gp) (p_hdr (bounced_version gp)) hw' = Some hw'' \<and>
     m_globalOutstanding hw' \<noteq> 0 \<and> m_globalOutstanding hw'' = 0"
proof -
  have fits: "grant_fits cfg1" by (simp add: grant_fits_def cfg1_def)
  have m0: "h_mtu (cfg hw2) \<noteq> 0" by (simp add: hw2_fields cfg1_sel)
  obtain hw' where t: "TryIssueCreditGrant env1 hw2 = Some (True, hw')" using grant_hw2 by blast
  obtain a s r d nic where g: "m_senderStates hw2 a = Some s" "r \<in> set (ss_msgStates s)"
    "may_grant hw2 s (hw_rxqs hw2 r)" "d = grant_ask (h_mtu (cfg hw2)) (m_pendingDemandBytes (hw_rxqs hw2 r)) s"
    "granted a s r d hw2 hw'"
    "hw_out hw' = hw_out hw2 @ [HwHighPrio nic (cb_grant_packet (cfg hw2) (hw_rxqs hw2 r) d), HwTrigger nic]"
    by (rule grant_selected[OF t m0])
  have as: "a = 1" "s = s2" "r = 0" using g(1,2) hw2_fields s2_sel by (auto split: if_splits)
  have "d = 1000" using g(4) by (simp add: as hw2_fields cfg1_sel q2_sel ask_s2)
  then have gl: "m_globalOutstanding hw' \<noteq> 0"
    using g(5) by (simp add: as granted_def Let_def hw2_fields cfg1_sel wire_1000)
  let ?gp = "cb_grant_packet (cfg hw2) (hw_rxqs hw2 r) d"
  obtain tg where tg: "p_cbTag ?gp = Some tg" "IsGrant tg"
    by (simp add: cb_grant_packet_tag IsGrant_def CreditBouncerTag_ctor_def)
  from bounced_always_received[OF this] obtain hw'' where
    b: "ReceiveCreditBouncer env1 (bounced_version ?gp) (p_hdr (bounced_version ?gp)) hw' = Some hw''" by blast
  have "m_outstandingDataBytes s < 2 ^ 63" if "m_senderStates hw2 a = Some s" for a s
    using that hw2_fields s2_sel by (auto split: if_splits)
  from bounced_grant_restores_accounts[OF hw2_reached fits cfg1_sel(2) _ this t g(6) b]
  have "m_globalOutstanding hw'' = 0" by (simp add: hw2_fields)
  then show ?thesis using t g(6) b gl by blast
qed

end
