(* ===== verification/RdmaResend.thy ===== *)
theory RdmaResend
  imports RdmaGrants
begin

text \<open>
  Loss recovery of the DPDQ transport (\<^verbatim>\<open>HandleCreditBouncerResendTimeout\<close> and
  \<^verbatim>\<open>SendCreditBouncerResend\<close> in \<^verbatim>\<open>rdma-hw.cc\<close>): the
  receiver asks for exactly the granted chunks that are missing, each once.  The
  answer of the sender is in RdmaAnswer.
\<close>

section \<open>The ranges a receiver asks for\<close>

definition range_chunks :: "u32 \<times> u32 \<Rightarrow> nat list" where
  "range_chunks r = [unat (fst r)..<unat (fst r) + unat (snd r)]"

definition missing_from :: "nat \<Rightarrow> bool list \<Rightarrow> nat list" where
  "missing_from i bs = map (\<lambda>j. i + j) (filter (\<lambda>j. \<not> bs ! j) [0..<length bs])"

lemma missing_from_Nil [simp]: "missing_from i [] = []"
  by (simp add: missing_from_def)

lemma missing_from_Cons [simp]: "missing_from i (b # bs) = (if b then [] else [i]) @ missing_from (Suc i) bs"
proof -
  have "[0..<length (b # bs)] = 0 # map Suc [0..<length bs]" by (simp add: map_Suc_upt upt_conv_Cons del: upt_Suc)
  then show ?thesis by (simp add: missing_from_def filter_map comp_def del: upt_Suc)
qed

lemma missing_from_iff: "k \<in> set (missing_from 0 bs) \<longleftrightarrow> k < length bs \<and> \<not> bs ! k"
  by (auto simp: missing_from_def)

lemma distinct_missing: "distinct (missing_from i bs)"
  by (auto simp: missing_from_def distinct_map inj_on_def)

text \<open>The ranges list the missing indices in order, each once, and none is empty.\<close>
lemma missing_ranges_exact:
  assumes "unat i + length bs < 2 ^ 32" "n \<noteq> 0 \<Longrightarrow> unat a + unat n = unat i"
  shows "concat (map range_chunks (missing_ranges i a n bs))
      = (if n = 0 then [] else [unat a..<unat i]) @ missing_from (unat i) bs \<and>
    (\<forall>r\<in>set (missing_ranges i a n bs). snd r \<noteq> 0)"
  using assms
proof (induction i a n bs rule: missing_ranges.induct)
  case (1 i a n)
  then show ?case by (auto simp: range_chunks_def)
next
  case (2 i a n got bs)
  have i: "unat (i + 1) = Suc (unat i)" using 2(4) by (simp add: unat_add_lt)
  show ?case
  proof (cases got)
    case False
    have n1: "unat (n + 1) = Suc (unat n)" "n + 1 \<noteq> 0" if "n \<noteq> 0"
    proof -
      have "unat n + unat (1 :: u32) < 2 ^ LENGTH(32)" using 2(4) 2(5)[OF that] by simp
      from unat_add_lt[OF this] show "unat (n + 1) = Suc (unat n)" by simp
      then show "n + 1 \<noteq> 0" by (metis nat.distinct(1) unat_0)
    qed
    have e: "unat (if n = 0 then i else a) + unat (n + 1) = unat (i + 1)"
      using n1 i 2(5) by (cases "n = 0") simp_all
    have nz: "n + 1 \<noteq> 0" using n1 by (cases "n = 0") simp_all
    from 2(1)[OF _ _ e] 2(4) i False
    have "concat (map range_chunks (missing_ranges (i + 1) (if n = 0 then i else a) (n + 1) bs))
        = [unat (if n = 0 then i else a)..<unat (i + 1)] @ missing_from (unat (i + 1)) bs \<and>
      (\<forall>r\<in>set (missing_ranges (i + 1) (if n = 0 then i else a) (n + 1) bs). snd r \<noteq> 0)"
      by (simp add: nz)
    moreover have "[unat (if n = 0 then i else a)..<unat (i + 1)]
        = (if n = 0 then [] else [unat a..<unat i]) @ [unat i]"
    proof (cases "n = 0")
      case False
      then have "unat a \<le> unat i" using 2(5) by (metis le_add1)
      then show ?thesis using False by (simp add: i)
    qed (simp add: i)
    ultimately show ?thesis using False i by simp
  next
    case True
    show ?thesis
    proof (cases "n = 0")
      case False
      then show ?thesis using 2(2)[OF _ False] 2(4,5) True i by (simp add: range_chunks_def)
    next
      case n: True
      then show ?thesis using 2(3) 2(4) True i by simp
    qed
  qed
qed

section \<open>The granted part of a message\<close>

lemma granted_chunks_exact:
  assumes "mtu \<noteq> 0" "msg_inv (unat mtu) q"
  shows "unat (granted_chunks mtu q) =
    chunks_of (unat mtu) (unat (m_announcementExpectedBytes q) - unat (m_pendingDemandBytes q))"
    and "k < unat (granted_chunks mtu q) \<longleftrightarrow>
      k * unat mtu < unat (m_announcementExpectedBytes q) - unat (m_pendingDemandBytes q)"
    and "granted_chunks mtu q \<le> m_expectedChunks q"
proof -
  let ?E = "m_announcementExpectedBytes q" and ?P = "m_pendingDemandBytes q" and ?m = "unat mtu"
  have m: "0 < ?m" using assms(1) by (simp add: unat_gt_0)
  define g where "g = ?E - min ?P ?E"
  have g: "unat g = unat ?E - unat ?P"
    by (cases "?P \<le> ?E") (simp_all add: g_def unat_sub_le min_def word_le_nat_alt)
  have E: "unat ?E < 2 ^ 32" and ex: "unat (m_expectedChunks q) = chunks_of ?m (unat ?E)"
    using assms(2) by (simp_all add: msg_inv_def)
  define g' :: u32 where "g' = ucast g"
  have ug: "unat g' = unat g" using E g by (simp add: g'_def unsigned_ucast_eq take_bit_nat_eq_self)
  then have gg: "ucast g' = g" by (simp add: word_unat_eq_iff unat_ucast_up)
  have c: "unat (ucast ((g + ucast mtu - 1) div ucast mtu) :: u32) = chunks_of ?m (unat g)"
    using expected_chunks_word[OF assms(1), of g'] by (simp only: gg ug)
  have "chunks_of ?m (unat g) \<le> chunks_of ?m (unat ?E)"
    unfolding chunks_of_def using g by (intro div_le_mono) simp
  then have "unat (granted_chunks mtu q) = chunks_of ?m (unat g)"
    using c ex unfolding granted_chunks_def Let_def g_def[symmetric]
    by (auto simp: min_def word_le_nat_alt)
  then show "unat (granted_chunks mtu q) = chunks_of ?m (unat ?E - unat ?P)"
    "k < unat (granted_chunks mtu q) \<longleftrightarrow> k * ?m < unat ?E - unat ?P"
    by (simp_all add: g chunks_of_bound[OF m])
  show "granted_chunks mtu q \<le> m_expectedChunks q" by (simp add: granted_chunks_def Let_def)
qed

section \<open>The requests sent\<close>

text \<open>The ranges of chunks that the outputs of a host ask for.\<close>
definition asked :: "hw_output list \<Rightarrow> (u32 \<times> u32) list" where
  "asked out = concat (map (\<lambda>x. case x of
      HwHighPrio nic p \<Rightarrow> (case p_cbTag p of None \<Rightarrow> []
        | Some t \<Rightarrow> if IsResend t then [(m_resendStartIdx t, m_resendNumChunks t)] else [])
    | _ \<Rightarrow> []) out)"

lemma asked_simps [simp]:
  "asked [] = []" "asked (xs @ ys) = asked xs @ asked ys"
  "asked [HwTrigger n] = []" "asked [HwSchedResend r i] = []" "asked [HwCancelResend r] = []"
  "asked [HwResendTimeout r i] = []"
  by (simp_all add: asked_def)

lemma send_resend_asks:
  assumes "SendCreditBouncerResend r a n hw = Some hw'"
  shows "asked (hw_out hw') = asked (hw_out hw) @ (if n = 0 then [] else [(a, n)])"
proof (cases "n = 0")
  case False
  define p where "p = BuildCreditBouncerCtrlPacket (cfg hw) (rx_sip (hw_rxqs hw r)) (rx_dip (hw_rxqs hw r))
     (rx_sport (hw_rxqs hw r)) (rx_dport (hw_rxqs hw r)) (rx_qIndex (hw_rxqs hw r)) 0 CB_MSG_RESEND 0 0 0 a n"
  have "\<exists>nic. hw_out hw' = hw_out hw @ [HwHighPrio nic p] @ [HwTrigger nic]"
    using assms False unfolding SendCreditBouncerResend_def Let_def p_def[symmetric]
    by (auto split: option.splits)
  moreover have "asked [HwHighPrio nic p, HwTrigger nic] = [(a, n)]" for nic
    by (simp add: asked_def p_def BuildCreditBouncerCtrlPacket_def IsResend_def CreditBouncerTag_ctor_def Let_def)
  ultimately show ?thesis using False by auto
qed (use assms in \<open>simp add: SendCreditBouncerResend_def\<close>)

lemma send_resends_asks:
  "send_resends r rs hw = Some hw' \<Longrightarrow> \<forall>x\<in>set rs. snd x \<noteq> 0 \<Longrightarrow> asked (hw_out hw') = asked (hw_out hw) @ rs"
proof (induction r rs hw rule: send_resends.induct)
  case (2 r start len rs hw)
  then obtain h where h: "SendCreditBouncerResend r start len hw = Some h" "send_resends r rs h = Some hw'"
    by (auto simp: bind_eq_Some_conv)
  show ?case using 2(1)[OF h] 2(3) send_resend_asks[OF h(1)] by simp
qed simp

lemma schedule_resend_asks [simp]: "asked (hw_out (ScheduleCreditBouncerResend r hw)) = asked (hw_out hw)"
  by (simp add: ScheduleCreditBouncerResend_def Let_def)

lemma request_missing_asks:
  assumes t: "request_missing r s hw = Some hw'" and m: "h_mtu (cfg hw) \<noteq> 0"
    and inv: "msg_inv (unat (h_mtu (cfg hw))) (hw_rxqs hw r)"
  shows "\<exists>rs. asked (hw_out hw') = asked (hw_out hw) @ rs \<and> concat (map range_chunks rs) =
     missing_from 0 (take (unat (granted_chunks (h_mtu (cfg hw)) (hw_rxqs hw r))) (m_receivedChunkBitmap (hw_rxqs hw r)))"
proof -
  let ?q = "hw_rxqs hw r"
  let ?l = "granted_chunks (h_mtu (cfg hw)) ?q" and ?b = "m_receivedChunkBitmap ?q"
  let ?h = "set_rxq r (?q\<lparr>m_grantedChunkLimit := ?l\<rparr>) hw"
  have len: "length ?b = unat (m_expectedChunks ?q)" using inv by (simp add: msg_inv_def)
  then have le: "unat ?l \<le> length ?b" using granted_chunks_exact(3)[OF m inv] by (simp add: word_le_nat_alt)
  have small: "unat (0 :: u32) + length (take (unat ?l) ?b) < 2 ^ 32"
    using le unat_lt_u32[of ?l] by (simp add: min_absorb2)
  define rs where "rs = (if ?l > 0 \<and> ?b \<noteq> [] then missing_ranges 0 0 0 (take (unat ?l) ?b) else [])"
  have z: "take (unat ?l) ?b = []" if "\<not> (?l > 0 \<and> ?b \<noteq> [])"
    using that by (auto simp: word_gt_0)
  have rs: "concat (map range_chunks rs) = missing_from 0 (take (unat ?l) ?b)" "\<forall>x\<in>set rs. snd x \<noteq> 0"
    using missing_ranges_exact[OF small, of 0 0] z by (auto simp: rs_def)
  obtain h where h: "send_resends r rs ?h = Some h" "hw' \<in> {h, ScheduleCreditBouncerResend r h}"
    using t le unfolding request_missing_def Let_def rs_def
    by (auto split: option.splits if_splits)
  have "asked (hw_out h) = asked (hw_out hw) @ rs" using send_resends_asks[OF h(1) rs(2)] by simp
  then have "asked (hw_out hw') = asked (hw_out hw) @ rs" using h(2) by auto
  then show ?thesis using rs(1) by blast
qed

section \<open>The timer never fails on a routed host\<close>

lemma send_resend_total:
  assumes "hw_rtTable hw (rx_dip (hw_rxqs hw r)) \<noteq> []"
  shows "\<exists>hw'. SendCreditBouncerResend r a n hw = Some hw' \<and>
    hw_rtTable hw' (rx_dip (hw_rxqs hw' r)) \<noteq> []"
  using assms
  by (auto simp: SendCreditBouncerResend_def GetNicIdxOfRxQp_def pick_nic_def Let_def split: option.split)

lemma send_resends_total:
  "hw_rtTable hw (rx_dip (hw_rxqs hw r)) \<noteq> [] \<Longrightarrow> \<exists>hw'. send_resends r rs hw = Some hw'"
proof (induction r rs hw rule: send_resends.induct)
  case (2 r a n rs hw)
  from send_resend_total[OF 2(2), of a n] obtain h where
    h: "SendCreditBouncerResend r a n hw = Some h" "hw_rtTable h (rx_dip (hw_rxqs h r)) \<noteq> []" by blast
  then show ?case using 2(1)[OF h] by simp
qed simp

lemma request_missing_total:
  assumes "hw_rtTable hw (rx_dip (hw_rxqs hw r)) \<noteq> []" "h_mtu (cfg hw) \<noteq> 0"
    "msg_inv (unat (h_mtu (cfg hw))) (hw_rxqs hw r)"
  shows "\<exists>hw'. request_missing r s hw = Some hw'"
proof -
  let ?q = "hw_rxqs hw r" and ?l = "granted_chunks (h_mtu (cfg hw)) (hw_rxqs hw r)"
  have "length (m_receivedChunkBitmap ?q) = unat (m_expectedChunks ?q)" using assms(3) unfolding msg_inv_def by blast
  then have le: "\<not> length (m_receivedChunkBitmap ?q) < unat ?l"
    using granted_chunks_exact(3)[OF assms(2,3)] by (simp add: word_le_nat_alt)
  let ?h = "set_rxq r (?q\<lparr>m_grantedChunkLimit := ?l\<rparr>) hw"
  have "hw_rtTable ?h (rx_dip (hw_rxqs ?h r)) \<noteq> []" using assms(1) by simp
  from send_resends_total[OF this, of "missing_ranges 0 0 0 (take (unat ?l) (m_receivedChunkBitmap ?q))"]
  show ?thesis using le by (auto simp: request_missing_def Let_def split: option.split)
qed

lemma timeout_total:
  assumes rt: "hw_rtTable hw (rx_dip (hw_rxqs hw r)) \<noteq> []" and inv: "rx_inv hw"
  shows "\<exists>hw'. HandleCreditBouncerResendTimeout r hw = Some hw'"
proof -
  define h1 where "h1 = set_rxq r ((hw_rxqs hw r)\<lparr>m_resendEvent := False\<rparr>) hw"
  define h2 where "h2 = hw_emit (HwResendTimeout r (ucast (h_resendIntervalNs (cfg h1)))) h1"
  obtain s h3 where g: "GetOrCreateSenderState (rx_dip (hw_rxqs h1 r)) r h2 = (s, h3)" by fastforce
  then have h3: "cfg h3 = cfg hw" "hw_rxqs h3 = (hw_rxqs hw)(r := (hw_rxqs hw r)\<lparr>m_resendEvent := False\<rparr>)"
    "hw_rtTable h3 = hw_rtTable hw"
    by (auto simp: GetOrCreateSenderState_def Let_def h2_def h1_def)
  have e: "HandleCreditBouncerResendTimeout r hw = Some h1 \<or> HandleCreditBouncerResendTimeout r hw = Some h3 \<or>
    h_mtu (cfg h3) \<noteq> 0 \<and> HandleCreditBouncerResendTimeout r hw = request_missing r s h3"
    using g unfolding HandleCreditBouncerResendTimeout_def Let_def h1_def[symmetric] h2_def[symmetric] by simp
  have "\<exists>hw'. request_missing r s h3 = Some hw'" if "h_mtu (cfg h3) \<noteq> 0"
    using that rt rx_inv_msg[OF inv, of r] by (intro request_missing_total) (simp_all add: h3)
  then show ?thesis using e by auto
qed

section \<open>Exactly the missing chunks\<close>

text \<open>C11: when the resend timer of an unfinished message fires, the receiver asks its
  sender for exactly the chunks it is missing of the granted part of the message, in order,
  each once: chunk k is asked for when its first byte lies in the granted prefix (what was
  announced less the demand still pending) and its bit is clear.\<close>
theorem resend_asks_for_missing:
  assumes run: "host_reaches (RdmaHw_initial c rates) hw" and m: "h_mtu c \<noteq> 0"
    and live: "h_creditbouncer c" "rx_enabled (hw_rxqs hw r)" "\<not> m_completionNotified (hw_rxqs hw r)"
      "m_announcementExpectedBytes (hw_rxqs hw r) \<noteq> 0"
    and t: "HandleCreditBouncerResendTimeout r hw = Some hw'"
  shows "\<exists>rs. asked (hw_out hw') = asked (hw_out hw) @ rs \<and>
    concat (map (\<lambda>(a, n). [unat a..<unat a + unat n]) rs) =
      filter (\<lambda>k. k * unat (h_mtu c) < unat (m_announcementExpectedBytes (hw_rxqs hw r)) - unat (m_pendingDemandBytes (hw_rxqs hw r))
                \<and> \<not> m_receivedChunkBitmap (hw_rxqs hw r) ! k)
        [0..<length (m_receivedChunkBitmap (hw_rxqs hw r))]"
proof -
  have inv: "rx_inv hw" and ch: "cfg hw = c"
    using books.reaches[OF run m] by (simp_all add: host_inv_def)
  let ?q = "hw_rxqs hw r" and ?m = "unat (h_mtu c)"
  have mi: "msg_inv ?m ?q" using rx_inv_msg[OF inv] by (simp add: ch)
  have ex: "m_expectedChunks ?q \<noteq> 0"
  proof -
    have "0 < chunks_of ?m (unat (m_announcementExpectedBytes ?q))"
      using chunks_of_bound[of ?m 0] m live(4) by (simp add: unat_gt_0)
    then have "0 < unat (m_expectedChunks ?q)" using mi unfolding msg_inv_def by linarith
    then show ?thesis by (simp add: unat_gt_0)
  qed
  define h1 where "h1 = set_rxq r (?q\<lparr>m_resendEvent := False\<rparr>) hw"
  define h2 where "h2 = hw_emit (HwResendTimeout r (ucast (h_resendIntervalNs (cfg h1)))) h1"
  obtain s h3 where g: "GetOrCreateSenderState (rx_dip (hw_rxqs h1 r)) r h2 = (s, h3)" by fastforce
  then have h3: "cfg h3 = c" "hw_rxqs h3 = (hw_rxqs hw)(r := ?q\<lparr>m_resendEvent := False\<rparr>)"
    "hw_out h3 = hw_out hw @ [HwResendTimeout r (ucast (h_resendIntervalNs c))]"
    by (auto simp: GetOrCreateSenderState_def Let_def h2_def h1_def ch)
  have f1: "cfg h1 = c" "rx_enabled (hw_rxqs h1 r)" "\<not> m_completionNotified (hw_rxqs h1 r)"
    "m_expectedChunks (hw_rxqs h1 r) \<noteq> 0" using live ex by (simp_all add: h1_def ch)
  have "request_missing r s h3 = Some hw'"
    using t g f1 live(1) m h3(1)
    unfolding HandleCreditBouncerResendTimeout_def Let_def h1_def[symmetric] h2_def[symmetric] by simp
  moreover have "msg_inv (unat (h_mtu (cfg h3))) (hw_rxqs h3 r)" using mi by (simp add: h3)
  ultimately obtain rs where rs: "asked (hw_out hw') = asked (hw_out h3) @ rs" "concat (map range_chunks rs) =
     missing_from 0 (take (unat (granted_chunks (h_mtu c) ?q)) (m_receivedChunkBitmap ?q))"
    using request_missing_asks[of r s h3 hw'] m by (auto simp: h3 granted_chunks_def)
  let ?l = "unat (granted_chunks (h_mtu c) ?q)" and ?b = "m_receivedChunkBitmap ?q"
  have "length ?b = unat (m_expectedChunks ?q)" using mi unfolding msg_inv_def by blast
  then have l: "?l \<le> length ?b" using granted_chunks_exact(3)[OF m mi] by (simp add: word_le_nat_alt)
  have "missing_from 0 (take ?l ?b) = filter (\<lambda>k. \<not> ?b ! k) [0..<?l]"
    using l by (auto simp: missing_from_def min_absorb2 intro!: filter_cong)
  also have "\<dots> = filter (\<lambda>k. k < ?l \<and> \<not> ?b ! k) [0..<length ?b]"
  proof -
    have "[0..<length ?b] = [0..<?l] @ [?l..<length ?b]" 
      using upt_add_eq_append[of 0 ?l "length ?b - ?l"] l by simp
    moreover have "filter (\<lambda>k. k < ?l \<and> \<not> ?b ! k) [?l..<length ?b] = []" by (auto simp: filter_empty_conv)
    ultimately show ?thesis by (auto intro!: filter_cong)
  qed
  finally have "concat (map range_chunks rs) = filter (\<lambda>k. k * ?m < unat (m_announcementExpectedBytes ?q)
      - unat (m_pendingDemandBytes ?q) \<and> \<not> ?b ! k) [0..<length ?b]"
    using rs(2) by (simp add: granted_chunks_exact(2)[OF m mi])
  moreover have "range_chunks = (\<lambda>(a, n). [unat a..<unat a + unat n])" by (auto simp: range_chunks_def fun_eq_iff)
  ultimately show ?thesis using rs(1) h3(3) by auto
qed

lemma resend_asks_for_missing_witness:
  "\<exists>hw' rs. HandleCreditBouncerResendTimeout 0 hw3 = Some hw' \<and> asked (hw_out hw') = asked (hw_out hw3) @ rs \<and>
     concat (map (\<lambda>(a, n). [unat a..<unat a + unat n]) rs) = [0]"
proof -
  have q: "hw_rxqs hw3 0 = q3" "cfg hw3 = cfg1" using hw3_fields by simp_all
  have live: "h_creditbouncer cfg1" "rx_enabled (hw_rxqs hw3 0)" "\<not> m_completionNotified (hw_rxqs hw3 0)"
    "m_announcementExpectedBytes (hw_rxqs hw3 0) \<noteq> 0" by (simp_all add: cfg1_sel q q3_sel)
  have m: "h_mtu cfg1 \<noteq> 0" by (simp add: cfg1_sel)
  obtain hw' where t: "HandleCreditBouncerResendTimeout 0 hw3 = Some hw'" 
    using timeout_total[of hw3 0] hw3_fields books.reaches[OF hw3_reached m]
    by (auto simp: q3_sel host_inv_def)
  from resend_asks_for_missing[OF hw3_reached m live t] obtain rs where
    rs: "asked (hw_out hw') = asked (hw_out hw3) @ rs"
    "concat (map (\<lambda>(a, n). [unat a..<unat a + unat n]) rs) =
      filter (\<lambda>k. k * unat (h_mtu cfg1) < unat (m_announcementExpectedBytes (hw_rxqs hw3 0)) - unat (m_pendingDemandBytes (hw_rxqs hw3 0))
                \<and> \<not> m_receivedChunkBitmap (hw_rxqs hw3 0) ! k)
        [0..<length (m_receivedChunkBitmap (hw_rxqs hw3 0))]" by blast
  have five: "[0..<5] = [0, 1, 2, 3, 4 :: nat]" by code_simp
  have l5: "length (m_receivedChunkBitmap (hw_rxqs hw3 0)) = 5" by (simp add: q q3_sel)
  have "filter (\<lambda>k. k * unat (h_mtu cfg1) < unat (m_announcementExpectedBytes (hw_rxqs hw3 0)) - unat (m_pendingDemandBytes (hw_rxqs hw3 0))
                \<and> \<not> m_receivedChunkBitmap (hw_rxqs hw3 0) ! k)
        [0..<length (m_receivedChunkBitmap (hw_rxqs hw3 0))] = [0]"
    unfolding l5 five by (simp add: q q3_sel cfg1_sel)
  then have "concat (map (\<lambda>(a, n). [unat a..<unat a + unat n]) rs) = [0]" by (rule trans[OF rs(2)])
  then show ?thesis using t rs(1) by blast
qed

end
