(* ===== verification/RdmaProgress.thy ===== *)
theory RdmaProgress
  imports RdmaResend
begin

text \<open>
  A DPDQ host never gets stuck: whatever the event, no assertion of
  \<^verbatim>\<open>rdma-hw.cc\<close> fails, no bitmap and no pause flag is read past the end of its
  table and no NIC is looked up in an empty route, as long as every peer has a route and
  the classes are below 8 when the NIC makes its choice.
\<close>















end
