(* ===== verification/RdmaSending.thy ===== *)
theory RdmaSending
  imports RdmaExamples
begin

text \<open>
  What a DPDQ sender puts on the wire: the packets a queue pair hands to its NIC over any
  number of requests are the chunks of its message in order, paid for from the credit it
  holds, and with enough credit the message is sent completely (\<^verbatim>\<open>GetNxtPacket\<close>
  in \<^verbatim>\<open>rdma-hw.cc\<close>).
\<close>

section \<open>One request of the NIC\<close>

text \<open>The credit state that a queue pair draws on.\<close>
definition peer_state :: "nat \<Rightarrow> RdmaHw \<Rightarrow> ReceiverState" where
  "peer_state r hw = (case m_receiverStates hw (q_dip (hw_qps hw r)) of None \<Rightarrow> ReceiverState_default | Some s \<Rightarrow> s)"

text \<open>Queue pair and credit after the classification that precedes the first packet.\<close>
definition classified :: "nat \<Rightarrow> RdmaHw \<Rightarrow> RdmaQueuePair \<times> ReceiverState" where
  "classified r hw = (let q = hw_qps hw r in
     if \<not> q_usnsolCheckDone q then classify_message (cfg hw) q (peer_state r hw) else (q, peer_state r hw))"

definition sends_credit :: "nat \<Rightarrow> RdmaHw \<Rightarrow> bool" where
  "sends_credit r hw \<longleftrightarrow> h_creditbouncer (cfg hw) \<and> q_enabled (hw_qps hw r) \<and> q_irn_sack (hw_qps hw r) = []"

definition is_data :: "NsPacket \<Rightarrow> bool" where
  "is_data p \<longleftrightarrow> l3Prot (p_hdr p) = RDMA_L3_PROT_UDP"

definition payload_of :: "RdmaConfig \<Rightarrow> NsPacket \<Rightarrow> u32" where
  "payload_of c p = p_size p - udp_header_size c"

lemma data_packet_sel:
  "is_data (data_packet c q pl n t)" "payload_of c (data_packet c q pl n t) = pl"
  "seq (p_hdr (data_packet c q pl n t)) = n"
  by (simp_all add: is_data_def payload_of_def data_packet_def udp_header_size_def)

lemma next_chunk_le: "ucast (CbNextChunkPayloadBytes off sz m) \<le> (if off \<le> sz then sz - off else 0 :: u64)"
  using unat_CbNextChunkPayloadBytes[of off sz m]
  by (auto simp: word_le_nat_alt unat_ucast_up unat_sub_le)

lemma tag_data_fields:
  "tag_data csn prio pl q = (t, q') \<Longrightarrow>
    m_size q' = m_size q \<and> snd_nxt q' = snd_nxt q \<and> q_isScheduled q' = q_isScheduled q \<and>
    q_sentAnnouncement q' = (if q_isScheduled q then q_sentAnnouncement q else True) \<and>
    q_usnsolCheckDone q' = q_usnsolCheckDone q \<and> q_dip q' = q_dip q \<and> q_enabled q' = q_enabled q \<and>
    q_irn_sack q' = q_irn_sack q"
  by (auto simp: tag_data_def Let_def split: if_splits)

lemma classify_fields:
  "classify_message c q rs = (q', rs') \<Longrightarrow>
    m_size q' = m_size q \<and> snd_nxt q' = snd_nxt q \<and> q_dip q' = q_dip q \<and> q_enabled q' = q_enabled q \<and>
    q_irn_sack q' = q_irn_sack q \<and> q_usnsolCheckDone q' \<and> \<not> q_sentAnnouncement q'"
  by (auto simp: classify_message_def Let_def)

lemma self_allocation_cong:
  "m_availCreditBytes rs = m_availCreditBytes rs' \<Longrightarrow> m_unsolicitedThreshBytes rs = m_unsolicitedThreshBytes rs' \<Longrightarrow>
   self_allocation c n rs = self_allocation c n rs'"
  by (simp only: self_allocation_def)

lemma classify_cong:
  assumes "m_availCreditBytes rs = m_availCreditBytes rs'" "m_unsolicitedThreshBytes rs = m_unsolicitedThreshBytes rs'"
    "classify_message c (q\<lparr>q_priorityFlowPending := b\<rparr>) rs = (qx, rsx)" "classify_message c q rs' = (qy, rsy)"
  shows "m_size qx = m_size qy \<and> snd_nxt qx = snd_nxt qy \<and> q_isScheduled qx = q_isScheduled qy \<and>
    q_sentAnnouncement qx = q_sentAnnouncement qy \<and> q_usnsolCheckDone qx = q_usnsolCheckDone qy \<and>
    q_dip qx = q_dip qy \<and> q_enabled qx = q_enabled qy \<and> q_irn_sack qx = q_irn_sack qy \<and>
    m_availCreditBytes rsx = m_availCreditBytes rsy"
  using assms(1,3,4) self_allocation_cong[OF assms(1,2), of c "m_size q"]
  by (auto simp: classify_message_def Let_def)

text \<open>The three answers to a request of the NIC: the announcement, nothing, a chunk.\<close>
definition answer :: "RdmaConfig \<Rightarrow> RdmaQueuePair \<Rightarrow> u64 \<Rightarrow> NsPacket option \<Rightarrow> RdmaQueuePair \<Rightarrow> u64 \<Rightarrow> bool" where
  "answer c q avail po q' avail' \<longleftrightarrow>
    (let pl = CbNextChunkPayloadBytes (snd_nxt q) (m_size q) (h_mtu c);
         wire = CbAddHeaderOverhead (ucast pl) (h_mtu c) True
     in (q_isScheduled q \<and> \<not> q_sentAnnouncement q \<and> snd_nxt q' = snd_nxt q \<and> avail' = avail \<and>
         (if m_size q = 0 then po = None \<and> \<not> q_sentAnnouncement q'
          else q_sentAnnouncement q' \<and> (\<exists>p. po = Some p \<and> \<not> is_data p)))
      \<or> ((q_isScheduled q \<longrightarrow> q_sentAnnouncement q) \<and> po = None \<and> (pl = 0 \<or> wire = 0 \<or> wire > avail) \<and>
         snd_nxt q' = snd_nxt q \<and> q_sentAnnouncement q' = q_sentAnnouncement q \<and> avail' = avail)
      \<or> ((q_isScheduled q \<longrightarrow> q_sentAnnouncement q) \<and> pl \<noteq> 0 \<and> wire \<le> avail \<and>
         (\<exists>p. po = Some p \<and> is_data p \<and> payload_of c p = pl \<and> seq (p_hdr p) = ucast (snd_nxt q)) \<and>
         snd_nxt q' = snd_nxt q + ucast pl \<and> q_sentAnnouncement q' \<and> avail' = avail - wire))"

lemma announce_answer:
  assumes "announce_scheduled c q = (po, q')" "q_isScheduled q" "\<not> q_sentAnnouncement q"
  shows "answer c q av po q' av"
proof -
  have "cap32 (m_size q) = 0 \<longleftrightarrow> m_size q = 0"
  proof
    assume z: "cap32 (m_size q) = 0"
    then have "\<not> m_size q > 0xFFFFFFFF" by (auto simp: cap32_def)
    moreover have "unat (ucast (m_size q) :: u32) = unat (m_size q)" if "m_size q \<le> 0xFFFFFFFF"
      using that by (simp add: unsigned_ucast_eq take_bit_nat_eq_self word_le_nat_alt)
    ultimately show "m_size q = 0" using z by (simp add: cap32_def not_less word_unat_eq_iff split: if_splits)
  qed (simp add: cap32_def)
  then show ?thesis using assms
    by (auto simp: answer_def announce_scheduled_def Let_def is_data_def BuildCreditBouncerCtrlPacket_def
        RDMA_L3_PROT_UDP_def RDMA_L3_PROT_CREDITBOUNCER_def split: if_splits)
qed

lemma announce_keeps:
  "announce_scheduled c q = (po, q') \<Longrightarrow> m_size q' = m_size q \<and> q_isScheduled q' = q_isScheduled q \<and>
    q_usnsolCheckDone q' = q_usnsolCheckDone q \<and> q_dip q' = q_dip q \<and> q_enabled q' = q_enabled q \<and>
    q_irn_sack q' = q_irn_sack q"
  by (auto simp: announce_scheduled_def Let_def split: if_splits)

lemma send_answer:
  assumes "send_data c csn prio (CbNextChunkPayloadBytes (snd_nxt q) (m_size q) (h_mtu c)) q rs = (p, q', rs')"
    "q_isScheduled q \<longrightarrow> q_sentAnnouncement q" "CbNextChunkPayloadBytes (snd_nxt q) (m_size q) (h_mtu c) \<noteq> 0"
    "CbAddHeaderOverhead (ucast (CbNextChunkPayloadBytes (snd_nxt q) (m_size q) (h_mtu c))) (h_mtu c) True \<le> m_availCreditBytes rs"
  shows "answer c q (m_availCreditBytes rs) (Some p) q' (m_availCreditBytes rs') \<and>
    m_size q' = m_size q \<and> q_isScheduled q' = q_isScheduled q \<and> q_usnsolCheckDone q' = q_usnsolCheckDone q \<and>
    q_dip q' = q_dip q \<and> q_enabled q' = q_enabled q \<and> q_irn_sack q' = q_irn_sack q"
proof -
  let ?pl = "CbNextChunkPayloadBytes (snd_nxt q) (m_size q) (h_mtu c)"
  obtain t q1 where t: "tag_data csn prio ?pl q = (t, q1)" by fastforce
  note T = tag_data_fields[OF t]
  have p: "p = data_packet c q1 ?pl (ucast (snd_nxt q)) t"
    and q': "q' = (note_sent q1)\<lparr>q_txTotalPkts := q_txTotalPkts q1 + 1, q_txTotalBytes := q_txTotalBytes q1 + ucast ?pl,
         snd_nxt := snd_nxt q + ucast ?pl, q_ipid := q_ipid q1 + 1\<rparr>"
    and av: "m_availCreditBytes rs' = m_availCreditBytes rs - CbAddHeaderOverhead (ucast ?pl) (h_mtu c) True"
    using assms(1) by (auto simp: send_data_def t)
  have "q_sentAnnouncement q1" using T assms(2) by simp
  then have "answer c q (m_availCreditBytes rs) (Some p) q' (m_availCreditBytes rs')"
    using assms(2-4) unfolding answer_def Let_def by (simp add: p q' av data_packet_sel)
  then show ?thesis using T by (simp add: q')
qed

lemma next_credit_answer:
  assumes n: "next_credit_packet env r (CbNextChunkPayloadBytes (snd_nxt q0) (m_size q0) (h_mtu c)) hw = (po, hw')"
    and q0: "q0 = hw_qps hw r" and c: "c = cfg hw" and cl: "classified r hw = (q, rs)"
  shows "answer c q (m_availCreditBytes rs) po (hw_qps hw' r) (m_availCreditBytes (peer_state r hw')) \<and>
    cfg hw' = c \<and> q_usnsolCheckDone q \<and> m_size (hw_qps hw' r) = m_size q \<and> m_size q = m_size q0 \<and> snd_nxt q = snd_nxt q0 \<and>
    q_isScheduled (hw_qps hw' r) = q_isScheduled q \<and> q_usnsolCheckDone (hw_qps hw' r) \<and> q_dip (hw_qps hw' r) = q_dip q0 \<and>
    q_enabled (hw_qps hw' r) = q_enabled q0 \<and> q_irn_sack (hw_qps hw' r) = q_irn_sack q0"
proof -
  let ?pl = "CbNextChunkPayloadBytes (snd_nxt q0) (m_size q0) (h_mtu c)"
  define qa where "qa = q0\<lparr>q_priorityFlowPending := False\<rparr>"
  obtain rsa0 h1 where g: "GetOrCreateReceiverState (q_dip qa) r hw = (rsa0, h1)" by fastforce
  define rsa where "rsa = rsa0\<lparr>rs_enabled := True\<rparr>"
  have h1: "cfg h1 = c" and ra: "m_availCreditBytes rsa = m_availCreditBytes (peer_state r hw)"
    "m_unsolicitedThreshBytes rsa = m_unsolicitedThreshBytes (peer_state r hw)"
    using g by (auto simp: GetOrCreateReceiverState_def peer_state_def Let_def rsa_def qa_def q0 c split: option.split)
  obtain qb rsb where b: "(if \<not> q_usnsolCheckDone qa then classify_message c qa rsa else (qa, rsa)) = (qb, rsb)"
    by fastforce
  have F: "m_size qb = m_size q \<and> snd_nxt qb = snd_nxt q \<and> q_isScheduled qb = q_isScheduled q \<and>
    q_sentAnnouncement qb = q_sentAnnouncement q \<and> q_usnsolCheckDone qb = q_usnsolCheckDone q \<and>
    q_dip qb = q_dip q \<and> q_enabled qb = q_enabled q \<and> q_irn_sack qb = q_irn_sack q \<and>
    m_availCreditBytes rsb = m_availCreditBytes rs"
    using b cl ra classify_cong[OF ra, where c = c and q = q0 and b = False and qx = qb and rsx = rsb and qy = q and rsy = rs]
    by (auto simp: classified_def Let_def q0[symmetric] c[symmetric] qa_def split: if_splits)
  have G: "m_size q = m_size q0 \<and> snd_nxt q = snd_nxt q0 \<and> q_dip q = q_dip q0 \<and> q_enabled q = q_enabled q0 \<and>
    q_irn_sack q = q_irn_sack q0 \<and> q_usnsolCheckDone q"
    using cl classify_fields[of c q0 "peer_state r hw" q rs]
    by (auto simp: classified_def Let_def q0[symmetric] c[symmetric] split: if_splits)
  have A: "answer c qb av po q1 av1 = answer c q av po q1 av1" for av po q1 av1 using F by (simp add: answer_def)
  define hb where "hb = set_receiver (q_dip qb) rsb (set_qp r qb h1)"
  have pl: "?pl = CbNextChunkPayloadBytes (snd_nxt qb) (m_size qb) (h_mtu c)" using F G by simp
  let ?w = "CbAddHeaderOverhead (ucast ?pl) (h_mtu c) True"
  have e: "next_credit_packet env r ?pl hw = (if q_isScheduled qb \<and> \<not> q_sentAnnouncement qb
        then let (p, q) = announce_scheduled c qb in (p, set_qp r q hb)
        else if m_availCreditBytes rsb = 0 \<or> ?pl = 0 \<or> ?w = 0 \<or> ?w > m_availCreditBytes rsb then (None, hb)
             else let csn = (h_ccEnable c \<and> h_csnEnable c \<and>
                             GetHostSchedCreditAvailableBytes env hb \<ge> m_senderBacklogThresholdBytes rsb);
                      (p, q, rs) = send_data c csn (q_priorityFlowPending q0) ?pl qb rsb
                  in (Some p, set_receiver (q_dip q) rs (set_qp r q hb)))"
    unfolding next_credit_packet_def Let_def q0[symmetric] c[symmetric] qa_def[symmetric] g prod.case
      rsa_def[symmetric] b hb_def[symmetric] by (rule refl)
  have hb: "cfg hb = c" "hw_qps hb r = qb" by (simp_all add: hb_def h1)
  have P: "m_availCreditBytes (peer_state r (set_qp r q1 hb)) = m_availCreditBytes rsb" if "q_dip q1 = q_dip qb" for q1
    using that by (simp add: peer_state_def hb_def)
  consider (ann) "q_isScheduled qb" "\<not> q_sentAnnouncement qb"
    | (idle) "q_isScheduled qb \<longrightarrow> q_sentAnnouncement qb" "m_availCreditBytes rsb = 0 \<or> ?pl = 0 \<or> ?w = 0 \<or> ?w > m_availCreditBytes rsb"
    | (send) "q_isScheduled qb \<longrightarrow> q_sentAnnouncement qb" "\<not> (m_availCreditBytes rsb = 0 \<or> ?pl = 0 \<or> ?w = 0 \<or> ?w > m_availCreditBytes rsb)"
    by blast
  then show ?thesis
  proof cases
    case ann
    obtain p1 q1 where a: "announce_scheduled c qb = (p1, q1)" by fastforce
    have "po = p1" "hw' = set_qp r q1 hb" using n e ann a by simp_all
    then show ?thesis using announce_answer[OF a ann] announce_keeps[OF a] P[of q1] F G hb A by simp
  next
    case idle
    have h: "po = None" "hw' = hb" using n e idle by auto
    have "peer_state r hb = rsb" by (simp add: peer_state_def hb_def)
    moreover have "?pl = 0 \<or> ?w = 0 \<or> ?w > m_availCreditBytes rsb" using idle(2) by (auto simp: word_gt_0)
    ultimately have "answer c qb (m_availCreditBytes rsb) po qb (m_availCreditBytes (peer_state r hw'))"
      using idle(1) pl by (simp add: answer_def Let_def h)
    then show ?thesis using F G hb A by (simp add: h)
  next
    case send
    define csn where "csn = (h_ccEnable c \<and> h_csnEnable c \<and>
      GetHostSchedCreditAvailableBytes env hb \<ge> m_senderBacklogThresholdBytes rsb)"
    obtain p1 q1 rs1 where d1: "send_data c csn (q_priorityFlowPending q0) ?pl qb rsb = (p1, q1, rs1)"
      by (metis prod.exhaust)
    have "\<not> (q_isScheduled qb \<and> \<not> q_sentAnnouncement qb)" using send(1) by blast
    then have "next_credit_packet env r ?pl hw = (Some p1, set_receiver (q_dip q1) rs1 (set_qp r q1 hb))"
      using send(2) unfolding e csn_def[symmetric] Let_def d1 prod.case by (simp only: if_False)
    then have d: "send_data c csn (q_priorityFlowPending q0) ?pl qb rsb = (p1, q1, rs1)"
      "po = Some p1" "hw' = set_receiver (q_dip q1) rs1 (set_qp r q1 hb)"
      using n d1 by simp_all
    have "?w \<le> m_availCreditBytes rsb" "?pl \<noteq> 0" using send(2) by auto
    note SA = send_answer[OF d(1)[unfolded pl] send(1) this(2,1)[unfolded pl]]
    have P1: "peer_state r hw' = rs1" "hw_qps hw' r = q1" "cfg hw' = c" by (simp_all add: d(3) peer_state_def hb)
    have "answer c q (m_availCreditBytes rs) po q1 (m_availCreditBytes rs1)"
      using SA F by (simp add: A d(2))
    then show ?thesis using SA F G unfolding P1 by simp
  qed
qed

definition budget :: "nat \<Rightarrow> RdmaHw \<Rightarrow> nat" where
  "budget r hw = unat (m_availCreditBytes (snd (classified r hw)))"

text \<open>One request, in terms of offsets and bytes.\<close>
lemma next_packet_step:
  assumes s: "sends_credit r hw" and n: "GetNxtPacket env r hw = Some (po, hw')"
    and m: "16 \<le> unat (h_mtu (cfg hw))" and E: "unat (m_size (hw_qps hw r)) < 2 ^ 32"
    and j: "unat (snd_nxt (hw_qps hw r)) = min (unat (m_size (hw_qps hw r))) (j * unat (h_mtu (cfg hw)))"
  defines "mtu \<equiv> unat (h_mtu (cfg hw))" and "sz \<equiv> unat (m_size (hw_qps hw r))"
    and "ann \<equiv> q_isScheduled (fst (classified r hw)) \<and> \<not> q_sentAnnouncement (fst (classified r hw))"
  shows "cfg hw' = cfg hw \<and> sends_credit r hw' \<and> m_size (hw_qps hw' r) = m_size (hw_qps hw r) \<and>
    classified r hw' = (hw_qps hw' r, peer_state r hw') \<and>
    q_isScheduled (hw_qps hw' r) = q_isScheduled (fst (classified r hw)) \<and>
    (if ann then snd_nxt (hw_qps hw' r) = snd_nxt (hw_qps hw r) \<and> budget r hw' = budget r hw \<and>
       (if sz = 0 then po = None \<and> \<not> q_sentAnnouncement (hw_qps hw' r)
        else (\<exists>p. po = Some p \<and> \<not> is_data p) \<and> q_sentAnnouncement (hw_qps hw' r))
     else (q_isScheduled (hw_qps hw' r) \<longrightarrow> q_sentAnnouncement (hw_qps hw' r)) \<and>
       (if j < chunks_of mtu sz \<and> payload_wire mtu (chunk_size mtu sz j) \<le> budget r hw
        then unat (snd_nxt (hw_qps hw' r)) = min sz (Suc j * mtu) \<and>
          budget r hw' + payload_wire mtu (chunk_size mtu sz j) = budget r hw \<and>
          (\<exists>p. po = Some p \<and> is_data p \<and> unat (payload_of (cfg hw) p) = chunk_size mtu sz j \<and>
               unat (seq (p_hdr p)) = j * mtu)
        else po = None \<and> snd_nxt (hw_qps hw' r) = snd_nxt (hw_qps hw r) \<and> budget r hw' = budget r hw))"
proof -
  define q0 where "q0 = hw_qps hw r"
  obtain q rs where cl: "classified r hw = (q, rs)" by fastforce
  let ?pl = "CbNextChunkPayloadBytes (snd_nxt q0) (m_size q0) (h_mtu (cfg hw))"
  have sk: "q_irn_sack q0 = []" "h_creditbouncer (cfg hw)" "q_enabled q0" using s by (simp_all add: sends_credit_def q0_def)
  have hs: "set_qp r q0 hw = hw" by (simp add: set_qp_def q0_def)
  have gl: "GetBytesLeft q0 = Some (if m_size q0 \<ge> snd_nxt q0 then m_size q0 - snd_nxt q0 else 0, q0)"
    using sk(1) by (simp add: GetBytesLeft_def skip_sacked_def)
  have nl: "\<not> ucast ?pl > (if m_size q0 \<ge> snd_nxt q0 then m_size q0 - snd_nxt q0 else 0)"
    using next_chunk_le[of "snd_nxt q0" "m_size q0" "h_mtu (cfg hw)"] by (simp add: not_less)
  have "next_credit_packet env r ?pl hw = (po, hw')"
    using n sk nl unfolding GetNxtPacket_def q0_def[symmetric] gl option.case prod.case Let_def hs by (simp add: hs)
  note A = next_credit_answer[OF this q0_def refl cl]
  have cl': "classified r hw' = (hw_qps hw' r, peer_state r hw')" using A by (simp add: classified_def Let_def)
  have pl: "unat ?pl = (if j < chunks_of mtu sz then chunk_size mtu sz j else 0)"
  proof -
    have "unat ?pl = min mtu (sz - min sz (j * mtu))"
      using j by (simp add: unat_CbNextChunkPayloadBytes mtu_def sz_def q0_def)
    moreover have "0 < mtu" using m by (simp add: mtu_def)
    ultimately show ?thesis using chunks_of_bound[of mtu j sz] by (auto simp: chunk_size_def min_def)
  qed
  have w: "unat (CbAddHeaderOverhead (ucast ?pl) (h_mtu (cfg hw)) True) = payload_wire mtu (unat ?pl)"
  proof -
    have "unat (ucast ?pl :: u64) = unat ?pl" by (simp add: unat_ucast_up)
    moreover have "unat ?pl < 2 ^ 57" using unat_lt_u32[of ?pl] by simp
    ultimately show ?thesis using unat_CbAddHeaderOverhead[of "h_mtu (cfg hw)" "ucast ?pl" True] m by (simp add: mtu_def)
  qed
  have pos: "0 < payload_wire mtu x" if "0 < x" for x
    using payload_wire_ge[of mtu x] m that by (simp add: mtu_def)
  have cs: "0 < chunk_size mtu sz j" if "j < chunks_of mtu sz" using chunk_size_pos[OF _ that] m by (simp add: mtu_def)
  have nz: "?pl = 0 \<longleftrightarrow> \<not> j < chunks_of mtu sz" using pl cs by (auto simp: word_unat_eq_iff split: if_splits)
  have mt: "min sz (Suc j * mtu) = j * mtu + chunk_size mtu sz j" "min sz (j * mtu) = j * mtu" "j * mtu < sz"
    if "j < chunks_of mtu sz"
  proof -
    have "0 < mtu" using m by (simp add: mtu_def)
    then show jl: "j * mtu < sz" using that chunks_of_bound[of mtu j sz] by simp
    then show "min sz (j * mtu) = j * mtu" by simp
    show "min sz (Suc j * mtu) = j * mtu + chunk_size mtu sz j" using jl by (auto simp: chunk_size_def min_def)
  qed
  have pw: "?pl = CbNextChunkPayloadBytes (snd_nxt q) (m_size q) (h_mtu (cfg hw))" using A by simp
  have bq: "budget r hw = unat (m_availCreditBytes rs)" "budget r hw' = unat (m_availCreditBytes (peer_state r hw'))"
    by (simp_all add: budget_def cl cl')
  have ann: "ann \<longleftrightarrow> q_isScheduled q \<and> \<not> q_sentAnnouncement q" by (simp add: ann_def cl)
  have z0: "m_size q = 0 \<longleftrightarrow> sz = 0" using A by (simp add: sz_def q0_def word_unat_eq_iff)
  have S: "sends_credit r hw'" using A sk by (simp add: sends_credit_def)
  let ?W = "CbAddHeaderOverhead (ucast ?pl) (h_mtu (cfg hw)) True"
  have ans: "answer (cfg hw) q (m_availCreditBytes rs) po (hw_qps hw' r) (m_availCreditBytes (peer_state r hw'))"
    using A by blast
  have go: "?pl \<noteq> 0 \<and> ?W \<le> m_availCreditBytes rs \<longleftrightarrow>
    j < chunks_of mtu sz \<and> payload_wire mtu (chunk_size mtu sz j) \<le> budget r hw"
    using nz w pl by (auto simp: word_le_nat_alt bq)
  have w0: "?W = 0 \<Longrightarrow> ?pl = 0" using w pos[of "unat ?pl"] by (auto simp: word_unat_eq_iff)
  note rest = cl cl' S A z0
  have base: "cfg hw' = cfg hw" "m_size (hw_qps hw' r) = m_size (hw_qps hw r)"
    "q_isScheduled (hw_qps hw' r) = q_isScheduled (fst (classified r hw))" "snd_nxt q = snd_nxt (hw_qps hw r)"
    using A by (simp_all add: cl q0_def)
  consider (a) "ann" "snd_nxt (hw_qps hw' r) = snd_nxt q" "m_availCreditBytes (peer_state r hw') = m_availCreditBytes rs"
      "if m_size q = 0 then po = None \<and> \<not> q_sentAnnouncement (hw_qps hw' r)
       else q_sentAnnouncement (hw_qps hw' r) \<and> (\<exists>p. po = Some p \<and> \<not> is_data p)"
    | (i) "\<not> ann" "po = None" "?pl = 0 \<or> ?W = 0 \<or> ?W > m_availCreditBytes rs" "snd_nxt (hw_qps hw' r) = snd_nxt q"
      "q_sentAnnouncement (hw_qps hw' r) = q_sentAnnouncement q" "m_availCreditBytes (peer_state r hw') = m_availCreditBytes rs"
    | (d) p where "\<not> ann" "?pl \<noteq> 0" "?W \<le> m_availCreditBytes rs" "po = Some p" "is_data p"
      "payload_of (cfg hw) p = ?pl" "seq (p_hdr p) = ucast (snd_nxt q)" "snd_nxt (hw_qps hw' r) = snd_nxt q + ucast ?pl"
      "q_sentAnnouncement (hw_qps hw' r)" "m_availCreditBytes (peer_state r hw') = m_availCreditBytes rs - ?W"
    using ans unfolding answer_def Let_def pw[symmetric] ann by blast
  then show ?thesis
  proof cases
    case a
    then show ?thesis using base S cl' z0 by (simp add: bq)
  next
    case i
    have ng: "\<not> (j < chunks_of mtu sz \<and> payload_wire mtu (chunk_size mtu sz j) \<le> budget r hw)"
      using go i(3) w0 by (auto simp: not_le)
    have "q_isScheduled (hw_qps hw' r) \<longrightarrow> q_sentAnnouncement (hw_qps hw' r)" using i(1,5) ann base(3) by (simp add: cl)
    then show ?thesis using base S cl' i(1,2,4,6) ng by (simp add: bq)
  next
    case d
    have g: "j < chunks_of mtu sz" "payload_wire mtu (chunk_size mtu sz j) \<le> budget r hw" using go d(2,3) by blast+
    have pl1: "unat ?pl = chunk_size mtu sz j" using pl g(1) by simp
    have "unat (snd_nxt (hw_qps hw r)) = j * mtu" using j mt(2)[OF g(1)] by (simp add: mtu_def sz_def)
    moreover have "j * mtu + chunk_size mtu sz j < 2 ^ 32" using mt(1)[OF g(1)] E by (simp add: sz_def)
    ultimately have n1: "unat (snd_nxt (hw_qps hw' r)) = min sz (Suc j * mtu)"
      and n2: "unat (seq (p_hdr p)) = j * mtu"
      using d(7,8) pl1 mt(1)[OF g(1)] base(4)
      by (simp_all add: unat_word_ariths unat_ucast_up unsigned_ucast_eq take_bit_nat_eq_self)
    have "budget r hw' + payload_wire mtu (chunk_size mtu sz j) = budget r hw"
      using g(2) w d(3,10) pl1 by (simp add: bq unat_sub)
    then show ?thesis using base S cl' d(1,4,5,6,9) g n1 n2 pl1 by simp
  qed
qed

section \<open>Any number of requests\<close>

text \<open>The packets a queue pair hands over, one request of the NIC after the other.\<close>
fun nic_asks :: "HostEnv list \<Rightarrow> nat \<Rightarrow> RdmaHw \<Rightarrow> (NsPacket list \<times> RdmaHw) option" where
  "nic_asks [] r hw = Some ([], hw)"
| "nic_asks (env # envs) r hw = (case GetNxtPacket env r hw of None \<Rightarrow> None
     | Some (po, hw') \<Rightarrow> map_option (\<lambda>(ps, hw''). ((case po of None \<Rightarrow> ps | Some p \<Rightarrow> p # ps), hw'')) (nic_asks envs r hw'))"

text \<open>Where a data packet starts and how many bytes it carries.\<close>
definition piece :: "RdmaConfig \<Rightarrow> NsPacket \<Rightarrow> nat \<times> nat" where
  "piece c p = (unat (seq (p_hdr p)), unat (payload_of c p))"

definition chunk_piece :: "nat \<Rightarrow> nat \<Rightarrow> nat \<Rightarrow> nat \<times> nat" where
  "chunk_piece m E k = (k * m, chunk_size m E k)"

text \<open>The wire bytes of the chunks from j up to n.\<close>
definition wire_between :: "nat \<Rightarrow> nat \<Rightarrow> nat \<Rightarrow> nat \<Rightarrow> nat" where
  "wire_between m E j n = (\<Sum>k\<in>{j..<n}. payload_wire m (chunk_size m E k))"

definition owes_announcement :: "nat \<Rightarrow> RdmaHw \<Rightarrow> bool" where
  "owes_announcement r hw \<longleftrightarrow> q_isScheduled (fst (classified r hw)) \<and> \<not> q_sentAnnouncement (fst (classified r hw))"

lemma wire_between_rec: "j < n \<Longrightarrow> wire_between m E j n = payload_wire m (chunk_size m E j) + wire_between m E (Suc j) n"
  by (simp add: wire_between_def sum.atLeast_Suc_lessThan)

lemma wire_between_self [simp]: "wire_between m E j j = 0"
  by (simp add: wire_between_def)

lemma GetNxtPacket_total: "sends_credit r hw \<Longrightarrow> \<exists>po hw'. GetNxtPacket env r hw = Some (po, hw')"
  by (simp add: sends_credit_def GetNxtPacket_def GetBytesLeft_def skip_sacked_def Let_def)

text \<open>A run of requests that starts at chunk j and gets to chunk n: the data packets are the
  chunks between, they are paid for, at most the owed announcement comes with them, and
  enough credit and requests bring the run to the end of the message.\<close>
definition sent_run ::
  "nat \<Rightarrow> RdmaConfig \<Rightarrow> nat \<Rightarrow> nat \<Rightarrow> nat \<Rightarrow> nat \<Rightarrow> RdmaHw \<Rightarrow> NsPacket list \<Rightarrow> RdmaHw \<Rightarrow> nat \<Rightarrow> bool" where
  "sent_run r c m E j asks hw ps hw' n \<longleftrightarrow> j \<le> n \<and> n \<le> chunks_of m E \<and>
    map (piece c) (filter is_data ps) = map (chunk_piece m E) [j..<n] \<and>
    unat (snd_nxt (hw_qps hw' r)) = min E (n * m) \<and> budget r hw' + wire_between m E j n = budget r hw \<and>
    length (filter (\<lambda>p. \<not> is_data p) ps) \<le> of_bool (owes_announcement r hw) \<and>
    (wire_between m E j (chunks_of m E) \<le> budget r hw \<and>
     chunks_of m E - j + of_bool (owes_announcement r hw) \<le> asks \<longrightarrow> n = chunks_of m E)"

lemma asks_total:
  assumes "sends_credit r hw" "16 \<le> unat (h_mtu (cfg hw))" "unat (m_size (hw_qps hw r)) < 2 ^ 32"
    "unat (snd_nxt (hw_qps hw r)) = min (unat (m_size (hw_qps hw r))) (j * unat (h_mtu (cfg hw)))"
    "j \<le> chunks_of (unat (h_mtu (cfg hw))) (unat (m_size (hw_qps hw r)))"
  defines "m \<equiv> unat (h_mtu (cfg hw))" and "E \<equiv> unat (m_size (hw_qps hw r))"
  shows "\<exists>ps hw' n. nic_asks envs r hw = Some (ps, hw') \<and>
    sent_run r (cfg hw) m E j (length envs) hw ps hw' n"
  using assms(1-5) unfolding m_def E_def
proof (induction envs arbitrary: hw j)
  case Nil
  then show ?case by (intro exI[of _ "[]"] exI[of _ hw] exI[of _ j]) (auto simp: sent_run_def)
next
  case (Cons env envs)
  let ?m = "unat (h_mtu (cfg hw))" and ?E = "unat (m_size (hw_qps hw r))"
  let ?N = "chunks_of ?m ?E"
  obtain po h where g: "GetNxtPacket env r hw = Some (po, h)" using GetNxtPacket_total[OF Cons.prems(1)] by blast
  note st = next_packet_step[OF Cons.prems(1) g Cons.prems(2,3,4)]
  have k: "cfg h = cfg hw" "m_size (hw_qps h r) = m_size (hw_qps hw r)" "sends_credit r h"
    and cl: "classified r h = (hw_qps h r, peer_state r h)"
    and sc: "q_isScheduled (hw_qps h r) = q_isScheduled (fst (classified r hw))" using st by blast+
  have ow: "owes_announcement r h \<longleftrightarrow> q_isScheduled (hw_qps h r) \<and> \<not> q_sentAnnouncement (hw_qps h r)"
    by (simp add: owes_announcement_def cl)
  note IH = Cons.IH[of h, unfolded k(1,2), OF k(3) Cons.prems(2,3)]
  consider (ann) "owes_announcement r hw" "snd_nxt (hw_qps h r) = snd_nxt (hw_qps hw r)" "budget r h = budget r hw"
      "if ?E = 0 then po = None else (\<exists>p. po = Some p \<and> \<not> is_data p) \<and> \<not> owes_announcement r h"
    | (data) p where "\<not> owes_announcement r hw" "\<not> owes_announcement r h" "j < ?N"
      "unat (snd_nxt (hw_qps h r)) = min ?E (Suc j * ?m)"
      "budget r h + payload_wire ?m (chunk_size ?m ?E j) = budget r hw"
      "po = Some p" "is_data p" "piece (cfg hw) p = chunk_piece ?m ?E j"
    | (idle) "\<not> owes_announcement r hw" "\<not> owes_announcement r h" "po = None"
      "\<not> (j < ?N \<and> payload_wire ?m (chunk_size ?m ?E j) \<le> budget r hw)"
      "snd_nxt (hw_qps h r) = snd_nxt (hw_qps hw r)" "budget r h = budget r hw"
  proof (cases "owes_announcement r hw")
    case True
    then show thesis using st ann unfolding owes_announcement_def[of r hw] ow by (auto split: if_splits)
  next
    case False
    then have no: "\<not> owes_announcement r h" using st unfolding owes_announcement_def[of r hw] ow by (auto split: if_splits)
    show thesis
    proof (cases "j < ?N \<and> payload_wire ?m (chunk_size ?m ?E j) \<le> budget r hw")
      case True
      then show thesis using st data False no unfolding owes_announcement_def[of r hw]
        by (auto simp: piece_def chunk_piece_def)
    next
      case g2: False
      then show thesis using st idle False no unfolding owes_announcement_def[of r hw] by (auto split: if_splits)
    qed
  qed
  then show ?case
  proof cases
    case ann
    note SN = ann(2)
    obtain ps hw' n where n: "nic_asks envs r h = Some (ps, hw')"
      "sent_run r (cfg hw) ?m ?E j (length envs) h ps hw' n"
      using IH[of j] Cons.prems(4,5) SN by auto
    have z: "?N = 0" if "?E = 0" using that Cons.prems(2) by (simp add: chunks_of_def)
    show ?thesis
    proof (cases "?E = 0")
      case True
      then have "nic_asks (env # envs) r hw = Some (ps, hw')" using n(1) ann(4) by (simp add: g)
      moreover have "sent_run r (cfg hw) ?m ?E j (length (env # envs)) hw ps hw' n"
        using n(2) z[OF True] ann(1,3) unfolding sent_run_def
        by (cases "owes_announcement r h") auto
      ultimately show ?thesis by blast
    next
      case False
      then obtain p where p: "po = Some p" "\<not> is_data p" "\<not> owes_announcement r h" using ann(4) by auto
      then have "nic_asks (env # envs) r hw = Some (p # ps, hw')" using n(1) by (simp add: g)
      moreover have "sent_run r (cfg hw) ?m ?E j (length (env # envs)) hw (p # ps) hw' n"
        using n(2) p(2,3) ann(1,3) unfolding sent_run_def by (simp split: if_splits)
      ultimately show ?thesis by blast
    qed
  next
    case data
    obtain ps hw' n where n: "nic_asks envs r h = Some (ps, hw')"
      "sent_run r (cfg hw) ?m ?E (Suc j) (length envs) h ps hw' n"
      using IH[of "Suc j"] data(3,4) by auto
    have u: "[j..<n] = j # [Suc j..<n]" using n(2) by (simp add: upt_rec sent_run_def)
    have w1: "wire_between ?m ?E j n = payload_wire ?m (chunk_size ?m ?E j) + wire_between ?m ?E (Suc j) n"
      using n(2) by (intro wire_between_rec) (simp add: sent_run_def)
    have w2: "wire_between ?m ?E j ?N = payload_wire ?m (chunk_size ?m ?E j) + wire_between ?m ?E (Suc j) ?N"
      using data(3) by (intro wire_between_rec)
    have fin: "n = ?N" if "wire_between ?m ?E j ?N \<le> budget r hw" "?N - j + of_bool (owes_announcement r hw) \<le> length (env # envs)"
    proof -
      have "wire_between ?m ?E (Suc j) ?N \<le> budget r h" using that(1) data(5) w2 by linarith
      moreover have "?N - Suc j + of_bool (owes_announcement r h) \<le> length envs" using that(2) data(1,2,3) by simp
      ultimately show ?thesis using n(2) unfolding sent_run_def by blast
    qed
    have "nic_asks (env # envs) r hw = Some (p # ps, hw')" using n(1) data(6) by (simp add: g)
    moreover have "sent_run r (cfg hw) ?m ?E j (length (env # envs)) hw (p # ps) hw' n"
      using n(2) data(1,2,5,7,8) u w1 fin unfolding sent_run_def by simp
    ultimately show ?thesis by blast
  next
    case idle
    note SN = idle(5)
    obtain ps hw' n where n: "nic_asks envs r h = Some (ps, hw')"
      "sent_run r (cfg hw) ?m ?E j (length envs) h ps hw' n"
      using IH[of j] Cons.prems(4,5) SN by auto
    have "n = ?N" if "wire_between ?m ?E j ?N \<le> budget r hw"
    proof (cases "j < ?N")
      case True
      then show ?thesis using idle(4) that wire_between_rec[OF True, of ?m ?E] by simp
    next
      case False
      then show ?thesis using n(2) Cons.prems(5) by (simp add: sent_run_def)
    qed
    moreover have "nic_asks (env # envs) r hw = Some (ps, hw')" using n(1) idle(3) by (simp add: g)
    ultimately show ?thesis using n(2) idle(1,2,6) unfolding sent_run_def by (intro exI conjI) auto
  qed
qed

text \<open>All chunks together cost what the whole message costs.\<close>
lemma wire_between_prefix: "0 < m \<Longrightarrow> n * m \<le> E \<Longrightarrow> wire_between m E 0 n = n * (m + 68)"
proof (induction n)
  case (Suc n)
  have "chunk_size m E n = m" using Suc.prems by (simp add: chunk_size_def)
  moreover have "payload_wire m m = m + 68" using Suc.prems(1) by (simp add: payload_wire_def chunk_wire_def)
  ultimately show ?case using Suc by (simp add: wire_between_def algebra_simps)
qed (simp add: wire_between_def)

lemma wire_between_total:
  assumes "0 < m"
  shows "wire_between m E 0 (chunks_of m E) = payload_wire m E"
proof -
  have p: "wire_between m E 0 (E div m) = (E div m) * (m + 68)"
    using assms by (intro wire_between_prefix) auto
  have N: "chunks_of m E = E div m + (if E mod m = 0 then 0 else 1)"
  proof -
    have "E + m - 1 = (E mod m + m - 1) + (E div m) * m" using assms div_mult_mod_eq[of E m] by linarith
    then have "chunks_of m E = E div m + (E mod m + m - 1) div m"
      using assms by (simp only: chunks_of_def div_mult_self1)
    moreover have "(E mod m + m - 1) div m = (if E mod m = 0 then 0 else 1)"
      using assms mod_less_divisor[OF assms, of E] by (auto simp: div_if)
    ultimately show ?thesis by simp
  qed
  show ?thesis
  proof (cases "E mod m = 0")
    case True
    then show ?thesis using p N by (simp add: payload_wire_def chunk_wire_def)
  next
    case False
    have "chunk_size m E (E div m) = E mod m"
      using assms by (simp add: chunk_size_def minus_div_mult_eq_mod min_def) (meson linorder_not_le mod_less_divisor nat_less_le)
    moreover have "payload_wire m (E mod m) = chunk_wire (E mod m)" using assms by (simp add: payload_wire_def)
    ultimately show ?thesis using p N False by (simp add: wire_between_def payload_wire_def)
  qed
qed

section \<open>The message, in order and paid for\<close>

text \<open>C3: Whatever the NIC asks and whenever, a DPDQ queue pair that starts at the beginning of
  its message hands out the chunks of the message in order, none twice and none left out,
  each carrying its offset and its size; the credit it holds falls by the wire cost of
  exactly these chunks; and besides them it sends at most one packet, its announcement.\<close>
theorem sender_sends_chunks_in_order:
  assumes "sends_credit r hw" "16 \<le> unat (h_mtu (cfg hw))" "unat (m_size (hw_qps hw r)) < 2 ^ 32"
    "snd_nxt (hw_qps hw r) = 0" "nic_asks envs r hw = Some (ps, hw')"
  defines "m \<equiv> unat (h_mtu (cfg hw))" and "E \<equiv> unat (m_size (hw_qps hw r))"
  shows "\<exists>n \<le> chunks_of m E. map (piece (cfg hw)) (filter is_data ps) = map (chunk_piece m E) [0..<n] \<and>
    unat (snd_nxt (hw_qps hw' r)) = min E (n * m) \<and> budget r hw' + wire_between m E 0 n = budget r hw \<and>
    length (filter (\<lambda>p. \<not> is_data p) ps) \<le> 1"
proof -
  obtain n where n: "sent_run r (cfg hw) m E 0 (length envs) hw ps hw' n"
    using asks_total[of r hw 0 envs] assms by auto
  have "of_bool (owes_announcement r hw) \<le> (1 :: nat)" by simp
  with n show ?thesis unfolding sent_run_def by (intro exI[of _ n]) linarith
qed

text \<open>C9: Sending ends: a queue pair whose credit covers the wire cost of its message has
  handed over the whole message, every chunk once, after at most one request of the NIC
  per chunk and one for the announcement, and it never hands over more packets than that
  however long the NIC keeps asking.\<close>
theorem sending_completes:
  assumes "sends_credit r hw" "16 \<le> unat (h_mtu (cfg hw))" "unat (m_size (hw_qps hw r)) < 2 ^ 32"
    "snd_nxt (hw_qps hw r) = 0"
    "payload_wire (unat (h_mtu (cfg hw))) (unat (m_size (hw_qps hw r))) \<le> budget r hw"
    "chunks_of (unat (h_mtu (cfg hw))) (unat (m_size (hw_qps hw r))) + 1 \<le> length envs"
  defines "m \<equiv> unat (h_mtu (cfg hw))" and "E \<equiv> unat (m_size (hw_qps hw r))"
  shows "\<exists>ps hw'. nic_asks envs r hw = Some (ps, hw') \<and> snd_nxt (hw_qps hw' r) = m_size (hw_qps hw r) \<and>
    map (piece (cfg hw)) (filter is_data ps) = map (chunk_piece m E) [0..<chunks_of m E] \<and>
    length ps \<le> chunks_of m E + 1"
proof -
  have m0: "0 < m" using assms(2) by (simp add: m_def)
  obtain ps hw' n where a: "nic_asks envs r hw = Some (ps, hw')" "sent_run r (cfg hw) m E 0 (length envs) hw ps hw' n"
    using asks_total[of r hw 0 envs] assms(1-4) by (auto simp: m_def E_def)
  have "n = chunks_of m E"
    using a(2) assms(5,6) wire_between_total[OF m0, of E] unfolding sent_run_def m_def E_def
    by (cases "owes_announcement r hw") auto
  then have f: "map (piece (cfg hw)) (filter is_data ps) = map (chunk_piece m E) [0..<chunks_of m E]"
    "unat (snd_nxt (hw_qps hw' r)) = min E (chunks_of m E * m)"
    "length (filter (\<lambda>p. \<not> is_data p) ps) \<le> 1"
    using a(2) unfolding sent_run_def by (cases "owes_announcement r hw"; auto)+
  have "\<not> chunks_of m E * m < E" using chunks_of_bound[OF m0, of "chunks_of m E" E] by simp
  then have "snd_nxt (hw_qps hw' r) = m_size (hw_qps hw r)" using f(2) by (simp add: E_def word_unat_eq_iff)
  moreover have "length ps \<le> chunks_of m E + 1"
  proof -
    have "length (filter is_data ps) = chunks_of m E" using arg_cong[OF f(1), of length] by simp
    then show ?thesis using f(3) sum_length_filter_compl[of is_data ps] by simp
  qed
  ultimately show ?thesis using a(1) f(1) by blast
qed

section \<open>A sender at work\<close>

definition sending_host :: RdmaHw where
  "sending_host = the (AddQueuePair 2500 3 1 2 10 100 0 0 7 (hw_AddTableEntry 2 0 (RdmaHw_initial cfg1 (\<lambda>_. 0))))"

lemma one_route: "hw_rtTable h (q_dip q) = [n] \<Longrightarrow> GetNicIdxOfQp q h = Some n"
  by (simp add: GetNicIdxOfQp_def pick_nic_def)

lemma sending_host_sel:
  "cfg sending_host = cfg1" "m_size (hw_qps sending_host 0) = 2500" "snd_nxt (hw_qps sending_host 0) = 0"
  "q_enabled (hw_qps sending_host 0)" "q_irn_sack (hw_qps sending_host 0) = []"
  "q_dip (hw_qps sending_host 0) = 2" "\<not> q_usnsolCheckDone (hw_qps sending_host 0)"
  "\<exists>rs. m_receiverStates sending_host 2 = Some rs \<and> m_availCreditBytes rs = 0 \<and> m_unsolicitedThreshBytes rs = 100000"
  "GetQp 10 3 sending_host = Some 0" "hw_rtTable sending_host 2 = [0]"
proof -
  define h0 where "h0 = hw_AddTableEntry 2 0 (RdmaHw_initial cfg1 (\<lambda>_. 0))"
  have h0: "cfg h0 = cfg1" "hw_rtTable h0 2 = [0]" "m_receiverStates h0 = Map.empty" "hw_nextQp h0 = 0"
    by (simp_all add: h0_def hw_AddTableEntry_def RdmaHw_initial_def Let_def)
  have "\<exists>h rs. AddQueuePair 2500 3 1 2 10 100 0 0 7 h0 = Some h \<and> cfg h = cfg1 \<and> m_size (hw_qps h 0) = 2500 \<and>
    snd_nxt (hw_qps h 0) = 0 \<and> q_enabled (hw_qps h 0) \<and> q_irn_sack (hw_qps h 0) = [] \<and> q_dip (hw_qps h 0) = 2 \<and>
    \<not> q_usnsolCheckDone (hw_qps h 0) \<and> GetQp 10 3 h = Some 0 \<and> hw_rtTable h 2 = [0] \<and>
    m_receiverStates h 2 = Some rs \<and> m_availCreditBytes rs = 0 \<and> m_unsolicitedThreshBytes rs = 100000"
    by (simp add: AddQueuePair_def Let_def GetOrCreateReceiverState_def ReceiverState_default_def h0 cfg1_sel one_route
        RdmaQueuePair_ctor_def GetQp_def) (simp add: cfg1_def)
  then obtain h where "AddQueuePair 2500 3 1 2 10 100 0 0 7 h0 = Some h" and H: "cfg h = cfg1 \<and> m_size (hw_qps h 0) = 2500 \<and>
    snd_nxt (hw_qps h 0) = 0 \<and> q_enabled (hw_qps h 0) \<and> q_irn_sack (hw_qps h 0) = [] \<and> q_dip (hw_qps h 0) = 2 \<and>
    \<not> q_usnsolCheckDone (hw_qps h 0) \<and> GetQp 10 3 h = Some 0 \<and> hw_rtTable h 2 = [0] \<and>
    (\<exists>rs. m_receiverStates h 2 = Some rs \<and> m_availCreditBytes rs = 0 \<and> m_unsolicitedThreshBytes rs = 100000)"
    by blast
  then have "sending_host = h" by (simp add: sending_host_def h0_def)
  then show "cfg sending_host = cfg1" "m_size (hw_qps sending_host 0) = 2500" "snd_nxt (hw_qps sending_host 0) = 0"
    "q_enabled (hw_qps sending_host 0)" "q_irn_sack (hw_qps sending_host 0) = []"
    "q_dip (hw_qps sending_host 0) = 2" "\<not> q_usnsolCheckDone (hw_qps sending_host 0)"
    "\<exists>rs. m_receiverStates sending_host 2 = Some rs \<and> m_availCreditBytes rs = 0 \<and> m_unsolicitedThreshBytes rs = 100000"
    "GetQp 10 3 sending_host = Some 0" "hw_rtTable sending_host 2 = [0]"
    using H by blast+
qed

lemma sending_host_ready: "sends_credit 0 sending_host" "16 \<le> unat (h_mtu (cfg sending_host))"
  "unat (m_size (hw_qps sending_host 0)) < 2 ^ 32"
  by (simp_all add: sends_credit_def sending_host_sel cfg1_sel)

lemma sending_host_budget: "budget 0 sending_host = 2704"
proof -
  obtain rs where rs: "m_receiverStates sending_host 2 = Some rs" "m_availCreditBytes rs = 0"
    "m_unsolicitedThreshBytes rs = 100000" using sending_host_sel(8) by blast
  have w: "CbAddHeaderOverhead 2500 1000 b = 2704" for b
    by (simp add: CbAddHeaderOverhead_def Let_def cb_consts)
  have w1: "CbAddHeaderOverhead 1000 1000 True = 1068" by (simp add: CbAddHeaderOverhead_def Let_def cb_consts)
  have a: "CbAlignChunkPrefixBytes 2500 2500 1000 = 2500" by (simp add: CbAlignChunkPrefixBytes_def Let_def)
  have "self_allocation cfg1 2500 rs = 2500"
    using rs(2,3) by (simp add: self_allocation_def Let_def cfg1_sel w w1 a) (simp add: cfg1_def)
  then show ?thesis
    by (simp add: budget_def classified_def sending_host_sel peer_state_def rs classify_message_def Let_def cfg1_sel w)
qed

theorem sender_sends_chunks_in_order_witness:
  "\<exists>ps hw'. nic_asks [env1, env1] 0 sending_host = Some (ps, hw') \<and>
    (\<exists>n \<le> chunks_of 1000 2500. map (piece cfg1) (filter is_data ps) = map (chunk_piece 1000 2500) [0..<n])"
proof -
  obtain ps hw' where a: "nic_asks [env1, env1] 0 sending_host = Some (ps, hw')"
    using asks_total[OF sending_host_ready, of 0 "[env1, env1]"] sending_host_sel(3) by auto
  show ?thesis using sender_sends_chunks_in_order[OF sending_host_ready sending_host_sel(3) a] a
    by (auto simp: sending_host_sel cfg1_sel)
qed

theorem sending_completes_witness:
  "\<exists>ps hw'. nic_asks [env1, env1, env1, env1] 0 sending_host = Some (ps, hw') \<and>
    snd_nxt (hw_qps hw' 0) = 2500 \<and> map (piece cfg1) (filter is_data ps) = [(0, 1000), (1000, 1000), (2000, 500)]"
proof -
  have m: "unat (h_mtu cfg1) = 1000" "unat (m_size (hw_qps sending_host 0)) = 2500"
    by (simp_all add: sending_host_sel cfg1_sel)
  have b: "payload_wire (unat (h_mtu (cfg sending_host))) (unat (m_size (hw_qps sending_host 0))) \<le> budget 0 sending_host"
    by (simp add: sending_host_sel(1) m sending_host_budget payload_wire_def chunk_wire_def)
  have l: "chunks_of (unat (h_mtu (cfg sending_host))) (unat (m_size (hw_qps sending_host 0))) + 1
      \<le> length [env1, env1, env1, env1]"
    by (simp add: sending_host_sel(1) m chunks_of_def)
  obtain ps hw' where r: "nic_asks [env1, env1, env1, env1] 0 sending_host = Some (ps, hw')"
    "snd_nxt (hw_qps hw' 0) = m_size (hw_qps sending_host 0)"
    "map (piece cfg1) (filter is_data ps) = map (chunk_piece 1000 2500) [0..<chunks_of 1000 2500]"
    using sending_completes[OF sending_host_ready sending_host_sel(3) b l] unfolding sending_host_sel(1) m by blast
  have "map (chunk_piece 1000 2500) [0..<chunks_of 1000 2500] = [(0, 1000), (1000, 1000), (2000, 500)]"
    by (simp add: chunks_of_def chunk_piece_def chunk_size_def upt_rec)
  then show ?thesis using r unfolding sending_host_sel(2) by metis
qed

end
