(* ===== verification/RdmaAnswer.thy ===== *)
theory RdmaAnswer
  imports RdmaSending RdmaResend
begin

text \<open>
  The answer of a DPDQ sender to a request for lost chunks (the RESEND branch of
  \<^verbatim>\<open>RdmaHw::ReceiveCreditBouncer\<close> in \<^verbatim>\<open>rdma-hw.cc\<close>): exactly
  the chunks asked for that it has sent before, in order, each once.
\<close>

section \<open>The loop over the chunks asked for\<close>

text \<open>A chunk that exists and has been sent.\<close>
definition resendable :: "nat \<Rightarrow> nat \<Rightarrow> nat \<Rightarrow> nat \<Rightarrow> bool" where
  "resendable m E sent k \<longleftrightarrow> k < chunks_of m E \<and> k * m + chunk_size m E k \<le> sent"

lemma resent_packet:
  "BuildCreditBouncerDataPacket c q pl n cls csn prio = (p, q') \<Longrightarrow>
   piece c p = (unat n, unat pl) \<and> is_data p \<and> m_size q' = m_size q \<and> snd_nxt q' = snd_nxt q"
  by (auto simp: BuildCreditBouncerDataPacket_def piece_def data_packet_sel)

lemma resend_chunks_exact:
  assumes "0 < unat (h_mtu c)" "unat (m_size q) < 2 ^ 32" "unat i + n < 2 ^ 32" "resend_chunks c n start i nic q = (ps, q')"
  defines "m \<equiv> unat (h_mtu c)" and "E \<equiv> unat (m_size q)"
  shows "map (piece c) ps = map (chunk_piece m E)
      (filter (resendable m E (unat (snd_nxt q))) [unat start + unat i..<unat start + unat i + n]) \<and>
    (\<forall>p\<in>set ps. is_data p)"
  using assms(2-4) unfolding m_def E_def
proof (induction n arbitrary: i q ps q')
  case 0
  then show ?case by simp
next
  case (Suc n)
  let ?m = "unat (h_mtu c)" and ?E = "unat (m_size q)" and ?k = "unat start + unat i"
  let ?ok = "resendable ?m ?E (unat (snd_nxt q))"
  have none: "filter ?ok [?k..<?k + Suc n] = []" if "?E \<le> ?k * ?m"
  proof -
    have "\<not> ?ok j" if "?k \<le> j" for j
    proof -
      have "?E \<le> j * ?m" using \<open>?E \<le> ?k * ?m\<close> mult_le_mono1[OF that, of ?m] by linarith
      then show ?thesis using chunks_of_bound[OF assms(1), of j ?E] by (simp add: resendable_def)
    qed
    then show ?thesis by (auto simp: filter_empty_conv)
  qed
  show ?case
  proof (cases "?k < 2 ^ 32")
    case False
    have "?k \<le> ?k * ?m" using assms(1) by simp
    then have "?E \<le> ?k * ?m" using False Suc.prems(1) by linarith
    moreover have "start + i < start"
    proof -
      have "unat (start + i) = ?k - 2 ^ 32" using False unat_lt_u32[of start] unat_lt_u32[of i]
        by (simp add: unat_word_ariths mod_if le_mod_geq)
      then show ?thesis using unat_lt_u32[of i] False by (simp add: word_less_nat_alt)
    qed
    then have "ps = []" using Suc.prems(3) by (simp add: Let_def)
    ultimately show ?thesis using none by simp
  next
    case True
    define idx where "idx = start + i"
    have idx: "unat idx = ?k" using True by (simp add: idx_def unat_add_lt)
    define off :: u64 where "off = ucast idx * ucast (h_mtu c)"
    have kb: "?k * ?m < 2 ^ 64"
    proof -
      have "?k * ?m < 2 ^ 32 * 2 ^ 32" using True unat_lt_u32[of "h_mtu c"] by (intro mult_strict_mono) auto
      then show ?thesis by simp
    qed
    have off: "unat off = ?k * ?m" using kb by (simp add: off_def unat_word_ariths unat_ucast_up idx)
    have nw: "\<not> idx < start" using idx by (simp add: word_less_nat_alt)
    show ?thesis
    proof (cases "off \<ge> m_size q")
      case True
      then have "ps = []" using Suc.prems(3) nw by (simp add: Let_def idx_def[symmetric] off_def[symmetric])
      then show ?thesis using none True off by (simp add: word_le_nat_alt)
    next
      case False
      have kN: "?k < chunks_of ?m ?E" using False off chunks_of_bound[OF assms(1), of ?k ?E]
        by (simp add: word_le_nat_alt not_le)
      define pl where "pl = CbNextChunkPayloadBytes off (m_size q) (h_mtu c)"
      have pl: "unat pl = chunk_size ?m ?E ?k" using off by (simp add: pl_def unat_CbNextChunkPayloadBytes chunk_size_def)
      have top: "?k * ?m + chunk_size ?m ?E ?k \<le> ?E" using kN chunks_of_bound[OF assms(1), of ?k ?E]
        by (auto simp: chunk_size_def)
      have nz: "pl \<noteq> 0" using pl chunk_size_pos[OF assms(1) kN] by (metis less_not_refl unat_0)
      have stop: "unat (off + ucast pl) = ?k * ?m + chunk_size ?m ?E ?k"
        using off pl top Suc.prems(1) by (simp add: unat_word_ariths unat_ucast_up)
      have i1: "unat (i + 1) = Suc (unat i)" using Suc.prems(2) by (simp add: unat_add_lt)
      have u: "[?k..<?k + Suc n] = ?k # [Suc ?k..<Suc ?k + n]" by (simp add: upt_rec)
      have IH: "map (piece c) ps1 = map (chunk_piece ?m ?E) (filter ?ok [Suc ?k..<Suc ?k + n]) \<and> (\<forall>p\<in>set ps1. is_data p)"
        if "resend_chunks c n start (i + 1) nic q1 = (ps1, q2)" "m_size q1 = m_size q" "snd_nxt q1 = snd_nxt q" for q1 q2 ps1
        using Suc.IH[of q1 "i + 1" ps1 q2] that Suc.prems(1,2) by (simp add: i1)
      show ?thesis
      proof (cases "off + ucast pl > snd_nxt q")
        case True
        then have "resend_chunks c n start (i + 1) nic q = (ps, q')" using Suc.prems(3) nw False
          by (simp add: Let_def idx_def[symmetric] off_def[symmetric] pl_def[symmetric])
        moreover have "\<not> ?ok ?k" using True stop by (simp add: resendable_def word_less_nat_alt)
        ultimately show ?thesis using IH unfolding u by (simp del: upt_Suc)
      next
        case ok: False
        obtain p q1 where p: "BuildCreditBouncerDataPacket c q pl (ucast off) (CbDataClassForOffset q off) False False = (p, q1)"
          by fastforce
        obtain ps1 q2 where r: "resend_chunks c n start (i + 1) nic q1 = (ps1, q2)" by fastforce
        have ps: "ps = p # ps1" using Suc.prems(3) nw False ok nz p r
          by (simp add: Let_def idx_def[symmetric] off_def[symmetric] pl_def[symmetric])
        note P = resent_packet[OF p]
        have "unat (ucast off :: u32) = ?k * ?m" using off top Suc.prems(1)
          by (simp add: unsigned_ucast_eq take_bit_nat_eq_self)
        then have "piece c p = chunk_piece ?m ?E ?k" using P pl by (simp add: chunk_piece_def)
        moreover have "?ok ?k" using ok stop kN by (simp add: resendable_def word_less_nat_alt)
        ultimately show ?thesis using IH[OF r] P unfolding ps u by (simp del: upt_Suc)
      qed
    qed
  qed
qed

lemma emitted_all: "hw_out (fold (\<lambda>p hw. hw_emit (HwHighPrio nic p) hw) ps hw) = hw_out hw @ map (HwHighPrio nic) ps"
  by (induction ps arbitrary: hw) auto

section \<open>The answer\<close>

text \<open>C12: a sender answers a request for the chunks start to start + count - 1 of a message with
  exactly those of them that exist and that it has sent before, in order, each once, with the
  offset and the size they had, and then starts its NIC if there was any; chunks it has not
  sent yet are left to be sent in turn, and a request that runs past the end of the message or
  of the 32-bit index stops there.\<close>
theorem resend_answered_exactly:
  assumes "GetQp (dport ch) (pg ch) hw = Some r" "q_enabled (hw_qps hw r)" "h_mtu (cfg hw) \<noteq> 0"
    "unat (m_size (hw_qps hw r)) < 2 ^ 32" "receive_resend ch t hw = Some hw'"
  defines "m \<equiv> unat (h_mtu (cfg hw))" and "E \<equiv> unat (m_size (hw_qps hw r))"
    and "sent \<equiv> unat (snd_nxt (hw_qps hw r))"
  shows "\<exists>nic ps. hw_out hw' = hw_out hw @ map (HwHighPrio nic) ps @ (if ps = [] then [] else [HwTrigger nic]) \<and>
    map (piece (cfg hw)) ps = map (chunk_piece m E) (filter (resendable m E sent)
      [unat (m_resendStartIdx t)..<unat (m_resendStartIdx t) + unat (m_resendNumChunks t)])"
proof -
  obtain nic where nic: "GetNicIdxOfQp (hw_qps hw r) hw = Some nic"
    using assms(1-3,5) by (auto simp: receive_resend_def Let_def split: option.splits)
  obtain ps q where c: "resend_chunks (cfg hw) (unat (m_resendNumChunks t)) (m_resendStartIdx t) 0 nic (hw_qps hw r) = (ps, q)"
    by fastforce
  have "hw' = (let h = fold (\<lambda>p hw. hw_emit (HwHighPrio nic p) hw) ps (set_qp r q hw)
      in if ps \<noteq> [] then hw_emit (HwTrigger nic) h else h)"
    using assms(1-3,5) nic c by (simp add: receive_resend_def Let_def)
  then have "hw_out hw' = hw_out hw @ map (HwHighPrio nic) ps @ (if ps = [] then [] else [HwTrigger nic])"
    by (simp add: Let_def emitted_all)
  moreover have "0 < unat (h_mtu (cfg hw))" using assms(3) by (simp add: unat_gt_0)
  then have "map (piece (cfg hw)) ps = map (chunk_piece m E) (filter (resendable m E sent)
      [unat (m_resendStartIdx t)..<unat (m_resendStartIdx t) + unat (m_resendNumChunks t)])"
    using resend_chunks_exact[OF _ assms(4) _ c] unat_lt_u32[of "m_resendNumChunks t"]
    by (simp add: m_def E_def sent_def)
  ultimately show ?thesis by blast
qed

definition half_sent :: RdmaHw where
  "half_sent = set_qp 0 ((hw_qps sending_host 0)\<lparr>snd_nxt := 2000\<rparr>) sending_host"

definition resend_header :: CustomHeader where
  "resend_header = \<lparr>l3Prot = RDMA_L3_PROT_CREDITBOUNCER, sip = 2, dip = 1, sport = 100, dport = 10, pg = 3, seq = 0\<rparr>"

text \<open>Two of the three chunks are sent; of the chunks 1 to 3 asked for only chunk 1 goes out again.\<close>
theorem resend_answered_exactly_witness:
  "\<exists>hw' nic ps. receive_resend resend_header (CreditBouncerTag_ctor CB_MSG_RESEND 0 0 False False CB_DATA_CLASS_NONE
      0 0 False 0 1 3) half_sent = Some hw' \<and>
    hw_out hw' = hw_out half_sent @ map (HwHighPrio nic) ps @ [HwTrigger nic] \<and> map (piece cfg1) ps = [(1000, 1000)]"
proof -
  let ?t = "CreditBouncerTag_ctor CB_MSG_RESEND 0 0 False False CB_DATA_CLASS_NONE 0 0 False 0 1 3"
  let ?q = "(hw_qps sending_host 0)\<lparr>snd_nxt := 2000\<rparr>"
  have h: "hw_qps half_sent 0 = ?q" "cfg half_sent = cfg1" "hw_rtTable half_sent 2 = [0]"
    by (simp_all add: half_sent_def sending_host_sel)
  have g: "GetQp (dport resend_header) (pg resend_header) half_sent = Some 0"
    using sending_host_sel(9) by (simp add: resend_header_def half_sent_def GetQp_def)
  have n: "GetNicIdxOfQp ?q half_sent = Some 0" using h(3) by (intro one_route) (simp add: sending_host_sel)
  have "\<exists>hw'. receive_resend resend_header ?t half_sent = Some hw'"
    using g n by (simp add: receive_resend_def h sending_host_sel cfg1_sel Let_def case_prod_unfold)
  then obtain hw' where r: "receive_resend resend_header ?t half_sent = Some hw'" by blast
  have w: "unat (h_mtu cfg1) = 1000" "unat (m_size (hw_qps half_sent 0)) = 2500"
    "unat (snd_nxt (hw_qps half_sent 0)) = 2000" "unat (m_resendStartIdx ?t) = 1" "unat (m_resendNumChunks ?t) = 3"
    by (simp_all add: h cfg1_sel sending_host_sel CreditBouncerTag_ctor_def)
  have f: "filter (resendable 1000 2500 2000) [1..<1 + 3] = [1]"
    by (simp add: upt_rec resendable_def chunks_of_def chunk_size_def)
  have a: "q_enabled (hw_qps half_sent 0)" "h_mtu (cfg half_sent) \<noteq> 0" "unat (m_size (hw_qps half_sent 0)) < 2 ^ 32"
    by (simp_all add: h sending_host_sel cfg1_sel)
  obtain nic ps where p: "hw_out hw' = hw_out half_sent @ map (HwHighPrio nic) ps @ (if ps = [] then [] else [HwTrigger nic])"
    "map (piece cfg1) ps = map (chunk_piece 1000 2500) [1]"
    using resend_answered_exactly[OF g a r] unfolding h(2) w f by blast
  have "ps \<noteq> []" using p(2) by auto
  then show ?thesis using r p by (intro exI[of _ hw'] exI[of _ nic] exI[of _ ps]) (simp add: chunk_piece_def chunk_size_def)
qed

end
