(* ===== verification/RdmaSeq.thy ===== *)
theory RdmaSeq
  imports RdmaMessages
begin

text \<open>
  The sequence check of a receiving queue pair without credit
  (\<^verbatim>\<open>RdmaHw::ReceiverCheckSeq\<close> in
  \<^verbatim>\<open>src/point-to-point/model/rdma-hw.cc\<close>): go-back-N, where only the next
  expected bytes are taken, and IRN, where later blocks are kept in the table of
  selective acknowledgements.  Over any order of arrivals of the chunks of a message,
  duplicates included, the IRN receiver's expected sequence number and table stand for
  exactly the bytes received, and the go-back-N receiver takes the chunks in order.
\<close>

section \<open>The check\<close>

text \<open>The code compares the signed milestone as unsigned; it is kept unsigned.\<close>
definition raise_milestone :: "u32 \<Rightarrow> RdmaRxQueuePair \<Rightarrow> RdmaRxQueuePair" where
  "raise_milestone stop q = (if m_milestone_rx q < stop then q\<lparr>m_milestone_rx := stop\<rparr> else q)"

definition skip_front :: "block list \<Rightarrow> u32 \<Rightarrow> u32" where
  "skip_front table nxt = (case peekFrontBlock table of None \<Rightarrow> nxt
     | Some (sack_seq, sack_len) \<Rightarrow> if sack_seq \<le> nxt then nxt + (sack_len - (nxt - sack_seq)) else nxt)"

definition irn_code :: "block list \<Rightarrow> nat" where
  "irn_code table = (if IsEmpty table then 6 else 2)"

definition irn_in_order :: "u32 \<Rightarrow> u32 \<Rightarrow> RdmaRxQueuePair \<Rightarrow> (nat \<times> RdmaRxQueuePair) option" where
  "irn_in_order number sz q =
    (let expected = ReceiverNextExpectedSeq q;
         q = raise_milestone (number + sz) q;
         nxt = skip_front (m_irn_sack q) (expected + (sz - (expected - number)))
     in map_option (\<lambda>(progress, table). (irn_code table, q\<lparr>ReceiverNextExpectedSeq := nxt, m_irn_sack := table\<rparr>))
          (discardUpTo nxt (m_irn_sack q)))"

text \<open>The assertion that nothing below the expected number was added is the last test.\<close>
definition irn_out_of_order ::
  "RdmaConfig \<Rightarrow> int \<Rightarrow> u32 \<Rightarrow> u32 \<Rightarrow> RdmaRxQueuePair \<Rightarrow> (nat \<times> RdmaRxQueuePair) option" where
  "irn_out_of_order c now number sz q =
    (let expected = ReceiverNextExpectedSeq q;
         q = raise_milestone (number + sz) q
     in if blockExists number sz (m_irn_sack q) \<and> now < m_nackTimer q then Some (4, q)
        else case sack number sz (m_irn_sack q) of None \<Rightarrow> None
           | Some table \<Rightarrow> (case discardUpTo expected table of None \<Rightarrow> None
               | Some (n, table) \<Rightarrow> if n \<noteq> 0 then None
                   else Some (2, q\<lparr>m_nackTimer := now + h_nackIntervalNs c, m_irn_sack := table\<rparr>)))"

text \<open>None is a remainder by a chunk size of 0.\<close>
definition gbn_in_order :: "RdmaConfig \<Rightarrow> u32 \<Rightarrow> u32 \<Rightarrow> RdmaRxQueuePair \<Rightarrow> (nat \<times> RdmaRxQueuePair) option" where
  "gbn_in_order c number sz q =
    (let expected = ReceiverNextExpectedSeq q;
         nxt = expected + (sz - (expected - number));
         q = q\<lparr>ReceiverNextExpectedSeq := nxt\<rparr>
     in if nxt \<ge> m_milestone_rx q then Some (1, q\<lparr>m_milestone_rx := m_milestone_rx q + h_ack_interval c\<rparr>)
        else if h_chunk c = 0 then None
        else if nxt mod h_chunk c = 0 then Some (1, q) else Some (5, q))"

definition gbn_out_of_order :: "RdmaConfig \<Rightarrow> int \<Rightarrow> RdmaRxQueuePair \<Rightarrow> (nat \<times> RdmaRxQueuePair) option" where
  "gbn_out_of_order c now q =
    (let expected = ReceiverNextExpectedSeq q in
     if now \<ge> m_nackTimer q \<or> m_lastNACK q \<noteq> expected
     then let q = q\<lparr>m_nackTimer := now + h_nackIntervalNs c, m_lastNACK := expected\<rparr> in
          if \<not> h_backto0 c then Some (2, q)
          else if h_chunk c = 0 then None
          else Some (2, q\<lparr>ReceiverNextExpectedSeq := expected div h_chunk c * h_chunk c\<rparr>)
     else Some (4, q))"

definition ReceiverCheckSeq ::
  "RdmaConfig \<Rightarrow> int \<Rightarrow> u32 \<Rightarrow> u32 \<Rightarrow> RdmaRxQueuePair \<Rightarrow> (nat \<times> RdmaRxQueuePair) option" where
  "ReceiverCheckSeq c now number sz q =
    (let expected = ReceiverNextExpectedSeq q in
     if number = expected \<or> number < expected \<and> number + sz \<ge> expected
     then (if h_irn c then irn_in_order number sz q else gbn_in_order c number sz q)
     else if number > expected
     then (if h_irn c then irn_out_of_order c now number sz q else gbn_out_of_order c now q)
     else Some (if h_irn c then irn_code (m_irn_sack q) else 1, q))"

section \<open>Chunks arriving in any order\<close>

definition chunk_bytes :: "nat \<Rightarrow> nat \<Rightarrow> nat \<Rightarrow> nat set" where
  "chunk_bytes m E k = {k * m..<k * m + chunk_size m E k}"

text \<open>The check applied to one chunk of a message of E bytes after the other, each with the
  time of its arrival.\<close>
fun seq_run :: "RdmaConfig \<Rightarrow> nat \<Rightarrow> nat \<Rightarrow> (int \<times> nat) list \<Rightarrow> RdmaRxQueuePair \<Rightarrow> (nat list \<times> RdmaRxQueuePair) option" where
  "seq_run c m E [] q = Some ([], q)"
| "seq_run c m E ((now, k) # as) q =
    (case ReceiverCheckSeq c now (word_of_nat (k * m)) (word_of_nat (chunk_size m E k)) q of None \<Rightarrow> None
     | Some (code, q) \<Rightarrow> map_option (\<lambda>(codes, q). (code # codes, q)) (seq_run c m E as q))"

lemma chunk_words:
  assumes "0 < m" "k < chunks_of m E" "E < 2 ^ 32"
  shows "unat (word_of_nat (k * m) :: u32) = k * m" "unat (word_of_nat (chunk_size m E k) :: u32) = chunk_size m E k"
    "k * m + chunk_size m E k \<le> E" "0 < chunk_size m E k"
proof -
  have "k * m < E" using assms(1,2) by (simp add: chunks_of_bound)
  then show le: "k * m + chunk_size m E k \<le> E" and "0 < chunk_size m E k"
    using assms(1) by (auto simp: chunk_size_def)
  then show "unat (word_of_nat (k * m) :: u32) = k * m"
    "unat (word_of_nat (chunk_size m E k) :: u32) = chunk_size m E k"
    using assms(3) by (simp_all del: of_nat_mult add: unat_of_nat)
qed

text \<open>Two chunks that share a byte are the same.\<close>
lemma chunk_bytes_disjoint:
  assumes "0 < m" "x \<in> chunk_bytes m E k" "x \<in> chunk_bytes m E j"
  shows "k = j"
proof -
  have "x div m = i" if "x \<in> chunk_bytes m E i" for i
    using that assms(1) by (intro div_nat_eqI) (auto simp: chunk_bytes_def chunk_size_def algebra_simps)
  then show ?thesis using assms(2,3) by metis
qed

section \<open>What a receiver promises per chunk, and over a run\<close>

text \<open>The answers to a run of chunks, against what each answer should be in the abstract state
  before its chunk.\<close>
fun answers :: "(nat \<Rightarrow> nat \<Rightarrow> 'a \<Rightarrow> bool) \<Rightarrow> (nat \<Rightarrow> 'a \<Rightarrow> 'a) \<Rightarrow> 'a \<Rightarrow> nat list \<Rightarrow> nat list \<Rightarrow> bool" where
  "answers right accept a [] [] = True"
| "answers right accept a (k # ks) (code # codes) = (right code k a \<and> answers right accept (accept k a) ks codes)"
| "answers right accept a _ _ = False"

text \<open>A receiver seen through an abstraction of its state: one chunk takes the abstract state
  to the next and is answered rightly.  The size of chunks and message come with the view.\<close>
locale chunk_receiver =
  fixes view :: "RdmaConfig \<Rightarrow> nat \<Rightarrow> nat \<Rightarrow> RdmaRxQueuePair \<Rightarrow> 'a \<Rightarrow> bool"
    and accept :: "nat \<Rightarrow> 'a \<Rightarrow> 'a"
    and right :: "nat \<Rightarrow> nat \<Rightarrow> nat \<Rightarrow> nat \<Rightarrow> 'a \<Rightarrow> bool"
  assumes one_chunk: "view c m E q a \<Longrightarrow> k < chunks_of m E \<Longrightarrow>
    \<exists>code q'. ReceiverCheckSeq c now (word_of_nat (k * m)) (word_of_nat (chunk_size m E k)) q = Some (code, q') \<and>
      view c m E q' (accept k a) \<and> right m E code k a"
begin

lemma run:
  assumes "view c m E q a" "\<forall>x\<in>set as. snd x < chunks_of m E"
  shows "\<exists>codes q'. seq_run c m E as q = Some (codes, q') \<and> view c m E q' (fold accept (map snd as) a) \<and>
    answers (right m E) accept a (map snd as) codes"
  using assms
proof (induction as arbitrary: q a)
  case Nil
  then show ?case by simp
next
  case (Cons x as)
  obtain now k where x: "x = (now, k)" by (cases x)
  obtain code q1 where q1: "ReceiverCheckSeq c now (word_of_nat (k * m)) (word_of_nat (chunk_size m E k)) q = Some (code, q1)"
    "view c m E q1 (accept k a)" "right m E code k a"
    using one_chunk[OF Cons.prems(1)] Cons.prems(2) by (fastforce simp: x)
  from Cons.IH[OF q1(2)] Cons.prems(2) obtain codes q' where "seq_run c m E as q1 = Some (codes, q')"
    "view c m E q' (fold accept (map snd as) (accept k a))"
    "answers (right m E) accept (accept k a) (map snd as) codes" by auto
  then show ?case using q1(1,3) by (simp add: x del: of_nat_mult)
qed

end

section \<open>IRN: the state is the set of bytes received\<close>

definition irn_view :: "RdmaRxQueuePair \<Rightarrow> nat set \<Rightarrow> bool" where
  "irn_view q R \<longleftrightarrow> canonical (m_irn_sack q) \<and>
    (\<forall>b\<in>set (m_irn_sack q). unat (ReceiverNextExpectedSeq q) < bfirst b) \<and>
    {0..<unat (ReceiverNextExpectedSeq q)} \<union> sack_bytes (m_irn_sack q) = R"

lemma irn_view_gap: "irn_view q R \<Longrightarrow> unat (ReceiverNextExpectedSeq q) \<notin> R"
  by (fastforce simp: irn_view_def sack_bytes_def)

lemma raise_milestone_sel [simp]:
  "m_irn_sack (raise_milestone s q) = m_irn_sack q"
  "ReceiverNextExpectedSeq (raise_milestone s q) = ReceiverNextExpectedSeq q"
  "m_nackTimer (raise_milestone s q) = m_nackTimer q"
  by (simp_all add: raise_milestone_def)

text \<open>Skipping the front block: the least byte above that is missing, when the bytes reach
  no further than the block they touch.\<close>
lemma skip_front_spec:
  assumes "canonical bs" "\<forall>b\<in>set bs. unat e < bfirst b" "unat e \<le> unat n"
    and touch: "\<And>b. peekFrontBlock bs = Some b \<Longrightarrow> bfirst b \<le> unat n \<Longrightarrow> bfirst b = unat n"
  shows "{unat n..<unat (skip_front bs n)} \<subseteq> sack_bytes bs" "unat n \<le> unat (skip_front bs n)"
    "unat (skip_front bs n) \<notin> sack_bytes bs"
proof -
  have "{unat n..<unat (skip_front bs n)} \<subseteq> sack_bytes bs \<and> unat n \<le> unat (skip_front bs n) \<and>
    unat (skip_front bs n) \<notin> sack_bytes bs"
  proof (cases "peekFrontBlock bs")
    case None
    then have "bs = []" by (cases bs) auto
    then show ?thesis by (simp add: skip_front_def)
  next
    case (Some b)
    obtain s l where b: "b = (s, l)" by (cases b)
    note P = peekFront_least[OF assms(1) Some]
    have ok: "block_ok (s, l)" using P b by simp
    note K = block_okD[OF ok]
    show ?thesis
    proof (cases "s \<le> n")
      case True
      then have "bfirst b = unat n" using touch[OF Some] by (simp add: b bfirst_def word_le_nat_alt)
      then have s: "s = n" by (simp add: b bfirst_def word_unat_eq_iff)
      have "skip_front bs n = s + l" using Some b s by (simp add: skip_front_def)
      then have "unat (skip_front bs n) = bstop b" "bfirst b = unat n" using K(1) b s by (simp_all add: bfirst_def)
      then show ?thesis using P K(2) b by auto
    next
      case False
      then have "skip_front bs n = n" using Some b by (simp add: skip_front_def)
      moreover have "unat n < bfirst b" using False b by (simp add: bfirst_def word_le_nat_alt)
      then have "unat n \<notin> sack_bytes bs" using P by fastforce
      ultimately show ?thesis by simp
    qed
  qed
  then show "{unat n..<unat (skip_front bs n)} \<subseteq> sack_bytes bs" "unat n \<le> unat (skip_front bs n)"
    "unat (skip_front bs n) \<notin> sack_bytes bs" by blast+
qed

text \<open>One arrival: the view grows by the bytes of the chunk.  The chunk may share bytes with
  the view only when all of it is there.\<close>
lemma irn_step:
  assumes v: "irn_view q R" and irn: "h_irn c" and sz: "sz \<noteq> 0" and fit: "unat number + unat sz < 2 ^ 32"
    and whole: "{unat number..<unat number + unat sz} \<inter> R = {} \<or> {unat number..<unat number + unat sz} \<subseteq> R"
  shows "\<exists>code q'. ReceiverCheckSeq c now number sz q = Some (code, q') \<and>
    irn_view q' (R \<union> {unat number..<unat number + unat sz}) \<and> (code = 6 \<longleftrightarrow> m_irn_sack q' = [])"
proof -
  let ?e = "ReceiverNextExpectedSeq q" and ?bs = "m_irn_sack q"
  let ?S = "{unat number..<unat number + unat sz}"
  have can: "canonical ?bs" and low: "\<forall>b\<in>set ?bs. unat ?e < bfirst b"
    and R: "R = {0..<unat ?e} \<union> sack_bytes ?bs" using v by (auto simp: irn_view_def)
  have stop: "unat (number + sz) = unat number + unat sz" using fit by (simp add: unat_add_lt)
  have szp: "0 < unat sz" using sz by (simp add: unat_gt_0)
  have gap: "unat ?e \<notin> R" using v by (rule irn_view_gap)
  consider (here) "unat number \<le> unat ?e" "unat ?e \<le> unat number + unat sz"
    | (later) "unat ?e < unat number" | (old) "unat number + unat sz < unat ?e" by linarith
  then show ?thesis
  proof cases
    case here
    define n where "n = ?e + (sz - (?e - number))"
    have d: "unat (?e - number) = unat ?e - unat number" using here(1) by (simp add: unat_sub_le word_le_nat_alt)
    then have "unat (sz - (?e - number)) = unat sz - (unat ?e - unat number)"
      using here by (simp add: unat_sub_le word_le_nat_alt)
    then have n: "unat n = unat number + unat sz" using here fit by (simp add: n_def unat_add_lt)
    have touch: "bfirst b = unat n" if "peekFrontBlock ?bs = Some b" "bfirst b \<le> unat n" for b
    proof (rule ccontr)
      assume "bfirst b \<noteq> unat n"
      then have lt: "bfirst b < unat n" using that(2) by simp
      obtain x y where b: "b = (x, y)" by (cases b)
      note P = peekFront_least[OF can that(1)]
      have "bfirst b \<in> sack_bytes ?bs" using P block_okD(2)[of x y] by (auto simp: b)
      moreover have "unat ?e < bfirst b" using low that(1) by (cases ?bs) auto
      ultimately have "bfirst b \<in> ?S \<inter> R" using lt n here(1) R by auto
      then have "?S \<subseteq> R" using whole by blast
      moreover have "unat ?e \<in> ?S" using \<open>unat ?e < bfirst b\<close> lt n here(1) by simp
      ultimately show False using gap by blast
    qed
    have le: "unat ?e \<le> unat n" using here(2) n by simp
    define n' where "n' = skip_front ?bs n"
    note K = skip_front_spec[OF can low le touch, folded n'_def]
    obtain pr l where l: "discardUpTo n' ?bs = Some (pr, l)" "canonical l"
      "sack_bytes l = sack_bytes ?bs - {0..<unat n'}" "\<forall>b\<in>set l. unat n' \<le> bfirst b"
      using discardUpTo_exact[OF can, of n'] by blast
    have "unat n' \<noteq> bfirst b" if "b \<in> set l" for b
    proof
      assume eq: "unat n' = bfirst b"
      obtain x y where b: "b = (x, y)" by (cases b)
      have "block_ok (x, y)" using l(2) that b by (auto simp: canonical_def)
      then have "bfirst b \<in> sack_bytes l" using that block_okD(2) by (fastforce simp: sack_bytes_def b)
      then show False using K(3) l(3) eq by auto
    qed
    then have lt: "\<forall>b\<in>set l. unat n' < bfirst b" using l(4) by (metis le_neq_implies_less)
    have "{0..<unat n'} \<union> sack_bytes l = R \<union> ?S"
    proof -
      have "{0..<unat n'} \<union> sack_bytes l = {0..<unat n'} \<union> sack_bytes ?bs" using l(3) by auto
      also have "\<dots> = {0..<unat n} \<union> ({unat n..<unat n'} \<union> sack_bytes ?bs)" using K(2) by auto
      also have "\<dots> = {0..<unat n} \<union> sack_bytes ?bs" using K(1) by blast
      also have "\<dots> = R \<union> ?S" using R n here by auto
      finally show ?thesis .
    qed
    moreover have "ReceiverCheckSeq c now number sz q = Some (irn_code l,
        (raise_milestone (number + sz) q)\<lparr>ReceiverNextExpectedSeq := n', m_irn_sack := l\<rparr>)"
    proof -
      have "number = ?e \<or> number < ?e \<and> number + sz \<ge> ?e"
        using here stop by (auto simp: word_less_nat_alt word_le_nat_alt word_unat_eq_iff)
      moreover have "n' = skip_front ?bs (sz + number)" by (simp add: n'_def n_def)
      ultimately show ?thesis using irn l(1) by (simp add: ReceiverCheckSeq_def irn_in_order_def Let_def)
    qed
    ultimately show ?thesis using l(2) lt by (auto simp: irn_view_def irn_code_def IsEmpty_def)
  next
    case later
    have br: "number \<noteq> ?e" "\<not> number < ?e" "?e < number"
      using later by (auto simp: word_less_nat_alt)
    show ?thesis
    proof (cases "blockExists number sz ?bs \<and> now < m_nackTimer q")
      case True
      then have sub: "?S \<subseteq> sack_bytes ?bs" using blockExists_iff[OF can sz fit] by blast
      then have "?bs \<noteq> []" using szp by auto
      moreover have "ReceiverCheckSeq c now number sz q = Some (4, raise_milestone (number + sz) q)"
        using br irn True by (simp add: ReceiverCheckSeq_def irn_out_of_order_def Let_def)
      moreover have "R \<union> ?S = R" using sub R by blast
      ultimately show ?thesis using v by (simp add: irn_view_def)
    next
      case False
      obtain l where l: "sack number sz ?bs = Some l" "canonical l" "sack_bytes l = sack_bytes ?bs \<union> ?S"
        using sack_exact[OF can fit] by blast
      have lt: "unat ?e < bfirst b" if "b \<in> set l" for b
      proof -
        obtain x y where b: "b = (x, y)" by (cases b)
        have "block_ok (x, y)" using l(2) that b by (auto simp: canonical_def)
        then have "bfirst b \<in> sack_bytes l" using that block_okD(2) by (fastforce simp: sack_bytes_def b)
        then have "bfirst b \<in> sack_bytes ?bs \<or> bfirst b \<in> ?S" unfolding l(3) by blast
        then show ?thesis
        proof
          assume "bfirst b \<in> sack_bytes ?bs"
          then obtain c where "c \<in> set ?bs" "bfirst c \<le> bfirst b" by (rule bytes_bounds)
          then show ?thesis using low by (meson less_le_trans)
        qed (use later in simp)
      qed
      have "sack_bytes l \<inter> {0..<unat ?e} = {}" using lt by (intro bytes_above) (auto intro: less_imp_le)
      moreover obtain pr l' where d: "discardUpTo ?e l = Some (pr, l')" "canonical l'"
        "unat pr = card (sack_bytes l \<inter> {0..<unat ?e})"
        using discardUpTo_exact[OF l(2), of ?e] by blast
      ultimately have "pr = 0" by (simp add: unat_eq_zero)
      have l': "l' = l"
      proof (cases l)
        case (Cons x xs)
        obtain f g where x: "x = (f, g)" by (cases x)
        have "\<not> f + g \<le> ?e \<and> \<not> f < ?e"
          using lt[of x] l(2) block_okD[of f g] by (auto simp: Cons x bfirst_def word_less_nat_alt word_le_nat_alt)
        then show ?thesis using d(1) by (simp add: Cons x)
      qed (use d in simp)
      have "l \<noteq> []" using l(3) szp by auto
      moreover have "ReceiverCheckSeq c now number sz q = Some (2,
          (raise_milestone (number + sz) q)\<lparr>m_nackTimer := now + h_nackIntervalNs c, m_irn_sack := l\<rparr>)"
        using br irn False d(1) l(1) l' \<open>pr = 0\<close> by (auto simp: ReceiverCheckSeq_def irn_out_of_order_def Let_def)
      moreover have "{0..<unat ?e} \<union> sack_bytes l = R \<union> ?S" using l(3) R by blast
      ultimately show ?thesis using l(2) lt by (simp add: irn_view_def)
    qed
  next
    case old
    have "number \<noteq> ?e" "\<not> number + sz \<ge> ?e" "\<not> ?e < number"
      using old stop by (auto simp: word_less_nat_alt word_le_nat_alt)
    then have "ReceiverCheckSeq c now number sz q = Some (irn_code ?bs, q)"
      using irn by (simp add: ReceiverCheckSeq_def Let_def)
    moreover have "R \<union> ?S = R" using old R by auto
    ultimately show ?thesis using v by (simp add: irn_code_def IsEmpty_def)
  qed
qed

definition received_bytes :: "nat \<Rightarrow> nat \<Rightarrow> nat set \<Rightarrow> nat set" where
  "received_bytes m E K = (\<Union>k\<in>K. chunk_bytes m E k)"

text \<open>The right answer is 6 when there is no gap, counting the chunk just received.\<close>
definition irn_right :: "nat \<Rightarrow> nat \<Rightarrow> nat \<Rightarrow> nat \<Rightarrow> nat set \<Rightarrow> bool" where
  "irn_right m E code k K \<longleftrightarrow> (code = 6 \<longleftrightarrow> (\<exists>e. received_bytes m E (insert k K) = {0..<e}))"

definition irn_state :: "RdmaConfig \<Rightarrow> nat \<Rightarrow> nat \<Rightarrow> RdmaRxQueuePair \<Rightarrow> nat set \<Rightarrow> bool" where
  "irn_state c m E q K \<longleftrightarrow> 0 < m \<and> E < 2 ^ 32 \<and> h_irn c \<and> irn_view q (received_bytes m E K)"

text \<open>What a view says in terms of the bytes alone.\<close>
lemma irn_view_reading:
  assumes "irn_view q R"
  shows "unat (ReceiverNextExpectedSeq q) = (LEAST x. x \<notin> R)"
    "sack_bytes (m_irn_sack q) = R - {0..<unat (ReceiverNextExpectedSeq q)}"
    "m_irn_sack q = [] \<longleftrightarrow> (\<exists>e. R = {0..<e})"
proof -
  let ?e = "unat (ReceiverNextExpectedSeq q)"
  have v: "canonical (m_irn_sack q)" "\<forall>b\<in>set (m_irn_sack q). ?e < bfirst b"
    "{0..<?e} \<union> sack_bytes (m_irn_sack q) = R" using assms by (auto simp: irn_view_def)
  have sub: "{0..<?e} \<subseteq> R" using v(3) by blast
  have gap: "?e \<notin> R" by (rule irn_view_gap[OF assms])
  have "(LEAST x. x \<notin> R) = ?e"
  proof (rule Least_equality)
    show "?e \<le> y" if "y \<notin> R" for y using sub that by (meson atLeastLessThan_iff leI subset_iff zero_le)
  qed (rule gap)
  then show "?e = (LEAST x. x \<notin> R)" by simp
  have "sack_bytes (m_irn_sack q) \<inter> {0..<?e} = {}"
    using v(2) by (intro bytes_above) (auto intro: less_imp_le)
  then show B: "sack_bytes (m_irn_sack q) = R - {0..<?e}" using v(3) by blast
  have "m_irn_sack q = [] \<longleftrightarrow> sack_bytes (m_irn_sack q) = {}"
    using IsEmpty_iff[OF v(1)] unfolding IsEmpty_def .
  also have "\<dots> \<longleftrightarrow> R = {0..<?e}" using v(3) B by blast
  also have "\<dots> \<longleftrightarrow> (\<exists>e. R = {0..<e})"
  proof
    assume "\<exists>e. R = {0..<e}"
    then obtain e where e: "R = {0..<e}" ..
    have "e \<le> ?e" using gap by (simp add: e)
    moreover have "?e \<le> e" using sub by (auto simp: e)
    ultimately have "e = ?e" by simp
    then show "R = {0..<?e}" using e by simp
  qed blast
  finally show "m_irn_sack q = [] \<longleftrightarrow> (\<exists>e. R = {0..<e})" .
qed

interpretation irn: chunk_receiver irn_state insert irn_right
proof
  fix c m E q K k now assume s: "irn_state c m E q K" and k: "k < chunks_of m E"
  then have a: "0 < m" "E < 2 ^ 32" "h_irn c" "irn_view q (received_bytes m E K)" by (simp_all add: irn_state_def)
  note W = chunk_words[OF a(1) k a(2)]
  let ?n = "word_of_nat (k * m) :: u32" and ?s = "word_of_nat (chunk_size m E k) :: u32"
  have S: "{unat ?n..<unat ?n + unat ?s} = chunk_bytes m E k" by (simp only: W(1,2) chunk_bytes_def)
  have "?s \<noteq> 0" using W(2,4) by (metis unat_0 less_not_refl)
  moreover have "unat ?n + unat ?s < 2 ^ 32" unfolding W(1,2) using W(3) a(2) by linarith
  moreover have "chunk_bytes m E k \<inter> received_bytes m E K = {} \<or> chunk_bytes m E k \<subseteq> received_bytes m E K"
    using chunk_bytes_disjoint[OF a(1)] unfolding received_bytes_def by blast
  ultimately obtain code q1 where q1: "ReceiverCheckSeq c now ?n ?s q = Some (code, q1)"
    "irn_view q1 (received_bytes m E K \<union> chunk_bytes m E k)" "code = 6 \<longleftrightarrow> m_irn_sack q1 = []"
    using irn_step[OF a(4,3), of ?s ?n now] unfolding S by blast
  have v: "irn_view q1 (received_bytes m E (insert k K))" using q1(2) by (simp add: received_bytes_def Un_commute)
  show "\<exists>code q'. ReceiverCheckSeq c now ?n ?s q = Some (code, q') \<and> irn_state c m E q' (insert k K) \<and>
      irn_right m E code k K"
    using q1(1,3) v a irn_view_reading(3)[OF v] by (auto simp: irn_state_def irn_right_def simp del: of_nat_mult)
qed

lemma fold_insert_set: "fold insert ks K = K \<union> set ks"
  by (induction ks arbitrary: K) auto

text \<open>C31: however the chunks of a message arrive, in any order, repeated or missing, an IRN
  receiver knows exactly what it has: no assertion of its table of blocks fails, the expected
  number is the first byte it does not have, the table holds exactly the bytes beyond it that it
  does have, as separate ascending blocks, and every arrival is answered with the positive code 6
  exactly when the bytes received up to then have no gap.\<close>
theorem irn_receiver_exact:
  assumes "0 < m" "E < 2 ^ 32" "h_irn c" "\<forall>x\<in>set as. snd x < chunks_of m E"
    "ReceiverNextExpectedSeq q = 0" "m_irn_sack q = []"
  shows "\<exists>codes q'. seq_run c m E as q = Some (codes, q') \<and>
    unat (ReceiverNextExpectedSeq q') = (LEAST x. x \<notin> received_bytes m E (snd ` set as)) \<and>
    sack_bytes (m_irn_sack q') = received_bytes m E (snd ` set as) - {0..<unat (ReceiverNextExpectedSeq q')} \<and>
    canonical (m_irn_sack q') \<and> answers (irn_right m E) insert {} (map snd as) codes"
proof -
  have "irn_state c m E q {}" using assms by (simp add: irn_state_def irn_view_def received_bytes_def)
  from irn.run[OF this assms(4)] obtain codes q' where r: "seq_run c m E as q = Some (codes, q')"
    "irn_view q' (received_bytes m E (snd ` set as))" "answers (irn_right m E) insert {} (map snd as) codes"
    by (auto simp: irn_state_def fold_insert_set)
  then show ?thesis using irn_view_reading(1,2)[OF r(2)] by (auto simp: irn_view_def)
qed

definition irn_cfg :: RdmaConfig where
  "irn_cfg = \<lparr>h_mtu = 1000, h_ack_interval = 0, h_chunk = 4000, h_backto0 = False, h_irn = True,
     h_nackIntervalNs = 500, h_var_win = False, h_waitAckTimeout = 4000000, h_symmetricRouting = False,
     h_creditbouncer = False, h_ccEnable = False, h_csnEnable = False, h_unsolicitedThresh = 0,
     h_maxSrpb = 0, h_globalBucket = 0, h_senderThreshold = 0, h_grantGranularity = 0,
     h_aiStep = 1, h_mdFactor = 1, h_ceNewWeight = 1 / 16, h_ecnMinMul_nw = 1 / 8,
     h_ecnMinMul_host = 1 / 8, h_grantIntervalNs = 0, h_resendIntervalNs = 0,
     h_senderSchedPolicy = CB_SCHED_RR, h_grantSchedPolicy = CB_SCHED_RR, h_senderPolicyRatio = 1,
     h_intMode = 5, h_irn_bdp = 0, h_irn_rtoLow = 0, h_irn_rtoHigh = 0, h_rateBound = True\<rparr>"

theorem irn_receiver_exact_witness:
  "\<exists>codes q'. seq_run irn_cfg 1000 2500 [(0, 2), (1, 0), (2, 2)] RdmaRxQueuePair_ctor = Some (codes, q') \<and>
    unat (ReceiverNextExpectedSeq q') = 1000 \<and> sack_bytes (m_irn_sack q') = {2000..<2500}"
proof -
  let ?as = "[(0 :: int, 2 :: nat), (1, 0), (2, 2)]"
  have R: "received_bytes 1000 2500 (snd ` set ?as) = {0..<1000} \<union> {2000..<2500}"
    by (auto simp: received_bytes_def chunk_bytes_def chunk_size_def)
  have L: "(LEAST x. x \<notin> {0..<1000} \<union> {2000..<2500 :: nat}) = 1000"
    by (intro Least_equality) auto
  have D: "({0..<1000} \<union> {2000..<2500}) - {0..<1000} = {2000..<2500 :: nat}" by auto
  have "\<forall>x\<in>set ?as. snd x < chunks_of 1000 2500" by (simp add: chunks_of_def)
  moreover have "h_irn irn_cfg" "ReceiverNextExpectedSeq RdmaRxQueuePair_ctor = 0" "m_irn_sack RdmaRxQueuePair_ctor = []"
    by (simp_all add: irn_cfg_def RdmaRxQueuePair_ctor_def)
  ultimately obtain codes q' where "seq_run irn_cfg 1000 2500 ?as RdmaRxQueuePair_ctor = Some (codes, q')"
    "unat (ReceiverNextExpectedSeq q') = 1000"
    "sack_bytes (m_irn_sack q') = ({0..<1000} \<union> {2000..<2500}) - {0..<unat (ReceiverNextExpectedSeq q')}"
    using irn_receiver_exact[of 1000 2500 irn_cfg ?as RdmaRxQueuePair_ctor] unfolding R L by auto
  then show ?thesis using D by metis
qed

text \<open>C32: the order of arrivals does not matter to an IRN receiver: after any two runs in which the
  same chunks of a message arrive, each in any order, at any times and any number of times, it
  expects the same number and its tables of blocks are equal, block for block.\<close>
theorem irn_order_irrelevant:
  assumes "0 < m" "E < 2 ^ 32" "h_irn c" "\<forall>x\<in>set as \<union> set bs. snd x < chunks_of m E" "snd ` set as = snd ` set bs"
    "ReceiverNextExpectedSeq q = 0" "m_irn_sack q = []"
  shows "\<exists>codes qa codes' qb. seq_run c m E as q = Some (codes, qa) \<and> seq_run c m E bs q = Some (codes', qb) \<and>
    ReceiverNextExpectedSeq qa = ReceiverNextExpectedSeq qb \<and> m_irn_sack qa = m_irn_sack qb"
proof -
  have s: "irn_state c m E q {}" using assms by (simp add: irn_state_def irn_view_def received_bytes_def)
  obtain ca qa where a: "seq_run c m E as q = Some (ca, qa)" "irn_view qa (received_bytes m E (snd ` set as))"
    using irn.run[OF s, of as] assms(4) by (auto simp: irn_state_def fold_insert_set)
  obtain cb qb where b: "seq_run c m E bs q = Some (cb, qb)" "irn_view qb (received_bytes m E (snd ` set as))"
    using irn.run[OF s, of bs] assms(4,5) by (auto simp: irn_state_def fold_insert_set)
  have "ReceiverNextExpectedSeq qa = ReceiverNextExpectedSeq qb"
    using irn_view_reading(1)[OF a(2)] irn_view_reading(1)[OF b(2)] by (simp add: word_unat_eq_iff)
  moreover from this have "m_irn_sack qa = m_irn_sack qb"
    using a(2) b(2) irn_view_reading(2)[OF a(2)] irn_view_reading(2)[OF b(2)] by (intro canonical_unique) (simp_all add: irn_view_def)
  ultimately show ?thesis using a(1) b(1) by blast
qed

theorem irn_order_irrelevant_witness:
  "\<exists>codes qa codes' qb. seq_run irn_cfg 1000 2500 [(0, 2), (1, 0), (2, 1)] RdmaRxQueuePair_ctor = Some (codes, qa) \<and>
    seq_run irn_cfg 1000 2500 [(0, 0), (5, 1), (6, 1), (7, 2)] RdmaRxQueuePair_ctor = Some (codes', qb) \<and>
    ReceiverNextExpectedSeq qa = ReceiverNextExpectedSeq qb \<and> m_irn_sack qa = m_irn_sack qb"
  by (rule irn_order_irrelevant) (auto simp: irn_cfg_def RdmaRxQueuePair_ctor_def chunks_of_def)

section \<open>Go-back-N: chunks are taken in order\<close>

text \<open>The number of chunks taken: the next one is taken, others are not.\<close>
definition gbn_take :: "nat \<Rightarrow> nat \<Rightarrow> nat" where
  "gbn_take k j = (if k = j then Suc j else j)"

definition is_nack :: "nat \<Rightarrow> bool" where
  "is_nack code \<longleftrightarrow> code = 2 \<or> code = 4"

lemma gbn_in_order_result:
  assumes "h_chunk c \<noteq> 0"
  shows "\<exists>code q'. gbn_in_order c number sz q = Some (code, q') \<and> \<not> is_nack code \<and>
    ReceiverNextExpectedSeq q' = number + sz"
  using assms by (auto simp: gbn_in_order_def Let_def is_nack_def)

lemma gbn_step:
  assumes "0 < m" "E < 2 ^ 32" "\<not> h_irn c" "\<not> h_backto0 c" "h_chunk c \<noteq> 0" "k < chunks_of m E"
    and j: "j \<le> chunks_of m E" and e: "unat (ReceiverNextExpectedSeq q) = min E (j * m)"
  shows "\<exists>code q'. ReceiverCheckSeq c now (word_of_nat (k * m)) (word_of_nat (chunk_size m E k)) q = Some (code, q') \<and>
    is_nack code = (j < k) \<and> unat (ReceiverNextExpectedSeq q') = min E ((if k = j then Suc j else j) * m)"
proof -
  note W = chunk_words[OF assms(1,6,2)]
  define n :: u32 where "n = word_of_nat (k * m)"
  define z :: u32 where "z = word_of_nat (chunk_size m E k)"
  have nz: "unat n = k * m" "unat z = chunk_size m E k" unfolding n_def z_def by (rule W(1,2))+
  have stop: "unat (n + z) = k * m + chunk_size m E k" using W(3) assms(2) by (simp add: unat_add_lt nz)
  have top: "k * m + chunk_size m E k = min E (Suc k * m)" "k * m < E"
    using W(3,4) by (auto simp: chunk_size_def min_def)
  have cmp: "n = ReceiverNextExpectedSeq q \<longleftrightarrow> k * m = min E (j * m)"
    "n < ReceiverNextExpectedSeq q \<longleftrightarrow> k * m < min E (j * m)"
    "ReceiverNextExpectedSeq q \<le> n + z \<longleftrightarrow> min E (j * m) \<le> min E (Suc k * m)"
    "ReceiverNextExpectedSeq q < n \<longleftrightarrow> min E (j * m) < k * m"
    by (simp_all only: word_unat_eq_iff word_less_nat_alt word_le_nat_alt e nz(1) stop top(1))
  consider (in_order) "k = j \<or> Suc k = j" | (ahead) "j < k" | (dup) "Suc k < j" by linarith
  then have "\<exists>code q'. ReceiverCheckSeq c now n z q = Some (code, q') \<and>
    is_nack code = (j < k) \<and> unat (ReceiverNextExpectedSeq q') = min E ((if k = j then Suc j else j) * m)"
  proof cases
    case in_order
    have "n = ReceiverNextExpectedSeq q \<or> n < ReceiverNextExpectedSeq q \<and> ReceiverNextExpectedSeq q \<le> n + z"
    proof (cases "k = j")
      case True
      then have "k * m = min E (j * m)" using top(2) by simp
      then show ?thesis using cmp(1) by blast
    next
      case False
      then have "j = Suc k" using in_order by simp
      then have "k * m < min E (j * m)" "min E (j * m) \<le> min E (Suc k * m)" using top(2) assms(1) by simp_all
      then show ?thesis using cmp(2,3) by blast
    qed
    then have "ReceiverCheckSeq c now n z q = gbn_in_order c n z q"
      using assms(3) by (simp add: ReceiverCheckSeq_def)
    moreover obtain code q' where g: "gbn_in_order c n z q = Some (code, q')" "\<not> is_nack code"
      "ReceiverNextExpectedSeq q' = n + z" using gbn_in_order_result[OF assms(5)] by blast
    moreover have "unat (ReceiverNextExpectedSeq q') = min E ((if k = j then Suc j else j) * m)"
      using in_order g(3) stop top(1) by auto
    ultimately show ?thesis using in_order by auto
  next
    case ahead
    then have "j * m < k * m" using assms(1) by simp
    then have "ReceiverNextExpectedSeq q < n" "\<not> n < ReceiverNextExpectedSeq q" "n \<noteq> ReceiverNextExpectedSeq q"
      unfolding cmp by linarith+
    then have "ReceiverCheckSeq c now n z q = gbn_out_of_order c now q"
      using assms(3) by (simp add: ReceiverCheckSeq_def)
    moreover have "\<exists>code q'. gbn_out_of_order c now q = Some (code, q') \<and> is_nack code \<and>
        ReceiverNextExpectedSeq q' = ReceiverNextExpectedSeq q"
      using assms(4) by (simp add: gbn_out_of_order_def Let_def is_nack_def)
    ultimately show ?thesis using ahead e by fastforce
  next
    case dup
    have "Suc k * m < E" using dup j chunks_of_bound[OF assms(1), of "Suc k" E] by linarith
    moreover have "Suc k * m < j * m" using dup assms(1) by (intro mult_less_mono1)
    moreover have "k * m < Suc k * m" "min E (Suc k * m) \<le> Suc k * m" using assms(1) by simp_all
    ultimately have kk: "Suc k * m < min E (j * m)" "k * m < Suc k * m" "min E (Suc k * m) \<le> Suc k * m" by simp_all
    have "\<not> ReceiverNextExpectedSeq q < n" "n \<noteq> ReceiverNextExpectedSeq q" "\<not> ReceiverNextExpectedSeq q \<le> n + z"
      unfolding cmp using kk by linarith+
    then have "ReceiverCheckSeq c now n z q = Some (1, q)" using assms(3) by (simp add: ReceiverCheckSeq_def)
    then show ?thesis using dup e by (simp add: is_nack_def)
  qed
  then show ?thesis by (simp only: n_def z_def)
qed

text \<open>The right answer is negative exactly when the chunk is beyond the next one.\<close>
definition gbn_right :: "nat \<Rightarrow> nat \<Rightarrow> nat \<Rightarrow> nat \<Rightarrow> nat \<Rightarrow> bool" where
  "gbn_right m E code k j \<longleftrightarrow> is_nack code = (j < k)"

definition gbn_state :: "RdmaConfig \<Rightarrow> nat \<Rightarrow> nat \<Rightarrow> RdmaRxQueuePair \<Rightarrow> nat \<Rightarrow> bool" where
  "gbn_state c m E q j \<longleftrightarrow> 0 < m \<and> E < 2 ^ 32 \<and> \<not> h_irn c \<and> \<not> h_backto0 c \<and> h_chunk c \<noteq> 0 \<and>
    j \<le> chunks_of m E \<and> unat (ReceiverNextExpectedSeq q) = min E (j * m)"

interpretation gbn: chunk_receiver gbn_state gbn_take gbn_right
proof
  fix c m E q j k now assume s: "gbn_state c m E q j" and k: "k < chunks_of m E"
  then have a: "0 < m" "E < 2 ^ 32" "\<not> h_irn c" "\<not> h_backto0 c" "h_chunk c \<noteq> 0" "j \<le> chunks_of m E"
    "unat (ReceiverNextExpectedSeq q) = min E (j * m)" by (simp_all add: gbn_state_def)
  have "gbn_take k j \<le> chunks_of m E" using a(6) k by (simp add: gbn_take_def)
  then show "\<exists>code q'. ReceiverCheckSeq c now (word_of_nat (k * m)) (word_of_nat (chunk_size m E k)) q = Some (code, q') \<and>
      gbn_state c m E q' (gbn_take k j) \<and> gbn_right m E code k j"
    using gbn_step[OF a(1-5) k a(6,7)] a unfolding gbn_state_def gbn_right_def gbn_take_def by blast
qed

text \<open>A go-back-N receiver that does not rewind takes the chunks of a message strictly in
  order: over any arrivals its expected number is the end of the chunks it has taken, an arrival
  advances it exactly when it is the next chunk, and it is answered with a negative code exactly
  when it is beyond the next chunk; a chunk that has been taken before is acknowledged.\<close>
theorem gbn_receiver_in_order:
  assumes "0 < m" "E < 2 ^ 32" "\<not> h_irn c" "\<not> h_backto0 c" "h_chunk c \<noteq> 0"
    "\<forall>x\<in>set as. snd x < chunks_of m E" "ReceiverNextExpectedSeq q = 0"
  shows "\<exists>codes q'. seq_run c m E as q = Some (codes, q') \<and>
    unat (ReceiverNextExpectedSeq q') = min E (fold gbn_take (map snd as) 0 * m) \<and>
    answers (gbn_right m E) gbn_take 0 (map snd as) codes"
proof -
  have "gbn_state c m E q 0" using assms by (simp add: gbn_state_def)
  from gbn.run[OF this assms(6)] show ?thesis by (auto simp: gbn_state_def)
qed

theorem gbn_receiver_in_order_witness:
  "\<exists>codes q'. seq_run (irn_cfg\<lparr>h_irn := False\<rparr>) 1000 2500 [(0, 0), (1, 2), (2, 0), (3, 1)] RdmaRxQueuePair_ctor
      = Some (codes, q') \<and>
    unat (ReceiverNextExpectedSeq q') = 2000 \<and> answers (gbn_right 1000 2500) gbn_take 0 [0, 2, 0, 1] codes"
proof -
  let ?as = "[(0 :: int, 0 :: nat), (1, 2), (2, 0), (3, 1)]"
  have "\<forall>x\<in>set ?as. snd x < chunks_of 1000 2500" by (simp add: chunks_of_def)
  from gbn_receiver_in_order[of 1000 2500 "irn_cfg\<lparr>h_irn := False\<rparr>" ?as RdmaRxQueuePair_ctor, OF _ _ _ _ _ this]
  show ?thesis by (simp add: irn_cfg_def RdmaRxQueuePair_ctor_def gbn_take_def del: seq_run.simps)
qed

end
