(* ===== verification/RdmaOffer.thy ===== *)
theory RdmaOffer
  imports RdmaSending
begin

text \<open>
  The two callbacks of the NIC fit together: a queue pair that the choice
  (\<^verbatim>\<open>GetNextCreditBouncerQindex\<close> in \<^verbatim>\<open>rdma-hw.cc\<close>) offers has a
  packet to send when it is asked for one (\<^verbatim>\<open>GetNxtPacket\<close>), under both policies,
  and nothing is offered only if nothing can be sent.
\<close>

section \<open>What the choice keeps\<close>

definition avail_of :: "RdmaHw \<Rightarrow> u32 \<Rightarrow> u64" where
  "avail_of hw a = (case m_receiverStates hw a of None \<Rightarrow> 0 | Some s \<Rightarrow> m_availCreditBytes s)"

definition thresh_of :: "RdmaHw \<Rightarrow> u32 \<Rightarrow> u64" where
  "thresh_of hw a = (case m_receiverStates hw a of None \<Rightarrow> 0 | Some s \<Rightarrow> m_unsolicitedThreshBytes s)"

definition unmarked :: "RdmaQueuePair \<Rightarrow> RdmaQueuePair" where
  "unmarked q = q\<lparr>q_priorityFlowPending := False\<rparr>"

text \<open>Two hosts that offer the same: they differ in priority marks, shares and lists only.\<close>
definition same_offer :: "RdmaHw \<Rightarrow> RdmaHw \<Rightarrow> bool" where
  "same_offer hw hw' \<longleftrightarrow> cfg hw' = cfg hw \<and> (\<forall>r. unmarked (hw_qps hw' r) = unmarked (hw_qps hw r)) \<and>
     (\<forall>a. avail_of hw' a = avail_of hw a \<and> thresh_of hw' a = thresh_of hw a)"

lemma same_offer_refl [simp]: "same_offer hw hw"
  by (simp add: same_offer_def)

lemma same_offer_trans: "same_offer a b \<Longrightarrow> same_offer b c \<Longrightarrow> same_offer a c"
  by (simp add: same_offer_def)

lemma unmarked_sel:
  assumes "unmarked q = unmarked q'"
  shows "q_dip q = q_dip q'" "q_enabled q = q_enabled q'" "m_size q = m_size q'" "snd_nxt q = snd_nxt q'"
    "m_pg q = m_pg q'" "q_nextAvail q = q_nextAvail q'" "q_irn_sack q = q_irn_sack q'"
    "q_isScheduled q = q_isScheduled q'" "q_sentAnnouncement q = q_sentAnnouncement q'"
    "q_usnsolCheckDone q = q_usnsolCheckDone q'"
  using arg_cong[OF assms, of q_dip] arg_cong[OF assms, of q_enabled] arg_cong[OF assms, of m_size]
    arg_cong[OF assms, of snd_nxt] arg_cong[OF assms, of m_pg] arg_cong[OF assms, of q_nextAvail]
    arg_cong[OF assms, of q_irn_sack] arg_cong[OF assms, of q_isScheduled]
    arg_cong[OF assms, of q_sentAnnouncement] arg_cong[OF assms, of q_usnsolCheckDone]
  by (simp_all add: unmarked_def)

lemma same_offer_mark: "same_offer hw h \<Longrightarrow> same_offer hw (set_qp r ((hw_qps h r)\<lparr>q_priorityFlowPending := b\<rparr>) h)"
  by (simp add: same_offer_def avail_of_def thresh_of_def unmarked_def)

lemma same_offer_receiver:
  "same_offer hw h \<Longrightarrow> m_availCreditBytes st = avail_of h a \<Longrightarrow> m_unsolicitedThreshBytes st = thresh_of h a \<Longrightarrow>
    same_offer hw (set_receiver a st h)"
  by (auto simp: same_offer_def avail_of_def thresh_of_def)

lemma same_offer_upd:
  assumes "same_offer hw h" "\<And>st. m_availCreditBytes (f st) = m_availCreditBytes st"
    "\<And>st. m_unsolicitedThreshBytes (f st) = m_unsolicitedThreshBytes st"
  shows "same_offer hw (upd_receiver f a h)"
  using assms by (auto simp: upd_receiver_def avail_of_def thresh_of_def intro: same_offer_receiver split: option.split)

lemma same_offer_strip: "strip h = strip hw \<Longrightarrow> same_offer hw h"
proof -
  assume s: "strip h = strip hw"
  have c: "cfg h = cfg hw" "hw_qps h = hw_qps hw" using s by (metis strip_sel)+
  have m: "map_option reset_sched (m_receiverStates h a) = map_option reset_sched (m_receiverStates hw a)" for a
    using s by (metis strip_sel(3))
  have e: "avail_of k a = (case map_option reset_sched (m_receiverStates k a) of None \<Rightarrow> 0 | Some st \<Rightarrow> m_availCreditBytes st)"
    "thresh_of k a = (case map_option reset_sched (m_receiverStates k a) of None \<Rightarrow> 0 | Some st \<Rightarrow> m_unsolicitedThreshBytes st)"
    for k a by (simp_all add: avail_of_def thresh_of_def reset_sched_def split: option.split)
  have "avail_of h a = avail_of hw a \<and> thresh_of h a = thresh_of hw a" for a
    unfolding e m by simp
  then show ?thesis using c by (simp add: same_offer_def)
qed

lemma refill_same_offer: "same_offer hw h \<Longrightarrow> same_offer hw (refill n cs h)"
proof (induction n cs h rule: refill.induct)
  case (2 n cs h)
  have "same_offer hw (fold (\<lambda>c. upd_receiver add_deficit (rc_addr c)) cs h)"
    using 2(2) by (rule fold_keeps) (erule same_offer_upd, simp_all add: add_deficit_def)
  then show ?case using 2 by simp
qed simp

lemma share_same_offer: "same_offer hw (snd (share_link cs hw))"
proof -
  have "same_offer hw (clear_pending cs hw)"
    unfolding clear_pending_def by (rule fold_keeps[where P = "same_offer hw"]) (simp, rule same_offer_mark)
  then have "same_offer hw (give_quanta (mark_high cs) (clear_pending cs hw))"
    unfolding give_quanta_def by (rule fold_keeps) (erule same_offer_upd, simp_all add: add_deficit_def)
  then have "same_offer hw (refill 8 cs (give_quanta (mark_high cs) (clear_pending cs hw)))"
    by (rule refill_same_offer)
  then show ?thesis
    by (auto simp: share_link_def settle_def Let_def simp del: upd_receiver_sel
        intro!: same_offer_mark intro: same_offer_upd split: option.split)
qed

lemma qps_ok_same: "same_offer hw hw' \<Longrightarrow> qps_ok hw \<Longrightarrow> qps_ok hw'"
proof -
  assume o: "same_offer hw hw'" and "qps_ok hw"
  moreover have "q_irn_sack (hw_qps hw' r) = q_irn_sack (hw_qps hw r) \<and> m_pg (hw_qps hw' r) = m_pg (hw_qps hw r)" for r
    using o unmarked_sel(5,7)[of "hw_qps hw' r" "hw_qps hw r"] by (simp add: same_offer_def)
  ultimately show "qps_ok hw'" by (simp add: qps_ok_def)
qed

section \<open>What is offered\<close>

definition offerable :: "HostEnv \<Rightarrow> nat list \<Rightarrow> RdmaHw \<Rightarrow> nat \<Rightarrow> bool" where
  "offerable env grp hw i \<longleftrightarrow> i < length grp \<and> \<not> h_finished env i \<and> due env hw (grp ! i) \<and>
     credit_covers hw (avail_of hw (q_dip (hw_qps hw (grp ! i)))) (grp ! i)"

text \<open>The receivers list exactly the messages of the group that are due.\<close>
definition registered :: "HostEnv \<Rightarrow> nat list \<Rightarrow> RdmaHw \<Rightarrow> bool" where
  "registered env grp hw \<longleftrightarrow>
     (\<forall>i<length grp. \<not> h_finished env i \<longrightarrow> due env hw (grp ! i) \<longrightarrow>
        q_dip (hw_qps hw (grp ! i)) \<in> set (h_order env) \<and>
        (\<exists>st. m_receiverStates hw (q_dip (hw_qps hw (grp ! i))) = Some st \<and> rs_enabled st \<and> grp ! i \<in> set (rs_msgStates st))) \<and>
     (\<forall>a st r. m_receiverStates hw a = Some st \<longrightarrow> r \<in> set (rs_msgStates st) \<longrightarrow> due env hw r \<longrightarrow>
        q_dip (hw_qps hw r) = a \<and> in_group env grp r)"

lemma offerable_same: "same_offer hw hw' \<Longrightarrow> offerable env grp hw' i = offerable env grp hw i"
proof -
  assume s: "same_offer hw hw'"
  have "unmarked (hw_qps hw' r) = unmarked (hw_qps hw r)" for r using s by (simp add: same_offer_def)
  note u = unmarked_sel[OF this]
  show ?thesis using s by (simp add: offerable_def due_def credit_covers_def bytes_left_def u same_offer_def Let_def)
qed

lemma ready_spec:
  assumes "qps_ok hw"
  shows "\<exists>b hw'. qp_ready env r hw = Some (b, hw') \<and> same_offer hw hw' \<and>
    (b \<longleftrightarrow> due env hw r \<and> credit_covers hw (avail_of hw (q_dip (hw_qps hw r))) r)"
proof -
  let ?q = "hw_qps hw r"
  have g: "GetBytesLeft ?q = Some (bytes_left ?q, ?q)" using assms by (simp add: qps_ok_def GetBytesLeft_no_sack)
  obtain rs h where rs: "GetOrCreateReceiverState (q_dip ?q) r hw = (rs, h)" by fastforce
  have av: "m_availCreditBytes rs = avail_of hw (q_dip ?q)" "m_unsolicitedThreshBytes rs = thresh_of hw (q_dip ?q)"
    and h: "h = set_receiver (q_dip ?q) rs hw"
    using rs by (auto simp: GetOrCreateReceiverState_def Let_def avail_of_def thresh_of_def ReceiverState_default_def
        split: option.splits)
  have s: "same_offer hw (set_receiver (q_dip ?q) (rs\<lparr>rs_enabled := True\<rparr>) h)"
    unfolding h using av by (intro same_offer_receiver) (simp_all add: avail_of_def thresh_of_def)
  show ?thesis
  proof (cases "due env hw r")
    case True
    then have "qp_ready env r hw = Some (credit_covers hw (avail_of hw (q_dip ?q)) r,
        set_receiver (q_dip ?q) (rs\<lparr>rs_enabled := True\<rparr>) h)"
      by (auto simp: qp_ready_def g qps_ok_paused[OF assms] rs due_def Let_def credit_covers_def av h)
    then show ?thesis using s True by simp
  next
    case False
    then have "qp_ready env r hw = Some (False, hw)" by (auto simp: qp_ready_def g qps_ok_paused[OF assms] due_def Let_def not_le)
    then show ?thesis using False by (intro exI[of _ False] exI[of _ hw]) simp
  qed
qed

lemma rr_spec:
  assumes "qps_ok hw" "\<forall>i\<in>set idxs. i < length grp"
  shows "\<exists>sel hw'. rr_qindex env grp idxs hw = Some (sel, hw') \<and> same_offer hw hw' \<and>
    (sel = None \<longrightarrow> (\<forall>i\<in>set idxs. \<not> offerable env grp hw i)) \<and> (\<forall>i. sel = Some i \<longrightarrow> offerable env grp hw i)"
  using assms
proof (induction idxs arbitrary: hw)
  case (Cons i idxs)
  show ?case
  proof (cases "h_finished env i")
    case True
    then have "\<not> offerable env grp hw i" by (simp add: offerable_def)
    then show ?thesis using Cons.IH[of hw] Cons.prems True by auto
  next
    case False
    obtain b h where b: "qp_ready env (grp ! i) hw = Some (b, h)" "same_offer hw h"
      "b \<longleftrightarrow> due env hw (grp ! i) \<and> credit_covers hw (avail_of hw (q_dip (hw_qps hw (grp ! i)))) (grp ! i)"
      using ready_spec[OF Cons.prems(1)] by blast
    have o: "offerable env grp hw i \<longleftrightarrow> b" using b(3) False Cons.prems(2) by (simp add: offerable_def)
    show ?thesis
    proof (cases b)
      case True
      then show ?thesis using b False o by simp
    next
      case nb: False
      have "qps_ok h" by (rule qps_ok_same[OF b(2) Cons.prems(1)])
      with Cons.IH[of h] Cons.prems(2) obtain sel h' where r: "rr_qindex env grp idxs h = Some (sel, h')"
        "same_offer h h'" "sel = None \<longrightarrow> (\<forall>i\<in>set idxs. \<not> offerable env grp hw i)" "\<forall>i. sel = Some i \<longrightarrow> offerable env grp hw i"
        unfolding offerable_same[OF b(2)] by auto
      have "same_offer hw h'" by (rule same_offer_trans[OF b(2) r(2)])
      then show ?thesis using r(1,3,4) b(1) nb False o by auto
    qed
  qed
qed simp

lemma clear_same_offer: "same_offer hw (clear_priority env grp hw)"
  unfolding clear_priority_def
  by (rule fold_keeps[where P = "same_offer hw"]) (simp_all add: same_offer_mark)

lemma choice_offers_rr:
  assumes "qps_ok hw" "h_creditbouncer (cfg hw)" "grp \<noteq> []"
  shows "\<exists>sel hw'. GetNextCreditBouncerQindex_rr env grp l hw = Some (sel, hw') \<and> same_offer hw hw' \<and>
    (sel = None \<longrightarrow> (\<forall>i. \<not> offerable env grp hw i)) \<and> (\<forall>i. sel = Some i \<longrightarrow> offerable env grp hw i)"
proof -
  let ?h = "clear_priority env grp hw"
  let ?is = "map (\<lambda>step. (unat l + step) mod length grp) [1..<Suc (length grp)]"
  have s: "same_offer hw ?h" by (rule clear_same_offer)
  have "\<forall>i\<in>set ?is. i < length grp" using assms(3) by auto
  from rr_spec[OF qps_ok_same[OF s assms(1)] this] obtain sel h' where r: "rr_qindex env grp ?is ?h = Some (sel, h')"
    "same_offer ?h h'" "sel = None \<longrightarrow> (\<forall>i\<in>set ?is. \<not> offerable env grp hw i)"
    "\<forall>i. sel = Some i \<longrightarrow> offerable env grp hw i"
    unfolding offerable_same[OF s] by blast
  have all: "i \<in> set ?is" if "i < length grp" for i
    using round_trip_positions[OF that, of "unat l"] unfolding set_map set_upt by blast
  have none: "\<not> offerable env grp hw i" if "sel = None" for i
  proof (cases "i < length grp")
    case True
    show ?thesis using r(3) that all[OF True] by blast
  qed (simp add: offerable_def)
  have "GetNextCreditBouncerQindex_rr env grp l hw = Some (sel, h')"
    using assms(2,3) r(1) by (simp add: GetNextCreditBouncerQindex_rr_def del: upt_Suc)
  then show ?thesis using none r(4) same_offer_trans[OF s r(2)] by blast
qed

lemma candidate_strip:
  assumes "qps_ok hw" "receiver_candidate env grp l a hw = Some (c, h)"
  shows "strip h = strip hw"
proof (cases "m_receiverStates hw a")
  case (Some st)
  have s: "strip (set_receiver a (reset_sched st) hw) = strip hw" using Some by (simp add: strip_upd)
  show ?thesis
  proof (cases "rs_enabled st \<and> rs_msgStates st \<noteq> []")
    case True
    have "h = hw \<or> h = set_receiver a (reset_sched st) hw"
      using assms Some True by (auto simp: receiver_candidate_def local_msgs_eq split: option.splits)
    then show ?thesis using s by auto
  qed (use assms Some s in \<open>auto simp: receiver_candidate_def\<close>)
qed (use assms in \<open>simp add: receiver_candidate_def\<close>)

lemma candidates_strip:
  "qps_ok hw \<Longrightarrow> receiver_candidates env grp l addrs hw = Some (cs, h) \<Longrightarrow> strip h = strip hw"
proof (induction addrs arbitrary: hw cs)
  case (Cons a addrs)
  obtain c k ks where k: "receiver_candidate env grp l a hw = Some (c, k)" "receiver_candidates env grp l addrs k = Some (ks, h)"
    using Cons.prems(2) by (auto simp: bind_eq_Some_conv)
  have "strip k = strip hw" by (rule candidate_strip[OF Cons.prems(1) k(1)])
  moreover from this have "qps_ok k" using Cons.prems(1) qps_ok_strip by blast
  ultimately show ?case using Cons.IH[OF _ k(2)] by simp
qed simp

lemma choice_same_mixed:
  assumes "qps_ok hw" "h_senderSchedPolicy (cfg hw) = CB_SCHED_SRPT"
    "GetNextCreditBouncerQindex env grp l hw = Some (sel, hw')"
  shows "same_offer hw hw'"
proof (cases "\<not> h_creditbouncer (cfg hw) \<or> grp = []")
  case False
  then obtain cs h where r: "receiver_candidates env grp l (h_order env) hw = Some (cs, h)"
    "(sel, hw') = (if cs = [] then (None, h) else share_link cs h)"
    using assms(2,3) by (auto simp: GetNextCreditBouncerQindex_def GetNextCreditBouncerQindex_mixed_def split: if_splits)
  have "same_offer hw h" by (rule same_offer_strip[OF candidates_strip[OF assms(1) r(1)]])
  moreover have "hw' = (if cs = [] then h else snd (share_link cs h))" using r(2) by (metis snd_conv)
  ultimately show ?thesis using same_offer_trans[OF _ share_same_offer] by (auto split: if_splits)
qed (use assms in \<open>auto simp: GetNextCreditBouncerQindex_def GetNextCreditBouncerQindex_mixed_def\<close>)

text \<open>Both policies offer a queue pair exactly when one can be offered.\<close>
lemma choice_offers:
  assumes "qps_ok hw" "h_creditbouncer (cfg hw)" "grp \<noteq> []"
    "h_senderSchedPolicy (cfg hw) = CB_SCHED_SRPT \<Longrightarrow> registered env grp hw \<and> receivers_all sched_nonneg hw"
  shows "\<exists>sel hw'. GetNextCreditBouncerQindex env grp l hw = Some (sel, hw') \<and> same_offer hw hw' \<and>
    (sel = None \<longrightarrow> (\<forall>i. \<not> offerable env grp hw i)) \<and> (\<forall>i. sel = Some i \<longrightarrow> offerable env grp hw i)"
proof (cases "h_senderSchedPolicy (cfg hw)")
  case CB_SCHED_RR
  then show ?thesis using choice_offers_rr[OF assms(1-3), of env l] by (simp add: GetNextCreditBouncerQindex_def)
next
  case CB_SCHED_SRPT
  note R = assms(4)[OF this]
  have av: "avail_of hw a = m_availCreditBytes st" if "m_receiverStates hw a = Some st" for a st
    using that by (simp add: avail_of_def)
  have S: "due env hw r \<and> credit_covers hw (avail_of hw (q_dip (hw_qps hw r))) r \<and> in_group env grp r"
    if s: "sendable env hw a r" for a r
  proof -
    obtain st where st: "m_receiverStates hw a = Some st" "r \<in> set (rs_msgStates st)" "due env hw r"
      "credit_covers hw (m_availCreditBytes st) r" using s by (auto simp: sendable_def)
    then have "q_dip (hw_qps hw r) = a" "in_group env grp r" using R unfolding registered_def by blast+
    then show ?thesis using st av[OF st(1)] by simp
  qed
  have N: "\<forall>st. sched_nonneg st \<longrightarrow> sched_nonneg st \<and> sched_nonneg (reset_sched st)"
    by (simp add: sched_nonneg_def reset_sched_def)
  have G: "\<forall>a\<in>set (h_order env). \<forall>r. sendable env hw a r \<longrightarrow> in_group env grp r" using S by blast
  obtain cs h sel hw' where c: "GetNextCreditBouncerQindex env grp l hw = Some (sel, hw')"
    "\<forall>c\<in>set cs. cand_ok env grp hw c" "rc_addr ` set cs = {a \<in> set (h_order env). \<exists>r. sendable env hw a r}"
    "case sel of None \<Rightarrow> cs = [] | Some i \<Rightarrow> \<exists>c\<in>set cs. rc_qindex c = i \<and>
          (\<forall>c'\<in>set cs. ranks_before (refill 8 cs (give_quanta (mark_high cs) (clear_pending cs h))) c c')"
    by (rule mixed_spec[OF assms(2) CB_SCHED_SRPT assms(3,1) G conjunct2[OF R] N, of l]) blast
  have "sendable env hw (q_dip (hw_qps hw (grp ! i))) (grp ! i)" "q_dip (hw_qps hw (grp ! i)) \<in> set (h_order env)"
    if o: "offerable env grp hw i" for i
  proof -
    have "i < length grp" "\<not> h_finished env i" "due env hw (grp ! i)" using o by (simp_all add: offerable_def)
    then obtain st where "q_dip (hw_qps hw (grp ! i)) \<in> set (h_order env)"
      "m_receiverStates hw (q_dip (hw_qps hw (grp ! i))) = Some st" "rs_enabled st" "grp ! i \<in> set (rs_msgStates st)"
      using R unfolding registered_def by blast
    then show "sendable env hw (q_dip (hw_qps hw (grp ! i))) (grp ! i)" "q_dip (hw_qps hw (grp ! i)) \<in> set (h_order env)"
      using o av by (auto simp: sendable_def offerable_def)
  qed
  then have "sel = None \<longrightarrow> (\<forall>i. \<not> offerable env grp hw i)" using c(3,4) by auto
  moreover have "offerable env grp hw i" if si: "sel = Some i" for i
  proof -
    obtain c where "c \<in> set cs" "rc_qindex c = i" using c(4) si by auto
    then have "i < length grp" "\<not> h_finished env i" "sendable env hw (rc_addr c) (grp ! i)"
      using c(2) by (auto simp: cand_ok_def best_message_def)
    then show ?thesis using S by (simp add: offerable_def)
  qed
  moreover have "same_offer hw hw'"
    using choice_same_mixed[OF assms(1) CB_SCHED_SRPT c(1)] .
  ultimately show ?thesis using c(1) by blast
qed

section \<open>What is offered is sent\<close>

lemma avail_of_peer: "avail_of hw (q_dip (hw_qps hw r)) = m_availCreditBytes (peer_state r hw)"
  by (simp add: avail_of_def peer_state_def ReceiverState_default_def split: option.split)

lemma payload_wire_mono: "16 \<le> m \<Longrightarrow> a \<le> b \<Longrightarrow> payload_wire m a \<le> payload_wire m b"
  using payload_wire_galois[of m b "payload_wire m b"] payload_wire_galois[of m a "payload_wire m b"] by simp

text \<open>What a message allocates to itself is nothing, a chunk or more, or all of it.\<close>
lemma self_allocation_chunk:
  assumes "h_mtu c \<noteq> 0"
  shows "self_allocation c n rs = 0 \<or> self_allocation c n rs = n \<or>
    unat (h_mtu c) \<le> unat (self_allocation c n rs) \<and> self_allocation c n rs \<le> n"
proof (cases "self_allocation c n rs = 0")
  case False
  then obtain x where x: "self_allocation c n rs = CbAlignChunkPrefixBytes x n (h_mtu c)" "x \<le> n"
    by (auto simp: self_allocation_def Let_def split: if_splits)
  let ?m = "unat (h_mtu c)"
  have u: "unat (self_allocation c n rs) = (if unat n \<le> unat x then unat n else unat x div ?m * ?m)"
    unfolding x(1) by (rule unat_CbAlignChunkPrefixBytes[OF assms])
  show ?thesis
  proof (cases "unat n \<le> unat x")
    case True
    then show ?thesis using u by (simp add: word_unat_eq_iff)
  next
    case lt: False
    then have "unat x div ?m \<noteq> 0" using u False by (metis mult_zero_left unat_eq_zero)
    then have "?m \<le> unat x div ?m * ?m" by (cases "unat x div ?m") simp_all
    moreover have "unat x div ?m * ?m \<le> unat n" using lt by (intro le_trans[OF div_times_less_eq_dividend]) simp
    ultimately show ?thesis using u lt by (simp add: word_le_nat_alt)
  qed
qed simp

lemma offered_sends:
  assumes "qps_ok hw" "h_creditbouncer (cfg hw)" "16 \<le> unat (h_mtu (cfg hw))" "unat (m_size (hw_qps hw r)) < 2 ^ 32"
    "unat (avail_of hw (q_dip (hw_qps hw r))) < 2 ^ 63"
    "due env hw r" "credit_covers hw (avail_of hw (q_dip (hw_qps hw r))) r"
  shows "\<exists>p hw'. GetNxtPacket env' r hw = Some (Some p, hw')"
proof -
  define q0 c where "q0 = hw_qps hw r" and "c = cfg hw"
  let ?pl = "CbNextChunkPayloadBytes (snd_nxt q0) (m_size q0) (h_mtu c)"
  let ?w = "CbAddHeaderOverhead (ucast ?pl) (h_mtu c) True"
  have left: "q_enabled q0" "bytes_left q0 \<noteq> 0" using assms(6) by (simp_all add: due_def q0_def Let_def)
  then have lt: "snd_nxt q0 < m_size q0" by (auto simp: bytes_left_def split: if_splits)
  then have "m_size q0 \<noteq> 0" by auto
  obtain q rs where cl: "classified r hw = (q, rs)" by fastforce
  obtain po h where n: "next_credit_packet env' r ?pl hw = (po, h)" by fastforce
  note A = next_credit_answer[OF n q0_def c_def cl]
  have "GetNxtPacket env' r hw = Some (po, h)"
  proof -
    have "\<not> ucast ?pl > bytes_left q0"
      using next_chunk_le[of "snd_nxt q0" "m_size q0" "h_mtu c"] by (simp add: not_less bytes_left_def)
    moreover have "GetBytesLeft q0 = Some (bytes_left q0, q0)"
      using assms(1) by (simp add: qps_ok_def q0_def GetBytesLeft_no_sack)
    ultimately show ?thesis using n left(1) assms(2)
      unfolding GetNxtPacket_def q0_def[symmetric] c_def[symmetric] by (simp add: q0_def c_def)
  qed
  moreover have "po \<noteq> None"
  proof (cases "q_isScheduled q \<and> \<not> q_sentAnnouncement q")
    case True
    then show ?thesis using A \<open>m_size q0 \<noteq> 0\<close> by (auto simp: answer_def Let_def)
  next
    case na: False
    have upl: "unat ?pl = min (unat (h_mtu c)) (unat (m_size q0) - unat (snd_nxt q0))"
      by (rule unat_CbNextChunkPayloadBytes)
    have mtu0: "h_mtu c \<noteq> 0" using assms(3) by (auto simp: c_def)
    have small: "unat (m_size q0) < 2 ^ 32" using assms(4) by (simp add: q0_def)
    have pl0: "0 < unat ?pl" using upl lt assms(3) by (simp add: word_less_nat_alt c_def)
    have uw: "unat ?w = payload_wire (unat (h_mtu c)) (unat ?pl)"
      using unat_CbAddHeaderOverhead[of "h_mtu c" "ucast ?pl" True] assms(3) unat_lt_u32[of ?pl]
      by (simp add: unat_ucast_up c_def)
    have "?w \<noteq> 0" using uw pl0 payload_wire_ge[of "unat (h_mtu c)" "unat ?pl"] assms(3)
      by (auto simp: c_def word_unat_eq_iff)
    moreover have "?pl \<noteq> 0" using pl0 by auto
    moreover have "?w \<le> m_availCreditBytes rs"
    proof (cases "q_usnsolCheckDone q0")
      case True
      then have "q = q0" "rs = peer_state r hw" using cl by (simp_all add: classified_def Let_def q0_def)
      then show ?thesis using assms(7) na
        by (auto simp: credit_covers_def CbNextChunkOnWireBytes_def q0_def c_def avail_of_peer Let_def)
    next
      case False
      let ?T = "self_allocation c (m_size q0) (peer_state r hw)"
      let ?W = "CbAddHeaderOverhead ?T (h_mtu c) True"
      have cm: "classify_message c q0 (peer_state r hw) = (q, rs)"
        using cl False by (simp add: classified_def Let_def q0_def c_def)
      then have T: "?T \<noteq> 0" and rs: "m_availCreditBytes rs = m_availCreditBytes (peer_state r hw) + ?W"
        using na by (auto simp: classify_message_def Let_def word_gt_0 split: if_splits)
      have "?T \<le> m_size q0" "unat ?pl \<le> unat ?T"
        using self_allocation_chunk[of c "m_size q0" "peer_state r hw"] T upl mtu0 by auto
      then have t: "unat ?T < 2 ^ 32" using small by (simp add: word_le_nat_alt)
      have uW: "unat ?W = payload_wire (unat (h_mtu c)) (unat ?T)"
        using unat_CbAddHeaderOverhead[of "h_mtu c" ?T True] assms(3) t by (simp add: c_def)
      have "unat ?W < 2 ^ 63" unfolding uW using assms(3) t by (intro payload_wire_small) (simp_all add: c_def)
      then have "unat (m_availCreditBytes rs) = unat (m_availCreditBytes (peer_state r hw)) + unat ?W"
        using assms(5) unfolding rs avail_of_peer by (intro unat_add_lt) simp
      moreover have "unat ?w \<le> unat ?W"
        unfolding uw uW using assms(3) \<open>unat ?pl \<le> unat ?T\<close> by (intro payload_wire_mono) (simp_all add: c_def)
      ultimately show ?thesis by (simp add: word_le_nat_alt)
    qed
    ultimately show ?thesis using A na by (auto simp: answer_def Let_def)
  qed
  ultimately show ?thesis by auto
qed

end
