(* ===== verification/QbbNic.thy ===== *)
theory QbbNic
  imports RdmaOffer EgressQueue
begin

text \<open>
  The network interface of a host in dpdq-ns3: \<^verbatim>\<open>class RdmaEgressQueue\<close> and
  \<^verbatim>\<open>class QbbNetDevice\<close> of \<^verbatim>\<open>src/point-to-point/model/qbb-net-device.{h,cc}\<close>
  on a node of type 0, with the link of \<^verbatim>\<open>qbb-channel.cc\<close>.  The interface holds a
  queue of acknowledgements and credit packets, asks the transport for the queue pair to
  serve and for its packet, obeys PFC pauses, and puts one packet after the other on the wire.

  The queue holds pointers to packets; here it holds their sizes and numbers, and
  nic\_store maps the numbers to packets.  A pending event of the simulator is the time
  it is due at.  Times are integers; how long a packet takes at a rate (a conversion of
  seconds to clock ticks) is an argument.  None is a failed NS_ASSERT or an access the
  language leaves undefined.  Traces are left out; the forced transmissions of TLT are off.
\<close>

section \<open>State\<close>

record NicEnv =
  n_host :: HostEnv
  n_txTime :: "u32 \<Rightarrow> int"
  n_qpTime :: "u64 \<Rightarrow> u32 \<Rightarrow> int"
  n_ccRate :: "nat \<Rightarrow> bool"
  n_ackHighPrio :: bool
  n_corrupt :: bool

definition n_now :: "NicEnv \<Rightarrow> int" where
  "n_now env = h_now (n_host env)"

text \<open>The class whose pause holds back acknowledgements: 3, or 0 where a program gives them the
  highest priority.  No program sets another.\<close>
definition ack_q_idx :: "NicEnv \<Rightarrow> nat" where
  "ack_q_idx env = (if n_ackHighPrio env then 0 else 3)"

record QbbNic =
  nic_idx :: nat
  nic_gap :: int
  nic_linkUp :: bool
  nic_busy :: bool
  nic_current :: "NsPacket option"
  nic_txComplete :: "int option"
  nic_paused :: "nat \<Rightarrow> bool"
  nic_resumeEvt :: "nat \<Rightarrow> int option"
  nic_nextSend :: "int option"
  nic_qbbEnabled :: bool
  nic_rrlast :: u32
  nic_qlast :: int
  nic_mtu :: u32
  nic_ackQ :: DropTailQueue
  nic_store :: "nat \<Rightarrow> NsPacket"
  nic_uid :: nat
  nic_finished :: "nat \<Rightarrow> bool"
  nic_blockedAt :: "int \<rightharpoonup> int"
  nic_pauseSum :: "int \<rightharpoonup> int"
  nic_wire :: "(int \<times> int \<times> NsPacket) list"

definition nic_qCnt :: nat where "nic_qCnt = 8"
definition ESTIMATED_MAX_FLOW_PER_HOST :: nat where "ESTIMATED_MAX_FLOW_PER_HOST = 9120"

text \<open>The packet a fresh store holds at an unused number is never read.\<close>
definition QbbNic_ctor :: "nat \<Rightarrow> int \<Rightarrow> bool \<Rightarrow> NsPacket \<Rightarrow> QbbNic" where
  "QbbNic_ctor i gap qbb p =
    \<lparr>nic_idx = i, nic_gap = gap, nic_linkUp = False, nic_busy = False, nic_current = None,
     nic_txComplete = None, nic_paused = (\<lambda>_. False), nic_resumeEvt = (\<lambda>_. None), nic_nextSend = None,
     nic_qbbEnabled = qbb, nic_rrlast = 0, nic_qlast = 0, nic_mtu = 1000,
     nic_ackQ = DropTail_ctor\<lparr>dt_maxBytes := 0xffffffff\<rparr>,
     nic_store = (\<lambda>_. p), nic_uid = 0, nic_finished = (\<lambda>_. False),
     nic_blockedAt = Map.empty, nic_pauseSum = Map.empty, nic_wire = []\<rparr>"

text \<open>RdmaHw::Setup and Attach: the interface gets the host's MTU and a link.\<close>
definition nic_setup :: "RdmaHw \<Rightarrow> QbbNic \<Rightarrow> QbbNic" where
  "nic_setup hw n = n\<lparr>nic_mtu := h_mtu (cfg hw), nic_linkUp := True\<rparr>"

definition IsQpFinished :: "QbbNic \<Rightarrow> nat \<Rightarrow> bool" where
  "IsQpFinished n i \<longleftrightarrow> i < ESTIMATED_MAX_FLOW_PER_HOST \<and> nic_finished n i"

definition SetQpFinished :: "nat \<Rightarrow> QbbNic \<Rightarrow> QbbNic" where
  "SetQpFinished i n = (if i \<ge> ESTIMATED_MAX_FLOW_PER_HOST then n
     else n\<lparr>nic_finished := (nic_finished n)(i := True)\<rparr>)"

text \<open>What the transport finds when the interface calls it.\<close>
definition nic_env :: "NicEnv \<Rightarrow> QbbNic \<Rightarrow> HostEnv" where
  "nic_env env n = (n_host env)\<lparr>h_paused := nic_paused n, h_finished := IsQpFinished n\<rparr>"

definition nic_group :: "QbbNic \<Rightarrow> RdmaHw \<Rightarrow> nat list" where
  "nic_group n hw = hw_qpGrp hw (nic_idx n)"

section \<open>The queue of acknowledgements and credit packets\<close>

definition EnqueueHighPrioQ :: "NsPacket \<Rightarrow> QbbNic \<Rightarrow> QbbNic" where
  "EnqueueHighPrioQ p n =
    n\<lparr>nic_store := (nic_store n)(nic_uid n := p), nic_uid := Suc (nic_uid n),
      nic_ackQ := snd (DropTail_Enqueue \<lparr>bp_size = p_size p, bp_flowNum = p_flowNum p, bp_uid = nic_uid n\<rparr> (nic_ackQ n))\<rparr>"

definition dequeue_ack :: "QbbNic \<Rightarrow> (NsPacket option \<times> QbbNic) option" where
  "dequeue_ack n = map_option (\<lambda>(p, d). (map_option (\<lambda>p. nic_store n (bp_uid p)) p, n\<lparr>nic_ackQ := d\<rparr>))
     (DropTail_Dequeue (nic_ackQ n))"

section \<open>Which queue is served\<close>

datatype nic_choice = HighPrio | QueuePair nat | Nothing

text \<open>The window of IRN: bytes in flight below the bandwidth-delay product.\<close>
definition GetIrnBytesInFlight :: "RdmaQueuePair \<Rightarrow> u32" where
  "GetIrnBytesInFlight q = q_irn_max_seq q - q_irn_highest_ack q"

definition CanIrnTransmit :: "u32 \<Rightarrow> RdmaQueuePair \<Rightarrow> bool" where
  "CanIrnTransmit mtu q =
    (let len_left = (if m_size q \<ge> snd_nxt q then m_size q - snd_nxt q else 0) :: u64
     in \<not> q_irn_enabled q
        \<or> ucast (GetIrnBytesInFlight q) + (if len_left > ucast mtu then ucast mtu else len_left) < (ucast (q_irn_bdp q) :: u64)
        \<or> (ucast (q_irn_highest_ack q + q_irn_bdp q) :: u64) > snd_nxt q)"

text \<open>Whether the window lets a queue pair send.  The field tlt.m\_cc\_type is set only with TLT;
  without it the test reads what the memory held, n\_ccRate.\<close>
definition window_allows :: "NicEnv \<Rightarrow> u32 \<Rightarrow> nat \<Rightarrow> RdmaQueuePair \<Rightarrow> bool option" where
  "window_allows env mtu r q =
    (if n_ccRate env r then Some True
     else map_option (\<lambda>bound. \<not> bound \<and> (\<not> q_irn_enabled q \<or> CanIrnTransmit mtu q)) (IsWinBound q))"

text \<open>A queue pair without credit that may send (cond2).\<close>
definition plain_ready :: "NicEnv \<Rightarrow> u32 \<Rightarrow> nat \<Rightarrow> RdmaHw \<Rightarrow> (bool \<times> RdmaHw) option" where
  "plain_ready env mtu r hw =
    Option.bind (window_allows env mtu r (hw_qps hw r)) (\<lambda>allowed.
      if q_enabled (hw_qps hw r) then Some (False, hw)
      else map_option (\<lambda>(left, q). (left > 0 \<and> allowed, set_qp r q hw)) (GetBytesLeft (hw_qps hw r)))"

text \<open>A flow held back by a pause starts its clock; when it is served the time is added up.\<close>
definition nic_blocked :: "int \<Rightarrow> int \<Rightarrow> QbbNic \<Rightarrow> QbbNic" where
  "nic_blocked now flowid n = (if nic_blockedAt n flowid = None
     then n\<lparr>nic_blockedAt := (nic_blockedAt n)(flowid \<mapsto> now)\<rparr> else n)"

definition nic_served :: "int \<Rightarrow> int \<Rightarrow> QbbNic \<Rightarrow> QbbNic" where
  "nic_served now flowid n =
    (case nic_blockedAt n flowid of None \<Rightarrow> n
     | Some t \<Rightarrow> n\<lparr>nic_pauseSum := (nic_pauseSum n)(flowid \<mapsto>
           (case nic_pauseSum n flowid of None \<Rightarrow> 0 | Some s \<Rightarrow> s) + (now - t)),
         nic_blockedAt := (nic_blockedAt n)(flowid := None)\<rparr>)"

text \<open>One position of the round robin: whether it is served, and the marks it leaves.\<close>
definition nic_visit :: "NicEnv \<Rightarrow> nat \<Rightarrow> bool \<Rightarrow> RdmaQueuePair \<Rightarrow> QbbNic \<Rightarrow> (bool \<times> QbbNic) option" where
  "nic_visit env i cond2 q n = map_option (\<lambda>p.
    (let cond1 = \<not> p;
         n = (if \<not> cond2 \<and> IsFinishedConst q then SetQpFinished i n else n);
         avail = (q_nextAvail q \<le> n_now env)
     in if \<not> cond1 \<and> cond2 then (False, if avail then nic_blocked (n_now env) (q_flow_id q) n else n)
        else if cond1 \<and> cond2 \<and> avail then (True, nic_served (n_now env) (q_flow_id q) n)
        else (False, n))) (paused_at (nic_paused n) (m_pg q))"

fun nic_rr :: "NicEnv \<Rightarrow> nat list \<Rightarrow> nat list \<Rightarrow> QbbNic \<Rightarrow> RdmaHw \<Rightarrow> (nic_choice \<times> QbbNic \<times> RdmaHw) option" where
  "nic_rr env grp [] n hw = Some (Nothing, n, hw)"
| "nic_rr env grp (i # is) n hw =
    (if IsQpFinished n i then nic_rr env grp is n hw
     else case plain_ready env (nic_mtu n) (grp ! i) hw of None \<Rightarrow> None
     | Some (cond2, hw) \<Rightarrow>
        (case nic_visit env i cond2 (hw_qps hw (grp ! i)) n of
           None \<Rightarrow> None
         | Some (True, n) \<Rightarrow> Some (QueuePair i, n, hw)
         | Some (False, n) \<Rightarrow> nic_rr env grp is n hw))"

definition GetNextQindex :: "NicEnv \<Rightarrow> QbbNic \<Rightarrow> RdmaHw \<Rightarrow> (nic_choice \<times> QbbNic \<times> RdmaHw) option" where
  "GetNextQindex env n hw =
    (let grp = nic_group n hw in
     if \<not> nic_paused n (ack_q_idx env) \<and> m_nPackets (nic_ackQ n) > 0 then Some (HighPrio, n, hw)
     else case GetNextCreditBouncerQindex (nic_env env n) grp (nic_rrlast n) hw of None \<Rightarrow> None
        | Some (Some i, hw) \<Rightarrow> Some (QueuePair i, n, hw)
        | Some (None, hw) \<Rightarrow>
            nic_rr env grp (map (\<lambda>qIndex. (qIndex + unat (nic_rrlast n)) mod length grp) [1..<Suc (length grp)]) n hw)"

section \<open>Transmission\<close>

definition TransmitStart :: "NicEnv \<Rightarrow> NsPacket \<Rightarrow> QbbNic \<Rightarrow> QbbNic option" where
  "TransmitStart env p n =
    (if nic_busy n then None
     else let txTime = n_txTime env (p_size p) in
       Some (n\<lparr>nic_busy := True, nic_current := Some p,
               nic_txComplete := Some (n_now env + txTime + nic_gap n),
               nic_wire := nic_wire n @ [(n_now env, txTime, p)]\<rparr>))"

text \<open>RdmaHw::UpdateNextAvail and RdmaHw::PktSent: when the queue pair may send again, and the
  retransmission timer of a queue pair without credit.  The byte counter of DCQCN runs only
  after a congestion notification, which a DPDQ host does not receive.\<close>
definition next_send_time :: "NicEnv \<Rightarrow> int \<Rightarrow> u32 \<Rightarrow> bool \<Rightarrow> RdmaQueuePair \<Rightarrow> RdmaQueuePair" where
  "next_send_time env gap pkt_size rateBound q =
    q\<lparr>q_nextAvail := n_now env + (gap + n_qpTime env (if rateBound then q_rate q else q_max_rate q) pkt_size)\<rparr>"

definition PktSent :: "NicEnv \<Rightarrow> int \<Rightarrow> nat \<Rightarrow> NsPacket \<Rightarrow> RdmaHw \<Rightarrow> RdmaHw" where
  "PktSent env gap r p hw =
    (let c = cfg hw;
         q = (hw_qps hw r)\<lparr>q_lastPktSize := p_size p\<rparr>;
         q = next_send_time env gap (p_size p) (h_rateBound c) q;
         q = (if l3Prot (p_hdr p) = RDMA_L3_PROT_UDP \<and> \<not> (h_creditbouncer c \<and> q_enabled q)
              then q\<lparr>q_retransmit := True\<rparr> else q)
     in set_qp r q hw)"

text \<open>The earliest time a queue pair with bytes left may send again.\<close>
fun next_avail :: "int \<Rightarrow> nat list \<Rightarrow> int option \<Rightarrow> RdmaHw \<Rightarrow> (int option \<times> RdmaHw) option" where
  "next_avail now [] t hw = Some (t, hw)"
| "next_avail now (r # rs) t hw =
    (case GetBytesLeft (hw_qps hw r) of None \<Rightarrow> None
     | Some (left, q) \<Rightarrow>
        next_avail now rs
          (if left = 0 \<or> q_nextAvail q \<le> now then t
           else Some (case t of None \<Rightarrow> q_nextAvail q | Some t \<Rightarrow> min (q_nextAvail q) t))
          (set_qp r q hw))"

text \<open>On a host.  A packet is handed to the wire at once; with none to send, the interface
  wakes up when the first queue pair is due.\<close>
definition send_ack :: "NicEnv \<Rightarrow> QbbNic \<times> RdmaHw \<Rightarrow> (QbbNic \<times> RdmaHw) option" where
  "send_ack env s = (let (n, hw) = s in
     Option.bind (dequeue_ack n) (\<lambda>(p, n).
       case p of None \<Rightarrow> None
       | Some p \<Rightarrow> map_option (\<lambda>n. (n, hw)) (TransmitStart env p (n\<lparr>nic_qlast := -1\<rparr>))))"

definition send_from :: "NicEnv \<Rightarrow> nat \<Rightarrow> QbbNic \<times> RdmaHw \<Rightarrow> (QbbNic \<times> RdmaHw) option" where
  "send_from env i s = (let (n, hw) = s; r = nic_group n hw ! i in
     Option.bind (GetNxtPacket (nic_env env n) r hw) (\<lambda>(p, hw).
       let n = n\<lparr>nic_rrlast := of_nat i, nic_qlast := int i\<rparr> in
       case p of None \<Rightarrow> Some (n, hw)
       | Some p \<Rightarrow> map_option (\<lambda>n. (n, PktSent env (nic_gap n) r p hw)) (TransmitStart env p n)))"

definition wake_later :: "NicEnv \<Rightarrow> QbbNic \<times> RdmaHw \<Rightarrow> (QbbNic \<times> RdmaHw) option" where
  "wake_later env s = (let (n, hw) = s in
     map_option (\<lambda>(t, hw). ((case t of None \<Rightarrow> n
         | Some t \<Rightarrow> if nic_nextSend n = None then n\<lparr>nic_nextSend := Some t\<rparr> else n), hw))
       (next_avail (n_now env) (nic_group n hw) None hw))"

definition DequeueAndTransmit :: "NicEnv \<Rightarrow> QbbNic \<times> RdmaHw \<Rightarrow> (QbbNic \<times> RdmaHw) option" where
  "DequeueAndTransmit env s =
    (let (n, hw) = s in
     if \<not> nic_linkUp n \<or> nic_busy n then Some (n, hw)
     else case GetNextQindex env n hw of None \<Rightarrow> None
     | Some (c, s) \<Rightarrow> (case c of HighPrio \<Rightarrow> send_ack env s | QueuePair i \<Rightarrow> send_from env i s | Nothing \<Rightarrow> wake_later env s))"

definition TransmitComplete :: "NicEnv \<Rightarrow> QbbNic \<times> RdmaHw \<Rightarrow> (QbbNic \<times> RdmaHw) option" where
  "TransmitComplete env s =
    (let (n, hw) = s in
     if \<not> nic_busy n \<or> nic_current n = None then None
     else DequeueAndTransmit env (n\<lparr>nic_busy := False, nic_current := None\<rparr>, hw))"

section \<open>Pauses\<close>

definition Resume :: "NicEnv \<Rightarrow> nat \<Rightarrow> QbbNic \<times> RdmaHw \<Rightarrow> (QbbNic \<times> RdmaHw) option" where
  "Resume env qIndex s =
    (let (n, hw) = s in
     if \<not> nic_paused n qIndex then None
     else DequeueAndTransmit env (n\<lparr>nic_paused := (nic_paused n)(qIndex := False)\<rparr>, hw))"

text \<open>The branch of Receive for a PFC frame; the time is in microseconds.\<close>
definition ReceivePfc :: "NicEnv \<Rightarrow> nat \<Rightarrow> u32 \<Rightarrow> QbbNic \<times> RdmaHw \<Rightarrow> (QbbNic \<times> RdmaHw) option" where
  "ReceivePfc env qIndex time s =
    (let (n, hw) = s in
     if \<not> nic_linkUp n \<or> n_corrupt env \<or> \<not> nic_qbbEnabled n then Some (n, hw)
     else if qIndex \<ge> nic_qCnt then None
     else if time > 0
     then Some (n\<lparr>nic_paused := (nic_paused n)(qIndex := True),
                  nic_resumeEvt := (nic_resumeEvt n)(qIndex \<mapsto> n_now env + 1000 * int (unat time))\<rparr>, hw)
     else Resume env qIndex (n\<lparr>nic_resumeEvt := (nic_resumeEvt n)(qIndex := None)\<rparr>, hw))"

section \<open>Notices of the transport\<close>

definition NewQp :: "NicEnv \<Rightarrow> nat \<Rightarrow> QbbNic \<times> RdmaHw \<Rightarrow> (QbbNic \<times> RdmaHw) option" where
  "NewQp env r s = (let (n, hw) = s in
     DequeueAndTransmit env (n, set_qp r ((hw_qps hw r)\<lparr>q_nextAvail := n_now env\<rparr>) hw))"

definition UpdateNextAvail :: "NicEnv \<Rightarrow> int \<Rightarrow> QbbNic \<Rightarrow> QbbNic" where
  "UpdateNextAvail env t n =
    (case nic_nextSend n of None \<Rightarrow> n
     | Some ts \<Rightarrow> if t < ts then n\<lparr>nic_nextSend := Some (if t < n_now env then n_now env else t)\<rparr> else n)"

text \<open>The host side of TakeDown: the queue is emptied and the link goes down.\<close>
fun clean_high_prio :: "nat \<Rightarrow> QbbNic \<Rightarrow> QbbNic option" where
  "clean_high_prio 0 n = Some n"
| "clean_high_prio (Suc k) n =
    (if m_nPackets (nic_ackQ n) > 0 then Option.bind (dequeue_ack n) (\<lambda>(_, n). clean_high_prio k n) else Some n)"

definition TakeDown :: "QbbNic \<Rightarrow> QbbNic option" where
  "TakeDown n = map_option (\<lambda>n. n\<lparr>nic_linkUp := False\<rparr>) (clean_high_prio (unat (m_nPackets (nic_ackQ n))) n)"

definition RecoverQueue :: "nat \<Rightarrow> QbbNic \<times> RdmaHw \<Rightarrow> (QbbNic \<times> RdmaHw) option" where
  "RecoverQueue i s =
    (let (n, hw) = s; grp = nic_group n hw; q = hw_qps hw (grp ! i)
     in if i < length grp then Some (n, set_qp (grp ! i) (q\<lparr>snd_nxt := snd_una q\<rparr>) hw) else None)"

section \<open>Runs\<close>

datatype nic_event =
    TxDone
  | PfcFrame nat u32
  | PauseTimer nat
  | SendTimer
  | HighPriority NsPacket
  | Trigger
  | QpArrives nat
  | HostEvent host_event
  | LinkDown

fun nic_step :: "NicEnv \<Rightarrow> nic_event \<Rightarrow> QbbNic \<times> RdmaHw \<Rightarrow> (QbbNic \<times> RdmaHw) option" where
  "nic_step env TxDone (n, hw) = TransmitComplete env (n\<lparr>nic_txComplete := None\<rparr>, hw)"
| "nic_step env (PfcFrame q t) (n, hw) = ReceivePfc env q t (n, hw)"
| "nic_step env (PauseTimer q) (n, hw) = Resume env q (n\<lparr>nic_resumeEvt := (nic_resumeEvt n)(q := None)\<rparr>, hw)"
| "nic_step env SendTimer (n, hw) = DequeueAndTransmit env (n\<lparr>nic_nextSend := None\<rparr>, hw)"
| "nic_step env (HighPriority p) (n, hw) = Some (EnqueueHighPrioQ p n, hw)"
| "nic_step env Trigger (n, hw) = DequeueAndTransmit env (n, hw)"
| "nic_step env (QpArrives r) (n, hw) = NewQp env r (n, hw)"
| "nic_step env (HostEvent e) (n, hw) = map_option (\<lambda>hw. (n, hw)) (host_step (nic_env env n) e hw)"
| "nic_step env LinkDown (n, hw) = map_option (\<lambda>n. (n, hw)) (TakeDown n)"

text \<open>An event of the simulator runs at the time it is due, none is overdue.\<close>
fun event_due :: "NicEnv \<Rightarrow> nic_event \<Rightarrow> QbbNic \<Rightarrow> bool" where
  "event_due env TxDone n \<longleftrightarrow> nic_txComplete n = Some (n_now env)"
| "event_due env (PauseTimer q) n \<longleftrightarrow> nic_resumeEvt n q = Some (n_now env)"
| "event_due env SendTimer n \<longleftrightarrow> nic_nextSend n = Some (n_now env)"
| "event_due env (HighPriority p) n \<longleftrightarrow> 0 < p_size p \<and>
     pkt_bytes (m_packets (nic_ackQ n)) + unat (p_size p) < 0xffffffff"
| "event_due env _ n \<longleftrightarrow> True"

definition punctual :: "int \<Rightarrow> QbbNic \<Rightarrow> bool" where
  "punctual now n \<longleftrightarrow> (\<forall>d. nic_txComplete n = Some d \<longrightarrow> now \<le> d) \<and>
     (\<forall>q d. nic_resumeEvt n q = Some d \<longrightarrow> now \<le> d) \<and> (\<forall>d. nic_nextSend n = Some d \<longrightarrow> now \<le> d)"

inductive nic_reaches :: "int \<times> QbbNic \<times> RdmaHw \<Rightarrow> int \<times> QbbNic \<times> RdmaHw \<Rightarrow> bool" where
  nic_start: "nic_reaches s s"
| nic_next: "nic_reaches s (t, n, hw) \<Longrightarrow> t \<le> n_now env \<Longrightarrow> punctual (n_now env) n \<Longrightarrow> event_due env e n \<Longrightarrow>
    (\<forall>b. 0 \<le> n_txTime env b) \<Longrightarrow> nic_step env e (n, hw) = Some (n', hw') \<Longrightarrow> nic_reaches s (n_now env, n', hw')"

section \<open>What a step leaves alone\<close>

definition nic_frame where
  "nic_frame n = (nic_idx n, nic_gap n, nic_linkUp n, nic_paused n, nic_resumeEvt n, nic_qbbEnabled n, nic_mtu n)"

definition nic_line where
  "nic_line n = (nic_busy n, nic_current n, nic_txComplete n, nic_wire n)"

definition nic_acks where
  "nic_acks n = (nic_ackQ n, nic_store n, nic_uid n)"

lemmas nic_parts = nic_frame_def nic_line_def nic_acks_def

lemma nic_marks [simp]:
  "nic_frame (SetQpFinished i n) = nic_frame n" "nic_line (SetQpFinished i n) = nic_line n"
  "nic_acks (SetQpFinished i n) = nic_acks n" "nic_nextSend (SetQpFinished i n) = nic_nextSend n"
  "nic_frame (nic_blocked t f n) = nic_frame n" "nic_line (nic_blocked t f n) = nic_line n"
  "nic_acks (nic_blocked t f n) = nic_acks n" "nic_nextSend (nic_blocked t f n) = nic_nextSend n"
  "nic_frame (nic_served t f n) = nic_frame n" "nic_line (nic_served t f n) = nic_line n"
  "nic_acks (nic_served t f n) = nic_acks n" "nic_nextSend (nic_served t f n) = nic_nextSend n"
  by (simp_all add: nic_parts SetQpFinished_def nic_blocked_def nic_served_def split: option.split)

definition nic_same :: "QbbNic \<Rightarrow> QbbNic \<Rightarrow> bool" where
  "nic_same n n' \<longleftrightarrow> nic_frame n' = nic_frame n \<and> nic_line n' = nic_line n \<and> nic_acks n' = nic_acks n \<and>
     nic_nextSend n' = nic_nextSend n"

lemma nic_same_trans: "nic_same a b \<Longrightarrow> nic_same b c \<Longrightarrow> nic_same a c"
  by (simp add: nic_same_def)

lemma nic_same_sel:
  assumes "nic_same n n'"
  shows "nic_paused n' = nic_paused n" "nic_mtu n' = nic_mtu n" "nic_linkUp n' = nic_linkUp n"
    "nic_idx n' = nic_idx n" "nic_gap n' = nic_gap n" "nic_busy n' = nic_busy n" "nic_ackQ n' = nic_ackQ n"
    "nic_nextSend n' = nic_nextSend n" "nic_wire n' = nic_wire n" "nic_store n' = nic_store n"
    "nic_current n' = nic_current n"
  using assms by (simp_all add: nic_same_def nic_parts)

lemma nic_visit_same: "nic_visit env i c q n = Some (b, n') \<Longrightarrow> nic_same n n'"
  by (auto simp: nic_visit_def nic_same_def Let_def split: if_splits)

lemma nic_rr_same: "nic_rr env grp idxs n hw = Some (c, n', hw') \<Longrightarrow> nic_same n n'"
proof (induction env grp idxs n hw rule: nic_rr.induct)
  case (2 env grp i idxs n hw)
  then show ?case
    by (auto split: if_splits option.splits prod.splits bool.splits dest: nic_visit_same intro: nic_same_trans)
qed (simp add: nic_same_def)

lemma GetNextQindex_same: "GetNextQindex env n hw = Some (c, n', hw') \<Longrightarrow> nic_same n n'"
  by (auto simp: GetNextQindex_def Let_def nic_same_def split: if_splits option.splits
      dest: nic_rr_same[unfolded nic_same_def])

section \<open>Transmissions\<close>

definition sent :: "NicEnv \<Rightarrow> NsPacket \<Rightarrow> QbbNic \<Rightarrow> QbbNic \<Rightarrow> bool" where
  "sent env p n n' \<longleftrightarrow> \<not> nic_busy n \<and> nic_busy n' \<and> nic_current n' = Some p \<and>
     nic_txComplete n' = Some (n_now env + n_txTime env (p_size p) + nic_gap n) \<and>
     nic_wire n' = nic_wire n @ [(n_now env, n_txTime env (p_size p), p)]"

lemma TransmitStart_sent:
  "TransmitStart env p n = Some n' \<Longrightarrow> sent env p n n' \<and> nic_frame n' = nic_frame n \<and> nic_acks n' = nic_acks n \<and>
    nic_nextSend n' = nic_nextSend n"
  by (auto simp: TransmitStart_def Let_def sent_def nic_parts split: if_splits)

lemma sent_from: "sent env p k n' \<Longrightarrow> nic_line k = nic_line n \<Longrightarrow> nic_frame k = nic_frame n \<Longrightarrow> sent env p n n'"
  by (simp add: sent_def nic_parts)

lemma send_ack_cases:
  assumes "send_ack env (n, hw) = Some (n', hw')"
  shows "nic_frame n' = nic_frame n \<and> (\<exists>p. sent env p n n')"
proof -
  obtain p k where d: "dequeue_ack n = Some (Some p, k)" "TransmitStart env p (k\<lparr>nic_qlast := -1\<rparr>) = Some n'"
    using assms by (auto simp: send_ack_def bind_eq_Some_conv split: option.splits)
  have "nic_frame (k\<lparr>nic_qlast := -1\<rparr>) = nic_frame n" "nic_line (k\<lparr>nic_qlast := -1\<rparr>) = nic_line n"
    using d(1) by (auto simp: dequeue_ack_def nic_parts)
  then show ?thesis using TransmitStart_sent[OF d(2)] sent_from by metis
qed

lemma send_from_cases:
  assumes "send_from env i (n, hw) = Some (n', hw')"
  shows "nic_frame n' = nic_frame n \<and> (nic_line n' = nic_line n \<or> (\<exists>p. sent env p n n'))"
proof -
  let ?m = "n\<lparr>nic_rrlast := of_nat i, nic_qlast := int i\<rparr>"
  have m: "nic_frame ?m = nic_frame n" "nic_line ?m = nic_line n" by (simp_all add: nic_parts)
  obtain po h2 where g: "GetNxtPacket (nic_env env n) (nic_group n hw ! i) hw = Some (po, h2)"
    using assms by (auto simp: send_from_def Let_def bind_eq_Some_conv)
  show ?thesis
  proof (cases po)
    case None
    then have "n' = ?m" using assms g by (simp add: send_from_def Let_def)
    then show ?thesis using m by simp
  next
    case (Some p)
    then have "TransmitStart env p ?m = Some n'" using assms g by (auto simp: send_from_def Let_def)
    from TransmitStart_sent[OF this] show ?thesis using m sent_from by metis
  qed
qed

lemma wake_later_cases:
  "wake_later env (n, hw) = Some (n', hw') \<Longrightarrow> nic_frame n' = nic_frame n \<and> nic_line n' = nic_line n \<and> nic_acks n' = nic_acks n"
  by (auto simp: wake_later_def nic_parts split: option.splits if_splits)

text \<open>What DequeueAndTransmit does to the line: nothing, or one packet.\<close>
lemma transmit_cases:
  assumes "DequeueAndTransmit env (n, hw) = Some (n', hw')"
  shows "nic_frame n' = nic_frame n \<and> (nic_line n' = nic_line n \<or> (\<exists>p. sent env p n n'))"
proof (cases "\<not> nic_linkUp n \<or> nic_busy n")
  case True
  then show ?thesis using assms by (auto simp: DequeueAndTransmit_def)
next
  case up: False
  then obtain c m h where g: "GetNextQindex env n hw = Some (c, m, h)"
    and r: "(case c of HighPrio \<Rightarrow> send_ack env (m, h) | QueuePair i \<Rightarrow> send_from env i (m, h) | Nothing \<Rightarrow> wake_later env (m, h)) = Some (n', hw')"
    using assms up by (auto simp: DequeueAndTransmit_def split: option.splits)
  have S: "nic_frame m = nic_frame n" "nic_line m = nic_line n" using GetNextQindex_same[OF g] by (simp_all add: nic_same_def)
  have "nic_frame n' = nic_frame m \<and> (nic_line n' = nic_line m \<or> (\<exists>p. sent env p m n'))"
    using r send_ack_cases[of env m h n' hw'] send_from_cases[of env _ m h n' hw'] wake_later_cases[of env m h n' hw']
    by (cases c) auto
  then show ?thesis using S sent_from by metis
qed

end
