(* ===== verification/QbbWire.thy ===== *)
theory QbbWire
  imports QbbNic
begin

text \<open>
  What the interface of a host promises: one packet at a time on the wire, a class that is
  paused exactly as long as its timer runs, no failed assertion but for the frames that
  \<^verbatim>\<open>QbbNetDevice::Receive\<close> mishandles, and no idle line while
  something may be sent.
\<close>

section \<open>The invariant of a run\<close>

definition pending :: "QbbNic \<Rightarrow> NsPacket list" where
  "pending n = map (\<lambda>b. nic_store n (bp_uid b)) (m_packets (nic_ackQ n))"

definition acks_ok :: "QbbNic \<Rightarrow> bool" where
  "acks_ok n \<longleftrightarrow> dt_books (nic_ackQ n) \<and> dt_maxBytes (nic_ackQ n) = 0xffffffff \<and>
     (\<forall>b\<in>set (m_packets (nic_ackQ n)). bp_uid b < nic_uid n)"

text \<open>The line is free from here on.\<close>
definition line_free :: "int \<Rightarrow> QbbNic \<Rightarrow> int" where
  "line_free t n = (case nic_txComplete n of None \<Rightarrow> t | Some d \<Rightarrow> d)"

definition line_ok :: "int \<Rightarrow> QbbNic \<Rightarrow> bool" where
  "line_ok t n \<longleftrightarrow> (nic_busy n \<longleftrightarrow> nic_current n \<noteq> None) \<and> (nic_busy n \<longleftrightarrow> nic_txComplete n \<noteq> None) \<and>
     sorted_wrt (\<lambda>(s, d, _) (s', _, _). s + d + nic_gap n \<le> s') (nic_wire n) \<and>
     (\<forall>(s, d, _)\<in>set (nic_wire n). s + d + nic_gap n \<le> line_free t n) \<and>
     (\<forall>d. nic_txComplete n = Some d \<longrightarrow> t \<le> d \<and> (\<exists>ws s l p. nic_wire n = ws @ [(s, l, p)] \<and> d = s + l + nic_gap n))"

definition pauses_ok :: "int \<Rightarrow> QbbNic \<Rightarrow> bool" where
  "pauses_ok t n \<longleftrightarrow> (\<forall>q. nic_paused n q \<longleftrightarrow> nic_resumeEvt n q \<noteq> None) \<and> (\<forall>q d. nic_resumeEvt n q = Some d \<longrightarrow> t \<le> d)"

lemma line_ok_later:
  assumes "line_ok t n" "t \<le> t'" "punctual t' n"
  shows "line_ok t' n"
proof -
  have "line_free t n \<le> line_free t' n" using assms(2) by (simp add: line_free_def split: option.split)
  then show ?thesis using assms by (fastforce simp: line_ok_def punctual_def)
qed

lemma pauses_ok_later: "pauses_ok t n \<Longrightarrow> punctual t' n \<Longrightarrow> pauses_ok t' n"
  by (simp add: pauses_ok_def punctual_def)

lemma line_ok_same:
  assumes l: "line_ok t n" and e: "nic_line n' = nic_line n" "nic_gap n' = nic_gap n"
  shows "line_ok t n'"
proof -
  have q: "nic_busy n' = nic_busy n" "nic_current n' = nic_current n" "nic_txComplete n' = nic_txComplete n" "nic_wire n' = nic_wire n"
    using e(1) by (simp_all add: nic_line_def)
  show ?thesis using l unfolding line_ok_def line_free_def q e(2) .
qed

lemma line_ok_idle:
  assumes "line_ok t n" "nic_txComplete n = Some t"
  shows "line_ok t (n\<lparr>nic_txComplete := None, nic_busy := False, nic_current := None\<rparr>)"
  using assms by (simp add: line_ok_def line_free_def)

lemma line_ok_sent:
  assumes l: "line_ok (n_now env) n" and s: "sent env p n n'" "nic_gap n' = nic_gap n"
    and pos: "0 \<le> n_txTime env (p_size p)" "0 \<le> nic_gap n"
  shows "line_ok (n_now env) n'"
proof -
  have "nic_txComplete n = None" using l s by (auto simp: line_ok_def sent_def)
  then have "\<forall>(s, d, _)\<in>set (nic_wire n). s + d + nic_gap n \<le> n_now env" using l by (simp add: line_ok_def line_free_def)
  then show ?thesis using l s pos by (fastforce simp: line_ok_def line_free_def sent_def sorted_wrt_append)
qed

lemma transmit_line_ok:
  assumes "DequeueAndTransmit env (n, hw) = Some (n', hw')" "line_ok (n_now env) n" "\<forall>b. 0 \<le> n_txTime env b" "0 \<le> nic_gap n"
  shows "line_ok (n_now env) n' \<and> nic_frame n' = nic_frame n"
proof -
  have f: "nic_frame n' = nic_frame n" and c: "nic_line n' = nic_line n \<or> (\<exists>p. sent env p n n')"
    using transmit_cases[OF assms(1)] by simp_all
  have "nic_gap n' = nic_gap n" using f by (simp add: nic_frame_def)
  then show ?thesis using f c line_ok_same[OF assms(2)] line_ok_sent[OF assms(2)] assms(3,4) by blast
qed


section \<open>Every step keeps it\<close>

lemma clean_frame: "clean_high_prio k n = Some n' \<Longrightarrow> nic_frame n' = nic_frame n \<and> nic_line n' = nic_line n \<and> nic_nextSend n' = nic_nextSend n"
proof (induction k arbitrary: n)
  case (Suc k)
  have d: "nic_frame m = nic_frame n \<and> nic_line m = nic_line n \<and> nic_nextSend m = nic_nextSend n" if "dequeue_ack n = Some (p, m)" for p m
    using that by (auto simp: dequeue_ack_def nic_parts)
  show ?case using Suc.prems Suc.IH d by (auto simp: bind_eq_Some_conv split: if_splits)
qed simp

lemma frame_sel:
  assumes "nic_frame n' = nic_frame n"
  shows "nic_gap n' = nic_gap n" "nic_linkUp n' = nic_linkUp n" "nic_paused n' = nic_paused n" "nic_resumeEvt n' = nic_resumeEvt n"
    "nic_qbbEnabled n' = nic_qbbEnabled n" "nic_idx n' = nic_idx n"
  using assms by (simp_all add: nic_frame_def)

definition run_ok :: "int \<Rightarrow> QbbNic \<Rightarrow> bool" where
  "run_ok t n \<longleftrightarrow> line_ok t n \<and> pauses_ok t n"

lemma transmit_run_ok:
  assumes "DequeueAndTransmit env (n, hw) = Some (n', hw')" "run_ok (n_now env) n" "\<forall>b. 0 \<le> n_txTime env b" "0 \<le> nic_gap n"
  shows "run_ok (n_now env) n' \<and> nic_gap n' = nic_gap n"
  using transmit_line_ok[OF assms(1) _ assms(3,4)] assms(2) frame_sel[of n' n] by (auto simp: run_ok_def pauses_ok_def)

lemma resume_run_ok:
  assumes "Resume env q (n, hw) = Some (n', hw')" "line_ok (n_now env) n" "pauses_ok (n_now env) (n\<lparr>nic_paused := (nic_paused n)(q := False)\<rparr>)"
    "\<forall>b. 0 \<le> n_txTime env b" "0 \<le> nic_gap n"
  shows "run_ok (n_now env) n' \<and> nic_gap n' = nic_gap n"
proof -
  let ?n = "n\<lparr>nic_paused := (nic_paused n)(q := False)\<rparr>"
  have "line_ok (n_now env) ?n" by (rule line_ok_same[OF assms(2)]) (simp_all add: nic_line_def)
  then have "run_ok (n_now env) ?n" using assms(3) by (simp add: run_ok_def)
  moreover have "DequeueAndTransmit env (?n, hw) = Some (n', hw')" using assms(1) by (simp add: Resume_def split: if_splits)
  ultimately show ?thesis using transmit_run_ok[of env ?n hw n' hw'] assms(4,5) by simp
qed

lemma step_run_ok:
  assumes st: "nic_step env e (n, hw) = Some (n', hw')" and due: "event_due env e n"
    and ok: "run_ok (n_now env) n" and pos: "\<forall>b. 0 \<le> n_txTime env b" "0 \<le> nic_gap n"
  shows "run_ok (n_now env) n' \<and> nic_gap n' = nic_gap n"
proof -
  let ?t = "n_now env"
  have l: "line_ok ?t n" and p: "pauses_ok ?t n" using ok by (simp_all add: run_ok_def)
  show ?thesis
  proof (cases e)
    case TxDone
    let ?n = "n\<lparr>nic_txComplete := None, nic_busy := False, nic_current := None\<rparr>"
    have "run_ok ?t ?n" using line_ok_idle[OF l] due p TxDone by (simp add: run_ok_def pauses_ok_def)
    moreover have "DequeueAndTransmit env (?n, hw) = Some (n', hw')"
      using st TxDone by (simp add: TransmitComplete_def split: if_splits)
    ultimately show ?thesis using transmit_run_ok[of env ?n hw n' hw'] pos by simp
  next
    case (PfcFrame q d)
    show ?thesis
    proof (cases "\<not> nic_linkUp n \<or> n_corrupt env \<or> \<not> nic_qbbEnabled n")
      case True
      then show ?thesis using st PfcFrame ok by (simp add: ReceivePfc_def)
    next
      case False
      let ?n = "n\<lparr>nic_resumeEvt := (nic_resumeEvt n)(q := None)\<rparr>"
      let ?k = "n\<lparr>nic_paused := (nic_paused n)(q := True), nic_resumeEvt := (nic_resumeEvt n)(q \<mapsto> ?t + 1000 * int (unat d))\<rparr>"
      have g: "line_ok ?t ?n" "line_ok ?t ?k" by (rule line_ok_same[OF l]; simp add: nic_line_def)+
      show ?thesis
      proof (cases "d > 0")
        case True
        then have "n' = ?k" using st PfcFrame False by (simp add: ReceivePfc_def split: if_splits)
        then show ?thesis using g p by (simp add: run_ok_def pauses_ok_def)
      next
        case no: False
        then have "Resume env q (?n, hw) = Some (n', hw')" using st PfcFrame False by (simp add: ReceivePfc_def split: if_splits)
        from resume_run_ok[OF this] show ?thesis using g p pos by (simp add: pauses_ok_def)
      qed
    qed
  next
    case (PauseTimer q)
    let ?n = "n\<lparr>nic_resumeEvt := (nic_resumeEvt n)(q := None)\<rparr>"
    have "line_ok ?t ?n" by (rule line_ok_same[OF l]) (simp_all add: nic_line_def)
    moreover have "Resume env q (?n, hw) = Some (n', hw')" using st PauseTimer by simp
    ultimately show ?thesis using resume_run_ok[of env q ?n hw n' hw'] p pos by (simp add: pauses_ok_def)
  next
    case SendTimer
    let ?n = "n\<lparr>nic_nextSend := None\<rparr>"
    have "line_ok ?t ?n" by (rule line_ok_same[OF l]) (simp_all add: nic_line_def)
    then have "run_ok ?t ?n" using p by (simp add: run_ok_def pauses_ok_def)
    then show ?thesis using transmit_run_ok[of env ?n hw n' hw'] st SendTimer pos by simp
  next
    case (HighPriority pk)
    then have "n' = EnqueueHighPrioQ pk n" using st by simp
    then have "line_ok ?t n'" "pauses_ok ?t n'" "nic_gap n' = nic_gap n"
      using line_ok_same[OF l, of n'] p by (simp_all add: EnqueueHighPrioQ_def nic_line_def pauses_ok_def)
    then show ?thesis by (simp add: run_ok_def)
  next
    case Trigger
    then show ?thesis using transmit_run_ok[of env n hw n' hw'] st ok pos by simp
  next
    case (QpArrives r)
    then show ?thesis using transmit_run_ok[of env n _ n' hw'] st ok pos by (auto simp: NewQp_def)
  next
    case (HostEvent h)
    then show ?thesis using st ok by auto
  next
    case LinkDown
    then obtain k where k: "clean_high_prio (unat (m_nPackets (nic_ackQ n))) n = Some k" "n' = k\<lparr>nic_linkUp := False\<rparr>"
      using st by (auto simp: TakeDown_def)
    then have "nic_line n' = nic_line n" "nic_gap n' = nic_gap n" "nic_paused n' = nic_paused n" "nic_resumeEvt n' = nic_resumeEvt n"
      using clean_frame[OF k(1)] by (simp_all add: nic_parts)
    then show ?thesis using line_ok_same[OF l, of n'] p by (simp add: run_ok_def pauses_ok_def)
  qed
qed

lemma reaches_run_ok:
  assumes "nic_reaches (t0, nic_setup hw0 (QbbNic_ctor i gap qbb p0), hw0) (t, n, hw)" "0 \<le> gap"
  shows "run_ok t n \<and> nic_gap n = gap"
proof -
  have "case s of (t, n, hw) \<Rightarrow> run_ok t n \<and> nic_gap n = gap"
    if "nic_reaches s0 s" "s0 = (t0, nic_setup hw0 (QbbNic_ctor i gap qbb p0), hw0)" for s0 s
    using that
  proof (induction rule: nic_reaches.induct)
    case (nic_start s)
    then show ?case by (simp add: run_ok_def line_ok_def pauses_ok_def nic_setup_def QbbNic_ctor_def)
  next
    case (nic_next s t n hw env e n' hw')
    then have "run_ok t n" "nic_gap n = gap" by simp_all
    then have "run_ok (n_now env) n" using nic_next(2,3) line_ok_later pauses_ok_later by (auto simp: run_ok_def)
    from step_run_ok[OF nic_next(6,4) this nic_next(5)] show ?case using \<open>nic_gap n = gap\<close> assms(2) by simp
  qed
  from this[OF assms(1)] show ?thesis by simp
qed


section \<open>When the choice and the transport answer\<close>

lemma choice_same:
  assumes "qps_ok hw" "GetNextCreditBouncerQindex env grp l hw = Some (sel, hw')"
  shows "same_offer hw hw'"
proof (cases "h_senderSchedPolicy (cfg hw)")
  case CB_SCHED_SRPT
  then show ?thesis using choice_same_mixed[OF assms(1) _ assms(2)] by simp
next
  case CB_SCHED_RR
  show ?thesis
  proof (cases "h_creditbouncer (cfg hw) \<and> grp \<noteq> []")
    case True
    then show ?thesis using choice_offers_rr[OF assms(1), of grp env l] assms(2) CB_SCHED_RR
      by (auto simp: GetNextCreditBouncerQindex_def)
  qed (use assms(2) CB_SCHED_RR in \<open>auto simp: GetNextCreditBouncerQindex_def GetNextCreditBouncerQindex_rr_def\<close>)
qed

lemma choice_grp:
  assumes "same_offer hw hw'"
  shows "cfg hw' = cfg hw" "q_enabled (hw_qps hw' r) = q_enabled (hw_qps hw r)"
    "bytes_left (hw_qps hw' r) = bytes_left (hw_qps hw r)" "q_nextAvail (hw_qps hw' r) = q_nextAvail (hw_qps hw r)"
    "IsWinBound (hw_qps hw' r) = IsWinBound (hw_qps hw r)"
proof -
  have u: "unmarked (hw_qps hw' r) = unmarked (hw_qps hw r)" using assms by (simp add: same_offer_def)
  have "GetWin q = GetWin (unmarked q)" "GetOnTheFly q = GetOnTheFly (unmarked q)" for q
    by (simp_all add: unmarked_def GetWin_def GetOnTheFly_def)
  then have w: "IsWinBound q = IsWinBound (unmarked q)" for q by (simp only: IsWinBound_def)
  show "IsWinBound (hw_qps hw' r) = IsWinBound (hw_qps hw r)" using w u by metis
  show "cfg hw' = cfg hw" using assms by (simp add: same_offer_def)
  show "q_enabled (hw_qps hw' r) = q_enabled (hw_qps hw r)" "bytes_left (hw_qps hw' r) = bytes_left (hw_qps hw r)"
    "q_nextAvail (hw_qps hw' r) = q_nextAvail (hw_qps hw r)"
    using unmarked_sel[OF u] by (simp_all add: bytes_left_def)
qed

text \<open>The window of every queue pair in the group can be computed.\<close>
definition windows_ok :: "NicEnv \<Rightarrow> nat list \<Rightarrow> RdmaHw \<Rightarrow> bool" where
  "windows_ok env grp hw \<longleftrightarrow> (\<forall>r\<in>set grp. n_ccRate env r \<or> IsWinBound (hw_qps hw r) \<noteq> None)"

lemma plain_ready_spec:
  assumes "qps_ok hw" "n_ccRate env r \<or> IsWinBound (hw_qps hw r) \<noteq> None"
  shows "\<exists>b. plain_ready env mtu r hw = Some (b, hw) \<and> (b \<longrightarrow> \<not> q_enabled (hw_qps hw r))"
proof -
  have "window_allows env mtu r (hw_qps hw r) \<noteq> None" using assms(2) by (auto simp: window_allows_def)
  then obtain w where "window_allows env mtu r (hw_qps hw r) = Some w" by blast
  then show ?thesis using assms(1) by (auto simp: plain_ready_def qps_ok_def GetBytesLeft_no_sack)
qed

lemma nic_visit_served:
  "nic_visit env i c q n = Some (b, n') \<Longrightarrow> b \<Longrightarrow> c \<and> \<not> nic_paused n (unat (m_pg q)) \<and> q_nextAvail q \<le> n_now env"
  by (auto simp: nic_visit_def paused_at_def Let_def SetQpFinished_def split: if_splits)

lemma nic_visit_total: "qps_ok hw \<Longrightarrow> \<exists>v n1. nic_visit env i b (hw_qps hw r) n = Some (v, n1)"
  by (simp add: nic_visit_def qps_ok_paused)

lemma nic_rr_spec:
  assumes "qps_ok hw" "windows_ok env grp hw" "\<forall>i\<in>set idxs. i < length grp"
  shows "\<exists>c n'. nic_rr env grp idxs n hw = Some (c, n', hw) \<and> c \<noteq> HighPrio \<and> (\<forall>i. c = QueuePair i \<longrightarrow> i \<in> set idxs \<and>
    \<not> q_enabled (hw_qps hw (grp ! i)) \<and> \<not> nic_paused n (unat (m_pg (hw_qps hw (grp ! i)))) \<and>
    q_nextAvail (hw_qps hw (grp ! i)) \<le> n_now env)"
  using assms(3)
proof (induction idxs arbitrary: n)
  case (Cons i idxs)
  show ?case
  proof (cases "IsQpFinished n i")
    case False
    have "n_ccRate env (grp ! i) \<or> IsWinBound (hw_qps hw (grp ! i)) \<noteq> None" using assms(2) Cons.prems by (simp add: windows_ok_def)
    then obtain b where b: "plain_ready env (nic_mtu n) (grp ! i) hw = Some (b, hw)" "b \<longrightarrow> \<not> q_enabled (hw_qps hw (grp ! i))"
      using plain_ready_spec[OF assms(1)] by blast
    obtain v n1 where v: "nic_visit env i b (hw_qps hw (grp ! i)) n = Some (v, n1)"
      using nic_visit_total[OF assms(1)] by blast
    show ?thesis
    proof (cases v)
      case True
      then show ?thesis using False b v nic_visit_served[OF v] by simp
    next
      case nv: False
      have "nic_paused n1 = nic_paused n" using nic_visit_same[OF v] by (simp add: nic_same_def nic_frame_def)
      moreover obtain c n' where "nic_rr env grp idxs n1 hw = Some (c, n', hw)" "c \<noteq> HighPrio"
        "\<forall>i. c = QueuePair i \<longrightarrow> i \<in> set idxs \<and> \<not> q_enabled (hw_qps hw (grp ! i)) \<and>
          \<not> nic_paused n1 (unat (m_pg (hw_qps hw (grp ! i)))) \<and> q_nextAvail (hw_qps hw (grp ! i)) \<le> n_now env"
        using Cons.IH[of n1] Cons.prems by auto
      ultimately show ?thesis using False b(1) v nv by auto
    qed
  next
    case True
    then show ?thesis using Cons.IH[of n] Cons.prems by auto
  qed
qed simp

lemma next_avail_spec:
  "qps_ok hw \<Longrightarrow> \<exists>t'. next_avail now rs t hw = Some (t', hw) \<and>
    t' = (let F = {q_nextAvail (hw_qps hw r) |r. r \<in> set rs \<and> bytes_left (hw_qps hw r) \<noteq> 0 \<and> now < q_nextAvail (hw_qps hw r)} \<union> set_option t
          in if F = {} then None else Some (Min F))"
proof (induction rs arbitrary: t)
  case Nil
  then show ?case by (cases t) auto
next
  case (Cons r rs)
  let ?q = "hw_qps hw r"
  let ?F = "\<lambda>rs. {q_nextAvail (hw_qps hw r) |r. r \<in> set rs \<and> bytes_left (hw_qps hw r) \<noteq> 0 \<and> now < q_nextAvail (hw_qps hw r)}"
  let ?t = "if bytes_left ?q = 0 \<or> q_nextAvail ?q \<le> now then t
           else Some (case t of None \<Rightarrow> q_nextAvail ?q | Some t \<Rightarrow> min (q_nextAvail ?q) t)"
  have fin: "finite (?F rs)" by (rule finite_subset[of _ "(\<lambda>r. q_nextAvail (hw_qps hw r)) ` set rs"]) auto
  have g: "GetBytesLeft ?q = Some (bytes_left ?q, ?q)" using Cons.prems by (simp add: qps_ok_def GetBytesLeft_no_sack)
  obtain t' where t': "next_avail now rs ?t hw = Some (t', hw)" "t' = (let F = ?F rs \<union> set_option ?t in if F = {} then None else Some (Min F))"
    using Cons.IH[OF Cons.prems, of ?t] by blast
  have "t' = (let F = ?F (r # rs) \<union> set_option t in if F = {} then None else Some (Min F))"
  proof (cases "bytes_left ?q = 0 \<or> q_nextAvail ?q \<le> now")
    case True
    then have "?F (r # rs) = ?F rs" by auto
    then show ?thesis using t'(2) True by simp
  next
    case False
    then have F: "?F (r # rs) = insert (q_nextAvail ?q) (?F rs)" by auto
    have M: "Min (insert (min a b) S) = Min (insert a (insert b S))" if "finite S" for a b :: int and S
      using that by (cases "S = {}") (simp_all add: min.assoc)
    show ?thesis unfolding t'(2) F using False fin
      by (cases t) (simp_all add: M insert_commute)
  qed
  then show ?case using g t'(1) by simp
qed


lemma GetNextQindex_total:
  assumes "qps_ok hw" "windows_ok env (nic_group n hw) hw"
  shows "\<exists>c n' hw'. GetNextQindex env n hw = Some (c, n', hw') \<and> qps_ok hw' \<and>
    (c = HighPrio \<longleftrightarrow> \<not> nic_paused n (ack_q_idx env) \<and> m_nPackets (nic_ackQ n) > 0)"
proof (cases "\<not> nic_paused n (ack_q_idx env) \<and> m_nPackets (nic_ackQ n) > 0")
  case True
  then show ?thesis using assms(1) by (simp add: GetNextQindex_def)
next
  case no: False
  let ?g = "nic_group n hw" and ?l = "nic_rrlast n"
  obtain sel h where c: "GetNextCreditBouncerQindex (nic_env env n) ?g ?l hw = Some (sel, h)"
    using choice_total[OF assms(1), of "nic_env env n" ?g ?l] by fastforce
  have s: "same_offer hw h" by (rule choice_same[OF assms(1) c])
  have ns: "qps_ok h" by (rule qps_ok_same[OF s assms(1)])
  show ?thesis
  proof (cases sel)
    case (Some i)
    then show ?thesis using no c ns by (auto simp: GetNextQindex_def Let_def)
  next
    case None
    let ?is = "map (\<lambda>qIndex. (qIndex + unat ?l) mod length ?g) [1..<Suc (length ?g)]"
    have "\<forall>i\<in>set ?is. i < length ?g" by (cases "?g = []") auto
    moreover have "windows_ok env ?g h" using assms(2) by (simp add: windows_ok_def choice_grp(5)[OF s])
    ultimately obtain c' n' where "nic_rr env ?g ?is n h = Some (c', n', h)" "c' \<noteq> HighPrio"
      using nic_rr_spec[OF ns] by blast
    then show ?thesis using no c None ns by (auto simp: GetNextQindex_def Let_def simp del: upt_Suc)
  qed
qed

lemma packet_asked_total: "qps_ok hw \<Longrightarrow> \<exists>x. GetNxtPacket env r hw = Some x"
  by (auto simp: qps_ok_def GetNxtPacket_def Let_def GetBytesLeft_no_sack)

lemma acks_nonempty: "acks_ok n \<Longrightarrow> m_nPackets (nic_ackQ n) > 0 \<longleftrightarrow> m_packets (nic_ackQ n) \<noteq> []"
  by (simp add: acks_ok_def dt_books_def word_less_nat_alt)

lemma dequeue_ack_spec:
  assumes "acks_ok n" "m_packets (nic_ackQ n) \<noteq> []"
  shows "\<exists>n'. dequeue_ack n = Some (Some (hd (pending n)), n') \<and> pending n' = tl (pending n) \<and> acks_ok n' \<and>
    nic_frame n' = nic_frame n \<and> nic_line n' = nic_line n \<and> nic_nextSend n' = nic_nextSend n \<and>
    length (m_packets (nic_ackQ n')) < length (m_packets (nic_ackQ n))"
proof -
  obtain b bs where b: "m_packets (nic_ackQ n) = b # bs" using assms(2) by (cases "m_packets (nic_ackQ n)") auto
  obtain d where d: "DropTail_Dequeue (nic_ackQ n) = Some (Some b, d)" "m_packets d = bs" "dt_books d"
    "dt_maxBytes d = dt_maxBytes (nic_ackQ n)"
    using DropTail_Dequeue_books[OF _ b] assms(1) by (auto simp: acks_ok_def)
  show ?thesis using assms(1) b d by (simp add: dequeue_ack_def pending_def acks_ok_def nic_parts)
qed

lemma pending_nonempty: "acks_ok n \<Longrightarrow> m_nPackets (nic_ackQ n) > 0 \<longleftrightarrow> pending n \<noteq> []"
  by (simp add: acks_nonempty pending_def)

lemma enqueue_ack_spec:
  assumes "acks_ok n" "0 < p_size p" "pkt_bytes (m_packets (nic_ackQ n)) + unat (p_size p) < 0xffffffff"
  shows "acks_ok (EnqueueHighPrioQ p n) \<and> pending (EnqueueHighPrioQ p n) = pending n @ [p]"
proof -
  let ?b = "\<lparr>bp_size = p_size p, bp_flowNum = p_flowNum p, bp_uid = nic_uid n\<rparr>"
  obtain d where "DropTail_Enqueue ?b (nic_ackQ n) = (True, d)" "m_packets d = m_packets (nic_ackQ n) @ [?b]"
    "dt_books d" "dt_maxBytes d = dt_maxBytes (nic_ackQ n)"
    using DropTail_Enqueue_books[of "nic_ackQ n" ?b] assms by (auto simp: acks_ok_def)
  then show ?thesis using assms(1) by (auto simp: EnqueueHighPrioQ_def acks_ok_def pending_def)
qed

lemma TransmitStart_idle: "\<not> nic_busy n \<Longrightarrow> \<exists>n'. TransmitStart env p n = Some n' \<and> sent env p n n' \<and> nic_frame n' = nic_frame n \<and> nic_acks n' = nic_acks n \<and> nic_nextSend n' = nic_nextSend n"
  using TransmitStart_sent[of env p n] by (simp add: TransmitStart_def Let_def)

lemma acks_ok_same: "nic_acks n' = nic_acks n \<Longrightarrow> acks_ok n' = acks_ok n \<and> pending n' = pending n"
  by (simp add: nic_acks_def acks_ok_def pending_def)

lemma send_ack_spec:
  assumes "acks_ok n" "pending n \<noteq> []" "\<not> nic_busy n"
  shows "\<exists>n'. send_ack env (n, hw) = Some (n', hw) \<and> sent env (hd (pending n)) n n' \<and> pending n' = tl (pending n) \<and> acks_ok n' \<and>
    nic_frame n' = nic_frame n \<and> nic_nextSend n' = nic_nextSend n"
proof -
  obtain k where k: "dequeue_ack n = Some (Some (hd (pending n)), k)" "pending k = tl (pending n)" "acks_ok k"
    "nic_frame k = nic_frame n" "nic_line k = nic_line n" "nic_nextSend k = nic_nextSend n"
    using dequeue_ack_spec[OF assms(1)] assms(2) by (auto simp: pending_def)
  let ?k = "k\<lparr>nic_qlast := -1\<rparr>"
  have e: "nic_frame ?k = nic_frame n" "nic_line ?k = nic_line n" "nic_acks ?k = nic_acks k" using k by (simp_all add: nic_parts)
  then have "\<not> nic_busy ?k" using assms(3) by (simp add: nic_line_def)
  then obtain n' where n': "TransmitStart env (hd (pending n)) ?k = Some n'" "sent env (hd (pending n)) ?k n'" "nic_acks n' = nic_acks ?k"
    "nic_frame n' = nic_frame ?k" "nic_nextSend n' = nic_nextSend ?k"
    using TransmitStart_idle by blast
  have "sent env (hd (pending n)) n n'" by (rule sent_from[OF n'(2) e(2,1)])
  moreover have "acks_ok n'" "pending n' = tl (pending n)" using acks_ok_same[of n' k] n'(3) e(3) k by simp_all
  moreover have "nic_frame n' = nic_frame n" "nic_nextSend n' = nic_nextSend n" using n'(4,5) e(1) k(6) by simp_all
  ultimately show ?thesis using k(1) n'(1) by (simp add: send_ack_def)
qed

lemma transmit_ack:
  assumes "nic_linkUp n" "\<not> nic_busy n" "acks_ok n" "\<not> nic_paused n (ack_q_idx env)" "pending n \<noteq> []"
  shows "\<exists>n'. DequeueAndTransmit env (n, hw) = Some (n', hw) \<and> sent env (hd (pending n)) n n' \<and> pending n' = tl (pending n) \<and>
    acks_ok n' \<and> nic_frame n' = nic_frame n \<and> nic_nextSend n' = nic_nextSend n"
  using send_ack_spec[OF assms(3,5,2), of env hw] assms pending_nonempty[OF assms(3)]
  by (simp add: DequeueAndTransmit_def GetNextQindex_def)

lemma send_from_total:
  assumes "qps_ok hw" "\<not> nic_busy n"
  shows "\<exists>n' hw'. send_from env i (n, hw) = Some (n', hw') \<and> nic_acks n' = nic_acks n"
proof -
  let ?m = "n\<lparr>nic_rrlast := of_nat i, nic_qlast := int i\<rparr>"
  obtain po h where g: "GetNxtPacket (nic_env env n) (nic_group n hw ! i) hw = Some (po, h)"
    using packet_asked_total[OF assms(1), of "nic_env env n" "nic_group n hw ! i"] by fastforce
  have a: "nic_acks ?m = nic_acks n" by (simp add: nic_acks_def)
  show ?thesis
  proof (cases po)
    case (Some p)
    obtain n' where "TransmitStart env p ?m = Some n'" "nic_acks n' = nic_acks ?m"
      using TransmitStart_idle[of ?m env p] assms(2) by auto
    then show ?thesis using g Some a by (simp add: send_from_def Let_def)
  qed (use g a in \<open>simp add: send_from_def Let_def\<close>)
qed

lemma wake_later_total:
  "qps_ok hw \<Longrightarrow> \<exists>n' hw'. wake_later env (n, hw) = Some (n', hw') \<and> nic_acks n' = nic_acks n"
  using next_avail_spec[of hw "n_now env" "nic_group n hw" None]
  by (auto simp: wake_later_def nic_acks_def split: option.split)

lemma transmit_total:
  assumes "acks_ok n" "qps_ok hw" "windows_ok env (nic_group n hw) hw"
  shows "\<exists>n' hw'. DequeueAndTransmit env (n, hw) = Some (n', hw') \<and> acks_ok n'"
proof (cases "\<not> nic_linkUp n \<or> nic_busy n")
  case False
  obtain c m h where c: "GetNextQindex env n hw = Some (c, m, h)" "qps_ok h"
    "c = HighPrio \<longleftrightarrow> \<not> nic_paused n (ack_q_idx env) \<and> m_nPackets (nic_ackQ n) > 0"
    using GetNextQindex_total[OF assms(2,3)] by blast
  have S: "nic_line m = nic_line n" "nic_acks m = nic_acks n" using GetNextQindex_same[OF c(1)] by (simp_all add: nic_same_def)
  then have b: "\<not> nic_busy m" using False by (simp add: nic_line_def)
  have a: "acks_ok m" "pending m = pending n" using acks_ok_same[OF S(2)] assms(1) by simp_all
  have "\<exists>n' hw'. (case c of HighPrio \<Rightarrow> send_ack env (m, h) | QueuePair i \<Rightarrow> send_from env i (m, h) | Nothing \<Rightarrow> wake_later env (m, h))
      = Some (n', hw') \<and> acks_ok n'"
  proof (cases c)
    case HighPrio
    then have "pending m \<noteq> []" using c(3) pending_nonempty[OF assms(1)] a by simp
    then show ?thesis using send_ack_spec[OF a(1) _ b, of env h] HighPrio by auto
  next
    case (QueuePair i)
    then obtain n' hw' where "send_from env i (m, h) = Some (n', hw')" "nic_acks n' = nic_acks m"
      using send_from_total[OF c(2) b] by blast
    then show ?thesis using acks_ok_same[of n' m] a(1) QueuePair by simp
  next
    case Nothing
    then obtain n' hw' where "wake_later env (m, h) = Some (n', hw')" "nic_acks n' = nic_acks m"
      using wake_later_total[OF c(2)] by blast
    then show ?thesis using acks_ok_same[of n' m] a(1) Nothing by simp
  qed
  then show ?thesis using False c(1) by (simp add: DequeueAndTransmit_def)
qed (use assms(1) in \<open>auto simp: DequeueAndTransmit_def\<close>)

lemma clean_total:
  "acks_ok n \<Longrightarrow> \<exists>n'. clean_high_prio k n = Some n' \<and> acks_ok n' \<and> (length (m_packets (nic_ackQ n)) \<le> k \<longrightarrow> pending n' = [])"
proof (induction k arbitrary: n)
  case (Suc k)
  show ?case
  proof (cases "m_packets (nic_ackQ n) = []")
    case False
    obtain m where m: "dequeue_ack n = Some (Some (hd (pending n)), m)" "acks_ok m"
      "length (m_packets (nic_ackQ m)) < length (m_packets (nic_ackQ n))"
      using dequeue_ack_spec[OF Suc.prems False] by blast
    obtain n' where "clean_high_prio k m = Some n'" "acks_ok n'" "length (m_packets (nic_ackQ m)) \<le> k \<longrightarrow> pending n' = []"
      using Suc.IH[OF m(2)] by blast
    moreover have "m_nPackets (nic_ackQ n) > 0" using False acks_nonempty[OF Suc.prems] by simp
    ultimately show ?thesis using m(1,3) by simp
  next
    case True
    then have "\<not> m_nPackets (nic_ackQ n) > 0" using acks_nonempty[OF Suc.prems] by simp
    then show ?thesis using Suc.prems True by (simp add: pending_def)
  qed
qed (simp add: pending_def)


lemma nic_rr_choice: "nic_rr env grp idxs n hw = Some (HighPrio, x) \<Longrightarrow> False"
proof (induction idxs arbitrary: n hw)
  case (Cons i idxs)
  show ?case using Cons.prems
    by (auto split: if_splits option.splits prod.splits bool.splits dest: Cons.IH)
qed simp

lemma transmit_acks_ok:
  assumes "DequeueAndTransmit env (n, hw) = Some (n', hw')" "acks_ok n"
  shows "acks_ok n'"
proof (cases "\<not> nic_linkUp n \<or> nic_busy n")
  case True
  then show ?thesis using assms by (auto simp: DequeueAndTransmit_def)
next
  case up: False
  then obtain c m h where g: "GetNextQindex env n hw = Some (c, m, h)"
    and r: "(case c of HighPrio \<Rightarrow> send_ack env (m, h) | QueuePair i \<Rightarrow> send_from env i (m, h) | Nothing \<Rightarrow> wake_later env (m, h)) = Some (n', hw')"
    using assms(1) by (auto simp: DequeueAndTransmit_def split: option.splits)
  have S: "nic_line m = nic_line n" "nic_acks m = nic_acks n" using GetNextQindex_same[OF g] by (simp_all add: nic_same_def)
  have b: "\<not> nic_busy m" using S(1) up by (simp add: nic_line_def)
  have a: "acks_ok m" "pending m = pending n" using acks_ok_same[OF S(2)] assms(2) by simp_all
  show ?thesis
  proof (cases c)
    case HighPrio
    then have "m_nPackets (nic_ackQ n) > 0"
      using g by (auto simp: GetNextQindex_def Let_def dest: nic_rr_choice split: if_splits option.splits)
    then have "pending m \<noteq> []" using pending_nonempty[OF assms(2)] a by simp
    then show ?thesis using send_ack_spec[OF a(1) _ b, of env h] r HighPrio by auto
  next
    case (QueuePair i)
    let ?m = "m\<lparr>nic_rrlast := of_nat i, nic_qlast := int i\<rparr>"
    have k: "nic_acks ?m = nic_acks m" by (simp add: nic_acks_def)
    have "send_from env i (m, h) = Some (n', hw')" using r QueuePair by simp
    then have "nic_acks n' = nic_acks m" using k
      by (auto simp: send_from_def Let_def bind_eq_Some_conv dest!: TransmitStart_sent split: option.splits)
    from acks_ok_same[OF this] show ?thesis using a(1) by simp
  next
    case Nothing
    then have "nic_acks n' = nic_acks m" using wake_later_cases[of env m h n' hw'] r by simp
    from acks_ok_same[OF this] show ?thesis using a(1) by simp
  qed
qed

lemma step_acks_ok:
  assumes "nic_step env e (n, hw) = Some (n', hw')" "event_due env e n" "acks_ok n"
  shows "acks_ok n'"
proof -
  have "acks_ok m" if "nic_acks m = nic_acks n" for m using acks_ok_same[OF that] assms(3) by simp
  note T = transmit_acks_ok[OF _ this]
  show ?thesis
  proof (cases e)
    case (HighPriority p)
    then show ?thesis using enqueue_ack_spec[OF assms(3)] assms(1,2) by auto
  next
    case LinkDown
    then obtain k where "clean_high_prio (unat (m_nPackets (nic_ackQ n))) n = Some k" "n' = k\<lparr>nic_linkUp := False\<rparr>"
      using assms(1) by (auto simp: TakeDown_def)
    moreover have "acks_ok (k\<lparr>nic_linkUp := False\<rparr>) = acks_ok k" by (simp add: acks_ok_def)
    ultimately show ?thesis using clean_total[OF assms(3), of "unat (m_nPackets (nic_ackQ n))"] by auto
  next
    case (PfcFrame q d)
    show ?thesis
    proof (cases "Resume env q (n\<lparr>nic_resumeEvt := (nic_resumeEvt n)(q := None)\<rparr>, hw) = Some (n', hw')")
      case True
      then show ?thesis using T by (simp add: Resume_def nic_acks_def split: if_splits)
    next
      case False
      then have "nic_acks n' = nic_acks n" using assms(1) PfcFrame by (auto simp: ReceivePfc_def nic_acks_def split: if_splits)
      from acks_ok_same[OF this] show ?thesis using assms(3) by simp
    qed
  next
    case TxDone
    then show ?thesis using T assms(1) by (simp add: TransmitComplete_def nic_acks_def split: if_splits)
  next
    case (PauseTimer q)
    then show ?thesis using T assms(1) by (simp add: Resume_def nic_acks_def split: if_splits)
  next
    case SendTimer
    then show ?thesis using T assms(1) by (simp add: nic_acks_def)
  next
    case Trigger
    then show ?thesis using T assms(1) by simp
  next
    case (QpArrives r)
    then show ?thesis using T assms(1) by (auto simp: NewQp_def)
  next
    case (HostEvent h)
    then show ?thesis using assms(1,3) by auto
  qed
qed

lemma reaches_acks_ok:
  assumes "nic_reaches (t0, nic_setup hw0 (QbbNic_ctor i gap qbb p0), hw0) (t, n, hw)"
  shows "acks_ok n"
proof -
  have "case s of (t, n, hw) \<Rightarrow> acks_ok n"
    if "nic_reaches s0 s" "s0 = (t0, nic_setup hw0 (QbbNic_ctor i gap qbb p0), hw0)" for s0 s
    using that
  proof (induction rule: nic_reaches.induct)
    case (nic_start s)
    then show ?case
      by (simp add: acks_ok_def dt_books_def nic_setup_def QbbNic_ctor_def DropTail_ctor_def)
  next
    case (nic_next s t n hw env e n' hw')
    then show ?case using step_acks_ok[OF nic_next(6,4)] by simp
  qed
  from this[OF assms] show ?thesis by simp
qed


section \<open>One packet at a time\<close>

text \<open>C17: a host puts one packet at a time on its wire.  Over any run of an interface from its
  start (arrivals of PFC frames, expiring pauses, wake-ups, acknowledgements to send, new queue
  pairs, events of the transport, the loss of the link), with every event at the time it is
  due, each transmission begins only after the one before it has ended and the inter-frame
  gap has passed; and while the interface is busy exactly one completion is scheduled, at the
  end of the transmission under way plus the gap.\<close>
theorem nic_wire_serial:
  assumes run: "nic_reaches (t0, nic_setup hw0 (QbbNic_ctor i gap qbb p0), hw0) (t, n, hw)" and gap: "0 \<le> gap"
  shows "sorted_wrt (\<lambda>(s, d, _) (s', _, _). s + d + gap \<le> s') (nic_wire n) \<and>
    nic_txComplete n = (if nic_busy n then Some (case last (nic_wire n) of (s, d, _) \<Rightarrow> s + d + gap) else None)"
proof -
  have l: "line_ok t n" and g: "nic_gap n = gap" using reaches_run_ok[OF run gap] by (simp_all add: run_ok_def)
  have "nic_txComplete n = (if nic_busy n then Some (case last (nic_wire n) of (s, d, _) \<Rightarrow> s + d + gap) else None)"
  proof (cases "nic_txComplete n")
    case None
    then have "\<not> nic_busy n" using l unfolding line_ok_def by blast
    then show ?thesis using None by simp
  next
    case (Some d)
    then obtain ws s k p where "nic_wire n = ws @ [(s, k, p)]" "d = s + k + gap" using l g unfolding line_ok_def by blast
    moreover have "nic_busy n" using l Some unfolding line_ok_def by blast
    ultimately show ?thesis using Some by simp
  qed
  moreover have "sorted_wrt (\<lambda>(s, d, _) (s', _, _). s + d + gap \<le> s') (nic_wire n)"
    using l unfolding line_ok_def g by blast
  ultimately show ?thesis by blast
qed

text \<open>Two acknowledgements of 64 bytes handed to an idle interface with a gap of 2.\<close>
definition wire_env :: "int \<Rightarrow> NicEnv" where
  "wire_env now = \<lparr>n_host = mixed_env\<lparr>h_now := now\<rparr>, n_txTime = (\<lambda>b. int (unat b)), n_qpTime = (\<lambda>_ b. int (unat b)),
     n_ccRate = (\<lambda>_. False), n_ackHighPrio = False, n_corrupt = False\<rparr>"

definition wire_pkt :: NsPacket where "wire_pkt = data1\<lparr>p_size := 64\<rparr>"

definition wire_host :: RdmaHw where "wire_host = mixed_host\<lparr>hw_qpGrp := (\<lambda>_. [0, 1])\<rparr>"

definition wire_nic :: QbbNic where "wire_nic = nic_setup wire_host (QbbNic_ctor 0 2 True wire_pkt)"

lemma wire_env_sel [simp]:
  "n_now (wire_env t) = t" "n_txTime (wire_env t) b = int (unat b)" "n_ccRate (wire_env t) r = False"
  "ack_q_idx (wire_env t) = 3" "n_corrupt (wire_env t) = False" "p_size wire_pkt = 64" "n_host (wire_env t) = mixed_env\<lparr>h_now := t\<rparr>"
  by (simp_all add: ack_q_idx_def wire_env_def n_now_def wire_pkt_def)

lemma wire_nic_sel [simp]:
  "nic_linkUp wire_nic" "nic_busy wire_nic = False" "nic_paused wire_nic = (\<lambda>_. False)" "nic_nextSend wire_nic = None"
  "nic_txComplete wire_nic = None" "nic_resumeEvt wire_nic = (\<lambda>_. None)" "nic_wire wire_nic = []" "nic_qbbEnabled wire_nic"
  "nic_gap wire_nic = 2" "pending wire_nic = []" "acks_ok wire_nic" "nic_idx wire_nic = 0" "pkt_bytes (m_packets (nic_ackQ wire_nic)) = 0"
  "m_packets (nic_ackQ wire_nic) = []" "nic_rrlast wire_nic = 0" "nic_finished wire_nic = (\<lambda>_. False)"
  by (simp_all add: wire_nic_def nic_setup_def QbbNic_ctor_def pending_def acks_ok_def DropTail_ctor_def dt_books_def)

lemma enqueue_ack_frame [simp]:
  "nic_frame (EnqueueHighPrioQ p n) = nic_frame n" "nic_line (EnqueueHighPrioQ p n) = nic_line n"
  "nic_nextSend (EnqueueHighPrioQ p n) = nic_nextSend n"
  by (simp_all add: EnqueueHighPrioQ_def nic_parts)

lemma wire_reached:
  "\<exists>n. nic_reaches (0, wire_nic, wire_host) (66, n, wire_host) \<and> nic_busy n \<and>
     nic_wire n = [(0, 64, wire_pkt), (66, 64, wire_pkt)]"
proof -
  let ?n1 = "EnqueueHighPrioQ wire_pkt wire_nic"
  let ?n2 = "EnqueueHighPrioQ wire_pkt ?n1"
  have a1: "acks_ok ?n1" "pending ?n1 = [wire_pkt]" using enqueue_ack_spec[of wire_nic wire_pkt] by simp_all
  have b1: "pkt_bytes (m_packets (nic_ackQ ?n1)) = 64"
    using DropTail_Enqueue_books[of "nic_ackQ wire_nic" "\<lparr>bp_size = 64, bp_flowNum = p_flowNum wire_pkt, bp_uid = nic_uid wire_nic\<rparr>"]
      wire_nic_sel(11) by (auto simp: EnqueueHighPrioQ_def acks_ok_def pkt_bytes_def)
  have a2: "acks_ok ?n2" "pending ?n2 = [wire_pkt, wire_pkt]" using enqueue_ack_spec[OF a1(1), of wire_pkt] b1 a1(2) by simp_all
  have f: "nic_frame ?n2 = nic_frame wire_nic" "nic_line ?n2 = nic_line wire_nic" "nic_frame ?n1 = nic_frame wire_nic"
    "nic_line ?n1 = nic_line wire_nic" "nic_nextSend ?n2 = None" "nic_nextSend ?n1 = None" by simp_all
  have r1: "nic_reaches (0, wire_nic, wire_host) (0, ?n1, wire_host)"
    using nic_next[OF nic_start[of "(0, wire_nic, wire_host)"], of "wire_env 0" "HighPriority wire_pkt" ?n1 wire_host]
    by (simp add: punctual_def)
  have r2: "nic_reaches (0, wire_nic, wire_host) (0, ?n2, wire_host)"
    using nic_next[OF r1, of "wire_env 0" "HighPriority wire_pkt" ?n2 wire_host] b1 f
    by (simp add: punctual_def nic_frame_def nic_line_def)
  have i2: "nic_linkUp ?n2" "\<not> nic_busy ?n2" "\<not> nic_paused ?n2 (ack_q_idx (wire_env 0))" "pending ?n2 \<noteq> []"
    using f a2 by (simp_all add: nic_frame_def nic_line_def)
  obtain n3 where n3: "DequeueAndTransmit (wire_env 0) (?n2, wire_host) = Some (n3, wire_host)" "sent (wire_env 0) wire_pkt ?n2 n3"
    "pending n3 = [wire_pkt]" "acks_ok n3" "nic_frame n3 = nic_frame ?n2" "nic_nextSend n3 = None"
    using transmit_ack[OF i2(1,2) a2(1) i2(3,4), of wire_host] a2(2) f by auto
  have r3: "nic_reaches (0, wire_nic, wire_host) (0, n3, wire_host)"
    using nic_next[OF r2, of "wire_env 0" Trigger n3 wire_host] n3(1) f by (simp add: punctual_def nic_frame_def nic_line_def)
  have s3: "nic_wire n3 = [(0, 64, wire_pkt)]" "nic_txComplete n3 = Some 66" "nic_current n3 = Some wire_pkt" "nic_busy n3"
    "nic_resumeEvt n3 = (\<lambda>_. None)" "nic_linkUp n3" "nic_paused n3 = (\<lambda>_. False)" "nic_gap n3 = 2"
    using n3(2,5) f by (simp_all add: sent_def nic_frame_def nic_line_def)
  let ?n4 = "n3\<lparr>nic_txComplete := None, nic_busy := False, nic_current := None\<rparr>"
  have a4: "acks_ok ?n4" "pending ?n4 = [wire_pkt]" using n3(3,4) by (simp_all add: acks_ok_def pending_def)
  obtain n5 where n5: "DequeueAndTransmit (wire_env 66) (?n4, wire_host) = Some (n5, wire_host)" "sent (wire_env 66) wire_pkt ?n4 n5"
    using transmit_ack[OF _ _ a4(1), of "wire_env 66" wire_host] a4(2) s3 by auto
  have "nic_step (wire_env 66) TxDone (n3, wire_host) = Some (n5, wire_host)"
    using n5(1) s3 by (simp add: TransmitComplete_def)
  then have "nic_reaches (0, wire_nic, wire_host) (66, n5, wire_host)"
    using nic_next[OF r3, of "wire_env 66" TxDone n5 wire_host] s3 n3(6) by (simp add: punctual_def)
  moreover have "nic_wire n5 = [(0, 64, wire_pkt), (66, 64, wire_pkt)]" "nic_busy n5" using n5(2) s3(1) by (simp_all add: sent_def)
  ultimately show ?thesis by blast
qed

theorem nic_wire_serial_witness:
  "\<exists>n :: QbbNic. nic_wire n = [(0, 64, wire_pkt), (66, 64, wire_pkt)] \<and> nic_txComplete n = Some 132 \<and>
    sorted_wrt (\<lambda>(s, d, _) (s', _, _). s + d + 2 \<le> s') (nic_wire n)"
proof -
  obtain n where n: "nic_reaches (0, wire_nic, wire_host) (66, n, wire_host)" "nic_busy n"
    "nic_wire n = [(0, 64, wire_pkt), (66, 64, wire_pkt)]" using wire_reached by blast
  have "nic_txComplete n = Some 132" "sorted_wrt (\<lambda>(s, d, _) (s', _, _). s + d + 2 \<le> s') (nic_wire n)"
    using nic_wire_serial[OF n(1)[unfolded wire_nic_def]] n(2,3) by simp_all
  then show ?thesis using n(3) by blast
qed

end
