(* ===== verification/QbbServe.thy ===== *)
theory QbbServe
  imports QbbWire
begin

text \<open>
  What the interface of a host does with a due event: when it fails, and what it puts on
  the wire when the line is free.
\<close>

section \<open>Which events fail\<close>

lemma transmit_not_None:
  assumes "acks_ok n" "qps_ok hw" "windows_ok env (nic_group n hw) hw"
  shows "DequeueAndTransmit env (n, hw) \<noteq> None"
  using transmit_total[OF assms] by auto

lemma windows_ok_available:
  "windows_ok env grp (set_qp r ((hw_qps hw r)\<lparr>q_nextAvail := t\<rparr>) hw) = windows_ok env grp hw"
proof -
  have "GetWin (q\<lparr>q_nextAvail := t\<rparr>) = GetWin q" "GetOnTheFly (q\<lparr>q_nextAvail := t\<rparr>) = GetOnTheFly q" for q
    by (simp_all add: GetWin_def GetOnTheFly_def)
  then have "IsWinBound (q\<lparr>q_nextAvail := t\<rparr>) = IsWinBound q" for q by (simp only: IsWinBound_def)
  then show ?thesis by (auto simp: windows_ok_def)
qed

text \<open>C18: which events fail on the interface of a host.  In any state a run has reached, provided that
  no queue pair holds blocks of selective acknowledgements, that the class of every queue pair is
  below 8 and that the window of every queue pair of the interface can be computed, an event that is
  due, other than one inside the transport, fails exactly if it is a PFC frame that the interface
  reads (link up, not corrupted, PFC on) for a class past the eight it has, or a resume frame for a
  class that is not paused, which is the case once its pause timer has run out.  A queue pair of a
  higher class is outside: the choice would read a pause flag past the end of the table.\<close>
theorem nic_fails_iff:
  assumes run: "nic_reaches (t0, nic_setup hw0 (QbbNic_ctor i gap qbb p0), hw0) (t, n, hw)" "0 \<le> gap"
    and due: "event_due env e n" and host: "qps_ok hw" "windows_ok env (nic_group n hw) hw" and own: "\<forall>h. e \<noteq> HostEvent h"
  shows "nic_step env e (n, hw) = None \<longleftrightarrow>
    (\<exists>q d. e = PfcFrame q d \<and> nic_linkUp n \<and> \<not> n_corrupt env \<and> nic_qbbEnabled n \<and>
       (q \<ge> nic_qCnt \<or> d = 0 \<and> \<not> nic_paused n q))"
proof -
  have a: "acks_ok n" by (rule reaches_acks_ok[OF run(1)])
  have l: "nic_busy n \<longleftrightarrow> nic_current n \<noteq> None" "nic_busy n \<longleftrightarrow> nic_txComplete n \<noteq> None"
    and p: "\<And>q. nic_paused n q \<longleftrightarrow> nic_resumeEvt n q \<noteq> None"
    using reaches_run_ok[OF run] unfolding run_ok_def line_ok_def pauses_ok_def by blast+
  have T: "DequeueAndTransmit env (m, hw) \<noteq> None" if "nic_acks m = nic_acks n" "nic_idx m = nic_idx n" for m
    using transmit_not_None[of m hw env] acks_ok_same[OF that(1)] a host that(2) by (simp add: nic_group_def)
  show ?thesis
  proof (cases e)
    case TxDone
    then have "nic_busy n" "nic_current n \<noteq> None" using due l by simp_all
    then show ?thesis using TxDone T by (simp add: TransmitComplete_def nic_acks_def)
  next
    case (PauseTimer q)
    then have "nic_paused n q" using due p by simp
    then show ?thesis using PauseTimer T by (simp add: Resume_def nic_acks_def)
  next
    case (PfcFrame q d)
    then show ?thesis using T by (auto simp: ReceivePfc_def Resume_def nic_acks_def not_less word_gt_0)
  next
    case (QpArrives r)
    let ?hw = "set_qp r ((hw_qps hw r)\<lparr>q_nextAvail := n_now env\<rparr>) hw"
    have "qps_ok ?hw" using host(1) by (simp add: qps_ok_def)
    moreover have "windows_ok env (nic_group n ?hw) ?hw" using host(2) by (simp add: nic_group_def windows_ok_available)
    ultimately show ?thesis using transmit_not_None[OF a] QpArrives by (simp add: NewQp_def)
  next
    case LinkDown
    then show ?thesis using clean_total[OF a, of "unat (m_nPackets (nic_ackQ n))"] by (auto simp: TakeDown_def)
  qed (use T own in \<open>auto simp: nic_acks_def\<close>)
qed

text \<open>The pause flag of a class past the eight is not in the table.\<close>
lemma nic_visit_outside: "8 \<le> unat (m_pg q) \<Longrightarrow> nic_visit env i c q n = None"
  by (simp add: nic_visit_def paused_at_def)

text \<open>A resume frame for a class whose pause has expired.\<close>
theorem nic_fails_iff_witness:
  "nic_step (wire_env 5) (PfcFrame 3 0) (wire_nic, wire_host) = None"
proof -
  have "qps_ok wire_host" using mixed_host_ok(3) by (simp add: qps_ok_def wire_host_def)
  moreover have "windows_ok (wire_env 5) (nic_group wire_nic wire_host) wire_host"
    by (auto simp: windows_ok_def nic_group_def wire_host_def mixed_host_sel mixed_qp_def RdmaQueuePair_ctor_def IsWinBound_def GetWin_def)
  moreover have "nic_reaches (0, nic_setup wire_host (QbbNic_ctor 0 2 True wire_pkt), wire_host) (0, wire_nic, wire_host)"
    unfolding wire_nic_def by (rule nic_start)
  ultimately show ?thesis
    using nic_fails_iff[of 0 wire_host 0 2 True wire_pkt 0 wire_nic wire_host "wire_env 5" "PfcFrame 3 0"]
    by simp
qed

section \<open>What is served\<close>

interpretation group_choice: choice_keeps "\<lambda>h. hw_qpGrp h = g" for g
  by unfold_locales simp_all

text \<open>A host that runs DPDQ: its queue pairs are of the classes 0 to 7 and hold no blocks of
  selective acknowledgements, those on this interface carry credit, sizes and credit are not near the ends of their words, and under the mixed policy its receivers list the
  messages of the interface.\<close>
definition dpdq_host :: "NicEnv \<Rightarrow> QbbNic \<Rightarrow> RdmaHw \<Rightarrow> bool" where
  "dpdq_host env n hw \<longleftrightarrow> qps_ok hw \<and> windows_ok env (nic_group n hw) hw \<and> h_creditbouncer (cfg hw) \<and>
     16 \<le> unat (h_mtu (cfg hw)) \<and>
     (\<forall>r\<in>set (nic_group n hw). q_enabled (hw_qps hw r) \<and> unat (m_size (hw_qps hw r)) < 2 ^ 32 \<and>
        unat (avail_of hw (q_dip (hw_qps hw r))) < 2 ^ 63) \<and>
     (h_senderSchedPolicy (cfg hw) = CB_SCHED_SRPT \<longrightarrow>
        registered (nic_env env n) (nic_group n hw) hw \<and> receivers_all sched_nonneg hw)"

text \<open>When the interface wakes up: the first time one of its queue pairs with bytes left is due.\<close>
definition wake_time :: "NicEnv \<Rightarrow> QbbNic \<Rightarrow> RdmaHw \<Rightarrow> int option" where
  "wake_time env n hw =
    (let F = {q_nextAvail (hw_qps hw r) |r. r \<in> set (nic_group n hw) \<and> bytes_left (hw_qps hw r) \<noteq> 0 \<and> n_now env < q_nextAvail (hw_qps hw r)}
     in if F = {} then None else Some (Min F))"

lemma choice_group:
  assumes "GetNextCreditBouncerQindex env grp l hw = Some (sel, hw')"
  shows "nic_group n hw' = nic_group n hw"
  using group_choice.chosen[OF _ assms] by (simp add: nic_group_def)

lemma offered_sends_same:
  assumes s: "same_offer hw h" and d: "dpdq_host env n hw" and o: "offerable (nic_env env n) (nic_group n hw) hw i"
  shows "\<exists>p h'. GetNxtPacket (nic_env env n) (nic_group n hw ! i) h = Some (Some p, h')"
proof -
  let ?r = "nic_group n hw ! i"
  have u: "unmarked (hw_qps h ?r) = unmarked (hw_qps hw ?r)" "avail_of h a = avail_of hw a" "cfg h = cfg hw" for a
    using s by (simp_all add: same_offer_def)
  have r: "?r \<in> set (nic_group n hw)" using o by (simp add: offerable_def)
  have "due (nic_env env n) h ?r \<and> credit_covers h (avail_of h (q_dip (hw_qps h ?r))) ?r"
    using o offerable_same[OF s, of "nic_env env n" "nic_group n hw" i] by (simp add: offerable_def)
  then have due: "due (nic_env env n) h ?r" "credit_covers h (avail_of h (q_dip (hw_qps h ?r))) ?r" by simp_all
  have D: "qps_ok hw" "h_creditbouncer (cfg hw)" "16 \<le> unat (h_mtu (cfg hw))" "unat (m_size (hw_qps hw ?r)) < 2 ^ 32"
    "unat (avail_of hw (q_dip (hw_qps hw ?r))) < 2 ^ 63" using d r unfolding dpdq_host_def by blast+
  show ?thesis
    by (rule offered_sends[OF qps_ok_same[OF s D(1)] _ _ _ _ due]) (use D u unmarked_sel(1,3)[OF u(1)] in simp_all)
qed


text \<open>The transport's choice on such a host: a queue pair the interface may send from, if there
  is one, and nothing of the host changes but what the choice remembers.\<close>
lemma dpdq_choice:
  assumes "dpdq_host env n hw"
  obtains sel h where "GetNextCreditBouncerQindex (nic_env env n) (nic_group n hw) (nic_rrlast n) hw = Some (sel, h)"
    "same_offer hw h" "nic_group n h = nic_group n hw"
    "sel = None \<Longrightarrow> \<forall>i. \<not> offerable (nic_env env n) (nic_group n hw) hw i"
    "\<And>i. sel = Some i \<Longrightarrow> offerable (nic_env env n) (nic_group n hw) hw i"
proof -
  define grp where "grp = nic_group n hw"
  note H = assms[unfolded dpdq_host_def, folded grp_def]
  have "\<exists>sel h. GetNextCreditBouncerQindex (nic_env env n) grp (nic_rrlast n) hw = Some (sel, h) \<and> same_offer hw h \<and>
    (sel = None \<longrightarrow> (\<forall>i. \<not> offerable (nic_env env n) grp hw i)) \<and> (\<forall>i. sel = Some i \<longrightarrow> offerable (nic_env env n) grp hw i)"
  proof (cases "grp = []")
    case True
    obtain sel h where c: "GetNextCreditBouncerQindex (nic_env env n) grp (nic_rrlast n) hw = Some (sel, h)"
      using choice_total[of hw "nic_env env n" grp "nic_rrlast n"] H by fastforce
    have "sel = None" using c True
      by (auto simp: GetNextCreditBouncerQindex_def GetNextCreditBouncerQindex_rr_def GetNextCreditBouncerQindex_mixed_def
          split: CreditBouncerSchedPolicy.splits)
    then show ?thesis using c choice_same[OF _ c] H True by (auto simp: offerable_def)
  qed (use choice_offers[of hw grp "nic_env env n" "nic_rrlast n"] H in blast)
  then show thesis using choice_group that unfolding grp_def by blast
qed

text \<open>When a queue pair is chosen, its next packet goes on the wire.\<close>
lemma transmit_chosen:
  assumes up: "nic_linkUp n" "\<not> nic_busy n" and acks: "acks_ok n" and host: "dpdq_host env n hw"
    and no: "\<not> (\<not> nic_paused n (ack_q_idx env) \<and> m_nPackets (nic_ackQ n) > 0)"
    and c: "GetNextCreditBouncerQindex (nic_env env n) (nic_group n hw) (nic_rrlast n) hw = Some (Some i, h)"
    and h: "same_offer hw h" "nic_group n h = nic_group n hw" "offerable (nic_env env n) (nic_group n hw) hw i"
  shows "\<exists>n' p h'. DequeueAndTransmit env (n, hw) = Some (n', PktSent env (nic_gap n') (nic_group n hw ! i) p h') \<and>
    GetNxtPacket (nic_env env n) (nic_group n hw ! i) h = Some (Some p, h') \<and> sent env p n n' \<and> pending n' = pending n"
proof -
  have g: "GetNextQindex env n hw = Some (QueuePair i, n, h)" using no c by (simp add: GetNextQindex_def Let_def)
  obtain p h' where p: "GetNxtPacket (nic_env env n) (nic_group n hw ! i) h = Some (Some p, h')"
    using offered_sends_same[OF h(1) host h(3)] by blast
  let ?m = "n\<lparr>nic_rrlast := of_nat i, nic_qlast := int i\<rparr>"
  have e: "nic_line ?m = nic_line n" "nic_frame ?m = nic_frame n" "nic_acks ?m = nic_acks n" by (simp_all add: nic_parts)
  obtain n' where n': "TransmitStart env p ?m = Some n'" "sent env p ?m n'" "nic_acks n' = nic_acks ?m"
    using TransmitStart_idle[of ?m env p] up by auto
  have "sent env p n n'" by (rule sent_from[OF n'(2) e(1,2)])
  moreover have "pending n' = pending n" using acks_ok_same[of n' n] n'(3) e(3) acks by simp
  moreover have "DequeueAndTransmit env (n, hw) = Some (n', PktSent env (nic_gap n') (nic_group n hw ! i) p h')"
    using up g p n'(1) h(2) by (simp add: DequeueAndTransmit_def send_from_def Let_def)
  ultimately show ?thesis using p by blast
qed

text \<open>When none is, the round over the queue pairs without credit finds nothing either, and the
  interface arranges to wake up.\<close>
lemma transmit_nothing:
  assumes up: "nic_linkUp n" "\<not> nic_busy n" and acks: "acks_ok n" and host: "dpdq_host env n hw"
    and no: "\<not> (\<not> nic_paused n (ack_q_idx env) \<and> m_nPackets (nic_ackQ n) > 0)"
    and c: "GetNextCreditBouncerQindex (nic_env env n) (nic_group n hw) (nic_rrlast n) hw = Some (None, h)"
    and h: "same_offer hw h" "nic_group n h = nic_group n hw"
  shows "\<exists>n'. DequeueAndTransmit env (n, hw) = Some (n', h) \<and> nic_line n' = nic_line n \<and> pending n' = pending n \<and>
    nic_nextSend n' = (if nic_nextSend n = None then wake_time env n hw else nic_nextSend n)"
proof -
  define grp where "grp = nic_group n hw"
  note H = host[unfolded dpdq_host_def, folded grp_def]
  let ?is = "map (\<lambda>qIndex. (qIndex + unat (nic_rrlast n)) mod length grp) [1..<Suc (length grp)]"
  have ns: "qps_ok h" using qps_ok_same[OF h(1)] H by blast
  have w: "windows_ok env grp h" using H by (simp add: windows_ok_def choice_grp(5)[OF h(1)])
  have i: "\<forall>i\<in>set ?is. i < length grp" by (cases "grp = []") auto
  obtain k m where k: "nic_rr env grp ?is n h = Some (k, m, h)" "k \<noteq> HighPrio"
    "\<forall>i. k = QueuePair i \<longrightarrow> i \<in> set ?is \<and> \<not> q_enabled (hw_qps h (grp ! i))"
    using nic_rr_spec[OF ns w i, of n] by blast
  have "q_enabled (hw_qps h (grp ! i))" if "i \<in> set ?is" for i
  proof -
    have "grp ! i \<in> set grp" using i that by (metis nth_mem)
    then show ?thesis using H choice_grp(2)[OF h(1)] by simp
  qed
  then have "k = Nothing" using k(2,3) by (cases k) auto
  then have g: "GetNextQindex env n hw = Some (Nothing, m, h)"
    using no c k(1) by (simp add: GetNextQindex_def Let_def grp_def del: upt_Suc)
  have S: "nic_line m = nic_line n" "nic_acks m = nic_acks n" "nic_nextSend m = nic_nextSend n" "nic_group m h = grp"
    using GetNextQindex_same[OF g] h(2) by (simp_all add: nic_same_def nic_group_def nic_frame_def grp_def)
  obtain t where t: "next_avail (n_now env) grp None h = Some (t, h)" "t = wake_time env n hw"
    using next_avail_spec[OF ns, of "n_now env" grp None] choice_grp(3,4)[OF h(1)]
    by (auto simp: wake_time_def grp_def)
  let ?n' = "case t of None \<Rightarrow> m | Some t \<Rightarrow> if nic_nextSend m = None then m\<lparr>nic_nextSend := Some t\<rparr> else m"
  have "DequeueAndTransmit env (n, hw) = Some (?n', h)"
    using up g t(1) S(4) by (simp add: DequeueAndTransmit_def wake_later_def)
  moreover have "nic_line ?n' = nic_line n" "nic_acks ?n' = nic_acks n"
    "nic_nextSend ?n' = (if nic_nextSend n = None then wake_time env n hw else nic_nextSend n)"
    using S t(2) by (auto simp: nic_parts split: option.split)
  moreover have "pending ?n' = pending n" using acks_ok_same[of ?n' n] calculation(3) acks by simp
  ultimately show ?thesis by blast
qed

text \<open>C16: the interface of a DPDQ host never idles.  When its link is up and the line is free,
  a call to DequeueAndTransmit puts a packet on the wire exactly when there is one it may send:
  the oldest pending acknowledgement or credit packet if their class is not paused; otherwise a
  packet of the queue pair the transport chooses, which is due, in a class that is not paused
  and covered by credit; and only if no queue pair of the group is of that kind it sends nothing
  and makes sure it wakes up when the first of its queue pairs with bytes left is due.\<close>
theorem nic_work_conserving:
  assumes up: "nic_linkUp n" "\<not> nic_busy n" and acks: "acks_ok n" and host: "dpdq_host env n hw"
  defines "grp \<equiv> nic_group n hw"
  shows "\<exists>n' hw'. DequeueAndTransmit env (n, hw) = Some (n', hw') \<and>
    (if \<not> nic_paused n (ack_q_idx env) \<and> pending n \<noteq> []
     then sent env (hd (pending n)) n n' \<and> pending n' = tl (pending n)
     else if \<exists>i. offerable (nic_env env n) grp hw i
     then \<exists>i p h h'. offerable (nic_env env n) grp hw i \<and>
            GetNextCreditBouncerQindex (nic_env env n) grp (nic_rrlast n) hw = Some (Some i, h) \<and>
            GetNxtPacket (nic_env env n) (grp ! i) h = Some (Some p, h') \<and> sent env p n n' \<and> pending n' = pending n
     else nic_line n' = nic_line n \<and> pending n' = pending n \<and>
          nic_nextSend n' = (if nic_nextSend n = None then wake_time env n hw else nic_nextSend n))"
proof (cases "\<not> nic_paused n (ack_q_idx env) \<and> pending n \<noteq> []")
  case True
  then show ?thesis using transmit_ack[OF up acks, of env hw] by auto
next
  case no: False
  then have na: "\<not> (\<not> nic_paused n (ack_q_idx env) \<and> m_nPackets (nic_ackQ n) > 0)" using pending_nonempty[OF acks] by simp
  obtain sel h where c: "GetNextCreditBouncerQindex (nic_env env n) grp (nic_rrlast n) hw = Some (sel, h)"
    "same_offer hw h" "nic_group n h = grp" "sel = None \<Longrightarrow> \<forall>i. \<not> offerable (nic_env env n) grp hw i"
    "\<And>i. sel = Some i \<Longrightarrow> offerable (nic_env env n) grp hw i"
    using dpdq_choice[OF host] unfolding grp_def by blast
  show ?thesis
  proof (cases sel)
    case (Some i)
    then show ?thesis
      using no c(1) c(5)[OF Some]
        transmit_chosen[OF up acks host na c(1)[unfolded Some grp_def] c(2) c(3)[unfolded grp_def] c(5)[OF Some, unfolded grp_def],
          folded grp_def] by auto
  next
    case None
    then show ?thesis
      using no c(4)[OF None] transmit_nothing[OF up acks host na c(1)[unfolded None grp_def] c(2) c(3)[unfolded grp_def]] by auto
  qed
qed

lemma wire_nic_env: "nic_env (wire_env 0) wire_nic = mixed_env"
proof -
  have "IsQpFinished wire_nic = (\<lambda>_. False)" by (simp add: fun_eq_iff IsQpFinished_def)
  then show ?thesis by (simp add: nic_env_def mixed_env_def)
qed

lemma wire_host_sel:
  "nic_group wire_nic wire_host = [0, 1]" "cfg wire_host = mixed_cfg" "qps_ok wire_host"
  "hw_qps wire_host = (\<lambda>r. if r = 0 then mixed_qp 7 3000 else mixed_qp 8 2000)"
  "m_receiverStates wire_host = [7 \<mapsto> mixed_rs 0, 8 \<mapsto> mixed_rs 1]"
  using mixed_host_ok(3) by (simp_all add: nic_group_def wire_host_def mixed_host_sel qps_ok_def)

lemma wire_qp_sel [simp]: "q_dip (mixed_qp d n) = d" "q_usnsolCheckDone (mixed_qp d n) = False" "IsWinBound (mixed_qp d n) = Some False"
  by (simp_all add: mixed_qp_def RdmaQueuePair_ctor_def IsWinBound_def GetWin_def)

lemma wire_dpdq_host: "dpdq_host (wire_env 0) wire_nic wire_host"
proof -
  have "registered mixed_env [0, 1] wire_host"
    by (auto simp: registered_def wire_host_sel in_group_def less_Suc_eq numeral_2_eq_2)
  moreover have "receivers_all sched_nonneg wire_host"
    by (simp add: receivers_all_def sched_nonneg_def wire_host_sel)
  moreover have "windows_ok (wire_env 0) [0, 1] wire_host" by (auto simp: windows_ok_def wire_host_sel)
  ultimately show ?thesis by (simp add: dpdq_host_def wire_nic_env wire_host_sel avail_of_def)
qed

theorem nic_work_conserving_witness:
  "\<exists>n' hw' p. DequeueAndTransmit (wire_env 0) (wire_nic, wire_host) = Some (n', hw') \<and> sent (wire_env 0) p wire_nic n'"
proof -
  have "offerable mixed_env [0, 1] wire_host 0"
    by (simp add: offerable_def due_def credit_covers_def wire_host_sel bytes_left_def avail_of_def mixed_wire)
  then have "\<exists>i. offerable (nic_env (wire_env 0) wire_nic) (nic_group wire_nic wire_host) wire_host i"
    by (auto simp: wire_nic_env wire_host_sel)
  then show ?thesis
    using nic_work_conserving[OF _ _ _ wire_dpdq_host] by simp blast
qed

end
