(* ===== verification/HeaderBytes.thy ===== *)
theory HeaderBytes
  imports RdmaState
begin

text \<open>
  The bytes of a packet in dpdq-ns3: reading and writing of \<^verbatim>\<open>network/model/buffer.{h,cc}\<close>,
  and the headers \<^verbatim>\<open>ppp-header\<close>, \<^verbatim>\<open>qbb-header\<close>,
  \<^verbatim>\<open>cn-header\<close> and \<^verbatim>\<open>pause-header\<close> of
  \<^verbatim>\<open>point-to-point/model\<close>, \<^verbatim>\<open>ipv4-header\<close>,
  \<^verbatim>\<open>udp-header\<close> and \<^verbatim>\<open>seq-ts-header\<close> of
  \<^verbatim>\<open>internet/model\<close>, \<^verbatim>\<open>int-header\<close> and
  \<^verbatim>\<open>custom-header\<close> of \<^verbatim>\<open>network/utils\<close>.

  A buffer is the list of its bytes; an iterator is what is left of it.  Writing gives the
  bytes written; reading past the end is None.  Checksums are off, as everywhere in the
  program.  The word of a telemetry hop is laid out as gcc lays out bit fields on a
  little-endian machine, the first field in the lowest bits.
\<close>

unbundle bit_operations_syntax

type_synonym bytes = "u8 list"

section \<open>Buffer\<close>

definition Buf_WriteU16 :: "u16 \<Rightarrow> bytes" where
  "Buf_WriteU16 d = [ucast (d AND 0xff), ucast (drop_bit 8 d AND 0xff)]"

definition Buf_WriteU32 :: "u32 \<Rightarrow> bytes" where
  "Buf_WriteU32 d = [ucast (d AND 0xff), ucast (drop_bit 8 d AND 0xff),
     ucast (drop_bit 8 (drop_bit 8 d) AND 0xff), ucast (drop_bit 8 (drop_bit 8 (drop_bit 8 d)) AND 0xff)]"

definition Buf_WriteU64 :: "u64 \<Rightarrow> bytes" where
  "Buf_WriteU64 d = map (\<lambda>k. ucast (((drop_bit 8) ^^ k) d AND 0xff)) [0..<8]"

definition WriteHtonU16 :: "u16 \<Rightarrow> bytes" where
  "WriteHtonU16 d = [ucast (drop_bit 8 d AND 0xff), ucast (drop_bit 0 d AND 0xff)]"

definition WriteHtonU32 :: "u32 \<Rightarrow> bytes" where
  "WriteHtonU32 d = [ucast (drop_bit 24 d AND 0xff), ucast (drop_bit 16 d AND 0xff),
     ucast (drop_bit 8 d AND 0xff), ucast (drop_bit 0 d AND 0xff)]"

fun Buf_ReadU8 :: "bytes \<Rightarrow> (u8 \<times> bytes) option" where
  "Buf_ReadU8 [] = None"
| "Buf_ReadU8 (b # bs) = Some (b, bs)"

definition Buf_Next :: "nat \<Rightarrow> bytes \<Rightarrow> bytes option" where
  "Buf_Next k bs = (if k \<le> length bs then Some (drop k bs) else None)"

definition Buf_ReadU16 :: "bytes \<Rightarrow> (u16 \<times> bytes) option" where
  "Buf_ReadU16 i = do {
     (byte0, i) \<leftarrow> Buf_ReadU8 i;
     (byte1, i) \<leftarrow> Buf_ReadU8 i;
     let d = (ucast byte1 :: u16);
     let d = push_bit 8 d OR ucast byte0;
     Some (d, i) }"

definition Buf_ReadU32 :: "bytes \<Rightarrow> (u32 \<times> bytes) option" where
  "Buf_ReadU32 i = do {
     (byte0, i) \<leftarrow> Buf_ReadU8 i;
     (byte1, i) \<leftarrow> Buf_ReadU8 i;
     (byte2, i) \<leftarrow> Buf_ReadU8 i;
     (byte3, i) \<leftarrow> Buf_ReadU8 i;
     let d = (ucast byte3 :: u32);
     let d = push_bit 8 d OR ucast byte2;
     let d = push_bit 8 d OR ucast byte1;
     let d = push_bit 8 d OR ucast byte0;
     Some (d, i) }"

definition Buf_ReadU64 :: "bytes \<Rightarrow> (u64 \<times> bytes) option" where
  "Buf_ReadU64 i = do {
     (byte0, i) \<leftarrow> Buf_ReadU8 i;
     (byte1, i) \<leftarrow> Buf_ReadU8 i;
     (byte2, i) \<leftarrow> Buf_ReadU8 i;
     (byte3, i) \<leftarrow> Buf_ReadU8 i;
     (byte4, i) \<leftarrow> Buf_ReadU8 i;
     (byte5, i) \<leftarrow> Buf_ReadU8 i;
     (byte6, i) \<leftarrow> Buf_ReadU8 i;
     (byte7, i) \<leftarrow> Buf_ReadU8 i;
     Some (fold (\<lambda>b d. push_bit 8 d OR ucast b) [byte6, byte5, byte4, byte3, byte2, byte1, byte0] (ucast byte7 :: u64), i) }"

definition ReadNtohU16 :: "bytes \<Rightarrow> (u16 \<times> bytes) option" where
  "ReadNtohU16 i = do {
     (byte0, i) \<leftarrow> Buf_ReadU8 i;
     (byte1, i) \<leftarrow> Buf_ReadU8 i;
     Some (fold (\<lambda>b d. push_bit 8 d OR ucast b) [byte0, byte1] 0, i) }"

definition ReadNtohU32 :: "bytes \<Rightarrow> (u32 \<times> bytes) option" where
  "ReadNtohU32 i = do {
     (byte0, i) \<leftarrow> Buf_ReadU8 i;
     (byte1, i) \<leftarrow> Buf_ReadU8 i;
     (byte2, i) \<leftarrow> Buf_ReadU8 i;
     (byte3, i) \<leftarrow> Buf_ReadU8 i;
     Some (fold (\<lambda>b d. push_bit 8 d OR ucast b) [byte0, byte1, byte2, byte3] 0, i) }"

text \<open>What is written is read back.\<close>
lemma read_written16 [simp]:
  "Buf_ReadU16 (Buf_WriteU16 d @ r) = Some (d, r)" "ReadNtohU16 (WriteHtonU16 d @ r) = Some (d, r)"
  using join16[of d] by (simp_all add: Buf_ReadU16_def Buf_WriteU16_def ReadNtohU16_def WriteHtonU16_def)

lemma read_written32 [simp]:
  "Buf_ReadU32 (Buf_WriteU32 d @ r) = Some (d, r)" "ReadNtohU32 (WriteHtonU32 d @ r) = Some (d, r)"
  using join32_bytes[of d]
  by (simp_all add: Buf_ReadU32_def Buf_WriteU32_def ReadNtohU32_def WriteHtonU32_def join32_def)

lemma next_byte:
  fixes d :: "'a::len word"
  shows "push_bit 8 (drop_bit (m + 8) d) OR ucast (ucast (drop_bit m d AND 0xff) :: u8) = drop_bit m d"
proof (rule bit_word_eqI)
  fix n assume "n < LENGTH('a)"
  then show "bit (push_bit 8 (drop_bit (m + 8) d) OR ucast (ucast (drop_bit m d AND 0xff) :: u8)) n = bit (drop_bit m d) n"
    by (cases "n < 8") (auto simp: low_byte bit_simps dest: bit_imp_le_length)
qed

lemma last_byte: "ucast (ucast (drop_bit 56 d AND 0xff) :: u8) = drop_bit 56 (d :: u64)"
  by (rule bit_word_eqI) (auto simp: low_byte bit_simps dest: bit_imp_le_length)

lemma read_written64 [simp]: "Buf_ReadU64 (Buf_WriteU64 d @ r) = Some (d, r)"
proof -
  define b where "b m = (ucast (drop_bit m d AND 0xff) :: u8)" for m
  have w: "Buf_WriteU64 d = [b 0, b 8, b 16, b 24, b 32, b 40, b 48, b 56]"
    by (simp add: Buf_WriteU64_def b_def upt_rec eval_nat_numeral funpow_Suc_right)
  have s: "push_bit 8 (drop_bit (m + 8) d) OR ucast (b m) = drop_bit m d" for m unfolding b_def by (rule next_byte)
  have "ucast (b 56) = drop_bit 56 d" unfolding b_def by (rule last_byte)
  then have "fold (\<lambda>b d. push_bit 8 d OR ucast b) [b 48, b 40, b 32, b 24, b 16, b 8, b 0] (ucast (b 56) :: u64) = d"
    using s[of 48] s[of 40] s[of 32] s[of 24] s[of 16] s[of 8] s[of 0] by simp
  then show ?thesis by (simp add: w Buf_ReadU64_def)
qed

lemma written_lengths [simp]:
  "length (Buf_WriteU16 d) = 2" "length (Buf_WriteU32 e) = 4" "length (Buf_WriteU64 f) = 8"
  "length (WriteHtonU16 d) = 2" "length (WriteHtonU32 e) = 4"
  by (simp_all add: Buf_WriteU16_def Buf_WriteU32_def Buf_WriteU64_def WriteHtonU16_def WriteHtonU32_def)


section \<open>Telemetry\<close>

text \<open>The union of the bit fields of a hop with buf[0] and buf[1].\<close>
definition hop_word :: "IntHop \<Rightarrow> u64" where
  "hop_word h = ucast (lineRate h) OR push_bit 3 (ucast (hop_time h)) OR push_bit 27 (ucast (hop_bytes h))
     OR push_bit 47 (ucast (hop_qlen h))"

definition hop_of_word :: "u64 \<Rightarrow> IntHop" where
  "hop_of_word w = \<lparr>lineRate = ucast w, hop_time = ucast (drop_bit 3 w), hop_bytes = ucast (drop_bit 27 w),
     hop_qlen = ucast (drop_bit 47 w)\<rparr>"

definition hop_buf0 :: "IntHop \<Rightarrow> u32" where "hop_buf0 h = ucast (hop_word h)"
definition hop_buf1 :: "IntHop \<Rightarrow> u32" where "hop_buf1 h = ucast (drop_bit 32 (hop_word h))"

definition hop_of_bufs :: "u32 \<Rightarrow> u32 \<Rightarrow> IntHop" where
  "hop_of_bufs b0 b1 = hop_of_word (ucast b0 OR push_bit 32 (ucast b1))"

definition IntHeader_Serialize :: "u32 \<Rightarrow> IntHeader \<Rightarrow> bytes" where
  "IntHeader_Serialize mode ih =
    (if mode = 0
     then concat (map (\<lambda>j. Buf_WriteU32 (hop_buf0 (hop ih j)) @ Buf_WriteU32 (hop_buf1 (hop ih j))) [0..<maxHop])
          @ Buf_WriteU16 (nhop ih)
     else if mode = 1 then Buf_WriteU64 (ih_ts ih) else [])"

fun read_hops :: "nat list \<Rightarrow> IntHeader \<Rightarrow> bytes \<Rightarrow> (IntHeader \<times> bytes) option" where
  "read_hops [] ih i = Some (ih, i)"
| "read_hops (j # js) ih i =
    Option.bind (Buf_ReadU32 i) (\<lambda>(b0, i). Option.bind (Buf_ReadU32 i) (\<lambda>(b1, i).
      read_hops js (ih\<lparr>hop := (hop ih)(j := hop_of_bufs b0 b1)\<rparr>) i))"

definition IntHeader_Deserialize :: "u32 \<Rightarrow> IntHeader \<Rightarrow> bytes \<Rightarrow> (IntHeader \<times> bytes) option" where
  "IntHeader_Deserialize mode ih i =
    (if mode = 0
     then Option.bind (read_hops [0..<maxHop] ih i) (\<lambda>(ih, i). Option.bind (Buf_ReadU16 i) (\<lambda>(n, i). Some (ih\<lparr>nhop := n\<rparr>, i)))
     else if mode = 1 then Option.bind (Buf_ReadU64 i) (\<lambda>(t, i). Some (ih\<lparr>ih_ts := t\<rparr>, i))
     else Some (ih, i))"

lemma hop_of_word: "hop_of_word (hop_word h) = h"
proof -
  have "ucast (hop_word h) = lineRate h"
    by (rule bit_word_eqI) (auto simp: hop_word_def bit_simps)
  moreover have "ucast (drop_bit 3 (hop_word h)) = hop_time h"
    by (rule bit_word_eqI) (auto simp: hop_word_def bit_simps dest: bit_imp_le_length)
  moreover have "ucast (drop_bit 27 (hop_word h)) = hop_bytes h"
    by (rule bit_word_eqI) (auto simp: hop_word_def bit_simps dest: bit_imp_le_length)
  moreover have "ucast (drop_bit 47 (hop_word h)) = hop_qlen h"
    by (rule bit_word_eqI) (auto simp: hop_word_def bit_simps dest: bit_imp_le_length)
  ultimately show ?thesis by (simp add: hop_of_word_def)
qed

lemma hop_of_bufs: "hop_of_bufs (hop_buf0 h) (hop_buf1 h) = h"
proof -
  have "ucast (ucast w :: u32) OR push_bit 32 (ucast (ucast (drop_bit 32 w) :: u32)) = w" for w :: u64
  proof (rule bit_word_eqI)
    fix n assume "n < LENGTH(64)"
    then show "bit (ucast (ucast w :: u32) OR push_bit 32 (ucast (ucast (drop_bit 32 w) :: u32)) :: u64) n = bit w n"
      by (cases "n < 32") (auto simp: bit_simps)
  qed
  then show ?thesis by (simp add: hop_of_bufs_def hop_buf0_def hop_buf1_def hop_of_word)
qed

lemma read_hops_written:
  "read_hops js ih0 (concat (map (\<lambda>j. Buf_WriteU32 (hop_buf0 (hop ih j)) @ Buf_WriteU32 (hop_buf1 (hop ih j))) js) @ r)
    = Some (ih0\<lparr>hop := \<lambda>j. if j \<in> set js then hop ih j else hop ih0 j\<rparr>, r)"
proof (induction js arbitrary: ih0)
  case (Cons j js)
  show ?case by (auto simp: hop_of_bufs Cons.IH fun_eq_iff intro!: arg_cong[where f = "\<lambda>h. ih0\<lparr>hop := h\<rparr>"])
qed simp

text \<open>Two telemetry headers that the mode does not tell apart.\<close>
definition int_alike :: "u32 \<Rightarrow> IntHeader \<Rightarrow> IntHeader \<Rightarrow> bool" where
  "int_alike mode a b \<longleftrightarrow> (mode = 0 \<longrightarrow> (\<forall>j<maxHop. hop a j = hop b j) \<and> nhop a = nhop b) \<and> (mode = 1 \<longrightarrow> ih_ts a = ih_ts b)"

lemma IntHeader_written:
  "\<exists>ih'. IntHeader_Deserialize mode ih0 (IntHeader_Serialize mode ih @ r) = Some (ih', r) \<and> int_alike mode ih' ih"
  by (auto simp: IntHeader_Deserialize_def IntHeader_Serialize_def read_hops_written int_alike_def simp del: upt_Suc)

lemma IntHeader_Serialize_alike: "int_alike mode a b \<Longrightarrow> IntHeader_Serialize mode a = IntHeader_Serialize mode b"
  by (auto simp: IntHeader_Serialize_def int_alike_def intro!: arg_cong[where f = concat])

lemma IntHeader_length [simp]: "length (IntHeader_Serialize mode ih) = IntHeader_GetStaticSize mode"
  by (simp add: IntHeader_Serialize_def IntHeader_GetStaticSize_def maxHop_def upt_rec)


section \<open>The headers of a packet\<close>

text \<open>Packet::AddHeader makes room for the header at the start and lets it write there; what
  the fresh memory held is never seen, since each header fills its room.\<close>
definition AddHeader :: "nat \<Rightarrow> bytes \<Rightarrow> bytes \<Rightarrow> bytes" where
  "AddHeader room h p = h @ drop (length h) (replicate room 0 @ p)"

record PppHeader =
  ppp_protocol :: u16

definition PppHeader_GetStaticSize :: nat where "PppHeader_GetStaticSize = 14"

definition PppHeader_Serialize :: "PppHeader \<Rightarrow> bytes" where
  "PppHeader_Serialize h = WriteHtonU16 (ppp_protocol h) @ Buf_WriteU64 0 @ Buf_WriteU32 0"

definition PppHeader_Deserialize :: "bytes \<Rightarrow> (PppHeader \<times> bytes) option" where
  "PppHeader_Deserialize i = do {
     (proto, i) \<leftarrow> ReadNtohU16 i;
     i \<leftarrow> Buf_Next 12 i;
     Some (\<lparr>ppp_protocol = proto\<rparr>, i) }"

definition EtherToPpp :: "u16 \<Rightarrow> u16 option" where
  "EtherToPpp proto = (if proto = 0x0800 then Some 0x0021 else if proto = 0x86DD then Some 0x0057 else None)"

record Ipv4Header =
  ip_payloadSize :: u16
  ip_identification :: u16
  ip_tos :: u8
  ip_ttl :: u8
  ip_protocol :: u8
  ip_flags :: "3 word"
  ip_fragmentOffset :: u16
  ip_source :: u32
  ip_destination :: u32
  ip_checksum :: u16
  ip_headerSize :: u16

definition Ipv4Header_ctor :: Ipv4Header where
  "Ipv4Header_ctor = \<lparr>ip_payloadSize = 0, ip_identification = 0, ip_tos = 0, ip_ttl = 0, ip_protocol = 0, ip_flags = 0,
     ip_fragmentOffset = 0, ip_source = 0x66666666, ip_destination = 0x66666666, ip_checksum = 0, ip_headerSize = 5 * 4\<rparr>"

definition Ipv4Header_SetEcn :: "u8 \<Rightarrow> Ipv4Header \<Rightarrow> Ipv4Header" where
  "Ipv4Header_SetEcn ecn h = h\<lparr>ip_tos := (ip_tos h AND 0xFC) OR ecn\<rparr>"

definition Ipv4Header_Serialize :: "Ipv4Header \<Rightarrow> bytes" where
  "Ipv4Header_Serialize h =
    (let fragmentOffset = (ucast (ip_fragmentOffset h) :: u32) div 8;
         flagsFrag = (ucast (drop_bit 8 fragmentOffset AND 0x1f) :: u8);
         flagsFrag = (if ip_flags h AND 1 \<noteq> 0 then flagsFrag OR 64 else flagsFrag);
         flagsFrag = (if ip_flags h AND 2 \<noteq> 0 then flagsFrag OR 32 else flagsFrag);
         frag = (ucast (fragmentOffset AND 0xff) :: u8)
     in [push_bit 4 4 OR 5, ip_tos h] @ WriteHtonU16 (ip_payloadSize h + 5 * 4) @ WriteHtonU16 (ip_identification h)
        @ [flagsFrag, frag, ip_ttl h, ip_protocol h] @ WriteHtonU16 0 @ WriteHtonU32 (ip_source h) @ WriteHtonU32 (ip_destination h))"

text \<open>The flags and the upper part of the offset come from the same byte: the code steps back.\<close>
definition Ipv4Header_Deserialize :: "bytes \<Rightarrow> (Ipv4Header \<times> bytes) option" where
  "Ipv4Header_Deserialize i = do {
     (verIhl, i) \<leftarrow> Buf_ReadU8 i;
     let headerSize = (ucast (verIhl AND 0x0f) :: u16) * 4;
     if drop_bit 4 verIhl \<noteq> 4 then None else do {
     (tos, i) \<leftarrow> Buf_ReadU8 i;
     (size', i) \<leftarrow> ReadNtohU16 i;
     (ident, i) \<leftarrow> ReadNtohU16 i;
     (flags, i) \<leftarrow> Buf_ReadU8 i;
     let fl = (if flags AND 64 \<noteq> 0 then 1 else 0);
     let fl = (if flags AND 32 \<noteq> 0 then fl OR 2 else fl);
     let off = (ucast (flags AND 0x1f) :: u16);
     (low, i) \<leftarrow> Buf_ReadU8 i;
     let off = push_bit 3 (push_bit 8 off OR ucast low);
     (ttl, i) \<leftarrow> Buf_ReadU8 i;
     (proto, i) \<leftarrow> Buf_ReadU8 i;
     (checksum, i) \<leftarrow> Buf_ReadU16 i;
     (src, i) \<leftarrow> ReadNtohU32 i;
     (dst, i) \<leftarrow> ReadNtohU32 i;
     Some (\<lparr>ip_payloadSize = size' - headerSize, ip_identification = ident, ip_tos = tos, ip_ttl = ttl, ip_protocol = proto,
       ip_flags = fl, ip_fragmentOffset = off, ip_source = src, ip_destination = dst, ip_checksum = checksum,
       ip_headerSize = headerSize\<rparr>, i) }}"

record UdpHeader =
  udp_sourcePort :: u16
  udp_destinationPort :: u16

text \<open>The length field is the size of the buffer from this header on.\<close>
definition UdpHeader_Serialize :: "u32 \<Rightarrow> UdpHeader \<Rightarrow> bytes" where
  "UdpHeader_Serialize bufferSize h = WriteHtonU16 (udp_sourcePort h) @ WriteHtonU16 (udp_destinationPort h)
     @ WriteHtonU16 (ucast bufferSize) @ Buf_WriteU16 0"

record SeqTsHeader =
  st_seq :: u32
  st_pg :: u16
  st_ih :: IntHeader

definition SeqTsHeader_GetHeaderSize :: "u32 \<Rightarrow> nat" where
  "SeqTsHeader_GetHeaderSize mode = 6 + IntHeader_GetStaticSize mode"

definition SeqTsHeader_Serialize :: "u32 \<Rightarrow> SeqTsHeader \<Rightarrow> bytes" where
  "SeqTsHeader_Serialize mode h = WriteHtonU32 (st_seq h) @ WriteHtonU16 (st_pg h) @ IntHeader_Serialize mode (st_ih h)"

record qbbHeader =
  qb_sport :: u16
  qb_dport :: u16
  qb_flags :: u16
  qb_pg :: u16
  qb_seq :: u32
  qb_irn_nack :: u32
  qb_irn_nack_size :: u16
  qb_ih :: IntHeader

definition qbbHeader_GetBaseSize :: nat where
  "qbbHeader_GetBaseSize = 2 + 2 + 2 + 2 + 4 + 4 + 2"

definition qbbHeader_GetSerializedSize :: "u32 \<Rightarrow> nat" where
  "qbbHeader_GetSerializedSize mode = qbbHeader_GetBaseSize + IntHeader_GetStaticSize mode"

definition qbbHeader_SetCnp :: "qbbHeader \<Rightarrow> qbbHeader" where
  "qbbHeader_SetCnp h = h\<lparr>qb_flags := qb_flags h OR push_bit 0 1\<rparr>"

definition qbbHeader_GetCnp :: "qbbHeader \<Rightarrow> u8" where
  "qbbHeader_GetCnp h = ucast (drop_bit 0 (qb_flags h) AND 1)"

definition qbbHeader_Serialize :: "u32 \<Rightarrow> qbbHeader \<Rightarrow> bytes" where
  "qbbHeader_Serialize mode h = Buf_WriteU16 (qb_sport h) @ Buf_WriteU16 (qb_dport h) @ Buf_WriteU16 (qb_flags h)
     @ Buf_WriteU16 (qb_pg h) @ Buf_WriteU32 (qb_seq h) @ Buf_WriteU32 (qb_irn_nack h) @ Buf_WriteU16 (qb_irn_nack_size h)
     @ IntHeader_Serialize mode (qb_ih h)"

definition qbbHeader_Deserialize :: "u32 \<Rightarrow> IntHeader \<Rightarrow> bytes \<Rightarrow> (qbbHeader \<times> bytes) option" where
  "qbbHeader_Deserialize mode ih0 i = do {
     (sp, i) \<leftarrow> Buf_ReadU16 i;
     (dp, i) \<leftarrow> Buf_ReadU16 i;
     (fl, i) \<leftarrow> Buf_ReadU16 i;
     (cls, i) \<leftarrow> Buf_ReadU16 i;
     (number, i) \<leftarrow> Buf_ReadU32 i;
     (nack, i) \<leftarrow> Buf_ReadU32 i;
     (nack_size, i) \<leftarrow> Buf_ReadU16 i;
     (ih, i) \<leftarrow> IntHeader_Deserialize mode ih0 i;
     Some (\<lparr>qb_sport = sp, qb_dport = dp, qb_flags = fl, qb_pg = cls, qb_seq = number, qb_irn_nack = nack,
       qb_irn_nack_size = nack_size, qb_ih = ih\<rparr>, i) }"

record CnHeader =
  cn_fid :: u16
  cn_qIndex :: u8
  cn_qfb :: u16
  cn_ecnBits :: u8
  cn_total :: u16

definition CnHeader_Serialize :: "CnHeader \<Rightarrow> bytes" where
  "CnHeader_Serialize h = [cn_qIndex h] @ Buf_WriteU16 (cn_fid h) @ [cn_ecnBits h] @ Buf_WriteU16 (cn_qfb h) @ Buf_WriteU16 (cn_total h)"

record PauseHeader =
  pa_time :: u32
  pa_qlen :: u32
  pa_qindex :: u8

definition PauseHeader_Serialize :: "PauseHeader \<Rightarrow> bytes" where
  "PauseHeader_Serialize h = Buf_WriteU32 (pa_time h) @ Buf_WriteU32 (pa_qlen h) @ [pa_qindex h]"


section \<open>Parsing\<close>

text \<open>The union of transport headers holds what was parsed last; None is a member that the
  brief mode does not read.\<close>
record TcpView =
  tv_sport :: u16
  tv_dport :: u16
  tv_seq :: u32
  tv_ack :: u32
  tv_flags :: u8
  tv_rest :: "(u8 \<times> u16 \<times> u16 \<times> bytes) option"

record UdpView =
  uv_sport :: u16
  uv_dport :: u16
  uv_payload_size :: "u16 option"
  uv_pg :: u16
  uv_seq :: u32
  uv_ih :: IntHeader

datatype L4View = L4None | L4Tcp TcpView | L4Udp UdpView | L4Cnp CnHeader | L4Ack qbbHeader | L4Pfc PauseHeader

record ParsedHeader =
  ch_brief :: bool
  ch_headerType :: u32
  ch_getInt :: bool
  ch_pppProto :: u16
  ch_payloadSize :: u16
  ch_ipid :: u16
  ch_tos :: u8
  ch_ttl :: u8
  ch_l3Prot :: u8
  ch_ipv4Flags :: "3 word"
  ch_fragmentOffset :: u16
  ch_sip :: u32
  ch_dip :: u32
  ch_checksum :: u16
  ch_headerSize :: u16
  ch_l4 :: L4View

text \<open>The constructor leaves the addresses and the union as the memory is: arguments.\<close>
definition CustomHeader_ctor :: "u32 \<Rightarrow> u32 \<Rightarrow> u32 \<Rightarrow> L4View \<Rightarrow> ParsedHeader" where
  "CustomHeader_ctor headerType s0 d0 l0 = \<lparr>ch_brief = True, ch_headerType = headerType, ch_getInt = True, ch_pppProto = 0,
     ch_payloadSize = 0, ch_ipid = 0, ch_tos = 0, ch_ttl = 0, ch_l3Prot = 0, ch_ipv4Flags = 0, ch_fragmentOffset = 0,
     ch_sip = s0, ch_dip = d0, ch_checksum = 0, ch_headerSize = 5 * 4, ch_l4 = l0\<rparr>"

definition GetUdpHeaderSize :: "u32 \<Rightarrow> nat" where
  "GetUdpHeaderSize mode = 8 + 2 + 4 + IntHeader_GetStaticSize mode"

definition GetAckSerializedSize :: "u32 \<Rightarrow> nat" where
  "GetAckSerializedSize mode = 2 + 2 + 2 + 2 + 4 + IntHeader_GetStaticSize mode"

definition GetIpv4EcnBits :: "ParsedHeader \<Rightarrow> u8" where
  "GetIpv4EcnBits ch = ch_tos ch AND 0x3"

definition parse_l2 :: "ParsedHeader \<Rightarrow> bytes \<Rightarrow> (nat \<times> ParsedHeader \<times> bytes) option" where
  "parse_l2 ch start =
    (if ch_headerType ch AND 1 \<noteq> 0
     then do { (proto, i) \<leftarrow> ReadNtohU16 start; i \<leftarrow> Buf_Next 12 i; Some (14, ch\<lparr>ch_pppProto := proto\<rparr>, i) }
     else Some (0, ch, start))"

text \<open>None as the rest: not IPv4, parsing stops.\<close>
definition parse_l3 :: "nat \<Rightarrow> bytes \<Rightarrow> ParsedHeader \<Rightarrow> bytes \<Rightarrow> (nat \<times> ParsedHeader \<times> bytes option) option" where
  "parse_l3 l2Size start ch i =
    (if ch_headerType ch AND 2 = 0 then Some (0, ch, Some i)
     else do {
       i \<leftarrow> Buf_Next l2Size start;
       (verIhl, i) \<leftarrow> Buf_ReadU8 i;
       let headerSize = (ucast (verIhl AND 0x0f) :: u16) * 4;
       if drop_bit 4 verIhl \<noteq> 4 then Some (unat headerSize, ch, None)
       else if ch_brief ch then do {
         (tos, i) \<leftarrow> Buf_ReadU8 i;
         i \<leftarrow> Buf_Next 2 i;
         (ident, i) \<leftarrow> ReadNtohU16 i;
         i \<leftarrow> Buf_Next 3 i;
         (proto, i) \<leftarrow> Buf_ReadU8 i;
         i \<leftarrow> Buf_Next 2 i;
         (src, i) \<leftarrow> ReadNtohU32 i;
         (dst, i) \<leftarrow> ReadNtohU32 i;
         Some (unat headerSize, ch\<lparr>ch_tos := tos, ch_ipid := ident, ch_l3Prot := proto, ch_sip := src, ch_dip := dst\<rparr>, Some i) }
       else do {
         i \<leftarrow> Buf_Next l2Size start;
         (h, i) \<leftarrow> Ipv4Header_Deserialize i;
         Some (unat headerSize, ch\<lparr>ch_tos := ip_tos h, ch_payloadSize := ip_payloadSize h, ch_ipid := ip_identification h,
           ch_ipv4Flags := ip_flags h, ch_fragmentOffset := ip_fragmentOffset h, ch_ttl := ip_ttl h, ch_l3Prot := ip_protocol h,
           ch_checksum := ip_checksum h, ch_sip := ip_source h, ch_dip := ip_destination h, ch_headerSize := headerSize\<rparr>, Some i) }})"

definition parse_udp :: "u32 \<Rightarrow> IntHeader \<Rightarrow> ParsedHeader \<Rightarrow> bytes \<Rightarrow> ParsedHeader option" where
  "parse_udp mode ih0 ch i = do {
     (sp, i) \<leftarrow> ReadNtohU16 i;
     (dp, i) \<leftarrow> ReadNtohU16 i;
     (psize, i) \<leftarrow> (if ch_brief ch then map_option (\<lambda>i. (None, i)) (Buf_Next 4 i)
        else do { (z, i) \<leftarrow> ReadNtohU16 i; i \<leftarrow> Buf_Next 2 i; Some (Some z, i) });
     (number, i) \<leftarrow> ReadNtohU32 i;
     (cls, i) \<leftarrow> ReadNtohU16 i;
     (ih, i) \<leftarrow> (if ch_getInt ch then IntHeader_Deserialize mode ih0 i else Some (ih0, i));
     Some (ch\<lparr>ch_l4 := L4Udp \<lparr>uv_sport = sp, uv_dport = dp, uv_payload_size = psize, uv_pg = cls, uv_seq = number, uv_ih = ih\<rparr>\<rparr>) }"

definition parse_cnp :: "ParsedHeader \<Rightarrow> bytes \<Rightarrow> ParsedHeader option" where
  "parse_cnp ch i = do {
     (q, i) \<leftarrow> Buf_ReadU8 i;
     (fid, i) \<leftarrow> Buf_ReadU16 i;
     (ecn, i) \<leftarrow> Buf_ReadU8 i;
     (qfb, i) \<leftarrow> Buf_ReadU16 i;
     (total, i) \<leftarrow> Buf_ReadU16 i;
     Some (ch\<lparr>ch_l4 := L4Cnp \<lparr>cn_fid = fid, cn_qIndex = q, cn_qfb = qfb, cn_ecnBits = ecn, cn_total = total\<rparr>\<rparr>) }"

definition parse_ack :: "u32 \<Rightarrow> IntHeader \<Rightarrow> ParsedHeader \<Rightarrow> bytes \<Rightarrow> ParsedHeader option" where
  "parse_ack mode ih0 ch i = do {
     (sp, i) \<leftarrow> Buf_ReadU16 i;
     (dp, i) \<leftarrow> Buf_ReadU16 i;
     (fl, i) \<leftarrow> Buf_ReadU16 i;
     (cls, i) \<leftarrow> Buf_ReadU16 i;
     (number, i) \<leftarrow> Buf_ReadU32 i;
     (nack, i) \<leftarrow> Buf_ReadU32 i;
     (nack_size, i) \<leftarrow> Buf_ReadU16 i;
     (ih, i) \<leftarrow> (if ch_getInt ch then IntHeader_Deserialize mode ih0 i else Some (ih0, i));
     Some (ch\<lparr>ch_l4 := L4Ack \<lparr>qb_sport = sp, qb_dport = dp, qb_flags = fl, qb_pg = cls, qb_seq = number, qb_irn_nack = nack,
       qb_irn_nack_size = nack_size, qb_ih = ih\<rparr>\<rparr>) }"

definition parse_pfc :: "ParsedHeader \<Rightarrow> bytes \<Rightarrow> ParsedHeader option" where
  "parse_pfc ch i = do {
     (t, i) \<leftarrow> Buf_ReadU32 i;
     (qlen, i) \<leftarrow> Buf_ReadU32 i;
     (q, i) \<leftarrow> Buf_ReadU8 i;
     Some (ch\<lparr>ch_l4 := L4Pfc \<lparr>pa_time = t, pa_qlen = qlen, pa_qindex = q\<rparr>\<rparr>) }"

text \<open>In brief mode the length is read from memory that was not written: stale.  The flag tells
  that the options are too long, which ends the parse at once.\<close>
definition parse_tcp :: "u8 \<Rightarrow> ParsedHeader \<Rightarrow> bytes \<Rightarrow> (bool \<times> nat \<times> ParsedHeader) option" where
  "parse_tcp stale ch i = do {
     (sp, i) \<leftarrow> ReadNtohU16 i;
     (dp, i) \<leftarrow> ReadNtohU16 i;
     (number, i) \<leftarrow> ReadNtohU32 i;
     (acked, i) \<leftarrow> ReadNtohU32 i;
     (field, i) \<leftarrow> ReadNtohU16 i;
     let v = \<lparr>tv_sport = sp, tv_dport = dp, tv_seq = number, tv_ack = acked, tv_flags = ucast (field AND 0x3F), tv_rest = None\<rparr>;
     if ch_brief ch then Some (False, unat stale * 4, ch\<lparr>ch_l4 := L4Tcp v\<rparr>)
     else do {
       let len = (ucast (drop_bit 12 field) :: u8);
       (window, i) \<leftarrow> ReadNtohU16 i;
       i \<leftarrow> Buf_Next 2 i;
       (urgent, i) \<leftarrow> ReadNtohU16 i;
       let optionLen = (ucast len - 5 :: u32) * 4;
       if optionLen > 32 then Some (True, 20, ch\<lparr>ch_l4 := L4Tcp (v\<lparr>tv_rest := Some (len, window, urgent, [])\<rparr>)\<rparr>)
       else if unat optionLen \<le> length i
       then Some (False, unat len * 4, ch\<lparr>ch_l4 := L4Tcp (v\<lparr>tv_rest := Some (len, window, urgent, take (unat optionLen) i)\<rparr>)\<rparr>)
       else None }}"

definition parse_l4 :: "u32 \<Rightarrow> u8 \<Rightarrow> IntHeader \<Rightarrow> nat \<Rightarrow> bytes \<Rightarrow> ParsedHeader \<Rightarrow> bytes \<Rightarrow> (nat \<times> ParsedHeader) option" where
  "parse_l4 mode stale ih0 l23 start ch i =
    (if ch_headerType ch AND 4 = 0 then Some (l23, ch)
     else if ch_l3Prot ch = 0x6 then do {
       i \<leftarrow> Buf_Next l23 start;
       (stop, l4Size, ch) \<leftarrow> parse_tcp stale ch i;
       Some (if stop then (l4Size, ch) else (l23 + l4Size, ch)) }
     else if ch_l3Prot ch = 0x11 then do {
       i \<leftarrow> Buf_Next l23 start;
       ch \<leftarrow> parse_udp mode ih0 ch i;
       Some (l23 + GetUdpHeaderSize mode, ch) }
     else if ch_l3Prot ch = 0xFF then map_option (\<lambda>ch. (l23 + 8, ch)) (parse_cnp ch i)
     else if ch_l3Prot ch = 0xFC \<or> ch_l3Prot ch = 0xFD \<or> ch_l3Prot ch = 0xFB
     then map_option (\<lambda>ch. (l23 + GetAckSerializedSize mode, ch)) (parse_ack mode ih0 ch i)
     else if ch_l3Prot ch = 0xFE then map_option (\<lambda>ch. (l23 + 9, ch)) (parse_pfc ch i)
     else Some (l23, ch))"

definition CustomHeader_Deserialize :: "u32 \<Rightarrow> u8 \<Rightarrow> IntHeader \<Rightarrow> ParsedHeader \<Rightarrow> bytes \<Rightarrow> (nat \<times> ParsedHeader) option" where
  "CustomHeader_Deserialize mode stale ih0 ch start = do {
     (l2Size, ch, i) \<leftarrow> parse_l2 ch start;
     (l3Size, ch, i) \<leftarrow> parse_l3 l2Size start ch i;
     case i of None \<Rightarrow> Some (0, ch) | Some i \<Rightarrow> parse_l4 mode stale ih0 (l2Size + l3Size) start ch i }"

text \<open>PeekHeader of a packet as the devices call it.\<close>
definition PeekHeader :: "u32 \<Rightarrow> bytes \<Rightarrow> (nat \<times> ParsedHeader) option" where
  "PeekHeader mode p = CustomHeader_Deserialize mode 0 IntHeader_empty (CustomHeader_ctor (1 OR 2 OR 4) 0 0 L4None) p"


section \<open>Building\<close>

datatype Transport = SeqTsL UdpHeader SeqTsHeader | QbbL qbbHeader | CnL CnHeader | PauseL PauseHeader

text \<open>The transport headers of a packet, in front of its payload.\<close>
definition add_transport :: "u32 \<Rightarrow> Transport \<Rightarrow> bytes \<Rightarrow> bytes" where
  "add_transport mode t p =
    (case t of
       SeqTsL u s \<Rightarrow> (let p = AddHeader (SeqTsHeader_GetHeaderSize mode) (SeqTsHeader_Serialize mode s) p
                      in AddHeader 8 (UdpHeader_Serialize (of_nat (8 + length p)) u) p)
     | QbbL h \<Rightarrow> AddHeader (qbbHeader_GetSerializedSize mode) (qbbHeader_Serialize mode h) p
     | CnL h \<Rightarrow> AddHeader 8 (CnHeader_Serialize h) p
     | PauseL h \<Rightarrow> AddHeader 9 (PauseHeader_Serialize h) p)"

definition add_network :: "Ipv4Header \<Rightarrow> PppHeader \<Rightarrow> bytes \<Rightarrow> bytes" where
  "add_network ip ppp p =
    AddHeader PppHeader_GetStaticSize (PppHeader_Serialize ppp) (AddHeader (unat (ip_headerSize ip)) (Ipv4Header_Serialize ip) p)"

lemma AddHeader_exact: "length h = room \<Longrightarrow> AddHeader room h p = h @ p"
  by (simp add: AddHeader_def)

lemma header_lengths [simp]:
  "length (PppHeader_Serialize ppp) = 14" "length (Ipv4Header_Serialize ip) = 20" "length (UdpHeader_Serialize n u) = 8"
  "length (SeqTsHeader_Serialize mode s) = SeqTsHeader_GetHeaderSize mode"
  "length (qbbHeader_Serialize mode q) = qbbHeader_GetSerializedSize mode"
  "length (CnHeader_Serialize c) = 8" "length (PauseHeader_Serialize a) = 9"
  by (simp_all add: PppHeader_Serialize_def Ipv4Header_Serialize_def UdpHeader_Serialize_def SeqTsHeader_Serialize_def
      SeqTsHeader_GetHeaderSize_def qbbHeader_Serialize_def qbbHeader_GetSerializedSize_def qbbHeader_GetBaseSize_def
      CnHeader_Serialize_def PauseHeader_Serialize_def Let_def)

definition transport_bytes :: "u32 \<Rightarrow> nat \<Rightarrow> Transport \<Rightarrow> bytes" where
  "transport_bytes mode len t =
    (case t of SeqTsL u s \<Rightarrow> UdpHeader_Serialize (of_nat (8 + (SeqTsHeader_GetHeaderSize mode + len))) u @ SeqTsHeader_Serialize mode s
     | QbbL h \<Rightarrow> qbbHeader_Serialize mode h | CnL h \<Rightarrow> CnHeader_Serialize h | PauseL h \<Rightarrow> PauseHeader_Serialize h)"

lemma add_transport_bytes: "add_transport mode t p = transport_bytes mode (length p) t @ p"
  by (cases t) (simp_all add: add_transport_def transport_bytes_def AddHeader_exact Let_def)

lemma add_network_bytes: "ip_headerSize ip = 20 \<Longrightarrow> add_network ip ppp p = PppHeader_Serialize ppp @ Ipv4Header_Serialize ip @ p"
  by (simp add: add_network_def AddHeader_exact PppHeader_GetStaticSize_def)

lemma Buf_Next_append: "length xs = k \<Longrightarrow> Buf_Next k (xs @ r) = Some r"
  by (auto simp: Buf_Next_def)

lemma parse_l2_written:
  "ch_headerType ch AND 1 \<noteq> 0 \<Longrightarrow> parse_l2 ch (PppHeader_Serialize h @ r) = Some (14, ch\<lparr>ch_pppProto := ppp_protocol h\<rparr>, r)"
  using Buf_Next_append[of "Buf_WriteU64 0 @ Buf_WriteU32 0" 12 r] by (simp add: parse_l2_def PppHeader_Serialize_def)

lemma parse_l3_written:
  assumes "ch_headerType ch AND 2 \<noteq> 0" "ch_brief ch"
  shows "parse_l3 14 (PppHeader_Serialize h @ Ipv4Header_Serialize ip @ r) ch i = Some (20, ch\<lparr>ch_tos := ip_tos ip,
    ch_ipid := ip_identification ip, ch_l3Prot := ip_protocol ip, ch_sip := ip_source ip, ch_dip := ip_destination ip\<rparr>, Some r)"
proof -
  have n: "Buf_Next 14 (PppHeader_Serialize h @ Ipv4Header_Serialize ip @ r) = Some (Ipv4Header_Serialize ip @ r)"
    by (rule Buf_Next_append) simp
  have two: "Buf_Next 2 (WriteHtonU16 x @ y) = Some y" for x y by (rule Buf_Next_append) simp
  have three: "Buf_Next 3 (a # b # c # y) = Some y" for a b c y by (simp add: Buf_Next_def)
  show ?thesis unfolding parse_l3_def n using assms
    by (simp add: Ipv4Header_Serialize_def Let_def two three)
qed


lemma parse_udp_written:
  "ch_brief ch \<Longrightarrow> ch_getInt ch \<Longrightarrow> \<exists>ih. int_alike mode ih (st_ih s) \<and>
    parse_udp mode ih0 ch (UdpHeader_Serialize n u @ SeqTsHeader_Serialize mode s @ r) = Some (ch\<lparr>ch_l4 := L4Udp
      \<lparr>uv_sport = udp_sourcePort u, uv_dport = udp_destinationPort u, uv_payload_size = None, uv_pg = st_pg s, uv_seq = st_seq s, uv_ih = ih\<rparr>\<rparr>)"
  using IntHeader_written[of mode ih0 "st_ih s" r] Buf_Next_append[of "WriteHtonU16 (ucast n) @ Buf_WriteU16 0" 4]
  by (auto simp: parse_udp_def UdpHeader_Serialize_def SeqTsHeader_Serialize_def)

lemma parse_ack_written:
  "ch_getInt ch \<Longrightarrow> \<exists>ih. int_alike mode ih (qb_ih h) \<and>
    parse_ack mode ih0 ch (qbbHeader_Serialize mode h @ r) = Some (ch\<lparr>ch_l4 := L4Ack (h\<lparr>qb_ih := ih\<rparr>)\<rparr>)"
  using IntHeader_written[of mode ih0 "qb_ih h" r] by (cases h) (auto simp: parse_ack_def qbbHeader_Serialize_def)

lemma parse_cnp_written: "parse_cnp ch (CnHeader_Serialize h @ r) = Some (ch\<lparr>ch_l4 := L4Cnp h\<rparr>)"
  by (cases h) (simp add: parse_cnp_def CnHeader_Serialize_def)

lemma parse_pfc_written: "parse_pfc ch (PauseHeader_Serialize h @ r) = Some (ch\<lparr>ch_l4 := L4Pfc h\<rparr>)"
  by (cases h) (simp add: parse_pfc_def PauseHeader_Serialize_def)

lemma ip_written:
  assumes "ip_flags ip = 0" "ip_fragmentOffset ip = 0"
  shows "Ipv4Header_Deserialize (Ipv4Header_Serialize ip @ r) = Some (ip\<lparr>ip_checksum := 0, ip_headerSize := 20\<rparr>, r)"
proof -
  have z: "Buf_ReadU16 (WriteHtonU16 0 @ x) = Some (0, x)" for x
    by (simp add: Buf_ReadU16_def WriteHtonU16_def)
  show ?thesis using assms by (cases ip) (simp add: Ipv4Header_Deserialize_def Ipv4Header_Serialize_def z Let_def)
qed

lemma qbb_written:
  "\<exists>ih. qbbHeader_Deserialize mode ih0 (qbbHeader_Serialize mode h @ r) = Some (h\<lparr>qb_ih := ih\<rparr>, r) \<and> int_alike mode ih (qb_ih h)"
  using IntHeader_written[of mode ih0 "qb_ih h" r] by (cases h) (auto simp: qbbHeader_Deserialize_def qbbHeader_Serialize_def)

lemma ppp_written: "PppHeader_Deserialize (PppHeader_Serialize h @ r) = Some (h, r)"
  using Buf_Next_append[of "Buf_WriteU64 0 @ Buf_WriteU32 0" 12 r] by (cases h) (simp add: PppHeader_Deserialize_def PppHeader_Serialize_def)

section \<open>The packets of the host\<close>

definition host_ip :: "u8 \<Rightarrow> u32 \<Rightarrow> u32 \<Rightarrow> u16 \<Rightarrow> bytes \<Rightarrow> Ipv4Header" where
  "host_ip proto src dst ident p = Ipv4Header_ctor\<lparr>ip_source := src, ip_destination := dst, ip_protocol := proto,
     ip_payloadSize := of_nat (length p), ip_ttl := 64, ip_identification := ident\<rparr>"

text \<open>BuildCreditBouncerDataPacket; in mode 1 the sequence header carries the time.\<close>
definition data_packet_bytes :: "RdmaConfig \<Rightarrow> RdmaQueuePair \<Rightarrow> u32 \<Rightarrow> u32 \<Rightarrow> u64 \<Rightarrow> bytes" where
  "data_packet_bytes c q payloadSize number now =
    (let mode = h_intMode c;
         s = \<lparr>st_seq = number, st_pg = m_pg q, st_ih = (if mode = 1 then IntHeader_empty\<lparr>ih_ts := now\<rparr> else IntHeader_empty)\<rparr>;
         u = \<lparr>udp_sourcePort = q_sport q, udp_destinationPort = q_dport q\<rparr>;
         p = add_transport mode (SeqTsL u s) (replicate (unat payloadSize) 0)
     in add_network (host_ip RDMA_L3_PROT_UDP (q_sip q) (q_dip q) (q_ipid q) p) \<lparr>ppp_protocol = 0x0021\<rparr> p)"

definition ctrl_packet_bytes :: "RdmaConfig \<Rightarrow> u32 \<Rightarrow> u32 \<Rightarrow> u16 \<Rightarrow> u16 \<Rightarrow> u16 \<Rightarrow> u32 \<Rightarrow> u16 \<Rightarrow> bytes" where
  "ctrl_packet_bytes c src dst srcPort dstPort cls number ident =
    (let mode = h_intMode c;
         h = \<lparr>qb_sport = srcPort, qb_dport = dstPort, qb_flags = 0, qb_pg = cls, qb_seq = number, qb_irn_nack = 0,
              qb_irn_nack_size = 0, qb_ih = IntHeader_empty\<rparr>;
         p = add_transport mode (QbbL h) (replicate (60 - 14 - 20 - qbbHeader_GetSerializedSize mode) 0)
     in add_network (host_ip RDMA_L3_PROT_CREDITBOUNCER src dst ident p) \<lparr>ppp_protocol = 0x0021\<rparr> p)"

text \<open>The acknowledgement in ReceiveUdp (code x of the sequence check), the congestion notice
  SendDcqcnCnp and the frame of SendPfc.  The header's constructor leaves the IRN fields as the
  memory is: raw.\<close>
definition ack_packet_bytes :: "u32 \<Rightarrow> bool \<Rightarrow> u32 \<Rightarrow> u32 \<times> u16 \<Rightarrow> nat \<Rightarrow> u32 \<Rightarrow> u32 \<Rightarrow> u8 \<Rightarrow> UdpView \<Rightarrow> u32 \<Rightarrow> u32 \<Rightarrow> u16 \<Rightarrow> bytes" where
  "ack_packet_bytes mode irn ccMode raw x expected payload_size ecnbits v src dst ident =
    (let (nack, nackSize) = (if \<not> irn then raw else if x = 2 then (uv_seq v, ucast payload_size) else (0, 0));
         h = \<lparr>qb_sport = uv_dport v, qb_dport = uv_sport v, qb_flags = 0, qb_pg = uv_pg v, qb_seq = expected, qb_irn_nack = nack,
              qb_irn_nack_size = nackSize, qb_ih = uv_ih v\<rparr>;
         h = (if ecnbits \<noteq> 0 \<and> ccMode \<noteq> 1 then qbbHeader_SetCnp h else h);
         p = add_transport mode (QbbL h) (replicate (60 - 14 - 20 - qbbHeader_GetSerializedSize mode) 0)
     in add_network (host_ip (if x = 1 then 0xFC else 0xFD) dst src ident p) \<lparr>ppp_protocol = 0x0021\<rparr> p)"

definition cnp_packet_bytes :: "u32 \<Rightarrow> CnHeader \<Rightarrow> u32 \<Rightarrow> u32 \<Rightarrow> u16 \<Rightarrow> bytes" where
  "cnp_packet_bytes mode cnh src dst ident =
    (let p = add_transport mode (CnL cnh) (replicate (60 - 14 - 20 - 8) 0)
     in add_network (host_ip 0xFF src dst ident p) \<lparr>ppp_protocol = 0x0021\<rparr> p)"

definition pfc_frame_bytes :: "u32 \<Rightarrow> u32 \<Rightarrow> nat \<Rightarrow> u32 \<Rightarrow> u32 \<Rightarrow> u32 \<Rightarrow> u16 \<Rightarrow> bytes" where
  "pfc_frame_bytes mode pausetime type nbytes qIndex src ident =
    (let p = add_transport mode (PauseL \<lparr>pa_time = (if type = 0 then pausetime else 0), pa_qlen = nbytes, pa_qindex = ucast qIndex\<rparr>) []
     in add_network ((host_ip 0xFE src 0xffffffff ident p)\<lparr>ip_ttl := 1\<rparr>) \<lparr>ppp_protocol = 0x0021\<rparr> p)"

section \<open>What a switch rewrites\<close>

text \<open>RemoveHeader of the network header takes off the size it declares.\<close>
definition remove_ip :: "bytes \<Rightarrow> (Ipv4Header \<times> bytes) option" where
  "remove_ip p = map_option (\<lambda>(h, _). (h, drop (unat (ip_headerSize h)) p)) (Ipv4Header_Deserialize p)"

definition mark_ce_bytes :: "bytes \<Rightarrow> bytes option" where
  "mark_ce_bytes p = do {
     (ppp, p) \<leftarrow> PppHeader_Deserialize p;
     (h, p) \<leftarrow> remove_ip p;
     Some (add_network (Ipv4Header_SetEcn 0x03 h) ppp p) }"

definition swap_bytes :: "u32 \<Rightarrow> bytes \<Rightarrow> bytes option" where
  "swap_bytes mode p = do {
     (ppp, p) \<leftarrow> PppHeader_Deserialize p;
     (ip, p) \<leftarrow> remove_ip p;
     (qbb, p) \<leftarrow> qbbHeader_Deserialize mode IntHeader_empty p;
     let qbb' = qbb\<lparr>qb_sport := qb_dport qbb, qb_dport := qb_sport qbb\<rparr>;
     Some (add_network (ip\<lparr>ip_source := ip_destination ip, ip_destination := ip_source ip\<rparr>) ppp (add_transport mode (QbbL qbb') p)) }"

text \<open>The telemetry header is changed in place, at a fixed offset in the buffer, when the
  switch runs HPCC (3); PushHop does nothing unless the header holds hop records (mode 0).\<close>
definition push_hop_bytes :: "u32 \<Rightarrow> u32 \<Rightarrow> u32 \<Rightarrow> u64 \<Rightarrow> u64 \<Rightarrow> u32 \<Rightarrow> u64 \<Rightarrow> bytes \<Rightarrow> bytes option" where
  "push_hop_bytes ccMode mode multi now txBytes qlen rate buf =
    (if length buf \<le> PppHeader_GetStaticSize + 9 then None
     else if buf ! (PppHeader_GetStaticSize + 9) = 0x11 \<and> ccMode = 3 \<and> mode = 0
     then let off = PppHeader_GetStaticSize + 20 + 8 + 6 in do {
       (ih, rest) \<leftarrow> IntHeader_Deserialize 0 IntHeader_empty (drop off buf);
       ih' \<leftarrow> PushHop mode multi now txBytes qlen rate ih;
       Some (take off buf @ IntHeader_Serialize 0 ih' @ rest) }
     else Some buf)"


section \<open>What is built is parsed\<close>

fun protocol_of :: "Transport \<Rightarrow> u8 \<Rightarrow> bool" where
  "protocol_of (SeqTsL u s) proto \<longleftrightarrow> proto = 0x11"
| "protocol_of (QbbL h) proto \<longleftrightarrow> proto = 0xFC \<or> proto = 0xFD \<or> proto = 0xFB"
| "protocol_of (CnL h) proto \<longleftrightarrow> proto = 0xFF"
| "protocol_of (PauseL h) proto \<longleftrightarrow> proto = 0xFE"

fun l4_agrees :: "u32 \<Rightarrow> L4View \<Rightarrow> Transport \<Rightarrow> bool" where
  "l4_agrees mode (L4Udp v) (SeqTsL u s) \<longleftrightarrow> uv_sport v = udp_sourcePort u \<and> uv_dport v = udp_destinationPort u \<and>
     uv_pg v = st_pg s \<and> uv_seq v = st_seq s \<and> int_alike mode (uv_ih v) (st_ih s)"
| "l4_agrees mode (L4Ack a) (QbbL h) \<longleftrightarrow> qb_sport a = qb_sport h \<and> qb_dport a = qb_dport h \<and> qb_flags a = qb_flags h \<and>
     qb_pg a = qb_pg h \<and> qb_seq a = qb_seq h \<and> qb_irn_nack a = qb_irn_nack h \<and> qb_irn_nack_size a = qb_irn_nack_size h \<and>
     int_alike mode (qb_ih a) (qb_ih h)"
| "l4_agrees mode (L4Cnp c) (CnL h) \<longleftrightarrow> c = h"
| "l4_agrees mode (L4Pfc a) (PauseL h) \<longleftrightarrow> a = h"
| "l4_agrees mode _ _ \<longleftrightarrow> False"

lemma peek_bytes:
  assumes "protocol_of t (ip_protocol ip)"
  shows "\<exists>n ch. PeekHeader mode (PppHeader_Serialize ppp @ Ipv4Header_Serialize ip @ transport_bytes mode len t @ r) = Some (n, ch) \<and>
    ch_pppProto ch = ppp_protocol ppp \<and> ch_l3Prot ch = ip_protocol ip \<and> ch_sip ch = ip_source ip \<and> ch_dip ch = ip_destination ip \<and>
    ch_tos ch = ip_tos ip \<and> ch_ipid ch = ip_identification ip \<and> l4_agrees mode (ch_l4 ch) t \<and>
    n + (case t of QbbL _ \<Rightarrow> 6 | _ \<Rightarrow> 0) = 34 + length (transport_bytes mode len t)"
proof -
  define c where "c = CustomHeader_ctor (1 OR 2 OR 4) 0 0 L4None"
  let ?p = "PppHeader_Serialize ppp @ Ipv4Header_Serialize ip @ transport_bytes mode len t @ r"
  define c0 where "c0 = c\<lparr>ch_pppProto := ppp_protocol ppp, ch_tos := ip_tos ip, ch_ipid := ip_identification ip,
    ch_l3Prot := ip_protocol ip, ch_sip := ip_source ip, ch_dip := ip_destination ip\<rparr>"
  have c: "ch_headerType c = 7" "ch_brief c" "ch_getInt c" by (simp_all add: c_def CustomHeader_ctor_def)
  have c0: "ch_brief c0" "ch_getInt c0" "ch_l3Prot c0 = ip_protocol ip" "ch_headerType c0 = 7" "ch_pppProto c0 = ppp_protocol ppp"
    "ch_sip c0 = ip_source ip" "ch_dip c0 = ip_destination ip" "ch_tos c0 = ip_tos ip" "ch_ipid c0 = ip_identification ip"
    by (simp_all add: c0_def c)
  have n: "Buf_Next 34 ?p = Some (transport_bytes mode len t @ r)"
    using Buf_Next_append[of "PppHeader_Serialize ppp @ Ipv4Header_Serialize ip" 34 "transport_bytes mode len t @ r"] by simp
  have l: "parse_l2 c ?p = Some (14, c\<lparr>ch_pppProto := ppp_protocol ppp\<rparr>, Ipv4Header_Serialize ip @ transport_bytes mode len t @ r)"
    by (rule parse_l2_written) (simp add: c)
  have m: "parse_l3 14 ?p (c\<lparr>ch_pppProto := ppp_protocol ppp\<rparr>) i = Some (20, c0, Some (transport_bytes mode len t @ r))" for i
    unfolding c0_def by (rule parse_l3_written) (simp_all add: c)
  have P: "PeekHeader mode ?p = parse_l4 mode 0 IntHeader_empty 34 ?p c0 (transport_bytes mode len t @ r)"
    unfolding PeekHeader_def CustomHeader_Deserialize_def c_def[symmetric] by (simp add: l m)
  show ?thesis
  proof (cases t)
    case (SeqTsL u s)
    obtain ih where ih: "int_alike mode ih (st_ih s)" "parse_udp mode IntHeader_empty c0 (transport_bytes mode len t @ r)
      = Some (c0\<lparr>ch_l4 := L4Udp \<lparr>uv_sport = udp_sourcePort u, uv_dport = udp_destinationPort u, uv_payload_size = None,
          uv_pg = st_pg s, uv_seq = st_seq s, uv_ih = ih\<rparr>\<rparr>)"
      using parse_udp_written[OF c0(1,2), of mode s IntHeader_empty _ u r] SeqTsL by (auto simp: transport_bytes_def)
    show ?thesis unfolding P using assms SeqTsL n ih c0
      by (simp add: parse_l4_def GetUdpHeaderSize_def SeqTsHeader_GetHeaderSize_def transport_bytes_def)
  next
    case (QbbL h)
    obtain ih where ih: "int_alike mode ih (qb_ih h)" "parse_ack mode IntHeader_empty c0 (transport_bytes mode len t @ r)
      = Some (c0\<lparr>ch_l4 := L4Ack (h\<lparr>qb_ih := ih\<rparr>)\<rparr>)"
      using parse_ack_written[OF c0(2), of mode h IntHeader_empty r] QbbL by (auto simp: transport_bytes_def)
    show ?thesis unfolding P using assms QbbL ih c0
      by (auto simp: parse_l4_def GetAckSerializedSize_def qbbHeader_GetSerializedSize_def qbbHeader_GetBaseSize_def transport_bytes_def)
  next
    case (CnL h)
    have "parse_cnp c0 (transport_bytes mode len t @ r) = Some (c0\<lparr>ch_l4 := L4Cnp h\<rparr>)"
      using parse_cnp_written CnL by (simp add: transport_bytes_def)
    then show ?thesis unfolding P using assms CnL c0 by (simp add: parse_l4_def transport_bytes_def)
  next
    case (PauseL h)
    have "parse_pfc c0 (transport_bytes mode len t @ r) = Some (c0\<lparr>ch_l4 := L4Pfc h\<rparr>)"
      using parse_pfc_written PauseL by (simp add: transport_bytes_def)
    then show ?thesis unfolding P using assms PauseL c0 by (simp add: parse_l4_def transport_bytes_def)
  qed
qed


lemma l4_agrees_iff:
  "l4_agrees mode l (QbbL h) \<longleftrightarrow> (\<exists>a. l = L4Ack a \<and> l4_agrees mode (L4Ack a) (QbbL h))"
  "l4_agrees mode l (CnL c) \<longleftrightarrow> l = L4Cnp c" "l4_agrees mode l (PauseL q) \<longleftrightarrow> l = L4Pfc q"
  by (cases l; auto)+

lemma peek_network:
  assumes "ip_headerSize ip = 20" "protocol_of t (ip_protocol ip)"
  shows "\<exists>n ch. PeekHeader mode (add_network ip ppp (add_transport mode t p)) = Some (n, ch) \<and> ch_l3Prot ch = ip_protocol ip \<and>
    ch_sip ch = ip_source ip \<and> ch_dip ch = ip_destination ip \<and> l4_agrees mode (ch_l4 ch) t \<and>
    n + (case t of QbbL _ \<Rightarrow> 6 | _ \<Rightarrow> 0) = 34 + length (transport_bytes mode (length p) t)"
  using peek_bytes[OF assms(2), of mode ppp "length p" p] unfolding add_transport_bytes add_network_bytes[OF assms(1)] by blast

lemma host_ip_sel [simp]:
  "ip_headerSize (host_ip proto s d i p) = 20" "ip_protocol (host_ip proto s d i p) = proto"
  "ip_source (host_ip proto s d i p) = s" "ip_destination (host_ip proto s d i p) = d"
  by (simp_all add: host_ip_def Ipv4Header_ctor_def)

lemma ack_parsed:
  assumes "(if \<not> irn then raw else if x = 2 then (uv_seq v, ucast psize) else (0, 0)) = (nack, nackSize)"
  shows "\<exists>n ch a. PeekHeader mode (ack_packet_bytes mode irn ccMode raw x expected psize ecnbits v src dst ident) = Some (n, ch) \<and>
      ch_l3Prot ch = (if x = 1 then 0xFC else 0xFD) \<and> ch_sip ch = dst \<and> ch_dip ch = src \<and> ch_l4 ch = L4Ack a \<and>
      qb_sport a = uv_dport v \<and> qb_dport a = uv_sport v \<and> qb_pg a = uv_pg v \<and> qb_seq a = expected \<and>
      (qb_irn_nack a, qb_irn_nack_size a) = (nack, nackSize) \<and>
      qbbHeader_GetCnp a = (if ecnbits \<noteq> 0 \<and> ccMode \<noteq> 1 then 1 else 0) \<and> int_alike mode (qb_ih a) (uv_ih v) \<and>
      n + 6 = 14 + 20 + qbbHeader_GetSerializedSize mode"
proof -
  define h0 where "h0 = \<lparr>qb_sport = uv_dport v, qb_dport = uv_sport v, qb_flags = 0, qb_pg = uv_pg v, qb_seq = expected,
    qb_irn_nack = nack, qb_irn_nack_size = nackSize, qb_ih = uv_ih v\<rparr>"
  define h where "h = (if ecnbits \<noteq> 0 \<and> ccMode \<noteq> 1 then qbbHeader_SetCnp h0 else h0)"
  have h: "qb_sport h = uv_dport v" "qb_dport h = uv_sport v" "qb_pg h = uv_pg v" "qb_seq h = expected" "qb_irn_nack h = nack"
    "qb_irn_nack_size h = nackSize" "qb_ih h = uv_ih v" "qb_flags h = (if ecnbits \<noteq> 0 \<and> ccMode \<noteq> 1 then 1 else 0)"
    by (simp_all add: h_def h0_def qbbHeader_SetCnp_def)
  define p where "p = replicate (60 - 14 - 20 - qbbHeader_GetSerializedSize mode) (0::u8)"
  define ip where "ip = host_ip (if x = 1 then 0xFC else 0xFD) dst src ident (add_transport mode (QbbL h) p)"
  have b: "ack_packet_bytes mode irn ccMode raw x expected psize ecnbits v src dst ident
      = add_network ip \<lparr>ppp_protocol = 0x0021\<rparr> (add_transport mode (QbbL h) p)"
    unfolding ack_packet_bytes_def assms by (simp add: Let_def ip_def p_def h_def h0_def)
  have ip: "ip_headerSize ip = 20" "ip_protocol ip = (if x = 1 then 0xFC else 0xFD)" "ip_source ip = dst" "ip_destination ip = src"
    by (simp_all add: ip_def)
  have "protocol_of (QbbL h) (ip_protocol ip)" using ip(2) by simp
  from peek_network[OF ip(1) this, of mode "\<lparr>ppp_protocol = 0x0021\<rparr>" p] obtain n ch a
    where "PeekHeader mode (add_network ip \<lparr>ppp_protocol = 0x0021\<rparr> (add_transport mode (QbbL h) p)) = Some (n, ch)"
      "ch_l3Prot ch = ip_protocol ip" "ch_sip ch = ip_source ip" "ch_dip ch = ip_destination ip" "ch_l4 ch = L4Ack a"
      "l4_agrees mode (L4Ack a) (QbbL h)" "n + 6 = 34 + qbbHeader_GetSerializedSize mode"
    unfolding l4_agrees_iff(1)[of mode "ch_l4 _"] by (auto simp: transport_bytes_def)
  then show ?thesis unfolding b using ip h by (intro exI[of _ n] exI[of _ ch] exI[of _ a]) (simp add: qbbHeader_GetCnp_def)
qed

lemma cnp_parsed:
  "\<exists>ch. PeekHeader mode (cnp_packet_bytes mode cnh src dst ident) = Some (42, ch) \<and> ch_l3Prot ch = 0xFF \<and>
      ch_sip ch = src \<and> ch_dip ch = dst \<and> ch_l4 ch = L4Cnp cnh"
  using peek_network[of "host_ip 0xFF src dst ident (add_transport mode (CnL cnh) (replicate (60 - 14 - 20 - 8) 0))" "CnL cnh" mode
      "\<lparr>ppp_protocol = 0x0021\<rparr>" "replicate (60 - 14 - 20 - 8) 0"]
  by (auto simp: cnp_packet_bytes_def Let_def l4_agrees_iff transport_bytes_def)

lemma pfc_parsed:
  fixes pausetime nbytes qIndex src :: u32 and type :: nat
  defines "h \<equiv> \<lparr>pa_time = (if type = 0 then pausetime else 0), pa_qlen = nbytes, pa_qindex = ucast qIndex\<rparr>"
  shows "\<exists>ch. PeekHeader mode (pfc_frame_bytes mode pausetime type nbytes qIndex src ident) = Some (43, ch) \<and> ch_l3Prot ch = 0xFE \<and>
      ch_sip ch = src \<and> ch_dip ch = 0xffffffff \<and> ch_l4 ch = L4Pfc h"
  using peek_network[of "(host_ip 0xFE src 0xffffffff ident (add_transport mode (PauseL h) []))\<lparr>ip_ttl := 1\<rparr>" "PauseL h" mode
      "\<lparr>ppp_protocol = 0x0021\<rparr>" "[]"]
  by (auto simp: pfc_frame_bytes_def Let_def l4_agrees_iff transport_bytes_def h_def)

end
