(* ===== verification/PacketBytes.thy ===== *)
theory PacketBytes
  imports HeaderBytes RdmaHost
begin

text \<open>
  The packets of the model stand for the bytes on the wire: what the devices of dpdq-ns3 parse
  (\<^verbatim>\<open>custom-header.cc\<close>) from the bytes a DPDQ host builds, and a switch
  rewrites, is the record that the models of hosts and switches pass along.
\<close>

section \<open>The record a parsed header stands for\<close>

definition hdr_view :: "ParsedHeader \<Rightarrow> CustomHeader" where
  "hdr_view ch = \<lparr>l3Prot = ch_l3Prot ch, sip = ch_sip ch, dip = ch_dip ch,
     sport = (case ch_l4 ch of L4Udp v \<Rightarrow> uv_sport v | L4Ack a \<Rightarrow> qb_sport a | _ \<Rightarrow> 0),
     dport = (case ch_l4 ch of L4Udp v \<Rightarrow> uv_dport v | L4Ack a \<Rightarrow> qb_dport a | _ \<Rightarrow> 0),
     pg = (case ch_l4 ch of L4Udp v \<Rightarrow> uv_pg v | L4Ack a \<Rightarrow> qb_pg a | _ \<Rightarrow> 0),
     seq = (case ch_l4 ch of L4Udp v \<Rightarrow> uv_seq v | L4Ack a \<Rightarrow> qb_seq a | _ \<Rightarrow> 0)\<rparr>"

definition int_view :: "ParsedHeader \<Rightarrow> IntHeader" where
  "int_view ch = (case ch_l4 ch of L4Udp v \<Rightarrow> uv_ih v | L4Ack a \<Rightarrow> qb_ih a | _ \<Rightarrow> IntHeader_empty)"

text \<open>Bytes and record of a packet under way in a run with the given telemetry mode: built by a
  host, marked, turned around or stamped by switches.\<close>
inductive in_flight :: "u32 \<Rightarrow> bytes \<Rightarrow> NsPacket \<Rightarrow> bool" for mode :: u32 where
  fl_data: "h_intMode c = mode \<Longrightarrow> unat payloadSize + 100 < 2 ^ 32 \<Longrightarrow>
    in_flight mode (data_packet_bytes c q payloadSize number now) (data_packet c q payloadSize number tag)"
| fl_ctrl: "h_intMode c = mode \<Longrightarrow>
    in_flight mode (ctrl_packet_bytes c src dst sp dp cls number ident)
      (BuildCreditBouncerCtrlPacket c src dst sp dp cls number msgType req cred pad start chunks)"
| fl_mark: "in_flight mode bs p \<Longrightarrow> mark_ce_bytes bs = Some bs' \<Longrightarrow> in_flight mode bs' (p\<lparr>p_ecn := 3\<rparr>)"
| fl_swap: "in_flight mode bs p \<Longrightarrow> l3Prot (p_hdr p) = RDMA_L3_PROT_CREDITBOUNCER \<Longrightarrow> swap_bytes mode bs = Some bs' \<Longrightarrow>
    in_flight mode bs' (fst (swap_tuple p (p_hdr p)))"
| fl_stamp: "in_flight mode bs p \<Longrightarrow> l3Prot (p_hdr p) = RDMA_L3_PROT_UDP \<Longrightarrow>
    push_hop_bytes 3 mode multi now txBytes qlen rate bs = Some bs' \<Longrightarrow>
    PushHop mode multi now txBytes qlen rate (p_int p) = Some ih \<Longrightarrow> in_flight mode bs' (p\<lparr>p_int := ih\<rparr>)"

section \<open>The shape of the bytes\<close>

fun transport_fits :: "u32 \<Rightarrow> Transport \<Rightarrow> NsPacket \<Rightarrow> bool" where
  "transport_fits mode (SeqTsL u s) p \<longleftrightarrow> l3Prot (p_hdr p) = RDMA_L3_PROT_UDP \<and> udp_sourcePort u = sport (p_hdr p) \<and>
     udp_destinationPort u = dport (p_hdr p) \<and> st_pg s = pg (p_hdr p) \<and> st_seq s = seq (p_hdr p) \<and>
     (mode = 0 \<longrightarrow> int_alike 0 (st_ih s) (p_int p))"
| "transport_fits mode (QbbL h) p \<longleftrightarrow> l3Prot (p_hdr p) = RDMA_L3_PROT_CREDITBOUNCER \<and> qb_sport h = sport (p_hdr p) \<and>
     qb_dport h = dport (p_hdr p) \<and> qb_pg h = pg (p_hdr p) \<and> qb_seq h = seq (p_hdr p) \<and>
     (mode = 0 \<longrightarrow> int_alike 0 (qb_ih h) (p_int p))"
| "transport_fits mode _ p \<longleftrightarrow> False"

definition network_fits :: "Ipv4Header \<Rightarrow> NsPacket \<Rightarrow> bool" where
  "network_fits ip p \<longleftrightarrow> ip_headerSize ip = 20 \<and> ip_flags ip = 0 \<and> ip_fragmentOffset ip = 0 \<and> ip_protocol ip = l3Prot (p_hdr p) \<and>
     ip_source ip = sip (p_hdr p) \<and> ip_destination ip = dip (p_hdr p) \<and> unat (ip_tos ip AND 3) = p_ecn p"

definition carries :: "u32 \<Rightarrow> bytes \<Rightarrow> NsPacket \<Rightarrow> bool" where
  "carries mode bs p \<longleftrightarrow> (\<exists>ip ppp len t r.
     bs = PppHeader_Serialize ppp @ Ipv4Header_Serialize ip @ transport_bytes mode len t @ r \<and>
     network_fits ip p \<and> transport_fits mode t p \<and> length bs = unat (p_size p))"

lemma int_alike_refl [simp]: "int_alike mode a a"
  by (simp add: int_alike_def)

lemma int_alike_trans: "int_alike mode a b \<Longrightarrow> int_alike mode b c \<Longrightarrow> int_alike mode a c"
  by (simp add: int_alike_def)

lemma carriesI:
  assumes "network_fits ip p" "transport_fits mode t p"
    "length (add_network ip ppp (transport_bytes mode len t @ r)) = unat (p_size p)"
  shows "carries mode (add_network ip ppp (transport_bytes mode len t @ r)) p"
proof -
  have "ip_headerSize ip = 20" using assms(1) by (simp add: network_fits_def)
  then show ?thesis unfolding carries_def using assms add_network_bytes[of ip ppp] by metis
qed

lemma transport_length: "length (transport_bytes mode len t) = length (transport_bytes mode 0 t)"
  by (cases t) (simp_all add: transport_bytes_def)

lemma unat_small: "m < 2 ^ 32 \<Longrightarrow> unat (word_of_nat m :: u32) = m"
  by (simp add: unsigned_of_nat take_bit_nat_eq_self)

lemma data_carries:
  assumes "h_intMode c = mode" "unat payloadSize + 100 < 2 ^ 32"
  shows "carries mode (data_packet_bytes c q payloadSize number now) (data_packet c q payloadSize number tag)"
proof -
  let ?g = "IntHeader_GetStaticSize mode"
  have g: "?g \<le> 42" by (simp add: IntHeader_GetStaticSize_def maxHop_def)
  have w: "unat (word_of_nat (6 + ?g + 8 + 20 + 14) :: u32) = ?g + 48" using g by (subst unat_small) simp_all
  have "unat (payloadSize + word_of_nat (6 + ?g + 8 + 20 + 14)) = unat payloadSize + (?g + 48)"
    using g assms(2) unfolding w[symmetric] by (intro unat_add_lt) (simp only: w, simp)
  then have "unat (p_size (data_packet c q payloadSize number tag)) = unat payloadSize + (?g + 48)"
    by (simp add: data_packet_def assms(1))
  then show ?thesis
    unfolding data_packet_bytes_def Let_def add_transport_bytes assms(1)
    by (intro carriesI) (simp_all add: network_fits_def host_ip_def Ipv4Header_ctor_def data_packet_def assms(1)
        add_network_bytes transport_bytes_def SeqTsHeader_GetHeaderSize_def int_alike_def)
qed

lemma ctrl_carries:
  assumes "h_intMode c = mode"
  shows "carries mode (ctrl_packet_bytes c src dst sp dp cls number ident)
    (BuildCreditBouncerCtrlPacket c src dst sp dp cls number msgType req cred pad start chunks)"
proof -
  let ?h = "18 + IntHeader_GetStaticSize mode"
  have g: "IntHeader_GetStaticSize mode \<le> 42" by (simp add: IntHeader_GetStaticSize_def maxHop_def)
  have w: "unat (word_of_nat ((60 - 14 - 20 - ?h) + ?h + 20 + 14) :: u32) = (60 - 14 - 20 - ?h) + ?h + 20 + 14"
    using g by (intro unat_small) simp
  have "unat (p_size (BuildCreditBouncerCtrlPacket c src dst sp dp cls number msgType req cred pad start chunks))
      = (60 - 14 - 20 - ?h) + ?h + 20 + 14"
    unfolding BuildCreditBouncerCtrlPacket_def Let_def assms(1) using w by (simp del: of_nat_add)
  then show ?thesis
    unfolding ctrl_packet_bytes_def Let_def add_transport_bytes assms(1)
    by (intro carriesI) (simp_all add: network_fits_def host_ip_def Ipv4Header_ctor_def BuildCreditBouncerCtrlPacket_def assms(1)
        add_network_bytes transport_bytes_def qbbHeader_GetSerializedSize_def qbbHeader_GetBaseSize_def Let_def)
qed

lemma removed:
  assumes "network_fits ip p"
  shows "remove_ip (Ipv4Header_Serialize ip @ r) = Some (ip\<lparr>ip_checksum := 0\<rparr>, r)"
  using assms ip_written[of ip r] by (cases ip) (simp add: remove_ip_def network_fits_def)

lemma mark_carries:
  assumes "carries mode bs p"
  shows "\<exists>bs'. mark_ce_bytes bs = Some bs' \<and> carries mode bs' (p\<lparr>p_ecn := 3\<rparr>)"
proof -
  obtain ip ppp len t r where b: "bs = PppHeader_Serialize ppp @ Ipv4Header_Serialize ip @ transport_bytes mode len t @ r"
    and f: "network_fits ip p" "transport_fits mode t p" "length bs = unat (p_size p)"
    using assms unfolding carries_def by blast
  let ?ip = "Ipv4Header_SetEcn 0x03 (ip\<lparr>ip_checksum := 0\<rparr>)"
  have tos: "((ip_tos ip AND 0xFC) OR 3) AND 3 = 3"
    by (rule bit_word_eqI) (auto simp: bit_simps)
  have n: "network_fits ?ip (p\<lparr>p_ecn := 3\<rparr>)" using f(1) by (simp add: network_fits_def Ipv4Header_SetEcn_def tos)
  moreover have "transport_fits mode t (p\<lparr>p_ecn := 3\<rparr>)" using f(2) by (cases t) simp_all
  moreover have "length (add_network ?ip ppp (transport_bytes mode len t @ r)) = unat (p_size p)"
    using f(3) n by (simp add: b add_network_bytes network_fits_def)
  ultimately have "carries mode (add_network ?ip ppp (transport_bytes mode len t @ r)) (p\<lparr>p_ecn := 3\<rparr>)"
    by (intro carriesI) simp_all
  then show ?thesis using removed[OF f(1)] by (simp add: mark_ce_bytes_def b ppp_written)
qed


lemma swap_carries:
  assumes "carries mode bs p" "l3Prot (p_hdr p) = RDMA_L3_PROT_CREDITBOUNCER"
  shows "\<exists>bs'. swap_bytes mode bs = Some bs' \<and> carries mode bs' (fst (swap_tuple p (p_hdr p)))"
proof -
  obtain ip ppp len t r where b: "bs = PppHeader_Serialize ppp @ Ipv4Header_Serialize ip @ transport_bytes mode len t @ r"
    and f: "network_fits ip p" "transport_fits mode t p" "length bs = unat (p_size p)"
    using assms(1) unfolding carries_def by blast
  obtain h where t: "t = QbbL h" using f(2) assms(2)
    by (cases t) (auto simp: RDMA_L3_PROT_CREDITBOUNCER_def RDMA_L3_PROT_UDP_def)
  obtain ih where q: "qbbHeader_Deserialize mode IntHeader_empty (qbbHeader_Serialize mode h @ r) = Some (h\<lparr>qb_ih := ih\<rparr>, r)"
    "int_alike mode ih (qb_ih h)" using qbb_written by blast
  define p' where "p' = fst (swap_tuple p (p_hdr p))"
  let ?ip = "ip\<lparr>ip_checksum := 0, ip_source := ip_destination ip, ip_destination := ip_source ip\<rparr>"
  let ?h = "h\<lparr>qb_ih := ih, qb_sport := qb_dport h, qb_dport := qb_sport h\<rparr>"
  have p': "p_hdr p' = (p_hdr p)\<lparr>sip := dip (p_hdr p), dip := sip (p_hdr p), sport := dport (p_hdr p), dport := sport (p_hdr p)\<rparr>"
    "p_ecn p' = p_ecn p" "p_int p' = p_int p" "p_size p' = p_size p"
    by (simp_all add: p'_def swap_tuple_def Let_def)
  have n: "network_fits ?ip p'" using f(1) by (simp add: network_fits_def p')
  have i: "mode = 0 \<longrightarrow> int_alike 0 ih (p_int p)" using q(2) f(2) t int_alike_trans by auto
  have u: "transport_fits mode (QbbL ?h) p'" using f(2) t i by (simp add: p')
  have e: "length (qbbHeader_Serialize mode ?h) = length (qbbHeader_Serialize mode h)" by simp
  have "length (add_network ?ip ppp (transport_bytes mode (length r) (QbbL ?h) @ r)) = unat (p_size p')"
    using f(3) n e by (simp add: b t add_network_bytes network_fits_def transport_bytes_def p')
  with n u have "carries mode (add_network ?ip ppp (transport_bytes mode (length r) (QbbL ?h) @ r)) p'"
    by (intro carriesI)
  moreover have "swap_bytes mode bs = Some (add_network ?ip ppp (transport_bytes mode (length r) (QbbL ?h) @ r))"
    using removed[OF f(1)] q(1) by (simp add: swap_bytes_def b t ppp_written transport_bytes_def add_transport_bytes Let_def)
  ultimately show ?thesis unfolding p'_def by blast
qed

lemma PushHop_alike:
  assumes "int_alike 0 a b" "PushHop 0 multi now txBytes qlen rate b = Some b'"
  shows "\<exists>a'. PushHop 0 multi now txBytes qlen rate a = Some a' \<and> int_alike 0 a' b'"
proof -
  have m: "unat x mod maxHop < maxHop" for x :: u16 by (simp add: maxHop_def)
  have e: "hop a (unat (nhop b) mod maxHop) = hop b (unat (nhop b) mod maxHop)" "nhop a = nhop b"
    using assms(1) m by (simp_all add: int_alike_def)
  show ?thesis using assms e by (auto simp: PushHop_def Let_def int_alike_def split: option.splits)
qed

lemma stamp_carries:
  assumes c: "carries mode bs p" and udp: "l3Prot (p_hdr p) = RDMA_L3_PROT_UDP"
    and push: "PushHop mode multi now txBytes qlen rate (p_int p) = Some ih"
  shows "\<exists>bs'. push_hop_bytes 3 mode multi now txBytes qlen rate bs = Some bs' \<and> carries mode bs' (p\<lparr>p_int := ih\<rparr>)"
proof -
  obtain ip ppp len t r where b: "bs = PppHeader_Serialize ppp @ Ipv4Header_Serialize ip @ transport_bytes mode len t @ r"
    and f: "network_fits ip p" "transport_fits mode t p" "length bs = unat (p_size p)"
    using c unfolding carries_def by blast
  obtain u s where t: "t = SeqTsL u s" using f(2) udp
    by (cases t) (auto simp: RDMA_L3_PROT_CREDITBOUNCER_def RDMA_L3_PROT_UDP_def)
  have nine: "Ipv4Header_Serialize ip ! 9 = ip_protocol ip"
    by (simp add: Ipv4Header_Serialize_def WriteHtonU16_def Let_def eval_nat_numeral)
  have at: "bs ! 23 = 0x11"
    using f(1) udp nine by (simp add: b nth_append network_fits_def RDMA_L3_PROT_UDP_def)
  have long: "23 < length bs" by (simp add: b)
  show ?thesis
  proof (cases "mode = 0")
    case False
    then have "ih = p_int p" using push by (simp add: PushHop_def)
    then show ?thesis using False long c by (simp add: push_hop_bytes_def PppHeader_GetStaticSize_def)
  next
    case True
    define pre where "pre = PppHeader_Serialize ppp @ Ipv4Header_Serialize ip
      @ UdpHeader_Serialize (of_nat (8 + (SeqTsHeader_GetHeaderSize mode + len))) u @ WriteHtonU32 (st_seq s) @ WriteHtonU16 (st_pg s)"
    have split: "bs = pre @ IntHeader_Serialize 0 (st_ih s) @ r"
      using True by (simp add: b t transport_bytes_def SeqTsHeader_Serialize_def pre_def)
    have len48: "length pre = 48" by (simp add: pre_def)
    obtain i where i: "IntHeader_Deserialize 0 IntHeader_empty (IntHeader_Serialize 0 (st_ih s) @ r) = Some (i, r)"
      "int_alike 0 i (st_ih s)" using IntHeader_written by blast
    have "int_alike 0 i (p_int p)" using i(2) f(2) t True int_alike_trans by auto
    then obtain i' where i': "PushHop 0 multi now txBytes qlen rate i = Some i'" "int_alike 0 i' ih"
      using PushHop_alike push True by blast
    let ?s = "s\<lparr>st_ih := i'\<rparr>" and ?p = "p\<lparr>p_int := ih\<rparr>"
    let ?bs = "pre @ IntHeader_Serialize 0 i' @ r"
    have "drop 48 bs = IntHeader_Serialize 0 (st_ih s) @ r" "take 48 bs = pre" using len48 by (simp_all add: split)
    then have "push_hop_bytes 3 mode multi now txBytes qlen rate bs = Some ?bs"
      using True at long i(1) i'(1) by (simp add: push_hop_bytes_def PppHeader_GetStaticSize_def)
    moreover have "?bs = PppHeader_Serialize ppp @ Ipv4Header_Serialize ip @ transport_bytes mode len (SeqTsL u ?s) @ r"
      using True by (simp add: transport_bytes_def SeqTsHeader_Serialize_def pre_def)
    moreover have "length ?bs = unat (p_size ?p)" using f(3) by (simp add: split)
    moreover have "network_fits ip ?p" "transport_fits mode (SeqTsL u ?s) ?p"
      using f t i'(2) by (simp_all add: network_fits_def)
    ultimately show ?thesis unfolding carries_def by blast
  qed
qed


section \<open>Properties\<close>

lemma in_flight_carries: "in_flight mode bs p \<Longrightarrow> carries mode bs p"
proof (induction rule: in_flight.induct)
  case (fl_mark bs p bs')
  then show ?case using mark_carries[of mode bs p] by auto
next
  case (fl_swap bs p bs')
  then show ?case using swap_carries[of mode bs p] by auto
next
  case (fl_stamp bs p multi now txBytes qlen rate bs' ih)
  then show ?case using stamp_carries[of mode bs p multi now txBytes qlen rate ih] by auto
qed (simp_all add: data_carries ctrl_carries)

text \<open>C38: the packets of the model are the bytes on the wire.  Take a data packet or a control
  packet as a DPDQ host builds its bytes, header by header, and let switches rewrite those bytes
  any number of times: set the congestion mark, turn a grant around by exchanging addresses and
  ports, push a telemetry record at its fixed offset.  What every device parses from the bytes is
  then the header, the congestion mark and (in telemetry mode) the hop records of the record that
  the models of host and switch pass along, the number of bytes is its size, and the next
  rewriting succeeds too.\<close>
theorem wire_bytes_refine_packets:
  assumes "in_flight mode bs p"
  shows "\<exists>n ch. PeekHeader mode bs = Some (n, ch) \<and> hdr_view ch = p_hdr p \<and> unat (GetIpv4EcnBits ch) = p_ecn p \<and>
    (mode = 0 \<longrightarrow> int_alike 0 (int_view ch) (p_int p)) \<and> length bs = unat (p_size p) \<and>
    mark_ce_bytes bs \<noteq> None \<and> (l3Prot (p_hdr p) = RDMA_L3_PROT_CREDITBOUNCER \<longrightarrow> swap_bytes mode bs \<noteq> None)"
proof -
  have c: "carries mode bs p" by (rule in_flight_carries[OF assms])
  then obtain ip ppp len t r where b: "bs = PppHeader_Serialize ppp @ Ipv4Header_Serialize ip @ transport_bytes mode len t @ r"
    and f: "network_fits ip p" "transport_fits mode t p" "length bs = unat (p_size p)"
    unfolding carries_def by blast
  have "protocol_of t (ip_protocol ip)"
    using f(1,2) by (cases t) (auto simp: network_fits_def RDMA_L3_PROT_CREDITBOUNCER_def RDMA_L3_PROT_UDP_def)
  from peek_bytes[OF this, of mode ppp len r] obtain n ch where ch: "PeekHeader mode bs = Some (n, ch)"
    "ch_l3Prot ch = ip_protocol ip" "ch_sip ch = ip_source ip" "ch_dip ch = ip_destination ip" "ch_tos ch = ip_tos ip"
    "l4_agrees mode (ch_l4 ch) t" unfolding b by blast
  have "hdr_view ch = p_hdr p \<and> (mode = 0 \<longrightarrow> int_alike 0 (int_view ch) (p_int p))"
    using f(1,2) ch(2-4,6)
    by (cases t; cases "ch_l4 ch") (auto simp: hdr_view_def int_view_def network_fits_def intro: int_alike_trans)
  then show ?thesis using ch(1,5) f mark_carries[OF c] swap_carries[OF c]
    by (auto simp: GetIpv4EcnBits_def network_fits_def)
qed

text \<open>A data packet of 1000 bytes in telemetry mode, marked by a switch.\<close>
definition telemetry_cfg :: RdmaConfig where "telemetry_cfg = cfg1\<lparr>h_intMode := 0\<rparr>"
definition plain_qp :: RdmaQueuePair where "plain_qp = RdmaQueuePair_ctor 3 1 2 10 100"

theorem wire_bytes_refine_packets_witness:
  "\<exists>bs n ch. mark_ce_bytes (data_packet_bytes telemetry_cfg plain_qp 1000 5 0) = Some bs \<and> PeekHeader 0 bs = Some (n, ch) \<and>
    hdr_view ch = \<lparr>l3Prot = 0x11, sip = 1, dip = 2, sport = 10, dport = 100, pg = 3, seq = 5\<rparr> \<and>
    unat (GetIpv4EcnBits ch) = 3 \<and> length bs = 1090"
proof -
  let ?b = "data_packet_bytes telemetry_cfg plain_qp 1000 5 0" and ?p = "data_packet telemetry_cfg plain_qp 1000 5 tag1"
  have f: "in_flight 0 ?b ?p" by (rule fl_data) (simp_all add: telemetry_cfg_def)
  then obtain bs where bs: "mark_ce_bytes ?b = Some bs" using wire_bytes_refine_packets by blast
  have "in_flight 0 bs (?p\<lparr>p_ecn := 3\<rparr>)" by (rule fl_mark[OF f bs])
  from wire_bytes_refine_packets[OF this] obtain n ch where "PeekHeader 0 bs = Some (n, ch)" "hdr_view ch = p_hdr ?p"
    "unat (GetIpv4EcnBits ch) = 3" "length bs = unat (p_size ?p)" by auto
  moreover have "p_hdr ?p = \<lparr>l3Prot = 0x11, sip = 1, dip = 2, sport = 10, dport = 100, pg = 3, seq = 5\<rparr>" "unat (p_size ?p) = 1090"
    by (simp_all add: data_packet_def plain_qp_def RdmaQueuePair_ctor_def telemetry_cfg_def RDMA_L3_PROT_UDP_def
        IntHeader_GetStaticSize_def maxHop_def)
  ultimately show ?thesis using bs by auto
qed

text \<open>C39: the feedback frames are parsed as they are built.  From an acknowledgement, a congestion
  notice and a PFC frame the receiving device parses the protocol number, the addresses and every
  field of the transport header; the length that Deserialize reports is right for the notice and
  the PFC frame and 6 bytes short for the acknowledgement.\<close>
theorem feedback_frames_parsed:
  "(\<exists>n ch. PeekHeader mode (ack_packet_bytes mode irn ccMode raw x expected psize ecnbits v src dst ident) = Some (n, ch) \<and>
      ch_l3Prot ch = (if x = 1 then 0xFC else 0xFD) \<and> ch_sip ch = dst \<and> ch_dip ch = src \<and>
      (case ch_l4 ch of L4Ack a \<Rightarrow> qb_sport a = uv_dport v \<and> qb_dport a = uv_sport v \<and> qb_pg a = uv_pg v \<and> qb_seq a = expected \<and>
         (qb_irn_nack a, qb_irn_nack_size a) = (if \<not> irn then raw else if x = 2 then (uv_seq v, ucast psize) else (0, 0)) \<and>
         qbbHeader_GetCnp a = (if ecnbits \<noteq> 0 \<and> ccMode \<noteq> 1 then 1 else 0) \<and> int_alike mode (qb_ih a) (uv_ih v) | _ \<Rightarrow> False) \<and>
      n + 6 = 14 + 20 + qbbHeader_GetSerializedSize mode) \<and>
   (\<exists>ch. PeekHeader mode (cnp_packet_bytes mode cnh src dst ident) = Some (42, ch) \<and> ch_l3Prot ch = 0xFF \<and>
      ch_sip ch = src \<and> ch_dip ch = dst \<and> ch_l4 ch = L4Cnp cnh) \<and>
   (\<exists>ch. PeekHeader mode (pfc_frame_bytes mode pausetime type nbytes qIndex src ident) = Some (43, ch) \<and> ch_l3Prot ch = 0xFE \<and>
      ch_sip ch = src \<and> ch_dip ch = 0xffffffff \<and> ch_l4 ch = L4Pfc \<lparr>pa_time = (if type = 0 then pausetime else 0), pa_qlen = nbytes, pa_qindex = ucast qIndex\<rparr>)"
proof -
  obtain nack nackSize where nn: "(if \<not> irn then raw else if x = 2 then (uv_seq v, ucast psize) else (0, 0)) = (nack, nackSize)"
    by fastforce
  note A = ack_parsed[OF nn, of mode ccMode expected ecnbits src dst ident]
  show ?thesis unfolding nn using A cnp_parsed pfc_parsed by fastforce
qed

end
