(* ===== verification/NoticePoint.thy ===== *)
theory NoticePoint
  imports HeaderBytes
begin

text \<open>
  The notification point of DCQCN: how a receiver counts congestion marks and sends congestion
  notices (\<^verbatim>\<open>ReceiveUdp\<close>, \<^verbatim>\<open>MaybeSendDcqcnCnp\<close>,
  \<^verbatim>\<open>HandleDcqcnCnpTimer\<close> and \<^verbatim>\<open>SendDcqcnCnp\<close> in
  \<^verbatim>\<open>point-to-point/model/rdma-hw.cc\<close>).  Over any arrivals the notices are at least an
  interval apart, no mark is lost, and a mark waits for the next firing of a pending timer.
\<close>

section \<open>Counting and reporting\<close>

text \<open>The timer is the time at which it fires; the notices sent are a log.\<close>
record NoticeState =
  m_qcnPending :: bool
  QcnTimerEvent :: "int option"
  np_sent :: "(int \<times> CnHeader) list"

definition NoticeState_ctor :: NoticeState where
  "NoticeState_ctor = \<lparr>m_qcnPending = False, QcnTimerEvent = None, np_sent = []\<rparr>"

text \<open>DCQCN\_STANDALONE\_CNP\_INTERVAL\_US, in nanoseconds.\<close>
definition cnp_interval :: int where "cnp_interval = 50 * 1000"

definition count_mark :: "u8 \<Rightarrow> RdmaRxQueuePair \<Rightarrow> RdmaRxQueuePair" where
  "count_mark ecnbits q =
    (let q = (if ecnbits \<noteq> 0 then q\<lparr>rx_ecnbits := rx_ecnbits q OR ecnbits, rx_qfb := rx_qfb q + 1\<rparr> else q)
     in q\<lparr>rx_total := rx_total q + 1\<rparr>)"

definition SendDcqcnCnp :: "int \<Rightarrow> RdmaRxQueuePair \<times> NoticeState \<Rightarrow> RdmaRxQueuePair \<times> NoticeState" where
  "SendDcqcnCnp now s =
    (let (q, n) = s in
     if rx_ecnbits q = 0 \<or> rx_total q = 0 then s
     else let cnh = \<lparr>cn_fid = rx_dport q, cn_qIndex = ucast (rx_qIndex q), cn_qfb = rx_qfb q, cn_ecnBits = rx_ecnbits q,
                     cn_total = rx_total q\<rparr>
          in (q\<lparr>rx_ipid := rx_ipid q + 1, rx_ecnbits := 0, rx_qfb := 0, rx_total := 0\<rparr>,
              n\<lparr>np_sent := np_sent n @ [(now, cnh)]\<rparr>))"

definition MaybeSendDcqcnCnp :: "int \<Rightarrow> RdmaRxQueuePair \<times> NoticeState \<Rightarrow> RdmaRxQueuePair \<times> NoticeState" where
  "MaybeSendDcqcnCnp now s =
    (let (q, n) = s in
     if QcnTimerEvent n = None
     then let (q, n) = SendDcqcnCnp now (q, n\<lparr>m_qcnPending := False\<rparr>)
          in (q, n\<lparr>QcnTimerEvent := Some (now + cnp_interval)\<rparr>)
     else (q, n\<lparr>m_qcnPending := True\<rparr>))"

text \<open>When the handler runs, the event that called it is no longer running.\<close>
definition HandleDcqcnCnpTimer :: "int \<Rightarrow> RdmaRxQueuePair \<times> NoticeState \<Rightarrow> RdmaRxQueuePair \<times> NoticeState" where
  "HandleDcqcnCnpTimer now s =
    (let (q, n) = s; n = n\<lparr>QcnTimerEvent := None\<rparr> in
     if m_qcnPending n
     then let (q, n) = SendDcqcnCnp now (q, n\<lparr>m_qcnPending := False\<rparr>)
          in (q, n\<lparr>QcnTimerEvent := Some (now + cnp_interval)\<rparr>)
     else (q, n))"

text \<open>The marks of one data packet, in DCQCN mode.\<close>
definition mark_arrives :: "int \<Rightarrow> u8 \<Rightarrow> RdmaRxQueuePair \<times> NoticeState \<Rightarrow> RdmaRxQueuePair \<times> NoticeState" where
  "mark_arrives now ecnbits s =
    (let (q, n) = s; q = count_mark ecnbits q
     in if ecnbits \<noteq> 0 then MaybeSendDcqcnCnp now (q, n) else (q, n))"

section \<open>Runs\<close>

datatype np_event = Data u8 | NoticeTimer

text \<open>The simulator fires the timer when it is due and not later.\<close>
definition np_step :: "int \<times> np_event \<Rightarrow> RdmaRxQueuePair \<times> NoticeState \<Rightarrow> (RdmaRxQueuePair \<times> NoticeState) option" where
  "np_step e s = (case e of
      (now, Data ecnbits) \<Rightarrow> (case QcnTimerEvent (snd s) of
          None \<Rightarrow> Some (mark_arrives now ecnbits s)
        | Some t \<Rightarrow> if now \<le> t then Some (mark_arrives now ecnbits s) else None)
    | (now, NoticeTimer) \<Rightarrow> if QcnTimerEvent (snd s) = Some now then Some (HandleDcqcnCnpTimer now s) else None)"

fun np_run :: "int \<Rightarrow> (int \<times> np_event) list \<Rightarrow> RdmaRxQueuePair \<times> NoticeState \<Rightarrow> (RdmaRxQueuePair \<times> NoticeState) option" where
  "np_run clock [] s = Some s"
| "np_run clock (e # es) s = (if fst e < clock then None else Option.bind (np_step e s) (np_run (fst e) es))"

section \<open>What a receiver reports\<close>

text \<open>The times of the marked packets, and the number of packets, of a run.\<close>
fun mark_times :: "(int \<times> np_event) list \<Rightarrow> int list" where
  "mark_times [] = []"
| "mark_times ((now, Data e) # es) = (if e \<noteq> 0 then now # mark_times es else mark_times es)"
| "mark_times ((now, NoticeTimer) # es) = mark_times es"

fun packets :: "(int \<times> np_event) list \<Rightarrow> nat" where
  "packets [] = 0"
| "packets ((now, Data e) # es) = Suc (packets es)"
| "packets ((now, NoticeTimer) # es) = packets es"

text \<open>The marks counted but not reported yet.\<close>
definition unreported :: "int list \<Rightarrow> RdmaRxQueuePair \<Rightarrow> int list" where
  "unreported ms q = drop (length ms - unat (rx_qfb q)) ms"

definition spaced :: "(int \<times> CnHeader) list \<Rightarrow> bool" where
  "spaced sent = sorted_wrt (\<lambda>a b. fst a + cnp_interval \<le> fst b) sent"

text \<open>The counter of packets since the last notice has 16 bits.  It does not wrap in a run in which no
  packet arrives when it is at its end.\<close>
fun counts_fit :: "(int \<times> np_event) list \<Rightarrow> RdmaRxQueuePair \<times> NoticeState \<Rightarrow> bool" where
  "counts_fit [] s = True"
| "counts_fit (e # es) s = (((\<exists>b. snd e = Data b) \<longrightarrow> rx_total (fst s) \<noteq> 65535) \<and>
     (case np_step e s of None \<Rightarrow> True | Some s \<Rightarrow> counts_fit es s))"

text \<open>Whatever the counters do, at the time clock: the notices are spaced, and the marks and packets
  they report and those still counted add up in 16 bits.\<close>
definition np_base :: "int \<Rightarrow> nat \<Rightarrow> nat \<Rightarrow> RdmaRxQueuePair \<times> NoticeState \<Rightarrow> bool" where
  "np_base clock N M s \<longleftrightarrow> (case s of (q, n) \<Rightarrow>
     (\<Sum>x\<leftarrow>np_sent n. cn_qfb (snd x)) + rx_qfb q = of_nat M \<and>
     (\<Sum>x\<leftarrow>np_sent n. cn_total (snd x)) + rx_total q = of_nat N \<and> spaced (np_sent n) \<and>
     (\<forall>x\<in>set (np_sent n). fst x + cnp_interval \<le> (case QcnTimerEvent n of None \<Rightarrow> clock | Some t \<Rightarrow> t)) \<and>
     (\<forall>t. QcnTimerEvent n = Some t \<longrightarrow> clock \<le> t \<and> t \<le> clock + cnp_interval))"

text \<open>A receiver after N packets with marks at the times ms, whose counters did not wrap.\<close>
definition np_inv :: "nat \<Rightarrow> int list \<Rightarrow> RdmaRxQueuePair \<times> NoticeState \<Rightarrow> bool" where
  "np_inv N ms s \<longleftrightarrow> (case s of (q, n) \<Rightarrow>
     (\<Sum>x\<leftarrow>np_sent n. unat (cn_qfb (snd x))) + unat (rx_qfb q) = length ms \<and>
     (\<Sum>x\<leftarrow>np_sent n. unat (cn_total (snd x))) + unat (rx_total q) = N \<and>
     unat (rx_qfb q) \<le> unat (rx_total q) \<and> (rx_ecnbits q = 0 \<longleftrightarrow> rx_qfb q = 0) \<and>
     (m_qcnPending n \<longleftrightarrow> rx_ecnbits q \<noteq> 0) \<and> (QcnTimerEvent n = None \<longrightarrow> rx_ecnbits q = 0) \<and>
     (\<forall>t. QcnTimerEvent n = Some t \<longrightarrow> (\<forall>a\<in>set (unreported ms q). t \<le> a + cnp_interval)))"

lemma np_start:
  assumes "rx_ecnbits q = 0" "rx_qfb q = 0" "rx_total q = 0"
  shows "np_base clock 0 0 (q, NoticeState_ctor)" "np_inv 0 [] (q, NoticeState_ctor)"
  using assms by (simp_all add: np_base_def np_inv_def NoticeState_ctor_def spaced_def)

lemma np_later: "np_base clock N M s \<Longrightarrow> clock \<le> now \<Longrightarrow> (\<And>t. QcnTimerEvent (snd s) = Some t \<Longrightarrow> now \<le> t) \<Longrightarrow> np_base now N M s"
  by (cases s) (fastforce simp: np_base_def split: option.splits)

lemma or_zero: "(x OR y = 0) = (x = 0 \<and> (y :: 'a::len word) = 0)"
  by (auto simp: bit_eq_iff bit_or_iff)

lemma small_suc: "unat (w :: u16) < 65535 \<Longrightarrow> unat (w + 1) = Suc (unat w)"
  by (simp add: unat_add_lt)

lemma below_end: "(w :: u16) \<noteq> 65535 \<Longrightarrow> unat w < 65535"
  using unat_lt_2p[of w] by (simp add: word_unat_eq_iff)

lemma base_packet:
  assumes "np_base now N M (q, n)"
  shows "np_base now (Suc N) (M + of_bool (e \<noteq> 0)) (mark_arrives now e (q, n))"
  using assms
  by (auto simp: mark_arrives_def count_mark_def MaybeSendDcqcnCnp_def SendDcqcnCnp_def np_base_def Let_def
      spaced_def sorted_wrt_append cnp_interval_def add.assoc[symmetric] split: option.splits)

lemma base_timer:
  assumes "np_base now N M (q, n)" "QcnTimerEvent n = Some now"
  shows "np_base now N M (HandleDcqcnCnpTimer now (q, n))"
  using assms
  by (auto simp: HandleDcqcnCnpTimer_def SendDcqcnCnp_def np_base_def Let_def spaced_def sorted_wrt_append
      cnp_interval_def split: option.splits)

lemma unmarked_ok:
  assumes "np_inv N ms (q, n)" "rx_total q \<noteq> 65535"
  shows "np_inv (Suc N) ms (mark_arrives now 0 (q, n))"
  using assms small_suc[OF below_end[OF assms(2)]]
  by (auto simp: mark_arrives_def count_mark_def np_inv_def unreported_def)

lemma marked_ok:
  assumes i: "np_inv N ms (q, n)" and N: "rx_total q \<noteq> 65535" and e: "e \<noteq> 0"
    and b: "\<And>t. QcnTimerEvent n = Some t \<Longrightarrow> t \<le> now + cnp_interval"
  shows "np_inv (Suc N) (ms @ [now]) (mark_arrives now e (q, n))"
proof -
  have le: "unat (rx_total q) < 65535" "unat (rx_qfb q) < 65535" "unat (rx_qfb q) \<le> length ms"
    using i below_end[OF N] by (auto simp: np_inv_def)
  note s = small_suc[OF le(1)] small_suc[OF le(2)]
  show ?thesis
  proof (cases "QcnTimerEvent n")
    case None
    then have "rx_ecnbits q = 0" "rx_qfb q = 0" using i by (auto simp: np_inv_def)
    moreover have "rx_total q + 1 \<noteq> 0" using s(1) by (metis nat.distinct(1) unat_0)
    ultimately show ?thesis using i None s e
      by (auto simp: mark_arrives_def count_mark_def MaybeSendDcqcnCnp_def SendDcqcnCnp_def np_inv_def Let_def
          unreported_def cnp_interval_def)
  next
    case (Some t)
    have "rx_qfb q + 1 \<noteq> 0" using s(2) by (metis nat.distinct(1) unat_0)
    moreover have "unreported (ms @ [now]) (q\<lparr>rx_qfb := rx_qfb q + 1\<rparr>) = unreported ms q @ [now]"
      using le(3) s(2) by (simp add: unreported_def)
    ultimately show ?thesis using i Some s e b
      by (auto simp: mark_arrives_def count_mark_def MaybeSendDcqcnCnp_def np_inv_def Let_def or_zero unreported_def)
  qed
qed

lemma timer_ok:
  assumes i: "np_inv N ms (q, n)" and t: "QcnTimerEvent n = Some now"
  shows "np_inv N ms (HandleDcqcnCnpTimer now (q, n))"
proof (cases "rx_ecnbits q = 0")
  case True
  then show ?thesis using i t by (auto simp: HandleDcqcnCnpTimer_def np_inv_def Let_def unreported_def)
next
  case False
  have "rx_total q \<noteq> 0" using i False by (auto simp: np_inv_def unat_eq_0)
  then show ?thesis using i t False
    by (auto simp: HandleDcqcnCnpTimer_def SendDcqcnCnp_def np_inv_def Let_def unreported_def cnp_interval_def)
qed

lemma np_run_inv:
  "np_base clock N (length ms) s \<Longrightarrow> np_run clock es s = Some s' \<Longrightarrow>
   (\<exists>clock'. np_base clock' (N + packets es) (length ms + length (mark_times es)) s') \<and>
   (np_inv N ms s \<longrightarrow> counts_fit es s \<longrightarrow> np_inv (N + packets es) (ms @ mark_times es) s')"
proof (induction es arbitrary: clock N ms s)
  case (Cons e es)
  obtain now ev where e: "e = (now, ev)" by (cases e)
  obtain q n where s: "s = (q, n)" by (cases s)
  obtain s1 where s1: "clock \<le> now" "np_step (now, ev) (q, n) = Some s1" "np_run now es s1 = Some s'"
    using Cons.prems(2) by (auto simp: e s bind_eq_Some_conv split: if_splits)
  have due: "now \<le> t" if "QcnTimerEvent n = Some t" for t
    using s1(2) that by (auto simp: np_step_def split: np_event.splits if_splits)
  have b: "np_base now N (length ms) (q, n)" using np_later[OF Cons.prems(1) s1(1)] due by (simp add: s)
  have end_le: "t \<le> now + cnp_interval" if "QcnTimerEvent n = Some t" for t using b that by (simp add: np_base_def)
  have step: "np_base now (N + packets [e]) (length (ms @ mark_times [e])) s1 \<and>
    (np_inv N ms s \<longrightarrow> counts_fit (e # es) s \<longrightarrow> np_inv (N + packets [e]) (ms @ mark_times [e]) s1)"
  proof (cases ev)
    case (Data m)
    then have "s1 = mark_arrives now m (q, n)" using s1(2) by (auto simp: np_step_def split: option.splits if_splits)
    then show ?thesis
      using Data e base_packet[OF b, of m] unmarked_ok[of N ms q n] marked_ok[of N ms q n, OF _ _ _ end_le, of m] by (auto simp: s)
  next
    case NoticeTimer
    then have "QcnTimerEvent n = Some now" "s1 = HandleDcqcnCnpTimer now (q, n)"
      using s1(2) by (auto simp: np_step_def split: if_splits)
    then show ?thesis using NoticeTimer e base_timer[OF b] timer_ok[of N ms q n] by (simp add: s)
  qed
  have fit: "counts_fit es s1" if "counts_fit (e # es) s" using that s1(2) by (simp add: e s)
  have split: "packets (e # es) = packets [e] + packets es" "mark_times (e # es) = mark_times [e] @ mark_times es"
    by (cases ev; simp add: e)+
  from Cons.IH[OF conjunct1[OF step] s1(3)] conjunct2[OF step] fit show ?case
    by (auto simp: split add.assoc simp del: counts_fit.simps packets.simps mark_times.simps)
qed auto

text \<open>C25: congestion notices are paced and lose no mark.  Over any arrivals two notices are at
  least 50 microseconds apart, and the marks and the packets that notices report plus those
  still counted are those that arrived, up to the 16 bits of the counters.  In a run in which the
  counter of packets since the last notice does not wrap (no packet arrives when it is 65535)
  the sums are exact, and as long as a mark is not reported the timer that will report it is
  pending and fires at most 50 microseconds after the mark arrived.\<close>
theorem notices_paced_and_complete:
  assumes "np_run clock es (q0, NoticeState_ctor) = Some (q, n)"
    "rx_ecnbits q0 = 0" "rx_qfb q0 = 0" "rx_total q0 = 0"
  shows "sorted_wrt (\<lambda>a b. fst a + 50000 \<le> fst b) (np_sent n) \<and>
    (\<Sum>x\<leftarrow>np_sent n. cn_qfb (snd x)) + rx_qfb q = of_nat (length (mark_times es)) \<and>
    (\<Sum>x\<leftarrow>np_sent n. cn_total (snd x)) + rx_total q = of_nat (packets es) \<and>
    (counts_fit es (q0, NoticeState_ctor) \<longrightarrow>
      (\<Sum>x\<leftarrow>np_sent n. unat (cn_qfb (snd x))) + unat (rx_qfb q) = length (mark_times es) \<and>
      (\<Sum>x\<leftarrow>np_sent n. unat (cn_total (snd x))) + unat (rx_total q) = packets es \<and>
      (rx_qfb q \<noteq> 0 \<longrightarrow> m_qcnPending n \<and> (\<exists>t. QcnTimerEvent n = Some t \<and> (\<forall>a\<in>set (unreported (mark_times es) q). t \<le> a + 50000))))"
proof -
  note start = np_start[OF assms(2-4)]
  obtain c1 where 1: "np_base c1 (packets es) (length (mark_times es)) (q, n)"
    using np_run_inv[of clock 0 "[]"] start(1) assms(1) by fastforce
  have 2: "np_inv (packets es) (mark_times es) (q, n)" if "counts_fit es (q0, NoticeState_ctor)"
    using np_run_inv[of clock 0 "[]"] start that assms(1) by fastforce
  show ?thesis using 1 2 by (auto simp: np_base_def np_inv_def spaced_def cnp_interval_def)
qed

text \<open>Marks at 0 and 20 microseconds: one notice at once, the next when the timer fires.\<close>
theorem notices_paced_and_complete_witness:
  "\<exists>q n. np_run 0 [(0, Data 3), (20000, Data 3), (30000, Data 0), (50000, NoticeTimer)] (RdmaRxQueuePair_ctor, NoticeState_ctor) = Some (q, n) \<and>
    map (\<lambda>x. (fst x, cn_qfb (snd x), cn_total (snd x))) (np_sent n) = [(0, 1, 1), (50000, 1, 2)] \<and>
    (\<Sum>x\<leftarrow>np_sent n. unat (cn_qfb (snd x))) + unat (rx_qfb q) = 2"
proof -
  let ?es = "[(0, Data 3), (20000, Data 3), (30000, Data 0), (50000, NoticeTimer)]"
  let ?r = "np_run 0 ?es (RdmaRxQueuePair_ctor, NoticeState_ctor)"
  have "map_option (\<lambda>(q, n). map (\<lambda>x. (fst x, cn_qfb (snd x), cn_total (snd x))) (np_sent n)) ?r = Some [(0, 1, 1), (50000, 1, 2)]"
    by code_simp
  then obtain q n where r: "?r = Some (q, n)" "map (\<lambda>x. (fst x, cn_qfb (snd x), cn_total (snd x))) (np_sent n) = [(0, 1, 1), (50000, 1, 2)]"
    by auto
  have "counts_fit ?es (RdmaRxQueuePair_ctor, NoticeState_ctor)" by code_simp
  then show ?thesis using notices_paced_and_complete[OF r(1)] r by (simp add: RdmaRxQueuePair_ctor_def)
qed

end
