(* ===== verification/Dcqcn.thy ===== *)
theory Dcqcn
  imports RdmaState
begin

text \<open>
  DCQCN, the rate control of the hosts without credit: the reaction point of a sender and the
  notification point of a receiver in \<^verbatim>\<open>point-to-point/model/rdma-hw.cc\<close>, over the
  rates of \<^verbatim>\<open>network/utils/data-rate.cc\<close>.  A pending simulator event is the time
  at which it fires, in nanoseconds.  The rate stays between the minimum and the line rate and
  the gain between 0 and 1; without notices the rate climbs back to the line rate; a receiver
  reports every mark it counts, at most one notice per interval.
\<close>

section \<open>Rates\<close>

text \<open>A DataRate is a number of bits per second; scaled by a double it is truncated.\<close>
definition rate_mul :: "u64 \<Rightarrow> double \<Rightarrow> u64" where
  "rate_mul d c = word_of_dbl (fmul (dbl_of_word d) c)"

definition rate_div :: "u64 \<Rightarrow> double \<Rightarrow> u64" where
  "rate_div d c = word_of_dbl (fdiv (dbl_of_word d) c)"

text \<open>The attributes of the host that the rate controls read.  MicroSeconds takes an integer.\<close>
record CcConfig =
  m_minRate :: u64
  m_g :: double
  m_rateOnFirstCNP :: double
  m_EcnClampTgtRate :: bool
  m_rpgTimeReset :: double
  m_rpgByteReset :: u64
  m_rateDecreaseInterval :: double
  m_rpgThreshold :: u32
  m_alpha_resume_interval :: double
  m_rai :: u64
  m_rhai :: u64

definition MicroSeconds :: "double \<Rightarrow> int" where
  "MicroSeconds x = 1000 * uint (word_of_dbl x :: u64)"

section \<open>The reaction point\<close>

text \<open>The fields mlx of a queue pair, and its rate.\<close>
record Mlx =
  m_rate :: u64
  m_targetRate :: u64
  m_alpha :: double
  m_alpha_cnp_arrived :: bool
  m_first_cnp :: bool
  m_decrease_cnp_arrived :: bool
  m_rpTimeStage :: u32
  m_rpByteStage :: u32
  m_rpByteCounterBytes :: u64
  m_rpByteResetBytes :: u64
  m_eventUpdateAlpha :: "int option"
  m_eventDecreaseRate :: "int option"
  m_rpTimer :: "int option"

text \<open>As the constructor and AddQueuePair leave them on an interface of rate dev.\<close>
definition mlx_start :: "CcConfig \<Rightarrow> u64 \<Rightarrow> Mlx" where
  "mlx_start c dev = \<lparr>m_rate = dev, m_targetRate = dev, m_alpha = 1, m_alpha_cnp_arrived = False, m_first_cnp = True,
     m_decrease_cnp_arrived = False, m_rpTimeStage = 0, m_rpByteStage = 0, m_rpByteCounterBytes = 0,
     m_rpByteResetBytes = m_rpgByteReset c, m_eventUpdateAlpha = None, m_eventDecreaseRate = None, m_rpTimer = None\<rparr>"

definition ScheduleUpdateAlphaMlx :: "CcConfig \<Rightarrow> int \<Rightarrow> Mlx \<Rightarrow> Mlx" where
  "ScheduleUpdateAlphaMlx c now q = q\<lparr>m_eventUpdateAlpha := Some (now + MicroSeconds (m_alpha_resume_interval c))\<rparr>"

definition ScheduleDecreaseRateMlx :: "CcConfig \<Rightarrow> int \<Rightarrow> u32 \<Rightarrow> Mlx \<Rightarrow> Mlx" where
  "ScheduleDecreaseRateMlx c now delta q =
    q\<lparr>m_eventDecreaseRate := Some (now + (MicroSeconds (m_rateDecreaseInterval c) + uint delta))\<rparr>"

definition UpdateAlphaMlx :: "CcConfig \<Rightarrow> int \<Rightarrow> Mlx \<Rightarrow> Mlx" where
  "UpdateAlphaMlx c now q =
    (let q = (if m_alpha_cnp_arrived q
              then q\<lparr>m_alpha := fadd (fmul (fsub 1 (m_g c)) (m_alpha q)) (m_g c)\<rparr>
              else q\<lparr>m_alpha := fmul (fsub 1 (m_g c)) (m_alpha q)\<rparr>);
         q = q\<lparr>m_alpha_cnp_arrived := False\<rparr>
     in ScheduleUpdateAlphaMlx c now q)"

definition cnp_received_mlx :: "CcConfig \<Rightarrow> int \<Rightarrow> Mlx \<Rightarrow> Mlx" where
  "cnp_received_mlx c now q =
    (let q = q\<lparr>m_alpha_cnp_arrived := True, m_decrease_cnp_arrived := True\<rparr> in
     if m_first_cnp q
     then let q = q\<lparr>m_alpha := 1, m_alpha_cnp_arrived := False\<rparr>;
              q = ScheduleUpdateAlphaMlx c now q;
              q = ScheduleDecreaseRateMlx c now 1 q;
              r = rate_mul (m_rate q) (m_rateOnFirstCNP c)
          in q\<lparr>m_rate := r, m_targetRate := r, m_first_cnp := False\<rparr>
     else q)"

definition CheckRateDecreaseMlx :: "CcConfig \<Rightarrow> int \<Rightarrow> Mlx \<Rightarrow> Mlx" where
  "CheckRateDecreaseMlx c now q =
    (let q = ScheduleDecreaseRateMlx c now 0 q in
     if m_decrease_cnp_arrived q
     then let clamp = m_EcnClampTgtRate c \<or> max (m_rpTimeStage q) (m_rpByteStage q) \<noteq> 0;
              q = (if clamp then q\<lparr>m_targetRate := m_rate q\<rparr> else q)
          in q\<lparr>m_rate := max (m_minRate c) (rate_mul (m_rate q) (fsub 1 (fdiv (m_alpha q) 2))),
               m_rpTimeStage := 0, m_rpByteStage := 0, m_rpByteCounterBytes := 0, m_decrease_cnp_arrived := False,
               m_rpTimer := Some (now + MicroSeconds (m_rpgTimeReset c))\<rparr>
     else q)"

definition FastRecoveryMlx :: "Mlx \<Rightarrow> Mlx" where
  "FastRecoveryMlx q = q\<lparr>m_rate := rate_div (m_rate q) 2 + rate_div (m_targetRate q) 2\<rparr>"

definition ActiveIncreaseMlx :: "CcConfig \<Rightarrow> u64 \<Rightarrow> Mlx \<Rightarrow> Mlx" where
  "ActiveIncreaseMlx c dev q =
    (let q = q\<lparr>m_targetRate := m_targetRate q + m_rai c\<rparr>;
         q = (if m_targetRate q > dev then q\<lparr>m_targetRate := dev\<rparr> else q)
     in q\<lparr>m_rate := rate_div (m_rate q) 2 + rate_div (m_targetRate q) 2\<rparr>)"

definition HyperIncreaseMlx :: "CcConfig \<Rightarrow> u64 \<Rightarrow> Mlx \<Rightarrow> Mlx" where
  "HyperIncreaseMlx c dev q =
    (let q = q\<lparr>m_targetRate := m_targetRate q + m_rhai c\<rparr>;
         q = (if m_targetRate q > dev then q\<lparr>m_targetRate := dev\<rparr> else q)
     in q\<lparr>m_rate := rate_div (m_rate q) 2 + rate_div (m_targetRate q) 2\<rparr>)"

definition RateIncEventMlx :: "CcConfig \<Rightarrow> u64 \<Rightarrow> bool \<Rightarrow> Mlx \<Rightarrow> Mlx" where
  "RateIncEventMlx c dev byTimer q =
    (let maxStage = max (m_rpTimeStage q) (m_rpByteStage q);
         minStage = min (m_rpTimeStage q) (m_rpByteStage q);
         q = (if maxStage < m_rpgThreshold c then FastRecoveryMlx q
              else if maxStage > m_rpgThreshold c \<and> minStage < m_rpgThreshold c then ActiveIncreaseMlx c dev q
              else if minStage > m_rpgThreshold c then HyperIncreaseMlx c dev q
              else ActiveIncreaseMlx c dev q)
     in if byTimer then q\<lparr>m_rpTimeStage := m_rpTimeStage q + 1\<rparr> else q\<lparr>m_rpByteStage := m_rpByteStage q + 1\<rparr>)"

definition RateIncEventTimerMlx :: "CcConfig \<Rightarrow> u64 \<Rightarrow> int \<Rightarrow> Mlx \<Rightarrow> Mlx" where
  "RateIncEventTimerMlx c dev now q =
    RateIncEventMlx c dev True (q\<lparr>m_rpTimer := Some (now + MicroSeconds (m_rpgTimeReset c))\<rparr>)"

text \<open>The loop of PktSent over the byte counter; its guard excludes a reset of 0.\<close>
lemma RateInc_counter [simp]:
  "m_rpByteCounterBytes (RateIncEventMlx c dev b q) = m_rpByteCounterBytes q"
  "m_rpByteResetBytes (RateIncEventMlx c dev b q) = m_rpByteResetBytes q"
  by (simp_all add: RateIncEventMlx_def FastRecoveryMlx_def ActiveIncreaseMlx_def HyperIncreaseMlx_def Let_def)

function count_bytes :: "CcConfig \<Rightarrow> u64 \<Rightarrow> Mlx \<Rightarrow> Mlx" where
  "count_bytes c dev q =
    (if m_rpByteResetBytes q > 0 \<and> m_rpByteCounterBytes q \<ge> m_rpByteResetBytes q
     then count_bytes c dev (RateIncEventMlx c dev False
            (q\<lparr>m_rpByteCounterBytes := m_rpByteCounterBytes q - m_rpByteResetBytes q\<rparr>))
     else q)"
  by pat_completeness auto
termination
proof (relation "measure (\<lambda>(c, dev, q). unat (m_rpByteCounterBytes q))")
  fix c dev q assume "m_rpByteResetBytes q > 0 \<and> m_rpByteCounterBytes q \<ge> m_rpByteResetBytes (q :: Mlx)"
  then have "m_rpByteCounterBytes q - m_rpByteResetBytes q < m_rpByteCounterBytes q"
    by (auto simp: word_less_nat_alt unat_sub_le word_le_nat_alt)
  then show "((c, dev, RateIncEventMlx c dev False (q\<lparr>m_rpByteCounterBytes := m_rpByteCounterBytes q - m_rpByteResetBytes q\<rparr>)), c, dev, q)
      \<in> measure (\<lambda>(c, dev, q). unat (m_rpByteCounterBytes q))" by (simp add: word_less_nat_alt)
qed simp

declare count_bytes.simps [simp del]

definition sent_bytes :: "CcConfig \<Rightarrow> u64 \<Rightarrow> u32 \<Rightarrow> Mlx \<Rightarrow> Mlx" where
  "sent_bytes c dev psize q =
    (if \<not> m_first_cnp q \<and> m_rpByteResetBytes q > 0
     then count_bytes c dev (q\<lparr>m_rpByteCounterBytes := m_rpByteCounterBytes q + ucast psize\<rparr>) else q)"

text \<open>The part of ReceiveCnp that follows the lookup: a rate that was never set is set to the
  line rate.\<close>
definition cnp_arrives :: "CcConfig \<Rightarrow> u64 \<Rightarrow> int \<Rightarrow> Mlx \<Rightarrow> Mlx" where
  "cnp_arrives c dev now q =
    cnp_received_mlx c now (if m_rate q = 0 then q\<lparr>m_rate := dev, m_targetRate := dev\<rparr> else q)"

text \<open>QpComplete cancels the three events.\<close>
definition cancel_mlx :: "Mlx \<Rightarrow> Mlx" where
  "cancel_mlx q = q\<lparr>m_eventUpdateAlpha := None, m_eventDecreaseRate := None, m_rpTimer := None\<rparr>"

section \<open>Runs of a sender\<close>

datatype cc_event = Notice | Sent u32 | AlphaTimer | DecreaseTimer | RpTimer

text \<open>An event at a time; a timer fires when it is due.\<close>
definition cc_step :: "CcConfig \<Rightarrow> u64 \<Rightarrow> int \<times> cc_event \<Rightarrow> Mlx \<Rightarrow> Mlx option" where
  "cc_step c dev e q = (case e of
      (now, Notice) \<Rightarrow> Some (cnp_arrives c dev now q)
    | (now, Sent psize) \<Rightarrow> Some (sent_bytes c dev psize q)
    | (now, AlphaTimer) \<Rightarrow> if m_eventUpdateAlpha q = Some now then Some (UpdateAlphaMlx c now q) else None
    | (now, DecreaseTimer) \<Rightarrow> if m_eventDecreaseRate q = Some now then Some (CheckRateDecreaseMlx c now q) else None
    | (now, RpTimer) \<Rightarrow> if m_rpTimer q = Some now then Some (RateIncEventTimerMlx c dev now q) else None)"

fun cc_run :: "CcConfig \<Rightarrow> u64 \<Rightarrow> (int \<times> cc_event) list \<Rightarrow> Mlx \<Rightarrow> Mlx option" where
  "cc_run c dev [] q = Some q"
| "cc_run c dev (e # es) q = Option.bind (cc_step c dev e q) (cc_run c dev es)"

section \<open>Halving and scaling\<close>

lemma ilog2_half:
  assumes "0 < x"
  shows "ilog2 (x / 2) = ilog2 x - 1"
proof (rule ilog2_unique)
  have "pow2 (k - 1) = pow2 k / 2" for k using pow2_add[of "k - 1" 1] by (simp add: pow2_def)
  from this[of "ilog2 x"] this[of "ilog2 x + 1"] ilog2_bounds[OF assms]
  show "pow2 (ilog2 x - 1) \<le> x / 2" "x / 2 < pow2 (ilog2 x - 1 + 1)" by simp_all
qed

lemma rnd_half:
  assumes "0 \<le> x"
  shows "rnd p (x / 2) = rnd p x / 2"
proof (cases "x = 0")
  case False
  then have x: "0 < x" using assms by simp
  have "pow2 (k - 1) = pow2 k / 2" for k using pow2_add[of "k - 1" 1] by (simp add: pow2_def)
  then have e: "pow2 (ilog2 x - 1 - int p + 1) = pow2 (ilog2 x - int p + 1) / 2"
    by (metis add_diff_cancel_right' diff_add_eq diff_diff_add)
  show ?thesis using x unfolding rnd_def rnd_pos_def Let_def ilog2_half[OF x] e by simp
qed simp

lemma trunc_half: "trunc (of_nat n / 2) = int (n div 2)"
  by (simp add: trunc_def floor_divide_of_nat_eq[of n 2, simplified])

text \<open>Rates up to 2^53 bits per second are doubles.\<close>
lemma dbl_half: "n \<le> 9007199254740992 \<Longrightarrow> dbl (of_nat n / 2) = of_nat n / 2"
  using dbl_of_nat[of n] rnd_half[of "of_nat n" 53] by (simp add: dbl_def)

lemma word_of_dbl_below:
  assumes "0 \<le> x" "x \<le> of_nat n" "n \<le> 9007199254740992"
  shows "unat (word_of_dbl x :: u64) = nat (trunc x)"
proof -
  have "(of_nat n :: rat) \<le> of_nat 9007199254740992" using assms(3) by (simp only: of_nat_le_iff)
  then have "x < 2 ^ LENGTH(64)" using assms(2) by simp
  then show ?thesis by (rule unat_word_of_dbl[OF assms(1)])
qed

lemma rate_div_2:
  assumes "unat d \<le> 9007199254740992"
  shows "unat (rate_div d 2) = unat d div 2"
proof -
  define n where "n = unat d"
  have n: "n \<le> 9007199254740992" using assms by (simp add: n_def)
  have a: "fdiv (dbl_of_word d) 2 = of_nat n / 2"
    unfolding fdiv_def dbl_of_word_exact[OF assms] n_def[symmetric] by (rule dbl_half[OF n])
  have "unat (word_of_dbl (of_nat n / 2) :: u64) = nat (trunc (of_nat n / 2))"
    by (rule word_of_dbl_below[OF _ _ n]) simp_all
  then show ?thesis unfolding rate_div_def a n_def[symmetric] trunc_half by simp
qed

lemma rate_mul_le:
  assumes "unat d \<le> 9007199254740992" "0 \<le> x" "x \<le> 1"
  shows "rate_mul d x \<le> d"
proof -
  define n where "n = unat d"
  have n: "n \<le> 9007199254740992" using assms(1) by (simp add: n_def)
  have "of_nat n * x \<le> of_nat n" using assms(2,3) mult_left_le[of x "of_nat n"] by simp
  then have le: "dbl (of_nat n * x) \<le> of_nat n" using dbl_mono dbl_of_nat[OF n] by metis
  have "0 \<le> dbl (of_nat n * x)" using assms(2) by (simp add: dbl_nonneg)
  then have "unat (rate_mul d x) = nat (trunc (dbl (of_nat n * x)))"
    unfolding rate_mul_def fmul_def dbl_of_word_exact[OF assms(1)] n_def[symmetric]
    using le n by (rule word_of_dbl_below)
  also have "\<dots> \<le> n" using trunc_mono[OF le] by simp
  finally show ?thesis by (simp add: word_le_nat_alt n_def)
qed

text \<open>The mean of two rates.\<close>
lemma mean_rate:
  assumes "unat r \<le> 9007199254740992" "unat t \<le> 9007199254740992"
  shows "unat (rate_div r 2 + rate_div t 2) = unat r div 2 + unat t div 2"
  using assms by (simp add: unat_add_lt rate_div_2)

section \<open>The rate stays in its range\<close>

text \<open>Sane attributes on an interface of rate dev: rates are exact doubles, the gain and its
  complement are exact, and the first cut does not go below the minimum.\<close>
definition cc_sane :: "CcConfig \<Rightarrow> u64 \<Rightarrow> bool" where
  "cc_sane c dev \<longleftrightarrow> unat dev \<le> 9007199254740992 \<and> m_minRate c \<le> dev \<and>
     unat (m_rai c) \<le> 9007199254740992 \<and> unat (m_rhai c) \<le> 9007199254740992 \<and>
     0 \<le> m_g c \<and> m_g c \<le> 1 \<and> fsub 1 (m_g c) = 1 - m_g c \<and>
     0 \<le> m_rateOnFirstCNP c \<and> m_rateOnFirstCNP c \<le> 1 \<and> m_minRate c \<le> rate_mul dev (m_rateOnFirstCNP c)"

definition in_range :: "CcConfig \<Rightarrow> u64 \<Rightarrow> u64 \<Rightarrow> bool" where
  "in_range c dev r \<longleftrightarrow> unat (m_minRate c) div 2 + unat (m_minRate c) div 2 \<le> unat r \<and> r \<le> dev"

definition cc_ok :: "CcConfig \<Rightarrow> u64 \<Rightarrow> Mlx \<Rightarrow> bool" where
  "cc_ok c dev q \<longleftrightarrow> in_range c dev (m_rate q) \<and> in_range c dev (m_targetRate q) \<and> 0 \<le> m_alpha q \<and> m_alpha q \<le> 1 \<and>
     (m_first_cnp q \<longrightarrow> m_rate q = dev \<and> m_targetRate q = dev \<and> m_eventUpdateAlpha q = None \<and>
        m_eventDecreaseRate q = None \<and> m_rpTimer q = None)"

lemma cc_saneD:
  assumes "cc_sane c dev"
  shows "unat dev \<le> 9007199254740992" "m_minRate c \<le> dev" "unat (m_rai c) \<le> 9007199254740992"
    "unat (m_rhai c) \<le> 9007199254740992" "0 \<le> m_g c" "m_g c \<le> 1" "fsub 1 (m_g c) = 1 - m_g c"
    "0 \<le> m_rateOnFirstCNP c" "m_rateOnFirstCNP c \<le> 1" "m_minRate c \<le> rate_mul dev (m_rateOnFirstCNP c)"
  using assms by (simp_all add: cc_sane_def)

lemma in_rangeD: "in_range c dev r \<Longrightarrow> cc_sane c dev \<Longrightarrow> unat r \<le> 9007199254740992"
  by (simp add: in_range_def cc_sane_def word_le_nat_alt)

lemma in_range_min: "m_minRate c \<le> r \<Longrightarrow> r \<le> dev \<Longrightarrow> in_range c dev r"
  by (simp add: in_range_def word_le_nat_alt)

lemma in_range_mean:
  assumes "cc_sane c dev" "in_range c dev r" "in_range c dev t"
  shows "in_range c dev (rate_div r 2 + rate_div t 2)"
proof -
  have m: "unat (rate_div r 2 + rate_div t 2) = unat r div 2 + unat t div 2"
    using assms by (intro mean_rate in_rangeD)
  have "unat (m_minRate c) div 2 \<le> unat r div 2" "unat (m_minRate c) div 2 \<le> unat t div 2"
    "unat r \<le> unat dev" "unat t \<le> unat dev"
    using assms(2,3) by (auto simp: in_range_def word_le_nat_alt)
  then show ?thesis unfolding in_range_def word_le_nat_alt m by linarith
qed

text \<open>The target after an increase, capped at the line rate.\<close>
lemma in_range_raise:
  assumes "cc_sane c dev" "in_range c dev t" "unat a \<le> 9007199254740992"
  shows "in_range c dev (if t + a > dev then dev else t + a)"
    "unat (if t + a > dev then dev else t + a) = min (unat dev) (unat t + unat a)"
proof -
  have s: "unat (t + a) = unat t + unat a" using in_rangeD[OF assms(2,1)] assms(3) by (simp add: unat_add_lt)
  show "in_range c dev (if t + a > dev then dev else t + a)"
    "unat (if t + a > dev then dev else t + a) = min (unat dev) (unat t + unat a)"
    using assms(2) cc_saneD(2)[OF assms(1)] by (auto simp: in_range_def unat_order s)
qed

lemma gain_up: "cc_sane c dev \<Longrightarrow> 0 \<le> a \<Longrightarrow> a \<le> 1 \<Longrightarrow> 0 \<le> fmul (fsub 1 (m_g c)) a \<and> fmul (fsub 1 (m_g c)) a \<le> 1 - m_g c"
proof -
  assume s: "cc_sane c dev" and a: "0 \<le> a" "a \<le> 1"
  have g: "0 \<le> 1 - m_g c" "dbl (1 - m_g c) = 1 - m_g c" using cc_saneD(6,7)[OF s] by (simp_all add: fsub_def)
  have "(1 - m_g c) * a \<le> 1 - m_g c" using g(1) a mult_left_le[of a "1 - m_g c"] by simp
  then have "dbl ((1 - m_g c) * a) \<le> 1 - m_g c" using dbl_mono g(2) by metis
  moreover have "0 \<le> dbl ((1 - m_g c) * a)" using g(1) a by (simp add: dbl_nonneg)
  ultimately show ?thesis using cc_saneD(7)[OF s] by (simp add: fmul_def)
qed

lemma gain_one: "cc_sane c dev \<Longrightarrow> 0 \<le> x \<Longrightarrow> x \<le> 1 - m_g c \<Longrightarrow> 0 \<le> fadd x (m_g c) \<and> fadd x (m_g c) \<le> 1"
proof -
  assume s: "cc_sane c dev" and x: "0 \<le> x" "x \<le> 1 - m_g c"
  have "dbl (x + m_g c) \<le> dbl 1" using x by (intro dbl_mono) simp
  then show ?thesis using x cc_saneD(5)[OF s] dbl_of_nat[of 1] by (simp add: fadd_def dbl_nonneg)
qed

lemma cut_factor:
  assumes "0 \<le> a" "a \<le> 1"
  shows "0 \<le> fsub 1 (fdiv a 2)" "fsub 1 (fdiv a 2) \<le> 1"
proof -
  have d: "0 \<le> fdiv a 2" "fdiv a 2 \<le> 1"
    using assms dbl_mono[of "a / 2" 1] dbl_of_nat[of 1] by (simp_all add: fdiv_def dbl_nonneg)
  then show "0 \<le> fsub 1 (fdiv a 2)" "fsub 1 (fdiv a 2) \<le> 1"
    using dbl_mono[of "1 - fdiv a 2" 1] dbl_of_nat[of 1] by (simp_all add: fsub_def dbl_nonneg)
qed

lemma cut_in_range:
  assumes "cc_sane c dev" "in_range c dev r" "0 \<le> a" "a \<le> 1"
  shows "in_range c dev (max (m_minRate c) (rate_mul r (fsub 1 (fdiv a 2))))"
proof -
  have "rate_mul r (fsub 1 (fdiv a 2)) \<le> r"
    by (rule rate_mul_le[OF in_rangeD[OF assms(2,1)] cut_factor[OF assms(3,4)]])
  moreover have "r \<le> dev" using assms(2) by (simp add: in_range_def)
  ultimately show ?thesis using cc_saneD(2)[OF assms(1)] by (intro in_range_min) (auto simp: max_def)
qed

text \<open>An increase is a mean with the target, which was raised first or not.\<close>
lemma increase_cases:
  "\<exists>t. RateIncEventMlx c dev byTimer q =
      (let q = q\<lparr>m_targetRate := t, m_rate := rate_div (m_rate q) 2 + rate_div t 2\<rparr>
       in if byTimer then q\<lparr>m_rpTimeStage := m_rpTimeStage q + 1\<rparr> else q\<lparr>m_rpByteStage := m_rpByteStage q + 1\<rparr>) \<and>
     (t = m_targetRate q \<or> (\<exists>a\<in>{m_rai c, m_rhai c}.
        t = (if m_targetRate q + a > dev then dev else m_targetRate q + a)))"
  by (cases q) (auto simp: RateIncEventMlx_def FastRecoveryMlx_def ActiveIncreaseMlx_def HyperIncreaseMlx_def Let_def)

lemma increase_ok:
  assumes "cc_sane c dev" "cc_ok c dev q" "\<not> m_first_cnp q"
  shows "cc_ok c dev (RateIncEventMlx c dev byTimer q)" "\<not> m_first_cnp (RateIncEventMlx c dev byTimer q)"
proof -
  obtain t where t: "RateIncEventMlx c dev byTimer q =
      (let q = q\<lparr>m_targetRate := t, m_rate := rate_div (m_rate q) 2 + rate_div t 2\<rparr>
       in if byTimer then q\<lparr>m_rpTimeStage := m_rpTimeStage q + 1\<rparr> else q\<lparr>m_rpByteStage := m_rpByteStage q + 1\<rparr>)"
    "t = m_targetRate q \<or> (\<exists>a\<in>{m_rai c, m_rhai c}. t = (if m_targetRate q + a > dev then dev else m_targetRate q + a))"
    using increase_cases by blast
  have r: "in_range c dev (m_rate q)" "in_range c dev (m_targetRate q)" using assms(2) by (simp_all add: cc_ok_def)
  have "in_range c dev t" using t(2) r(2) in_range_raise(1)[OF assms(1) r(2)] cc_saneD(3,4)[OF assms(1)] by blast
  moreover from this have "in_range c dev (rate_div (m_rate q) 2 + rate_div t 2)" by (rule in_range_mean[OF assms(1) r(1)])
  ultimately show "cc_ok c dev (RateIncEventMlx c dev byTimer q)" "\<not> m_first_cnp (RateIncEventMlx c dev byTimer q)"
    using assms(2,3) by (simp_all add: t(1) cc_ok_def Let_def)
qed

lemma count_bytes_ok:
  "cc_sane c dev \<Longrightarrow> cc_ok c dev q \<Longrightarrow> \<not> m_first_cnp q \<Longrightarrow> cc_ok c dev (count_bytes c dev q)"
proof (induction c dev q rule: count_bytes.induct)
  case (1 c dev q)
  let ?q = "q\<lparr>m_rpByteCounterBytes := m_rpByteCounterBytes q - m_rpByteResetBytes q\<rparr>"
  have "cc_ok c dev ?q" "\<not> m_first_cnp ?q" using 1(3,4) by (simp_all add: cc_ok_def)
  from increase_ok[OF 1(2) this] 1(1)[OF _ 1(2)] show ?case
    using 1(3) count_bytes.simps[of c dev q] by (metis (no_types))
qed

lemma cc_start_ok: "cc_sane c dev \<Longrightarrow> cc_ok c dev (mlx_start c dev)"
  by (simp add: cc_ok_def mlx_start_def in_range_min cc_saneD)

lemma cnp_ok:
  assumes s: "cc_sane c dev" and ok: "cc_ok c dev q"
  shows "cc_ok c dev (cnp_arrives c dev now q)"
proof -
  define q0 where "q0 = (if m_rate q = 0 then q\<lparr>m_rate := dev, m_targetRate := dev\<rparr> else q)"
  have q0: "cc_ok c dev q0" using ok in_range_min[of c dev dev] cc_saneD(2)[OF s] by (auto simp: q0_def cc_ok_def)
  show ?thesis
  proof (cases "m_first_cnp q0")
    case True
    then have "m_rate q0 = dev" using q0 by (simp add: cc_ok_def)
    moreover have "in_range c dev (rate_mul dev (m_rateOnFirstCNP c))"
      by (intro in_range_min cc_saneD[OF s] rate_mul_le)
    ultimately show ?thesis unfolding cnp_arrives_def q0_def[symmetric]
      using q0 True by (simp add: cnp_received_mlx_def cc_ok_def Let_def ScheduleUpdateAlphaMlx_def ScheduleDecreaseRateMlx_def)
  next
    case False
    then show ?thesis unfolding cnp_arrives_def q0_def[symmetric] using q0 by (simp add: cnp_received_mlx_def cc_ok_def Let_def)
  qed
qed

lemma alpha_ok:
  assumes "cc_sane c dev" "cc_ok c dev q" "m_eventUpdateAlpha q \<noteq> None"
  shows "cc_ok c dev (UpdateAlphaMlx c now q)"
proof -
  have "0 \<le> m_alpha q" "m_alpha q \<le> 1" "\<not> m_first_cnp q" using assms(2,3) by (auto simp: cc_ok_def)
  moreover note u = gain_up[OF assms(1) this(1,2)]
  moreover have "1 - m_g c \<le> 1" using cc_saneD(5)[OF assms(1)] by simp
  ultimately show ?thesis using assms(2) gain_one[OF assms(1), of "fmul (fsub 1 (m_g c)) (m_alpha q)"]
    by (auto simp: UpdateAlphaMlx_def ScheduleUpdateAlphaMlx_def cc_ok_def Let_def)
qed

lemma decrease_ok:
  assumes "cc_sane c dev" "cc_ok c dev q" "m_eventDecreaseRate q \<noteq> None"
  shows "cc_ok c dev (CheckRateDecreaseMlx c now q)"
proof -
  have "0 \<le> m_alpha q" "m_alpha q \<le> 1" "\<not> m_first_cnp q" "in_range c dev (m_rate q)" using assms(2,3) by (auto simp: cc_ok_def)
  moreover from cut_in_range[OF assms(1) this(4,1,2)]
  have "in_range c dev (max (m_minRate c) (rate_mul (m_rate q) (fsub 1 (fdiv (m_alpha q) 2))))" .
  ultimately show ?thesis using assms(2)
    by (simp add: CheckRateDecreaseMlx_def ScheduleDecreaseRateMlx_def cc_ok_def Let_def)
qed

lemma cc_step_ok:
  assumes "cc_sane c dev" "cc_ok c dev q" "cc_step c dev e q = Some q'"
  shows "cc_ok c dev q'"
proof (cases e)
  case (Pair now ev)
  show ?thesis
  proof (cases ev)
    case (Sent n)
    have "cc_ok c dev (q\<lparr>m_rpByteCounterBytes := b\<rparr>)" for b using assms(2) by (simp add: cc_ok_def)
    then show ?thesis using assms(2,3) count_bytes_ok[OF assms(1)] unfolding Pair Sent
      by (auto simp: cc_step_def sent_bytes_def)
  next
    case RpTimer
    then have "m_rpTimer q = Some now" "q' = RateIncEventTimerMlx c dev now q"
      using assms(3) by (auto simp: Pair cc_step_def split: if_splits)
    moreover from this have "\<not> m_first_cnp q" using assms(2) by (auto simp: cc_ok_def)
    moreover have "cc_ok c dev (q\<lparr>m_rpTimer := Some t\<rparr>)" if "\<not> m_first_cnp q" for t
      using assms(2) that by (simp add: cc_ok_def)
    ultimately show ?thesis using increase_ok(1)[OF assms(1)] by (simp add: RateIncEventTimerMlx_def)
  qed (use assms cnp_ok alpha_ok decrease_ok in \<open>auto simp: Pair cc_step_def split: if_splits\<close>)
qed

lemma cc_run_ok: "cc_sane c dev \<Longrightarrow> cc_ok c dev q \<Longrightarrow> cc_run c dev es q = Some q' \<Longrightarrow> cc_ok c dev q'"
  by (induction es arbitrary: q) (auto simp: bind_eq_Some_conv dest: cc_step_ok)

text \<open>C27: however notices, packets and timers alternate, a DCQCN sender keeps its rate and its
  target between the minimum rate (rounded down to an even number, since the rate is a mean of two
  halves) and the line rate, and its gain between 0 and 1; before the first notice it sends at
  line rate and no timer of the rate control is pending.\<close>
theorem dcqcn_rates_bounded:
  assumes "cc_sane c dev" "cc_run c dev es (mlx_start c dev) = Some q"
  shows "2 * (unat (m_minRate c) div 2) \<le> unat (m_rate q) \<and> m_rate q \<le> dev \<and>
    2 * (unat (m_minRate c) div 2) \<le> unat (m_targetRate q) \<and> m_targetRate q \<le> dev \<and>
    0 \<le> m_alpha q \<and> m_alpha q \<le> 1 \<and>
    (m_first_cnp q \<longrightarrow> m_rate q = dev \<and> m_eventUpdateAlpha q = None \<and> m_eventDecreaseRate q = None \<and> m_rpTimer q = None)"
  using cc_run_ok[OF assms(1) cc_start_ok[OF assms(1)] assms(2)]
  by (auto simp: cc_ok_def in_range_def)

text \<open>The default attributes, on an interface of 100 Gb/s.\<close>
definition dcqcn_defaults :: CcConfig where
  "dcqcn_defaults = \<lparr>m_minRate = 100000000, m_g = 1 / 16, m_rateOnFirstCNP = 1, m_EcnClampTgtRate = False,
     m_rpgTimeReset = 1500, m_rpgByteReset = 10000000, m_rateDecreaseInterval = 4, m_rpgThreshold = 5,
     m_alpha_resume_interval = 55, m_rai = 5000000, m_rhai = 50000000\<rparr>"

definition line_rate :: u64 where "line_rate = 100000000000"

lemma rate_div_word: "unat d \<le> 9007199254740992 \<Longrightarrow> rate_div d 2 = d div 2"
  by (simp add: word_unat_eq_iff rate_div_2 unat_div)

lemma rate_mul_half: "rate_mul d (1 / 2) = rate_div d 2"
  by (simp add: rate_mul_def rate_div_def fmul_def fdiv_def)

declare dbl_1 [simp]

lemma half_of_one: "fsub 1 (fdiv 1 2) = 1 / 2"
proof -
  have a: "dbl (1 / 2) = 1 / 2" using dbl_half[of 1] by (simp only: of_nat_1)
  have b: "(1 :: rat) - 1 / 2 = 1 / 2" by simp
  show ?thesis unfolding fsub_def fdiv_def a b ..
qed

lemma rate_mul_1: "unat d \<le> 9007199254740992 \<Longrightarrow> rate_mul d 1 = d"
  using dbl_of_nat[of "unat d"] word_of_dbl_below[of "of_nat (unat d)" "unat d"]
  unfolding rate_mul_def fmul_def dbl_of_word_exact mult_1_right
  by (simp add: word_unat_eq_iff trunc_of_nat del: of_nat_unat)

lemma defaults_sane: "cc_sane dcqcn_defaults line_rate"
proof -
  have "dbl (15 / 2 / 2 / 2 / 2) = 15 / 2 / 2 / 2 / 2"
    using dbl_of_nat[of 15] rnd_half[of 15 53] rnd_half[of "15 / 2" 53] rnd_half[of "15 / 2 / 2" 53]
      rnd_half[of "15 / 2 / 2 / 2" 53] unfolding dbl_def by simp
  then have "fsub 1 (1 / 16) = 1 - 1 / 16" by (simp add: fsub_def)
  then show ?thesis using rate_mul_1[of line_rate] by (simp add: cc_sane_def dcqcn_defaults_def line_rate_def)
qed

text \<open>One notice at line rate halves the rate.\<close>
lemma first_cut:
  "map_option (\<lambda>q. (m_rate q, m_targetRate q, m_rpTimer q, m_decrease_cnp_arrived q, m_rpTimeStage q))
     (cc_run dcqcn_defaults line_rate [(0, Notice), (4001, DecreaseTimer)] (mlx_start dcqcn_defaults line_rate))
   = Some (50000000000, line_rate, Some 1504001, False, 0)"
proof -
  have us: "MicroSeconds 4 = 4000" "MicroSeconds 55 = 55000" "MicroSeconds 1500 = 1500000"
    by (simp_all add: MicroSeconds_def word_of_dbl_def trunc_def)
  have half: "rate_mul line_rate 1 = line_rate" "rate_mul line_rate (1 / 2) = 50000000000"
    by (simp_all add: rate_mul_1 rate_mul_half rate_div_word line_rate_def)
  have nz: "line_rate \<noteq> 0" "max (100000000 :: u64) 50000000000 = 50000000000" by (simp_all add: line_rate_def)
  show ?thesis
    by (simp add: us half nz half_of_one cc_step_def cnp_arrives_def cnp_received_mlx_def mlx_start_def dcqcn_defaults_def
        ScheduleUpdateAlphaMlx_def ScheduleDecreaseRateMlx_def CheckRateDecreaseMlx_def Let_def)
qed

theorem dcqcn_rates_bounded_witness:
  "\<exists>q. cc_run dcqcn_defaults line_rate [(0, Notice), (4001, DecreaseTimer)] (mlx_start dcqcn_defaults line_rate) = Some q \<and>
    m_rate q = 50000000000 \<and> 100000000 \<le> unat (m_rate q) \<and> 0 \<le> m_alpha q \<and> m_alpha q \<le> 1"
proof -
  obtain q where q: "cc_run dcqcn_defaults line_rate [(0, Notice), (4001, DecreaseTimer)] (mlx_start dcqcn_defaults line_rate) = Some q"
    "m_rate q = 50000000000" using first_cut by auto
  with dcqcn_rates_bounded[OF defaults_sane q(1)] show ?thesis by (auto simp: dcqcn_defaults_def)
qed

section \<open>The rate recovers\<close>

lemma halved_gap:
  fixes r d x :: nat
  assumes "r \<le> d" "d - r \<le> x + 2"
  shows "d - (r div 2 + d div 2) \<le> x div 2 + 2"
proof -
  have "r \<le> 2 * (r div 2) + 1" "d \<le> 2 * (d div 2) + 1" "x \<le> 2 * (x div 2) + 1" by simp_all
  then show ?thesis using assms(2) by linarith
qed

definition timer_events :: "(int \<times> cc_event) list \<Rightarrow> nat" where
  "timer_events es = length (filter (\<lambda>e. snd e = RpTimer) es)"

text \<open>How far a sender has come after k timer events: its stage, the gap left to the target,
  which closes by the increment, and the gap left to the rate, which then halves.\<close>
definition recovered :: "CcConfig \<Rightarrow> u64 \<Rightarrow> nat \<Rightarrow> nat \<Rightarrow> nat \<Rightarrow> Mlx \<Rightarrow> bool" where
  "recovered c dev K gap k q \<longleftrightarrow> cc_ok c dev q \<and> \<not> m_decrease_cnp_arrived q \<and> k \<le> unat (m_rpTimeStage q) \<and>
     unat dev - unat (m_targetRate q) \<le> gap - (k - unat (m_rpgThreshold c)) * unat (m_rai c) \<and>
     unat dev - unat (m_rate q) \<le> unat dev div 2 ^ (k - (unat (m_rpgThreshold c) + K)) + 2"

lemma increase_sel:
  "m_rate (RateIncEventMlx c dev byTimer q) = rate_div (m_rate q) 2 + rate_div (m_targetRate (RateIncEventMlx c dev byTimer q)) 2"
  "m_decrease_cnp_arrived (RateIncEventMlx c dev byTimer q) = m_decrease_cnp_arrived q"
  "m_rpTimeStage (RateIncEventMlx c dev byTimer q) = m_rpTimeStage q + (if byTimer then 1 else 0)"
  by (simp_all add: RateIncEventMlx_def FastRecoveryMlx_def ActiveIncreaseMlx_def HyperIncreaseMlx_def Let_def)

text \<open>The target is never lowered, and past the threshold it is raised.\<close>
lemma increase_target:
  assumes "cc_sane c dev" "m_rai c \<le> m_rhai c" "cc_ok c dev q"
  shows "unat (m_targetRate q) \<le> unat (m_targetRate (RateIncEventMlx c dev byTimer q))"
    "m_rpgThreshold c \<le> m_rpTimeStage q \<Longrightarrow>
      min (unat dev) (unat (m_targetRate q) + unat (m_rai c)) \<le> unat (m_targetRate (RateIncEventMlx c dev byTimer q))"
proof -
  have t: "in_range c dev (m_targetRate q)" using assms(3) by (simp add: cc_ok_def)
  then have d: "unat (m_targetRate q) \<le> unat dev" by (simp add: in_range_def word_le_nat_alt)
  have "unat (m_rai c) \<le> unat (m_rhai c)" using assms(2) by (simp add: word_le_nat_alt)
  then have cap: "min (unat dev) (unat (m_targetRate q) + unat (m_rai c)) \<le> unat (if m_targetRate q + a > dev then dev else m_targetRate q + a)"
    if "a \<in> {m_rai c, m_rhai c}" for a
    using that in_range_raise(2)[OF assms(1) t, of a] cc_saneD(3,4)[OF assms(1)] by auto
  have up: "\<exists>a\<in>{m_rai c, m_rhai c}. m_targetRate (RateIncEventMlx c dev byTimer q)
      = (if m_targetRate q + a > dev then dev else m_targetRate q + a)"
    if "\<not> max (m_rpTimeStage q) (m_rpByteStage q) < m_rpgThreshold c"
    using that by (auto simp: RateIncEventMlx_def ActiveIncreaseMlx_def HyperIncreaseMlx_def Let_def)
  have same: "m_targetRate (RateIncEventMlx c dev byTimer q) = m_targetRate q"
    if "max (m_rpTimeStage q) (m_rpByteStage q) < m_rpgThreshold c"
    using that by (simp add: RateIncEventMlx_def FastRecoveryMlx_def Let_def)
  have raised: "min (unat dev) (unat (m_targetRate q) + unat (m_rai c)) \<le> unat (m_targetRate (RateIncEventMlx c dev byTimer q))"
    if st: "\<not> max (m_rpTimeStage q) (m_rpByteStage q) < m_rpgThreshold c"
  proof -
    obtain a where a: "a \<in> {m_rai c, m_rhai c}" "m_targetRate (RateIncEventMlx c dev byTimer q)
      = (if m_targetRate q + a > dev then dev else m_targetRate q + a)" using up[OF st] by blast
    show ?thesis unfolding a(2) by (rule cap[OF a(1)])
  qed
  have "unat (m_targetRate q) \<le> min (unat dev) (unat (m_targetRate q) + unat (m_rai c))" using d by simp
  note low = this
  show "unat (m_targetRate q) \<le> unat (m_targetRate (RateIncEventMlx c dev byTimer q))"
  proof (cases "max (m_rpTimeStage q) (m_rpByteStage q) < m_rpgThreshold c")
    case True
    show ?thesis unfolding same[OF True] ..
  next
    case False
    show ?thesis by (rule order_trans[OF low raised[OF False]])
  qed
  show "min (unat dev) (unat (m_targetRate q) + unat (m_rai c)) \<le> unat (m_targetRate (RateIncEventMlx c dev byTimer q))"
    if "m_rpgThreshold c \<le> m_rpTimeStage q"
    using that by (intro raised) (simp add: not_less le_max_iff_disj)
qed

text \<open>Once the target is at the line rate, every increase halves the gap of the rate.\<close>
lemma mean_recovers:
  assumes s: "cc_sane c dev" and r: "in_range c dev (m_rate q)" "in_range c dev t"
    and g: "unat dev - unat (m_rate q) \<le> unat dev div 2 ^ (k - n) + 2" and top: "n \<le> k \<Longrightarrow> unat t = unat dev"
  shows "unat dev - unat (rate_div (m_rate q) 2 + rate_div t 2) \<le> unat dev div 2 ^ (Suc k - n) + 2"
proof (cases "n \<le> k")
  case True
  define x where "x = unat dev div 2 ^ (k - n)"
  have x: "unat dev div 2 ^ (Suc k - n) = x div 2" using True by (simp add: x_def Suc_diff_le div_mult2_eq[symmetric] mult.commute)
  have "unat (rate_div (m_rate q) 2 + rate_div t 2) = unat (m_rate q) div 2 + unat t div 2"
    using s r by (intro mean_rate in_rangeD)
  moreover have "unat (m_rate q) \<le> unat dev" using r(1) by (simp add: in_range_def word_le_nat_alt)
  ultimately show ?thesis using halved_gap[of "unat (m_rate q)" "unat dev" x] g top[OF True] unfolding x x_def[symmetric] by simp
qed simp

lemma increase_recovers:
  assumes s: "cc_sane c dev" and le: "m_rai c \<le> m_rhai c" and K: "gap \<le> K * unat (m_rai c)"
    and r: "recovered c dev K gap k q" and f: "\<not> m_first_cnp q"
    and w: "byTimer \<Longrightarrow> unat (m_rpTimeStage q) + 1 < 2 ^ 32"
  shows "recovered c dev K gap (if byTimer then Suc k else k) (RateIncEventMlx c dev byTimer q)"
proof -
  let ?q = "RateIncEventMlx c dev byTimer q" and ?F = "unat (m_rpgThreshold c)" and ?a = "unat (m_rai c)"
  have ok: "cc_ok c dev q" "cc_ok c dev ?q" using r increase_ok(1)[OF s _ f] by (simp_all add: recovered_def)
  note T = increase_target[OF s le ok(1), of byTimer]
  have t0: "unat dev - unat (m_targetRate q) \<le> gap - (k - ?F) * ?a" and st: "k \<le> unat (m_rpTimeStage q)"
    and g0: "unat dev - unat (m_rate q) \<le> unat dev div 2 ^ (k - (?F + K)) + 2"
    using r by (simp_all add: recovered_def)
  have t1: "unat dev - unat (m_targetRate ?q) \<le> gap - (k - ?F) * ?a" using T(1) t0 by linarith
  have t2: "unat dev - unat (m_targetRate ?q) \<le> gap - (Suc k - ?F) * ?a"
  proof (cases "?F \<le> k")
    case True
    then have "m_rpgThreshold c \<le> m_rpTimeStage q" using st by (simp add: word_le_nat_alt)
    from T(2)[OF this] t0 show ?thesis using True by (simp add: Suc_diff_le)
  qed (use t1 in simp)
  have le_dev: "unat (m_targetRate ?q) \<le> unat dev" using ok(2) by (simp add: cc_ok_def in_range_def word_le_nat_alt)
  have top: "unat (m_targetRate ?q) = unat dev" if "?F + K \<le> k"
  proof -
    have "K * ?a \<le> (k - ?F) * ?a" using that by (intro mult_le_mono1) linarith
    then show ?thesis using t1 K le_dev by linarith
  qed
  have g1: "unat dev - unat (m_rate ?q) \<le> unat dev div 2 ^ (Suc k - (?F + K)) + 2"
    unfolding increase_sel(1) using ok g0 top by (intro mean_recovers[OF s]) (simp_all add: cc_ok_def)
  have "(2 :: nat) ^ (k - (?F + K)) \<le> 2 ^ (Suc k - (?F + K))" by (intro power_increasing) simp_all
  then have "unat dev div 2 ^ (Suc k - (?F + K)) \<le> unat dev div 2 ^ (k - (?F + K))" by (simp add: div_le_mono2)
  then have g2: "unat dev - unat (m_rate ?q) \<le> unat dev div 2 ^ (k - (?F + K)) + 2" using g1 by linarith
  have "unat (m_rpTimeStage ?q) = unat (m_rpTimeStage q) + (if byTimer then 1 else 0)"
    using w by (auto simp: increase_sel(3) unat_add_lt)
  then show ?thesis using r ok(2) st t1 t2 g1 g2 by (auto simp: recovered_def increase_sel(2))
qed

lemma recovered_cong:
  "cc_ok c dev q' \<Longrightarrow> m_decrease_cnp_arrived q' = m_decrease_cnp_arrived q \<Longrightarrow> m_rpTimeStage q' = m_rpTimeStage q \<Longrightarrow>
   m_targetRate q' = m_targetRate q \<Longrightarrow> m_rate q' = m_rate q \<Longrightarrow> recovered c dev K gap k q \<Longrightarrow> recovered c dev K gap k q'"
  by (simp add: recovered_def)

lemma count_recovers:
  "cc_sane c dev \<Longrightarrow> m_rai c \<le> m_rhai c \<Longrightarrow> gap \<le> K * unat (m_rai c) \<Longrightarrow> recovered c dev K gap k q \<Longrightarrow> \<not> m_first_cnp q \<Longrightarrow>
   recovered c dev K gap k (count_bytes c dev q) \<and> m_rpTimeStage (count_bytes c dev q) = m_rpTimeStage q"
proof (induction c dev q rule: count_bytes.induct)
  case (1 c dev q)
  let ?q = "q\<lparr>m_rpByteCounterBytes := m_rpByteCounterBytes q - m_rpByteResetBytes q\<rparr>"
  let ?r = "RateIncEventMlx c dev False ?q"
  have q: "recovered c dev K gap k ?q" "\<not> m_first_cnp ?q"
    using 1(5,6) by (simp_all add: recovered_def cc_ok_def)
  have r: "recovered c dev K gap k ?r" using increase_recovers[OF 1(2-4) q, of False] by simp
  have f: "\<not> m_first_cnp ?r" using increase_ok(2)[OF 1(2) _ q(2)] q(1) by (simp add: recovered_def)
  have "m_rpTimeStage ?r = m_rpTimeStage q" by (simp add: increase_sel(3))
  then show ?case using 1(1)[OF _ 1(2-4) r f] 1(5) count_bytes.simps[of c dev q] by (metis (no_types))
qed

lemma step_recovers:
  assumes s: "cc_sane c dev" and le: "m_rai c \<le> m_rhai c" and K: "gap \<le> K * unat (m_rai c)"
    and r: "recovered c dev K gap k q" and e: "cc_step c dev (now, ev) q = Some q'" "ev \<noteq> Notice"
    and w: "unat (m_rpTimeStage q) + (if ev = RpTimer then 1 else 0) < 2 ^ 32"
  shows "recovered c dev K gap (if ev = RpTimer then Suc k else k) q' \<and>
    unat (m_rpTimeStage q') = unat (m_rpTimeStage q) + (if ev = RpTimer then 1 else 0)"
proof -
  have ok: "cc_ok c dev q" "\<not> m_decrease_cnp_arrived q" using r by (simp_all add: recovered_def)
  have ok': "cc_ok c dev q'" by (rule cc_step_ok[OF s ok(1) e(1)])
  show ?thesis
  proof (cases ev)
    case (Sent n)
    let ?q = "q\<lparr>m_rpByteCounterBytes := m_rpByteCounterBytes q + ucast n\<rparr>"
    have "recovered c dev K gap k ?q" using r by (simp add: recovered_def cc_ok_def)
    from count_recovers[OF s le K this] show ?thesis using r e(1) unfolding Sent
      by (auto simp: cc_step_def sent_bytes_def)
  next
    case RpTimer
    then have t: "m_rpTimer q = Some now" "q' = RateIncEventTimerMlx c dev now q"
      using e(1) by (auto simp: cc_step_def split: if_splits)
    let ?q = "q\<lparr>m_rpTimer := Some (now + MicroSeconds (m_rpgTimeReset c))\<rparr>"
    have f: "\<not> m_first_cnp ?q" using t(1) ok(1) by (auto simp: cc_ok_def)
    then have "recovered c dev K gap k ?q" using r by (simp add: recovered_def cc_ok_def)
    from increase_recovers[OF s le K this f, of True] show ?thesis
      using w RpTimer by (simp add: t(2) RateIncEventTimerMlx_def increase_sel(3) unat_add_lt)
  next
    case AlphaTimer
    then have "q' = UpdateAlphaMlx c now q" using e(1) by (auto simp: cc_step_def split: if_splits)
    then have "m_decrease_cnp_arrived q' = m_decrease_cnp_arrived q" "m_rpTimeStage q' = m_rpTimeStage q"
      "m_targetRate q' = m_targetRate q" "m_rate q' = m_rate q"
      by (simp_all add: UpdateAlphaMlx_def ScheduleUpdateAlphaMlx_def Let_def)
    then show ?thesis using AlphaTimer recovered_cong[OF ok' _ _ _ _ r] by simp
  next
    case DecreaseTimer
    then have "q' = ScheduleDecreaseRateMlx c now 0 q"
      using e(1) ok(2) by (auto simp: cc_step_def CheckRateDecreaseMlx_def ScheduleDecreaseRateMlx_def Let_def split: if_splits)
    then have "m_decrease_cnp_arrived q' = m_decrease_cnp_arrived q" "m_rpTimeStage q' = m_rpTimeStage q"
      "m_targetRate q' = m_targetRate q" "m_rate q' = m_rate q"
      by (simp_all add: ScheduleDecreaseRateMlx_def)
    then show ?thesis using DecreaseTimer recovered_cong[OF ok' _ _ _ _ r] by simp
  qed (use e(2) in simp)
qed

lemma timer_events_simps [simp]:
  "timer_events [] = 0" "timer_events ((now, ev) # es) = (if ev = RpTimer then Suc (timer_events es) else timer_events es)"
  by (simp_all add: timer_events_def)

lemma run_recovers:
  "cc_sane c dev \<Longrightarrow> m_rai c \<le> m_rhai c \<Longrightarrow> gap \<le> K * unat (m_rai c) \<Longrightarrow> recovered c dev K gap k q \<Longrightarrow>
   cc_run c dev es q = Some q' \<Longrightarrow> \<forall>e\<in>set es. snd e \<noteq> Notice \<Longrightarrow> unat (m_rpTimeStage q) + timer_events es < 2 ^ 32 \<Longrightarrow>
   recovered c dev K gap (k + timer_events es) q'"
proof (induction es arbitrary: q k)
  case (Cons e es)
  obtain now ev where e: "e = (now, ev)" by (cases e)
  obtain q1 where q1: "cc_step c dev (now, ev) q = Some q1" "cc_run c dev es q1 = Some q'"
    using Cons.prems(5) by (auto simp: e bind_eq_Some_conv)
  have "ev \<noteq> Notice" "unat (m_rpTimeStage q) + (if ev = RpTimer then 1 else 0) < 2 ^ 32"
    using Cons.prems(6,7) by (auto simp: e split: if_splits)
  note st = step_recovers[OF Cons.prems(1-4) q1(1) this]
  have "recovered c dev K gap ((if ev = RpTimer then Suc k else k) + timer_events es) q'"
    using Cons.prems(6,7) st by (intro Cons.IH[OF Cons.prems(1-3) _ q1(2)]) (auto simp: e split: if_splits)
  then show ?case by (cases "ev = RpTimer") (simp_all add: e)
qed simp

text \<open>C24: a DCQCN sender that gets no more notices climbs back to the line rate.  Take any state
  reached so far with no cut pending, and then any events other than notices: after the fast
  recovery stages, as many timer events as the additive increase needs to bring the target to the
  line rate, and 54 more, the target is the line rate and the rate is at most 2 bits per second
  below it; packets sent and the other timers in between do not matter.\<close>
theorem dcqcn_recovers:
  assumes "cc_sane c dev" "m_rai c \<le> m_rhai c" "cc_run c dev past (mlx_start c dev) = Some q" "\<not> m_decrease_cnp_arrived q"
    "cc_run c dev es q = Some q'" "\<forall>e\<in>set es. snd e \<noteq> Notice" "unat (m_rpTimeStage q) + timer_events es < 2 ^ 32"
    "unat dev - unat (m_targetRate q) \<le> K * unat (m_rai c)" "unat (m_rpgThreshold c) + K + 54 \<le> timer_events es"
  shows "m_targetRate q' = dev \<and> m_rate q' \<le> dev \<and> unat dev \<le> unat (m_rate q') + 2"
proof -
  have "cc_ok c dev q" by (rule cc_run_ok[OF assms(1) cc_start_ok[OF assms(1)] assms(3)])
  then have "recovered c dev K (unat dev - unat (m_targetRate q)) 0 q" using assms(4) by (simp add: recovered_def)
  from run_recovers[OF assms(1,2,8) this assms(5-7)]
  have r: "recovered c dev K (unat dev - unat (m_targetRate q)) (timer_events es) q'" by simp
  let ?a = "unat (m_rai c)" and ?F = "unat (m_rpgThreshold c)"
  have "K * ?a \<le> (timer_events es - ?F) * ?a" using assms(9) by (intro mult_le_mono1) linarith
  then have t: "unat dev - unat (m_targetRate q') = 0" using r assms(8) unfolding recovered_def by linarith
  have in_r: "in_range c dev (m_rate q')" "in_range c dev (m_targetRate q')" using r by (simp_all add: recovered_def cc_ok_def)
  have "(2 :: nat) ^ 54 \<le> 2 ^ (timer_events es - (?F + K))" using assms(9) by (intro power_increasing) simp_all
  then have "unat dev < 2 ^ (timer_events es - (?F + K))" using cc_saneD(1)[OF assms(1)] by simp
  then have "unat dev - unat (m_rate q') \<le> 2" using r by (simp add: recovered_def)
  then show ?thesis using t in_r by (auto simp: in_range_def word_le_nat_alt word_unat_eq_iff)
qed

text \<open>The timer of the reaction point, firing n times from time t on.\<close>
fun timer_train :: "CcConfig \<Rightarrow> nat \<Rightarrow> int \<Rightarrow> (int \<times> cc_event) list" where
  "timer_train c 0 t = []"
| "timer_train c (Suc n) t = (t, RpTimer) # timer_train c n (t + MicroSeconds (m_rpgTimeReset c))"

lemma RateInc_timer: "m_rpTimer (RateIncEventTimerMlx c dev t q) = Some (t + MicroSeconds (m_rpgTimeReset c))"
  by (simp add: RateIncEventTimerMlx_def RateIncEventMlx_def FastRecoveryMlx_def ActiveIncreaseMlx_def HyperIncreaseMlx_def Let_def)

lemma train_runs: "m_rpTimer q = Some t \<Longrightarrow> \<exists>q'. cc_run c dev (timer_train c n t) q = Some q'"
  by (induction n arbitrary: q t) (simp_all add: cc_step_def RateInc_timer)

lemma train_events: "timer_events (timer_train c n t) = n" "\<forall>e\<in>set (timer_train c n t). snd e \<noteq> Notice"
  by (induction n arbitrary: t) simp_all

text \<open>One notice at line rate halves the rate; 59 timer events later it is back.\<close>
theorem dcqcn_recovers_witness:
  "\<exists>q q'. cc_run dcqcn_defaults line_rate [(0, Notice), (4001, DecreaseTimer)] (mlx_start dcqcn_defaults line_rate) = Some q \<and>
    m_rate q = 50000000000 \<and> cc_run dcqcn_defaults line_rate (timer_train dcqcn_defaults 59 1504001) q = Some q' \<and>
    99999999998 \<le> unat (m_rate q') \<and> m_rate q' \<le> line_rate"
proof -
  let ?r = "cc_run dcqcn_defaults line_rate [(0, Notice), (4001, DecreaseTimer)] (mlx_start dcqcn_defaults line_rate)"
  obtain q where q: "?r = Some q" "m_rate q = 50000000000" "m_targetRate q = line_rate" "m_rpTimer q = Some 1504001"
    "\<not> m_decrease_cnp_arrived q" "m_rpTimeStage q = 0" using first_cut by auto
  obtain q' where q': "cc_run dcqcn_defaults line_rate (timer_train dcqcn_defaults 59 1504001) q = Some q'"
    using train_runs[OF q(4)] by blast
  have "m_rai dcqcn_defaults \<le> m_rhai dcqcn_defaults" "unat (m_rpgThreshold dcqcn_defaults) = 5"
    by (simp_all add: dcqcn_defaults_def)
  then have "m_targetRate q' = line_rate \<and> m_rate q' \<le> line_rate \<and> unat line_rate \<le> unat (m_rate q') + 2"
    using q by (intro dcqcn_recovers[OF defaults_sane _ q(1,5) q', where K = 0]) (simp_all add: train_events)
  then show ?thesis using q(1,2) q' by (auto simp: line_rate_def)
qed

end
