(* ===== verification/AckRates.thy ===== *)
theory AckRates
  imports Dcqcn
begin

text \<open>
  The rate controls that react to acknowledgements, in
  \<^verbatim>\<open>point-to-point/model/rdma-hw.cc\<close>: DCTCP (HandleAckDctcp), TIMELY
  (HandleAckTimely) and HPCC (HandleAckHp).  Each is the state the queue pair keeps for it and a
  step that maps the rate and that state to the next.  A division by zero and a double outside
  the range of the integer it is converted to are None.  Whatever acknowledgements say, the rate
  stays between the minimum and the line rate.
\<close>

section \<open>Doubles made rates\<close>

definition to_rate :: "double \<Rightarrow> u64 option" where
  "to_rate x = (if 0 \<le> x \<and> x < 2 ^ 64 then Some (word_of_dbl x) else None)"

definition div_by :: "double \<Rightarrow> double \<Rightarrow> double option" where
  "div_by x y = (if y = 0 then None else Some (fdiv x y))"

text \<open>The attributes these controls read beside those of DCQCN.\<close>
record AckConfig = CcConfig +
  c_mtu :: u32
  m_dctcp_rai :: u64
  m_tmly_alpha :: double
  m_tmly_beta :: double
  m_tmly_TLow :: u64
  m_tmly_THigh :: u64
  m_tmly_minRtt :: u64
  m_targetUtil :: double
  m_miThresh :: u32
  m_multipleRate :: bool
  m_sampleFeedback :: bool
  m_fast_react :: bool
  c_intMulti :: u32

section \<open>DCTCP\<close>

record Dctcp =
  dc_lastUpdateSeq :: u32
  dc_caState :: u32
  dc_highSeq :: u32
  dc_alpha :: double
  dc_ecnCnt :: u32
  dc_batchSizeOfAlpha :: u32

definition Dctcp_ctor :: Dctcp where
  "Dctcp_ctor = \<lparr>dc_lastUpdateSeq = 0, dc_caState = 0, dc_highSeq = 0, dc_alpha = 1, dc_ecnCnt = 0, dc_batchSizeOfAlpha = 0\<rparr>"

text \<open>std::min(1.0, count / batch); a batch of 0 gives infinity or NaN, and then 1.\<close>
definition marked_fraction :: "u32 \<Rightarrow> u32 \<Rightarrow> double" where
  "marked_fraction cnt batch =
    (if batch = 0 then 1 else let x = fdiv (dbl_of_word cnt) (dbl_of_word batch) in if x < 1 then x else 1)"

text \<open>The update of alpha at the end of a round trip.\<close>
definition dctcp_alpha :: "AckConfig \<Rightarrow> u64 \<Rightarrow> u32 \<Rightarrow> Dctcp \<Rightarrow> Dctcp option" where
  "dctcp_alpha c nxt ack_seq d =
    (if c_mtu c = 0 then None
     else if dc_lastUpdateSeq d = 0
     then Some (d\<lparr>dc_lastUpdateSeq := ucast nxt, dc_batchSizeOfAlpha := ucast (nxt div ucast (c_mtu c) + 1)\<rparr>)
     else let frac = marked_fraction (dc_ecnCnt d) (dc_batchSizeOfAlpha d)
          in Some (d\<lparr>dc_alpha := fadd (fmul (fsub 1 (m_g c)) (dc_alpha d)) (fmul (m_g c) frac),
               dc_lastUpdateSeq := ucast nxt, dc_ecnCnt := 0,
               dc_batchSizeOfAlpha := ucast ((nxt - ucast ack_seq) div ucast (c_mtu c) + 1)\<rparr>))"

definition HandleAckDctcp :: "AckConfig \<Rightarrow> u64 \<Rightarrow> u64 \<Rightarrow> u32 \<Rightarrow> u16 \<Rightarrow> u64 \<times> Dctcp \<Rightarrow> (u64 \<times> Dctcp) option" where
  "HandleAckDctcp c nxt max_rate ack_seq flags s =
    (let (rate, d) = s; cnp = (drop_bit 0 flags AND 1 \<noteq> 0);
         d = (if cnp then d\<lparr>dc_ecnCnt := dc_ecnCnt d + 1\<rparr> else d);
         new_batch = (ack_seq > dc_lastUpdateSeq d)
     in case (if new_batch then dctcp_alpha c nxt ack_seq d else Some d) of None \<Rightarrow> None
      | Some d \<Rightarrow>
          let d = (if dc_caState d = 1 \<and> ack_seq > dc_highSeq d then d\<lparr>dc_caState := 0\<rparr> else d);
              (rate, d) = (if cnp \<and> dc_caState d = 0
                 then (max (m_minRate c) (rate_mul rate (fsub 1 (fdiv (dc_alpha d) 2))), d\<lparr>dc_caState := 1, dc_highSeq := ucast nxt\<rparr>)
                 else (rate, d))
          in Some (if dc_caState d = 0 \<and> new_batch then min max_rate (rate + m_dctcp_rai c) else rate, d))"

section \<open>TIMELY\<close>

record Timely =
  tm_lastUpdateSeq :: u32
  tm_curRate :: u64
  tm_incStage :: u32
  tm_lastRtt :: u64
  tm_rttDiff :: double

definition Timely_start :: "u64 \<Rightarrow> Timely" where
  "Timely_start dev = \<lparr>tm_lastUpdateSeq = 0, tm_curRate = dev, tm_incStage = 0, tm_lastRtt = 0, tm_rttDiff = 0\<rparr>"

text \<open>Whether to increase, or the factor of the decrease.\<close>
definition timely_factor :: "AckConfig \<Rightarrow> u64 \<Rightarrow> double \<Rightarrow> double option" where
  "timely_factor c rtt gradient =
    (if rtt < m_tmly_TLow c then None
     else if rtt > m_tmly_THigh c
     then Some (fsub 1 (fmul (m_tmly_beta c) (fsub 1 (fdiv (dbl_of_word (m_tmly_THigh c)) (dbl_of_word rtt)))))
     else if gradient \<le> 0 then None
     else let x = fsub 1 (fmul (m_tmly_beta c) gradient) in Some (if x < 0 then 0 else x))"

definition timely_rate :: "AckConfig \<Rightarrow> u64 \<Rightarrow> double option \<Rightarrow> Timely \<Rightarrow> u64 option" where
  "timely_rate c max_rate factor t =
    (case factor of
       None \<Rightarrow> let r = tm_curRate t + (if tm_incStage t < 5 then m_rai c else m_rhai c)
               in Some (if r > max_rate then max_rate else r)
     | Some x \<Rightarrow> map_option (max (m_minRate c)) (to_rate (fmul (dbl_of_word (tm_curRate t)) x)))"

definition UpdateRateTimely :: "AckConfig \<Rightarrow> u64 \<Rightarrow> u64 \<Rightarrow> u64 \<Rightarrow> u64 \<Rightarrow> bool \<Rightarrow> u64 \<times> Timely \<Rightarrow> (u64 \<times> Timely) option" where
  "UpdateRateTimely c now ts nxt max_rate us s =
    (let (rate, t) = s; next_seq = (ucast nxt :: u32); rtt = now - ts in
     map_option (\<lambda>(rate, t).
         (rate, if \<not> us \<and> next_seq > tm_lastUpdateSeq t then t\<lparr>tm_lastUpdateSeq := next_seq, tm_lastRtt := rtt\<rparr> else t))
       (if tm_lastUpdateSeq t = 0 then Some (rate, t)
        else let new_rtt_diff = sint rtt - sint (tm_lastRtt t);
                 rtt_diff = fadd (fmul (fsub 1 (m_tmly_alpha c)) (tm_rttDiff t)) (fmul (m_tmly_alpha c) (dbl_of_int new_rtt_diff))
             in case div_by rtt_diff (dbl_of_word (m_tmly_minRtt c)) of None \<Rightarrow> None
                | Some gradient \<Rightarrow>
                    let factor = timely_factor c rtt gradient in
                    case timely_rate c max_rate factor t of None \<Rightarrow> None
                    | Some r \<Rightarrow> Some (r, if us then t
                        else t\<lparr>tm_curRate := r, tm_incStage := (if factor = None then tm_incStage t + 1 else 0), tm_rttDiff := rtt_diff\<rparr>)))"

text \<open>The fast reaction of TIMELY is empty.\<close>
definition HandleAckTimely :: "AckConfig \<Rightarrow> u64 \<Rightarrow> u64 \<Rightarrow> u64 \<Rightarrow> u64 \<Rightarrow> u32 \<Rightarrow> u64 \<times> Timely \<Rightarrow> (u64 \<times> Timely) option" where
  "HandleAckTimely c now ts nxt max_rate ack_seq s =
    (if ack_seq > tm_lastUpdateSeq (prod.snd s) then UpdateRateTimely c now ts nxt max_rate False s else Some s)"

section \<open>HPCC\<close>

record HopState =
  hs_u :: double
  hs_Rc :: u64
  hs_incStage :: u32

record Hpcc =
  hp_lastUpdateSeq :: u32
  hp_curRate :: u64
  hp_hop :: "nat \<Rightarrow> IntHop"
  hp_incStage :: u32
  hp_u :: double
  hp_hopState :: "nat \<Rightarrow> HopState"

definition Hpcc_start :: "u64 \<Rightarrow> (nat \<Rightarrow> IntHop) \<Rightarrow> Hpcc" where
  "Hpcc_start dev memory = \<lparr>hp_lastUpdateSeq = 0, hp_curRate = dev, hp_hop = memory, hp_incStage = 0, hp_u = 1,
     hp_hopState = (\<lambda>_. \<lparr>hs_u = 1, hs_Rc = dev, hs_incStage = 0\<rparr>)\<rparr>"

text \<open>The fixed quantities of the queue pair: line rate, window, base round-trip time.\<close>
record HpPath =
  hq_max_rate :: u64
  hq_win :: u32
  hq_baseRtt :: u64

text \<open>The utilisation one hop reports: transmission rate and queue against the line rate.\<close>
definition hop_util :: "AckConfig \<Rightarrow> HpPath \<Rightarrow> IntHop \<Rightarrow> IntHop \<Rightarrow> double option" where
  "hop_util c q new old =
    (let duration = fmul (dbl_of_word (GetTimeDelta new old)) (dbl (1 / 1000000000));
         line = dbl_of_word (GetLineRate new)
     in do {
       txRate \<leftarrow> div_by (dbl_of_word (GetBytesDelta (c_intMulti c) new old * 8)) duration;
       a \<leftarrow> div_by txRate line;
       b \<leftarrow> div_by (fmul (dbl_of_word (min (GetQlen (c_intMulti c) new) (GetQlen (c_intMulti c) old))) (dbl_of_word (hq_max_rate q))) line;
       b \<leftarrow> div_by b (dbl_of_word (hq_win q));
       Some (fadd a b) })"

text \<open>The moving average of a utilisation over the base round-trip time.\<close>
definition mix_util :: "HpPath \<Rightarrow> double \<Rightarrow> double \<Rightarrow> u64 \<Rightarrow> double option" where
  "mix_util q old new tau =
    div_by (fadd (fmul old (dbl_of_word (hq_baseRtt q - tau))) (fmul new (dbl_of_word tau))) (dbl_of_word (hq_baseRtt q))"

text \<open>The hops of an acknowledgement in turn: the largest utilisation with its time, the hops
  looked at, and the state of the queue pair.\<close>
fun hp_hops :: "AckConfig \<Rightarrow> HpPath \<Rightarrow> bool \<Rightarrow> IntHeader \<Rightarrow> nat list \<Rightarrow> double \<times> u64 \<times> nat set \<times> Hpcc \<Rightarrow> (double \<times> u64 \<times> nat set \<times> Hpcc) option" where
  "hp_hops c q fast ih [] s = Some s"
| "hp_hops c q fast ih (i # is) (U, dt, updated, h) =
    (if m_sampleFeedback c \<and> GetQlen (c_intMulti c) (hop ih i) = 0 \<and> fast then hp_hops c q fast ih is (U, dt, updated, h)
     else let tau = GetTimeDelta (hop ih i) (hp_hop h i) in
       case hop_util c q (hop ih i) (hp_hop h i) of None \<Rightarrow> None
       | Some u \<Rightarrow>
          if \<not> m_multipleRate c
          then let (U, dt) = (if u > U then (u, tau) else (U, dt))
               in hp_hops c q fast ih is (U, dt, insert i updated, h\<lparr>hp_hop := (hp_hop h)(i := hop ih i)\<rparr>)
          else let tau = (if tau > hq_baseRtt q then hq_baseRtt q else tau); st = hp_hopState h i in
               case mix_util q (hs_u st) u tau of None \<Rightarrow> None
               | Some v \<Rightarrow> hp_hops c q fast ih is (U, dt, insert i updated,
                   h\<lparr>hp_hopState := (hp_hopState h)(i := st\<lparr>hs_u := v\<rparr>), hp_hop := (hp_hop h)(i := hop ih i)\<rparr>))"

definition clamp_rate :: "AckConfig \<Rightarrow> HpPath \<Rightarrow> u64 \<Rightarrow> u64" where
  "clamp_rate c q r =
    (let r = (if r < m_minRate c then m_minRate c else r) in if r > hq_max_rate q then hq_max_rate q else r)"

text \<open>The next rate and stage from a rate, its stage and the utilisation against the target.\<close>
definition hp_react :: "AckConfig \<Rightarrow> HpPath \<Rightarrow> double \<Rightarrow> u64 \<Rightarrow> u32 \<Rightarrow> (u64 \<times> u32) option" where
  "hp_react c q u cur stage =
    (case div_by u (m_targetUtil c) of None \<Rightarrow> None
     | Some x \<Rightarrow>
        map_option (\<lambda>(r, st). (clamp_rate c q r, st))
          (if x \<ge> 1 \<or> stage \<ge> m_miThresh c
           then map_option (\<lambda>r. (r + m_rai c, 0)) (Option.bind (div_by (dbl_of_word cur) x) to_rate)
           else Some (cur + m_rai c, stage + 1)))"

text \<open>The rate per hop: what each hop looked at would allow, and the least of all.\<close>
fun hp_per_hop :: "AckConfig \<Rightarrow> HpPath \<Rightarrow> nat set \<Rightarrow> Hpcc \<Rightarrow> nat list \<Rightarrow> u64 \<times> (nat \<rightharpoonup> u64 \<times> u32) \<Rightarrow> (u64 \<times> (nat \<rightharpoonup> u64 \<times> u32)) option" where
  "hp_per_hop c q updated h [] s = Some s"
| "hp_per_hop c q updated h (i # is) (new_rate, per_hop) =
    (if i \<in> updated
     then (case hp_react c q (hs_u (hp_hopState h i)) (hs_Rc (hp_hopState h i)) (hs_incStage (hp_hopState h i)) of None \<Rightarrow> None
       | Some (r, st) \<Rightarrow> hp_per_hop c q updated h is (if r < new_rate then r else new_rate, per_hop(i \<mapsto> (r, st))))
     else hp_per_hop c q updated h is
       (if hs_Rc (hp_hopState h i) < new_rate then hs_Rc (hp_hopState h i) else new_rate, per_hop))"

text \<open>The new rate for ChangeRate, if any hop was looked at.  With a rate per hop the code also
  copies an uninitialised variable to m\_incStage, which this mode never reads.\<close>
definition hp_update :: "AckConfig \<Rightarrow> HpPath \<Rightarrow> bool \<Rightarrow> IntHeader \<Rightarrow> Hpcc \<Rightarrow> (u64 option \<times> Hpcc) option" where
  "hp_update c q fast ih h =
    (case hp_hops c q fast ih [0..<unat (nhop ih)] (0, 0, {}, h) of None \<Rightarrow> None
     | Some (U, dt, updated, h) \<Rightarrow>
        if \<not> m_multipleRate c
        then (if updated = {} then Some (None, h)
          else let dt = (if dt > hq_baseRtt q then hq_baseRtt q else dt) in
            case mix_util q (hp_u h) U dt of None \<Rightarrow> None
            | Some v \<Rightarrow> let h = h\<lparr>hp_u := v\<rparr> in
              map_option (\<lambda>(r, st). (Some r, if fast then h else h\<lparr>hp_curRate := r, hp_incStage := st\<rparr>))
                (hp_react c q v (hp_curRate h) (hp_incStage h)))
        else map_option (\<lambda>(r, per_hop).
            (if updated = {} then None else Some r,
             if fast then h
             else h\<lparr>hp_curRate := (if updated = {} then hp_curRate h else r),
               hp_hopState := (\<lambda>i. case per_hop i of None \<Rightarrow> hp_hopState h i
                 | Some (r, st) \<Rightarrow> (hp_hopState h i)\<lparr>hs_Rc := r, hs_incStage := st\<rparr>)\<rparr>))
          (hp_per_hop c q updated h [0..<unat (nhop ih)] (hq_max_rate q, Map.empty)))"

text \<open>A header with more hops than the array holds is left aside, or fails the assertion of the
  first round trip.  The result is the rate given to ChangeRate, if it is called.\<close>
definition UpdateRateHp :: "AckConfig \<Rightarrow> HpPath \<Rightarrow> u64 \<Rightarrow> IntHeader \<Rightarrow> bool \<Rightarrow> Hpcc \<Rightarrow> (u64 option \<times> Hpcc) option" where
  "UpdateRateHp c q nxt ih fast h =
    (let next_seq = (ucast nxt :: u32) in
     if hp_lastUpdateSeq h = 0
     then (if unat (nhop ih) > maxHop then None
           else Some (None, h\<lparr>hp_lastUpdateSeq := next_seq, hp_hop := (\<lambda>i. if i < unat (nhop ih) then hop ih i else hp_hop h i)\<rparr>))
     else map_option (\<lambda>(r, h). (r, if \<not> fast \<and> next_seq > hp_lastUpdateSeq h then h\<lparr>hp_lastUpdateSeq := next_seq\<rparr> else h))
       (if unat (nhop ih) \<le> maxHop then hp_update c q fast ih h else Some (None, h)))"

definition HandleAckHp :: "AckConfig \<Rightarrow> HpPath \<Rightarrow> u64 \<Rightarrow> u32 \<Rightarrow> IntHeader \<Rightarrow> Hpcc \<Rightarrow> (u64 option \<times> Hpcc) option" where
  "HandleAckHp c q nxt ack_seq ih h =
    (if ack_seq > hp_lastUpdateSeq h then UpdateRateHp c q nxt ih False h
     else if m_fast_react c then UpdateRateHp c q nxt ih True h else Some (None, h))"

section \<open>The control that is configured\<close>

record CcAck =
  cc_hp :: Hpcc
  cc_tmly :: Timely
  cc_dctcp :: Dctcp

definition CcAck_start :: "u64 \<Rightarrow> (nat \<Rightarrow> IntHop) \<Rightarrow> CcAck" where
  "CcAck_start dev memory = \<lparr>cc_hp = Hpcc_start dev memory, cc_tmly = Timely_start dev, cc_dctcp = Dctcp_ctor\<rparr>"

text \<open>What an acknowledgement brings, and where the sender stands when it arrives.\<close>
record Ack =
  a_now :: u64
  a_nxt :: u64
  a_seq :: u32
  a_flags :: u16
  a_ih :: IntHeader

text \<open>The end of ReceiveAck: the rate it sets, if any.\<close>
definition HandleAckCc :: "AckConfig \<Rightarrow> u32 \<Rightarrow> HpPath \<Rightarrow> Ack \<Rightarrow> u64 \<times> CcAck \<Rightarrow> (u64 option \<times> CcAck) option" where
  "HandleAckCc c mode q a s =
    (let (rate, x) = s in
     if mode = 3 then map_option (\<lambda>(r, h). (r, x\<lparr>cc_hp := h\<rparr>)) (HandleAckHp c q (a_nxt a) (a_seq a) (a_ih a) (cc_hp x))
     else if mode = 7
     then map_option (\<lambda>(r, t). (Some r, x\<lparr>cc_tmly := t\<rparr>))
            (HandleAckTimely c (a_now a) (ih_ts (a_ih a)) (a_nxt a) (hq_max_rate q) (a_seq a) (rate, cc_tmly x))
     else if mode = 8
     then map_option (\<lambda>(r, d). (Some r, x\<lparr>cc_dctcp := d\<rparr>))
            (HandleAckDctcp c (a_nxt a) (hq_max_rate q) (a_seq a) (a_flags a) (rate, cc_dctcp x))
     else Some (None, x))"

fun ack_run :: "AckConfig \<Rightarrow> u32 \<Rightarrow> HpPath \<Rightarrow> Ack list \<Rightarrow> u64 \<times> CcAck \<Rightarrow> (u64 \<times> CcAck) option" where
  "ack_run c mode q [] s = Some s"
| "ack_run c mode q (a # as) s =
    Option.bind (HandleAckCc c mode q a s) (\<lambda>(r, x). ack_run c mode q as (case r of None \<Rightarrow> fst s | Some r \<Rightarrow> r, x))"

section \<open>Rates stay in range\<close>

definition ack_sane :: "AckConfig \<Rightarrow> HpPath \<Rightarrow> bool" where
  "ack_sane c q \<longleftrightarrow> unat (hq_max_rate q) \<le> 9007199254740992 \<and> m_minRate c \<le> hq_max_rate q \<and>
     unat (m_rai c) \<le> 9007199254740992 \<and> unat (m_rhai c) \<le> 9007199254740992 \<and> unat (m_dctcp_rai c) \<le> 9007199254740992 \<and>
     0 \<le> m_g c \<and> m_g c \<le> 1 \<and> fsub 1 (m_g c) = 1 - m_g c \<and> dbl (m_g c) = m_g c \<and>
     0 \<le> m_tmly_beta c \<and> m_tmly_beta c \<le> 1"

lemma ack_saneD:
  assumes "ack_sane c q"
  shows "unat (hq_max_rate q) \<le> 9007199254740992" "m_minRate c \<le> hq_max_rate q" "unat (m_rai c) \<le> 9007199254740992"
    "unat (m_rhai c) \<le> 9007199254740992" "unat (m_dctcp_rai c) \<le> 9007199254740992" "0 \<le> m_g c" "m_g c \<le> 1"
    "fsub 1 (m_g c) = 1 - m_g c" "dbl (m_g c) = m_g c" "0 \<le> m_tmly_beta c" "m_tmly_beta c \<le> 1"
  using assms by (simp_all add: ack_sane_def)

definition rate_ok :: "AckConfig \<Rightarrow> HpPath \<Rightarrow> u64 \<Rightarrow> bool" where
  "rate_ok c q r \<longleftrightarrow> m_minRate c \<le> r \<and> r \<le> hq_max_rate q"

lemma rate_exact: "ack_sane c q \<Longrightarrow> rate_ok c q r \<Longrightarrow> unat r \<le> 9007199254740992"
  by (simp add: rate_ok_def ack_sane_def word_le_nat_alt)

lemma raised_ok:
  assumes "ack_sane c q" "rate_ok c q r" "unat a \<le> 9007199254740992"
  shows "rate_ok c q (if r + a > hq_max_rate q then hq_max_rate q else r + a)" "rate_ok c q (min (hq_max_rate q) (r + a))"
proof -
  have "unat (r + a) = unat r + unat a" using rate_exact[OF assms(1,2)] assms(3) by (simp add: unat_add_lt)
  then have "r \<le> r + a" by (simp add: word_le_nat_alt)
  then show "rate_ok c q (if r + a > hq_max_rate q then hq_max_rate q else r + a)" "rate_ok c q (min (hq_max_rate q) (r + a))"
    using assms(2) ack_saneD(2)[OF assms(1)] by (auto simp: rate_ok_def min_def not_less)
qed

lemma lowered_ok:
  assumes "ack_sane c q" "rate_ok c q r" "0 \<le> x" "x \<le> 1"
  shows "rate_ok c q (max (m_minRate c) (rate_mul r x))"
  using rate_mul_le[OF rate_exact[OF assms(1,2)] assms(3,4)] assms(2) ack_saneD(2)[OF assms(1)]
  by (auto simp: rate_ok_def max_def)

text \<open>A double factor between 0 and 1 of a rate is a rate.\<close>
lemma to_rate_mul:
  assumes "ack_sane c q" "rate_ok c q r" "0 \<le> x" "x \<le> 1"
  shows "to_rate (fmul (dbl_of_word r) x) = Some (rate_mul r x)"
proof -
  define n where "n = unat r"
  have n: "n \<le> 9007199254740992" using rate_exact[OF assms(1,2)] by (simp add: n_def)
  have "of_nat n * x \<le> of_nat n" using assms(3,4) mult_left_le[of x "of_nat n"] by simp
  then have le: "dbl (of_nat n * x) \<le> of_nat n" using dbl_mono dbl_of_nat[OF n] by metis
  have "(of_nat n :: rat) \<le> of_nat 9007199254740992" using n by (simp only: of_nat_le_iff)
  then have "dbl (of_nat n * x) < 2 ^ 64" using le by simp
  moreover have "0 \<le> dbl (of_nat n * x)" using assms(3) by (simp add: dbl_nonneg)
  ultimately show ?thesis
    using dbl_of_word_exact[of r] n unfolding to_rate_def rate_mul_def fmul_def n_def by simp
qed

subsection \<open>DCTCP\<close>

lemma marked_fraction_bounds: "0 \<le> marked_fraction n b \<and> marked_fraction n b \<le> 1"
  by (auto simp: marked_fraction_def Let_def fdiv_nonneg)

text \<open>The moving average of two numbers between 0 and 1.\<close>
lemma average_bounds:
  assumes s: "ack_sane c q" and a: "0 \<le> a" "a \<le> 1" and x: "0 \<le> x" "x \<le> 1"
  shows "0 \<le> fadd (fmul (fsub 1 (m_g c)) a) (fmul (m_g c) x) \<and> fadd (fmul (fsub 1 (m_g c)) a) (fmul (m_g c) x) \<le> 1"
proof -
  have g: "0 \<le> 1 - m_g c" "dbl (1 - m_g c) = 1 - m_g c" using ack_saneD(7,8)[OF s] by (simp_all add: fsub_def)
  have "(1 - m_g c) * a \<le> 1 - m_g c" using g(1) a mult_left_le[of a "1 - m_g c"] by simp
  then have A: "dbl ((1 - m_g c) * a) \<le> 1 - m_g c" using dbl_mono g(2) by metis
  have "m_g c * x \<le> m_g c" using ack_saneD(6)[OF s] x mult_left_le[of x "m_g c"] by simp
  then have B: "dbl (m_g c * x) \<le> m_g c" using dbl_mono ack_saneD(9)[OF s] by metis
  have pos: "0 \<le> dbl ((1 - m_g c) * a)" "0 \<le> dbl (m_g c * x)"
    using g(1) a x ack_saneD(6)[OF s] by (simp_all add: dbl_nonneg)
  have "dbl (dbl ((1 - m_g c) * a) + dbl (m_g c * x)) \<le> dbl 1" using A B by (intro dbl_mono) linarith
  then show ?thesis using pos ack_saneD(8)[OF s] by (simp add: fadd_def fmul_def dbl_nonneg)
qed

definition dctcp_ok :: "Dctcp \<Rightarrow> bool" where
  "dctcp_ok d \<longleftrightarrow> 0 \<le> dc_alpha d \<and> dc_alpha d \<le> 1"

lemma dctcp_alpha_ok:
  "ack_sane c q \<Longrightarrow> dctcp_ok d \<Longrightarrow> dctcp_alpha c nxt n d = Some d' \<Longrightarrow> dctcp_ok d'"
  using average_bounds marked_fraction_bounds by (auto simp: dctcp_alpha_def dctcp_ok_def Let_def split: if_splits)

lemma dctcp_keeps:
  assumes s: "ack_sane c q" and r: "rate_ok c q rate" and d: "dctcp_ok d"
    and h: "HandleAckDctcp c nxt (hq_max_rate q) n flags (rate, d) = Some (rate', d')"
  shows "rate_ok c q rate' \<and> dctcp_ok d'"
proof -
  let ?cnp = "drop_bit 0 flags AND 1 \<noteq> 0"
  define d0 where "d0 = (if ?cnp then d\<lparr>dc_ecnCnt := dc_ecnCnt d + 1\<rparr> else d)"
  define new where "new = (n > dc_lastUpdateSeq d0)"
  have d0: "dctcp_ok d0" using d by (simp add: d0_def dctcp_ok_def)
  note unfolded = h[unfolded HandleAckDctcp_def Let_def prod.case, folded d0_def, folded new_def]
  obtain d1 where d1: "(if new then dctcp_alpha c nxt n d0 else Some d0) = Some d1"
    using unfolded by (cases "if new then dctcp_alpha c nxt n d0 else Some d0") (simp_all only: option.case option.distinct)
  have ok1: "dctcp_ok d1" using d1 d0 dctcp_alpha_ok[OF s] by (auto split: if_splits)
  define d2 where "d2 = (if dc_caState d1 = 1 \<and> n > dc_highSeq d1 then d1\<lparr>dc_caState := 0\<rparr> else d1)"
  have ok2: "dctcp_ok d2" using ok1 by (simp add: d2_def dctcp_ok_def)
  define r3 where "r3 = (if ?cnp \<and> dc_caState d2 = 0 then max (m_minRate c) (rate_mul rate (fsub 1 (fdiv (dc_alpha d2) 2))) else rate)"
  define d3 where "d3 = (if ?cnp \<and> dc_caState d2 = 0 then d2\<lparr>dc_caState := 1, dc_highSeq := ucast nxt\<rparr> else d2)"
  have r3: "rate_ok c q r3" using r ok2 cut_factor[of "dc_alpha d2"] lowered_ok[OF s r] by (simp add: r3_def dctcp_ok_def)
  have ok3: "dctcp_ok d3" using ok2 by (simp add: d3_def dctcp_ok_def)
  have "HandleAckDctcp c nxt (hq_max_rate q) n flags (rate, d)
      = Some (if dc_caState d3 = 0 \<and> new then min (hq_max_rate q) (r3 + m_dctcp_rai c) else r3, d3)"
    unfolding HandleAckDctcp_def Let_def prod.case d0_def[symmetric] new_def[symmetric] d1 option.case d2_def[symmetric]
    by (simp add: r3_def d3_def)
  then have "d' = d3" "rate' = (if dc_caState d3 = 0 \<and> new then min (hq_max_rate q) (r3 + m_dctcp_rai c) else r3)"
    using h by simp_all
  then show ?thesis using ok3 r3 raised_ok(2)[OF s r3 ack_saneD(5)[OF s]] by simp
qed

subsection \<open>TIMELY\<close>

lemma timely_factor_bounds:
  assumes s: "ack_sane c q" and x: "timely_factor c rtt g = Some x"
  shows "0 \<le> x \<and> x \<le> 1"
proof -
  have one: "0 \<le> fsub 1 y \<and> fsub 1 y \<le> 1" if "0 \<le> y" "y \<le> 1" for y
    using that dbl_mono[of "1 - y" 1] by (simp add: fsub_def dbl_nonneg)
  show ?thesis
  proof (cases "rtt > m_tmly_THigh c")
    case True
    define y where "y = fdiv (dbl_of_word (m_tmly_THigh c)) (dbl_of_word rtt)"
    have "uint (m_tmly_THigh c) \<le> uint rtt" using True by (simp add: word_less_def)
    then have le: "dbl_of_word (m_tmly_THigh c) \<le> dbl_of_word rtt"
      unfolding dbl_of_word_def by (intro dbl_mono) (simp only: of_int_le_iff)
    have "0 < dbl_of_word rtt \<or> dbl_of_word rtt = 0" by (metis dbl_of_word_nonneg order_le_less)
    then have "dbl_of_word (m_tmly_THigh c) / dbl_of_word rtt \<le> 1" using le by (auto simp: divide_le_eq_1)
    then have "0 \<le> y \<and> y \<le> 1" using dbl_mono[of _ 1] by (simp add: y_def fdiv_def dbl_nonneg)
    then have z: "0 \<le> fsub 1 y \<and> fsub 1 y \<le> 1" using one by blast
    have "m_tmly_beta c * fsub 1 y \<le> 1" using z ack_saneD(10,11)[OF s] by (simp add: mult_le_one)
    then have "0 \<le> fmul (m_tmly_beta c) (fsub 1 y) \<and> fmul (m_tmly_beta c) (fsub 1 y) \<le> 1"
      using z ack_saneD(10)[OF s] dbl_mono[of _ 1] by (simp add: fmul_def dbl_nonneg)
    then have "0 \<le> fsub 1 (fmul (m_tmly_beta c) (fsub 1 y)) \<and> fsub 1 (fmul (m_tmly_beta c) (fsub 1 y)) \<le> 1" using one by blast
    then show ?thesis using x True by (auto simp: timely_factor_def y_def[symmetric] split: if_splits)
  next
    case False
    then have x': "x = (let z = fsub 1 (fmul (m_tmly_beta c) g) in if z < 0 then 0 else z)" "0 < g"
      using x by (auto simp: timely_factor_def Let_def split: if_splits)
    have "0 \<le> fmul (m_tmly_beta c) g" using x'(2) ack_saneD(10)[OF s] by (simp add: fmul_nonneg)
    then have "fsub 1 (fmul (m_tmly_beta c) g) \<le> 1" using dbl_mono[of _ 1] by (simp add: fsub_def)
    then show ?thesis using x'(1) by (simp add: Let_def)
  qed
qed

lemma timely_rate_ok:
  assumes s: "ack_sane c q" and r: "rate_ok c q (tm_curRate t)"
  shows "\<exists>r'. timely_rate c (hq_max_rate q) (timely_factor c rtt g) t = Some r' \<and> rate_ok c q r'"
proof (cases "timely_factor c rtt g")
  case None
  then show ?thesis using raised_ok(1)[OF s r] ack_saneD(3,4)[OF s] by (simp add: timely_rate_def Let_def)
next
  case (Some x)
  have "0 \<le> x" "x \<le> 1" using timely_factor_bounds[OF s Some] by simp_all
  then show ?thesis using Some to_rate_mul[OF s r] lowered_ok[OF s r] by (simp add: timely_rate_def)
qed

lemma timely_branches:
  assumes "map_option (\<lambda>(rate, t). (rate, if b t then t\<lparr>tm_lastUpdateSeq := n, tm_lastRtt := m\<rparr> else t))
      (case X of None \<Rightarrow> None | Some g \<Rightarrow> (case Y g of None \<Rightarrow> None | Some r \<Rightarrow> Some (r, if us then t else upd g r))) = Some (rate', t')"
    "\<And>g r. tm_curRate (upd g r) = r"
  shows "\<exists>g. Y g = Some rate' \<and> (tm_curRate t' = rate' \<or> tm_curRate t' = tm_curRate t)"
  using assms by (auto split: option.splits if_splits)

lemma timely_shape:
  assumes "UpdateRateTimely c now ts nxt max_rate us (rate, t) = Some (rate', t')"
  shows "(rate' = rate \<and> tm_curRate t' = tm_curRate t) \<or>
    (\<exists>g. timely_rate c max_rate (timely_factor c (now - ts) g) t = Some rate' \<and> (tm_curRate t' = rate' \<or> tm_curRate t' = tm_curRate t))"
proof (cases "tm_lastUpdateSeq t = 0")
  case True
  then show ?thesis using assms by (auto simp: UpdateRateTimely_def Let_def split: if_splits)
next
  case False
  show ?thesis
    using assms[unfolded UpdateRateTimely_def Let_def prod.case if_not_P[OF False]]
    by (intro disjI2, elim timely_branches) simp
qed

lemma timely_keeps:
  assumes s: "ack_sane c q" and r: "rate_ok c q rate" "rate_ok c q (tm_curRate t)"
    and h: "HandleAckTimely c now ts nxt (hq_max_rate q) n (rate, t) = Some (rate', t')"
  shows "rate_ok c q rate' \<and> rate_ok c q (tm_curRate t')"
proof (cases "n > tm_lastUpdateSeq t")
  case True
  then have "UpdateRateTimely c now ts nxt (hq_max_rate q) False (rate, t) = Some (rate', t')"
    using h by (simp add: HandleAckTimely_def)
  from timely_shape[OF this] show ?thesis using r timely_rate_ok[OF s r(2)] by (metis option.inject)
qed (use h r in \<open>simp add: HandleAckTimely_def\<close>)

subsection \<open>HPCC\<close>

definition hpcc_ok :: "AckConfig \<Rightarrow> HpPath \<Rightarrow> Hpcc \<Rightarrow> bool" where
  "hpcc_ok c q h \<longleftrightarrow> rate_ok c q (hp_curRate h) \<and> hp_incStage h \<le> m_miThresh c \<and>
     (\<forall>i. rate_ok c q (hs_Rc (hp_hopState h i)) \<and> hs_incStage (hp_hopState h i) \<le> m_miThresh c)"

lemma hops_keep:
  "hpcc_ok c q h \<Longrightarrow> hp_hops c q fast ih is (U, dt, up, h) = Some (U', dt', up', h') \<Longrightarrow> hpcc_ok c q h'"
proof (induction "is" arbitrary: U dt up h)
  case (Cons i js)
  have "hpcc_ok c q (h\<lparr>hp_hop := x\<rparr>)" "hpcc_ok c q (h\<lparr>hp_hopState := (hp_hopState h)(i := (hp_hopState h i)\<lparr>hs_u := v\<rparr>), hp_hop := x\<rparr>)" for x v
    using Cons.prems(1) by (simp_all add: hpcc_ok_def)
  then show ?case using Cons.prems(2) Cons.IH Cons.prems(1) by (simp add: Let_def split: if_splits option.splits; blast)
qed simp

lemma clamp_ok: "ack_sane c q \<Longrightarrow> rate_ok c q (clamp_rate c q r)"
  using ack_saneD(2)[of c q] by (auto simp: clamp_rate_def rate_ok_def Let_def)

lemma react_ok:
  assumes "ack_sane c q" "stage \<le> m_miThresh c" "hp_react c q u cur stage = Some (r, st)"
  shows "rate_ok c q r \<and> st \<le> m_miThresh c"
proof -
  have "stage + 1 \<le> m_miThresh c" if "\<not> stage \<ge> m_miThresh c" using that by (simp add: inc_le)
  then show ?thesis using assms(3) clamp_ok[OF assms(1)]
    by (auto simp: hp_react_def split: option.splits if_splits)
qed

lemma per_hop_ok:
  "ack_sane c q \<Longrightarrow> hpcc_ok c q h \<Longrightarrow> rate_ok c q r0 \<Longrightarrow> (\<And>i r st. m0 i = Some (r, st) \<Longrightarrow> rate_ok c q r \<and> st \<le> m_miThresh c) \<Longrightarrow>
   hp_per_hop c q up h is (r0, m0) = Some (r', m') \<Longrightarrow>
   rate_ok c q r' \<and> (\<forall>i r st. m' i = Some (r, st) \<longrightarrow> rate_ok c q r \<and> st \<le> m_miThresh c)"
proof (induction "is" arbitrary: r0 m0)
  case (Cons i js)
  have i: "rate_ok c q (hs_Rc (hp_hopState h i))" "hs_incStage (hp_hopState h i) \<le> m_miThresh c"
    using Cons.prems(2) by (simp_all add: hpcc_ok_def)
  show ?case
  proof (cases "i \<in> up")
    case True
    obtain r st where rs: "hp_react c q (hs_u (hp_hopState h i)) (hs_Rc (hp_hopState h i)) (hs_incStage (hp_hopState h i)) = Some (r, st)"
      "hp_per_hop c q up h js (if r < r0 then r else r0, m0(i \<mapsto> (r, st))) = Some (r', m')"
      using Cons.prems(5) True by (auto split: option.splits)
    have "rate_ok c q r \<and> st \<le> m_miThresh c" by (rule react_ok[OF Cons.prems(1) i(2) rs(1)])
    then show ?thesis using Cons.prems(3,4) by (intro Cons.IH[OF Cons.prems(1,2) _ _ rs(2)]) (auto split: if_splits)
  next
    case False
    then have "hp_per_hop c q up h js (if hs_Rc (hp_hopState h i) < r0 then hs_Rc (hp_hopState h i) else r0, m0) = Some (r', m')"
      using Cons.prems(5) by simp
    from Cons.IH[OF Cons.prems(1,2) _ Cons.prems(4) this] show ?thesis using Cons.prems(3) i(1) by simp
  qed
qed auto

lemma hp_update_ok:
  assumes s: "ack_sane c q" and h: "hpcc_ok c q h" and u: "hp_update c q fast ih h = Some (r, h')"
  shows "hpcc_ok c q h' \<and> (\<forall>x. r = Some x \<longrightarrow> rate_ok c q x)"
proof -
  obtain U dt up h1 where l: "hp_hops c q fast ih [0..<unat (nhop ih)] (0, 0, {}, h) = Some (U, dt, up, h1)"
    using u by (auto simp: hp_update_def split: option.splits)
  have h1: "hpcc_ok c q h1" by (rule hops_keep[OF h l])
  have top: "rate_ok c q (hq_max_rate q)" using ack_saneD(2)[OF s] by (simp add: rate_ok_def)
  show ?thesis
  proof (cases "m_multipleRate c")
    case False
    show ?thesis
    proof (cases "up = {}")
      case True
      then show ?thesis using u l False h1 by (simp add: hp_update_def)
    next
      case up: False
      obtain v x st where v: "hp_react c q v (hp_curRate h1) (hp_incStage h1) = Some (x, st)" "r = Some x"
        "h' = (if fast then h1\<lparr>hp_u := v\<rparr> else h1\<lparr>hp_u := v, hp_curRate := x, hp_incStage := st\<rparr>)"
        using u l False up by (auto simp: hp_update_def Let_def split: option.splits)
      have "rate_ok c q x \<and> st \<le> m_miThresh c"
        by (rule react_ok[OF s _ v(1)]) (use h1 in \<open>simp add: hpcc_ok_def\<close>)
      then show ?thesis using v(2,3) h1 by (simp add: hpcc_ok_def)
    qed
  next
    case True
    obtain x m where m: "hp_per_hop c q up h1 [0..<unat (nhop ih)] (hq_max_rate q, Map.empty) = Some (x, m)"
      "r = (if up = {} then None else Some x)"
      "h' = (if fast then h1 else h1\<lparr>hp_curRate := (if up = {} then hp_curRate h1 else x),
         hp_hopState := (\<lambda>i. case m i of None \<Rightarrow> hp_hopState h1 i
           | Some (r, st) \<Rightarrow> (hp_hopState h1 i)\<lparr>hs_Rc := r, hs_incStage := st\<rparr>)\<rparr>)"
      using u l True by (auto simp: hp_update_def)
    have "rate_ok c q x \<and> (\<forall>i r st. m i = Some (r, st) \<longrightarrow> rate_ok c q r \<and> st \<le> m_miThresh c)"
      by (rule per_hop_ok[OF s h1 top _ m(1)]) simp
    then show ?thesis using m(2,3) h1 by (auto simp: hpcc_ok_def split: option.splits)
  qed
qed

lemma hpcc_keeps:
  assumes s: "ack_sane c q" and r: "hpcc_ok c q h" and h: "HandleAckHp c q nxt n ih h = Some (r, h')"
  shows "hpcc_ok c q h' \<and> (\<forall>x. r = Some x \<longrightarrow> rate_ok c q x)"
proof -
  have U: "hpcc_ok c q h' \<and> (\<forall>x. r = Some x \<longrightarrow> rate_ok c q x)" if up: "UpdateRateHp c q nxt ih fast h = Some (r, h')" for fast
  proof (cases "hp_lastUpdateSeq h = 0")
    case True
    then show ?thesis using up assms(2) by (auto simp: UpdateRateHp_def Let_def hpcc_ok_def split: if_splits)
  next
    case False
    obtain h1 where u: "(if unat (nhop ih) \<le> maxHop then hp_update c q fast ih h else Some (None, h)) = Some (r, h1)"
      "h' = (if \<not> fast \<and> (ucast nxt :: u32) > hp_lastUpdateSeq h1 then h1\<lparr>hp_lastUpdateSeq := ucast nxt\<rparr> else h1)"
      using up False by (auto simp: UpdateRateHp_def Let_def)
    have "hpcc_ok c q h1 \<and> (\<forall>y. r = Some y \<longrightarrow> rate_ok c q y)"
      using u(1) assms(2) hp_update_ok[OF s assms(2)] by (auto split: if_splits)
    then show ?thesis using u(2) by (auto simp: hpcc_ok_def)
  qed
  then show ?thesis using h assms(2) by (auto simp: HandleAckHp_def split: if_splits)
qed

section \<open>Any acknowledgements\<close>

definition cc_rates_ok :: "AckConfig \<Rightarrow> HpPath \<Rightarrow> u64 \<times> CcAck \<Rightarrow> bool" where
  "cc_rates_ok c q s \<longleftrightarrow> rate_ok c q (fst s) \<and> hpcc_ok c q (cc_hp (snd s)) \<and> rate_ok c q (tm_curRate (cc_tmly (snd s))) \<and>
     dctcp_ok (cc_dctcp (snd s))"

lemma ack_keeps:
  assumes "ack_sane c q" "cc_rates_ok c q s" "HandleAckCc c mode q a s = Some (r, x')"
  shows "cc_rates_ok c q (case r of None \<Rightarrow> fst s | Some r \<Rightarrow> r, x')"
proof -
  obtain rate x where s: "s = (rate, x)" by (cases s)
  have ok: "rate_ok c q rate" "hpcc_ok c q (cc_hp x)" "rate_ok c q (tm_curRate (cc_tmly x))" "dctcp_ok (cc_dctcp x)"
    using assms(2) by (simp_all add: cc_rates_ok_def s)
  consider (hp) "mode = 3" | (tm) "mode = 7" | (dc) "mode = 8" | (none) "mode \<noteq> 3 \<and> mode \<noteq> 7 \<and> mode \<noteq> 8" by blast
  then show ?thesis
  proof cases
    case hp
    then obtain h where h: "HandleAckHp c q (a_nxt a) (a_seq a) (a_ih a) (cc_hp x) = Some (r, h)" "x' = x\<lparr>cc_hp := h\<rparr>"
      using assms(3) by (auto simp: HandleAckCc_def s)
    show ?thesis using hpcc_keeps[OF assms(1) ok(2) h(1)] ok h(2) by (auto simp: cc_rates_ok_def s split: option.split)
  next
    case tm
    then obtain y t where t: "HandleAckTimely c (a_now a) (ih_ts (a_ih a)) (a_nxt a) (hq_max_rate q) (a_seq a) (rate, cc_tmly x) = Some (y, t)"
      "r = Some y" "x' = x\<lparr>cc_tmly := t\<rparr>" using assms(3) by (auto simp: HandleAckCc_def s)
    show ?thesis using timely_keeps[OF assms(1) ok(1,3) t(1)] ok t(2,3) by (simp add: cc_rates_ok_def)
  next
    case dc
    then obtain y d where d: "HandleAckDctcp c (a_nxt a) (hq_max_rate q) (a_seq a) (a_flags a) (rate, cc_dctcp x) = Some (y, d)"
      "r = Some y" "x' = x\<lparr>cc_dctcp := d\<rparr>" using assms(3) by (auto simp: HandleAckCc_def s)
    show ?thesis using dctcp_keeps[OF assms(1) ok(1,4) d(1)] ok d(2,3) by (simp add: cc_rates_ok_def)
  qed (use assms(2,3) in \<open>simp add: HandleAckCc_def s\<close>)
qed

lemma ack_run_keeps:
  "ack_sane c q \<Longrightarrow> cc_rates_ok c q s \<Longrightarrow> ack_run c mode q as s = Some s' \<Longrightarrow> cc_rates_ok c q s'"
  by (induction as arbitrary: s) (auto simp: bind_eq_Some_conv split: prod.splits dest: ack_keeps)

lemma cc_rates_start: "ack_sane c q \<Longrightarrow> cc_rates_ok c q (hq_max_rate q, CcAck_start (hq_max_rate q) memory)"
  using ack_saneD(2)[of c q]
  by (simp add: cc_rates_ok_def CcAck_start_def Hpcc_start_def Timely_start_def Dctcp_ctor_def hpcc_ok_def dctcp_ok_def rate_ok_def)

text \<open>C26: whatever the acknowledgements of a flow say - any sequence numbers, marks, time stamps and
  telemetry, in any order - HPCC, TIMELY and DCTCP keep its rate between the minimum and the line
  rate, HPCC also the rates it keeps for itself and per hop, with its stages never past the
  threshold, and DCTCP its fraction of marks between 0 and 1.\<close>
theorem ack_rates_bounded:
  assumes "ack_sane c q" "ack_run c mode q as (hq_max_rate q, CcAck_start (hq_max_rate q) memory) = Some (rate, s)"
  shows "m_minRate c \<le> rate \<and> rate \<le> hq_max_rate q \<and>
    m_minRate c \<le> hp_curRate (cc_hp s) \<and> hp_curRate (cc_hp s) \<le> hq_max_rate q \<and> hp_incStage (cc_hp s) \<le> m_miThresh c \<and>
    (\<forall>i. m_minRate c \<le> hs_Rc (hp_hopState (cc_hp s) i) \<and> hs_Rc (hp_hopState (cc_hp s) i) \<le> hq_max_rate q) \<and>
    0 \<le> dc_alpha (cc_dctcp s) \<and> dc_alpha (cc_dctcp s) \<le> 1"
  using ack_run_keeps[OF assms(1) cc_rates_start[OF assms(1)] assms(2)]
  by (simp add: cc_rates_ok_def rate_ok_def hpcc_ok_def dctcp_ok_def)

text \<open>DCTCP at 100 Gb/s: a marked acknowledgement halves the rate.\<close>
definition ack_defaults :: AckConfig where
  "ack_defaults = CcConfig.extend dcqcn_defaults \<lparr>c_mtu = 1000, m_dctcp_rai = 1000000000, m_tmly_alpha = 7 / 8, m_tmly_beta = 1 / 2,
     m_tmly_TLow = 50000, m_tmly_THigh = 500000, m_tmly_minRtt = 20000, m_targetUtil = 15 / 16, m_miThresh = 5,
     m_multipleRate = True, m_sampleFeedback = False, m_fast_react = True, c_intMulti = 1\<rparr>"

definition path_100g :: HpPath where "path_100g = \<lparr>hq_max_rate = line_rate, hq_win = 100000, hq_baseRtt = 8000\<rparr>"

lemma defaults_ack_sane: "ack_sane ack_defaults path_100g"
proof -
  have s: "fsub 1 (m_g dcqcn_defaults) = 1 - m_g dcqcn_defaults" "0 \<le> m_g dcqcn_defaults" "m_g dcqcn_defaults \<le> 1"
    using cc_saneD[OF defaults_sane] by blast+
  have "dbl (1 / 2 / 2 / 2 / 2) = 1 / 2 / 2 / 2 / 2"
    using rnd_half[of 1 53] rnd_half[of "1 / 2" 53] rnd_half[of "1 / 2 / 2" 53] rnd_half[of "1 / 2 / 2 / 2" 53] dbl_1
    unfolding dbl_def by simp
  then have "dbl (m_g dcqcn_defaults) = m_g dcqcn_defaults" by (simp add: dcqcn_defaults_def)
  then show ?thesis using s
    by (simp add: ack_sane_def ack_defaults_def path_100g_def line_rate_def CcConfig.defs dcqcn_defaults_def)
qed

theorem ack_rates_bounded_witness:
  "\<exists>s. ack_run ack_defaults 8 path_100g [\<lparr>a_now = 9000, a_nxt = 5000, a_seq = 1000, a_flags = 1, a_ih = IntHeader_empty\<rparr>]
      (line_rate, CcAck_start line_rate (\<lambda>_. hop IntHeader_empty 0)) = Some (50000000000, s) \<and>
    0 \<le> dc_alpha (cc_dctcp s) \<and> dc_alpha (cc_dctcp s) \<le> 1 \<and> m_minRate ack_defaults \<le> 50000000000"
proof -
  let ?a = "\<lparr>a_now = 9000, a_nxt = 5000, a_seq = 1000, a_flags = 1, a_ih = IntHeader_empty\<rparr>"
  let ?r = "ack_run ack_defaults 8 path_100g [?a] (hq_max_rate path_100g, CcAck_start (hq_max_rate path_100g) (\<lambda>_. hop IntHeader_empty 0))"
  have "rate_mul line_rate (1 / 2) = 50000000000" by (simp add: rate_mul_half rate_div_word line_rate_def)
  moreover have "max (100000000 :: u64) 50000000000 = 50000000000" by simp
  ultimately have "map_option fst ?r = Some 50000000000"
    by (simp add: HandleAckCc_def HandleAckDctcp_def dctcp_alpha_def CcAck_start_def Dctcp_ctor_def ack_defaults_def
        CcConfig.defs dcqcn_defaults_def path_100g_def half_of_one Let_def)
  then obtain s where s: "?r = Some (50000000000, s)" by auto
  from ack_rates_bounded[OF defaults_ack_sane s] show ?thesis using s by (simp add: path_100g_def)
qed

end
