(* ===== verification/AckTransport.thy ===== *)
theory AckTransport
  imports RdmaSeq RdmaSender NoticePoint AckRates
begin

text \<open>
  The transport of a host without credit, TLT off: ReceiveUdp, ReceiveAck, ReceiveCnp, RecoverQueue
  and HandleTimeout of \<^verbatim>\<open>point-to-point/model/rdma-hw.cc\<close>, with go-back-N or IRN and
  any of the rate controls.  First what they do to one queue pair, then the handlers on a host.
\<close>

section \<open>A data packet at the receiver\<close>

text \<open>The header of the acknowledgement.  Without IRN its last two fields are never set: raw.\<close>
definition ack_header :: "RdmaConfig \<Rightarrow> u32 \<Rightarrow> u32 \<times> u16 \<Rightarrow> nat \<Rightarrow> u32 \<Rightarrow> u32 \<Rightarrow> u8 \<Rightarrow> UdpView \<Rightarrow> qbbHeader" where
  "ack_header c mode raw x expected payload_size ecnbits v =
    (let (nack, nackSize) = (if \<not> h_irn c then raw else if x = 2 then (uv_seq v, ucast payload_size) else (0, 0));
         h = \<lparr>qb_sport = uv_dport v, qb_dport = uv_sport v, qb_flags = 0, qb_pg = uv_pg v, qb_seq = expected, qb_irn_nack = nack,
              qb_irn_nack_size = nackSize, qb_ih = uv_ih v\<rparr>
     in if ecnbits \<noteq> 0 \<and> mode \<noteq> 1 then qbbHeader_SetCnp h else h)"

lemma ack_header_bytes:
  "ack_packet_bytes im (h_irn c) mode raw x expected psize ecnbits v src dst ident =
    (let p = add_transport im (QbbL (ack_header c mode raw x expected psize ecnbits v)) (replicate (60 - 14 - 20 - qbbHeader_GetSerializedSize im) 0)
     in add_network (host_ip (if x = 1 then 0xFC else 0xFD) dst src ident p) \<lparr>ppp_protocol = 0x0021\<rparr> p)"
  by (simp add: ack_packet_bytes_def ack_header_def Let_def split: prod.split)

text \<open>ReceiveUdp once the receiving queue pair is known: the mark, the sequence check, and the
  acknowledgement with its protocol number, if there is one.\<close>
definition udp_arrives ::
  "RdmaConfig \<Rightarrow> u32 \<Rightarrow> u32 \<times> u16 \<Rightarrow> int \<Rightarrow> u8 \<Rightarrow> UdpView \<Rightarrow> u32 \<Rightarrow> int option \<Rightarrow> RdmaRxQueuePair \<times> NoticeState
   \<Rightarrow> ((u8 \<times> qbbHeader) option \<times> RdmaRxQueuePair \<times> NoticeState) option" where
  "udp_arrives c mode raw now ecnbits v payload_size fid s =
    (let (q, n) = (if mode = 1 then mark_arrives now ecnbits s else (count_mark ecnbits (fst s), snd s));
         q = q\<lparr>m_milestone_rx := h_ack_interval c\<rparr>;
         q = (if rx_flow_id q < 0 then (case fid of None \<Rightarrow> q | Some f \<Rightarrow> q\<lparr>rx_flow_id := f\<rparr>) else q)
     in case ReceiverCheckSeq c now (uv_seq v) payload_size q of None \<Rightarrow> None
      | Some (x, q) \<Rightarrow>
          Some (if x = 1 \<or> x = 2 \<or> x = 6
                then (Some (if x = 1 then 0xFC else 0xFD, ack_header c mode raw x (ReceiverNextExpectedSeq q) payload_size ecnbits v),
                      q\<lparr>rx_ipid := rx_ipid q + 1\<rparr>, n)
                else (None, q, n)))"

section \<open>An acknowledgement at the sender\<close>

definition recover_qp :: "RdmaQueuePair \<Rightarrow> RdmaQueuePair" where
  "recover_qp q = q\<lparr>snd_nxt := snd_una q\<rparr>"

definition catch_up :: "RdmaQueuePair \<Rightarrow> RdmaQueuePair" where
  "catch_up q = (if snd_nxt q < snd_una q then q\<lparr>snd_nxt := snd_una q\<rparr> else q)"

definition take_front :: "RdmaQueuePair \<Rightarrow> RdmaQueuePair" where
  "take_front q = (case peekFrontBlock (q_irn_sack q) of None \<Rightarrow> q
     | Some (sack_seq, sack_len) \<Rightarrow> if snd_una q = ucast sack_seq then q\<lparr>snd_una := snd_una q + ucast sack_len\<rparr> else q)"

text \<open>With IRN every acknowledgement is a negative one; the assertion is the first test.\<close>
definition irn_ack :: "u8 \<Rightarrow> qbbHeader \<Rightarrow> RdmaQueuePair \<Rightarrow> RdmaQueuePair option" where
  "irn_ack proto h q =
    (if proto \<noteq> 0xFD then None
     else let q = (if qb_seq h > q_irn_highest_ack q then q\<lparr>q_irn_highest_ack := qb_seq h\<rparr> else q) in
       case (if qb_irn_nack_size h \<noteq> 0 then sack (qb_irn_nack h) (ucast (qb_irn_nack_size h)) (q_irn_sack q) else Some (q_irn_sack q)) of
         None \<Rightarrow> None
       | Some l \<Rightarrow> let q = take_front (q\<lparr>q_irn_sack := l\<rparr>) in
           case discardUpTo (ucast (snd_una q)) (q_irn_sack q) of None \<Rightarrow> None
           | Some (_, l) \<Rightarrow> let q = catch_up (q\<lparr>q_irn_sack := l\<rparr>) in
               Some (if q_irn_recovery q \<and> snd_una q \<ge> ucast (q_irn_recovery_seq q) then q\<lparr>q_irn_recovery := False\<rparr> else q))"

text \<open>The block of ReceiveAck that moves the window; whether the queue pair is complete after it.\<close>
definition ack_block :: "RdmaConfig \<Rightarrow> u8 \<Rightarrow> qbbHeader \<Rightarrow> RdmaQueuePair \<Rightarrow> (bool \<times> RdmaQueuePair) option" where
  "ack_block c proto h q =
    (if h_ack_interval c = 0 then Some (False, q)
     else case (if \<not> h_backto0 c then Some (Acknowledge (ucast (qb_seq h)) q)
                else if h_chunk c = 0 then None
                else Some (Acknowledge (ucast (qb_seq h div h_chunk c * h_chunk c)) q)) of
         None \<Rightarrow> None
       | Some q \<Rightarrow> (case (if q_irn_enabled q then irn_ack proto h q else Some (catch_up q)) of None \<Rightarrow> None
           | Some q \<Rightarrow> (case IsFinished q of None \<Rightarrow> None
               | Some (fin, q) \<Rightarrow> Some (fin, if fin then q\<lparr>q_retransmit := False\<rparr> else q))))"

text \<open>The retransmission timer is restarted while something is in flight.\<close>
definition restart_timer :: "RdmaQueuePair \<Rightarrow> RdmaQueuePair option" where
  "restart_timer q =
    (case IsFinished q of None \<Rightarrow> None
     | Some (True, q) \<Rightarrow> Some q
     | Some (False, q) \<Rightarrow> map_option (\<lambda>f. if f > 0 then q\<lparr>q_retransmit := True\<rparr> else q) (GetOnTheFly q))"

definition ack_recovery :: "RdmaConfig \<Rightarrow> u8 \<Rightarrow> qbbHeader \<Rightarrow> RdmaQueuePair \<Rightarrow> RdmaQueuePair" where
  "ack_recovery c proto h q =
    (if h_irn c
     then (if qb_irn_nack_size h \<noteq> 0
           then (if \<not> q_irn_recovery q
                 then (recover_qp (q\<lparr>q_irn_recovery_seq := ucast (snd_nxt q)\<rparr>))\<lparr>q_irn_recovery := True\<rparr> else q)
           else if q_irn_recovery q then q\<lparr>q_irn_recovery := False\<rparr> else q)
     else if proto = 0xFD then recover_qp q else q)"

text \<open>What the handlers find outside the host configuration: the rate controls, the mode, the
  time on the wire of a packet at a rate, and the memory of a header that is not filled in.\<close>
record AckEnv =
  e_cc :: AckConfig
  e_mode :: u32
  e_now :: int
  e_txTime :: "u64 \<Rightarrow> u32 \<Rightarrow> int"
  e_raw :: "u32 \<times> u16"

definition ChangeRate :: "AckEnv \<Rightarrow> u64 \<Rightarrow> RdmaQueuePair \<Rightarrow> RdmaQueuePair" where
  "ChangeRate env new_rate q =
    (let sendingTime = e_txTime env (q_rate q) (q_lastPktSize q);
         new_sendingTime = e_txTime env new_rate (q_lastPktSize q)
     in q\<lparr>q_nextAvail := q_nextAvail q + new_sendingTime - sendingTime, q_rate := new_rate\<rparr>)"

definition path_of :: "RdmaQueuePair \<Rightarrow> HpPath" where
  "path_of q = \<lparr>hq_max_rate = q_max_rate q, hq_win = q_win q, hq_baseRtt = q_baseRtt q\<rparr>"

text \<open>HPCC sets the rate with ChangeRate, the others set the field.\<close>
definition ack_rate :: "AckEnv \<Rightarrow> qbbHeader \<Rightarrow> RdmaQueuePair \<times> CcAck \<Rightarrow> (bool \<times> RdmaQueuePair \<times> CcAck) option" where
  "ack_rate env h s =
    (let (q, x) = s in
     map_option (\<lambda>(r, x). case r of None \<Rightarrow> (False, q, x)
         | Some r \<Rightarrow> if e_mode env = 3 then (True, ChangeRate env r q, x) else (False, q\<lparr>q_rate := r\<rparr>, x))
       (HandleAckCc (e_cc env) (e_mode env) (path_of q)
          \<lparr>a_now = word_of_int (e_now env), a_nxt = snd_nxt q, a_seq = qb_seq h, a_flags = qb_flags h, a_ih = qb_ih h\<rparr> (q_rate q, x)))"

text \<open>ReceiveAck once the queue pair is known: whether it completes, whether the interface is told
  a new time to send, and the queue pair with its rate control.\<close>
definition ack_arrives ::
  "RdmaConfig \<Rightarrow> AckEnv \<Rightarrow> u8 \<Rightarrow> qbbHeader \<Rightarrow> RdmaQueuePair \<times> CcAck \<Rightarrow> (bool \<times> bool \<times> RdmaQueuePair \<times> CcAck) option" where
  "ack_arrives c env proto h s =
    (case ack_block c proto h (fst s) of None \<Rightarrow> None
     | Some (fin, q) \<Rightarrow> (case restart_timer q of None \<Rightarrow> None
         | Some q \<Rightarrow> map_option (\<lambda>s. (fin, s)) (ack_rate env h (ack_recovery c proto h q, snd s))))"

text \<open>HandleTimeout; the event that called it is over.  Its tests: the queue pair is done, or IRN
  runs on an interface with PFC.\<close>
definition timeout_expires :: "bool \<Rightarrow> RdmaQueuePair \<Rightarrow> RdmaQueuePair option" where
  "timeout_expires qbbEnabled q =
    (case IsFinished (q\<lparr>q_retransmit := False\<rparr>) of None \<Rightarrow> None
     | Some (True, q) \<Rightarrow> Some q
     | Some (False, q) \<Rightarrow> Some (if q_irn_enabled q \<and> qbbEnabled then q
         else recover_qp (if q_irn_enabled q then q\<lparr>q_irn_recovery := True\<rparr> else q)))"

section \<open>The handlers of a host\<close>

text \<open>A frame with its interface, addresses and identification; a call of the interface; a report.\<close>
datatype ack_output =
    AckFrame nat u8 u32 u32 u16 qbbHeader
  | CnpFrame nat u32 u32 u16 CnHeader
  | TriggerNic nat
  | NicNextAvail nat int
  | QpDone nat

text \<open>A host with what its queue pairs keep beside their common fields: the notices of the
  receiving ones, the DCQCN state and the other rate controls of the sending ones.\<close>
record AckHost =
  ah_hw :: RdmaHw
  ah_np :: "nat \<Rightarrow> NoticeState"
  ah_mlx :: "nat \<Rightarrow> Mlx"
  ah_cc :: "nat \<Rightarrow> CcAck"
  ah_out :: "ack_output list"

definition ah_emit :: "ack_output list \<Rightarrow> AckHost \<Rightarrow> AckHost" where
  "ah_emit os A = A\<lparr>ah_out := ah_out A @ os\<rparr>"

definition set_ah_rxq :: "nat \<Rightarrow> RdmaRxQueuePair \<Rightarrow> NoticeState \<Rightarrow> AckHost \<Rightarrow> AckHost" where
  "set_ah_rxq r q n A = A\<lparr>ah_hw := set_rxq r q (ah_hw A), ah_np := (ah_np A)(r := n)\<rparr>"

definition set_ah_qp :: "nat \<Rightarrow> RdmaQueuePair \<Rightarrow> AckHost \<Rightarrow> AckHost" where
  "set_ah_qp r q A = A\<lparr>ah_hw := set_qp r q (ah_hw A)\<rparr>"

text \<open>The frames of the notices that were logged on the way from n to n', the first with the
  identification of the queue pair before.\<close>
definition notice_frames :: "nat \<Rightarrow> RdmaRxQueuePair \<Rightarrow> NoticeState \<Rightarrow> NoticeState \<Rightarrow> ack_output list" where
  "notice_frames nic q n n' =
    concat (map (\<lambda>(i, x). [CnpFrame nic (rx_sip q) (rx_dip q) (rx_ipid q + of_nat i) (snd x), TriggerNic nic])
      (zip [0..<length (np_sent n')] (drop (length (np_sent n)) (np_sent n'))))"

text \<open>The interface is looked up when there is a frame to send.\<close>
definition frames_of :: "RdmaRxQueuePair \<Rightarrow> RdmaHw \<Rightarrow> (nat \<Rightarrow> ack_output list) \<Rightarrow> bool \<Rightarrow> ack_output list option" where
  "frames_of q hw frames wanted = (if wanted then map_option frames (GetNicIdxOfRxQp q True hw) else Some [])"

definition ReceiveUdp :: "AckEnv \<Rightarrow> u8 \<Rightarrow> u32 \<Rightarrow> u32 \<Rightarrow> UdpView \<Rightarrow> u32 \<Rightarrow> int option \<Rightarrow> AckHost \<Rightarrow> AckHost option" where
  "ReceiveUdp env ecnbits src dst v payload_size fid A =
    (case GetRxQp dst src (uv_dport v) (uv_sport v) (uv_pg v) True (ah_hw A) of
       (None, hw) \<Rightarrow> None
     | (Some r, hw) \<Rightarrow>
        let q = hw_rxqs hw r; n = ah_np A r in
        case udp_arrives (cfg hw) (e_mode env) (e_raw env) (e_now env) ecnbits v payload_size fid (q, n) of None \<Rightarrow> None
        | Some (ack, q', n') \<Rightarrow>
            case frames_of q' hw (\<lambda>nic. notice_frames nic q n n' @
                (case ack of None \<Rightarrow> [] | Some (proto, h) \<Rightarrow> [AckFrame nic proto dst src (rx_ipid q' - 1) h, TriggerNic nic]))
              (ack \<noteq> None \<or> np_sent n' \<noteq> np_sent n) of None \<Rightarrow> None
            | Some os \<Rightarrow> Some (ah_emit os (set_ah_rxq r q' n' (A\<lparr>ah_hw := hw\<rparr>))))"

definition NoticeTimeout :: "AckEnv \<Rightarrow> nat \<Rightarrow> AckHost \<Rightarrow> AckHost option" where
  "NoticeTimeout env r A =
    (let q = hw_rxqs (ah_hw A) r; n = ah_np A r; (q', n') = HandleDcqcnCnpTimer (e_now env) (q, n) in
     case frames_of q' (ah_hw A) (\<lambda>nic. notice_frames nic q n n') (np_sent n' \<noteq> np_sent n) of None \<Rightarrow> None
     | Some os \<Rightarrow> Some (ah_emit os (set_ah_rxq r q' n' A)))"

text \<open>A step of DCQCN on a queue pair; the rate is a field of the queue pair.\<close>
definition on_mlx :: "(Mlx \<Rightarrow> Mlx) \<Rightarrow> nat \<Rightarrow> AckHost \<Rightarrow> AckHost" where
  "on_mlx f r A =
    (let q = hw_qps (ah_hw A) r; x = f ((ah_mlx A r)\<lparr>m_rate := q_rate q\<rparr>)
     in set_ah_qp r (q\<lparr>q_rate := m_rate x\<rparr>) (A\<lparr>ah_mlx := (ah_mlx A)(r := x)\<rparr>))"

text \<open>A rate that was never set becomes the rate of the interface, in every control.\<close>
definition lazy_rate :: "AckEnv \<Rightarrow> nat \<Rightarrow> u64 \<Rightarrow> AckHost \<Rightarrow> AckHost" where
  "lazy_rate env r dev A =
    (let q = hw_qps (ah_hw A) r; x = ah_cc A r in
     if q_rate q \<noteq> 0 then A
     else let A = set_ah_qp r (q\<lparr>q_rate := dev\<rparr>) A in
       if e_mode env = 1 then A\<lparr>ah_mlx := (ah_mlx A)(r := (ah_mlx A r)\<lparr>m_targetRate := dev\<rparr>)\<rparr>
       else if e_mode env = 3
       then let h = (cc_hp x)\<lparr>hp_curRate := dev\<rparr>;
                h = (if m_multipleRate (e_cc env)
                     then h\<lparr>hp_hopState := (\<lambda>i. if i < maxHop then (hp_hopState h i)\<lparr>hs_Rc := dev\<rparr> else hp_hopState h i)\<rparr> else h)
            in A\<lparr>ah_cc := (ah_cc A)(r := x\<lparr>cc_hp := h\<rparr>)\<rparr>
       else if e_mode env = 7 then A\<lparr>ah_cc := (ah_cc A)(r := x\<lparr>cc_tmly := (cc_tmly x)\<lparr>tm_curRate := dev\<rparr>\<rparr>)\<rparr>
       else A)"

text \<open>A notice for class 1 is taken to be meant for TCP and ignored.\<close>
definition ReceiveCnp :: "AckEnv \<Rightarrow> CnHeader \<Rightarrow> AckHost \<Rightarrow> AckHost option" where
  "ReceiveCnp env h A =
    (if cn_qIndex h = 1 then Some A
     else case GetQp (cn_fid h) (ucast (cn_qIndex h)) (ah_hw A) of None \<Rightarrow> Some A
     | Some r \<Rightarrow> (case GetNicIdxOfQp (hw_qps (ah_hw A) r) (ah_hw A) of None \<Rightarrow> None
         | Some nic \<Rightarrow>
             let A = lazy_rate env r (hw_nicRate (ah_hw A) nic) A
             in Some (if e_mode env = 1 then on_mlx (cnp_received_mlx (CcConfig.truncate (e_cc env)) (e_now env)) r A else A)))"

text \<open>The host's QpComplete; in DCQCN mode the pending events of the rate control go first.\<close>
definition ack_complete :: "AckEnv \<Rightarrow> nat \<Rightarrow> AckHost \<Rightarrow> AckHost" where
  "ack_complete env r A =
    (let A = (if e_mode env = 1 then A\<lparr>ah_mlx := (ah_mlx A)(r := cancel_mlx (ah_mlx A r))\<rparr> else A)
     in ah_emit [QpDone r] (A\<lparr>ah_hw := QpComplete r (ah_hw A)\<rparr>))"

definition ReceiveAck :: "AckEnv \<Rightarrow> u8 \<Rightarrow> qbbHeader \<Rightarrow> AckHost \<Rightarrow> AckHost option" where
  "ReceiveAck env proto h A =
    (let hw = ah_hw A in
     case GetQp (qb_dport h) (qb_pg h) hw of None \<Rightarrow> Some A
     | Some r \<Rightarrow>
        let q = hw_qps hw r in
        if h_creditbouncer (cfg hw) \<and> q_enabled q then Some A
        else case GetNicIdxOfQp q hw of None \<Rightarrow> None
        | Some nic \<Rightarrow>
            (case ack_arrives (cfg hw) env proto h (q, ah_cc A r) of None \<Rightarrow> None
             | Some (fin, told, q, x) \<Rightarrow>
                 let A = (if fin then ack_complete env r A else A);
                     A = set_ah_qp r q (A\<lparr>ah_cc := (ah_cc A)(r := x)\<rparr>)
                 in Some (ah_emit ((if told then [NicNextAvail nic (q_nextAvail q)] else []) @ [TriggerNic nic]) A)))"

definition HandleTimeout :: "bool \<Rightarrow> nat \<Rightarrow> AckHost \<Rightarrow> AckHost option" where
  "HandleTimeout qbbEnabled r A =
    (let hw = ah_hw A; q = hw_qps hw r in
     if h_creditbouncer (cfg hw) \<and> q_enabled q then Some (set_ah_qp r (q\<lparr>q_retransmit := False\<rparr>) A)
     else case IsFinished q of None \<Rightarrow> None
     | Some (fin, _) \<Rightarrow>
        (case timeout_expires qbbEnabled q of None \<Rightarrow> None
         | Some q' \<Rightarrow>
            if fin then Some (set_ah_qp r q' A)
            else case GetNicIdxOfQp q hw of None \<Rightarrow> None
            | Some nic \<Rightarrow> Some (ah_emit (if q_irn_enabled q \<and> qbbEnabled then [] else [TriggerNic nic]) (set_ah_qp r q' A))))"

text \<open>The dispatch of Receive for the packets that carry no credit tag.\<close>
definition ReceivePlain :: "AckEnv \<Rightarrow> ParsedHeader \<Rightarrow> u32 \<Rightarrow> int option \<Rightarrow> AckHost \<Rightarrow> AckHost option" where
  "ReceivePlain env ch psize fid A =
    (case ch_l4 ch of
       L4Udp v \<Rightarrow> if ch_l3Prot ch = 0x11
         then ReceiveUdp env (GetIpv4EcnBits ch) (ch_sip ch) (ch_dip ch) v (psize - udp_header_size (cfg (ah_hw A))) fid A else Some A
     | L4Cnp h \<Rightarrow> if ch_l3Prot ch = 0xFF then ReceiveCnp env h A else Some A
     | L4Ack h \<Rightarrow> if ch_l3Prot ch = 0xFD \<or> ch_l3Prot ch = 0xFC then ReceiveAck env (ch_l3Prot ch) h A else Some A
     | _ \<Rightarrow> Some A)"

end
