(* ===== verification/FlowSender.thy ===== *)
theory FlowSender
  imports AckTransport RdmaSending
begin

text \<open>
  What the sending queue pair of a message without credit believes about the bytes received, and
  that ReceiveAck, HandleTimeout and GetNxtPacket of \<^verbatim>\<open>rdma-hw.cc\<close> keep it true: its first
  unacknowledged byte, its next byte and its table of selective acknowledgements are made of whole
  chunks, and cover only bytes received, if the acknowledgements say the truth.
\<close>

section \<open>Whole chunks\<close>

text \<open>Sets of bytes of a message of E bytes that hold a chunk of m bytes whole or not at all;
  numbers at which a chunk begins, or the end of the message.\<close>
definition aligned :: "nat \<Rightarrow> nat \<Rightarrow> nat set \<Rightarrow> bool" where
  "aligned m E A \<longleftrightarrow> A \<subseteq> {0..<E} \<and> (\<forall>x\<in>A. \<forall>y<E. y div m = x div m \<longrightarrow> y \<in> A)"

definition edge :: "nat \<Rightarrow> nat \<Rightarrow> nat \<Rightarrow> bool" where
  "edge m E x \<longleftrightarrow> x = E \<or> x < E \<and> m dvd x"

lemma aligned_closed [simp]:
  "aligned m E {}"
  "aligned m E A \<Longrightarrow> aligned m E B \<Longrightarrow> aligned m E (A \<union> B)"
  "aligned m E A \<Longrightarrow> aligned m E B \<Longrightarrow> aligned m E (A - B)"
  by (auto simp: aligned_def)

lemma edge_le: "edge m E x \<Longrightarrow> x \<le> E"
  by (auto simp: edge_def)

lemma edge_0 [simp]: "edge m E 0"
  by (auto simp: edge_def)

lemma div_below: "0 < m \<Longrightarrow> x < k * m \<Longrightarrow> y div m = x div m \<Longrightarrow> y < k * (m :: nat)"
  by (metis div_less_iff_less_mult)

lemma edge_aligned: "0 < m \<Longrightarrow> edge m E x \<Longrightarrow> aligned m E {0..<x}"
  by (auto simp: edge_def aligned_def dvd_def mult.commute intro: div_below)

text \<open>A set of whole chunks ends at an edge.\<close>
lemma aligned_end:
  assumes "aligned m E A" "x \<notin> A" "x = 0 \<or> x - 1 \<in> A"
  shows "edge m E x"
proof (cases x)
  case (Suc n)
  then have n: "n \<in> A" "n < E" using assms(1,3) by (auto simp: aligned_def)
  show ?thesis
  proof (cases "x = E")
    case False
    then have "x < E" using n Suc by simp
    then have "x div m \<noteq> n div m" using assms(1,2) n(1) by (auto simp: aligned_def)
    then have "x mod m = 0" using Suc by (simp add: div_Suc split: if_splits)
    then show ?thesis using \<open>x < E\<close> by (auto simp: edge_def)
  qed (simp add: edge_def)
qed simp

lemma edge_multiple: "edge m E (min E (j * m))"
  by (auto simp: edge_def min_def)

text \<open>An edge before the end of the message is the beginning of a chunk.\<close>
lemma edge_chunk:
  assumes "0 < m" "edge m E x" "x < E"
  obtains k where "x = k * m" "k < chunks_of m E"
  using assms by (auto simp: edge_def chunks_of_bound mult.commute elim!: dvdE)

lemma chunk_bytes_iff:
  assumes "0 < m"
  shows "x \<in> chunk_bytes m E k \<longleftrightarrow> x < E \<and> x div m = k"
proof -
  have "x div m = k \<longleftrightarrow> k * m \<le> x \<and> x < k * m + m"
    using assms div_nat_eqI[of m k x] div_times_less_eq_dividend[of x m] dividend_less_div_times[of m x]
    by (auto simp: mult.commute)
  moreover have "x < k * m + min m (E - k * m) \<longleftrightarrow> x < k * m + m \<and> x < E" if "k * m \<le> x"
    using that by linarith
  ultimately show ?thesis by (auto simp: chunk_bytes_def chunk_size_def)
qed

lemma chunk_aligned: "0 < m \<Longrightarrow> aligned m E (chunk_bytes m E k)"
  by (auto simp: chunk_bytes_iff aligned_def)

lemma received_aligned: "0 < m \<Longrightarrow> aligned m E (received_bytes m E K)"
  using chunk_aligned[of m E] unfolding received_bytes_def aligned_def by fast

section \<open>The sender\<close>

text \<open>What the sending queue pair believes is true of the set R of bytes received: all bytes below
  snd\_una and those of its table; its numbers and its blocks are made of whole chunks.\<close>
definition snd_base :: "RdmaConfig \<Rightarrow> nat \<Rightarrow> nat \<Rightarrow> nat set \<Rightarrow> RdmaQueuePair \<Rightarrow> bool" where
  "snd_base c m E R q \<longleftrightarrow> q_irn_enabled q = h_irn c \<and> unat (m_size q) = E \<and> canonical (q_irn_sack q) \<and>
     aligned m E (sack_bytes (q_irn_sack q)) \<and> sack_bytes (q_irn_sack q) \<subseteq> R \<and> {0..<unat (snd_una q)} \<subseteq> R \<and>
     edge m E (unat (snd_una q)) \<and> edge m E (unat (snd_nxt q))"

text \<open>Outside ReceiveAck it also sends from snd\_una on.\<close>
definition snd_ok :: "RdmaConfig \<Rightarrow> nat \<Rightarrow> nat \<Rightarrow> nat set \<Rightarrow> RdmaQueuePair \<Rightarrow> bool" where
  "snd_ok c m E R q \<longleftrightarrow> snd_base c m E R q \<and> snd_una q \<le> snd_nxt q"

lemma snd_mono: "snd_ok c m E R q \<Longrightarrow> R \<subseteq> R' \<Longrightarrow> snd_ok c m E R' q"
  by (auto simp: snd_ok_def snd_base_def)

text \<open>The fields the belief depends on.\<close>
definition same_belief :: "RdmaQueuePair \<Rightarrow> RdmaQueuePair \<Rightarrow> bool" where
  "same_belief q q' \<longleftrightarrow> q_irn_enabled q' = q_irn_enabled q \<and> m_size q' = m_size q \<and> q_irn_sack q' = q_irn_sack q \<and>
     snd_una q' = snd_una q \<and> snd_nxt q' = snd_nxt q"

lemma same_belief_ok:
  "same_belief q q' \<Longrightarrow> snd_base c m E R q' = snd_base c m E R q"
  "same_belief q q' \<Longrightarrow> snd_ok c m E R q' = snd_ok c m E R q"
  by (simp_all add: same_belief_def snd_ok_def snd_base_def)

text \<open>The front block of a table of whole chunks.\<close>
lemma front_block:
  assumes "canonical bs" "aligned m E (sack_bytes bs)" "peekFrontBlock bs = Some (b, l)"
  shows "unat (b + l) = bstop (b, l)" "{unat b..<bstop (b, l)} \<subseteq> sack_bytes bs" "edge m E (bstop (b, l))" "bstop (b, l) = unat b + unat l"
    "bstop (b, l) < 2 ^ 32"
proof -
  note P = peekFront_least[OF assms(1,3)]
  then have ok: "block_ok (b, l)" by blast
  note K = block_okD[OF ok]
  show "unat (b + l) = bstop (b, l)" by (rule K(1))
  show s: "{unat b..<bstop (b, l)} \<subseteq> sack_bytes bs" using P by (simp add: bfirst_def)
  have "bstop (b, l) - 1 \<in> sack_bytes bs" using s K(2) by (auto simp: bfirst_def)
  then show "edge m E (bstop (b, l))" using P by (intro aligned_end[OF assms(2)]) auto
  show "bstop (b, l) = unat b + unat l" by (simp add: bstop_def)
  show "bstop (b, l) < 2 ^ 32" using ok by (simp add: block_ok_def)
qed

lemma discard_ok:
  assumes "0 < m" "canonical bs" "aligned m E (sack_bytes bs)" "edge m E (unat a)"
  obtains n l where "discardUpTo a bs = Some (n, l)" "canonical l" "aligned m E (sack_bytes l)" "sack_bytes l \<subseteq> sack_bytes bs"
proof -
  obtain n l where l: "discardUpTo a bs = Some (n, l)" "canonical l" "sack_bytes l = sack_bytes bs - {0..<unat a}"
    using discardUpTo_exact[OF assms(2), of a] by blast
  show ?thesis using assms(3) edge_aligned[OF assms(1,4)] l(3) by (intro that[OF l(1,2)]) auto
qed

lemma skip_sacked_ok:
  assumes "0 < m" "snd_base c m E R q"
  obtains q' where "skip_sacked q = Some q'" "snd_base c m E R q'" "snd_una q' = snd_una q" "m_size q' = m_size q" "snd_nxt q \<le> snd_nxt q'"
proof (cases "\<exists>b l. q_irn_enabled q \<and> peekFrontBlock (q_irn_sack q) = Some (b, l) \<and> snd_nxt q = ucast b")
  case True
  then obtain b l where b: "q_irn_enabled q" "peekFrontBlock (q_irn_sack q) = Some (b, l)" "snd_nxt q = ucast b" by blast
  have can: "canonical (q_irn_sack q)" "aligned m E (sack_bytes (q_irn_sack q))" using assms(2) by (simp_all add: snd_base_def)
  note F = front_block[OF can b(2)]
  define x where "x = snd_nxt q + ucast l"
  have x: "unat x = bstop (b, l)" using F(4,5) by (simp add: x_def b(3) unat_add_lt unat_ucast_up)
  have x32: "unat (ucast x :: u32) = bstop (b, l)" using F(5) x by (simp add: unsigned_ucast_eq take_bit_nat_eq_self)
  obtain n t where t: "discardUpTo (ucast x) (q_irn_sack q) = Some (n, t)" "canonical t" "aligned m E (sack_bytes t)"
    "sack_bytes t \<subseteq> sack_bytes (q_irn_sack q)" using discard_ok[OF assms(1) can] F(3) x32 by metis
  have "snd_nxt q \<le> x" using F(4) x by (simp add: word_le_nat_alt b(3) unat_ucast_up)
  then show ?thesis using b t assms(2) F(3) x
    by (intro that[of "q\<lparr>snd_nxt := x, q_irn_sack := t\<rparr>"]) (auto simp: skip_sacked_def snd_base_def x_def Let_def)
next
  case False
  then have "skip_sacked q = Some q" by (auto simp: skip_sacked_def split: option.split)
  then show ?thesis using assms(2) by (intro that[of q]) auto
qed

lemma GetBytesLeft_ok:
  assumes "0 < m" "snd_ok c m E R q"
  obtains left q' where "GetBytesLeft q = Some (left, q')" "snd_ok c m E R q'" "left = (if m_size q' \<ge> snd_nxt q' then m_size q' - snd_nxt q' else 0)"
proof -
  obtain q' where "skip_sacked q = Some q'" "snd_base c m E R q'" "snd_una q' = snd_una q" "snd_nxt q \<le> snd_nxt q'"
    using skip_sacked_ok[OF assms(1), of c E R q] assms(2) by (auto simp: snd_ok_def)
  then show ?thesis using assms(2) by (intro that[of _ q']) (auto simp: GetBytesLeft_def snd_ok_def)
qed

lemma IsFinished_ok:
  assumes "0 < m" "snd_ok c m E R q"
  obtains fin q' where "IsFinished q = Some (fin, q')" "snd_ok c m E R q'" "fin \<longleftrightarrow> unat (snd_una q') = E"
proof -
  obtain q' where q': "skip_sacked q = Some q'" "snd_base c m E R q'" "snd_una q' = snd_una q" "snd_nxt q \<le> snd_nxt q'"
    using skip_sacked_ok[OF assms(1), of c E R q] assms(2) by (auto simp: snd_ok_def)
  then have "snd_ok c m E R q'" using assms(2) by (auto simp: snd_ok_def)
  moreover have "m_size q' \<le> snd_una q' \<longleftrightarrow> unat (snd_una q') = E"
    using q'(2) edge_le[of m E "unat (snd_una q')"] by (auto simp: snd_base_def word_le_nat_alt)
  ultimately show ?thesis using q' by (intro that[of _ q']) (auto simp: IsFinished_def)
qed

lemma catch_up_ok: "snd_base c m E R q \<Longrightarrow> snd_ok c m E R (catch_up q)"
  by (auto simp: catch_up_def snd_ok_def snd_base_def)

lemma recover_ok: "snd_ok c m E R q \<Longrightarrow> snd_ok c m E R (recover_qp q)"
  by (auto simp: recover_qp_def snd_ok_def snd_base_def)

lemma Acknowledge_ok:
  "snd_base c m E R q \<Longrightarrow> edge m E (unat a) \<Longrightarrow> {0..<unat a} \<subseteq> R \<Longrightarrow> snd_base c m E R (Acknowledge a q)"
  by (auto simp: Acknowledge_def snd_base_def)

lemma take_front_ok:
  assumes "snd_base c m E R q"
  shows "snd_base c m E R (take_front q)"
proof (cases "\<exists>b l. peekFrontBlock (q_irn_sack q) = Some (b, l) \<and> snd_una q = ucast b")
  case True
  then obtain b l where b: "peekFrontBlock (q_irn_sack q) = Some (b, l)" "snd_una q = ucast b" by blast
  have can: "canonical (q_irn_sack q)" "aligned m E (sack_bytes (q_irn_sack q))" using assms by (simp_all add: snd_base_def)
  note F = front_block[OF can b(1)]
  have x: "unat (snd_una q + ucast l) = bstop (b, l)" using F(4,5) by (simp add: b(2) unat_add_lt unat_ucast_up)
  have u: "unat (snd_una q) = unat b" by (simp add: b(2) unat_ucast_up)
  have "{0..<unat b} \<subseteq> R" "sack_bytes (q_irn_sack q) \<subseteq> R" using assms u by (simp_all add: snd_base_def)
  then have "{0..<bstop (b, l)} \<subseteq> R" using F(2) by (force simp: not_le)
  then show ?thesis using assms b F(3) x by (simp add: take_front_def snd_base_def)
next
  case False
  then have "take_front q = q" by (auto simp: take_front_def split: option.split)
  then show ?thesis using assms by simp
qed

text \<open>What an acknowledgement under way says is true of R.\<close>
definition ack_ok :: "RdmaConfig \<Rightarrow> nat \<Rightarrow> nat \<Rightarrow> nat set \<Rightarrow> u8 \<times> qbbHeader \<Rightarrow> bool" where
  "ack_ok c m E R a \<longleftrightarrow> edge m E (unat (qb_seq (snd a))) \<and> {0..<unat (qb_seq (snd a))} \<subseteq> R \<and>
     (h_irn c \<longrightarrow> fst a = 0xFD \<and>
        (let A = {unat (qb_irn_nack (snd a))..<unat (qb_irn_nack (snd a)) + unat (qb_irn_nack_size (snd a))}
         in aligned m E A \<and> A \<subseteq> R))"

lemma ack_mono: "ack_ok c m E R a \<Longrightarrow> R \<subseteq> R' \<Longrightarrow> ack_ok c m E R' a"
  by (auto simp: ack_ok_def Let_def)

lemma sack_ok:
  assumes "E < 2 ^ 32" "canonical bs" "aligned m E (sack_bytes bs)" "aligned m E {unat n..<unat n + unat z}" "z \<noteq> 0"
  obtains l where "sack n (ucast (z :: u16)) bs = Some l" "canonical l" "aligned m E (sack_bytes l)"
    "sack_bytes l = sack_bytes bs \<union> {unat n..<unat n + unat z}"
proof -
  have z: "unat (ucast z :: u32) = unat z" by (simp add: unat_ucast_up)
  have "0 < unat z" using assms(5) by (simp add: unat_gt_0)
  then have "unat n + unat z - 1 \<in> {unat n..<unat n + unat z}" by auto
  moreover have "{unat n..<unat n + unat z} \<subseteq> {0..<E}" using assms(4) by (simp add: aligned_def)
  ultimately have "unat n + unat z - 1 \<in> {0..<E}" by (rule rev_subsetD)
  then have "unat n + unat z - 1 < E" by simp
  then have "unat n + unat (ucast z :: u32) < 2 ^ 32" using assms(1) unfolding z by linarith
  from sack_exact[OF assms(2) this]
  obtain l where "sack n (ucast z) bs = Some l" "canonical l" "sack_bytes l = sack_bytes bs \<union> {unat n..<unat n + unat z}"
    unfolding z by blast
  then show ?thesis using that assms(3,4) by auto
qed

lemma irn_ack_ok:
  assumes m: "0 < m" "E < 2 ^ 32" and q: "snd_base c m E R q" and a: "ack_ok c m E R (proto, h)" and irn: "h_irn c"
  obtains q' where "irn_ack proto h q = Some q'" "snd_ok c m E R q'"
proof -
  define q1 where "q1 = (if qb_seq h > q_irn_highest_ack q then q\<lparr>q_irn_highest_ack := qb_seq h\<rparr> else q)"
  have q1: "snd_base c m E R q1" using q by (simp add: q1_def snd_base_def)
  let ?A = "{unat (qb_irn_nack h)..<unat (qb_irn_nack h) + unat (qb_irn_nack_size h)}"
  have A: "proto = 0xFD" "aligned m E ?A" "?A \<subseteq> R" using a irn by (simp_all add: ack_ok_def Let_def)
  have can: "canonical (q_irn_sack q1)" "aligned m E (sack_bytes (q_irn_sack q1))" using q1 by (simp_all add: snd_base_def)
  obtain l where l: "(if qb_irn_nack_size h \<noteq> 0 then sack (qb_irn_nack h) (ucast (qb_irn_nack_size h)) (q_irn_sack q1) else Some (q_irn_sack q1)) = Some l"
    "canonical l" "aligned m E (sack_bytes l)" "sack_bytes l \<subseteq> sack_bytes (q_irn_sack q1) \<union> ?A"
  proof (cases "qb_irn_nack_size h = 0")
    case False
    from sack_ok[OF m(2) can A(2) False] show ?thesis using that False by (metis order_refl)
  qed (use can that in auto)
  define q2 where "q2 = take_front (q1\<lparr>q_irn_sack := l\<rparr>)"
  have "sack_bytes l \<subseteq> R" using l(4) A(3) q1 by (auto simp: snd_base_def)
  then have q2: "snd_base c m E R q2" unfolding q2_def using q1 l by (intro take_front_ok) (simp add: snd_base_def)
  then have u: "unat (ucast (snd_una q2) :: u32) = unat (snd_una q2)"
    using edge_le[of m E "unat (snd_una q2)"] m(2) by (simp add: snd_base_def unsigned_ucast_eq take_bit_nat_eq_self)
  obtain n t where t: "discardUpTo (ucast (snd_una q2)) (q_irn_sack q2) = Some (n, t)" "canonical t" "aligned m E (sack_bytes t)"
    "sack_bytes t \<subseteq> sack_bytes (q_irn_sack q2)"
    using discard_ok[OF m(1), of "q_irn_sack q2" E "ucast (snd_una q2)"] q2 unfolding u snd_base_def by metis
  define q3 where "q3 = catch_up (q2\<lparr>q_irn_sack := t\<rparr>)"
  have q3: "snd_ok c m E R q3" unfolding q3_def using q2 t by (intro catch_up_ok) (auto simp: snd_base_def)
  define q4 where "q4 = (if q_irn_recovery q3 \<and> snd_una q3 \<ge> ucast (q_irn_recovery_seq q3) then q3\<lparr>q_irn_recovery := False\<rparr> else q3)"
  have "snd_ok c m E R q4" using q3 by (simp add: q4_def snd_ok_def snd_base_def)
  moreover have "irn_ack proto h q = Some q4"
    using A(1) l(1) t(1) by (simp add: irn_ack_def q1_def[symmetric] Let_def q2_def[symmetric] q3_def[symmetric] q4_def)
  ultimately show ?thesis by (intro that)
qed

text \<open>The block of ReceiveAck that moves the window, and the report of completion.\<close>
lemma ack_block_ok:
  assumes m: "0 < m" "E < 2 ^ 32" and q: "snd_ok c m E R q" and a: "ack_ok c m E R (proto, h)" and b: "\<not> h_backto0 c"
  obtains fin q' where "ack_block c proto h q = Some (fin, q')" "snd_ok c m E R q'" "fin \<longrightarrow> unat (snd_una q') = E"
proof (cases "h_ack_interval c = 0")
  case True
  then show ?thesis using q by (intro that[of False q]) (simp_all add: ack_block_def)
next
  case False
  define q1 where "q1 = Acknowledge (ucast (qb_seq h)) q"
  have "unat (ucast (qb_seq h) :: u64) = unat (qb_seq h)" by (simp add: unat_ucast_up)
  then have q1: "snd_base c m E R q1" unfolding q1_def using q a
    by (intro Acknowledge_ok) (simp_all add: snd_ok_def ack_ok_def)
  have e: "q_irn_enabled q1 = h_irn c" using q1 by (simp add: snd_base_def)
  obtain q2 where q2: "(if q_irn_enabled q1 then irn_ack proto h q1 else Some (catch_up q1)) = Some q2" "snd_ok c m E R q2"
  proof (cases "h_irn c")
    case True
    from irn_ack_ok[OF m q1 a True] show ?thesis using that True e by metis
  next
    case False
    then show ?thesis using that[of "catch_up q1"] catch_up_ok[OF q1] e by simp
  qed
  obtain fin q3 where q3: "IsFinished q2 = Some (fin, q3)" "snd_ok c m E R q3" "fin \<longleftrightarrow> unat (snd_una q3) = E"
    by (rule IsFinished_ok[OF m(1) q2(2)])
  define q4 where "q4 = (if fin then q3\<lparr>q_retransmit := False\<rparr> else q3)"
  have "same_belief q3 q4" by (simp add: q4_def same_belief_def)
  then have "snd_ok c m E R q4" "snd_una q4 = snd_una q3"
    using q3(2) by (simp_all only: same_belief_ok(2)) (simp add: same_belief_def)
  moreover have "ack_block c proto h q = Some (fin, q4)"
    unfolding ack_block_def q1_def[symmetric] if_not_P[OF False] if_P[OF b] option.case q2(1) q3(1) q4_def by simp
  ultimately show ?thesis using q3(3) by (intro that[of fin q4]) simp_all
qed

lemma restart_timer_ok:
  assumes "0 < m" "snd_ok c m E R q"
  obtains q' where "restart_timer q = Some q'" "snd_ok c m E R q'" "snd_una q' = snd_una q"
proof -
  obtain q1 where s: "skip_sacked q = Some q1" "snd_base c m E R q1" "snd_una q1 = snd_una q" "snd_nxt q \<le> snd_nxt q1"
    using skip_sacked_ok[OF assms(1), of c E R q] assms(2) by (auto simp: snd_ok_def)
  then have k: "snd_ok c m E R q1" using assms(2) order_trans[of "snd_una q" "snd_nxt q" "snd_nxt q1"] unfolding snd_ok_def by simp
  have g: "GetOnTheFly q1 = Some (snd_nxt q1 - snd_una q1)" using k by (simp add: GetOnTheFly_def snd_ok_def)
  define q2 where "q2 = (if \<not> snd_una q1 \<ge> m_size q1 \<and> snd_nxt q1 - snd_una q1 > 0 then q1\<lparr>q_retransmit := True\<rparr> else q1)"
  have "same_belief q1 q2" by (simp add: q2_def same_belief_def)
  then have "snd_ok c m E R q2" "snd_una q2 = snd_una q"
    using k s(3) by (simp_all only: same_belief_ok(2)) (simp add: same_belief_def)
  moreover have "restart_timer q = Some q2"
    using s(1) g by (auto simp: restart_timer_def IsFinished_def q2_def split: bool.split)
  ultimately show ?thesis by (intro that)
qed

lemma ack_recovery_ok: "snd_ok c m E R q \<Longrightarrow> snd_ok c m E R (ack_recovery c proto h q) \<and> snd_una (ack_recovery c proto h q) = snd_una q"
  by (auto simp: ack_recovery_def recover_qp_def snd_ok_def snd_base_def)

lemma ack_rate_same: "ack_rate env h (q, x) = Some (told, q', x') \<Longrightarrow> same_belief q q'"
  by (auto simp: ack_rate_def ChangeRate_def same_belief_def Let_def split: option.splits if_splits)

lemma ack_rate_plain: "e_mode env \<notin> {3, 7, 8} \<Longrightarrow> ack_rate env h s \<noteq> None"
  by (auto simp: ack_rate_def HandleAckCc_def split: prod.split)

text \<open>All of ReceiveAck on the queue pair; only a rate control can fail.\<close>
lemma ack_arrives_ok:
  assumes m: "0 < m" "E < 2 ^ 32" and q: "snd_ok c m E R q" and a: "ack_ok c m E R (proto, h)" and b: "\<not> h_backto0 c"
  shows "ack_arrives c env proto h (q, x) = Some (fin, told, q', x') \<Longrightarrow> snd_ok c m E R q' \<and> (fin \<longrightarrow> unat (snd_una q') = E)"
    "e_mode env \<notin> {3, 7, 8} \<Longrightarrow> ack_arrives c env proto h (q, x) \<noteq> None"
proof -
  obtain f q1 where q1: "ack_block c proto h q = Some (f, q1)" "snd_ok c m E R q1" "f \<longrightarrow> unat (snd_una q1) = E"
    by (rule ack_block_ok[OF m q a b])
  obtain q2 where q2: "restart_timer q1 = Some q2" "snd_ok c m E R q2" "snd_una q2 = snd_una q1"
    by (rule restart_timer_ok[OF m(1) q1(2)])
  note q3 = ack_recovery_ok[OF q2(2), of proto h]
  have e: "ack_arrives c env proto h (q, x) = map_option (\<lambda>s. (f, s)) (ack_rate env h (ack_recovery c proto h q2, x))"
    by (simp add: ack_arrives_def q1(1) q2(1))
  show "ack_arrives c env proto h (q, x) \<noteq> None" if "e_mode env \<notin> {3, 7, 8}"
    using ack_rate_plain[OF that] unfolding e by simp
  assume "ack_arrives c env proto h (q, x) = Some (fin, told, q', x')"
  then have r: "ack_rate env h (ack_recovery c proto h q2, x) = Some (told, q', x')" "fin = f" unfolding e by auto
  note S = ack_rate_same[OF r(1)]
  then have "snd_una q' = snd_una q1" using q3 q2(3) by (simp add: same_belief_def)
  then show "snd_ok c m E R q' \<and> (fin \<longrightarrow> unat (snd_una q') = E)"
    using same_belief_ok(2)[OF S] q3 q1(3) r(2) by auto
qed

lemma timeout_ok:
  assumes "0 < m" "snd_ok c m E R q"
  obtains q' where "timeout_expires qbb q = Some q'" "snd_ok c m E R q'"
proof -
  have "snd_ok c m E R (q\<lparr>q_retransmit := False\<rparr>)" using assms(2) by (simp add: snd_ok_def snd_base_def)
  from IsFinished_ok[OF assms(1) this] obtain fin q1 where q1: "IsFinished (q\<lparr>q_retransmit := False\<rparr>) = Some (fin, q1)" "snd_ok c m E R q1" by blast
  have "snd_ok c m E R (recover_qp (if q_irn_enabled q1 then q1\<lparr>q_irn_recovery := True\<rparr> else q1))"
    using q1(2) by (intro recover_ok) (simp add: snd_ok_def snd_base_def)
  then show ?thesis using q1 that by (cases fin) (auto simp: timeout_expires_def split: if_splits)
qed

text \<open>What GetNxtPacket does for a queue pair without credit: the bytes left before, the packet, the
  queue pair.\<close>
definition next_plain :: "RdmaConfig \<Rightarrow> RdmaQueuePair \<Rightarrow> (u64 \<times> NsPacket \<times> RdmaQueuePair) option" where
  "next_plain c q =
    map_option (\<lambda>(bytesLeft, q).
        let payload = CbNextChunkPayloadBytes (snd_nxt q) (m_size q) (h_mtu c);
            payload = (if ucast payload > bytesLeft then ucast (min bytesLeft 0xFFFFFFFF) else payload)
        in (bytesLeft, plain_packet c payload q)) (GetBytesLeft q)"

lemma GetNxtPacket_plain:
  assumes "\<not> (h_creditbouncer (cfg hw) \<and> q_enabled (hw_qps hw r))"
  shows "GetNxtPacket env r hw = map_option (\<lambda>(_, p, q). (Some p, set_qp r q hw)) (next_plain (cfg hw) (hw_qps hw r))"
proof -
  have "q_enabled q = q_enabled (hw_qps hw r)" if "GetBytesLeft (hw_qps hw r) = Some (n, q)" for n q
    using that by (auto simp: GetBytesLeft_def skip_sacked_def Let_def split: option.splits if_splits)
  then show ?thesis using assms
    by (auto simp: GetNxtPacket_def next_plain_def Let_def set_qp_def split: option.split prod.split)
qed

lemma plain_packet_sel:
  "payload_of c (fst (plain_packet c n q)) = n" "seq (p_hdr (fst (plain_packet c n q))) = ucast (snd_nxt q)"
  "snd_nxt (snd (plain_packet c n q)) = snd_nxt q + ucast n" "snd_una (snd (plain_packet c n q)) = snd_una q"
  "q_irn_sack (snd (plain_packet c n q)) = q_irn_sack q" "m_size (snd (plain_packet c n q)) = m_size q"
  "q_irn_enabled (snd (plain_packet c n q)) = q_irn_enabled q"
  by (simp_all add: plain_packet_def data_packet_def payload_of_def udp_header_size_def note_sent_def)

lemma next_plain_ok:
  assumes m: "0 < m" "E < 2 ^ 32" "unat (h_mtu c) = m" and q: "snd_ok c m E R q"
  obtains left p q' where "next_plain c q = Some (left, p, q')" "snd_ok c m E R q'"
    "left \<noteq> 0 \<longrightarrow> (\<exists>k<chunks_of m E. seq (p_hdr p) = word_of_nat (k * m) \<and> payload_of c p = word_of_nat (chunk_size m E k))"
proof -
  obtain left q1 where q1: "GetBytesLeft q = Some (left, q1)" "snd_ok c m E R q1" "left = (if m_size q1 \<ge> snd_nxt q1 then m_size q1 - snd_nxt q1 else 0)"
    by (rule GetBytesLeft_ok[OF m(1) q])
  let ?n = "CbNextChunkPayloadBytes (snd_nxt q1) (m_size q1) (h_mtu c)"
  obtain p q' where pq: "plain_packet c ?n q1 = (p, q')" by fastforce
  note P = plain_packet_sel[of c ?n q1, unfolded pq fst_conv snd_conv]
  have "\<not> ucast ?n > left" using next_chunk_le[of "snd_nxt q1" "m_size q1" "h_mtu c"] unfolding q1(3) not_less .
  then have np: "next_plain c q = Some (left, p, q')" by (simp add: next_plain_def q1(1) pq)
  have s: "unat (m_size q1) = E" "edge m E (unat (snd_nxt q1))" "snd_una q1 \<le> snd_nxt q1"
    using q1(2) by (simp_all add: snd_ok_def snd_base_def)
  have n: "unat ?n = min m (E - unat (snd_nxt q1))" by (simp add: unat_CbNextChunkPayloadBytes s(1) m(3))
  show ?thesis
  proof (cases "unat (snd_nxt q1) < E")
    case True
    obtain k where k: "unat (snd_nxt q1) = k * m" "k < chunks_of m E" by (rule edge_chunk[OF m(1) s(2) True])
    note W = chunk_words[OF m(1) k(2) m(2)]
    have nw: "?n = word_of_nat (chunk_size m E k)" by (simp add: word_unat_eq_iff n W(2) k(1) chunk_size_def[symmetric])
    have un: "unat ?n = chunk_size m E k" using n k(1) by (simp add: chunk_size_def)
    have nx: "unat (snd_nxt q') = k * m + chunk_size m E k"
      using W(3) m(2) by (simp add: P(3) unat_add_lt unat_ucast_up un k(1))
    also have "\<dots> = min E (Suc k * m)" using True k(1) by (simp add: chunk_size_def)
    finally have e: "edge m E (unat (snd_nxt q'))" using edge_multiple by metis
    have "snd_una q' \<le> snd_nxt q'" using s(3) nx k(1) by (simp add: P(4) word_le_nat_alt)
    then have "snd_ok c m E R q'" using q1(2) e by (simp add: snd_ok_def snd_base_def P)
    moreover have "seq (p_hdr p) = word_of_nat (k * m)"
      using True m(2) by (simp add: P(2) word_unat_eq_iff W(1) k(1)[symmetric] unsigned_ucast_eq take_bit_nat_eq_self)
    ultimately show ?thesis using np k(2) nw P(1) by (intro that[of left p q']) auto
  next
    case False
    then have z: "?n = 0" "left = 0" using n s(1) q1(3) by (auto simp: word_unat_eq_iff word_le_nat_alt unat_sub_le)
    have "same_belief q1 q'" using P z(1) by (simp add: same_belief_def)
    then show ?thesis using np q1(2) z(2) same_belief_ok(2) by (intro that[of left p q']) auto
  qed
qed

end
