(* ===== verification/FlowDelivery.thy ===== *)
theory FlowDelivery
  imports FlowSender
begin

text \<open>
  A message without credit over a network that may lose, repeat, delay and reorder every packet.
  The sending queue pair, the receiving one and the packets between them form one state; the
  steps are the operations of \<^verbatim>\<open>rdma-hw.cc\<close> on a queue pair.  What a sender takes for
  delivered has arrived, with go-back-N and with IRN, and no assertion fails on the way.
\<close>

section \<open>The receiver\<close>

lemma irn_codes:
  assumes "h_irn c" "ReceiverCheckSeq c now n z q = Some (code, q')"
  shows "code \<in> {2, 4, 6}"
  using assms by (auto simp: ReceiverCheckSeq_def irn_in_order_def irn_out_of_order_def irn_code_def Let_def split: if_splits option.splits)

lemma count_mark_sel:
  "ReceiverNextExpectedSeq (count_mark b q) = ReceiverNextExpectedSeq q" "m_irn_sack (count_mark b q) = m_irn_sack q"
  by (simp_all add: count_mark_def Let_def)

lemma notice_sel:
  "ReceiverNextExpectedSeq (fst (SendDcqcnCnp now s)) = ReceiverNextExpectedSeq (fst s)" "m_irn_sack (fst (SendDcqcnCnp now s)) = m_irn_sack (fst s)"
  "ReceiverNextExpectedSeq (fst (HandleDcqcnCnpTimer now s)) = ReceiverNextExpectedSeq (fst s)"
  "m_irn_sack (fst (HandleDcqcnCnpTimer now s)) = m_irn_sack (fst s)"
  "ReceiverNextExpectedSeq (fst (mark_arrives now b s)) = ReceiverNextExpectedSeq (fst s)" "m_irn_sack (fst (mark_arrives now b s)) = m_irn_sack (fst s)"
  by (auto simp: SendDcqcnCnp_def HandleDcqcnCnpTimer_def mark_arrives_def MaybeSendDcqcnCnp_def Let_def count_mark_sel split: prod.split)

text \<open>A chunk receiver whose abstract state stands for a set of bytes: those below the expected
  number and maybe more, in whole chunks.  A chunk it takes adds at most its bytes, with IRN all.\<close>
locale sound_receiver = chunk_receiver view accept right
  for view :: "RdmaConfig \<Rightarrow> nat \<Rightarrow> nat \<Rightarrow> RdmaRxQueuePair \<Rightarrow> 'a \<Rightarrow> bool"
    and accept :: "nat \<Rightarrow> 'a \<Rightarrow> 'a"
    and right :: "nat \<Rightarrow> nat \<Rightarrow> nat \<Rightarrow> nat \<Rightarrow> 'a \<Rightarrow> bool" +
  fixes bytes :: "nat \<Rightarrow> nat \<Rightarrow> 'a \<Rightarrow> nat set"
  assumes reads: "view c m E q a \<Longrightarrow> 0 < m \<and> E < 2 ^ 32 \<and> aligned m E (bytes m E a) \<and>
      {0..<unat (ReceiverNextExpectedSeq q)} \<subseteq> bytes m E a \<and> unat (ReceiverNextExpectedSeq q) \<notin> bytes m E a"
    and accepts: "view c m E q a \<Longrightarrow> k < chunks_of m E \<Longrightarrow> bytes m E a \<subseteq> bytes m E (accept k a) \<and>
      bytes m E (accept k a) \<subseteq> bytes m E a \<union> chunk_bytes m E k \<and> (h_irn c \<longrightarrow> chunk_bytes m E k \<subseteq> bytes m E (accept k a))"
    and alike: "view c m E q a \<Longrightarrow> ReceiverNextExpectedSeq q' = ReceiverNextExpectedSeq q \<Longrightarrow> m_irn_sack q' = m_irn_sack q \<Longrightarrow> view c m E q' a"
begin

lemma expected_edge:
  assumes "view c m E q a"
  shows "edge m E (unat (ReceiverNextExpectedSeq q))"
proof -
  let ?e = "unat (ReceiverNextExpectedSeq q)"
  have "?e = 0 \<or> ?e - 1 \<in> {0..<?e}" by auto
  then have "?e = 0 \<or> ?e - 1 \<in> bytes m E a" using reads[OF assms] by blast
  then show ?thesis using reads[OF assms] by (intro aligned_end) blast+
qed

text \<open>What ReceiveUdp does with a chunk, and that its acknowledgement is true.\<close>
lemma udp_arrives_ok:
  assumes v: "view c m E q a" and k: "k < chunks_of m E" and m16: "m < 2 ^ 16"
    and n: "uv_seq v = word_of_nat (k * m)" and z: "psize = word_of_nat (chunk_size m E k)"
  obtains ack q' np' where "udp_arrives c mode raw now ecnbits v psize fid (q, np) = Some (ack, q', np')" "view c m E q' (accept k a)"
    "Ball (set_option ack) (ack_ok c m E (bytes m E (accept k a)))"
proof -
  have m: "0 < m" "E < 2 ^ 32" using reads[OF v] by simp_all
  note W = chunk_words[OF m(1) k m(2)]
  obtain q1 np1 where q1: "(if mode = 1 then mark_arrives now ecnbits (q, np) else (count_mark ecnbits (fst (q, np)), snd (q, np))) = (q1, np1)" by fastforce
  have s1: "ReceiverNextExpectedSeq q1 = ReceiverNextExpectedSeq q" "m_irn_sack q1 = m_irn_sack q"
    using q1 notice_sel(5,6)[of now ecnbits "(q, np)"] count_mark_sel by (auto split: if_splits)
  define q2 where "q2 = (let q = q1\<lparr>m_milestone_rx := h_ack_interval c\<rparr> in
    if rx_flow_id q < 0 then (case fid of None \<Rightarrow> q | Some f \<Rightarrow> q\<lparr>rx_flow_id := f\<rparr>) else q)"
  have "view c m E q2 a" by (rule alike[OF v]) (auto simp: q2_def Let_def s1 split: option.split)
  from one_chunk[OF this k] obtain code q3 where q3: "ReceiverCheckSeq c now (uv_seq v) psize q2 = Some (code, q3)" "view c m E q3 (accept k a)"
    unfolding n z by metis
  define q4 where "q4 = (if code = 1 \<or> code = 2 \<or> code = 6 then q3\<lparr>rx_ipid := rx_ipid q3 + 1\<rparr> else q3)"
  have q4: "view c m E q4 (accept k a)" by (rule alike[OF q3(2)]) (simp_all add: q4_def)
  define x where "x = (if code = 1 then 0xFC else 0xFD :: u8, ack_header c mode raw code (ReceiverNextExpectedSeq q3) psize ecnbits v)"
  have seq: "qb_seq (snd x) = ReceiverNextExpectedSeq q3" by (simp add: x_def ack_header_def Let_def qbbHeader_SetCnp_def split: prod.split)
  have "ack_ok c m E (bytes m E (accept k a)) x" if "code = 1 \<or> code = 2 \<or> code = 6"
  proof -
    let ?A = "{unat (qb_irn_nack (snd x))..<unat (qb_irn_nack (snd x)) + unat (qb_irn_nack_size (snd x))}"
    have "aligned m E ?A \<and> ?A \<subseteq> bytes m E (accept k a) \<and> fst x = 0xFD" if "h_irn c"
    proof (cases "code = 2")
      case True
      have "unat psize \<le> m" unfolding z W(2) by (simp add: chunk_size_def)
      then have "unat (ucast psize :: u16) = unat psize" using m16 by (simp add: unsigned_ucast_eq take_bit_nat_eq_self)
      moreover have "qb_irn_nack (snd x) = uv_seq v" "qb_irn_nack_size (snd x) = ucast psize"
        using True that by (simp_all add: x_def ack_header_def Let_def qbbHeader_SetCnp_def)
      ultimately have "?A = chunk_bytes m E k" unfolding chunk_bytes_def by (simp only: n z W(1,2))
      then show ?thesis using chunk_aligned[OF m(1)] accepts[OF v k] that True by (simp add: x_def)
    next
      case False
      then show ?thesis using that irn_codes[OF that q3(1)] by (auto simp: x_def ack_header_def Let_def qbbHeader_SetCnp_def)
    qed
    then show ?thesis using expected_edge[OF q3(2)] reads[OF q3(2)] by (simp add: ack_ok_def seq Let_def)
  qed
  then have "Ball (set_option (if code = 1 \<or> code = 2 \<or> code = 6 then Some x else None)) (ack_ok c m E (bytes m E (accept k a)))" by simp
  moreover have "udp_arrives c mode raw now ecnbits v psize fid (q, np) = Some (if code = 1 \<or> code = 2 \<or> code = 6 then Some x else None, q4, np1)"
    unfolding udp_arrives_def q1 Let_def prod.case q2_def[unfolded Let_def, symmetric] q3(1) option.case by (simp add: x_def q4_def)
  ultimately show ?thesis using q4 by (intro that)
qed

end

section \<open>A flow over an unreliable network\<close>

text \<open>The two queue pairs, every data packet and every acknowledgement ever sent, the bytes that have
  arrived, and whether completion has been reported.  A packet may arrive at any time, again, or
  never; so nothing is removed.\<close>
record Flow =
  f_qp :: RdmaQueuePair
  f_cc :: CcAck
  f_rx :: RdmaRxQueuePair
  f_np :: NoticeState
  f_data :: "(u32 \<times> u32) set"
  f_acks :: "(u8 \<times> qbbHeader) set"
  f_arrived :: "nat set"
  f_done :: bool

definition flow_start :: "RdmaQueuePair \<Rightarrow> CcAck \<Rightarrow> RdmaRxQueuePair \<Rightarrow> Flow" where
  "flow_start q x rx = \<lparr>f_qp = q, f_cc = x, f_rx = rx, f_np = NoticeState_ctor, f_data = {}, f_acks = {}, f_arrived = {}, f_done = False\<rparr>"

text \<open>A step is an operation of one of the two queue pairs: a packet is sent when bytes are left, a
  packet or an acknowledgement arrives, the retransmission timer or the notice timer fires, the
  interface asks for the bytes left, and the rate, pacing and timer fields are set.\<close>
inductive flow_step :: "RdmaConfig \<Rightarrow> Flow \<Rightarrow> Flow \<Rightarrow> bool" for c where
  Send: "next_plain c (f_qp s) = Some (left, p, q) \<Longrightarrow> left \<noteq> 0 \<Longrightarrow>
    flow_step c s (s\<lparr>f_qp := q, f_data := insert (seq (p_hdr p), payload_of c p) (f_data s)\<rparr>)"
| DataIn: "(uv_seq v, psize) \<in> f_data s \<Longrightarrow> udp_arrives c mode raw now ecnbits v psize fid (f_rx s, f_np s) = Some (ack, rx, np) \<Longrightarrow>
    flow_step c s (s\<lparr>f_rx := rx, f_np := np, f_acks := f_acks s \<union> set_option ack,
      f_arrived := f_arrived s \<union> {unat (uv_seq v)..<unat (uv_seq v) + unat psize}\<rparr>)"
| AckIn: "(proto, h) \<in> f_acks s \<Longrightarrow> ack_arrives c env proto h (f_qp s, f_cc s) = Some (fin, told, q, x) \<Longrightarrow>
    flow_step c s (s\<lparr>f_qp := q, f_cc := x, f_done := (f_done s \<or> fin)\<rparr>)"
| Timeout: "timeout_expires qbb (f_qp s) = Some q \<Longrightarrow> flow_step c s (s\<lparr>f_qp := q\<rparr>)"
| Notice: "HandleDcqcnCnpTimer now (f_rx s, f_np s) = (rx, np) \<Longrightarrow> flow_step c s (s\<lparr>f_rx := rx, f_np := np\<rparr>)"
| Polled: "GetBytesLeft (f_qp s) = Some (left, q) \<Longrightarrow> flow_step c s (s\<lparr>f_qp := q\<rparr>)"
| Paced: "flow_step c s (s\<lparr>f_qp := (f_qp s)\<lparr>q_rate := r, q_nextAvail := t, q_lastPktSize := n, q_retransmit := b\<rparr>\<rparr>)"

inductive flow_reaches :: "RdmaConfig \<Rightarrow> Flow \<Rightarrow> Flow \<Rightarrow> bool" for c s where
  Start: "flow_reaches c s s"
| Step: "flow_reaches c s t \<Longrightarrow> flow_step c t u \<Longrightarrow> flow_reaches c s u"

text \<open>A chunk on the wire.\<close>
definition data_ok :: "nat \<Rightarrow> nat \<Rightarrow> u32 \<times> u32 \<Rightarrow> bool" where
  "data_ok m E d \<longleftrightarrow> (\<exists>k<chunks_of m E. d = (word_of_nat (k * m), word_of_nat (chunk_size m E k)))"

text \<open>The transport is set up: chunks of at least one byte that a 16-bit length can tell, a message
  that 32-bit numbers can tell, no rewinding to chunks of the acknowledgement.\<close>
definition flow_sane :: "RdmaConfig \<Rightarrow> nat \<Rightarrow> bool" where
  "flow_sane c E \<longleftrightarrow> h_mtu c \<noteq> 0 \<and> unat (h_mtu c) < 2 ^ 16 \<and> E < 2 ^ 32 \<and> \<not> h_backto0 c \<and> h_chunk c \<noteq> 0"

lemma flow_saneD:
  assumes "flow_sane c E"
  shows "0 < unat (h_mtu c)" "unat (h_mtu c) < 2 ^ 16" "E < 2 ^ 32" "\<not> h_backto0 c" "h_chunk c \<noteq> 0"
  using assms by (simp_all add: flow_sane_def unat_gt_0)

context sound_receiver
begin

definition flow_inv :: "RdmaConfig \<Rightarrow> nat \<Rightarrow> Flow \<Rightarrow> 'a \<Rightarrow> bool" where
  "flow_inv c E s a \<longleftrightarrow> view c (unat (h_mtu c)) E (f_rx s) a \<and> bytes (unat (h_mtu c)) E a \<subseteq> f_arrived s \<and>
     Ball (f_data s) (data_ok (unat (h_mtu c)) E) \<and> Ball (f_acks s) (ack_ok c (unat (h_mtu c)) E (bytes (unat (h_mtu c)) E a)) \<and>
     snd_ok c (unat (h_mtu c)) E (bytes (unat (h_mtu c)) E a) (f_qp s) \<and>
     (f_done s \<longrightarrow> {0..<E} \<subseteq> bytes (unat (h_mtu c)) E a)"

lemma flow_inv_qp:
  "flow_inv c E s a \<Longrightarrow> snd_ok c (unat (h_mtu c)) E (bytes (unat (h_mtu c)) E a) q \<Longrightarrow> flow_inv c E (s\<lparr>f_qp := q\<rparr>) a"
  by (simp add: flow_inv_def)

lemma flow_step_inv:
  assumes ok: "flow_sane c E" and inv: "flow_inv c E s a" and step: "flow_step c s t"
  shows "\<exists>a'. flow_inv c E t a'"
proof -
  define m where "m = unat (h_mtu c)"
  note S = flow_saneD[OF ok, folded m_def]
  have q: "snd_ok c m E (bytes m E a) (f_qp s)" and v: "view c m E (f_rx s) a" using inv by (simp_all add: flow_inv_def m_def)
  from step show ?thesis
  proof cases
    case (Send left p q')
    obtain l1 p1 q1 where n: "next_plain c (f_qp s) = Some (l1, p1, q1)" "snd_ok c m E (bytes m E a) q1"
      "l1 \<noteq> 0 \<longrightarrow> (\<exists>k<chunks_of m E. seq (p_hdr p1) = word_of_nat (k * m) \<and> payload_of c p1 = word_of_nat (chunk_size m E k))"
      by (rule next_plain_ok[OF S(1,3) m_def[symmetric] q])
    have "l1 = left" "p1 = p" "q1 = q'" using n(1) Send(2) by simp_all
    then have "snd_ok c m E (bytes m E a) q'" "data_ok m E (seq (p_hdr p), payload_of c p)" using n(2,3) Send(3) unfolding data_ok_def by blast+
    then show ?thesis using inv Send(1) by (auto simp: flow_inv_def m_def)
  next
    case (DataIn u psize mode raw now ecnbits fid ack rx np)
    then obtain k where k: "k < chunks_of m E" "uv_seq u = word_of_nat (k * m)" "psize = word_of_nat (chunk_size m E k)"
      using inv by (auto simp: flow_inv_def data_ok_def m_def)
    have r: "view c m E rx (accept k a)" "Ball (set_option ack) (ack_ok c m E (bytes m E (accept k a)))"
      using udp_arrives_ok[OF v k(1) S(2) k(2,3), where mode = mode and raw = raw and now = now and ecnbits = ecnbits and fid = fid and np = "f_np s"]
        DataIn(3) by (metis option.inject prod.inject)+
    note A = accepts[OF v k(1)] and W = chunk_words[OF S(1) k(1) S(3)]
    have "{unat (uv_seq u)..<unat (uv_seq u) + unat psize} = chunk_bytes m E k" by (simp only: chunk_bytes_def k(2,3) W(1,2))
    then show ?thesis using inv r A DataIn(1) snd_mono[of c m E "bytes m E a" "f_qp s" "bytes m E (accept k a)"]
        ack_mono[of c m E "bytes m E a" _ "bytes m E (accept k a)"]
      by (intro exI[of _ "accept k a"]) (auto simp: flow_inv_def m_def[symmetric])
  next
    case (AckIn proto h env fin told q' x)
    then have "ack_ok c m E (bytes m E a) (proto, h)" using inv by (auto simp: flow_inv_def m_def)
    from ack_arrives_ok(1)[OF S(1,3) q this S(4) AckIn(3)]
    have k: "snd_ok c m E (bytes m E a) q'" "fin \<longrightarrow> unat (snd_una q') = E" by simp_all
    then have "fin \<longrightarrow> {0..<E} \<subseteq> bytes m E a" by (auto simp: snd_ok_def snd_base_def)
    then show ?thesis using inv k(1) AckIn(1) by (auto simp: flow_inv_def m_def)
  next
    case (Timeout qbb q')
    obtain q1 where "timeout_expires qbb (f_qp s) = Some q1" "snd_ok c m E (bytes m E a) q1" by (rule timeout_ok[OF S(1) q])
    then show ?thesis using flow_inv_qp[OF inv, of q'] Timeout by (auto simp: m_def)
  next
    case (Notice now rx np)
    have "view c m E rx a" using notice_sel(3,4)[of now "(f_rx s, f_np s)"] Notice(2) by (intro alike[OF v]) simp_all
    then show ?thesis using inv Notice(1) by (auto simp: flow_inv_def m_def)
  next
    case (Polled left q')
    obtain l q1 where "GetBytesLeft (f_qp s) = Some (l, q1)" "snd_ok c m E (bytes m E a) q1" by (rule GetBytesLeft_ok[OF S(1) q])
    then show ?thesis using flow_inv_qp[OF inv, of q'] Polled by (auto simp: m_def)
  next
    case (Paced r t n b)
    show ?thesis unfolding Paced
      by (intro exI[of _ a] flow_inv_qp[OF inv]) (use q in \<open>simp add: m_def[symmetric] snd_ok_def snd_base_def\<close>)
  qed
qed

lemma flow_reaches_inv:
  assumes "flow_sane c E" "flow_inv c E s a" "flow_reaches c s t"
  shows "\<exists>a'. flow_inv c E t a'"
  using assms(3) by induction (use assms(2) flow_step_inv[OF assms(1)] in blast)+

text \<open>What the invariant says of a flow.\<close>
lemma flow_delivers:
  assumes "flow_sane c E" "flow_inv c E s a"
  shows "unat (snd_una (f_qp s)) \<le> unat (ReceiverNextExpectedSeq (f_rx s))" "{0..<unat (ReceiverNextExpectedSeq (f_rx s))} \<subseteq> f_arrived s"
    "f_done s \<or> IsFinishedConst (f_qp s) \<Longrightarrow> unat (ReceiverNextExpectedSeq (f_rx s)) = E"
proof -
  define m where "m = unat (h_mtu c)"
  have i: "view c m E (f_rx s) a" "bytes m E a \<subseteq> f_arrived s" "snd_base c m E (bytes m E a) (f_qp s)" "f_done s \<longrightarrow> {0..<E} \<subseteq> bytes m E a"
    using assms(2) by (simp_all add: flow_inv_def snd_ok_def m_def)
  note R = reads[OF i(1)]
  have le: "x \<le> unat (ReceiverNextExpectedSeq (f_rx s))" if "{0..<x} \<subseteq> bytes m E a" for x
  proof (rule ccontr)
    assume "\<not> ?thesis"
    then have "unat (ReceiverNextExpectedSeq (f_rx s)) \<in> {0..<x}" by simp
    then show False using that R by blast
  qed
  show "unat (snd_una (f_qp s)) \<le> unat (ReceiverNextExpectedSeq (f_rx s))" using i(3) by (intro le) (simp add: snd_base_def)
  show "{0..<unat (ReceiverNextExpectedSeq (f_rx s))} \<subseteq> f_arrived s" using R i(2) by blast
  assume "f_done s \<or> IsFinishedConst (f_qp s)"
  then have "{0..<E} \<subseteq> bytes m E a" using i(3,4) by (force simp: IsFinishedConst_def snd_base_def word_le_nat_alt)
  then show "unat (ReceiverNextExpectedSeq (f_rx s)) = E" using le edge_le[OF expected_edge[OF i(1)]] by (intro antisym) simp_all
qed

text \<open>No assertion fails in a step; the rate controls HPCC, TIMELY and DCTCP have their own.\<close>
lemma flow_total:
  assumes "flow_sane c E" "flow_inv c E s a"
  shows "next_plain c (f_qp s) \<noteq> None" "timeout_expires qbb (f_qp s) \<noteq> None"
    "(uv_seq v, psize) \<in> f_data s \<Longrightarrow> udp_arrives c mode raw now ecnbits v psize fid (f_rx s, f_np s) \<noteq> None"
    "(proto, h) \<in> f_acks s \<Longrightarrow> e_mode env \<notin> {3, 7, 8} \<Longrightarrow> ack_arrives c env proto h (f_qp s, f_cc s) \<noteq> None"
proof -
  define m where "m = unat (h_mtu c)"
  note S = flow_saneD[OF assms(1), folded m_def]
  have q: "snd_ok c m E (bytes m E a) (f_qp s)" and w: "view c m E (f_rx s) a" using assms(2) by (simp_all add: flow_inv_def m_def)
  show "next_plain c (f_qp s) \<noteq> None" using next_plain_ok[OF S(1,3) m_def[symmetric] q] by blast
  show "timeout_expires qbb (f_qp s) \<noteq> None" using timeout_ok[OF S(1) q, of qbb] by blast
  show "udp_arrives c mode raw now ecnbits v psize fid (f_rx s, f_np s) \<noteq> None" if d: "(uv_seq v, psize) \<in> f_data s"
  proof -
    obtain k where k: "k < chunks_of m E" "uv_seq v = word_of_nat (k * m)" "psize = word_of_nat (chunk_size m E k)"
      using assms(2) d by (auto simp: flow_inv_def data_ok_def m_def)
    obtain ack q' np' where "udp_arrives c mode raw now ecnbits v psize fid (f_rx s, f_np s) = Some (ack, q', np')"
      by (rule udp_arrives_ok[OF w k(1) S(2) k(2,3)])
    then show ?thesis by simp
  qed
  show "ack_arrives c env proto h (f_qp s, f_cc s) \<noteq> None" if d: "(proto, h) \<in> f_acks s" "e_mode env \<notin> {3, 7, 8}"
  proof -
    have "ack_ok c m E (bytes m E a) (proto, h)" using assms(2) d(1) by (auto simp: flow_inv_def m_def)
    from ack_arrives_ok(2)[OF S(1,3) q this S(4) d(2)] show ?thesis .
  qed
qed

end

section \<open>IRN and go-back-N\<close>

interpretation irn_flow: sound_receiver irn_state insert irn_right received_bytes
proof
  fix c m E q K assume s: "irn_state c m E q K"
  then have v: "irn_view q (received_bytes m E K)" and m: "0 < m" "E < 2 ^ 32" by (simp_all add: irn_state_def)
  have "{0..<unat (ReceiverNextExpectedSeq q)} \<subseteq> received_bytes m E K" using v by (auto simp: irn_view_def)
  then show "0 < m \<and> E < 2 ^ 32 \<and> aligned m E (received_bytes m E K) \<and>
      {0..<unat (ReceiverNextExpectedSeq q)} \<subseteq> received_bytes m E K \<and> unat (ReceiverNextExpectedSeq q) \<notin> received_bytes m E K"
    using m received_aligned irn_view_gap[OF v] by blast
qed (auto simp: received_bytes_def irn_state_def irn_view_def)

interpretation gbn_flow: sound_receiver gbn_state gbn_take gbn_right "\<lambda>m E j. {0..<min E (j * m)}"
proof
  fix c m E q j k assume s: "gbn_state c m E q j"
  then show "0 < m \<and> E < 2 ^ 32 \<and> aligned m E {0..<min E (j * m)} \<and>
      {0..<unat (ReceiverNextExpectedSeq q)} \<subseteq> {0..<min E (j * m)} \<and> unat (ReceiverNextExpectedSeq q) \<notin> {0..<min E (j * m)}"
    by (auto simp: gbn_state_def intro: edge_aligned edge_multiple)
  have "\<not> h_irn c" using s by (simp add: gbn_state_def)
  then show "{0..<min E (j * m)} \<subseteq> {0..<min E (gbn_take k j * m)} \<and>
      {0..<min E (gbn_take k j * m)} \<subseteq> {0..<min E (j * m)} \<union> chunk_bytes m E k \<and> (h_irn c \<longrightarrow> chunk_bytes m E k \<subseteq> {0..<min E (gbn_take k j * m)})"
    by (auto simp: gbn_take_def chunk_bytes_def chunk_size_def)
qed (auto simp: gbn_state_def)

text \<open>A queue pair that has sent nothing, of a host with IRN or without, and one that has received
  nothing.\<close>
definition flow_fresh :: "RdmaConfig \<Rightarrow> nat \<Rightarrow> RdmaQueuePair \<Rightarrow> RdmaRxQueuePair \<Rightarrow> bool" where
  "flow_fresh c E q rx \<longleftrightarrow> q_irn_enabled q = h_irn c \<and> unat (m_size q) = E \<and> q_irn_sack q = [] \<and> snd_una q = 0 \<and> snd_nxt q = 0 \<and>
     ReceiverNextExpectedSeq rx = 0 \<and> m_irn_sack rx = []"

lemma flow_invariant:
  assumes "flow_sane c E" "flow_fresh c E q rx" "flow_reaches c (flow_start q x rx) s"
  shows "(\<exists>K. h_irn c \<and> irn_flow.flow_inv c E s K) \<or> (\<exists>j. \<not> h_irn c \<and> gbn_flow.flow_inv c E s j)"
proof -
  note S = flow_saneD[OF assms(1)]
  have q: "snd_ok c (unat (h_mtu c)) E {} q" using assms(2) by (simp add: flow_fresh_def snd_ok_def snd_base_def)
  show ?thesis
  proof (cases "h_irn c")
    case True
    then have "irn_flow.flow_inv c E (flow_start q x rx) {}"
      using S q assms(2) by (simp add: irn_flow.flow_inv_def flow_start_def irn_state_def irn_view_def received_bytes_def flow_fresh_def)
    from irn_flow.flow_reaches_inv[OF assms(1) this assms(3)] show ?thesis using True by blast
  next
    case False
    then have "gbn_flow.flow_inv c E (flow_start q x rx) 0"
      using S q assms(2) by (simp add: gbn_flow.flow_inv_def flow_start_def gbn_state_def flow_fresh_def)
    from gbn_flow.flow_reaches_inv[OF assms(1) this assms(3)] show ?thesis using False by blast
  qed
qed

text \<open>C19: what a sender without credit takes for delivered has arrived, over a network that may lose,
  repeat, delay and reorder any packet, with go-back-N and with IRN, with any rate control and any
  timeouts.  At all times the first unacknowledged byte of the sender is at most the number the
  receiver expects, every byte below that number has arrived, and when completion is reported or the
  queue pair counts as finished the whole message has arrived.\<close>
theorem done_means_delivered:
  assumes "flow_sane c E" "flow_fresh c E q rx" "flow_reaches c (flow_start q x rx) s"
  shows "unat (snd_una (f_qp s)) \<le> unat (ReceiverNextExpectedSeq (f_rx s)) \<and>
    {0..<unat (ReceiverNextExpectedSeq (f_rx s))} \<subseteq> f_arrived s \<and>
    (f_done s \<or> IsFinishedConst (f_qp s) \<longrightarrow> unat (ReceiverNextExpectedSeq (f_rx s)) = E \<and> {0..<E} \<subseteq> f_arrived s)"
  using flow_invariant[OF assms] irn_flow.flow_delivers[OF assms(1)] gbn_flow.flow_delivers[OF assms(1)] by blast

text \<open>C21: no assertion fails in such a flow: at any time a packet can be built, the retransmission timer
  can fire, any packet sent so far can arrive, and so can any acknowledgement, unless one of the
  controls HPCC, TIMELY and DCTCP refuses what it says.\<close>
theorem flow_never_fails:
  assumes "flow_sane c E" "flow_fresh c E q rx" "flow_reaches c (flow_start q x rx) s"
  shows "next_plain c (f_qp s) \<noteq> None \<and> timeout_expires qbb (f_qp s) \<noteq> None \<and>
    ((uv_seq v, psize) \<in> f_data s \<longrightarrow> udp_arrives c mode raw now ecnbits v psize fid (f_rx s, f_np s) \<noteq> None) \<and>
    ((proto, h) \<in> f_acks s \<longrightarrow> e_mode env \<notin> {3, 7, 8} \<longrightarrow> ack_arrives c env proto h (f_qp s, f_cc s) \<noteq> None)"
proof -
  consider K where "irn_flow.flow_inv c E s K" | j where "gbn_flow.flow_inv c E s j" using flow_invariant[OF assms] by blast
  then show ?thesis
  proof cases
    case 1
    then show ?thesis using irn_flow.flow_total[OF assms(1) 1] by blast
  next
    case 2
    then show ?thesis using gbn_flow.flow_total[OF assms(1) 2] by blast
  qed
qed

section \<open>Round trips without loss\<close>

text \<open>The next packet is sent, arrives unmarked with the other header fields v, and its
  acknowledgement arrives.\<close>
definition trip :: "RdmaConfig \<Rightarrow> AckEnv \<Rightarrow> UdpView \<Rightarrow> RdmaQueuePair \<times> CcAck \<times> RdmaRxQueuePair \<times> NoticeState \<Rightarrow>
    ((u32 \<times> u32) \<times> (u8 \<times> qbbHeader) \<times> bool \<times> RdmaQueuePair \<times> CcAck \<times> RdmaRxQueuePair \<times> NoticeState) option" where
  "trip c env v s =
    (let (q, x, rx, np) = s in
     case next_plain c q of None \<Rightarrow> None
     | Some (left, p, q) \<Rightarrow> if left = 0 then None
        else let n = seq (p_hdr p); z = payload_of c p in
          case udp_arrives c (e_mode env) (e_raw env) (e_now env) 0 (v\<lparr>uv_seq := n\<rparr>) z None (rx, np) of
            Some (Some (proto, h), rx, np) \<Rightarrow>
              map_option (\<lambda>(fin, _, q, x). ((n, z), (proto, h), fin, q, x, rx, np)) (ack_arrives c env proto h (q, x))
          | _ \<Rightarrow> None)"

definition round_trip :: "RdmaConfig \<Rightarrow> AckEnv \<Rightarrow> UdpView \<Rightarrow> Flow \<Rightarrow> Flow option" where
  "round_trip c env v s =
    map_option (\<lambda>((n, z), a, fin, q, x, rx, np). s\<lparr>f_qp := q, f_cc := x, f_rx := rx, f_np := np, f_data := insert (n, z) (f_data s),
        f_acks := insert a (f_acks s), f_arrived := f_arrived s \<union> {unat n..<unat n + unat z}, f_done := (f_done s \<or> fin)\<rparr>)
      (trip c env v (f_qp s, f_cc s, f_rx s, f_np s))"

fun round_trips :: "RdmaConfig \<Rightarrow> AckEnv \<Rightarrow> UdpView \<Rightarrow> nat \<Rightarrow> Flow \<Rightarrow> Flow option" where
  "round_trips c env v 0 s = Some s"
| "round_trips c env v (Suc n) s = (case round_trip c env v s of None \<Rightarrow> None | Some t \<Rightarrow> round_trips c env v n t)"

lemma tripE:
  assumes "trip c env v (q, x, rx, np) = Some ((n, z), (proto, h), fin, qa, xa, rxa, npa)"
  obtains left p q1 told where "next_plain c q = Some (left, p, q1)" "left \<noteq> 0" "n = seq (p_hdr p)" "z = payload_of c p"
    "udp_arrives c (e_mode env) (e_raw env) (e_now env) 0 (v\<lparr>uv_seq := n\<rparr>) z None (rx, np) = Some (Some (proto, h), rxa, npa)"
    "ack_arrives c env proto h (q1, x) = Some (fin, told, qa, xa)"
  using assms by (auto simp: trip_def Let_def split: option.splits prod.splits if_splits)

lemma round_trip_reaches:
  assumes "round_trip c env v s = Some t" "flow_reaches c s0 s"
  shows "flow_reaches c s0 t"
proof -
  obtain n z proto h fin qa xa rxa npa where r: "trip c env v (f_qp s, f_cc s, f_rx s, f_np s) = Some ((n, z), (proto, h), fin, qa, xa, rxa, npa)"
    "t = s\<lparr>f_qp := qa, f_cc := xa, f_rx := rxa, f_np := npa, f_data := insert (n, z) (f_data s), f_acks := insert (proto, h) (f_acks s),
      f_arrived := f_arrived s \<union> {unat n..<unat n + unat z}, f_done := (f_done s \<or> fin)\<rparr>"
    using assms(1) by (auto simp: round_trip_def)
  obtain left p q1 told where e: "next_plain c (f_qp s) = Some (left, p, q1)" "left \<noteq> 0" "n = seq (p_hdr p)" "z = payload_of c p"
    "udp_arrives c (e_mode env) (e_raw env) (e_now env) 0 (v\<lparr>uv_seq := n\<rparr>) z None (f_rx s, f_np s) = Some (Some (proto, h), rxa, npa)"
    "ack_arrives c env proto h (q1, f_cc s) = Some (fin, told, qa, xa)" by (rule tripE[OF r(1)])
  define s1 where "s1 = s\<lparr>f_qp := q1, f_data := insert (n, z) (f_data s)\<rparr>"
  define s2 where "s2 = s1\<lparr>f_rx := rxa, f_np := npa, f_acks := f_acks s1 \<union> set_option (Some (proto, h)),
    f_arrived := f_arrived s1 \<union> {unat n..<unat n + unat z}\<rparr>"
  have 1: "flow_step c s s1" unfolding s1_def e(3,4) by (rule flow_step.Send[OF e(1,2)])
  have "(uv_seq (v\<lparr>uv_seq := n\<rparr>), z) \<in> f_data s1"
    "udp_arrives c (e_mode env) (e_raw env) (e_now env) 0 (v\<lparr>uv_seq := n\<rparr>) z None (f_rx s1, f_np s1) = Some (Some (proto, h), rxa, npa)"
    using e(5) by (simp_all add: s1_def)
  note flow_step.DataIn[OF this]
  moreover have "uv_seq (v\<lparr>uv_seq := n\<rparr>) = n" by simp
  ultimately have 2: "flow_step c s1 s2" by (simp only: s2_def)
  have "ack_arrives c env proto h (f_qp s2, f_cc s2) = Some (fin, told, qa, xa)" by (simp add: s2_def s1_def e(6))
  note flow_step.AckIn[OF _ this]
  then have "flow_step c s2 (s2\<lparr>f_qp := qa, f_cc := xa, f_done := (f_done s2 \<or> fin)\<rparr>)" by (simp add: s2_def)
  moreover have "s2\<lparr>f_qp := qa, f_cc := xa, f_done := (f_done s2 \<or> fin)\<rparr> = t" by (simp add: r(2) s1_def s2_def)
  ultimately have 3: "flow_step c s2 t" by simp
  show ?thesis by (rule flow_reaches.Step[OF flow_reaches.Step[OF flow_reaches.Step[OF assms(2) 1] 2] 3])
qed

section \<open>Small flows\<close>

definition plain_env :: AckEnv where
  "plain_env = \<lparr>e_cc = ack_defaults, e_mode = 0, e_now = 5000, e_txTime = (\<lambda>r n. 80), e_raw = (0, 0)\<rparr>"

definition plain_view :: UdpView where
  "plain_view = \<lparr>uv_sport = 1, uv_dport = 2, uv_payload_size = None, uv_pg = 3, uv_seq = 0, uv_ih = IntHeader_empty\<rparr>"

text \<open>A message of three bytes, and the configuration with IRN or without.\<close>
definition small_cfg :: "bool \<Rightarrow> RdmaConfig" where
  "small_cfg irn = irn_cfg\<lparr>h_irn := irn, h_ack_interval := 1\<rparr>"

definition small_qp :: "bool \<Rightarrow> RdmaQueuePair" where
  "small_qp irn = (RdmaQueuePair_ctor 3 1 2 1 2)\<lparr>m_size := 3, q_irn_enabled := irn\<rparr>"

definition small_cc :: CcAck where
  "small_cc = CcAck_start line_rate (\<lambda>_. hop IntHeader_empty 0)"

abbreviation small_flow :: "bool \<Rightarrow> Flow" where
  "small_flow irn \<equiv> flow_start (small_qp irn) small_cc RdmaRxQueuePair_ctor"

lemma small_setup: "flow_sane (small_cfg irn) 3" "flow_fresh (small_cfg irn) 3 (small_qp irn) RdmaRxQueuePair_ctor"
  by (simp_all add: flow_sane_def flow_fresh_def small_cfg_def small_qp_def irn_cfg_def RdmaQueuePair_ctor_def RdmaRxQueuePair_ctor_def)

lemma small_trip:
  "map_option (\<lambda>(_, _, fin, _, _, rx, _). (fin, ReceiverNextExpectedSeq rx))
     (trip (small_cfg True) plain_env plain_view (small_qp True, small_cc, RdmaRxQueuePair_ctor, NoticeState_ctor)) = Some (True, 3)"
  by code_simp

lemma small_round:
  obtains s where "flow_reaches (small_cfg True) (small_flow True) s" "f_done s" "ReceiverNextExpectedSeq (f_rx s) = 3" "f_data s \<noteq> {}" "f_acks s \<noteq> {}"
proof -
  obtain n z a q x rx np where t: "trip (small_cfg True) plain_env plain_view (small_qp True, small_cc, RdmaRxQueuePair_ctor, NoticeState_ctor)
      = Some ((n, z), a, True, q, x, rx, np)" "ReceiverNextExpectedSeq rx = 3" using small_trip by auto
  have s: "round_trip (small_cfg True) plain_env plain_view (small_flow True) = Some \<lparr>f_qp = q, f_cc = x, f_rx = rx, f_np = np,
      f_data = {(n, z)}, f_acks = {a}, f_arrived = {unat n..<unat n + unat z}, f_done = True\<rparr>"
    using t(1) by (simp add: round_trip_def flow_start_def)
  show ?thesis by (rule that[OF round_trip_reaches[OF s flow_reaches.Start]]) (use t(2) in simp_all)
qed

theorem done_means_delivered_witness:
  "\<exists>s. flow_reaches (small_cfg True) (small_flow True) s \<and> f_done s \<and> unat (ReceiverNextExpectedSeq (f_rx s)) = 3 \<and> {0..<3} \<subseteq> f_arrived s"
proof -
  obtain s where s: "flow_reaches (small_cfg True) (small_flow True) s" "f_done s" by (rule small_round)
  from done_means_delivered[OF small_setup s(1)] show ?thesis using s by blast
qed

theorem flow_never_fails_witness:
  "\<exists>s v z proto h. flow_reaches (small_cfg True) (small_flow True) s \<and> (uv_seq v, z) \<in> f_data s \<and> (proto, h) \<in> f_acks s \<and>
    udp_arrives (small_cfg True) 0 (0, 0) 7000 0 v z None (f_rx s, f_np s) \<noteq> None \<and>
    ack_arrives (small_cfg True) plain_env proto h (f_qp s, f_cc s) \<noteq> None"
proof -
  obtain s where s: "flow_reaches (small_cfg True) (small_flow True) s" "f_data s \<noteq> {}" "f_acks s \<noteq> {}" by (rule small_round)
  then obtain n z proto h where i: "(n, z) \<in> f_data s" "(proto, h) \<in> f_acks s" by fastforce
  let ?v = "plain_view\<lparr>uv_seq := n\<rparr>"
  have v: "(uv_seq ?v, z) \<in> f_data s" using i(1) by simp
  have "e_mode plain_env \<notin> {3, 7, 8}" by (simp add: plain_env_def)
  with flow_never_fails[OF small_setup s(1), of False ?v z 0 "(0, 0)" 7000 0 None proto h plain_env] show ?thesis using s(1) v i(2) by blast
qed

end
