(* ===== verification/FlowRecovery.thy ===== *)
theory FlowRecovery
  imports FlowDelivery
begin

text \<open>
  Go-back-N without loss: from any state of the flow of FlowDelivery, after a timeout, round trips
  in which the next packet and its acknowledgement arrive complete the message.
\<close>

section \<open>Go-back-N recovers\<close>

text \<open>A packet from below the expected number is acknowledged with the number after it, when the
  interval of acknowledgements is no longer than the packets.\<close>
lemma gbn_acks:
  assumes irn: "\<not> h_irn c" and le: "n \<le> ReceiverNextExpectedSeq q" and fit: "unat n + unat z < 2 ^ 32"
    and iv: "unat (h_ack_interval c) \<le> unat n + unat z" and ms: "m_milestone_rx q = h_ack_interval c"
  obtains q' where "ReceiverCheckSeq c now n z q = Some (1, q')"
    "unat (ReceiverNextExpectedSeq q') = max (unat (ReceiverNextExpectedSeq q)) (unat n + unat z)"
proof (cases "n + z \<ge> ReceiverNextExpectedSeq q")
  case True
  let ?e = "ReceiverNextExpectedSeq q"
  have stop: "unat (n + z) = unat n + unat z" using fit by (simp add: unat_add_lt)
  have nx: "?e + (z - (?e - n)) = n + z" by simp
  have "?e + (z - (?e - n)) \<ge> m_milestone_rx q" unfolding nx using iv stop by (simp add: ms word_le_nat_alt)
  moreover have "n = ?e \<or> n < ?e \<and> n + z \<ge> ?e" using le True by auto
  moreover have "gbn_in_order c n z q = Some (1, q\<lparr>ReceiverNextExpectedSeq := n + z, m_milestone_rx := m_milestone_rx q + h_ack_interval c\<rparr>)"
    using calculation(1) unfolding gbn_in_order_def Let_def nx by simp
  ultimately have "ReceiverCheckSeq c now n z q = Some (1, q\<lparr>ReceiverNextExpectedSeq := n + z, m_milestone_rx := m_milestone_rx q + h_ack_interval c\<rparr>)"
    using irn by (simp add: ReceiverCheckSeq_def)
  then show ?thesis by (rule that) (use True stop in \<open>simp add: word_le_nat_alt max_def\<close>)
next
  case False
  then have "n \<noteq> ReceiverNextExpectedSeq q" "\<not> ReceiverNextExpectedSeq q < n" "\<not> ReceiverNextExpectedSeq q \<le> n + z"
    using le fit by (auto simp: word_le_nat_alt word_less_nat_alt unat_add_lt)
  then have "ReceiverCheckSeq c now n z q = Some (1, q)" using irn by (simp add: ReceiverCheckSeq_def Let_def)
  moreover have "unat n + unat z < unat (ReceiverNextExpectedSeq q)" using False fit by (simp add: word_le_nat_alt unat_add_lt)
  ultimately show ?thesis by (intro that) auto
qed

lemma gbn_udp:
  assumes irn: "\<not> h_irn c" and le: "uv_seq v \<le> ReceiverNextExpectedSeq rx" and fit: "unat (uv_seq v) + unat z < 2 ^ 32"
    and iv: "unat (h_ack_interval c) \<le> unat (uv_seq v) + unat z"
  obtains h rx' np' where "udp_arrives c mode raw now ecnbits v z fid (rx, np) = Some (Some (0xFC, h), rx', np')"
    "unat (qb_seq h) = max (unat (ReceiverNextExpectedSeq rx)) (unat (uv_seq v) + unat z)"
proof -
  obtain q1 np1 where q1: "(if mode = 1 then mark_arrives now ecnbits (rx, np) else (count_mark ecnbits (fst (rx, np)), snd (rx, np))) = (q1, np1)" by fastforce
  have s1: "ReceiverNextExpectedSeq q1 = ReceiverNextExpectedSeq rx"
    using q1 notice_sel(5)[of now ecnbits "(rx, np)"] count_mark_sel by (auto split: if_splits)
  define q2 where "q2 = (let q = q1\<lparr>m_milestone_rx := h_ack_interval c\<rparr> in
    if rx_flow_id q < 0 then (case fid of None \<Rightarrow> q | Some f \<Rightarrow> q\<lparr>rx_flow_id := f\<rparr>) else q)"
  have s2: "ReceiverNextExpectedSeq q2 = ReceiverNextExpectedSeq rx" "m_milestone_rx q2 = h_ack_interval c"
    by (auto simp: q2_def Let_def s1 split: option.split)
  obtain q3 where q3: "ReceiverCheckSeq c now (uv_seq v) z q2 = Some (1, q3)"
    "unat (ReceiverNextExpectedSeq q3) = max (unat (ReceiverNextExpectedSeq rx)) (unat (uv_seq v) + unat z)"
    using gbn_acks[of c "uv_seq v" q2 z now] irn le fit iv unfolding s2 by metis
  show ?thesis
  proof (rule that)
    show "udp_arrives c mode raw now ecnbits v z fid (rx, np) =
      Some (Some (0xFC, ack_header c mode raw 1 (ReceiverNextExpectedSeq q3) z ecnbits v), q3\<lparr>rx_ipid := rx_ipid q3 + 1\<rparr>, np1)"
      unfolding udp_arrives_def q1 Let_def prod.case q2_def[unfolded Let_def, symmetric] q3(1) option.case by simp
    show "unat (qb_seq (ack_header c mode raw 1 (ReceiverNextExpectedSeq q3) z ecnbits v)) = max (unat (ReceiverNextExpectedSeq rx)) (unat (uv_seq v) + unat z)"
      using q3(2) by (simp add: ack_header_def Let_def qbbHeader_SetCnp_def split: prod.split)
  qed
qed

text \<open>A positive acknowledgement at least as far as what was sent moves both numbers of the sender to
  it, and completes the message exactly when it reaches the end.\<close>
lemma gbn_ack:
  assumes c: "\<not> h_irn c" "\<not> h_backto0 c" "h_ack_interval c \<noteq> 0" "e_mode env \<notin> {3, 7, 8}"
    and q: "\<not> q_irn_enabled q" "unat (snd_una q) < unat (qb_seq h)" "unat (snd_nxt q) \<le> unat (qb_seq h)"
  obtains told q' x' where "ack_arrives c env 0xFC h (q, x) = Some (m_size q \<le> ucast (qb_seq h), told, q', x')"
    "snd_una q' = ucast (qb_seq h)" "snd_nxt q' = ucast (qb_seq h)" "q_irn_enabled q' = q_irn_enabled q" "m_size q' = m_size q"
proof -
  define n where "n = (ucast (qb_seq h) :: u64)"
  have n: "unat n = unat (qb_seq h)" by (simp add: n_def unat_ucast_up)
  define q1 where "q1 = catch_up (Acknowledge n q)"
  have f1: "snd_una q1 = n" "snd_nxt q1 = n" "q_irn_enabled q1 = q_irn_enabled q" "m_size q1 = m_size q"
    using q(2,3) n by (auto simp: q1_def catch_up_def Acknowledge_def word_less_nat_alt word_unat_eq_iff)
  define q2 where "q2 = (if m_size q \<le> n then q1\<lparr>q_retransmit := False\<rparr> else q1)"
  have f2: "same_belief q1 q2" by (simp add: q2_def same_belief_def)
  have fin: "IsFinished q1 = Some (m_size q \<le> n, q1)" using f1 q(1) by (simp add: IsFinished_def skip_sacked_def)
  have "\<not> q_irn_enabled (Acknowledge n q)" using q(1) by (simp add: Acknowledge_def)
  then have b: "ack_block c 0xFC h q = Some (m_size q \<le> n, q2)"
    using c(2,3) fin by (simp add: ack_block_def n_def[symmetric] q1_def[symmetric] q2_def)
  have g2: "snd_una q2 = n" "snd_nxt q2 = n" "q_irn_enabled q2 = q_irn_enabled q" "m_size q2 = m_size q" using f1 f2 by (simp_all add: same_belief_def)
  then have r: "restart_timer q2 = Some q2"
    using q(1) by (auto simp: restart_timer_def IsFinished_def skip_sacked_def GetOnTheFly_def split: bool.split)
  have rec: "ack_recovery c 0xFC h q2 = q2" using c(1) by (simp add: ack_recovery_def)
  obtain told q' x' where a: "ack_rate env h (q2, x) = Some (told, q', x')" using ack_rate_plain[OF c(4), of h "(q2, x)"] by (metis option.exhaust prod_cases3)
  have "ack_arrives c env 0xFC h (q, x) = Some (m_size q \<le> n, told, q', x')" by (simp add: ack_arrives_def b r rec a)
  then show ?thesis using ack_rate_same[OF a] g2 unfolding n_def same_belief_def by (intro that[of told q' x']) simp_all
qed

text \<open>One round trip from the first unacknowledged byte.\<close>
lemma gbn_trip:
  assumes ok: "flow_sane c E" "\<not> h_irn c" "h_ack_interval c \<noteq> 0" "unat (h_ack_interval c) \<le> min (unat (h_mtu c)) E" "e_mode env \<notin> {3, 7, 8}"
    and inv: "gbn_flow.flow_inv c E s j" and nx: "snd_nxt (f_qp s) = snd_una (f_qp s)" and lt: "unat (snd_una (f_qp s)) < E"
  obtains t where "round_trip c env v s = Some t" "snd_nxt (f_qp t) = snd_una (f_qp t)"
    "min E (unat (snd_una (f_qp s)) + unat (h_mtu c)) \<le> unat (snd_una (f_qp t))" "f_done t \<longleftrightarrow> f_done s \<or> unat (snd_una (f_qp t)) = E"
proof -
  define m where "m = unat (h_mtu c)"
  note S = flow_saneD[OF ok(1), folded m_def]
  let ?q = "f_qp s" and ?e = "unat (ReceiverNextExpectedSeq (f_rx s))"
  have q: "snd_ok c m E {0..<min E (j * m)} ?q" and g: "gbn_state c m E (f_rx s) j" using inv by (simp_all add: gbn_flow.flow_inv_def m_def)
  have b: "\<not> q_irn_enabled ?q" "unat (m_size ?q) = E" using q ok(2) by (simp_all add: snd_ok_def snd_base_def)
  have e: "unat (snd_una ?q) \<le> ?e" "?e \<le> E" using gbn_flow.flow_delivers(1)[OF ok(1) inv] g by (simp_all add: gbn_state_def)
  obtain left p q1 where np: "next_plain c ?q = Some (left, p, q1)"
    "left \<noteq> 0 \<longrightarrow> (\<exists>k<chunks_of m E. seq (p_hdr p) = word_of_nat (k * m) \<and> payload_of c p = word_of_nat (chunk_size m E k))"
    by (rule next_plain_ok[OF S(1,3) m_def[symmetric] q])
  have sz: "snd_nxt ?q \<le> m_size ?q" using lt b(2) nx by (simp add: word_le_nat_alt)
  have "GetBytesLeft ?q = Some (m_size ?q - snd_nxt ?q, ?q)" using b(1) sz by (simp add: GetBytesLeft_def skip_sacked_def)
  then obtain n where n: "left = m_size ?q - snd_nxt ?q" "plain_packet c n ?q = (p, q1)" using np(1) by (auto simp: next_plain_def Let_def)
  note P = plain_packet_sel[of c n ?q, unfolded n(2) fst_conv snd_conv]
  have left: "left \<noteq> 0" using lt b(2) nx sz n(1) by auto
  then obtain k where k: "k < chunks_of m E" "seq (p_hdr p) = word_of_nat (k * m)" "payload_of c p = word_of_nat (chunk_size m E k)" using np(2) by blast
  note W = chunk_words[OF S(1) k(1) S(3)]
  let ?stop = "k * m + chunk_size m E k"
  have "unat (ucast (snd_una ?q) :: u32) = unat (snd_una ?q)" using lt S(3) by (simp add: unsigned_ucast_eq take_bit_nat_eq_self)
  then have un: "unat (snd_una ?q) = k * m" using P(2) unfolding k(2) nx by (metis W(1))
  have en: "?stop = min E (unat (snd_una ?q) + m)" using lt un by (auto simp: chunk_size_def)
  have zz: "unat n = chunk_size m E k" using P(1) k(3) W(2) by simp
  have nx1: "unat (snd_nxt q1) = ?stop" using W(3) S(3) un nx by (simp add: P(3) unat_add_lt unat_ucast_up zz)
  have q1: "\<not> q_irn_enabled q1" "snd_una q1 = snd_una ?q" "m_size q1 = m_size ?q" using P b(1) by simp_all
  let ?v = "v\<lparr>uv_seq := seq (p_hdr p)\<rparr>"
  have vs: "unat (uv_seq ?v) = k * m" "unat (payload_of c p) = chunk_size m E k" using k(2,3) W(1,2) by (simp_all del: of_nat_mult)
  have "uv_seq ?v \<le> ReceiverNextExpectedSeq (f_rx s)" unfolding word_le_nat_alt vs using e(1) un by simp
  moreover have "unat (uv_seq ?v) + unat (payload_of c p) < 2 ^ 32" unfolding vs using W(3) S(3) by simp
  moreover have "unat (h_ack_interval c) \<le> unat (uv_seq ?v) + unat (payload_of c p)" unfolding vs en using ok(4) by (simp add: m_def)
  ultimately obtain h rx np' where u: "udp_arrives c (e_mode env) (e_raw env) (e_now env) 0 ?v (payload_of c p) None (f_rx s, f_np s) = Some (Some (0xFC, h), rx, np')"
    "unat (qb_seq h) = max ?e ?stop" unfolding vs(1,2)[symmetric] by (rule gbn_udp[OF ok(2)])
  have "unat (snd_una q1) < unat (qb_seq h)" "unat (snd_nxt q1) \<le> unat (qb_seq h)" using u(2) W(4) un nx1 q1(2) by simp_all
  then obtain told q' x' where a: "ack_arrives c env 0xFC h (q1, f_cc s) = Some (m_size q1 \<le> ucast (qb_seq h), told, q', x')"
    "snd_una q' = ucast (qb_seq h)" "snd_nxt q' = ucast (qb_seq h)" by (rule gbn_ack[OF ok(2) S(4) ok(3,5) q1(1)])
  have su: "unat (snd_una q') = max ?e ?stop" using a(2) u(2) by (simp add: unat_ucast_up)
  have fin: "m_size q1 \<le> ucast (qb_seq h) \<longleftrightarrow> unat (snd_una q') = E"
    using su u(2) e(2) W(3) b(2) q1(3) by (auto simp: word_le_nat_alt unat_ucast_up)
  obtain t where t: "round_trip c env v s = Some t" "f_qp t = q'" "f_done t = (f_done s \<or> m_size q1 \<le> ucast (qb_seq h))"
    using left by (simp add: round_trip_def trip_def np(1) u(1) a(1) Let_def)
  show ?thesis by (rule that[OF t(1)]) (use t(2,3) a(2,3) fin su en m_def in auto)
qed

text \<open>Round trips until the message is complete.\<close>
lemma chunks_mono: "x \<le> y \<Longrightarrow> chunks_of m x \<le> chunks_of m y"
  by (simp add: chunks_of_def div_le_mono)

lemma chunks_less:
  assumes "0 < m" "x + m \<le> y"
  shows "Suc (chunks_of m x) \<le> chunks_of m y"
proof -
  have "x + m + m - 1 = (x + m - 1) + m" using assms(1) by simp
  then have "chunks_of m (x + m) = (x + m - 1 + m) div m" unfolding chunks_of_def by (rule arg_cong)
  also have "\<dots> = (x + m - 1) div m + 1" using assms(1) by (intro div_add_self2) simp
  finally have "chunks_of m (x + m) = Suc (chunks_of m x)" by (simp add: chunks_of_def)
  then show ?thesis using chunks_mono[OF assms(2), of m] by simp
qed

lemma gbn_trips:
  assumes ok: "flow_sane c E" "\<not> h_irn c" "h_ack_interval c \<noteq> 0" "unat (h_ack_interval c) \<le> min (unat (h_mtu c)) E" "e_mode env \<notin> {3, 7, 8}"
    and "gbn_flow.flow_inv c E s j" "snd_nxt (f_qp s) = snd_una (f_qp s)" "unat (snd_una (f_qp s)) < E"
  shows "\<exists>n t j. n \<le> chunks_of (unat (h_mtu c)) (E - unat (snd_una (f_qp s))) \<and> round_trips c env v n s = Some t \<and> f_done t \<and> gbn_flow.flow_inv c E t j"
  using assms(6-8)
proof (induction "E - unat (snd_una (f_qp s))" arbitrary: s j rule: less_induct)
  case less
  note m = flow_saneD(1)[OF ok(1)]
  obtain t where t: "round_trip c env v s = Some t" "snd_nxt (f_qp t) = snd_una (f_qp t)"
    "min E (unat (snd_una (f_qp s)) + unat (h_mtu c)) \<le> unat (snd_una (f_qp t))" "f_done t \<longleftrightarrow> f_done s \<or> unat (snd_una (f_qp t)) = E"
    by (rule gbn_trip[OF ok less.prems])
  obtain j' where j': "gbn_flow.flow_inv c E t j'"
    using gbn_flow.flow_reaches_inv[OF ok(1) less.prems(1) round_trip_reaches[OF t(1) flow_reaches.Start]] by blast
  have le: "unat (snd_una (f_qp t)) \<le> E" using j' edge_le by (auto simp: gbn_flow.flow_inv_def snd_ok_def snd_base_def)
  show ?case
  proof (cases "unat (snd_una (f_qp t)) = E")
    case True
    have "1 \<le> chunks_of (unat (h_mtu c)) (E - unat (snd_una (f_qp s)))" using chunks_of_bound[OF m, of 0] less.prems(3) by (simp add: Suc_le_eq)
    then show ?thesis using t(1,4) True j' by (intro exI[of _ 1] exI[of _ t] exI[of _ j']) simp
  next
    case False
    then have lt: "unat (snd_una (f_qp t)) < E" and far: "unat (snd_una (f_qp s)) + unat (h_mtu c) \<le> unat (snd_una (f_qp t))" using le t(3) by auto
    then have "E - unat (snd_una (f_qp t)) < E - unat (snd_una (f_qp s))" using m less.prems(3) by linarith
    from less.hyps[OF this j' t(2) lt] obtain n u i where u: "n \<le> chunks_of (unat (h_mtu c)) (E - unat (snd_una (f_qp t)))"
      "round_trips c env v n t = Some u" "f_done u" "gbn_flow.flow_inv c E u i" by blast
    have "Suc (chunks_of (unat (h_mtu c)) (E - unat (snd_una (f_qp t)))) \<le> chunks_of (unat (h_mtu c)) (E - unat (snd_una (f_qp s)))"
      using far lt by (intro chunks_less[OF m]) linarith
    then show ?thesis using t(1) u by (intro exI[of _ "Suc n"] exI[of _ u] exI[of _ i]) simp
  qed
qed

text \<open>C20: go-back-N recovers from whatever has been lost.  In any state of such a flow in which the
  message is not finished, once the retransmission timer has fired, loss-free round trips complete
  the message: at most as many as the unacknowledged bytes have chunks, and then completion is
  reported and every byte has arrived.  The interval of acknowledgements must not be longer than the
  first packet.\<close>
theorem gbn_recovers:
  assumes "flow_sane c E" "\<not> h_irn c" "h_ack_interval c \<noteq> 0" "unat (h_ack_interval c) \<le> min (unat (h_mtu c)) E" "e_mode env \<notin> {3, 7, 8}"
    "flow_fresh c E q rx" "flow_reaches c (flow_start q x rx) s" "\<not> IsFinishedConst (f_qp s)" "timeout_expires qbb (f_qp s) = Some q'"
  shows "\<exists>n t. n \<le> chunks_of (unat (h_mtu c)) (E - unat (snd_una (f_qp s))) \<and> round_trips c env v n (s\<lparr>f_qp := q'\<rparr>) = Some t \<and>
    f_done t \<and> {0..<E} \<subseteq> f_arrived t"
proof -
  obtain j where j: "gbn_flow.flow_inv c E s j" using flow_invariant[OF assms(1,6,7)] assms(2) by blast
  then have k: "snd_ok c (unat (h_mtu c)) E {0..<min E (j * unat (h_mtu c))} (f_qp s)" by (simp add: gbn_flow.flow_inv_def)
  then have b: "\<not> q_irn_enabled (f_qp s)" "unat (m_size (f_qp s)) = E" using assms(2) by (simp_all add: snd_ok_def snd_base_def)
  then have q': "q' = recover_qp ((f_qp s)\<lparr>q_retransmit := False\<rparr>)"
    using assms(8,9) by (auto simp: timeout_expires_def IsFinished_def skip_sacked_def IsFinishedConst_def split: bool.splits)
  have lt: "unat (snd_una q') < E" using assms(8) b(2) by (simp add: q' recover_qp_def IsFinishedConst_def word_le_nat_alt not_le)
  have "snd_ok c (unat (h_mtu c)) E {0..<min E (j * unat (h_mtu c))} q'"
    unfolding q' using k by (intro recover_ok) (simp add: snd_ok_def snd_base_def)
  from gbn_flow.flow_inv_qp[OF j this] have i: "gbn_flow.flow_inv c E (s\<lparr>f_qp := q'\<rparr>) j" .
  have nx: "snd_nxt (f_qp (s\<lparr>f_qp := q'\<rparr>)) = snd_una (f_qp (s\<lparr>f_qp := q'\<rparr>))" "unat (snd_una (f_qp (s\<lparr>f_qp := q'\<rparr>))) < E" "snd_una q' = snd_una (f_qp s)"
    using lt by (simp_all add: q' recover_qp_def)
  obtain n t i where t: "n \<le> chunks_of (unat (h_mtu c)) (E - unat (snd_una (f_qp s)))" "round_trips c env v n (s\<lparr>f_qp := q'\<rparr>) = Some t" "f_done t"
    "gbn_flow.flow_inv c E t i" using gbn_trips[OF assms(1-5) i nx(1,2), of v] nx(3) by auto
  have "{0..<E} \<subseteq> f_arrived t" using gbn_flow.flow_delivers(2,3)[OF assms(1) t(4)] t(3) by auto
  then show ?thesis using t by blast
qed

text \<open>The only packet is lost; then the timer fires.\<close>
lemma small_loss:
  "case next_plain (small_cfg False) (small_qp False) of None \<Rightarrow> False
   | Some (left, p, q) \<Rightarrow> left \<noteq> 0 \<and> \<not> IsFinishedConst q \<and> snd_una q = 0 \<and> (case timeout_expires True q of None \<Rightarrow> False | Some _ \<Rightarrow> True)"
  by code_simp

theorem gbn_recovers_witness:
  "\<exists>s q' n t. flow_reaches (small_cfg False) (small_flow False) s \<and> f_arrived s = {} \<and> timeout_expires True (f_qp s) = Some q' \<and>
    n \<le> 1 \<and> round_trips (small_cfg False) plain_env plain_view n (s\<lparr>f_qp := q'\<rparr>) = Some t \<and> f_done t \<and> {0..<3} \<subseteq> f_arrived t"
proof -
  obtain left p q q' where n: "next_plain (small_cfg False) (small_qp False) = Some (left, p, q)" "left \<noteq> 0" "\<not> IsFinishedConst q" "snd_una q = 0"
    "timeout_expires True q = Some q'" using small_loss by (auto split: option.splits)
  define s where "s = (small_flow False)\<lparr>f_qp := q, f_data := insert (seq (p_hdr p), payload_of (small_cfg False) p) (f_data (small_flow False))\<rparr>"
  have "flow_step (small_cfg False) (small_flow False) s" unfolding s_def
    by (rule flow_step.Send) (use n(1,2) in \<open>simp_all add: flow_start_def\<close>)
  then have r: "flow_reaches (small_cfg False) (small_flow False) s" by (rule flow_reaches.Step[OF flow_reaches.Start])
  have c: "\<not> h_irn (small_cfg False)" "h_ack_interval (small_cfg False) \<noteq> 0" "unat (h_ack_interval (small_cfg False)) \<le> min (unat (h_mtu (small_cfg False))) 3"
    "e_mode plain_env \<notin> {3, 7, 8}" by (simp_all add: small_cfg_def irn_cfg_def plain_env_def)
  have f: "f_qp s = q" "f_arrived s = {}" by (simp_all add: s_def flow_start_def)
  have k: "chunks_of (unat (h_mtu (small_cfg False))) (3 - unat (snd_una (f_qp s))) = 1" by (simp add: f(1) n(4) small_cfg_def irn_cfg_def chunks_of_def)
  have e: "\<not> IsFinishedConst (f_qp s)" "timeout_expires True (f_qp s) = Some q'" using n(3,5) f(1) by simp_all
  from gbn_recovers[OF small_setup(1) c small_setup(2) r e, of plain_view, unfolded k] show ?thesis using r f(2) e(2) by blast
qed

end
