(* ===== verification/HybridMsgs.thy ===== *)
theory HybridMsgs
  imports Doubles R2p2Sizes "HOL-Library.Multiset"
begin

text \<open>
  Messages of the ns-2 DPDQ host (apps/r2p2-cc/r2p2/cc/micro-rpcs/r2p2-hybrid-support): the
  header a packet carries, the wire cost of a payload, the state of a message at its sender and
  its receiver, and the containers that hold them.  A container is a vector with a position for
  round robin; a message in it is named by its request id, as the code finds it.  Pointers to
  messages are modelled by the record they point to where a function reads it at once, and by
  the request id where it is kept.
\<close>

section \<open>Overhead\<close>

lemmas wire_sizes = frame_defs MAX_R2P2_PAYLOAD_def MIN_R2P2_PAYLOAD_def R2P2_ALL_HEADERS_SIZE_def

text \<open>The division and remainder of the code are taken of sizes, which are not negative.\<close>
definition add_header_overhead :: "int \<Rightarrow> bool \<Rightarrow> int" where
  "add_header_overhead payload skip_last_pkt_check =
    (let w_hdrs = payload div MAX_R2P2_PAYLOAD *
           (MAX_R2P2_PAYLOAD + R2P2_ALL_HEADERS_SIZE + INTER_PKT_GAP_SIZE + ETHERNET_PREAMBLE_SIZE)
     in if payload mod MAX_R2P2_PAYLOAD > 0 \<and> \<not> skip_last_pkt_check
        then let rem = payload mod MAX_R2P2_PAYLOAD + R2P2_ALL_HEADERS_SIZE + INTER_PKT_GAP_SIZE + ETHERNET_PREAMBLE_SIZE
             in w_hdrs + max rem MIN_ETHERNET_FRAME_ON_WIRE
        else w_hdrs)"

definition remove_header_overhead :: "int \<Rightarrow> int" where
  "remove_header_overhead sz = sz div MAX_ETHERNET_FRAME_ON_WIRE * MAX_R2P2_PAYLOAD"

text \<open>What a packet with this payload takes on the wire.\<close>
definition wire_cost :: "int \<Rightarrow> int" where
  "wire_cost payload = max (payload + R2P2_ALL_HEADERS_SIZE + INTER_PKT_GAP_SIZE + ETHERNET_PREAMBLE_SIZE) MIN_ETHERNET_FRAME_ON_WIRE"

section \<open>Headers (core/r2p2-hdr.h)\<close>

text \<open>The fields that the host's transport reads or writes; what is left out (threads' load,
  HPCC telemetry, fields of other protocols) is carried along by copies only.\<close>
record hdr_r2p2 =
  r_msg_type :: MsgTypes
  r_seq :: int
  r_msg_offset :: int
  r_first :: bool
  r_last :: bool
  r_req_id :: u32
  r_pkt_id :: int
  r_cl_addr :: int
  r_cl_thread_id :: int
  r_sr_addr :: int
  r_sr_thread_id :: int
  r_app_level_id :: int
  r_credit :: int
  r_resend_bytes :: u32
  r_credit_pad :: int
  r_credit_req :: u64
  r_msg_creation_time :: double
  r_sender_marked :: bool
  r_bounced_credit :: bool
  r_is_unsol_pkt :: bool
  r_unsol_credit :: int
  r_unsol_credit_data :: int
  r_used_unsol_credit :: bool
  r_has_scheduled_part :: bool
  r_priority_flow :: bool
  r_bw_ratio :: double

type_synonym uniq_req_id = "int \<times> int \<times> u32"

definition req_id_of :: "hdr_r2p2 \<Rightarrow> uniq_req_id" where
  "req_id_of h = (r_cl_addr h, r_cl_thread_id h, r_req_id h)"

section \<open>The state of a message\<close>

record OutboundMsgState =
  om_req_id :: uniq_req_id
  om_remote_addr :: int
  om_seq :: int
  om_r2p2_hdr :: hdr_r2p2
  total_bytes :: u32
  unsent_bytes :: u32
  is_request :: bool
  sent_anouncement :: bool
  sent_first :: bool
  active :: bool
  usnsol_check_done :: bool
  is_scheduled :: bool
  self_alloc_credit :: int
  self_alloc_credit_data :: int
  remaining_self_alloc_credit_data :: int
  om_msg_creation_time :: double
  bytes_sent :: u32
  resend_ranges :: "(u32 \<times> u32) list"
  resend_queued :: bool
  resend_retire_ts :: double

definition OutboundMsgState_ctor :: "uniq_req_id \<Rightarrow> int \<Rightarrow> hdr_r2p2 \<Rightarrow> OutboundMsgState" where
  "OutboundMsgState_ctor req_id daddr hdr =
    \<lparr>om_req_id = req_id, om_remote_addr = daddr, om_seq = 0, om_r2p2_hdr = hdr, total_bytes = 0, unsent_bytes = 0,
     is_request = True, sent_anouncement = False, sent_first = False, active = False, usnsol_check_done = False,
     is_scheduled = True, self_alloc_credit = 0, self_alloc_credit_data = 0, remaining_self_alloc_credit_data = 0,
     om_msg_creation_time = -1, bytes_sent = 0, resend_ranges = [], resend_queued = False, resend_retire_ts = -1\<rparr>"

record InboundMsgState =
  im_req_id :: uniq_req_id
  im_remote_addr :: int
  im_seq :: int
  first_header :: hdr_r2p2
  data_bytes_expected :: u64
  data_bytes_received :: u64
  data_bytes_granted :: u64
  received_msg_info :: bool
  last_data_pkt_ts :: double
  next_resend_timeout_ts :: double
  received_pkt_bitmap :: "u8 list"

definition InboundMsgState_ctor :: "uniq_req_id \<Rightarrow> int \<Rightarrow> hdr_r2p2 \<Rightarrow> u64 \<Rightarrow> bool \<Rightarrow> InboundMsgState" where
  "InboundMsgState_ctor req_id sender_addr hdr expected got_info =
    \<lparr>im_req_id = req_id, im_remote_addr = sender_addr, im_seq = 0, first_header = hdr, data_bytes_expected = expected,
     data_bytes_received = 0, data_bytes_granted = 0, received_msg_info = got_info, last_data_pkt_ts = 0,
     next_resend_timeout_ts = 0, received_pkt_bitmap = []\<rparr>"

section \<open>Vectors of messages with a round-robin position\<close>

record 'a msg_vec =
  msgs :: "'a list"
  current :: nat

text \<open>A new container is empty; append adds at the back.\<close>
definition msgs_ctor :: "'a msg_vec" where
  "msgs_ctor = \<lparr>msgs = [], current = 0\<rparr>"

definition append_msg :: "'a \<Rightarrow> 'a msg_vec \<Rightarrow> 'a msg_vec" where
  "append_msg m c = c\<lparr>msgs := msgs c @ [m]\<rparr>"

text \<open>The first position with this request id; the code throws if there is none.\<close>
fun find_pos :: "('a \<Rightarrow> uniq_req_id) \<Rightarrow> uniq_req_id \<Rightarrow> 'a list \<Rightarrow> nat option" where
  "find_pos rid r [] = None"
| "find_pos rid r (m # ms) = (if rid m = r then Some 0 else map_option Suc (find_pos rid r ms))"

definition find_msg :: "('a \<Rightarrow> uniq_req_id) \<Rightarrow> uniq_req_id \<Rightarrow> 'a msg_vec \<Rightarrow> 'a option" where
  "find_msg rid r c = List.find (\<lambda>m. rid m = r) (msgs c)"

definition remove_msg :: "('a \<Rightarrow> uniq_req_id) \<Rightarrow> uniq_req_id \<Rightarrow> 'a msg_vec \<Rightarrow> 'a msg_vec option" where
  "remove_msg rid r c =
    map_option (\<lambda>pos.
      let ms = take pos (msgs c) @ drop (Suc pos) (msgs c) in
      \<lparr>msgs = ms,
       current = (if ms = [] then 0
                  else if current c > pos then current c - 1
                  else if current c = pos then current c mod length ms
                  else current c)\<rparr>) (find_pos rid r (msgs c))"

definition peek_next :: "'a msg_vec \<Rightarrow> 'a option" where
  "peek_next c = (if current c < length (msgs c) then Some (msgs c ! current c) else None)"

definition next_msg :: "'a msg_vec \<Rightarrow> ('a \<times> 'a msg_vec) option" where
  "next_msg c = map_option (\<lambda>m. (m, c\<lparr>current := (current c + 1) mod length (msgs c)\<rparr>)) (peek_next c)"

definition reset :: "'a msg_vec \<Rightarrow> 'a msg_vec" where
  "reset c = c\<lparr>current := 0\<rparr>"

text \<open>The round-robin position stays inside the vector when a message is removed, so the next one
  can be taken.\<close>
lemma find_pos_range: "find_pos rid r ms = Some pos \<Longrightarrow> pos < length ms \<and> rid (ms ! pos) = r"
  by (induction ms arbitrary: pos) (auto split: if_splits)

lemma remove_msg_range:
  assumes "remove_msg rid r c = Some c'" "current c < length (msgs c)" "msgs c' \<noteq> []"
  shows "current c' < length (msgs c')" "length (msgs c) = Suc (length (msgs c'))" "next_msg c' \<noteq> None"
proof -
  obtain pos where p: "find_pos rid r (msgs c) = Some pos" using assms(1) by (auto simp: remove_msg_def)
  show "current c' < length (msgs c')" "length (msgs c) = Suc (length (msgs c'))" "next_msg c' \<noteq> None"
    using assms find_pos_range[OF p]
    by (auto simp: remove_msg_def p Let_def next_msg_def peek_next_def split: if_splits)
qed

text \<open>The code writes through pointers into the vector: the message with this id changes in place.\<close>
definition upd_msg :: "('a \<Rightarrow> uniq_req_id) \<Rightarrow> uniq_req_id \<Rightarrow> ('a \<Rightarrow> 'a) \<Rightarrow> 'a msg_vec \<Rightarrow> 'a msg_vec" where
  "upd_msg rid r f c = c\<lparr>msgs := map (\<lambda>m. if rid m = r then f m else m) (msgs c)\<rparr>"

text \<open>std::sort orders the vector by a key; which of two equal messages comes first is up to the
  library, so the sorting function is a parameter.\<close>
definition sorts_by :: "('a \<Rightarrow> 'k::linorder) \<Rightarrow> ('a list \<Rightarrow> 'a list) \<Rightarrow> bool" where
  "sorts_by key srt \<longleftrightarrow> (\<forall>xs. mset (srt xs) = mset xs \<and> sorted (map key (srt xs)))"

text \<open>How many messages have fewer bytes left.\<close>
definition outbound_order_size :: "u32 \<Rightarrow> OutboundMsgState msg_vec \<Rightarrow> nat option" where
  "outbound_order_size rem c = (if msgs c = [] then None
     else Some (length (filter (\<lambda>m. unsent_bytes m < rem) (msgs c))))"

definition inbound_order_size :: "u64 \<Rightarrow> InboundMsgState msg_vec \<Rightarrow> nat option" where
  "inbound_order_size left c = (if msgs c = [] then None
     else let rem = ucast (ucast left :: u32) :: u64 in
       Some (length (filter (\<lambda>m. data_bytes_expected m - data_bytes_received m < rem \<and>
         data_bytes_expected m - data_bytes_granted m > 0) (msgs c))))"

text \<open>The wire cost of all that is unsent.\<close>
definition unsent_wire :: "OutboundMsgState msg_vec \<Rightarrow> int" where
  "unsent_wire c = fold (\<lambda>m acc. acc + add_header_overhead (sint (unsent_bytes m)) False) (msgs c) 0"

end
