(* ===== verification/DeficitGame.thy ===== *)
theory DeficitGame
  imports Doubles
begin

text \<open>
  Deficits that are filled and emptied: in every round a total of at most 1 is spread over a
  fixed set of accounts, however it likes, and then 1 is taken from a fullest one.  However
  unevenly the rounds fill, no account grows beyond the harmonic number of the accounts.  The
  sender policy of the ns-2 host is such a game; its arithmetic rounds, so every round may
  also be off by a small amount, which adds up over the rounds.
\<close>

definition harmonic :: "nat \<Rightarrow> rat" where
  "harmonic n = (\<Sum>j = 1..n. 1 / of_nat j)"

lemma harmonic_0 [simp]: "harmonic 0 = 0"
  by (simp add: harmonic_def)

lemma harmonic_Suc: "harmonic (Suc n) = harmonic n + 1 / of_nat (Suc n)"
  by (simp add: harmonic_def)

lemma harmonic_mono: "m \<le> n \<Longrightarrow> harmonic m \<le> harmonic n"
  unfolding harmonic_def by (rule sum_mono2) auto

text \<open>What any k of N accounts may hold together.\<close>
definition share_cap :: "nat \<Rightarrow> nat \<Rightarrow> rat" where
  "share_cap N k = of_nat k * (1 + harmonic N - harmonic k)"

lemma share_cap_0 [simp]: "share_cap N 0 = 0"
  by (simp add: share_cap_def)

lemma share_cap_1: "share_cap N 1 = harmonic N"
  by (simp add: share_cap_def harmonic_def)

lemma share_cap_Suc: "share_cap N (Suc k) = share_cap N k + harmonic N - harmonic k"
proof -
  have "of_nat (Suc k) * (1 / of_nat (Suc k)) = (1 :: rat)" by simp
  then show ?thesis by (simp add: share_cap_def harmonic_Suc algebra_simps add_divide_distrib)
qed

text \<open>Taking one from the fullest of k + 1 accounts.\<close>
lemma share_cap_rest:
  "of_nat k * (share_cap N (Suc k) + 1) = of_nat (Suc k) * share_cap N k"
  unfolding share_cap_Suc by (simp add: share_cap_def algebra_simps)

lemma share_cap_ge: "k \<le> N \<Longrightarrow> of_nat k \<le> share_cap N k"
  using harmonic_mono[of k N] mult_left_mono[of 1 "1 + harmonic N - harmonic k" "of_nat k"]
  by (simp add: share_cap_def)

text \<open>Every set of accounts holds what it may, up to a slack.\<close>
definition shares_ok :: "'a set \<Rightarrow> rat \<Rightarrow> ('a \<Rightarrow> rat) \<Rightarrow> bool" where
  "shares_ok U s d \<longleftrightarrow> 0 \<le> s \<and> (\<forall>S\<subseteq>U. sum d S \<le> share_cap (card U) (card S) + s)"

lemma shares_ok_bound: "shares_ok U s d \<Longrightarrow> a \<in> U \<Longrightarrow> d a \<le> harmonic (card U) + s"
  using share_cap_1[of "card U"] by (auto simp: shares_ok_def dest: spec[of _ "{a}"])

lemma shares_ok_mono:
  assumes "shares_ok U s d" "\<And>a. a \<in> U \<Longrightarrow> d' a \<le> d a" "s \<le> s'"
  shows "shares_ok U s' d'"
  unfolding shares_ok_def
proof (intro conjI allI impI)
  fix S assume S: "S \<subseteq> U"
  have "sum d' S \<le> sum d S" using assms(2) S by (intro sum_mono) auto
  then show "sum d' S \<le> share_cap (card U) (card S) + s'"
    using assms(1,3) S unfolding shares_ok_def by (meson add_left_mono order_trans)
qed (use assms(1,3) in \<open>auto simp: shares_ok_def\<close>)

lemma shares_ok_zero: "finite U \<Longrightarrow> 0 \<le> s \<Longrightarrow> shares_ok U s (\<lambda>_. 0)"
  unfolding shares_ok_def
  by (auto intro!: add_nonneg_nonneg order_trans[OF _ share_cap_ge] card_mono)

text \<open>One round.  The filling adds at most 1, and both the filling and the taking may be off
  by a little.\<close>
definition share_round :: "'a set \<Rightarrow> ('a \<Rightarrow> rat) \<Rightarrow> ('a \<Rightarrow> rat) \<Rightarrow> ('a \<Rightarrow> rat) \<Rightarrow> ('a \<Rightarrow> rat) \<Rightarrow> 'a \<Rightarrow> rat \<Rightarrow> bool" where
  "share_round U d q d2 d3 m \<epsilon> \<longleftrightarrow> finite U \<and> m \<in> U \<and> 0 \<le> \<epsilon> \<and> (\<forall>a\<in>U. 0 \<le> q a) \<and> sum q U \<le> 1 + \<epsilon> \<and>
     (\<forall>a\<in>U. d2 a \<le> d a + q a) \<and> (\<forall>a\<in>U. d2 a \<le> d2 m) \<and> d3 m \<le> d2 m - 1 + \<epsilon> \<and> (\<forall>a\<in>U. a \<noteq> m \<longrightarrow> d3 a \<le> d2 a)"

lemma filled_sum:
  assumes r: "share_round U d q d2 d3 m \<epsilon>" and S: "S \<subseteq> U"
  shows "sum d2 S \<le> sum d S + (1 + \<epsilon>)"
proof -
  have fin: "finite U" and filled: "\<And>a. a \<in> U \<Longrightarrow> d2 a \<le> d a + q a" and nonneg: "\<And>a. a \<in> U \<Longrightarrow> 0 \<le> q a"
    and total: "sum q U \<le> 1 + \<epsilon>" using r by (auto simp: share_round_def)
  have "sum d2 S \<le> sum d S + sum q S"
    using filled S by (simp add: subset_iff sum_mono flip: sum.distrib)
  moreover have "sum q S \<le> sum q U" using S nonneg by (intro sum_mono2[OF fin]) auto
  ultimately show ?thesis using total by linarith
qed

text \<open>A set with the account emptied loses what was filled in.\<close>
lemma round_with:
  assumes r: "share_round U d q d2 d3 m \<epsilon>" and S: "S \<subseteq> U" "m \<in> S"
  shows "sum d3 S \<le> sum d S + 2 * \<epsilon>"
proof -
  have f: "finite S" and others: "\<And>a. a \<in> U \<Longrightarrow> a \<noteq> m \<Longrightarrow> d3 a \<le> d2 a" and taken: "d3 m \<le> d2 m - 1 + \<epsilon>"
    using r S(1) by (auto simp: share_round_def intro: finite_subset)
  have "sum d3 (S - {m}) \<le> sum d2 (S - {m})" using others S(1) by (intro sum_mono) auto
  then have "sum d3 S \<le> sum d2 S - 1 + \<epsilon>"
    using taken sum.remove[OF f S(2), of d3] sum.remove[OF f S(2), of d2] by linarith
  then show ?thesis using filled_sum[OF r S(1)] by linarith
qed

text \<open>A set without it holds no more than its part of the set with it.\<close>
lemma round_without:
  assumes r: "share_round U d q d2 d3 m \<epsilon>" and S: "S \<subseteq> U" "m \<notin> S"
  shows "of_nat (Suc (card S)) * sum d3 S \<le> of_nat (card S) * (sum d (insert m S) + (1 + \<epsilon>))"
proof -
  have f: "finite S" and others: "\<And>a. a \<in> U \<Longrightarrow> a \<noteq> m \<Longrightarrow> d3 a \<le> d2 a" and m: "m \<in> U"
    and fullest: "\<And>a. a \<in> U \<Longrightarrow> d2 a \<le> d2 m" using r S(1) by (auto simp: share_round_def intro: finite_subset)
  have "sum d3 S \<le> sum d2 S" using others S by (intro sum_mono) auto
  moreover have "sum d2 S \<le> of_nat (card S) * d2 m"
    using sum_bounded_above[of S d2 "d2 m"] fullest S(1) by auto
  ultimately have "of_nat (Suc (card S)) * sum d3 S \<le> of_nat (card S) * (sum d2 S + d2 m)"
    using mult_left_mono[of "sum d3 S" "sum d2 S" "of_nat (card S)"] by (simp add: algebra_simps)
  also have "sum d2 S + d2 m = sum d2 (insert m S)" using f S(2) by simp
  also have "\<dots> \<le> sum d (insert m S) + (1 + \<epsilon>)" by (rule filled_sum[OF r]) (use S(1) m in auto)
  finally show ?thesis by (simp add: mult_left_mono)
qed

lemma round_bound:
  assumes r: "share_round U d q d2 d3 m \<epsilon>"
    and pre: "\<And>S. S \<subseteq> U \<Longrightarrow> m \<in> S \<Longrightarrow> sum d S \<le> share_cap (card U) (card S) + s" and s: "0 \<le> s"
  shows "shares_ok U (s + 2 * \<epsilon>) d3"
proof -
  have fin: "finite U" and m: "m \<in> U" and eta: "0 \<le> \<epsilon>" using r by (auto simp: share_round_def)
  show ?thesis
  unfolding shares_ok_def
proof (intro conjI allI impI)
  fix S assume S: "S \<subseteq> U"
  show "sum d3 S \<le> share_cap (card U) (card S) + (s + 2 * \<epsilon>)"
  proof (cases "m \<in> S")
    case True
    then show ?thesis using round_with[OF r S True] pre[OF S True] by linarith
  next
    case False
    let ?k = "card S"
    have c: "card (insert m S) = Suc ?k" using False finite_subset[OF S fin] by simp
    have "sum d (insert m S) + (1 + \<epsilon>) \<le> share_cap (card U) (Suc ?k) + 1 + (s + \<epsilon>)"
      using pre[of "insert m S"] S m c by simp
    then have "of_nat (Suc ?k) * sum d3 S \<le> of_nat ?k * (share_cap (card U) (Suc ?k) + 1 + (s + \<epsilon>))"
      using round_without[OF r S False] by (meson mult_left_mono of_nat_0_le_iff order_trans)
    also have "\<dots> = of_nat (Suc ?k) * share_cap (card U) ?k + of_nat ?k * (s + \<epsilon>)"
      using share_cap_rest[of ?k "card U"] by (simp add: algebra_simps)
    also have "\<dots> \<le> of_nat (Suc ?k) * (share_cap (card U) ?k + (s + 2 * \<epsilon>))"
      using s eta mult_right_mono[of "of_nat ?k" "of_nat (Suc ?k)" "s + \<epsilon>"]
        mult_left_mono[of "s + \<epsilon>" "s + 2 * \<epsilon>" "of_nat (Suc ?k)"]
      by (simp add: algebra_simps)
    finally show ?thesis by (rule mult_left_le_imp_le) simp
  qed
qed (use s eta in simp)
qed

text \<open>Rounds that start from accounts that hold what they may.\<close>
lemma round_keeps: "share_round U d q d2 d3 m \<epsilon> \<Longrightarrow> shares_ok U s d \<Longrightarrow> shares_ok U (s + 2 * \<epsilon>) d3"
  by (rule round_bound) (auto simp: shares_ok_def)

text \<open>A round that starts with every account below 1 forgets the slack.\<close>
lemma round_from_low:
  assumes r: "share_round U d q d2 d3 m \<epsilon>" and low: "\<And>a. a \<in> U \<Longrightarrow> d a \<le> 1"
  shows "shares_ok U (2 * \<epsilon>) d3"
proof -
  have "sum d S \<le> share_cap (card U) (card S) + 0" if "S \<subseteq> U" for S
  proof -
    have "finite U" using r by (simp add: share_round_def)
    have "sum d S \<le> of_nat (card S)" using sum_bounded_above[of S d 1] low that by auto
    also have "\<dots> \<le> share_cap (card U) (card S)" by (rule share_cap_ge) (use that \<open>finite U\<close> card_mono in auto)
    finally show ?thesis by simp
  qed
  then show ?thesis using round_bound[OF r, of 0] by simp
qed

end
