(* ===== verification/HybridPolicy.thy ===== *)
theory HybridPolicy
  imports HybridMsgs DeficitGame "HOL-Library.AList"
begin

text \<open>
  Which receiver an ns-2 DPDQ host sends to (hysup::ReceiverState and hysup::Receivers of
  r2p2-hybrid-support.cc).  Every receiver puts forward one message it has credit for; the
  receivers then share the uplink by deficits.  Each packet sent costs 1; before each, the
  receivers that can send get a quantum: an equal part of one weight, and all of the other
  weight for the receiver whose message comes first under the policy.

  The unordered maps of the code are association lists in the order they are iterated in.  A
  failed assertion, an exception and a loop that does not end are the result None.
\<close>

section \<open>State\<close>

record HostReceiverState =
  avail_credit_bytes :: int
  avail_credit_data_bytes :: int
  rcver_addr :: int
  out_msgs :: "OutboundMsgState msg_vec"
  should_reset :: bool

definition HostReceiverState_ctor :: "int \<Rightarrow> HostReceiverState" where
  "HostReceiverState_ctor daddr = \<lparr>avail_credit_bytes = 0, avail_credit_data_bytes = 0, rcver_addr = daddr,
     out_msgs = msgs_ctor, should_reset = False\<rparr>"

text \<open>The pointer to the receiver's state is its address, the key of the entry.\<close>
record PolicyState =
  deficit :: double
  quantum :: double
  can_send :: bool
  priority_flow :: bool
  num_can_send :: int
  want_to_send_bytes :: u32
  msg_state :: "OutboundMsgState option"

definition PolicyState_ctor :: PolicyState where
  "PolicyState_ctor = \<lparr>deficit = 0, quantum = -1, can_send = False, priority_flow = False, num_can_send = -1,
     want_to_send_bytes = 0, msg_state = None\<rparr>"

record Receivers =
  remotes :: "(int \<times> HostReceiverState) list"
  fs_weight :: double
  srpt_weight :: double
  rcver_policy_states :: "(int \<times> PolicyState) list"

definition Receivers_ctor :: Receivers where
  "Receivers_ctor = \<lparr>remotes = [], fs_weight = 1, srpt_weight = 0, rcver_policy_states = []\<rparr>"

definition set_policy_weights :: "double \<Rightarrow> double \<Rightarrow> Receivers \<Rightarrow> Receivers option" where
  "set_policy_weights fsw srptw R =
    (if fsub 1 (fadd fsw srptw) < dbl (1 / 1000000) then Some (R\<lparr>fs_weight := fsw, srpt_weight := srptw\<rparr>) else None)"

section \<open>The receivers\<close>

definition find_remote :: "int \<Rightarrow> Receivers \<Rightarrow> HostReceiverState option" where
  "find_remote daddr R = map_of (remotes R) daddr"

definition upd_remote :: "int \<Rightarrow> HostReceiverState \<Rightarrow> Receivers \<Rightarrow> Receivers" where
  "upd_remote daddr rs R = R\<lparr>remotes := AList.update daddr rs (remotes R)\<rparr>"

text \<open>A new receiver gets a policy state.\<close>
definition on_create :: "int \<Rightarrow> Receivers \<Rightarrow> Receivers" where
  "on_create daddr R = R\<lparr>rcver_policy_states := AList.update daddr PolicyState_ctor (rcver_policy_states R)\<rparr>"

definition find_or_create :: "int \<Rightarrow> Receivers \<Rightarrow> HostReceiverState \<times> Receivers" where
  "find_or_create daddr R =
    (case find_remote daddr R of
       Some rs \<Rightarrow> (rs, R)
     | None \<Rightarrow> let rs = HostReceiverState_ctor daddr in (rs, on_create daddr (upd_remote daddr rs R)))"

definition num_outbound :: "Receivers \<Rightarrow> nat" where
  "num_outbound R = fold (\<lambda>(a, rs) num. num + length (msgs (out_msgs rs))) (remotes R) 0"

text \<open>Sums of int values are added up in 64 bits.\<close>
definition get_total_available_credit :: "Receivers \<Rightarrow> u64" where
  "get_total_available_credit R = fold (\<lambda>(a, rs) num. num + word_of_int (avail_credit_bytes rs)) (remotes R) 0"

definition get_available_credit :: "int \<Rightarrow> Receivers \<Rightarrow> u64" where
  "get_available_credit receiver R =
    (case find_remote receiver R of Some rs \<Rightarrow> word_of_int (avail_credit_bytes rs) | None \<Rightarrow> 0)"

definition credit_expected :: "HostReceiverState \<Rightarrow> u32 option" where
  "credit_expected rs =
    (let credit_still_expected = unsent_wire (out_msgs rs) - avail_credit_bytes rs
     in if credit_still_expected \<ge> 0 then Some (word_of_int credit_still_expected) else None)"

fun num_receivers_owing_credit :: "(int \<times> HostReceiverState) list \<Rightarrow> nat \<Rightarrow> nat option" where
  "num_receivers_owing_credit [] num = Some num"
| "num_receivers_owing_credit ((a, rs) # xs) num =
    (case credit_expected rs of None \<Rightarrow> None
     | Some e \<Rightarrow> num_receivers_owing_credit xs (if e > 0 then num + 1 else num))"

text \<open>An unknown receiver is reported and nothing is found.\<close>
definition find_outbound_msg :: "int \<Rightarrow> uniq_req_id \<Rightarrow> Receivers \<Rightarrow> OutboundMsgState option" where
  "find_outbound_msg receiver req_id R =
    (case find_remote receiver R of None \<Rightarrow> None | Some rs \<Rightarrow> find_msg om_req_id req_id (out_msgs rs))"

definition get_msg_srpt_order :: "u32 \<Rightarrow> Receivers \<Rightarrow> nat option" where
  "get_msg_srpt_order rem R =
    outbound_order_size rem (fold (\<lambda>(a, rs) c. fold append_msg (msgs (out_msgs rs)) c) (remotes R) msgs_ctor)"

section \<open>What a receiver puts forward\<close>

text \<open>The bytes a packet of this message takes on the wire; the assertions that they are between
  the smallest and the largest frame hold by this formula.\<close>
definition wire_need :: "u32 \<Rightarrow> u32" where
  "wire_need unsent = max (min 1458 unsent + 60 + 12 + 8) 84"

definition want_step :: "u64 \<Rightarrow> OutboundMsgState \<Rightarrow> PolicyState \<Rightarrow> PolicyState" where
  "want_step credit_avail m ps =
    (if unsent_bytes m = 0 then ps
     else let to_send = wire_need (unsent_bytes m) in
       if credit_avail \<ge> ucast to_send then
         if can_send ps \<and> sent_anouncement m then ps
         else ps\<lparr>can_send := True, msg_state := Some m, want_to_send_bytes := to_send\<rparr>
       else ps)"

fun want_loop :: "nat \<Rightarrow> u64 \<Rightarrow> OutboundMsgState msg_vec \<Rightarrow> PolicyState \<Rightarrow> (OutboundMsgState msg_vec \<times> PolicyState) option" where
  "want_loop 0 credit_avail c ps = Some (c, ps)"
| "want_loop (Suc n) credit_avail c ps =
    (case next_msg c of None \<Rightarrow> None | Some (m, c) \<Rightarrow> want_loop n credit_avail c (want_step credit_avail m ps))"

text \<open>Nothing to send: the deficit is given up.\<close>
definition nothing_to_send :: "PolicyState \<Rightarrow> PolicyState" where
  "nothing_to_send ps = ps\<lparr>deficit := 0, want_to_send_bytes := 0, quantum := 0, msg_state := None\<rparr>"

definition want_to_send ::
  "(OutboundMsgState list \<Rightarrow> OutboundMsgState list) \<Rightarrow> HostReceiverState \<Rightarrow> PolicyState \<Rightarrow> (HostReceiverState \<times> PolicyState) option" where
  "want_to_send srt rs ps =
    (let ps = ps\<lparr>can_send := False, msg_state := None, want_to_send_bytes := 0\<rparr>;
         n = length (msgs (out_msgs rs))
     in if n = 0 then Some (rs, nothing_to_send ps)
        else case want_loop n (word_of_int (avail_credit_bytes rs)) (reset ((out_msgs rs)\<lparr>msgs := srt (msgs (out_msgs rs))\<rparr>)) ps of
          None \<Rightarrow> None
        | Some (c, ps) \<Rightarrow> Some (rs\<lparr>out_msgs := c\<rparr>, if can_send ps then ps else nothing_to_send ps))"

section \<open>Sharing the uplink\<close>

text \<open>What the first loop over the receivers works out.\<close>
record policy_scan =
  sc_num :: int
  sc_prio :: int
  sc_prio_flow :: int
  sc_best :: int
  sc_best_flow :: int

definition MAXINT :: int where "MAXINT = 2147483647"

definition scan_start :: "int \<Rightarrow> policy_scan" where
  "scan_start sender_policy = \<lparr>sc_num = 0, sc_prio = (if sender_policy = 2 then 0 else MAXINT), sc_prio_flow = MAXINT,
     sc_best = -1, sc_best_flow = -1\<rparr>"

definition scan_one :: "int \<Rightarrow> int \<Rightarrow> HostReceiverState \<Rightarrow> OutboundMsgState \<Rightarrow> policy_scan \<Rightarrow> policy_scan option" where
  "scan_one sender_policy a rs m sc =
    (let sc = sc\<lparr>sc_num := sc_num sc + 1\<rparr>; left = sint (unsent_bytes m) in
     map_option (\<lambda>sc. if left < sc_prio_flow sc then sc\<lparr>sc_prio_flow := left, sc_best_flow := a\<rparr> else sc)
       (if sender_policy = 2
        then Some (if avail_credit_data_bytes rs > sc_prio sc then sc\<lparr>sc_prio := avail_credit_data_bytes rs, sc_best := a\<rparr> else sc)
        else if sender_policy = 0 \<or> sender_policy = 1
        then Some (if left < sc_prio sc then sc\<lparr>sc_prio := left, sc_best := a\<rparr> else sc)
        else None))"

fun scan_receivers ::
  "(OutboundMsgState list \<Rightarrow> OutboundMsgState list) \<Rightarrow> int \<Rightarrow> (int \<times> PolicyState) list \<Rightarrow> (int \<times> HostReceiverState) list \<Rightarrow>
     policy_scan \<Rightarrow> ((int \<times> HostReceiverState) list \<times> (int \<times> PolicyState) list \<times> policy_scan) option" where
  "scan_receivers srt sender_policy [] rem sc = Some (rem, [], sc)"
| "scan_receivers srt sender_policy ((a, ps) # pss) rem sc =
    (case map_of rem a of None \<Rightarrow> None
     | Some rs \<Rightarrow> case want_to_send srt rs ps of None \<Rightarrow> None
     | Some (rs, ps) \<Rightarrow> case (if can_send ps
            then case msg_state ps of None \<Rightarrow> None | Some m \<Rightarrow> scan_one sender_policy a rs m sc
            else if deficit ps < dbl (1 / 1000000) then Some sc else None) of None \<Rightarrow> None
     | Some sc \<Rightarrow> if deficit ps \<ge> 0
         then map_option (\<lambda>(rem, pss, sc). (rem, (a, ps) # pss, sc))
           (scan_receivers srt sender_policy pss (AList.update a rs rem) sc)
         else None)"

text \<open>The second loop: the quantum of every receiver that can send.\<close>
definition give_quantum :: "double \<Rightarrow> double \<Rightarrow> policy_scan \<Rightarrow> int \<Rightarrow> PolicyState \<Rightarrow> PolicyState option" where
  "give_quantum high low sc a ps =
    (if can_send ps then
       if want_to_send_bytes ps > 0 \<and> deficit ps \<ge> 0 \<and> msg_state ps \<noteq> None
       then let q = (if a = sc_best sc then high else low)
            in Some (ps\<lparr>deficit := fadd (deficit ps) q, quantum := q, priority_flow := (a = sc_best_flow sc)\<rparr>)
       else None
     else if deficit ps < dbl (1 / 1000000) then Some ps else None)"

fun give_all_quanta :: "double \<Rightarrow> double \<Rightarrow> policy_scan \<Rightarrow> (int \<times> PolicyState) list \<Rightarrow> (int \<times> PolicyState) list option" where
  "give_all_quanta high low sc [] = Some []"
| "give_all_quanta high low sc ((a, ps) # pss) =
    (case give_quantum high low sc a ps of None \<Rightarrow> None
     | Some ps \<Rightarrow> map_option (Cons (a, ps)) (give_all_quanta high low sc pss))"

text \<open>The quanta for n receivers: an equal part of the first weight, and for the receiver that comes
  first all of the second weight besides (srpt\_quantum is 1).\<close>
definition low_quantum :: "Receivers \<Rightarrow> int \<Rightarrow> double" where
  "low_quantum R n = fmul (fdiv 1 (dbl_of_int n)) (fs_weight R)"

definition high_quantum :: "Receivers \<Rightarrow> int \<Rightarrow> double" where
  "high_quantum R n = fadd (fmul (fdiv 1 (dbl_of_int n)) (fs_weight R)) (fmul 1 (srpt_weight R))"

definition update_policy_state ::
  "(OutboundMsgState list \<Rightarrow> OutboundMsgState list) \<Rightarrow> int \<Rightarrow> Receivers \<Rightarrow> Receivers option" where
  "update_policy_state srt sender_policy R =
    (if remotes R = [] then None
     else case scan_receivers srt sender_policy (rcver_policy_states R) (remotes R) (scan_start sender_policy) of
       None \<Rightarrow> None
     | Some (rem, pss, sc) \<Rightarrow>
         if sc_num sc = 0 then Some (R\<lparr>remotes := rem, rcver_policy_states := pss\<rparr>)
         else let pss = map (\<lambda>(a, ps). (a, ps\<lparr>num_can_send := sc_num sc\<rparr>)) pss;
                  high = high_quantum R (sc_num sc);
                  low = low_quantum R (sc_num sc)
              in if sc_best sc \<ge> 0 \<and> sc_best_flow sc \<ge> 0 \<and>
                    fsub (fadd high (fmul (dbl_of_int (sc_num sc - 1)) low)) 1 < dbl (1 / 100000) \<and>
                    0 \<le> low \<and> low \<le> 1 \<and> 0 \<le> high \<and> high \<le> 1
                 then map_option (\<lambda>pss. R\<lparr>remotes := rem, rcver_policy_states := pss\<rparr>) (give_all_quanta high low sc pss)
                 else None)"

text \<open>The receiver with the highest deficit, the first of equal ones.\<close>
fun select_scan :: "(int \<times> PolicyState) list \<Rightarrow> int option \<Rightarrow> double \<Rightarrow> (int option \<times> double) option" where
  "select_scan [] ret highest = Some (ret, highest)"
| "select_scan ((a, ps) # pss) ret highest =
    (if can_send ps then
       if deficit ps > highest then
         if deficit ps \<ge> dbl (1 / 1000000) \<and> quantum ps \<ge> dbl (1 / 1000000) then select_scan pss (Some a) (deficit ps) else None
       else select_scan pss ret highest
     else if deficit ps < dbl (1 / 1000000) then select_scan pss ret highest else None)"

definition refill_one :: "PolicyState \<Rightarrow> PolicyState" where
  "refill_one ps = (if can_send ps then ps\<lparr>deficit := fadd (deficit ps) (quantum ps)\<rparr> else ps)"

definition refill_ok :: "PolicyState \<Rightarrow> bool" where
  "refill_ok ps \<longleftrightarrow> can_send ps \<longrightarrow> quantum ps \<ge> dbl (1 / 1000000)"

text \<open>The result is the address of the receiver chosen.\<close>
partial_function (option) select_msg_to_send :: "(int \<times> PolicyState) list \<Rightarrow> (int option \<times> (int \<times> PolicyState) list) option" where
  "select_msg_to_send pss =
    (case select_scan pss None (-1) of
       None \<Rightarrow> None
     | Some (None, highest) \<Rightarrow> Some (None, pss)
     | Some (Some a, highest) \<Rightarrow>
         if highest < 1 then
           if list_all (\<lambda>(a, ps). refill_ok ps) pss then select_msg_to_send (map (\<lambda>(a, ps). (a, refill_one ps)) pss) else None
         else let d = fsub highest 1 in
           if d \<le> 10 then Some (Some a, map (\<lambda>(b, ps). (b, if b = a then ps\<lparr>deficit := d\<rparr> else ps)) pss) else None)"

end
