(* ===== verification/Rounding.thy ===== *)
theory Rounding
  imports Doubles
begin

text \<open>
  How far rounding moves a value: at most the 2^53rd part of it; powers of two and rounded
  values stay put.  The bounds on one addition, subtraction or product of small values that the
  sharing of the uplink rests on follow.
\<close>

lemma rhe_error: "\<bar>of_int (rhe x) - x\<bar> \<le> 1 / 2"
proof -
  have "of_int \<lfloor>x\<rfloor> \<le> x" "x < of_int \<lfloor>x\<rfloor> + 1" by simp linarith
  then show ?thesis unfolding rhe_def Let_def by (auto simp only: abs_le_iff of_int_add of_int_1 split: if_split)
qed

lemma pow2_minus: "pow2 (- int p) = 1 / 2 ^ p"
  by (cases "p = 0") (simp_all add: pow2_def)

lemma rnd_pos_error:
  assumes "0 < x" "0 < p"
  shows "\<bar>rnd_pos p x - x\<bar> \<le> x / 2 ^ p"
proof -
  define e where "e = ilog2 x - int p + 1"
  have "rnd_pos p x - x = (of_int (rhe (x / pow2 e)) - x / pow2 e) * pow2 e"
    by (simp add: rnd_pos_def Let_def left_diff_distrib flip: e_def)
  then have "\<bar>rnd_pos p x - x\<bar> = \<bar>of_int (rhe (x / pow2 e)) - x / pow2 e\<bar> * pow2 e"
    by (simp add: abs_mult)
  also have "\<dots> \<le> 1 / 2 * pow2 e" using rhe_error by (simp add: mult_right_mono)
  also have "\<dots> = pow2 (ilog2 x) / 2 ^ p"
    using pow2_add[of "ilog2 x" "- int p"] pow2_add[of "ilog2 x - int p" 1]
    by (simp add: e_def pow2_minus pow2_def[of 1])
  also have "\<dots> \<le> x / 2 ^ p" using ilog2_bounds(1)[OF assms(1)] by (simp add: divide_right_mono)
  finally show ?thesis .
qed

lemma dbl_error: "0 \<le> x \<Longrightarrow> \<bar>dbl x - x\<bar> \<le> x / 2 ^ 53"
  using rnd_pos_error[of x 53] by (cases "x = 0") (simp_all add: dbl_def rnd_def)

lemma dbl_rounds_between:
  assumes "0 \<le> x"
  shows "x * (1 - 1 / 2 ^ 53) \<le> dbl x" "dbl x \<le> x * (1 + 1 / 2 ^ 53)"
proof -
  have "dbl x - x \<le> x / 2 ^ 53" "- (dbl x - x) \<le> x / 2 ^ 53" using dbl_error[OF assms] by (simp_all only: abs_le_iff)
  then show "x * (1 - 1 / 2 ^ 53) \<le> dbl x" "dbl x \<le> x * (1 + 1 / 2 ^ 53)" by (simp_all add: field_simps)
qed

lemma dbl_near:
  assumes "0 \<le> x" "x \<le> 16"
  shows "dbl x \<le> x + 1 / 2 ^ 49" "x - 1 / 2 ^ 49 \<le> dbl x"
  using dbl_rounds_between[OF assms(1)] assms(2) by (simp_all add: field_simps)

section \<open>Values that are not moved\<close>

lemma ilog2_scale: "0 < x \<Longrightarrow> ilog2 (x * pow2 k) = ilog2 x + k"
  using ilog2_bounds[of x] mult_right_mono[of "pow2 (ilog2 x)" x "pow2 k"]
    mult_strict_right_mono[of x "pow2 (ilog2 x + 1)" "pow2 k"]
  by (intro ilog2_unique) (simp_all add: ac_simps flip: pow2_add)

lemma rnd_pos_scale: "0 < x \<Longrightarrow> rnd_pos p (x * pow2 k) = rnd_pos p x * pow2 k"
  using pow2_add[of "ilog2 x - int p + 1" k]
  by (simp add: rnd_pos_def Let_def ilog2_scale algebra_simps)

lemma dbl_scaled: "n \<le> 2 ^ 53 \<Longrightarrow> dbl (of_nat n * pow2 k) = of_nat n * pow2 k"
  by (cases "n = 0") (simp_all add: dbl_def rnd_def rnd_pos_scale rnd_pos_of_nat)

lemma dbl_pow2: "dbl (pow2 k) = pow2 k"
  using dbl_scaled[of 1 k] by simp

lemma dbl_dbl: "0 \<le> x \<Longrightarrow> dbl (dbl x) = dbl x"
proof (cases "x = 0")
  assume x: "0 \<le> x" "x \<noteq> 0"
  define e where "e = ilog2 x - 52"
  have "0 < x" using x by simp
  then have r: "dbl x = of_int (rhe (x / pow2 e)) * pow2 e" by (simp add: dbl_def rnd_def rnd_pos_def Let_def e_def)
  have "dbl x \<le> pow2 53 * pow2 e" using rnd_pos_upper[of x 53] \<open>0 < x\<close> pow2_add[of 53 e]
    by (simp add: dbl_def rnd_def e_def add.commute)
  then have "of_int (rhe (x / pow2 e)) \<le> pow2 53" unfolding r by simp
  then have "(of_int (rhe (x / pow2 e)) :: rat) \<le> of_int (2 ^ 53)" by (simp add: pow2_def)
  then have "rhe (x / pow2 e) \<le> 2 ^ 53" by (simp only: of_int_le_iff)
  moreover have "0 \<le> rhe (x / pow2 e)" using dbl_nonneg[OF x(1)] unfolding r
    by (metis mult_le_0_iff of_int_0_le_iff pow2_pos leD order.order_iff_strict zero_le_mult_iff)
  ultimately show ?thesis using dbl_scaled[of "nat (rhe (x / pow2 e))" e] unfolding r by simp
qed simp

text \<open>A little above 1 is rounded back to 1.\<close>
lemma dbl_le_1: "x \<le> 1 + 1 / 2 ^ 53 \<Longrightarrow> dbl x \<le> 1"
proof -
  assume "x \<le> 1 + 1 / 2 ^ 53"
  then have "dbl x \<le> dbl (1 + 1 / 2 ^ 53)" by (rule dbl_mono)
  also have "\<dots> = 1" by code_simp
  finally show ?thesis .
qed

text \<open>The float constant 0.000001 of the assertions, and its neighbours.\<close>
lemma dbl_millionth: "1 / 2 ^ 20 \<le> dbl (1 / 1000000)" "dbl (1 / 1000000) \<le> 1 / 2 ^ 19"
  using dbl_mono[of "1 / 2 ^ 20" "1 / 1000000"] dbl_mono[of "1 / 1000000" "1 / 2 ^ 19"]
    dbl_pow2[of "- int 20"] dbl_pow2[of "- int 19"] by (simp_all add: pow2_minus del: of_nat_numeral)

lemma dbl_millionth_less: "dbl (1 / 1000000) \<le> 1 / 2 ^ 19 - 1 / 2 ^ 40"
  by (rule order_trans[OF dbl_near(1)]) simp_all

lemma dbl_hundred_thousandth: "1 / 2 ^ 17 \<le> dbl (1 / 100000)"
  using dbl_mono[of "1 / 2 ^ 17" "1 / 100000"] dbl_pow2[of "- int 17"] by (simp add: pow2_minus del: of_nat_numeral)

lemma fadd_near:
  assumes "0 \<le> x" "0 \<le> y" "x + y \<le> 16"
  shows "fadd x y \<le> x + y + 1 / 2 ^ 49" "x + y - 1 / 2 ^ 49 \<le> fadd x y"
  using dbl_near[of "x + y"] assms by (simp_all add: fadd_def)

lemma fadd_nonneg: "0 \<le> x \<Longrightarrow> 0 \<le> y \<Longrightarrow> 0 \<le> fadd x y"
  by (simp add: fadd_def dbl_nonneg)

end
