(* ===== verification/HybridFair.thy ===== *)
theory HybridFair
  imports HybridPolicy Rounding
begin

text \<open>
  The sharing of the uplink is fair and its assertions hold.  Deficits start at 0 and are reset
  or filled and emptied as in DeficitGame, so no deficit grows past the harmonic number of the
  receivers and what rounding adds: for up to 4096 receivers and 2^34 packets they stay below
  10, the bound the code asserts without a proof.  A receiver that can send is therefore served
  again and again.
\<close>

section \<open>Harmonic numbers\<close>

lemma harmonic_split: "m \<le> n \<Longrightarrow> harmonic n = harmonic m + (\<Sum>j = Suc m..n. 1 / of_nat j)"
  by (induction n rule: dec_induct) (simp_all add: harmonic_Suc)

lemma harmonic_gap:
  fixes x :: rat
  assumes "0 < x"
  shows "1 / (2 * x + 1) + 1 / (2 * x + 2) - 1 / (x + 1) \<le> 1 / (4 * x) - 1 / (4 * (x + 1))"
proof -
  have "1 / (2 * x + 1) + 1 / (2 * x + 2) - 1 / (x + 1) = 1 / ((2 * x + 1) * (2 * x + 2))"
    using assms by (simp add: divide_simps) (simp add: algebra_simps)
  also have "\<dots> \<le> 1 / (4 * x * (x + 1))" using assms by (intro divide_left_mono mult_pos_pos) (auto simp: algebra_simps)
  also have "\<dots> = 1 / (4 * x) - 1 / (4 * (x + 1))" using assms by (simp add: divide_simps)
  finally show ?thesis .
qed

text \<open>From n to 2 n they grow by no more than 0.7.\<close>
lemma harmonic_double:
  assumes "8 \<le> n"
  shows "harmonic (2 * n) - harmonic n \<le> 7 / 10 - 1 / (4 * of_nat n)"
  using assms
proof (induction n rule: dec_induct)
  case base
  show ?case by (simp add: eval_nat_numeral harmonic_Suc)
next
  case (step n)
  have n: "0 < (of_nat n :: rat)" using step(1) by simp
  have "harmonic (2 * Suc n) = harmonic (2 * n) + 1 / (2 * of_nat n + 1) + 1 / (2 * of_nat n + 2)"
    by (simp add: harmonic_Suc add.commute)
  then have "harmonic (2 * Suc n) - harmonic (Suc n) =
      harmonic (2 * n) - harmonic n + (1 / (2 * of_nat n + 1) + 1 / (2 * of_nat n + 2) - 1 / (of_nat n + 1))"
    by (simp add: harmonic_Suc add.commute)
  also have "\<dots> \<le> harmonic (2 * n) - harmonic n + (1 / (4 * of_nat n) - 1 / (4 * (of_nat n + 1)))"
    by (intro add_left_mono harmonic_gap n)
  finally show ?case using step.IH by (simp add: add.commute)
qed

lemma harmonic_pow2: "harmonic (8 * 2 ^ j) \<le> harmonic 8 + of_nat j * (7 / 10)"
proof (induction j)
  case (Suc j)
  have "harmonic (2 * (8 * 2 ^ j)) - harmonic (8 * 2 ^ j) \<le> 7 / 10"
    by (rule order_trans[OF harmonic_double]) simp_all
  then have "harmonic (2 * (8 * 2 ^ j)) \<le> harmonic (8 * 2 ^ j) + 7 / 10" by linarith
  moreover have "2 * (8 * 2 ^ j) = (8 * 2 ^ Suc j :: nat)" by simp
  moreover have "of_nat (Suc j) * (7 / 10) = of_nat j * (7 / 10) + (7 / 10 :: rat)" by (simp add: algebra_simps)
  ultimately show ?case using Suc by (simp only:)
qed simp

lemma harmonic_4096: "n \<le> 4096 \<Longrightarrow> harmonic n \<le> 91 / 10"
proof -
  assume "n \<le> 4096"
  then have "harmonic n \<le> harmonic (8 * 2 ^ 9)" by (intro harmonic_mono) simp
  also have "\<dots> \<le> harmonic 8 + 9 * (7 / 10)" using harmonic_pow2[of 9] by simp
  also have "harmonic 8 \<le> 28 / 10" by (simp add: eval_nat_numeral harmonic_Suc)
  finally show ?thesis by simp
qed

section \<open>Quanta\<close>

text \<open>The weights of set\_policy\_weights for a share r of the link that goes by priority.\<close>
definition weights_ok :: "Receivers \<Rightarrow> bool" where
  "weights_ok R \<longleftrightarrow> dbl (fs_weight R) = fs_weight R \<and> dbl (srpt_weight R) = srpt_weight R \<and>
     99 / 10000 \<le> fs_weight R \<and> 0 \<le> srpt_weight R \<and> fs_weight R + srpt_weight R \<le> 1 + 1 / 2 ^ 53"

lemma weights_of_ratio:
  assumes "dbl r = r" "0 \<le> r" "r \<le> 99 / 100" "fs_weight R = fsub 1 r" "srpt_weight R = r"
  shows "weights_ok R"
proof -
  have e: "(1 - r) * (1 - 1 / 2 ^ 53) \<le> fsub 1 r" "fsub 1 r \<le> (1 - r) * (1 + 1 / 2 ^ 53)"
    using dbl_rounds_between[of "1 - r"] assms(3) by (simp_all add: fsub_def)
  have "dbl (fsub 1 r) = fsub 1 r" using dbl_dbl[of "1 - r"] assms(3) by (simp add: fsub_def)
  moreover have "99 / 10000 \<le> fsub 1 r" using e(1) assms(3) by (simp add: field_simps)
  moreover have "fsub 1 r + r \<le> 1 + 1 / 2 ^ 53" using e(2) assms(2) by (simp add: field_simps)
  ultimately show ?thesis using assms by (simp add: weights_ok_def)
qed

text \<open>Halving the error terms: what a product with a rounded fraction is worth.\<close>
lemma quantum_low:
  assumes w: "99 / 10000 \<le> w" "w \<le> 1 + 1 / 2 ^ 53" "dbl w = w" and n: "1 \<le> n" "n \<le> (4096 :: int)"
  defines "low \<equiv> fmul (fdiv 1 (dbl_of_int n)) w"
  shows "0 \<le> low" "low \<le> w" "1 / 2 ^ 19 \<le> low" "of_int n * low \<le> w + 1 / 2 ^ 50"
    "w \<le> 2 * (of_int n * low)"
proof -
  define fs where "fs = fdiv 1 (dbl_of_int n)"
  have d: "dbl_of_int n = of_int n" using n by (simp add: dbl_of_int_def dbl_of_int_exact)
  have N: "1 \<le> (of_int n :: rat)" "(of_int n :: rat) \<le> 4096" using n by (simp_all add: of_int_le_iff[of n 4096, simplified])
  have f: "1 / of_int n * (1 - 1 / 2 ^ 53) \<le> fs" "fs \<le> 1 / of_int n * (1 + 1 / 2 ^ 53)"
    using dbl_rounds_between[of "1 / of_int n"] N by (simp_all add: fs_def d fdiv_def)
  have f1: "fs \<le> 1" using dbl_mono[of "1 / of_int n" 1] N dbl_of_nat[of 1] by (simp add: fs_def d fdiv_def)
  have fn: "1 - 1 / 2 ^ 53 \<le> of_int n * fs" "of_int n * fs \<le> 1 + 1 / 2 ^ 53"
    using f N by (simp_all add: field_simps)
  have f0: "0 \<le> fs" using N by (simp add: fs_def d fdiv_nonneg)
  have l: "fs * w * (1 - 1 / 2 ^ 53) \<le> low" "low \<le> fs * w * (1 + 1 / 2 ^ 53)"
    using dbl_rounds_between[of "fs * w"] f0 w(1) by (simp_all add: low_def fs_def fmul_def)
  show "0 \<le> low" using f0 w(1) by (simp add: low_def flip: fs_def) (simp add: fmul_nonneg)
  show "low \<le> w" using dbl_mono[of "fs * w" w] f1 w mult_right_mono[of fs 1 w] by (simp add: low_def fmul_def flip: fs_def)
  define P where "P = of_int n * fs * w"
  define X where "X = of_int n * low"
  have X: "P * (1 - 1 / 2 ^ 53) \<le> X" "X \<le> P * (1 + 1 / 2 ^ 53)"
    using mult_left_mono[OF l(1), of "of_int n"] mult_left_mono[OF l(2), of "of_int n"] N
    by (simp_all add: mult.assoc P_def X_def)
  have P: "P \<le> (1 + 1 / 2 ^ 53) * w" "(1 - 1 / 2 ^ 53) * w \<le> P"
    using mult_right_mono[OF fn(1), of w] mult_right_mono[OF fn(2), of w] w(1) by (simp_all add: P_def)
  have "X \<le> w + 1 / 2 ^ 50" using X P w(1,2) by (simp add: field_simps)
  then show "of_int n * low \<le> w + 1 / 2 ^ 50" by (simp add: X_def)
  have "w \<le> 2 * X" using X P w(1,2) by (simp add: field_simps)
  then show "w \<le> 2 * (of_int n * low)" by (simp add: X_def)
  have "98 / 10000 \<le> X" using X P w(1) by (simp add: field_simps)
  then have "98 / 10000 \<le> of_int n * low" by (simp add: X_def)
  also have "\<dots> \<le> 4096 * low" using N(2) \<open>0 \<le> low\<close> by (rule mult_right_mono)
  finally show "1 / 2 ^ 19 \<le> low" by simp
qed

text \<open>The quanta of n receivers add up to 1 and a rounding error, and pass the code's tests.\<close>
lemma quanta_ok:
  assumes R: "weights_ok R" and n: "1 \<le> n" "n \<le> (4096 :: int)"
  defines "low \<equiv> low_quantum R n"
  defines "high \<equiv> high_quantum R n"
  shows "1 / 2 ^ 19 \<le> low" "low \<le> high" "high \<le> 1" "high + (of_int n - 1) * low \<le> 1 + 1 / 2 ^ 48"
    "fsub (fadd high (fmul (dbl_of_int (n - 1)) low)) 1 < dbl (1 / 100000)"
proof -
  have W: "99 / 10000 \<le> fs_weight R" "dbl (fs_weight R) = fs_weight R" "dbl (srpt_weight R) = srpt_weight R"
    "0 \<le> srpt_weight R" "fs_weight R + srpt_weight R \<le> 1 + 1 / 2 ^ 53" using R by (simp_all add: weights_ok_def)
  have w1: "fs_weight R \<le> 1 + 1 / 2 ^ 53" using W(4,5) by linarith
  have low: "low = fmul (fdiv 1 (dbl_of_int n)) (fs_weight R)" by (simp add: low_def low_quantum_def)
  note L = quantum_low[OF W(1) w1 W(2) n, folded low]
  have h: "high = dbl (low + srpt_weight R)" by (simp add: high_def high_quantum_def low fadd_def fmul_def W(3))
  have s0: "0 \<le> low + srpt_weight R" using L(1) W(4) by simp
  show "1 / 2 ^ 19 \<le> low" by (rule L(3))
  have "dbl low \<le> high" unfolding h by (rule dbl_mono) (use W(4) in simp)
  moreover have "dbl low = low" using dbl_dbl[of "fdiv 1 (dbl_of_int n) * fs_weight R"] L(1) W(1) n
    by (simp add: low fmul_def fdiv_nonneg dbl_of_int_def dbl_nonneg)
  ultimately show "low \<le> high" by simp
  show h1: "high \<le> 1" unfolding h by (rule dbl_le_1) (use L(2) W(5) in linarith)
  have "high \<le> (low + srpt_weight R) * (1 + 1 / 2 ^ 53)" unfolding h by (rule dbl_rounds_between(2)[OF s0])
  then have "high \<le> low + srpt_weight R + 1 / 2 ^ 51" using L(2) W(5) by (simp add: field_simps)
  then show tot: "high + (of_int n - 1) * low \<le> 1 + 1 / 2 ^ 48"
    using L(4) W(5) by (simp add: algebra_simps)
  have d: "dbl_of_int (n - 1) = of_int n - 1" using n dbl_of_int_exact[of "n - 1"] by (simp add: dbl_of_int_def)
  have n1: "0 \<le> (of_int n - 1 :: rat)" using n(1) by simp
  have m0: "0 \<le> (of_int n - 1) * low" using n1 L(1) by simp
  have h0: "0 \<le> high" unfolding h by (rule dbl_nonneg[OF s0])
  have b: "fmul (dbl_of_int (n - 1)) low \<le> (of_int n - 1) * low * (1 + 1 / 2 ^ 53)"
    using dbl_rounds_between(2)[OF m0] by (simp add: fmul_def d)
  have "high + fmul (dbl_of_int (n - 1)) low \<le> 1 + 1 / 2 ^ 47" using b tot h0 by (simp add: field_simps)
  then have "fadd high (fmul (dbl_of_int (n - 1)) low) \<le> dbl (1 + 1 / 2 ^ 47)"
    unfolding fadd_def by (rule dbl_mono)
  also have "\<dots> = 1 + 1 / 2 ^ 47" by code_simp
  finally have "fsub (fadd high (fmul (dbl_of_int (n - 1)) low)) 1 \<le> dbl (pow2 (- int 47))"
    unfolding fsub_def pow2_minus by (intro dbl_mono) simp
  also have "dbl (pow2 (- int 47)) = 1 / 2 ^ 47" unfolding dbl_pow2 by (rule pow2_minus)
  also have "\<dots> < dbl (1 / 100000)" using dbl_hundred_thousandth by simp
  finally show "fsub (fadd high (fmul (dbl_of_int (n - 1)) low)) 1 < dbl (1 / 100000)" .
qed

section \<open>What a receiver puts forward\<close>

definition has_credit_for :: "HostReceiverState \<Rightarrow> OutboundMsgState \<Rightarrow> bool" where
  "has_credit_for rs m \<longleftrightarrow> unsent_bytes m \<noteq> 0 \<and> ucast (wire_need (unsent_bytes m)) \<le> (word_of_int (avail_credit_bytes rs) :: u64)"

definition has_work :: "HostReceiverState \<Rightarrow> bool" where
  "has_work rs \<longleftrightarrow> (\<exists>m\<in>set (msgs (out_msgs rs)). has_credit_for rs m)"

lemma wire_need_pos: "0 < wire_need n"
  by (rule less_le_trans[of _ 84]) (simp_all add: wire_need_def)

lemma next_msg_Some:
  "current c < length (msgs c) \<Longrightarrow>
    next_msg c = Some (msgs c ! current c, c\<lparr>current := (current c + 1) mod length (msgs c)\<rparr>)"
  by (simp add: next_msg_def peek_next_def)

text \<open>The loop visits the messages in their order.\<close>
lemma want_loop_fold:
  "current c + n \<le> length (msgs c) \<Longrightarrow>
    \<exists>c'. want_loop n ca c ps = Some (c', fold (want_step ca) (take n (drop (current c) (msgs c))) ps) \<and> msgs c' = msgs c"
proof (induction n arbitrary: c ps)
  case (Suc n)
  let ?c = "c\<lparr>current := (current c + 1) mod length (msgs c)\<rparr>"
  have i: "current c < length (msgs c)" using Suc.prems by simp
  show ?case
  proof (cases n)
    case 0
    then show ?thesis using i by (simp add: next_msg_Some take_Suc_conv_app_nth Cons_nth_drop_Suc[symmetric])
  next
    case (Suc k)
    then have c: "current ?c = current c + 1" using Suc.prems by simp
    have "current ?c + n \<le> length (msgs ?c)" unfolding c using Suc.prems by simp
    from Suc.IH[OF this, of "want_step ca (msgs c ! current c) ps"] i show ?thesis
      unfolding c by (simp add: next_msg_Some Cons_nth_drop_Suc[symmetric])
  qed
qed simp

lemma want_step_fold:
  "deficit (fold (want_step ca) ms ps) = deficit ps \<and> quantum (fold (want_step ca) ms ps) = quantum ps \<and>
   (can_send (fold (want_step ca) ms ps) \<longleftrightarrow>
     can_send ps \<or> (\<exists>m\<in>set ms. unsent_bytes m \<noteq> 0 \<and> ucast (wire_need (unsent_bytes m)) \<le> ca)) \<and>
   (can_send (fold (want_step ca) ms ps) \<longrightarrow>
     can_send ps \<and> msg_state (fold (want_step ca) ms ps) = msg_state ps \<and>
       want_to_send_bytes (fold (want_step ca) ms ps) = want_to_send_bytes ps \<or>
     (\<exists>m\<in>set ms. msg_state (fold (want_step ca) ms ps) = Some m \<and> unsent_bytes m \<noteq> 0 \<and>
       ucast (wire_need (unsent_bytes m)) \<le> ca \<and> want_to_send_bytes (fold (want_step ca) ms ps) = wire_need (unsent_bytes m)))"
proof (induction ms arbitrary: ps)
  case (Cons m ms)
  show ?case using Cons.IH[of "want_step ca m ps"] by (auto simp: want_step_def Let_def split: if_splits)
qed simp

lemma want_to_send_spec:
  assumes "sorts_by unsent_bytes srt"
  obtains c ps' where "want_to_send srt rs ps = Some (rs\<lparr>out_msgs := c\<rparr>, ps')" "mset (msgs c) = mset (msgs (out_msgs rs))"
    "can_send ps' \<longleftrightarrow> has_work rs" "\<not> can_send ps' \<Longrightarrow> deficit ps' = 0" "can_send ps' \<Longrightarrow> deficit ps' = deficit ps"
    "can_send ps' \<Longrightarrow> 0 < want_to_send_bytes ps' \<and> (\<exists>m\<in>set (msgs (out_msgs rs)). msg_state ps' = Some m \<and> has_credit_for rs m)"
proof (cases "msgs (out_msgs rs) = []")
  case True
  have rs: "rs\<lparr>out_msgs := out_msgs rs\<rparr> = rs" by simp
  show thesis
    by (rule that[of "out_msgs rs" "nothing_to_send (ps\<lparr>can_send := False, msg_state := None, want_to_send_bytes := 0\<rparr>)"])
      (simp_all add: want_to_send_def True nothing_to_send_def has_work_def Let_def)
next
  case False
  let ?ms = "srt (msgs (out_msgs rs))"
  let ?c = "reset ((out_msgs rs)\<lparr>msgs := ?ms\<rparr>)"
  let ?p = "ps\<lparr>can_send := False, msg_state := None, want_to_send_bytes := 0\<rparr>"
  have s: "mset ?ms = mset (msgs (out_msgs rs))" using assms by (simp add: sorts_by_def)
  then have l: "length ?ms = length (msgs (out_msgs rs))" "set ?ms = set (msgs (out_msgs rs))"
    by (metis size_mset, metis set_mset_mset)
  let ?q = "fold (want_step (word_of_int (avail_credit_bytes rs))) ?ms ?p"
  obtain c where c: "want_loop (length (msgs (out_msgs rs))) (word_of_int (avail_credit_bytes rs)) ?c ?p = Some (c, ?q)" "msgs c = ?ms"
    using want_loop_fold[of ?c "length (msgs (out_msgs rs))" "word_of_int (avail_credit_bytes rs)" ?p] l(1) by (auto simp: reset_def)
  note F = want_step_fold[of "word_of_int (avail_credit_bytes rs)" ?ms ?p]
  define q where "q = ?q"
  have F: "deficit q = deficit ps" "can_send q \<longleftrightarrow> has_work rs"
    "can_send q \<Longrightarrow> \<exists>m\<in>set (msgs (out_msgs rs)). msg_state q = Some m \<and> has_credit_for rs m \<and> 0 < want_to_send_bytes q"
    using want_step_fold[of "word_of_int (avail_credit_bytes rs)" ?ms ?p] wire_need_pos
    unfolding q_def l(2) has_work_def has_credit_for_def by auto
  have w: "want_to_send srt rs ps = Some (rs\<lparr>out_msgs := c\<rparr>, if can_send q then q else nothing_to_send q)"
    using False c(1) by (simp add: want_to_send_def Let_def q_def)
  show thesis
  proof (cases "can_send q")
    case True
    then show thesis using that[OF _ _ F(2)] w F(1,3) c(2) s by auto
  next
    case no: False
    show thesis by (rule that[of c "nothing_to_send q"]) (use w no F(2) c(2) s in \<open>simp_all add: nothing_to_send_def\<close>)
  qed
qed

section \<open>The first loop\<close>

text \<open>What the policy needs of the messages of a receiver: the comparisons are between ints and
  start at MAXINT, so a message with 2^31 - 1 bytes left would not be seen.\<close>
definition comparable :: "HostReceiverState \<Rightarrow> bool" where
  "comparable rs \<longleftrightarrow> (\<forall>m\<in>set (msgs (out_msgs rs)). has_credit_for rs m \<longrightarrow> sint (unsent_bytes m) < MAXINT)"

text \<open>The policy that counts credit starts at 0: a receiver comes first only if it has data credit.\<close>
definition backed :: "HostReceiverState \<Rightarrow> bool" where
  "backed rs \<longleftrightarrow> has_work rs \<and> 0 < avail_credit_data_bytes rs"

definition scan_ok :: "int \<Rightarrow> policy_scan \<Rightarrow> bool" where
  "scan_ok pol sc \<longleftrightarrow> (sc_num sc = 0 \<and> sc = scan_start pol \<or> 0 < sc_num sc \<and> 0 \<le> sc_best_flow sc \<and>
     (0 \<le> sc_best sc \<and> 0 \<le> sc_prio sc \<or> pol = 2 \<and> sc_best sc = -1 \<and> sc_prio sc = 0 \<or> pol \<noteq> 2 \<and> 0 \<le> sc_best sc))"

text \<open>An entry before and after the loop.\<close>
definition scanned :: "Receivers \<Rightarrow> int \<times> PolicyState \<Rightarrow> int \<times> PolicyState \<Rightarrow> bool" where
  "scanned R e e' \<longleftrightarrow> fst e' = fst e \<and>
     (\<exists>rs. map_of (remotes R) (fst e) = Some rs \<and> (can_send (snd e') \<longleftrightarrow> has_work rs)) \<and>
     (if can_send (snd e') then deficit (snd e') = deficit (snd e) \<and> 0 < want_to_send_bytes (snd e') \<and> msg_state (snd e') \<noteq> None
      else deficit (snd e') = 0)"

lemma scan_one_ok:
  assumes "scan_ok pol sc" "pol \<in> {0, 1, 2}" "0 \<le> a" "comparable rs" "has_work rs"
    "m \<in> set (msgs (out_msgs rs))" "has_credit_for rs m"
  obtains sc' where "scan_one pol a rs m sc = Some sc'" "scan_ok pol sc'" "sc_num sc' = sc_num sc + 1"
    "0 \<le> sc_best sc' \<longleftrightarrow> 0 \<le> sc_best sc \<or> pol \<noteq> 2 \<or> backed rs"
proof -
  have "sint (unsent_bytes m) < MAXINT" using assms(4-7) by (auto simp: comparable_def)
  then have "\<exists>sc'. scan_one pol a rs m sc = Some sc' \<and> scan_ok pol sc' \<and> sc_num sc' = sc_num sc + 1 \<and>
      (0 \<le> sc_best sc' \<longleftrightarrow> 0 \<le> sc_best sc \<or> pol \<noteq> 2 \<or> backed rs)"
    using assms(1-3,5) by (auto simp: scan_one_def scan_ok_def scan_start_def Let_def MAXINT_def backed_def)
  then show thesis using that by blast
qed

lemma scan_receivers_ok:
  assumes "sorts_by unsent_bytes srt" "pol \<in> {0, 1, 2}" "distinct (map fst pss)"
    "\<And>a ps. (a, ps) \<in> set pss \<Longrightarrow> 0 \<le> a \<and> 0 \<le> deficit ps \<and> (\<exists>rs. map_of rem a = Some rs \<and> comparable rs)"
    "\<And>a. a \<in> fst ` set pss \<Longrightarrow> map_of rem a = map_of (remotes R) a" "scan_ok pol sc"
  shows "\<exists>rem' pss' sc'. scan_receivers srt pol pss rem sc = Some (rem', pss', sc') \<and> map fst rem' = map fst rem \<and>
    list_all2 (scanned R) pss pss' \<and> scan_ok pol sc' \<and>
    sc_num sc' = sc_num sc + int (length (filter (\<lambda>e. can_send (snd e)) pss')) \<and>
    (0 \<le> sc_best sc' \<longleftrightarrow> 0 \<le> sc_best sc \<or> pol \<noteq> 2 \<and> (\<exists>a\<in>fst ` set pss. \<exists>rs. map_of (remotes R) a = Some rs \<and> has_work rs) \<or>
      (\<exists>a\<in>fst ` set pss. \<exists>rs. map_of (remotes R) a = Some rs \<and> backed rs))"
  using assms(3-)
proof (induction pss arbitrary: rem sc)
  case (Cons e pss)
  obtain a ps where e: "e = (a, ps)" by force
  obtain rs where rs: "map_of rem a = Some rs" "comparable rs" "0 \<le> a" "0 \<le> deficit ps"
    using Cons.prems(2)[of a ps] by (auto simp: e)
  obtain c ps' where w: "want_to_send srt rs ps = Some (rs\<lparr>out_msgs := c\<rparr>, ps')" "mset (msgs c) = mset (msgs (out_msgs rs))"
    "can_send ps' \<longleftrightarrow> has_work rs" "\<not> can_send ps' \<Longrightarrow> deficit ps' = 0" "can_send ps' \<Longrightarrow> deficit ps' = deficit ps"
    "can_send ps' \<Longrightarrow> 0 < want_to_send_bytes ps' \<and> (\<exists>m\<in>set (msgs (out_msgs rs)). msg_state ps' = Some m \<and> has_credit_for rs m)"
    by (rule want_to_send_spec[OF assms(1), of rs ps]) (erule (1) that; blast)
  let ?rs = "rs\<lparr>out_msgs := c\<rparr>"
  have set: "set (msgs c) = set (msgs (out_msgs rs))" using w(2) by (metis set_mset_mset)
  have comp: "comparable ?rs" "has_work ?rs = has_work rs" "backed ?rs = backed rs"
    using rs(2) by (simp_all add: comparable_def has_work_def has_credit_for_def backed_def set)
  obtain sc1 where sc1: "(if can_send ps' then case msg_state ps' of None \<Rightarrow> None | Some m \<Rightarrow> scan_one pol a ?rs m sc
      else if deficit ps' < dbl (1 / 1000000) then Some sc else None) = Some sc1" "scan_ok pol sc1"
    "sc_num sc1 = sc_num sc + (if can_send ps' then 1 else 0)"
    "0 \<le> sc_best sc1 \<longleftrightarrow> 0 \<le> sc_best sc \<or> pol \<noteq> 2 \<and> has_work rs \<or> backed rs"
  proof (cases "can_send ps'")
    case True
    then obtain m where m: "m \<in> set (msgs c)" "msg_state ps' = Some m" "has_credit_for ?rs m"
      using w(6) by (auto simp: set has_credit_for_def)
    obtain sc1 where "scan_one pol a ?rs m sc = Some sc1" "scan_ok pol sc1" "sc_num sc1 = sc_num sc + 1"
      "0 \<le> sc_best sc1 \<longleftrightarrow> 0 \<le> sc_best sc \<or> pol \<noteq> 2 \<or> backed ?rs"
      by (rule scan_one_ok[OF Cons.prems(4) assms(2) rs(3) comp(1) _ _ m(3)]) (use True w(3) comp(2) m(1) in simp_all)
    then show thesis using that True m(2) w(3) comp(3) by (simp add: backed_def)
  next
    case False
    then show thesis using that w(3,4) Cons.prems(4) dbl_millionth(1) by (simp add: backed_def)
  qed
  have upd: "map fst (AList.update a ?rs rem) = map fst rem"
    using rs(1) by (auto simp: AList.update_keys dest!: map_of_SomeD intro: rev_image_eqI)
  have "\<exists>rem' pss' sc'. scan_receivers srt pol pss (AList.update a ?rs rem) sc1 = Some (rem', pss', sc') \<and>
      map fst rem' = map fst (AList.update a ?rs rem) \<and> list_all2 (scanned R) pss pss' \<and> scan_ok pol sc' \<and>
      sc_num sc' = sc_num sc1 + int (length (filter (\<lambda>e. can_send (snd e)) pss')) \<and>
      (0 \<le> sc_best sc' \<longleftrightarrow> 0 \<le> sc_best sc1 \<or> pol \<noteq> 2 \<and> (\<exists>a\<in>fst ` set pss. \<exists>rs. map_of (remotes R) a = Some rs \<and> has_work rs) \<or>
        (\<exists>a\<in>fst ` set pss. \<exists>rs. map_of (remotes R) a = Some rs \<and> backed rs))"
  proof (rule Cons.IH)
    have "a \<notin> fst ` set pss" using Cons.prems(1) by (simp add: e)
    then have k: "b \<noteq> a" if "b \<in> fst ` set pss" for b using that by blast
    show "0 \<le> b \<and> 0 \<le> deficit q \<and> (\<exists>rs. map_of (AList.update a ?rs rem) b = Some rs \<and> comparable rs)" if "(b, q) \<in> set pss" for b q
      using Cons.prems(2)[of b q] k[of b] that by (force simp: update_conv')
    show "map_of (AList.update a ?rs rem) b = map_of (remotes R) b" if "b \<in> fst ` set pss" for b
      using Cons.prems(3)[of b] k[OF that] that by (simp add: update_conv')
  qed (use Cons.prems(1) sc1(2) in \<open>simp_all add: e\<close>)
  moreover have "scanned R (a, ps) (a, ps')"
    using w rs(1) Cons.prems(3)[of a] by (auto simp: scanned_def e)
  moreover have "0 \<le> deficit ps'" using w(4,5) rs(4) by (cases "can_send ps'") simp_all
  moreover have "(\<exists>b\<in>fst ` set (e # pss). \<exists>rs. map_of (remotes R) b = Some rs \<and> P rs) \<longleftrightarrow>
      P rs \<or> (\<exists>b\<in>fst ` set pss. \<exists>rs. map_of (remotes R) b = Some rs \<and> P rs)" for P
    using rs(1) Cons.prems(3)[of a] by (simp add: e)
  note keyed = this[of has_work] this[of backed]
  ultimately show ?case using rs(1) w(1) sc1(1-3) upd unfolding keyed sc1(4) by (auto simp: e)
qed simp

text \<open>A known receiver that could be sent to, and one that the policy which counts credit can put first.\<close>
definition waiting :: "Receivers \<Rightarrow> int \<Rightarrow> bool" where
  "waiting R a \<longleftrightarrow> a \<in> fst ` set (rcver_policy_states R) \<and> (\<exists>rs. map_of (remotes R) a = Some rs \<and> has_work rs)"

definition waiting_backed :: "Receivers \<Rightarrow> int \<Rightarrow> bool" where
  "waiting_backed R a \<longleftrightarrow> a \<in> fst ` set (rcver_policy_states R) \<and> (\<exists>rs. map_of (remotes R) a = Some rs \<and> backed rs)"

text \<open>The assertion that a receiver comes first fails: there is work, and none of it has data credit.\<close>
definition none_first :: "int \<Rightarrow> Receivers \<Rightarrow> bool" where
  "none_first pol R \<longleftrightarrow> pol = 2 \<and> (\<exists>a. waiting R a) \<and> (\<forall>a. \<not> waiting_backed R a)"

section \<open>The second loop\<close>

definition held :: "(int \<times> PolicyState) list \<Rightarrow> int \<Rightarrow> rat" where
  "held pss a = (case map_of pss a of None \<Rightarrow> 0 | Some ps \<Rightarrow> deficit ps)"

definition sends_some :: "(int \<times> PolicyState) list \<Rightarrow> int \<Rightarrow> bool" where
  "sends_some pss a = (case map_of pss a of None \<Rightarrow> False | Some ps \<Rightarrow> can_send ps)"

text \<open>The share of each receiver in a round of filling.\<close>
definition share :: "(int \<times> PolicyState) list \<Rightarrow> int \<Rightarrow> rat" where
  "share pss a = (case map_of pss a of None \<Rightarrow> 0 | Some ps \<Rightarrow> if can_send ps then quantum ps else 0)"

lemma list_all2_map_of:
  assumes "list_all2 P xs ys" "\<And>x y. P x y \<Longrightarrow> fst y = fst x"
  shows "map_of xs a = None \<and> map_of ys a = None \<or> (\<exists>x y. map_of xs a = Some x \<and> map_of ys a = Some y \<and> P (a, x) (a, y))"
  using assms(1)
proof (induction rule: list_all2_induct)
  case (Cons x xs y ys)
  have "fst y = fst x" using assms(2) Cons.hyps(1) by blast
  then show ?case using Cons by (cases x; cases y) auto
qed simp

lemma list_all2_keys:
  assumes "list_all2 P xs ys" "\<And>x y. P x y \<Longrightarrow> fst y = fst x"
  shows "map fst ys = map fst xs"
  using assms(1) by (induction rule: list_all2_induct) (simp_all add: assms(2))

text \<open>An entry before and after update\_policy\_state, with the quanta and the receiver that comes first.\<close>
definition filled :: "Receivers \<Rightarrow> rat \<Rightarrow> rat \<Rightarrow> int \<Rightarrow> int \<times> PolicyState \<Rightarrow> int \<times> PolicyState \<Rightarrow> bool" where
  "filled R high low best e e' \<longleftrightarrow> fst e' = fst e \<and>
     (\<exists>rs. map_of (remotes R) (fst e) = Some rs \<and> (can_send (snd e') \<longleftrightarrow> has_work rs)) \<and>
     (let q = if fst e = best then high else low in
      if can_send (snd e') then quantum (snd e') = q \<and> deficit (snd e') = fadd (deficit (snd e)) q
      else deficit (snd e') = 0)"

lemma give_quanta_ok:
  assumes "list_all2 (scanned R) pss pss'" "\<forall>e\<in>set pss. 0 \<le> deficit (snd e)"
  shows "\<exists>pss''. give_all_quanta high low sc (map (\<lambda>(a, ps). (a, ps\<lparr>num_can_send := n\<rparr>)) pss') = Some pss'' \<and>
    list_all2 (filled R high low (sc_best sc)) pss pss'' \<and> map (\<lambda>e. can_send (snd e)) pss'' = map (\<lambda>e. can_send (snd e)) pss'"
  using assms
proof (induction rule: list_all2_induct)
  case (Cons x xs y ys)
  obtain a ps where y: "y = (a, ps)" by force
  from Cons obtain pss'' where IH: "give_all_quanta high low sc (map (\<lambda>(a, ps). (a, ps\<lparr>num_can_send := n\<rparr>)) ys) = Some pss''"
    "list_all2 (filled R high low (sc_best sc)) xs pss''" "map (\<lambda>e. can_send (snd e)) pss'' = map (\<lambda>e. can_send (snd e)) ys" by auto
  have "\<exists>p'. give_quantum high low sc a (ps\<lparr>num_can_send := n\<rparr>) = Some p' \<and> filled R high low (sc_best sc) x (a, p') \<and>
      can_send p' = can_send ps"
    using Cons.hyps(1) Cons.prems dbl_millionth(1)
    by (auto simp: scanned_def filled_def give_quantum_def Let_def y split: if_splits)
  then show ?case using IH by (auto simp: y)
qed simp

definition all_filled :: "nat \<Rightarrow> Receivers \<Rightarrow> (int \<times> PolicyState) list \<Rightarrow> bool" where
  "all_filled N R pss \<longleftrightarrow> (\<exists>high low best. list_all2 (filled R high low best) (rcver_policy_states R) pss \<and>
     1 / 2 ^ 19 \<le> low \<and> low \<le> high \<and> high \<le> 1 \<and>
     high + (of_nat (length (filter (\<lambda>e. can_send (snd e)) pss)) - 1) * low \<le> 1 + 1 / 2 ^ 48 \<and>
     ((\<exists>e\<in>set pss. can_send (snd e)) \<longrightarrow> fs_weight R \<le> 2 * (of_nat N * low)))"

text \<open>What update\_policy\_state needs: consistent tables, comparable receivers, and at most 4096.\<close>
definition policy_ready :: "int \<Rightarrow> Receivers \<Rightarrow> bool" where
  "policy_ready pol R \<longleftrightarrow> pol \<in> {0, 1, 2} \<and> remotes R \<noteq> [] \<and> distinct (map fst (rcver_policy_states R)) \<and>
     length (rcver_policy_states R) \<le> 4096 \<and>
     (\<forall>e\<in>set (rcver_policy_states R). 0 \<le> fst e \<and> 0 \<le> deficit (snd e) \<and>
        (\<exists>rs. map_of (remotes R) (fst e) = Some rs \<and> comparable rs))"

text \<open>The first loop as update\_policy\_state runs it.\<close>
lemma policy_scanned:
  assumes "sorts_by unsent_bytes srt" "policy_ready pol R"
  obtains rem pss1 sc where
    "scan_receivers srt pol (rcver_policy_states R) (remotes R) (scan_start pol) = Some (rem, pss1, sc)"
    "map fst rem = map fst (remotes R)" "list_all2 (scanned R) (rcver_policy_states R) pss1" "scan_ok pol sc"
    "sc_num sc = int (length (filter (\<lambda>e. can_send (snd e)) pss1))"
    "0 \<le> sc_best sc \<longleftrightarrow> pol \<noteq> 2 \<and> (\<exists>a. waiting R a) \<or> (\<exists>a. waiting_backed R a)"
proof -
  let ?pss = "rcver_policy_states R"
  note ready = assms(2)[unfolded policy_ready_def]
  have sc0: "scan_ok pol (scan_start pol)" by (simp add: scan_ok_def scan_start_def)
  have "\<exists>rem pss1 sc. scan_receivers srt pol ?pss (remotes R) (scan_start pol) = Some (rem, pss1, sc) \<and>
    map fst rem = map fst (remotes R) \<and> list_all2 (scanned R) ?pss pss1 \<and> scan_ok pol sc \<and>
    sc_num sc = sc_num (scan_start pol) + int (length (filter (\<lambda>e. can_send (snd e)) pss1)) \<and>
    (0 \<le> sc_best sc \<longleftrightarrow> 0 \<le> sc_best (scan_start pol) \<or>
      pol \<noteq> 2 \<and> (\<exists>a\<in>fst ` set ?pss. \<exists>rs. map_of (remotes R) a = Some rs \<and> has_work rs) \<or>
      (\<exists>a\<in>fst ` set ?pss. \<exists>rs. map_of (remotes R) a = Some rs \<and> backed rs))"
    by (rule scan_receivers_ok[OF assms(1)]) (use ready sc0 in force)+
  then show thesis using that by (simp add: scan_start_def waiting_def waiting_backed_def Bex_def) blast
qed

lemma scanned_work:
  assumes "list_all2 (scanned R) (rcver_policy_states R) pss1"
  shows "(\<exists>a. waiting R a) \<longleftrightarrow> (\<exists>e\<in>set pss1. can_send (snd e))"
proof
  assume "\<exists>a. waiting R a"
  then obtain e rs where e: "e \<in> set (rcver_policy_states R)" "map_of (remotes R) (fst e) = Some rs" "has_work rs"
    unfolding waiting_def by auto
  then obtain e' where "e' \<in> set pss1" "scanned R e e'"
    using assms by (metis list_all2_conv_all_nth in_set_conv_nth)
  then show "\<exists>e\<in>set pss1. can_send (snd e)" using e(2,3) by (auto simp: scanned_def)
next
  assume "\<exists>e\<in>set pss1. can_send (snd e)"
  then obtain e e' where e: "e' \<in> set pss1" "can_send (snd e')" "e \<in> set (rcver_policy_states R)" "scanned R e e'"
    using assms by (metis list_all2_conv_all_nth in_set_conv_nth)
  then have "waiting R (fst e)" by (auto simp: scanned_def waiting_def)
  then show "\<exists>a. waiting R a" ..
qed

text \<open>The policy that counts credit fails when there is work and none of it has data credit.\<close>
lemma update_policy_state_fails:
  assumes "sorts_by unsent_bytes srt" "policy_ready pol R" "none_first pol R"
  shows "update_policy_state srt pol R = None"
proof -
  obtain rem pss1 sc where S: "scan_receivers srt pol (rcver_policy_states R) (remotes R) (scan_start pol) = Some (rem, pss1, sc)"
    "list_all2 (scanned R) (rcver_policy_states R) pss1" "sc_num sc = int (length (filter (\<lambda>e. can_send (snd e)) pss1))"
    "0 \<le> sc_best sc \<longleftrightarrow> pol \<noteq> 2 \<and> (\<exists>a. waiting R a) \<or> (\<exists>a. waiting_backed R a)"
    by (rule policy_scanned[OF assms(1,2)]) (rule that)
  have "sc_num sc \<noteq> 0" using assms(3) scanned_work[OF S(2)] S(3) by (auto simp: none_first_def filter_empty_conv)
  then show ?thesis using S(1,4) assms(3) by (simp add: update_policy_state_def none_first_def Let_def)
qed

lemma update_policy_state_ok:
  assumes "sorts_by unsent_bytes srt" "policy_ready pol R" "weights_ok R" "length (rcver_policy_states R) \<le> N" "\<not> none_first pol R"
  shows "\<exists>R'. update_policy_state srt pol R = Some R' \<and> fs_weight R' = fs_weight R \<and> srpt_weight R' = srpt_weight R \<and>
    map fst (remotes R') = map fst (remotes R) \<and> all_filled N R (rcver_policy_states R')"
proof -
  let ?pss = "rcver_policy_states R"
  note ready = assms(2)[unfolded policy_ready_def]
  obtain rem pss1 sc where S: "scan_receivers srt pol ?pss (remotes R) (scan_start pol) = Some (rem, pss1, sc)"
    "map fst rem = map fst (remotes R)" "list_all2 (scanned R) ?pss pss1" "scan_ok pol sc"
    "sc_num sc = int (length (filter (\<lambda>e. can_send (snd e)) pss1))"
    "0 \<le> sc_best sc \<longleftrightarrow> pol \<noteq> 2 \<and> (\<exists>a. waiting R a) \<or> (\<exists>a. waiting_backed R a)"
    by (rule policy_scanned[OF assms(1,2)]) (rule that)
  have len: "length pss1 = length ?pss" using S(3) by (simp add: list_all2_lengthD)
  show ?thesis
  proof (cases "sc_num sc = 0")
    case True
    then have none: "\<forall>e\<in>set pss1. \<not> can_send (snd e)" using S(5) by (simp add: filter_empty_conv)
    have "list_all2 (filled R 1 1 0) ?pss pss1"
      by (rule list.rel_mono_strong[OF S(3)]) (use none in \<open>simp add: filled_def scanned_def\<close>)
    then have "all_filled N R pss1" using none unfolding all_filled_def
      by (intro exI[of _ 1] exI[of _ 0]) (auto simp: filter_False)
    then show ?thesis using S True ready by (simp add: update_policy_state_def)
  next
    case False
    let ?n = "sc_num sc"
    have best: "0 \<le> sc_best sc" "0 \<le> sc_best_flow sc"
    proof -
      have "\<exists>a. waiting R a" using False S(5) unfolding scanned_work[OF S(3)] by (auto simp: filter_empty_conv)
      then show "0 \<le> sc_best sc" using S(6) assms(5) by (auto simp: none_first_def)
      show "0 \<le> sc_best_flow sc" using S(4) False by (auto simp: scan_ok_def)
    qed
    have n: "1 \<le> ?n" "?n \<le> int (length ?pss)"
      using False unfolding S(5) len[symmetric] by (simp_all add: Suc_le_eq)
    have n': "?n \<le> 4096" using n(2) ready by simp
    note Q = quanta_ok[OF assms(3) n(1) n']
    define low where "low = low_quantum R ?n"
    define high where "high = high_quantum R ?n"
    note Q = Q[folded low_def high_def]
    obtain pss2 where G: "give_all_quanta high low sc (map (\<lambda>(a, ps). (a, ps\<lparr>num_can_send := ?n\<rparr>)) pss1) = Some pss2"
      "list_all2 (filled R high low (sc_best sc)) ?pss pss2" "map (\<lambda>e. can_send (snd e)) pss2 = map (\<lambda>e. can_send (snd e)) pss1"
      using give_quanta_ok[OF S(3), of high low sc ?n] ready by blast
    have "0 \<le> low" "low \<le> 1" "0 \<le> high" using Q(1-3) by (auto intro: order_trans[of 0 "1 / 2 ^ 19"])
    then have "update_policy_state srt pol R = Some (R\<lparr>remotes := rem, rcver_policy_states := pss2\<rparr>)"
      using S(1) best G(1) False ready Q(3,5) by (simp add: update_policy_state_def Let_def low_def high_def)
    moreover have "all_filled N R pss2"
    proof -
      have "length (filter (\<lambda>e. can_send (snd e)) pss2) = length (filter id (map (\<lambda>e. can_send (snd e)) pss2))"
        by (simp add: filter_map comp_def)
      also have "\<dots> = length (filter (\<lambda>e. can_send (snd e)) pss1)" unfolding G(3) by (simp add: filter_map comp_def)
      finally have l: "(of_nat (length (filter (\<lambda>e. can_send (snd e)) pss2)) :: rat) = of_int ?n" using S(5) by simp
      have W: "99 / 10000 \<le> fs_weight R" "fs_weight R \<le> 1 + 1 / 2 ^ 53" "dbl (fs_weight R) = fs_weight R"
        using assms(3) unfolding weights_ok_def by (blast, linarith, blast)
      have "?n \<le> int N" using n(2) assms(4) by linarith
      then have "(of_int ?n :: rat) \<le> of_int (int N)" by (simp only: of_int_le_iff)
      then have "of_int ?n * low \<le> of_nat N * low" using \<open>0 \<le> low\<close> by (simp add: mult_right_mono)
      then have "fs_weight R \<le> 2 * (of_nat N * low)"
        using quantum_low(5)[OF W n(1) n', folded low_quantum_def, folded low_def] by linarith
      then show ?thesis using G(2) Q l unfolding all_filled_def by (intro exI[of _ high] exI[of _ low] exI[of _ "sc_best sc"]) simp
    qed
    ultimately show ?thesis using S(2) by simp
  qed
qed

section \<open>The choice\<close>

lemma held_in: "distinct (map fst pss) \<Longrightarrow> (a, ps) \<in> set pss \<Longrightarrow> held pss a = deficit ps \<and> sends_some pss a = can_send ps \<and>
    share pss a = (if can_send ps then quantum ps else 0)"
  by (simp add: held_def sends_some_def share_def)

lemma held_out: "a \<notin> fst ` set pss \<Longrightarrow> held pss a = 0 \<and> \<not> sends_some pss a \<and> share pss a = 0"
  by (simp add: held_def sends_some_def share_def map_of_eq_None_iff[THEN iffD2])

lemma senders: "distinct (map fst pss) \<Longrightarrow> sends_some pss a \<Longrightarrow> \<exists>ps. (a, ps) \<in> set pss \<and> can_send ps"
  by (auto simp: sends_some_def split: option.splits dest: map_of_SomeD)

text \<open>The entries when a choice is due: the assertions of select\_msg\_to\_send hold.\<close>
definition choice_ok :: "(int \<times> PolicyState) list \<Rightarrow> bool" where
  "choice_ok pss \<longleftrightarrow> distinct (map fst pss) \<and>
     (\<forall>e\<in>set pss. 0 \<le> deficit (snd e) \<and> deficit (snd e) \<le> 12 \<and>
        (if can_send (snd e) then 1 / 2 ^ 19 - 1 / 2 ^ 40 \<le> deficit (snd e) \<and> 1 / 2 ^ 19 \<le> quantum (snd e) \<and> quantum (snd e) \<le> 1
         else deficit (snd e) = 0))"

lemma select_scan_spec:
  assumes "\<forall>e\<in>set pss. if can_send (snd e) then dbl (1 / 1000000) \<le> deficit (snd e) \<and> dbl (1 / 1000000) \<le> quantum (snd e)
     else deficit (snd e) = 0"
  shows "\<exists>ret' hi'. select_scan pss ret hi = Some (ret', hi') \<and> hi \<le> hi' \<and>
    (\<forall>e\<in>set pss. can_send (snd e) \<longrightarrow> deficit (snd e) \<le> hi') \<and>
    (ret' = ret \<and> hi' = hi \<or> (\<exists>e\<in>set pss. can_send (snd e) \<and> ret' = Some (fst e) \<and> hi' = deficit (snd e)))"
  using assms
proof (induction pss arbitrary: ret hi)
  case (Cons e pss)
  obtain a ps where e: "e = (a, ps)" by force
  let ?take = "can_send ps \<and> hi < deficit ps"
  from Cons.IH[of "if ?take then Some a else ret" "if ?take then deficit ps else hi"] Cons.prems
  obtain ret' hi' where IH: "select_scan pss (if ?take then Some a else ret) (if ?take then deficit ps else hi) = Some (ret', hi')"
    "(if ?take then deficit ps else hi) \<le> hi'" "\<forall>e\<in>set pss. can_send (snd e) \<longrightarrow> deficit (snd e) \<le> hi'"
    "ret' = (if ?take then Some a else ret) \<and> hi' = (if ?take then deficit ps else hi) \<or>
      (\<exists>e\<in>set pss. can_send (snd e) \<and> ret' = Some (fst e) \<and> hi' = deficit (snd e))" by auto
  have "select_scan (e # pss) ret hi = Some (ret', hi')"
    using IH(1) Cons.prems dbl_millionth(1) by (auto simp: e split: if_splits)
  then show ?case using IH(2-4) by (auto simp: e split: if_splits)
qed simp

lemma choice_ok_scan:
  assumes "choice_ok pss" "e \<in> set pss" "can_send (snd e)"
  obtains a ps where "select_scan pss None (-1) = Some (Some a, deficit ps)" "(a, ps) \<in> set pss" "can_send ps"
    "\<And>b. held pss b \<le> deficit ps"
proof -
  have ok: "\<forall>e\<in>set pss. if can_send (snd e) then dbl (1 / 1000000) \<le> deficit (snd e) \<and> dbl (1 / 1000000) \<le> quantum (snd e)
     else deficit (snd e) = 0"
    using assms(1) dbl_millionth_less dbl_millionth(2) by (force simp: choice_ok_def split: if_splits)
  from select_scan_spec[OF ok, of None "-1"] obtain ret hi where
    s: "select_scan pss None (-1) = Some (ret, hi)" "\<forall>e\<in>set pss. can_send (snd e) \<longrightarrow> deficit (snd e) \<le> hi"
      "ret = None \<and> hi = -1 \<or> (\<exists>e\<in>set pss. can_send (snd e) \<and> ret = Some (fst e) \<and> hi = deficit (snd e))" by blast
  have "0 \<le> deficit (snd e)" "deficit (snd e) \<le> hi" using assms s(2) by (auto simp: choice_ok_def)
  then obtain f where f: "f \<in> set pss" "can_send (snd f)" "ret = Some (fst f)" "hi = deficit (snd f)" using s(3) by auto
  have d: "distinct (map fst pss)" using assms(1) by (simp add: choice_ok_def)
  have "held pss b \<le> hi" for b
  proof (cases "b \<in> fst ` set pss")
    case True
    then obtain ps where b: "(b, ps) \<in> set pss" by force
    then show ?thesis using held_in[OF d b] s(2) assms(1) \<open>0 \<le> deficit (snd e)\<close> \<open>deficit (snd e) \<le> hi\<close>
      by (cases "can_send ps") (force simp: choice_ok_def)+
  next
    case False
    then show ?thesis using held_out[of b pss] \<open>0 \<le> deficit (snd e)\<close> \<open>deficit (snd e) \<le> hi\<close> by simp
  qed
  then show thesis using that[of "fst f" "snd f"] s(1) f by simp
qed

text \<open>The accounts, seen as a round of the game: filled from accounts that hold what they may, or
  from accounts below 1.\<close>
abbreviation drift :: rat where "drift \<equiv> 1 / 2 ^ 36"

definition round_ready :: "int set \<Rightarrow> rat \<Rightarrow> (int \<Rightarrow> rat) \<Rightarrow> bool" where
  "round_ready U s h \<longleftrightarrow> (\<exists>d q. (\<forall>a\<in>U. 0 \<le> q a) \<and> sum q U \<le> 1 + drift \<and> (\<forall>a\<in>U. h a \<le> d a + q a) \<and>
     (shares_ok U s d \<or> (\<forall>a\<in>U. d a \<le> 1)))"

lemma round_taken:
  assumes "finite U" "a \<in> U" "round_ready U s h" "0 \<le> s" "\<And>b. b \<in> U \<Longrightarrow> h b \<le> h a" "x \<le> h a - 1 + drift"
  shows "shares_ok U (s + 2 * drift) (h(a := x))"
proof -
  obtain d q where g: "\<forall>a\<in>U. 0 \<le> q a" "sum q U \<le> 1 + drift" "\<forall>a\<in>U. h a \<le> d a + q a" "shares_ok U s d \<or> (\<forall>a\<in>U. d a \<le> 1)"
    using assms(3) unfolding round_ready_def by blast
  have r: "share_round U d q h (h(a := x)) a drift" using assms g by (simp add: share_round_def)
  show ?thesis
  proof (cases "shares_ok U s d")
    case False
    then have "shares_ok U (2 * drift) (h(a := x))" using g(4) by (intro round_from_low[OF r]) blast
    then show ?thesis by (rule shares_ok_mono) (use assms(4) in auto)
  qed (rule round_keeps[OF r])
qed

lemma map_entries: "map_of (map (\<lambda>(b, ps). (b, f b ps)) pss) a = map_option (f a) (map_of pss a)"
  by (induction pss) auto

abbreviation after_refill :: "(int \<times> PolicyState) list \<Rightarrow> (int \<times> PolicyState) list" where
  "after_refill \<equiv> map (\<lambda>(a, ps). (a, refill_one ps))"

text \<open>Filling once more before anyone has reached 1.\<close>
lemma refill_keeps: "sends_some (after_refill pss) a = sends_some pss a" "share (after_refill pss) a = share pss a"
  "map fst (after_refill pss) = map fst pss" "(\<exists>e\<in>set (after_refill pss). can_send (snd e)) \<longleftrightarrow> (\<exists>e\<in>set pss. can_send (snd e))"
proof -
  show "sends_some (after_refill pss) a = sends_some pss a" "share (after_refill pss) a = share pss a" "map fst (after_refill pss) = map fst pss"
    by (auto simp: sends_some_def share_def map_entries refill_one_def split: option.split)
  show "(\<exists>e\<in>set (after_refill pss). can_send (snd e)) \<longleftrightarrow> (\<exists>e\<in>set pss. can_send (snd e))"
    by (induction pss) (auto simp: refill_one_def)
qed

lemma refill_bounds:
  assumes "choice_ok pss" "(a, ps) \<in> set pss" "can_send ps" "deficit ps \<le> 1"
  shows "deficit ps + 1 / 2 ^ 20 \<le> deficit (refill_one ps)" "deficit (refill_one ps) \<le> deficit ps + (quantum ps + 1 / 2 ^ 49)"
proof -
  have "0 \<le> deficit ps" "1 / 2 ^ 19 \<le> quantum ps" "quantum ps \<le> 1"
    using assms(1-3) by (force simp: choice_ok_def)+
  then show "deficit ps + 1 / 2 ^ 20 \<le> deficit (refill_one ps)" "deficit (refill_one ps) \<le> deficit ps + (quantum ps + 1 / 2 ^ 49)"
    using fadd_near[of "deficit ps" "quantum ps"] assms(3,4) by (simp_all add: refill_one_def)
qed

lemma refill_choice_ok:
  assumes "choice_ok pss" "\<And>b. held pss b \<le> 1"
  shows "choice_ok (after_refill pss)"
  unfolding choice_ok_def
proof (intro conjI ballI)
  have d: "distinct (map fst pss)" using assms(1) by (simp add: choice_ok_def)
  show "distinct (map fst (after_refill pss))" unfolding refill_keeps(3) by (rule d)
  fix e assume "e \<in> set (after_refill pss)"
  then obtain a ps where e: "(a, ps) \<in> set pss" "e = (a, refill_one ps)" by auto
  have p: "0 \<le> deficit ps" "deficit ps \<le> 1" "if can_send ps then 1 / 2 ^ 19 - 1 / 2 ^ 40 \<le> deficit ps \<and> 1 / 2 ^ 19 \<le> quantum ps \<and> quantum ps \<le> 1
      else deficit ps = 0"
    using assms(1) e(1) assms(2)[of a] held_in[OF d e(1)] by (force simp: choice_ok_def)+
  have r: "can_send (refill_one ps) = can_send ps" "quantum (refill_one ps) = quantum ps"
    "\<not> can_send ps \<Longrightarrow> refill_one ps = ps" by (simp_all add: refill_one_def)
  show "0 \<le> deficit (snd e)" "deficit (snd e) \<le> 12"
    using p r(3) refill_bounds[OF assms(1) e(1) _ p(2)] by (cases "can_send ps"; simp add: e(2))+
  show "if can_send (snd e) then 1 / 2 ^ 19 - 1 / 2 ^ 40 \<le> deficit (snd e) \<and> 1 / 2 ^ 19 \<le> quantum (snd e) \<and> quantum (snd e) \<le> 1
      else deficit (snd e) = 0"
    using p r refill_bounds[OF assms(1) e(1) _ p(2)] by (cases "can_send ps"; simp add: e(2))
qed

lemma refill_held:
  assumes "choice_ok pss" "\<And>b. held pss b \<le> 1"
  shows "held pss b \<le> held (after_refill pss) b" "held (after_refill pss) b \<le> held pss b + (share pss b + 1 / 2 ^ 49)"
    "sends_some pss b \<Longrightarrow> held pss b + 1 / 2 ^ 20 \<le> held (after_refill pss) b"
proof -
  have d: "distinct (map fst pss)" using assms(1) by (simp add: choice_ok_def)
  have "held pss b \<le> held (after_refill pss) b \<and> held (after_refill pss) b \<le> held pss b + (share pss b + 1 / 2 ^ 49) \<and>
    (sends_some pss b \<longrightarrow> held pss b + 1 / 2 ^ 20 \<le> held (after_refill pss) b)"
  proof (cases "map_of pss b")
    case None
    then show ?thesis by (simp add: held_def share_def sends_some_def map_entries)
  next
    case (Some ps)
    then have b: "(b, ps) \<in> set pss" by (rule map_of_SomeD)
    have "deficit ps \<le> 1" using assms(2)[of b] held_in[OF d b] by simp
    from refill_bounds[OF assms(1) b _ this] show ?thesis
      by (cases "can_send ps") (simp_all add: held_def share_def sends_some_def map_entries Some refill_one_def)
  qed
  then show "held pss b \<le> held (after_refill pss) b" "held (after_refill pss) b \<le> held pss b + (share pss b + 1 / 2 ^ 49)"
    "sends_some pss b \<Longrightarrow> held pss b + 1 / 2 ^ 20 \<le> held (after_refill pss) b" by blast+
qed

lemma share_nonneg: "choice_ok pss \<Longrightarrow> 0 \<le> share pss b"
  by (force simp: share_def choice_ok_def split: option.split dest: map_of_SomeD)

lemma refill_round:
  assumes "choice_ok pss" "\<And>b. held pss b \<le> 1" "finite U" "card U \<le> 4096" "sum (share pss) U \<le> 1 + 1 / 2 ^ 48"
  shows "round_ready U s (held (after_refill pss))"
  unfolding round_ready_def
proof (rule exI[of _ "held pss"], rule exI[of _ "\<lambda>b. share pss b + 1 / 2 ^ 49"], intro conjI)
  have "(\<Sum>b\<in>U. share pss b + 1 / 2 ^ 49) = sum (share pss) U + of_nat (card U) * (1 / 2 ^ 49)" by (simp add: sum.distrib)
  moreover have "(of_nat (card U) :: rat) \<le> 4096" using assms(4) by (metis of_nat_le_iff of_nat_numeral)
  ultimately show "(\<Sum>b\<in>U. share pss b + 1 / 2 ^ 49) \<le> 1 + drift" using assms(5) by simp
qed (use share_nonneg[OF assms(1)] refill_held(2)[OF assms(1,2)] assms(2) in \<open>auto intro: add_nonneg_nonneg\<close>)

text \<open>Taking 1 from the fullest.\<close>
lemma take_one:
  assumes U: "finite U" "card U \<le> 4096" and s: "0 \<le> s" "s \<le> 1 / 2"
    and ok: "choice_ok pss" and keys: "fst ` set pss \<subseteq> U" and ready: "round_ready U s (held pss)"
    and sel: "select_scan pss None (-1) = Some (Some a, deficit ps)" "(a, ps) \<in> set pss" "can_send ps"
      "\<And>b. held pss b \<le> deficit ps" and full: "1 \<le> deficit ps"
  shows "\<exists>pss'. select_msg_to_send pss = Some (Some a, pss') \<and> sends_some pss a \<and> map fst pss' = map fst pss \<and>
    sends_some pss' = sends_some pss \<and> shares_ok U (s + 2 * drift) (held pss') \<and>
    (\<forall>e\<in>set pss'. 0 \<le> deficit (snd e) \<and> deficit (snd e) \<le> 10) \<and> (\<forall>b. b \<noteq> a \<longrightarrow> held pss b \<le> held pss' b)"
proof -
  define x where "x = fsub (deficit ps) 1"
  let ?pss = "map (\<lambda>(b, ps). (b, if b = a then ps\<lparr>deficit := x\<rparr> else ps)) pss"
  have d: "distinct (map fst pss)" using ok by (simp add: choice_ok_def)
  have a: "held pss a = deficit ps" "sends_some pss a" "a \<in> U" using held_in[OF d sel(2)] sel(2,3) keys by force+
  have m: "map_of pss a = Some ps" using d sel(2) by simp
  have h: "held ?pss = (held pss)(a := x)" by (auto simp: held_def map_entries m split: option.split)
  have p: "deficit ps \<le> 12" using ok sel(2) by (force simp: choice_ok_def)
  have x: "0 \<le> x" "x \<le> deficit ps - 1 + drift"
    using dbl_near(1)[of "deficit ps - 1"] full p by (simp_all add: x_def fsub_def dbl_nonneg)
  have sh: "shares_ok U (s + 2 * drift) (held ?pss)"
    unfolding h by (rule round_taken[OF U(1) a(3) ready s(1)]) (use sel(4) x(2) a(1) in simp_all)
  have le10: "held ?pss b \<le> 10" if "b \<in> U" for b
    using shares_ok_bound[OF sh that] harmonic_4096[OF U(2)] s(2) by simp
  have d': "distinct (map fst ?pss)" using d by (simp add: comp_def case_prod_unfold)
  have "0 \<le> deficit (snd e) \<and> deficit (snd e) \<le> 10" if e: "e \<in> set ?pss" for e
  proof -
    have "held ?pss (fst e) = deficit (snd e)" using held_in[OF d', of "fst e" "snd e"] e by simp
    moreover have "0 \<le> deficit (snd e)" using e x(1) ok by (force simp: choice_ok_def split: if_splits)
    moreover have "fst e \<in> U" using e keys by force
    ultimately show ?thesis using le10[of "fst e"] by simp
  qed
  moreover have "x \<le> 10" using le10[OF a(3)] unfolding h by simp
  then have "select_msg_to_send pss = Some (Some a, ?pss)"
    using sel(1) full by (subst select_msg_to_send.simps) (simp add: Let_def flip: x_def)
  moreover have "sends_some ?pss = sends_some pss" by (auto simp: sends_some_def map_entries fun_eq_iff split: option.split)
  moreover have "map fst ?pss = map fst pss" by auto
  moreover have "\<forall>b. b \<noteq> a \<longrightarrow> held pss b \<le> held ?pss b" unfolding h by simp
  ultimately show ?thesis using sh a(2) by blast
qed

text \<open>The choice ends, whatever the deficits, and its assertion on the deficit left holds.\<close>
lemma select_msg_to_send_ok:
  assumes U: "finite U" "card U \<le> 4096" and s: "0 \<le> s" "s \<le> 1 / 2"
    and "choice_ok pss" "fst ` set pss \<subseteq> U" "sum (share pss) U \<le> 1 + 1 / 2 ^ 48" "round_ready U s (held pss)"
    and "sends_some pss c" "1 \<le> held pss c + of_nat k / 2 ^ 20"
  shows "\<exists>a pss'. select_msg_to_send pss = Some (Some a, pss') \<and> sends_some pss a \<and> map fst pss' = map fst pss \<and>
    sends_some pss' = sends_some pss \<and> shares_ok U (s + 2 * drift) (held pss') \<and>
    (\<forall>e\<in>set pss'. 0 \<le> deficit (snd e) \<and> deficit (snd e) \<le> 10) \<and> (\<forall>b. b \<noteq> a \<longrightarrow> held pss b \<le> held pss' b)"
  using assms(5-)
proof (induction k arbitrary: pss c)
  case 0
  note ok = 0(1)
  have d: "distinct (map fst pss)" using ok by (simp add: choice_ok_def)
  obtain ps0 where c: "(c, ps0) \<in> set pss" "can_send ps0" using senders[OF d 0(5)] by blast
  obtain a ps where sel: "select_scan pss None (-1) = Some (Some a, deficit ps)" "(a, ps) \<in> set pss" "can_send ps"
    "\<And>b. held pss b \<le> deficit ps" using choice_ok_scan[OF ok c(1)] c(2) by auto
  have "1 \<le> deficit ps" using 0(6) sel(4)[of c] by simp
  then show ?case using take_one[OF U s ok 0(2,4) sel] by blast
next
  case (Suc k)
  note ok = Suc.prems(1)
  have d: "distinct (map fst pss)" using ok by (simp add: choice_ok_def)
  obtain ps0 where c: "(c, ps0) \<in> set pss" "can_send ps0" using senders[OF d Suc.prems(5)] by blast
  obtain a ps where sel: "select_scan pss None (-1) = Some (Some a, deficit ps)" "(a, ps) \<in> set pss" "can_send ps"
    "\<And>b. held pss b \<le> deficit ps" using choice_ok_scan[OF ok c(1)] c(2) by auto
  have a: "held pss a = deficit ps" "sends_some pss a" using held_in[OF d sel(2)] sel(3) by simp_all
  show ?case
  proof (cases "deficit ps < 1")
    case False
    then show ?thesis using take_one[OF U s ok Suc.prems(2,4) sel] by force
  next
    case True
    have low: "held pss b \<le> 1" for b using sel(4)[of b] True by simp
    let ?r = "after_refill pss"
    have "list_all (\<lambda>(a, ps). refill_ok ps) pss"
      using ok dbl_millionth(2) by (force simp: list_all_iff refill_ok_def choice_ok_def)
    then have step: "select_msg_to_send pss = select_msg_to_send ?r"
      using sel(1) True by (subst select_msg_to_send.simps) simp
    have sr: "sends_some ?r = sends_some pss" by (rule ext) (rule refill_keeps(1))
    have "\<exists>a pss'. select_msg_to_send ?r = Some (Some a, pss') \<and> sends_some ?r a \<and> map fst pss' = map fst ?r \<and>
      sends_some pss' = sends_some ?r \<and> shares_ok U (s + 2 * drift) (held pss') \<and>
      (\<forall>e\<in>set pss'. 0 \<le> deficit (snd e) \<and> deficit (snd e) \<le> 10) \<and> (\<forall>b. b \<noteq> a \<longrightarrow> held ?r b \<le> held pss' b)"
    proof (rule Suc.IH)
      show "1 \<le> held ?r c + of_nat k / 2 ^ 20"
        using refill_held(3)[OF ok low Suc.prems(5)] Suc.prems(6) by (simp add: add_divide_distrib)
      show "sum (share ?r) U \<le> 1 + 1 / 2 ^ 48" using Suc.prems(3) ext[of "share ?r" "share pss", OF refill_keeps(2)] by (simp only:)
      show "round_ready U s (held ?r)" by (rule refill_round[OF ok low U Suc.prems(3)])
      show "fst ` set ?r \<subseteq> U" using Suc.prems(2) by force
    qed (use refill_choice_ok[OF ok low] Suc.prems(5) in \<open>simp_all only: refill_keeps(1)\<close>)
    then obtain a pss' where r: "select_msg_to_send ?r = Some (Some a, pss')" "sends_some ?r a" "map fst pss' = map fst ?r"
      "sends_some pss' = sends_some ?r" "shares_ok U (s + 2 * drift) (held pss')"
      "\<forall>e\<in>set pss'. 0 \<le> deficit (snd e) \<and> deficit (snd e) \<le> 10" "\<forall>b. b \<noteq> a \<longrightarrow> held ?r b \<le> held pss' b" by blast
    have "\<forall>b. b \<noteq> a \<longrightarrow> held pss b \<le> held pss' b" using r(7) refill_held(1)[OF ok low] order_trans by blast
    with r(1-6) show ?thesis unfolding step refill_keeps(3) sr by blast
  qed
qed

section \<open>One turn of send\_data\<close>

definition policy_inv :: "int set \<Rightarrow> rat \<Rightarrow> Receivers \<Rightarrow> bool" where
  "policy_inv U s R \<longleftrightarrow> weights_ok R \<and> distinct (map fst (rcver_policy_states R)) \<and>
     fst ` set (rcver_policy_states R) \<subseteq> U \<and> (\<forall>e\<in>set (rcver_policy_states R). 0 \<le> deficit (snd e)) \<and>
     shares_ok U s (held (rcver_policy_states R))"

lemma held_nonneg: "\<forall>e\<in>set pss. 0 \<le> deficit (snd e) \<Longrightarrow> 0 \<le> held pss a"
  by (force simp: held_def split: option.split dest: map_of_SomeD)

lemma sending_keys:
  assumes "distinct (map fst pss)"
  shows "{a. sends_some pss a} = fst ` set (filter (\<lambda>e. can_send (snd e)) pss)"
    "card {a. sends_some pss a} = length (filter (\<lambda>e. can_send (snd e)) pss)"
proof -
  show k: "{a. sends_some pss a} = fst ` set (filter (\<lambda>e. can_send (snd e)) pss)"
  proof (intro equalityI subsetI)
    fix a assume "a \<in> {a. sends_some pss a}"
    then show "a \<in> fst ` set (filter (\<lambda>e. can_send (snd e)) pss)" using senders[OF assms, of a] by force
  next
    fix a assume "a \<in> fst ` set (filter (\<lambda>e. can_send (snd e)) pss)"
    then show "a \<in> {a. sends_some pss a}" using held_in[OF assms] by auto
  qed
  have "distinct (map fst (filter (\<lambda>e. can_send (snd e)) pss))" using assms by (rule distinct_map_filter)
  then show "card {a. sends_some pss a} = length (filter (\<lambda>e. can_send (snd e)) pss)"
    unfolding k by (metis distinct_card length_map list.set_map)
qed

text \<open>The entries after the second loop, in terms of those before.\<close>
lemma all_filled_entries:
  assumes f: "list_all2 (filled R high low best) (rcver_policy_states R) pss"
  defines "q a \<equiv> if a = best then high else low"
  shows "map fst pss = map fst (rcver_policy_states R)"
    "sends_some pss a \<Longrightarrow> share pss a = q a \<and> held pss a = fadd (held (rcver_policy_states R) a) (q a)"
    "\<not> sends_some pss a \<Longrightarrow> share pss a = 0 \<and> held pss a = 0"
    "sends_some pss a \<longleftrightarrow> a \<in> fst ` set (rcver_policy_states R) \<and> (\<exists>rs. map_of (remotes R) a = Some rs \<and> has_work rs)"
proof -
  have fst: "\<And>x y. filled R high low best x y \<Longrightarrow> fst y = fst x" by (simp add: filled_def)
  show "map fst pss = map fst (rcver_policy_states R)" by (rule list_all2_keys[OF f fst])
  have m: "map_of (rcver_policy_states R) a = None \<and> map_of pss a = None \<or>
    (\<exists>x y. map_of (rcver_policy_states R) a = Some x \<and> map_of pss a = Some y \<and> filled R high low best (a, x) (a, y))"
    by (rule list_all2_map_of[OF f fst])
  then show "sends_some pss a \<Longrightarrow> share pss a = q a \<and> held pss a = fadd (held (rcver_policy_states R) a) (q a)"
    and "\<not> sends_some pss a \<Longrightarrow> share pss a = 0 \<and> held pss a = 0"
    by (auto simp: sends_some_def share_def held_def filled_def q_def Let_def)
  show "sends_some pss a \<longleftrightarrow> a \<in> fst ` set (rcver_policy_states R) \<and> (\<exists>rs. map_of (remotes R) a = Some rs \<and> has_work rs)"
    using m
  proof (elim disjE exE conjE)
    assume n: "map_of (rcver_policy_states R) a = None" "map_of pss a = None"
    then have "a \<notin> fst ` set (rcver_policy_states R)" by (simp add: map_of_eq_None_iff)
    then show ?thesis using n(2) by (simp add: sends_some_def)
  next
    fix x y assume n: "map_of (rcver_policy_states R) a = Some x" "map_of pss a = Some y" "filled R high low best (a, x) (a, y)"
    then have "a \<in> fst ` set (rcver_policy_states R)" by (force dest: map_of_SomeD)
    then show ?thesis using n(2,3) by (auto simp: sends_some_def filled_def)
  qed
qed

lemma filled_ready:
  assumes U: "finite U" "card U \<le> 4096" and inv: "policy_inv U s R" and s: "s \<le> 1 / 2"
    and f: "all_filled N R pss"
  shows "choice_ok pss" "fst ` set pss \<subseteq> U" "sum (share pss) U \<le> 1 + 1 / 2 ^ 48" "round_ready U s (held pss)"
    "sends_some pss a \<Longrightarrow> fs_weight R \<le> 2 * of_nat N * (held pss a - held (rcver_policy_states R) a + 1 / 2 ^ 49)"
proof -
  let ?p = "rcver_policy_states R"
  note I = inv[unfolded policy_inv_def]
  obtain high low best where F: "list_all2 (filled R high low best) ?p pss" "1 / 2 ^ 19 \<le> low" "low \<le> high" "high \<le> 1"
    "high + (of_nat (length (filter (\<lambda>e. can_send (snd e)) pss)) - 1) * low \<le> 1 + 1 / 2 ^ 48"
    "(\<exists>e\<in>set pss. can_send (snd e)) \<Longrightarrow> fs_weight R \<le> 2 * (of_nat N * low)"
    using f unfolding all_filled_def by blast
  note E = all_filled_entries[OF F(1)]
  have d: "distinct (map fst pss)" using I by (simp add: E(1))
  have keys: "fst ` set pss = fst ` set ?p" using E(1) by (metis list.set_map)
  then show sub: "fst ` set pss \<subseteq> U" using I by simp
  have old: "0 \<le> held ?p b" "held ?p b \<le> 10" for b
  proof -
    show "0 \<le> held ?p b" using I by (simp add: held_nonneg)
    show "held ?p b \<le> 10"
    proof (cases "b \<in> U")
      case True
      then show ?thesis using shares_ok_bound[of U s "held ?p" b] I harmonic_4096[OF U(2)] s by simp
    next
      case False
      then have "b \<notin> fst ` set ?p" using I by blast
      then show ?thesis by (simp add: held_out)
    qed
  qed
  have q: "1 / 2 ^ 19 \<le> (if b = best then high else low)" "(if b = best then high else low) \<le> 1" for b using F(2-4) by auto
  have step: "held ?p b + (share pss b - 1 / 2 ^ 49) \<le> held pss b" "held pss b \<le> held ?p b + (share pss b + 1 / 2 ^ 49)"
    if "sends_some pss b" for b
    using fadd_near[of "held ?p b" "if b = best then high else low"] E(2)[OF that] old[of b] q[of b] by simp_all
  show ok: "choice_ok pss"
    unfolding choice_ok_def
  proof (intro conjI ballI d)
    fix e assume e: "e \<in> set pss"
    then have h: "held pss (fst e) = deficit (snd e)" "sends_some pss (fst e) = can_send (snd e)"
      "can_send (snd e) \<Longrightarrow> share pss (fst e) = quantum (snd e)" using held_in[OF d, of "fst e" "snd e"] by simp_all
    show "0 \<le> deficit (snd e)" "deficit (snd e) \<le> 12"
      using step[of "fst e"] E(2,3)[of "fst e"] old[of "fst e"] q[of "fst e"] h by (cases "can_send (snd e)"; simp)+
    show "if can_send (snd e) then 1 / 2 ^ 19 - 1 / 2 ^ 40 \<le> deficit (snd e) \<and> 1 / 2 ^ 19 \<le> quantum (snd e) \<and> quantum (snd e) \<le> 1
        else deficit (snd e) = 0"
      using step[of "fst e"] E(2,3)[of "fst e"] old[of "fst e"] q[of "fst e"] h by (cases "can_send (snd e)"; simp)
  qed
  show tot: "sum (share pss) U \<le> 1 + 1 / 2 ^ 48"
  proof -
    let ?S = "{b. sends_some pss b}" and ?n = "length (filter (\<lambda>e. can_send (snd e)) pss)"
    have S: "finite ?S" "?S \<subseteq> U" using sub unfolding sending_keys(1)[OF d] by (simp, force)
    have "sum (share pss) U = sum (share pss) ?S" using S E(3) U(1) by (intro sum.mono_neutral_right) auto
    also have "\<dots> = (\<Sum>b\<in>?S. low + (if b = best then high - low else 0))" using E(2) by (intro sum.cong) auto
    also have "\<dots> = of_nat ?n * low + (\<Sum>b\<in>?S. if b = best then high - low else 0)"
      by (simp add: sum.distrib sending_keys(2)[OF d])
    also have "(\<Sum>b\<in>?S. if b = best then high - low else 0) \<le> high - low" using S(1) F(3) by simp
    also have "of_nat ?n * low + (high - low) = high + (of_nat ?n - 1) * low" by (simp add: algebra_simps)
    finally show ?thesis using F(5) by simp
  qed
  show "round_ready U s (held pss)"
    unfolding round_ready_def
  proof (rule exI[of _ "held ?p"], rule exI[of _ "\<lambda>b. share pss b + 1 / 2 ^ 49"], intro conjI)
    have "(\<Sum>b\<in>U. share pss b + 1 / 2 ^ 49) = sum (share pss) U + of_nat (card U) * (1 / 2 ^ 49)" by (simp add: sum.distrib)
    moreover have "(of_nat (card U) :: rat) \<le> 4096" using U(2) by (metis of_nat_le_iff of_nat_numeral)
    ultimately show "(\<Sum>b\<in>U. share pss b + 1 / 2 ^ 49) \<le> 1 + drift" using tot by simp
    show "\<forall>b\<in>U. held pss b \<le> held ?p b + (share pss b + 1 / 2 ^ 49)"
    proof
      fix b show "held pss b \<le> held ?p b + (share pss b + 1 / 2 ^ 49)"
        using step(2)[of b] E(3)[of b] old(1)[of b] by (cases "sends_some pss b") simp_all
    qed
  qed (use share_nonneg[OF ok] I in \<open>auto intro: add_nonneg_nonneg\<close>)
  show "fs_weight R \<le> 2 * of_nat N * (held pss a - held ?p a + 1 / 2 ^ 49)" if a: "sends_some pss a"
  proof -
    have "\<exists>e\<in>set pss. can_send (snd e)" using senders[OF d a] by force
    then have "fs_weight R \<le> 2 * of_nat N * low" using F(6) by (simp add: mult.assoc)
    moreover have "low \<le> held pss a - held ?p a + 1 / 2 ^ 49" using step(1)[OF a] E(2)[OF a] F(3) by (auto split: if_splits)
    ultimately show ?thesis by (meson mult_left_mono mult_nonneg_nonneg of_nat_0_le_iff order_trans zero_le_numeral)
  qed
qed

end
