(* ===== verification/HybridTurns.thy ===== *)
theory HybridTurns
  imports HybridFair
begin

text \<open>
  Runs of the sender policy of the ns-2 host: the turns of send\_data, and between them whatever
  else happens to receivers, credit and messages.  Along every run of up to 2^34 turns with up
  to 4096 receivers no assertion of the policy fails but one, in a case that is stated exactly
  (the policy that counts credit, with work and no data credit), and no receiver that has work
  is passed over for long.
\<close>

section \<open>A turn\<close>

text \<open>The part of send\_data that decides whom to send to.\<close>
definition policy_turn ::
  "(OutboundMsgState list \<Rightarrow> OutboundMsgState list) \<Rightarrow> int \<Rightarrow> Receivers \<Rightarrow> (int option \<times> Receivers) option" where
  "policy_turn srt sender_policy R =
    (case update_policy_state srt sender_policy R of None \<Rightarrow> None
     | Some R \<Rightarrow> map_option (\<lambda>(sel, pss). (sel, R\<lparr>rcver_policy_states := pss\<rparr>)) (select_msg_to_send (rcver_policy_states R)))"

lemma keys_card:
  assumes "finite U" "distinct (map fst pss)" "fst ` set pss \<subseteq> U"
  shows "length pss \<le> card U"
  by (metis assms card_mono distinct_card length_map list.set_map)

lemma policy_turn_ok:
  assumes srt: "sorts_by unsent_bytes srt" and U: "finite U" "card U \<le> 4096" and s: "s \<le> 1 / 2"
    and inv: "policy_inv U s R" and ready: "policy_ready pol R" and first: "\<not> none_first pol R"
  obtains sel R' where "policy_turn srt pol R = Some (sel, R')" "policy_inv U (s + 2 * drift) R'"
    "\<forall>e\<in>set (rcver_policy_states R'). deficit (snd e) \<le> 10" "fs_weight R' = fs_weight R"
    "case sel of None \<Rightarrow> \<forall>a. \<not> waiting R a | Some a \<Rightarrow> waiting R a"
    "\<And>a. waiting R a \<Longrightarrow> sel \<noteq> Some a \<Longrightarrow>
      fs_weight R \<le> 2 * of_nat (card U) * (held (rcver_policy_states R') a - held (rcver_policy_states R) a + 1 / 2 ^ 49)"
proof -
  note I = inv[unfolded policy_inv_def]
  have len: "length (rcver_policy_states R) \<le> card U" using keys_card[OF U(1)] I by blast
  obtain R1 where R1: "update_policy_state srt pol R = Some R1" "fs_weight R1 = fs_weight R" "srpt_weight R1 = srpt_weight R"
    "all_filled (card U) R (rcver_policy_states R1)"
    using update_policy_state_ok[OF srt ready _ len first] I by blast
  let ?p = "rcver_policy_states R1"
  note F = filled_ready[OF U inv s R1(4)]
  obtain high low best where f: "list_all2 (filled R high low best) (rcver_policy_states R) ?p"
    using R1(4) unfolding all_filled_def by blast
  have w: "sends_some ?p a \<longleftrightarrow> waiting R a" for a using all_filled_entries(4)[OF f, of a] by (simp add: waiting_def)
  have s0: "0 \<le> s" using I by (simp add: shares_ok_def)
  have wt: "weights_ok R1" using I R1(2,3) by (simp add: weights_ok_def)
  have d: "distinct (map fst ?p)" using F(1) by (simp add: choice_ok_def)
  show thesis
  proof (cases "\<exists>a. waiting R a")
    case True
    then obtain c where c: "sends_some ?p c" using w by blast
    have h: "0 \<le> held ?p c" using F(1) by (intro held_nonneg) (simp add: choice_ok_def)
    have k: "1 \<le> held ?p c + of_nat (2 ^ 20) / 2 ^ 20" using h by simp
    from select_msg_to_send_ok[OF U s0 s F(1-4) c k] obtain a pss where
      S: "select_msg_to_send ?p = Some (Some a, pss)" "sends_some ?p a" "map fst pss = map fst ?p" "sends_some pss = sends_some ?p"
      "shares_ok U (s + 2 * drift) (held pss)" "\<forall>e\<in>set pss. 0 \<le> deficit (snd e) \<and> deficit (snd e) \<le> 10"
      "\<forall>b. b \<noteq> a \<longrightarrow> held ?p b \<le> held pss b" by blast
    have keys: "fst ` set pss = fst ` set ?p" using S(3) by (metis list.set_map)
    show thesis
    proof (rule that)
      show "policy_turn srt pol R = Some (Some a, R1\<lparr>rcver_policy_states := pss\<rparr>)"
        using R1(1) S(1) by (simp add: policy_turn_def)
      show "policy_inv U (s + 2 * drift) (R1\<lparr>rcver_policy_states := pss\<rparr>)"
        using wt d S(3,5,6) F(2) keys by (simp add: policy_inv_def weights_ok_def)
      fix b assume b: "waiting R b" "Some a \<noteq> Some b"
      have "fs_weight R \<le> 2 * of_nat (card U) * (held ?p b - held (rcver_policy_states R) b + 1 / 2 ^ 49)"
        using F(5) b(1) w by blast
      also have "\<dots> \<le> 2 * of_nat (card U) * (held pss b - held (rcver_policy_states R) b + 1 / 2 ^ 49)"
        using S(7) b(2) by (intro mult_left_mono) auto
      finally show "fs_weight R \<le> 2 * of_nat (card U) * (held (rcver_policy_states (R1\<lparr>rcver_policy_states := pss\<rparr>)) b
          - held (rcver_policy_states R) b + 1 / 2 ^ 49)" by simp
    qed (use S(2,6) R1(2) w in simp_all)
  next
    case False
    have none: "\<forall>e\<in>set ?p. \<not> can_send (snd e)" using False w held_in[OF d] by force
    then have z: "\<forall>e\<in>set ?p. deficit (snd e) = 0" using F(1) by (auto simp: choice_ok_def)
    have "\<forall>e\<in>set ?p. if can_send (snd e) then dbl (1 / 1000000) \<le> deficit (snd e) \<and> dbl (1 / 1000000) \<le> quantum (snd e)
       else deficit (snd e) = 0" using none z by simp
    from select_scan_spec[OF this, of None "-1"] none have "select_scan ?p None (-1) = Some (None, -1)" by blast
    then have sel: "select_msg_to_send ?p = Some (None, ?p)" by (subst select_msg_to_send.simps) simp
    have h: "held ?p a = 0" for a using z by (force simp: held_def split: option.split dest: map_of_SomeD)
    show thesis
    proof (rule that)
      show "policy_turn srt pol R = Some (None, R1)" using R1(1) sel by (simp add: policy_turn_def)
      show "policy_inv U (s + 2 * drift) R1"
        using wt d F(2) z s0 h shares_ok_zero[OF U(1), of "s + 2 * drift"]
        by (auto simp: policy_inv_def fun_eq_iff[symmetric] cong: if_cong intro: shares_ok_mono)
    qed (use z R1(2) False in auto)
  qed
qed

text \<open>A turn that returns had a receiver to put first.\<close>
lemma policy_turn_first:
  "sorts_by unsent_bytes srt \<Longrightarrow> policy_ready pol R \<Longrightarrow> policy_turn srt pol R = Some x \<Longrightarrow> \<not> none_first pol R"
  using update_policy_state_fails[of srt pol R] by (auto simp: policy_turn_def)

section \<open>Runs\<close>

text \<open>Between turns credit arrives, messages come and go, tables are rehashed, and new receivers
  get a fresh policy state.  The other policy states stay.\<close>
definition policy_world :: "int set \<Rightarrow> Receivers \<Rightarrow> Receivers \<Rightarrow> bool" where
  "policy_world U R R' \<longleftrightarrow> fs_weight R' = fs_weight R \<and> srpt_weight R' = srpt_weight R \<and>
     distinct (map fst (rcver_policy_states R')) \<and> fst ` set (rcver_policy_states R') \<subseteq> U \<and>
     (\<forall>a. map_of (rcver_policy_states R') a = map_of (rcver_policy_states R) a \<or>
       map_of (rcver_policy_states R) a = None \<and> map_of (rcver_policy_states R') a = Some PolicyState_ctor)"

inductive policy_run ::
  "(OutboundMsgState list \<Rightarrow> OutboundMsgState list) \<Rightarrow> int \<Rightarrow> int set \<Rightarrow> double \<Rightarrow> nat \<Rightarrow> Receivers \<Rightarrow> bool"
  for srt pol U r where
  run_start: "set_policy_weights (fsub 1 r) r Receivers_ctor = Some R \<Longrightarrow> policy_run srt pol U r 0 R"
| run_world: "policy_run srt pol U r t R \<Longrightarrow> policy_world U R R' \<Longrightarrow> policy_run srt pol U r t R'"
| run_turn: "policy_run srt pol U r t R \<Longrightarrow> policy_ready pol R \<Longrightarrow> policy_turn srt pol R = Some (sel, R') \<Longrightarrow>
    policy_run srt pol U r (Suc t) R'"

text \<open>Stretches of a run in which receiver a has work in each of n turns and is never chosen.\<close>
inductive passed_over ::
  "(OutboundMsgState list \<Rightarrow> OutboundMsgState list) \<Rightarrow> int \<Rightarrow> int set \<Rightarrow> int \<Rightarrow> Receivers \<Rightarrow> nat \<Rightarrow> Receivers \<Rightarrow> bool"
  for srt pol U a R where
  over_start: "passed_over srt pol U a R 0 R"
| over_world: "passed_over srt pol U a R n R1 \<Longrightarrow> policy_world U R1 R2 \<Longrightarrow> passed_over srt pol U a R n R2"
| over_turn: "passed_over srt pol U a R n R1 \<Longrightarrow> policy_ready pol R1 \<Longrightarrow> waiting R1 a \<Longrightarrow>
    policy_turn srt pol R1 = Some (sel, R2) \<Longrightarrow> sel \<noteq> Some a \<Longrightarrow> passed_over srt pol U a R (Suc n) R2"

text \<open>New receivers, and whatever happens to their credit and messages, are such changes.\<close>
lemma find_or_create_world:
  assumes "distinct (map fst (rcver_policy_states R))" "fst ` set (rcver_policy_states R) \<subseteq> U" "daddr \<in> U"
    "fst ` set (remotes R) = fst ` set (rcver_policy_states R)"
  shows "policy_world U R (snd (find_or_create daddr R))"
proof (cases "find_remote daddr R")
  case None
  then have "daddr \<notin> fst ` set (rcver_policy_states R)"
    using assms(4) by (metis find_remote_def map_of_eq_None_iff)
  then show ?thesis using assms None
    by (simp add: policy_world_def find_or_create_def on_create_def upd_remote_def Let_def update_conv' map_of_eq_None_iff
        AList.distinct_update AList.dom_update)
next
  case (Some rs)
  then show ?thesis using assms by (simp add: policy_world_def find_or_create_def)
qed

lemma remotes_world:
  assumes "distinct (map fst (rcver_policy_states R))" "fst ` set (rcver_policy_states R) \<subseteq> U"
  shows "policy_world U R (upd_remote daddr rs R)"
  using assms by (simp add: policy_world_def upd_remote_def)

lemma policy_world_keeps:
  assumes "policy_inv U s R" "policy_world U R R'"
  shows "policy_inv U s R'" "held (rcver_policy_states R') = held (rcver_policy_states R)" "fs_weight R' = fs_weight R"
proof -
  note I = assms(1)[unfolded policy_inv_def] and W = assms(2)[unfolded policy_world_def]
  show h: "held (rcver_policy_states R') = held (rcver_policy_states R)"
  proof
    fix a show "held (rcver_policy_states R') a = held (rcver_policy_states R) a"
      using W by (metis (no_types, lifting) PolicyState.select_convs(1) PolicyState_ctor_def held_def option.simps(4,5))
  qed
  show "fs_weight R' = fs_weight R" using W by blast
  have d: "0 \<le> deficit ps" if "(a, ps) \<in> set (rcver_policy_states R')" for a ps
  proof -
    have "held (rcver_policy_states R') a = deficit ps" using held_in[OF _ that] W by blast
    then show ?thesis using h held_nonneg[of "rcver_policy_states R" a] I by metis
  qed
  then show "policy_inv U s R'" using I W h by (fastforce simp: policy_inv_def weights_ok_def)
qed

text \<open>Every turn adds a little slack.\<close>
lemma policy_run_inv:
  assumes srt: "sorts_by unsent_bytes srt" and U: "finite U" "card U \<le> 4096"
    and r: "dbl r = r" "0 \<le> r" "r \<le> 99 / 100"
  shows "policy_run srt pol U r t R \<Longrightarrow> t \<le> 2 ^ 34 + 1 \<Longrightarrow> policy_inv U (of_nat t * (2 * drift)) R \<and> fs_weight R = fsub 1 r"
proof (induction rule: policy_run.induct)
  case (run_start R)
  then have R: "R = Receivers_ctor\<lparr>fs_weight := fsub 1 r, srpt_weight := r\<rparr>"
    by (simp add: set_policy_weights_def split: if_splits)
  then have p: "rcver_policy_states R = []" "fs_weight R = fsub 1 r" "srpt_weight R = r" by (simp_all add: Receivers_ctor_def)
  have "held [] = (\<lambda>_. 0)" by (simp add: held_def fun_eq_iff)
  then show ?case using weights_of_ratio[OF r p(2,3)] p shares_ok_zero[OF U(1), of 0] by (simp add: policy_inv_def)
next
  case (run_world t R R')
  then show ?case using policy_world_keeps by metis
next
  case (run_turn t R sel R')
  have t: "t \<le> 2 ^ 34" using run_turn.prems by simp
  then have inv: "policy_inv U (of_nat t * (2 * drift)) R" "fs_weight R = fsub 1 r" using run_turn.IH by simp_all
  have s: "of_nat t * (2 * drift) \<le> 1 / 2"
  proof -
    have "(of_nat t :: rat) \<le> of_nat (2 ^ 34)" using t by (simp only: of_nat_le_iff)
    then show ?thesis by simp
  qed
  obtain sel' R2 where R2: "policy_turn srt pol R = Some (sel', R2)" "policy_inv U (of_nat t * (2 * drift) + 2 * drift) R2"
    "fs_weight R2 = fs_weight R" by (rule policy_turn_ok[OF srt U s inv(1) run_turn.hyps(2) policy_turn_first[OF srt run_turn.hyps(2,3)]])
      (erule (1) that; blast)
  have "of_nat t * (2 * drift) + 2 * drift = of_nat (Suc t) * (2 * drift)" by (simp add: algebra_simps)
  then have "policy_inv U (of_nat (Suc t) * (2 * drift)) R2" using R2(2) by (simp only:)
  moreover have "R' = R2" using R2(1) run_turn.hyps(3) by simp
  ultimately show ?case using R2(3) inv(2) by (simp only:)
qed

lemma slack_half: "t \<le> 2 ^ 34 \<Longrightarrow> of_nat t * (2 * drift) \<le> 1 / 2"
proof -
  assume "t \<le> 2 ^ 34"
  then have "(of_nat t :: rat) \<le> of_nat (2 ^ 34)" by (simp only: of_nat_le_iff)
  then show ?thesis by simp
qed

text \<open>Along a run no deficit is above 10, even before the turn.\<close>
lemma policy_run_held:
  assumes "finite U" "card U \<le> 4096" "policy_inv U s R" "s \<le> 1 / 2"
  shows "0 \<le> held (rcver_policy_states R) a" "held (rcver_policy_states R) a \<le> 96 / 10"
proof -
  show "0 \<le> held (rcver_policy_states R) a" using assms(3) by (intro held_nonneg) (simp add: policy_inv_def)
  show "held (rcver_policy_states R) a \<le> 96 / 10"
  proof (cases "a \<in> U")
    case True
    then have "held (rcver_policy_states R) a \<le> harmonic (card U) + s"
      using assms(3) by (intro shares_ok_bound) (simp_all add: policy_inv_def)
    then show ?thesis using harmonic_4096[OF assms(2)] assms(4) by simp
  next
    case False
    then have "a \<notin> fst ` set (rcver_policy_states R)" using assms(3) unfolding policy_inv_def by blast
    then show ?thesis by (simp add: held_out)
  qed
qed

section \<open>Properties\<close>

text \<open>C22: when a turn of the sender policy fails.  With up to 4096 receivers, a ratio up to 0.99,
  consistent tables and messages below 2^31 - 1 bytes, at any point of any run of up to 2^34 turns
  under the policies 0, 1 and 2, update\_policy\_state and select\_msg\_to\_send fail an assertion in
  one case only: the policy is 2, some receiver could be sent to, and none of these has data credit
  left.  Then no receiver comes first and the assertion that one does aborts the host.  In every other
  case all assertions hold, the recursion of the second ends, no deficit left is above 10, and a receiver
  that has credit for a message is chosen exactly if there is one.\<close>
theorem sender_policy_fails_iff:
  assumes "sorts_by unsent_bytes srt" "finite U" "card U \<le> 4096" "dbl r = r" "0 \<le> r" "r \<le> 99 / 100"
    and "policy_run srt pol U r t R" "t \<le> 2 ^ 34" "policy_ready pol R"
  shows "(policy_turn srt pol R = None \<longleftrightarrow> pol = 2 \<and> (\<exists>a. waiting R a) \<and>
      (\<forall>a rs. waiting R a \<and> map_of (remotes R) a = Some rs \<longrightarrow> avail_credit_data_bytes rs \<le> 0)) \<and>
    (\<forall>sel R'. policy_turn srt pol R = Some (sel, R') \<longrightarrow> (\<forall>e\<in>set (rcver_policy_states R'). deficit (snd e) \<le> 10) \<and>
      (case sel of None \<Rightarrow> \<forall>a. \<not> waiting R a | Some a \<Rightarrow> waiting R a))"
proof -
  have t: "t \<le> 2 ^ 34 + 1" using assms(8) by simp
  have first: "none_first pol R \<longleftrightarrow> pol = 2 \<and> (\<exists>a. waiting R a) \<and>
      (\<forall>a rs. waiting R a \<and> map_of (remotes R) a = Some rs \<longrightarrow> avail_credit_data_bytes rs \<le> 0)"
  proof -
    have "(\<forall>a. \<not> waiting_backed R a) \<longleftrightarrow>
        (\<forall>a rs. waiting R a \<and> map_of (remotes R) a = Some rs \<longrightarrow> avail_credit_data_bytes rs \<le> 0)"
    proof (rule iff_allI)
      fix a show "\<not> waiting_backed R a \<longleftrightarrow>
          (\<forall>rs. waiting R a \<and> map_of (remotes R) a = Some rs \<longrightarrow> avail_credit_data_bytes rs \<le> 0)"
        by (cases "map_of (remotes R) a") (auto simp: waiting_def waiting_backed_def backed_def not_less)
    qed
    then show ?thesis unfolding none_first_def by simp
  qed
  show ?thesis
  proof (cases "none_first pol R")
    case True
    then have "policy_turn srt pol R = None"
      using update_policy_state_fails[OF assms(1,9)] by (simp add: policy_turn_def)
    then show ?thesis using True unfolding first by simp
  next
    case False
    obtain sel R' where "policy_turn srt pol R = Some (sel, R')" "\<forall>e\<in>set (rcver_policy_states R'). deficit (snd e) \<le> 10"
      "case sel of None \<Rightarrow> \<forall>a. \<not> waiting R a | Some a \<Rightarrow> waiting R a"
      by (rule policy_turn_ok[OF assms(1-3) slack_half[OF assms(8)] policy_run_inv[OF assms(1-7) t, THEN conjunct1] assms(9) False])
    then show ?thesis using False unfolding first by simp
  qed
qed

text \<open>C23: no receiver starves.  A receiver that has credit for a message in every turn is passed
  over at most 21 N / (1 - r) times in a row, for N receivers and a share r of the link that goes
  by priority; so under the mixed policies too a long message is served while shorter ones keep
  coming.\<close>
theorem sender_policy_no_starvation:
  assumes "sorts_by unsent_bytes srt" "finite U" "card U \<le> 4096" "dbl r = r" "0 \<le> r" "r \<le> 99 / 100"
    and "policy_run srt pol U r t R" "passed_over srt pol U a R n R'" "t + n \<le> 2 ^ 34"
  shows "(1 - r) * of_nat n \<le> 21 * of_nat (card U)"
proof -
  have "policy_run srt pol U r (t + n) R' \<and>
    of_nat n * fsub 1 r \<le> 2 * of_nat (card U) * (held (rcver_policy_states R') a + of_nat n / 2 ^ 49)"
    using assms(8,9)
  proof (induction rule: passed_over.induct)
    case over_start
    have "t \<le> 2 ^ 34 + 1" "t \<le> 2 ^ 34" using assms(9) by simp_all
    then have "0 \<le> held (rcver_policy_states R) a"
      using policy_run_held(1)[OF assms(2,3) _ slack_half] policy_run_inv[OF assms(1-7)] by blast
    then show ?case using assms(7) by simp
  next
    case (over_world n R1 R2)
    have t: "t + n \<le> 2 ^ 34 + 1" using over_world.prems by simp
    have run: "policy_run srt pol U r (t + n) R1" using over_world by blast
    from policy_world_keeps(2)[OF policy_run_inv[OF assms(1-6) run t, THEN conjunct1] over_world.hyps(2)]
    show ?case using over_world run run_world[OF run over_world.hyps(2)] by simp
  next
    case (over_turn n R1 sel R2)
    have t: "t + n \<le> 2 ^ 34 + 1" "t + n \<le> 2 ^ 34" using over_turn.prems by simp_all
    have run: "policy_run srt pol U r (t + n) R1"
      "of_nat n * fsub 1 r \<le> 2 * of_nat (card U) * (held (rcver_policy_states R1) a + of_nat n / 2 ^ 49)"
      using over_turn.IH t(2) by blast+
    note inv = policy_run_inv[OF assms(1-6) run(1) t(1)]
    obtain sel' R2' where T: "policy_turn srt pol R1 = Some (sel', R2')"
      "\<And>a. waiting R1 a \<Longrightarrow> sel' \<noteq> Some a \<Longrightarrow> fs_weight R1 \<le> 2 * of_nat (card U) *
        (held (rcver_policy_states R2') a - held (rcver_policy_states R1) a + 1 / 2 ^ 49)"
      by (rule policy_turn_ok[OF assms(1-3) slack_half[OF t(2)] inv[THEN conjunct1] over_turn.hyps(2)
          policy_turn_first[OF assms(1) over_turn.hyps(2,4)]]) (erule that, blast)
    have eq: "sel' = sel" "R2' = R2" using T(1) over_turn.hyps(4) by simp_all
    have "fsub 1 r \<le> 2 * of_nat (card U) * (held (rcver_policy_states R2) a - held (rcver_policy_states R1) a + 1 / 2 ^ 49)"
      using T(2)[OF over_turn.hyps(3)] over_turn.hyps(5) inv unfolding eq by simp
    then have "of_nat (Suc n) * fsub 1 r \<le> 2 * of_nat (card U) * (held (rcver_policy_states R2) a + of_nat (Suc n) / 2 ^ 49)"
      using run(2) by (simp add: algebra_simps add_divide_distrib)
    then show ?case using run_turn[OF run(1) over_turn.hyps(2,4)] by simp
  qed
  then have run: "policy_run srt pol U r (t + n) R'"
    and le: "of_nat n * fsub 1 r \<le> 2 * of_nat (card U) * (held (rcver_policy_states R') a + of_nat n / 2 ^ 49)" by blast+
  have t: "t + n \<le> 2 ^ 34 + 1" using assms(9) by simp
  have h: "held (rcver_policy_states R') a \<le> 96 / 10"
    by (rule policy_run_held(2)[OF assms(2,3) policy_run_inv[OF assms(1-6) run t, THEN conjunct1] slack_half[OF assms(9)]])
  have "(of_nat n :: rat) \<le> of_nat (2 ^ 34)" using assms(9) by (simp only: of_nat_le_iff)
  then have "held (rcver_policy_states R') a + of_nat n / 2 ^ 49 \<le> 97 / 10" using h by simp
  then have c: "of_nat n * fsub 1 r \<le> 2 * of_nat (card U) * (97 / 10)"
    using le by (meson mult_left_mono mult_nonneg_nonneg of_nat_0_le_iff order_trans zero_le_numeral)
  have "(1 - r) * (1 - 1 / 2 ^ 53) \<le> fsub 1 r" using dbl_rounds_between(1)[of "1 - r"] assms(6) by (simp add: fsub_def)
  then have "of_nat n * ((1 - r) * (1 - 1 / 2 ^ 53)) \<le> of_nat n * fsub 1 r" by (rule mult_left_mono) simp
  moreover define Y where "Y = (1 - r) * of_nat n"
  moreover have "of_nat n * ((1 - r) * (1 - 1 / 2 ^ 53)) = Y * (1 - 1 / 2 ^ 53)"
    unfolding Y_def by (simp only: ac_simps)
  ultimately have "Y * (1 - 1 / 2 ^ 53) \<le> 2 * of_nat (card U) * (97 / 10)" using c by linarith
  then have "Y \<le> 21 * of_nat (card U)" by (simp add: field_simps)
  then show ?thesis by (simp only: Y_def)
qed

section \<open>Concrete inputs\<close>

text \<open>Two receivers, each with one message of 1000 bytes and credit for a full frame; half of the
  link goes by priority.\<close>
definition demo_hdr :: hdr_r2p2 where
  "demo_hdr = \<lparr>r_msg_type = REQUEST, r_seq = 0, r_msg_offset = 0, r_first = True, r_last = False, r_req_id = 7, r_pkt_id = 0,
     r_cl_addr = 0, r_cl_thread_id = 0, r_sr_addr = 1, r_sr_thread_id = 0, r_app_level_id = 7, r_credit = 0,
     r_resend_bytes = 0, r_credit_pad = 0, r_credit_req = 0, r_msg_creation_time = 1, r_sender_marked = False,
     r_bounced_credit = False, r_is_unsol_pkt = False, r_unsol_credit = 0, r_unsol_credit_data = 0,
     r_used_unsol_credit = False, r_has_scheduled_part = True, r_priority_flow = False, r_bw_ratio = -1\<rparr>"

definition demo_msg :: "int \<Rightarrow> OutboundMsgState" where
  "demo_msg a = (OutboundMsgState_ctor (0, 0, 7) a demo_hdr)\<lparr>total_bytes := 1000, unsent_bytes := 1000, active := True\<rparr>"

definition demo_rcver :: "int \<Rightarrow> HostReceiverState" where
  "demo_rcver a = (HostReceiverState_ctor a)\<lparr>avail_credit_bytes := 1538, avail_credit_data_bytes := 1458,
     out_msgs := append_msg (demo_msg a) msgs_ctor\<rparr>"

definition demo_start :: Receivers where
  "demo_start = Receivers_ctor\<lparr>fs_weight := 1 / 2, srpt_weight := 1 / 2\<rparr>"

definition demo_rcvers :: Receivers where
  "demo_rcvers = demo_start\<lparr>remotes := [(1, demo_rcver 1), (2, demo_rcver 2)],
     rcver_policy_states := [(1, PolicyState_ctor), (2, PolicyState_ctor)]\<rparr>"

lemma demo_srt: "sorts_by unsent_bytes (sort_key unsent_bytes)"
  by (simp add: sorts_by_def)

lemma demo_sel:
  "rcver_policy_states demo_rcvers = [(1, PolicyState_ctor), (2, PolicyState_ctor)]"
  "remotes demo_rcvers = [(1, demo_rcver 1), (2, demo_rcver 2)]"
  "msgs (out_msgs (demo_rcver a)) = [demo_msg a]" "avail_credit_bytes (demo_rcver a) = 1538"
  "avail_credit_data_bytes (demo_rcver a) = 1458" "unsent_bytes (demo_msg a) = 1000" "deficit PolicyState_ctor = 0"
  by (simp_all add: demo_rcvers_def demo_rcver_def HostReceiverState_ctor_def append_msg_def msgs_ctor_def demo_msg_def
      PolicyState_ctor_def)

lemma demo_work: "has_work (demo_rcver a)"
proof -
  have "ucast (wire_need 1000) \<le> (word_of_int 1538 :: u64)" by code_simp
  then show ?thesis by (simp add: has_work_def has_credit_for_def demo_sel)
qed

lemma demo_ready: "policy_ready 1 demo_rcvers"
proof -
  have "comparable (demo_rcver a)" for a by (simp add: comparable_def demo_sel MAXINT_def)
  then show ?thesis by (simp add: policy_ready_def demo_sel)
qed

lemma demo_waiting: "waiting demo_rcvers 1" "waiting demo_rcvers 2"
  by (simp_all add: waiting_def demo_sel demo_work)

lemma demo_half: "dbl (1 / 2) = 1 / 2"
  using dbl_pow2[of "- int 1"] by (simp only: pow2_minus) simp

lemma demo_first: "\<not> none_first 1 demo_rcvers" by (simp add: none_first_def)

lemma demo_run: "policy_run (sort_key unsent_bytes) pol {1, 2} (1 / 2) 0 demo_rcvers"
proof (rule run_world)
  have w: "fsub 1 (1 / 2) = 1 / 2" "fsub 1 (fadd (1 / 2) (1 / 2)) = 0"
    using demo_half dbl_of_nat[of 1] by (simp_all add: fsub_def fadd_def)
  then show "policy_run (sort_key unsent_bytes) pol {1, 2} (1 / 2) 0 demo_start"
    using dbl_millionth(1) unfolding demo_start_def by (intro run_start) (unfold set_policy_weights_def w, simp)
  show "policy_world {1, 2} demo_start demo_rcvers"
    by (simp add: policy_world_def demo_sel) (simp add: demo_rcvers_def demo_start_def Receivers_ctor_def)
qed

text \<open>The same receivers, when neither has data credit left.\<close>
definition demo_dry :: Receivers where
  "demo_dry = demo_rcvers\<lparr>remotes := [(1, (demo_rcver 1)\<lparr>avail_credit_data_bytes := 0\<rparr>), (2, (demo_rcver 2)\<lparr>avail_credit_data_bytes := 0\<rparr>)]\<rparr>"

lemma demo_dry_sel:
  "rcver_policy_states demo_dry = rcver_policy_states demo_rcvers"
  "remotes demo_dry = [(1, (demo_rcver 1)\<lparr>avail_credit_data_bytes := 0\<rparr>), (2, (demo_rcver 2)\<lparr>avail_credit_data_bytes := 0\<rparr>)]"
  by (simp_all add: demo_dry_def)

lemma demo_dry_run: "policy_run (sort_key unsent_bytes) pol {1, 2} (1 / 2) 0 demo_dry"
  by (rule run_world[OF demo_run]) (simp add: policy_world_def demo_dry_sel, simp add: demo_sel demo_dry_def)

lemma demo_dry_ready: "policy_ready 2 demo_dry"
proof -
  have "comparable ((demo_rcver a)\<lparr>avail_credit_data_bytes := 0\<rparr>)" for a by (simp add: comparable_def demo_sel MAXINT_def)
  then show ?thesis by (simp add: policy_ready_def demo_dry_sel demo_sel(1,7))
qed

lemma demo_dry_waiting: "waiting demo_dry 1"
proof -
  have "has_work ((demo_rcver 1)\<lparr>avail_credit_data_bytes := 0\<rparr>)"
    using demo_work[of 1] by (simp add: has_work_def has_credit_for_def)
  then show ?thesis by (simp add: waiting_def demo_dry_sel demo_sel(1))
qed

theorem sender_policy_fails_iff_witness:
  "(\<exists>a R'. policy_turn (sort_key unsent_bytes) 1 demo_rcvers = Some (Some a, R') \<and>
     (\<forall>e\<in>set (rcver_policy_states R'). deficit (snd e) \<le> 10) \<and> waiting demo_rcvers a) \<and>
   policy_turn (sort_key unsent_bytes) 2 demo_dry = None"
proof
  have r: "(0 :: rat) \<le> 1 / 2" "(1 / 2 :: rat) \<le> 99 / 100" by simp_all
  have U: "finite {1 :: int, 2}" "card {1 :: int, 2} \<le> 4096" by simp_all
  note T = sender_policy_fails_iff[OF demo_srt U demo_half r demo_run _ demo_ready]
  obtain sel R' where "policy_turn (sort_key unsent_bytes) 1 demo_rcvers = Some (sel, R')"
    using T by (cases "policy_turn (sort_key unsent_bytes) 1 demo_rcvers") auto
  then show "\<exists>a R'. policy_turn (sort_key unsent_bytes) 1 demo_rcvers = Some (Some a, R') \<and>
     (\<forall>e\<in>set (rcver_policy_states R'). deficit (snd e) \<le> 10) \<and> waiting demo_rcvers a"
    using T demo_waiting(1) by (cases sel) auto
  have "avail_credit_data_bytes rs \<le> 0" if "map_of (remotes demo_dry) a = Some rs" for a rs
    using that by (auto simp: demo_dry_sel split: if_splits)
  then show "policy_turn (sort_key unsent_bytes) 2 demo_dry = None"
    using sender_policy_fails_iff[OF demo_srt U demo_half r demo_dry_run _ demo_dry_ready] demo_dry_waiting by fastforce
qed

theorem sender_policy_no_starvation_witness:
  "\<exists>a R'. passed_over (sort_key unsent_bytes) 1 {1, 2} a demo_rcvers 1 R' \<and>
     (1 - 1 / 2) * of_nat 1 \<le> (21 * of_nat (card {1 :: int, 2}) :: rat)"
proof -
  have r: "(0 :: rat) \<le> 1 / 2" "(1 / 2 :: rat) \<le> 99 / 100" by simp_all
  have U: "finite {1 :: int, 2}" "card {1 :: int, 2} \<le> 4096" by simp_all
  have inv: "policy_inv {1, 2} 0 demo_rcvers" using policy_run_inv[OF demo_srt U demo_half r demo_run] by simp
  obtain sel R' where T: "policy_turn (sort_key unsent_bytes) 1 demo_rcvers = Some (sel, R')"
    by (rule policy_turn_ok[OF demo_srt U _ inv demo_ready demo_first]) (simp, blast)
  define a :: int where "a = (if sel = Some 1 then 2 else 1)"
  have "waiting demo_rcvers a" "sel \<noteq> Some a" using demo_waiting by (auto simp: a_def)
  from over_turn[OF over_start demo_ready this(1) T this(2)]
  have p: "passed_over (sort_key unsent_bytes) 1 {1, 2} a demo_rcvers 1 R'" by simp
  show ?thesis using p sender_policy_no_starvation[OF demo_srt U demo_half r demo_run p] by fastforce
qed

text \<open>Beyond the hypotheses the assertions do fail: when all of the link goes by priority and the
  receiver with the smaller message is not the first visited.\<close>
lemma sender_policy_limits_priority:
  "policy_turn (sort_key unsent_bytes) 1
     (demo_rcvers\<lparr>fs_weight := 0, srpt_weight := 1,
        remotes := [(1, demo_rcver 1),
          (2, (demo_rcver 2)\<lparr>out_msgs := append_msg ((demo_msg 2)\<lparr>unsent_bytes := 500\<rparr>) msgs_ctor\<rparr>)]\<rparr>) = None"
  by (code_simp, subst select_msg_to_send.simps, code_simp)

end
