(* ===== verification/Spec2Isabelle.thy ===== *)
theory Spec2Isabelle
  imports SwitchFlow EgressQueue PPass RdmaHistory RdmaBounce RdmaProgress RdmaAnswer RdmaSeq QbbServe PacketBytes FlowRecovery HybridTurns
begin

text \<open>
  DPDQ is a receiver-driven credit transport for data centres.  The repository holds it twice
  (in the ns-2 and in the ns-3 simulator) and as a P4 prototype.  This development models the
  code the authors wrote for DPDQ in the two simulators, together with the simulator parts
  that code leans on.  Paths below are relative to \<^verbatim>\<open>src/dpdq-ns3/src/\<close>
  (the default) or \<^verbatim>\<open>src/dpdq-ns2/ns2.34/ns-2.34/\<close> (marked ns-2).

  The parts and how they interact.  A sending host (\<^verbatim>\<open>RdmaHw\<close>) splits a
  message into chunks of one MTU.  A short message carries self-allocated credit and leaves at
  once; a long one is announced and waits for grants.  The receiving host keeps an account per
  sender, grants credit at a pace, shrinks or grows each sender's limit by AIMD on the marks
  it sees, records the chunks that arrive in a bitmap, asks for the missing ones after a
  timeout, and reports the message once.  A switch queues grants and data apart, routes the
  data back over the links of its grants, and turns a grant around (a bounced grant, which
  restores the receiver's accounts) when the link its data would take is congested.  The
  switch's buffer managers admit packets, charge them to their ports and decide PFC pauses.
  In ns-2 a DPDQ port is one queue discipline with a credit queue before a data queue; PPass
  is the rival discipline it is compared with.

  Shared theories.
    Prelude: machine integers of the sources (\<open>u8\<close> to \<open>u64\<close>), results of fallible code, words, lists.
    Doubles: floating-point arithmetic as rationals rounded to a 53- or 64-bit significand.
    CStrings: atoi, strtoull and number printing of the C library.
    Admission: the locale \<open>admission\<close>, the contract of a buffer manager with its switch; it is
      interpreted four times, for the credit and the data side of CbMmu and for the egress and
      the ingress side of SwitchMmu.  A run admits packets and lets them leave in any order.

  ns-2.
    PacketQueue (ns-2 \<^verbatim>\<open>queue/queue.{h,cc}\<close>, class PacketQueue): the linked list in a heap
      of packets; every operation refines the operation on lists.
    Ns2Queue (the same files, class Queue, and the idle test of \<^verbatim>\<open>common/node.cc\<close>): recv, resume,
      reset, the command handler; the locale \<open>packet_fifo\<close> (interpreted on PacketQueue) and
      the locale \<open>qdisc\<close>, the contract of a discipline, in which conservation of packets and of
      work is proved once.
    R2p2Sizes (ns-2 \<^verbatim>\<open>apps/r2p2-cc/r2p2/core/r2p2.h\<close>, \<^verbatim>\<open>r2p2-hdr.h\<close>): frame sizes and message types.
    DpdqQueue (ns-2 \<^verbatim>\<open>queue/dpdq-queue.{h,cc}\<close>) and PPass (ns-2 \<^verbatim>\<open>queue/ppass-queue.{h,cc}\<close>,
      \<^verbatim>\<open>queue/ppass-state.{h,cc}\<close>): the two disciplines, both interpretations of \<open>qdisc\<close>; order within
      a class, priority of credit, limits, the one exception, and the phantom queue.

  The switch of ns-3.
    CbMmu (\<^verbatim>\<open>point-to-point/model/switch-cb-mmu.{h,cc}\<close>): the dedicated DPDQ buffer
      manager.  Its calls form the relations \<open>cb_traffic\<close> and \<open>cb_call\<close>; the pool is never overcommitted
      and the configuration stays coherent on every run.
    SwitchMmu (\<^verbatim>\<open>point-to-point/model/switch-mmu.{h,cc}\<close>): the lossless buffer manager, its
      accounting under any configuration made before traffic (\<open>mmu_configured\<close>) against a
      specification that knows the packets only, and its PFC decisions.
    CbTag (\<^verbatim>\<open>point-to-point/model/creditbouncer-tag.{h,cc}\<close>, \<^verbatim>\<open>network/model/tag-buffer.{h,cc}\<close>):
      the tag of credit packets, its classifiers, its bytes.
    IntHeader (\<^verbatim>\<open>network/utils/int-header.{h,cc}\<close>): the telemetry a switch pushes.
    SwitchNode (\<^verbatim>\<open>point-to-point/model/switch-node.{h,cc}\<close>): routing, flow control, queue choice,
      admission, PFC, departure.  SwitchFlow: the properties of the node, alone and with CbMmu.
    EgressQueue (\<^verbatim>\<open>network/utils/queue.{h,cc}\<close>, \<^verbatim>\<open>drop-tail-queue.{h,cc}\<close>,
      \<^verbatim>\<open>broadcom-egress-queue.{h,cc}\<close>): the eight queues of a port; they refine eight lists served
      with a priority class and round robin; of the classes behind the priority class none that is
      not paused starves but by packets of that class.

  The host of ns-3 (\<^verbatim>\<open>point-to-point/model/rdma-hw.{h,cc}\<close>, \<^verbatim>\<open>rdma-queue-pair.{h,cc}\<close>).
    RdmaCredit: the cost of a payload on the wire and its inverse.
    RdmaState: configuration, queue pairs in a store of references, tables, NIC choice, packets
      built, the outputs a host emits.
    RdmaReceiver: AIMD, accounts, the grant pacer, completion, the resend timer.
    RdmaSender: classification, GetNxtPacket, the round-robin choice of the next queue pair, the
      answers to grants, resend requests and completions.
    RdmaChoice: the mixed policy of GetNextCreditBouncerQindex, deficit sharing between receivers
      with the shortest message of each first; it serves when something can be sent, and with a
      ratio of 1 the shortest, unless ties have left a receiver a deficit above 1.  The class of a queue
      pair indexes a table of eight pause flags unchecked; the read fails past its end (\<open>paused_at\<close>), and
      the theorems that rest on the choice are for classes below 8 (\<open>qps_ok\<close>).  The locale \<open>choice_keeps\<close> turns a property that writes to queue
      pairs and peers keep into one the choice keeps; RdmaHost, RdmaLedger and QbbServe interpret it.
    RdmaOffer: what the choice offers, GetNxtPacket sends.
    RdmaHost: the dispatch of credit packets (\<open>host_step\<close>), the runs of a host (\<open>host_reaches\<close>),
      and the locale \<open>host_invariant\<close>, which turns an invariant that steps keep into a fact
      of every run; RdmaHost, RdmaLedger and RdmaTables interpret it with their invariants.
    RdmaMessages, RdmaLedger, RdmaTables: the message at the receiver (bitmap, counters, one
      report), the credit accounts and their limits, the agreement of the tables.
    RdmaHistory: runs together with the packets that arrived (\<open>host_hears\<close>); the bitmap is the set
      of chunks that arrived, and what is reported is stated in terms of the arrivals alone.
    RdmaGrants: what one pacer tick grants, and that it grants whenever it may.
      RdmaBounce: a grant, bounced by a switch, restores the accounts.
    RdmaResend, RdmaAnswer: exactly the missing granted chunks are asked for, and exactly those
      sent before are resent.
    RdmaSending: the packets of a queue pair are its chunks in order, and enough credit sends
      the message.  RdmaProgress: no event makes a host fail an assertion.
    IrnSack, RdmaSeq: the table of selective acknowledgements and ReceiverCheckSeq, with the
      locale \<open>chunk_receiver\<close> for a receiver that is handed the chunks of a message in any order,
      interpreted for IRN and for go-back-N.
    RdmaExamples: the hosts at which the properties are applied.

  The network interface of a host (\<^verbatim>\<open>point-to-point/model/qbb-net-device.{h,cc}\<close>).
    QbbNic: the queue of acknowledgements, the choice of what is served, transmission, PFC pauses,
      wake-ups, and its runs under the simulator's clock (\<open>nic_reaches\<close>).
    QbbWire: the invariant of a run; one packet at a time on the wire.
    QbbServe: which events fail, and that the interface of a DPDQ host sends whenever it may.

  The bytes on the wire.
    HeaderBytes: the reads and writes of a buffer (\<^verbatim>\<open>network/model/buffer.{h,cc}\<close>), the
      headers that hosts, switches and interfaces add (PPP, IPv4, UDP, SeqTs, qbb, cn, pause and the
      telemetry of IntHeader), the parse of \<^verbatim>\<open>network/utils/custom-header.cc\<close>, the packets
      built in \<^verbatim>\<open>rdma-hw.cc\<close> and \<^verbatim>\<open>qbb-net-device.cc\<close>, and what
      \<^verbatim>\<open>switch-node.cc\<close> rewrites in them.
    PacketBytes: the packet records of the models stand for those bytes (the relation
      \<open>in_flight\<close>), and the feedback frames parse to what was built.

  The transports without credit, which DPDQ is compared with and which share its host, its queue
  pairs and its NIC (\<^verbatim>\<open>rdma-hw.cc\<close>).
    Dcqcn: the reaction point of DCQCN, its timers and its byte counter (\<^verbatim>\<open>*Mlx\<close>); the
      rate stays in its range on every run, and comes back to the line rate when notices stop.
    NoticePoint: when a receiver sends a congestion notice; paced, and no mark is lost as long as
      its 16-bit packet counter does not wrap between two notices.
    AckRates: HPCC, TIMELY and DCTCP, driven by acknowledgements; whatever those say the rate stays
      in its range.
    AckTransport: ReceiveUdp, ReceiveAck, ReceiveCnp and the timeout on a queue pair and on a host,
      for go-back-N and IRN with any of the rate controls.
    FlowSender, FlowDelivery: a message over a network that may lose, repeat and reorder packets, as
      the relation \<open>flow_step\<close> on both queue pairs and all packets ever sent.  The locale
      \<open>sound_receiver\<close> extends \<open>chunk_receiver\<close> of RdmaSeq by the bytes a receiver has, and is interpreted
      for IRN and for go-back-N: what is reported complete has arrived, and no assertion fails.
    FlowRecovery: go-back-N completes after any losses, in a bounded number of round trips.

  The DPDQ host of ns-2, whose uplink several receivers share (ns-2
  \<^verbatim>\<open>apps/r2p2-cc/r2p2/cc/micro-rpcs/r2p2-hybrid-support.{h,cc}\<close>, paths there).
    HybridMsgs: headers, messages, and the vectors with a round-robin position that hold them.
    HybridPolicy: the receivers a host sends to, and the sender policy: which message each puts
      forward (\<open>want_to_send\<close>), the quanta (\<open>update_policy_state\<close>), the choice (\<open>select_msg_to_send\<close>).
    Rounding, DeficitGame: the error of one rounding, and deficits that are filled and emptied:
      what the proofs about the policy rest on.
    HybridFair, HybridTurns: a turn of \<^verbatim>\<open>send_data\<close> (\<^verbatim>\<open>r2p2-cc-hybrid.cc\<close>) decides to whom; between
      turns receivers, messages and credit change at will (\<open>policy_run\<close>).  For up to 4096
      receivers and 2^34 turns (at 1.5 kB a packet, 25 TB sent by one host) an assertion fails in one
      case only, which is stated (policy 2, work, but no data credit left), and no receiver with work
      is passed over for long.  The bounds keep the harmonic number of the
      receivers and the accumulated rounding below 10, the limit the code asserts.
      std::sort is a parameter that sorts (\<open>sorts_by\<close>).

  Conventions.  Integers keep their C width, wrap-around included; ports, references and table
  indices, on which the code does no arithmetic, are natural numbers.  A failed assertion or an
  access the language leaves undefined is None (or \<open>Fail\<close> in the ns-2 theories), so a theorem
  that states \<open>= Some _\<close> also states that no assertion fails.  Loops are structural recursions over
  the lists or over counters that the code bounds, or have a measure; no fuel is used.  Loops over the pointers of a
  queue, which may be cyclic, the drain loop of ns-2's \<^verbatim>\<open>Queue::reset\<close> and the recursion of
  \<open>select_msg_to_send\<close> are
  \<open>partial_function (option)\<close>, where None is a loop that does not end; the theorems about them
  show that they return.  The clock, random draws, the order in which an unordered map is visited
  and indeterminate memory are arguments.  Doubles have no exponent limits: no infinity, no NaN,
  no subnormal.  Traces and debug lines, which have no effect on the state, are left out.

  Not modelled.  TLT, which marks packets of the baselines as important and forces their
  retransmission: its packet lists, tags and fields are left out, and it is off.  The switch
  side of the network interface, which only calls the egress queue and the switch node, the
  propagation delay of the link (\<^verbatim>\<open>qbb-channel.cc\<close>), \<^verbatim>\<open>flow-stat-tag.cc\<close>
  (statistics), and the readers and writers of headers that nothing calls.  The rest of the
  ns-2 DPDQ host (packet building, its receiver, resends and AIMD, which the ns-3 host holds again)
  and the transports it is compared with in ns-2 (R2P2, Homa, ExpressPass, pFabric).  The simulators
  themselves, their vendored packages and the scripts, which hold no logic of DPDQ, and the P4
  prototype under \<^verbatim>\<open>src/tofino\<close>.
\<close>

end
